(* ===== verification/HK_Prelude.thy ===== *)
theory HK_Prelude
  imports Main "HOL-Library.Word" "HOL-Library.Monad_Syntax"
begin

text \<open>
  Shared vocabulary of the development: the machine types of the code, reads of memory that
  fail outside the readable bytes, the allocator, and the lemma collections the component
  theories use.

  \<^item> A pointer is a 64-bit address, \<open>0\<close> is NULL. Memory is a partial function from addresses to
    bytes; a read of an address that is not mapped is \<open>None\<close>, which is the model's value for an
    out-of-bounds access. A function that dereferences pointers therefore has an
    \<open>option\<close> result, and "never reads out of bounds" is "is never \<open>None\<close>".
  \<^item> \<open>size_t\<close> values that index a buffer are \<open>nat\<close>: the code checks each one against the size of
    its buffer before use, so no such computation can wrap. Integers read from a file or given by
    a caller keep their width.
  \<^item> The C allocator is a list of the outcomes of the calls still to come
    (\<open>True\<close>: the call succeeds), so every out-of-memory branch of the code is a branch of the
    model. When the list runs out, every further call succeeds.
\<close>

unbundle bit_operations_syntax

named_theorems hk_defs \<open>definitions a component's proofs unfold together\<close>
named_theorems hk_read \<open>when reads of memory succeed\<close>
named_theorems hk_frame \<open>fields an operation leaves alone\<close>

type_synonym byte = "8 word"
type_synonym u16 = "16 word"
type_synonym u32 = "32 word"
type_synonym u64 = "64 word"
type_synonym ptr = "64 word"
type_synonym memory = "ptr \<Rightarrow> byte option"

section \<open>The allocator\<close>

type_synonym heap = "bool list"

definition hk_alloc :: "heap \<Rightarrow> bool \<times> heap" where
  "hk_alloc h = (case h of [] \<Rightarrow> (True, []) | b # h' \<Rightarrow> (b, h'))"

lemma hk_alloc_simps [simp]:
  "hk_alloc [] = (True, [])"
  "hk_alloc (b # h) = (b, h)"
  by (simp_all add: hk_alloc_def)

section \<open>Reading memory\<close>

text \<open>
  \<open>rd8 m p i\<close> is \<open>p[i]\<close> for \<open>const uint8_t *p\<close>. The wider reads are the code's
  \<open>memcpy\<close> into a local: little-endian, at any alignment. Big-endian reads are the
  shift-and-or of \<open>read_be32\<close> and \<open>read_be64\<close>.
\<close>

definition rd8 :: "memory \<Rightarrow> ptr \<Rightarrow> nat \<Rightarrow> byte option" where
  "rd8 m p i = m (p + of_nat i)"

definition rd16 :: "memory \<Rightarrow> ptr \<Rightarrow> nat \<Rightarrow> u16 option" where
  "rd16 m p i = do {
     b0 \<leftarrow> rd8 m p i; b1 \<leftarrow> rd8 m p (i + 1);
     Some (ucast b0 OR push_bit 8 (ucast b1)) }"

definition rd32 :: "memory \<Rightarrow> ptr \<Rightarrow> nat \<Rightarrow> u32 option" where
  "rd32 m p i = do {
     b0 \<leftarrow> rd8 m p i; b1 \<leftarrow> rd8 m p (i + 1);
     b2 \<leftarrow> rd8 m p (i + 2); b3 \<leftarrow> rd8 m p (i + 3);
     Some (ucast b0 OR push_bit 8 (ucast b1) OR push_bit 16 (ucast b2)
           OR push_bit 24 (ucast b3)) }"

definition rd64 :: "memory \<Rightarrow> ptr \<Rightarrow> nat \<Rightarrow> u64 option" where
  "rd64 m p i = do {
     lo \<leftarrow> rd32 m p i; hi \<leftarrow> rd32 m p (i + 4);
     Some (ucast lo OR push_bit 32 (ucast hi)) }"

definition rd_be32 :: "memory \<Rightarrow> ptr \<Rightarrow> nat \<Rightarrow> u32 option" where
  "rd_be32 m p i = do {
     b0 \<leftarrow> rd8 m p i; b1 \<leftarrow> rd8 m p (i + 1);
     b2 \<leftarrow> rd8 m p (i + 2); b3 \<leftarrow> rd8 m p (i + 3);
     Some (push_bit 24 (ucast b0) OR push_bit 16 (ucast b1) OR push_bit 8 (ucast b2)
           OR ucast b3) }"

definition rd_be64 :: "memory \<Rightarrow> ptr \<Rightarrow> nat \<Rightarrow> u64 option" where
  "rd_be64 m p i = do {
     hi \<leftarrow> rd_be32 m p i; lo \<leftarrow> rd_be32 m p (i + 4);
     Some (push_bit 32 (ucast hi) OR ucast lo) }"

primrec rd_bytes :: "memory \<Rightarrow> ptr \<Rightarrow> nat \<Rightarrow> nat \<Rightarrow> byte list option" where
  "rd_bytes m p i 0 = Some []"
| "rd_bytes m p i (Suc n) = do {
     b \<leftarrow> rd8 m p i; bs \<leftarrow> rd_bytes m p (i + 1) n; Some (b # bs) }"

text \<open>\<open>readable m p n\<close>: the \<open>n\<close> bytes at \<open>p\<close> are mapped.\<close>

definition readable :: "memory \<Rightarrow> ptr \<Rightarrow> nat \<Rightarrow> bool" where
  "readable m p n \<longleftrightarrow> (\<forall>i < n. rd8 m p i \<noteq> None)"

text \<open>The memory that holds exactly the bytes \<open>bs\<close> at address \<open>base\<close>.\<close>

definition mem_of :: "ptr \<Rightarrow> byte list \<Rightarrow> memory" where
  "mem_of base bs a = (let i = unat (a - base) in if i < length bs then Some (bs ! i) else None)"

lemma readableD [hk_read]: "readable m p n \<Longrightarrow> i < n \<Longrightarrow> \<exists>b. rd8 m p i = Some b"
  by (simp add: readable_def)

lemma readable_mono: "readable m p n \<Longrightarrow> k \<le> n \<Longrightarrow> readable m p k"
  by (simp add: readable_def)

lemma readable_offset: "readable m p n \<Longrightarrow> i + k \<le> n \<Longrightarrow> readable m (p + of_nat i) k"
  by (auto simp: readable_def rd8_def add.assoc simp flip: of_nat_add)

lemma readable_rd16 [hk_read]: "readable m p n \<Longrightarrow> i + 2 \<le> n \<Longrightarrow> \<exists>v. rd16 m p i = Some v"
proof -
  assume "readable m p n" "i + 2 \<le> n"
  then have "\<exists>b. rd8 m p i = Some b" "\<exists>b. rd8 m p (i + 1) = Some b"
    by (simp_all add: readableD)
  then show ?thesis by (auto simp: rd16_def)
qed

lemma readable_rd32 [hk_read]: "readable m p n \<Longrightarrow> i + 4 \<le> n \<Longrightarrow> \<exists>v. rd32 m p i = Some v"
proof -
  assume "readable m p n" "i + 4 \<le> n"
  then have "\<exists>b. rd8 m p i = Some b" "\<exists>b. rd8 m p (i + 1) = Some b"
    "\<exists>b. rd8 m p (i + 2) = Some b" "\<exists>b. rd8 m p (i + 3) = Some b"
    by (simp_all add: readableD)
  then show ?thesis by (auto simp: rd32_def)
qed

lemma readable_rd_be32 [hk_read]: "readable m p n \<Longrightarrow> i + 4 \<le> n \<Longrightarrow> \<exists>v. rd_be32 m p i = Some v"
proof -
  assume "readable m p n" "i + 4 \<le> n"
  then have "\<exists>b. rd8 m p i = Some b" "\<exists>b. rd8 m p (i + 1) = Some b"
    "\<exists>b. rd8 m p (i + 2) = Some b" "\<exists>b. rd8 m p (i + 3) = Some b"
    by (simp_all add: readableD)
  then show ?thesis by (auto simp: rd_be32_def)
qed

lemma readable_rd64 [hk_read]: "readable m p n \<Longrightarrow> i + 8 \<le> n \<Longrightarrow> \<exists>v. rd64 m p i = Some v"
  using readable_rd32 [of m p n i] readable_rd32 [of m p n "i + 4"] by (auto simp: rd64_def)

lemma readable_rd_be64 [hk_read]: "readable m p n \<Longrightarrow> i + 8 \<le> n \<Longrightarrow> \<exists>v. rd_be64 m p i = Some v"
  using readable_rd_be32 [of m p n i] readable_rd_be32 [of m p n "i + 4"]
  by (auto simp: rd_be64_def)

lemma readable_rd_bytes [hk_read]:
  "readable m p n \<Longrightarrow> i + k \<le> n \<Longrightarrow> \<exists>bs. rd_bytes m p i k = Some bs \<and> length bs = k"
proof (induction k arbitrary: i)
  case 0
  then show ?case by simp
next
  case (Suc k)
  then obtain b where "rd8 m p i = Some b" using readableD [of m p n i] by auto
  moreover obtain bs where "rd_bytes m p (i + 1) k = Some bs" "length bs = k"
    using Suc.IH [of "i + 1"] Suc.prems by auto
  ultimately show ?case by simp
qed

lemma rd8_mem_of:
  "length bs < 2 ^ 64 \<Longrightarrow> i < length bs \<Longrightarrow> rd8 (mem_of base bs) base i = Some (bs ! i)"
  by (simp add: rd8_def mem_of_def Let_def unat_of_nat take_bit_nat_eq_self)

lemma readable_mem_of: "length bs < 2 ^ 64 \<Longrightarrow> readable (mem_of base bs) base (length bs)"
  by (simp add: readable_def rd8_mem_of)

section \<open>Lists and words\<close>

lemma find_index_less: "x \<in> set xs \<Longrightarrow> \<exists>i < length xs. xs ! i = x"
  by (simp add: in_set_conv_nth)

text \<open>Index of the first element satisfying a predicate, as the code's search loops return it.\<close>

primrec first_index :: "('a \<Rightarrow> bool) \<Rightarrow> 'a list \<Rightarrow> nat option" where
  "first_index P [] = None"
| "first_index P (x # xs) = (if P x then Some 0 else map_option Suc (first_index P xs))"

lemma first_index_SomeD:
  "first_index P xs = Some i \<Longrightarrow> i < length xs \<and> P (xs ! i) \<and> (\<forall>j < i. \<not> P (xs ! j))"
  by (induction xs arbitrary: i) (auto simp: less_Suc_eq_0_disj split: if_splits)

lemma first_index_None: "first_index P xs = None \<longleftrightarrow> (\<forall>x \<in> set xs. \<not> P x)"
  by (induction xs) auto

text \<open>
  The bit masks of the ABI (reachability, effects, constraints) are read through \<open>bit\<close>; a mask
  is contained in another when no bit is left after masking the other away.
\<close>

lemma mask_subset_iff: "a AND NOT b = 0 \<longleftrightarrow> (\<forall>n. bit a n \<longrightarrow> bit b n)" for a b :: "'a::len word"
  by (metis (no_types, lifting) bit_0_eq bit_and_iff bit_eq_iff bit_imp_le_length bit_not_iff
      bot_apply bot_bool_def not_le possible_bit_word)

lemma mask_subset_and: "a AND NOT c = 0 \<Longrightarrow> a AND NOT d = 0 \<Longrightarrow> a AND NOT (c AND d) = 0"
  for a c d :: "'a::len word"
  by (simp add: mask_subset_iff bit_and_iff del: bit.de_Morgan_conj)

section \<open>Little-endian bytes\<close>

text \<open>\<open>le_bytes n w\<close>: the first \<open>n\<close> bytes of an object holding \<open>w\<close>, as \<open>memcpy\<close> copies them.\<close>

definition le_bytes :: "nat \<Rightarrow> 'a::len word \<Rightarrow> byte list" where
  "le_bytes n w = map (\<lambda>i. ucast (drop_bit (8 * i) w)) [0..<n]"

lemma length_le_bytes [simp]: "length (le_bytes n w) = n"
  by (simp add: le_bytes_def)

text \<open>Words in memory, by their bytes.\<close>

lemma word_bytes_nth: "i < length ws \<Longrightarrow> k < 4 \<Longrightarrow> concat (map (le_bytes 4) ws) ! (4 * i + k) = le_bytes 4 (ws ! i) ! k"
proof (induction ws arbitrary: i)
  case (Cons w ws)
  have l: "length (le_bytes 4 w) = 4" by (simp add: le_bytes_def)
  show ?case
  proof (cases i)
    case 0
    then show ?thesis using Cons.prems l by (simp add: nth_append)
  next
    case (Suc j)
    then have "concat (map (le_bytes 4) (w # ws)) ! (4 * i + k) = concat (map (le_bytes 4) ws) ! (4 * j + k)"
      using l by (simp add: nth_append)
    then show ?thesis using Cons.IH [of j] Cons.prems Suc by simp
  qed
qed simp

lemma word_bytes_length: "length (concat (map (le_bytes 4) ws)) = 4 * length ws"
  by (simp add: length_concat comp_def le_bytes_def sum_list_triv)

lemma rd32_bytes:
  assumes "\<And>k. k < 4 \<Longrightarrow> rd8 m p (i + k) = Some (le_bytes 4 w ! k)"
  shows "rd32 m p i = Some w"
proof -
  have "ucast (le_bytes 4 w ! 0) OR push_bit 8 (ucast (le_bytes 4 w ! 1)) OR push_bit 16 (ucast (le_bytes 4 w ! 2)) OR
      push_bit 24 (ucast (le_bytes 4 w ! 3)) = w"
  proof (rule bit_word_eqI)
    fix n assume "n < LENGTH(32)"
    then consider "n < 8" | "8 \<le> n" "n < 16" | "16 \<le> n" "n < 24" | "24 \<le> n" "n < 32" by fastforce
    then show "bit ((ucast (le_bytes 4 w ! 0) :: u32) OR push_bit 8 (ucast (le_bytes 4 w ! 1)) OR push_bit 16 (ucast (le_bytes 4 w ! 2)) OR
      push_bit 24 (ucast (le_bytes 4 w ! 3))) n = bit w n"
      by cases (auto simp: le_bytes_def bit_simps)
  qed
  then show ?thesis using assms [of 0] assms [of 1] assms [of 2] assms [of 3] by (simp add: rd32_def numeral_2_eq_2)
qed

text \<open>The memory that holds words.\<close>

lemma rd32_words:
  assumes "i < length ws" "4 * length ws < 2 ^ 64"
  shows "rd32 (mem_of p (concat (map (le_bytes 4) ws))) p (4 * i) = Some (ws ! i)"
  by (rule rd32_bytes) (use assms word_bytes_nth [OF assms(1)] in \<open>simp add: rd8_mem_of word_bytes_length\<close>)

lemma le_bytes_inj:
  fixes v w :: "'a::len word"
  assumes "le_bytes n v = le_bytes n w" "LENGTH('a) \<le> 8 * n"
  shows "v = w"
proof (rule bit_word_eqI)
  fix k assume k: "k < LENGTH('a)"
  then have i: "k div 8 < n" using assms(2) by auto
  from arg_cong [OF assms(1), of "\<lambda>xs. xs ! (k div 8)"] i
  have "(ucast (drop_bit (8 * (k div 8)) v) :: byte) = ucast (drop_bit (8 * (k div 8)) w)"
    by (simp add: le_bytes_def)
  then have "bit (ucast (drop_bit (8 * (k div 8)) v) :: byte) (k mod 8) =
      bit (ucast (drop_bit (8 * (k div 8)) w) :: byte) (k mod 8)" by simp
  then show "bit v k = bit w k" by (simp add: bit_simps)
qed

lemma append_same_length:
  "length a = length b \<Longrightarrow> a @ x = b @ y \<longleftrightarrow> a = b \<and> x = y"
  by simp

text \<open>The bytes of a C string.\<close>

definition str_bytes :: "string \<Rightarrow> byte list" where
  "str_bytes s = map of_char s"

lemma of_char_byte_inj: "(of_char c :: byte) = of_char d \<longleftrightarrow> c = d"
proof
  assume e: "(of_char c :: byte) = of_char d"
  have "unat (of_char x :: byte) = of_char x" for x :: char
  proof -
    have "(of_char x :: byte) = of_nat (of_char x)" by (simp add: of_nat_of_char)
    moreover have "(of_char x :: nat) < 256" by (rule nat_of_char_less_256)
    ultimately show ?thesis by (simp add: unat_of_nat take_bit_nat_eq_self)
  qed
  with e have "(of_char c :: nat) = of_char d" by metis
  then show "c = d" by simp
qed simp

lemma str_bytes_inj: "str_bytes s = str_bytes t \<longleftrightarrow> s = t"
  unfolding str_bytes_def by (rule inj_map_eq_map) (simp add: inj_on_def of_char_byte_inj)

lemma length_str_bytes [simp]: "length (str_bytes s) = length s"
  by (simp add: str_bytes_def)

end
