(* ===== verification/HK_StaticPool.thy ===== *)
theory HK_StaticPool
  imports HK_Prelude
begin

text \<open>
  The fixed trampoline pool of \<open>src/engines/HKStaticPool.c\<close>: a region of \<open>slot_count\<close> slots of
  \<open>slot_size\<close> bytes each and a 64-bit bitmap of the slots in use. The lemmas show that a claimed
  slot is free before, lies inside the region, is nearest to the requested address, and that
  claim and release are inverse on the bitmap. The locale \<open>slot_allocator\<close> is the contract the
  relocating engine's page source needs.
\<close>

record static_pool =
  sp_base :: u64
  sp_slot_size :: u64
  sp_slot_count :: nat
  sp_used :: u64

definition HK_STATIC_POOL_MAX_SLOTS :: nat where
  "HK_STATIC_POOL_MAX_SLOTS = 64"

text \<open>
  \<open>hk_static_pool_init\<close>: \<open>None\<close> is the code's \<open>false\<close>, in which case the caller's pool is not
  written. \<open>slot_count\<close> is an \<open>unsigned\<close>, at most 64 after the first check.
\<close>

definition hk_static_pool_init :: "u64 \<Rightarrow> u64 \<Rightarrow> nat \<Rightarrow> static_pool option" where
  "hk_static_pool_init base slot_size slot_count =
     (if base = 0 \<or> slot_size = 0 \<or> slot_count = 0 \<or> slot_count > HK_STATIC_POOL_MAX_SLOTS
      then None
      else if slot_size > (- 1) div of_nat slot_count then None
      else Some \<lparr>sp_base = base, sp_slot_size = slot_size, sp_slot_count = slot_count,
                 sp_used = 0\<rparr>)"

definition slot_addr :: "static_pool \<Rightarrow> nat \<Rightarrow> u64" where
  "slot_addr pool i = sp_base pool + of_nat i * sp_slot_size pool"

definition slot_used :: "static_pool \<Rightarrow> nat \<Rightarrow> bool" where
  "slot_used pool i \<longleftrightarrow> sp_used pool AND push_bit i 1 \<noteq> 0"

definition slot_distance :: "u64 \<Rightarrow> u64 \<Rightarrow> u64" where
  "slot_distance addr near = (if addr > near then addr - near else near - addr)"

text \<open>The search loop: \<open>best = slot_count\<close> until a free slot is seen, then the closest one.\<close>

definition claim_step :: "static_pool \<Rightarrow> u64 \<Rightarrow> nat \<Rightarrow> nat \<times> u64 \<Rightarrow> nat \<times> u64" where
  "claim_step pool near i = (\<lambda>(best, best_distance).
     if slot_used pool i then (best, best_distance)
     else let distance = slot_distance (slot_addr pool i) near in
       if best = sp_slot_count pool \<or> distance < best_distance then (i, distance)
       else (best, best_distance))"

definition claim_best :: "static_pool \<Rightarrow> u64 \<Rightarrow> nat \<times> u64" where
  "claim_best pool near = fold (claim_step pool near) [0..<sp_slot_count pool] (sp_slot_count pool, 0)"

definition hk_static_pool_claim :: "static_pool \<Rightarrow> u64 \<Rightarrow> u64 \<Rightarrow> u64 \<times> static_pool" where
  "hk_static_pool_claim pool sz near =
     (if sz = 0 \<or> sz > sp_slot_size pool then (0, pool)
      else let best = fst (claim_best pool near) in
        if best = sp_slot_count pool then (0, pool)
        else (slot_addr pool best, pool\<lparr>sp_used := sp_used pool OR push_bit best 1\<rparr>))"

definition hk_static_pool_release :: "static_pool \<Rightarrow> u64 \<Rightarrow> static_pool" where
  "hk_static_pool_release pool slot =
     (if slot < sp_base pool then pool
      else let offset = slot - sp_base pool in
        if offset mod sp_slot_size pool \<noteq> 0 then pool
        else let index = offset div sp_slot_size pool in
          if index \<ge> of_nat (sp_slot_count pool) then pool
          else pool\<lparr>sp_used := sp_used pool AND NOT (push_bit (unat index) 1)\<rparr>)"

definition hk_static_pool_free_count :: "static_pool \<Rightarrow> nat" where
  "hk_static_pool_free_count pool =
     fold (\<lambda>i n. if slot_used pool i then n else n + 1) [0..<sp_slot_count pool] 0"

definition hk_static_pool_contains :: "static_pool \<Rightarrow> u64 \<Rightarrow> bool" where
  "hk_static_pool_contains pool addr \<longleftrightarrow>
     (if sp_base pool = 0 then False
      else addr \<ge> sp_base pool \<and>
           addr < sp_base pool + sp_slot_size pool * of_nat (sp_slot_count pool))"

section \<open>The bitmap\<close>

lemma slot_used_bit: "slot_used pool i \<longleftrightarrow> bit (sp_used pool) i"
proof
  assume "slot_used pool i"
  then show "bit (sp_used pool) i"
    unfolding slot_used_def
    by (metis and_exp_eq_0_iff_not_bit push_bit_of_1)
next
  assume "bit (sp_used pool) i"
  then show "slot_used pool i"
    unfolding slot_used_def by (metis and_exp_eq_0_iff_not_bit push_bit_of_1)
qed

definition free_slots :: "static_pool \<Rightarrow> nat set" where
  "free_slots pool = {i. i < sp_slot_count pool \<and> \<not> bit (sp_used pool) i}"

text \<open>A pool as \<open>hk_static_pool_init\<close> leaves it over a region that does not wrap.\<close>

definition pool_ok :: "static_pool \<Rightarrow> bool" where
  "pool_ok pool \<longleftrightarrow> sp_base pool \<noteq> 0 \<and> sp_slot_size pool \<noteq> 0 \<and>
     0 < sp_slot_count pool \<and> sp_slot_count pool \<le> 64 \<and>
     unat (sp_base pool) + unat (sp_slot_size pool) * sp_slot_count pool < 2 ^ 64"

lemma pool_okD:
  assumes "pool_ok pool"
  shows "sp_base pool \<noteq> 0" "0 < unat (sp_slot_size pool)" "0 < sp_slot_count pool"
    "sp_slot_count pool \<le> 64"
    "unat (sp_base pool) + unat (sp_slot_size pool) * sp_slot_count pool < 2 ^ 64"
  using assms by (auto simp: pool_ok_def unat_gt_0)

lemma pool_ok_used [simp]: "pool_ok (pool\<lparr>sp_used := u\<rparr>) = pool_ok pool"
  by (simp add: pool_ok_def)

lemma slot_addr_used [simp]: "slot_addr (pool\<lparr>sp_used := u\<rparr>) i = slot_addr pool i"
  by (simp add: slot_addr_def)

text \<open>Under \<open>pool_ok\<close> the address arithmetic of the code does not wrap.\<close>

lemma unat_slot_addr:
  assumes "pool_ok pool" "i \<le> sp_slot_count pool"
  shows "unat (slot_addr pool i) = unat (sp_base pool) + i * unat (sp_slot_size pool)"
proof -
  have le: "i * unat (sp_slot_size pool) \<le> unat (sp_slot_size pool) * sp_slot_count pool"
    using assms(2) by (simp add: mult.commute)
  have i: "i < 2 ^ 64" using assms pool_okD(4) [OF assms(1)] by simp
  have lt: "i * unat (sp_slot_size pool) < 2 ^ 64"
    using le pool_okD(5) [OF assms(1)] by linarith
  have m: "unat (of_nat i * sp_slot_size pool) = i * unat (sp_slot_size pool)"
    using i lt by (simp add: unat_word_ariths unat_of_nat take_bit_nat_eq_self)
  have "unat (sp_base pool) + i * unat (sp_slot_size pool) < 2 ^ 64"
    using le pool_okD(5) [OF assms(1)] by linarith
  then show ?thesis
    unfolding slot_addr_def unat_word_ariths(1) m by (simp add: take_bit_nat_eq_self)
qed

lemma slot_addr_nonzero: "pool_ok pool \<Longrightarrow> i \<le> sp_slot_count pool \<Longrightarrow> slot_addr pool i \<noteq> 0"
  using unat_slot_addr [of pool i] pool_okD(1) [of pool]
  by (metis add_is_0 unat_0 unat_eq_zero)

lemma slot_addr_inj:
  "pool_ok pool \<Longrightarrow> i \<le> sp_slot_count pool \<Longrightarrow> j \<le> sp_slot_count pool \<Longrightarrow>
   slot_addr pool i = slot_addr pool j \<Longrightarrow> i = j"
  by (metis add_left_cancel mult_cancel2 not_gr_zero pool_okD(2) unat_slot_addr)

lemma slot_addr_eq:
  "pool_ok pool \<Longrightarrow> i < sp_slot_count pool \<Longrightarrow> j < sp_slot_count pool \<Longrightarrow>
   slot_addr pool i = slot_addr pool j \<longleftrightarrow> i = j"
  by (meson less_imp_le slot_addr_inj)

section \<open>The search\<close>

text \<open>
  What the loop has found after the first \<open>n\<close> slots: no free slot yet, or the free slot closest
  to \<open>near\<close>, the lowest-numbered one among equally close slots.
\<close>

definition best_upto :: "static_pool \<Rightarrow> u64 \<Rightarrow> nat \<Rightarrow> nat \<times> u64 \<Rightarrow> bool" where
  "best_upto pool near n = (\<lambda>(best, d).
     (best = sp_slot_count pool \<and> (\<forall>i < n. bit (sp_used pool) i)) \<or>
     (best < n \<and> \<not> bit (sp_used pool) best \<and> d = slot_distance (slot_addr pool best) near \<and>
      (\<forall>i < n. \<not> bit (sp_used pool) i \<longrightarrow>
         d \<le> slot_distance (slot_addr pool i) near \<and>
         (i < best \<longrightarrow> d < slot_distance (slot_addr pool i) near))))"

lemma best_upto_step:
  assumes "best_upto pool near n s" "n < sp_slot_count pool"
  shows "best_upto pool near (Suc n) (claim_step pool near n s)"
  using assms
  by (cases s)
    (auto simp: best_upto_def claim_step_def slot_used_bit Let_def less_Suc_eq not_less
      dest: order.strict_trans2)

lemma claim_best_upto:
  "n \<le> sp_slot_count pool \<Longrightarrow>
   best_upto pool near n (fold (claim_step pool near) [0..<n] (sp_slot_count pool, 0))"
proof (induction n)
  case 0
  show ?case by (simp add: best_upto_def)
next
  case (Suc n)
  then show ?case using best_upto_step by simp
qed

lemma claim_best_spec:
  "best_upto pool near (sp_slot_count pool) (claim_best pool near)"
  unfolding claim_best_def by (rule claim_best_upto) simp

lemma claim_best_cases:
  obtains "fst (claim_best pool near) = sp_slot_count pool" "free_slots pool = {}"
  | "fst (claim_best pool near) \<in> free_slots pool"
    "\<forall>i \<in> free_slots pool. slot_distance (slot_addr pool (fst (claim_best pool near))) near
        \<le> slot_distance (slot_addr pool i) near"
  using claim_best_spec [of pool near]
  by (cases "claim_best pool near") (auto simp: best_upto_def free_slots_def)

section \<open>Claim and release on the set of free slots\<close>

declare push_bit_of_1 [simp del]

lemma bit_u64_less: "bit (w :: u64) n \<Longrightarrow> n < 64"
  using bit_imp_le_length [of w n] by simp

lemma bit_exp_u64: "bit (push_bit i 1 :: u64) n \<longleftrightarrow> n = i \<and> n < 64"
  by (auto simp: bit_simps)

lemma free_slots_set:
  "i < 64 \<Longrightarrow> free_slots (pool\<lparr>sp_used := sp_used pool OR push_bit i 1\<rparr>) = free_slots pool - {i}"
  by (auto simp: free_slots_def bit_or_iff bit_exp_u64)

lemma free_slots_unset:
  "i < sp_slot_count pool \<Longrightarrow>
   free_slots (pool\<lparr>sp_used := sp_used pool AND NOT (push_bit i 1)\<rparr>) = insert i (free_slots pool)"
  by (auto simp: free_slots_def bit_and_iff bit_not_iff bit_exp_u64
      dest: bit_imp_le_length)

lemma set_unset_bit:
  "\<not> bit w i \<Longrightarrow> (w OR push_bit i 1) AND NOT (push_bit i 1) = w" for w :: u64
  by (rule bit_word_eqI) (auto simp: bit_simps)

lemma claim_cases:
  obtains (none) "hk_static_pool_claim pool sz near = (0, pool)"
    "sz = 0 \<or> sz > sp_slot_size pool \<or> free_slots pool = {}"
  | (slot) i where "sz \<noteq> 0" "sz \<le> sp_slot_size pool" "i \<in> free_slots pool"
    "\<forall>j \<in> free_slots pool. slot_distance (slot_addr pool i) near \<le> slot_distance (slot_addr pool j) near"
    "hk_static_pool_claim pool sz near =
       (slot_addr pool i, pool\<lparr>sp_used := sp_used pool OR push_bit i 1\<rparr>)"
proof (cases "sz = 0 \<or> sz > sp_slot_size pool")
  case True
  then show ?thesis using none by (auto simp: hk_static_pool_claim_def)
next
  case sz: False
  show ?thesis
  proof (cases rule: claim_best_cases [of pool near])
    case 1
    then show ?thesis using none by (simp add: hk_static_pool_claim_def Let_def)
  next
    case 2
    then have "fst (claim_best pool near) \<noteq> sp_slot_count pool" by (auto simp: free_slots_def)
    with 2 sz show ?thesis
      using slot [of "fst (claim_best pool near)"] by (auto simp: hk_static_pool_claim_def Let_def)
  qed
qed

lemma claim_fields [hk_frame]:
  assumes "hk_static_pool_claim pool sz near = (a, pool')"
  shows "sp_base pool' = sp_base pool" "sp_slot_size pool' = sp_slot_size pool"
    "sp_slot_count pool' = sp_slot_count pool" "pool_ok pool' = pool_ok pool"
  using assms by (cases rule: claim_cases [of pool sz near]; force)+

lemma release_fields [hk_frame]:
  "sp_base (hk_static_pool_release pool a) = sp_base pool"
  "sp_slot_size (hk_static_pool_release pool a) = sp_slot_size pool"
  "sp_slot_count (hk_static_pool_release pool a) = sp_slot_count pool"
  "pool_ok (hk_static_pool_release pool a) = pool_ok pool"
  by (simp_all add: hk_static_pool_release_def Let_def)

lemma slot_addr_minus_base: "slot_addr pool i - sp_base pool = of_nat i * sp_slot_size pool"
  by (simp add: slot_addr_def)

lemma base_le_slot_addr:
  "pool_ok pool \<Longrightarrow> i \<le> sp_slot_count pool \<Longrightarrow> sp_base pool \<le> slot_addr pool i"
  by (simp add: word_le_nat_alt unat_slot_addr)

lemma unat_slot_offset:
  assumes "pool_ok pool" "i \<le> sp_slot_count pool"
  shows "unat (slot_addr pool i - sp_base pool) = i * unat (sp_slot_size pool)"
  using unat_slot_addr [OF assms] base_le_slot_addr [OF assms]
  by (simp add: unat_sub)

lemma release_slot:
  assumes ok: "pool_ok pool" and i: "i < sp_slot_count pool"
  shows "hk_static_pool_release pool (slot_addr pool i) =
           pool\<lparr>sp_used := sp_used pool AND NOT (push_bit i 1)\<rparr>"
proof -
  let ?off = "slot_addr pool i - sp_base pool"
  have off: "unat ?off = i * unat (sp_slot_size pool)"
    using unat_slot_offset [OF ok] i by simp
  have "unat (?off mod sp_slot_size pool) = 0" by (simp add: unat_mod off)
  then have md: "?off mod sp_slot_size pool = 0" by (simp only: unat_eq_zero)
  have ix: "unat (?off div sp_slot_size pool) = i"
    using pool_okD(2) [OF ok] by (simp add: unat_div off)
  have "\<not> ?off div sp_slot_size pool \<ge> of_nat (sp_slot_count pool)"
    using ix i pool_okD(4) [OF ok] by (simp add: word_le_nat_alt unat_of_nat take_bit_nat_eq_self)
  moreover have "\<not> slot_addr pool i < sp_base pool"
    using base_le_slot_addr [OF ok] i by (simp add: not_less)
  ultimately show ?thesis
    by (simp add: hk_static_pool_release_def Let_def md ix)
qed

text \<open>An address that is not the start of a slot is ignored.\<close>

lemma release_foreign:
  assumes ok: "pool_ok pool" and a: "\<forall>i < sp_slot_count pool. a \<noteq> slot_addr pool i"
  shows "hk_static_pool_release pool a = pool"
proof (rule ccontr)
  assume "hk_static_pool_release pool a \<noteq> pool"
  then have le: "sp_base pool \<le> a" and md: "(a - sp_base pool) mod sp_slot_size pool = 0"
    and lt: "(a - sp_base pool) div sp_slot_size pool < of_nat (sp_slot_count pool)"
    by (auto simp: hk_static_pool_release_def Let_def not_less not_le split: if_splits)
  let ?i = "unat ((a - sp_base pool) div sp_slot_size pool)"
  have "?i < sp_slot_count pool"
    using lt pool_okD(4) [OF ok] by (simp add: word_less_nat_alt unat_of_nat take_bit_nat_eq_self)
  moreover have "(a - sp_base pool) = (a - sp_base pool) div sp_slot_size pool * sp_slot_size pool"
    using md by (metis add.right_neutral div_mult_mod_eq)
  then have "a = sp_base pool + (a - sp_base pool) div sp_slot_size pool * sp_slot_size pool"
    by (metis add.commute diff_add_cancel)
  then have "a = slot_addr pool ?i" by (simp only: slot_addr_def of_nat_unat ucast_id)
  ultimately show False using a by blast
qed

lemma free_count_upto:
  "fold (\<lambda>i n. if slot_used pool i then n else n + 1) [0..<k] c =
     c + card {i. i < k \<and> \<not> bit (sp_used pool) i}"
proof (induction k)
  case (Suc k)
  have "{i. i < Suc k \<and> \<not> bit (sp_used pool) i} =
      (if bit (sp_used pool) k then {} else {k}) \<union> {i. i < k \<and> \<not> bit (sp_used pool) i}"
    by (auto simp: less_Suc_eq)
  then show ?case using Suc by (simp add: slot_used_bit)
qed simp

lemma free_count: "hk_static_pool_free_count pool = card (free_slots pool)"
  by (simp add: hk_static_pool_free_count_def free_count_upto free_slots_def)

lemma contains_slot:
  assumes ok: "pool_ok pool" and i: "i < sp_slot_count pool" and k: "k < unat (sp_slot_size pool)"
  shows "hk_static_pool_contains pool (slot_addr pool i + of_nat k)"
proof -
  let ?z = "unat (sp_slot_size pool)" and ?b = "unat (sp_base pool)" and ?n = "sp_slot_count pool"
  have le: "i * ?z + ?z \<le> ?z * ?n"
    using i by (metis Suc_leI mult.commute mult_Suc_right add.commute mult_le_mono1)
  have a: "unat (slot_addr pool i) = ?b + i * ?z" using unat_slot_addr [OF ok] i by simp
  have k64: "k < 2 ^ 64" using k unsigned_less [of "sp_slot_size pool", where ?'a = nat] by simp
  have u: "unat (slot_addr pool i + of_nat k) = ?b + i * ?z + k"
    using a k64 k le pool_okD(5) [OF ok]
    by (simp add: unat_word_ariths unat_of_nat take_bit_nat_eq_self)
  have e: "sp_base pool + sp_slot_size pool * of_nat ?n = slot_addr pool ?n"
    by (simp add: slot_addr_def mult.commute)
  have "unat (slot_addr pool ?n) = ?b + ?n * ?z" using unat_slot_addr [OF ok] by simp
  then show ?thesis
    using u k le pool_okD(1) [OF ok]
    by (simp add: hk_static_pool_contains_def e word_le_nat_alt word_less_nat_alt mult.commute)
qed

section \<open>The contract of a slot allocator\<close>

text \<open>
  What the page source of the relocating engine relies on: a claim hands out an address nobody
  holds, a failed claim changes nothing, a release returns exactly the address given.
  \<open>live s\<close> is the set of addresses handed out and not yet returned.
\<close>

datatype slot_op = Claim_Op u64 u64 | Release_Op u64

text \<open>The book a client could keep of the addresses it holds, from the operations and their results.\<close>

fun book :: "u64 set \<Rightarrow> (slot_op \<times> u64) list \<Rightarrow> u64 set" where
  "book L [] = L"
| "book L ((Claim_Op z n, r) # xs) = book (if r = 0 then L else insert r L) xs"
| "book L ((Release_Op a, r) # xs) = book (L - {a}) xs"

text \<open>No claim of the trace returns an address that is held at that moment.\<close>

fun exclusive :: "u64 set \<Rightarrow> (slot_op \<times> u64) list \<Rightarrow> bool" where
  "exclusive L [] = True"
| "exclusive L ((Claim_Op z n, r) # xs) =
     ((r \<noteq> 0 \<longrightarrow> r \<notin> L) \<and> exclusive (if r = 0 then L else insert r L) xs)"
| "exclusive L ((Release_Op a, r) # xs) = exclusive (L - {a}) xs"

fun slot_run :: "('s \<Rightarrow> u64 \<Rightarrow> u64 \<Rightarrow> u64 \<times> 's) \<Rightarrow> ('s \<Rightarrow> u64 \<Rightarrow> 's) \<Rightarrow>
    's \<Rightarrow> slot_op list \<Rightarrow> (slot_op \<times> u64) list \<times> 's" where
  "slot_run claim release s [] = ([], s)"
| "slot_run claim release s (Claim_Op z n # ops) =
     (let (r, s1) = claim s z n; (tr, s2) = slot_run claim release s1 ops
      in ((Claim_Op z n, r) # tr, s2))"
| "slot_run claim release s (Release_Op a # ops) =
     (let (tr, s2) = slot_run claim release (release s a) ops
      in ((Release_Op a, 0) # tr, s2))"

locale slot_allocator =
  fixes valid :: "'s \<Rightarrow> bool"
    and live :: "'s \<Rightarrow> u64 set"
    and claim :: "'s \<Rightarrow> u64 \<Rightarrow> u64 \<Rightarrow> u64 \<times> 's"
    and release :: "'s \<Rightarrow> u64 \<Rightarrow> 's"
  assumes claim_valid: "valid s \<Longrightarrow> claim s z n = (r, s') \<Longrightarrow> valid s'"
    and release_valid: "valid s \<Longrightarrow> valid (release s a)"
    and claim_none: "valid s \<Longrightarrow> claim s z n = (0, s') \<Longrightarrow> s' = s"
    and claim_fresh: "valid s \<Longrightarrow> claim s z n = (r, s') \<Longrightarrow> r \<noteq> 0 \<Longrightarrow>
           r \<notin> live s \<and> live s' = insert r (live s)"
    and release_live: "valid s \<Longrightarrow> live (release s a) = live s - {a}"
begin

lemma claim_live: "valid s \<Longrightarrow> claim s z n = (r, s') \<Longrightarrow>
    live s' = (if r = 0 then live s else insert r (live s))"
  using claim_none claim_fresh by (cases "r = 0") auto

lemma claim_return_live:
  "valid s \<Longrightarrow> claim s z n = (r, s') \<Longrightarrow> r \<noteq> 0 \<Longrightarrow> live (release s' r) = live s"
  using claim_valid claim_fresh release_live by auto

lemma run_valid_live:
  "valid s \<Longrightarrow> slot_run claim release s ops = (tr, s') \<Longrightarrow>
     valid s' \<and> live s' = book (live s) tr \<and> exclusive (live s) tr"
proof (induction ops arbitrary: s tr)
  case Nil
  then show ?case by simp
next
  case (Cons op ops)
  show ?case
  proof (cases op)
    case (Claim_Op z n)
    obtain r s1 where c: "claim s z n = (r, s1)" by fastforce
    obtain tr2 where t: "slot_run claim release s1 ops = (tr2, s')" "tr = (op, r) # tr2"
      using Cons.prems c Claim_Op by (auto split: prod.splits)
    show ?thesis
      using Cons.IH [OF claim_valid [OF Cons.prems(1) c] t(1)] claim_live [OF Cons.prems(1) c]
        claim_fresh [OF Cons.prems(1) c] t(2) Claim_Op
      by auto
  next
    case (Release_Op a)
    obtain tr2 where t: "slot_run claim release (release s a) ops = (tr2, s')" "tr = (op, 0) # tr2"
      using Cons.prems Release_Op by (auto split: prod.splits)
    show ?thesis
      using Cons.IH [OF release_valid [OF Cons.prems(1)] t(1)] release_live [OF Cons.prems(1)]
        t(2) Release_Op
      by auto
  qed
qed

end

definition live_slots :: "static_pool \<Rightarrow> u64 set" where
  "live_slots pool = slot_addr pool ` {i. i < sp_slot_count pool \<and> bit (sp_used pool) i}"

lemma live_slots_free:
  "pool_ok pool \<Longrightarrow> i < sp_slot_count pool \<Longrightarrow> slot_addr pool i \<in> live_slots pool \<longleftrightarrow> i \<notin> free_slots pool"
  by (auto simp: live_slots_def free_slots_def slot_addr_eq)

lemma free_slot_not_live: "pool_ok pool \<Longrightarrow> i \<in> free_slots pool \<Longrightarrow> slot_addr pool i \<notin> live_slots pool"
  by (simp add: live_slots_free free_slots_def)

lemma live_slots_set:
  "i < sp_slot_count pool \<Longrightarrow> i < 64 \<Longrightarrow>
   live_slots (pool\<lparr>sp_used := sp_used pool OR push_bit i 1\<rparr>) = insert (slot_addr pool i) (live_slots pool)"
  by (auto simp: live_slots_def bit_or_iff bit_exp_u64)

lemma live_slots_unset:
  "pool_ok pool \<Longrightarrow> i < sp_slot_count pool \<Longrightarrow>
   live_slots (pool\<lparr>sp_used := sp_used pool AND NOT (push_bit i 1)\<rparr>) = live_slots pool - {slot_addr pool i}"
  by (auto simp: live_slots_def image_iff slot_addr_eq bit_and_iff bit_not_iff bit_exp_u64
      dest: bit_u64_less)

lemma release_live_slots:
  assumes ok: "pool_ok pool"
  shows "live_slots (hk_static_pool_release pool a) = live_slots pool - {a}"
proof (cases "\<exists>i < sp_slot_count pool. a = slot_addr pool i")
  case True
  then show ?thesis using release_slot [OF ok] live_slots_unset [OF ok] by auto
next
  case False
  then show ?thesis
    using release_foreign [OF ok, of a] by (auto simp: live_slots_def)
qed

lemma free_slots_less: "pool_ok pool \<Longrightarrow> i \<in> free_slots pool \<Longrightarrow> i < sp_slot_count pool \<and> i < 64"
  using pool_okD(4) [of pool] by (auto simp: free_slots_def)

interpretation pool: slot_allocator pool_ok live_slots hk_static_pool_claim hk_static_pool_release
proof unfold_locales
  fix s :: static_pool and z n r s' a
  show "pool_ok (hk_static_pool_release s a)" if "pool_ok s"
    using that by (simp add: release_fields)
  show "live_slots (hk_static_pool_release s a) = live_slots s - {a}" if "pool_ok s"
    using that by (rule release_live_slots)
  show "pool_ok s'" if "pool_ok s" "hk_static_pool_claim s z n = (r, s')"
    using that by (simp add: claim_fields(4))
  show "s' = s" if "pool_ok s" "hk_static_pool_claim s z n = (0, s')"
    using that
    by (cases rule: claim_cases [of s z n]) (auto dest: free_slots_less slot_addr_nonzero [OF _ less_imp_le])
  show "r \<notin> live_slots s \<and> live_slots s' = insert r (live_slots s)"
    if "pool_ok s" "hk_static_pool_claim s z n = (r, s')" "r \<noteq> 0"
    using that
    by (cases rule: claim_cases [of s z n])
      (auto simp: free_slot_not_live live_slots_set dest: free_slots_less)
qed

section \<open>Properties of the pool\<close>

lemma init_pool_ok:
  assumes "hk_static_pool_init base sz n = Some pool" "unat base + unat sz * n < 2 ^ 64"
  shows "pool_ok pool" "live_slots pool = {}" "sp_slot_count pool = n"
  using assms
  by (auto simp: hk_static_pool_init_def pool_ok_def live_slots_def HK_STATIC_POOL_MAX_SLOTS_def
      split: if_splits)

lemma free_plus_live:
  assumes "pool_ok pool"
  shows "hk_static_pool_free_count pool + card (live_slots pool) = sp_slot_count pool"
proof -
  let ?U = "{i. i < sp_slot_count pool \<and> bit (sp_used pool) i}"
  have "card (live_slots pool) = card ?U"
    unfolding live_slots_def
    by (rule card_image) (auto simp: inj_on_def slot_addr_eq [OF assms])
  moreover have "free_slots pool \<union> ?U = {..<sp_slot_count pool}" "free_slots pool \<inter> ?U = {}"
    by (auto simp: free_slots_def)
  then have "card (free_slots pool) + card ?U = sp_slot_count pool"
    by (metis (no_types, lifting) card_Un_disjoint card_lessThan finite_Un finite_lessThan)
  ultimately show ?thesis by (simp add: free_count)
qed

text \<open>A claim returns 0 and leaves the pool alone exactly when the request is empty, larger than a
  slot or no slot is free; otherwise it returns the start of a free slot, computed without
  wrap-around and different from 0, no free slot is closer to \<open>near\<close>, the whole slot lies inside
  the region and that slot alone stops being free.\<close>

lemma static_pool_claim_spec:
  assumes "pool_ok pool" "hk_static_pool_claim pool sz near = (a, pool')"
  shows "if sz = 0 \<or> sz > sp_slot_size pool \<or> free_slots pool = {} then a = 0 \<and> pool' = pool
    else \<exists>i \<in> free_slots pool. a \<noteq> 0 \<and>
      unat a = unat (sp_base pool) + i * unat (sp_slot_size pool) \<and>
      (\<forall>j \<in> free_slots pool. slot_distance a near \<le> slot_distance (slot_addr pool j) near) \<and>
      (\<forall>k < unat (sp_slot_size pool). hk_static_pool_contains pool' (a + of_nat k)) \<and>
      free_slots pool' = free_slots pool - {i}"
proof (cases rule: claim_cases [of pool sz near])
  case none
  then show ?thesis using assms(2) by auto
next
  case (slot i)
  from slot(3) have i: "i < sp_slot_count pool" "i < 64" using free_slots_less [OF assms(1)] by auto
  have "hk_static_pool_contains pool' (a + of_nat k)" if "k < unat (sp_slot_size pool)" for k
    using contains_slot [of pool' i k] that slot assms i by auto
  moreover have "a \<noteq> 0" using slot_addr_nonzero [OF assms(1)] i slot(5) assms(2) by auto
  ultimately show ?thesis
    using slot assms i unat_slot_addr [OF assms(1), of i] free_slots_set [of i pool]
    by (auto intro!: bexI [of _ i])
qed

text \<open>Releasing what a claim returned gives back the very pool the claim started from.\<close>

lemma static_pool_claim_release:
  assumes "pool_ok pool" "hk_static_pool_claim pool sz near = (a, pool')" "a \<noteq> 0"
  shows "hk_static_pool_release pool' a = pool"
proof (cases rule: claim_cases [of pool sz near])
  case none
  then show ?thesis using assms by auto
next
  case (slot i)
  then have i: "i < sp_slot_count pool" "\<not> bit (sp_used pool) i"
    using assms(1) by (auto simp: free_slots_def)
  then show ?thesis
    using release_slot [of pool' i] slot assms by (auto simp: set_unset_bit)
qed

text \<open>C6. Over any sequence of claims and releases on a freshly initialised pool whose region does not
  wrap, no claim returns an address that is still held, the pool's bitmap is exactly the book a
  client would keep of the addresses it holds, and free and held slots add up to the slot count.\<close>

theorem static_pool_exclusive:
  assumes "hk_static_pool_init base sz n = Some pool" "unat base + unat sz * n < 2 ^ 64"
    "slot_run hk_static_pool_claim hk_static_pool_release pool ops = (tr, pool')"
  shows "exclusive {} tr \<and> live_slots pool' = book {} tr \<and>
    hk_static_pool_free_count pool' + card (book {} tr) = sp_slot_count pool'"
  using pool.run_valid_live [OF init_pool_ok(1) [OF assms(1,2)] assms(3)]
    init_pool_ok(2) [OF assms(1,2)] free_plus_live [of pool']
  by simp

theorem static_pool_exclusive_witness:
  "hk_static_pool_free_count (snd (slot_run hk_static_pool_claim hk_static_pool_release
     (the (hk_static_pool_init 4096 64 2)) [Claim_Op 8 0, Claim_Op 8 0, Release_Op 4096])) +
   card {4160 :: u64} = 2"
proof -
  obtain tr p' where r: "slot_run hk_static_pool_claim hk_static_pool_release
      \<lparr>sp_base = 4096, sp_slot_size = 64, sp_slot_count = 2, sp_used = 0\<rparr>
      [Claim_Op 8 0, Claim_Op 8 0, Release_Op 4096] = (tr, p')" by fastforce
  moreover have "slot_run hk_static_pool_claim hk_static_pool_release
      \<lparr>sp_base = 4096, sp_slot_size = 64, sp_slot_count = 2, sp_used = 0\<rparr>
      [Claim_Op 8 0, Claim_Op 8 0, Release_Op 4096] =
    ([(Claim_Op 8 0, 4096), (Claim_Op 8 0, 4160), (Release_Op 4096, 0)],
      \<lparr>sp_base = 4096, sp_slot_size = 64, sp_slot_count = 2, sp_used = 2\<rparr>)"
    by code_simp
  moreover have i: "hk_static_pool_init 4096 64 2 =
      Some \<lparr>sp_base = 4096, sp_slot_size = 64, sp_slot_count = 2, sp_used = 0\<rparr>" by code_simp
  ultimately show ?thesis
    using static_pool_exclusive [OF i _ r] by auto
qed

text \<open>
  The initialiser checks \<open>slot_size * slot_count\<close> but not the sum with \<open>base\<close>: a region that
  wraps is accepted, and a claim of its last slot then returns 0 with the slot marked used.
\<close>

lemma init_accepts_wrapping_region:
  "\<exists>pool pool'. hk_static_pool_init 0xFFFFFFFFFFFFF000 0x1000 2 = Some pool \<and>
     hk_static_pool_claim pool 8 0 = (0, pool') \<and> hk_static_pool_free_count pool' = 1"
proof -
  let ?p = "\<lparr>sp_base = 0xFFFFFFFFFFFFF000, sp_slot_size = 0x1000, sp_slot_count = 2, sp_used = 0\<rparr> :: static_pool"
  have "hk_static_pool_init 0xFFFFFFFFFFFFF000 0x1000 2 = Some ?p"
    "hk_static_pool_claim ?p 8 0 = (0, ?p\<lparr>sp_used := 2\<rparr>)"
    "hk_static_pool_free_count (?p\<lparr>sp_used := 2\<rparr>) = 1" by code_simp+
  then show ?thesis by blast
qed

end
