(* ===== verification/HK_Types.thy ===== *)
theory HK_Types
  imports HK_Prelude
begin

text \<open>
  The public data of HookKit: the enumerations and records of \<open>include/HookKit/HookKitBase.h\<close>,
  \<open>HookKitResults.h\<close>, \<open>HookKitTargets.h\<close>, \<open>HookKitPlan.h\<close> and \<open>HookKitArtifacts.h\<close>, in the order of the
  headers, and the internal callback results of \<open>src/core/HKEngineInternal.h\<close>.

  \<^item> An enumeration is a datatype with the constructors of the source; \<open>.._num\<close> functions give the
    numeric value where the code uses it (bit positions, canonical keys).
  \<^item> A \<open>const char *\<close> is a \<open>string option\<close> (\<open>None\<close> is NULL). A \<open>void *\<close> is an address.
  \<^item> \<open>hk_domain_t *\<close> and \<open>hk_hook_t *\<close> are natural numbers, the identity of the heap object.
  \<^item> The \<open>struct_size\<close> and \<open>struct_version\<close> header of a structure is kept only where the code
    reads it; sizes are those of the LP64 layout.
\<close>

section \<open>HookKitBase.h\<close>

record hk_id =
  id_high :: u64
  id_low :: u64

definition hk_id_zero :: hk_id where
  "hk_id_zero = \<lparr>id_high = 0, id_low = 0\<rparr>"

datatype hk_status =
    HK_STATUS_OK | HK_STATUS_INVALID_ARGUMENT | HK_STATUS_INVALID_STATE
  | HK_STATUS_OUT_OF_MEMORY | HK_STATUS_UNAVAILABLE | HK_STATUS_INTERNAL_ERROR
  | HK_STATUS_SHUTTING_DOWN

text \<open>Statuses are stored into the \<open>int64_t error_code\<close> of results.\<close>

fun hk_status_code :: "hk_status \<Rightarrow> int" where
  "hk_status_code HK_STATUS_OK = 0"
| "hk_status_code HK_STATUS_INVALID_ARGUMENT = 1"
| "hk_status_code HK_STATUS_INVALID_STATE = 2"
| "hk_status_code HK_STATUS_OUT_OF_MEMORY = 3"
| "hk_status_code HK_STATUS_UNAVAILABLE = 4"
| "hk_status_code HK_STATUS_INTERNAL_ERROR = 5"
| "hk_status_code HK_STATUS_SHUTTING_DOWN = 6"

section \<open>HookKitRuntime.h\<close>

datatype hk_install_context =
    HK_INSTALL_CONTEXT_EARLY_PROCESS | HK_INSTALL_CONTEXT_MAIN_THREAD_SERIALIZED
  | HK_INSTALL_CONTEXT_RUNTIME_SERIALIZED | HK_INSTALL_CONTEXT_ARBITRARY_RUNTIME

fun install_context_num :: "hk_install_context \<Rightarrow> nat" where
  "install_context_num HK_INSTALL_CONTEXT_EARLY_PROCESS = 0"
| "install_context_num HK_INSTALL_CONTEXT_MAIN_THREAD_SERIALIZED = 1"
| "install_context_num HK_INSTALL_CONTEXT_RUNTIME_SERIALIZED = 2"
| "install_context_num HK_INSTALL_CONTEXT_ARBITRARY_RUNTIME = 3"

section \<open>HookKitTargets.h\<close>

datatype hk_target_kind =
    HK_TARGET_FUNCTION_SYMBOL | HK_TARGET_FUNCTION_ADDRESS | HK_TARGET_OBJC_METHOD
  | HK_TARGET_MEMORY_PATCH | HK_TARGET_SWIFT_VTABLE

fun target_kind_num :: "hk_target_kind \<Rightarrow> nat" where
  "target_kind_num HK_TARGET_FUNCTION_SYMBOL = 0"
| "target_kind_num HK_TARGET_FUNCTION_ADDRESS = 1"
| "target_kind_num HK_TARGET_OBJC_METHOD = 2"
| "target_kind_num HK_TARGET_MEMORY_PATCH = 3"
| "target_kind_num HK_TARGET_SWIFT_VTABLE = 4"

lemma target_kind_num_inj: "target_kind_num a = target_kind_num b \<longleftrightarrow> a = b"
  by (cases a; cases b) simp_all

lemma target_kind_num_less: "target_kind_num k < 5"
  by (cases k) simp_all

datatype hk_image_selector_kind =
    HK_IMAGE_ANY_LOADED | HK_IMAGE_MAIN_EXECUTABLE | HK_IMAGE_EXACT_PATH
  | HK_IMAGE_EXACT_UUID | HK_IMAGE_EXACT_HEADER | HK_IMAGE_EXPLICIT_SET

fun selector_kind_num :: "hk_image_selector_kind \<Rightarrow> nat" where
  "selector_kind_num HK_IMAGE_ANY_LOADED = 0"
| "selector_kind_num HK_IMAGE_MAIN_EXECUTABLE = 1"
| "selector_kind_num HK_IMAGE_EXACT_PATH = 2"
| "selector_kind_num HK_IMAGE_EXACT_UUID = 3"
| "selector_kind_num HK_IMAGE_EXACT_HEADER = 4"
| "selector_kind_num HK_IMAGE_EXPLICIT_SET = 5"

lemma selector_kind_num_inj: "selector_kind_num a = selector_kind_num b \<longleftrightarrow> a = b"
  by (cases a; cases b) simp_all

lemma selector_kind_num_less: "selector_kind_num k < 6"
  by (cases k) simp_all

text \<open>
  \<open>struct hk_image_selector\<close>: all fields are present whatever the kind says.
  \<open>sel_set\<close> is the array \<open>explicit_set\<close> with \<open>explicit_set_count\<close> elements, each of which may be
  NULL; \<open>sel_set_null\<close> says that the array pointer itself is NULL, in which case only the length
  of \<open>sel_set\<close> (the count) means anything. A selector tree is finite here; the depth limit the
  code has against self-referential selectors is kept.
\<close>

datatype hk_image_selector = Image_Selector
  (sel_kind: hk_image_selector_kind)
  (sel_path: "string option")
  (sel_uuid: "byte list")
  (sel_header: ptr)
  (sel_set: "hk_image_selector option list")
  (sel_set_null: bool)

definition zero_selector :: hk_image_selector where
  "zero_selector = Image_Selector HK_IMAGE_ANY_LOADED None (replicate 16 0) 0 [] True"

datatype hk_symbol_name_convention =
    HK_SYMBOL_NAME_C | HK_SYMBOL_NAME_MACHO_EXACT | HK_SYMBOL_NAME_CXX_MANGLED
  | HK_SYMBOL_NAME_SWIFT_MANGLED

fun name_convention_num :: "hk_symbol_name_convention \<Rightarrow> nat" where
  "name_convention_num HK_SYMBOL_NAME_C = 0"
| "name_convention_num HK_SYMBOL_NAME_MACHO_EXACT = 1"
| "name_convention_num HK_SYMBOL_NAME_CXX_MANGLED = 2"
| "name_convention_num HK_SYMBOL_NAME_SWIFT_MANGLED = 3"

datatype hk_symbol_visibility =
    HK_SYMBOL_VISIBILITY_ANY | HK_SYMBOL_VISIBILITY_EXPORTED_ONLY
  | HK_SYMBOL_VISIBILITY_PRIVATE_ALLOWED

datatype hk_symbol_alias_policy = HK_SYMBOL_ALIAS_EXACT_ONLY | HK_SYMBOL_ALIAS_FOLLOW

fun alias_policy_num :: "hk_symbol_alias_policy \<Rightarrow> nat" where
  "alias_policy_num HK_SYMBOL_ALIAS_EXACT_ONLY = 0"
| "alias_policy_num HK_SYMBOL_ALIAS_FOLLOW = 1"

record hk_symbol_target =
  sym_name :: "string option"
  sym_name_convention :: hk_symbol_name_convention
  sym_visibility :: hk_symbol_visibility
  sym_defining_image :: hk_image_selector
  sym_caller_image_scope :: hk_image_selector
  sym_alias_policy :: hk_symbol_alias_policy
  sym_interior_address_permitted :: bool

text \<open>A pointer with a length: \<open>None\<close> is a NULL pointer, whatever the length says.\<close>

record hk_bytes_view =
  bv_data :: "byte list option"
  bv_size :: nat

record hk_address_target =
  addr_address :: u64
  addr_expected_image :: hk_image_selector
  addr_expected_uuid_present :: bool
  addr_expected_uuid :: "byte list"
  addr_expected_initial_bytes :: hk_bytes_view
  addr_may_strip_pac_or_thumb_state :: bool

datatype hk_objc_method_kind = HK_OBJC_INSTANCE_METHOD | HK_OBJC_CLASS_METHOD

fun objc_method_kind_num :: "hk_objc_method_kind \<Rightarrow> nat" where
  "objc_method_kind_num HK_OBJC_INSTANCE_METHOD = 0"
| "objc_method_kind_num HK_OBJC_CLASS_METHOD = 1"

datatype hk_objc_inheritance_policy =
    HK_OBJC_LOCAL_METHOD_ONLY | HK_OBJC_ALLOW_INHERITED_OVERRIDE

datatype hk_availability =
    HK_AVAILABILITY_REQUIRED_NOW | HK_AVAILABILITY_OPTIONAL_IF_PRESENT
  | HK_AVAILABILITY_DEFER_UNTIL_AVAILABLE

record hk_objc_target =
  objc_cls :: ptr
  objc_class_name :: "string option"
  objc_sel :: ptr
  objc_selector_name :: "string option"
  objc_method_kind :: hk_objc_method_kind
  objc_inheritance_policy :: hk_objc_inheritance_policy
  objc_availability :: hk_availability

datatype hk_memory_target_kind = HK_MEMORY_KIND_CODE | HK_MEMORY_KIND_DATA

record hk_memory_target =
  mem_address :: u64
  mem_address_is_image_relative :: bool
  mem_base_image :: hk_image_selector
  mem_replacement_bytes :: hk_bytes_view
  mem_expected_bytes :: hk_bytes_view
  mem_expected_mask :: hk_bytes_view
  mem_size :: u64
  mem_kind :: hk_memory_target_kind

text \<open>
  The union \<open>hk_target_spec_t\<close> together with the \<open>target_kind\<close> that selects its member. The Swift
  kind has no member.
\<close>

datatype hk_target =
    Target_Symbol hk_symbol_target
  | Target_Address hk_address_target
  | Target_Objc hk_objc_target
  | Target_Memory hk_memory_target
  | Target_Swift

fun target_kind :: "hk_target \<Rightarrow> hk_target_kind" where
  "target_kind (Target_Symbol _) = HK_TARGET_FUNCTION_SYMBOL"
| "target_kind (Target_Address _) = HK_TARGET_FUNCTION_ADDRESS"
| "target_kind (Target_Objc _) = HK_TARGET_OBJC_METHOD"
| "target_kind (Target_Memory _) = HK_TARGET_MEMORY_PATCH"
| "target_kind Target_Swift = HK_TARGET_SWIFT_VTABLE"

section \<open>HookKitResults.h\<close>

datatype hk_original_requirement =
    HK_ORIGINAL_NONE | HK_ORIGINAL_DIRECT_PREDECESSOR | HK_ORIGINAL_CALLABLE_CONTINUATION

fun original_requirement_num :: "hk_original_requirement \<Rightarrow> nat" where
  "original_requirement_num HK_ORIGINAL_NONE = 0"
| "original_requirement_num HK_ORIGINAL_DIRECT_PREDECESSOR = 1"
| "original_requirement_num HK_ORIGINAL_CALLABLE_CONTINUATION = 2"

datatype hk_continuation_policy =
    HK_CONTINUATION_ANY | HK_CONTINUATION_NO_DYNAMIC_EXECUTABLE_MEMORY
  | HK_CONTINUATION_FORBIDDEN

datatype hk_continuation_kind =
    HK_CONTINUATION_KIND_NONE | HK_CONTINUATION_KIND_DIRECT_PREDECESSOR
  | HK_CONTINUATION_KIND_STATIC | HK_CONTINUATION_KIND_DYNAMIC
  | HK_CONTINUATION_KIND_PROVIDER_INTERNAL | HK_CONTINUATION_KIND_UNKNOWN

datatype hk_mapping_kind =
    HK_MAPPING_NONE | HK_MAPPING_IMAGE_TEXT | HK_MAPPING_IMAGE_DATA | HK_MAPPING_SHARED_CACHE
  | HK_MAPPING_STATIC_HOOKKIT_SECTION | HK_MAPPING_ANONYMOUS | HK_MAPPING_PROVIDER_OWNED
  | HK_MAPPING_UNKNOWN

record hk_continuation_info =
  ci_struct_size :: nat
  ci_kind :: hk_continuation_kind
  ci_address :: u64
  ci_jump_back_destination :: u64
  ci_mapping_id :: hk_id
  ci_mapping_kind :: hk_mapping_kind
  ci_mapping_base :: u64
  ci_mapping_size :: u64
  ci_mapping_protection :: u32
  ci_executable_memory_allocated :: bool
  ci_relocated_instruction_count :: u32
  ci_readable :: bool
  ci_mechanically_reversible :: bool
  ci_safe_to_reverse_after_activation :: bool
  ci_fully_inspected :: bool

definition HK_CONTINUATION_INFO_SIZE :: nat where
  "HK_CONTINUATION_INFO_SIZE = 88"

text \<open>The zeroed structure, with and without the size header filled in.\<close>

definition raw_continuation :: hk_continuation_info where
  "raw_continuation = \<lparr>ci_struct_size = 0, ci_kind = HK_CONTINUATION_KIND_NONE, ci_address = 0,
     ci_jump_back_destination = 0, ci_mapping_id = hk_id_zero, ci_mapping_kind = HK_MAPPING_NONE,
     ci_mapping_base = 0, ci_mapping_size = 0, ci_mapping_protection = 0,
     ci_executable_memory_allocated = False, ci_relocated_instruction_count = 0,
     ci_readable = False, ci_mechanically_reversible = False,
     ci_safe_to_reverse_after_activation = False, ci_fully_inspected = False\<rparr>"

definition empty_continuation :: hk_continuation_info where
  "empty_continuation = raw_continuation\<lparr>ci_struct_size := HK_CONTINUATION_INFO_SIZE\<rparr>"

type_synonym hk_reachability = u64
type_synonym hk_effects = u64
type_synonym hk_constraints = u64

definition HK_REACH_EXISTING_IMPORTS :: u64 where "HK_REACH_EXISTING_IMPORTS = 2 ^ 0"
definition HK_REACH_FUTURE_IMPORTS :: u64 where "HK_REACH_FUTURE_IMPORTS = 2 ^ 1"
definition HK_REACH_ENTRYPOINT :: u64 where "HK_REACH_ENTRYPOINT = 2 ^ 2"
definition HK_REACH_DLSYM_POINTERS :: u64 where "HK_REACH_DLSYM_POINTERS = 2 ^ 3"
definition HK_REACH_SAVED_POINTERS :: u64 where "HK_REACH_SAVED_POINTERS = 2 ^ 4"
definition HK_REACH_EXACT_IMAGE_SCOPE :: u64 where "HK_REACH_EXACT_IMAGE_SCOPE = 2 ^ 5"
definition HK_REACH_PRIVATE_ADDRESS :: u64 where "HK_REACH_PRIVATE_ADDRESS = 2 ^ 6"
definition HK_REACH_CURRENT_IMAGES :: u64 where "HK_REACH_CURRENT_IMAGES = 2 ^ 7"
definition HK_REACH_FUTURE_IMAGES :: u64 where "HK_REACH_FUTURE_IMAGES = 2 ^ 8"
definition HK_REACH_OBJC_DISPATCH :: u64 where "HK_REACH_OBJC_DISPATCH = 2 ^ 9"
definition HK_REACH_SWIFT_VTABLE_DISPATCH :: u64 where "HK_REACH_SWIFT_VTABLE_DISPATCH = 2 ^ 10"
definition HK_REACH_EXACT_MEMORY :: u64 where "HK_REACH_EXACT_MEMORY = 2 ^ 11"

definition HK_EFFECT_TARGET_TEXT_MUTATION :: u64 where "HK_EFFECT_TARGET_TEXT_MUTATION = 2 ^ 0"
definition HK_EFFECT_IMPORT_MUTATION :: u64 where "HK_EFFECT_IMPORT_MUTATION = 2 ^ 1"
definition HK_EFFECT_OBJC_METADATA_MUTATION :: u64 where "HK_EFFECT_OBJC_METADATA_MUTATION = 2 ^ 2"
definition HK_EFFECT_SWIFT_VTABLE_MUTATION :: u64 where "HK_EFFECT_SWIFT_VTABLE_MUTATION = 2 ^ 3"
definition HK_EFFECT_MEMORY_MUTATION :: u64 where "HK_EFFECT_MEMORY_MUTATION = 2 ^ 4"
definition HK_EFFECT_EXECUTABLE_ALLOCATION :: u64 where "HK_EFFECT_EXECUTABLE_ALLOCATION = 2 ^ 5"
definition HK_EFFECT_STATIC_CONTINUATION_USE :: u64 where "HK_EFFECT_STATIC_CONTINUATION_USE = 2 ^ 6"
definition HK_EFFECT_PROVIDER_ACTIVATION :: u64 where "HK_EFFECT_PROVIDER_ACTIVATION = 2 ^ 7"
definition HK_EFFECT_PROVIDER_IMAGE_LOAD :: u64 where "HK_EFFECT_PROVIDER_IMAGE_LOAD = 2 ^ 8"
definition HK_EFFECT_IMAGE_LOAD :: u64 where "HK_EFFECT_IMAGE_LOAD = 2 ^ 9"
definition HK_EFFECT_CALLBACK_REGISTRATION :: u64 where "HK_EFFECT_CALLBACK_REGISTRATION = 2 ^ 10"
definition HK_EFFECT_THREAD_CREATION :: u64 where "HK_EFFECT_THREAD_CREATION = 2 ^ 11"
definition HK_EFFECT_PRIVATE_SYMBOL_SCAN :: u64 where "HK_EFFECT_PRIVATE_SYMBOL_SCAN = 2 ^ 12"
definition HK_EFFECT_FILE_MAPPING :: u64 where "HK_EFFECT_FILE_MAPPING = 2 ^ 13"
definition HK_EFFECT_MEMORY_PROTECTION_CHANGE :: u64 where "HK_EFFECT_MEMORY_PROTECTION_CHANGE = 2 ^ 14"
definition HK_EFFECT_UNKNOWN_PROCESS_MUTATION :: u64 where "HK_EFFECT_UNKNOWN_PROCESS_MUTATION = 2 ^ 63"

definition HK_FORBID_TARGET_TEXT_PATCH :: u64 where "HK_FORBID_TARGET_TEXT_PATCH = 2 ^ 0"
definition HK_FORBID_IMPORT_SLOT_PATCH :: u64 where "HK_FORBID_IMPORT_SLOT_PATCH = 2 ^ 1"
definition HK_FORBID_OBJC_METADATA_CHANGE :: u64 where "HK_FORBID_OBJC_METADATA_CHANGE = 2 ^ 2"
definition HK_FORBID_SWIFT_VTABLE_CHANGE :: u64 where "HK_FORBID_SWIFT_VTABLE_CHANGE = 2 ^ 3"
definition HK_FORBID_DYNAMIC_EXECUTABLE_MEMORY :: u64 where "HK_FORBID_DYNAMIC_EXECUTABLE_MEMORY = 2 ^ 4"
definition HK_FORBID_STATIC_CONTINUATION :: u64 where "HK_FORBID_STATIC_CONTINUATION = 2 ^ 5"
definition HK_FORBID_PRIVATE_SYMBOL_SCAN :: u64 where "HK_FORBID_PRIVATE_SYMBOL_SCAN = 2 ^ 6"
definition HK_FORBID_PROVIDER_ACTIVATION :: u64 where "HK_FORBID_PROVIDER_ACTIVATION = 2 ^ 7"
definition HK_FORBID_PROVIDER_IMAGE_LOAD :: u64 where "HK_FORBID_PROVIDER_IMAGE_LOAD = 2 ^ 8"
definition HK_FORBID_CALLBACK_REGISTRATION :: u64 where "HK_FORBID_CALLBACK_REGISTRATION = 2 ^ 9"
definition HK_FORBID_LATE_IMAGE_CALLBACK :: u64 where "HK_FORBID_LATE_IMAGE_CALLBACK = 2 ^ 10"
definition HK_FORBID_THREAD_CREATION :: u64 where "HK_FORBID_THREAD_CREATION = 2 ^ 11"
definition HK_FORBID_UNKNOWN_PREPARATION_EFFECTS :: u64 where "HK_FORBID_UNKNOWN_PREPARATION_EFFECTS = 2 ^ 12"
definition HK_FORBID_UNKNOWN_COMMIT_EFFECTS :: u64 where "HK_FORBID_UNKNOWN_COMMIT_EFFECTS = 2 ^ 13"

lemmas hk_bit_defs =
  HK_REACH_EXACT_IMAGE_SCOPE_def
  HK_EFFECT_TARGET_TEXT_MUTATION_def HK_EFFECT_IMPORT_MUTATION_def
  HK_EFFECT_OBJC_METADATA_MUTATION_def HK_EFFECT_SWIFT_VTABLE_MUTATION_def
  HK_EFFECT_MEMORY_MUTATION_def HK_EFFECT_EXECUTABLE_ALLOCATION_def
  HK_EFFECT_STATIC_CONTINUATION_USE_def HK_EFFECT_PROVIDER_ACTIVATION_def
  HK_EFFECT_PROVIDER_IMAGE_LOAD_def HK_EFFECT_IMAGE_LOAD_def
  HK_EFFECT_CALLBACK_REGISTRATION_def HK_EFFECT_THREAD_CREATION_def
  HK_EFFECT_PRIVATE_SYMBOL_SCAN_def HK_EFFECT_FILE_MAPPING_def
  HK_EFFECT_MEMORY_PROTECTION_CHANGE_def HK_EFFECT_UNKNOWN_PROCESS_MUTATION_def
  HK_FORBID_TARGET_TEXT_PATCH_def HK_FORBID_IMPORT_SLOT_PATCH_def
  HK_FORBID_OBJC_METADATA_CHANGE_def HK_FORBID_SWIFT_VTABLE_CHANGE_def
  HK_FORBID_DYNAMIC_EXECUTABLE_MEMORY_def HK_FORBID_STATIC_CONTINUATION_def
  HK_FORBID_PRIVATE_SYMBOL_SCAN_def HK_FORBID_PROVIDER_ACTIVATION_def
  HK_FORBID_PROVIDER_IMAGE_LOAD_def HK_FORBID_CALLBACK_REGISTRATION_def
  HK_FORBID_THREAD_CREATION_def HK_FORBID_UNKNOWN_COMMIT_EFFECTS_def

datatype hk_outcome =
    HK_OUTCOME_UNANALYZED | HK_OUTCOME_NO_ROUTE | HK_OUTCOME_ANALYZED | HK_OUTCOME_PREPARED
  | HK_OUTCOME_PENDING | HK_OUTCOME_ACTIVE | HK_OUTCOME_ALREADY_ACTIVE | HK_OUTCOME_STALE_PLAN
  | HK_OUTCOME_CONFLICT | HK_OUTCOME_FAILED_SAFE | HK_OUTCOME_FAILED_PARTIAL
  | HK_OUTCOME_FAILED_UNKNOWN | HK_OUTCOME_COMPENSATED | HK_OUTCOME_INVALIDATED

datatype hk_mutation_state =
    HK_MUTATION_NONE | HK_MUTATION_COMPLETE | HK_MUTATION_PARTIAL | HK_MUTATION_UNKNOWN

record hk_hook_result =
  r_runtime_owner_id :: hk_id
  r_plan_id :: hk_id
  r_request_id :: hk_id
  r_installed_id :: hk_id
  r_image_generation :: u64
  r_installed_generation :: u64
  r_outcome :: hk_outcome
  r_mutation :: hk_mutation_state
  r_achieved_reach :: hk_reachability
  r_unmet_preferred_reach :: hk_reachability
  r_declared_prepare_effects :: hk_effects
  r_observed_prepare_effects :: hk_effects
  r_declared_commit_effects :: hk_effects
  r_observed_commit_effects :: hk_effects
  r_continuation :: hk_continuation_info
  r_original_available :: bool
  r_verified :: bool
  r_retryable :: bool
  r_currently_valid :: bool
  r_matched_locations :: u32
  r_modified_locations :: u32
  r_diagnostic_engine_id :: "string option"
  r_error_domain :: "string option"
  r_error_code :: int
  r_error_message :: "string option"
  r_artifact_count :: nat

text \<open>The zeroed result.\<close>

definition zero_result :: hk_hook_result where
  "zero_result = \<lparr>r_runtime_owner_id = hk_id_zero, r_plan_id = hk_id_zero, r_request_id = hk_id_zero,
     r_installed_id = hk_id_zero, r_image_generation = 0, r_installed_generation = 0,
     r_outcome = HK_OUTCOME_UNANALYZED, r_mutation = HK_MUTATION_NONE, r_achieved_reach = 0,
     r_unmet_preferred_reach = 0, r_declared_prepare_effects = 0, r_observed_prepare_effects = 0,
     r_declared_commit_effects = 0, r_observed_commit_effects = 0,
     r_continuation = raw_continuation, r_original_available = False, r_verified = False,
     r_retryable = False, r_currently_valid = False, r_matched_locations = 0,
     r_modified_locations = 0, r_diagnostic_engine_id = None, r_error_domain = None,
     r_error_code = 0, r_error_message = None, r_artifact_count = 0\<rparr>"

definition hk_hook_result_refused_cleanly :: "hk_hook_result \<Rightarrow> bool" where
  "hk_hook_result_refused_cleanly r \<longleftrightarrow> r_mutation r = HK_MUTATION_NONE \<and>
     (r_outcome r = HK_OUTCOME_NO_ROUTE \<or> r_outcome r = HK_OUTCOME_FAILED_SAFE)"

section \<open>HookKitPlan.h\<close>

record hk_plan_config =
  pc_struct_size :: nat
  pc_debug_label :: "string option"

datatype hk_operation_role = HK_OPERATION_OPTIONAL | HK_OPERATION_MANDATORY

datatype hk_compensation_policy =
    HK_COMPENSATION_NONE | HK_COMPENSATION_BEST_EFFORT_REVERSIBLE_MEMBERS
  | HK_COMPENSATION_REQUIRE_REVERSIBLE_PREFIX

record hk_domain_spec =
  ds_struct_size :: nat
  ds_stable_domain_id :: "string option"
  ds_domain_order :: u32
  ds_require_all_mandatory_prepared :: bool
  ds_prefer_reversible_before_irreversible :: bool
  ds_compensation_policy :: hk_compensation_policy

text \<open>\<open>hs_commit_after\<close>: \<open>None\<close> is a NULL array, which is valid only with \<open>hs_commit_after_count = 0\<close>.
  An array holds that many pointers, each possibly NULL.\<close>

record hk_hook_spec =
  hs_struct_size :: nat
  hs_stable_hook_id :: "string option"
  hs_target :: hk_target
  hs_replacement :: ptr
  hs_required_reach :: hk_reachability
  hs_preferred_reach :: hk_reachability
  hs_original_requirement :: hk_original_requirement
  hs_continuation_policy :: hk_continuation_policy
  hs_constraints :: hk_constraints
  hs_availability :: hk_availability
  hs_role :: hk_operation_role
  hs_domain :: "nat option"
  hs_commit_order :: u32
  hs_commit_after :: "nat option list option"
  hs_commit_after_count :: nat

definition HK_PLAN_CONFIG_SIZE :: nat where "HK_PLAN_CONFIG_SIZE = 16"
definition HK_DOMAIN_SPEC_SIZE :: nat where "HK_DOMAIN_SPEC_SIZE = 32"
definition HK_HOOK_SPEC_SIZE :: nat where "HK_HOOK_SPEC_SIZE = 264"

datatype hk_plan_state =
    HK_PLAN_DRAFT | HK_PLAN_ANALYZED | HK_PLAN_PREPARING | HK_PLAN_PREPARED | HK_PLAN_COMMITTING
  | HK_PLAN_COMMITTED | HK_PLAN_PARTIAL | HK_PLAN_FAILED | HK_PLAN_INVALIDATED
  | HK_PLAN_DISCARDED

section \<open>HookKitArtifacts.h\<close>

datatype hk_artifact_kind =
    HK_ARTIFACT_IMPORT_SLOT | HK_ARTIFACT_TARGET_TEXT_PATCH | HK_ARTIFACT_MEMORY_PATCH
  | HK_ARTIFACT_TRAMPOLINE | HK_ARTIFACT_STATIC_CONTINUATION
  | HK_ARTIFACT_DYNAMIC_EXECUTABLE_ALLOCATION | HK_ARTIFACT_BRANCH_ISLAND
  | HK_ARTIFACT_OBJC_METHOD_CHANGE | HK_ARTIFACT_SWIFT_VTABLE_CHANGE
  | HK_ARTIFACT_ORIGINAL_POINTER | HK_ARTIFACT_LOADED_PROVIDER_IMAGE
  | HK_ARTIFACT_PROVIDER_ACTIVATION | HK_ARTIFACT_IMAGE_CALLBACK
  | HK_ARTIFACT_LATE_IMAGE_APPLICATION | HK_ARTIFACT_MEMORY_PROTECTION_TRANSITION
  | HK_ARTIFACT_FILE_MAPPING | HK_ARTIFACT_THREAD_CREATION | HK_ARTIFACT_UNKNOWN_PROCESS_MUTATION

datatype hk_artifact_state =
    HK_ARTIFACT_PLANNED | HK_ARTIFACT_PREPARED | HK_ARTIFACT_PENDING | HK_ARTIFACT_COMMITTED
  | HK_ARTIFACT_VERIFIED | HK_ARTIFACT_LATE_APPLIED | HK_ARTIFACT_PARTIALLY_APPLIED
  | HK_ARTIFACT_COMPENSATED | HK_ARTIFACT_ROLLED_BACK | HK_ARTIFACT_INVALIDATED
  | HK_ARTIFACT_DISCARDED | HK_ARTIFACT_OBSERVED_EXISTING

datatype hk_byte_storage_representation =
    HK_BYTE_STORAGE_NONE | HK_BYTE_STORAGE_INLINE | HK_BYTE_STORAGE_HASH
  | HK_BYTE_STORAGE_INLINE_AND_HASH

record hk_byte_storage =
  bs_representation :: hk_byte_storage_representation
  bs_inline_bytes :: hk_bytes_view
  bs_sha256 :: "byte list"
  bs_length :: nat

definition zero_byte_storage :: hk_byte_storage where
  "zero_byte_storage = \<lparr>bs_representation = HK_BYTE_STORAGE_NONE,
     bs_inline_bytes = \<lparr>bv_data = None, bv_size = 0\<rparr>, bs_sha256 = replicate 32 0, bs_length = 0\<rparr>"

record hk_vm_protection =
  vp_read :: bool
  vp_write :: bool
  vp_execute :: bool

record hk_image_identity =
  ii_path :: "string option"
  ii_uuid_present :: bool
  ii_uuid :: "byte list"
  ii_slide :: u64

record hk_artifact_mapping =
  am_mapping_id :: hk_id
  am_kind :: hk_mapping_kind
  am_base :: u64
  am_size :: u64
  am_protection :: hk_vm_protection

text \<open>A string view: a data pointer (\<open>None\<close> is NULL) and a length kept beside it.\<close>

record hk_string_view =
  sv_data :: "string option"
  sv_length :: nat

record hk_artifact =
  a_artifact_id :: hk_id
  a_runtime_owner_id :: hk_id
  a_plan_id :: hk_id
  a_request_id :: hk_id
  a_installed_id :: hk_id
  a_kind :: hk_artifact_kind
  a_state :: hk_artifact_state
  a_effects :: hk_effects
  a_engine_id :: hk_string_view
  a_mechanism_id :: hk_string_view
  a_image :: hk_image_identity
  a_image_generation :: u64
  a_installed_generation :: u64
  a_address :: u64
  a_size :: u64
  a_original_bytes :: hk_byte_storage
  a_expected_bytes :: hk_byte_storage
  a_expected_mask :: hk_byte_storage
  a_current_bytes :: hk_byte_storage
  a_original_pointer :: ptr
  a_replacement_pointer :: ptr
  a_import_slot_address :: u64
  a_continuation_address :: u64
  a_jump_back_destination :: u64
  a_original_protection :: hk_vm_protection
  a_current_protection :: hk_vm_protection
  a_mapping :: hk_artifact_mapping
  a_mechanically_reversible :: bool
  a_safe_to_reverse_after_activation :: bool
  a_verified :: bool
  a_fully_inspected :: bool

definition zero_protection :: hk_vm_protection where
  "zero_protection = \<lparr>vp_read = False, vp_write = False, vp_execute = False\<rparr>"

definition zero_mapping :: hk_artifact_mapping where
  "zero_mapping = \<lparr>am_mapping_id = hk_id_zero, am_kind = HK_MAPPING_NONE, am_base = 0, am_size = 0,
     am_protection = zero_protection\<rparr>"

definition zero_artifact :: hk_artifact where
  "zero_artifact = \<lparr>a_artifact_id = hk_id_zero, a_runtime_owner_id = hk_id_zero,
     a_plan_id = hk_id_zero, a_request_id = hk_id_zero, a_installed_id = hk_id_zero,
     a_kind = HK_ARTIFACT_IMPORT_SLOT, a_state = HK_ARTIFACT_PLANNED, a_effects = 0,
     a_engine_id = \<lparr>sv_data = None, sv_length = 0\<rparr>,
     a_mechanism_id = \<lparr>sv_data = None, sv_length = 0\<rparr>,
     a_image = \<lparr>ii_path = None, ii_uuid_present = False, ii_uuid = replicate 16 0, ii_slide = 0\<rparr>,
     a_image_generation = 0, a_installed_generation = 0, a_address = 0, a_size = 0,
     a_original_bytes = zero_byte_storage, a_expected_bytes = zero_byte_storage,
     a_expected_mask = zero_byte_storage, a_current_bytes = zero_byte_storage,
     a_original_pointer = 0, a_replacement_pointer = 0, a_import_slot_address = 0,
     a_continuation_address = 0, a_jump_back_destination = 0,
     a_original_protection = zero_protection, a_current_protection = zero_protection,
     a_mapping = zero_mapping, a_mechanically_reversible = False,
     a_safe_to_reverse_after_activation = False, a_verified = False, a_fully_inspected = False\<rparr>"

section \<open>Results of the engine callbacks\<close>

datatype hk_prepare_result = HK_PREPARE_OK | HK_PREPARE_FAILED | HK_PREPARE_NOT_APPLICABLE

datatype hk_verify_result = HK_VERIFY_UNAVAILABLE | HK_VERIFY_OK | HK_VERIFY_FAILED

record hk_prepare_diag =
  pd_error_code :: int
  pd_error_message :: "string option"
  pd_observed_effects :: hk_effects

record hk_verify_diag =
  vd_error_code :: int
  vd_error_message :: "string option"

definition zero_prepare_diag :: hk_prepare_diag where
  "zero_prepare_diag = \<lparr>pd_error_code = 0, pd_error_message = None, pd_observed_effects = 0\<rparr>"

definition zero_verify_diag :: hk_verify_diag where
  "zero_verify_diag = \<lparr>vd_error_code = 0, vd_error_message = None\<rparr>"

end
