(* ===== verification/HK_System.thy ===== *)
theory HK_System
  imports HK_Types
begin

text \<open>
  The process services every component uses: the allocator, \<open>src/core/HKIDs.c\<close>, and the array
  doubling the core repeats. \<open>hk_sys\<close> is the part of the process state they need; the
  components extend the record, so an operation that only allocates leaves the rest alone.
\<close>

record hk_sys =
  sys_heap :: heap
  sys_nonce :: "u64 option"
  sys_counter :: u64
  sys_entropy :: "u64 \<times> u64 \<times> u64 \<times> u64"

definition SIZE_MAX :: nat where
  "SIZE_MAX = 2 ^ 64 - 1"

definition sys_alloc :: "'s hk_sys_scheme \<Rightarrow> bool \<times> 's hk_sys_scheme" where
  "sys_alloc s = (let (ok, h) = hk_alloc (sys_heap s) in (ok, s\<lparr>sys_heap := h\<rparr>))"

text \<open>\<open>only_alloc s s'\<close>: between the two states nothing but the allocator moved.\<close>

definition only_alloc :: "'s hk_sys_scheme \<Rightarrow> 's hk_sys_scheme \<Rightarrow> bool" where
  "only_alloc s s' \<longleftrightarrow> (\<exists>h. s' = s\<lparr>sys_heap := h\<rparr>)"

lemma only_alloc_refl [simp]: "only_alloc s s"
  unfolding only_alloc_def by (rule exI [of _ "sys_heap s"]) simp

lemma only_alloc_trans: "only_alloc s s' \<Longrightarrow> only_alloc s' s'' \<Longrightarrow> only_alloc s s''"
  by (auto simp: only_alloc_def)

lemma only_allocD:
  assumes "only_alloc s s'"
  shows "sys_nonce s' = sys_nonce s" "sys_counter s' = sys_counter s" "sys_entropy s' = sys_entropy s"
    "hk_sys.more s' = hk_sys.more s"
  using assms by (auto simp: only_alloc_def)

lemma sys_alloc_frame [hk_frame]: "sys_alloc s = (ok, s') \<Longrightarrow> only_alloc s s'"
  by (auto simp: sys_alloc_def only_alloc_def Let_def split: prod.splits)

text \<open>No allocation fails from here on.\<close>

abbreviation no_oom :: "'s hk_sys_scheme \<Rightarrow> bool" where
  "no_oom s \<equiv> False \<notin> set (sys_heap s)"

lemma sys_alloc_no_oom: "no_oom s \<Longrightarrow> sys_alloc s = (ok, s') \<Longrightarrow> ok \<and> no_oom s'"
  by (cases "sys_heap s") (auto simp: sys_alloc_def Let_def)

section \<open>HKIDs.c\<close>

definition hk_compute_process_nonce :: "u64 \<Rightarrow> u64 \<Rightarrow> u64 \<Rightarrow> u64 \<Rightarrow> u64" where
  "hk_compute_process_nonce tv_sec tv_usec pid stack_entropy =
     push_bit 32 tv_sec XOR tv_usec XOR pid XOR stack_entropy"

text \<open>\<open>pthread_once\<close>: the first caller stores the nonce, every later call finds it.\<close>

definition hk_init_nonce :: "'s hk_sys_scheme \<Rightarrow> u64 \<times> 's hk_sys_scheme" where
  "hk_init_nonce s = (case sys_nonce s of
     Some n \<Rightarrow> (n, s)
   | None \<Rightarrow> (let (sec, usec, pid, stack) = sys_entropy s;
                 n = hk_compute_process_nonce sec usec pid stack
             in (n, s\<lparr>sys_nonce := Some n\<rparr>)))"

definition hk_id_generate :: "'s hk_sys_scheme \<Rightarrow> hk_id \<times> 's hk_sys_scheme" where
  "hk_id_generate s =
     (let (n, s1) = hk_init_nonce s; counter = sys_counter s1 + 1
      in (\<lparr>id_high = n, id_low = counter\<rparr>, s1\<lparr>sys_counter := counter\<rparr>))"

lemma hk_id_generate_frame [hk_frame]:
  assumes "hk_id_generate s = (i, s')"
  shows "sys_heap s' = sys_heap s" "hk_sys.more s' = hk_sys.more s" "sys_entropy s' = sys_entropy s"
    "sys_nonce s' = Some (id_high i)" "sys_counter s' = sys_counter s + 1" "id_low i = sys_counter s + 1"
  using assms
  by (auto simp: hk_id_generate_def hk_init_nonce_def Let_def split: option.splits prod.splits)

lemma hk_id_generate_high:
  "hk_id_generate s = (i, s') \<Longrightarrow> sys_nonce s = Some n \<Longrightarrow> id_high i = n"
  by (auto simp: hk_id_generate_def hk_init_nonce_def Let_def split: prod.splits)

primrec hk_ids :: "nat \<Rightarrow> 's hk_sys_scheme \<Rightarrow> hk_id list \<times> 's hk_sys_scheme" where
  "hk_ids 0 s = ([], s)"
| "hk_ids (Suc n) s =
     (let (i, s1) = hk_id_generate s; (is, s2) = hk_ids n s1 in (i # is, s2))"

lemma hk_ids_low:
  "hk_ids n s = (is, s') \<Longrightarrow>
     length is = n \<and> (\<forall>k < n. id_low (is ! k) = sys_counter s + of_nat (k + 1))"
proof (induction n arbitrary: s "is" s')
  case 0
  then show ?case by simp
next
  case (Suc n)
  obtain i s1 where g: "hk_id_generate s = (i, s1)" by fastforce
  obtain js s2 where j: "hk_ids n s1 = (js, s2)" by fastforce
  from Suc.prems g j have e: "is = i # js" by simp
  have IH: "length js = n" "\<forall>k < n. id_low (js ! k) = sys_counter s1 + of_nat (k + 1)"
    using Suc.IH [OF j] by auto
  have c: "sys_counter s1 = sys_counter s + 1" "id_low i = sys_counter s + 1"
    using hk_id_generate_frame [OF g] by auto
  show ?case
  proof (intro conjI allI impI)
    show "length is = Suc n" using e IH by simp
    fix k assume "k < Suc n"
    then show "id_low (is ! k) = sys_counter s + of_nat (k + 1)"
      using e IH(2) c by (cases k) (auto simp: algebra_simps)
  qed
qed

text \<open>Identifiers repeat only after the 64-bit counter has gone round once.\<close>

lemma hk_ids_distinct:
  assumes "hk_ids n s = (is, s')" "n \<le> 2 ^ 64"
  shows "distinct is"
proof (rule distinct_conv_nth [THEN iffD2], intro allI impI)
  fix i j assume ij: "i < length is" "j < length is" "i \<noteq> j"
  have len: "length is = n" and low: "\<And>k. k < n \<Longrightarrow> id_low (is ! k) = sys_counter s + of_nat (k + 1)"
    using hk_ids_low [OF assms(1)] by auto
  have "(of_nat i :: u64) \<noteq> of_nat j"
  proof
    assume "(of_nat i :: u64) = of_nat j"
    then have "i mod 2 ^ 64 = j mod 2 ^ 64"
      by (simp add: word_of_nat_eq_iff take_bit_eq_mod)
    then show False using ij len assms(2) by simp
  qed
  then have "id_low (is ! i) \<noteq> id_low (is ! j)"
    using low ij len by (auto simp: add.assoc)
  then show "is ! i \<noteq> is ! j" by auto
qed

section \<open>Growing arrays\<close>

text \<open>
  The doubling loop of \<open>ensure_capacity\<close> and \<open>key_append\<close>; a capacity of 0 never reaches it.
\<close>

function grow_capacity :: "nat \<Rightarrow> nat \<Rightarrow> nat" where
  "grow_capacity capacity needed =
     (if needed \<le> capacity \<or> capacity = 0 then capacity
      else if capacity > SIZE_MAX div 2 then needed
      else grow_capacity (capacity * 2) needed)"
  by pat_completeness auto
termination by (relation "measure (\<lambda>(c, n). n - c)") auto

declare grow_capacity.simps [simp del]

lemma grow_capacity_ge: "0 < capacity \<Longrightarrow> needed \<le> grow_capacity capacity needed"
proof (induction capacity needed rule: grow_capacity.induct)
  case (1 capacity needed)
  show ?case
    using 1 by (subst grow_capacity.simps) (simp del: mult_2_right)
qed

text \<open>
  The pointer arrays of plans, domains and pending hooks: at \<open>count = capacity\<close> one reallocation
  doubles the capacity.
\<close>

definition grow_array :: "nat \<Rightarrow> nat \<Rightarrow> nat \<Rightarrow> 's hk_sys_scheme \<Rightarrow> (nat option) \<times> 's hk_sys_scheme" where
  "grow_array initial count capacity s =
     (if count = capacity then
        let (ok, s1) = sys_alloc s
        in (if ok then Some (if capacity = 0 then initial else capacity * 2) else None, s1)
      else (Some capacity, s))"

lemma grow_array_frame [hk_frame]: "grow_array n c k s = (r, s') \<Longrightarrow> only_alloc s s'"
  by (auto simp: grow_array_def Let_def split: if_splits prod.splits dest: sys_alloc_frame)

lemma grow_array_no_oom: "no_oom s \<Longrightarrow> grow_array n c k s = (r, s') \<Longrightarrow> r \<noteq> None \<and> no_oom s'"
  by (auto simp: grow_array_def Let_def split: if_splits prod.splits dest: sys_alloc_no_oom)

end
