(* ===== verification/HK_Ledger.thy ===== *)
theory HK_Ledger
  imports HK_System
begin

text \<open>
  The artifact ledger of \<open>src/core/HKArtifactLedger.c\<close>: append-only recording with deep copies,
  verification and compensation marks over a range, immutable snapshots, and the sink through
  which an engine records what it did. A ledger is its items in order and its capacity; the items
  are values, so the deep copy of the code is the value \<open>owned_value\<close>.
\<close>

record hk_artifact_ledger =
  l_items :: "hk_artifact list"
  l_capacity :: nat

definition hk_artifact_ledger_create :: "'s hk_sys_scheme \<Rightarrow> hk_artifact_ledger option \<times> 's hk_sys_scheme" where
  "hk_artifact_ledger_create s =
     (let (ok, s1) = sys_alloc s in (if ok then Some \<lparr>l_items = [], l_capacity = 0\<rparr> else None, s1))"

definition hk_artifact_ledger_count :: "hk_artifact_ledger \<Rightarrow> nat" where
  "hk_artifact_ledger_count l = length (l_items l)"

section \<open>Deep copies\<close>

text \<open>The size computation of \<open>owned_copy\<close>; \<open>None\<close> is a view the copy refuses.\<close>

fun strings_total :: "hk_string_view list \<Rightarrow> nat \<Rightarrow> nat option" where
  "strings_total [] sum_acc = Some sum_acc"
| "strings_total (v # vs) sum_acc =
     (case sv_data v of
        None \<Rightarrow> if sv_length v \<noteq> 0 then None else strings_total vs sum_acc
      | Some _ \<Rightarrow>
          if sv_length v = SIZE_MAX \<or> sv_length v + 1 > SIZE_MAX - sum_acc then None
          else strings_total vs (sum_acc + sv_length v + 1))"

definition inline_storage :: "hk_byte_storage \<Rightarrow> bool" where
  "inline_storage b \<longleftrightarrow> bs_representation b = HK_BYTE_STORAGE_INLINE \<or>
     bs_representation b = HK_BYTE_STORAGE_INLINE_AND_HASH"

fun bytes_total :: "hk_byte_storage list \<Rightarrow> nat \<Rightarrow> nat option" where
  "bytes_total [] sum_acc = Some sum_acc"
| "bytes_total (b # bs) sum_acc =
     (if \<not> inline_storage b then bytes_total bs sum_acc
      else let n = bv_size (bs_inline_bytes b) in
        if n \<noteq> 0 \<and> bv_data (bs_inline_bytes b) = None \<or> n > SIZE_MAX - sum_acc then None
        else bytes_total bs (sum_acc + n))"

definition owned_string :: "hk_string_view \<Rightarrow> hk_string_view" where
  "owned_string v = v\<lparr>sv_data := map_option (take (sv_length v)) (sv_data v)\<rparr>"

definition owned_bytes :: "hk_byte_storage \<Rightarrow> hk_byte_storage" where
  "owned_bytes b =
     (if \<not> inline_storage b then b
      else let v = bs_inline_bytes b; n = bv_size v in
        b\<lparr>bs_inline_bytes := v\<lparr>bv_data := if n = 0 then None else map_option (take n) (bv_data v)\<rparr>\<rparr>)"

definition owned_value :: "hk_artifact \<Rightarrow> hk_artifact" where
  "owned_value a = a\<lparr>
     a_engine_id := owned_string (a_engine_id a),
     a_mechanism_id := owned_string (a_mechanism_id a),
     a_original_bytes := owned_bytes (a_original_bytes a),
     a_expected_bytes := owned_bytes (a_expected_bytes a),
     a_expected_mask := owned_bytes (a_expected_mask a),
     a_current_bytes := owned_bytes (a_current_bytes a)\<rparr>"

definition path_view :: "hk_artifact \<Rightarrow> hk_string_view" where
  "path_view a = \<lparr>sv_data = ii_path (a_image a),
     sv_length = (case ii_path (a_image a) of None \<Rightarrow> 0 | Some p \<Rightarrow> length p)\<rparr>"

definition owned_total :: "hk_artifact \<Rightarrow> nat option" where
  "owned_total a =
     Option.bind (strings_total [a_engine_id a, a_mechanism_id a, path_view a] 0)
       (bytes_total [a_original_bytes a, a_expected_bytes a, a_expected_mask a, a_current_bytes a])"

definition owned_copy :: "hk_artifact \<Rightarrow> 's hk_sys_scheme \<Rightarrow> hk_artifact option \<times> 's hk_sys_scheme" where
  "owned_copy a s =
     (case owned_total a of
        None \<Rightarrow> (None, s)
      | Some sum_acc \<Rightarrow>
          if sum_acc = 0 then (Some (owned_value a), s)
          else let (ok, s1) = sys_alloc s in (if ok then Some (owned_value a) else None, s1))"

lemma owned_copy_Some: "owned_copy a s = (Some b, s') \<Longrightarrow> b = owned_value a"
  by (auto simp: owned_copy_def Let_def split: option.splits if_splits prod.splits)

lemma owned_copy_frame [hk_frame]: "owned_copy a s = (r, s') \<Longrightarrow> only_alloc s s'"
  by (auto simp: owned_copy_def Let_def split: option.splits if_splits prod.splits dest: sys_alloc_frame)

lemma owned_value_idem: "owned_value (owned_value a) = owned_value a"
  by (simp add: owned_value_def owned_string_def owned_bytes_def inline_storage_def Let_def
      option.map_comp comp_def)

section \<open>Appending\<close>

definition ensure_capacity :: "hk_artifact_ledger \<Rightarrow> nat \<Rightarrow> 's hk_sys_scheme \<Rightarrow>
    (bool \<times> hk_artifact_ledger) \<times> 's hk_sys_scheme" where
  "ensure_capacity l needed s =
     (if needed \<le> l_capacity l then ((True, l), s)
      else let capacity = grow_capacity (if l_capacity l = 0 then 4 else l_capacity l) needed;
               (ok, s1) = sys_alloc s
           in ((ok, if ok then l\<lparr>l_capacity := capacity\<rparr> else l), s1))"

definition hk_artifact_ledger_append :: "hk_artifact_ledger \<Rightarrow> hk_artifact \<Rightarrow> 's hk_sys_scheme \<Rightarrow>
    (bool \<times> hk_artifact_ledger) \<times> 's hk_sys_scheme" where
  "hk_artifact_ledger_append l a s =
     (case owned_copy a s of
        (None, s1) \<Rightarrow> ((False, l), s1)
      | (Some owned, s1) \<Rightarrow>
          (case ensure_capacity l (length (l_items l) + 1) s1 of
             ((False, l1), s2) \<Rightarrow> ((False, l1), s2)
           | ((True, l1), s2) \<Rightarrow> ((True, l1\<lparr>l_items := l_items l1 @ [owned]\<rparr>), s2)))"

primrec owned_copies :: "hk_artifact list \<Rightarrow> 's hk_sys_scheme \<Rightarrow> hk_artifact list option \<times> 's hk_sys_scheme" where
  "owned_copies [] s = (Some [], s)"
| "owned_copies (a # as) s =
     (case owned_copy a s of
        (None, s1) \<Rightarrow> (None, s1)
      | (Some b, s1) \<Rightarrow>
          (case owned_copies as s1 of
             (None, s2) \<Rightarrow> (None, s2)
           | (Some bs, s2) \<Rightarrow> (Some (b # bs), s2)))"

definition hk_artifact_ledger_append_ledger :: "hk_artifact_ledger \<Rightarrow> hk_artifact_ledger \<Rightarrow>
    's hk_sys_scheme \<Rightarrow> (bool \<times> hk_artifact_ledger) \<times> 's hk_sys_scheme" where
  "hk_artifact_ledger_append_ledger l src s =
     (if l_items src = [] then ((True, l), s)
      else if length (l_items src) > SIZE_MAX - length (l_items l) then ((False, l), s)
      else (case ensure_capacity l (length (l_items l) + length (l_items src)) s of
          ((False, l1), s1) \<Rightarrow> ((False, l1), s1)
        | ((True, l1), s1) \<Rightarrow>
            (case owned_copies (l_items src) s1 of
               (None, s2) \<Rightarrow> ((False, l1), s2)
             | (Some bs, s2) \<Rightarrow> ((True, l1\<lparr>l_items := l_items l1 @ bs\<rparr>), s2))))"

lemma ensure_capacity_items:
  assumes "ensure_capacity l n s = ((ok, l'), s')"
  shows "l_items l' = l_items l" "ok \<Longrightarrow> n \<le> l_capacity l'"
  using assms
  by (auto simp: ensure_capacity_def Let_def grow_capacity_ge split: if_splits prod.splits)

lemma ensure_capacity_frame [hk_frame]: "ensure_capacity l n s = (r, s') \<Longrightarrow> only_alloc s s'"
  by (auto simp: ensure_capacity_def Let_def split: if_splits prod.splits dest: sys_alloc_frame)

lemma ledger_append_items:
  assumes "hk_artifact_ledger_append l a s = ((ok, l'), s')"
  shows "l_items l' = l_items l @ (if ok then [owned_value a] else [])"
  using assms
  by (auto simp: hk_artifact_ledger_append_def split: prod.splits option.splits bool.splits
      dest: owned_copy_Some ensure_capacity_items)

lemma ledger_append_frame [hk_frame]: "hk_artifact_ledger_append l a s = (r, s') \<Longrightarrow> only_alloc s s'"
  by (auto simp: hk_artifact_ledger_append_def split: prod.splits option.splits bool.splits
      dest!: owned_copy_frame ensure_capacity_frame elim: only_alloc_trans)

lemma owned_copies_Some: "owned_copies as s = (Some bs, s') \<Longrightarrow> bs = map owned_value as"
  by (induction as arbitrary: s bs s')
    (auto split: prod.splits option.splits dest: owned_copy_Some)

lemma owned_copies_frame [hk_frame]: "owned_copies as s = (r, s') \<Longrightarrow> only_alloc s s'"
proof (induction as arbitrary: s r)
  case (Cons a as)
  obtain x s1 where c: "owned_copy a s = (x, s1)" by fastforce
  have "only_alloc s1 s'"
    using Cons.prems c Cons.IH [of s1] by (auto split: option.splits prod.splits)
  with owned_copy_frame [OF c] show ?case by (rule only_alloc_trans)
qed simp

lemma ledger_append_ledger_items:
  assumes "hk_artifact_ledger_append_ledger l src s = ((ok, l'), s')"
  shows "l_items l' = l_items l @ (if ok then map owned_value (l_items src) else [])"
  using assms
  by (auto simp: hk_artifact_ledger_append_ledger_def
      split: prod.splits option.splits bool.splits if_splits
      dest!: owned_copies_Some dest: ensure_capacity_items(1))

lemma ledger_append_ledger_frame [hk_frame]:
  "hk_artifact_ledger_append_ledger l src s = (r, s') \<Longrightarrow> only_alloc s s'"
  by (auto simp: hk_artifact_ledger_append_ledger_def
      split: prod.splits option.splits bool.splits if_splits
      dest!: owned_copies_frame ensure_capacity_frame elim: only_alloc_trans)

section \<open>Marks\<close>

definition mark_range :: "(hk_artifact \<Rightarrow> hk_artifact) \<Rightarrow> nat \<Rightarrow> nat \<Rightarrow> hk_artifact list \<Rightarrow> hk_artifact list" where
  "mark_range f start n items = fold (\<lambda>i xs. xs[i := f (xs ! i)]) [start..<start + n] items"

definition hk_artifact_ledger_mark_verified :: "hk_artifact_ledger \<Rightarrow> nat \<Rightarrow> nat \<Rightarrow> bool \<times> hk_artifact_ledger" where
  "hk_artifact_ledger_mark_verified l start n =
     (if start > length (l_items l) \<or> n > length (l_items l) - start then (False, l)
      else (True, l\<lparr>l_items := mark_range (\<lambda>a. a\<lparr>a_state := HK_ARTIFACT_VERIFIED, a_verified := True\<rparr>)
              start n (l_items l)\<rparr>))"

definition hk_artifact_ledger_mark_compensated :: "hk_artifact_ledger \<Rightarrow> nat \<Rightarrow> nat \<Rightarrow> bool \<times> hk_artifact_ledger" where
  "hk_artifact_ledger_mark_compensated l start n =
     (if start > length (l_items l) \<or> n > length (l_items l) - start then (False, l)
      else (True, l\<lparr>l_items := mark_range (\<lambda>a. a\<lparr>a_state := HK_ARTIFACT_COMPENSATED, a_verified := False\<rparr>)
              start n (l_items l)\<rparr>))"

lemma mark_range_length [simp]: "length (mark_range f start n xs) = length xs"
proof -
  have "length (fold (\<lambda>i xs. xs[i := f (xs ! i)]) is xs) = length xs" for "is"
    by (induction "is" arbitrary: xs) simp_all
  then show ?thesis by (simp add: mark_range_def)
qed

lemma mark_range_nth:
  "start + n \<le> length xs \<Longrightarrow> i < length xs \<Longrightarrow>
   mark_range f start n xs ! i = (if start \<le> i \<and> i < start + n then f (xs ! i) else xs ! i)"
proof (induction n)
  case 0
  then show ?case by (auto simp: mark_range_def)
next
  case (Suc n)
  have "mark_range f start (Suc n) xs =
      (mark_range f start n xs)[start + n := f (mark_range f start n xs ! (start + n))]"
    by (simp add: mark_range_def)
  then show ?case using Suc by (auto simp: nth_list_update)
qed

lemma mark_verified_count [simp]:
  "hk_artifact_ledger_mark_verified l st n = (ok, l') \<Longrightarrow> length (l_items l') = length (l_items l)"
  by (auto simp: hk_artifact_ledger_mark_verified_def split: if_splits)

section \<open>Snapshots\<close>

record hk_artifact_snapshot =
  sn_items :: "hk_artifact list"

text \<open>The \<open>ledger\<close> argument may be NULL; the destination may not.\<close>

definition hk_artifact_snapshot_from_ledger :: "hk_artifact_ledger option \<Rightarrow> 's hk_sys_scheme \<Rightarrow>
    (hk_status \<times> hk_artifact_snapshot option) \<times> 's hk_sys_scheme" where
  "hk_artifact_snapshot_from_ledger l s =
     (let (ok, s1) = sys_alloc s; items = (case l of None \<Rightarrow> [] | Some l' \<Rightarrow> l_items l') in
      if \<not> ok then ((HK_STATUS_OUT_OF_MEMORY, None), s1)
      else if items = [] then ((HK_STATUS_OK, Some \<lparr>sn_items = []\<rparr>), s1)
      else let (ok2, s2) = sys_alloc s1 in
        if \<not> ok2 then ((HK_STATUS_OUT_OF_MEMORY, None), s2)
        else (case owned_copies items s2 of
            (None, s3) \<Rightarrow> ((HK_STATUS_OUT_OF_MEMORY, None), s3)
          | (Some bs, s3) \<Rightarrow> ((HK_STATUS_OK, Some \<lparr>sn_items = bs\<rparr>), s3)))"

definition hk_artifact_snapshot_count :: "hk_artifact_snapshot option \<Rightarrow> nat" where
  "hk_artifact_snapshot_count sn = (case sn of None \<Rightarrow> 0 | Some s \<Rightarrow> length (sn_items s))"

definition hk_artifact_snapshot_copy_at :: "hk_artifact_snapshot option \<Rightarrow> nat \<Rightarrow> hk_status \<times> hk_artifact option" where
  "hk_artifact_snapshot_copy_at sn index =
     (case sn of
        None \<Rightarrow> (HK_STATUS_INVALID_ARGUMENT, None)
      | Some s \<Rightarrow> if index \<ge> length (sn_items s) then (HK_STATUS_INVALID_ARGUMENT, None)
                  else (HK_STATUS_OK, Some (sn_items s ! index)))"

section \<open>The sink\<close>

text \<open>The sink holds its ledger by value while an engine records into it.\<close>

record hk_artifact_sink =
  sk_ledger :: hk_artifact_ledger
  sk_plan_id :: hk_id
  sk_runtime_owner_id :: hk_id
  sk_request_id :: hk_id
  sk_published_original :: ptr
  sk_has_continuation :: bool
  sk_continuation :: hk_continuation_info
  sk_require_predecessor_match :: bool
  sk_required_predecessor :: ptr
  sk_record_failed :: bool
  sk_observed_effects :: hk_effects

definition hk_artifact_sink_record :: "hk_artifact_sink \<Rightarrow> hk_artifact \<Rightarrow> 's hk_sys_scheme \<Rightarrow>
    (bool \<times> hk_artifact_sink) \<times> 's hk_sys_scheme" where
  "hk_artifact_sink_record sink a s =
     (let sink1 = sink\<lparr>sk_observed_effects := sk_observed_effects sink OR a_effects a\<rparr>;
          (i, s1) = hk_id_generate s;
          stamped = a\<lparr>a_artifact_id := i, a_plan_id := sk_plan_id sink,
                      a_request_id := sk_request_id sink,
                      a_runtime_owner_id := sk_runtime_owner_id sink\<rparr>;
          ((ok, l'), s2) = hk_artifact_ledger_append (sk_ledger sink1) stamped s1;
          sink2 = sink1\<lparr>sk_ledger := l'\<rparr>
      in ((ok, if ok then sink2 else sink2\<lparr>sk_record_failed := True\<rparr>), s2))"

text \<open>The calls of one engine callback, in order; engines ignore the result of each.\<close>

primrec sink_record_all :: "hk_artifact list \<Rightarrow> hk_artifact_sink \<Rightarrow> 's hk_sys_scheme \<Rightarrow>
    hk_artifact_sink \<times> 's hk_sys_scheme" where
  "sink_record_all [] sink s = (sink, s)"
| "sink_record_all (a # as) sink s =
     (let ((_, sink1), s1) = hk_artifact_sink_record sink a s in sink_record_all as sink1 s1)"

section \<open>The process ledger\<close>

text \<open>\<open>g_process_ledger\<close> is \<open>None\<close> until the first append creates it.\<close>

definition hk_artifact_process_append_ledger :: "hk_artifact_ledger option \<Rightarrow> hk_artifact_ledger \<Rightarrow>
    's hk_sys_scheme \<Rightarrow> (bool \<times> hk_artifact_ledger option) \<times> 's hk_sys_scheme" where
  "hk_artifact_process_append_ledger g src s =
     (let (g1, s1) = (case g of Some _ \<Rightarrow> (g, s) | None \<Rightarrow> hk_artifact_ledger_create s) in
      case g1 of
        None \<Rightarrow> ((False, None), s1)
      | Some l \<Rightarrow> (let ((ok, l'), s2) = hk_artifact_ledger_append_ledger l src s1
                   in ((ok, Some l'), s2)))"

definition hk_artifact_process_snapshot :: "hk_artifact_ledger option \<Rightarrow> 's hk_sys_scheme \<Rightarrow>
    (hk_status \<times> hk_artifact_snapshot option) \<times> 's hk_sys_scheme" where
  "hk_artifact_process_snapshot g s = hk_artifact_snapshot_from_ledger g s"

section \<open>What a recording engine leaves behind\<close>

text \<open>\<open>stamped sink b\<close>: the contextual identifiers of the record are those of the sink.\<close>

definition stamped :: "hk_artifact_sink \<Rightarrow> hk_artifact \<Rightarrow> bool" where
  "stamped sink b \<longleftrightarrow> a_plan_id b = sk_plan_id sink \<and> a_request_id b = sk_request_id sink \<and>
     a_runtime_owner_id b = sk_runtime_owner_id sink"

definition same_context :: "hk_artifact_sink \<Rightarrow> hk_artifact_sink \<Rightarrow> bool" where
  "same_context sink sink' \<longleftrightarrow> sk_plan_id sink' = sk_plan_id sink \<and>
     sk_request_id sink' = sk_request_id sink \<and>
     sk_runtime_owner_id sink' = sk_runtime_owner_id sink \<and>
     sk_published_original sink' = sk_published_original sink \<and>
     sk_has_continuation sink' = sk_has_continuation sink \<and>
     sk_continuation sink' = sk_continuation sink \<and>
     sk_require_predecessor_match sink' = sk_require_predecessor_match sink \<and>
     sk_required_predecessor sink' = sk_required_predecessor sink"

lemma same_context_refl [simp]: "same_context sink sink"
  by (simp add: same_context_def)

lemma same_context_trans: "same_context a b \<Longrightarrow> same_context b c \<Longrightarrow> same_context a c"
  by (simp add: same_context_def)

lemma stamped_context: "same_context sink sink' \<Longrightarrow> stamped sink' b = stamped sink b"
  by (simp add: same_context_def stamped_def)

lemma sink_record_step:
  assumes "hk_artifact_sink_record sink a s = ((ok, sink'), s')"
  shows "\<exists>b. l_items (sk_ledger sink') = l_items (sk_ledger sink) @ (if ok then [b] else []) \<and>
      stamped sink b \<and> id_low (a_artifact_id b) = sys_counter s + 1 \<and>
      a_kind b = a_kind a \<and> a_address b = a_address a \<and> a_effects b = a_effects a"
    and "same_context sink sink'" "sk_record_failed sink' \<longleftrightarrow> sk_record_failed sink \<or> \<not> ok"
    and "sk_observed_effects sink' = sk_observed_effects sink OR a_effects a"
    and "sys_counter s' = sys_counter s + 1" "hk_sys.more s' = hk_sys.more s"
proof -
  obtain i s1 where g: "hk_id_generate s = (i, s1)" by fastforce
  define st where "st = a\<lparr>a_artifact_id := i, a_plan_id := sk_plan_id sink,
      a_request_id := sk_request_id sink, a_runtime_owner_id := sk_runtime_owner_id sink\<rparr>"
  obtain ok1 l' s2 where l: "hk_artifact_ledger_append (sk_ledger sink) st s1 = ((ok1, l'), s2)"
    by (metis surj_pair)
  have e: "ok1 = ok" "s' = s2" "sk_ledger sink' = l'" "same_context sink sink'"
    "sk_record_failed sink' \<longleftrightarrow> sk_record_failed sink \<or> \<not> ok"
    "sk_observed_effects sink' = sk_observed_effects sink OR a_effects a"
    using assms g l
    by (auto simp: hk_artifact_sink_record_def Let_def same_context_def st_def split: if_splits)
  show "same_context sink sink'" "sk_record_failed sink' \<longleftrightarrow> sk_record_failed sink \<or> \<not> ok"
    "sk_observed_effects sink' = sk_observed_effects sink OR a_effects a"
    using e by auto
  show "\<exists>b. l_items (sk_ledger sink') = l_items (sk_ledger sink) @ (if ok then [b] else []) \<and>
      stamped sink b \<and> id_low (a_artifact_id b) = sys_counter s + 1 \<and>
      a_kind b = a_kind a \<and> a_address b = a_address a \<and> a_effects b = a_effects a"
    using ledger_append_items [OF l] e hk_id_generate_frame(6) [OF g]
    by (intro exI [of _ "owned_value st"]) (simp add: stamped_def st_def owned_value_def)
  show "sys_counter s' = sys_counter s + 1" "hk_sys.more s' = hk_sys.more s"
    using only_allocD [OF ledger_append_frame [OF l]] hk_id_generate_frame [OF g] e by auto
qed

lemma sink_record_all_frame:
  assumes "sink_record_all as sink s = (sink', s')"
  shows "same_context sink sink'" "hk_sys.more s' = hk_sys.more s"
    "sys_counter s' = sys_counter s + of_nat (length as)"
    "sk_observed_effects sink' = fold (\<lambda>a w. w OR a_effects a) as (sk_observed_effects sink)"
proof -
  have "same_context sink sink' \<and> hk_sys.more s' = hk_sys.more s \<and>
      sys_counter s' = sys_counter s + of_nat (length as) \<and>
      sk_observed_effects sink' = fold (\<lambda>a w. w OR a_effects a) as (sk_observed_effects sink)"
    using assms
  proof (induction as arbitrary: sink s)
    case (Cons a as)
    obtain ok sink1 s1 where r: "hk_artifact_sink_record sink a s = ((ok, sink1), s1)"
      by (metis surj_pair)
    have "sink_record_all as sink1 s1 = (sink', s')" using Cons.prems r by simp
    from Cons.IH [OF this] sink_record_step(2,4-) [OF r] show ?case
      by (auto intro: same_context_trans simp: algebra_simps)
  qed simp
  then show "same_context sink sink'" "hk_sys.more s' = hk_sys.more s"
    "sys_counter s' = sys_counter s + of_nat (length as)"
    "sk_observed_effects sink' = fold (\<lambda>a w. w OR a_effects a) as (sk_observed_effects sink)"
    by auto
qed

lemma sink_record_all_items:
  assumes "sink_record_all as sink s = (sink', s')"
  shows "\<exists>bs. l_items (sk_ledger sink') = l_items (sk_ledger sink) @ bs \<and>
    (\<forall>b \<in> set bs. stamped sink b) \<and> length bs \<le> length as \<and>
    (sk_record_failed sink' \<longleftrightarrow> sk_record_failed sink \<or> length bs < length as) \<and>
    (length bs = length as \<longrightarrow> map a_address bs = map a_address as \<and> map a_kind bs = map a_kind as)"
  using assms
proof (induction as arbitrary: sink s)
  case Nil
  then show ?case by simp
next
  case (Cons a as)
  obtain ok sink1 s1 where r: "hk_artifact_sink_record sink a s = ((ok, sink1), s1)"
    by (metis surj_pair)
  have n: "sink_record_all as sink1 s1 = (sink', s')" using Cons.prems r by simp
  note st = sink_record_step [OF r]
  obtain b where b: "l_items (sk_ledger sink1) = l_items (sk_ledger sink) @ (if ok then [b] else [])"
    "stamped sink b" "a_kind b = a_kind a" "a_address b = a_address a" using st(1) by blast
  obtain bs where bs: "l_items (sk_ledger sink') = l_items (sk_ledger sink1) @ bs"
    "\<forall>b \<in> set bs. stamped sink1 b" "length bs \<le> length as"
    "sk_record_failed sink' \<longleftrightarrow> sk_record_failed sink1 \<or> length bs < length as"
    "length bs = length as \<longrightarrow> map a_address bs = map a_address as \<and> map a_kind bs = map a_kind as"
    using Cons.IH [OF n] by blast
  show ?case
    using b bs st(2,3)
    by (intro exI [of _ "(if ok then [b] else []) @ bs"])
      (auto simp: stamped_context [OF st(2)])
qed

text \<open>Whatever artifacts an engine records during one commit, the sink appends only records that
  carry the plan, request and owner ids of the sink, in order, never more than were offered;
  \<open>record_failed\<close> is raised exactly when one of them was lost; the ids of the sink, the
  original the engine published and the continuation are untouched by recording; and the observed
  effects are the union over all offered artifacts, the lost ones included.\<close>

lemma sink_record_all_spec:
  assumes "sink_record_all as sink s = (sink', s')" "\<not> sk_record_failed sink"
  shows "\<exists>bs. l_items (sk_ledger sink') = l_items (sk_ledger sink) @ bs \<and>
      (\<forall>b \<in> set bs. stamped sink b) \<and> length bs \<le> length as \<and>
      (sk_record_failed sink' \<longleftrightarrow> length bs < length as) \<and>
      same_context sink sink' \<and>
      sk_observed_effects sink' = fold (\<lambda>a w. w OR a_effects a) as (sk_observed_effects sink)"
  using sink_record_all_items [OF assms(1)] sink_record_all_frame [OF assms(1)] assms(2)
  by blast

definition sample_sink :: hk_artifact_sink where
  "sample_sink = \<lparr>sk_ledger = \<lparr>l_items = [], l_capacity = 0\<rparr>,
     sk_plan_id = \<lparr>id_high = 7, id_low = 1\<rparr>, sk_runtime_owner_id = \<lparr>id_high = 7, id_low = 2\<rparr>,
     sk_request_id = \<lparr>id_high = 7, id_low = 3\<rparr>, sk_published_original = 0,
     sk_has_continuation = False, sk_continuation = raw_continuation,
     sk_require_predecessor_match = False, sk_required_predecessor = 0,
     sk_record_failed = False, sk_observed_effects = 0\<rparr>"

text \<open>Marking a range verified is refused when the range leaves the ledger, and then changes nothing;
  otherwise exactly the records of the range become \<open>VERIFIED\<close>, every other record and the number
  of records stay as they were.\<close>

lemma ledger_mark_verified_spec:
  "hk_artifact_ledger_mark_verified l start n =
     (if start + n \<le> length (l_items l)
      then (True, l\<lparr>l_items := map (\<lambda>i. if start \<le> i \<and> i < start + n
           then (l_items l ! i)\<lparr>a_state := HK_ARTIFACT_VERIFIED, a_verified := True\<rparr>
           else l_items l ! i) [0..<length (l_items l)]\<rparr>)
      else (False, l))"
proof (cases "start + n \<le> length (l_items l)")
  case True
  have "mark_range f start n (l_items l) =
      map (\<lambda>i. if start \<le> i \<and> i < start + n then f (l_items l ! i) else l_items l ! i)
        [0..<length (l_items l)]" for f
    by (rule nth_equalityI) (simp_all add: mark_range_nth [OF True])
  moreover have "\<not> (start > length (l_items l) \<or> n > length (l_items l) - start)" using True by auto
  ultimately show ?thesis
    unfolding hk_artifact_ledger_mark_verified_def using True by (simp only: if_True if_False)
next
  case False
  then have "start > length (l_items l) \<or> n > length (l_items l) - start" by linarith
  with False show ?thesis
    unfolding hk_artifact_ledger_mark_verified_def by (simp only: if_True if_False)
qed

end
