(* ===== verification/HK_Ownership.thy ===== *)
theory HK_Ownership
  imports HK_System "HOL-Library.List_Lexorder"
begin

text \<open>
  The target ownership ledger of \<open>src/core/HKOwnership.c\<close>. The first half is the canonical key of a
  target: the code builds it byte by byte in a growing buffer with an allocation at every growth;
  \<open>target_key\<close> is the value it computes when nothing fails, and the refinement lemmas say that a
  successful build is that value. The second half is the list of ownership records, with the
  contract the commit path relies on as the locale \<open>ownership_map\<close>.
\<close>

section \<open>The key builder\<close>

record hk_key_builder =
  kb_data :: "byte list"
  kb_capacity :: nat

definition empty_builder :: hk_key_builder where
  "empty_builder = \<lparr>kb_data = [], kb_capacity = 0\<rparr>"

type_synonym 's key_state = "hk_key_builder \<times> 's hk_sys_scheme"
type_synonym 's key_op = "'s key_state \<Rightarrow> bool \<times> 's key_state"

definition key_append :: "byte list \<Rightarrow> 's key_op" where
  "key_append bytes = (\<lambda>(b, s).
     if length bytes > SIZE_MAX - length (kb_data b) then (False, (b, s))
     else let needed = length (kb_data b) + length bytes in
       if needed > kb_capacity b then
         let capacity = grow_capacity (if kb_capacity b = 0 then 64 else kb_capacity b) needed;
             (ok, s1) = sys_alloc s
         in if ok then (True, (\<lparr>kb_data = kb_data b @ bytes, kb_capacity = capacity\<rparr>, s1))
            else (False, (b, s1))
       else (True, (b\<lparr>kb_data := kb_data b @ bytes\<rparr>, s)))"

definition key_u8 :: "byte \<Rightarrow> 's key_op" where
  "key_u8 v = key_append (le_bytes 1 v)"

definition key_u32 :: "u32 \<Rightarrow> 's key_op" where
  "key_u32 v = key_append (le_bytes 4 v)"

definition key_u64 :: "u64 \<Rightarrow> 's key_op" where
  "key_u64 v = key_append (le_bytes 8 v)"

text \<open>The code's \<open>a && b && ...\<close>: run the steps in order, stop at the first that fails.\<close>

fun key_all :: "'s key_op list \<Rightarrow> 's key_op" where
  "key_all [] st = (True, st)"
| "key_all (f # fs) st = (case f st of (True, st1) \<Rightarrow> key_all fs st1 | (False, st1) \<Rightarrow> (False, st1))"

definition key_string :: "string option \<Rightarrow> 's key_op" where
  "key_string v = (let n = (case v of Some t \<Rightarrow> of_nat (length t) | None \<Rightarrow> (- 1 :: u64)) in
     key_all (key_u64 n # (if n = - 1 then [] else [key_append (str_bytes (the v))])))"

section \<open>Selectors\<close>

definition HK_OWNERSHIP_MAX_IMAGE_SELECTOR_DEPTH :: nat where
  "HK_OWNERSHIP_MAX_IMAGE_SELECTOR_DEPTH = 32"

text \<open>\<open>memcmp\<close> on the common prefix, then the lengths.\<close>

fun memcmp :: "byte list \<Rightarrow> byte list \<Rightarrow> int" where
  "memcmp (x # xs) (y # ys) = (if x = y then memcmp xs ys else if x < y then - 1 else 1)"
| "memcmp _ _ = 0"

definition key_blob_compare :: "byte list \<Rightarrow> byte list \<Rightarrow> int" where
  "key_blob_compare a b =
     (let common = min (length a) (length b); result = memcmp (take common a) (take common b) in
      if result \<noteq> 0 then result
      else if length a > length b then 1 else if length a < length b then - 1 else 0)"

text \<open>\<open>qsort\<close> with a comparison function, here as insertion sort.\<close>

fun insert_by :: "('a \<Rightarrow> 'a \<Rightarrow> int) \<Rightarrow> 'a \<Rightarrow> 'a list \<Rightarrow> 'a list" where
  "insert_by cmp x [] = [x]"
| "insert_by cmp x (y # ys) = (if cmp x y \<le> 0 then x # y # ys else y # insert_by cmp x ys)"

definition qsort_by :: "('a \<Rightarrow> 'a \<Rightarrow> int) \<Rightarrow> 'a list \<Rightarrow> 'a list" where
  "qsort_by cmp xs = foldr (insert_by cmp) xs []"

text \<open>The loop that keeps the first of equal neighbours; the accumulator is reversed.\<close>

definition key_unique :: "byte list list \<Rightarrow> byte list list" where
  "key_unique cs = rev (fold (\<lambda>c ks. case ks of
       k # _ \<Rightarrow> if key_blob_compare k c = 0 then ks else c # ks
     | [] \<Rightarrow> [c]) cs [])"

text \<open>The cases of the \<open>switch\<close> in \<open>key_selector\<close> other than \<open>HK_IMAGE_EXPLICIT_SET\<close>.\<close>

definition key_selector_leaf :: "hk_image_selector \<Rightarrow> 's key_op" where
  "key_selector_leaf sel =
     (let kind = key_u32 (of_nat (selector_kind_num (sel_kind sel))) in
      case sel_kind sel of
        HK_IMAGE_EXACT_PATH \<Rightarrow> key_all [kind, key_string (sel_path sel)]
      | HK_IMAGE_EXACT_UUID \<Rightarrow> key_all [kind, key_append (sel_uuid sel)]
      | HK_IMAGE_EXACT_HEADER \<Rightarrow> key_all [kind, key_u64 (sel_header sel)]
      | _ \<Rightarrow> kind)"

record key_blobs =
  kbs_items :: "byte list list"
  kbs_capacity :: nat

definition key_blob_append :: "byte list \<Rightarrow> key_blobs \<times> 's hk_sys_scheme \<Rightarrow>
    bool \<times> key_blobs \<times> 's hk_sys_scheme" where
  "key_blob_append k = (\<lambda>(bl, s).
     if length (kbs_items bl) = kbs_capacity bl then
       let grown = (if kbs_capacity bl = 0 then 4 else kbs_capacity bl * 2) in
       if grown > SIZE_MAX div 16 then (False, bl, s)
       else let (ok, s1) = sys_alloc s in
         if ok then (True, \<lparr>kbs_items = kbs_items bl @ [k], kbs_capacity = grown\<rparr>, s1)
         else (False, bl, s1)
     else (True, bl\<lparr>kbs_items := kbs_items bl @ [k]\<rparr>, s))"

fun key_selector_collect :: "nat \<Rightarrow> hk_image_selector option \<Rightarrow> key_blobs \<times> 's hk_sys_scheme \<Rightarrow>
      bool \<times> key_blobs \<times> 's hk_sys_scheme"
  and key_selector_collect_list :: "nat \<Rightarrow> hk_image_selector option list \<Rightarrow>
      key_blobs \<times> 's hk_sys_scheme \<Rightarrow> bool \<times> key_blobs \<times> 's hk_sys_scheme" where
  "key_selector_collect depth None st = (False, st)"
| "key_selector_collect depth (Some (Image_Selector k p u h cs null)) st =
     (if depth > HK_OWNERSHIP_MAX_IMAGE_SELECTOR_DEPTH then (False, st)
      else if k = HK_IMAGE_EXPLICIT_SET then
        (if cs \<noteq> [] \<and> null then (False, st) else key_selector_collect_list (depth + 1) cs st)
      else (case key_selector_leaf (Image_Selector k p u h cs null) (empty_builder, snd st) of
          (False, (_, s1)) \<Rightarrow> (False, fst st, s1)
        | (True, (b, s1)) \<Rightarrow> key_blob_append (kb_data b) (fst st, s1)))"
| "key_selector_collect_list depth [] st = (True, st)"
| "key_selector_collect_list depth (x # xs) st =
     (case key_selector_collect depth x st of
        (False, st1) \<Rightarrow> (False, st1)
      | (True, st1) \<Rightarrow> key_selector_collect_list depth xs st1)"

definition key_selector :: "hk_image_selector \<Rightarrow> nat \<Rightarrow> 's key_op" where
  "key_selector sel depth = (\<lambda>(b, s).
     if depth > HK_OWNERSHIP_MAX_IMAGE_SELECTOR_DEPTH then (False, (b, s))
     else if sel_kind sel = HK_IMAGE_EXPLICIT_SET then
       (case key_selector_collect depth (Some sel) (\<lparr>kbs_items = [], kbs_capacity = 0\<rparr>, s) of
          (False, _, s1) \<Rightarrow> (False, (b, s1))
        | (True, bl, s1) \<Rightarrow>
            let children = qsort_by key_blob_compare (kbs_items bl);
                unique = key_unique children in
            key_all (key_u32 (of_nat (selector_kind_num HK_IMAGE_EXPLICIT_SET)) #
                     key_u64 (of_nat (length unique)) #
                     concat (map (\<lambda>k. [key_u64 (of_nat (length k)), key_append k]) unique)) (b, s1))
     else key_selector_leaf sel (b, s))"

section \<open>Targets\<close>

text \<open>\<open>strip\<close> is \<open>hk_pac_strip_code\<close>, a compiler intrinsic on arm64e and the identity elsewhere.\<close>

definition key_target :: "(u64 \<Rightarrow> u64) \<Rightarrow> hk_target \<Rightarrow> 's key_op" where
  "key_target strip t =
     (let kind = key_u32 (of_nat (target_kind_num (target_kind t))) in
      case t of
        Target_Symbol st \<Rightarrow> key_all
          [kind, key_string (sym_name st),
           key_u32 (of_nat (name_convention_num (sym_name_convention st))),
           key_u32 (of_nat (alias_policy_num (sym_alias_policy st))),
           key_u8 (of_bool (sym_interior_address_permitted st)),
           key_selector (sym_defining_image st) 0, key_selector (sym_caller_image_scope st) 0]
      | Target_Address a \<Rightarrow> key_all
          [kind, key_u64 (if addr_may_strip_pac_or_thumb_state a then strip (addr_address a)
                          else addr_address a)]
      | Target_Objc ob \<Rightarrow> key_all
          [kind, key_u8 (of_bool (objc_cls ob \<noteq> 0)),
           (if objc_cls ob \<noteq> 0 then key_u64 (objc_cls ob) else key_string (objc_class_name ob)),
           key_u8 (of_bool (objc_sel ob \<noteq> 0)),
           (if objc_sel ob \<noteq> 0 then key_u64 (objc_sel ob) else key_string (objc_selector_name ob)),
           key_u32 (of_nat (objc_method_kind_num (objc_method_kind ob)))]
      | Target_Memory m \<Rightarrow> key_all
          ([kind, key_u64 (mem_address m), key_u8 (of_bool (mem_address_is_image_relative m)),
            key_u64 (mem_size m)] @
           (if mem_address_is_image_relative m then [key_selector (mem_base_image m) 0] else []))
      | Target_Swift \<Rightarrow> kind)"

definition hk_ownership_target_key_copy :: "(u64 \<Rightarrow> u64) \<Rightarrow> hk_target \<Rightarrow> 's hk_sys_scheme \<Rightarrow>
    byte list option \<times> 's hk_sys_scheme" where
  "hk_ownership_target_key_copy strip t s =
     (case key_target strip t (empty_builder, s) of
        (True, (b, s1)) \<Rightarrow> (Some (kb_data b), s1)
      | (False, (_, s1)) \<Rightarrow> (None, s1))"

section \<open>The key as a value\<close>

definition string_key :: "string option \<Rightarrow> byte list" where
  "string_key v = (case v of None \<Rightarrow> le_bytes 8 (- 1 :: u64)
     | Some t \<Rightarrow> le_bytes 8 (of_nat (length t) :: u64) @ str_bytes t)"

definition leaf_key :: "hk_image_selector \<Rightarrow> byte list" where
  "leaf_key sel = le_bytes 4 (of_nat (selector_kind_num (sel_kind sel)) :: u32) @
     (case sel_kind sel of
        HK_IMAGE_EXACT_PATH \<Rightarrow> string_key (sel_path sel)
      | HK_IMAGE_EXACT_UUID \<Rightarrow> sel_uuid sel
      | HK_IMAGE_EXACT_HEADER \<Rightarrow> le_bytes 8 (sel_header sel)
      | _ \<Rightarrow> [])"

fun selector_leaves :: "nat \<Rightarrow> hk_image_selector option \<Rightarrow> hk_image_selector list option"
  and selector_leaves_list :: "nat \<Rightarrow> hk_image_selector option list \<Rightarrow> hk_image_selector list option" where
  "selector_leaves depth None = None"
| "selector_leaves depth (Some (Image_Selector k p u h cs null)) =
     (if depth > HK_OWNERSHIP_MAX_IMAGE_SELECTOR_DEPTH then None
      else if k = HK_IMAGE_EXPLICIT_SET then
        (if cs \<noteq> [] \<and> null then None else selector_leaves_list (depth + 1) cs)
      else Some [Image_Selector k p u h cs null])"
| "selector_leaves_list depth [] = Some []"
| "selector_leaves_list depth (x # xs) =
     do { a \<leftarrow> selector_leaves depth x; b \<leftarrow> selector_leaves_list depth xs; Some (a @ b) }"

definition set_key :: "byte list list \<Rightarrow> byte list" where
  "set_key ks = le_bytes 4 (of_nat (selector_kind_num HK_IMAGE_EXPLICIT_SET) :: u32) @
     le_bytes 8 (of_nat (length ks) :: u64) @
     concat (map (\<lambda>k. le_bytes 8 (of_nat (length k) :: u64) @ k) ks)"

definition selector_key :: "hk_image_selector \<Rightarrow> byte list option" where
  "selector_key sel =
     (if sel_kind sel = HK_IMAGE_EXPLICIT_SET
      then map_option (\<lambda>ls. set_key (sorted_list_of_set (leaf_key ` set ls))) (selector_leaves 0 (Some sel))
      else Some (leaf_key sel))"

definition target_key :: "(u64 \<Rightarrow> u64) \<Rightarrow> hk_target \<Rightarrow> byte list option" where
  "target_key strip t =
     map_option (\<lambda>k. le_bytes 4 (of_nat (target_kind_num (target_kind t)) :: u32) @ k)
     (case t of
        Target_Symbol st \<Rightarrow> do {
          d \<leftarrow> selector_key (sym_defining_image st);
          c \<leftarrow> selector_key (sym_caller_image_scope st);
          Some (string_key (sym_name st) @
            le_bytes 4 (of_nat (name_convention_num (sym_name_convention st)) :: u32) @
            le_bytes 4 (of_nat (alias_policy_num (sym_alias_policy st)) :: u32) @
            le_bytes 1 (of_bool (sym_interior_address_permitted st) :: byte) @ d @ c) }
      | Target_Address a \<Rightarrow> Some (le_bytes 8
          (if addr_may_strip_pac_or_thumb_state a then strip (addr_address a) else addr_address a))
      | Target_Objc ob \<Rightarrow> Some (
          le_bytes 1 (of_bool (objc_cls ob \<noteq> 0) :: byte) @
          (if objc_cls ob \<noteq> 0 then le_bytes 8 (objc_cls ob) else string_key (objc_class_name ob)) @
          le_bytes 1 (of_bool (objc_sel ob \<noteq> 0) :: byte) @
          (if objc_sel ob \<noteq> 0 then le_bytes 8 (objc_sel ob) else string_key (objc_selector_name ob)) @
          le_bytes 4 (of_nat (objc_method_kind_num (objc_method_kind ob)) :: u32))
      | Target_Memory m \<Rightarrow>
          map_option (\<lambda>k. le_bytes 8 (mem_address m) @
            le_bytes 1 (of_bool (mem_address_is_image_relative m) :: byte) @
            le_bytes 8 (mem_size m) @ k)
          (if mem_address_is_image_relative m then selector_key (mem_base_image m) else Some [])
      | Target_Swift \<Rightarrow> Some [])"

section \<open>Sorting and deduplication\<close>

lemma key_blob_compare_simps [simp]:
  "key_blob_compare [] [] = 0"
  "key_blob_compare [] (y # ys) = - 1"
  "key_blob_compare (x # xs) [] = 1"
  "key_blob_compare (x # xs) (y # ys) =
     (if x = y then key_blob_compare xs ys else if x < y then - 1 else 1)"
  by (simp_all add: key_blob_compare_def Let_def min_def)

lemma key_blob_compare_le: "key_blob_compare a b \<le> 0 \<longleftrightarrow> a \<le> b"
proof (induction a arbitrary: b)
  case Nil
  then show ?case by (cases b) auto
next
  case (Cons x xs)
  then show ?case by (cases b) auto
qed

lemma key_blob_compare_eq: "key_blob_compare a b = 0 \<longleftrightarrow> a = b"
proof (induction a arbitrary: b)
  case Nil
  then show ?case by (cases b) auto
next
  case (Cons x xs)
  then show ?case by (cases b) auto
qed

lemma insert_by_insort: "insert_by key_blob_compare x ys = insort x ys"
  by (induction ys) (auto simp: key_blob_compare_le)

lemma qsort_by_sort: "qsort_by key_blob_compare xs = sort xs"
  by (induction xs) (auto simp: qsort_by_def insert_by_insort)

lemma key_unique_remdups_adj: "key_unique xs = remdups_adj xs"
proof -
  let ?f = "\<lambda>c ks. case ks of k # _ \<Rightarrow> if key_blob_compare k c = 0 then ks else c # ks | [] \<Rightarrow> [c]"
  have step: "rev (fold ?f xs (k # ks)) = rev ks @ remdups_adj (k # xs)" for xs k ks
    by (induction xs arbitrary: k ks) (auto simp: key_blob_compare_eq)
  show ?thesis
  proof (cases xs)
    case (Cons a list)
    then show ?thesis unfolding key_unique_def using step [of list a "[]"] by simp
  qed (simp add: key_unique_def)
qed

lemma distinct_remdups_adj_sorted: "sorted xs \<Longrightarrow> distinct (remdups_adj xs)" for xs :: "byte list list"
  by (induction xs rule: remdups_adj.induct) fastforce+

lemma key_unique_sorted: "key_unique (qsort_by key_blob_compare xs) = sorted_list_of_set (set xs)"
  unfolding key_unique_remdups_adj qsort_by_sort
  by (rule sorted_distinct_set_unique)
    (auto simp: distinct_remdups_adj_sorted)

section \<open>A successful build is the key\<close>

definition writes :: "'s key_op \<Rightarrow> byte list option \<Rightarrow> bool" where
  "writes f ko \<longleftrightarrow> (\<forall>b s r b' s'. f (b, s) = (r, (b', s')) \<longrightarrow>
     only_alloc s s' \<and> (r \<longrightarrow> (\<exists>k. ko = Some k \<and> kb_data b' = kb_data b @ k)))"

lemma writesD:
  assumes "writes f ko" "f (b, s) = (r, (b', s'))"
  shows "only_alloc s s'" "r \<Longrightarrow> \<exists>k. ko = Some k \<and> kb_data b' = kb_data b @ k"
  using assms unfolding writes_def by blast+

named_theorems hk_writes \<open>what a key step appends\<close>

lemma writes_append [hk_writes]: "writes (key_append bs) (Some bs)"
  by (auto simp: writes_def key_append_def Let_def split: if_splits prod.splits dest: sys_alloc_frame)

lemma writes_ints [hk_writes]:
  "writes (key_u8 b) (Some (le_bytes 1 b))"
  "writes (key_u32 w) (Some (le_bytes 4 w))"
  "writes (key_u64 v) (Some (le_bytes 8 v))"
  by (simp_all add: key_u8_def key_u32_def key_u64_def writes_append)

lemma writes_Nil [hk_writes]: "writes (key_all []) (Some [])"
  by (auto simp: writes_def)

lemma writes_Cons:
  assumes f: "writes f a" and fs: "writes (key_all fs) c"
  shows "writes (key_all (f # fs)) (do { x \<leftarrow> a; y \<leftarrow> c; Some (x @ y) })"
  unfolding writes_def
proof (intro allI impI)
  fix b s r b' s'
  assume run: "key_all (f # fs) (b, s) = (r, (b', s'))"
  obtain r1 b1 s1 where f1: "f (b, s) = (r1, (b1, s1))" by (metis surj_pair)
  have f2: "only_alloc s s1" "r1 \<Longrightarrow> \<exists>k. a = Some k \<and> kb_data b1 = kb_data b @ k"
    using f f1 by (auto simp: writes_def)
  show "only_alloc s s' \<and> (r \<longrightarrow> (\<exists>k. do { x \<leftarrow> a; y \<leftarrow> c; Some (x @ y) } = Some k \<and> kb_data b' = kb_data b @ k))"
  proof (cases r1)
    case True
    then have "key_all fs (b1, s1) = (r, (b', s'))" using run f1 by simp
    then have "only_alloc s1 s'" "r \<Longrightarrow> \<exists>k. c = Some k \<and> kb_data b' = kb_data b1 @ k"
      using fs by (auto simp: writes_def)
    with f2 True show ?thesis by (auto intro: only_alloc_trans)
  qed (use run f1 f2 in auto)
qed

lemma writes_Cons_Some:
  "writes f (Some x) \<Longrightarrow> writes (key_all fs) (Some y) \<Longrightarrow> writes (key_all (f # fs)) (Some (x @ y))"
  using writes_Cons [of f "Some x" fs "Some y"] by simp

lemma writes_one: "writes f (Some x) \<Longrightarrow> writes (key_all [f]) (Some x)"
  using writes_Cons_Some [OF _ writes_Nil] by simp

text \<open>No string in memory comes near the size of the address space, so its length is never the
  marker of NULL.\<close>

definition string_ok :: "string option \<Rightarrow> bool" where
  "string_ok v \<longleftrightarrow> (case v of None \<Rightarrow> True | Some t \<Rightarrow> length t < SIZE_MAX - 16)"

lemma of_nat_u64_inj: "m \<le> SIZE_MAX \<Longrightarrow> n \<le> SIZE_MAX \<Longrightarrow> (of_nat m :: u64) = of_nat n \<longleftrightarrow> m = n"
  by (simp add: word_of_nat_eq_iff take_bit_eq_mod SIZE_MAX_def)

lemma of_nat_SIZE_MAX: "(of_nat SIZE_MAX :: u64) = - 1"
  by (simp add: SIZE_MAX_def)

lemma string_ok_length: "string_ok (Some t) \<Longrightarrow> (of_nat (length t) :: u64) \<noteq> - 1"
  using of_nat_u64_inj [of "length t" SIZE_MAX] by (auto simp: string_ok_def of_nat_SIZE_MAX)

lemma writes_string [hk_writes]:
  assumes "string_ok v"
  shows "writes (key_string v) (Some (string_key v))"
proof (cases v)
  case None
  then show ?thesis
    unfolding key_string_def string_key_def Let_def
    using writes_one [OF writes_ints(3)] by simp
next
  case (Some t)
  have "writes (key_all [key_u64 (of_nat (length t)), key_append (str_bytes t)])
      (Some (le_bytes 8 (of_nat (length t) :: u64) @ str_bytes t))"
    by (rule writes_Cons_Some [OF writes_ints(3) writes_one [OF writes_append]])
  with Some string_ok_length [of t] assms show ?thesis
    unfolding key_string_def string_key_def Let_def by simp
qed

lemma writes_leaf [hk_writes]:
  assumes "string_ok (sel_path sel)"
  shows "writes (key_selector_leaf sel) (Some (leaf_key sel))"
proof -
  note two = writes_Cons_Some [OF writes_ints(2) writes_one]
  show ?thesis
    unfolding key_selector_leaf_def leaf_key_def Let_def
    using two [OF writes_string [OF assms]] two [OF writes_append] two [OF writes_ints(3)]
      writes_ints(2)
    by (cases "sel_kind sel") (simp_all del: key_all.simps)
qed

text \<open>All the paths of a selector tree are strings of this kind.\<close>

fun selector_ok :: "hk_image_selector \<Rightarrow> bool" where
  "selector_ok (Image_Selector k p u h cs null) \<longleftrightarrow> string_ok p \<and> length u = 16 \<and>
     (\<forall>c \<in> set cs. case c of None \<Rightarrow> True | Some sel \<Rightarrow> selector_ok sel)"

lemma key_blob_append_items:
  "key_blob_append k (bl, s) = (r, bl', s') \<Longrightarrow>
   only_alloc s s' \<and> (r \<longrightarrow> kbs_items bl' = kbs_items bl @ [k])"
  by (auto simp: key_blob_append_def Let_def split: if_splits prod.splits dest: sys_alloc_frame)

lemma collect_leaves:
  "key_selector_collect depth x (bl, s) = (r, bl', s') \<Longrightarrow>
     (case x of None \<Rightarrow> True | Some sel \<Rightarrow> selector_ok sel) \<Longrightarrow>
     only_alloc s s' \<and> (r \<longrightarrow> (\<exists>ls. selector_leaves depth x = Some ls \<and>
       kbs_items bl' = kbs_items bl @ map leaf_key ls))"
  "key_selector_collect_list depth xs (bl, s) = (r, bl', s') \<Longrightarrow>
     (\<forall>c \<in> set xs. case c of None \<Rightarrow> True | Some sel \<Rightarrow> selector_ok sel) \<Longrightarrow>
     only_alloc s s' \<and> (r \<longrightarrow> (\<exists>ls. selector_leaves_list depth xs = Some ls \<and>
       kbs_items bl' = kbs_items bl @ map leaf_key ls))"
proof (induction depth x "(bl, s)" and depth xs "(bl, s)" arbitrary: bl s r bl' s' and bl s r bl' s'
    rule: key_selector_collect_key_selector_collect_list.induct)
  case (1 depth)
  then show ?case by simp
next
  case (2 depth k p u h cs null)
  let ?sel = "Image_Selector k p u h cs null"
  show ?case
  proof (cases "depth > HK_OWNERSHIP_MAX_IMAGE_SELECTOR_DEPTH \<or> (k = HK_IMAGE_EXPLICIT_SET \<and> cs \<noteq> [] \<and> null)")
    case True
    then show ?thesis using 2 by (auto split: if_splits)
  next
    case d: False
    show ?thesis
    proof (cases "k = HK_IMAGE_EXPLICIT_SET")
      case True
      then show ?thesis using 2 d by auto
    next
      case False
      obtain r1 b1 s1 where l: "key_selector_leaf ?sel (empty_builder, s) = (r1, (b1, s1))"
        by (metis surj_pair)
      have w: "only_alloc s s1" "r1 \<Longrightarrow> kb_data b1 = leaf_key ?sel"
        using writesD [OF writes_leaf l] 2(3) by (auto simp: empty_builder_def)
      show ?thesis
        using 2(2) d False l w
        by (cases r1) (auto dest: key_blob_append_items intro: only_alloc_trans)
    qed
  qed
next
  case (3 depth)
  then show ?case by simp
next
  case (4 depth x xs)
  obtain r1 bl1 s1 where c: "key_selector_collect depth x (bl, s) = (r1, bl1, s1)" by (metis surj_pair)
  have x: "case x of None \<Rightarrow> True | Some sel \<Rightarrow> selector_ok sel" using 4(4) by simp
  note hd = 4(1) [OF c x]
  show ?case
  proof (cases r1)
    case False
    then show ?thesis using 4(3) c hd by simp
  next
    case True
    have run: "key_selector_collect_list depth xs (bl1, s1) = (r, bl', s')"
      using 4(3) c True by simp
    have xs: "\<forall>c \<in> set xs. case c of None \<Rightarrow> True | Some sel \<Rightarrow> selector_ok sel" using 4(4) by simp
    have tl: "only_alloc s1 s' \<and> (r \<longrightarrow> (\<exists>ls. selector_leaves_list depth xs = Some ls \<and>
        kbs_items bl' = kbs_items bl1 @ map leaf_key ls))"
      by (rule 4(2) [OF _ _ run xs]) (simp_all add: c True)
    from hd tl True show ?thesis by (auto intro: only_alloc_trans)
  qed
qed

lemma writes_fields [hk_writes]:
  "writes (key_all (concat (map (\<lambda>k. [key_u64 (of_nat (length k)), key_append k]) ks)))
     (Some (concat (map (\<lambda>k. le_bytes 8 (of_nat (length k) :: u64) @ k) ks)))"
proof (induction ks)
  case Nil
  show ?case using writes_Nil by (simp del: key_all.simps)
next
  case (Cons k ks)
  from writes_Cons_Some [OF writes_ints(3) writes_Cons_Some [OF writes_append Cons]]
  show ?case by (simp del: key_all.simps)
qed

lemma writes_set:
  "writes (key_all (key_u32 (of_nat (selector_kind_num HK_IMAGE_EXPLICIT_SET)) #
      key_u64 (of_nat (length ks)) #
      concat (map (\<lambda>k. [key_u64 (of_nat (length k)), key_append k]) ks)))
     (Some (set_key ks))"
  unfolding set_key_def
  by (rule writes_Cons_Some [OF writes_ints(2) writes_Cons_Some [OF writes_ints(3) writes_fields]])

lemma writes_selector [hk_writes]:
  assumes ok: "selector_ok sel"
  shows "writes (key_selector sel 0) (selector_key sel)"
proof (cases "sel_kind sel = HK_IMAGE_EXPLICIT_SET")
  case False
  have "string_ok (sel_path sel)" using ok by (cases sel) simp
  from writes_leaf [OF this] False show ?thesis
    by (simp add: writes_def key_selector_def selector_key_def HK_OWNERSHIP_MAX_IMAGE_SELECTOR_DEPTH_def)
next
  case set: True
  show ?thesis
    unfolding writes_def
  proof (intro allI impI)
    fix b s r b' s'
    assume run: "key_selector sel 0 (b, s) = (r, (b', s'))"
    obtain r1 bl s1 where c:
      "key_selector_collect 0 (Some sel) (\<lparr>kbs_items = [], kbs_capacity = 0\<rparr>, s) = (r1, bl, s1)"
      by (metis surj_pair)
    have l: "only_alloc s s1" "r1 \<Longrightarrow> \<exists>ls. selector_leaves 0 (Some sel) = Some ls \<and> kbs_items bl = map leaf_key ls"
      using collect_leaves(1) [OF c] ok by auto
    show "only_alloc s s' \<and> (r \<longrightarrow> (\<exists>k. selector_key sel = Some k \<and> kb_data b' = kb_data b @ k))"
    proof (cases r1)
      case False
      then show ?thesis
        using run c set l(1) by (simp add: key_selector_def HK_OWNERSHIP_MAX_IMAGE_SELECTOR_DEPTH_def)
    next
      case True
      then obtain ls where ls: "selector_leaves 0 (Some sel) = Some ls" "kbs_items bl = map leaf_key ls"
        using l by auto
      let ?u = "sorted_list_of_set (leaf_key ` set ls)"
      have u: "key_unique (qsort_by key_blob_compare (kbs_items bl)) = ?u"
        by (simp add: key_unique_sorted ls(2))
      have "key_all (key_u32 (of_nat (selector_kind_num HK_IMAGE_EXPLICIT_SET)) #
          key_u64 (of_nat (length ?u)) #
          concat (map (\<lambda>k. [key_u64 (of_nat (length k)), key_append k]) ?u)) (b, s1) = (r, (b', s'))"
        using run c set True
        by (simp add: key_selector_def HK_OWNERSHIP_MAX_IMAGE_SELECTOR_DEPTH_def Let_def u
            del: key_all.simps)
      from writesD [OF writes_set this] l(1) ls(1) set show ?thesis
        by (auto simp: selector_key_def intro: only_alloc_trans)
    qed
  qed
qed

fun target_ok :: "hk_target \<Rightarrow> bool" where
  "target_ok (Target_Symbol st) \<longleftrightarrow> string_ok (sym_name st) \<and> selector_ok (sym_defining_image st) \<and>
     selector_ok (sym_caller_image_scope st)"
| "target_ok (Target_Address a) = True"
| "target_ok (Target_Objc ob) \<longleftrightarrow> string_ok (objc_class_name ob) \<and> string_ok (objc_selector_name ob)"
| "target_ok (Target_Memory m) \<longleftrightarrow> selector_ok (mem_base_image m)"
| "target_ok Target_Swift = True"

lemma writes_target:
  assumes "target_ok t"
  shows "writes (key_target strip t) (target_key strip t)"
proof (cases t)
  case (Target_Symbol st)
  have two: "writes (key_all [key_selector (sym_defining_image st) 0, key_selector (sym_caller_image_scope st) 0])
      (do { d \<leftarrow> selector_key (sym_defining_image st); c \<leftarrow> selector_key (sym_caller_image_scope st); Some (d @ c) })"
    using writes_Cons [OF writes_selector writes_Cons [OF writes_selector writes_Nil],
        of "sym_defining_image st" "sym_caller_image_scope st"] assms Target_Symbol
    by (cases "selector_key (sym_defining_image st)"; cases "selector_key (sym_caller_image_scope st)")
      (simp_all del: key_all.simps)
  have "writes (key_target strip t)
     (do { x \<leftarrow> Some (le_bytes 4 (of_nat (target_kind_num (target_kind t)) :: u32));
       y \<leftarrow> (do { x \<leftarrow> Some (string_key (sym_name st));
         y \<leftarrow> (do { x \<leftarrow> Some (le_bytes 4 (of_nat (name_convention_num (sym_name_convention st)) :: u32));
           y \<leftarrow> (do { x \<leftarrow> Some (le_bytes 4 (of_nat (alias_policy_num (sym_alias_policy st)) :: u32));
             y \<leftarrow> (do { x \<leftarrow> Some (le_bytes 1 (of_bool (sym_interior_address_permitted st) :: byte));
               y \<leftarrow> (do { d \<leftarrow> selector_key (sym_defining_image st);
                        c \<leftarrow> selector_key (sym_caller_image_scope st); Some (d @ c) });
               Some (x @ y) }); Some (x @ y) }); Some (x @ y) }); Some (x @ y) }); Some (x @ y) })"
    unfolding key_target_def Let_def Target_Symbol hk_target.case
    using assms Target_Symbol
    by (intro writes_Cons [OF writes_ints(2)] writes_Cons [OF writes_string]
        writes_Cons [OF writes_ints(1)] two) simp_all
  then show ?thesis
    unfolding target_key_def Target_Symbol hk_target.case
    by (cases "selector_key (sym_defining_image st)"; cases "selector_key (sym_caller_image_scope st)")
      (simp_all add: Target_Symbol)
next
  case (Target_Address a)
  show ?thesis
    unfolding key_target_def target_key_def Let_def Target_Address hk_target.case option.map
    by (rule writes_Cons_Some [OF writes_ints(2) writes_one [OF writes_ints(3)]])
next
  case (Target_Objc ob)
  have c: "writes (if objc_cls ob \<noteq> 0 then key_u64 (objc_cls ob) else key_string (objc_class_name ob))
      (Some (if objc_cls ob \<noteq> 0 then le_bytes 8 (objc_cls ob) else string_key (objc_class_name ob)))"
    and s: "writes (if objc_sel ob \<noteq> 0 then key_u64 (objc_sel ob) else key_string (objc_selector_name ob))
      (Some (if objc_sel ob \<noteq> 0 then le_bytes 8 (objc_sel ob) else string_key (objc_selector_name ob)))"
    using assms Target_Objc by (auto intro: hk_writes)
  show ?thesis
    unfolding key_target_def target_key_def Let_def Target_Objc hk_target.case option.map
    by (intro writes_Cons_Some writes_one writes_ints c s)
next
  case (Target_Memory m)
  let ?three = "\<lambda>k. le_bytes 8 (mem_address m) @ le_bytes 1 (of_bool (mem_address_is_image_relative m) :: byte) @
      le_bytes 8 (mem_size m) @ k"
  show ?thesis
  proof (cases "mem_address_is_image_relative m")
    case False
    then show ?thesis
      unfolding key_target_def target_key_def Let_def Target_Memory hk_target.case option.map
      using writes_Cons_Some [OF writes_ints(2) writes_Cons_Some [OF writes_ints(3)
            writes_Cons_Some [OF writes_ints(1) writes_one [OF writes_ints(3)]]]]
      by (simp del: key_all.simps)
  next
    case True
    have sel: "writes (key_all [key_selector (mem_base_image m) 0]) (selector_key (mem_base_image m))"
      using writes_Cons [OF writes_selector writes_Nil, of "mem_base_image m"] assms Target_Memory
      by (cases "selector_key (mem_base_image m)") (simp_all del: key_all.simps)
    have "writes (key_target strip t)
       (do { x \<leftarrow> Some (le_bytes 4 (of_nat (target_kind_num (target_kind t)) :: u32));
         y \<leftarrow> (do { x \<leftarrow> Some (le_bytes 8 (mem_address m));
           y \<leftarrow> (do { x \<leftarrow> Some (le_bytes 1 (of_bool (mem_address_is_image_relative m) :: byte));
             y \<leftarrow> (do { x \<leftarrow> Some (le_bytes 8 (mem_size m));
               y \<leftarrow> selector_key (mem_base_image m); Some (x @ y) });
             Some (x @ y) }); Some (x @ y) }); Some (x @ y) })"
      unfolding key_target_def Let_def Target_Memory hk_target.case if_P [OF True] append_Cons append_Nil
      by (intro writes_Cons writes_ints sel)
    then show ?thesis
      unfolding target_key_def Target_Memory hk_target.case
      by (cases "selector_key (mem_base_image m)") (simp_all add: Target_Memory True)
  qed
next
  case Target_Swift
  then show ?thesis
    unfolding key_target_def target_key_def Let_def by (simp add: writes_ints)
qed

end
