(* ===== verification/HK_Target_Identity.thy ===== *)
theory HK_Target_Identity
  imports HK_Ownership
begin

text \<open>
  What a canonical target key means. \<open>target_identity\<close> is the target a request names, with every
  field the key must not depend on left out: an image selector is reduced to the set of the images
  its leaves name, so order, repetition and nesting of explicit sets disappear. Two targets have
  the same key exactly when they have the same identity.
\<close>

datatype leaf_identity =
    Any_Image | Main_Image | Path_Image "string option" | Uuid_Image "byte list" | Header_Image ptr
  | Odd_Image

datatype image_identity = One_Image leaf_identity | Union_Image "leaf_identity set"

datatype class_identity = By_Pointer ptr | By_Name "string option"

datatype target_identity =
    Symbol_Identity "string option" hk_symbol_name_convention hk_symbol_alias_policy bool
      image_identity image_identity
  | Address_Identity u64
  | Objc_Identity class_identity class_identity hk_objc_method_kind
  | Memory_Identity u64 u64 "image_identity option"
  | Swift_Identity

definition leaf_identity :: "hk_image_selector \<Rightarrow> leaf_identity" where
  "leaf_identity sel = (case sel_kind sel of
     HK_IMAGE_ANY_LOADED \<Rightarrow> Any_Image | HK_IMAGE_MAIN_EXECUTABLE \<Rightarrow> Main_Image
   | HK_IMAGE_EXACT_PATH \<Rightarrow> Path_Image (sel_path sel)
   | HK_IMAGE_EXACT_UUID \<Rightarrow> Uuid_Image (sel_uuid sel)
   | HK_IMAGE_EXACT_HEADER \<Rightarrow> Header_Image (sel_header sel)
   | HK_IMAGE_EXPLICIT_SET \<Rightarrow> Odd_Image)"

definition image_identity :: "hk_image_selector \<Rightarrow> image_identity option" where
  "image_identity sel =
     (if sel_kind sel = HK_IMAGE_EXPLICIT_SET
      then map_option (\<lambda>ls. Union_Image (leaf_identity ` set ls)) (selector_leaves 0 (Some sel))
      else Some (One_Image (leaf_identity sel)))"

definition target_identity :: "(u64 \<Rightarrow> u64) \<Rightarrow> hk_target \<Rightarrow> target_identity option" where
  "target_identity strip t = (case t of
     Target_Symbol st \<Rightarrow> do {
       d \<leftarrow> image_identity (sym_defining_image st);
       c \<leftarrow> image_identity (sym_caller_image_scope st);
       Some (Symbol_Identity (sym_name st) (sym_name_convention st) (sym_alias_policy st)
               (sym_interior_address_permitted st) d c) }
   | Target_Address a \<Rightarrow> Some (Address_Identity
       (if addr_may_strip_pac_or_thumb_state a then strip (addr_address a) else addr_address a))
   | Target_Objc ob \<Rightarrow> Some (Objc_Identity
       (if objc_cls ob \<noteq> 0 then By_Pointer (objc_cls ob) else By_Name (objc_class_name ob))
       (if objc_sel ob \<noteq> 0 then By_Pointer (objc_sel ob) else By_Name (objc_selector_name ob))
       (objc_method_kind ob))
   | Target_Memory m \<Rightarrow>
       (if mem_address_is_image_relative m
        then map_option (\<lambda>i. Memory_Identity (mem_address m) (mem_size m) (Some i))
               (image_identity (mem_base_image m))
        else Some (Memory_Identity (mem_address m) (mem_size m) None))
   | Target_Swift \<Rightarrow> Some Swift_Identity)"

section \<open>The key of an identity\<close>

fun leaf_num :: "leaf_identity \<Rightarrow> nat" where
  "leaf_num Any_Image = 0" | "leaf_num Main_Image = 1" | "leaf_num (Path_Image _) = 2"
| "leaf_num (Uuid_Image _) = 3" | "leaf_num (Header_Image _) = 4" | "leaf_num Odd_Image = 5"

fun leaf_payload :: "leaf_identity \<Rightarrow> byte list" where
  "leaf_payload (Path_Image p) = string_key p"
| "leaf_payload (Uuid_Image u) = u"
| "leaf_payload (Header_Image h) = le_bytes 8 h"
| "leaf_payload _ = []"

definition leaf_id_key :: "leaf_identity \<Rightarrow> byte list" where
  "leaf_id_key l = le_bytes 4 (of_nat (leaf_num l) :: u32) @ leaf_payload l"

fun image_id_key :: "image_identity \<Rightarrow> byte list" where
  "image_id_key (One_Image l) = leaf_id_key l"
| "image_id_key (Union_Image L) = set_key (sorted_list_of_set (leaf_id_key ` L))"

fun class_id_key :: "class_identity \<Rightarrow> byte list" where
  "class_id_key (By_Pointer p) = le_bytes 1 (1 :: byte) @ le_bytes 8 p"
| "class_id_key (By_Name n) = le_bytes 1 (0 :: byte) @ string_key n"

definition kind_key :: "nat \<Rightarrow> byte list" where
  "kind_key n = le_bytes 4 (of_nat n :: u32)"

fun target_id_key :: "target_identity \<Rightarrow> byte list" where
  "target_id_key (Symbol_Identity n cv al ip d c) =
     kind_key 0 @ string_key n @ kind_key (name_convention_num cv) @ kind_key (alias_policy_num al) @
     le_bytes 1 (of_bool ip :: byte) @ image_id_key d @ image_id_key c"
| "target_id_key (Address_Identity a) = kind_key 1 @ le_bytes 8 a"
| "target_id_key (Objc_Identity c s k) =
     kind_key 2 @ class_id_key c @ class_id_key s @ kind_key (objc_method_kind_num k)"
| "target_id_key (Memory_Identity a z i) =
     kind_key 3 @ le_bytes 8 a @ le_bytes 1 (of_bool (i \<noteq> None) :: byte) @ le_bytes 8 z @
     (case i of None \<Rightarrow> [] | Some d \<Rightarrow> image_id_key d)"
| "target_id_key Swift_Identity = kind_key 4"

lemma leaf_key_identity: "sel_kind sel \<noteq> HK_IMAGE_EXPLICIT_SET \<Longrightarrow> leaf_key sel = leaf_id_key (leaf_identity sel)"
  by (cases "sel_kind sel") (simp_all add: leaf_key_def leaf_id_key_def leaf_identity_def)

lemma leaves_not_sets:
  "selector_leaves depth x = Some ls \<Longrightarrow> \<forall>l \<in> set ls. sel_kind l \<noteq> HK_IMAGE_EXPLICIT_SET"
  "selector_leaves_list depth xs = Some ls \<Longrightarrow> \<forall>l \<in> set ls. sel_kind l \<noteq> HK_IMAGE_EXPLICIT_SET"
  by (induction depth x and depth xs arbitrary: ls and ls
      rule: selector_leaves_selector_leaves_list.induct)
    (fastforce split: if_splits bind_splits)+

lemma selector_key_identity: "selector_key sel = map_option image_id_key (image_identity sel)"
proof (cases "sel_kind sel = HK_IMAGE_EXPLICIT_SET")
  case True
  have "leaf_key ` set ls = leaf_id_key ` leaf_identity ` set ls"
    if "selector_leaves 0 (Some sel) = Some ls" for ls
    using leaves_not_sets(1) [OF that] by (force simp: leaf_key_identity image_iff)
  then show ?thesis
    by (auto simp: selector_key_def image_identity_def True option.map_comp comp_def
        split: option.splits intro!: option.map_cong0)
next
  case False
  then show ?thesis by (simp add: selector_key_def image_identity_def leaf_key_identity)
qed

lemma target_key_identity: "target_key strip t = map_option target_id_key (target_identity strip t)"
  by (cases t)
    (auto simp: target_key_def target_identity_def selector_key_identity kind_key_def
      option.map_comp comp_def split: bind_splits option.splits)

section \<open>The key determines the identity\<close>

fun leaf_ok :: "leaf_identity \<Rightarrow> bool" where
  "leaf_ok (Path_Image p) = string_ok p"
| "leaf_ok (Uuid_Image u) = (length u = 16)"
| "leaf_ok Odd_Image = False"
| "leaf_ok _ = True"

fun image_ok :: "image_identity \<Rightarrow> bool" where
  "image_ok (One_Image l) = leaf_ok l"
| "image_ok (Union_Image L) \<longleftrightarrow> finite L \<and> card L \<le> SIZE_MAX \<and> (\<forall>l \<in> L. leaf_ok l)"

fun class_ok :: "class_identity \<Rightarrow> bool" where
  "class_ok (By_Pointer p) = True"
| "class_ok (By_Name n) = string_ok n"

fun identity_ok :: "target_identity \<Rightarrow> bool" where
  "identity_ok (Symbol_Identity n cv al ip d c) \<longleftrightarrow> string_ok n \<and> image_ok d \<and> image_ok c"
| "identity_ok (Objc_Identity c s k) \<longleftrightarrow> class_ok c \<and> class_ok s"
| "identity_ok (Memory_Identity a z i) \<longleftrightarrow> (case i of None \<Rightarrow> True | Some d \<Rightarrow> image_ok d)"
| "identity_ok _ = True"

lemma le_bytes_prefix:
  fixes v w :: "'a::len word"
  assumes "le_bytes n v @ x = le_bytes n w @ y" "LENGTH('a) \<le> 8 * n"
  shows "v = w" "x = y"
  using assms le_bytes_inj [of n v w] by auto

lemma kind_key_prefix:
  assumes "kind_key m @ x = kind_key n @ y" "m < 2 ^ 32" "n < 2 ^ 32"
  shows "m = n" "x = y"
proof -
  have "(of_nat m :: u32) = of_nat n" "x = y"
    using le_bytes_prefix [of 4 "of_nat m :: u32" x "of_nat n" y] assms(1) by (auto simp: kind_key_def)
  then show "m = n" "x = y"
    using assms(2,3) by (auto simp: word_of_nat_eq_iff take_bit_nat_eq_self)
qed

lemma length_kind_key [simp]: "length (kind_key n) = 4"
  by (simp add: kind_key_def)

lemma string_key_prefix:
  assumes "string_key a @ x = string_key b @ y" "string_ok a" "string_ok b"
  shows "a = b" "x = y"
proof -
  let ?len = "\<lambda>v. case v of None \<Rightarrow> (- 1 :: u64) | Some t \<Rightarrow> of_nat (length t)"
  let ?txt = "\<lambda>v. case v of None \<Rightarrow> [] | Some t \<Rightarrow> str_bytes t"
  have k: "string_key v = le_bytes 8 (?len v) @ ?txt v" for v
    by (simp add: string_key_def split: option.splits)
  have l: "?len a = ?len b" and r: "?txt a @ x = ?txt b @ y"
    using le_bytes_prefix [of 8 "?len a" "?txt a @ x" "?len b" "?txt b @ y"] assms(1)
    by (auto simp: k)
  show "a = b"
  proof (cases a; cases b)
    fix s t assume st: "a = Some s" "b = Some t"
    then have "length s = length t"
      using l assms(2,3) of_nat_u64_inj [of "length s" "length t"] by (simp add: string_ok_def)
    with r st show ?thesis by (simp add: str_bytes_inj)
  qed (use l assms(2,3) in \<open>auto dest: string_ok_length simp: eq_commute [of "- 1 :: u64"]\<close>)
  then show "x = y" using r by simp
qed

lemma leaf_num_less: "leaf_ok l \<Longrightarrow> leaf_num l < 5"
  by (cases l) simp_all

lemma leaf_id_key_prefix:
  assumes "leaf_id_key a @ x = leaf_id_key b @ y" "leaf_ok a" "leaf_ok b"
  shows "a = b" "x = y"
proof -
  have "kind_key (leaf_num a) @ leaf_payload a @ x = kind_key (leaf_num b) @ leaf_payload b @ y"
    using assms(1) by (simp add: leaf_id_key_def kind_key_def)
  from kind_key_prefix [OF this] leaf_num_less [OF assms(2)] leaf_num_less [OF assms(3)]
  have n: "leaf_num a = leaf_num b" and p: "leaf_payload a @ x = leaf_payload b @ y" by simp_all
  have "a = b \<and> x = y"
    using n p assms(2,3)
    by (cases a; cases b)
      (auto dest: string_key_prefix le_bytes_inj [where 'a = 64 and n = 8, simplified])
  then show "a = b" "x = y" by auto
qed

lemma leaf_id_key_inj: "leaf_ok a \<Longrightarrow> leaf_ok b \<Longrightarrow> leaf_id_key a = leaf_id_key b \<Longrightarrow> a = b"
  using leaf_id_key_prefix(1) [of a "[]" b "[]"] by simp

lemma leaf_id_key_length: "leaf_ok l \<Longrightarrow> length (leaf_id_key l) \<le> SIZE_MAX"
  by (cases l)
    (auto simp: leaf_id_key_def string_key_def string_ok_def SIZE_MAX_def split: option.splits)

lemma fields_prefix:
  assumes "concat (map (\<lambda>k. le_bytes 8 (of_nat (length k) :: u64) @ k) ks) @ x =
      concat (map (\<lambda>k. le_bytes 8 (of_nat (length k) :: u64) @ k) ms) @ y"
    "length ks = length ms" "\<forall>k \<in> set ks \<union> set ms. length k \<le> SIZE_MAX"
  shows "ks = ms \<and> x = y"
  using assms
proof (induction ks arbitrary: ms)
  case Nil
  then show ?case by simp
next
  case (Cons k ks)
  then obtain m ms' where m: "ms = m # ms'" by (cases ms) auto
  let ?f = "\<lambda>k. le_bytes 8 (of_nat (length k) :: u64) @ k"
  have e: "le_bytes 8 (of_nat (length k) :: u64) @ k @ concat (map ?f ks) @ x =
      le_bytes 8 (of_nat (length m) :: u64) @ m @ concat (map ?f ms') @ y"
    using Cons.prems(1) m by simp
  have "(of_nat (length k) :: u64) = of_nat (length m)"
    and r: "k @ concat (map ?f ks) @ x = m @ concat (map ?f ms') @ y"
    using le_bytes_prefix [OF e] by simp_all
  then have "length k = length m"
    using Cons.prems(3) m of_nat_u64_inj [of "length k" "length m"] by simp
  with r have "k = m" "concat (map ?f ks) @ x = concat (map ?f ms') @ y" by simp_all
  moreover have "ks = ms' \<and> x = y"
    using Cons.IH [of ms'] calculation(2) Cons.prems(2,3) m by simp
  ultimately show ?case using m by simp
qed

lemma set_key_prefix:
  assumes "set_key ks @ x = set_key ms @ y" "length ks \<le> SIZE_MAX" "length ms \<le> SIZE_MAX"
    "\<forall>k \<in> set ks \<union> set ms. length k \<le> SIZE_MAX"
  shows "ks = ms \<and> x = y"
proof -
  let ?f = "\<lambda>k. le_bytes 8 (of_nat (length k) :: u64) @ k"
  have e: "le_bytes 8 (of_nat (length ks) :: u64) @ concat (map ?f ks) @ x =
      le_bytes 8 (of_nat (length ms) :: u64) @ concat (map ?f ms) @ y"
    using assms(1) by (simp add: set_key_def)
  then have "length ks = length ms"
    using le_bytes_prefix(1) [OF e] of_nat_u64_inj assms(2,3) by simp
  with le_bytes_prefix(2) [OF e] assms(4) show ?thesis
    by (intro fields_prefix) simp_all
qed

lemma image_id_key_num:
  "image_ok i \<Longrightarrow> \<exists>n p. image_id_key i = kind_key n @ p \<and> n < 6 \<and> (n = 5 \<longleftrightarrow> (\<exists>L. i = Union_Image L))"
  by (cases i) (use leaf_num_less in \<open>fastforce simp: leaf_id_key_def kind_key_def set_key_def\<close>)+

lemma image_id_key_prefix:
  assumes e: "image_id_key a @ x = image_id_key b @ y" and ok: "image_ok a" "image_ok b"
  shows "a = b" "x = y"
proof -
  obtain m p n q where mn: "image_id_key a = kind_key m @ p" "m < 6" "m = 5 \<longleftrightarrow> (\<exists>L. a = Union_Image L)"
    "image_id_key b = kind_key n @ q" "n < 6" "n = 5 \<longleftrightarrow> (\<exists>L. b = Union_Image L)"
    using image_id_key_num [OF ok(1)] image_id_key_num [OF ok(2)] by blast
  have "kind_key m @ p @ x = kind_key n @ q @ y" using e mn(1,4) by simp
  from kind_key_prefix(1) [OF this] have "m = n" using mn(2,5) by simp
  then have same: "(\<exists>L. a = Union_Image L) \<longleftrightarrow> (\<exists>L. b = Union_Image L)" using mn by simp
  have "a = b \<and> x = y"
  proof (cases a)
    case (One_Image l)
    with same obtain l' where "b = One_Image l'" by (cases b) auto
    with One_Image e ok show ?thesis using leaf_id_key_prefix [of l x l' y] by simp
  next
    case (Union_Image L)
    with same obtain L' where b: "b = Union_Image L'" by (cases b) auto
    let ?k = "\<lambda>L. sorted_list_of_set (leaf_id_key ` L)"
    have fin: "finite L" "finite L'" and lok: "\<forall>l \<in> L \<union> L'. leaf_ok l" and cd: "card L \<le> SIZE_MAX" "card L' \<le> SIZE_MAX"
      using ok b Union_Image by auto
    have "?k L = ?k L' \<and> x = y"
    proof (rule set_key_prefix)
      show "set_key (?k L) @ x = set_key (?k L') @ y" using e b Union_Image by simp
      show "length (?k L) \<le> SIZE_MAX" "length (?k L') \<le> SIZE_MAX"
        using card_image_le [OF fin(1), of leaf_id_key] card_image_le [OF fin(2), of leaf_id_key] cd
        by simp_all
      show "\<forall>k \<in> set (?k L) \<union> set (?k L'). length k \<le> SIZE_MAX"
        using fin lok leaf_id_key_length by auto
    qed
    then have "leaf_id_key ` L = leaf_id_key ` L'" "x = y"
      using fin by (metis finite_imageI set_sorted_list_of_set)+
    moreover have "inj_on leaf_id_key (L \<union> L')"
      using lok leaf_id_key_inj by (auto simp: inj_on_def)
    ultimately show ?thesis
      using inj_on_image_eq_iff [of leaf_id_key "L \<union> L'" L L'] b Union_Image by simp
  qed
  then show "a = b" "x = y" by auto
qed

lemma class_id_key_prefix:
  assumes e: "class_id_key a @ x = class_id_key b @ y" and ok: "class_ok a" "class_ok b"
  shows "a = b" "x = y"
proof -
  have bit: "(\<exists>p. a = By_Pointer p) \<longleftrightarrow> (\<exists>p. b = By_Pointer p)"
    using e le_bytes_inj [where 'a = 8 and n = 1, simplified, of 0 1]
      le_bytes_inj [where 'a = 8 and n = 1, simplified, of 1 0]
    by (cases a; cases b) auto
  have "a = b \<and> x = y"
    using bit e ok
    by (cases a; cases b)
      (auto dest: string_key_prefix le_bytes_inj [where 'a = 64 and n = 8, simplified])
  then show "a = b" "x = y" by auto
qed

lemma of_bool_byte_inj: "le_bytes 1 (of_bool p :: byte) = le_bytes 1 (of_bool q :: byte) \<longleftrightarrow> p = q"
  using le_bytes_inj [where 'a = 8 and n = 1, simplified, of "of_bool p" "of_bool q"] by auto

fun identity_num :: "target_identity \<Rightarrow> nat" where
  "identity_num (Symbol_Identity _ _ _ _ _ _) = 0" | "identity_num (Address_Identity _) = 1"
| "identity_num (Objc_Identity _ _ _) = 2" | "identity_num (Memory_Identity _ _ _) = 3"
| "identity_num Swift_Identity = 4"

lemma small_num_inj:
  "kind_key (name_convention_num a) @ x = kind_key (name_convention_num b) @ y \<Longrightarrow> a = b \<and> x = y"
  "kind_key (alias_policy_num c) @ x = kind_key (alias_policy_num d) @ y \<Longrightarrow> c = d \<and> x = y"
  "kind_key (objc_method_kind_num e) = kind_key (objc_method_kind_num f) \<Longrightarrow> e = f"
proof -
  show "kind_key (name_convention_num a) @ x = kind_key (name_convention_num b) @ y \<Longrightarrow> a = b \<and> x = y"
    using kind_key_prefix [of "name_convention_num a" x "name_convention_num b" y]
    by (cases a; cases b) simp_all
  show "kind_key (alias_policy_num c) @ x = kind_key (alias_policy_num d) @ y \<Longrightarrow> c = d \<and> x = y"
    using kind_key_prefix [of "alias_policy_num c" x "alias_policy_num d" y]
    by (cases c; cases d) simp_all
  show "kind_key (objc_method_kind_num e) = kind_key (objc_method_kind_num f) \<Longrightarrow> e = f"
    using kind_key_prefix [of "objc_method_kind_num e" "[]" "objc_method_kind_num f" "[]"]
    by (cases e; cases f) simp_all
qed

lemma target_id_key_num: "\<exists>p. target_id_key i = kind_key (identity_num i) @ p"
  by (cases i) auto

lemma target_id_key_inj:
  assumes e: "target_id_key a = target_id_key b" and ok: "identity_ok a" "identity_ok b"
  shows "a = b"
proof -
  have less: "identity_num i < 5" for i by (cases i) simp_all
  obtain p q where "kind_key (identity_num a) @ p = kind_key (identity_num b) @ q"
    using e target_id_key_num by metis
  from kind_key_prefix(1) [OF this] have n: "identity_num a = identity_num b"
    using less [of a] less [of b] by simp
  show ?thesis
  proof (cases a)
    case (Symbol_Identity nm cv al ip d c)
    then obtain nm' cv' al' ip' d' c' where b: "b = Symbol_Identity nm' cv' al' ip' d' c'"
      using n by (cases b) auto
    have 1: "string_key nm @ kind_key (name_convention_num cv) @ kind_key (alias_policy_num al) @
        le_bytes 1 (of_bool ip :: byte) @ image_id_key d @ image_id_key c =
      string_key nm' @ kind_key (name_convention_num cv') @ kind_key (alias_policy_num al') @
        le_bytes 1 (of_bool ip' :: byte) @ image_id_key d' @ image_id_key c'"
      using e Symbol_Identity b by simp
    note 2 = string_key_prefix [OF 1] ok [unfolded Symbol_Identity b]
    note 3 = small_num_inj(1) [OF 2(2)]
    note 4 = small_num_inj(2) [OF conjunct2 [OF 3]]
    have 5: "ip = ip'" "image_id_key d @ image_id_key c @ [] = image_id_key d' @ image_id_key c' @ []"
      using 4 2 of_bool_byte_inj [of ip ip'] by auto
    note 6 = image_id_key_prefix [OF 5(2)]
    have "c = c'" using image_id_key_prefix(1) [OF 6(2)] 2 by simp
    with 2 3 4 5(1) 6(1) Symbol_Identity b show ?thesis by simp
  next
    case (Address_Identity x)
    then show ?thesis
      using n e by (cases b) (auto dest: le_bytes_inj [where 'a = 64 and n = 8, simplified])
  next
    case (Objc_Identity c s k)
    then obtain c' s' k' where b: "b = Objc_Identity c' s' k'" using n by (cases b) auto
    have 1: "class_id_key c @ class_id_key s @ kind_key (objc_method_kind_num k) =
        class_id_key c' @ class_id_key s' @ kind_key (objc_method_kind_num k')"
      using e Objc_Identity b by simp
    note 2 = class_id_key_prefix [OF 1]
    note 3 = class_id_key_prefix [OF 2(2)]
    show ?thesis
      using 2(1) 3 small_num_inj(3) [of k k'] ok Objc_Identity b by simp
  next
    case (Memory_Identity x z i)
    then obtain x' z' i' where b: "b = Memory_Identity x' z' i'" using n by (cases b) auto
    have "le_bytes 8 x = le_bytes 8 x'" "(i \<noteq> None) = (i' \<noteq> None)" "le_bytes 8 z = le_bytes 8 z'"
      "(case i of None \<Rightarrow> [] | Some d \<Rightarrow> image_id_key d) = (case i' of None \<Rightarrow> [] | Some d \<Rightarrow> image_id_key d)"
      using e Memory_Identity b of_bool_byte_inj [of "i \<noteq> None" "i' \<noteq> None"] by auto
    then show ?thesis
      using ok Memory_Identity b image_id_key_prefix(1) [of "the i" "[]" "the i'" "[]"]
      by (auto dest: le_bytes_inj [where 'a = 64 and n = 8, simplified] split: option.splits)
  next
    case Swift_Identity
    then show ?thesis using n by (cases b) auto
  qed
qed

section \<open>Properties of the key\<close>

fun selectors_of :: "hk_target \<Rightarrow> hk_image_selector list" where
  "selectors_of (Target_Symbol st) = [sym_defining_image st, sym_caller_image_scope st]"
| "selectors_of (Target_Memory m) = [mem_base_image m]"
| "selectors_of _ = []"

text \<open>Strings and selector trees that fit in memory.\<close>

definition target_wf :: "hk_target \<Rightarrow> bool" where
  "target_wf t \<longleftrightarrow> target_ok t \<and> (\<forall>sel \<in> set (selectors_of t).
     case selector_leaves 0 (Some sel) of None \<Rightarrow> True | Some ls \<Rightarrow> length ls \<le> SIZE_MAX)"

lemma leaves_ok:
  "selector_leaves depth x = Some ls \<Longrightarrow> (case x of None \<Rightarrow> True | Some sel \<Rightarrow> selector_ok sel) \<Longrightarrow>
     \<forall>l \<in> set ls. selector_ok l"
  "selector_leaves_list depth xs = Some ls \<Longrightarrow>
     (\<forall>c \<in> set xs. case c of None \<Rightarrow> True | Some sel \<Rightarrow> selector_ok sel) \<Longrightarrow>
     \<forall>l \<in> set ls. selector_ok l"
  by (induction depth x and depth xs arbitrary: ls and ls
      rule: selector_leaves_selector_leaves_list.induct)
    (fastforce split: if_splits bind_splits)+

lemma leaf_identity_ok:
  "selector_ok sel \<Longrightarrow> sel_kind sel \<noteq> HK_IMAGE_EXPLICIT_SET \<Longrightarrow> leaf_ok (leaf_identity sel)"
  by (cases sel; cases "sel_kind sel") (simp_all add: leaf_identity_def)

lemma image_identity_ok:
  assumes "image_identity sel = Some i" "selector_ok sel"
    "case selector_leaves 0 (Some sel) of None \<Rightarrow> True | Some ls \<Rightarrow> length ls \<le> SIZE_MAX"
  shows "image_ok i"
proof (cases "sel_kind sel = HK_IMAGE_EXPLICIT_SET")
  case True
  then obtain ls where ls: "selector_leaves 0 (Some sel) = Some ls" "i = Union_Image (leaf_identity ` set ls)"
    using assms(1) by (auto simp: image_identity_def)
  have "card (leaf_identity ` set ls) \<le> length ls"
    by (meson card_image_le card_length finite_set le_trans)
  moreover have "\<forall>l \<in> set ls. leaf_ok (leaf_identity l)"
    using leaves_ok(1) [OF ls(1)] leaves_not_sets(1) [OF ls(1)] assms(2) leaf_identity_ok by auto
  ultimately show ?thesis using ls assms(3) by simp
next
  case False
  then show ?thesis using assms leaf_identity_ok by (auto simp: image_identity_def)
qed

lemma target_identity_ok: "target_identity strip t = Some i \<Longrightarrow> target_wf t \<Longrightarrow> identity_ok i"
  by (cases t)
    (auto simp: target_identity_def target_wf_def split: bind_splits if_splits intro: image_identity_ok)

lemma key_copy_writes:
  assumes "target_ok t" "hk_ownership_target_key_copy strip t s = (r, s')"
  shows "only_alloc s s'" "r = None \<or> r = target_key strip t"
proof -
  obtain ok b s1 where run: "key_target strip t (empty_builder, s) = (ok, (b, s1))" by (metis surj_pair)
  note w = writesD [OF writes_target [OF assms(1)] run]
  show "only_alloc s s'" "r = None \<or> r = target_key strip t"
    using w assms(2) run
    by (auto simp: hk_ownership_target_key_copy_def empty_builder_def split: bool.splits)
qed

text \<open>C21. A key the builder returns is the canonical value: an out-of-memory path or a growth of the
  buffer never yields a different key, and only the allocator state changes.\<close>

theorem target_key_copy_refines:
  assumes "target_ok t" "hk_ownership_target_key_copy strip t s = (r, s')"
  shows "only_alloc s s' \<and> (r = None \<or> r = target_key strip t)"
  using key_copy_writes [OF assms] by blast

definition sample_objc_target :: hk_target where
  "sample_objc_target = Target_Objc \<lparr>objc_cls = 0, objc_class_name = Some ''NSObject'', objc_sel = 16,
     objc_selector_name = None, objc_method_kind = HK_OBJC_CLASS_METHOD,
     objc_inheritance_policy = HK_OBJC_LOCAL_METHOD_ONLY,
     objc_availability = HK_AVAILABILITY_REQUIRED_NOW\<rparr>"

theorem target_key_copy_refines_witness:
  "fst (hk_ownership_target_key_copy id sample_objc_target
      \<lparr>sys_heap = [False], sys_nonce = None, sys_counter = 0, sys_entropy = (0, 0, 0, 0)\<rparr>) \<in>
   {None, target_key id sample_objc_target}"
proof -
  have "target_ok sample_objc_target"
    by (simp add: sample_objc_target_def string_ok_def SIZE_MAX_def)
  from target_key_copy_refines [OF this surjective_pairing, THEN conjunct2] show ?thesis
    by blast
qed

lemma target_key_inj:
  assumes "target_wf t1" "target_wf t2"
    "target_key strip t1 = Some k1" "target_key strip t2 = Some k2"
  shows "k1 = k2 \<longleftrightarrow> target_identity strip t1 = target_identity strip t2"
proof -
  obtain i1 i2 where i: "target_identity strip t1 = Some i1" "target_identity strip t2 = Some i2"
    "k1 = target_id_key i1" "k2 = target_id_key i2"
    using assms(3,4) by (auto simp: target_key_identity)
  then show ?thesis
    using target_id_key_inj [of i1 i2] target_identity_ok assms(1,2) by auto
qed

text \<open>C14. Two keys that the key builder returns for well-formed targets, in whatever allocator states the two
  calls run, are equal exactly when the targets are the same target: same kind, same name, convention,
  alias policy and interior permission, same address after stripping, same class, selector and method
  kind, same region, and image selectors that name the same set of images, whatever the order,
  repetition or nesting of their explicit sets.\<close>

theorem target_key_injective:
  assumes "target_wf t1" "target_wf t2"
    and "hk_ownership_target_key_copy strip t1 s1 = (Some k1, s1')"
    and "hk_ownership_target_key_copy strip t2 s2 = (Some k2, s2')"
  shows "k1 = k2 \<longleftrightarrow> target_identity strip t1 = target_identity strip t2"
proof -
  have ok: "target_ok t1" "target_ok t2" using assms(1,2) by (simp_all add: target_wf_def)
  have "target_key strip t1 = Some k1" "target_key strip t2 = Some k2"
    using key_copy_writes(2) [OF ok(1) assms(3)] key_copy_writes(2) [OF ok(2) assms(4)] by auto
  then show ?thesis by (rule target_key_inj [OF assms(1,2)])
qed

definition sample_memory_target :: "hk_image_selector option list \<Rightarrow> hk_target" where
  "sample_memory_target cs = Target_Memory
     \<lparr>mem_address = 64, mem_address_is_image_relative = True,
      mem_base_image = Image_Selector HK_IMAGE_EXPLICIT_SET None (replicate 16 0) 0 cs False,
      mem_replacement_bytes = \<lparr>bv_data = Some [1], bv_size = 1\<rparr>,
      mem_expected_bytes = \<lparr>bv_data = Some [2], bv_size = 1\<rparr>,
      mem_expected_mask = \<lparr>bv_data = None, bv_size = 0\<rparr>, mem_size = 1,
      mem_kind = HK_MEMORY_KIND_DATA\<rparr>"

definition header_selector :: "ptr \<Rightarrow> hk_image_selector" where
  "header_selector h = Image_Selector HK_IMAGE_EXACT_HEADER None (replicate 16 0) h [] True"

definition key_sys :: hk_sys where
  "key_sys = \<lparr>sys_heap = [], sys_nonce = None, sys_counter = 0, sys_entropy = (0, 0, 0, 0)\<rparr>"

lemma grow_64: "n \<le> 128 \<Longrightarrow> grow_capacity 64 n = (if n \<le> 64 then 64 else 128)"
  by (simp add: grow_capacity.simps [of 64] grow_capacity.simps [of 128] SIZE_MAX_def)

lemma sample_key_returned:
  "\<exists>k s. hk_ownership_target_key_copy id (sample_memory_target (replicate n (Some (header_selector h)))) key_sys = (Some k, s)"
  if n: "n \<in> {1, 2}"
proof -
  have two: "replicate 2 x = [x, x]" for x :: "hk_image_selector option" by (simp add: numeral_2_eq_2)
  have "fst (hk_ownership_target_key_copy id (sample_memory_target (replicate n (Some (header_selector h)))) key_sys) \<noteq> None"
    using n by (auto simp: two hk_ownership_target_key_copy_def key_target_def sample_memory_target_def header_selector_def
      key_sys_def Let_def key_u8_def key_u32_def key_u64_def key_string_def key_append_def empty_builder_def SIZE_MAX_def
      sys_alloc_def key_selector_def key_selector_leaf_def HK_OWNERSHIP_MAX_IMAGE_SELECTOR_DEPTH_def
      key_blob_append_def key_unique_sorted grow_64)
  then show ?thesis by (auto simp: prod_eq_iff)
qed

text \<open>A repeated member gives the same key, a different member does not.\<close>

theorem target_key_injective_witness:
  "\<exists>k1 k2 k3.
     fst (hk_ownership_target_key_copy id
       (sample_memory_target [Some (header_selector 4), Some (header_selector 4)]) key_sys) = Some k1 \<and>
     fst (hk_ownership_target_key_copy id (sample_memory_target [Some (header_selector 4)]) key_sys) = Some k2 \<and>
     fst (hk_ownership_target_key_copy id (sample_memory_target [Some (header_selector 8)]) key_sys) = Some k3 \<and>
     k1 = k2 \<and> k1 \<noteq> k3"
proof -
  let ?t = "\<lambda>n h. sample_memory_target (replicate n (Some (header_selector h)))"
  have leaves: "selector_leaves_list (Suc 0) (replicate n (Some (header_selector h))) = Some (replicate n (header_selector h))" for n h
    by (induction n) (simp_all add: header_selector_def HK_OWNERSHIP_MAX_IMAGE_SELECTOR_DEPTH_def)
  have ident: "target_identity id (?t n h) = Some (Memory_Identity 64 1 (Some (Union_Image {Header_Image h})))" if "0 < n" for n h
    using that by (simp add: target_identity_def sample_memory_target_def image_identity_def leaves leaf_identity_def
        header_selector_def image_image HK_OWNERSHIP_MAX_IMAGE_SELECTOR_DEPTH_def leaves [unfolded header_selector_def])
  have sok: "selector_ok (header_selector h)" for h by (simp add: header_selector_def string_ok_def)
  have wf: "target_wf (?t n h)" if "n \<le> SIZE_MAX" for n h
    using that
    by (simp add: target_wf_def sample_memory_target_def leaves sok string_ok_def
        HK_OWNERSHIP_MAX_IMAGE_SELECTOR_DEPTH_def)
  have l: "(1 :: nat) \<le> SIZE_MAX" "(2 :: nat) \<le> SIZE_MAX" by (simp_all add: SIZE_MAX_def)
  obtain k1 s1 k2 s2 k3 s3 where k: "hk_ownership_target_key_copy id (?t 2 4) key_sys = (Some k1, s1)"
    "hk_ownership_target_key_copy id (?t 1 4) key_sys = (Some k2, s2)"
    "hk_ownership_target_key_copy id (?t 1 8) key_sys = (Some k3, s3)"
    using sample_key_returned [of 2 4] sample_key_returned [of 1 4] sample_key_returned [of 1 8] by blast
  have "k1 = k2" using target_key_injective [OF wf [OF l(2)] wf [OF l(1)] k(1,2)] by (simp only: ident [of 2] ident [of 1] zero_less_numeral zero_less_one simp_thms)
  moreover have "k1 \<noteq> k3" using target_key_injective [OF wf [OF l(2)] wf [OF l(1)] k(1,3)] by (simp add: ident [of 2] ident [of 1] del: One_nat_def replicate.simps)
  ultimately show ?thesis using k by (simp add: numeral_2_eq_2)
qed

end
