(* ===== verification/HK_Owners.thy ===== *)
theory HK_Owners
  imports HK_System
begin

text \<open>
  The process-lifetime list of ownership records of \<open>src/core/HKOwnership.c\<close>: at most one record per
  canonical key, the newest first. \<open>ownership_map\<close> is the contract the commit path relies on;
  its client lemmas replay a sequence of recordings.
\<close>

record hk_ownership_record =
  own_key :: "byte list"
  own_engine_id :: "string option"
  own_head_replacement :: ptr
  own_predecessor :: ptr

record hk_ownership_state =
  os_present :: bool
  os_head_replacement :: ptr
  os_predecessor :: ptr
  os_engine_id :: "string option"

text \<open>\<open>find_record\<close>: key sizes and bytes are equal, that is, the keys are equal.\<close>

definition find_record :: "byte list \<Rightarrow> hk_ownership_record list \<Rightarrow> hk_ownership_record option" where
  "find_record key rs = List.find (\<lambda>r. own_key r = key) rs"

definition hk_ownership_lookup_locked :: "byte list \<Rightarrow> hk_ownership_record list \<Rightarrow> hk_ownership_state" where
  "hk_ownership_lookup_locked key rs = (case find_record key rs of
     None \<Rightarrow> \<lparr>os_present = False, os_head_replacement = 0, os_predecessor = 0, os_engine_id = None\<rparr>
   | Some r \<Rightarrow> \<lparr>os_present = True, os_head_replacement = own_head_replacement r,
                os_predecessor = own_predecessor r, os_engine_id = own_engine_id r\<rparr>)"

text \<open>The record found is updated in place.\<close>

fun update_record :: "byte list \<Rightarrow> ptr \<Rightarrow> ptr \<Rightarrow> hk_ownership_record list \<Rightarrow> hk_ownership_record list" where
  "update_record key repl pred [] = []"
| "update_record key repl pred (r # rs) =
     (if own_key r = key then r\<lparr>own_head_replacement := repl, own_predecessor := pred\<rparr> # rs
      else r # update_record key repl pred rs)"

definition hk_ownership_record_locked :: "byte list \<Rightarrow> string option \<Rightarrow> ptr \<Rightarrow> ptr \<Rightarrow>
    hk_ownership_record list \<Rightarrow> 's hk_sys_scheme \<Rightarrow> (bool \<times> hk_ownership_record list) \<times> 's hk_sys_scheme" where
  "hk_ownership_record_locked key eid repl pred rs s =
     (case find_record key rs of
        Some _ \<Rightarrow> ((True, update_record key repl pred rs), s)
      | None \<Rightarrow>
          let (ok1, s1) = sys_alloc s in
          if \<not> ok1 then ((False, rs), s1)
          else let (ok2, s2) = sys_alloc s1 in
          if \<not> ok2 then ((False, rs), s2)
          else let (ok3, s3) = (case eid of None \<Rightarrow> (True, s2) | Some _ \<Rightarrow> sys_alloc s2) in
          if \<not> ok3 then ((False, rs), s3)
          else ((True, \<lparr>own_key = key, own_engine_id = eid, own_head_replacement = repl,
                        own_predecessor = pred\<rparr> # rs), s3))"

lemma record_locked_frame [hk_frame]:
  "hk_ownership_record_locked key eid repl pred rs s = (r, s') \<Longrightarrow> only_alloc s s'"
  by (auto simp: hk_ownership_record_locked_def Let_def split: option.splits if_splits prod.splits
      dest!: sys_alloc_frame intro: only_alloc_trans)

lemma find_record_simps [simp]:
  "find_record key [] = None"
  "find_record key (r # rs) = (if own_key r = key then Some r else find_record key rs)"
  by (simp_all add: find_record_def)

lemma find_update_record:
  "find_record k (update_record key repl pred rs) =
     (if k = key then map_option (\<lambda>r. r\<lparr>own_head_replacement := repl, own_predecessor := pred\<rparr>) (find_record key rs)
      else find_record k rs)"
  by (induction rs) auto

lemma lookup_after_record:
  assumes "hk_ownership_record_locked key eid repl pred rs s = ((ok, rs'), s')"
  shows "hk_ownership_lookup_locked k rs' =
    (if ok \<and> k = key
     then \<lparr>os_present = True, os_head_replacement = repl, os_predecessor = pred,
           os_engine_id = (if os_present (hk_ownership_lookup_locked key rs)
                           then os_engine_id (hk_ownership_lookup_locked key rs) else eid)\<rparr>
     else hk_ownership_lookup_locked k rs)"
proof (cases "find_record key rs")
  case None
  then show ?thesis
    using assms
    by (auto simp: hk_ownership_record_locked_def hk_ownership_lookup_locked_def Let_def
        split: if_splits prod.splits)
next
  case (Some r)
  then show ?thesis
    using assms
    by (cases "k = key")
      (auto simp: hk_ownership_record_locked_def hk_ownership_lookup_locked_def find_update_record)
qed

text \<open>One record per key, in whatever order targets were first owned.\<close>

lemma update_record_keys [simp]: "map own_key (update_record key repl pred rs) = map own_key rs"
  by (induction rs) auto

lemma find_record_None: "find_record key rs = None \<longleftrightarrow> key \<notin> set (map own_key rs)"
  by (induction rs) auto

lemma record_locked_distinct:
  assumes "hk_ownership_record_locked key eid repl pred rs s = ((ok, rs'), s')"
    "distinct (map own_key rs)"
  shows "distinct (map own_key rs')"
proof (cases "find_record key rs")
  case None
  then have "key \<notin> set (map own_key rs)" by (rule find_record_None [THEN iffD1])
  then show ?thesis
    using assms None
    by (auto simp: hk_ownership_record_locked_def Let_def split: if_splits prod.splits)
next
  case (Some r)
  then show ?thesis using assms by (auto simp: hk_ownership_record_locked_def)
qed

section \<open>The contract\<close>

text \<open>
  A map from keys to heads. A head carries the replacement that is reached first, its
  predecessor, and the engine that first took the key.
\<close>

record 'k ownership_write =
  ow_key :: 'k
  ow_engine :: "string option"
  ow_replacement :: ptr
  ow_predecessor :: ptr

locale ownership_map =
  fixes look :: "'m \<Rightarrow> 'k \<Rightarrow> hk_ownership_state"
    and put :: "'k ownership_write \<Rightarrow> 'm \<Rightarrow> bool \<times> 'm"
  assumes put_same: "put w m = (True, m') \<Longrightarrow>
      look m' (ow_key w) = \<lparr>os_present = True, os_head_replacement = ow_replacement w,
        os_predecessor = ow_predecessor w,
        os_engine_id = (if os_present (look m (ow_key w)) then os_engine_id (look m (ow_key w))
                        else ow_engine w)\<rparr>"
    and put_other: "put w m = (ok, m') \<Longrightarrow> k \<noteq> ow_key w \<Longrightarrow> look m' k = look m k"
    and put_failed: "put w m = (False, m') \<Longrightarrow> look m' k = look m k"
begin

primrec replay :: "'k ownership_write list \<Rightarrow> 'm \<Rightarrow> bool list \<times> 'm" where
  "replay [] m = ([], m)"
| "replay (w # ws) m = (let (ok, m1) = put w m; (oks, m2) = replay ws m1 in (ok # oks, m2))"

text \<open>The writes to a key that took effect, in order.\<close>

definition effective :: "'k \<Rightarrow> 'k ownership_write list \<Rightarrow> bool list \<Rightarrow> 'k ownership_write list" where
  "effective k ws oks = map fst (filter (\<lambda>(w, ok). ok \<and> ow_key w = k) (zip ws oks))"

lemma replay_look:
  assumes "replay ws m = (oks, m')"
  shows "look m' k =
    (if effective k ws oks = [] then look m k
     else let w = last (effective k ws oks); first = hd (effective k ws oks) in
       \<lparr>os_present = True, os_head_replacement = ow_replacement w, os_predecessor = ow_predecessor w,
        os_engine_id = (if os_present (look m k) then os_engine_id (look m k) else ow_engine first)\<rparr>)"
  using assms
proof (induction ws arbitrary: m oks)
  case Nil
  then show ?case by (simp add: effective_def)
next
  case (Cons w ws)
  obtain ok m1 where w: "put w m = (ok, m1)" by fastforce
  obtain oks1 where r: "replay ws m1 = (oks1, m')" "oks = ok # oks1"
    using Cons.prems w by (auto split: prod.splits)
  note IH = Cons.IH [OF r(1)]
  show ?case
  proof (cases "ok \<and> ow_key w = k")
    case True
    then have "effective k (w # ws) oks = w # effective k ws oks1"
      using r by (simp add: effective_def)
    moreover have "look m1 k = \<lparr>os_present = True, os_head_replacement = ow_replacement w,
        os_predecessor = ow_predecessor w,
        os_engine_id = (if os_present (look m k) then os_engine_id (look m k) else ow_engine w)\<rparr>"
      using put_same [of w m m1] w True by auto
    ultimately show ?thesis using IH by (simp add: Let_def)
  next
    case False
    then have e: "effective k (w # ws) oks = effective k ws oks1"
      using r by (auto simp: effective_def)
    have "look m1 k = look m k"
    proof (cases ok)
      case True
      with False show ?thesis using put_other [OF w] by auto
    next
      case f: False
      with w show ?thesis using put_failed by auto
    qed
    then show ?thesis unfolding e using IH by simp
  qed
qed

lemma replay_owner_stable:
  "replay ws m = (oks, m') \<Longrightarrow> os_present (look m k) \<Longrightarrow>
   os_present (look m' k) \<and> os_engine_id (look m' k) = os_engine_id (look m k)"
  using replay_look [of ws m oks m' k] by (auto simp: Let_def)

end

type_synonym 's owners = "hk_ownership_record list \<times> 's hk_sys_scheme"

definition owners_put :: "byte list ownership_write \<Rightarrow> 's owners \<Rightarrow> bool \<times> 's owners" where
  "owners_put w = (\<lambda>(rs, s).
     let ((ok, rs'), s') = hk_ownership_record_locked (ow_key w) (ow_engine w) (ow_replacement w)
           (ow_predecessor w) rs s
     in (ok, (rs', s')))"

interpretation owners: ownership_map "\<lambda>m k. hk_ownership_lookup_locked k (fst m)"
    "owners_put :: byte list ownership_write \<Rightarrow> 's owners \<Rightarrow> bool \<times> 's owners"
proof unfold_locales
  fix w :: "byte list ownership_write" and m m' :: "'s owners" and ok k
  obtain rs s where m: "m = (rs, s)" by fastforce
  obtain rs' s' where m': "m' = (rs', s')" by fastforce
  have look: "owners_put w m = (b, m') \<Longrightarrow> hk_ownership_lookup_locked j (fst m') =
    (if b \<and> j = ow_key w
     then \<lparr>os_present = True, os_head_replacement = ow_replacement w, os_predecessor = ow_predecessor w,
           os_engine_id = (if os_present (hk_ownership_lookup_locked (ow_key w) (fst m))
                           then os_engine_id (hk_ownership_lookup_locked (ow_key w) (fst m)) else ow_engine w)\<rparr>
     else hk_ownership_lookup_locked j (fst m))" for b j
    using lookup_after_record [of "ow_key w" "ow_engine w" "ow_replacement w" "ow_predecessor w" rs s b rs' s' j]
    unfolding m m' owners_put_def by (auto simp: Let_def split: prod.splits)
  show "hk_ownership_lookup_locked (ow_key w) (fst m') = \<lparr>os_present = True,
      os_head_replacement = ow_replacement w, os_predecessor = ow_predecessor w,
      os_engine_id = (if os_present (hk_ownership_lookup_locked (ow_key w) (fst m))
        then os_engine_id (hk_ownership_lookup_locked (ow_key w) (fst m)) else ow_engine w)\<rparr>"
    if "owners_put w m = (True, m')" using look [OF that] by simp
  show "hk_ownership_lookup_locked k (fst m') = hk_ownership_lookup_locked k (fst m)"
    if "owners_put w m = (ok, m')" "k \<noteq> ow_key w" using look [OF that(1)] that(2) by simp
  show "hk_ownership_lookup_locked k (fst m') = hk_ownership_lookup_locked k (fst m)"
    if "owners_put w m = (False, m')" using look [OF that] by simp
qed

text \<open>C22. After any sequence of ownership recordings, some of which may run out of memory, the state of a
  key is what the last recording of it that succeeded left, with the engine id of whoever owned it
  first; a key no successful recording touched is as it was.\<close>

theorem ownership_replay:
  fixes m :: "'s owners"
  assumes "owners.replay ws m = (oks, m')"
  shows "hk_ownership_lookup_locked k (fst m') =
    (let es = map fst (filter (\<lambda>(w, ok). ok \<and> ow_key w = k) (zip ws oks)) in
     if es = [] then hk_ownership_lookup_locked k (fst m)
     else \<lparr>os_present = True, os_head_replacement = ow_replacement (last es),
           os_predecessor = ow_predecessor (last es),
           os_engine_id = (if os_present (hk_ownership_lookup_locked k (fst m))
                           then os_engine_id (hk_ownership_lookup_locked k (fst m))
                           else ow_engine (hd es))\<rparr>)"
  using owners.replay_look [OF assms, of k] by (simp add: owners.effective_def Let_def)

theorem ownership_replay_witness:
  "os_head_replacement (hk_ownership_lookup_locked [1] (fst (snd (owners.replay
     [\<lparr>ow_key = [1], ow_engine = Some ''objc'', ow_replacement = 16, ow_predecessor = 8\<rparr>,
      \<lparr>ow_key = [1], ow_engine = Some ''rebind'', ow_replacement = 32, ow_predecessor = 16\<rparr>]
     ([], \<lparr>sys_heap = [], sys_nonce = None, sys_counter = 0, sys_entropy = (0, 0, 0, 0)\<rparr>))))) = 32"
proof -
  let ?ws = "[\<lparr>ow_key = [1], ow_engine = Some ''objc'', ow_replacement = 16, ow_predecessor = 8\<rparr>,
      \<lparr>ow_key = [1], ow_engine = Some ''rebind'', ow_replacement = 32, ow_predecessor = 16\<rparr>]"
  let ?m = "([], \<lparr>sys_heap = [], sys_nonce = None, sys_counter = 0, sys_entropy = (0, 0, 0, 0)\<rparr>) :: unit owners"
  obtain oks m' where r: "owners.replay ?ws ?m = (oks, m')" by (metis surj_pair)
  then have "oks = [True, True]"
    by (auto simp: owners_put_def hk_ownership_record_locked_def sys_alloc_def Let_def)
  then show ?thesis using ownership_replay [OF r, of "[1]"] r by (simp add: Let_def)
qed

end
