(* ===== verification/HK_Catalog.thy ===== *)
theory HK_Catalog
  imports HK_System
begin

text \<open>
  The image catalog of \<open>src/core/HKImageCatalog.c\<close>: its entries in load order, a generation counter
  bumped by every addition, and selector matching with a visitor. Populating it from dyld is in
  HK_Backend, beside the runtime that asks for it.
\<close>

record hk_image_entry =
  ie_path :: "string option"
  ie_uuid_present :: bool
  ie_uuid :: "byte list"
  ie_header :: ptr
  ie_slide :: u64
  ie_is_main_executable :: bool

record hk_image_catalog =
  ic_entries :: "hk_image_entry list"
  ic_capacity :: nat
  ic_generation :: u64

definition hk_image_catalog_create :: "'s hk_sys_scheme \<Rightarrow> hk_image_catalog option \<times> 's hk_sys_scheme" where
  "hk_image_catalog_create s =
     (let (ok, s1) = sys_alloc s in
      (if ok then Some \<lparr>ic_entries = [], ic_capacity = 0, ic_generation = 0\<rparr> else None, s1))"

text \<open>The path copy comes first, then the growth of the array; a failure of either leaves the catalog
  as it was.\<close>

definition hk_image_catalog_add_entry :: "hk_image_catalog \<Rightarrow> hk_image_entry \<Rightarrow> 's hk_sys_scheme \<Rightarrow>
    (bool \<times> hk_image_catalog) \<times> 's hk_sys_scheme" where
  "hk_image_catalog_add_entry cat e s =
     (let (ok, s1) = (case ie_path e of None \<Rightarrow> (True, s) | Some _ \<Rightarrow> sys_alloc s) in
      if \<not> ok then ((False, cat), s1)
      else (case grow_array 8 (length (ic_entries cat)) (ic_capacity cat) s1 of
          (None, s2) \<Rightarrow> ((False, cat), s2)
        | (Some capacity, s2) \<Rightarrow>
            ((True, \<lparr>ic_entries = ic_entries cat @ [e], ic_capacity = capacity,
                     ic_generation = ic_generation cat + 1\<rparr>), s2)))"

text \<open>Both readers accept a NULL catalog.\<close>

definition hk_image_catalog_count :: "hk_image_catalog option \<Rightarrow> nat" where
  "hk_image_catalog_count cat = (case cat of None \<Rightarrow> 0 | Some c \<Rightarrow> length (ic_entries c))"

definition hk_image_catalog_generation :: "hk_image_catalog option \<Rightarrow> u64" where
  "hk_image_catalog_generation cat = (case cat of None \<Rightarrow> 0 | Some c \<Rightarrow> ic_generation c)"

fun entry_matches_selector :: "hk_image_entry \<Rightarrow> hk_image_selector \<Rightarrow> bool" where
  "entry_matches_selector e (Image_Selector k p u h cs null) = (case k of
     HK_IMAGE_ANY_LOADED \<Rightarrow> True
   | HK_IMAGE_MAIN_EXECUTABLE \<Rightarrow> ie_is_main_executable e
   | HK_IMAGE_EXACT_PATH \<Rightarrow> ie_path e \<noteq> None \<and> p \<noteq> None \<and> ie_path e = p
   | HK_IMAGE_EXACT_UUID \<Rightarrow> ie_uuid_present e \<and> ie_uuid e = u
   | HK_IMAGE_EXACT_HEADER \<Rightarrow> ie_header e \<noteq> 0 \<and> ie_header e = h
   | HK_IMAGE_EXPLICIT_SET \<Rightarrow>
       list_ex (\<lambda>c. case c of None \<Rightarrow> False | Some sub \<Rightarrow> entry_matches_selector e sub) cs)"

text \<open>
  A visitor maps its context, the index and the entry to the new context and whether to go on.
  The loop counts the entries visited.
\<close>

fun match_from :: "hk_image_selector \<Rightarrow> ('c \<Rightarrow> nat \<Rightarrow> hk_image_entry \<Rightarrow> bool \<times> 'c) \<Rightarrow>
    nat \<Rightarrow> hk_image_entry list \<Rightarrow> 'c \<Rightarrow> nat \<times> 'c" where
  "match_from sel visit i [] ctx = (0, ctx)"
| "match_from sel visit i (e # es) ctx =
     (if entry_matches_selector e sel then
        (case visit ctx i e of
           (True, ctx1) \<Rightarrow> (let (n, ctx2) = match_from sel visit (i + 1) es ctx1 in (n + 1, ctx2))
         | (False, ctx1) \<Rightarrow> (1, ctx1))
      else match_from sel visit (i + 1) es ctx)"

definition hk_image_catalog_match :: "hk_image_catalog option \<Rightarrow> hk_image_selector \<Rightarrow>
    ('c \<Rightarrow> nat \<Rightarrow> hk_image_entry \<Rightarrow> bool \<times> 'c) \<Rightarrow> 'c \<Rightarrow> nat \<times> 'c" where
  "hk_image_catalog_match cat sel visit ctx =
     (case cat of None \<Rightarrow> (0, ctx) | Some c \<Rightarrow> match_from sel visit 0 (ic_entries c) ctx)"

section \<open>Matching as a fold\<close>

text \<open>The entries a selector names, with their indices, in catalog order.\<close>

definition selected :: "hk_image_selector \<Rightarrow> nat \<Rightarrow> hk_image_entry list \<Rightarrow> (nat \<times> hk_image_entry) list" where
  "selected sel i es = filter (\<lambda>(j, e). entry_matches_selector e sel) (zip [i..<i + length es] es)"

lemma selected_Nil [simp]: "selected sel i [] = []"
  by (simp add: selected_def)

lemma selected_Cons [simp]:
  "selected sel i (e # es) =
     (if entry_matches_selector e sel then (i, e) # selected sel (i + 1) es else selected sel (i + 1) es)"
proof -
  have "[i..<i + length (e # es)] = i # [Suc i..<Suc i + length es]"
    by (simp add: upt_conv_Cons del: upt_Suc)
  then show ?thesis by (simp add: selected_def)
qed

lemma selected_index: "x \<in> set (selected sel n es) \<Longrightarrow> n \<le> fst x"
  by (auto simp: selected_def dest!: set_zip_leftD)

lemma selected_sorted: "sorted_wrt (\<lambda>(i, _) (j, _). i < j) (selected sel n es)"
proof (induction es arbitrary: n)
  case (Cons e es)
  have "\<forall>x \<in> set (selected sel (n + 1) es). n < fst x"
    using selected_index [of _ sel "n + 1" es] by fastforce
  then show ?case using Cons by (auto simp: case_prod_beta)
qed simp

text \<open>A fold that stops at the first visit that asks to.\<close>

fun visit_list :: "('c \<Rightarrow> nat \<Rightarrow> hk_image_entry \<Rightarrow> bool \<times> 'c) \<Rightarrow> (nat \<times> hk_image_entry) list \<Rightarrow> 'c \<Rightarrow> nat \<times> 'c" where
  "visit_list visit [] ctx = (0, ctx)"
| "visit_list visit ((i, e) # xs) ctx =
     (case visit ctx i e of
        (True, ctx1) \<Rightarrow> (let (n, ctx2) = visit_list visit xs ctx1 in (n + 1, ctx2))
      | (False, ctx1) \<Rightarrow> (1, ctx1))"

lemma match_from_visit_list: "match_from sel visit i es ctx = visit_list visit (selected sel i es) ctx"
  by (induction sel visit i es ctx rule: match_from.induct) (auto split: prod.splits bool.splits)

text \<open>Matching visits exactly the entries the selector accepts, each once, in catalog order and with
  its own index, stopping only when the visitor asks to; overlapping members of an explicit set do
  not repeat a visit.\<close>

lemma catalog_match_visits:
  "hk_image_catalog_match (Some cat) sel visit ctx =
     visit_list visit (selected sel 0 (ic_entries cat)) ctx \<and>
   sorted_wrt (\<lambda>(i, _) (j, _). i < j) (selected sel 0 (ic_entries cat)) \<and>
   set (selected sel 0 (ic_entries cat)) =
     {(i, ic_entries cat ! i) | i. i < length (ic_entries cat) \<and> entry_matches_selector (ic_entries cat ! i) sel}"
proof (intro conjI)
  show "hk_image_catalog_match (Some cat) sel visit ctx =
      visit_list visit (selected sel 0 (ic_entries cat)) ctx"
    by (simp add: hk_image_catalog_match_def match_from_visit_list)
  show "sorted_wrt (\<lambda>(i, _) (j, _). i < j) (selected sel 0 (ic_entries cat))"
    by (rule selected_sorted)
  show "set (selected sel 0 (ic_entries cat)) =
     {(i, ic_entries cat ! i) | i. i < length (ic_entries cat) \<and> entry_matches_selector (ic_entries cat ! i) sel}"
    by (auto simp: selected_def set_zip intro!: exI)
qed

text \<open>Adding an entry either appends it and raises the generation by one, or fails and changes neither
  the entries nor the generation; which of the two happens depends on the allocator alone.\<close>

lemma catalog_add_entry_spec:
  assumes "hk_image_catalog_add_entry cat e s = ((ok, cat'), s')"
  shows "(if ok then ic_entries cat' = ic_entries cat @ [e] \<and> ic_generation cat' = ic_generation cat + 1
    else cat' = cat) \<and> only_alloc s s' \<and> (no_oom s \<longrightarrow> ok)"
proof (intro conjI impI)
  obtain ok1 s1 where p: "(case ie_path e of None \<Rightarrow> (True, s) | Some _ \<Rightarrow> sys_alloc s) = (ok1, s1)"
    by fastforce
  have p2: "only_alloc s s1" "no_oom s \<Longrightarrow> ok1 \<and> no_oom s1"
    using p by (auto split: option.splits dest: sys_alloc_frame sys_alloc_no_oom)
  obtain r s2 where g: "grow_array 8 (length (ic_entries cat)) (ic_capacity cat) s1 = (r, s2)" by fastforce
  have g2: "only_alloc s1 s2" by (rule grow_array_frame [OF g])
  note g3 = grow_array_no_oom [OF _ g]
  show "if ok then ic_entries cat' = ic_entries cat @ [e] \<and> ic_generation cat' = ic_generation cat + 1
    else cat' = cat"
    using assms p g by (auto simp: hk_image_catalog_add_entry_def split: if_splits option.splits)
  show "only_alloc s s'"
    using assms p g p2(1) g2
    by (auto simp: hk_image_catalog_add_entry_def split: if_splits option.splits intro: only_alloc_trans)
  assume "no_oom s"
  from p2(2) [OF this] show ok
    using assms p g g3
    by (auto simp: hk_image_catalog_add_entry_def split: if_splits option.splits)
qed

definition sample_entry :: hk_image_entry where
  "sample_entry = \<lparr>ie_path = Some ''/usr/lib/libobjc.A.dylib'', ie_uuid_present = False,
     ie_uuid = replicate 16 0, ie_header = 4096, ie_slide = 0, ie_is_main_executable = False\<rparr>"

end
