(* ===== verification/HK_Engine.thy ===== *)
theory HK_Engine
  imports HK_Ledger HK_Catalog
begin

text \<open>
  The engine contract of \<open>src/core/HKEngineInternal.h\<close>: capability descriptors and the eligibility
  tests the router applies to them, and the callback table. A callback is a function of its
  arguments and of the environment \<open>'e\<close>, the part of the process the engine owns; optional
  callbacks are options. What an engine may write through its sink is its reply: the artifacts it
  records in order, the original it publishes and the continuation it describes.
\<close>

section \<open>Capabilities\<close>

record hk_engine_capabilities =
  cap_engine_id :: "string option"
  cap_backend_group :: "string option"
  cap_display_name :: "string option"
  cap_target_kinds :: u32
  cap_exact_image_scope_targets :: u32
  cap_install_contexts :: u32
  cap_architectures :: u32
  cap_certified_architectures :: u32
  cap_minimum_ios_version :: u32
  cap_achievable_reach :: hk_reachability
  cap_original_requirements :: u32
  cap_prepare_effects :: hk_effects
  cap_commit_effects :: hk_effects
  cap_native_grouping :: bool
  cap_supports_compensation :: bool
  cap_chainable_target_kinds :: u32

definition HK_ORIGINAL_REQ_BIT :: "hk_original_requirement \<Rightarrow> u32" where
  "HK_ORIGINAL_REQ_BIT req = push_bit (original_requirement_num req) 1"

definition HK_TARGET_KIND_BIT :: "hk_target_kind \<Rightarrow> u32" where
  "HK_TARGET_KIND_BIT kind = push_bit (target_kind_num kind) 1"

definition HK_INSTALL_CONTEXT_BIT :: "hk_install_context \<Rightarrow> u32" where
  "HK_INSTALL_CONTEXT_BIT context = push_bit (install_context_num context) 1"

definition HK_ENGINE_ARCHITECTURE_ARM64 :: u32 where "HK_ENGINE_ARCHITECTURE_ARM64 = 1"
definition HK_ENGINE_ARCHITECTURE_ARM64E :: u32 where "HK_ENGINE_ARCHITECTURE_ARM64E = 2"

definition HK_ENGINE_IOS_VERSION :: "u32 \<Rightarrow> u32 \<Rightarrow> u32 \<Rightarrow> u32" where
  "HK_ENGINE_IOS_VERSION major minor patch = major * 10000 + minor * 100 + patch"

section \<open>Eligibility\<close>

definition hk_effect_forbid_bit :: "hk_effects \<Rightarrow> hk_constraints" where
  "hk_effect_forbid_bit effect =
     (if effect = HK_EFFECT_TARGET_TEXT_MUTATION then HK_FORBID_TARGET_TEXT_PATCH
      else if effect = HK_EFFECT_IMPORT_MUTATION then HK_FORBID_IMPORT_SLOT_PATCH
      else if effect = HK_EFFECT_OBJC_METADATA_MUTATION then HK_FORBID_OBJC_METADATA_CHANGE
      else if effect = HK_EFFECT_SWIFT_VTABLE_MUTATION then HK_FORBID_SWIFT_VTABLE_CHANGE
      else if effect = HK_EFFECT_EXECUTABLE_ALLOCATION then HK_FORBID_DYNAMIC_EXECUTABLE_MEMORY
      else if effect = HK_EFFECT_STATIC_CONTINUATION_USE then HK_FORBID_STATIC_CONTINUATION
      else if effect = HK_EFFECT_PRIVATE_SYMBOL_SCAN then HK_FORBID_PRIVATE_SYMBOL_SCAN
      else if effect = HK_EFFECT_PROVIDER_ACTIVATION then HK_FORBID_PROVIDER_ACTIVATION
      else if effect = HK_EFFECT_PROVIDER_IMAGE_LOAD then HK_FORBID_PROVIDER_IMAGE_LOAD
      else if effect = HK_EFFECT_CALLBACK_REGISTRATION then HK_FORBID_CALLBACK_REGISTRATION
      else if effect = HK_EFFECT_THREAD_CREATION then HK_FORBID_THREAD_CREATION
      else if effect = HK_EFFECT_UNKNOWN_PROCESS_MUTATION then HK_FORBID_UNKNOWN_COMMIT_EFFECTS
      else 0)"

definition hk_effective_constraints :: "hk_constraints \<Rightarrow> hk_continuation_policy \<Rightarrow> hk_constraints" where
  "hk_effective_constraints constraints policy =
     (if policy = HK_CONTINUATION_NO_DYNAMIC_EXECUTABLE_MEMORY
      then constraints OR HK_FORBID_DYNAMIC_EXECUTABLE_MEMORY else constraints)"

text \<open>The inner loop of the constraint check over the 64 bits of one phase's effects.\<close>

definition forbidden_effect :: "hk_constraints \<Rightarrow> hk_effects \<Rightarrow> bool" where
  "forbidden_effect constraints effects \<longleftrightarrow>
     list_ex (\<lambda>b. let effect = push_bit b (1 :: u64); forbid = hk_effect_forbid_bit effect in
        effects AND effect \<noteq> 0 \<and> forbid \<noteq> 0 \<and> constraints AND forbid \<noteq> 0) [0..<64]"

definition hk_engine_eligible_minimal_full :: "hk_engine_capabilities \<Rightarrow> hk_target_kind \<Rightarrow>
    hk_reachability \<Rightarrow> hk_original_requirement \<Rightarrow> hk_constraints \<Rightarrow> bool" where
  "hk_engine_eligible_minimal_full caps kind required_reach original_requirement constraints =
     (if cap_target_kinds caps AND HK_TARGET_KIND_BIT kind = 0 then False
      else if required_reach AND NOT (cap_achievable_reach caps) \<noteq> 0 then False
      else if cap_original_requirements caps \<noteq> 0 \<and>
        cap_original_requirements caps AND HK_ORIGINAL_REQ_BIT original_requirement = 0 then False
      else if constraints \<noteq> 0 \<and>
        (forbidden_effect constraints (cap_prepare_effects caps) \<or>
         forbidden_effect constraints (cap_commit_effects caps)) then False
      else True)"

definition hk_engine_supports_install_context :: "hk_engine_capabilities \<Rightarrow> hk_install_context \<Rightarrow> bool" where
  "hk_engine_supports_install_context caps context =
     (if cap_install_contexts caps = 0 then True
      else cap_install_contexts caps AND HK_INSTALL_CONTEXT_BIT context \<noteq> 0)"

definition hk_engine_supports_platform :: "hk_engine_capabilities \<Rightarrow> u32 \<Rightarrow> u32 \<Rightarrow> bool \<Rightarrow> bool" where
  "hk_engine_supports_platform caps architecture ios_version testing =
     (if testing \<or> architecture = 0 then True
      else if cap_architectures caps = 0 \<or> cap_architectures caps AND architecture = 0 \<or>
        cap_certified_architectures caps AND architecture = 0 then False
      else cap_minimum_ios_version caps = 0 \<or>
        (ios_version \<noteq> 0 \<and> ios_version \<ge> cap_minimum_ios_version caps))"

definition hk_engine_eligible_minimal :: "hk_engine_capabilities \<Rightarrow> hk_target_kind \<Rightarrow> hk_reachability \<Rightarrow> bool" where
  "hk_engine_eligible_minimal caps kind required_reach =
     hk_engine_eligible_minimal_full caps kind required_reach HK_ORIGINAL_NONE 0"

section \<open>The callback table\<close>

record hk_engine_discovery =
  ed_available :: bool
  ed_error_code :: int
  ed_error_message :: "string option"

record hk_engine_analysis =
  ea_eligible :: bool
  ea_achieved_reach :: hk_reachability
  ea_required_prepare_effects :: hk_effects
  ea_required_commit_effects :: hk_effects
  ea_continuation_kind :: hk_continuation_kind
  ea_install_context :: hk_install_context
  ea_route_rank :: u32

text \<open>
  What a commit callback leaves in its sink and returns. \<open>None\<close> for the continuation: the engine
  left the one the core had put there.
\<close>

record hk_commit_reply =
  cr_mutation :: hk_mutation_state
  cr_artifacts :: "hk_artifact list"
  cr_published_original :: ptr
  cr_continuation :: "hk_continuation_info option"

text \<open>The part of \<open>hk_engine_operation_t\<close> a grouped callback fills in.\<close>

record hk_engine_operation =
  op_spec :: hk_hook_spec
  op_prepared :: ptr
  op_prepare_result :: hk_prepare_result
  op_prepare_diag :: hk_prepare_diag
  op_sink :: "hk_artifact_sink option"
  op_mutation :: hk_mutation_state
  op_verify_result :: hk_verify_result
  op_verify_diag :: hk_verify_diag
  op_revalidated :: bool
  op_compensated :: bool

type_synonym 'e group_callback =
  "ptr \<Rightarrow> hk_engine_operation list \<Rightarrow> 'e \<Rightarrow> (bool \<times> (nat \<Rightarrow> hk_engine_operation \<Rightarrow> hk_engine_operation)) \<times> 'e"

text \<open>
  The table. \<open>vt_id\<close> is its address, by which the core compares engines. A grouped callback
  returns, for every index, how it changed that operation; a grouped commit also records
  artifacts, which is its \<open>nat \<Rightarrow> hk_commit_reply\<close>.
\<close>

record 'e hk_engine_vtable =
  vt_id :: nat
  vt_abi_version :: nat
  vt_struct_size :: nat
  vt_describe :: hk_engine_capabilities
  vt_discover :: "(ptr \<Rightarrow> 'e \<Rightarrow> bool \<times> hk_engine_discovery) option"
  vt_analyze_operation :: "(ptr \<Rightarrow> hk_hook_spec \<Rightarrow> 'e \<Rightarrow> bool \<times> hk_engine_analysis) option"
  vt_prepare_one :: "(hk_hook_spec \<Rightarrow> 'e \<Rightarrow> bool \<times> 'e) option"
  vt_commit_one :: "(hk_hook_spec \<Rightarrow> hk_artifact_sink \<Rightarrow> 'e \<Rightarrow> hk_commit_reply \<times> 'e) option"
  vt_verify_one :: "(hk_hook_spec \<Rightarrow> 'e \<Rightarrow> (hk_verify_result \<times> hk_verify_diag) \<times> 'e) option"
  vt_prepare_one_ctx :: "(ptr \<Rightarrow> hk_hook_spec \<Rightarrow> 'e \<Rightarrow> (bool \<times> ptr) \<times> 'e) option"
  vt_commit_one_ctx :: "(ptr \<Rightarrow> hk_hook_spec \<Rightarrow> ptr \<Rightarrow> hk_artifact_sink \<Rightarrow> 'e \<Rightarrow> hk_commit_reply \<times> 'e) option"
  vt_release_prepared :: "(ptr \<Rightarrow> ptr \<Rightarrow> 'e \<Rightarrow> 'e) option"
  vt_verify_one_ctx :: "(ptr \<Rightarrow> hk_hook_spec \<Rightarrow> ptr \<Rightarrow> 'e \<Rightarrow> (hk_verify_result \<times> hk_verify_diag) \<times> 'e) option"
  vt_prepare_one_ctx_status :: "(ptr \<Rightarrow> hk_hook_spec \<Rightarrow> 'e \<Rightarrow> (hk_prepare_result \<times> ptr \<times> hk_prepare_diag) \<times> 'e) option"
  vt_prepare_group_ctx :: "'e group_callback option"
  vt_revalidate_group_ctx :: "'e group_callback option"
  vt_commit_group_ctx :: "(ptr \<Rightarrow> hk_engine_operation list \<Rightarrow> 'e \<Rightarrow> (bool \<times> (nat \<Rightarrow> hk_commit_reply)) \<times> 'e) option"
  vt_verify_group_ctx :: "'e group_callback option"
  vt_compensate_group_ctx :: "'e group_callback option"
  vt_inspect_continuation :: "(ptr \<Rightarrow> hk_hook_spec \<Rightarrow> ptr \<Rightarrow> 'e \<Rightarrow> (hk_verify_result \<times> hk_continuation_info \<times> hk_verify_diag) \<times> 'e) option"

definition HK_ENGINE_VTABLE_ABI_VERSION_1 :: nat where "HK_ENGINE_VTABLE_ABI_VERSION_1 = 1"

text \<open>Byte offsets of the members the core guards by the table's size.\<close>

definition OFFSET_DESCRIBE :: nat where "OFFSET_DESCRIBE = 8"
definition OFFSET_DISCOVER :: nat where "OFFSET_DISCOVER = 16"
definition OFFSET_ANALYZE_OPERATION :: nat where "OFFSET_ANALYZE_OPERATION = 24"
definition OFFSET_INSPECT_CONTINUATION :: nat where "OFFSET_INSPECT_CONTINUATION = 136"

definition hk_engine_vtable_has_field :: "'e hk_engine_vtable \<Rightarrow> nat \<Rightarrow> nat \<Rightarrow> bool" where
  "hk_engine_vtable_has_field vt offset field_size \<longleftrightarrow>
     vt_struct_size vt = 0 \<or>
     (vt_struct_size vt \<ge> offset \<and> vt_struct_size vt - offset \<ge> field_size)"

section \<open>What eligibility means\<close>

lemma and_bit_nonzero: "w AND push_bit n 1 \<noteq> 0 \<longleftrightarrow> bit w n" for w :: "'a::len word"
  by (metis and_exp_eq_0_iff_not_bit push_bit_of_1)

text \<open>Bit numbers of the effects that a constraint can forbid, and the constraint's bit.\<close>

definition forbid_table :: "(nat \<times> nat) list" where
  "forbid_table = [(0, 0), (1, 1), (2, 2), (3, 3), (5, 4), (6, 5), (12, 6), (7, 7), (8, 8), (10, 9),
     (11, 11), (63, 13)]"

lemma effect_forbid_bit_table:
  assumes b: "b < 64"
  shows "hk_effect_forbid_bit (push_bit b 1) =
    (case map_of forbid_table b of None \<Rightarrow> 0 | Some f \<Rightarrow> push_bit f 1)"
proof -
  have e: "(2 :: u64) ^ b = 2 ^ k \<longleftrightarrow> b = k" if "k < 64" for k
  proof
    assume "(2 :: u64) ^ b = 2 ^ k"
    moreover have "bit ((2 :: u64) ^ b) b" using b by (simp add: bit_simps)
    ultimately have "bit ((2 :: u64) ^ k) b" by simp
    then show "b = k" by (simp add: bit_simps)
  qed simp
  have "((2 :: u64) ^ b = 2 ^ 0) = (b = 0)" "((2 :: u64) ^ b = 2 ^ 1) = (b = 1)"
    "((2 :: u64) ^ b = 2 ^ 2) = (b = 2)" "((2 :: u64) ^ b = 2 ^ 3) = (b = 3)"
    "((2 :: u64) ^ b = 2 ^ 5) = (b = 5)" "((2 :: u64) ^ b = 2 ^ 6) = (b = 6)"
    "((2 :: u64) ^ b = 2 ^ 7) = (b = 7)" "((2 :: u64) ^ b = 2 ^ 8) = (b = 8)"
    "((2 :: u64) ^ b = 2 ^ 10) = (b = 10)" "((2 :: u64) ^ b = 2 ^ 11) = (b = 11)"
    "((2 :: u64) ^ b = 2 ^ 12) = (b = 12)" "((2 :: u64) ^ b = 2 ^ 63) = (b = 63)"
    by (rule e; simp)+
  then show ?thesis
    unfolding hk_effect_forbid_bit_def hk_bit_defs push_bit_of_1
    by (simp only:) (simp add: forbid_table_def)
qed

lemma forbidden_effect_table:
  "forbidden_effect constraints effects \<longleftrightarrow>
     (\<exists>(b, f) \<in> set forbid_table. bit effects b \<and> bit constraints f)"
proof
  assume "forbidden_effect constraints effects"
  then obtain b where b: "b < 64" "bit effects b" "hk_effect_forbid_bit (push_bit b 1) \<noteq> 0"
    "constraints AND hk_effect_forbid_bit (push_bit b 1) \<noteq> 0"
    unfolding forbidden_effect_def list_ex_iff Let_def and_bit_nonzero by auto
  then obtain f where "map_of forbid_table b = Some f"
    by (auto simp: effect_forbid_bit_table simp del: push_bit_of_1 split: option.splits)
  with b show "\<exists>(b, f) \<in> set forbid_table. bit effects b \<and> bit constraints f"
    by (auto simp: effect_forbid_bit_table and_bit_nonzero simp del: push_bit_of_1 dest!: map_of_SomeD)
next
  assume "\<exists>(b, f) \<in> set forbid_table. bit effects b \<and> bit constraints f"
  then obtain b f where bf: "(b, f) \<in> set forbid_table" "bit effects b" "bit constraints f" by auto
  have "\<forall>(b, f) \<in> set forbid_table. b < 64 \<and> f < 64 \<and> map_of forbid_table b = Some f"
    by (simp add: forbid_table_def)
  with bf(1) have m: "b < 64" "f < 64" "map_of forbid_table b = Some f" by auto
  then have "hk_effect_forbid_bit (push_bit b 1) = push_bit f 1"
    by (simp add: effect_forbid_bit_table del: push_bit_of_1)
  moreover have "push_bit f 1 \<noteq> (0 :: u64)" using m(2) by (simp add: push_bit_eq_0_iff)
  ultimately show "forbidden_effect constraints effects"
    unfolding forbidden_effect_def list_ex_iff Let_def and_bit_nonzero
    using m bf by (intro bexI [of _ b]) (auto simp: and_bit_nonzero simp del: push_bit_of_1)
qed

text \<open>An engine that passes the static eligibility test supports the target kind, can achieve every
  required reachability bit, serves the original requirement unless it declares nothing about
  originals, and declares no preparation or commit effect that one of the twelve expressible
  constraints forbids; and it passes whenever all of these hold.\<close>

lemma eligible_minimal_full_iff:
  "hk_engine_eligible_minimal_full caps kind required req constraints \<longleftrightarrow>
     bit (cap_target_kinds caps) (target_kind_num kind) \<and>
     (\<forall>n. bit required n \<longrightarrow> bit (cap_achievable_reach caps) n) \<and>
     (cap_original_requirements caps = 0 \<or> bit (cap_original_requirements caps) (original_requirement_num req)) \<and>
     (\<forall>(b, f) \<in> set forbid_table.
        bit (cap_prepare_effects caps OR cap_commit_effects caps) b \<longrightarrow> \<not> bit constraints f)"
proof -
  have "constraints = 0 \<Longrightarrow> \<not> forbidden_effect constraints e" for e
    by (simp add: forbidden_effect_def list_ex_iff Let_def)
  then have f: "(constraints \<noteq> 0 \<and> (forbidden_effect constraints (cap_prepare_effects caps) \<or>
        forbidden_effect constraints (cap_commit_effects caps))) \<longleftrightarrow>
      \<not> (\<forall>(b, f) \<in> set forbid_table.
        bit (cap_prepare_effects caps OR cap_commit_effects caps) b \<longrightarrow> \<not> bit constraints f)"
    by (auto simp: forbidden_effect_table bit_or_iff)
  show ?thesis
    unfolding hk_engine_eligible_minimal_full_def f HK_TARGET_KIND_BIT_def HK_ORIGINAL_REQ_BIT_def
    using and_bit_nonzero [of "cap_target_kinds caps" "target_kind_num kind"]
      and_bit_nonzero [of "cap_original_requirements caps" "original_requirement_num req"]
      mask_subset_iff [of required "cap_achievable_reach caps"]
    by (auto simp del: push_bit_of_1)
qed

definition plain_capabilities :: hk_engine_capabilities where
  "plain_capabilities = \<lparr>cap_engine_id = None, cap_backend_group = None, cap_display_name = None,
     cap_target_kinds = 0, cap_exact_image_scope_targets = 0, cap_install_contexts = 0,
     cap_architectures = 0, cap_certified_architectures = 0, cap_minimum_ios_version = 0,
     cap_achievable_reach = 0, cap_original_requirements = 0, cap_prepare_effects = 0,
     cap_commit_effects = 0, cap_native_grouping = False, cap_supports_compensation = False,
     cap_chainable_target_kinds = 0\<rparr>"

end
