(* ===== verification/HK_World.thy ===== *)
theory HK_World
  imports HK_Engine HK_Ownership HK_Owners
begin

text \<open>
  The state the core works on: the process (allocator, ids, ownership records, installed hooks,
  process ledger, the engines' environment), runtimes, plans, domains and hooks of
  \<open>src/core/HKPlanInternal.h\<close> and \<open>src/core/HKRuntimeInternal.h\<close>, with reports (\<open>HKReport.c\<close>) and
  installed records (\<open>HKInstalled.c\<close>). Domains and hooks are separate heap objects with a number
  of their own, which is what a pointer to them is.
\<close>

record hk_installed_hook =
  ih_installed_id :: hk_id
  ih_has_original :: bool
  ih_original :: ptr
  ih_result :: hk_hook_result

record 'e hk_world = hk_sys +
  w_env :: 'e
  w_owners :: "hk_ownership_record list"
  w_installed :: "hk_installed_hook list"
  w_process_ledger :: "hk_artifact_ledger option"
  w_pac_strip :: "u64 \<Rightarrow> u64"
  w_next_ref :: nat

definition fresh_ref :: "'e hk_world \<Rightarrow> nat \<times> 'e hk_world" where
  "fresh_ref w = (w_next_ref w, w\<lparr>w_next_ref := w_next_ref w + 1\<rparr>)"

text \<open>Operations that touch only allocator and ids leave the rest of the world alone.\<close>

lemma world_more:
  fixes w w' :: "('e, 'm) hk_world_scheme"
  assumes "hk_sys.more w' = hk_sys.more w"
  shows "w_env w' = w_env w" "w_owners w' = w_owners w" "w_installed w' = w_installed w"
    "w_process_ledger w' = w_process_ledger w" "w_pac_strip w' = w_pac_strip w"
    "w_next_ref w' = w_next_ref w"
  using assms by (cases w; cases w'; simp)+

record hk_domain =
  d_ref :: nat
  d_id :: hk_id
  d_spec :: hk_domain_spec

text \<open>
  \<open>h_matched\<close> is the pair of \<open>matched_engine\<close> and \<open>matched_engine_ctx\<close>; \<open>h_prepared_state\<close> is 0 when
  nothing is held; \<open>h_prepared_continuation\<close> joins \<open>has_prepared_continuation\<close> with the value.
\<close>

record 'e hk_hook =
  h_ref :: nat
  h_id :: hk_id
  h_spec :: hk_hook_spec
  h_target_key :: "byte list"
  h_matched :: "('e hk_engine_vtable \<times> ptr) option"
  h_prepared_state :: ptr
  h_prepared_continuation :: "hk_continuation_info option"
  h_installed :: "hk_installed_hook option"
  h_result :: hk_hook_result

record 'e hk_engine_slot =
  es_vtable :: "'e hk_engine_vtable"
  es_ctx :: ptr
  es_testing :: bool

definition HK_RUNTIME_MAX_ENGINES :: nat where "HK_RUNTIME_MAX_ENGINES = 16"

record 'e hk_runtime =
  rt_owner_id :: hk_id
  rt_install_context :: hk_install_context
  rt_platform_architecture :: u32
  rt_platform_ios_version :: u32
  rt_engines :: "'e hk_engine_slot list"
  rt_catalog :: "hk_image_catalog option"
  rt_pending :: "'e hk_hook list"
  rt_pending_capacity :: nat
  rt_artifacts :: hk_artifact_ledger

record 'e hk_plan =
  p_id :: hk_id
  p_debug_label :: "string option"
  p_state :: hk_plan_state
  p_domains :: "hk_domain list"
  p_domain_capacity :: nat
  p_hooks :: "'e hk_hook list"
  p_hook_capacity :: nat

abbreviation rt_generation :: "'e hk_runtime \<Rightarrow> u64" where
  "rt_generation rt \<equiv> hk_image_catalog_generation (rt_catalog rt)"

section \<open>HKReport.c\<close>

record hk_report =
  rp_report_id :: hk_id
  rp_results :: "hk_hook_result list"
  rp_artifacts :: hk_artifact_ledger

definition hk_report_create :: "hk_hook_result list \<Rightarrow> 's hk_sys_scheme \<Rightarrow> hk_report option \<times> 's hk_sys_scheme" where
  "hk_report_create results s =
     (let (ok, s1) = sys_alloc s in
      if \<not> ok then (None, s1)
      else let (rid, s2) = hk_id_generate s1 in
        (case hk_artifact_ledger_create s2 of
           (None, s3) \<Rightarrow> (None, s3)
         | (Some l, s3) \<Rightarrow>
             let (ok2, s4) = (if results = [] then (True, s3) else sys_alloc s3) in
             if \<not> ok2 then (None, s4)
             else (Some \<lparr>rp_report_id = rid, rp_results = results, rp_artifacts = l\<rparr>, s4)))"

definition hk_report_adopt_artifact_ledger :: "hk_report \<Rightarrow> hk_artifact_ledger \<Rightarrow> hk_report" where
  "hk_report_adopt_artifact_ledger report l = report\<lparr>rp_artifacts := l\<rparr>"

definition hk_report_copy_artifacts :: "hk_report \<Rightarrow> 's hk_sys_scheme \<Rightarrow>
    (hk_status \<times> hk_artifact_snapshot option) \<times> 's hk_sys_scheme" where
  "hk_report_copy_artifacts report s = hk_artifact_snapshot_from_ledger (Some (rp_artifacts report)) s"

lemma hk_report_create_frame [hk_frame]:
  assumes "hk_report_create results s = (r, s')"
  shows "hk_sys.more s' = hk_sys.more s"
    and "\<And>rep. r = Some rep \<Longrightarrow> rp_results rep = results \<and> l_items (rp_artifacts rep) = []"
proof -
  obtain ok s1 where a: "sys_alloc s = (ok, s1)" by fastforce
  obtain rid s2 where g: "hk_id_generate s1 = (rid, s2)" by fastforce
  obtain l s3 where c: "hk_artifact_ledger_create s2 = (l, s3)" by fastforce
  obtain ok2 s4 where b: "(if results = [] then (True, s3) else sys_alloc s3) = (ok2, s4)" by fastforce
  have m: "hk_sys.more s1 = hk_sys.more s" "hk_sys.more s2 = hk_sys.more s1"
    "hk_sys.more s3 = hk_sys.more s2" "hk_sys.more s4 = hk_sys.more s3"
    using only_allocD(4) [OF sys_alloc_frame [OF a]] hk_id_generate_frame(2) [OF g] c b
    by (auto simp: hk_artifact_ledger_create_def Let_def split: if_splits prod.splits
        dest!: sys_alloc_frame only_allocD(4))
  have li: "\<And>l'. l = Some l' \<Longrightarrow> l_items l' = []"
    using c by (auto simp: hk_artifact_ledger_create_def Let_def split: if_splits prod.splits)
  show "hk_sys.more s' = hk_sys.more s"
    using assms a g c b m unfolding hk_report_create_def
    by (simp add: Let_def split: if_splits option.splits)
  show "rp_results rep = results \<and> l_items (rp_artifacts rep) = []" if "r = Some rep" for rep
    using assms a g c b li that unfolding hk_report_create_def
    by (auto simp: Let_def split: if_splits option.splits)
qed

section \<open>HKInstalled.c\<close>

definition hk_installed_record_create :: "hk_id \<Rightarrow> ptr \<Rightarrow> hk_hook_result \<Rightarrow> 'e hk_world \<Rightarrow>
    hk_installed_hook option \<times> 'e hk_world" where
  "hk_installed_record_create installed_id original result w =
     (let (ok, w1) = sys_alloc w in
      if \<not> ok then (None, w1)
      else let record = \<lparr>ih_installed_id = installed_id, ih_has_original = (original \<noteq> 0),
                         ih_original = original, ih_result = result\<rparr>
           in (Some record, w1\<lparr>w_installed := record # w_installed w1\<rparr>))"

text \<open>The readers of a handle or of its slot; \<open>None\<close> is NULL.\<close>

definition hk_original_slot_load :: "hk_installed_hook option \<Rightarrow> ptr" where
  "hk_original_slot_load slot = (case slot of None \<Rightarrow> 0 | Some r \<Rightarrow> ih_original r)"

definition hk_installed_hook_copy_result :: "hk_installed_hook option \<Rightarrow> hk_status \<times> hk_hook_result option" where
  "hk_installed_hook_copy_result installed = (case installed of
     None \<Rightarrow> (HK_STATUS_INVALID_ARGUMENT, None) | Some r \<Rightarrow> (HK_STATUS_OK, Some (ih_result r)))"

definition hk_hook_installed_handle :: "'e hk_hook option \<Rightarrow> hk_installed_hook option" where
  "hk_hook_installed_handle hook = (case hook of None \<Rightarrow> None | Some h \<Rightarrow> h_installed h)"

definition hk_hook_original_slot :: "'e hk_hook option \<Rightarrow> hk_installed_hook option" where
  "hk_hook_original_slot hook = (case hook of
     None \<Rightarrow> None
   | Some h \<Rightarrow> (case h_installed h of
       None \<Rightarrow> None | Some r \<Rightarrow> if ih_has_original r then Some r else None))"

definition hk_hook_copy_result :: "'e hk_hook option \<Rightarrow> hk_status \<times> hk_hook_result option" where
  "hk_hook_copy_result hook = (case hook of
     None \<Rightarrow> (HK_STATUS_INVALID_ARGUMENT, None) | Some h \<Rightarrow> (HK_STATUS_OK, Some (h_result h)))"

end
