(* ===== verification/HK_Plan_Build.thy ===== *)
theory HK_Plan_Build
  imports HK_World
begin

text \<open>
  Building a plan (\<open>src/core/HKPlan.c\<close>): the checked copies, \<open>hk_plan_create\<close>,
  \<open>hk_plan_define_domain\<close>, \<open>hk_plan_add_hook\<close>, with every allocation and every refusal in the order
  of the code. Results are \<open>Inl\<close> the status of the refusal or \<open>Inr\<close> what the call hands out.
\<close>

section \<open>Checked copies\<close>

definition hk_strdup_checked :: "string option \<Rightarrow> 's hk_sys_scheme \<Rightarrow> bool \<times> 's hk_sys_scheme" where
  "hk_strdup_checked v s = (case v of None \<Rightarrow> (True, s) | Some _ \<Rightarrow> sys_alloc s)"

definition hk_bytes_dup_checked :: "hk_bytes_view \<Rightarrow> 's hk_sys_scheme \<Rightarrow> hk_bytes_view option \<times> 's hk_sys_scheme" where
  "hk_bytes_dup_checked v s =
     (if bv_data v = None \<or> bv_size v = 0 then (Some \<lparr>bv_data = None, bv_size = 0\<rparr>, s)
      else let (ok, s1) = sys_alloc s in
        (if ok then Some \<lparr>bv_data = map_option (take (bv_size v)) (bv_data v), bv_size = bv_size v\<rparr>
         else None, s1))"

definition HK_MAX_IMAGE_SELECTOR_DEPTH :: nat where
  "HK_MAX_IMAGE_SELECTOR_DEPTH = 32"

fun hk_image_selector_copy_owned :: "nat \<Rightarrow> hk_image_selector option \<Rightarrow> 's hk_sys_scheme \<Rightarrow>
      (hk_status + hk_image_selector) \<times> 's hk_sys_scheme"
  and copy_owned_children :: "nat \<Rightarrow> hk_image_selector option list \<Rightarrow> 's hk_sys_scheme \<Rightarrow>
      (hk_status + hk_image_selector option list) \<times> 's hk_sys_scheme" where
  "hk_image_selector_copy_owned depth None s = (Inl HK_STATUS_INVALID_ARGUMENT, s)"
| "hk_image_selector_copy_owned depth (Some (Image_Selector k p u h cs null)) s =
     (if depth > HK_MAX_IMAGE_SELECTOR_DEPTH then (Inl HK_STATUS_INVALID_ARGUMENT, s)
      else let (ok1, s1) = sys_alloc s in
      if \<not> ok1 then (Inl HK_STATUS_OUT_OF_MEMORY, s1)
      else let (ok2, s2) = hk_strdup_checked p s1 in
      if \<not> ok2 then (Inl HK_STATUS_OUT_OF_MEMORY, s2)
      else if k \<noteq> HK_IMAGE_EXPLICIT_SET then (Inr (Image_Selector k p u h [] True), s2)
      else if cs \<noteq> [] \<and> null then (Inl HK_STATUS_INVALID_ARGUMENT, s2)
      else if length cs > SIZE_MAX div 8 then (Inl HK_STATUS_INVALID_ARGUMENT, s2)
      else if cs = [] then (Inr (Image_Selector k p u h [] True), s2)
      else let (ok3, s3) = sys_alloc s2; (ok4, s4) = sys_alloc s3 in
      if \<not> ok3 \<or> \<not> ok4 then (Inl HK_STATUS_OUT_OF_MEMORY, s4)
      else (case copy_owned_children (depth + 1) cs s4 of
          (Inl e, s5) \<Rightarrow> (Inl e, s5)
        | (Inr cs', s5) \<Rightarrow> (Inr (Image_Selector k p u h cs' False), s5)))"
| "copy_owned_children depth [] s = (Inr [], s)"
| "copy_owned_children depth (c # cs) s =
     (case hk_image_selector_copy_owned depth c s of
        (Inl e, s1) \<Rightarrow> (Inl e, s1)
      | (Inr c', s1) \<Rightarrow>
          (case copy_owned_children depth cs s1 of
             (Inl e, s2) \<Rightarrow> (Inl e, s2)
           | (Inr cs', s2) \<Rightarrow> (Inr (Some c' # cs'), s2)))"

definition hk_image_selector_copy :: "hk_image_selector \<Rightarrow> 's hk_sys_scheme \<Rightarrow>
    (hk_status + hk_image_selector) \<times> 's hk_sys_scheme" where
  "hk_image_selector_copy sel s = hk_image_selector_copy_owned 0 (Some sel) s"

text \<open>
  \<open>hk_hook_copy_target\<close>, one branch per target kind; the Swift kind has no target here.
\<close>

fun hk_hook_copy_target :: "hk_target \<Rightarrow> 's hk_sys_scheme \<Rightarrow> (hk_status + hk_target) \<times> 's hk_sys_scheme" where
  "hk_hook_copy_target (Target_Symbol st) s =
     (let (ok, s1) = hk_strdup_checked (sym_name st) s in
      if \<not> ok then (Inl HK_STATUS_OUT_OF_MEMORY, s1)
      else (case hk_image_selector_copy (sym_defining_image st) s1 of
          (Inl e, s2) \<Rightarrow> (Inl e, s2)
        | (Inr d, s2) \<Rightarrow>
            (case hk_image_selector_copy (sym_caller_image_scope st) s2 of
               (Inl e, s3) \<Rightarrow> (Inl e, s3)
             | (Inr c, s3) \<Rightarrow>
                 (Inr (Target_Symbol (st\<lparr>sym_defining_image := d, sym_caller_image_scope := c\<rparr>)), s3))))"
| "hk_hook_copy_target (Target_Address a) s =
     (case hk_image_selector_copy (addr_expected_image a) s of
        (Inl e, s1) \<Rightarrow> (Inl e, s1)
      | (Inr i, s1) \<Rightarrow>
          (case hk_bytes_dup_checked (addr_expected_initial_bytes a) s1 of
             (None, s2) \<Rightarrow> (Inl HK_STATUS_OUT_OF_MEMORY, s2)
           | (Some b, s2) \<Rightarrow>
               (Inr (Target_Address (a\<lparr>addr_expected_image := i, addr_expected_initial_bytes := b\<rparr>)), s2)))"
| "hk_hook_copy_target (Target_Objc ob) s =
     (let (ok, s1) = hk_strdup_checked (objc_class_name ob) s in
      if \<not> ok then (Inl HK_STATUS_OUT_OF_MEMORY, s1)
      else let (ok2, s2) = hk_strdup_checked (objc_selector_name ob) s1 in
      if \<not> ok2 then (Inl HK_STATUS_OUT_OF_MEMORY, s2)
      else (Inr (Target_Objc ob), s2))"
| "hk_hook_copy_target (Target_Memory m) s =
     (case (if mem_address_is_image_relative m then hk_image_selector_copy (mem_base_image m) s
            else (Inr zero_selector, s)) of
        (Inl e, s1) \<Rightarrow> (Inl e, s1)
      | (Inr b, s1) \<Rightarrow>
      (case hk_bytes_dup_checked (mem_replacement_bytes m) s1 of
        (None, s2) \<Rightarrow> (Inl HK_STATUS_OUT_OF_MEMORY, s2)
      | (Some r, s2) \<Rightarrow>
      (case hk_bytes_dup_checked (mem_expected_bytes m) s2 of
        (None, s3) \<Rightarrow> (Inl HK_STATUS_OUT_OF_MEMORY, s3)
      | (Some x, s3) \<Rightarrow>
      (case hk_bytes_dup_checked (mem_expected_mask m) s3 of
        (None, s4) \<Rightarrow> (Inl HK_STATUS_OUT_OF_MEMORY, s4)
      | (Some k, s4) \<Rightarrow>
          (Inr (Target_Memory (m\<lparr>mem_base_image := b, mem_replacement_bytes := r,
                                 mem_expected_bytes := x, mem_expected_mask := k\<rparr>)), s4)))))"
| "hk_hook_copy_target Target_Swift s = (Inl HK_STATUS_UNAVAILABLE, s)"

section \<open>Plans and domains\<close>

definition hk_plan_create :: "hk_plan_config option \<Rightarrow> 's hk_sys_scheme \<Rightarrow>
    (hk_status + 'e hk_plan) \<times> 's hk_sys_scheme" where
  "hk_plan_create config s =
     (if (case config of None \<Rightarrow> False | Some c \<Rightarrow> pc_struct_size c < HK_PLAN_CONFIG_SIZE)
      then (Inl HK_STATUS_INVALID_ARGUMENT, s)
      else let (ok, s1) = sys_alloc s in
      if \<not> ok then (Inl HK_STATUS_OUT_OF_MEMORY, s1)
      else let (pid, s2) = hk_id_generate s1;
               label = Option.bind config pc_debug_label;
               (ok2, s3) = hk_strdup_checked label s2 in
      if \<not> ok2 then (Inl HK_STATUS_OUT_OF_MEMORY, s3)
      else (Inr \<lparr>p_id = pid, p_debug_label = label, p_state = HK_PLAN_DRAFT, p_domains = [],
                 p_domain_capacity = 0, p_hooks = [], p_hook_capacity = 0\<rparr>, s3))"

definition hk_plan_state_of :: "'e hk_plan option \<Rightarrow> hk_plan_state" where
  "hk_plan_state_of plan = (case plan of None \<Rightarrow> HK_PLAN_DISCARDED | Some p \<Rightarrow> p_state p)"

definition hk_plan_define_domain :: "'e hk_plan \<Rightarrow> hk_domain_spec \<Rightarrow> 'e hk_world \<Rightarrow>
    (hk_status + nat) \<times> 'e hk_plan \<times> 'e hk_world" where
  "hk_plan_define_domain plan spec w =
     (if p_state plan \<noteq> HK_PLAN_DRAFT then (Inl HK_STATUS_INVALID_STATE, plan, w)
      else if ds_struct_size spec < HK_DOMAIN_SPEC_SIZE then (Inl HK_STATUS_INVALID_ARGUMENT, plan, w)
      else if ds_stable_domain_id spec = None then (Inl HK_STATUS_INVALID_ARGUMENT, plan, w)
      else if list_ex (\<lambda>d. ds_stable_domain_id (d_spec d) = ds_stable_domain_id spec) (p_domains plan)
        then (Inl HK_STATUS_INVALID_ARGUMENT, plan, w)
      else let (ok, w1) = sys_alloc w in
      if \<not> ok then (Inl HK_STATUS_OUT_OF_MEMORY, plan, w1)
      else let (ok2, w2) = sys_alloc w1 in
      if \<not> ok2 then (Inl HK_STATUS_OUT_OF_MEMORY, plan, w2)
      else let (did, w3) = hk_id_generate w2 in
        (case grow_array 4 (length (p_domains plan)) (p_domain_capacity plan) w3 of
           (None, w4) \<Rightarrow> (Inl HK_STATUS_OUT_OF_MEMORY, plan, w4)
         | (Some capacity, w4) \<Rightarrow>
             let (ref, w5) = fresh_ref w4;
                 domain = \<lparr>d_ref = ref, d_id = did, d_spec = spec\<lparr>ds_struct_size := HK_DOMAIN_SPEC_SIZE\<rparr>\<rparr>
             in (Inr ref, plan\<lparr>p_domains := p_domains plan @ [domain], p_domain_capacity := capacity\<rparr>, w5)))"

section \<open>Adding a hook\<close>

text \<open>The references of \<open>commit_after\<close>; a NULL array with a count is refused before it is read.\<close>

definition commit_after_refs :: "hk_hook_spec \<Rightarrow> nat option list" where
  "commit_after_refs spec = (case hs_commit_after spec of
     None \<Rightarrow> [] | Some rs \<Rightarrow> take (hs_commit_after_count spec) rs)"

text \<open>The checks of \<open>hk_plan_add_hook_impl\<close> before the first allocation, in order.\<close>

definition add_hook_checks :: "'e hk_plan \<Rightarrow> hk_hook_spec \<Rightarrow> hk_status option" where
  "add_hook_checks plan spec =
     (if p_state plan \<noteq> HK_PLAN_DRAFT then Some HK_STATUS_INVALID_STATE
      else if hs_struct_size spec < HK_HOOK_SPEC_SIZE then Some HK_STATUS_INVALID_ARGUMENT
      else if hs_stable_hook_id spec = None then Some HK_STATUS_INVALID_ARGUMENT
      else if (case hs_target spec of Target_Memory m \<Rightarrow> bv_data (mem_expected_bytes m) = None | _ \<Rightarrow> False)
        then Some HK_STATUS_INVALID_ARGUMENT
      else if hs_original_requirement spec = HK_ORIGINAL_CALLABLE_CONTINUATION \<and>
        hs_continuation_policy spec = HK_CONTINUATION_FORBIDDEN then Some HK_STATUS_INVALID_ARGUMENT
      else if list_ex (\<lambda>h. hs_stable_hook_id (h_spec h) = hs_stable_hook_id spec) (p_hooks plan)
        then Some HK_STATUS_INVALID_ARGUMENT
      else if (case hs_domain spec of None \<Rightarrow> False
               | Some d \<Rightarrow> \<not> list_ex (\<lambda>dom. d_ref dom = d) (p_domains plan))
        then Some HK_STATUS_INVALID_ARGUMENT
      else if hs_commit_after_count spec > 0 \<and> hs_commit_after spec = None
        then Some HK_STATUS_INVALID_ARGUMENT
      else if list_ex (\<lambda>r. case r of None \<Rightarrow> True
               | Some ref \<Rightarrow> \<not> list_ex (\<lambda>h. h_ref h = ref) (p_hooks plan)) (commit_after_refs spec)
        then Some HK_STATUS_INVALID_ARGUMENT
      else None)"

definition hk_hooks_target_equal :: "'e hk_hook \<Rightarrow> 'e hk_hook \<Rightarrow> bool" where
  "hk_hooks_target_equal left right \<longleftrightarrow> h_target_key left = h_target_key right"

definition new_hook :: "nat \<Rightarrow> hk_id \<Rightarrow> hk_hook_spec \<Rightarrow> hk_target \<Rightarrow> byte list \<Rightarrow> 'e hk_hook" where
  "new_hook ref hid spec target key = \<lparr>
     h_ref = ref, h_id = hid,
     h_spec = spec\<lparr>hs_struct_size := HK_HOOK_SPEC_SIZE, hs_target := target,
       hs_commit_after := (if hs_commit_after_count spec > 0 then hs_commit_after spec else None)\<rparr>,
     h_target_key = key, h_matched = None, h_prepared_state = 0, h_prepared_continuation = None,
     h_installed = None,
     h_result = zero_result\<lparr>r_request_id := hid, r_outcome := HK_OUTCOME_UNANALYZED,
       r_mutation := HK_MUTATION_NONE\<rparr>\<rparr>"

definition hk_plan_add_hook :: "'e hk_plan \<Rightarrow> hk_hook_spec \<Rightarrow> 'e hk_world \<Rightarrow>
    (hk_status + nat) \<times> 'e hk_plan \<times> 'e hk_world" where
  "hk_plan_add_hook plan spec w =
     (case add_hook_checks plan spec of
        Some e \<Rightarrow> (Inl e, plan, w)
      | None \<Rightarrow>
      let (ok, w1) = sys_alloc w in
      if \<not> ok then (Inl HK_STATUS_OUT_OF_MEMORY, plan, w1)
      else let (ok2, w2) = hk_strdup_checked (hs_stable_hook_id spec) w1 in
      if \<not> ok2 then (Inl HK_STATUS_OUT_OF_MEMORY, plan, w2)
      else (case hk_hook_copy_target (hs_target spec) w2 of
        (Inl e, w3) \<Rightarrow> (Inl e, plan, w3)
      | (Inr target, w3) \<Rightarrow>
      (case hk_ownership_target_key_copy (w_pac_strip w3) target w3 of
        (None, w4) \<Rightarrow> (Inl HK_STATUS_OUT_OF_MEMORY, plan, w4)
      | (Some key, w4) \<Rightarrow>
      if list_ex (\<lambda>h. h_target_key h = key) (p_hooks plan)
      then (Inl HK_STATUS_INVALID_ARGUMENT, plan, w4)
      else let (ok5, w5) = (if hs_commit_after_count spec > 0 then sys_alloc w4 else (True, w4)) in
      if \<not> ok5 then (Inl HK_STATUS_OUT_OF_MEMORY, plan, w5)
      else let (hid, w6) = hk_id_generate w5 in
      (case grow_array 4 (length (p_hooks plan)) (p_hook_capacity plan) w6 of
        (None, w7) \<Rightarrow> (Inl HK_STATUS_OUT_OF_MEMORY, plan, w7)
      | (Some capacity, w7) \<Rightarrow>
          let (ref, w8) = fresh_ref w7 in
          (Inr ref, plan\<lparr>p_hooks := p_hooks plan @ [new_hook ref hid spec target key],
                         p_hook_capacity := capacity\<rparr>, w8)))))"

end
