(* ===== verification/HK_Plan_Wf.thy ===== *)
theory HK_Plan_Wf
  imports HK_Plan_Build HK_Target_Identity
begin

text \<open>
  What building a plan guarantees: deep copies name the same images and targets as the caller's
  structures, a refused call leaves the plan as it was, and the plan invariant \<open>plan_wf\<close>: unique
  stable ids, unique target keys, dependencies on earlier hooks only, domains of this plan only.
\<close>

section \<open>Deep copies are faithful\<close>

lemma strdup_frame [hk_frame]: "hk_strdup_checked v s = (ok, s') \<Longrightarrow> only_alloc s s'"
  by (auto simp: hk_strdup_checked_def split: option.splits dest: sys_alloc_frame)

lemma bytes_dup_frame [hk_frame]: "hk_bytes_dup_checked v s = (r, s') \<Longrightarrow> only_alloc s s'"
  by (auto simp: hk_bytes_dup_checked_def Let_def split: if_splits prod.splits dest: sys_alloc_frame)

text \<open>What a copy keeps: the children of an explicit set, and nothing behind the other kinds.\<close>

fun pruned :: "hk_image_selector \<Rightarrow> hk_image_selector" where
  "pruned (Image_Selector k p u h cs null) =
     (if k = HK_IMAGE_EXPLICIT_SET \<and> cs \<noteq> []
      then Image_Selector k p u h (map (map_option pruned) cs) False
      else Image_Selector k p u h [] True)"

lemma copy_owned_pruned:
  "hk_image_selector_copy_owned depth x s = (r, s') \<Longrightarrow> only_alloc s s' \<and>
     (\<forall>sel'. r = Inr sel' \<longrightarrow> (\<exists>sel. x = Some sel \<and> sel' = pruned sel))"
  "copy_owned_children depth xs s = (rs, s') \<Longrightarrow> only_alloc s s' \<and>
     (\<forall>cs'. rs = Inr cs' \<longrightarrow> cs' = map (map_option pruned) xs)"
proof (induction depth x s and depth xs s arbitrary: r s' and rs s'
    rule: hk_image_selector_copy_owned_copy_owned_children.induct)
  case (1 depth s)
  then show ?case by auto
next
  case (2 depth k p u h cs null s)
  obtain ok1 s1 where a1: "sys_alloc s = (ok1, s1)" by fastforce
  obtain ok2 s2 where a2: "hk_strdup_checked p s1 = (ok2, s2)" by fastforce
  obtain ok3 s3 where a3: "sys_alloc s2 = (ok3, s3)" by fastforce
  obtain ok4 s4 where a4: "sys_alloc s3 = (ok4, s4)" by fastforce
  note f = sys_alloc_frame [OF a1] strdup_frame [OF a2] sys_alloc_frame [OF a3] sys_alloc_frame [OF a4]
  have f2: "only_alloc s s2" and f4: "only_alloc s s4"
    using f by (meson only_alloc_trans)+
  show ?case
  proof (cases "depth \<le> HK_MAX_IMAGE_SELECTOR_DEPTH \<and> ok1 \<and> ok2 \<and> k = HK_IMAGE_EXPLICIT_SET \<and>
      \<not> (cs \<noteq> [] \<and> null) \<and> length cs \<le> SIZE_MAX div 8 \<and> cs \<noteq> [] \<and> ok3 \<and> ok4")
    case False
    then show ?thesis
      using 2(2) a1 a2 a3 a4 f(1) f2 f4 by (auto simp: Let_def split: if_splits)
  next
    case True
    obtain r1 s5 where c: "copy_owned_children (depth + 1) cs s4 = (r1, s5)" by fastforce
    have r: "s5 = s'" "r = (case r1 of Inl e \<Rightarrow> Inl e | Inr cs' \<Rightarrow> Inr (Image_Selector k p u h cs' False))"
      using 2(2) a1 a2 a3 a4 True c by (auto simp: Let_def split: sum.splits)
    have "only_alloc s4 s5 \<and> (\<forall>cs'. r1 = Inr cs' \<longrightarrow> cs' = map (map_option pruned) cs)"
      using a1 a2 a3 a4 True c by (intro 2(1)) auto
    with r f4 True show ?thesis by (auto split: sum.splits intro: only_alloc_trans)
  qed
next
  case (3 depth s)
  then show ?case by auto
next
  case (4 depth c cs s)
  obtain r1 s1 where c: "hk_image_selector_copy_owned depth c s = (r1, s1)" by fastforce
  note hd = 4(1) [OF c]
  show ?case
  proof (cases r1)
    case (Inl e)
    then show ?thesis using 4(3) c hd by auto
  next
    case (Inr c')
    obtain r2 s2 where cs: "copy_owned_children depth cs s1 = (r2, s2)" by fastforce
    have tl: "only_alloc s1 s2 \<and> (\<forall>cs'. r2 = Inr cs' \<longrightarrow> cs' = map (map_option pruned) cs)"
      using 4(2) [OF c [symmetric] Inr cs] by blast
    show ?thesis
      using 4(3) c cs Inr hd tl by (auto split: sum.splits intro: only_alloc_trans)
  qed
qed

lemma selector_copy_pruned:
  assumes "hk_image_selector_copy sel s = (r, s')"
  shows "only_alloc s s'" "r = Inr sel' \<Longrightarrow> sel' = pruned sel"
  using copy_owned_pruned(1) [OF assms [unfolded hk_image_selector_copy_def]] by auto

lemma sel_kind_pruned [simp]: "sel_kind (pruned sel) = sel_kind sel"
  by (cases sel) simp

lemma leaf_identity_pruned [simp]: "leaf_identity (pruned sel) = leaf_identity sel"
  by (cases sel) (simp add: leaf_identity_def split: hk_image_selector_kind.splits)

lemma leaves_pruned:
  "selector_leaves depth x = Some ls \<Longrightarrow>
     \<exists>ls'. selector_leaves depth (map_option pruned x) = Some ls' \<and> map leaf_identity ls' = map leaf_identity ls"
  "selector_leaves_list depth xs = Some ls \<Longrightarrow>
     \<exists>ls'. selector_leaves_list depth (map (map_option pruned) xs) = Some ls' \<and>
       map leaf_identity ls' = map leaf_identity ls"
proof (induction depth x and depth xs arbitrary: ls and ls rule: selector_leaves_selector_leaves_list.induct)
  case (2 depth k p u h cs null)
  show ?case
  proof (cases "k = HK_IMAGE_EXPLICIT_SET")
    case False
    then show ?thesis
      using leaf_identity_pruned [of "Image_Selector k p u h cs null"] 2(2)
      by (auto split: if_splits)
  next
    case k: True
    then show ?thesis
      using 2 by (cases "depth > HK_OWNERSHIP_MAX_IMAGE_SELECTOR_DEPTH"; cases "cs = []"; cases null) auto
  qed
next
  case (4 depth x xs)
  then obtain a b where ab: "selector_leaves depth x = Some a" "selector_leaves_list depth xs = Some b" "ls = a @ b"
    by (auto simp: bind_eq_Some_conv)
  then show ?case using 4(1) [OF ab(1)] 4(2) [OF ab(1) ab(2)] by auto
qed auto

lemma image_identity_pruned:
  assumes "image_identity sel = Some i"
  shows "image_identity (pruned sel) = Some i"
proof (cases "sel_kind sel = HK_IMAGE_EXPLICIT_SET")
  case True
  with assms obtain ls where ls: "selector_leaves 0 (Some sel) = Some ls" "i = Union_Image (leaf_identity ` set ls)"
    by (auto simp: image_identity_def)
  from leaves_pruned(1) [OF ls(1)] obtain ls' where
    ls': "selector_leaves 0 (Some (pruned sel)) = Some ls'" "map leaf_identity ls' = map leaf_identity ls"
    by auto
  have "leaf_identity ` set ls' = leaf_identity ` set ls" using ls'(2) by (metis list.set_map)
  with True ls ls' show ?thesis by (simp add: image_identity_def)
qed (use assms in \<open>simp add: image_identity_def\<close>)

lemma entry_matches_pruned: "entry_matches_selector e (pruned sel) = entry_matches_selector e sel"
proof (induction e sel rule: entry_matches_selector.induct)
  case (1 e k p u h cs null)
  have "k = HK_IMAGE_EXPLICIT_SET \<Longrightarrow>
      list_ex (\<lambda>c. case c of None \<Rightarrow> False | Some sub \<Rightarrow> entry_matches_selector e sub) (map (map_option pruned) cs) =
      list_ex (\<lambda>c. case c of None \<Rightarrow> False | Some sub \<Rightarrow> entry_matches_selector e sub) cs"
    using 1 by (auto simp: list_ex_iff split: option.splits)
  then show ?case by (cases k) auto
qed

lemma selector_ok_pruned: "selector_ok sel \<Longrightarrow> selector_ok (pruned sel)"
proof (induction sel rule: selector_ok.induct)
  case (1 k p u h cs null)
  then show ?case by (auto split: option.splits)
qed

definition copied_bytes :: "hk_bytes_view \<Rightarrow> hk_bytes_view" where
  "copied_bytes v = (if bv_data v = None \<or> bv_size v = 0 then \<lparr>bv_data = None, bv_size = 0\<rparr>
     else v\<lparr>bv_data := map_option (take (bv_size v)) (bv_data v)\<rparr>)"

fun copied_target :: "hk_target \<Rightarrow> hk_target" where
  "copied_target (Target_Symbol st) = Target_Symbol (st\<lparr>sym_defining_image := pruned (sym_defining_image st),
     sym_caller_image_scope := pruned (sym_caller_image_scope st)\<rparr>)"
| "copied_target (Target_Address a) = Target_Address (a\<lparr>addr_expected_image := pruned (addr_expected_image a),
     addr_expected_initial_bytes := copied_bytes (addr_expected_initial_bytes a)\<rparr>)"
| "copied_target (Target_Objc ob) = Target_Objc ob"
| "copied_target (Target_Memory m) = Target_Memory (m\<lparr>
     mem_base_image := (if mem_address_is_image_relative m then pruned (mem_base_image m) else zero_selector),
     mem_replacement_bytes := copied_bytes (mem_replacement_bytes m),
     mem_expected_bytes := copied_bytes (mem_expected_bytes m),
     mem_expected_mask := copied_bytes (mem_expected_mask m)\<rparr>)"
| "copied_target Target_Swift = Target_Swift"

lemma bytes_dup_copied: "hk_bytes_dup_checked v s = (Some b, s') \<Longrightarrow> b = copied_bytes v"
  by (auto simp: hk_bytes_dup_checked_def copied_bytes_def Let_def split: if_splits prod.splits)

lemma hook_copy_target_copied:
  assumes "hk_hook_copy_target t s = (r, s')"
  shows "only_alloc s s' \<and> (\<forall>t'. r = Inr t' \<longrightarrow> t' = copied_target t)"
proof (cases t)
  case (Target_Symbol st)
  obtain ok s1 where a: "hk_strdup_checked (sym_name st) s = (ok, s1)" by fastforce
  obtain r1 s2 where b: "hk_image_selector_copy (sym_defining_image st) s1 = (r1, s2)" by fastforce
  obtain r2 s3 where c: "hk_image_selector_copy (sym_caller_image_scope st) s2 = (r2, s3)" by fastforce
  note f = strdup_frame [OF a] selector_copy_pruned [OF b] selector_copy_pruned [OF c]
  have "only_alloc s s2" "only_alloc s s3" using f by (meson only_alloc_trans)+
  then show ?thesis using assms Target_Symbol a b c f by (auto split: if_splits sum.splits)
next
  case (Target_Address ad)
  obtain r1 s1 where a: "hk_image_selector_copy (addr_expected_image ad) s = (r1, s1)" by fastforce
  obtain r2 s2 where b: "hk_bytes_dup_checked (addr_expected_initial_bytes ad) s1 = (r2, s2)" by fastforce
  note f = selector_copy_pruned [OF a] bytes_dup_frame [OF b]
  have "only_alloc s s2" using f by (meson only_alloc_trans)
  then show ?thesis
    using assms Target_Address a b f by (auto split: sum.splits option.splits dest: bytes_dup_copied)
next
  case (Target_Objc ob)
  obtain ok s1 where a: "hk_strdup_checked (objc_class_name ob) s = (ok, s1)" by fastforce
  obtain ok2 s2 where b: "hk_strdup_checked (objc_selector_name ob) s1 = (ok2, s2)" by fastforce
  note f = strdup_frame [OF a] strdup_frame [OF b]
  have "only_alloc s s2" using f by (meson only_alloc_trans)
  then show ?thesis using assms Target_Objc a b f by (auto split: if_splits)
next
  case (Target_Memory m)
  obtain r1 s1 where a: "(if mem_address_is_image_relative m then hk_image_selector_copy (mem_base_image m) s
      else (Inr zero_selector, s)) = (r1, s1)" by fastforce
  obtain r2 s2 where b: "hk_bytes_dup_checked (mem_replacement_bytes m) s1 = (r2, s2)" by fastforce
  obtain r3 s3 where c: "hk_bytes_dup_checked (mem_expected_bytes m) s2 = (r3, s3)" by fastforce
  obtain r4 s4 where d: "hk_bytes_dup_checked (mem_expected_mask m) s3 = (r4, s4)" by fastforce
  have f1: "only_alloc s s1 \<and> (\<forall>v. r1 = Inr v \<longrightarrow>
      v = (if mem_address_is_image_relative m then pruned (mem_base_image m) else zero_selector))"
    using a selector_copy_pruned by (auto split: if_splits)
  have f: "only_alloc s s2" "only_alloc s s3" "only_alloc s s4"
    using f1 bytes_dup_frame [OF b] bytes_dup_frame [OF c] bytes_dup_frame [OF d]
    by (meson only_alloc_trans)+
  have v: "\<And>x. r2 = Some x \<Longrightarrow> x = copied_bytes (mem_replacement_bytes m)"
    "\<And>x. r3 = Some x \<Longrightarrow> x = copied_bytes (mem_expected_bytes m)"
    "\<And>x. r4 = Some x \<Longrightarrow> x = copied_bytes (mem_expected_mask m)"
    using b c d bytes_dup_copied by blast+
  have run: "hk_hook_copy_target t s = (case r1 of Inl e \<Rightarrow> (Inl e, s1) | Inr b \<Rightarrow>
      (case r2 of None \<Rightarrow> (Inl HK_STATUS_OUT_OF_MEMORY, s2) | Some rb \<Rightarrow>
      (case r3 of None \<Rightarrow> (Inl HK_STATUS_OUT_OF_MEMORY, s3) | Some x \<Rightarrow>
      (case r4 of None \<Rightarrow> (Inl HK_STATUS_OUT_OF_MEMORY, s4) | Some k \<Rightarrow>
        (Inr (Target_Memory (m\<lparr>mem_base_image := b, mem_replacement_bytes := rb,
                                 mem_expected_bytes := x, mem_expected_mask := k\<rparr>)), s4)))))"
    by (simp only: Target_Memory hk_hook_copy_target.simps a b c d prod.case split: sum.splits option.splits)
  show ?thesis
    using assms [unfolded run] f1 f v unfolding Target_Memory copied_target.simps
    by (cases r1; cases r2; cases r3; cases r4) auto
next
  case Target_Swift
  then show ?thesis using assms by auto
qed

lemma target_identity_copied:
  assumes "target_identity strip t = Some i"
  shows "target_identity strip (copied_target t) = Some i"
  using assms
  by (cases t) (auto simp: target_identity_def bind_eq_Some_conv image_identity_pruned)

lemma target_ok_copied: "target_ok t \<Longrightarrow> target_ok (copied_target t)"
  by (cases t) (auto simp: selector_ok_pruned zero_selector_def string_ok_def)

section \<open>The plan invariant\<close>

definition plan_wf :: "'e hk_world \<Rightarrow> 'e hk_plan \<Rightarrow> bool" where
  "plan_wf w plan \<longleftrightarrow>
     (\<forall>h \<in> set (p_hooks plan). h_ref h < w_next_ref w \<and> hs_stable_hook_id (h_spec h) \<noteq> None \<and>
        (\<forall>d. hs_domain (h_spec h) = Some d \<longrightarrow> d \<in> d_ref ` set (p_domains plan))) \<and>
     (\<forall>d \<in> set (p_domains plan). d_ref d < w_next_ref w \<and> ds_stable_domain_id (d_spec d) \<noteq> None) \<and>
     distinct (map h_ref (p_hooks plan)) \<and>
     distinct (map (\<lambda>h. hs_stable_hook_id (h_spec h)) (p_hooks plan)) \<and>
     distinct (map h_target_key (p_hooks plan)) \<and>
     distinct (map d_ref (p_domains plan)) \<and>
     distinct (map (\<lambda>d. ds_stable_domain_id (d_spec d)) (p_domains plan)) \<and>
     (\<forall>i < length (p_hooks plan). set (commit_after_refs (h_spec (p_hooks plan ! i))) \<subseteq>
        Some ` h_ref ` set (take i (p_hooks plan)))"

lemma plan_create_wf:
  assumes "hk_plan_create config w = (Inr plan, w')"
  shows "plan_wf w' plan" "p_state plan = HK_PLAN_DRAFT" "p_hooks plan = []" "p_domains plan = []"
  using assms
  by (auto simp: hk_plan_create_def plan_wf_def Let_def split: if_splits prod.splits option.splits)

text \<open>Every way a call to \<open>hk_plan_add_hook\<close> can end.\<close>

lemma add_hook_cases:
  fixes plan :: "'e hk_plan" and w :: "'e hk_world"
  assumes tok: "target_ok (hs_target spec)" and assms: "hk_plan_add_hook plan spec w = (r, plan', w')"
  obtains (refused) e where "r = Inl e" "plan' = plan" "hk_sys.more w' = hk_sys.more w"
      "\<And>e'. add_hook_checks plan spec = Some e' \<Longrightarrow> e = e' \<and> w' = w"
  | (added) hid key capacity and w1 w2 :: "'e hk_world" where "add_hook_checks plan spec = None"
      "r = Inr (w_next_ref w)"
      "plan' = plan\<lparr>p_hooks := p_hooks plan @
         [new_hook (w_next_ref w) hid spec (copied_target (hs_target spec)) key], p_hook_capacity := capacity\<rparr>"
      "key \<notin> h_target_key ` set (p_hooks plan)" "w_next_ref w' = w_next_ref w + 1"
      "hk_ownership_target_key_copy (w_pac_strip w) (copied_target (hs_target spec)) w1 = (Some key, w2)"
proof (cases "add_hook_checks plan spec")
  case (Some e)
  then show ?thesis using assms by (intro refused [of e]) (auto simp: hk_plan_add_hook_def)
next
  case checks: None
  have no: thesis if "\<exists>e. r = Inl e \<and> plan' = plan \<and> hk_sys.more w' = hk_sys.more w"
    using that checks refused by fastforce
  obtain ok1 w1 where a1: "sys_alloc w = (ok1, w1)" by fastforce
  obtain ok2 w2 where a2: "hk_strdup_checked (hs_stable_hook_id spec) w1 = (ok2, w2)" by fastforce
  obtain t w3 where a3: "hk_hook_copy_target (hs_target spec) w2 = (t, w3)" by fastforce
  note f = only_allocD(4) [OF sys_alloc_frame [OF a1]] only_allocD(4) [OF strdup_frame [OF a2]]
    only_allocD(4) [OF hook_copy_target_copied [OF a3, THEN conjunct1]]
  show ?thesis
  proof (cases "ok1 \<and> ok2 \<and> (\<exists>t'. t = Inr t')")
    case False
    show ?thesis
      apply (rule no)
      using False assms checks a1 a2 a3 f
      by (auto simp: hk_plan_add_hook_def Let_def split: if_splits sum.splits)
  next
    case True
    then have t: "t = Inr (copied_target (hs_target spec))"
      using hook_copy_target_copied [OF a3] by auto
    obtain k w4 where a4: "hk_ownership_target_key_copy (w_pac_strip w3) (copied_target (hs_target spec)) w3 = (k, w4)"
      by fastforce
    have f4: "hk_sys.more w4 = hk_sys.more w3" using key_copy_writes(1) [OF target_ok_copied [OF tok] a4] by (rule only_allocD(4))
    show ?thesis
    proof (cases "\<exists>key. k = Some key \<and> \<not> list_ex (\<lambda>h. h_target_key h = key) (p_hooks plan)")
      case False
      show ?thesis
        apply (rule no)
        using False assms checks a1 a2 a3 a4 f f4 t True
        by (auto simp: hk_plan_add_hook_def Let_def split: if_splits option.splits)
    next
      case True2: True
      then obtain key where k: "k = Some key" "\<not> list_ex (\<lambda>h. h_target_key h = key) (p_hooks plan)" by auto
      obtain ok5 w5 where a5: "(if hs_commit_after_count spec > 0 then sys_alloc w4 else (True, w4)) = (ok5, w5)"
        by fastforce
      have f5: "hk_sys.more w5 = hk_sys.more w4"
        using a5 by (auto split: if_splits dest!: sys_alloc_frame only_allocD(4))
      obtain hid w6 where a6: "hk_id_generate w5 = (hid, w6)" by fastforce
      obtain cap w7 where a7: "grow_array 4 (length (p_hooks plan)) (p_hook_capacity plan) w6 = (cap, w7)" by fastforce
      note f67 = hk_id_generate_frame(2) [OF a6] only_allocD(4) [OF grow_array_frame [OF a7]]
      note n = world_more(5,6) [OF trans [OF f(3) trans [OF f(2) f(1)]]]
      have n7: "w_next_ref w7 = w_next_ref w"
        by (rule world_more(6)) (simp add: f f4 f5 f67)
      show ?thesis
      proof (cases "ok5 \<and> cap \<noteq> None")
        case False
        show ?thesis
          apply (rule no)
          using False assms checks a1 a2 a3 a4 a5 a6 a7 f f4 f5 f67 t True k
          by (auto simp: hk_plan_add_hook_def Let_def split: if_splits option.splits)
      next
        case True3: True
        then obtain capacity where cap: "cap = Some capacity" by auto
        have e: "r = Inr (w_next_ref w) \<and> plan' = plan\<lparr>p_hooks := p_hooks plan @
           [new_hook (w_next_ref w) hid spec (copied_target (hs_target spec)) key], p_hook_capacity := capacity\<rparr> \<and>
           w_next_ref w' = w_next_ref w + 1"
          using assms checks a1 a2 a3 a4 a5 a6 a7 t True k True3 cap n7
          by (simp add: hk_plan_add_hook_def Let_def fresh_ref_def) auto
        have key: "key \<notin> h_target_key ` set (p_hooks plan)" using k(2) by (auto simp: list_ex_iff)
        show ?thesis
          using a4 k(1) n(1) by (intro added [OF checks _ _ key, of capacity hid w3 w4]) (simp_all add: e)
      qed
    qed
  qed
qed

lemma take_append_sub: "set (take i xs) \<subseteq> set (take i (xs @ ys))"
  by auto

lemma commit_after_new_hook: "commit_after_refs (h_spec (new_hook ref hid spec t k)) = commit_after_refs spec"
  by (cases "hs_commit_after spec"; cases "hs_commit_after_count spec = 0")
    (simp_all add: new_hook_def commit_after_refs_def)

lemma add_hook_checks_None:
  assumes "add_hook_checks plan spec = None"
  shows "p_state plan = HK_PLAN_DRAFT" "hs_stable_hook_id spec \<noteq> None"
    "hs_stable_hook_id spec \<notin> (\<lambda>h. hs_stable_hook_id (h_spec h)) ` set (p_hooks plan)"
    "\<And>d. hs_domain spec = Some d \<Longrightarrow> d \<in> d_ref ` set (p_domains plan)"
    "set (commit_after_refs spec) \<subseteq> Some ` h_ref ` set (p_hooks plan)"
proof -
  note a = assms [unfolded add_hook_checks_def]
  show "p_state plan = HK_PLAN_DRAFT" "hs_stable_hook_id spec \<noteq> None"
    "hs_stable_hook_id spec \<notin> (\<lambda>h. hs_stable_hook_id (h_spec h)) ` set (p_hooks plan)"
    using a by (auto simp: list_ex_iff split: if_splits)
  show "d \<in> d_ref ` set (p_domains plan)" if "hs_domain spec = Some d" for d
    using a that by (auto simp: list_ex_iff split: if_splits)
  have "\<not> list_ex (\<lambda>r. case r of None \<Rightarrow> True
      | Some ref \<Rightarrow> \<not> list_ex (\<lambda>h. h_ref h = ref) (p_hooks plan)) (commit_after_refs spec)"
    using a by (simp split: if_splits)
  then have e: "\<exists>h \<in> set (p_hooks plan). r = Some (h_ref h)" if "r \<in> set (commit_after_refs spec)" for r
    using that by (cases r) (fastforce simp: list_ex_iff)+
  show "set (commit_after_refs spec) \<subseteq> Some ` h_ref ` set (p_hooks plan)"
    by (rule subsetI, drule e) auto
qed

lemma plan_wf_more:
  assumes "hk_sys.more w' = hk_sys.more w" "plan_wf w plan"
  shows "plan_wf w' plan"
  using assms(2) unfolding plan_wf_def world_more(6) [OF assms(1)] .

lemma add_hook_wf:
  fixes plan :: "'e hk_plan" and w :: "'e hk_world"
  assumes wf: "plan_wf w plan" and tok: "target_ok (hs_target spec)"
    and run: "hk_plan_add_hook plan spec w = (r, plan', w')"
  shows "plan_wf w' plan'"
  using tok run
proof (cases rule: add_hook_cases)
  case (refused e)
  then show ?thesis using wf plan_wf_more by metis
next
  case (added hid key capacity w1 w2)
  let ?h = "new_hook (w_next_ref w) hid spec (copied_target (hs_target spec)) key"
  note c = add_hook_checks_None [OF added(1)]
  have h: "h_ref ?h = w_next_ref w" "hs_stable_hook_id (h_spec ?h) = hs_stable_hook_id spec"
    "hs_domain (h_spec ?h) = hs_domain spec" "h_target_key ?h = key"
    by (simp_all add: new_hook_def)
  have p: "p_hooks plan' = p_hooks plan @ [?h]" "p_domains plan' = p_domains plan" using added(3) by auto
  have d: "set (commit_after_refs (h_spec (p_hooks plan' ! i))) \<subseteq> Some ` h_ref ` set (take i (p_hooks plan'))"
    if "i < length (p_hooks plan')" for i
  proof (cases "i < length (p_hooks plan)")
    case True
    then show ?thesis using wf unfolding plan_wf_def p by (auto simp: nth_append)
  next
    case False
    with that have "i = length (p_hooks plan)" by (simp add: p)
    then show ?thesis using c(5) by (simp add: p commit_after_new_hook)
  qed
  show ?thesis
    unfolding plan_wf_def
  proof (intro conjI)
    show "\<forall>i < length (p_hooks plan'). set (commit_after_refs (h_spec (p_hooks plan' ! i))) \<subseteq>
        Some ` h_ref ` set (take i (p_hooks plan'))"
      using d by blast
    show "\<forall>h \<in> set (p_hooks plan'). h_ref h < w_next_ref w' \<and> hs_stable_hook_id (h_spec h) \<noteq> None \<and>
        (\<forall>d. hs_domain (h_spec h) = Some d \<longrightarrow> d \<in> d_ref ` set (p_domains plan'))"
      using wf c(2,4) unfolding plan_wf_def p by (auto simp: h added(5) less_Suc_eq)
    show "\<forall>d \<in> set (p_domains plan'). d_ref d < w_next_ref w' \<and> ds_stable_domain_id (d_spec d) \<noteq> None"
      using wf unfolding plan_wf_def p by (auto simp: added(5) less_Suc_eq)
    show "distinct (map h_ref (p_hooks plan'))"
      using wf unfolding plan_wf_def p by (auto simp: h)
    show "distinct (map (\<lambda>h. hs_stable_hook_id (h_spec h)) (p_hooks plan'))"
      using wf c(3) unfolding plan_wf_def p by (auto simp: h)
    show "distinct (map h_target_key (p_hooks plan'))"
      using wf added(4) unfolding plan_wf_def p by (auto simp: h)
    show "distinct (map d_ref (p_domains plan'))"
      "distinct (map (\<lambda>d. ds_stable_domain_id (d_spec d)) (p_domains plan'))"
      using wf unfolding plan_wf_def p by auto
  qed
qed

lemma define_domain_cases:
  fixes plan :: "'e hk_plan" and w :: "'e hk_world"
  assumes "hk_plan_define_domain plan spec w = (r, plan', w')"
  obtains (refused) e where "r = Inl e" "plan' = plan" "hk_sys.more w' = hk_sys.more w"
  | (added) did capacity where "r = Inr (w_next_ref w)" "p_state plan = HK_PLAN_DRAFT"
      "ds_stable_domain_id spec \<noteq> None"
      "ds_stable_domain_id spec \<notin> (\<lambda>d. ds_stable_domain_id (d_spec d)) ` set (p_domains plan)"
      "plan' = plan\<lparr>p_domains := p_domains plan @ [\<lparr>d_ref = w_next_ref w, d_id = did,
         d_spec = spec\<lparr>ds_struct_size := HK_DOMAIN_SPEC_SIZE\<rparr>\<rparr>], p_domain_capacity := capacity\<rparr>"
      "w_next_ref w' = w_next_ref w + 1"
proof -
  obtain ok1 w1 where a1: "sys_alloc w = (ok1, w1)" by fastforce
  obtain ok2 w2 where a2: "sys_alloc w1 = (ok2, w2)" by fastforce
  obtain did w3 where a3: "hk_id_generate w2 = (did, w3)" by fastforce
  obtain cap w4 where a4: "grow_array 4 (length (p_domains plan)) (p_domain_capacity plan) w3 = (cap, w4)" by fastforce
  note f = only_allocD(4) [OF sys_alloc_frame [OF a1]] only_allocD(4) [OF sys_alloc_frame [OF a2]]
    hk_id_generate_frame(2) [OF a3] only_allocD(4) [OF grow_array_frame [OF a4]]
  have n: "w_next_ref w4 = w_next_ref w" by (rule world_more(6)) (simp add: f)
  show thesis
  proof (cases "\<exists>e. r = Inl e")
    case True
    then show ?thesis
      using assms a1 a2 a3 a4 f refused
      by (auto simp: hk_plan_define_domain_def Let_def split: if_splits option.splits prod.splits)
  next
    case False
    then obtain capacity where "cap = Some capacity \<and> r = Inr (w_next_ref w) \<and> p_state plan = HK_PLAN_DRAFT \<and>
      ds_stable_domain_id spec \<noteq> None \<and>
      \<not> list_ex (\<lambda>d. ds_stable_domain_id (d_spec d) = ds_stable_domain_id spec) (p_domains plan) \<and>
      plan' = plan\<lparr>p_domains := p_domains plan @ [\<lparr>d_ref = w_next_ref w, d_id = did,
         d_spec = spec\<lparr>ds_struct_size := HK_DOMAIN_SPEC_SIZE\<rparr>\<rparr>], p_domain_capacity := capacity\<rparr> \<and>
      w_next_ref w' = w_next_ref w + 1"
      using assms a1 a2 a3 a4 n
      by (auto simp: hk_plan_define_domain_def Let_def fresh_ref_def split: if_splits option.splits prod.splits)
    then show ?thesis by (intro added [of capacity did]) (auto simp: list_ex_iff)
  qed
qed

lemma define_domain_wf:
  fixes plan :: "'e hk_plan" and w :: "'e hk_world"
  assumes wf: "plan_wf w plan" and run: "hk_plan_define_domain plan spec w = (r, plan', w')"
  shows "plan_wf w' plan'"
  using run
proof (cases rule: define_domain_cases)
  case (refused e)
  then show ?thesis using wf plan_wf_more by metis
next
  case (added did capacity)
  then have "p_hooks plan' = p_hooks plan" "w_next_ref w \<le> w_next_ref w'" by auto
  with added wf show ?thesis
    unfolding plan_wf_def by (auto simp: less_Suc_eq)
qed

section \<open>Properties\<close>

text \<open>The selectors of a target that its kind and addressing mode make meaningful.\<close>

fun live_selectors :: "hk_target \<Rightarrow> hk_image_selector list" where
  "live_selectors (Target_Symbol st) = [sym_defining_image st, sym_caller_image_scope st]"
| "live_selectors (Target_Address a) = [addr_expected_image a]"
| "live_selectors (Target_Memory m) = (if mem_address_is_image_relative m then [mem_base_image m] else [])"
| "live_selectors _ = []"

text \<open>The deep copy of a target names the same target and its image selectors match the same images
  as the caller's structure, at every nesting depth of explicit sets; copying touches nothing but
  the allocator.\<close>

lemma hook_copy_target_faithful:
  assumes "hk_hook_copy_target t s = (Inr t', s')"
  shows "only_alloc s s' \<and>
    (target_identity strip t = Some i \<longrightarrow> target_identity strip t' = Some i) \<and>
    map (entry_matches_selector e) (live_selectors t') = map (entry_matches_selector e) (live_selectors t)"
proof (intro conjI impI)
  note c = hook_copy_target_copied [OF assms]
  show "only_alloc s s'" using c by blast
  have t': "t' = copied_target t" using c by blast
  show "target_identity strip t' = Some i" if "target_identity strip t = Some i"
    unfolding t' by (rule target_identity_copied [OF that])
  show "map (entry_matches_selector e) (live_selectors t') = map (entry_matches_selector e) (live_selectors t)"
    unfolding t' by (cases t) (auto simp: entry_matches_pruned)
qed

text \<open>C20. Adding a hook keeps the plan invariant. A refused call leaves the plan as it was, and returns the
  status of the first failed check when a check failed; a call that succeeds was made on a draft
  plan and appends exactly one hook: unanalyzed, without mutation, with the identity it returns, a
  stable id and a target key no other hook of the plan has.\<close>

theorem add_hook_spec:
  fixes plan :: "'e hk_plan" and w :: "'e hk_world"
  assumes wf: "plan_wf w plan" and tok: "target_ok (hs_target spec)"
    and run: "hk_plan_add_hook plan spec w = (r, plan', w')"
  shows "plan_wf w' plan' \<and> (case r of
      Inl e \<Rightarrow> plan' = plan \<and> (\<forall>e'. add_hook_checks plan spec = Some e' \<longrightarrow> e = e' \<and> w' = w)
    | Inr ref \<Rightarrow> p_state plan = HK_PLAN_DRAFT \<and> (\<exists>h. p_hooks plan' = p_hooks plan @ [h] \<and> h_ref h = ref \<and>
        r_outcome (h_result h) = HK_OUTCOME_UNANALYZED \<and> r_mutation (h_result h) = HK_MUTATION_NONE \<and>
        Some (h_target_key h) = target_key (w_pac_strip w) (hs_target (h_spec h)) \<and>
        (\<forall>g \<in> set (p_hooks plan). \<not> hk_hooks_target_equal g h \<and>
           hs_stable_hook_id (h_spec g) \<noteq> hs_stable_hook_id spec)))"
proof (intro conjI)
  show "plan_wf w' plan'" by (rule add_hook_wf [OF wf tok run])
  show "case r of
      Inl e \<Rightarrow> plan' = plan \<and> (\<forall>e'. add_hook_checks plan spec = Some e' \<longrightarrow> e = e' \<and> w' = w)
    | Inr ref \<Rightarrow> p_state plan = HK_PLAN_DRAFT \<and> (\<exists>h. p_hooks plan' = p_hooks plan @ [h] \<and> h_ref h = ref \<and>
        r_outcome (h_result h) = HK_OUTCOME_UNANALYZED \<and> r_mutation (h_result h) = HK_MUTATION_NONE \<and>
        Some (h_target_key h) = target_key (w_pac_strip w) (hs_target (h_spec h)) \<and>
        (\<forall>g \<in> set (p_hooks plan). \<not> hk_hooks_target_equal g h \<and>
           hs_stable_hook_id (h_spec g) \<noteq> hs_stable_hook_id spec))"
    using tok run
  proof (cases rule: add_hook_cases)
    case (refused e)
    then show ?thesis by auto
  next
    case (added hid key capacity w1 w2)
    have k: "Some key = target_key (w_pac_strip w) (copied_target (hs_target spec))"
      using key_copy_writes(2) [OF target_ok_copied [OF tok] added(6)] by simp
    have st: "\<forall>g \<in> set (p_hooks plan). hs_stable_hook_id (h_spec g) \<noteq> hs_stable_hook_id spec"
      using add_hook_checks_None(3) [OF added(1)] by force
    show ?thesis
      using added(2,3,4) add_hook_checks_None(1) [OF added(1)] k st
      by (auto simp: new_hook_def hk_hooks_target_equal_def)
  qed
qed

text \<open>Defining a domain keeps the plan invariant; a refused call leaves the plan as it was, and one
  that succeeds was made on a draft plan and appends exactly one domain, under a stable id no other
  domain of the plan has, leaving the hooks alone.\<close>

lemma define_domain_spec:
  fixes plan :: "'e hk_plan" and w :: "'e hk_world"
  assumes wf: "plan_wf w plan" and run: "hk_plan_define_domain plan spec w = (r, plan', w')"
  shows "plan_wf w' plan' \<and> p_hooks plan' = p_hooks plan \<and> (case r of
      Inl e \<Rightarrow> plan' = plan
    | Inr ref \<Rightarrow> p_state plan = HK_PLAN_DRAFT \<and> (\<exists>d. p_domains plan' = p_domains plan @ [d] \<and> d_ref d = ref \<and>
        ds_stable_domain_id (d_spec d) = ds_stable_domain_id spec))"
  using define_domain_wf [OF wf run] run
  by (cases rule: define_domain_cases [OF run]) auto

section \<open>A concrete plan\<close>

definition sample_sys :: hk_sys where
  "sample_sys = \<lparr>sys_heap = [], sys_nonce = Some 9, sys_counter = 0, sys_entropy = (0, 0, 0, 0)\<rparr>"

definition sample_world :: "'e \<Rightarrow> 'e hk_world" where
  "sample_world env = \<lparr>sys_heap = [], sys_nonce = Some 9, sys_counter = 0, sys_entropy = (0, 0, 0, 0),
     w_env = env, w_owners = [], w_installed = [], w_process_ledger = None, w_pac_strip = id,
     w_next_ref = 0\<rparr>"

definition sample_plan :: "'e hk_plan" where
  "sample_plan = \<lparr>p_id = \<lparr>id_high = 9, id_low = 1\<rparr>, p_debug_label = None, p_state = HK_PLAN_DRAFT,
     p_domains = [], p_domain_capacity = 0, p_hooks = [], p_hook_capacity = 0\<rparr>"

definition sample_domain_spec :: hk_domain_spec where
  "sample_domain_spec = \<lparr>ds_struct_size = 32, ds_stable_domain_id = Some ''ui'', ds_domain_order = 0,
     ds_require_all_mandatory_prepared = True, ds_prefer_reversible_before_irreversible = False,
     ds_compensation_policy = HK_COMPENSATION_NONE\<rparr>"

definition sample_spec :: "string \<Rightarrow> hk_target \<Rightarrow> hk_hook_spec" where
  "sample_spec name t = \<lparr>hs_struct_size = 264, hs_stable_hook_id = Some name, hs_target = t,
     hs_replacement = 4096, hs_required_reach = 0, hs_preferred_reach = 0,
     hs_original_requirement = HK_ORIGINAL_NONE, hs_continuation_policy = HK_CONTINUATION_ANY,
     hs_constraints = 0, hs_availability = HK_AVAILABILITY_REQUIRED_NOW, hs_role = HK_OPERATION_OPTIONAL,
     hs_domain = None, hs_commit_order = 0, hs_commit_after = None, hs_commit_after_count = 0\<rparr>"

lemma sample_plan_wf: "plan_wf w sample_plan"
  by (simp add: plan_wf_def sample_plan_def)

definition sample_address_target :: "ptr \<Rightarrow> hk_target" where
  "sample_address_target p = Target_Address \<lparr>addr_address = p, addr_expected_image = zero_selector,
     addr_expected_uuid_present = False, addr_expected_uuid = replicate 16 0,
     addr_expected_initial_bytes = \<lparr>bv_data = None, bv_size = 0\<rparr>,
     addr_may_strip_pac_or_thumb_state = False\<rparr>"

lemma address_key_copy:
  "sys_heap s = [] \<Longrightarrow> hk_ownership_target_key_copy strip (sample_address_target p) s =
     (Some (le_bytes 4 (1 :: u32) @ le_bytes 8 p), s)"
  by (simp add: hk_ownership_target_key_copy_def key_target_def sample_address_target_def
      key_u32_def key_u64_def key_append_def empty_builder_def sys_alloc_def SIZE_MAX_def
      grow_capacity.simps)

lemma address_target_copy:
  "sys_heap s = [] \<Longrightarrow> hk_hook_copy_target (sample_address_target p) s = (Inr (sample_address_target p), s)"
  by (simp add: sample_address_target_def hk_image_selector_copy_def zero_selector_def
      hk_bytes_dup_checked_def hk_strdup_checked_def sys_alloc_def)

lemma sample_target_ok: "target_ok (hs_target (sample_spec n (sample_address_target p)))"
  by (simp add: sample_spec_def sample_address_target_def)

lemma add_hook_sample:
  "fst (hk_plan_add_hook sample_plan (sample_spec ''a'' (sample_address_target p)) (sample_world ())) = Inr 0"
proof -
  have "(case sample_address_target p of Target_Memory m \<Rightarrow> bv_data (mem_expected_bytes m) = None | _ \<Rightarrow> False) = False"
    by (simp add: sample_address_target_def)
  then show ?thesis
    by (simp add: hk_plan_add_hook_def add_hook_checks_def sample_plan_def sample_spec_def sample_world_def
        commit_after_refs_def HK_HOOK_SPEC_SIZE_def sys_alloc_def address_target_copy address_key_copy
        hk_strdup_checked_def hk_id_generate_def hk_init_nonce_def grow_array_def fresh_ref_def)
qed

theorem add_hook_spec_witness:
  "case hk_plan_add_hook sample_plan (sample_spec ''a'' (sample_address_target 64)) (sample_world ()) of
     (r, plan, w) \<Rightarrow> r = Inr 0 \<and> plan_wf w plan \<and> map h_ref (p_hooks plan) = [0]"
proof -
  obtain r plan w where run:
    "hk_plan_add_hook sample_plan (sample_spec ''a'' (sample_address_target 64)) (sample_world ()) = (r, plan, w)"
    by (metis surj_pair)
  have r: "r = Inr 0" using add_hook_sample [of 64] unfolding run by simp
  have p: "p_hooks sample_plan = []" by (simp add: sample_plan_def)
  show ?thesis
    using add_hook_spec [OF sample_plan_wf sample_target_ok run] unfolding run r p by auto
qed

text \<open>A memory target relative to a set of images, copied and still matching the same images.\<close>

end
