(* ===== verification/HK_Analyze.thy ===== *)
theory HK_Analyze
  imports HK_Plan_Wf
begin

text \<open>
  Analysis of a draft plan (\<open>src/core/HKPlan.c\<close>, \<open>hk_hook_analyze_one\<close> and \<open>hk_plan_analyze\<close>): for
  every hook the runtime's engines are considered in registration order and the best admissible
  one is remembered. The search loop is \<open>consider_engine\<close> (one round, \<open>None\<close> for a \<open>continue\<close>) under
  \<open>choose_route\<close>.
\<close>

definition hk_bit_count64 :: "u64 \<Rightarrow> nat" where
  "hk_bit_count64 v = length (filter (bit v) [0..<64])"

definition hk_engine_effective_reach :: "'e hk_runtime \<Rightarrow> 'e hk_hook \<Rightarrow> hk_engine_capabilities \<Rightarrow> hk_reachability" where
  "hk_engine_effective_reach rt hook caps =
     (let reach = cap_achievable_reach caps; target = hs_target (h_spec hook); kind = target_kind target in
      if reach AND HK_REACH_EXACT_IMAGE_SCOPE = 0 then reach
      else let
        supported = (cap_exact_image_scope_targets caps AND HK_TARGET_KIND_BIT kind \<noteq> 0);
        supported = (if hk_image_catalog_count (rt_catalog rt) = 0 then False else supported);
        supported = (if (case target of Target_Memory m \<Rightarrow> \<not> mem_address_is_image_relative m | _ \<Rightarrow> False)
                     then False else supported);
        supported = (if kind \<noteq> HK_TARGET_FUNCTION_ADDRESS \<and> kind \<noteq> HK_TARGET_MEMORY_PATCH \<and>
                        \<not> (kind = HK_TARGET_FUNCTION_SYMBOL \<and>
                           cap_exact_image_scope_targets caps AND HK_TARGET_KIND_BIT HK_TARGET_FUNCTION_SYMBOL \<noteq> 0)
                     then False else supported)
      in if \<not> supported then reach AND NOT HK_REACH_EXACT_IMAGE_SCOPE else reach)"

definition hk_engine_honors_symbol_defining_scope :: "'e hk_hook \<Rightarrow> hk_engine_capabilities \<Rightarrow> bool" where
  "hk_engine_honors_symbol_defining_scope hook caps = (case hs_target (h_spec hook) of
     Target_Symbol st \<Rightarrow>
       (if sel_kind (sym_defining_image st) = HK_IMAGE_ANY_LOADED then True
        else cap_exact_image_scope_targets caps AND HK_TARGET_KIND_BIT HK_TARGET_FUNCTION_SYMBOL \<noteq> 0)
   | _ \<Rightarrow> True)"

section \<open>The route search\<close>

record 'e hk_route =
  ro_slot :: "'e hk_engine_slot"
  ro_preferred :: nat
  ro_rank :: u32
  ro_caps :: hk_engine_capabilities
  ro_reach :: hk_reachability

text \<open>The two optional callbacks, guarded by the size of the table as well as by NULL.\<close>

definition discover_callback :: "'e hk_engine_vtable \<Rightarrow> (ptr \<Rightarrow> 'e \<Rightarrow> bool \<times> hk_engine_discovery) option" where
  "discover_callback vt = (if hk_engine_vtable_has_field vt OFFSET_DISCOVER 8 then vt_discover vt else None)"

definition analyze_callback :: "'e hk_engine_vtable \<Rightarrow> (ptr \<Rightarrow> hk_hook_spec \<Rightarrow> 'e \<Rightarrow> bool \<times> hk_engine_analysis) option" where
  "analyze_callback vt = (if hk_engine_vtable_has_field vt OFFSET_ANALYZE_OPERATION 8 then vt_analyze_operation vt else None)"

definition discovered :: "'e hk_engine_slot \<Rightarrow> 'e \<Rightarrow> bool" where
  "discovered slot env = (case discover_callback (es_vtable slot) of
     None \<Rightarrow> True | Some f \<Rightarrow> (let (ok, d) = f (es_ctx slot) env in ok \<and> ed_available d))"

text \<open>The reach and rank after \<open>analyze_operation\<close>; \<open>None\<close> when the engine or the effect check refuses.\<close>

definition analyzed_reach :: "'e hk_engine_slot \<Rightarrow> hk_hook_spec \<Rightarrow> 'e \<Rightarrow> hk_reachability \<Rightarrow>
    (hk_reachability \<times> u32) option" where
  "analyzed_reach slot spec env reach = (case analyze_callback (es_vtable slot) of
     None \<Rightarrow> Some (reach, 0)
   | Some f \<Rightarrow>
      (let (ok, a) = f (es_ctx slot) spec env; caps = vt_describe (es_vtable slot);
           reach1 = (if ea_achieved_reach a \<noteq> 0 then reach AND ea_achieved_reach a else reach)
       in if \<not> ok \<or> \<not> ea_eligible a then None
          else if ea_required_prepare_effects a AND NOT (cap_prepare_effects caps) \<noteq> 0 \<or>
                  ea_required_commit_effects a AND NOT (cap_commit_effects caps) \<noteq> 0 then None
          else Some (reach1, ea_route_rank a)))"

definition consider_engine :: "'e hk_runtime \<Rightarrow> 'e hk_hook \<Rightarrow> 'e \<Rightarrow> 'e hk_engine_slot \<Rightarrow> 'e hk_route option" where
  "consider_engine rt hook env slot =
     (let spec = h_spec hook; caps = vt_describe (es_vtable slot) in
      if \<not> discovered slot env then None
      else (case analyzed_reach slot spec env (hk_engine_effective_reach rt hook caps) of
        None \<Rightarrow> None
      | Some (reach, rank) \<Rightarrow>
          if \<not> hk_engine_eligible_minimal_full caps (target_kind (hs_target spec)) (hs_required_reach spec)
                (hs_original_requirement spec)
                (hk_effective_constraints (hs_constraints spec) (hs_continuation_policy spec)) \<or>
             hs_required_reach spec AND NOT reach \<noteq> 0 \<or>
             \<not> hk_engine_honors_symbol_defining_scope hook caps \<or>
             \<not> hk_engine_supports_install_context caps (rt_install_context rt) \<or>
             \<not> hk_engine_supports_platform caps (rt_platform_architecture rt) (rt_platform_ios_version rt)
                 (es_testing slot)
          then None
          else Some \<lparr>ro_slot = slot, ro_preferred = hk_bit_count64 (reach AND hs_preferred_reach spec),
                     ro_rank = rank, ro_caps = caps, ro_reach = reach\<rparr>))"

definition better_route :: "'e hk_route \<Rightarrow> 'e hk_route option \<Rightarrow> bool" where
  "better_route r best = (case best of None \<Rightarrow> True
     | Some b \<Rightarrow> ro_preferred r > ro_preferred b \<or> (ro_preferred r = ro_preferred b \<and> ro_rank r > ro_rank b))"

definition choose_route :: "'e hk_runtime \<Rightarrow> 'e hk_hook \<Rightarrow> 'e \<Rightarrow> 'e hk_route option" where
  "choose_route rt hook env = fold (\<lambda>slot best. case consider_engine rt hook env slot of
       None \<Rightarrow> best | Some r \<Rightarrow> if better_route r best then Some r else best) (rt_engines rt) None"

definition hk_hook_analyze_one :: "hk_id \<Rightarrow> 'e hk_runtime \<Rightarrow> 'e \<Rightarrow> 'e hk_hook \<Rightarrow> 'e hk_hook \<times> hk_hook_result" where
  "hk_hook_analyze_one plan_id rt env hook =
     (let out = zero_result\<lparr>r_request_id := h_id hook, r_plan_id := plan_id,
                r_runtime_owner_id := rt_owner_id rt, r_continuation := empty_continuation,
                r_currently_valid := True, r_image_generation := rt_generation rt\<rparr>
      in case choose_route rt hook env of
        Some r \<Rightarrow>
          (hook\<lparr>h_matched := Some (es_vtable (ro_slot r), es_ctx (ro_slot r))\<rparr>,
           out\<lparr>r_outcome := HK_OUTCOME_ANALYZED, r_achieved_reach := ro_reach r,
             r_unmet_preferred_reach := hs_preferred_reach (h_spec hook) AND NOT (ro_reach r),
             r_retryable := False, r_diagnostic_engine_id := cap_engine_id (ro_caps r),
             r_declared_prepare_effects := cap_prepare_effects (ro_caps r),
             r_declared_commit_effects := cap_commit_effects (ro_caps r),
             r_image_generation := rt_generation rt\<rparr>)
      | None \<Rightarrow>
          (hook\<lparr>h_matched := None\<rparr>,
           out\<lparr>r_outcome := HK_OUTCOME_NO_ROUTE, r_achieved_reach := 0,
             r_unmet_preferred_reach := hs_preferred_reach (h_spec hook), r_retryable := True,
             r_diagnostic_engine_id := None\<rparr>))"

text \<open>One round of the loop of \<open>hk_plan_analyze\<close>.\<close>

definition analyze_hook :: "hk_id \<Rightarrow> 'e hk_runtime \<Rightarrow> 'e \<Rightarrow> 'e hk_hook \<Rightarrow> 'e hk_hook" where
  "analyze_hook plan_id rt env hook =
     (let (hook1, result) = hk_hook_analyze_one plan_id rt env hook in hook1\<lparr>h_result := result\<rparr>)"

definition hk_plan_analyze :: "'e hk_plan \<Rightarrow> 'e hk_runtime \<Rightarrow> 'e hk_world \<Rightarrow>
    (hk_status + hk_report) \<times> 'e hk_plan \<times> 'e hk_world" where
  "hk_plan_analyze plan rt w =
     (if p_state plan \<noteq> HK_PLAN_DRAFT then (Inl HK_STATUS_INVALID_STATE, plan, w)
      else let (ok, w1) = (if p_hooks plan = [] then (True, w) else sys_alloc w) in
      if \<not> ok then (Inl HK_STATUS_OUT_OF_MEMORY, plan, w1)
      else let hooks = map (analyze_hook (p_id plan) rt (w_env w1)) (p_hooks plan);
               plan1 = plan\<lparr>p_hooks := hooks\<rparr> in
        (case hk_report_create (map h_result hooks) w1 of
           (None, w2) \<Rightarrow> (Inl HK_STATUS_OUT_OF_MEMORY, plan1, w2)
         | (Some report, w2) \<Rightarrow> (Inr report, plan1\<lparr>p_state := HK_PLAN_ANALYZED\<rparr>, w2)))"

section \<open>What an admissible route guarantees\<close>

lemma exact_scope_bit: "w AND HK_REACH_EXACT_IMAGE_SCOPE = 0 \<longleftrightarrow> \<not> bit w 5"
  by (simp add: HK_REACH_EXACT_IMAGE_SCOPE_def and_exp_eq_0_iff_not_bit flip: power_numeral)

lemma effective_reach_subset: "bit (hk_engine_effective_reach rt hook caps) n \<Longrightarrow> bit (cap_achievable_reach caps) n"
  by (auto simp: hk_engine_effective_reach_def Let_def bit_and_iff split: if_splits)

lemma exact_scope_self: "bit (HK_REACH_EXACT_IMAGE_SCOPE) n \<longleftrightarrow> n = 5"
  unfolding HK_REACH_EXACT_IMAGE_SCOPE_def bit_exp_iff by auto

lemma effective_reach_scope:
  assumes "bit (hk_engine_effective_reach rt hook caps) 5"
  shows "hk_image_catalog_count (rt_catalog rt) > 0"
    "bit (cap_exact_image_scope_targets caps) (target_kind_num (target_kind (hs_target (h_spec hook))))"
    "case hs_target (h_spec hook) of Target_Memory m \<Rightarrow> mem_address_is_image_relative m
       | Target_Objc _ \<Rightarrow> False | Target_Swift \<Rightarrow> False | _ \<Rightarrow> True"
proof -
  have no: "\<not> bit (w AND NOT HK_REACH_EXACT_IMAGE_SCOPE) 5" for w :: u64
    by (simp add: bit_and_iff bit_not_iff exact_scope_self)
  have kb: "(w AND HK_TARGET_KIND_BIT k \<noteq> 0) = bit w (target_kind_num k)" for w k
    unfolding HK_TARGET_KIND_BIT_def by (rule and_bit_nonzero)
  have b: "bit (cap_achievable_reach caps) 5" using assms by (rule effective_reach_subset)
  note a = assms [unfolded hk_engine_effective_reach_def Let_def exact_scope_bit kb]
  show "hk_image_catalog_count (rt_catalog rt) > 0"
    using a b no by (auto split: if_splits)
  show "bit (cap_exact_image_scope_targets caps) (target_kind_num (target_kind (hs_target (h_spec hook))))"
    using a b no by (auto split: if_splits)
  show "case hs_target (h_spec hook) of Target_Memory m \<Rightarrow> mem_address_is_image_relative m
       | Target_Objc _ \<Rightarrow> False | Target_Swift \<Rightarrow> False | _ \<Rightarrow> True"
    using a b no by (cases "hs_target (h_spec hook)") (auto split: if_splits)
qed

lemma analyzed_reach_subset:
  "analyzed_reach slot spec env reach = Some (reach', rank) \<Longrightarrow> bit reach' n \<Longrightarrow> bit reach n"
  by (auto simp: analyzed_reach_def Let_def bit_and_iff split: option.splits prod.splits if_splits)

lemma consider_engine_Some:
  assumes "consider_engine rt hook env slot = Some r"
  shows "ro_slot r = slot" "ro_caps r = vt_describe (es_vtable slot)" "discovered slot env"
    "hk_engine_eligible_minimal_full (ro_caps r) (target_kind (hs_target (h_spec hook)))
       (hs_required_reach (h_spec hook)) (hs_original_requirement (h_spec hook))
       (hk_effective_constraints (hs_constraints (h_spec hook)) (hs_continuation_policy (h_spec hook)))"
    "hs_required_reach (h_spec hook) AND NOT (ro_reach r) = 0"
    "hk_engine_honors_symbol_defining_scope hook (ro_caps r)"
    "hk_engine_supports_install_context (ro_caps r) (rt_install_context rt)"
    "hk_engine_supports_platform (ro_caps r) (rt_platform_architecture rt) (rt_platform_ios_version rt)
       (es_testing slot)"
    "ro_preferred r = hk_bit_count64 (ro_reach r AND hs_preferred_reach (h_spec hook))"
    "analyzed_reach slot (h_spec hook) env (hk_engine_effective_reach rt hook (ro_caps r)) =
       Some (ro_reach r, ro_rank r)"
  using assms
  by (auto simp: consider_engine_def Let_def split: if_splits option.splits prod.splits)

lemma consider_engine_reach:
  assumes "consider_engine rt hook env slot = Some r" "bit (ro_reach r) n"
  shows "bit (hk_engine_effective_reach rt hook (ro_caps r)) n" "bit (cap_achievable_reach (ro_caps r)) n"
  using analyzed_reach_subset [OF consider_engine_Some(10) [OF assms(1)] assms(2)]
    effective_reach_subset by blast+

section \<open>The search returns the first maximum\<close>

definition route_key :: "'e hk_route \<Rightarrow> nat \<times> u32" where
  "route_key r = (ro_preferred r, ro_rank r)"

definition key_less :: "nat \<times> u32 \<Rightarrow> nat \<times> u32 \<Rightarrow> bool" where
  "key_less a b \<longleftrightarrow> fst a < fst b \<or> (fst a = fst b \<and> snd a < snd b)"

lemma better_route_key: "better_route r (Some b) \<longleftrightarrow> key_less (route_key b) (route_key r)"
  by (auto simp: better_route_def key_less_def route_key_def)

lemma key_less_trans: "key_less a b \<Longrightarrow> key_less b c \<Longrightarrow> key_less a c"
  by (auto simp: key_less_def)

lemma key_less_irrefl: "\<not> key_less a a"
  by (auto simp: key_less_def)

lemma key_less_asym: "key_less a b \<Longrightarrow> \<not> key_less b a"
  by (auto simp: key_less_def)

lemma key_less_not_trans: "\<not> key_less b c \<Longrightarrow> key_less b r \<Longrightarrow> key_less c r"
  by (auto simp: key_less_def)

text \<open>\<open>first_best f xs i r\<close>: \<open>xs ! i\<close> gives \<open>r\<close>, no element gives more, and every earlier one gives less.\<close>

definition first_best :: "('s \<Rightarrow> 'e hk_route option) \<Rightarrow> 's list \<Rightarrow> nat \<Rightarrow> 'e hk_route \<Rightarrow> bool" where
  "first_best f xs i r \<longleftrightarrow> i < length xs \<and> f (xs ! i) = Some r \<and>
     (\<forall>j < length xs. \<forall>c. f (xs ! j) = Some c \<longrightarrow>
        \<not> key_less (route_key r) (route_key c) \<and> (j < i \<longrightarrow> key_less (route_key c) (route_key r)))"

definition pick :: "('s \<Rightarrow> 'e hk_route option) \<Rightarrow> 's \<Rightarrow> 'e hk_route option \<Rightarrow> 'e hk_route option" where
  "pick f x best = (case f x of None \<Rightarrow> best | Some r \<Rightarrow> if better_route r best then Some r else best)"

lemma choose_route_fold: "choose_route rt hook env = fold (pick (consider_engine rt hook env)) (rt_engines rt) None"
  unfolding choose_route_def pick_def by (rule refl)

lemma fold_pick:
  "case fold (pick f) xs None of
     None \<Rightarrow> \<forall>x \<in> set xs. f x = None
   | Some r \<Rightarrow> \<exists>i. first_best f xs i r"
proof (induction xs rule: rev_induct)
  case Nil
  then show ?case by simp
next
  case (snoc x xs)
  have st: "fold (pick f) (xs @ [x]) None = pick f x (fold (pick f) xs None)" by simp
  show ?case
  proof (cases "fold (pick f) xs None")
    case None
    with snoc have n: "\<forall>x \<in> set xs. f x = None" by simp
    have "first_best f (xs @ [x]) (length xs) r" if "f x = Some r" for r
      using n that by (auto simp: first_best_def nth_append less_Suc_eq key_less_def)
    with n show ?thesis unfolding st None by (cases "f x") (auto simp: pick_def better_route_def)
  next
    case (Some b)
    with snoc obtain i where i: "first_best f xs i b" by auto
    show ?thesis
    proof (cases "f x")
      case N: None
      then have "first_best f (xs @ [x]) i b"
        using i by (auto simp: first_best_def nth_append less_Suc_eq)
      with N show ?thesis unfolding st Some by (auto simp: pick_def)
    next
      case R: (Some r)
      show ?thesis
      proof (cases "better_route r (Some b)")
        case True
        then have l: "key_less (route_key b) (route_key r)" by (simp add: better_route_key)
        have "key_less (route_key c) (route_key r)" if "j < length xs" "f (xs ! j) = Some c" for j c
          using i that l key_less_not_trans unfolding first_best_def by blast
        then have "first_best f (xs @ [x]) (length xs) r"
          using R key_less_asym by (auto simp: first_best_def nth_append less_Suc_eq key_less_irrefl)
        with R True show ?thesis unfolding st Some by (auto simp: pick_def)
      next
        case False
        then have "\<not> key_less (route_key b) (route_key r)" by (simp add: better_route_key)
        then have "first_best f (xs @ [x]) i b"
          using i R by (auto simp: first_best_def nth_append less_Suc_eq)
        with R False show ?thesis unfolding st Some by (auto simp: pick_def)
      qed
    qed
  qed
qed

section \<open>Properties\<close>

lemma analyze_one_fields:
  assumes "hk_hook_analyze_one plan_id rt env hook = (hook', res)"
  shows "hook' = hook\<lparr>h_matched := h_matched hook'\<rparr>"
    "h_matched hook' = map_option (\<lambda>r. (es_vtable (ro_slot r), es_ctx (ro_slot r))) (choose_route rt hook env)"
    "r_mutation res = HK_MUTATION_NONE" "r_request_id res = h_id hook" "r_plan_id res = plan_id"
    "r_outcome res = (if choose_route rt hook env = None then HK_OUTCOME_NO_ROUTE else HK_OUTCOME_ANALYZED)"
    "r_retryable res \<longleftrightarrow> choose_route rt hook env = None"
    "r_image_generation res = rt_generation rt" "r_observed_commit_effects res = 0" "\<not> r_original_available res"
    "\<not> r_verified res" "r_installed_id res = hk_id_zero"
  using assms
  by (auto simp: hk_hook_analyze_one_def Let_def zero_result_def split: option.splits)

text \<open>Routing is sound: an engine the search admits was discovered as available, passes the static
  eligibility test under the effective constraints, supports the install context and the platform,
  honours a restricted defining image, and achieves at least the required reachability and never
  more than it declares. Exact image scope in particular is achieved only when the engine declares
  it for the target kind, images have been catalogued, and a memory target is image-relative.\<close>

lemma admitted_engine_sound:
  assumes "consider_engine rt hook env slot = Some r"
  shows "hk_engine_eligible_minimal_full (vt_describe (es_vtable slot)) (target_kind (hs_target (h_spec hook)))
       (hs_required_reach (h_spec hook)) (hs_original_requirement (h_spec hook))
       (hk_effective_constraints (hs_constraints (h_spec hook)) (hs_continuation_policy (h_spec hook))) \<and>
     discovered slot env \<and>
     hk_engine_supports_install_context (vt_describe (es_vtable slot)) (rt_install_context rt) \<and>
     hk_engine_supports_platform (vt_describe (es_vtable slot)) (rt_platform_architecture rt)
       (rt_platform_ios_version rt) (es_testing slot) \<and>
     hk_engine_honors_symbol_defining_scope hook (vt_describe (es_vtable slot)) \<and>
     (\<forall>n. bit (hs_required_reach (h_spec hook)) n \<longrightarrow> bit (ro_reach r) n) \<and>
     (\<forall>n. bit (ro_reach r) n \<longrightarrow> bit (cap_achievable_reach (vt_describe (es_vtable slot))) n) \<and>
     (bit (ro_reach r) 5 \<longrightarrow> hk_image_catalog_count (rt_catalog rt) > 0 \<and>
        bit (cap_exact_image_scope_targets (vt_describe (es_vtable slot)))
          (target_kind_num (target_kind (hs_target (h_spec hook)))) \<and>
        (case hs_target (h_spec hook) of Target_Memory m \<Rightarrow> mem_address_is_image_relative m
           | Target_Objc _ \<Rightarrow> False | Target_Swift \<Rightarrow> False | _ \<Rightarrow> True))"
proof -
  note c = consider_engine_Some [OF assms]
  note sc = consider_engine_reach [OF assms]
  have "\<forall>n. bit (hs_required_reach (h_spec hook)) n \<longrightarrow> bit (ro_reach r) n"
    using c(5) by (simp add: mask_subset_iff)
  moreover have "bit (ro_reach r) 5 \<longrightarrow> hk_image_catalog_count (rt_catalog rt) > 0 \<and>
      bit (cap_exact_image_scope_targets (vt_describe (es_vtable slot)))
        (target_kind_num (target_kind (hs_target (h_spec hook)))) \<and>
      (case hs_target (h_spec hook) of Target_Memory m \<Rightarrow> mem_address_is_image_relative m
           | Target_Objc _ \<Rightarrow> False | Target_Swift \<Rightarrow> False | _ \<Rightarrow> True)"
    using effective_reach_scope [OF sc(1)] c(2) by simp
  ultimately show ?thesis using c sc(2) by simp
qed

text \<open>C19. Routing is optimal and stable: the engine remembered for a hook is admissible and no admissible
  engine of the runtime has more preferred reachability bits, or as many and a higher route rank;
  among equals it is the first registered. The result reports that engine's reach, the preferred
  bits it does not cover and its declared effects. There is no route exactly when no engine is
  admissible, and then the result is retryable.\<close>

theorem analyze_one_optimal:
  assumes "hk_hook_analyze_one plan_id rt env hook = (hook', res)"
  shows "case h_matched hook' of
     None \<Rightarrow> r_outcome res = HK_OUTCOME_NO_ROUTE \<and> r_retryable res \<and> r_achieved_reach res = 0 \<and>
       (\<forall>slot \<in> set (rt_engines rt). consider_engine rt hook env slot = None)
   | Some (vt, ctx) \<Rightarrow> r_outcome res = HK_OUTCOME_ANALYZED \<and> \<not> r_retryable res \<and>
       (\<exists>i r. first_best (consider_engine rt hook env) (rt_engines rt) i r \<and>
          vt = es_vtable (rt_engines rt ! i) \<and> ctx = es_ctx (rt_engines rt ! i) \<and>
          r_achieved_reach res = ro_reach r \<and>
          r_unmet_preferred_reach res = hs_preferred_reach (h_spec hook) AND NOT (ro_reach r) \<and>
          r_declared_prepare_effects res = cap_prepare_effects (vt_describe vt) \<and>
          r_declared_commit_effects res = cap_commit_effects (vt_describe vt))"
proof (cases "choose_route rt hook env")
  case None
  have "\<forall>slot \<in> set (rt_engines rt). consider_engine rt hook env slot = None"
    using fold_pick [of "rt_engines rt" "consider_engine rt hook env"] None
    by (simp add: choose_route_fold)
  then show ?thesis
    using assms None by (auto simp: hk_hook_analyze_one_def Let_def)
next
  case (Some r)
  then obtain i where i: "first_best (consider_engine rt hook env) (rt_engines rt) i r"
    using fold_pick [of "rt_engines rt" "consider_engine rt hook env"] by (auto simp: choose_route_fold)
  then have "consider_engine rt hook env (rt_engines rt ! i) = Some r" by (simp add: first_best_def)
  then have e: "ro_slot r = rt_engines rt ! i" "ro_caps r = vt_describe (es_vtable (rt_engines rt ! i))"
    by (auto dest: consider_engine_Some(1,2))
  show ?thesis
    using assms Some i e
    by (auto simp: hk_hook_analyze_one_def Let_def intro!: exI [of _ i] exI [of _ r])
qed

lemma analyze_hook_fields:
  "h_ref (analyze_hook p rt env h) = h_ref h" "h_id (analyze_hook p rt env h) = h_id h"
  "h_spec (analyze_hook p rt env h) = h_spec h" "h_target_key (analyze_hook p rt env h) = h_target_key h"
  "h_prepared_state (analyze_hook p rt env h) = h_prepared_state h"
  "h_prepared_continuation (analyze_hook p rt env h) = h_prepared_continuation h"
  "h_installed (analyze_hook p rt env h) = h_installed h"
  by (auto simp: analyze_hook_def hk_hook_analyze_one_def Let_def split: option.splits)

lemma analyze_hook_result:
  "h_result (analyze_hook p rt env h) = snd (hk_hook_analyze_one p rt env h)"
  "h_matched (analyze_hook p rt env h) = h_matched (fst (hk_hook_analyze_one p rt env h))"
  by (simp_all add: analyze_hook_def case_prod_beta)

lemma map_analyze_wf:
  "plan_wf w plan \<Longrightarrow> plan_wf w (plan\<lparr>p_hooks := map (analyze_hook p rt env) (p_hooks plan)\<rparr>)"
proof -
  assume "plan_wf w plan"
  moreover have "h_ref ` set (take i (map (analyze_hook p rt env) hs)) = h_ref ` set (take i hs)" for i hs
    by (simp add: take_map image_image analyze_hook_fields)
  ultimately show ?thesis
    by (simp add: plan_wf_def comp_def analyze_hook_fields)
qed

lemma plan_analyze_cases:
  fixes plan :: "'e hk_plan" and w :: "'e hk_world"
  assumes "hk_plan_analyze plan rt w = (r, plan', w')"
  shows "hk_sys.more w' = hk_sys.more w"
    "case r of
       Inl e \<Rightarrow> p_state plan' = p_state plan \<and>
         (plan' = plan \<or> plan' = plan\<lparr>p_hooks := map (analyze_hook (p_id plan) rt (w_env w)) (p_hooks plan)\<rparr>)
     | Inr report \<Rightarrow> p_state plan = HK_PLAN_DRAFT \<and>
         plan' = plan\<lparr>p_hooks := map (analyze_hook (p_id plan) rt (w_env w)) (p_hooks plan),
                      p_state := HK_PLAN_ANALYZED\<rparr> \<and>
         rp_results report = map h_result (p_hooks plan') \<and> l_items (rp_artifacts report) = []"
proof -
  obtain ok w1 where a: "(if p_hooks plan = [] then (True, w) else sys_alloc w) = (ok, w1)" by fastforce
  have f1: "hk_sys.more w1 = hk_sys.more w"
    using a by (auto split: if_splits dest!: sys_alloc_frame only_allocD(4))
  note e1 = world_more(1) [OF f1]
  let ?hooks = "map (analyze_hook (p_id plan) rt (w_env w1)) (p_hooks plan)"
  obtain rep w2 where c: "hk_report_create (map h_result ?hooks) w1 = (rep, w2)" by fastforce
  note f2 = hk_report_create_frame [OF c]
  show "hk_sys.more w' = hk_sys.more w"
    using assms a c f1 f2 by (auto simp: hk_plan_analyze_def Let_def split: if_splits option.splits)
  show "case r of
       Inl e \<Rightarrow> p_state plan' = p_state plan \<and>
         (plan' = plan \<or> plan' = plan\<lparr>p_hooks := map (analyze_hook (p_id plan) rt (w_env w)) (p_hooks plan)\<rparr>)
     | Inr report \<Rightarrow> p_state plan = HK_PLAN_DRAFT \<and>
         plan' = plan\<lparr>p_hooks := map (analyze_hook (p_id plan) rt (w_env w)) (p_hooks plan),
                      p_state := HK_PLAN_ANALYZED\<rparr> \<and>
         rp_results report = map h_result (p_hooks plan') \<and> l_items (rp_artifacts report) = []"
    using assms a c f2 e1
    by (auto simp: hk_plan_analyze_def Let_def split: if_splits option.splits)
qed

text \<open>Analysis is free of side effects on the process: whatever it returns, the engines' environment,
  the ownership records, the installed hooks and the process ledger are as before, and the plan
  invariant is kept. It succeeds only on a draft plan, which becomes analyzed, and its report holds
  one result per hook in order, none with a mutation; a refusal leaves the plan's state, the
  identities and the target keys as they were.\<close>

lemma plan_analyze_spec:
  fixes plan :: "'e hk_plan" and w :: "'e hk_world"
  assumes run: "hk_plan_analyze plan rt w = (r, plan', w')" and wf: "plan_wf w plan"
  shows "hk_sys.more w' = hk_sys.more w \<and> plan_wf w' plan' \<and>
    map h_ref (p_hooks plan') = map h_ref (p_hooks plan) \<and>
    map h_target_key (p_hooks plan') = map h_target_key (p_hooks plan) \<and>
    (case r of
       Inl e \<Rightarrow> p_state plan' = p_state plan
     | Inr report \<Rightarrow> p_state plan = HK_PLAN_DRAFT \<and> p_state plan' = HK_PLAN_ANALYZED \<and>
         rp_results report = map (\<lambda>h. snd (hk_hook_analyze_one (p_id plan) rt (w_env w) h)) (p_hooks plan) \<and>
         rp_results report = map h_result (p_hooks plan') \<and>
         (\<forall>res \<in> set (rp_results report). r_mutation res = HK_MUTATION_NONE \<and>
            r_outcome res \<in> {HK_OUTCOME_ANALYZED, HK_OUTCOME_NO_ROUTE}))"
proof -
  note c = plan_analyze_cases [OF run]
  note m = map_analyze_wf [OF wf, of "p_id plan" rt "w_env w"]
  have m2: "plan_wf w (plan\<lparr>p_hooks := map (analyze_hook (p_id plan) rt (w_env w)) (p_hooks plan),
      p_state := HK_PLAN_ANALYZED\<rparr>)"
    using m by (simp add: plan_wf_def)
  have "plan_wf w plan'" using c(2) wf m m2 by (auto split: sum.splits)
  then have wf': "plan_wf w' plan'" by (rule plan_wf_more [OF c(1)])
  have res: "r_mutation (snd (hk_hook_analyze_one p rt env h)) = HK_MUTATION_NONE \<and>
      r_outcome (snd (hk_hook_analyze_one p rt env h)) \<in> {HK_OUTCOME_ANALYZED, HK_OUTCOME_NO_ROUTE}" for p env h
    using analyze_one_fields(3,6) [of p rt env h] by (metis insertCI prod.collapse)
  show ?thesis
  proof (cases r)
    case (Inl e)
    then show ?thesis using c wf' by (auto simp: comp_def analyze_hook_fields)
  next
    case (Inr report)
    then show ?thesis
      using c wf' res by (auto simp: comp_def analyze_hook_fields analyze_hook_result)
  qed
qed

section \<open>A concrete runtime\<close>

text \<open>An engine for address targets that counts its commits in the environment.\<close>

definition sample_capabilities :: hk_engine_capabilities where
  "sample_capabilities = plain_capabilities\<lparr>cap_engine_id := Some ''inline'', cap_target_kinds := 2,
     cap_achievable_reach := 12\<rparr>"

definition sample_reply :: hk_commit_reply where
  "sample_reply = \<lparr>cr_mutation = HK_MUTATION_COMPLETE, cr_artifacts = [zero_artifact\<lparr>a_effects := 1\<rparr>],
     cr_published_original = 0, cr_continuation = None\<rparr>"

definition sample_vtable :: "nat \<Rightarrow> nat hk_engine_vtable" where
  "sample_vtable n = \<lparr>vt_id = n, vt_abi_version = 1, vt_struct_size = 144, vt_describe = sample_capabilities,
     vt_discover = None,
     vt_analyze_operation = Some (\<lambda>ctx spec env. (True, \<lparr>ea_eligible = True, ea_achieved_reach = 0,
        ea_required_prepare_effects = 0, ea_required_commit_effects = 0,
        ea_continuation_kind = HK_CONTINUATION_KIND_NONE,
        ea_install_context = HK_INSTALL_CONTEXT_EARLY_PROCESS, ea_route_rank = of_nat n\<rparr>)),
     vt_prepare_one = Some (\<lambda>spec env. (True, env)),
     vt_commit_one = Some (\<lambda>spec sink env. (sample_reply, Suc env)),
     vt_verify_one = Some (\<lambda>spec env. ((HK_VERIFY_OK, zero_verify_diag), env)),
     vt_prepare_one_ctx = None, vt_commit_one_ctx = None, vt_release_prepared = None,
     vt_verify_one_ctx = None, vt_prepare_one_ctx_status = None, vt_prepare_group_ctx = None,
     vt_revalidate_group_ctx = None, vt_commit_group_ctx = None, vt_verify_group_ctx = None,
     vt_compensate_group_ctx = None, vt_inspect_continuation = None\<rparr>"

definition sample_runtime :: "nat hk_runtime" where
  "sample_runtime = \<lparr>rt_owner_id = \<lparr>id_high = 9, id_low = 2\<rparr>,
     rt_install_context = HK_INSTALL_CONTEXT_EARLY_PROCESS, rt_platform_architecture = 0,
     rt_platform_ios_version = 0,
     rt_engines = map (\<lambda>n. \<lparr>es_vtable = sample_vtable n, es_ctx = 0, es_testing = False\<rparr>) [1, 2, 2],
     rt_catalog = None, rt_pending = [], rt_pending_capacity = 0,
     rt_artifacts = \<lparr>l_items = [], l_capacity = 0\<rparr>\<rparr>"

definition sample_hook :: "nat \<Rightarrow> string \<Rightarrow> hk_target \<Rightarrow> 'e hk_hook" where
  "sample_hook ref name t = new_hook ref \<lparr>id_high = 9, id_low = of_nat ref + 16\<rparr> (sample_spec name t) t [of_nat ref]"

lemma sample_admitted:
  assumes "slot = \<lparr>es_vtable = sample_vtable n, es_ctx = 0, es_testing = False\<rparr>"
  shows "consider_engine sample_runtime (sample_hook ref name (sample_address_target p)) env slot =
    Some \<lparr>ro_slot = slot, ro_preferred = 0, ro_rank = of_nat n, ro_caps = sample_capabilities, ro_reach = 12\<rparr>"
proof -
  have z: "(12 :: u64) AND HK_REACH_EXACT_IMAGE_SCOPE = 0" "(2 :: u32) AND HK_TARGET_KIND_BIT HK_TARGET_FUNCTION_ADDRESS \<noteq> 0"
    by (simp_all add: HK_REACH_EXACT_IMAGE_SCOPE_def HK_TARGET_KIND_BIT_def)
  have b: "hk_bit_count64 0 = 0" by (simp add: hk_bit_count64_def)
  show ?thesis
    using z b
    by (simp add: assms consider_engine_def discovered_def discover_callback_def sample_vtable_def
        analyzed_reach_def analyze_callback_def hk_engine_vtable_has_field_def OFFSET_ANALYZE_OPERATION_def
        sample_hook_def new_hook_def sample_spec_def sample_address_target_def hk_engine_effective_reach_def
        sample_capabilities_def plain_capabilities_def hk_engine_eligible_minimal_full_def
        hk_effective_constraints_def hk_engine_honors_symbol_defining_scope_def
        hk_engine_supports_install_context_def hk_engine_supports_platform_def sample_runtime_def Let_def)
qed

text \<open>Of the three registered engines the second is taken: it outranks the first and precedes the third.\<close>

theorem analyze_one_optimal_witness:
  "\<exists>ctx. h_matched (fst (hk_hook_analyze_one hk_id_zero sample_runtime 0
     (sample_hook 0 ''a'' (sample_address_target 64)))) = Some (sample_vtable 2, ctx)"
proof -
  let ?h = "sample_hook 0 ''a'' (sample_address_target 64)"
  obtain h res where run: "hk_hook_analyze_one hk_id_zero sample_runtime 0 ?h = (h, res)" by fastforce
  note best = analyze_one_optimal [OF run]
  have s: "rt_engines sample_runtime ! i = \<lparr>es_vtable = sample_vtable ([1, 2, 2] ! i), es_ctx = 0, es_testing = False\<rparr>"
    if "i < 3" for i
    using that by (auto simp: sample_runtime_def less_Suc_eq numeral_3_eq_3)
  have c: "consider_engine sample_runtime ?h 0 (rt_engines sample_runtime ! i) = Some
     \<lparr>ro_slot = rt_engines sample_runtime ! i, ro_preferred = 0, ro_rank = of_nat ([1, 2, 2] ! i),
      ro_caps = sample_capabilities, ro_reach = 12\<rparr>" if "i < 3" for i
    by (rule sample_admitted [OF s [OF that]])
  have l: "length (rt_engines sample_runtime) = 3" by (simp add: sample_runtime_def)
  have "rt_engines sample_runtime ! 0 \<in> set (rt_engines sample_runtime)" by (simp add: sample_runtime_def)
  then obtain vt ctx where m: "h_matched h = Some (vt, ctx)"
    using best c [of 0] by (cases "h_matched h") auto
  with best obtain i r where i: "first_best (consider_engine sample_runtime ?h 0) (rt_engines sample_runtime) i r"
    "vt = es_vtable (rt_engines sample_runtime ! i)" by auto
  then have "i < 3" by (simp add: first_best_def l)
  moreover have "i \<noteq> 0"
  proof
    assume "i = 0"
    with i(1) c [of 0] have "r = \<lparr>ro_slot = rt_engines sample_runtime ! 0, ro_preferred = 0, ro_rank = 1,
      ro_caps = sample_capabilities, ro_reach = 12\<rparr>" by (simp add: first_best_def)
    moreover have "\<not> key_less (route_key r) (0, 2)"
      using i(1) c [of 1] unfolding first_best_def l route_key_def
      by (auto dest!: spec [of _ 1])
    ultimately show False by (simp add: route_key_def key_less_def)
  qed
  ultimately have "i = 1 \<or> i = 2" by auto
  then have "vt = sample_vtable 2" using i(2) s by auto
  then show ?thesis using run m by simp
qed

end
