(* ===== verification/HK_Dispatch.thy ===== *)
theory HK_Dispatch
  imports HK_Analyze
begin

text \<open>
  Per-hook engine dispatch (\<open>src/core/HKPlan.c\<close>): release of prepared state, preparation through the
  richest entry point the engine has, the inspection of a prepared continuation, and the checks
  that hold an engine to its declared effects.
\<close>

section \<open>Releasing what preparation produced\<close>

definition hk_hook_release_prepared :: "'e hk_hook \<Rightarrow> 'e \<Rightarrow> 'e hk_hook \<times> 'e" where
  "hk_hook_release_prepared hook env =
     (if h_prepared_state hook = 0 then (hook, env)
      else let
        env1 = (case h_matched hook of None \<Rightarrow> env
                | Some (vt, ctx) \<Rightarrow> (case vt_release_prepared vt of None \<Rightarrow> env
                    | Some f \<Rightarrow> f ctx (h_prepared_state hook) env));
        res = h_result hook;
        res1 = (if r_mutation res = HK_MUTATION_NONE
                then res\<lparr>r_continuation := empty_continuation, r_original_available := False,
                         r_currently_valid := False\<rparr>
                else res)
      in (hook\<lparr>h_prepared_state := 0, h_result := res1, h_prepared_continuation := None\<rparr>, env1))"

section \<open>Preparation\<close>

definition inspect_callback :: "'e hk_hook \<Rightarrow>
    (ptr \<times> (ptr \<Rightarrow> hk_hook_spec \<Rightarrow> ptr \<Rightarrow> 'e \<Rightarrow> (hk_verify_result \<times> hk_continuation_info \<times> hk_verify_diag) \<times> 'e)) option" where
  "inspect_callback hook = (case h_matched hook of None \<Rightarrow> None
     | Some (vt, ctx) \<Rightarrow>
         (if hk_engine_vtable_has_field vt OFFSET_INSPECT_CONTINUATION 8
          then map_option (\<lambda>f. (ctx, f)) (vt_inspect_continuation vt) else None))"

definition hk_hook_inspect_prepared_continuation :: "'e hk_hook \<Rightarrow> hk_prepare_diag \<Rightarrow> 'e \<Rightarrow>
    (hk_prepare_result \<times> 'e hk_hook \<times> hk_prepare_diag) \<times> 'e" where
  "hk_hook_inspect_prepared_continuation hook diag env = (case inspect_callback hook of
     None \<Rightarrow> ((HK_PREPARE_OK, hook, diag), env)
   | Some (ctx, f) \<Rightarrow>
      (let ((result, info, idiag), env1) = f ctx (h_spec hook) (h_prepared_state hook) env in
       if result = HK_VERIFY_UNAVAILABLE then ((HK_PREPARE_OK, hook, diag), env1)
       else if result = HK_VERIFY_OK \<and> ci_struct_size info \<ge> HK_CONTINUATION_INFO_SIZE
       then ((HK_PREPARE_OK, hook\<lparr>h_prepared_continuation := Some info\<rparr>, diag), env1)
       else let
         idiag1 = (if result = HK_VERIFY_OK
                   then \<lparr>vd_error_code = hk_status_code HK_STATUS_INTERNAL_ERROR,
                         vd_error_message = Some ''engine returned a truncated continuation description''\<rparr>
                   else idiag);
         (hook1, env2) = hk_hook_release_prepared hook env1;
         diag1 = diag\<lparr>
           pd_error_code := (if vd_error_code idiag1 \<noteq> 0 then vd_error_code idiag1
                             else hk_status_code HK_STATUS_INTERNAL_ERROR),
           pd_error_message := (if vd_error_message idiag1 \<noteq> None then vd_error_message idiag1
                                else Some ''engine could not inspect its prepared continuation'')\<rparr>
       in ((HK_PREPARE_FAILED, hook1, diag1), env2)))"

text \<open>The entry points in order of preference; without an engine or without any entry point the
  attempt fails.\<close>

definition hk_hook_dispatch_prepare :: "'e hk_hook \<Rightarrow> 'e \<Rightarrow>
    (hk_prepare_result \<times> 'e hk_hook \<times> hk_prepare_diag) \<times> 'e" where
  "hk_hook_dispatch_prepare hook env =
     (let diag0 = zero_prepare_diag;
          finish = (\<lambda>result hook diag env.
            if result = HK_PREPARE_OK then hk_hook_inspect_prepared_continuation hook diag env
            else ((result, hook, diag), env))
      in case h_matched hook of
        None \<Rightarrow> finish HK_PREPARE_FAILED hook diag0 env
      | Some (vt, ctx) \<Rightarrow>
        (case vt_prepare_one_ctx_status vt of
          Some f \<Rightarrow>
            (let ((result, prepared, diag), env1) = f ctx (h_spec hook) env
             in finish result (hook\<lparr>h_prepared_state := (if result = HK_PREPARE_OK then prepared else 0)\<rparr>) diag env1)
        | None \<Rightarrow> (case vt_prepare_one_ctx vt of
          Some f \<Rightarrow>
            (let ((ok, prepared), env1) = f ctx (h_spec hook) env
             in finish (if ok then HK_PREPARE_OK else HK_PREPARE_FAILED)
                  (hook\<lparr>h_prepared_state := (if ok then prepared else 0)\<rparr>) diag0 env1)
        | None \<Rightarrow> (case vt_prepare_one vt of
          Some f \<Rightarrow>
            (let (ok, env1) = f (h_spec hook) env
             in finish (if ok then HK_PREPARE_OK else HK_PREPARE_FAILED) hook diag0 env1)
        | None \<Rightarrow> finish HK_PREPARE_FAILED hook diag0 env))))"

definition hk_hook_validate_prepare_effects :: "'e hk_hook \<Rightarrow> hk_prepare_result \<Rightarrow> hk_prepare_diag \<Rightarrow> 'e \<Rightarrow>
    (hk_prepare_result \<times> 'e hk_hook \<times> hk_prepare_diag) \<times> 'e" where
  "hk_hook_validate_prepare_effects hook result diag env = (case h_matched hook of
     None \<Rightarrow> ((result, hook, diag), env)
   | Some (vt, ctx) \<Rightarrow>
      (if pd_observed_effects diag = 0 \<or> pd_observed_effects diag AND NOT (cap_prepare_effects (vt_describe vt)) = 0
       then ((result, hook, diag), env)
       else let (hook1, env1) = (if result = HK_PREPARE_OK then hk_hook_release_prepared hook env else (hook, env))
       in ((HK_PREPARE_FAILED, hook1,
            diag\<lparr>pd_error_code := hk_status_code HK_STATUS_INTERNAL_ERROR,
                 pd_error_message := Some ''engine produced an undeclared preparation effect''\<rparr>), env1)))"

section \<open>What dispatch leaves alone\<close>

text \<open>\<open>same_hook h h'\<close>: identity, specification, route and handle are the same, and so are the outcome
  and the mutation state of the result.\<close>

definition same_hook :: "'e hk_hook \<Rightarrow> 'e hk_hook \<Rightarrow> bool" where
  "same_hook h h' \<longleftrightarrow> h_ref h' = h_ref h \<and> h_id h' = h_id h \<and> h_spec h' = h_spec h \<and>
     h_target_key h' = h_target_key h \<and> h_matched h' = h_matched h \<and> h_installed h' = h_installed h \<and>
     r_outcome (h_result h') = r_outcome (h_result h) \<and> r_mutation (h_result h') = r_mutation (h_result h) \<and>
     r_image_generation (h_result h') = r_image_generation (h_result h) \<and>
     r_plan_id (h_result h') = r_plan_id (h_result h) \<and>
     r_request_id (h_result h') = r_request_id (h_result h)"

lemma same_hook_refl [simp]: "same_hook h h"
  by (simp add: same_hook_def)

lemma same_hook_trans: "same_hook a b \<Longrightarrow> same_hook b c \<Longrightarrow> same_hook a c"
  by (simp add: same_hook_def)

lemma release_prepared_same:
  "hk_hook_release_prepared hook env = (hook', env') \<Longrightarrow> same_hook hook hook'"
  by (auto simp: hk_hook_release_prepared_def same_hook_def Let_def split: if_splits)

lemma release_prepared_clean:
  "hk_hook_release_prepared hook env = (hook', env') \<Longrightarrow> h_prepared_state hook' = 0"
  by (auto simp: hk_hook_release_prepared_def Let_def split: if_splits)

text \<open>Whatever an engine does in preparation, a failed attempt holds no prepared state.\<close>

definition prepare_step :: "'e hk_hook \<Rightarrow> (hk_prepare_result \<times> 'e hk_hook \<times> hk_prepare_diag) \<times> 'e \<Rightarrow> bool" where
  "prepare_step hook r = (case r of ((result, hook', diag), env') \<Rightarrow> same_hook hook hook')"

lemma inspect_same: "prepare_step hook (hk_hook_inspect_prepared_continuation hook diag env)"
proof (cases "inspect_callback hook")
  case None
  then show ?thesis by (simp add: prepare_step_def hk_hook_inspect_prepared_continuation_def)
next
  case (Some cf)
  obtain ctx f where cf: "cf = (ctx, f)" by fastforce
  obtain result info idiag env1 where f: "f ctx (h_spec hook) (h_prepared_state hook) env = ((result, info, idiag), env1)"
    by (metis surj_pair)
  obtain hook1 env2 where r: "hk_hook_release_prepared hook env1 = (hook1, env2)" by fastforce
  show ?thesis
    using Some cf f r release_prepared_same [OF r]
    by (auto simp: prepare_step_def hk_hook_inspect_prepared_continuation_def Let_def same_hook_def)
qed

lemma prepare_step_trans: "same_hook h h1 \<Longrightarrow> prepare_step h1 r \<Longrightarrow> prepare_step h r"
  by (auto simp: prepare_step_def split: prod.splits intro: same_hook_trans)

lemma same_hook_prepared [simp]: "same_hook h (h\<lparr>h_prepared_state := v\<rparr>)"
  by (simp add: same_hook_def)

lemma dispatch_prepare_same: "prepare_step hook (hk_hook_dispatch_prepare hook env)"
proof -
  have fin: "prepare_step hook (if result = HK_PREPARE_OK then hk_hook_inspect_prepared_continuation h diag e
      else ((result, h, diag), e))" if "same_hook hook h" for result h diag e
    using that prepare_step_trans [OF that inspect_same] by (auto simp: prepare_step_def)
  show ?thesis
    unfolding hk_hook_dispatch_prepare_def Let_def
    by (auto simp only: fin same_hook_refl same_hook_prepared split: option.splits prod.splits)
qed

lemma validate_prepare_same:
  assumes "hk_hook_validate_prepare_effects hook result diag env = ((result', hook', diag'), env')"
  shows "same_hook hook hook'" "result' = HK_PREPARE_OK \<Longrightarrow> result = HK_PREPARE_OK \<and> hook' = hook"
    "result' = result \<or> result' = HK_PREPARE_FAILED"
    "\<And>vt ctx. result' = HK_PREPARE_OK \<Longrightarrow> h_matched hook = Some (vt, ctx) \<Longrightarrow>
       pd_observed_effects diag' AND NOT (cap_prepare_effects (vt_describe vt)) = 0"
  using assms
  by (auto simp: hk_hook_validate_prepare_effects_def Let_def split: option.splits if_splits prod.splits
      dest: release_prepared_same)

end
