(* ===== verification/HK_Prepare.thy ===== *)
theory HK_Prepare
  imports HK_Dispatch
begin

text \<open>
  \<open>hk_plan_prepare\<close> (\<open>src/core/HKPlan.c\<close>): every hook with a route is prepared, one at a time or in
  contiguous groups; a domain that requires all its mandatory members is all or nothing. The locals
  of the C function are the record \<open>prepare_run\<close>; \<open>prepared\<close> keeps its \<open>size_t\<close> width because the
  code subtracts from it.
\<close>

record 'e prepare_run =
  pr_hooks :: "'e hk_hook list"
  pr_results :: "hk_hook_result list"
  pr_world :: "'e hk_world"
  pr_domain_failed :: "bool list"
  pr_attempted :: nat
  pr_prepared :: u64
  pr_failed :: nat

definition hk_domain_mandatory_gate_satisfied :: "'e hk_hook list \<Rightarrow> hk_domain \<Rightarrow> bool" where
  "hk_domain_mandatory_gate_satisfied hooks domain =
     (if \<not> ds_require_all_mandatory_prepared (d_spec domain) then True
      else list_all (\<lambda>h. hs_domain (h_spec h) = Some (d_ref domain) \<longrightarrow>
         \<not> (hs_role (h_spec h) = HK_OPERATION_MANDATORY \<and> r_outcome (h_result h) \<noteq> HK_OUTCOME_ANALYZED)) hooks)"

definition hk_plan_domain_index :: "hk_domain list \<Rightarrow> nat option \<Rightarrow> nat option" where
  "hk_plan_domain_index domains domain = (case domain of None \<Rightarrow> None
     | Some ref \<Rightarrow> first_index (\<lambda>d. d_ref d = ref) domains)"

definition store_hook :: "nat \<Rightarrow> 'e hk_hook \<Rightarrow> hk_hook_result \<Rightarrow> 'e prepare_run \<Rightarrow> 'e prepare_run" where
  "store_hook i hook out st =
     st\<lparr>pr_hooks := (pr_hooks st)[i := hook\<lparr>h_result := out\<rparr>], pr_results := (pr_results st)[i := out]\<rparr>"

abbreviation pr_set_env :: "'e \<Rightarrow> 'e prepare_run \<Rightarrow> 'e prepare_run" where
  "pr_set_env env st \<equiv> st\<lparr>pr_world := (pr_world st)\<lparr>w_env := env\<rparr>\<rparr>"

section \<open>The domain gate\<close>

definition release_member :: "nat \<Rightarrow> nat \<Rightarrow> nat \<times> 'e prepare_run \<Rightarrow> nat \<times> 'e prepare_run" where
  "release_member domain i = (\<lambda>(released, st).
     let hook = pr_hooks st ! i in
     if hs_domain (h_spec hook) \<noteq> Some domain \<or> r_outcome (h_result hook) \<noteq> HK_OUTCOME_PREPARED
     then (released, st)
     else let (hook1, env1) = hk_hook_release_prepared hook (w_env (pr_world st));
              out = (h_result hook1)\<lparr>r_outcome := HK_OUTCOME_FAILED_SAFE, r_mutation := HK_MUTATION_NONE,
                r_retryable := False, r_currently_valid := False, r_error_domain := Some ''core'',
                r_error_code := hk_status_code HK_STATUS_INVALID_STATE,
                r_error_message := Some ''mandatory domain preparation failed''\<rparr>
          in (released + 1, store_hook i hook1 out (pr_set_env env1 st)))"

definition hk_release_prepared_domain_members :: "nat \<Rightarrow> 'e prepare_run \<Rightarrow> nat \<times> 'e prepare_run" where
  "hk_release_prepared_domain_members domain st =
     fold (release_member domain) [0..<length (pr_hooks st)] (0, st)"

text \<open>The block the record and stale paths share: a mandatory member that failed takes its domain down.\<close>

definition fail_domain :: "hk_domain list \<Rightarrow> bool list \<Rightarrow> hk_hook_spec \<Rightarrow> 'e prepare_run \<Rightarrow> 'e prepare_run" where
  "fail_domain domains gate_ok spec st = (case hk_plan_domain_index domains (hs_domain spec) of
     None \<Rightarrow> st
   | Some k \<Rightarrow>
      (if gate_ok ! k \<and> ds_require_all_mandatory_prepared (d_spec (domains ! k)) \<and>
          hs_role spec = HK_OPERATION_MANDATORY
       then let st1 = st\<lparr>pr_domain_failed := (pr_domain_failed st)[k := True]\<rparr>;
                (released, st2) = hk_release_prepared_domain_members (d_ref (domains ! k)) st1
            in st2\<lparr>pr_prepared := pr_prepared st2 - of_nat released, pr_failed := pr_failed st2 + released\<rparr>
       else st))"

section \<open>Recording one attempt\<close>

definition defers_until_available :: "hk_hook_spec \<Rightarrow> bool" where
  "defers_until_available spec \<longleftrightarrow>
     (case hs_target spec of Target_Objc ob \<Rightarrow> objc_availability ob | _ \<Rightarrow> hs_availability spec) =
       HK_AVAILABILITY_DEFER_UNTIL_AVAILABLE"

text \<open>The error block runs only with an engine, which every hook with a route has.\<close>

definition prepare_error :: "'e hk_hook \<Rightarrow> hk_prepare_diag \<Rightarrow> hk_hook_result \<Rightarrow> hk_hook_result" where
  "prepare_error hook diag out =
     (if pd_error_message diag = None \<and> pd_error_code diag = 0 then out
      else let
        out1 = out\<lparr>r_error_code := pd_error_code diag\<rparr>;
        out2 = (if pd_error_message diag \<noteq> None then out1\<lparr>r_error_message := pd_error_message diag\<rparr> else out1)
      in case h_matched hook of None \<Rightarrow> out2
         | Some (vt, ctx) \<Rightarrow> (if cap_engine_id (vt_describe vt) \<noteq> None
             then out2\<lparr>r_error_domain := cap_engine_id (vt_describe vt)\<rparr> else out2))"

definition hk_plan_record_prepare_attempt :: "hk_domain list \<Rightarrow> bool list \<Rightarrow> nat \<Rightarrow> hk_prepare_result \<Rightarrow>
    hk_prepare_diag \<Rightarrow> 'e prepare_run \<Rightarrow> 'e prepare_run" where
  "hk_plan_record_prepare_attempt domains gate_ok i result0 diag0 st =
     (let ((result, hook1, diag), env1) =
            hk_hook_validate_prepare_effects (pr_hooks st ! i) result0 diag0 (w_env (pr_world st));
          (hook2, env2) = (if result \<noteq> HK_PREPARE_OK then hk_hook_release_prepared hook1 env1 else (hook1, env1));
          out = prepare_error hook2 diag ((pr_results st ! i)\<lparr>r_observed_prepare_effects := pd_observed_effects diag\<rparr>);
          st1 = pr_set_env env2 st;
          st2 = (if result = HK_PREPARE_OK then
              let out1 = out\<lparr>r_outcome := HK_OUTCOME_PREPARED\<rparr>;
                  out2 = (case h_prepared_continuation hook2 of None \<Rightarrow> out1 | Some c \<Rightarrow> out1\<lparr>r_continuation := c\<rparr>)
              in store_hook i hook2 out2 (st1\<lparr>pr_prepared := pr_prepared st1 + 1\<rparr>)
            else if result = HK_PREPARE_NOT_APPLICABLE \<and> defers_until_available (h_spec hook2) then
              store_hook i hook2 (out\<lparr>r_outcome := HK_OUTCOME_PENDING, r_retryable := True,
                r_currently_valid := False\<rparr>) st1
            else if result = HK_PREPARE_NOT_APPLICABLE then
              store_hook i hook2 (out\<lparr>r_outcome := HK_OUTCOME_NO_ROUTE, r_retryable := True,
                r_currently_valid := False\<rparr>) st1
            else store_hook i hook2 (out\<lparr>r_outcome := HK_OUTCOME_FAILED_SAFE\<rparr>)
                   (st1\<lparr>pr_failed := pr_failed st1 + 1\<rparr>))
      in if result = HK_PREPARE_FAILED then fail_domain domains gate_ok (h_spec hook2) st2 else st2)"

section \<open>Groups\<close>

definition same_engine :: "'e hk_hook \<Rightarrow> 'e hk_hook \<Rightarrow> bool" where
  "same_engine a b \<longleftrightarrow> map_option (\<lambda>(vt, ctx). (vt_id vt, ctx)) (h_matched a) =
     map_option (\<lambda>(vt, ctx). (vt_id vt, ctx)) (h_matched b)"

definition hk_plan_prepare_group_count :: "u64 \<Rightarrow> 'e hk_hook list \<Rightarrow> nat \<Rightarrow> nat" where
  "hk_plan_prepare_group_count generation hooks start =
     (if start \<ge> length hooks then 0
      else let first = hooks ! start in
      if r_outcome (h_result first) \<noteq> HK_OUTCOME_ANALYZED \<or> hs_domain (h_spec first) \<noteq> None then 0
      else (case h_matched first of None \<Rightarrow> 0
        | Some (vt, ctx) \<Rightarrow>
          (if vt_prepare_group_ctx vt = None \<or> \<not> cap_native_grouping (vt_describe vt) then 0
           else let n = 1 + length (takeWhile (\<lambda>h.
                  r_outcome (h_result h) = HK_OUTCOME_ANALYZED \<and> hs_domain (h_spec h) = None \<and>
                  same_engine h first \<and> r_image_generation (h_result h) = generation) (drop (start + 1) hooks))
                in if n > 1 then n else 0)))"

text \<open>The first loop of \<open>hk_plan_prepare_group\<close>: carry the results forward, release, fill in the operations.\<close>

definition group_start :: "nat \<Rightarrow> 'e prepare_run \<Rightarrow> 'e prepare_run" where
  "group_start i st =
     (let hook = pr_hooks st ! i; (hook1, env1) = hk_hook_release_prepared hook (w_env (pr_world st))
      in (pr_set_env env1 st)\<lparr>pr_results := (pr_results st)[i := h_result hook],
           pr_attempted := pr_attempted st + 1, pr_hooks := (pr_hooks st)[i := hook1]\<rparr>)"

definition fresh_operation :: "hk_hook_spec \<Rightarrow> hk_engine_operation" where
  "fresh_operation spec = \<lparr>op_spec = spec, op_prepared = 0, op_prepare_result = HK_PREPARE_FAILED,
     op_prepare_diag = zero_prepare_diag, op_sink = None, op_mutation = HK_MUTATION_NONE,
     op_verify_result = HK_VERIFY_UNAVAILABLE, op_verify_diag = zero_verify_diag,
     op_revalidated = False, op_compensated = False\<rparr>"

definition group_finish :: "hk_domain list \<Rightarrow> nat \<times> hk_engine_operation \<Rightarrow> 'e prepare_run \<Rightarrow> 'e prepare_run" where
  "group_finish domains = (\<lambda>(i, oper) st.
     let hook = (pr_hooks st ! i)\<lparr>h_prepared_state := op_prepared oper\<rparr>;
         ((inspected, hook1, diag), env1) =
           (if op_prepare_result oper = HK_PREPARE_OK
            then hk_hook_inspect_prepared_continuation hook (op_prepare_diag oper) (w_env (pr_world st))
            else ((HK_PREPARE_OK, hook, op_prepare_diag oper), w_env (pr_world st)));
         result = (if inspected \<noteq> HK_PREPARE_OK then inspected else op_prepare_result oper)
     in hk_plan_record_prepare_attempt domains [] i result diag
          ((pr_set_env env1 st)\<lparr>pr_hooks := (pr_hooks st)[i := hook1]\<rparr>))"

definition hk_plan_prepare_group :: "hk_domain list \<Rightarrow> nat \<Rightarrow> nat \<Rightarrow> 'e prepare_run \<Rightarrow> bool \<times> 'e prepare_run" where
  "hk_plan_prepare_group domains start n st =
     (let (ok, w1) = sys_alloc (pr_world st); st1 = st\<lparr>pr_world := w1\<rparr> in
      if \<not> ok then (False, st1)
      else let
        is = [start..<start + n];
        st2 = fold group_start is st1;
        operations = map (\<lambda>i. fresh_operation (h_spec (pr_hooks st2 ! i))) is;
        ((accepted, change), env1) = (case h_matched (pr_hooks st2 ! start) of
            None \<Rightarrow> ((False, \<lambda>_. id), w_env (pr_world st2))
          | Some (vt, ctx) \<Rightarrow> (case vt_prepare_group_ctx vt of
                None \<Rightarrow> ((False, \<lambda>_. id), w_env (pr_world st2))
              | Some f \<Rightarrow> f ctx operations (w_env (pr_world st2))));
        replies = map (\<lambda>k. let oper = change k (operations ! k) in
            if accepted then oper else oper\<lparr>op_prepare_result := HK_PREPARE_FAILED, op_prepared := 0\<rparr>) [0..<n]
      in (True, fold (group_finish domains) (zip is replies) (pr_set_env env1 st2)))"

section \<open>The loop\<close>

text \<open>One round for a hook that is not in a group.\<close>

definition prepare_single :: "u64 \<Rightarrow> hk_domain list \<Rightarrow> bool list \<Rightarrow> nat \<Rightarrow> 'e prepare_run \<Rightarrow> 'e prepare_run" where
  "prepare_single generation domains gate_ok i st =
     (let hook = pr_hooks st ! i; out = h_result hook;
          st0 = st\<lparr>pr_results := (pr_results st)[i := out]\<rparr> in
      if r_image_generation out \<noteq> generation then
        fail_domain domains gate_ok (h_spec hook)
          (store_hook i hook (out\<lparr>r_outcome := HK_OUTCOME_STALE_PLAN, r_retryable := True,
             r_currently_valid := False\<rparr>) (st0\<lparr>pr_failed := pr_failed st0 + 1\<rparr>))
      else let
        st1 = st0\<lparr>pr_attempted := pr_attempted st0 + 1\<rparr>;
        blocked = (case hk_plan_domain_index domains (hs_domain (h_spec hook)) of None \<Rightarrow> False
          | Some k \<Rightarrow> \<not> gate_ok ! k \<or> pr_domain_failed st1 ! k) in
      if blocked then
        store_hook i hook (out\<lparr>r_outcome := HK_OUTCOME_FAILED_SAFE\<rparr>) (st1\<lparr>pr_failed := pr_failed st1 + 1\<rparr>)
      else let
        (hook1, env1) = hk_hook_release_prepared hook (w_env (pr_world st1));
        ((result, hook2, diag), env2) = hk_hook_dispatch_prepare hook1 env1
      in hk_plan_record_prepare_attempt domains gate_ok i result diag
           ((pr_set_env env2 st1)\<lparr>pr_hooks := (pr_hooks st1)[i := hook2]\<rparr>))"

text \<open>The loop over the hooks; \<open>False\<close> when a group ran out of memory.\<close>

function prepare_loop :: "u64 \<Rightarrow> hk_domain list \<Rightarrow> bool list \<Rightarrow> nat \<Rightarrow> nat \<Rightarrow> 'e prepare_run \<Rightarrow> bool \<times> 'e prepare_run" where
  "prepare_loop generation domains gate_ok count i st =
     (if i \<ge> count then (True, st)
      else let hook = pr_hooks st ! i; st0 = st\<lparr>pr_results := (pr_results st)[i := h_result hook]\<rparr> in
      if r_outcome (h_result hook) \<noteq> HK_OUTCOME_ANALYZED
      then prepare_loop generation domains gate_ok count (i + 1) st0
      else let n = hk_plan_prepare_group_count generation (pr_hooks st0) i in
      if n > 1 then
        (case hk_plan_prepare_group domains i n st0 of
           (False, st1) \<Rightarrow> (False, st1)
         | (True, st1) \<Rightarrow> prepare_loop generation domains gate_ok count (i + n) st1)
      else prepare_loop generation domains gate_ok count (i + 1) (prepare_single generation domains gate_ok i st0))"
  by pat_completeness auto
termination by (relation "measure (\<lambda>(_, _, _, c, i, _). c - i)") auto

declare prepare_loop.simps [simp del]

definition prepare_start :: "'e hk_plan \<Rightarrow> 'e hk_world \<Rightarrow> 'e prepare_run" where
  "prepare_start plan w = \<lparr>pr_hooks = p_hooks plan, pr_results = map h_result (p_hooks plan), pr_world = w,
     pr_domain_failed = map (\<lambda>_. False) (p_domains plan), pr_attempted = 0, pr_prepared = 0, pr_failed = 0\<rparr>"

definition hk_plan_prepare :: "'e hk_plan \<Rightarrow> 'e hk_runtime \<Rightarrow> 'e hk_world \<Rightarrow>
    (hk_status + hk_report) \<times> 'e hk_plan \<times> 'e hk_world" where
  "hk_plan_prepare plan rt w =
     (if p_state plan \<noteq> HK_PLAN_ANALYZED then (Inl HK_STATUS_INVALID_STATE, plan, w)
      else let (ok1, w1) = (if p_hooks plan = [] then (True, w) else sys_alloc w) in
      if \<not> ok1 then (Inl HK_STATUS_OUT_OF_MEMORY, plan, w1)
      else let (ok2, w2) = (if p_domains plan = [] then (True, w1) else sys_alloc w1) in
      if \<not> ok2 then (Inl HK_STATUS_OUT_OF_MEMORY, plan, w2)
      else let (ok3, w3) = (if p_domains plan = [] then (True, w2) else sys_alloc w2) in
      if \<not> ok3 then (Inl HK_STATUS_OUT_OF_MEMORY, plan, w3)
      else let
        gate_ok = map (hk_domain_mandatory_gate_satisfied (p_hooks plan)) (p_domains plan);
        (ok, st) = prepare_loop (rt_generation rt) (p_domains plan) gate_ok (length (p_hooks plan)) 0
                     (prepare_start plan w3);
        plan1 = plan\<lparr>p_hooks := pr_hooks st\<rparr>
      in if \<not> ok then (Inl HK_STATUS_OUT_OF_MEMORY, plan1, pr_world st)
      else (case hk_report_create (pr_results st) (pr_world st) of
          (None, w4) \<Rightarrow> (Inl HK_STATUS_OUT_OF_MEMORY, plan1, w4)
        | (Some report, w4) \<Rightarrow>
            (Inr report, plan1\<lparr>p_state :=
               (if pr_failed st = 0 then HK_PLAN_PREPARED
                else if pr_prepared st = 0 \<and> pr_attempted st > 0 then HK_PLAN_FAILED
                else HK_PLAN_PARTIAL)\<rparr>, w4)))"

end
