(* ===== verification/HK_Prepare_Moves.thy ===== *)
theory HK_Prepare_Moves
  imports HK_Prepare
begin

text \<open>
  \<open>hk_plan_prepare\<close> as a sequence of moves on its locals: the step relation \<open>prepare_move\<close> says what one
  round can do to the outcomes, the counters and the domain flags, and \<open>prepare_loop_moves\<close> that
  the code does nothing else. The properties of preparation are invariants of the moves.
\<close>

section \<open>Moves\<close>

definition quiet :: "'e hk_world \<Rightarrow> 'e hk_world \<Rightarrow> bool" where
  "quiet w w' \<longleftrightarrow> (\<exists>e h. w' = w\<lparr>w_env := e, sys_heap := h\<rparr>)"

lemma quiet_refl [simp]: "quiet w w"
  unfolding quiet_def by (rule exI [of _ "w_env w"], rule exI [of _ "sys_heap w"]) simp

lemma quiet_trans: "quiet a b \<Longrightarrow> quiet b c \<Longrightarrow> quiet a c"
  unfolding quiet_def by (clarsimp, metis hk_sys.update_convs(1) hk_world.update_convs(1))

lemma quiet_env [simp]: "quiet w (w\<lparr>w_env := e\<rparr>)"
  unfolding quiet_def by (rule exI [of _ e], rule exI [of _ "sys_heap w"]) simp

lemma quiet_alloc: "sys_alloc w = (ok, w') \<Longrightarrow> quiet w w'"
  unfolding quiet_def
  by (rule exI [of _ "w_env w"]) (auto dest!: sys_alloc_frame simp: only_alloc_def)

lemma quietD:
  assumes "quiet w w'"
  shows "w_owners w' = w_owners w" "w_installed w' = w_installed w" "w_process_ledger w' = w_process_ledger w"
    "w_pac_strip w' = w_pac_strip w" "w_next_ref w' = w_next_ref w" "sys_counter w' = sys_counter w"
  using assms by (auto simp: quiet_def)

abbreviation oc :: "'e hk_hook \<Rightarrow> hk_outcome" where
  "oc h \<equiv> r_outcome (h_result h)"

definition failed_outcome :: "hk_outcome \<Rightarrow> bool" where
  "failed_outcome x \<longleftrightarrow> x = HK_OUTCOME_FAILED_SAFE \<or> x = HK_OUTCOME_STALE_PLAN"

text \<open>\<open>static h h'\<close>: everything but the prepared state and the result.\<close>

definition static :: "'e hk_hook \<Rightarrow> 'e hk_hook \<Rightarrow> bool" where
  "static h h' \<longleftrightarrow> h_ref h' = h_ref h \<and> h_id h' = h_id h \<and> h_spec h' = h_spec h \<and>
     h_target_key h' = h_target_key h \<and> h_matched h' = h_matched h \<and> h_installed h' = h_installed h"

lemma static_refl [simp]: "static h h"
  by (simp add: static_def)

lemma static_trans: "static a b \<Longrightarrow> static b c \<Longrightarrow> static a c"
  by (simp add: static_def)

lemma same_hook_static: "same_hook h h' \<Longrightarrow> static h h'"
  by (simp add: same_hook_def static_def)

definition clean :: "hk_domain list \<Rightarrow> 'e prepare_run \<Rightarrow> bool" where
  "clean domains st \<longleftrightarrow> length (pr_results st) = length (pr_hooks st) \<and>
     length (pr_domain_failed st) = length domains \<and>
     (\<forall>h \<in> set (pr_hooks st). r_mutation (h_result h) = HK_MUTATION_NONE) \<and>
     (\<forall>r \<in> set (pr_results st). r_mutation r = HK_MUTATION_NONE)"

text \<open>\<open>takes_down domains gate_ok spec = Some k\<close>: a failure of this hook fails domain \<open>k\<close>.\<close>

definition takes_down :: "hk_domain list \<Rightarrow> bool list \<Rightarrow> hk_hook_spec \<Rightarrow> nat option" where
  "takes_down domains gate_ok spec = (case hk_plan_domain_index domains (hs_domain spec) of
     None \<Rightarrow> None
   | Some k \<Rightarrow> (if gate_ok ! k \<and> ds_require_all_mandatory_prepared (d_spec (domains ! k)) \<and>
        hs_role spec = HK_OPERATION_MANDATORY then Some k else None))"

definition advance :: "nat \<Rightarrow> hk_outcome \<Rightarrow> 'e prepare_run \<Rightarrow> 'e prepare_run \<Rightarrow> bool" where
  "advance i x st st' \<longleftrightarrow> (\<exists>h'. pr_hooks st' = (pr_hooks st)[i := h'] \<and>
     pr_results st' = (pr_results st)[i := h_result h'] \<and> quiet (pr_world st) (pr_world st') \<and>
     pr_domain_failed st' = pr_domain_failed st \<and>
     pr_prepared st' = pr_prepared st + of_bool (x = HK_OUTCOME_PREPARED) \<and>
     pr_failed st' = pr_failed st + of_bool (failed_outcome x) \<and>
     static (pr_hooks st ! i) h' \<and> oc h' = x \<and> x \<noteq> HK_OUTCOME_ACTIVE \<and> r_mutation (h_result h') = HK_MUTATION_NONE)"

text \<open>Releasing the prepared members of the domain numbered \<open>ref\<close>.\<close>

definition member_released :: "nat \<Rightarrow> 'e hk_hook \<Rightarrow> 'e hk_hook \<Rightarrow> bool" where
  "member_released ref h h' \<longleftrightarrow>
     (if hs_domain (h_spec h) = Some ref \<and> oc h = HK_OUTCOME_PREPARED
      then static h h' \<and> oc h' = HK_OUTCOME_FAILED_SAFE \<and> r_mutation (h_result h') = HK_MUTATION_NONE
      else h' = h)"

definition prepared_members :: "nat \<Rightarrow> 'e hk_hook list \<Rightarrow> nat set" where
  "prepared_members ref hooks = {j. j < length hooks \<and> hs_domain (h_spec (hooks ! j)) = Some ref \<and>
     oc (hooks ! j) = HK_OUTCOME_PREPARED}"

definition released :: "nat \<Rightarrow> 'e prepare_run \<Rightarrow> 'e prepare_run \<Rightarrow> bool" where
  "released ref st st' \<longleftrightarrow> list_all2 (member_released ref) (pr_hooks st) (pr_hooks st') \<and>
     length (pr_results st') = length (pr_results st) \<and>
     ((\<forall>r \<in> set (pr_results st). r_mutation r = HK_MUTATION_NONE) \<longrightarrow>
        (\<forall>r \<in> set (pr_results st'). r_mutation r = HK_MUTATION_NONE)) \<and>
     quiet (pr_world st) (pr_world st') \<and>
     pr_domain_failed st' = pr_domain_failed st \<and> pr_attempted st' = pr_attempted st"

inductive prepare_move :: "hk_domain list \<Rightarrow> bool list \<Rightarrow> 'e prepare_run \<Rightarrow> 'e prepare_run \<Rightarrow> bool"
  for domains gate_ok where
  quiet_move: "list_all2 same_hook (pr_hooks st) (pr_hooks st') \<Longrightarrow> quiet (pr_world st) (pr_world st') \<Longrightarrow>
     pr_domain_failed st' = pr_domain_failed st \<Longrightarrow> pr_prepared st' = pr_prepared st \<Longrightarrow>
     pr_failed st' = pr_failed st \<Longrightarrow> length (pr_results st') = length (pr_results st) \<Longrightarrow>
     set (pr_results st') \<subseteq> set (pr_results st) \<union> h_result ` set (pr_hooks st) \<Longrightarrow>
     prepare_move domains gate_ok st st'"
| advance_move: "i < length (pr_hooks st) \<Longrightarrow> oc (pr_hooks st ! i) = HK_OUTCOME_ANALYZED \<Longrightarrow>
     advance i x st st' \<Longrightarrow> x \<noteq> HK_OUTCOME_ANALYZED \<Longrightarrow>
     (x = HK_OUTCOME_PREPARED \<Longrightarrow> case hk_plan_domain_index domains (hs_domain (h_spec (pr_hooks st ! i))) of
        None \<Rightarrow> True | Some k \<Rightarrow> gate_ok ! k \<and> \<not> pr_domain_failed st ! k) \<Longrightarrow>
     (failed_outcome x \<Longrightarrow> case takes_down domains gate_ok (h_spec (pr_hooks st ! i)) of
        None \<Rightarrow> True | Some k \<Rightarrow> pr_domain_failed st ! k) \<Longrightarrow>
     prepare_move domains gate_ok st st'"
| collapse_move: "i < length (pr_hooks st) \<Longrightarrow> oc (pr_hooks st ! i) = HK_OUTCOME_ANALYZED \<Longrightarrow>
     advance i x st st1 \<Longrightarrow> failed_outcome x \<Longrightarrow>
     takes_down domains gate_ok (h_spec (pr_hooks st ! i)) = Some k \<Longrightarrow>
     released (d_ref (domains ! k)) (st1\<lparr>pr_domain_failed := (pr_domain_failed st1)[k := True]\<rparr>) st2 \<Longrightarrow>
     n = card (prepared_members (d_ref (domains ! k)) (pr_hooks st1)) \<Longrightarrow>
     pr_prepared st2 = pr_prepared st1 \<Longrightarrow> pr_failed st2 = pr_failed st1 \<Longrightarrow>
     prepare_move domains gate_ok st
       (st2\<lparr>pr_prepared := pr_prepared st2 - of_nat n, pr_failed := pr_failed st2 + n\<rparr>)"

abbreviation prepare_moves :: "hk_domain list \<Rightarrow> bool list \<Rightarrow> 'e prepare_run \<Rightarrow> 'e prepare_run \<Rightarrow> bool" where
  "prepare_moves domains gate_ok \<equiv> (prepare_move domains gate_ok)\<^sup>*\<^sup>*"

lemma list_all2_same [simp]: "list_all2 same_hook xs xs"
  by (simp add: list_all2_refl)

lemma list_all2_same_update:
  "i < length xs \<Longrightarrow> same_hook (xs ! i) h \<Longrightarrow> list_all2 same_hook xs (xs[i := h])"
  by (auto simp: list_all2_conv_all_nth nth_list_update)

section \<open>Releasing the members of a domain\<close>

lemma release_member_step:
  assumes "release_member ref i (n, st) = (n', st')" "i < length (pr_hooks st)"
  shows "pr_hooks st' = (pr_hooks st)[i := pr_hooks st' ! i]"
    "member_released ref (pr_hooks st ! i) (pr_hooks st' ! i)"
    "n' = n + of_bool (hs_domain (h_spec (pr_hooks st ! i)) = Some ref \<and> oc (pr_hooks st ! i) = HK_OUTCOME_PREPARED)"
    "length (pr_results st') = length (pr_results st)"
    "(\<forall>r \<in> set (pr_results st). r_mutation r = HK_MUTATION_NONE) \<Longrightarrow>
       (\<forall>r \<in> set (pr_results st'). r_mutation r = HK_MUTATION_NONE)"
    "quiet (pr_world st) (pr_world st')"
    "pr_domain_failed st' = pr_domain_failed st" "pr_attempted st' = pr_attempted st"
    "pr_prepared st' = pr_prepared st" "pr_failed st' = pr_failed st"
proof -
  obtain h1 env1 where r: "hk_hook_release_prepared (pr_hooks st ! i) (w_env (pr_world st)) = (h1, env1)" by fastforce
  note s = same_hook_static [OF release_prepared_same [OF r]]
  show "pr_hooks st' = (pr_hooks st)[i := pr_hooks st' ! i]"
    "member_released ref (pr_hooks st ! i) (pr_hooks st' ! i)"
    "n' = n + of_bool (hs_domain (h_spec (pr_hooks st ! i)) = Some ref \<and> oc (pr_hooks st ! i) = HK_OUTCOME_PREPARED)"
    "length (pr_results st') = length (pr_results st)"
    "quiet (pr_world st) (pr_world st')"
    "pr_domain_failed st' = pr_domain_failed st" "pr_attempted st' = pr_attempted st"
    "pr_prepared st' = pr_prepared st" "pr_failed st' = pr_failed st"
    using assms r s
    by (auto simp: release_member_def store_hook_def member_released_def static_def Let_def split: if_splits)
  show "\<forall>r \<in> set (pr_results st'). r_mutation r = HK_MUTATION_NONE"
    if "\<forall>r \<in> set (pr_results st). r_mutation r = HK_MUTATION_NONE"
    using assms r that
    by (auto simp: release_member_def store_hook_def Let_def split: if_splits dest!: set_update_subset_insert [THEN subsetD])
qed

lemma release_members_upto:
  assumes "fold (release_member ref) [0..<k] (0, st) = (n, st')" "k \<le> length (pr_hooks st)"
  shows "length (pr_hooks st') = length (pr_hooks st) \<and>
    (\<forall>j < k. member_released ref (pr_hooks st ! j) (pr_hooks st' ! j)) \<and>
    (\<forall>j. k \<le> j \<longrightarrow> pr_hooks st' ! j = pr_hooks st ! j) \<and>
    n = card {j. j < k \<and> hs_domain (h_spec (pr_hooks st ! j)) = Some ref \<and> oc (pr_hooks st ! j) = HK_OUTCOME_PREPARED} \<and>
    length (pr_results st') = length (pr_results st) \<and>
    ((\<forall>r \<in> set (pr_results st). r_mutation r = HK_MUTATION_NONE) \<longrightarrow>
       (\<forall>r \<in> set (pr_results st'). r_mutation r = HK_MUTATION_NONE)) \<and>
    quiet (pr_world st) (pr_world st') \<and> pr_domain_failed st' = pr_domain_failed st \<and>
    pr_attempted st' = pr_attempted st \<and> pr_prepared st' = pr_prepared st \<and> pr_failed st' = pr_failed st"
  using assms
proof (induction k arbitrary: n st')
  case 0
  then show ?case by simp
next
  case (Suc k)
  obtain n1 st1 where f: "fold (release_member ref) [0..<k] (0, st) = (n1, st1)" by fastforce
  have step: "release_member ref k (n1, st1) = (n, st')" using Suc.prems(1) f by simp
  note IH = Suc.IH [OF f Suc_leD [OF Suc.prems(2)]]
  have k: "k < length (pr_hooks st1)" using IH Suc.prems(2) by auto
  note s = release_member_step [OF step k]
  have e: "pr_hooks st1 ! k = pr_hooks st ! k" using IH by auto
  have at: "pr_hooks st' ! j = (if j = k then pr_hooks st' ! k else pr_hooks st1 ! j)" for j
    by (subst s(1)) (auto simp: nth_list_update k)
  let ?P = "\<lambda>j. hs_domain (h_spec (pr_hooks st ! j)) = Some ref \<and> oc (pr_hooks st ! j) = HK_OUTCOME_PREPARED"
  have set: "{j. j < Suc k \<and> ?P j} = (if ?P k then insert k {j. j < k \<and> ?P j} else {j. j < k \<and> ?P j})"
    by (auto simp: less_Suc_eq)
  have c: "n = card {j. j < Suc k \<and> ?P j}"
    unfolding set using IH s(3) e by (auto simp: card_insert_if)
  have l: "length (pr_hooks st') = length (pr_hooks st)"
    using arg_cong [OF s(1), of length] IH by simp
  have m: "\<forall>j < Suc k. member_released ref (pr_hooks st ! j) (pr_hooks st' ! j)"
    using IH s(2) e at by (metis less_SucE)
  have u: "\<forall>j. Suc k \<le> j \<longrightarrow> pr_hooks st' ! j = pr_hooks st ! j"
    using IH at by auto
  have q: "quiet (pr_world st) (pr_world st')" using IH s(6) by (blast intro: quiet_trans)
  have r: "(\<forall>r \<in> set (pr_results st). r_mutation r = HK_MUTATION_NONE) \<longrightarrow>
       (\<forall>r \<in> set (pr_results st'). r_mutation r = HK_MUTATION_NONE)" using IH s(5) by blast
  show ?case
    using IH by (intro conjI l m u c q r) (simp_all only: s(4,7-))
qed

lemma release_domain_members:
  assumes "hk_release_prepared_domain_members ref st = (n, st')"
  shows "released ref st st'" "n = card (prepared_members ref (pr_hooks st))"
    "pr_prepared st' = pr_prepared st" "pr_failed st' = pr_failed st"
  using release_members_upto [OF assms [unfolded hk_release_prepared_domain_members_def] le_refl]
  by (auto simp: released_def prepared_members_def list_all2_conv_all_nth)

section \<open>The code makes only these moves\<close>

lemma fail_domain_move:
  assumes "i < length (pr_hooks st)" "oc (pr_hooks st ! i) = HK_OUTCOME_ANALYZED"
    "advance i x st st1" "failed_outcome x" "spec = h_spec (pr_hooks st ! i)"
  shows "prepare_move domains gate_ok st (fail_domain domains gate_ok spec st1)"
proof (cases "takes_down domains gate_ok spec")
  case None
  then have "fail_domain domains gate_ok spec st1 = st1"
    by (auto simp: fail_domain_def takes_down_def split: option.splits if_splits)
  moreover have "x \<noteq> HK_OUTCOME_ANALYZED" "x \<noteq> HK_OUTCOME_PREPARED" using assms(4) by (auto simp: failed_outcome_def)
  ultimately show ?thesis
    using advance_move [OF assms(1,2,3)] None assms(5) by simp
next
  case (Some k)
  obtain n st2 where r: "hk_release_prepared_domain_members (d_ref (domains ! k))
      (st1\<lparr>pr_domain_failed := (pr_domain_failed st1)[k := True]\<rparr>) = (n, st2)" by fastforce
  have e: "fail_domain domains gate_ok spec st1 =
      st2\<lparr>pr_prepared := pr_prepared st2 - of_nat n, pr_failed := pr_failed st2 + n\<rparr>"
    using Some r by (auto simp: fail_domain_def takes_down_def Let_def split: option.splits if_splits)
  note m = release_domain_members [OF r]
  show ?thesis
    unfolding e
    by (rule collapse_move [OF assms(1,2,3,4) Some [unfolded assms(5)] m(1)]) (use m in simp_all)
qed

lemma fail_domain_None:
  "hk_plan_domain_index domains (hs_domain spec) = None \<Longrightarrow> fail_domain domains g spec st = st"
  by (simp add: fail_domain_def)

lemma prepare_error_simps [simp]:
  "r_outcome (prepare_error hook diag out) = r_outcome out" "r_mutation (prepare_error hook diag out) = r_mutation out"
  by (auto simp: prepare_error_def Let_def split: option.splits)

text \<open>Recording moves the hook to one of four outcomes, and fails the domain after a failure.\<close>

lemma record_advances:
  assumes "i < length (pr_hooks st)" "clean domains st"
  obtains x st1 where "x \<in> {HK_OUTCOME_PREPARED, HK_OUTCOME_PENDING, HK_OUTCOME_NO_ROUTE, HK_OUTCOME_FAILED_SAFE}"
    "advance i x st st1"
    "hk_plan_record_prepare_attempt domains g i result0 diag0 st =
       (if x = HK_OUTCOME_FAILED_SAFE then fail_domain domains g (h_spec (pr_hooks st ! i)) st1 else st1)"
proof -
  let ?h = "pr_hooks st ! i"
  obtain result h1 diag env1 where v: "hk_hook_validate_prepare_effects ?h result0 diag0 (w_env (pr_world st)) =
      ((result, h1, diag), env1)" by (metis surj_pair)
  obtain h2 env2 where r: "(if result \<noteq> HK_PREPARE_OK then hk_hook_release_prepared h1 env1 else (h1, env1)) = (h2, env2)"
    by fastforce
  have s: "same_hook ?h h2"
    using validate_prepare_same(1) [OF v] r release_prepared_same [of h1 env1 h2 env2]
    by (auto split: if_splits intro: same_hook_trans)
  note st = same_hook_static [OF s]
  have spec: "h_spec h2 = h_spec ?h" using st by (simp add: static_def)
  have m: "r_mutation (pr_results st ! i) = HK_MUTATION_NONE"
    using assms by (auto simp: clean_def)
  define out where "out = prepare_error h2 diag ((pr_results st ! i)\<lparr>r_observed_prepare_effects := pd_observed_effects diag\<rparr>)"
  define outp where "outp = (case h_prepared_continuation h2 of None \<Rightarrow> out\<lparr>r_outcome := HK_OUTCOME_PREPARED\<rparr>
      | Some c \<Rightarrow> out\<lparr>r_outcome := HK_OUTCOME_PREPARED, r_continuation := c\<rparr>)"
  define res where "res = (if result = HK_PREPARE_OK then outp
     else if result = HK_PREPARE_NOT_APPLICABLE \<and> defers_until_available (h_spec h2) then
       out\<lparr>r_outcome := HK_OUTCOME_PENDING, r_retryable := True, r_currently_valid := False\<rparr>
     else if result = HK_PREPARE_NOT_APPLICABLE then
       out\<lparr>r_outcome := HK_OUTCOME_NO_ROUTE, r_retryable := True, r_currently_valid := False\<rparr>
     else out\<lparr>r_outcome := HK_OUTCOME_FAILED_SAFE\<rparr>)"
  define st1 where "st1 = store_hook i h2 res ((pr_set_env env2 st)\<lparr>
     pr_prepared := pr_prepared st + of_bool (r_outcome res = HK_OUTCOME_PREPARED),
     pr_failed := pr_failed st + of_bool (failed_outcome (r_outcome res))\<rparr>)"
  have mo: "r_mutation res = HK_MUTATION_NONE"
    using m by (auto simp: res_def outp_def out_def split: option.splits)
  have x: "r_outcome res \<in> {HK_OUTCOME_PREPARED, HK_OUTCOME_PENDING, HK_OUTCOME_NO_ROUTE, HK_OUTCOME_FAILED_SAFE}"
    by (auto simp: res_def outp_def split: option.splits)
  then have na: "r_outcome res \<noteq> HK_OUTCOME_ACTIVE" by auto
  have f: "r_outcome res = HK_OUTCOME_FAILED_SAFE \<longleftrightarrow> result = HK_PREPARE_FAILED"
    by (cases result) (auto simp: res_def outp_def split: option.splits)
  have adv: "advance i (r_outcome res) st st1"
    unfolding advance_def st1_def store_hook_def
    using st mo na by (intro exI [of _ "h2\<lparr>h_result := res\<rparr>"]) (simp add: static_def)
  have rec: "hk_plan_record_prepare_attempt domains g i result0 diag0 st =
      (if result = HK_PREPARE_FAILED then fail_domain domains g (h_spec h2) st1 else st1)"
    unfolding hk_plan_record_prepare_attempt_def v Let_def prod.case r
    by (cases result)
      (simp_all add: st1_def res_def outp_def out_def failed_outcome_def store_hook_def split: option.splits)
  show thesis
    by (rule that [OF x adv]) (simp only: rec f spec)
qed

lemma record_move:
  assumes "i < length (pr_hooks st)" "clean domains st" "oc (pr_hooks st ! i) = HK_OUTCOME_ANALYZED"
    "case hk_plan_domain_index domains (hs_domain (h_spec (pr_hooks st ! i))) of
       None \<Rightarrow> True | Some k \<Rightarrow> g = gate_ok \<and> gate_ok ! k \<and> \<not> pr_domain_failed st ! k"
  shows "prepare_move domains gate_ok st (hk_plan_record_prepare_attempt domains g i result0 diag0 st)"
proof -
  let ?spec = "h_spec (pr_hooks st ! i)"
  obtain x st1 where x: "x \<in> {HK_OUTCOME_PREPARED, HK_OUTCOME_PENDING, HK_OUTCOME_NO_ROUTE, HK_OUTCOME_FAILED_SAFE}"
    "advance i x st st1"
    "hk_plan_record_prepare_attempt domains g i result0 diag0 st =
       (if x = HK_OUTCOME_FAILED_SAFE then fail_domain domains g ?spec st1 else st1)"
    using record_advances [OF assms(1,2)] by blast
  have g: "fail_domain domains g ?spec st1 = fail_domain domains gate_ok ?spec st1"
    using assms(4) by (auto simp: fail_domain_None split: option.splits)
  show ?thesis
  proof (cases "x = HK_OUTCOME_FAILED_SAFE")
    case True
    then show ?thesis
      using fail_domain_move [OF assms(1,3) x(2) _ refl] x(3) g by (simp add: failed_outcome_def)
  next
    case False
    then have "\<not> failed_outcome x" "x \<noteq> HK_OUTCOME_ANALYZED" using x(1) by (auto simp: failed_outcome_def)
    then show ?thesis
      using advance_move [OF assms(1,3) x(2)] assms(4) x(3) False by (auto split: option.splits)
  qed
qed

lemma all_update: "\<forall>x \<in> set xs. P x \<Longrightarrow> P y \<Longrightarrow> \<forall>x \<in> set (xs[i := y]). P x"
  using set_update_subset_insert [of xs i y] by auto

lemma clean_advance:
  assumes "advance i x st st'" "clean domains st"
  shows "clean domains st'"
proof -
  from assms(1) obtain h' where h': "pr_hooks st' = (pr_hooks st)[i := h']"
    "pr_results st' = (pr_results st)[i := h_result h']" "pr_domain_failed st' = pr_domain_failed st"
    "r_mutation (h_result h') = HK_MUTATION_NONE" unfolding advance_def by blast
  have "\<forall>h \<in> set (pr_hooks st'). r_mutation (h_result h) = HK_MUTATION_NONE"
    unfolding h'(1) using assms(2) h'(4) by (intro all_update) (auto simp: clean_def)
  moreover have "\<forall>r \<in> set (pr_results st'). r_mutation r = HK_MUTATION_NONE"
    unfolding h'(2) using assms(2) h'(4) by (intro all_update) (auto simp: clean_def)
  ultimately show ?thesis using assms(2) h' unfolding clean_def by simp
qed

lemma clean_move: "prepare_move domains gate_ok st st' \<Longrightarrow> clean domains st \<Longrightarrow> clean domains st'"
proof (induction rule: prepare_move.induct)
  case (quiet_move st st')
  have "r_mutation (h_result h) = HK_MUTATION_NONE" if h: "h \<in> set (pr_hooks st')" for h
  proof -
    from h obtain j where j: "j < length (pr_hooks st')" "h = pr_hooks st' ! j" by (metis in_set_conv_nth)
    have "same_hook (pr_hooks st ! j) h" "j < length (pr_hooks st)"
      using quiet_move(1) j by (auto simp: list_all2_conv_all_nth)
    then show ?thesis using quiet_move(8) by (simp add: clean_def same_hook_def)
  qed
  moreover have "length (pr_hooks st') = length (pr_hooks st)" using quiet_move(1) by (simp add: list_all2_lengthD)
  ultimately show ?case using quiet_move unfolding clean_def by auto
next
  case (advance_move i st x st')
  then show ?case by (simp add: clean_advance)
next
  case (collapse_move i st x st1 k st2 n)
  then have c: "clean domains st1" by (simp add: clean_advance)
  have "r_mutation (h_result h) = HK_MUTATION_NONE" if "h \<in> set (pr_hooks st2)" for h
  proof -
    from that obtain j where j: "j < length (pr_hooks st2)" "h = pr_hooks st2 ! j" by (metis in_set_conv_nth)
    have "member_released (d_ref (domains ! k)) (pr_hooks st1 ! j) h" "j < length (pr_hooks st1)"
      using collapse_move(6) j by (auto simp: released_def list_all2_conv_all_nth)
    then show ?thesis using c by (auto simp: member_released_def clean_def split: if_splits)
  qed
  moreover have "length (pr_hooks st2) = length (pr_hooks st1)"
    using collapse_move(6) by (auto simp: released_def dest: list_all2_lengthD)
  ultimately show ?case using collapse_move(6) c unfolding clean_def released_def by simp
qed

lemma clean_moves: "prepare_moves domains gate_ok st st' \<Longrightarrow> clean domains st \<Longrightarrow> clean domains st'"
  by (induction rule: rtranclp_induct) (auto intro: clean_move)

lemma quiet_moveI:
  assumes "pr_hooks st' = (pr_hooks st)[i := h]" "i < length (pr_hooks st)" "same_hook (pr_hooks st ! i) h"
    "quiet (pr_world st) (pr_world st')" "pr_domain_failed st' = pr_domain_failed st"
    "pr_prepared st' = pr_prepared st" "pr_failed st' = pr_failed st"
    "pr_results st' = pr_results st \<or> pr_results st' = (pr_results st)[j := h_result (pr_hooks st ! i)]"
  shows "prepare_move domains gate_ok st st'"
proof (rule quiet_move)
  show "list_all2 same_hook (pr_hooks st) (pr_hooks st')"
    unfolding assms(1) by (rule list_all2_same_update [OF assms(2,3)])
  show "set (pr_results st') \<subseteq> set (pr_results st) \<union> h_result ` set (pr_hooks st)"
    using assms(2,8) set_update_subset_insert [of "pr_results st" j "h_result (pr_hooks st ! i)"] by auto
  show "length (pr_results st') = length (pr_results st)" using assms(8) by auto
qed (use assms in auto)

lemma same_nth: "i < length xs \<Longrightarrow> xs = xs[i := xs ! i]"
  by simp

lemma blocked_move:
  assumes "i < length (pr_hooks st)" "clean domains st" "oc (pr_hooks st ! i) = HK_OUTCOME_ANALYZED"
    "hk_plan_domain_index domains (hs_domain (h_spec (pr_hooks st ! i))) = Some k"
    "\<not> gate_ok ! k \<or> pr_domain_failed st ! k"
  shows "prepare_move domains gate_ok st (store_hook i (pr_hooks st ! i)
    ((h_result (pr_hooks st ! i))\<lparr>r_outcome := HK_OUTCOME_FAILED_SAFE\<rparr>) (st\<lparr>pr_failed := pr_failed st + 1\<rparr>))"
proof (rule advance_move [OF assms(1,3), where x = HK_OUTCOME_FAILED_SAFE])
  have m: "r_mutation (h_result (pr_hooks st ! i)) = HK_MUTATION_NONE" using assms(1,2) by (auto simp: clean_def)
  show "advance i HK_OUTCOME_FAILED_SAFE st (store_hook i (pr_hooks st ! i)
      ((h_result (pr_hooks st ! i))\<lparr>r_outcome := HK_OUTCOME_FAILED_SAFE\<rparr>) (st\<lparr>pr_failed := pr_failed st + 1\<rparr>))"
    unfolding advance_def store_hook_def
    by (intro exI [of _ "(pr_hooks st ! i)\<lparr>h_result := (h_result (pr_hooks st ! i))\<lparr>r_outcome := HK_OUTCOME_FAILED_SAFE\<rparr>\<rparr>"])
      (simp add: static_def failed_outcome_def m)
  show "case takes_down domains gate_ok (h_spec (pr_hooks st ! i)) of None \<Rightarrow> True | Some k \<Rightarrow> pr_domain_failed st ! k"
    using assms(4,5) by (auto simp: takes_down_def split: option.splits)
qed simp_all

lemma stale_move:
  assumes "i < length (pr_hooks st)" "clean domains st" "oc (pr_hooks st ! i) = HK_OUTCOME_ANALYZED"
  shows "prepare_move domains gate_ok st (fail_domain domains gate_ok (h_spec (pr_hooks st ! i))
    (store_hook i (pr_hooks st ! i) ((h_result (pr_hooks st ! i))\<lparr>r_outcome := HK_OUTCOME_STALE_PLAN,
       r_retryable := True, r_currently_valid := False\<rparr>) (st\<lparr>pr_failed := pr_failed st + 1\<rparr>)))"
proof (rule fail_domain_move [OF assms(1,3), where x = HK_OUTCOME_STALE_PLAN])
  let ?r = "(h_result (pr_hooks st ! i))\<lparr>r_outcome := HK_OUTCOME_STALE_PLAN, r_retryable := True,
    r_currently_valid := False\<rparr>"
  have m: "r_mutation (h_result (pr_hooks st ! i)) = HK_MUTATION_NONE" using assms(1,2) by (auto simp: clean_def)
  show "advance i HK_OUTCOME_STALE_PLAN st (store_hook i (pr_hooks st ! i) ?r (st\<lparr>pr_failed := pr_failed st + 1\<rparr>))"
    unfolding advance_def store_hook_def
    by (intro exI [of _ "(pr_hooks st ! i)\<lparr>h_result := ?r\<rparr>"]) (simp add: static_def failed_outcome_def m)
qed (simp_all add: failed_outcome_def)

lemma two_moves: "R a b \<Longrightarrow> R b c \<Longrightarrow> R\<^sup>*\<^sup>* a c"
  by (rule rtranclp.rtrancl_into_rtrancl [OF r_into_rtranclp])

lemma then_moves:
  "prepare_move domains gate_ok a b \<Longrightarrow> prepare_moves domains gate_ok b c \<Longrightarrow> prepare_moves domains gate_ok a c"
  by (rule converse_rtranclp_into_rtranclp)

lemma prepare_single_moves:
  assumes i: "i < length (pr_hooks st)" and c: "clean domains st" and a: "oc (pr_hooks st ! i) = HK_OUTCOME_ANALYZED"
  shows "prepare_moves domains gate_ok st (prepare_single generation domains gate_ok i st)"
proof -
  let ?h = "pr_hooks st ! i"
  let ?st0 = "st\<lparr>pr_results := (pr_results st)[i := h_result ?h]\<rparr>"
  let ?st1 = "?st0\<lparr>pr_attempted := pr_attempted ?st0 + 1\<rparr>"
  have m0: "prepare_move domains gate_ok st ?st0" "prepare_move domains gate_ok st ?st1"
    by (rule quiet_moveI [where i = i and h = ?h and j = i]; use i in simp)+
  note c0 = clean_move [OF m0(1) c] clean_move [OF m0(2) c]
  show ?thesis
  proof (cases "r_image_generation (h_result ?h) = generation")
    case False
    then have e: "prepare_single generation domains gate_ok i st = fail_domain domains gate_ok (h_spec (pr_hooks ?st0 ! i))
        (store_hook i (pr_hooks ?st0 ! i) ((h_result (pr_hooks ?st0 ! i))\<lparr>r_outcome := HK_OUTCOME_STALE_PLAN,
           r_retryable := True, r_currently_valid := False\<rparr>) (?st0\<lparr>pr_failed := pr_failed ?st0 + 1\<rparr>))"
      by (simp add: prepare_single_def Let_def)
    show ?thesis
      unfolding e by (rule two_moves [where R = "prepare_move domains gate_ok", OF m0(1)], rule stale_move) (use i a c0(1) in simp_all)
  next
    case fresh: True
    let ?index = "hk_plan_domain_index domains (hs_domain (h_spec ?h))"
    show ?thesis
    proof (cases "\<exists>k. ?index = Some k \<and> (\<not> gate_ok ! k \<or> pr_domain_failed st ! k)")
      case True
      then obtain k where k: "?index = Some k" "\<not> gate_ok ! k \<or> pr_domain_failed st ! k" by auto
      then have e: "prepare_single generation domains gate_ok i st = store_hook i (pr_hooks ?st1 ! i)
        ((h_result (pr_hooks ?st1 ! i))\<lparr>r_outcome := HK_OUTCOME_FAILED_SAFE\<rparr>) (?st1\<lparr>pr_failed := pr_failed ?st1 + 1\<rparr>)"
        using fresh by (simp add: prepare_single_def Let_def)
      show ?thesis
        unfolding e by (rule two_moves [where R = "prepare_move domains gate_ok", OF m0(2)], rule blocked_move [where k = k]) (use i a k c0(2) in simp_all)
    next
      case False
      obtain h1 env1 where r: "hk_hook_release_prepared ?h (w_env (pr_world st)) = (h1, env1)" by fastforce
      obtain result h2 diag env2 where d: "hk_hook_dispatch_prepare h1 env1 = ((result, h2, diag), env2)"
        by (metis surj_pair)
      have s: "same_hook ?h h2"
        using release_prepared_same [OF r] dispatch_prepare_same [of h1 env1] d
        by (auto simp: prepare_step_def intro: same_hook_trans)
      let ?st2 = "(pr_set_env env2 ?st1)\<lparr>pr_hooks := (pr_hooks ?st1)[i := h2]\<rparr>"
      have m2: "prepare_move domains gate_ok ?st1 ?st2"
        by (rule quiet_moveI [where i = i and h = h2]) (use i s in simp_all)
      have e: "prepare_single generation domains gate_ok i st =
          hk_plan_record_prepare_attempt domains gate_ok i result diag ?st2"
        using fresh False r d by (auto simp: prepare_single_def Let_def split: option.splits)
      have "prepare_move domains gate_ok ?st2 (hk_plan_record_prepare_attempt domains gate_ok i result diag ?st2)"
        using i a s False by (intro record_move clean_move [OF m2 c0(2)]) (auto simp: same_hook_def split: option.splits)
      with two_moves [where R = "prepare_move domains gate_ok", OF m0(2) m2] show ?thesis unfolding e by (rule rtranclp.rtrancl_into_rtrancl)
    qed
  qed
qed

lemma moves_hooks:
  assumes "prepare_moves domains gate_ok st st'"
  shows "length (pr_hooks st') = length (pr_hooks st)"
    "i < length (pr_hooks st) \<Longrightarrow> static (pr_hooks st ! i) (pr_hooks st' ! i)"
proof -
  have "length (pr_hooks st') = length (pr_hooks st) \<and>
      (\<forall>i < length (pr_hooks st). static (pr_hooks st ! i) (pr_hooks st' ! i))"
    using assms
  proof (induction rule: rtranclp_induct)
    case (step st1 st2)
    have one: "length (pr_hooks b) = length (pr_hooks a) \<and> (\<forall>i < length (pr_hooks a). static (pr_hooks a ! i) (pr_hooks b ! i))"
      if "advance i x a b" for i x and a b :: "'a prepare_run"
      using that by (cases "i < length (pr_hooks a)") (auto simp: advance_def nth_list_update)
    have "length (pr_hooks st2) = length (pr_hooks st1) \<and>
        (\<forall>i < length (pr_hooks st1). static (pr_hooks st1 ! i) (pr_hooks st2 ! i))"
      using step(2)
    proof (cases rule: prepare_move.cases)
      case quiet_move
      then show ?thesis by (auto simp: list_all2_conv_all_nth intro: same_hook_static)
    next
      case (advance_move i x)
      then show ?thesis using one by blast
    next
      case (collapse_move i x st1' k st2' n)
      have ms: "static h h'" if "member_released r h h'" for r h h'
        using that by (auto simp: member_released_def split: if_splits)
      have "list_all2 (member_released (d_ref (domains ! k))) (pr_hooks st1') (pr_hooks st2')"
        using collapse_move(7) by (simp add: released_def)
      then have "\<forall>j < length (pr_hooks st1'). static (pr_hooks st1' ! j) (pr_hooks st2' ! j)"
        "length (pr_hooks st2') = length (pr_hooks st1')"
        using ms by (metis list_all2_conv_all_nth)+
      then show ?thesis
        using collapse_move(1) one [OF collapse_move(4)] static_trans by fastforce
    qed
    with step(3) show ?case by (auto intro: static_trans)
  qed simp
  then show "length (pr_hooks st') = length (pr_hooks st)"
    "i < length (pr_hooks st) \<Longrightarrow> static (pr_hooks st ! i) (pr_hooks st' ! i)" by auto
qed

lemma moves_inactive:
  assumes "prepare_moves domains gate_ok st st'" "\<forall>h \<in> set (pr_hooks st). oc h \<noteq> HK_OUTCOME_ACTIVE"
  shows "\<forall>h \<in> set (pr_hooks st'). oc h \<noteq> HK_OUTCOME_ACTIVE"
  using assms
proof (induction rule: rtranclp_induct)
  case (step st1 st2)
  have one: "\<forall>h \<in> set (pr_hooks b). oc h \<noteq> HK_OUTCOME_ACTIVE"
    if "advance i x a b" "\<forall>h \<in> set (pr_hooks a). oc h \<noteq> HK_OUTCOME_ACTIVE" for i x and a b :: "'a prepare_run"
    using that all_update [of "pr_hooks a" "\<lambda>h. oc h \<noteq> HK_OUTCOME_ACTIVE"] by (auto simp: advance_def)
  have ih: "\<forall>h \<in> set (pr_hooks st1). oc h \<noteq> HK_OUTCOME_ACTIVE" using step(3,4) .
  show ?case
    using step(2)
  proof (cases rule: prepare_move.cases)
    case quiet_move
    then show ?thesis using ih by (fastforce simp: list_all2_conv_all_nth same_hook_def in_set_conv_nth)
  next
    case (advance_move i x)
    then show ?thesis using one ih by blast
  next
    case (collapse_move i x st1' k st2' n)
    have "\<forall>h \<in> set (pr_hooks st1'). oc h \<noteq> HK_OUTCOME_ACTIVE" using one [OF collapse_move(4) ih] .
    moreover have "list_all2 (member_released (d_ref (domains ! k))) (pr_hooks st1') (pr_hooks st2')"
      using collapse_move(7) by (simp add: released_def)
    ultimately show ?thesis
      unfolding collapse_move(1)
      by (fastforce simp: list_all2_conv_all_nth in_set_conv_nth member_released_def split: if_splits)
  qed
qed simp

section \<open>Groups\<close>

definition groupable :: "nat set \<Rightarrow> 'e prepare_run \<Rightarrow> bool" where
  "groupable is st \<longleftrightarrow> (\<forall>i \<in> is. i < length (pr_hooks st) \<and>
     oc (pr_hooks st ! i) = HK_OUTCOME_ANALYZED \<and> hs_domain (h_spec (pr_hooks st ! i)) = None)"

lemma group_start_move:
  assumes "i < length (pr_hooks st)"
  shows "prepare_move domains gate_ok st (group_start i st)"
    "groupable is st \<Longrightarrow> groupable is (group_start i st)"
    "length (pr_hooks (group_start i st)) = length (pr_hooks st)"
proof -
  obtain h1 env1 where r: "hk_hook_release_prepared (pr_hooks st ! i) (w_env (pr_world st)) = (h1, env1)" by fastforce
  note s = release_prepared_same [OF r]
  show "prepare_move domains gate_ok st (group_start i st)"
    by (rule quiet_moveI [where i = i and h = h1 and j = i]) (use assms r s in \<open>simp_all add: group_start_def Let_def\<close>)
  show "groupable is (group_start i st)" if "groupable is st"
    using that r s assms by (auto simp: groupable_def group_start_def Let_def nth_list_update same_hook_def)
  show "length (pr_hooks (group_start i st)) = length (pr_hooks st)"
    using r by (simp add: group_start_def Let_def)
qed

lemma fold_group_start:
  assumes "\<forall>i \<in> set xs. i < length (pr_hooks st)"
  shows "prepare_moves domains gate_ok st (fold group_start xs st) \<and>
    (groupable is st \<longrightarrow> groupable is (fold group_start xs st)) \<and>
    length (pr_hooks (fold group_start xs st)) = length (pr_hooks st)"
  using assms
proof (induction xs arbitrary: st)
  case (Cons i xs)
  have i: "i < length (pr_hooks st)" using Cons.prems by simp
  note g = group_start_move [OF i]
  have "prepare_moves domains gate_ok (group_start i st) (fold group_start xs (group_start i st)) \<and>
    (groupable is (group_start i st) \<longrightarrow> groupable is (fold group_start xs (group_start i st))) \<and>
    length (pr_hooks (fold group_start xs (group_start i st))) = length (pr_hooks (group_start i st))"
    using Cons.prems g(3) by (intro Cons.IH) auto
  then show ?case using g by (auto intro: then_moves)
qed simp

lemma group_finish_moves:
  assumes i: "i < length (pr_hooks st)" and c: "clean domains st" and g: "groupable {i} st"
  shows "prepare_moves domains gate_ok st (group_finish domains (i, oper) st)"
    "pr_hooks (group_finish domains (i, oper) st) = (pr_hooks st)[i := pr_hooks (group_finish domains (i, oper) st) ! i]"
proof -
  let ?h = "(pr_hooks st ! i)\<lparr>h_prepared_state := op_prepared oper\<rparr>"
  obtain inspected h1 diag env1 where p: "(if op_prepare_result oper = HK_PREPARE_OK
      then hk_hook_inspect_prepared_continuation ?h (op_prepare_diag oper) (w_env (pr_world st))
      else ((HK_PREPARE_OK, ?h, op_prepare_diag oper), w_env (pr_world st))) = ((inspected, h1, diag), env1)"
    by (metis surj_pair)
  have s: "same_hook (pr_hooks st ! i) h1"
    using p inspect_same [of ?h "op_prepare_diag oper" "w_env (pr_world st)"]
    by (auto simp: prepare_step_def split: if_splits intro: same_hook_trans [OF same_hook_prepared])
  define res where "res = (if inspected \<noteq> HK_PREPARE_OK then inspected else op_prepare_result oper)"
  define st1 where "st1 = (pr_set_env env1 st)\<lparr>pr_hooks := (pr_hooks st)[i := h1]\<rparr>"
  have e: "group_finish domains (i, oper) st = hk_plan_record_prepare_attempt domains [] i res diag st1"
    using p by (simp add: group_finish_def Let_def res_def st1_def)
  have m1: "prepare_move domains gate_ok st st1"
    unfolding st1_def by (rule quiet_moveI [where i = i and h = h1]) (use i s in simp_all)
  have c1: "clean domains st1" by (rule clean_move [OF m1 c])
  have h1: "pr_hooks st1 ! i = h1" "i < length (pr_hooks st1)" using i by (simp_all add: st1_def)
  have d: "hk_plan_domain_index domains (hs_domain (h_spec h1)) = None" "oc h1 = HK_OUTCOME_ANALYZED"
    using g s by (auto simp: groupable_def same_hook_def hk_plan_domain_index_def)
  have "prepare_move domains gate_ok st1 (hk_plan_record_prepare_attempt domains [] i res diag st1)"
    by (rule record_move [OF h1(2) c1]) (simp_all add: h1 d)
  with m1 show "prepare_moves domains gate_ok st (group_finish domains (i, oper) st)"
    unfolding e by (rule two_moves)
  obtain x st2 where x: "advance i x st1 st2"
    "hk_plan_record_prepare_attempt domains [] i res diag st1 =
       (if x = HK_OUTCOME_FAILED_SAFE then fail_domain domains [] (h_spec (pr_hooks st1 ! i)) st2 else st2)"
    using record_advances [OF h1(2) c1] by blast
  then have "group_finish domains (i, oper) st = st2"
    unfolding e by (simp add: fail_domain_None d h1)
  then show "pr_hooks (group_finish domains (i, oper) st) = (pr_hooks st)[i := pr_hooks (group_finish domains (i, oper) st) ! i]"
    using x(1) i by (auto simp: advance_def st1_def)
qed

lemma fold_group_finish:
  assumes "clean domains st" "groupable (fst ` set xs) st" "distinct (map fst xs)"
  shows "prepare_moves domains gate_ok st (fold (group_finish domains) xs st)"
  using assms
proof (induction xs arbitrary: st)
  case (Cons x xs)
  obtain i oper where x: "x = (i, oper)" by fastforce
  have i: "i < length (pr_hooks st)" "groupable {i} st" using Cons.prems(2) x by (auto simp: groupable_def)
  note g = group_finish_moves(1) [OF i(1) Cons.prems(1) i(2), where gate_ok = gate_ok and oper = oper]
    group_finish_moves(2) [OF i(1) Cons.prems(1) i(2), where oper = oper]
  have gr: "groupable (fst ` set xs) (group_finish domains (i, oper) st)"
    unfolding groupable_def
  proof
    fix j assume j: "j \<in> fst ` set xs"
    then have "j \<noteq> i" using Cons.prems(3) x by auto
    moreover have "j < length (pr_hooks st) \<and> oc (pr_hooks st ! j) = HK_OUTCOME_ANALYZED \<and>
        hs_domain (h_spec (pr_hooks st ! j)) = None"
      using Cons.prems(2) j by (auto simp: groupable_def)
    ultimately show "j < length (pr_hooks (group_finish domains (i, oper) st)) \<and>
        oc (pr_hooks (group_finish domains (i, oper) st) ! j) = HK_OUTCOME_ANALYZED \<and>
        hs_domain (h_spec (pr_hooks (group_finish domains (i, oper) st) ! j)) = None"
      by (subst (1 2 3) g(2)) simp
  qed
  have "prepare_moves domains gate_ok (group_finish domains (i, oper) st)
      (fold (group_finish domains) xs (group_finish domains (i, oper) st))"
    using Cons.prems(3) by (intro Cons.IH clean_moves [OF g(1) Cons.prems(1)] gr) simp
  with g(1) show ?case by (simp add: x)
qed simp

lemma prepare_group_moves:
  assumes "hk_plan_prepare_group domains start n st = (ok, st')" "clean domains st"
    "groupable {start..<start + n} st" "0 < n"
  shows "prepare_moves domains gate_ok st st'"
proof -
  obtain ok1 w1 where a: "sys_alloc (pr_world st) = (ok1, w1)" by fastforce
  let ?st1 = "st\<lparr>pr_world := w1\<rparr>"
  have s: "start < length (pr_hooks st)" using assms(3,4) by (auto simp: groupable_def)
  have m1: "prepare_move domains gate_ok st ?st1"
    by (rule quiet_moveI [where i = start and h = "pr_hooks st ! start"]) (use s quiet_alloc [OF a] in simp_all)
  show ?thesis
  proof (cases ok1)
    case False
    then show ?thesis using assms(1) a m1 by (auto simp: hk_plan_prepare_group_def Let_def)
  next
    case True
    let ?is = "[start..<start + n]"
    define st2 where "st2 = fold group_start ?is ?st1"
    have g1: "groupable {start..<start + n} ?st1" using assms(3) by (simp add: groupable_def)
    have m2: "prepare_moves domains gate_ok ?st1 st2" "groupable {start..<start + n} st2"
      "length (pr_hooks st2) = length (pr_hooks st)"
      using fold_group_start [of ?is ?st1 domains gate_ok "{start..<start + n}"] g1
      by (auto simp: st2_def groupable_def)
    obtain accepted change env1 where cb: "(case h_matched (pr_hooks st2 ! start) of
            None \<Rightarrow> ((False, \<lambda>_. id), w_env (pr_world st2))
          | Some (vt, ctx) \<Rightarrow> (case vt_prepare_group_ctx vt of
                None \<Rightarrow> ((False, \<lambda>_. id), w_env (pr_world st2))
              | Some f \<Rightarrow> f ctx (map (\<lambda>i. fresh_operation (h_spec (pr_hooks st2 ! i))) ?is) (w_env (pr_world st2)))) =
        ((accepted, change), env1)" by (metis surj_pair)
    let ?st3 = "pr_set_env env1 st2"
    have m3: "prepare_move domains gate_ok st2 ?st3"
      by (rule quiet_moveI [where i = start and h = "pr_hooks st2 ! start"]) (use s m2(3) in simp_all)
    define replies where "replies = map (\<lambda>k. let oper = change k
        (map (\<lambda>i. fresh_operation (h_spec (pr_hooks st2 ! i))) ?is ! k) in
        if accepted then oper else oper\<lparr>op_prepare_result := HK_PREPARE_FAILED, op_prepared := 0\<rparr>) [0..<n]"
    have "hk_plan_prepare_group domains start n st = (True, fold (group_finish domains) (zip ?is replies) ?st3)"
      unfolding hk_plan_prepare_group_def a Let_def prod.case st2_def [symmetric] cb replies_def
      using True by simp
    then have st': "st' = fold (group_finish domains) (zip ?is replies) ?st3" "length replies = n"
      using assms(1) by (simp_all add: replies_def)
    have m23: "prepare_moves domains gate_ok st ?st3"
      using m1 m2(1) m3 by (meson then_moves rtranclp.rtrancl_into_rtrancl)
    have "prepare_moves domains gate_ok ?st3 st'"
      unfolding st'(1)
    proof (rule fold_group_finish)
      show "clean domains ?st3" by (rule clean_moves [OF m23 assms(2)])
      show "groupable (fst ` set (zip ?is replies)) ?st3"
        using m2(2) by (auto simp: groupable_def dest!: set_zip_leftD)
      show "distinct (map fst (zip ?is replies))" using st'(2) by simp
    qed
    with m23 show ?thesis by simp
  qed
qed

lemma group_count_groupable:
  assumes "hk_plan_prepare_group_count generation (pr_hooks st) i = n" "n > 1"
  shows "groupable {i..<i + n} st"
proof -
  let ?hs = "pr_hooks st"
  let ?P = "\<lambda>h. r_outcome (h_result h) = HK_OUTCOME_ANALYZED \<and> hs_domain (h_spec h) = None \<and>
      same_engine h (?hs ! i) \<and> r_image_generation (h_result h) = generation"
  have f: "i < length ?hs" "oc (?hs ! i) = HK_OUTCOME_ANALYZED" "hs_domain (h_spec (?hs ! i)) = None"
    "n = 1 + length (takeWhile ?P (drop (i + 1) ?hs))"
    using assms by (auto simp: hk_plan_prepare_group_count_def Let_def split: if_splits option.splits)
  have "j < length ?hs \<and> oc (?hs ! j) = HK_OUTCOME_ANALYZED \<and> hs_domain (h_spec (?hs ! j)) = None"
    if "i \<le> j" "j < i + n" for j
  proof (cases "j = i")
    case False
    let ?k = "j - (i + 1)"
    have k: "?k < length (takeWhile ?P (drop (i + 1) ?hs))" using that False f(4) by linarith
    then have "?k < length (drop (i + 1) ?hs)" by (meson length_takeWhile_le less_le_trans)
    then have j: "j < length ?hs" "drop (i + 1) ?hs ! ?k = ?hs ! j" using that False by auto
    have "?P (takeWhile ?P (drop (i + 1) ?hs) ! ?k)" using nth_mem [OF k] by (auto dest: set_takeWhileD)
    then show ?thesis using j takeWhile_nth [OF k] by auto
  qed (use f in simp)
  then show ?thesis by (auto simp: groupable_def)
qed

section \<open>The loop\<close>

lemma prepare_loop_moves:
  assumes "prepare_loop generation domains gate_ok n i st = (ok, st')" "n = length (pr_hooks st)" "clean domains st"
  shows "prepare_moves domains gate_ok st st'"
  using assms
proof (induction generation domains gate_ok n i st arbitrary: ok st' rule: prepare_loop.induct)
  case (1 generation domains gate_ok n i st)
  let ?h = "pr_hooks st ! i"
  let ?st0 = "st\<lparr>pr_results := (pr_results st)[i := h_result ?h]\<rparr>"
  let ?g = "hk_plan_prepare_group_count generation (pr_hooks ?st0) i"
  show ?case
  proof (cases "i \<ge> n")
    case True
    then show ?thesis using 1(4) by (subst (asm) prepare_loop.simps) simp
  next
    case i: False
    have m0: "prepare_move domains gate_ok st ?st0"
      by (rule quiet_moveI [where i = i and h = ?h and j = i]) (use i 1(5) in simp_all)
    note c0 = clean_move [OF m0 1(6)]
    show ?thesis
    proof (cases "oc ?h = HK_OUTCOME_ANALYZED")
      case False
      then have "prepare_loop generation domains gate_ok n (i + 1) ?st0 = (ok, st')"
        using 1(4) i by (subst (asm) prepare_loop.simps) (simp add: Let_def)
      from 1(1) [OF i refl refl False this _ c0] have "prepare_moves domains gate_ok ?st0 st'"
        using 1(5) by simp
      then show ?thesis by (rule then_moves [OF m0])
    next
      case a: True
      then have na: "\<not> oc ?h \<noteq> HK_OUTCOME_ANALYZED" by simp
      show ?thesis
      proof (cases "?g > 1")
        case g: True
        obtain ok1 st1 where p: "hk_plan_prepare_group domains i ?g ?st0 = (ok1, st1)" by fastforce
        have m1: "prepare_moves domains gate_ok ?st0 st1"
          by (rule prepare_group_moves [OF p c0 group_count_groupable [OF refl g]]) (use g in simp)
        show ?thesis
        proof (cases ok1)
          case False
          then have "st' = st1" using 1(4) i a g p by (subst (asm) prepare_loop.simps) (simp add: Let_def)
          then show ?thesis using then_moves [OF m0 m1] by simp
        next
          case True
          then have "prepare_loop generation domains gate_ok n (i + ?g) st1 = (ok, st')"
            using 1(4) i a g p by (subst (asm) prepare_loop.simps) (simp add: Let_def)
          then have "prepare_moves domains gate_ok st1 st'"
            using 1(2) [OF i refl refl na refl g p [symmetric]] True clean_moves [OF m1 c0]
              moves_hooks(1) [OF m1] 1(5) by simp
          with then_moves [OF m0 m1] show ?thesis by simp
        qed
      next
        case g: False
        have m1: "prepare_moves domains gate_ok ?st0 (prepare_single generation domains gate_ok i ?st0)"
          using prepare_single_moves [where st = ?st0 and i = i] c0 a i 1(5) by simp
        have "prepare_loop generation domains gate_ok n (i + 1) (prepare_single generation domains gate_ok i ?st0) = (ok, st')"
          using 1(4) i a g by (subst (asm) prepare_loop.simps) (simp add: Let_def)
        from 1(3) [OF i refl refl na refl g this _ clean_moves [OF m1 c0]]
        have "prepare_moves domains gate_ok (prepare_single generation domains gate_ok i ?st0) st'"
          using moves_hooks(1) [OF m1] 1(5) by simp
        with then_moves [OF m0 m1] show ?thesis by simp
      qed
    qed
  qed
qed

end
