(* ===== verification/HK_Prepare_Props.thy ===== *)
theory HK_Prepare_Props
  imports HK_Prepare_Moves
begin

text \<open>
  Properties of \<open>hk_plan_prepare\<close>, as invariants of its moves: preparation mutates nothing, a domain
  that requires its mandatory members is all or nothing, and the state of the plan tells what
  became of its hooks.
\<close>

section \<open>Sets of hooks by outcome\<close>

definition ocset :: "(hk_outcome \<Rightarrow> bool) \<Rightarrow> 'e hk_hook list \<Rightarrow> nat set" where
  "ocset P hooks = {j. j < length hooks \<and> P (oc (hooks ! j))}"

lemma finite_ocset [simp]: "finite (ocset P hooks)"
  by (simp add: ocset_def)

lemma card_ocset_le: "card (ocset P hooks) \<le> length hooks"
  using card_mono [of "{..<length hooks}" "ocset P hooks"] by (auto simp: ocset_def)

lemma ocset_update:
  assumes "i < length hooks" "\<not> P (oc (hooks ! i))"
  shows "card (ocset P (hooks[i := h])) = card (ocset P hooks) + of_bool (P (oc h))"
proof -
  have "ocset P (hooks[i := h]) = (if P (oc h) then insert i (ocset P hooks) else ocset P hooks)"
    using assms by (auto simp: ocset_def nth_list_update)
  moreover have "i \<notin> ocset P hooks" using assms(2) by (simp add: ocset_def)
  ultimately show ?thesis by simp
qed

lemma ocset_same: "list_all2 same_hook hooks hooks' \<Longrightarrow> ocset P hooks' = ocset P hooks"
  by (auto simp: ocset_def list_all2_conv_all_nth same_hook_def)

lemma member_released_oc:
  assumes "list_all2 (member_released ref) hooks hooks'" "j < length hooks"
  shows "oc (hooks' ! j) = (if j \<in> prepared_members ref hooks then HK_OUTCOME_FAILED_SAFE else oc (hooks ! j))"
    "h_spec (hooks' ! j) = h_spec (hooks ! j)"
proof -
  have "member_released ref (hooks ! j) (hooks' ! j)" using assms by (simp add: list_all2_conv_all_nth)
  then show "oc (hooks' ! j) = (if j \<in> prepared_members ref hooks then HK_OUTCOME_FAILED_SAFE else oc (hooks ! j))"
    "h_spec (hooks' ! j) = h_spec (hooks ! j)"
    using assms(2) by (auto simp: member_released_def prepared_members_def static_def split: if_splits)
qed

lemma ocset_released:
  assumes "list_all2 (member_released ref) hooks hooks'"
  shows "ocset (\<lambda>x. x = HK_OUTCOME_PREPARED) hooks' = ocset (\<lambda>x. x = HK_OUTCOME_PREPARED) hooks - prepared_members ref hooks"
    "ocset failed_outcome hooks' = ocset failed_outcome hooks \<union> prepared_members ref hooks"
    "prepared_members ref hooks \<subseteq> ocset (\<lambda>x. x = HK_OUTCOME_PREPARED) hooks"
    "prepared_members ref hooks \<inter> ocset failed_outcome hooks = {}"
proof -
  have l: "length hooks' = length hooks" using assms by (simp add: list_all2_lengthD)
  have sub: "j \<in> prepared_members ref hooks \<Longrightarrow> j < length hooks" for j by (simp add: prepared_members_def)
  show "ocset (\<lambda>x. x = HK_OUTCOME_PREPARED) hooks' = ocset (\<lambda>x. x = HK_OUTCOME_PREPARED) hooks - prepared_members ref hooks"
    using member_released_oc(1) [OF assms] by (auto simp: ocset_def l split: if_splits)
  show "ocset failed_outcome hooks' = ocset failed_outcome hooks \<union> prepared_members ref hooks"
    using member_released_oc(1) [OF assms] sub
    by (auto simp: ocset_def l failed_outcome_def split: if_splits)
  show "prepared_members ref hooks \<subseteq> ocset (\<lambda>x. x = HK_OUTCOME_PREPARED) hooks"
    "prepared_members ref hooks \<inter> ocset failed_outcome hooks = {}"
    by (auto simp: prepared_members_def ocset_def failed_outcome_def)
qed

section \<open>The invariant\<close>

lemma domain_index_Some:
  assumes "hk_plan_domain_index domains d = Some k"
  shows "k < length domains" "d = Some (d_ref (domains ! k))"
  using assms by (auto simp: hk_plan_domain_index_def split: option.splits dest: first_index_SomeD)

lemma takes_down_index: "takes_down domains gate_ok spec = Some k \<Longrightarrow> hk_plan_domain_index domains (hs_domain spec) = Some k"
  by (auto simp: takes_down_def split: option.splits if_splits)

definition prepare_inv :: "hk_domain list \<Rightarrow> bool list \<Rightarrow> 'e prepare_run \<Rightarrow> bool" where
  "prepare_inv domains gate_ok st \<longleftrightarrow>
     length (pr_domain_failed st) = length domains \<and>
     pr_prepared st = of_nat (card (ocset (\<lambda>x. x = HK_OUTCOME_PREPARED) (pr_hooks st))) \<and>
     pr_failed st = card (ocset failed_outcome (pr_hooks st)) \<and>
     (\<forall>j < length (pr_hooks st). \<forall>k. hk_plan_domain_index domains (hs_domain (h_spec (pr_hooks st ! j))) = Some k \<longrightarrow>
        \<not> gate_ok ! k \<or> pr_domain_failed st ! k \<longrightarrow> oc (pr_hooks st ! j) \<noteq> HK_OUTCOME_PREPARED) \<and>
     (\<forall>j < length (pr_hooks st). \<forall>k. takes_down domains gate_ok (h_spec (pr_hooks st ! j)) = Some k \<longrightarrow>
        failed_outcome (oc (pr_hooks st ! j)) \<longrightarrow> pr_domain_failed st ! k)"

lemma advance_counts:
  assumes "advance i x st st'" "i < length (pr_hooks st)" "oc (pr_hooks st ! i) = HK_OUTCOME_ANALYZED"
    "pr_prepared st = of_nat (card (ocset (\<lambda>x. x = HK_OUTCOME_PREPARED) (pr_hooks st)))"
    "pr_failed st = card (ocset failed_outcome (pr_hooks st))"
  shows "pr_prepared st' = of_nat (card (ocset (\<lambda>x. x = HK_OUTCOME_PREPARED) (pr_hooks st')))"
    "pr_failed st' = card (ocset failed_outcome (pr_hooks st'))"
  using assms
  by (auto simp: advance_def ocset_update failed_outcome_def)

lemma advance_at:
  assumes "advance i x st st'" "i < length (pr_hooks st)" "j < length (pr_hooks st)"
  shows "h_spec (pr_hooks st' ! j) = h_spec (pr_hooks st ! j)"
    "oc (pr_hooks st' ! j) = (if j = i then x else oc (pr_hooks st ! j))"
    "length (pr_hooks st') = length (pr_hooks st)" "pr_domain_failed st' = pr_domain_failed st"
  using assms by (auto simp: advance_def static_def nth_list_update)

lemma prepare_inv_move:
  assumes "prepare_move domains gate_ok st st'" "prepare_inv domains gate_ok st"
  shows "prepare_inv domains gate_ok st'"
  using assms
proof (cases rule: prepare_move.cases)
  case quiet_move
  have s: "length (pr_hooks st') = length (pr_hooks st)"
    "\<And>j. j < length (pr_hooks st) \<Longrightarrow> oc (pr_hooks st' ! j) = oc (pr_hooks st ! j) \<and>
       h_spec (pr_hooks st' ! j) = h_spec (pr_hooks st ! j)"
    using quiet_move(1) by (auto simp: list_all2_conv_all_nth same_hook_def)
  show ?thesis
    using assms(2) quiet_move(3-5) s unfolding prepare_inv_def ocset_same [OF quiet_move(1)] by simp
next
  case (advance_move i x)
  note at = advance_at [OF advance_move(3,1)]
  note cnt = advance_counts [OF advance_move(3,1,2)]
  have l: "length (pr_hooks st') = length (pr_hooks st)" "pr_domain_failed st' = pr_domain_failed st"
    using at(3,4) [OF advance_move(1)] by auto
  show ?thesis
    unfolding prepare_inv_def l
  proof (intro conjI allI impI)
    show "length (pr_domain_failed st) = length domains" using assms(2) by (simp add: prepare_inv_def)
    show "pr_prepared st' = of_nat (card (ocset (\<lambda>x. x = HK_OUTCOME_PREPARED) (pr_hooks st')))"
      "pr_failed st' = card (ocset failed_outcome (pr_hooks st'))"
      using cnt assms(2) by (simp_all add: prepare_inv_def)
    fix j k assume j: "j < length (pr_hooks st)"
    show "oc (pr_hooks st' ! j) \<noteq> HK_OUTCOME_PREPARED"
      if "hk_plan_domain_index domains (hs_domain (h_spec (pr_hooks st' ! j))) = Some k"
        "\<not> gate_ok ! k \<or> pr_domain_failed st ! k"
      using that assms(2) j at(1,2) [OF j] advance_move(5) by (auto simp: prepare_inv_def)
    show "pr_domain_failed st ! k"
      if "takes_down domains gate_ok (h_spec (pr_hooks st' ! j)) = Some k" "failed_outcome (oc (pr_hooks st' ! j))"
      using that assms(2) j at(1,2) [OF j] advance_move(6)
      by (cases "j = i") (auto simp: prepare_inv_def)
  qed
next
  case (collapse_move i x st1 k st2 n)
  note at1 = advance_at [OF collapse_move(4,2)]
  note cnt1 = advance_counts [OF collapse_move(4,2,3)]
  let ?ref = "d_ref (domains ! k)"
  have rel: "list_all2 (member_released ?ref) (pr_hooks st1) (pr_hooks st2)"
    "pr_domain_failed st2 = (pr_domain_failed st1)[k := True]"
    using collapse_move(7) by (auto simp: released_def)
  note at2 = member_released_oc [OF rel(1)]
  note sets = ocset_released [OF rel(1)]
  have l1: "length (pr_hooks st1) = length (pr_hooks st)" "pr_domain_failed st1 = pr_domain_failed st"
    using at1(3,4) [OF collapse_move(2)] by auto
  have l2: "length (pr_hooks st2) = length (pr_hooks st)" using rel(1) l1 by (simp add: list_all2_lengthD)
  note ik = takes_down_index [OF collapse_move(6)]
  have k: "k < length (pr_domain_failed st)"
    using domain_index_Some(1) [OF ik] assms(2) by (simp add: prepare_inv_def)
  have pm: "finite (prepared_members ?ref (pr_hooks st1))" by (simp add: prepared_members_def)
  have st': "pr_hooks st' = pr_hooks st2" "pr_domain_failed st' = (pr_domain_failed st)[k := True]"
    "pr_prepared st' = pr_prepared st1 - of_nat n" "pr_failed st' = pr_failed st1 + n"
    using collapse_move(1,9,10) rel(2) l1(2) by simp_all
  have c1: "pr_prepared st1 = of_nat (card (ocset (\<lambda>x. x = HK_OUTCOME_PREPARED) (pr_hooks st1)))"
    "pr_failed st1 = card (ocset failed_outcome (pr_hooks st1))"
    using cnt1 assms(2) by (simp_all add: prepare_inv_def)
  have oc2: "oc (pr_hooks st2 ! j) = (if j \<in> prepared_members ?ref (pr_hooks st1) then HK_OUTCOME_FAILED_SAFE
      else if j = i then x else oc (pr_hooks st ! j))" "h_spec (pr_hooks st2 ! j) = h_spec (pr_hooks st ! j)"
    if "j < length (pr_hooks st)" for j
    using that at1(1,2) [OF that] at2 [of j] l1(1) by auto
  show ?thesis
    unfolding prepare_inv_def st' l2
  proof (intro conjI allI impI)
    show "length ((pr_domain_failed st)[k := True]) = length domains" using assms(2) by (simp add: prepare_inv_def)
    have "n \<le> card (ocset (\<lambda>x. x = HK_OUTCOME_PREPARED) (pr_hooks st1))"
      unfolding collapse_move(8) by (rule card_mono [OF finite_ocset sets(3)])
    then show "pr_prepared st1 - of_nat n = of_nat (card (ocset (\<lambda>x. x = HK_OUTCOME_PREPARED) (pr_hooks st2)))"
      unfolding sets(1) c1(1) card_Diff_subset [OF pm sets(3)] collapse_move(8) by simp
    show "pr_failed st1 + n = card (ocset failed_outcome (pr_hooks st2))"
      unfolding sets(2) c1(2) collapse_move(8) using sets(4) pm by (subst card_Un_disjoint) auto
    fix j k' assume j: "j < length (pr_hooks st)"
    show "oc (pr_hooks st2 ! j) \<noteq> HK_OUTCOME_PREPARED"
      if "hk_plan_domain_index domains (hs_domain (h_spec (pr_hooks st2 ! j))) = Some k'"
        "\<not> gate_ok ! k' \<or> (pr_domain_failed st)[k := True] ! k'"
    proof (cases "k' = k")
      case True
      have "hs_domain (h_spec (pr_hooks st1 ! j)) = Some ?ref"
        using that(1) True domain_index_Some(2) at1(1) [OF j] oc2(2) [OF j] by auto
      then have "j \<in> prepared_members ?ref (pr_hooks st1) \<or> oc (pr_hooks st1 ! j) \<noteq> HK_OUTCOME_PREPARED"
        using j l1(1) by (auto simp: prepared_members_def)
      then show ?thesis using at2(1) [of j] j l1(1) by auto
    next
      case False
      then show ?thesis
        using that assms(2) j oc2 [OF j] collapse_move(5)
        by (auto simp: prepare_inv_def failed_outcome_def)
    qed
    show "(pr_domain_failed st)[k := True] ! k'"
      if t: "takes_down domains gate_ok (h_spec (pr_hooks st2 ! j)) = Some k'" "failed_outcome (oc (pr_hooks st2 ! j))"
    proof (cases "k' = k")
      case True
      then show ?thesis using k by simp
    next
      case False
      have "j \<notin> prepared_members ?ref (pr_hooks st1)"
      proof
        assume "j \<in> prepared_members ?ref (pr_hooks st1)"
        then have "hs_domain (h_spec (pr_hooks st ! j)) = Some ?ref"
          using at1(1) [OF j] by (simp add: prepared_members_def)
        moreover have "hs_domain (h_spec (pr_hooks st ! i)) = Some ?ref"
          using domain_index_Some(2) [OF ik] .
        ultimately have "hk_plan_domain_index domains (hs_domain (h_spec (pr_hooks st ! j))) = Some k"
          using ik by simp
        then show False using takes_down_index [OF t(1)] oc2(2) [OF j] False by simp
      qed
      moreover have "j \<noteq> i" using t(1) collapse_move(6) False oc2(2) [OF j] by auto
      ultimately show ?thesis
        using t assms(2) j oc2 [OF j] False by (auto simp: prepare_inv_def)
    qed
  qed
qed

lemma prepare_inv_moves:
  "prepare_moves domains gate_ok st st' \<Longrightarrow> prepare_inv domains gate_ok st \<Longrightarrow> prepare_inv domains gate_ok st'"
  by (induction rule: rtranclp_induct) (auto intro: prepare_inv_move)

lemma quiet_move_world: "prepare_move domains gate_ok st st' \<Longrightarrow> quiet (pr_world st) (pr_world st')"
  by (cases rule: prepare_move.cases) (auto simp: advance_def released_def intro: quiet_trans)

lemma quiet_moves_world: "prepare_moves domains gate_ok st st' \<Longrightarrow> quiet (pr_world st) (pr_world st')"
  by (induction rule: rtranclp_induct) (auto intro: quiet_move_world quiet_trans)

section \<open>Runs of \<open>hk_plan_prepare\<close>\<close>

definition plan_gate :: "'e hk_plan \<Rightarrow> bool list" where
  "plan_gate plan = map (hk_domain_mandatory_gate_satisfied (p_hooks plan)) (p_domains plan)"

lemma plan_prepare_cases:
  fixes plan :: "'e hk_plan" and w :: "'e hk_world"
  assumes run: "hk_plan_prepare plan rt w = (r, plan', w')"
    and c: "\<forall>h \<in> set (p_hooks plan). r_mutation (h_result h) = HK_MUTATION_NONE"
  obtains (early) e where "r = Inl e" "plan' = plan" "hk_sys.more w' = hk_sys.more w"
  | (moved) w3 st where "p_state plan = HK_PLAN_ANALYZED" "hk_sys.more w3 = hk_sys.more w"
      "prepare_moves (p_domains plan) (plan_gate plan) (prepare_start plan w3) st"
      "hk_sys.more w' = hk_sys.more (pr_world st)"
      "case r of Inl e \<Rightarrow> plan' = plan\<lparr>p_hooks := pr_hooks st\<rparr>
       | Inr report \<Rightarrow> rp_results report = pr_results st \<and> plan' = plan\<lparr>p_hooks := pr_hooks st, p_state :=
               (if pr_failed st = 0 then HK_PLAN_PREPARED
                else if pr_prepared st = 0 \<and> pr_attempted st > 0 then HK_PLAN_FAILED
                else HK_PLAN_PARTIAL)\<rparr>"
proof -
  obtain ok1 w1 where a1: "(if p_hooks plan = [] then (True, w) else sys_alloc w) = (ok1, w1)" by fastforce
  obtain ok2 w2 where a2: "(if p_domains plan = [] then (True, w1) else sys_alloc w1) = (ok2, w2)" by fastforce
  obtain ok3 w3 where a3: "(if p_domains plan = [] then (True, w2) else sys_alloc w2) = (ok3, w3)" by fastforce
  have f: "hk_sys.more w1 = hk_sys.more w" "hk_sys.more w2 = hk_sys.more w1" "hk_sys.more w3 = hk_sys.more w2"
    using a1 a2 a3 by (auto split: if_splits dest!: sys_alloc_frame only_allocD(4))
  obtain ok st where l: "prepare_loop (rt_generation rt) (p_domains plan) (plan_gate plan) (length (p_hooks plan)) 0
      (prepare_start plan w3) = (ok, st)" by fastforce
  show thesis
  proof (cases "p_state plan = HK_PLAN_ANALYZED \<and> ok1 \<and> ok2 \<and> ok3")
    case False
    then have "\<exists>e. r = Inl e" "plan' = plan" "hk_sys.more w' = hk_sys.more w"
      using run a1 a2 a3 f unfolding hk_plan_prepare_def by (auto simp: Let_def split: if_splits)
    then show ?thesis using early by blast
  next
    case True
    have m: "prepare_moves (p_domains plan) (plan_gate plan) (prepare_start plan w3) st"
      by (rule prepare_loop_moves [OF l]) (use c in \<open>auto simp: prepare_start_def clean_def\<close>)
    obtain rep w4 where rc: "hk_report_create (pr_results st) (pr_world st) = (rep, w4)" by fastforce
    note rf = hk_report_create_frame [OF rc]
    have run': "(if \<not> ok then (Inl HK_STATUS_OUT_OF_MEMORY, plan\<lparr>p_hooks := pr_hooks st\<rparr>, pr_world st)
      else (case rep of
          None \<Rightarrow> (Inl HK_STATUS_OUT_OF_MEMORY, plan\<lparr>p_hooks := pr_hooks st\<rparr>, w4)
        | Some report \<Rightarrow>
            (Inr report, plan\<lparr>p_hooks := pr_hooks st, p_state :=
               (if pr_failed st = 0 then HK_PLAN_PREPARED
                else if pr_prepared st = 0 \<and> pr_attempted st > 0 then HK_PLAN_FAILED
                else HK_PLAN_PARTIAL)\<rparr>, w4))) = (r, plan', w')"
      using run a1 a2 a3 l rc True unfolding hk_plan_prepare_def plan_gate_def
      by (cases rep; cases ok; cases "pr_failed st = 0"; cases "pr_prepared st = 0 \<and> pr_attempted st > 0")
        (auto simp: Let_def)
    have w': "hk_sys.more w' = hk_sys.more (pr_world st)"
      using run' rf(1) by (auto split: if_splits option.splits)
    have c: "case r of Inl e \<Rightarrow> plan' = plan\<lparr>p_hooks := pr_hooks st\<rparr>
       | Inr report \<Rightarrow> rp_results report = pr_results st \<and> plan' = plan\<lparr>p_hooks := pr_hooks st, p_state :=
               (if pr_failed st = 0 then HK_PLAN_PREPARED
                else if pr_prepared st = 0 \<and> pr_attempted st > 0 then HK_PLAN_FAILED
                else HK_PLAN_PARTIAL)\<rparr>"
      using run' rf(2) by (auto split: if_splits option.splits)
    show ?thesis by (rule moved [OF _ _ m w' c]) (use True f in simp_all)
  qed
qed

lemma prepare_start_clean:
  "\<forall>h \<in> set (p_hooks plan). r_mutation (h_result h) = HK_MUTATION_NONE \<Longrightarrow> clean (p_domains plan) (prepare_start plan w)"
  by (auto simp: prepare_start_def clean_def)

definition freshly_analyzed :: "'e hk_plan \<Rightarrow> bool" where
  "freshly_analyzed plan \<longleftrightarrow> (\<forall>h \<in> set (p_hooks plan). r_mutation (h_result h) = HK_MUTATION_NONE \<and>
     (oc h = HK_OUTCOME_ANALYZED \<or> oc h = HK_OUTCOME_NO_ROUTE))"

lemma analyze_fresh:
  assumes "hk_plan_analyze plan rt w = (Inr report, plan', w')"
  shows "freshly_analyzed plan'"
proof -
  have r: "r_mutation (h_result (analyze_hook p rt env h)) = HK_MUTATION_NONE \<and>
      oc (analyze_hook p rt env h) \<in> {HK_OUTCOME_ANALYZED, HK_OUTCOME_NO_ROUTE}" for p env and h :: "'a hk_hook"
    using analyze_one_fields(3,6) [of p rt env h] unfolding analyze_hook_result
    by (metis insertCI prod.collapse)
  show ?thesis
    using plan_analyze_cases(2) [OF assms] r by (auto simp: freshly_analyzed_def)
qed

lemma fresh_inv:
  assumes "freshly_analyzed plan"
  shows "prepare_inv (p_domains plan) gate (prepare_start plan w)"
proof -
  have "ocset (\<lambda>x. x = HK_OUTCOME_PREPARED) (p_hooks plan) = {}" "ocset failed_outcome (p_hooks plan) = {}"
    using assms nth_mem by (fastforce simp: ocset_def freshly_analyzed_def failed_outcome_def)+
  moreover have "oc (p_hooks plan ! j) \<noteq> HK_OUTCOME_PREPARED \<and> \<not> failed_outcome (oc (p_hooks plan ! j))"
    if "j < length (p_hooks plan)" for j
    using assms nth_mem [OF that] by (fastforce simp: freshly_analyzed_def failed_outcome_def)
  ultimately show ?thesis
    by (simp add: prepare_inv_def prepare_start_def)
qed

section \<open>Properties\<close>

text \<open>C5. Preparation mutates nothing: whatever the engines' preparation callbacks do and however the call
  ends, no hook of the plan carries a mutation, the ownership records, installed hooks and process
  ledger are as before, and every hook keeps its identity, specification, target key, route and
  handle; every result of the report is without a mutation.\<close>

theorem prepare_mutates_nothing:
  fixes plan :: "'e hk_plan" and w :: "'e hk_world"
  assumes run: "hk_plan_prepare plan rt w = (r, plan', w')"
    and c: "\<forall>h \<in> set (p_hooks plan). r_mutation (h_result h) = HK_MUTATION_NONE"
  shows "w_owners w' = w_owners w \<and> w_installed w' = w_installed w \<and> w_process_ledger w' = w_process_ledger w \<and>
     list_all2 static (p_hooks plan) (p_hooks plan') \<and> p_domains plan' = p_domains plan \<and>
     (\<forall>h \<in> set (p_hooks plan'). r_mutation (h_result h) = HK_MUTATION_NONE) \<and>
     (\<forall>report. r = Inr report \<longrightarrow> (\<forall>res \<in> set (rp_results report). r_mutation res = HK_MUTATION_NONE))"
  using run c
proof (cases rule: plan_prepare_cases)
  case (early e)
  then show ?thesis using c world_more [OF early(3)] by (simp add: list_all2_refl)
next
  case (moved w3 st)
  note cl = clean_moves [OF moved(3) prepare_start_clean [OF c]]
  note q = quietD [OF quiet_moves_world [OF moved(3)]]
  have w: "w_owners w' = w_owners w" "w_installed w' = w_installed w" "w_process_ledger w' = w_process_ledger w"
    using world_more [OF moved(4)] world_more [OF moved(2)] q by (simp_all add: prepare_start_def)
  have h: "p_hooks plan' = pr_hooks st" "p_domains plan' = p_domains plan" using moved(5) by (auto split: sum.splits)
  have "list_all2 static (p_hooks plan) (pr_hooks st)"
    using moves_hooks [OF moved(3)] by (auto simp: list_all2_conv_all_nth prepare_start_def)
  then show ?thesis
    using cl w h moved(5) by (auto simp: clean_def)
qed

text \<open>C3. A domain that requires all its mandatory members is all or nothing. When preparing a freshly
  analyzed plan returns a report, and any mandatory member of such a domain had no route, failed or
  was stale, then no member of that domain, mandatory or optional, is left prepared.\<close>

theorem domain_all_or_nothing:
  fixes plan :: "'e hk_plan" and w :: "'e hk_world"
  assumes wf: "plan_wf w plan" and fresh: "freshly_analyzed plan"
    and run: "hk_plan_prepare plan rt w = (Inr report, plan', w')"
    and d: "d \<in> set (p_domains plan)" "ds_require_all_mandatory_prepared (d_spec d)"
    and i: "i < length (p_hooks plan)" "hs_domain (h_spec (p_hooks plan ! i)) = Some (d_ref d)"
      "hs_role (h_spec (p_hooks plan ! i)) = HK_OPERATION_MANDATORY"
    and bad: "oc (p_hooks plan ! i) = HK_OUTCOME_NO_ROUTE \<or> failed_outcome (oc (p_hooks plan' ! i))"
    and j: "j < length (p_hooks plan')" "hs_domain (h_spec (p_hooks plan' ! j)) = Some (d_ref d)"
  shows "oc (p_hooks plan' ! j) \<noteq> HK_OUTCOME_PREPARED"
proof -
  have c: "\<forall>h \<in> set (p_hooks plan). r_mutation (h_result h) = HK_MUTATION_NONE"
    using fresh by (simp add: freshly_analyzed_def)
  show ?thesis
    using run c
  proof (cases rule: plan_prepare_cases)
    case (early e)
    then show ?thesis by simp
  next
    case (moved w3 st)
    have h: "p_hooks plan' = pr_hooks st" using moved(5) by simp
    note inv = prepare_inv_moves [OF moved(3) fresh_inv [OF fresh]]
    note stat = moves_hooks [OF moved(3)]
    have dist: "distinct (map d_ref (p_domains plan))" using wf by (simp add: plan_wf_def)
    obtain k where k: "k < length (p_domains plan)" "p_domains plan ! k = d" using d(1) by (metis in_set_conv_nth)
    have idx: "hk_plan_domain_index (p_domains plan) (Some (d_ref d)) = Some k"
    proof -
      have "first_index (\<lambda>x. d_ref x = d_ref d) (p_domains plan) \<noteq> None"
        using d(1) by (auto simp: first_index_None)
      then obtain k' where k': "first_index (\<lambda>x. d_ref x = d_ref d) (p_domains plan) = Some k'" by auto
      with first_index_SomeD [OF k'] k dist have "k' = k"
        by (metis length_map nth_eq_iff_index_eq nth_map)
      with k' show ?thesis by (simp add: hk_plan_domain_index_def)
    qed
    have i': "i < length (pr_hooks st)" "h_spec (pr_hooks st ! i) = h_spec (p_hooks plan ! i)"
      using stat(1) stat(2) [of i] i(1) by (auto simp: prepare_start_def static_def)
    have "\<not> plan_gate plan ! k \<or> pr_domain_failed st ! k"
    proof (cases "plan_gate plan ! k")
      case True
      then have "hk_domain_mandatory_gate_satisfied (p_hooks plan) d" using k by (simp add: plan_gate_def)
      then have "oc (p_hooks plan ! i) = HK_OUTCOME_ANALYZED"
        using d(2) i nth_mem [OF i(1)] by (auto simp: hk_domain_mandatory_gate_satisfied_def list_all_iff)
      with bad h have "failed_outcome (oc (pr_hooks st ! i))" by auto
      moreover have "takes_down (p_domains plan) (plan_gate plan) (h_spec (pr_hooks st ! i)) = Some k"
        using True idx k d(2) i i' by (simp add: takes_down_def)
      ultimately show ?thesis using inv i'(1) by (auto simp: prepare_inv_def)
    qed simp
    then show ?thesis
      using inv j idx unfolding h by (auto simp: prepare_inv_def)
  qed
qed

text \<open>The state preparation leaves a freshly analyzed plan in tells what became of its hooks:
  \<open>PREPARED\<close> exactly when no hook failed or was stale; \<open>FAILED\<close> only when some did and none is
  prepared; \<open>PARTIAL\<close> only when some did. The report holds one result per hook, and preparation
  starts from an analyzed plan only.\<close>

lemma prepare_state_meaning:
  fixes plan :: "'e hk_plan" and w :: "'e hk_world"
  assumes fresh: "freshly_analyzed plan" and l: "length (p_hooks plan) < 2 ^ 64"
    and run: "hk_plan_prepare plan rt w = (Inr report, plan', w')"
  shows "p_state plan = HK_PLAN_ANALYZED \<and> length (rp_results report) = length (p_hooks plan) \<and>
    p_state plan' \<in> {HK_PLAN_PREPARED, HK_PLAN_FAILED, HK_PLAN_PARTIAL} \<and>
    (p_state plan' = HK_PLAN_PREPARED \<longleftrightarrow> (\<forall>h \<in> set (p_hooks plan'). \<not> failed_outcome (oc h))) \<and>
    (p_state plan' = HK_PLAN_FAILED \<longrightarrow> (\<forall>h \<in> set (p_hooks plan'). oc h \<noteq> HK_OUTCOME_PREPARED))"
proof -
  have c: "\<forall>h \<in> set (p_hooks plan). r_mutation (h_result h) = HK_MUTATION_NONE"
    using fresh by (simp add: freshly_analyzed_def)
  show ?thesis
    using run c
  proof (cases rule: plan_prepare_cases)
    case (early e)
    then show ?thesis by simp
  next
    case (moved w3 st)
    have h: "p_hooks plan' = pr_hooks st" "rp_results report = pr_results st"
      "p_state plan' = (if pr_failed st = 0 then HK_PLAN_PREPARED
         else if pr_prepared st = 0 \<and> pr_attempted st > 0 then HK_PLAN_FAILED else HK_PLAN_PARTIAL)"
      using moved(5) by simp_all
    note inv = prepare_inv_moves [OF moved(3) fresh_inv [OF fresh]]
    have len: "length (pr_hooks st) = length (p_hooks plan)" "length (pr_results st) = length (p_hooks plan)"
      using moves_hooks(1) [OF moved(3)] clean_moves [OF moved(3) prepare_start_clean [OF c]]
      by (simp_all add: prepare_start_def clean_def)
    have f: "pr_failed st = 0 \<longleftrightarrow> (\<forall>h \<in> set (pr_hooks st). \<not> failed_outcome (oc h))"
    proof -
      have "pr_failed st = 0 \<longleftrightarrow> ocset failed_outcome (pr_hooks st) = {}" using inv by (simp add: prepare_inv_def)
      then show ?thesis by (auto simp: ocset_def all_set_conv_all_nth)
    qed
    have p: "\<forall>h \<in> set (pr_hooks st). oc h \<noteq> HK_OUTCOME_PREPARED" if "pr_prepared st = 0"
    proof -
      let ?n = "card (ocset (\<lambda>x. x = HK_OUTCOME_PREPARED) (pr_hooks st))"
      have "?n < 2 ^ 64" using card_ocset_le [of "\<lambda>x. x = HK_OUTCOME_PREPARED" "pr_hooks st"] l len(1) by simp
      then have "unat (of_nat ?n :: u64) = ?n" by (simp add: unat_of_nat take_bit_nat_eq_self)
      moreover have "(of_nat ?n :: u64) = 0" using inv that by (simp add: prepare_inv_def)
      ultimately have "?n = 0" by (metis unat_0)
      then show ?thesis by (auto simp: ocset_def all_set_conv_all_nth)
    qed
    show ?thesis using moved(1) h f p len by auto
  qed
qed

section \<open>Concrete runs\<close>

definition analyzed_hook :: "nat \<Rightarrow> string \<Rightarrow> nat hk_engine_vtable \<Rightarrow> nat hk_hook" where
  "analyzed_hook ref name vt = (let h = sample_hook ref name (sample_address_target (of_nat ref)) in
     h\<lparr>h_matched := Some (vt, 0), h_result := (h_result h)\<lparr>r_outcome := HK_OUTCOME_ANALYZED\<rparr>\<rparr>)"

definition in_domain :: "nat \<Rightarrow> hk_operation_role \<Rightarrow> 'e hk_hook \<Rightarrow> 'e hk_hook" where
  "in_domain d role h = h\<lparr>h_spec := (h_spec h)\<lparr>hs_domain := Some d, hs_role := role\<rparr>\<rparr>"

text \<open>An optional hook that prepares, then a mandatory one whose engine cannot.\<close>

definition gated_plan :: "nat hk_plan" where
  "gated_plan = sample_plan\<lparr>p_state := HK_PLAN_ANALYZED,
     p_domains := [\<lparr>d_ref = 0, d_id = hk_id_zero, d_spec = sample_domain_spec\<rparr>],
     p_hooks := [in_domain 0 HK_OPERATION_OPTIONAL (analyzed_hook 1 ''a'' (sample_vtable 1)),
                 in_domain 0 HK_OPERATION_MANDATORY
                   (analyzed_hook 2 ''b'' ((sample_vtable 1)\<lparr>vt_prepare_one := None\<rparr>))]\<rparr>"

definition gated_world :: "nat hk_world" where
  "gated_world = (sample_world 0)\<lparr>w_next_ref := 3\<rparr>"

lemmas sample_plan_defs = gated_world_def sample_plan_def sample_world_def sample_domain_spec_def in_domain_def
  analyzed_hook_def sample_hook_def new_hook_def sample_spec_def sample_runtime_def sample_vtable_def

lemmas prepare_eval = hk_plan_prepare_group_count_def prepare_single_def zero_result_def
  hk_image_catalog_generation_def hk_plan_domain_index_def hk_hook_release_prepared_def
  hk_hook_dispatch_prepare_def hk_hook_inspect_prepared_continuation_def inspect_callback_def
  hk_engine_vtable_has_field_def OFFSET_INSPECT_CONTINUATION_def hk_plan_record_prepare_attempt_def
  hk_hook_validate_prepare_effects_def zero_prepare_diag_def prepare_error_def store_hook_def
  fail_domain_def hk_release_prepared_domain_members_def release_member_def

lemmas report_eval = hk_report_create_def sys_alloc_def hk_id_generate_def hk_init_nonce_def
  hk_artifact_ledger_create_def

lemma gated_plan_run:
  "\<exists>report plan w. hk_plan_prepare gated_plan sample_runtime gated_world = (Inr report, plan, w) \<and>
     map oc (p_hooks plan) = [HK_OUTCOME_FAILED_SAFE, HK_OUTCOME_FAILED_SAFE] \<and> p_state plan = HK_PLAN_FAILED \<and>
     map h_spec (p_hooks plan) = map h_spec (p_hooks gated_plan)"
  apply (simp add: hk_plan_prepare_def gated_plan_def sample_plan_defs sys_alloc_def Let_def
      hk_domain_mandatory_gate_satisfied_def prepare_start_def)
  apply (simp add: prepare_loop.simps prepare_eval upt_rec Let_def)
  apply (simp add: report_eval)
  done

lemma analyzed_hook_fields [simp]:
  "h_ref (analyzed_hook r n vt) = r" "h_target_key (analyzed_hook r n vt) = [of_nat r]"
  "hs_stable_hook_id (h_spec (analyzed_hook r n vt)) = Some n"
  "commit_after_refs ((h_spec (analyzed_hook r n vt))\<lparr>hs_domain := d, hs_role := role\<rparr>) = []"
  "oc (analyzed_hook r n vt) = HK_OUTCOME_ANALYZED"
  "r_mutation (h_result (analyzed_hook r n vt)) = HK_MUTATION_NONE"
  by (simp_all add: analyzed_hook_def sample_hook_def new_hook_def sample_spec_def commit_after_refs_def
      zero_result_def)

lemma gated_plan_fresh: "freshly_analyzed gated_plan" "plan_wf gated_world gated_plan"
  by (simp_all add: freshly_analyzed_def gated_plan_def in_domain_def plan_wf_def gated_world_def
      sample_domain_spec_def sample_plan_def All_less_Suc)

theorem prepare_mutates_nothing_witness:
  "w_owners (snd (snd (hk_plan_prepare gated_plan sample_runtime gated_world))) = []"
proof -
  obtain r p w where run: "hk_plan_prepare gated_plan sample_runtime gated_world = (r, p, w)" by (metis surj_pair)
  have c: "\<forall>h \<in> set (p_hooks gated_plan). r_mutation (h_result h) = HK_MUTATION_NONE"
    using gated_plan_fresh(1) unfolding freshly_analyzed_def by blast
  have "w_owners w = w_owners gated_world"
    by (rule prepare_mutates_nothing [OF run c, THEN conjunct1])
  moreover have "w_owners gated_world = []" by (simp add: gated_world_def sample_world_def)
  ultimately show ?thesis by (simp add: run)
qed

text \<open>The mandatory member fails after the optional one was prepared: the optional one is released.\<close>

theorem domain_all_or_nothing_witness:
  "\<exists>report plan w. hk_plan_prepare gated_plan sample_runtime gated_world = (Inr report, plan, w) \<and>
     oc (p_hooks plan ! 0) \<noteq> HK_OUTCOME_PREPARED"
proof -
  obtain report p w where run: "hk_plan_prepare gated_plan sample_runtime gated_world = (Inr report, p, w)"
    and o: "map oc (p_hooks p) = [HK_OUTCOME_FAILED_SAFE, HK_OUTCOME_FAILED_SAFE]"
      "map h_spec (p_hooks p) = map h_spec (p_hooks gated_plan)"
    using gated_plan_run by (elim exE conjE) (rule that)
  have l: "length (p_hooks p) = 2" using arg_cong [OF o(1), of length] by simp
  have g: "p_domains gated_plan = [\<lparr>d_ref = 0, d_id = hk_id_zero, d_spec = sample_domain_spec\<rparr>]"
    "length (p_hooks gated_plan) = 2"
    "hs_domain (h_spec (p_hooks gated_plan ! Suc 0)) = Some 0" "hs_domain (h_spec (p_hooks gated_plan ! 0)) = Some 0"
    "hs_role (h_spec (p_hooks gated_plan ! Suc 0)) = HK_OPERATION_MANDATORY"
    by (simp_all add: gated_plan_def in_domain_def)
  have sp: "h_spec (p_hooks p ! 0) = h_spec (p_hooks gated_plan ! 0)" "oc (p_hooks p ! Suc 0) = HK_OUTCOME_FAILED_SAFE"
    using nth_map [of 0 "p_hooks p" h_spec] nth_map [of 0 "p_hooks gated_plan" h_spec]
      nth_map [of "Suc 0" "p_hooks p" oc] l g(2) o by simp_all
  have d: "\<lparr>d_ref = 0, d_id = hk_id_zero, d_spec = sample_domain_spec\<rparr> \<in> set (p_domains gated_plan)" by (simp add: g)
  have "oc (p_hooks p ! 0) \<noteq> HK_OUTCOME_PREPARED"
    by (rule domain_all_or_nothing [OF gated_plan_fresh(2) gated_plan_fresh(1) run d, where i = 1])
      (use g l sp in \<open>simp_all add: failed_outcome_def sample_domain_spec_def\<close>)
  then show ?thesis using run by blast
qed

text \<open>
  A plan whose only hook is stale ends \<open>PARTIAL\<close>, although nothing was prepared: stale hooks count as
  failed but not as attempted.
\<close>

lemma all_stale_is_partial:
  "\<exists>report plan w. hk_plan_prepare
     (sample_plan\<lparr>p_state := HK_PLAN_ANALYZED, p_hooks := [(analyzed_hook 1 ''a'' (sample_vtable 1))
        \<lparr>h_result := zero_result\<lparr>r_outcome := HK_OUTCOME_ANALYZED, r_image_generation := 7\<rparr>\<rparr>]\<rparr>)
     sample_runtime (sample_world 0) = (Inr report, plan, w) \<and>
     p_state plan = HK_PLAN_PARTIAL \<and> map oc (p_hooks plan) = [HK_OUTCOME_STALE_PLAN]"
  apply (simp add: hk_plan_prepare_def sample_plan_defs sys_alloc_def Let_def prepare_start_def)
  apply (simp add: prepare_loop.simps prepare_eval upt_rec Let_def)
  apply (simp add: report_eval)
  done

end
