(* ===== verification/HK_Commit_Order.thy ===== *)
theory HK_Commit_Order
  imports HK_Prepare_Props
begin

text \<open>
  The order in which prepared hooks are committed (\<open>src/core/HKPlan.c\<close>, \<open>hk_build_commit_order\<close>): a
  stable topological order with a fast path when there is nothing to sort. Both paths meet the same
  specification \<open>commit_order_ok\<close>.
\<close>

definition hk_plan_hook_index :: "'e hk_hook list \<Rightarrow> nat \<Rightarrow> nat" where
  "hk_plan_hook_index hooks needle = (case first_index (\<lambda>h. h_ref h = needle) hooks of
     None \<Rightarrow> length hooks | Some i \<Rightarrow> i)"

definition hk_commit_dependencies_processed :: "'e hk_hook list \<Rightarrow> 'e hk_hook \<Rightarrow> bool list \<Rightarrow> bool" where
  "hk_commit_dependencies_processed hooks hook processed =
     list_all (\<lambda>r. case r of None \<Rightarrow> False
       | Some ref \<Rightarrow> (let dependency = hk_plan_hook_index hooks ref in
           dependency \<noteq> length hooks \<and> processed ! dependency)) (commit_after_refs (h_spec hook))"

definition hk_hook_domain_order :: "hk_domain list \<Rightarrow> 'e hk_hook \<Rightarrow> u32" where
  "hk_hook_domain_order domains hook = (case hk_plan_domain_index domains (hs_domain (h_spec hook)) of
     None \<Rightarrow> 0 | Some k \<Rightarrow> ds_domain_order (d_spec (domains ! k)))"

definition hk_commit_order_before :: "hk_domain list \<Rightarrow> 'e hk_hook \<Rightarrow> nat \<Rightarrow> 'e hk_hook \<Rightarrow> nat \<Rightarrow> bool" where
  "hk_commit_order_before domains left left_index right right_index =
     (let left_domain = hk_hook_domain_order domains left; right_domain = hk_hook_domain_order domains right in
      if left_domain \<noteq> right_domain then left_domain < right_domain
      else if hs_commit_order (h_spec left) \<noteq> hs_commit_order (h_spec right)
      then hs_commit_order (h_spec left) < hs_commit_order (h_spec right)
      else left_index < right_index)"

text \<open>The first loop: \<open>prepared_count\<close>, \<open>simple_order\<close>, and the order key once there is one.\<close>

definition order_scan :: "hk_domain list \<Rightarrow> 'e hk_hook \<Rightarrow> nat \<times> bool \<times> (u32 \<times> u32) option \<Rightarrow>
    nat \<times> bool \<times> (u32 \<times> u32) option" where
  "order_scan domains hook = (\<lambda>(count, simple, key).
     if r_outcome (h_result hook) = HK_OUTCOME_PREPARED then
       let simple1 = (if hs_commit_after_count (h_spec hook) \<noteq> 0 then False else simple);
           own = (hk_hook_domain_order domains hook, hs_commit_order (h_spec hook))
       in (case key of
             None \<Rightarrow> (count + 1, simple1, Some own)
           | Some k \<Rightarrow> (count + 1, if own \<noteq> k then False else simple1, Some k))
     else (count, simple, key))"

text \<open>The inner loop of the selection.\<close>

definition best_candidate :: "hk_domain list \<Rightarrow> 'e hk_hook list \<Rightarrow> bool list \<Rightarrow> nat option" where
  "best_candidate domains hooks processed = fold (\<lambda>i best.
     let candidate = hooks ! i in
     if processed ! i \<or> r_outcome (h_result candidate) \<noteq> HK_OUTCOME_PREPARED \<or>
        \<not> hk_commit_dependencies_processed hooks candidate processed then best
     else (case best of None \<Rightarrow> Some i
       | Some b \<Rightarrow> if hk_commit_order_before domains candidate i (hooks ! b) b then Some i else Some b))
     [0..<length hooks] None"

fun select_order :: "hk_domain list \<Rightarrow> 'e hk_hook list \<Rightarrow> nat \<Rightarrow> bool list \<Rightarrow> nat list option" where
  "select_order domains hooks 0 processed = Some []"
| "select_order domains hooks (Suc steps) processed = (case best_candidate domains hooks processed of
     None \<Rightarrow> None
   | Some b \<Rightarrow> map_option ((#) b) (select_order domains hooks steps (processed[b := True])))"

definition hk_build_commit_order :: "hk_domain list \<Rightarrow> 'e hk_hook list \<Rightarrow> 's hk_sys_scheme \<Rightarrow>
    nat list option \<times> 's hk_sys_scheme" where
  "hk_build_commit_order domains hooks s =
     (if hooks = [] then (Some [], s)
      else let (ok, s1) = sys_alloc s in
      if \<not> ok then (None, s1)
      else let (prepared_count, simple, key) = fold (order_scan domains) hooks (0, True, None) in
      if simple then
        (Some (filter (\<lambda>i. r_outcome (h_result (hooks ! i)) = HK_OUTCOME_PREPARED) [0..<length hooks]), s1)
      else let (ok2, s2) = sys_alloc s1 in
      if \<not> ok2 then (None, s2)
      else (select_order domains hooks prepared_count
              (map (\<lambda>h. r_outcome (h_result h) \<noteq> HK_OUTCOME_PREPARED) hooks), s2))"

section \<open>Specification\<close>

abbreviation prep_at :: "'e hk_hook list \<Rightarrow> nat \<Rightarrow> bool" where
  "prep_at hooks i \<equiv> i < length hooks \<and> oc (hooks ! i) = HK_OUTCOME_PREPARED"

text \<open>The indices of the hooks that hook \<open>i\<close> names in \<open>commit_after\<close>.\<close>

definition deps :: "'e hk_hook list \<Rightarrow> nat \<Rightarrow> nat set" where
  "deps hooks i = {j. j < length hooks \<and> Some (h_ref (hooks ! j)) \<in> set (commit_after_refs (h_spec (hooks ! i)))}"

definition before_at :: "hk_domain list \<Rightarrow> 'e hk_hook list \<Rightarrow> nat \<Rightarrow> nat \<Rightarrow> bool" where
  "before_at domains hooks i j = hk_commit_order_before domains (hooks ! i) i (hooks ! j) j"

text \<open>\<open>ready hooks before i\<close>: every prepared dependency of \<open>i\<close> is among the hooks already taken.\<close>

definition ready :: "'e hk_hook list \<Rightarrow> nat set \<Rightarrow> nat \<Rightarrow> bool" where
  "ready hooks taken i \<longleftrightarrow> (\<forall>j \<in> deps hooks i. prep_at hooks j \<longrightarrow> j \<in> taken)"

definition commit_order_ok :: "hk_domain list \<Rightarrow> 'e hk_hook list \<Rightarrow> nat list \<Rightarrow> bool" where
  "commit_order_ok domains hooks order \<longleftrightarrow> distinct order \<and> set order = {i. prep_at hooks i} \<and>
     (\<forall>k < length order. ready hooks (set (take k order)) (order ! k) \<and>
        (\<forall>i \<in> set (drop k order). ready hooks (set (take k order)) i \<longrightarrow>
           i = order ! k \<or> before_at domains hooks (order ! k) i))"

lemma before_at_trans: "before_at d hs a b \<Longrightarrow> before_at d hs b c \<Longrightarrow> before_at d hs a c"
  by (auto simp: before_at_def hk_commit_order_before_def Let_def split: if_splits)

lemma before_at_total: "a \<noteq> b \<Longrightarrow> \<not> before_at d hs a b \<Longrightarrow> before_at d hs b a"
  by (auto simp: before_at_def hk_commit_order_before_def Let_def split: if_splits)

text \<open>The least element a scanning loop finds.\<close>

lemma fold_least:
  assumes "lt = before_at domains hooks"
  shows "case fold (\<lambda>i best. if \<not> P i then best else (case best of None \<Rightarrow> Some i
      | Some b \<Rightarrow> if lt i b then Some i else Some b)) xs None of
     None \<Rightarrow> \<forall>x \<in> set xs. \<not> P x
   | Some b \<Rightarrow> b \<in> set xs \<and> P b \<and> (\<forall>x \<in> set xs. P x \<longrightarrow> x = b \<or> lt b x)"
proof (induction xs rule: rev_induct)
  case (snoc x xs)
  let ?f = "fold (\<lambda>i best. if \<not> P i then best else (case best of None \<Rightarrow> Some i
      | Some b \<Rightarrow> if lt i b then Some i else Some b))"
  show ?case
  proof (cases "?f xs None")
    case None
    then show ?thesis using snoc by auto
  next
    case (Some b)
    with snoc have b: "b \<in> set xs" "P b" "\<forall>x \<in> set xs. P x \<longrightarrow> x = b \<or> lt b x" by auto
    show ?thesis
      using Some b before_at_trans [of domains hooks x b] before_at_total [of x b domains hooks]
      unfolding assms by auto
  qed
qed simp

definition taken_set :: "'e hk_hook list \<Rightarrow> bool list \<Rightarrow> nat set" where
  "taken_set hooks processed = {i. prep_at hooks i \<and> processed ! i}"

definition order_state :: "'e hk_hook list \<Rightarrow> bool list \<Rightarrow> bool" where
  "order_state hooks processed \<longleftrightarrow> length processed = length hooks \<and>
     (\<forall>i < length hooks. oc (hooks ! i) \<noteq> HK_OUTCOME_PREPARED \<longrightarrow> processed ! i)"

text \<open>References of a plan that is well formed point to earlier hooks.\<close>

definition refs_ok :: "'e hk_hook list \<Rightarrow> bool" where
  "refs_ok hooks \<longleftrightarrow> distinct (map h_ref hooks) \<and>
     (\<forall>i < length hooks. set (commit_after_refs (h_spec (hooks ! i))) \<subseteq> Some ` h_ref ` set (take i hooks))"

lemma plan_wf_refs_ok: "plan_wf w plan \<Longrightarrow> refs_ok (p_hooks plan)"
  by (simp add: plan_wf_def refs_ok_def)

lemma hook_index_ref:
  assumes "distinct (map h_ref hooks)" "j < length hooks"
  shows "hk_plan_hook_index hooks (h_ref (hooks ! j)) = j"
proof -
  have "first_index (\<lambda>h. h_ref h = h_ref (hooks ! j)) hooks \<noteq> None"
    using assms(2) by (auto simp: first_index_None)
  then obtain k where k: "first_index (\<lambda>h. h_ref h = h_ref (hooks ! j)) hooks = Some k" by auto
  with first_index_SomeD [OF k] assms have "k = j" by (metis length_map nth_eq_iff_index_eq nth_map)
  with k show ?thesis by (simp add: hk_plan_hook_index_def)
qed

lemma deps_earlier:
  assumes "refs_ok hooks" "i < length hooks" "j \<in> deps hooks i"
  shows "j < i"
proof -
  have j: "j < length hooks" "Some (h_ref (hooks ! j)) \<in> Some ` h_ref ` set (take i hooks)"
    using assms by (auto simp: refs_ok_def deps_def)
  then obtain m where m: "m < i" "m < length hooks" "h_ref (hooks ! m) = h_ref (hooks ! j)"
    by (auto simp: in_set_conv_nth)
  then have "m = j" using assms(1) j(1) by (metis refs_ok_def length_map nth_eq_iff_index_eq nth_map)
  with m show ?thesis by simp
qed

lemma dependencies_processed_iff:
  assumes "refs_ok hooks" "order_state hooks processed" "i < length hooks"
  shows "hk_commit_dependencies_processed hooks (hooks ! i) processed \<longleftrightarrow> ready hooks (taken_set hooks processed) i"
proof -
  have d: "distinct (map h_ref hooks)" using assms(1) by (simp add: refs_ok_def)
  have sub: "set (commit_after_refs (h_spec (hooks ! i))) = (\<lambda>j. Some (h_ref (hooks ! j))) ` deps hooks i"
  proof (intro equalityI subsetI)
    fix r assume r: "r \<in> set (commit_after_refs (h_spec (hooks ! i)))"
    then have "r \<in> Some ` h_ref ` set (take i hooks)" using assms(1,3) by (auto simp: refs_ok_def)
    then obtain j where "j < length hooks" "r = Some (h_ref (hooks ! j))" by (auto simp: in_set_conv_nth)
    with r show "r \<in> (\<lambda>j. Some (h_ref (hooks ! j))) ` deps hooks i" by (auto simp: deps_def)
  qed (auto simp: deps_def)
  have "hk_commit_dependencies_processed hooks (hooks ! i) processed \<longleftrightarrow> (\<forall>j \<in> deps hooks i. processed ! j)"
    unfolding hk_commit_dependencies_processed_def list_all_iff sub
    by (auto simp: hook_index_ref [OF d] deps_def Let_def)
  moreover have "(\<forall>j \<in> deps hooks i. processed ! j) \<longleftrightarrow> ready hooks (taken_set hooks processed) i"
    using assms(2) by (auto simp: ready_def taken_set_def order_state_def deps_def)
  ultimately show ?thesis by simp
qed

lemma best_candidate_spec:
  assumes "refs_ok hooks" "order_state hooks processed"
  shows "case best_candidate domains hooks processed of
     None \<Rightarrow> \<forall>i. prep_at hooks i \<longrightarrow> \<not> processed ! i \<longrightarrow> \<not> ready hooks (taken_set hooks processed) i
   | Some b \<Rightarrow> prep_at hooks b \<and> \<not> processed ! b \<and> ready hooks (taken_set hooks processed) b \<and>
       (\<forall>i. prep_at hooks i \<longrightarrow> \<not> processed ! i \<longrightarrow> ready hooks (taken_set hooks processed) i \<longrightarrow>
          i = b \<or> before_at domains hooks b i)"
proof -
  let ?P = "\<lambda>i. \<not> (processed ! i \<or> r_outcome (h_result (hooks ! i)) \<noteq> HK_OUTCOME_PREPARED \<or>
        \<not> hk_commit_dependencies_processed hooks (hooks ! i) processed)"
  have e: "best_candidate domains hooks processed = fold (\<lambda>i best. if \<not> ?P i then best else (case best of
      None \<Rightarrow> Some i | Some b \<Rightarrow> if before_at domains hooks i b then Some i else Some b)) [0..<length hooks] None"
    unfolding best_candidate_def before_at_def Let_def by simp
  show ?thesis
    using fold_least [where lt = "before_at domains hooks" and P = ?P and xs = "[0..<length hooks]",
        OF refl]
    unfolding e [symmetric]
    by (cases "best_candidate domains hooks processed") (auto simp: dependencies_processed_iff [OF assms])
qed

lemma candidate_exists:
  assumes "refs_ok hooks" "order_state hooks processed" "\<exists>i. prep_at hooks i \<and> \<not> processed ! i"
  shows "best_candidate domains hooks processed \<noteq> None"
proof
  assume n: "best_candidate domains hooks processed = None"
  define i where "i = (LEAST i. prep_at hooks i \<and> \<not> processed ! i)"
  have i: "prep_at hooks i" "\<not> processed ! i"
    using LeastI_ex [OF assms(3)] by (auto simp: i_def)
  have "ready hooks (taken_set hooks processed) i"
    unfolding ready_def taken_set_def
  proof (intro ballI impI CollectI conjI)
    fix j assume j: "j \<in> deps hooks i" "prep_at hooks j"
    have "j < i" using deps_earlier [OF assms(1) _ j(1)] i(1) by blast
    then show "processed ! j" using not_less_Least [of j "\<lambda>i. prep_at hooks i \<and> \<not> processed ! i"] j(2) by (auto simp: i_def)
  qed auto
  with best_candidate_spec [OF assms(1,2), of domains] n i show False by auto
qed

lemma select_order_spec:
  assumes "refs_ok hooks" "order_state hooks processed"
    "steps = card ({i. prep_at hooks i} - taken_set hooks processed)"
  shows "\<exists>order. select_order domains hooks steps processed = Some order \<and> distinct order \<and>
     set order = {i. prep_at hooks i} - taken_set hooks processed \<and>
     (\<forall>k < length order. ready hooks (taken_set hooks processed \<union> set (take k order)) (order ! k) \<and>
        (\<forall>i \<in> set (drop k order). ready hooks (taken_set hooks processed \<union> set (take k order)) i \<longrightarrow>
           i = order ! k \<or> before_at domains hooks (order ! k) i))"
  using assms(2,3)
proof (induction steps arbitrary: processed)
  case 0
  have "finite {i. prep_at hooks i}" by simp
  then show ?case using 0 by simp
next
  case (Suc steps)
  let ?T = "taken_set hooks processed"
  have ne: "{i. prep_at hooks i} - ?T \<noteq> {}" using Suc.prems(2) by (metis card.empty nat.distinct(1))
  then have "\<exists>i. prep_at hooks i \<and> \<not> processed ! i" by (auto simp: taken_set_def)
  then obtain b where b: "best_candidate domains hooks processed = Some b"
    using candidate_exists [OF assms(1) Suc.prems(1)] by blast
  from best_candidate_spec [OF assms(1) Suc.prems(1), of domains] b
  have bs: "prep_at hooks b" "\<not> processed ! b" "ready hooks ?T b"
    "\<And>i. prep_at hooks i \<Longrightarrow> \<not> processed ! i \<Longrightarrow> ready hooks ?T i \<Longrightarrow> i = b \<or> before_at domains hooks b i"
    by auto
  let ?p = "processed[b := True]"
  have bl: "b < length processed" using bs(1) Suc.prems(1) by (simp add: order_state_def)
  have T: "taken_set hooks ?p = insert b ?T"
    using bl bs(1) Suc.prems(1) by (auto simp: taken_set_def order_state_def nth_list_update)
  have os: "order_state hooks ?p" using Suc.prems(1) bl by (auto simp: order_state_def nth_list_update)
  have "b \<in> {i. prep_at hooks i} - ?T" using bs by (auto simp: taken_set_def)
  then have c: "steps = card ({i. prep_at hooks i} - taken_set hooks ?p)"
    using Suc.prems(2) unfolding T Diff_insert [of _ b ?T] by (simp only: card_Diff_singleton diff_Suc_1)
  obtain order where o: "select_order domains hooks steps ?p = Some order" "distinct order"
    "set order = {i. prep_at hooks i} - insert b ?T"
    "\<forall>k < length order. ready hooks (insert b ?T \<union> set (take k order)) (order ! k) \<and>
        (\<forall>i \<in> set (drop k order). ready hooks (insert b ?T \<union> set (take k order)) i \<longrightarrow>
           i = order ! k \<or> before_at domains hooks (order ! k) i)"
    using Suc.IH [OF os c] unfolding T by blast
  show ?case
  proof (intro exI conjI)
    show "select_order domains hooks (Suc steps) processed = Some (b # order)" using b o(1) by simp
    show "distinct (b # order)" using o(2,3) by simp
    show "set (b # order) = {i. prep_at hooks i} - ?T" using o(3) bs by (auto simp: taken_set_def)
    show "\<forall>k < length (b # order). ready hooks (?T \<union> set (take k (b # order))) ((b # order) ! k) \<and>
        (\<forall>i \<in> set (drop k (b # order)). ready hooks (?T \<union> set (take k (b # order))) i \<longrightarrow>
           i = (b # order) ! k \<or> before_at domains hooks ((b # order) ! k) i)"
    proof (intro allI impI)
      fix k assume k: "k < length (b # order)"
      show "ready hooks (?T \<union> set (take k (b # order))) ((b # order) ! k) \<and>
        (\<forall>i \<in> set (drop k (b # order)). ready hooks (?T \<union> set (take k (b # order))) i \<longrightarrow>
           i = (b # order) ! k \<or> before_at domains hooks ((b # order) ! k) i)"
      proof (cases k)
        case 0
        have "i = b \<or> before_at domains hooks b i" if "i \<in> set (b # order)" "ready hooks ?T i" for i
          using that o(3) bs(4) [of i] by (auto simp: taken_set_def)
        then show ?thesis using 0 bs(3) by simp
      next
        case (Suc m)
        then show ?thesis using o(4) k by (simp add: Un_insert_right)
      qed
    qed
  qed
qed

section \<open>The fast path\<close>

lemma order_scan_result:
  assumes "fold (order_scan domains) hooks (0, True, None) = (n, simple, key)"
  shows "n = card {i. prep_at hooks i} \<and>
    (simple \<longrightarrow> (\<forall>h \<in> set hooks. oc h = HK_OUTCOME_PREPARED \<longrightarrow> hs_commit_after_count (h_spec h) = 0 \<and>
       key = Some (hk_hook_domain_order domains h, hs_commit_order (h_spec h))))"
  using assms
proof (induction hooks arbitrary: n simple key rule: rev_induct)
  case Nil
  then show ?case by simp
next
  case (snoc h hooks)
  obtain n1 s1 k1 where f: "fold (order_scan domains) hooks (0, True, None) = (n1, s1, k1)" by (metis surj_pair)
  have step: "order_scan domains h (n1, s1, k1) = (n, simple, key)" using snoc.prems f by simp
  note IH = snoc.IH [OF f]
  have set: "{i. prep_at (hooks @ [h]) i} =
      (if oc h = HK_OUTCOME_PREPARED then insert (length hooks) {i. prep_at hooks i} else {i. prep_at hooks i})"
    by (auto simp: nth_append less_Suc_eq)
  show ?case
  proof (cases "oc h = HK_OUTCOME_PREPARED")
    case False
    then have "n1 = n" "s1 = simple" "k1 = key" using step by (simp_all add: order_scan_def)
    then show ?thesis unfolding set using IH False by auto
  next
    case True
    have "n = n1 + 1" using step True by (auto simp: order_scan_def Let_def split: option.splits)
    then have n: "n = card {i. prep_at (hooks @ [h]) i}" unfolding set using IH True by simp
    have s: "s1 \<and> hs_commit_after_count (h_spec h) = 0 \<and>
        key = Some (hk_hook_domain_order domains h, hs_commit_order (h_spec h)) \<and> (k1 = None \<or> k1 = key)" if simple
      using step True that by (auto simp: order_scan_def Let_def split: option.splits if_splits)
    have none: "k1 \<noteq> None" if "s1" "h' \<in> set hooks" "oc h' = HK_OUTCOME_PREPARED" for h'
      using IH that by auto
    show ?thesis using n s IH none by fastforce
  qed
qed

lemma no_deps: "hs_commit_after_count (h_spec (hooks ! i)) = 0 \<Longrightarrow> deps hooks i = {}"
  by (simp add: deps_def commit_after_refs_def split: option.splits)

lemma simple_order_ok:
  assumes "\<forall>h \<in> set hooks. oc h = HK_OUTCOME_PREPARED \<longrightarrow> hs_commit_after_count (h_spec h) = 0 \<and>
       key = Some (hk_hook_domain_order domains h, hs_commit_order (h_spec h))"
  shows "commit_order_ok domains hooks (filter (\<lambda>i. oc (hooks ! i) = HK_OUTCOME_PREPARED) [0..<length hooks])"
    (is "commit_order_ok _ _ ?order")
proof -
  have set: "set ?order = {i. prep_at hooks i}" by auto
  have srt: "sorted ?order" by (rule sorted_filter [where f = id, simplified]) simp
  have r: "ready hooks T i" if "i \<in> set ?order" for T i
  proof -
    have "hooks ! i \<in> set hooks" "oc (hooks ! i) = HK_OUTCOME_PREPARED" using that by auto
    then show ?thesis using assms by (simp add: ready_def no_deps)
  qed
  have "i = ?order ! k \<or> before_at domains hooks (?order ! k) i"
    if k: "k < length ?order" and i: "i \<in> set (drop k ?order)" for k i
  proof -
    obtain m where m: "m < length ?order - k" "i = ?order ! (k + m)"
      using i by (auto simp: in_set_conv_nth)
    have le: "?order ! k \<le> i"
      unfolding m(2) by (rule sorted_nth_mono [OF srt]) (use m in auto)
    have "prep_at hooks (?order ! k)" "prep_at hooks i"
      using nth_mem [OF k] in_set_dropD [OF i] by auto
    then have "key = Some (hk_hook_domain_order domains (hooks ! (?order ! k)), hs_commit_order (h_spec (hooks ! (?order ! k))))"
      "key = Some (hk_hook_domain_order domains (hooks ! i), hs_commit_order (h_spec (hooks ! i)))"
      using assms by simp_all
    then show ?thesis using le by (auto simp: before_at_def hk_commit_order_before_def Let_def)
  qed
  moreover have "ready hooks T (?order ! k)" if "k < length ?order" for T k
    by (rule r [OF nth_mem [OF that]])
  ultimately show ?thesis
    unfolding commit_order_ok_def set by simp
qed

lemma commit_order_total:
  assumes "refs_ok hooks" "hk_build_commit_order domains hooks s = (r, s')"
  shows "only_alloc s s'" "r = Some order \<Longrightarrow> commit_order_ok domains hooks order" "no_oom s \<Longrightarrow> r \<noteq> None"
proof -
  obtain ok s1 where a1: "sys_alloc s = (ok, s1)" by fastforce
  obtain ok2 s2 where a2: "sys_alloc s1 = (ok2, s2)" by fastforce
  obtain n simple key where sc: "fold (order_scan domains) hooks (0, True, None) = (n, simple, key)" by (metis surj_pair)
  note sr = order_scan_result [OF sc]
  let ?p = "map (\<lambda>h. r_outcome (h_result h) \<noteq> HK_OUTCOME_PREPARED) hooks"
  have os: "order_state hooks ?p" by (simp add: order_state_def)
  have T: "taken_set hooks ?p = {}" by (auto simp: taken_set_def)
  obtain gen where gen: "select_order domains hooks n ?p = Some gen" "commit_order_ok domains hooks gen"
    using select_order_spec [OF assms(1) os, of n domains] sr unfolding T commit_order_ok_def by auto
  have o2: "only_alloc s s2" using sys_alloc_frame [OF a1] sys_alloc_frame [OF a2] by (rule only_alloc_trans)
  note run = assms(2) [unfolded hk_build_commit_order_def a1 sc Let_def prod.case a2]
  show "only_alloc s s'" using run o2 sys_alloc_frame [OF a1] by (auto split: if_splits)
  show "commit_order_ok domains hooks order" if "r = Some order"
  proof (cases "hooks = []")
    case True
    then show ?thesis using run that by (auto simp: commit_order_ok_def)
  next
    case False
    then show ?thesis
      using run that gen simple_order_ok [where hooks = hooks and domains = domains and key = key] sr
      by (auto split: if_splits)
  qed
  show "r \<noteq> None" if "no_oom s"
  proof -
    have "ok \<and> ok2" using sys_alloc_no_oom [OF that a1] sys_alloc_no_oom [OF _ a2] by blast
    then show ?thesis using run [unfolded gen(1)] by (auto split: if_splits)
  qed
qed

section \<open>The order is determined\<close>

lemma before_at_asym: "before_at d hs a b \<Longrightarrow> \<not> before_at d hs b a"
  by (auto simp: before_at_def hk_commit_order_before_def Let_def split: if_splits)

lemma commit_order_unique:
  assumes "commit_order_ok domains hooks xs" "commit_order_ok domains hooks ys"
  shows "xs = ys"
proof -
  have s: "set xs = set ys" "distinct xs" "distinct ys" using assms by (auto simp: commit_order_ok_def)
  then have l: "length xs = length ys" by (metis distinct_card)
  have t: "take k xs = take k ys" if "k \<le> length xs" for k
    using that
  proof (induction k)
    case (Suc k)
    then have k: "k < length xs" "k < length ys" "take k xs = take k ys" using l by auto
    have sd: "set (drop k xs) = set (drop k ys)"
    proof -
      have "set (drop k zs) = set zs - set (take k zs)" if "distinct zs" for zs :: "nat list"
        using that set_append [of "take k zs" "drop k zs"] distinct_append [of "take k zs" "drop k zs"]
        by auto
      with s k(3) show ?thesis by metis
    qed
    have x: "ready hooks (set (take k ys)) (xs ! k)" "xs ! k \<in> set (drop k ys)"
      using assms(1) k sd nth_mem [of 0 "drop k xs"] by (auto simp: commit_order_ok_def)
    have y: "ready hooks (set (take k xs)) (ys ! k)" "ys ! k \<in> set (drop k xs)"
      using assms(2) k sd nth_mem [of 0 "drop k ys"] by (auto simp: commit_order_ok_def)
    have "ys ! k = xs ! k \<or> before_at domains hooks (xs ! k) (ys ! k)"
      using assms(1) k(1) y by (auto simp: commit_order_ok_def)
    moreover have "xs ! k = ys ! k \<or> before_at domains hooks (ys ! k) (xs ! k)"
      using assms(2) k(2) x by (auto simp: commit_order_ok_def)
    ultimately have "xs ! k = ys ! k" using before_at_asym by metis
    then show ?case using k by (simp add: take_Suc_conv_app_nth)
  qed simp
  then show ?thesis using l by (metis order_refl take_all)
qed

section \<open>Properties\<close>

text \<open>C4. The commit order of a well-formed plan contains every prepared hook exactly once; each hook comes
  after all the prepared hooks it names in \<open>commit_after\<close>; and at each position the hook taken is, of
  the remaining hooks whose dependencies are done, the least by domain order, then commit order, then
  position in the plan. Building it fails only when memory runs out, never because of a cycle.\<close>

theorem commit_order_spec:
  fixes plan :: "'e hk_plan"
  assumes "plan_wf w plan" "hk_build_commit_order (p_domains plan) (p_hooks plan) s = (r, s')"
  shows "(no_oom s \<longrightarrow> r \<noteq> None) \<and> (\<forall>order. r = Some order \<longrightarrow>
    distinct order \<and> set order = {i. prep_at (p_hooks plan) i} \<and>
    (\<forall>k < length order.
       (\<forall>j \<in> deps (p_hooks plan) (order ! k). prep_at (p_hooks plan) j \<longrightarrow> j \<in> set (take k order)) \<and>
       (\<forall>i \<in> set (drop k order).
          (\<forall>j \<in> deps (p_hooks plan) i. prep_at (p_hooks plan) j \<longrightarrow> j \<in> set (take k order)) \<longrightarrow>
          i = order ! k \<or> before_at (p_domains plan) (p_hooks plan) (order ! k) i)))"
proof (intro conjI impI allI)
  note t = commit_order_total [OF plan_wf_refs_ok [OF assms(1)] assms(2)]
  show "r \<noteq> None" if "no_oom s" by (rule t(3) [OF that])
  fix order assume "r = Some order"
  note ok = t(2) [OF this, unfolded commit_order_ok_def ready_def]
  show "distinct order" "set order = {i. prep_at (p_hooks plan) i}" using ok by simp_all
  fix k assume k: "k < length order"
  show "\<forall>j \<in> deps (p_hooks plan) (order ! k). prep_at (p_hooks plan) j \<longrightarrow> j \<in> set (take k order)"
    "\<forall>i \<in> set (drop k order).
          (\<forall>j \<in> deps (p_hooks plan) i. prep_at (p_hooks plan) j \<longrightarrow> j \<in> set (take k order)) \<longrightarrow>
          i = order ! k \<or> before_at (p_domains plan) (p_hooks plan) (order ! k) i"
    using ok k by blast+
qed

text \<open>The fast path for plans without dependencies and with one ordering key is an optimisation: the
  order built is always the one the general topological selection yields.\<close>

lemma commit_order_fast_path:
  fixes plan :: "'e hk_plan"
  assumes "plan_wf w plan" "hk_build_commit_order (p_domains plan) (p_hooks plan) s = (Some order, s')"
  shows "select_order (p_domains plan) (p_hooks plan) (card {i. prep_at (p_hooks plan) i})
    (map (\<lambda>h. oc h \<noteq> HK_OUTCOME_PREPARED) (p_hooks plan)) = Some order"
proof -
  note ok = plan_wf_refs_ok [OF assms(1)]
  let ?p = "map (\<lambda>h. oc h \<noteq> HK_OUTCOME_PREPARED) (p_hooks plan)"
  have os: "order_state (p_hooks plan) ?p" by (simp add: order_state_def)
  have T: "taken_set (p_hooks plan) ?p = {}" by (auto simp: taken_set_def)
  obtain gen where gen: "select_order (p_domains plan) (p_hooks plan) (card {i. prep_at (p_hooks plan) i}) ?p = Some gen"
    "commit_order_ok (p_domains plan) (p_hooks plan) gen"
    using select_order_spec [OF ok os, of "card {i. prep_at (p_hooks plan) i}" "p_domains plan"]
    unfolding T commit_order_ok_def by auto
  with commit_order_unique [OF gen(2) commit_order_total(2) [OF ok assms(2) refl]] show ?thesis by simp
qed

text \<open>Three prepared hooks: the first two have the same order number, the third a lower one but comes
  after the second.\<close>

definition ordered_hook :: "nat \<Rightarrow> string \<Rightarrow> u32 \<Rightarrow> nat list \<Rightarrow> nat hk_hook" where
  "ordered_hook ref name ord after = (let h = analyzed_hook ref name (sample_vtable 1) in
     h\<lparr>h_spec := (h_spec h)\<lparr>hs_commit_order := ord, hs_commit_after := Some (map Some after),
         hs_commit_after_count := length after\<rparr>,
       h_result := (h_result h)\<lparr>r_outcome := HK_OUTCOME_PREPARED\<rparr>\<rparr>)"

definition ordered_plan :: "nat hk_plan" where
  "ordered_plan = sample_plan\<lparr>p_state := HK_PLAN_PREPARED,
     p_hooks := [ordered_hook 1 ''a'' 5 [], ordered_hook 2 ''b'' 5 [1], ordered_hook 3 ''c'' 1 [1]]\<rparr>"

lemma ordered_hook_fields [simp]:
  "h_ref (ordered_hook r n k after) = r" "h_target_key (ordered_hook r n k after) = [of_nat r]"
  "hs_stable_hook_id (h_spec (ordered_hook r n k after)) = Some n"
  "commit_after_refs (h_spec (ordered_hook r n k after)) = map Some after"
  "hs_commit_after_count (h_spec (ordered_hook r n k after)) = length after"
  "oc (ordered_hook r n k after) = HK_OUTCOME_PREPARED" "hs_commit_order (h_spec (ordered_hook r n k after)) = k"
  "hs_domain (h_spec (ordered_hook r n k after)) = None"
  by (simp_all add: ordered_hook_def commit_after_refs_def)
    (simp_all add: analyzed_hook_def sample_hook_def new_hook_def sample_spec_def)

lemma ordered_plan_wf: "plan_wf ((sample_world 0)\<lparr>w_next_ref := 4\<rparr>) ordered_plan"
  by (simp add: plan_wf_def ordered_plan_def sample_plan_def All_less_Suc)

lemma ordered_plan_order:
  "hk_build_commit_order (p_domains ordered_plan) (p_hooks ordered_plan) sample_sys = (Some [0, 2, 1], sample_sys)"
proof -
  define hs where "hs = [ordered_hook 1 ''a'' 5 [], ordered_hook 2 ''b'' 5 [1], ordered_hook 3 ''c'' 1 [1]]"
  have o: "hk_hook_domain_order [] (ordered_hook r n k after) = 0" for r n k after
    by (simp add: hk_hook_domain_order_def hk_plan_domain_index_def)
  have scan: "fold (order_scan []) hs (0, True, None) = (Suc (Suc (Suc 0)), False, Some (0, 5))"
    by (simp add: hs_def order_scan_def o)
  have b: "best_candidate [] hs [False, False, False] = Some 0" "best_candidate [] hs [True, False, False] = Some 2"
    "best_candidate [] hs [True, False, True] = Some 1"
    by (simp_all add: hs_def best_candidate_def upt_rec hk_commit_dependencies_processed_def hk_plan_hook_index_def
        hk_commit_order_before_def o)
  have "select_order [] hs (Suc (Suc (Suc 0))) [False, False, False] = Some [0, 2, 1]"
    by (simp add: b numeral_2_eq_2)
  moreover have "sys_alloc sample_sys = (True, sample_sys)" by (simp add: sys_alloc_def sample_sys_def)
  moreover have "p_hooks ordered_plan = hs" "p_domains ordered_plan = []" "hs \<noteq> []"
    "map (\<lambda>h. oc h \<noteq> HK_OUTCOME_PREPARED) hs = [False, False, False]"
    by (simp_all add: hs_def ordered_plan_def sample_plan_def)
  ultimately show ?thesis by (simp add: hk_build_commit_order_def scan)
qed

theorem commit_order_spec_witness:
  "\<exists>order. fst (hk_build_commit_order (p_domains ordered_plan) (p_hooks ordered_plan) sample_sys) = Some order \<and>
     distinct order \<and> length order = 3"
proof -
  have "distinct [0 :: nat, 2, 1]"
    by (rule commit_order_spec [OF ordered_plan_wf ordered_plan_order, THEN conjunct2, rule_format,
          OF refl, THEN conjunct1])
  then show ?thesis unfolding ordered_plan_order by simp
qed

end
