(* ===== verification/HK_Commit.thy ===== *)
theory HK_Commit
  imports HK_Commit_Order
begin

text \<open>
  \<open>hk_plan_commit\<close> (\<open>src/core/HKPlan.c\<close>): dispatch of one commit, verification, the rollup into the
  public result, ownership, the domain preflight and grouped commits. The locals of the C function
  are the record \<open>commit_run\<close>. An engine records artifacts in its commit callback only; the sink it
  gets holds the ledger by value and the core takes the ledger back from it.
\<close>

record 'e commit_run =
  cm_hooks :: "'e hk_hook list"
  cm_results :: "hk_hook_result list"
  cm_world :: "'e hk_world"
  cm_ledger :: hk_artifact_ledger
  cm_attempted :: nat
  cm_active :: nat
  cm_failed :: nat

section \<open>Dispatch\<close>

definition core_error :: "int \<Rightarrow> string \<Rightarrow> hk_hook_result \<Rightarrow> hk_hook_result" where
  "core_error code message out = out\<lparr>r_error_domain := Some ''core'', r_error_code := code,
     r_error_message := Some message\<rparr>"

definition hk_hook_validate_commit_effects :: "'e hk_hook \<Rightarrow> hk_artifact_sink \<Rightarrow> hk_hook_result \<Rightarrow> bool \<times> hk_hook_result" where
  "hk_hook_validate_commit_effects hook sink out = (case h_matched hook of
     None \<Rightarrow> (True, out)
   | Some (vt, ctx) \<Rightarrow>
       (if sk_observed_effects sink = 0 \<or> sk_observed_effects sink AND NOT (cap_commit_effects (vt_describe vt)) = 0
        then (True, out)
        else (False, core_error (hk_status_code HK_STATUS_INTERNAL_ERROR)
                ''engine produced an undeclared commit effect'' out)))"

text \<open>What a reply leaves in the sink.\<close>

definition sink_reply :: "hk_commit_reply \<Rightarrow> hk_artifact_sink \<Rightarrow> 'e hk_world \<Rightarrow> hk_artifact_sink \<times> 'e hk_world" where
  "sink_reply reply sink w =
     (let (sink1, w1) = sink_record_all (cr_artifacts reply) sink w;
          sink2 = sink1\<lparr>sk_published_original := cr_published_original reply\<rparr>
      in (case cr_continuation reply of None \<Rightarrow> sink2
          | Some c \<Rightarrow> sink2\<lparr>sk_has_continuation := True, sk_continuation := c\<rparr>, w1))"

definition hk_hook_dispatch_commit :: "'e hk_hook \<Rightarrow> hk_artifact_sink \<Rightarrow> 'e hk_world \<Rightarrow>
    (hk_mutation_state \<times> hk_artifact_sink) \<times> 'e hk_world" where
  "hk_hook_dispatch_commit hook sink w =
     (let finish = (\<lambda>(reply, env).
            let (sink1, w1) = sink_reply reply sink (w\<lparr>w_env := env\<rparr>) in ((cr_mutation reply, sink1), w1))
      in case h_matched hook of
        None \<Rightarrow> ((HK_MUTATION_UNKNOWN, sink), w)
      | Some (vt, ctx) \<Rightarrow> (case vt_commit_one_ctx vt of
          Some f \<Rightarrow> finish (f ctx (h_spec hook) (h_prepared_state hook) sink (w_env w))
        | None \<Rightarrow> (case vt_commit_one vt of
            Some f \<Rightarrow> finish (f (h_spec hook) sink (w_env w))
          | None \<Rightarrow> ((HK_MUTATION_UNKNOWN, sink), w))))"

definition hk_hook_dispatch_verify :: "'e hk_hook \<Rightarrow> 'e \<Rightarrow> (hk_verify_result \<times> hk_verify_diag) \<times> 'e" where
  "hk_hook_dispatch_verify hook env = (case h_matched hook of
     None \<Rightarrow> ((HK_VERIFY_UNAVAILABLE, zero_verify_diag), env)
   | Some (vt, ctx) \<Rightarrow> (case vt_verify_one_ctx vt of
       Some f \<Rightarrow> f ctx (h_spec hook) (h_prepared_state hook) env
     | None \<Rightarrow> (case vt_verify_one vt of
         Some f \<Rightarrow> f (h_spec hook) env
       | None \<Rightarrow> ((HK_VERIFY_UNAVAILABLE, zero_verify_diag), env))))"

definition hk_hook_apply_verification :: "'e hk_hook \<Rightarrow> hk_artifact_ledger \<Rightarrow> nat \<Rightarrow> hk_mutation_state \<Rightarrow>
    hk_hook_result \<Rightarrow> hk_engine_operation option \<Rightarrow> 'e \<Rightarrow>
    (hk_mutation_state \<times> hk_hook_result \<times> hk_artifact_ledger) \<times> 'e" where
  "hk_hook_apply_verification hook ledger artifact_start mutation out0 group_operation env =
     (let out = out0\<lparr>r_verified := False\<rparr> in
      case h_matched hook of
        None \<Rightarrow> ((mutation, out, ledger), env)
      | Some (vt, ctx) \<Rightarrow>
        if mutation \<noteq> HK_MUTATION_COMPLETE then ((mutation, out, ledger), env)
        else let
          ((result, diag), env1) = (case group_operation of
              Some oper \<Rightarrow> ((op_verify_result oper, op_verify_diag oper), env)
            | None \<Rightarrow> hk_hook_dispatch_verify hook env);
          (marked, ledger1) = (if result = HK_VERIFY_OK
            then hk_artifact_ledger_mark_verified ledger artifact_start
                   (hk_artifact_ledger_count ledger - artifact_start)
            else (False, ledger))
        in if result = HK_VERIFY_UNAVAILABLE then ((mutation, out, ledger), env1)
        else if result = HK_VERIFY_OK \<and> marked then ((mutation, out\<lparr>r_verified := True\<rparr>, ledger1), env1)
        else let
          diag1 = (if result = HK_VERIFY_OK
                   then diag\<lparr>vd_error_code := hk_status_code HK_STATUS_INTERNAL_ERROR,
                             vd_error_message := Some ''could not mark verified artifacts''\<rparr> else diag);
          eid = cap_engine_id (vt_describe vt)
        in ((HK_MUTATION_UNKNOWN,
             out\<lparr>r_error_code := (if vd_error_code diag1 \<noteq> 0 then vd_error_code diag1
                                  else hk_status_code HK_STATUS_INTERNAL_ERROR),
                 r_error_domain := (if eid \<noteq> None then eid else Some ''engine''),
                 r_error_message := (if vd_error_message diag1 \<noteq> None then vd_error_message diag1
                                     else Some ''post-commit verification failed'')\<rparr>,
             ledger1), env1))"

definition record_owner :: "'e hk_hook \<Rightarrow> string option \<Rightarrow> ptr \<Rightarrow> 'e hk_world \<Rightarrow> bool \<times> 'e hk_world" where
  "record_owner hook engine_id predecessor w =
     (let ((ok, owners), w1) = hk_ownership_record_locked (h_target_key hook) engine_id
            (hs_replacement (h_spec hook)) predecessor (w_owners w) w
      in (ok, w1\<lparr>w_owners := owners\<rparr>))"

section \<open>The rollup\<close>

text \<open>The \<open>COMPLETE\<close> case of the final switch: the handle for a published original.\<close>

definition publish_original :: "hk_artifact_sink \<Rightarrow> 'e hk_hook \<Rightarrow> hk_hook_result \<Rightarrow> 'e hk_world \<Rightarrow>
    ('e hk_hook \<times> hk_hook_result) \<times> 'e hk_world" where
  "publish_original sink hook out w =
     (if sk_published_original sink = 0 then ((hook, out), w)
      else let (installed_id, w1) = hk_id_generate w;
               out1 = out\<lparr>r_installed_id := installed_id, r_original_available := True\<rparr> in
        (case hk_installed_record_create installed_id (sk_published_original sink) out1 w1 of
           (Some rec, w2) \<Rightarrow> ((hook\<lparr>h_installed := Some rec\<rparr>, out1), w2)
         | (None, w2) \<Rightarrow> ((hook, out1\<lparr>r_installed_id := hk_id_zero, r_original_available := False\<rparr>), w2)))"

fun failure_outcome :: "hk_mutation_state \<Rightarrow> hk_outcome" where
  "failure_outcome HK_MUTATION_NONE = HK_OUTCOME_FAILED_SAFE"
| "failure_outcome HK_MUTATION_PARTIAL = HK_OUTCOME_FAILED_PARTIAL"
| "failure_outcome _ = HK_OUTCOME_FAILED_UNKNOWN"

definition cm_store :: "nat \<Rightarrow> 'e hk_hook \<Rightarrow> hk_hook_result \<Rightarrow> 'e commit_run \<Rightarrow> 'e commit_run" where
  "cm_store i hook out st =
     st\<lparr>cm_hooks := (cm_hooks st)[i := hook\<lparr>h_result := out\<rparr>], cm_results := (cm_results st)[i := out]\<rparr>"

abbreviation cm_fail :: "nat \<Rightarrow> 'e hk_hook \<Rightarrow> hk_hook_result \<Rightarrow> 'e commit_run \<Rightarrow> 'e commit_run" where
  "cm_fail i hook out st \<equiv> cm_store i hook out (st\<lparr>cm_failed := cm_failed st + 1\<rparr>)"

text \<open>\<open>owner\<close> is the engine id of \<open>ownership_caps\<close> when the caller passes an ownership state; the ledger
  is the one in \<open>cm_ledger\<close>.\<close>

definition hk_plan_finish_commit_attempt :: "u64 \<Rightarrow> nat \<Rightarrow> nat \<Rightarrow> hk_mutation_state \<Rightarrow> hk_artifact_sink \<Rightarrow>
    hk_engine_operation option \<Rightarrow> string option option \<Rightarrow> bool \<Rightarrow> 'e commit_run \<Rightarrow> 'e commit_run" where
  "hk_plan_finish_commit_attempt generation i artifact_start mutation0 sink group_operation owner compensated st =
     (let hook = cm_hooks st ! i; w = cm_world st; ledger = cm_ledger st;
          mutation1 = (if sk_record_failed sink \<and> mutation0 = HK_MUTATION_COMPLETE then HK_MUTATION_UNKNOWN
                       else mutation0);
          (effects_ok, out1) = hk_hook_validate_commit_effects hook sink (cm_results st ! i);
          mutation2 = (if \<not> effects_ok then HK_MUTATION_UNKNOWN else mutation1);
          out2 = (if sk_has_continuation sink then out1\<lparr>r_continuation := sk_continuation sink\<rparr> else out1);
          n = hk_artifact_ledger_count ledger - artifact_start;
          out3 = out2\<lparr>r_mutation := mutation2, r_observed_commit_effects := sk_observed_effects sink,
                      r_artifact_count := n\<rparr>;
          out4 = (if n > 0 then out3\<lparr>r_matched_locations := of_nat n,
                    r_modified_locations := (if mutation2 = HK_MUTATION_NONE then 0 else of_nat n)\<rparr> else out3);
          out5 = out4\<lparr>r_installed_generation := generation\<rparr>;
          ((mutation3, out6, ledger1), env1) =
            hk_hook_apply_verification hook ledger artifact_start mutation2 out5 group_operation (w_env w);
          out7 = out6\<lparr>r_mutation := mutation3\<rparr>;
          w1 = w\<lparr>w_env := env1\<rparr>;
          (recorded, w2) = (case owner of
              None \<Rightarrow> (True, w1)
            | Some engine_id \<Rightarrow> (if mutation3 = HK_MUTATION_COMPLETE
                then record_owner hook engine_id (sk_published_original sink) w1 else (True, w1)));
          mutation4 = (if recorded then mutation3 else HK_MUTATION_UNKNOWN);
          out8 = (if recorded then out7
                  else core_error (hk_status_code HK_STATUS_OUT_OF_MEMORY) ''could not record target ownership''
                         (out7\<lparr>r_mutation := HK_MUTATION_UNKNOWN\<rparr>));
          st1 = st\<lparr>cm_world := w2, cm_ledger := ledger1\<rparr>
      in if compensated then cm_fail i hook (out8\<lparr>r_outcome := HK_OUTCOME_COMPENSATED\<rparr>) st1
         else if mutation4 = HK_MUTATION_COMPLETE then
           (let ((hook1, out9), w3) = publish_original sink hook (out8\<lparr>r_outcome := HK_OUTCOME_ACTIVE\<rparr>) w2
            in cm_store i hook1 out9 (st1\<lparr>cm_world := w3, cm_active := cm_active st1 + 1\<rparr>))
         else cm_fail i hook (out8\<lparr>r_outcome := failure_outcome mutation4\<rparr>) st1)"

section \<open>The domain boundary\<close>

definition hook_of_ref :: "'e hk_hook list \<Rightarrow> nat option \<Rightarrow> 'e hk_hook option" where
  "hook_of_ref hooks r = (case r of None \<Rightarrow> None | Some ref \<Rightarrow> List.find (\<lambda>h. h_ref h = ref) hooks)"

definition hk_commit_dependency_ready_for_domain :: "'e hk_hook list \<Rightarrow> 'e hk_hook \<Rightarrow> nat \<Rightarrow> bool" where
  "hk_commit_dependency_ready_for_domain hooks hook domain =
     list_all (\<lambda>r. case hook_of_ref hooks r of None \<Rightarrow> False
       | Some dep \<Rightarrow> r_outcome (h_result dep) = HK_OUTCOME_ACTIVE \<or>
           (hs_domain (h_spec dep) = Some domain \<and> r_outcome (h_result dep) = HK_OUTCOME_PREPARED))
       (commit_after_refs (h_spec hook))"

definition hk_domain_commit_preflight :: "u64 \<Rightarrow> 'e hk_hook list \<Rightarrow> nat \<Rightarrow> bool" where
  "hk_domain_commit_preflight generation hooks domain =
     list_all (\<lambda>h. if hs_domain (h_spec h) \<noteq> Some domain \<or> hs_role (h_spec h) \<noteq> HK_OPERATION_MANDATORY then True
       else \<not> (r_outcome (h_result h) \<noteq> HK_OUTCOME_PREPARED \<or> r_image_generation (h_result h) \<noteq> generation \<or>
              \<not> hk_commit_dependency_ready_for_domain hooks h domain)) hooks"

definition preflight_result :: "u64 \<Rightarrow> hk_hook_result \<Rightarrow> hk_hook_result" where
  "preflight_result generation res =
     (let out = res\<lparr>r_mutation := HK_MUTATION_NONE, r_error_domain := Some ''core'',
                    r_error_code := hk_status_code HK_STATUS_INVALID_STATE\<rparr>
      in if r_image_generation res \<noteq> generation
         then out\<lparr>r_outcome := HK_OUTCOME_STALE_PLAN, r_retryable := True, r_currently_valid := False,
                  r_error_message := Some ''mandatory domain member became stale''\<rparr>
         else out\<lparr>r_outcome := HK_OUTCOME_FAILED_SAFE, r_retryable := False, r_currently_valid := True,
                  r_error_message := Some ''mandatory domain preflight did not pass''\<rparr>)"

definition hk_mark_domain_commit_preflight_failed :: "u64 \<Rightarrow> nat \<Rightarrow> 'e commit_run \<Rightarrow> nat \<times> 'e commit_run" where
  "hk_mark_domain_commit_preflight_failed generation domain st =
     fold (\<lambda>i (marked, st). let hook = cm_hooks st ! i in
       if hs_domain (h_spec hook) \<noteq> Some domain \<or> r_outcome (h_result hook) \<noteq> HK_OUTCOME_PREPARED
       then (marked, st)
       else (marked + 1, cm_store i hook (preflight_result generation (h_result hook)) st))
     [0..<length (cm_hooks st)] (0, st)"

section \<open>One hook\<close>

definition hk_engine_ids_equal :: "string option \<Rightarrow> string option \<Rightarrow> bool" where
  "hk_engine_ids_equal left right \<longleftrightarrow> left = right"

definition hk_plan_set_ownership_error :: "hk_outcome \<Rightarrow> string \<Rightarrow> hk_hook_result \<Rightarrow> hk_hook_result" where
  "hk_plan_set_ownership_error outcome message out =
     core_error (hk_status_code HK_STATUS_INVALID_STATE) message
       (out\<lparr>r_outcome := outcome, r_mutation := HK_MUTATION_NONE, r_retryable := False, r_currently_valid := True\<rparr>)"

definition dependencies_active :: "'e hk_hook list \<Rightarrow> 'e hk_hook \<Rightarrow> bool" where
  "dependencies_active hooks hook = list_all (\<lambda>r. case hook_of_ref hooks r of None \<Rightarrow> False
     | Some dep \<Rightarrow> r_outcome (h_result dep) = HK_OUTCOME_ACTIVE) (commit_after_refs (h_spec hook))"

definition owned_capabilities :: "'e hk_hook \<Rightarrow> hk_engine_capabilities option" where
  "owned_capabilities hook = map_option (\<lambda>(vt, ctx). vt_describe vt) (h_matched hook)"

definition ownership_conflict :: "hk_ownership_state \<Rightarrow> 'e hk_hook \<Rightarrow> bool" where
  "ownership_conflict ownership hook \<longleftrightarrow> os_present ownership \<and>
     (case owned_capabilities hook of None \<Rightarrow> True
      | Some caps \<Rightarrow> cap_chainable_target_kinds caps AND HK_TARGET_KIND_BIT (target_kind (hs_target (h_spec hook))) = 0 \<or>
          \<not> hk_engine_ids_equal (cap_engine_id caps) (os_engine_id ownership))"

text \<open>The checks between the engine's answer and the rollup.\<close>

definition judge_mutation :: "hk_ownership_state \<Rightarrow> 'e hk_hook \<Rightarrow> hk_artifact_sink \<Rightarrow> hk_mutation_state \<Rightarrow>
    hk_hook_result \<Rightarrow> hk_mutation_state \<times> hk_hook_result" where
  "judge_mutation ownership hook sink mutation out =
     (let mutation1 = (if sk_record_failed sink \<and> mutation = HK_MUTATION_COMPLETE then HK_MUTATION_UNKNOWN else mutation);
          (mutation2, out1) = (if mutation1 = HK_MUTATION_COMPLETE
            then (let (ok, out') = hk_hook_validate_commit_effects hook sink out
                  in (if ok then mutation1 else HK_MUTATION_UNKNOWN, out'))
            else (mutation1, out))
      in if mutation2 = HK_MUTATION_COMPLETE \<and> os_present ownership \<and>
            sk_published_original sink \<noteq> os_head_replacement ownership
         then (HK_MUTATION_UNKNOWN, core_error (hk_status_code HK_STATUS_INVALID_STATE)
                 ''engine did not publish the owned predecessor'' out1)
         else (mutation2, out1))"

definition commit_sink :: "hk_id \<Rightarrow> hk_id \<Rightarrow> 'e hk_hook \<Rightarrow> hk_ownership_state \<Rightarrow> hk_artifact_ledger \<Rightarrow> hk_artifact_sink" where
  "commit_sink plan_id owner_id hook ownership ledger = \<lparr>sk_ledger = ledger, sk_plan_id = plan_id,
     sk_runtime_owner_id = owner_id, sk_request_id = h_id hook, sk_published_original = 0,
     sk_has_continuation = (h_prepared_continuation hook \<noteq> None),
     sk_continuation = (case h_prepared_continuation hook of None \<Rightarrow> raw_continuation | Some c \<Rightarrow> c),
     sk_require_predecessor_match = os_present ownership,
     sk_required_predecessor = os_head_replacement ownership, sk_record_failed = False, sk_observed_effects = 0\<rparr>"

text \<open>The body of the loop after the domain boundary.\<close>

definition commit_single :: "u64 \<Rightarrow> hk_id \<Rightarrow> hk_id \<Rightarrow> nat \<Rightarrow> 'e commit_run \<Rightarrow> 'e commit_run" where
  "commit_single generation plan_id owner_id i st =
     (let hook = cm_hooks st ! i; out = cm_results st ! i in
      if r_image_generation (h_result hook) \<noteq> generation then
        cm_fail i hook (out\<lparr>r_outcome := HK_OUTCOME_STALE_PLAN, r_retryable := True, r_currently_valid := False\<rparr>) st
      else let st1 = st\<lparr>cm_attempted := cm_attempted st + 1\<rparr> in
      if \<not> dependencies_active (cm_hooks st1) hook then
        cm_fail i hook (core_error (hk_status_code HK_STATUS_INVALID_STATE) ''commit dependency did not become active''
          (out\<lparr>r_outcome := HK_OUTCOME_FAILED_SAFE, r_mutation := HK_MUTATION_NONE, r_retryable := False,
               r_currently_valid := True\<rparr>)) st1
      else let ownership = hk_ownership_lookup_locked (h_target_key hook) (w_owners (cm_world st1)) in
      if ownership_conflict ownership hook then
        cm_fail i hook (hk_plan_set_ownership_error HK_OUTCOME_CONFLICT
          ''existing target ownership is not chainable by this engine'' out) st1
      else let
        artifact_start = hk_artifact_ledger_count (cm_ledger st1);
        ((mutation, sink), w1) = hk_hook_dispatch_commit hook
           (commit_sink plan_id owner_id hook ownership (cm_ledger st1)) (cm_world st1);
        (mutation1, out1) = judge_mutation ownership hook sink mutation out;
        st2 = st1\<lparr>cm_world := w1, cm_ledger := sk_ledger sink, cm_results := (cm_results st1)[i := out1]\<rparr>
      in hk_plan_finish_commit_attempt generation i artifact_start mutation1 sink None
           (Some (case owned_capabilities hook of None \<Rightarrow> None | Some caps \<Rightarrow> cap_engine_id caps)) False st2)"

end
