(* ===== verification/HK_Commit_Run.thy ===== *)
theory HK_Commit_Run
  imports HK_Commit
begin

text \<open>
  Grouped commits and the loop of \<open>hk_plan_commit\<close> (\<open>src/core/HKPlan.c\<close>), with the artifact lists the
  runtime and the process keep.
\<close>

section \<open>The group\<close>

definition group_admits :: "u64 \<Rightarrow> hk_ownership_record list \<Rightarrow> 'e hk_hook \<Rightarrow> 'e hk_hook list \<Rightarrow> 'e hk_hook \<Rightarrow> bool" where
  "group_admits generation owners first taken h \<longleftrightarrow>
     r_outcome (h_result h) = HK_OUTCOME_PREPARED \<and> hs_domain (h_spec h) = None \<and>
     hs_commit_after_count (h_spec h) = 0 \<and> same_engine h first \<and> r_image_generation (h_result h) = generation \<and>
     \<not> list_ex (\<lambda>p. hk_hooks_target_equal p h) taken \<and>
     \<not> os_present (hk_ownership_lookup_locked (h_target_key h) owners)"

text \<open>How many of the following hooks join the group; \<open>taken\<close> are the members so far.\<close>

fun group_extend :: "u64 \<Rightarrow> hk_ownership_record list \<Rightarrow> 'e hk_hook \<Rightarrow> 'e hk_hook list \<Rightarrow> 'e hk_hook list \<Rightarrow> nat" where
  "group_extend generation owners first taken [] = 0"
| "group_extend generation owners first taken (h # hs) =
     (if group_admits generation owners first taken h
      then 1 + group_extend generation owners first (taken @ [h]) hs else 0)"

definition hk_plan_commit_group_count :: "u64 \<Rightarrow> hk_ownership_record list \<Rightarrow> 'e hk_hook list \<Rightarrow> nat list \<Rightarrow> nat \<Rightarrow> nat" where
  "hk_plan_commit_group_count generation owners hooks order start =
     (if start \<ge> length order then 0
      else let first = hooks ! (order ! start) in
      if r_outcome (h_result first) \<noteq> HK_OUTCOME_PREPARED \<or> hs_domain (h_spec first) \<noteq> None \<or>
         hs_commit_after_count (h_spec first) \<noteq> 0 then 0
      else (case h_matched first of None \<Rightarrow> 0
        | Some (vt, ctx) \<Rightarrow>
          (if vt_commit_group_ctx vt = None \<or> \<not> cap_native_grouping (vt_describe vt) then 0
           else if os_present (hk_ownership_lookup_locked (h_target_key first) owners) then 0
           else let n = 1 + group_extend generation owners first [first]
                      (map (\<lambda>i. hooks ! i) (drop (start + 1) order))
                in if n > 1 then n else 0)))"

text \<open>
  One member while the group runs: its index in the plan, its operation and its sink, which holds
  the member's own ledger.
\<close>

record group_member =
  gm_index :: nat
  gm_oper :: hk_engine_operation
  gm_sink :: hk_artifact_sink

definition unowned :: hk_ownership_state where
  "unowned = \<lparr>os_present = False, os_head_replacement = 0, os_predecessor = 0, os_engine_id = None\<rparr>"

text \<open>The first loop: results carried forward, a ledger and a sink for every member. \<open>None\<close> when a
  ledger cannot be had.\<close>

fun group_members :: "hk_id \<Rightarrow> hk_id \<Rightarrow> bool \<Rightarrow> nat list \<Rightarrow> 'e commit_run \<Rightarrow> group_member list option \<times> 'e commit_run" where
  "group_members plan_id owner_id revalidated [] st = (Some [], st)"
| "group_members plan_id owner_id revalidated (i # is) st =
     (let hook = cm_hooks st ! i;
          st1 = st\<lparr>cm_results := (cm_results st)[i := h_result hook], cm_attempted := cm_attempted st + 1\<rparr>;
          (ledger, w1) = hk_artifact_ledger_create (cm_world st1);
          st2 = st1\<lparr>cm_world := w1\<rparr>
      in (case ledger of
            None \<Rightarrow> (None, st2)
          | Some l \<Rightarrow>
              (let sink = commit_sink plan_id owner_id hook unowned l;
                   oper = (fresh_operation (h_spec hook))\<lparr>op_prepared := h_prepared_state hook, op_sink := Some sink,
                     op_prepare_result := HK_PREPARE_OK, op_mutation := HK_MUTATION_UNKNOWN,
                     op_verify_result := HK_VERIFY_FAILED, op_revalidated := revalidated\<rparr>;
                   (ms, st3) = group_members plan_id owner_id revalidated is st2
               in (map_option ((#) \<lparr>gm_index = i, gm_oper = oper, gm_sink = sink\<rparr>) ms, st3))))"

definition gm_opers :: "group_member list \<Rightarrow> hk_engine_operation list" where
  "gm_opers ms = map (\<lambda>m. (gm_oper m)\<lparr>op_sink := Some (gm_sink m)\<rparr>) ms"

text \<open>Running a grouped callback: it may change every operation; the sinks are the core's.\<close>

definition group_call :: "'e group_callback \<Rightarrow> ptr \<Rightarrow> group_member list \<Rightarrow> 'e \<Rightarrow> (bool \<times> group_member list) \<times> 'e" where
  "group_call f ctx ms env =
     (let ((ok, change), env1) = f ctx (gm_opers ms) env
      in ((ok, map (\<lambda>k. (ms ! k)\<lparr>gm_oper := change k (gm_opers ms ! k)\<rparr>) [0..<length ms]), env1))"

abbreviation set_mutation :: "hk_mutation_state \<Rightarrow> group_member \<Rightarrow> group_member" where
  "set_mutation m g \<equiv> g\<lparr>gm_oper := (gm_oper g)\<lparr>op_mutation := m\<rparr>\<rparr>"

fun group_replies :: "(nat \<Rightarrow> hk_commit_reply) \<Rightarrow> nat \<Rightarrow> group_member list \<Rightarrow> 'e hk_world \<Rightarrow> group_member list \<times> 'e hk_world" where
  "group_replies replies k [] w = ([], w)"
| "group_replies replies k (m # ms) w =
     (let (sink, w1) = sink_reply (replies k) (gm_sink m) w;
          m1 = set_mutation (cr_mutation (replies k)) (m\<lparr>gm_sink := sink\<rparr>);
          (ms1, w2) = group_replies replies (k + 1) ms w1
      in (m1 # ms1, w2))"

definition group_error :: "int \<Rightarrow> string \<Rightarrow> group_member list \<Rightarrow> 'e commit_run \<Rightarrow> 'e commit_run" where
  "group_error code message ms st =
     st\<lparr>cm_results := fold (\<lambda>m rs. rs[gm_index m := core_error code message (rs ! gm_index m)]) ms (cm_results st)\<rparr>"

text \<open>Revalidation and the commit callback.\<close>

definition group_commit :: "'e hk_engine_vtable \<Rightarrow> ptr \<Rightarrow> group_member list \<Rightarrow> 'e commit_run \<Rightarrow>
    (bool \<times> bool \<times> group_member list) \<times> 'e commit_run" where
  "group_commit vt ctx ms st =
     (let w = cm_world st;
          ((rok, ms1), env1) = (case vt_revalidate_group_ctx vt of None \<Rightarrow> ((True, ms), w_env w)
             | Some f \<Rightarrow> group_call f ctx ms (w_env w));
          revalidation_ok = (case vt_revalidate_group_ctx vt of None \<Rightarrow> True
             | Some f \<Rightarrow> rok \<and> list_all (\<lambda>m. op_revalidated (gm_oper m)) ms1);
          w1 = w\<lparr>w_env := env1\<rparr>
      in if \<not> revalidation_ok then
           ((False, False, map (set_mutation HK_MUTATION_NONE) ms1),
            group_error (hk_status_code HK_STATUS_INVALID_STATE) ''group revalidation failed'' ms1 (st\<lparr>cm_world := w1\<rparr>))
         else (case vt_commit_group_ctx vt of
             None \<Rightarrow> ((True, False, ms1), st\<lparr>cm_world := w1\<rparr>)
           | Some f \<Rightarrow>
              (let ((commit_ok, replies), env2) = f ctx (gm_opers ms1) (w_env w1);
                   (ms2, w2) = group_replies replies 0 ms1 (w1\<lparr>w_env := env2\<rparr>);
                   st1 = st\<lparr>cm_world := w2\<rparr>
               in if commit_ok then ((True, True, ms2), st1)
                  else ((True, False, map (set_mutation HK_MUTATION_UNKNOWN) ms2),
                        group_error (hk_status_code HK_STATUS_INTERNAL_ERROR) ''group commit callback failed'' ms2 st1))))"

definition group_verify :: "'e hk_engine_vtable \<Rightarrow> ptr \<Rightarrow> bool \<Rightarrow> group_member list \<Rightarrow> 'e \<Rightarrow> (bool \<times> group_member list) \<times> 'e" where
  "group_verify vt ctx commit_ok ms env = (case vt_verify_group_ctx vt of
     None \<Rightarrow> ((False, ms), env)
   | Some f \<Rightarrow>
      (if \<not> commit_ok then ((False, ms), env)
       else let ((ok, ms1), env1) = group_call f ctx ms env
       in ((True, if ok then ms1 else map (\<lambda>m. m\<lparr>gm_oper := (gm_oper m)\<lparr>op_verify_result := HK_VERIFY_FAILED,
              op_verify_diag := zero_verify_diag\<rparr>\<rparr>) ms1), env1)))"

definition needs_compensation :: "bool \<Rightarrow> bool \<Rightarrow> bool \<Rightarrow> group_member list \<Rightarrow> bool" where
  "needs_compensation revalidation_ok commit_ok grouped ms \<longleftrightarrow>
     (if commit_ok then list_ex (\<lambda>m. op_mutation (gm_oper m) = HK_MUTATION_PARTIAL \<or>
          op_mutation (gm_oper m) = HK_MUTATION_UNKNOWN \<or>
          (grouped \<and> op_mutation (gm_oper m) = HK_MUTATION_COMPLETE \<and> op_verify_result (gm_oper m) \<noteq> HK_VERIFY_OK)) ms
      else revalidation_ok)"

definition group_compensate :: "'e hk_engine_vtable \<Rightarrow> ptr \<Rightarrow> bool \<Rightarrow> group_member list \<Rightarrow> 'e \<Rightarrow> group_member list \<times> 'e" where
  "group_compensate vt ctx needed ms env = (case vt_compensate_group_ctx vt of
     None \<Rightarrow> (ms, env)
   | Some f \<Rightarrow>
      (if \<not> needed \<or> \<not> cap_supports_compensation (vt_describe vt) then (ms, env)
       else let ((ok, ms1), env1) = group_call f ctx ms env
       in (if ok then ms1 else map (\<lambda>m. m\<lparr>gm_oper := (gm_oper m)\<lparr>op_compensated := False\<rparr>\<rparr>) ms1, env1)))"

text \<open>The last loop under the ownership lock.\<close>

definition group_judge :: "string option \<Rightarrow> group_member \<Rightarrow> group_member list \<times> 'e commit_run \<Rightarrow> group_member list \<times> 'e commit_run" where
  "group_judge engine_id m = (\<lambda>(acc, st).
     let i = gm_index m; hook = cm_hooks st ! i; sink = gm_sink m; out = cm_results st ! i; mutation = op_mutation (gm_oper m);
         mutation1 = (if sk_record_failed sink \<and> mutation = HK_MUTATION_COMPLETE then HK_MUTATION_UNKNOWN else mutation);
         (mutation2, out1) = (if mutation1 = HK_MUTATION_COMPLETE
            then (let (ok, out') = hk_hook_validate_commit_effects hook sink out
                  in (if ok then mutation1 else HK_MUTATION_UNKNOWN, out'))
            else (mutation1, out));
         (recorded, w1) = (if mutation2 = HK_MUTATION_COMPLETE \<and> \<not> op_compensated (gm_oper m)
            then record_owner hook engine_id (sk_published_original sink) (cm_world st) else (True, cm_world st));
         (mutation3, out2) = (if recorded then (mutation2, out1)
            else (HK_MUTATION_UNKNOWN, core_error (hk_status_code HK_STATUS_OUT_OF_MEMORY)
                   ''could not record target ownership'' out1))
     in (acc @ [set_mutation mutation3 m], st\<lparr>cm_world := w1, cm_results := (cm_results st)[i := out2]\<rparr>))"

text \<open>After the lock: the members' ledgers join the plan's ledger; the start of each range is kept.\<close>

definition group_append :: "group_member \<Rightarrow> (nat \<times> group_member) list \<times> 'e commit_run \<Rightarrow> (nat \<times> group_member) list \<times> 'e commit_run" where
  "group_append m = (\<lambda>(acc, st).
     let start = hk_artifact_ledger_count (cm_ledger st);
         ((ok, ledger), w1) = hk_artifact_ledger_append_ledger (cm_ledger st) (sk_ledger (gm_sink m)) (cm_world st);
         m1 = (if ok then m else m\<lparr>gm_sink := (gm_sink m)\<lparr>sk_record_failed := True\<rparr>\<rparr>);
         m2 = (if sk_record_failed (gm_sink m1) then m1\<lparr>gm_oper := (gm_oper m1)\<lparr>op_compensated := False\<rparr>\<rparr> else m1)
     in (acc @ [(start, m2)], st\<lparr>cm_ledger := ledger, cm_world := w1\<rparr>))"

definition group_rollup :: "u64 \<Rightarrow> bool \<Rightarrow> nat \<times> group_member \<Rightarrow> 'e commit_run \<Rightarrow> 'e commit_run" where
  "group_rollup generation grouped = (\<lambda>(start, m) st.
     hk_plan_finish_commit_attempt generation (gm_index m) start (op_mutation (gm_oper m)) (gm_sink m)
       (if grouped then Some (gm_oper m) else None) None (op_compensated (gm_oper m)) st)"

definition group_mark :: "nat \<times> group_member \<Rightarrow> 'e commit_run \<Rightarrow> 'e commit_run" where
  "group_mark = (\<lambda>(start, m) st.
     if op_compensated (gm_oper m) \<and> op_mutation (gm_oper m) \<noteq> HK_MUTATION_NONE \<and> \<not> sk_record_failed (gm_sink m)
     then st\<lparr>cm_ledger := snd (hk_artifact_ledger_mark_compensated (cm_ledger st) start
            (hk_artifact_ledger_count (sk_ledger (gm_sink m))))\<rparr>
     else st)"

definition hk_plan_commit_group :: "u64 \<Rightarrow> hk_id \<Rightarrow> hk_id \<Rightarrow> nat list \<Rightarrow> 'e commit_run \<Rightarrow> bool \<times> 'e commit_run" where
  "hk_plan_commit_group generation plan_id owner_id is st =
     (let (ok1, w1) = sys_alloc (cm_world st); (ok2, w2) = sys_alloc w1;
          (ok3, w3) = sys_alloc w2; (ok4, w4) = sys_alloc w3; st1 = st\<lparr>cm_world := w4\<rparr> in
      if \<not> (ok1 \<and> ok2 \<and> ok3 \<and> ok4) then (False, st1)
      else (case h_matched (cm_hooks st1 ! hd is) of
        None \<Rightarrow> (False, st1)
      | Some (vt, ctx) \<Rightarrow>
        (case group_members plan_id owner_id (vt_revalidate_group_ctx vt = None) is st1 of
          (None, st2) \<Rightarrow> (False, st2)
        | (Some ms, st2) \<Rightarrow>
          (let ((revalidation_ok, commit_ok, ms1), st3) = group_commit vt ctx ms st2;
               ((grouped, ms2), env4) = group_verify vt ctx commit_ok ms1 (w_env (cm_world st3));
               (ms3, env5) = group_compensate vt ctx (needs_compensation revalidation_ok commit_ok grouped ms2) ms2 env4;
               st4 = st3\<lparr>cm_world := (cm_world st3)\<lparr>w_env := env5\<rparr>\<rparr>;
               (ms4, st5) = fold (group_judge (cap_engine_id (vt_describe vt))) ms3 ([], st4);
               (ms5, st6) = fold group_append ms4 ([], st5);
               st7 = fold (group_rollup generation grouped) ms5 st6
           in (True, fold group_mark ms5 st7)))))"

section \<open>The loop\<close>

text \<open>One round for a hook that is not in a group; \<open>previous\<close> are the indices already visited.\<close>

definition commit_round :: "u64 \<Rightarrow> hk_id \<Rightarrow> hk_id \<Rightarrow> nat list \<Rightarrow> nat \<Rightarrow> 'e commit_run \<Rightarrow> 'e commit_run" where
  "commit_round generation plan_id owner_id previous i st =
     (let hook = cm_hooks st ! i in
      case hs_domain (h_spec hook) of
        None \<Rightarrow> commit_single generation plan_id owner_id i st
      | Some domain \<Rightarrow>
         (let seen = list_ex (\<lambda>j. hs_domain (h_spec (cm_hooks st ! j)) = Some domain) previous in
          if \<not> seen \<and> \<not> hk_domain_commit_preflight generation (cm_hooks st) domain then
            (let (blocked, st1) = hk_mark_domain_commit_preflight_failed generation domain st
             in st1\<lparr>cm_attempted := cm_attempted st1 + blocked, cm_failed := cm_failed st1 + blocked\<rparr>)
          else commit_single generation plan_id owner_id i st))"

function commit_loop :: "u64 \<Rightarrow> hk_id \<Rightarrow> hk_id \<Rightarrow> nat list \<Rightarrow> nat \<Rightarrow> 'e commit_run \<Rightarrow> bool \<times> 'e commit_run" where
  "commit_loop generation plan_id owner_id order k st =
     (if k \<ge> length order then (True, st)
      else let i = order ! k; hook = cm_hooks st ! i;
               st0 = st\<lparr>cm_results := (cm_results st)[i := h_result hook]\<rparr> in
      if r_outcome (h_result hook) \<noteq> HK_OUTCOME_PREPARED
      then commit_loop generation plan_id owner_id order (k + 1) st0
      else let n = hk_plan_commit_group_count generation (w_owners (cm_world st0)) (cm_hooks st0) order k in
      if n > 1 then
        (case hk_plan_commit_group generation plan_id owner_id (take n (drop k order)) st0 of
           (False, st1) \<Rightarrow> (False, st1)
         | (True, st1) \<Rightarrow> commit_loop generation plan_id owner_id order (k + n) st1)
      else commit_loop generation plan_id owner_id order (k + 1)
             (commit_round generation plan_id owner_id (take k order) i st0))"
  by pat_completeness auto
termination by (relation "measure (\<lambda>(_, _, _, order, k, _). length order - k)") auto

declare commit_loop.simps [simp del]

definition hk_runtime_append_artifacts :: "'e hk_runtime \<Rightarrow> hk_artifact_ledger \<Rightarrow> 's hk_sys_scheme \<Rightarrow>
    'e hk_runtime \<times> 's hk_sys_scheme" where
  "hk_runtime_append_artifacts rt source s =
     (let ((ok, ledger), s1) = hk_artifact_ledger_append_ledger (rt_artifacts rt) source s
      in (rt\<lparr>rt_artifacts := ledger\<rparr>, s1))"

definition hk_runtime_copy_artifacts :: "'e hk_runtime \<Rightarrow> 's hk_sys_scheme \<Rightarrow>
    (hk_status \<times> hk_artifact_snapshot option) \<times> 's hk_sys_scheme" where
  "hk_runtime_copy_artifacts rt s = hk_artifact_snapshot_from_ledger (Some (rt_artifacts rt)) s"

definition append_process_artifacts :: "hk_artifact_ledger \<Rightarrow> 'e hk_world \<Rightarrow> 'e hk_world" where
  "append_process_artifacts source w =
     (let ((ok, g), w1) = hk_artifact_process_append_ledger (w_process_ledger w) source w
      in w1\<lparr>w_process_ledger := g\<rparr>)"

definition hk_plan_commit :: "'e hk_plan \<Rightarrow> 'e hk_runtime \<Rightarrow> 'e hk_world \<Rightarrow>
    (hk_status + hk_report) \<times> 'e hk_plan \<times> 'e hk_runtime \<times> 'e hk_world" where
  "hk_plan_commit plan rt w =
     (if p_state plan \<noteq> HK_PLAN_PREPARED \<and> p_state plan \<noteq> HK_PLAN_PARTIAL
      then (Inl HK_STATUS_INVALID_STATE, plan, rt, w)
      else let (ok1, w1) = (if p_hooks plan = [] then (True, w) else sys_alloc w) in
      if \<not> ok1 then (Inl HK_STATUS_OUT_OF_MEMORY, plan, rt, w1)
      else (case hk_artifact_ledger_create w1 of
        (None, w2) \<Rightarrow> (Inl HK_STATUS_OUT_OF_MEMORY, plan, rt, w2)
      | (Some ledger, w2) \<Rightarrow>
      (case hk_build_commit_order (p_domains plan) (p_hooks plan) w2 of
        (None, w3) \<Rightarrow> (Inl HK_STATUS_OUT_OF_MEMORY, plan, rt, w3)
      | (Some order, w3) \<Rightarrow>
        (let (ok, st) = commit_loop (rt_generation rt) (p_id plan) (rt_owner_id rt) order 0
               \<lparr>cm_hooks = p_hooks plan, cm_results = map h_result (p_hooks plan), cm_world = w3,
                cm_ledger = ledger, cm_attempted = 0, cm_active = 0, cm_failed = 0\<rparr>;
             plan1 = plan\<lparr>p_hooks := cm_hooks st\<rparr>
         in if \<not> ok then (Inl HK_STATUS_OUT_OF_MEMORY, plan1, rt, cm_world st)
         else (case hk_report_create (cm_results st) (cm_world st) of
            (None, w4) \<Rightarrow> (Inl HK_STATUS_OUT_OF_MEMORY, plan1, rt, w4)
          | (Some report, w4) \<Rightarrow>
             (let (rt1, w5) = hk_runtime_append_artifacts rt (cm_ledger st) w4;
                  w6 = append_process_artifacts (cm_ledger st) w5;
                  report1 = hk_report_adopt_artifact_ledger report (cm_ledger st)
              in (Inr report1, plan1\<lparr>p_state :=
                    (if cm_failed st = 0 then HK_PLAN_COMMITTED
                     else if cm_active st = 0 \<and> cm_attempted st > 0 then HK_PLAN_FAILED
                     else HK_PLAN_PARTIAL)\<rparr>, rt1, w6)))))))"

end
