(* ===== verification/HK_Commit_Props.thy ===== *)
theory HK_Commit_Props
  imports HK_Commit_Run HK_Prepare_Props
begin

text \<open>
  Properties of \<open>hk_plan_commit\<close>: what has to hold before a hook is reported active, that refused hooks
  leave the process alone, the domain boundary, and what the state of the plan and the report say
  about the hooks after the loop.
\<close>

section \<open>Frames\<close>

text \<open>\<open>kept h h'\<close>: a commit changes only the result and the handle of a hook.\<close>

definition kept :: "'e hk_hook \<Rightarrow> 'e hk_hook \<Rightarrow> bool" where
  "kept h h' \<longleftrightarrow> h_ref h' = h_ref h \<and> h_id h' = h_id h \<and> h_spec h' = h_spec h \<and>
     h_target_key h' = h_target_key h \<and> h_matched h' = h_matched h \<and> h_prepared_state h' = h_prepared_state h"

lemma kept_refl [simp]: "kept h h"
  by (simp add: kept_def)

lemma kept_trans: "kept a b \<Longrightarrow> kept b c \<Longrightarrow> kept a c"
  by (simp add: kept_def)

text \<open>\<open>grows w w'\<close>: owned targets stay owned by their engine and installed records stay.\<close>

definition grows :: "'e hk_world \<Rightarrow> 'e hk_world \<Rightarrow> bool" where
  "grows w w' \<longleftrightarrow>
     (\<forall>k. os_present (hk_ownership_lookup_locked k (w_owners w)) \<longrightarrow>
        os_present (hk_ownership_lookup_locked k (w_owners w')) \<and>
        os_engine_id (hk_ownership_lookup_locked k (w_owners w')) = os_engine_id (hk_ownership_lookup_locked k (w_owners w))) \<and>
     (\<exists>xs. w_installed w' = xs @ w_installed w)"

lemma grows_refl [simp]: "grows w w"
  by (simp add: grows_def)

lemma grows_trans: "grows a b \<Longrightarrow> grows b c \<Longrightarrow> grows a c"
  by (clarsimp simp: grows_def)

lemma grows_env [simp]: "grows w (w\<lparr>w_env := e\<rparr>)"
  by (simp add: grows_def)

lemma grows_more:
  assumes "hk_sys.more w' = hk_sys.more w"
  shows "grows w w'"
  using world_more [OF assms] by (simp add: grows_def)

lemma grows_alloc: "only_alloc w w' \<Longrightarrow> grows w w'"
  by (rule grows_more) (rule only_allocD(4))

lemma grows_owned: "grows w w' \<Longrightarrow> os_present (hk_ownership_lookup_locked k (w_owners w)) \<Longrightarrow>
    os_present (hk_ownership_lookup_locked k (w_owners w'))"
  by (simp add: grows_def)

lemma record_owner_spec:
  assumes "record_owner hook eid pred w = (ok, w')"
  shows "grows w w'" "w_env w' = w_env w" "w_installed w' = w_installed w"
    "hk_ownership_lookup_locked k (w_owners w') =
      (if ok \<and> k = h_target_key hook
       then \<lparr>os_present = True, os_head_replacement = hs_replacement (h_spec hook), os_predecessor = pred,
             os_engine_id = (if os_present (hk_ownership_lookup_locked k (w_owners w))
                             then os_engine_id (hk_ownership_lookup_locked k (w_owners w)) else eid)\<rparr>
       else hk_ownership_lookup_locked k (w_owners w))"
proof -
  obtain rs w1 where r: "hk_ownership_record_locked (h_target_key hook) eid (hs_replacement (h_spec hook)) pred
      (w_owners w) w = ((ok, rs), w1)" and w': "w' = w1\<lparr>w_owners := rs\<rparr>"
    using assms by (auto simp: record_owner_def Let_def split: prod.splits)
  note look = lookup_after_record [OF r]
  note m = world_more [OF only_allocD(4) [OF record_locked_frame [OF r]]]
  show "w_env w' = w_env w" "w_installed w' = w_installed w" using w' m by simp_all
  show "hk_ownership_lookup_locked k (w_owners w') =
      (if ok \<and> k = h_target_key hook
       then \<lparr>os_present = True, os_head_replacement = hs_replacement (h_spec hook), os_predecessor = pred,
             os_engine_id = (if os_present (hk_ownership_lookup_locked k (w_owners w))
                             then os_engine_id (hk_ownership_lookup_locked k (w_owners w)) else eid)\<rparr>
       else hk_ownership_lookup_locked k (w_owners w))" using look [of k] w' by auto
  show "grows w w'" using look w' m by (auto simp: grows_def)
qed

lemma sink_reply_frame:
  fixes w :: "'e hk_world"
  assumes "sink_reply reply sink w = (sink', w')"
  shows "hk_sys.more w' = hk_sys.more w" "sk_published_original sink' = cr_published_original reply"
    "sk_require_predecessor_match sink' = sk_require_predecessor_match sink"
proof -
  obtain sink1 w1 where a: "sink_record_all (cr_artifacts reply) sink w = (sink1, w1)" by fastforce
  note f = sink_record_all_frame [OF a]
  show "hk_sys.more w' = hk_sys.more w" "sk_published_original sink' = cr_published_original reply"
    "sk_require_predecessor_match sink' = sk_require_predecessor_match sink"
    using assms a f by (auto simp: sink_reply_def Let_def same_context_def split: option.splits)
qed

section \<open>The rollup\<close>

definition settled_outcome :: "hk_outcome \<Rightarrow> bool" where
  "settled_outcome x \<longleftrightarrow> x \<in> {HK_OUTCOME_ACTIVE, HK_OUTCOME_COMPENSATED, HK_OUTCOME_FAILED_SAFE,
     HK_OUTCOME_FAILED_PARTIAL, HK_OUTCOME_FAILED_UNKNOWN, HK_OUTCOME_STALE_PLAN, HK_OUTCOME_CONFLICT}"

lemma failure_outcome_cases: "failure_outcome m \<in> {HK_OUTCOME_FAILED_SAFE, HK_OUTCOME_FAILED_PARTIAL, HK_OUTCOME_FAILED_UNKNOWN}"
  by (cases m) simp_all

definition effects_declared :: "'e hk_hook \<Rightarrow> hk_artifact_sink \<Rightarrow> bool" where
  "effects_declared hook sink \<longleftrightarrow> (case h_matched hook of None \<Rightarrow> True
     | Some (vt, ctx) \<Rightarrow> sk_observed_effects sink AND NOT (cap_commit_effects (vt_describe vt)) = 0)"

lemma validate_commit_effects:
  assumes "hk_hook_validate_commit_effects hook sink out = (ok, out')"
  shows "ok \<longleftrightarrow> effects_declared hook sink"
    "r_outcome out' = r_outcome out" "r_mutation out' = r_mutation out"
    "r_image_generation out' = r_image_generation out" "r_request_id out' = r_request_id out"
  using assms
  by (auto simp: hk_hook_validate_commit_effects_def effects_declared_def core_error_def split: option.splits if_splits)

lemma apply_verification_spec:
  assumes "hk_hook_apply_verification hook l start m out grp env = ((m', out', l'), env')"
  shows "m' = m \<or> (m = HK_MUTATION_COMPLETE \<and> m' = HK_MUTATION_UNKNOWN)"
    "r_verified out' \<longrightarrow> m' = HK_MUTATION_COMPLETE"
    "r_image_generation out' = r_image_generation out" "r_request_id out' = r_request_id out"
    "m \<noteq> HK_MUTATION_COMPLETE \<longrightarrow> env' = env \<and> l' = l"
  using assms unfolding hk_hook_apply_verification_def
  by (auto simp: Let_def split: option.splits if_splits prod.splits)

lemma publish_original_spec:
  fixes w :: "'e hk_world"
  assumes "publish_original sink hook out w = ((hook', out'), w')"
  shows "kept hook hook'" "r_outcome out' = r_outcome out" "r_mutation out' = r_mutation out"
    "r_image_generation out' = r_image_generation out" "r_request_id out' = r_request_id out"
    "r_verified out' = r_verified out"
    "w_owners w' = w_owners w" "w_env w' = w_env w" "grows w w'"
proof -
  obtain i w1 where g: "hk_id_generate w = (i, w1)" by fastforce
  define out1 where "out1 = out\<lparr>r_installed_id := i, r_original_available := True\<rparr>"
  obtain r w2 where c: "hk_installed_record_create i (sk_published_original sink) out1 w1 = (r, w2)" by fastforce
  obtain ok w3 where a: "sys_alloc w1 = (ok, w3)" by fastforce
  note m1 = world_more [OF hk_id_generate_frame(2) [OF g]]
  note m3 = world_more [OF only_allocD(4) [OF sys_alloc_frame [OF a]]]
  have w2: "w2 = w3 \<or> (\<exists>x. w2 = w3\<lparr>w_installed := x # w_installed w3\<rparr>)"
    using c a by (auto simp: hk_installed_record_create_def Let_def split: if_splits)
  have w': "w' = w \<or> w' = w2"
    using assms g c by (auto simp: publish_original_def out1_def Let_def split: if_splits option.splits)
  show "kept hook hook'" "r_outcome out' = r_outcome out" "r_mutation out' = r_mutation out"
    "r_image_generation out' = r_image_generation out" "r_request_id out' = r_request_id out"
    "r_verified out' = r_verified out"
    using assms g c by (auto simp: publish_original_def out1_def kept_def Let_def split: if_splits option.splits)
  show "w_owners w' = w_owners w" "w_env w' = w_env w" "grows w w'"
    using w' w2 m1 m3 by (auto simp: grows_def)
qed

text \<open>\<open>settles i st st'\<close>: hook \<open>i\<close> gets its final outcome and the counters follow.\<close>

definition settles :: "nat \<Rightarrow> 'e commit_run \<Rightarrow> 'e commit_run \<Rightarrow> bool" where
  "settles i st st' \<longleftrightarrow> (\<exists>h'. cm_hooks st' = (cm_hooks st)[i := h'] \<and>
     cm_results st' = (cm_results st)[i := h_result h'] \<and> kept (cm_hooks st ! i) h' \<and>
     settled_outcome (r_outcome (h_result h')) \<and>
     cm_active st' = cm_active st + of_bool (r_outcome (h_result h') = HK_OUTCOME_ACTIVE) \<and>
     cm_failed st' = cm_failed st + of_bool (r_outcome (h_result h') \<noteq> HK_OUTCOME_ACTIVE) \<and>
     (r_outcome (h_result h') = HK_OUTCOME_ACTIVE \<longrightarrow> r_mutation (h_result h') = HK_MUTATION_COMPLETE) \<and>
     grows (cm_world st) (cm_world st'))"

lemma settlesI:
  assumes "kept (cm_hooks st ! i) h" "settled_outcome (r_outcome out)"
    "r_outcome out = HK_OUTCOME_ACTIVE \<Longrightarrow> r_mutation out = HK_MUTATION_COMPLETE"
    "cm_hooks st1 = cm_hooks st" "(cm_results st1)[i := out] = (cm_results st)[i := out]" "grows (cm_world st) (cm_world st1)"
    "cm_active st1 = cm_active st + of_bool (r_outcome out = HK_OUTCOME_ACTIVE)"
    "cm_failed st1 = cm_failed st + of_bool (r_outcome out \<noteq> HK_OUTCOME_ACTIVE)"
  shows "settles i st (cm_store i h out st1)"
  unfolding settles_def
  by (rule exI [of _ "h\<lparr>h_result := out\<rparr>"]) (use assms in \<open>simp add: cm_store_def kept_def\<close>)

lemma finish_settles:
  fixes st :: "'e commit_run"
  assumes run: "hk_plan_finish_commit_attempt generation i start m sink grp owner undone st = st'"
    and i: "i < length (cm_hooks st)"
  shows "settles i st st'" "cm_attempted st' = cm_attempted st"
    and "r_outcome (h_result (cm_hooks st' ! i)) = HK_OUTCOME_ACTIVE \<Longrightarrow>
      m = HK_MUTATION_COMPLETE \<and> \<not> sk_record_failed sink \<and> \<not> undone \<and> effects_declared (cm_hooks st ! i) sink \<and>
      r_image_generation (h_result (cm_hooks st' ! i)) = r_image_generation (cm_results st ! i) \<and>
      (\<forall>eid. owner = Some eid \<longrightarrow>
        (\<forall>k. hk_ownership_lookup_locked k (w_owners (cm_world st')) =
          (if k = h_target_key (cm_hooks st ! i)
           then \<lparr>os_present = True, os_head_replacement = hs_replacement (h_spec (cm_hooks st ! i)),
                 os_predecessor = sk_published_original sink,
                 os_engine_id = (if os_present (hk_ownership_lookup_locked k (w_owners (cm_world st)))
                   then os_engine_id (hk_ownership_lookup_locked k (w_owners (cm_world st))) else eid)\<rparr>
           else hk_ownership_lookup_locked k (w_owners (cm_world st)))))"
proof -
  define hook where "hook = cm_hooks st ! i"
  define w where "w = cm_world st"
  define m1 where "m1 = (if sk_record_failed sink \<and> m = HK_MUTATION_COMPLETE then HK_MUTATION_UNKNOWN else m)"
  obtain ok out1 where v: "hk_hook_validate_commit_effects hook sink (cm_results st ! i) = (ok, out1)" by fastforce
  define m2 where "m2 = (if \<not> ok then HK_MUTATION_UNKNOWN else m1)"
  define out2 where "out2 = (if sk_has_continuation sink then out1\<lparr>r_continuation := sk_continuation sink\<rparr> else out1)"
  define n where "n = hk_artifact_ledger_count (cm_ledger st) - start"
  define out3 where "out3 = out2\<lparr>r_mutation := m2, r_observed_commit_effects := sk_observed_effects sink, r_artifact_count := n\<rparr>"
  define out4 where "out4 = (if n > 0 then out3\<lparr>r_matched_locations := of_nat n,
                    r_modified_locations := (if m2 = HK_MUTATION_NONE then 0 else of_nat n)\<rparr> else out3)"
  define out5 where "out5 = out4\<lparr>r_installed_generation := generation\<rparr>"
  obtain m3 out6 ledger1 env1 where a: "hk_hook_apply_verification hook (cm_ledger st) start m2 out5 grp (w_env w)
      = ((m3, out6, ledger1), env1)" by (metis surj_pair)
  define out7 where "out7 = out6\<lparr>r_mutation := m3\<rparr>"
  define w1 where "w1 = w\<lparr>w_env := env1\<rparr>"
  obtain recorded w2 where o: "(case owner of
              None \<Rightarrow> (True, w1)
            | Some engine_id \<Rightarrow> (if m3 = HK_MUTATION_COMPLETE
                then record_owner hook engine_id (sk_published_original sink) w1 else (True, w1))) = (recorded, w2)"
    by fastforce
  define m4 where "m4 = (if recorded then m3 else HK_MUTATION_UNKNOWN)"
  define out8 where "out8 = (if recorded then out7
                  else core_error (hk_status_code HK_STATUS_OUT_OF_MEMORY) ''could not record target ownership''
                         (out7\<lparr>r_mutation := HK_MUTATION_UNKNOWN\<rparr>))"
  define st1 where "st1 = st\<lparr>cm_world := w2, cm_ledger := ledger1\<rparr>"
  obtain hook1 out9 w3 where p: "publish_original sink hook (out8\<lparr>r_outcome := HK_OUTCOME_ACTIVE\<rparr>) w2 = ((hook1, out9), w3)"
    by (metis surj_pair)
  note defs = hook_def w_def m1_def m2_def out2_def n_def out3_def out4_def out5_def out7_def w1_def m4_def out8_def st1_def
  have st': "st' = (if undone then cm_fail i hook (out8\<lparr>r_outcome := HK_OUTCOME_COMPENSATED\<rparr>) st1
         else if m4 = HK_MUTATION_COMPLETE then cm_store i hook1 out9 (st1\<lparr>cm_world := w3, cm_active := cm_active st1 + 1\<rparr>)
         else cm_fail i hook (out8\<lparr>r_outcome := failure_outcome m4\<rparr>) st1)"
    unfolding run [symmetric] hk_plan_finish_commit_attempt_def Let_def
    using v a o p unfolding defs by simp
  have img: "r_image_generation out8 = r_image_generation (cm_results st ! i)"
    using validate_commit_effects(4) [OF v] apply_verification_spec(3) [OF a]
    unfolding out8_def out7_def out5_def out4_def out3_def out2_def core_error_def by simp
  have mut: "r_mutation out8 = m4"
    unfolding out8_def out7_def m4_def core_error_def by simp
  have comp: "m3 = HK_MUTATION_COMPLETE \<Longrightarrow> m = HK_MUTATION_COMPLETE \<and> \<not> sk_record_failed sink \<and> effects_declared hook sink"
    using apply_verification_spec(1) [OF a] validate_commit_effects(1) [OF v]
    unfolding m2_def m1_def by (auto split: if_splits)
  have g1: "grows w w2"
    using o record_owner_spec(1) [of hook _ _ w1 recorded w2] unfolding w1_def
    by (auto split: option.splits if_splits intro: grows_trans [OF grows_env])
  note p' = publish_original_spec [OF p]
  have g2: "grows w w3" by (rule grows_trans [OF g1 p'(9)])
  have not_active: "failure_outcome x \<noteq> HK_OUTCOME_ACTIVE" "settled_outcome (failure_outcome x)" for x
    using failure_outcome_cases [of x] by (auto simp: settled_outcome_def)
  show "settles i st st'"
  proof -
    have so: "settled_outcome HK_OUTCOME_COMPENSATED" "settled_outcome HK_OUTCOME_ACTIVE" by (simp_all add: settled_outcome_def)
    have c0: "settles i st (cm_fail i hook (out8\<lparr>r_outcome := x\<rparr>) st1)"
      if "settled_outcome x" "x \<noteq> HK_OUTCOME_ACTIVE" for x
      by (rule settlesI) (use that g1 in \<open>simp_all add: st1_def hook_def w_def\<close>)
    have c1: "settles i st (cm_store i hook1 out9 (st1\<lparr>cm_world := w3, cm_active := cm_active st1 + 1\<rparr>))"
      if "m4 = HK_MUTATION_COMPLETE"
      by (rule settlesI) (use that p'(1-3) g2 mut so in \<open>simp_all add: st1_def hook_def w_def\<close>)
    show ?thesis unfolding st' using c0 [OF so(1)] c0 [OF not_active(2,1)] c1 by simp
  qed
  show "cm_attempted st' = cm_attempted st"
    unfolding st' by (simp add: cm_store_def st1_def)
  assume act: "r_outcome (h_result (cm_hooks st' ! i)) = HK_OUTCOME_ACTIVE"
  have c: "\<not> undone" "m4 = HK_MUTATION_COMPLETE"
    using act i unfolding st' by (auto simp: cm_store_def st1_def not_active split: if_splits)
  have rec: "recorded" "m3 = HK_MUTATION_COMPLETE" using c(2) unfolding m4_def by (auto split: if_splits)
  have own: "\<forall>k. hk_ownership_lookup_locked k (w_owners w3) =
          (if k = h_target_key hook
           then \<lparr>os_present = True, os_head_replacement = hs_replacement (h_spec hook),
                 os_predecessor = sk_published_original sink,
                 os_engine_id = (if os_present (hk_ownership_lookup_locked k (w_owners w))
                   then os_engine_id (hk_ownership_lookup_locked k (w_owners w)) else eid)\<rparr>
           else hk_ownership_lookup_locked k (w_owners w))" if "owner = Some eid" for eid
    using o that rec record_owner_spec(4) [of hook eid "sk_published_original sink" w1 True w2]
    unfolding p'(7) w1_def by auto
  show "m = HK_MUTATION_COMPLETE \<and> \<not> sk_record_failed sink \<and> \<not> undone \<and> effects_declared (cm_hooks st ! i) sink \<and>
      r_image_generation (h_result (cm_hooks st' ! i)) = r_image_generation (cm_results st ! i) \<and>
      (\<forall>eid. owner = Some eid \<longrightarrow>
        (\<forall>k. hk_ownership_lookup_locked k (w_owners (cm_world st')) =
          (if k = h_target_key (cm_hooks st ! i)
           then \<lparr>os_present = True, os_head_replacement = hs_replacement (h_spec (cm_hooks st ! i)),
                 os_predecessor = sk_published_original sink,
                 os_engine_id = (if os_present (hk_ownership_lookup_locked k (w_owners (cm_world st)))
                   then os_engine_id (hk_ownership_lookup_locked k (w_owners (cm_world st))) else eid)\<rparr>
           else hk_ownership_lookup_locked k (w_owners (cm_world st)))))"
    using comp [OF rec(2)] c own i p'(4) img unfolding st' hook_def [symmetric] w_def [symmetric]
    by (simp add: cm_store_def st1_def)
qed

section \<open>One hook\<close>

lemma dispatch_commit_frame:
  fixes w :: "'e hk_world"
  assumes "hk_hook_dispatch_commit hook sink w = ((m, sink'), w')"
  shows "w_owners w' = w_owners w" "grows w w'"
proof -
  have fin: "\<exists>e. hk_sys.more w1 = hk_sys.more (w\<lparr>w_env := e\<rparr>)"
    if "sink_reply reply sink (w\<lparr>w_env := env\<rparr>) = (sink1, w1)" for reply env sink1 w1
    using sink_reply_frame(1) [OF that] by blast
  have "\<exists>e. hk_sys.more w' = hk_sys.more (w\<lparr>w_env := e\<rparr>)"
  proof (cases "\<exists>reply env sink1. sink_reply reply sink (w\<lparr>w_env := env\<rparr>) = (sink1, w')")
    case True
    then show ?thesis using fin by blast
  next
    case False
    then have "w' = w"
      using assms unfolding hk_hook_dispatch_commit_def Let_def
      by (auto split: option.splits prod.splits)
    then show ?thesis by (intro exI [of _ "w_env w"]) simp
  qed
  then obtain e where "hk_sys.more w' = hk_sys.more (w\<lparr>w_env := e\<rparr>)" ..
  note m = world_more [OF this]
  show "w_owners w' = w_owners w" "grows w w'" using m by (simp_all add: grows_def)
qed

definition commit_refused :: "u64 \<Rightarrow> nat \<Rightarrow> 'e commit_run \<Rightarrow> bool" where
  "commit_refused generation i st \<longleftrightarrow> (let hook = cm_hooks st ! i in
     r_image_generation (h_result hook) \<noteq> generation \<or> \<not> dependencies_active (cm_hooks st) hook \<or>
     ownership_conflict (hk_ownership_lookup_locked (h_target_key hook) (w_owners (cm_world st))) hook)"

lemma settled_simps [simp]:
  "settled_outcome HK_OUTCOME_ACTIVE" "settled_outcome HK_OUTCOME_COMPENSATED" "settled_outcome HK_OUTCOME_FAILED_SAFE"
  "settled_outcome HK_OUTCOME_STALE_PLAN" "settled_outcome HK_OUTCOME_CONFLICT" "\<not> settled_outcome HK_OUTCOME_PREPARED"
  by (simp_all add: settled_outcome_def)

lemma commit_single_refused:
  fixes st :: "'e commit_run"
  assumes "commit_refused generation i st" "i < length (cm_hooks st)" "st' = commit_single generation plan_id owner_id i st"
  shows "settles i st st'" "cm_world st' = cm_world st" "cm_ledger st' = cm_ledger st"
    "cm_active st' = cm_active st"
    "r_outcome (h_result (cm_hooks st' ! i)) =
       (if r_image_generation (h_result (cm_hooks st ! i)) \<noteq> generation then HK_OUTCOME_STALE_PLAN
        else if \<not> dependencies_active (cm_hooks st) (cm_hooks st ! i) then HK_OUTCOME_FAILED_SAFE
        else HK_OUTCOME_CONFLICT)"
    "r_image_generation (h_result (cm_hooks st ! i)) = generation \<Longrightarrow> r_mutation (h_result (cm_hooks st' ! i)) = HK_MUTATION_NONE"
proof -
  define hook where "hook = cm_hooks st ! i"
  consider (a) "r_image_generation (h_result hook) \<noteq> generation"
    | (b) "r_image_generation (h_result hook) = generation" "\<not> dependencies_active (cm_hooks st) hook"
    | (c) "r_image_generation (h_result hook) = generation" "dependencies_active (cm_hooks st) hook"
      "ownership_conflict (hk_ownership_lookup_locked (h_target_key hook) (w_owners (cm_world st))) hook"
    using assms(1) unfolding commit_refused_def hook_def Let_def by auto
  then have "\<exists>out st1. st' = cm_fail i hook out st1 \<and> cm_hooks st1 = cm_hooks st \<and> cm_results st1 = cm_results st \<and>
      cm_world st1 = cm_world st \<and> cm_ledger st1 = cm_ledger st \<and> cm_active st1 = cm_active st \<and> cm_failed st1 = cm_failed st \<and>
      r_outcome out = (if r_image_generation (h_result hook) \<noteq> generation then HK_OUTCOME_STALE_PLAN
        else if \<not> dependencies_active (cm_hooks st) hook then HK_OUTCOME_FAILED_SAFE
        else HK_OUTCOME_CONFLICT) \<and>
      (r_image_generation (h_result hook) = generation \<longrightarrow> r_mutation out = HK_MUTATION_NONE)"
  proof cases
    case a
    then show ?thesis unfolding assms(3) commit_single_def hook_def [symmetric] Let_def
      by (intro exI [of _ "(cm_results st ! i)\<lparr>r_outcome := HK_OUTCOME_STALE_PLAN, r_retryable := True, r_currently_valid := False\<rparr>"]
          exI [of _ st]) simp
  next
    case b
    then show ?thesis unfolding assms(3) commit_single_def hook_def [symmetric] Let_def
      by (intro exI [of _ "core_error (hk_status_code HK_STATUS_INVALID_STATE) ''commit dependency did not become active''
          ((cm_results st ! i)\<lparr>r_outcome := HK_OUTCOME_FAILED_SAFE, r_mutation := HK_MUTATION_NONE, r_retryable := False,
               r_currently_valid := True\<rparr>)"] exI [of _ "st\<lparr>cm_attempted := cm_attempted st + 1\<rparr>"])
        (simp add: core_error_def)
  next
    case c
    then show ?thesis unfolding assms(3) commit_single_def hook_def [symmetric] Let_def
      by (intro exI [of _ "hk_plan_set_ownership_error HK_OUTCOME_CONFLICT
          ''existing target ownership is not chainable by this engine'' (cm_results st ! i)"]
          exI [of _ "st\<lparr>cm_attempted := cm_attempted st + 1\<rparr>"])
        (simp add: core_error_def hk_plan_set_ownership_error_def)
  qed
  then obtain out st1 where e: "st' = cm_fail i hook out st1" "cm_hooks st1 = cm_hooks st" "cm_results st1 = cm_results st"
      "cm_world st1 = cm_world st" "cm_ledger st1 = cm_ledger st" "cm_active st1 = cm_active st" "cm_failed st1 = cm_failed st"
      "r_outcome out = (if r_image_generation (h_result hook) \<noteq> generation then HK_OUTCOME_STALE_PLAN
        else if \<not> dependencies_active (cm_hooks st) hook then HK_OUTCOME_FAILED_SAFE
        else HK_OUTCOME_CONFLICT)"
      "r_image_generation (h_result hook) = generation \<longrightarrow> r_mutation out = HK_MUTATION_NONE" by blast
  show "settles i st st'" unfolding e(1)
    by (rule settlesI) (use e(2-) in \<open>auto simp: hook_def split: if_splits\<close>)
  show "cm_world st' = cm_world st" "cm_ledger st' = cm_ledger st" "cm_active st' = cm_active st"
    using e by (simp_all add: cm_store_def)
  show "r_outcome (h_result (cm_hooks st' ! i)) =
       (if r_image_generation (h_result (cm_hooks st ! i)) \<noteq> generation then HK_OUTCOME_STALE_PLAN
        else if \<not> dependencies_active (cm_hooks st) (cm_hooks st ! i) then HK_OUTCOME_FAILED_SAFE
        else HK_OUTCOME_CONFLICT)"
    "r_image_generation (h_result (cm_hooks st ! i)) = generation \<Longrightarrow> r_mutation (h_result (cm_hooks st' ! i)) = HK_MUTATION_NONE"
    using e assms(2) by (simp_all add: cm_store_def hook_def)
qed

text \<open>The engine's answer to a hook that is not refused.\<close>

definition engine_answer :: "hk_id \<Rightarrow> hk_id \<Rightarrow> 'e hk_hook \<Rightarrow> 'e commit_run \<Rightarrow> (hk_mutation_state \<times> hk_artifact_sink) \<times> 'e hk_world" where
  "engine_answer plan_id owner_id hook st = hk_hook_dispatch_commit hook
     (commit_sink plan_id owner_id hook (hk_ownership_lookup_locked (h_target_key hook) (w_owners (cm_world st))) (cm_ledger st))
     (cm_world st)"

lemma judge_mutation_spec:
  assumes "judge_mutation ownership hook sink m out = (m', out')"
  shows "r_image_generation out' = r_image_generation out"
    "m' = HK_MUTATION_COMPLETE \<longrightarrow> m = HK_MUTATION_COMPLETE \<and>
      (os_present ownership \<longrightarrow> sk_published_original sink = os_head_replacement ownership)"
proof -
  obtain ok out1 where v: "hk_hook_validate_commit_effects hook sink out = (ok, out1)" by fastforce
  show "r_image_generation out' = r_image_generation out"
    "m' = HK_MUTATION_COMPLETE \<longrightarrow> m = HK_MUTATION_COMPLETE \<and>
      (os_present ownership \<longrightarrow> sk_published_original sink = os_head_replacement ownership)"
    using assms v validate_commit_effects(4) [OF v]
    by (auto simp: judge_mutation_def core_error_def split: if_splits)
qed

lemma commit_single_dispatched:
  fixes st :: "'e commit_run"
  assumes nr: "\<not> commit_refused generation i st" and i: "i < length (cm_hooks st)"
    and st': "st' = commit_single generation plan_id owner_id i st"
  defines "hook \<equiv> cm_hooks st ! i"
  defines "own \<equiv> hk_ownership_lookup_locked (h_target_key hook) (w_owners (cm_world st))"
  shows "settles i st st'"
    and "r_outcome (h_result (cm_hooks st' ! i)) = HK_OUTCOME_ACTIVE \<Longrightarrow>
      (\<exists>sink w1. engine_answer plan_id owner_id hook st = ((HK_MUTATION_COMPLETE, sink), w1) \<and>
        effects_declared hook sink \<and> \<not> sk_record_failed sink \<and>
        (os_present own \<longrightarrow> sk_published_original sink = os_head_replacement own) \<and>
        (\<forall>k. hk_ownership_lookup_locked k (w_owners (cm_world st')) =
          (if k = h_target_key hook
           then \<lparr>os_present = True, os_head_replacement = hs_replacement (h_spec hook),
                 os_predecessor = sk_published_original sink,
                 os_engine_id = (if os_present own then os_engine_id own
                   else case owned_capabilities hook of None \<Rightarrow> None | Some caps \<Rightarrow> cap_engine_id caps)\<rparr>
           else hk_ownership_lookup_locked k (w_owners (cm_world st)))))"
proof -
  have c: "r_image_generation (h_result hook) = generation" "dependencies_active (cm_hooks st) hook"
    "\<not> ownership_conflict own hook"
    using nr unfolding commit_refused_def hook_def own_def Let_def by auto
  define st1 where "st1 = st\<lparr>cm_attempted := cm_attempted st + 1\<rparr>"
  obtain m sink w1 where d: "engine_answer plan_id owner_id hook st = ((m, sink), w1)" by (metis surj_pair)
  obtain m1 out1 where j: "judge_mutation own hook sink m (cm_results st ! i) = (m1, out1)" by fastforce
  define st2 where "st2 = st1\<lparr>cm_world := w1, cm_ledger := sk_ledger sink, cm_results := (cm_results st1)[i := out1]\<rparr>"
  define owner where "owner = (case owned_capabilities hook of None \<Rightarrow> None | Some caps \<Rightarrow> cap_engine_id caps)"
  have run: "hk_plan_finish_commit_attempt generation i (hk_artifact_ledger_count (cm_ledger st)) m1 sink None
      (Some owner) False st2 = st'"
    unfolding st' commit_single_def hook_def [symmetric] Let_def st2_def st1_def owner_def
    using c d [unfolded engine_answer_def] j by (simp add: own_def [symmetric])
  have i2: "i < length (cm_hooks st2)" using i by (simp add: st2_def st1_def)
  note f = finish_settles [OF run i2]
  note dd = dispatch_commit_frame [OF d [unfolded engine_answer_def]]
  obtain h' where h': "cm_hooks st' = (cm_hooks st)[i := h']"
     "cm_results st' = (cm_results st)[i := h_result h']" "kept (cm_hooks st ! i) h'"
     "settled_outcome (r_outcome (h_result h'))"
     "cm_active st' = cm_active st + of_bool (r_outcome (h_result h') = HK_OUTCOME_ACTIVE)"
     "cm_failed st' = cm_failed st + of_bool (r_outcome (h_result h') \<noteq> HK_OUTCOME_ACTIVE)"
     "r_outcome (h_result h') = HK_OUTCOME_ACTIVE \<longrightarrow> r_mutation (h_result h') = HK_MUTATION_COMPLETE"
     "grows w1 (cm_world st')"
    using f(1) unfolding settles_def st2_def st1_def by auto
  show "settles i st st'"
    unfolding settles_def using h' grows_trans [OF dd(2) h'(8)] by blast
  assume act: "r_outcome (h_result (cm_hooks st' ! i)) = HK_OUTCOME_ACTIVE"
  have h2: "cm_hooks st2 ! i = hook" "w_owners (cm_world st2) = w_owners (cm_world st)"
    using dd(1) by (simp_all add: st2_def st1_def hook_def)
  note a = f(3) [OF act, unfolded h2]
  have m1: "m = HK_MUTATION_COMPLETE" "os_present own \<longrightarrow> sk_published_original sink = os_head_replacement own"
    using judge_mutation_spec(2) [OF j] a by auto
  show "\<exists>sink w1. engine_answer plan_id owner_id hook st = ((HK_MUTATION_COMPLETE, sink), w1) \<and>
        effects_declared hook sink \<and> \<not> sk_record_failed sink \<and>
        (os_present own \<longrightarrow> sk_published_original sink = os_head_replacement own) \<and>
        (\<forall>k. hk_ownership_lookup_locked k (w_owners (cm_world st')) =
          (if k = h_target_key hook
           then \<lparr>os_present = True, os_head_replacement = hs_replacement (h_spec hook),
                 os_predecessor = sk_published_original sink,
                 os_engine_id = (if os_present own then os_engine_id own
                   else case owned_capabilities hook of None \<Rightarrow> None | Some caps \<Rightarrow> cap_engine_id caps)\<rparr>
           else hk_ownership_lookup_locked k (w_owners (cm_world st))))"
    by (rule exI [of _ sink], rule exI [of _ w1])
      (use d m1 a in \<open>simp add: owner_def [symmetric] own_def\<close>)
qed

section \<open>The domain boundary\<close>

lemma preflight_result_fields:
  "r_mutation (preflight_result generation res) = HK_MUTATION_NONE"
  "r_outcome (preflight_result generation res) =
     (if r_image_generation res \<noteq> generation then HK_OUTCOME_STALE_PLAN else HK_OUTCOME_FAILED_SAFE)"
  by (simp_all add: preflight_result_def Let_def)

definition only_results :: "'e commit_run \<Rightarrow> 'e commit_run \<Rightarrow> bool" where
  "only_results st st' \<longleftrightarrow> cm_world st' = cm_world st \<and> cm_ledger st' = cm_ledger st \<and>
     cm_attempted st' = cm_attempted st \<and> cm_active st' = cm_active st \<and> cm_failed st' = cm_failed st"

lemma mark_upto:
  assumes "n \<le> length (cm_hooks st)" "length (cm_results st) = length (cm_hooks st)"
    "fold (\<lambda>i (marked, st). let hook = cm_hooks st ! i in
       if hs_domain (h_spec hook) \<noteq> Some domain \<or> r_outcome (h_result hook) \<noteq> HK_OUTCOME_PREPARED
       then (marked, st)
       else (marked + 1, cm_store i hook (preflight_result generation (h_result hook)) st)) [0..<n] (0 :: nat, st) = (k, st')"
  shows "k = card {j \<in> prepared_members domain (cm_hooks st). j < n} \<and>
    only_results st st' \<and>
    length (cm_hooks st') = length (cm_hooks st) \<and> length (cm_results st') = length (cm_results st) \<and>
    (\<forall>j < length (cm_hooks st). let out = preflight_result generation (h_result (cm_hooks st ! j)) in
       if j < n \<and> j \<in> prepared_members domain (cm_hooks st)
       then cm_hooks st' ! j = (cm_hooks st ! j)\<lparr>h_result := out\<rparr> \<and> cm_results st' ! j = out
       else cm_hooks st' ! j = cm_hooks st ! j \<and> cm_results st' ! j = cm_results st ! j)"
  using assms
proof (induction n arbitrary: k st')
  case 0
  then show ?case by (simp add: only_results_def)
next
  case (Suc n)
  obtain k1 st1 where f: "fold (\<lambda>i (marked, st). let hook = cm_hooks st ! i in
       if hs_domain (h_spec hook) \<noteq> Some domain \<or> r_outcome (h_result hook) \<noteq> HK_OUTCOME_PREPARED
       then (marked, st)
       else (marked + 1, cm_store i hook (preflight_result generation (h_result hook)) st)) [0..<n] (0 :: nat, st) = (k1, st1)"
    by fastforce
  have n: "n < length (cm_hooks st)" using Suc.prems(1) by simp
  note IH = Suc.IH [OF less_imp_le [OF n] Suc.prems(2) f]
  let ?P = "prepared_members domain (cm_hooks st)"
  have hn: "cm_hooks st1 ! n = cm_hooks st ! n" "length (cm_hooks st1) = length (cm_hooks st)"
    "length (cm_results st1) = length (cm_hooks st)"
    using IH n Suc.prems(2) by (auto simp: Let_def)
  have step: "(k, st') = (if n \<in> ?P then (k1 + 1, cm_store n (cm_hooks st ! n) (preflight_result generation (h_result (cm_hooks st ! n))) st1)
      else (k1, st1))"
    using Suc.prems(3) f n hn by (auto simp: Let_def prepared_members_def split: if_splits)
  show ?case
  proof (cases "n \<in> ?P")
    case False
    then have "{j \<in> ?P. j < Suc n} = {j \<in> ?P. j < n}" using less_Suc_eq by auto
    then show ?thesis using step False IH by (auto simp: Let_def less_Suc_eq)
  next
    case True
    have "{j \<in> ?P. j < Suc n} = insert n {j \<in> ?P. j < n}" using True less_Suc_eq by auto
    then have k: "k = card {j \<in> ?P. j < Suc n}" using step True IH by simp
    have s: "st' = cm_store n (cm_hooks st ! n) (preflight_result generation (h_result (cm_hooks st ! n))) st1"
      using step True by simp
    have e: "only_results st st'"
      using IH unfolding s cm_store_def by (simp add: only_results_def)
    show ?thesis
    proof (intro conjI allI impI)
      show "k = card {j \<in> ?P. j < Suc n}" "only_results st st'"
        using k e by auto
      show "length (cm_hooks st') = length (cm_hooks st)" "length (cm_results st') = length (cm_results st)"
        using s hn Suc.prems(2) by (simp_all add: cm_store_def)
      fix j assume j: "j < length (cm_hooks st)"
      show "let out = preflight_result generation (h_result (cm_hooks st ! j)) in
       if j < Suc n \<and> j \<in> ?P then cm_hooks st' ! j = (cm_hooks st ! j)\<lparr>h_result := out\<rparr> \<and> cm_results st' ! j = out
       else cm_hooks st' ! j = cm_hooks st ! j \<and> cm_results st' ! j = cm_results st ! j"
      proof (cases "j = n")
        case True
        then show ?thesis using \<open>n \<in> ?P\<close> s hn n by (simp add: cm_store_def Let_def)
      next
        case False
        have "cm_hooks st' ! j = cm_hooks st1 ! j" "cm_results st' ! j = cm_results st1 ! j"
          using s False by (simp_all add: cm_store_def)
        then show ?thesis using IH j False by (simp add: Let_def less_Suc_eq)
      qed
    qed
  qed
qed

lemma mark_spec:
  assumes "hk_mark_domain_commit_preflight_failed generation domain st = (k, st')"
    "length (cm_results st) = length (cm_hooks st)"
  shows "k = card (prepared_members domain (cm_hooks st))"
    "only_results st st'"
    "length (cm_hooks st') = length (cm_hooks st)" "length (cm_results st') = length (cm_results st)"
    "j < length (cm_hooks st) \<Longrightarrow> j \<in> prepared_members domain (cm_hooks st) \<Longrightarrow>
       cm_hooks st' ! j = (cm_hooks st ! j)\<lparr>h_result := preflight_result generation (h_result (cm_hooks st ! j))\<rparr> \<and>
       cm_results st' ! j = h_result (cm_hooks st' ! j)"
    "j < length (cm_hooks st) \<Longrightarrow> j \<notin> prepared_members domain (cm_hooks st) \<Longrightarrow>
       cm_hooks st' ! j = cm_hooks st ! j \<and> cm_results st' ! j = cm_results st ! j"
proof -
  note m = mark_upto [OF order_refl assms(2) assms(1) [unfolded hk_mark_domain_commit_preflight_failed_def]]
  have "{j \<in> prepared_members domain (cm_hooks st). j < length (cm_hooks st)} = prepared_members domain (cm_hooks st)"
    by (auto simp: prepared_members_def)
  then show "k = card (prepared_members domain (cm_hooks st))" using m by simp
  show "only_results st st'"
    "length (cm_hooks st') = length (cm_hooks st)" "length (cm_results st') = length (cm_results st)"
    using m by auto
  show "j < length (cm_hooks st) \<Longrightarrow> j \<in> prepared_members domain (cm_hooks st) \<Longrightarrow>
       cm_hooks st' ! j = (cm_hooks st ! j)\<lparr>h_result := preflight_result generation (h_result (cm_hooks st ! j))\<rparr> \<and>
       cm_results st' ! j = h_result (cm_hooks st' ! j)"
    "j < length (cm_hooks st) \<Longrightarrow> j \<notin> prepared_members domain (cm_hooks st) \<Longrightarrow>
       cm_hooks st' ! j = cm_hooks st ! j \<and> cm_results st' ! j = cm_results st ! j"
    using m by (auto simp: Let_def)
qed

section \<open>Properties\<close>

text \<open>C18. Refusal before dispatch: a hook whose image generation moved, one of whose dependencies is not
  active, or whose target is owned and not chainable by its engine never reaches an engine. The
  process, the ledger, the ownership records and all other hooks are unchanged, the hook ends
  \<open>STALE_PLAN\<close>, \<open>FAILED_SAFE\<close> or \<open>CONFLICT\<close> in that order of precedence, counts as failed, and unless it is
  stale its result says that nothing was mutated.\<close>

theorem commit_refusal:
  fixes st :: "'e commit_run"
  assumes "commit_refused generation i st" "i < length (cm_hooks st)"
    and "commit_single generation plan_id owner_id i st = st'"
  shows "cm_world st' = cm_world st \<and> cm_ledger st' = cm_ledger st \<and>
    cm_active st' = cm_active st \<and> cm_failed st' = cm_failed st + 1 \<and>
    (\<forall>j. j \<noteq> i \<longrightarrow> cm_hooks st' ! j = cm_hooks st ! j) \<and>
    r_outcome (h_result (cm_hooks st' ! i)) =
       (if r_image_generation (h_result (cm_hooks st ! i)) \<noteq> generation then HK_OUTCOME_STALE_PLAN
        else if \<not> dependencies_active (cm_hooks st) (cm_hooks st ! i) then HK_OUTCOME_FAILED_SAFE
        else HK_OUTCOME_CONFLICT) \<and>
    (r_image_generation (h_result (cm_hooks st ! i)) = generation \<longrightarrow>
       r_mutation (h_result (cm_hooks st' ! i)) = HK_MUTATION_NONE)"
proof -
  note r = commit_single_refused [OF assms(1,2) assms(3) [symmetric]]
  obtain h' where h': "cm_hooks st' = (cm_hooks st)[i := h']"
    "cm_failed st' = cm_failed st + of_bool (r_outcome (h_result h') \<noteq> HK_OUTCOME_ACTIVE)"
    using r(1) unfolding settles_def by blast
  have "r_outcome (h_result h') \<noteq> HK_OUTCOME_ACTIVE" using r(5) h'(1) assms(2) by auto
  then show ?thesis using r h' by auto
qed

text \<open>C2. A hook that commits alone is reported active only when everything held: its image generation
  was current, all its dependencies were active, its target was unowned or owned by the same engine
  and chainable, the engine answered \<open>COMPLETE\<close>, recorded every artifact and produced only declared
  effects, and published the previous head if the target was owned. Then its replacement is the head
  of its target with the published original as predecessor, no other target's owner changed, and
  the result says \<open>COMPLETE\<close>.\<close>

theorem commit_active_sound:
  fixes st :: "'e commit_run"
  assumes i: "i < length (cm_hooks st)" and run: "commit_single generation plan_id owner_id i st = st'"
    and act: "r_outcome (h_result (cm_hooks st' ! i)) = HK_OUTCOME_ACTIVE"
  shows "r_image_generation (h_result (cm_hooks st ! i)) = generation \<and>
    dependencies_active (cm_hooks st) (cm_hooks st ! i) \<and>
    r_mutation (h_result (cm_hooks st' ! i)) = HK_MUTATION_COMPLETE \<and> cm_active st' = cm_active st + 1 \<and>
    (let hook = cm_hooks st ! i; own = hk_ownership_lookup_locked (h_target_key hook) (w_owners (cm_world st)) in
       \<not> ownership_conflict own hook \<and>
       (\<exists>sink w1. engine_answer plan_id owner_id hook st = ((HK_MUTATION_COMPLETE, sink), w1) \<and>
          effects_declared hook sink \<and> \<not> sk_record_failed sink \<and>
          (os_present own \<longrightarrow> sk_published_original sink = os_head_replacement own) \<and>
          (\<forall>k. hk_ownership_lookup_locked k (w_owners (cm_world st')) =
            (if k = h_target_key hook
             then \<lparr>os_present = True, os_head_replacement = hs_replacement (h_spec hook),
                   os_predecessor = sk_published_original sink,
                   os_engine_id = (if os_present own then os_engine_id own
                     else case owned_capabilities hook of None \<Rightarrow> None | Some caps \<Rightarrow> cap_engine_id caps)\<rparr>
             else hk_ownership_lookup_locked k (w_owners (cm_world st))))))"
proof -
  have nr: "\<not> commit_refused generation i st"
  proof
    assume "commit_refused generation i st"
    from commit_single_refused(5) [OF this i run [symmetric]] act show False by (auto split: if_splits)
  qed
  note d = commit_single_dispatched [OF nr i run [symmetric]]
  have c: "r_image_generation (h_result (cm_hooks st ! i)) = generation"
    "dependencies_active (cm_hooks st) (cm_hooks st ! i)"
    "\<not> ownership_conflict (hk_ownership_lookup_locked (h_target_key (cm_hooks st ! i)) (w_owners (cm_world st))) (cm_hooks st ! i)"
    using nr unfolding commit_refused_def Let_def by auto
  obtain h' where h': "cm_hooks st' = (cm_hooks st)[i := h']"
    "cm_active st' = cm_active st + of_bool (r_outcome (h_result h') = HK_OUTCOME_ACTIVE)"
    "r_outcome (h_result h') = HK_OUTCOME_ACTIVE \<longrightarrow> r_mutation (h_result h') = HK_MUTATION_COMPLETE"
    using d(1) unfolding settles_def by blast
  then show ?thesis
    using c d(2) [OF act] act i by (simp add: Let_def)
qed

text \<open>C17. The domain boundary: when the loop reaches the first hook of a domain and a mandatory member of
  the domain is not prepared, is stale, or has a dependency outside the domain that is not active, no
  engine is called: process and ledger are unchanged, every prepared member of the domain is refused
  without a mutation, and every other hook is as before.\<close>

theorem domain_boundary:
  fixes st :: "'e commit_run"
  assumes d: "hs_domain (h_spec (cm_hooks st ! i)) = Some domain"
    and first: "\<forall>j \<in> set previous. hs_domain (h_spec (cm_hooks st ! j)) \<noteq> Some domain"
    and pre: "\<not> hk_domain_commit_preflight generation (cm_hooks st) domain"
    and l: "length (cm_results st) = length (cm_hooks st)"
    and run: "commit_round generation plan_id owner_id previous i st = st'"
  shows "cm_world st' = cm_world st \<and> cm_ledger st' = cm_ledger st \<and> cm_active st' = cm_active st \<and>
    cm_failed st' = cm_failed st + card (prepared_members domain (cm_hooks st)) \<and>
    prepared_members domain (cm_hooks st') = {} \<and>
    (\<forall>j < length (cm_hooks st).
       (j \<in> prepared_members domain (cm_hooks st) \<longrightarrow>
          oc (cm_hooks st' ! j) \<in> {HK_OUTCOME_FAILED_SAFE, HK_OUTCOME_STALE_PLAN} \<and>
          r_mutation (h_result (cm_hooks st' ! j)) = HK_MUTATION_NONE) \<and>
       (j \<notin> prepared_members domain (cm_hooks st) \<longrightarrow> cm_hooks st' ! j = cm_hooks st ! j))"
proof -
  obtain k st1 where m: "hk_mark_domain_commit_preflight_failed generation domain st = (k, st1)" by fastforce
  note ms = mark_spec [OF m l]
  have st': "st' = st1\<lparr>cm_attempted := cm_attempted st1 + k, cm_failed := cm_failed st1 + k\<rparr>"
    using run d first pre m by (auto simp: commit_round_def Let_def list_ex_iff)
  have "prepared_members domain (cm_hooks st1) = {}"
  proof (rule equals0I)
    fix j assume j: "j \<in> prepared_members domain (cm_hooks st1)"
    then have jl: "j < length (cm_hooks st)" using ms(3) by (simp add: prepared_members_def)
    show False
      using j jl ms(5,6) [OF jl] by (cases "j \<in> prepared_members domain (cm_hooks st)")
        (auto simp: prepared_members_def preflight_result_fields split: if_splits)
  qed
  then show ?thesis
    using ms st' by (auto simp: only_results_def preflight_result_fields)
qed

section \<open>Concrete runs\<close>

definition active_vtable :: "nat hk_engine_vtable" where
  "active_vtable = (sample_vtable 1)\<lparr>vt_commit_one := Some (\<lambda>spec sink env.
     (sample_reply\<lparr>cr_artifacts := [], cr_published_original := 64\<rparr>, Suc env))\<rparr>"

definition prepared_hook :: "nat \<Rightarrow> string \<Rightarrow> nat hk_hook" where
  "prepared_hook ref name = (let h = sample_hook ref name (sample_address_target (of_nat ref)) in
     h\<lparr>h_matched := Some (active_vtable, 0), h_result := (h_result h)\<lparr>r_outcome := HK_OUTCOME_PREPARED\<rparr>\<rparr>)"

definition commit_start :: "nat hk_hook list \<Rightarrow> nat commit_run" where
  "commit_start hooks = \<lparr>cm_hooks = hooks, cm_results = map h_result hooks, cm_world = gated_world,
     cm_ledger = \<lparr>l_items = [], l_capacity = 4\<rparr>, cm_attempted = 0, cm_active = 0, cm_failed = 0\<rparr>"

lemmas commit_eval = commit_start_def commit_single_def prepared_hook_def active_vtable_def sample_plan_defs zero_result_def
  dependencies_active_def commit_after_refs_def hook_of_ref_def hk_ownership_lookup_locked_def find_record_def
  ownership_conflict_def owned_capabilities_def hk_hook_dispatch_commit_def sink_reply_def
  hk_artifact_sink_record_def hk_artifact_ledger_append_def owned_copy_def ensure_capacity_def hk_id_generate_def
  hk_init_nonce_def sys_alloc_def judge_mutation_def hk_hook_validate_commit_effects_def commit_sink_def
  hk_plan_finish_commit_attempt_def hk_hook_apply_verification_def hk_hook_dispatch_verify_def
  record_owner_def hk_ownership_record_locked_def publish_original_def cm_store_def sample_capabilities_def
  sample_reply_def zero_verify_diag_def hk_artifact_ledger_count_def hk_artifact_ledger_mark_verified_def
  mark_range_def hk_installed_record_create_def

lemma commit_start_hooks [simp]: "cm_hooks (commit_start hooks) = hooks" "cm_results (commit_start hooks) = map h_result hooks"
  by (simp_all add: commit_start_def)

lemma single_active:
  "r_outcome (h_result (cm_hooks (commit_single 0 hk_id_zero hk_id_zero 0 (commit_start [prepared_hook 1 ''a''])) ! 0)) = HK_OUTCOME_ACTIVE"
  by code_simp

theorem commit_active_sound_witness:
  "r_mutation (h_result (cm_hooks (commit_single 0 hk_id_zero hk_id_zero 0 (commit_start [prepared_hook 1 ''a''])) ! 0))
     = HK_MUTATION_COMPLETE"
  by (rule commit_active_sound [OF _ refl single_active, THEN conjunct2, THEN conjunct2, THEN conjunct1]) simp

text \<open>The second hook comes after the first, which is still only prepared.\<close>

definition dependent_hook :: "nat hk_hook" where
  "dependent_hook = (let h = prepared_hook 2 ''b'' in
     h\<lparr>h_spec := (h_spec h)\<lparr>hs_commit_after := Some [Some 1], hs_commit_after_count := 1\<rparr>\<rparr>)"

theorem commit_refusal_witness:
  "w_env (cm_world (commit_single 0 hk_id_zero hk_id_zero 1 (commit_start [prepared_hook 1 ''a'', dependent_hook]))) = 0"
proof -
  have "commit_refused 0 1 (commit_start [prepared_hook 1 ''a'', dependent_hook])"
    by (simp add: commit_refused_def commit_eval dependent_hook_def Let_def)
  then have "cm_world (commit_single 0 hk_id_zero hk_id_zero 1 (commit_start [prepared_hook 1 ''a'', dependent_hook])) =
      cm_world (commit_start [prepared_hook 1 ''a'', dependent_hook])"
    by (rule commit_refusal [OF _ _ refl, THEN conjunct1]) simp
  then show ?thesis by (simp add: commit_start_def gated_world_def sample_world_def)
qed

text \<open>The second member of the domain is mandatory and its image generation is old.\<close>

definition stale_hook :: "nat hk_hook" where
  "stale_hook = (let h = prepared_hook 2 ''b'' in
     in_domain 0 HK_OPERATION_MANDATORY (h\<lparr>h_result := (h_result h)\<lparr>r_image_generation := 7\<rparr>\<rparr>))"

lemma stale_preflight:
  "\<not> hk_domain_commit_preflight 0 [in_domain 0 HK_OPERATION_MANDATORY (prepared_hook 1 ''a''), stale_hook] 0"
  by (simp add: hk_domain_commit_preflight_def stale_hook_def in_domain_def Let_def)

theorem domain_boundary_witness:
  "prepared_members 0 (cm_hooks (commit_round 0 hk_id_zero hk_id_zero [] 0
     (commit_start [in_domain 0 HK_OPERATION_MANDATORY (prepared_hook 1 ''a''), stale_hook]))) = {}"
  by (rule domain_boundary [OF _ _ _ _ refl, where generation = 0, THEN conjunct2, THEN conjunct2, THEN conjunct2, THEN conjunct2, THEN conjunct1])
    (use stale_preflight in \<open>simp_all add: in_domain_def\<close>)

end
