(* ===== verification/HK_Commit_State.thy ===== *)
theory HK_Commit_State
  imports HK_Commit_Props
begin

text \<open>
  The whole of \<open>hk_plan_commit\<close>, groups included: an invariant of the locals of the loop relates them to
  the hooks the call started from, and from it follow what the state of the plan, the counters and
  the report say once the call returns.
\<close>

section \<open>The invariant\<close>

definition newly :: "(hk_outcome \<Rightarrow> bool) \<Rightarrow> 'e hk_hook list \<Rightarrow> 'e hk_hook list \<Rightarrow> nat set" where
  "newly P hs0 hooks = {j. j < length hs0 \<and> oc (hs0 ! j) = HK_OUTCOME_PREPARED \<and>
     oc (hooks ! j) \<noteq> HK_OUTCOME_PREPARED \<and> P (oc (hooks ! j))}"

abbreviation newly_active where "newly_active \<equiv> newly (\<lambda>x. x = HK_OUTCOME_ACTIVE)"
abbreviation newly_failed where "newly_failed \<equiv> newly (\<lambda>x. x \<noteq> HK_OUTCOME_ACTIVE)"

lemma finite_newly [simp]: "finite (newly P hs0 hooks)"
  by (simp add: newly_def)

definition owned_in :: "'e hk_world \<Rightarrow> 'e hk_hook \<Rightarrow> bool" where
  "owned_in w h \<longleftrightarrow> os_present (hk_ownership_lookup_locked (h_target_key h) (w_owners w))"

lemma owned_in_grows: "grows w w' \<Longrightarrow> owned_in w h \<Longrightarrow> owned_in w' h"
  unfolding owned_in_def by (rule grows_owned)

definition commit_inv :: "'e hk_hook list \<Rightarrow> 'e commit_run \<Rightarrow> bool" where
  "commit_inv hs0 st \<longleftrightarrow> length (cm_hooks st) = length hs0 \<and>
     (\<forall>j < length hs0. kept (hs0 ! j) (cm_hooks st ! j) \<and>
        (cm_hooks st ! j = hs0 ! j \<or>
         oc (hs0 ! j) = HK_OUTCOME_PREPARED \<and> settled_outcome (oc (cm_hooks st ! j)))) \<and>
     cm_active st = card (newly_active hs0 (cm_hooks st)) \<and>
     cm_failed st = card (newly_failed hs0 (cm_hooks st)) \<and>
     (\<forall>j \<in> newly_active hs0 (cm_hooks st).
        r_mutation (h_result (cm_hooks st ! j)) = HK_MUTATION_COMPLETE \<and>
        dependencies_active (cm_hooks st) (cm_hooks st ! j) \<and> owned_in (cm_world st) (cm_hooks st ! j))"

definition advances :: "'e commit_run \<Rightarrow> 'e commit_run \<Rightarrow> bool" where
  "advances st st' \<longleftrightarrow> length (cm_hooks st') = length (cm_hooks st) \<and>
     length (cm_results st') = length (cm_results st) \<and>
     (\<forall>j < length (cm_hooks st). h_spec (cm_hooks st' ! j) = h_spec (cm_hooks st ! j) \<and>
        (oc (cm_hooks st ! j) \<noteq> HK_OUTCOME_PREPARED \<longrightarrow> cm_hooks st' ! j = cm_hooks st ! j)) \<and>
     grows (cm_world st) (cm_world st') \<and> (\<forall>hs0. commit_inv hs0 st \<longrightarrow> commit_inv hs0 st')"

lemma advances_refl [simp]: "advances st st"
  by (simp add: advances_def)

lemma advances_trans: "advances a b \<Longrightarrow> advances b c \<Longrightarrow> advances a c"
  unfolding advances_def by (auto intro: grows_trans)

text \<open>Active dependencies stay active: only prepared hooks change.\<close>

lemma find_ref_stable:
  "List.find (\<lambda>h. h_ref h = r) hooks = Some d \<Longrightarrow> oc d \<noteq> HK_OUTCOME_PREPARED \<Longrightarrow>
   length hooks' = length hooks \<Longrightarrow>
   (\<forall>j < length hooks. h_ref (hooks' ! j) = h_ref (hooks ! j) \<and>
      (oc (hooks ! j) \<noteq> HK_OUTCOME_PREPARED \<longrightarrow> hooks' ! j = hooks ! j)) \<Longrightarrow>
   List.find (\<lambda>h. h_ref h = r) hooks' = Some d"
proof (induction hooks arbitrary: hooks')
  case Nil
  then show ?case by simp
next
  case (Cons h hs)
  obtain h' hs' where c: "hooks' = h' # hs'" using Cons.prems(3) by (cases hooks') auto
  have h': "h_ref h' = h_ref h" "oc h \<noteq> HK_OUTCOME_PREPARED \<longrightarrow> h' = h"
    using Cons.prems(4) c by fastforce+
  show ?case
  proof (cases "h_ref h = r")
    case True
    then show ?thesis using Cons.prems(1,2) h' c by simp
  next
    case False
    have "List.find (\<lambda>h. h_ref h = r) hs' = Some d"
      by (rule Cons.IH) (use Cons.prems c False in \<open>auto split: if_splits\<close>)
    then show ?thesis using False h' c by simp
  qed
qed

lemma dependencies_stable:
  assumes "dependencies_active hooks h" "length hooks' = length hooks"
    "\<forall>j < length hooks. h_ref (hooks' ! j) = h_ref (hooks ! j) \<and>
      (oc (hooks ! j) \<noteq> HK_OUTCOME_PREPARED \<longrightarrow> hooks' ! j = hooks ! j)"
    "h_spec h' = h_spec h"
  shows "dependencies_active hooks' h'"
  using assms(1) find_ref_stable [OF _ _ assms(2,3)] unfolding dependencies_active_def assms(4)
  by (fastforce simp: list_all_iff hook_of_ref_def split: option.splits)

definition idle :: "'e commit_run \<Rightarrow> 'e commit_run \<Rightarrow> bool" where
  "idle st st' \<longleftrightarrow> cm_hooks st' = cm_hooks st \<and> cm_active st' = cm_active st \<and> cm_failed st' = cm_failed st \<and>
     length (cm_results st') = length (cm_results st) \<and> grows (cm_world st) (cm_world st')"

lemma idle_trans: "idle a b \<Longrightarrow> idle b c \<Longrightarrow> idle a c"
  by (auto simp: idle_def intro: grows_trans)

lemma idle_advances: "idle st st' \<Longrightarrow> advances st st'"
  by (auto simp: idle_def advances_def commit_inv_def intro: owned_in_grows)

lemma newly_update:
  assumes "i < length hs0" "oc (hs0 ! i) = HK_OUTCOME_PREPARED" "oc (hooks ! i) = HK_OUTCOME_PREPARED"
    "length hooks = length hs0" "oc h \<noteq> HK_OUTCOME_PREPARED"
  shows "newly P hs0 (hooks[i := h]) = (if P (oc h) then insert i (newly P hs0 hooks) else newly P hs0 hooks)"
    "i \<notin> newly P hs0 hooks"
  using assms by (auto simp: newly_def nth_list_update)

lemma settled_not_prepared: "settled_outcome x \<Longrightarrow> x \<noteq> HK_OUTCOME_PREPARED"
  by (auto simp: settled_outcome_def)

lemma settles_inv:
  assumes s: "settles i st st'" and i: "i < length (cm_hooks st)" "oc (cm_hooks st ! i) = HK_OUTCOME_PREPARED"
    and act: "oc (cm_hooks st' ! i) = HK_OUTCOME_ACTIVE \<Longrightarrow>
      dependencies_active (cm_hooks st) (cm_hooks st ! i) \<and> owned_in (cm_world st') (cm_hooks st ! i)"
    and inv: "commit_inv hs0 st"
  shows "commit_inv hs0 st'"
proof -
  obtain h where h: "cm_hooks st' = (cm_hooks st)[i := h]" "kept (cm_hooks st ! i) h"
     "settled_outcome (oc h)" "cm_active st' = cm_active st + of_bool (oc h = HK_OUTCOME_ACTIVE)"
     "cm_failed st' = cm_failed st + of_bool (oc h \<noteq> HK_OUTCOME_ACTIVE)"
     "oc h = HK_OUTCOME_ACTIVE \<longrightarrow> r_mutation (h_result h) = HK_MUTATION_COMPLETE"
     "grows (cm_world st) (cm_world st')"
    using s unfolding settles_def by blast
  have l: "length (cm_hooks st) = length hs0" using inv by (simp add: commit_inv_def)
  note np = settled_not_prepared [OF h(3)]
  have p0: "oc (hs0 ! i) = HK_OUTCOME_PREPARED"
  proof -
    have "cm_hooks st ! i = hs0 ! i \<or> oc (hs0 ! i) = HK_OUTCOME_PREPARED" using inv i l by (auto simp: commit_inv_def)
    then show ?thesis using i(2) by auto
  qed
  note nu = newly_update [OF i(1) [unfolded l] p0 i(2) l np]
  have frame: "length (cm_hooks st') = length (cm_hooks st)"
    "\<forall>j < length (cm_hooks st). h_ref (cm_hooks st' ! j) = h_ref (cm_hooks st ! j) \<and>
      (oc (cm_hooks st ! j) \<noteq> HK_OUTCOME_PREPARED \<longrightarrow> cm_hooks st' ! j = cm_hooks st ! j)"
    using h(1,2) i by (auto simp: kept_def nth_list_update)
  note stab = dependencies_stable [OF _ frame]
  show ?thesis unfolding commit_inv_def
  proof (intro conjI)
    show "length (cm_hooks st') = length hs0" using l h(1) by simp
    show "\<forall>j<length hs0. kept (hs0 ! j) (cm_hooks st' ! j) \<and>
       (cm_hooks st' ! j = hs0 ! j \<or> oc (hs0 ! j) = HK_OUTCOME_PREPARED \<and> settled_outcome (oc (cm_hooks st' ! j)))"
      using inv h(1,2,3) i(1) l p0 by (auto simp: commit_inv_def nth_list_update intro: kept_trans)
    show "cm_active st' = card (newly_active hs0 (cm_hooks st'))" "cm_failed st' = card (newly_failed hs0 (cm_hooks st'))"
      using inv h(1,4,5) nu by (auto simp: commit_inv_def)
    show "\<forall>j\<in>newly_active hs0 (cm_hooks st').
       r_mutation (h_result (cm_hooks st' ! j)) = HK_MUTATION_COMPLETE \<and>
       dependencies_active (cm_hooks st') (cm_hooks st' ! j) \<and> owned_in (cm_world st') (cm_hooks st' ! j)"
    proof
      fix j assume j: "j \<in> newly_active hs0 (cm_hooks st')"
      show "r_mutation (h_result (cm_hooks st' ! j)) = HK_MUTATION_COMPLETE \<and>
       dependencies_active (cm_hooks st') (cm_hooks st' ! j) \<and> owned_in (cm_world st') (cm_hooks st' ! j)"
      proof (cases "j = i")
        case True
        have e: "cm_hooks st' ! i = h" using h(1) i(1) by simp
        have a: "oc h = HK_OUTCOME_ACTIVE" using j True e by (simp add: newly_def)
        have k: "h_spec h = h_spec (cm_hooks st ! i)" "h_target_key h = h_target_key (cm_hooks st ! i)"
          using h(2) by (simp_all add: kept_def)
        have d: "dependencies_active (cm_hooks st) (cm_hooks st ! i)" "owned_in (cm_world st') (cm_hooks st ! i)"
          using act a e by auto
        show ?thesis using h(6) a stab [OF d(1) k(1)] d(2) k(2) unfolding True e by (simp add: owned_in_def)
      next
        case False
        then have e: "cm_hooks st' ! j = cm_hooks st ! j" using h(1) by simp
        have "j \<in> newly_active hs0 (cm_hooks st)" using j e by (simp add: newly_def)
        then have "r_mutation (h_result (cm_hooks st ! j)) = HK_MUTATION_COMPLETE"
          "dependencies_active (cm_hooks st) (cm_hooks st ! j)" "owned_in (cm_world st) (cm_hooks st ! j)"
          using inv by (auto simp: commit_inv_def)
        then show ?thesis using stab [OF _ refl] owned_in_grows [OF h(7)] unfolding e by blast
      qed
    qed
  qed
qed

lemma settles_advances:
  assumes s: "settles i st st'" and i: "i < length (cm_hooks st)" "oc (cm_hooks st ! i) = HK_OUTCOME_PREPARED"
    and act: "oc (cm_hooks st' ! i) = HK_OUTCOME_ACTIVE \<Longrightarrow>
      dependencies_active (cm_hooks st) (cm_hooks st ! i) \<and> owned_in (cm_world st') (cm_hooks st ! i)"
  shows "advances st st'" "oc (cm_hooks st' ! i) \<noteq> HK_OUTCOME_PREPARED"
proof -
  obtain h where h: "cm_hooks st' = (cm_hooks st)[i := h]" "cm_results st' = (cm_results st)[i := h_result h]"
     "kept (cm_hooks st ! i) h" "settled_outcome (oc h)" "grows (cm_world st) (cm_world st')"
    using s unfolding settles_def by blast
  show "oc (cm_hooks st' ! i) \<noteq> HK_OUTCOME_PREPARED" using h(1,4) i(1) settled_not_prepared by simp
  have "\<forall>hs0. commit_inv hs0 st \<longrightarrow> commit_inv hs0 st'"
    using settles_inv [OF s i] act by blast
  then show "advances st st'"
    using h i by (auto simp: advances_def nth_list_update kept_def)
qed

section \<open>A hook alone and a refused domain\<close>

lemma commit_single_advances:
  assumes "i < length (cm_hooks st)" "oc (cm_hooks st ! i) = HK_OUTCOME_PREPARED"
    and run: "commit_single generation plan_id owner_id i st = st'"
  shows "advances st st'" "oc (cm_hooks st' ! i) \<noteq> HK_OUTCOME_PREPARED" "settles i st st'"
proof -
  have s: "settles i st st'"
  proof (cases "commit_refused generation i st")
    case True
    then show ?thesis by (rule commit_single_refused(1) [OF _ assms(1) run [symmetric]])
  next
    case False
    then show ?thesis by (rule commit_single_dispatched(1) [OF _ assms(1) run [symmetric]])
  qed
  have act: "dependencies_active (cm_hooks st) (cm_hooks st ! i) \<and> owned_in (cm_world st') (cm_hooks st ! i)"
    if a: "oc (cm_hooks st' ! i) = HK_OUTCOME_ACTIVE"
  proof -
    have nr: "\<not> commit_refused generation i st"
    proof
      assume "commit_refused generation i st"
      from commit_single_refused(5) [OF this assms(1) run [symmetric]] a show False by (auto split: if_splits)
    qed
    have "dependencies_active (cm_hooks st) (cm_hooks st ! i)" using nr by (simp add: commit_refused_def Let_def)
    then show ?thesis
      using commit_single_dispatched(2) [OF nr assms(1) run [symmetric] a] by (auto simp: owned_in_def)
  qed
  show "advances st st'" "oc (cm_hooks st' ! i) \<noteq> HK_OUTCOME_PREPARED" "settles i st st'"
    using settles_advances [OF s assms(1,2) act] s by auto
qed

lemma blocked_inv:
  assumes m: "hk_mark_domain_commit_preflight_failed generation domain st = (k, st1)"
    and l: "length (cm_results st) = length (cm_hooks st)"
    and inv: "commit_inv hs0 st"
    and st2: "st2 = st1\<lparr>cm_attempted := cm_attempted st1 + k, cm_failed := cm_failed st1 + k\<rparr>"
  shows "commit_inv hs0 st2"
proof -
  note ms = mark_spec [OF m l]
  let ?P = "prepared_members domain (cm_hooks st)"
  have n: "length (cm_hooks st) = length hs0" using inv by (simp add: commit_inv_def)
  have oc1: "oc (cm_hooks st1 ! j) = (if j \<in> ?P then (if r_image_generation (h_result (cm_hooks st ! j)) \<noteq> generation
      then HK_OUTCOME_STALE_PLAN else HK_OUTCOME_FAILED_SAFE) else oc (cm_hooks st ! j))"
    "kept (cm_hooks st ! j) (cm_hooks st1 ! j)" if "j < length hs0" for j
  proof -
    have jl: "j < length (cm_hooks st)" using that n by simp
    have "oc (cm_hooks st1 ! j) = (if j \<in> ?P then (if r_image_generation (h_result (cm_hooks st ! j)) \<noteq> generation
      then HK_OUTCOME_STALE_PLAN else HK_OUTCOME_FAILED_SAFE) else oc (cm_hooks st ! j)) \<and>
      kept (cm_hooks st ! j) (cm_hooks st1 ! j)"
    proof (cases "j \<in> ?P")
      case True
      then show ?thesis by (simp add: ms(5) [OF jl True, THEN conjunct1] preflight_result_fields kept_def)
    next
      case False
      then show ?thesis by (simp add: ms(6) [OF jl False, THEN conjunct1])
    qed
    then show "oc (cm_hooks st1 ! j) = (if j \<in> ?P then (if r_image_generation (h_result (cm_hooks st ! j)) \<noteq> generation
      then HK_OUTCOME_STALE_PLAN else HK_OUTCOME_FAILED_SAFE) else oc (cm_hooks st ! j))"
      "kept (cm_hooks st ! j) (cm_hooks st1 ! j)" by auto
  qed
  have p0: "oc (hs0 ! j) = HK_OUTCOME_PREPARED" if "j \<in> ?P" for j
  proof -
    have "j < length hs0" "oc (cm_hooks st ! j) = HK_OUTCOME_PREPARED" using that n by (auto simp: prepared_members_def)
    then show ?thesis using inv by (auto simp: commit_inv_def dest!: spec [of _ j])
  qed
  have na: "newly_active hs0 (cm_hooks st1) = newly_active hs0 (cm_hooks st)"
    using oc1(1) by (auto simp: newly_def prepared_members_def split: if_splits)
  have nf: "newly_failed hs0 (cm_hooks st1) = newly_failed hs0 (cm_hooks st) \<union> ?P" "?P \<inter> newly_failed hs0 (cm_hooks st) = {}"
    using oc1(1) p0 n by (auto simp: newly_def prepared_members_def split: if_splits)
  have frame: "length (cm_hooks st1) = length (cm_hooks st)"
    "\<forall>j < length (cm_hooks st). h_ref (cm_hooks st1 ! j) = h_ref (cm_hooks st ! j) \<and>
      (oc (cm_hooks st ! j) \<noteq> HK_OUTCOME_PREPARED \<longrightarrow> cm_hooks st1 ! j = cm_hooks st ! j)"
    using ms(3) oc1(2) ms(6) n by (auto simp: kept_def prepared_members_def)
  have w: "cm_world st1 = cm_world st" "cm_active st1 = cm_active st" "cm_failed st1 = cm_failed st"
    using ms(2) by (simp_all add: only_results_def)
  have fin: "finite ?P" by (simp add: prepared_members_def)
  have s2: "cm_hooks st2 = cm_hooks st1" "cm_world st2 = cm_world st1" "cm_active st2 = cm_active st1"
    "cm_failed st2 = cm_failed st1 + k" using st2 by simp_all
  show ?thesis unfolding commit_inv_def s2
  proof (intro conjI)
    show "length (cm_hooks st1) = length hs0"
      using ms(3) n by simp
    show "\<forall>j<length hs0. kept (hs0 ! j) (cm_hooks st1 ! j) \<and>
       (cm_hooks st1 ! j = hs0 ! j \<or>
        oc (hs0 ! j) = HK_OUTCOME_PREPARED \<and>
        settled_outcome (oc (cm_hooks st1 ! j)))"
    proof (intro allI impI)
      fix j assume j: "j < length hs0"
      have i: "kept (hs0 ! j) (cm_hooks st ! j)" "cm_hooks st ! j = hs0 ! j \<or>
          oc (hs0 ! j) = HK_OUTCOME_PREPARED \<and> settled_outcome (oc (cm_hooks st ! j))"
        using inv j by (auto simp: commit_inv_def)
      have "kept (hs0 ! j) (cm_hooks st1 ! j)" by (rule kept_trans [OF i(1) oc1(2) [OF j]])
      moreover have "cm_hooks st1 ! j = hs0 ! j \<or> oc (hs0 ! j) = HK_OUTCOME_PREPARED \<and> settled_outcome (oc (cm_hooks st1 ! j))"
        using i(2) oc1(1) [OF j] p0 [of j] ms(6) [of j] j n by (cases "j \<in> ?P") auto
      ultimately show "kept (hs0 ! j) (cm_hooks st1 ! j) \<and>
       (cm_hooks st1 ! j = hs0 ! j \<or>
        oc (hs0 ! j) = HK_OUTCOME_PREPARED \<and>
        settled_outcome (oc (cm_hooks st1 ! j)))"
        by simp
    qed
    show "cm_active st1 =
       card (newly_active hs0 (cm_hooks st1))"
      using na w inv by (simp add: commit_inv_def)
    show "cm_failed st1 + k =
       card (newly_failed hs0 (cm_hooks st1))"
      using nf w ms(1) inv fin by (simp add: commit_inv_def card_Un_disjoint Int_commute)
    show "\<forall>j\<in>newly_active hs0 (cm_hooks st1).
       r_mutation (h_result (cm_hooks st1 ! j)) = HK_MUTATION_COMPLETE \<and>
       dependencies_active (cm_hooks st1)
         (cm_hooks st1 ! j) \<and>
       owned_in (cm_world st1)
         (cm_hooks st1 ! j)"
    proof
      fix j assume "j \<in> newly_active hs0 (cm_hooks st1)"
      then have j: "j \<in> newly_active hs0 (cm_hooks st)" using na by simp
      then have jl: "j < length (cm_hooks st)" "j \<notin> ?P" using n by (auto simp: newly_def prepared_members_def)
      have e: "cm_hooks st1 ! j = cm_hooks st ! j" using ms(6) [OF jl] by simp
      have "r_mutation (h_result (cm_hooks st ! j)) = HK_MUTATION_COMPLETE"
          "dependencies_active (cm_hooks st) (cm_hooks st ! j)" "owned_in (cm_world st) (cm_hooks st ! j)"
        using inv j by (auto simp: commit_inv_def)
      then show "r_mutation (h_result (cm_hooks st1 ! j)) = HK_MUTATION_COMPLETE \<and>
       dependencies_active (cm_hooks st1)
         (cm_hooks st1 ! j) \<and>
       owned_in (cm_world st1)
         (cm_hooks st1 ! j)"
        using dependencies_stable [OF _ frame refl] e w(1) by simp
    qed
  qed
qed

text \<open>\<open>agree X st\<close>: every result outside \<open>X\<close> is the one its hook carries.\<close>

definition agree :: "nat set \<Rightarrow> 'e commit_run \<Rightarrow> bool" where
  "agree X st \<longleftrightarrow> length (cm_results st) = length (cm_hooks st) \<and>
     (\<forall>j < length (cm_hooks st). j \<notin> X \<longrightarrow> cm_results st ! j = h_result (cm_hooks st ! j))"

lemma agree_settles:
  assumes "settles i st st'" "agree X st"
  shows "agree (X - {i}) st'"
proof -
  obtain h where h: "cm_hooks st' = (cm_hooks st)[i := h]" "cm_results st' = (cm_results st)[i := h_result h]"
    using assms(1) unfolding settles_def by blast
  have l: "length (cm_results st) = length (cm_hooks st)" using assms(2) by (simp add: agree_def)
  have "cm_results st' ! j = h_result (cm_hooks st' ! j)" if "j < length (cm_hooks st)" "j \<notin> X - {i}" for j
    using that h l assms(2) by (cases "j = i") (simp_all add: agree_def)
  then show ?thesis using h l by (simp add: agree_def)
qed

lemma commit_round_advances:
  assumes i: "i < length (cm_hooks st)" "oc (cm_hooks st ! i) = HK_OUTCOME_PREPARED" and ag: "agree {} st"
    and run: "commit_round generation plan_id owner_id previous i st = st'"
  shows "advances st st'" "oc (cm_hooks st' ! i) \<noteq> HK_OUTCOME_PREPARED" "agree {} st'"
proof -
  have single: "advances st st' \<and> oc (cm_hooks st' ! i) \<noteq> HK_OUTCOME_PREPARED \<and> agree {} st'"
    if "commit_single generation plan_id owner_id i st = st'"
    using commit_single_advances [OF i that] agree_settles [OF _ ag, of i st'] by simp
  have "advances st st' \<and> oc (cm_hooks st' ! i) \<noteq> HK_OUTCOME_PREPARED \<and> agree {} st'"
  proof (cases "commit_single generation plan_id owner_id i st = st'")
    case True
    then show ?thesis by (rule single)
  next
    case False
    obtain k st1 domain where m: "hk_mark_domain_commit_preflight_failed generation domain st = (k, st1)"
      and d: "hs_domain (h_spec (cm_hooks st ! i)) = Some domain"
      and st': "st' = st1\<lparr>cm_attempted := cm_attempted st1 + k, cm_failed := cm_failed st1 + k\<rparr>"
      using run False by (auto simp: commit_round_def Let_def split: option.splits if_splits prod.splits)
    have l: "length (cm_results st) = length (cm_hooks st)" using ag by (simp add: agree_def)
    note ms = mark_spec [OF m l]
    have at: "h_spec (cm_hooks st1 ! j) = h_spec (cm_hooks st ! j) \<and>
        (oc (cm_hooks st ! j) \<noteq> HK_OUTCOME_PREPARED \<longrightarrow> cm_hooks st1 ! j = cm_hooks st ! j) \<and>
        cm_results st1 ! j = h_result (cm_hooks st1 ! j)" if jl: "j < length (cm_hooks st)" for j
    proof (cases "j \<in> prepared_members domain (cm_hooks st)")
      case True
      then have "oc (cm_hooks st ! j) = HK_OUTCOME_PREPARED" by (simp add: prepared_members_def)
      then show ?thesis using ms(5) [OF jl True] by simp
    next
      case False
      have "cm_results st ! j = h_result (cm_hooks st ! j)" using ag jl by (simp add: agree_def)
      then show ?thesis using ms(6) [OF jl False] by simp
    qed
    have im: "i \<in> prepared_members domain (cm_hooks st)" using i d by (simp add: prepared_members_def)
    have "oc (cm_hooks st1 ! i) \<noteq> HK_OUTCOME_PREPARED"
      using ms(5) [OF i(1) im] by (simp add: preflight_result_fields)
    moreover have "grows (cm_world st) (cm_world st')" using ms(2) st' by (simp add: only_results_def)
    ultimately show ?thesis
      using at ms(3,4) l blocked_inv [OF m l _ st'] st' by (auto simp: advances_def agree_def)
  qed
  then show "advances st st'" "oc (cm_hooks st' ! i) \<noteq> HK_OUTCOME_PREPARED" "agree {} st'" by auto
qed

section \<open>Groups\<close>

lemma group_admits_member:
  "group_admits generation owners first taken h \<Longrightarrow>
     r_outcome (h_result h) = HK_OUTCOME_PREPARED \<and> hs_commit_after_count (h_spec h) = 0"
  by (simp add: group_admits_def)

lemma group_extend_members:
  "(\<forall>h \<in> set (take (group_extend generation owners first taken hs) hs).
     r_outcome (h_result h) = HK_OUTCOME_PREPARED \<and> hs_commit_after_count (h_spec h) = 0) \<and>
   group_extend generation owners first taken hs \<le> length hs"
proof (induction hs arbitrary: taken)
  case Nil
  then show ?case by simp
next
  case (Cons h hs)
  then show ?case
    using group_admits_member [of generation owners first taken h] by simp
qed

lemma group_count_members:
  assumes n: "n = hk_plan_commit_group_count generation owners hooks order k" "n > 1"
  shows "k + n \<le> length order"
    "\<forall>i \<in> set (take n (drop k order)). oc (hooks ! i) = HK_OUTCOME_PREPARED \<and> hs_commit_after_count (h_spec (hooks ! i)) = 0"
proof -
  let ?first = "hooks ! (order ! k)"
  let ?rest = "map (\<lambda>i. hooks ! i) (drop (k + 1) order)"
  let ?m = "group_extend generation owners ?first [?first] ?rest"
  have k: "k < length order" "oc ?first = HK_OUTCOME_PREPARED" "hs_commit_after_count (h_spec ?first) = 0" "n = 1 + ?m"
    using n unfolding hk_plan_commit_group_count_def Let_def
    by (auto split: if_splits option.splits)
  note ge = group_extend_members [of generation owners ?first "[?first]" ?rest]
  show "k + n \<le> length order" using ge [THEN conjunct2] k(1,4) by simp
  have "drop k order = order ! k # drop (k + 1) order" using k(1) by (simp add: Cons_nth_drop_Suc)
  then have t: "take n (drop k order) = order ! k # take ?m (drop (k + 1) order)" using k(4) by simp
  show "\<forall>i \<in> set (take n (drop k order)). oc (hooks ! i) = HK_OUTCOME_PREPARED \<and> hs_commit_after_count (h_spec (hooks ! i)) = 0"
    unfolding t using k(2,3) ge by (auto simp: take_map)
qed

lemma no_dependencies: "hs_commit_after_count (h_spec h) = 0 \<Longrightarrow> dependencies_active hooks h"
  by (simp add: dependencies_active_def commit_after_refs_def split: option.splits)

text \<open>\<open>within X st st'\<close>: a phase before the rollup; only results of members are touched.\<close>

definition within :: "nat set \<Rightarrow> 'e commit_run \<Rightarrow> 'e commit_run \<Rightarrow> bool" where
  "within X st st' \<longleftrightarrow> idle st st' \<and> (\<forall>j. j \<notin> X \<longrightarrow> cm_results st' ! j = cm_results st ! j)"

lemma within_refl [simp]: "within X st st"
  by (simp add: within_def idle_def)

lemma within_trans: "within X a b \<Longrightarrow> within X b c \<Longrightarrow> within X a c"
  unfolding within_def by (auto intro: idle_trans)

lemma within_mono: "within X st st' \<Longrightarrow> X \<subseteq> Y \<Longrightarrow> within Y st st'"
  unfolding within_def by blast

lemma within_agree: "within X st st' \<Longrightarrow> agree X st \<Longrightarrow> agree X st'"
  by (simp add: within_def idle_def agree_def)

lemma within_world: "grows (cm_world st) w \<Longrightarrow> within X st (st\<lparr>cm_world := w\<rparr>)"
  by (simp add: within_def idle_def)

lemma group_members_within:
  fixes st :: "'e commit_run"
  assumes "group_members plan_id owner_id rv is st = (r, st')"
  shows "within (set is) st st' \<and> (\<forall>ms. r = Some ms \<longrightarrow> map gm_index ms = is)"
  using assms
proof (induction "is" arbitrary: st r st')
  case Nil
  then show ?case by auto
next
  case (Cons i "is")
  define st1 where "st1 = st\<lparr>cm_results := (cm_results st)[i := h_result (cm_hooks st ! i)], cm_attempted := cm_attempted st + 1\<rparr>"
  obtain ledger w1 where c: "hk_artifact_ledger_create (cm_world st1) = (ledger, w1)" by fastforce
  define st2 where "st2 = st1\<lparr>cm_world := w1\<rparr>"
  have g: "grows (cm_world st1) w1"
    using c by (intro grows_more)
      (auto simp: hk_artifact_ledger_create_def Let_def split: if_splits prod.splits dest!: sys_alloc_frame only_allocD(4))
  have w2: "within (insert i (set is)) st st2"
    using g by (simp add: within_def idle_def st2_def st1_def)
  obtain r3 st3 where m: "group_members plan_id owner_id rv is st2 = (r3, st3)" by fastforce
  have IH: "within (insert i (set is)) st2 st3" "\<And>ms. r3 = Some ms \<Longrightarrow> map gm_index ms = is"
    using Cons.IH [OF m] by (auto simp: within_def)
  show ?case
  proof (cases ledger)
    case None
    then have "r = None" "st' = st2" using Cons.prems c by (simp_all add: Let_def st2_def st1_def)
    then show ?thesis using w2 by simp
  next
    case (Some l)
    then have r: "st' = st3" "\<And>ms. r = Some ms \<Longrightarrow> \<exists>x ms'. ms = x # ms' \<and> gm_index x = i \<and> r3 = Some ms'"
      using Cons.prems c m by (auto simp: Let_def st2_def st1_def)
    then show ?thesis using within_trans [OF w2 IH(1)] IH(2) by fastforce
  qed
qed

lemma group_call_indices:
  assumes "group_call f ctx ms env = ((ok, ms'), env')"
  shows "map gm_index ms' = map gm_index ms"
proof -
  obtain ok1 change env1 where f: "f ctx (gm_opers ms) env = ((ok1, change), env1)" by (metis surj_pair)
  then have "ms' = map (\<lambda>k. (ms ! k)\<lparr>gm_oper := change k (gm_opers ms ! k)\<rparr>) [0..<length ms]"
    using assms by (simp add: group_call_def Let_def)
  then show ?thesis by (intro nth_equalityI) simp_all
qed

lemma group_replies_spec:
  fixes w w' :: "'e hk_world"
  assumes "group_replies replies k ms w = (ms', w')"
  shows "map gm_index ms' = map gm_index ms \<and> hk_sys.more w' = hk_sys.more w"
  using assms
proof (induction ms arbitrary: k w ms')
  case Nil
  then show ?case by simp
next
  case (Cons m ms)
  obtain sink w1 where r: "sink_reply (replies k) (gm_sink m) w = (sink, w1)" by fastforce
  obtain ms1 w2 where g: "group_replies replies (k + 1) ms w1 = (ms1, w2)" by fastforce
  have e: "w' = w2" "map gm_index ms' = gm_index m # map gm_index ms1" using Cons.prems r g by (auto simp: Let_def)
  show ?case using Cons.IH [OF g [folded e(1)]] sink_reply_frame(1) [OF r] e by simp
qed

lemma group_error_within:
  assumes "set (map gm_index ms) \<subseteq> X"
  shows "within X st (group_error code message ms st)"
proof -
  let ?f = "\<lambda>m rs. rs[gm_index m := core_error code message (rs ! gm_index m)]"
  have l: "length (fold ?f ms rs) = length rs" for rs by (induction ms arbitrary: rs) auto
  have n: "j \<notin> set (map gm_index ms) \<Longrightarrow> fold ?f ms rs ! j = rs ! j" for j rs
    by (induction ms arbitrary: rs) auto
  have "fold ?f ms (cm_results st) ! j = cm_results st ! j" if "j \<notin> X" for j
    by (rule n) (use assms that in blast)
  then show ?thesis using l by (simp add: within_def idle_def group_error_def)
qed

lemma set_mutation_indices [simp]: "map (gm_index \<circ> set_mutation x) ms = map gm_index ms"
  by (induction ms) simp_all

lemma group_commit_within:
  fixes st :: "'e commit_run"
  assumes "group_commit vt ctx ms st = ((a, b, ms'), st')" "set (map gm_index ms) \<subseteq> X"
  shows "map gm_index ms' = map gm_index ms" "within X st st'"
proof -
  obtain rok ms1 env1 where rv: "(case vt_revalidate_group_ctx vt of None \<Rightarrow> ((True, ms), w_env (cm_world st))
      | Some f \<Rightarrow> group_call f ctx ms (w_env (cm_world st))) = ((rok, ms1), env1)" by (metis surj_pair)
  have i1: "map gm_index ms1 = map gm_index ms"
    using rv group_call_indices by (auto split: option.splits)
  define st1 where "st1 = st\<lparr>cm_world := (cm_world st)\<lparr>w_env := env1\<rparr>\<rparr>"
  have w1: "within X st st1" unfolding st1_def by (rule within_world) simp
  have X1: "set (map gm_index ms1) \<subseteq> X" using i1 assms(2) by simp
  consider (fail) "ms' = map (set_mutation HK_MUTATION_NONE) ms1" "\<exists>c m. st' = group_error c m ms1 st1"
    | (none) "ms' = ms1" "st' = st1"
    | (run) f ok replies env2 ms2 w2 where "f ctx (gm_opers ms1) env1 = ((ok, replies), env2)"
        "group_replies replies 0 ms1 ((cm_world st1)\<lparr>w_env := env2\<rparr>) = (ms2, w2)"
        "ms' = (if ok then ms2 else map (set_mutation HK_MUTATION_UNKNOWN) ms2)"
        "st' = (if ok then st1\<lparr>cm_world := w2\<rparr> else
           group_error (hk_status_code HK_STATUS_INTERNAL_ERROR) ''group commit callback failed'' ms2 (st1\<lparr>cm_world := w2\<rparr>))"
  proof -
    define rev where "rev = (case vt_revalidate_group_ctx vt of None \<Rightarrow> True
       | Some f \<Rightarrow> rok \<and> list_all (\<lambda>m. op_revalidated (gm_oper m)) ms1)"
    have eq: "((a, b, ms'), st') = (if \<not> rev then ((False, False, map (set_mutation HK_MUTATION_NONE) ms1),
            group_error (hk_status_code HK_STATUS_INVALID_STATE) ''group revalidation failed'' ms1 st1)
         else (case vt_commit_group_ctx vt of
             None \<Rightarrow> ((True, False, ms1), st1)
           | Some f \<Rightarrow>
              (let ((commit_ok, replies), env2) = f ctx (gm_opers ms1) env1;
                   (ms2, w2) = group_replies replies 0 ms1 ((cm_world st1)\<lparr>w_env := env2\<rparr>);
                   st2 = st1\<lparr>cm_world := w2\<rparr>
               in if commit_ok then ((True, True, ms2), st2)
                  else ((True, False, map (set_mutation HK_MUTATION_UNKNOWN) ms2),
                        group_error (hk_status_code HK_STATUS_INTERNAL_ERROR) ''group commit callback failed'' ms2 st2))))"
      using rv unfolding assms(1) [symmetric] group_commit_def rev_def st1_def
      by (cases "vt_revalidate_group_ctx vt"; cases "vt_commit_group_ctx vt") (simp_all add: Let_def)
    show thesis
    proof (cases rev)
      case False
      then show ?thesis using eq by (intro fail) auto
    next
      case True
      show ?thesis
      proof (cases "vt_commit_group_ctx vt")
        case None
        then show ?thesis using eq True by (intro none) auto
      next
        case (Some f)
        obtain ok replies env2 where fr: "f ctx (gm_opers ms1) env1 = ((ok, replies), env2)" by (metis surj_pair)
        obtain ms2 w2 where gr: "group_replies replies 0 ms1 ((cm_world st1)\<lparr>w_env := env2\<rparr>) = (ms2, w2)" by fastforce
        show ?thesis using eq True Some fr gr by (intro run [where f = f, OF fr gr]) (simp_all add: Let_def split: if_splits)
      qed
    qed
  qed
  then have "map gm_index ms' = map gm_index ms \<and> within X st st'"
  proof cases
    case fail
    then show ?thesis using i1 within_trans [OF w1 group_error_within [OF X1]] by auto
  next
    case none
    then show ?thesis using i1 w1 by simp
  next
    case run
    note gr = group_replies_spec [OF run(2)]
    have "grows (cm_world st1) w2"
      by (rule grows_trans [OF grows_env]) (rule grows_more [OF gr [THEN conjunct2]])
    then have w2: "within X st (st1\<lparr>cm_world := w2\<rparr>)" by (rule within_trans [OF w1 within_world])
    have X2: "set (map gm_index ms2) \<subseteq> X" using gr X1 by simp
    show ?thesis using run(3,4) gr i1 w2 within_trans [OF w2 group_error_within [OF X2]] by auto
  qed
  then show "map gm_index ms' = map gm_index ms" "within X st st'" by auto
qed

lemma group_verify_indices:
  assumes "group_verify vt ctx ok ms env = ((grouped, ms'), env')"
  shows "map gm_index ms' = map gm_index ms"
  using assms group_call_indices unfolding group_verify_def
  by (auto simp: Let_def comp_def split: option.splits if_splits prod.splits)

lemma group_compensate_indices:
  assumes "group_compensate vt ctx needed ms env = (ms', env')"
  shows "map gm_index ms' = map gm_index ms"
  using assms group_call_indices unfolding group_compensate_def
  by (auto simp: Let_def comp_def split: option.splits if_splits prod.splits)

text \<open>A member that may still be reported active.\<close>

definition may_activate :: "group_member \<Rightarrow> bool" where
  "may_activate m \<longleftrightarrow> op_mutation (gm_oper m) = HK_MUTATION_COMPLETE \<and> \<not> sk_record_failed (gm_sink m) \<and>
     \<not> op_compensated (gm_oper m)"

lemma group_judge_step:
  fixes st :: "'e commit_run"
  assumes "group_judge engine_id m (acc, st) = (acc', st')"
  shows "\<exists>m'. acc' = acc @ [m'] \<and> gm_index m' = gm_index m \<and> within {gm_index m} st st' \<and>
      (may_activate m' \<longrightarrow> owned_in (cm_world st') (cm_hooks st ! gm_index m))"
proof -
  define i hook sink where d: "i = gm_index m" "hook = cm_hooks st ! i" "sink = gm_sink m"
  define mutation1 where "mutation1 = (if sk_record_failed sink \<and> op_mutation (gm_oper m) = HK_MUTATION_COMPLETE
      then HK_MUTATION_UNKNOWN else op_mutation (gm_oper m))"
  obtain mutation2 out1 where c: "(if mutation1 = HK_MUTATION_COMPLETE
            then (case hk_hook_validate_commit_effects hook sink (cm_results st ! i) of
                (ok, out') \<Rightarrow> (if ok then mutation1 else HK_MUTATION_UNKNOWN, out'))
            else (mutation1, cm_results st ! i)) = (mutation2, out1)" by fastforce
  obtain recorded w1 where r: "(if mutation2 = HK_MUTATION_COMPLETE \<and> \<not> op_compensated (gm_oper m)
            then record_owner hook engine_id (sk_published_original sink) (cm_world st) else (True, cm_world st)) = (recorded, w1)"
    by fastforce
  define mutation3 where "mutation3 = (if recorded then mutation2 else HK_MUTATION_UNKNOWN)"
  define out2 where "out2 = (if recorded then out1 else core_error (hk_status_code HK_STATUS_OUT_OF_MEMORY)
      ''could not record target ownership'' out1)"
  have j: "(if recorded then (mutation2, out1) else (HK_MUTATION_UNKNOWN, core_error (hk_status_code HK_STATUS_OUT_OF_MEMORY)
      ''could not record target ownership'' out1)) = (mutation3, out2)"
    by (simp add: mutation3_def out2_def)
  have st': "acc' = acc @ [set_mutation mutation3 m]"
    "st' = st\<lparr>cm_world := w1, cm_results := (cm_results st)[i := out2]\<rparr>"
    using assms unfolding group_judge_def Let_def prod.case d [symmetric] mutation1_def [symmetric] c r j
    by simp_all
  have g: "grows (cm_world st) w1"
    using r record_owner_spec(1) [of hook engine_id "sk_published_original sink" "cm_world st" recorded w1]
    by (auto split: if_splits)
  have o: "owned_in w1 hook" if "may_activate (set_mutation mutation3 m)"
  proof -
    have "recorded" "mutation2 = HK_MUTATION_COMPLETE" "\<not> op_compensated (gm_oper m)"
      using that unfolding may_activate_def mutation3_def by (auto split: if_splits)
    then show ?thesis
      using r record_owner_spec(4) [of hook engine_id "sk_published_original sink" "cm_world st" True w1 "h_target_key hook"]
      by (simp add: owned_in_def)
  qed
  show ?thesis
    using st' g o by (auto simp: within_def idle_def d may_activate_def)
qed

lemma fold_group_judge:
  fixes st :: "'e commit_run"
  assumes "fold (group_judge engine_id) ms (acc, st) = (acc', st')" "set (map gm_index ms) \<subseteq> X"
    "\<forall>m \<in> set acc. may_activate m \<longrightarrow> owned_in (cm_world st) (cm_hooks st ! gm_index m)"
  shows "map gm_index acc' = map gm_index acc @ map gm_index ms \<and> within X st st' \<and>
    (\<forall>m \<in> set acc'. may_activate m \<longrightarrow> owned_in (cm_world st') (cm_hooks st' ! gm_index m))"
  using assms
proof (induction ms arbitrary: acc st)
  case Nil
  then show ?case by simp
next
  case (Cons m ms)
  obtain acc1 st1 where j: "group_judge engine_id m (acc, st) = (acc1, st1)" by fastforce
  obtain m' where m': "acc1 = acc @ [m']" "gm_index m' = gm_index m" "within {gm_index m} st st1"
    "may_activate m' \<longrightarrow> owned_in (cm_world st1) (cm_hooks st ! gm_index m)"
    using group_judge_step [OF j] by blast
  have w: "within X st st1"
    by (rule within_mono [OF m'(3)]) (use Cons.prems(2) in simp)
  have w2: "cm_hooks st1 = cm_hooks st" "grows (cm_world st) (cm_world st1)"
    using m'(3) by (simp_all add: within_def idle_def)
  have a: "\<forall>x \<in> set acc1. may_activate x \<longrightarrow> owned_in (cm_world st1) (cm_hooks st1 ! gm_index x)"
    using Cons.prems(3) m'(1,2,4) w2(1) owned_in_grows [OF w2(2)] by auto
  have f: "fold (group_judge engine_id) ms (acc1, st1) = (acc', st')" using Cons.prems(1) j by simp
  from Cons.IH [OF f _ a] Cons.prems(2) m'(1,2) within_trans [OF w] show ?case by auto
qed

lemma group_append_step:
  fixes st :: "'e commit_run"
  assumes "group_append m (acc, st) = (acc', st')"
  shows "\<exists>k m'. acc' = acc @ [(k, m')] \<and> gm_index m' = gm_index m \<and> within {} st st' \<and>
      (may_activate m' \<longrightarrow> may_activate m)"
proof -
  obtain ok ledger w1 where a: "hk_artifact_ledger_append_ledger (cm_ledger st) (sk_ledger (gm_sink m)) (cm_world st)
      = ((ok, ledger), w1)" by (metis surj_pair)
  have "grows (cm_world st) w1" by (rule grows_alloc [OF ledger_append_ledger_frame [OF a]])
  then show ?thesis
    using assms a by (auto simp: group_append_def Let_def within_def idle_def may_activate_def)
qed

lemma fold_group_append:
  fixes st :: "'e commit_run"
  assumes "fold group_append ms (acc, st) = (acc', st')"
    "\<forall>m \<in> set ms \<union> snd ` set acc. may_activate m \<longrightarrow> owned_in (cm_world st) (cm_hooks st ! gm_index m)"
  shows "map (\<lambda>(k, m). gm_index m) acc' = map (\<lambda>(k, m). gm_index m) acc @ map gm_index ms \<and> within {} st st' \<and>
    (\<forall>(k, m) \<in> set acc'. may_activate m \<longrightarrow> owned_in (cm_world st') (cm_hooks st' ! gm_index m))"
  using assms
proof (induction ms arbitrary: acc st)
  case Nil
  then show ?case by auto
next
  case (Cons m ms)
  obtain acc1 st1 where j: "group_append m (acc, st) = (acc1, st1)" by fastforce
  obtain k m' where m': "acc1 = acc @ [(k, m')]" "gm_index m' = gm_index m" "within {} st st1"
    "may_activate m' \<longrightarrow> may_activate m"
    using group_append_step [OF j] by blast
  have w: "cm_hooks st1 = cm_hooks st" "grows (cm_world st) (cm_world st1)"
    using m'(3) by (auto simp: within_def idle_def)
  have a: "\<forall>x \<in> set ms \<union> snd ` set acc1. may_activate x \<longrightarrow> owned_in (cm_world st1) (cm_hooks st1 ! gm_index x)"
    using Cons.prems(2) m'(1,2,4) w(1) owned_in_grows [OF w(2)] by auto
  have f: "fold group_append ms (acc1, st1) = (acc', st')" using Cons.prems(1) j by simp
  from Cons.IH [OF f a] m'(1,2) within_trans [OF m'(3)] show ?case by auto
qed

definition rollup_ready :: "'e commit_run \<Rightarrow> nat \<times> group_member \<Rightarrow> bool" where
  "rollup_ready st = (\<lambda>(k, m). let i = gm_index m in i < length (cm_hooks st) \<and>
     oc (cm_hooks st ! i) = HK_OUTCOME_PREPARED \<and> hs_commit_after_count (h_spec (cm_hooks st ! i)) = 0 \<and>
     (may_activate m \<longrightarrow> owned_in (cm_world st) (cm_hooks st ! i)))"

lemma group_rollup_step:
  fixes st :: "'e commit_run"
  assumes r: "rollup_ready st (k, m)" and run: "group_rollup generation grouped (k, m) st = st'"
  shows "advances st st'" "oc (cm_hooks st' ! gm_index m) \<noteq> HK_OUTCOME_PREPARED" "settles (gm_index m) st st'"
proof -
  let ?i = "gm_index m"
  have i: "?i < length (cm_hooks st)" "oc (cm_hooks st ! ?i) = HK_OUTCOME_PREPARED"
    "hs_commit_after_count (h_spec (cm_hooks st ! ?i)) = 0"
    "may_activate m \<longrightarrow> owned_in (cm_world st) (cm_hooks st ! ?i)"
    using r by (simp_all add: rollup_ready_def Let_def)
  have f: "hk_plan_finish_commit_attempt generation ?i k (op_mutation (gm_oper m)) (gm_sink m)
       (if grouped then Some (gm_oper m) else None) None (op_compensated (gm_oper m)) st = st'"
    using run by (simp add: group_rollup_def)
  note fs = finish_settles [OF f i(1)]
  have g: "grows (cm_world st) (cm_world st')" using fs(1) by (auto simp: settles_def)
  have act: "dependencies_active (cm_hooks st) (cm_hooks st ! ?i) \<and> owned_in (cm_world st') (cm_hooks st ! ?i)"
    if "oc (cm_hooks st' ! ?i) = HK_OUTCOME_ACTIVE"
    using fs(3) [OF that] i(3,4) no_dependencies owned_in_grows [OF g] by (auto simp: may_activate_def)
  show "advances st st'" "oc (cm_hooks st' ! ?i) \<noteq> HK_OUTCOME_PREPARED" "settles ?i st st'"
    using settles_advances [OF fs(1) i(1,2) act] fs(1) by auto
qed

lemma fold_group_rollup:
  fixes st :: "'e commit_run"
  assumes "fold (group_rollup generation grouped) ms st = st'" "\<forall>x \<in> set ms. rollup_ready st x"
    "distinct (map (\<lambda>(k, m). gm_index m) ms)" "agree (set (map (\<lambda>(k, m). gm_index m) ms)) st"
  shows "advances st st' \<and> agree {} st' \<and>
    (\<forall>(k, m) \<in> set ms. oc (cm_hooks st' ! gm_index m) \<noteq> HK_OUTCOME_PREPARED)"
  using assms
proof (induction ms arbitrary: st)
  case Nil
  then show ?case by simp
next
  case (Cons x ms)
  obtain k m where x: "x = (k, m)" by fastforce
  obtain st1 where s1: "group_rollup generation grouped (k, m) st = st1" by simp
  have r: "rollup_ready st (k, m)" using Cons.prems(2) x by simp
  note step = group_rollup_step [OF r s1]
  obtain h where h: "cm_hooks st1 = (cm_hooks st)[gm_index m := h]" "grows (cm_world st) (cm_world st1)"
    using step(3) unfolding settles_def by blast
  have rest: "\<forall>y \<in> set ms. rollup_ready st1 y"
  proof
    fix y assume y: "y \<in> set ms"
    obtain k' m' where y': "y = (k', m')" by fastforce
    have ne: "gm_index m' \<noteq> gm_index m" using Cons.prems(3) y x y' by force
    have "rollup_ready st y" using Cons.prems(2) y by simp
    then show "rollup_ready st1 y"
      using ne h(1) owned_in_grows [OF h(2)] unfolding rollup_ready_def y' by (simp add: Let_def)
  qed
  have ag: "agree (set (map (\<lambda>(k, m). gm_index m) ms)) st1"
  proof -
    have "set (map (\<lambda>(k, m). gm_index m) (x # ms)) - {gm_index m} = set (map (\<lambda>(k, m). gm_index m) ms)"
      using Cons.prems(3) x by auto
    then show ?thesis using agree_settles [OF step(3) Cons.prems(4)] by simp
  qed
  have f: "fold (group_rollup generation grouped) ms st1 = st'" using Cons.prems(1) x s1 by simp
  have d: "distinct (map (\<lambda>(k, m). gm_index m) ms)" using Cons.prems(3) by simp
  note IH = Cons.IH [OF f rest d ag]
  have len: "gm_index m < length (cm_hooks st1)" using r h(1) by (simp add: rollup_ready_def Let_def)
  have "oc (cm_hooks st' ! gm_index m) \<noteq> HK_OUTCOME_PREPARED"
  proof -
    have "advances st1 st'" using IH by blast
    then have "cm_hooks st' ! gm_index m = cm_hooks st1 ! gm_index m"
      using len step(2) unfolding advances_def by blast
    then show ?thesis using step(2) by simp
  qed
  then show ?case using IH advances_trans [OF step(1)] x by auto
qed

lemma group_mark_idle: "fold group_mark ms st = st' \<Longrightarrow> within {} st st'"
proof (induction ms arbitrary: st)
  case Nil
  then show ?case by simp
next
  case (Cons x ms)
  have "within {} st (group_mark x st)" by (auto simp: group_mark_def within_def idle_def split: prod.splits)
  then show ?case using Cons by (auto intro: within_trans)
qed

lemma commit_group_phases:
  fixes st :: "'e commit_run"
  assumes run: "hk_plan_commit_group generation plan_id owner_id is st = (ok, st')"
  obtains (early) "\<not> ok" "within (set is) st st'"
  | (rolled) grouped ms5 st6 st7 where "ok" "map (\<lambda>(k, m). gm_index m) ms5 = is" "within (set is) st st6"
      "\<forall>(k, m) \<in> set ms5. may_activate m \<longrightarrow> owned_in (cm_world st6) (cm_hooks st6 ! gm_index m)"
      "fold (group_rollup generation grouped) ms5 st6 = st7" "within {} st7 st'"
proof -
  obtain ok1 w1 where a1: "sys_alloc (cm_world st) = (ok1, w1)" by fastforce
  obtain ok2 w2 where a2: "sys_alloc w1 = (ok2, w2)" by fastforce
  obtain ok3 w3 where a3: "sys_alloc w2 = (ok3, w3)" by fastforce
  obtain ok4 w4 where a4: "sys_alloc w3 = (ok4, w4)" by fastforce
  have g4: "grows (cm_world st) w4"
    using a1 a2 a3 a4 by (meson grows_alloc grows_trans sys_alloc_frame)
  define st1 where "st1 = st\<lparr>cm_world := w4\<rparr>"
  have s1: "within (set is) st st1" unfolding st1_def by (rule within_world [OF g4])
  show thesis
  proof (cases "ok1 \<and> ok2 \<and> ok3 \<and> ok4")
    case False
    then have "ok = False" "st' = st1"
      using run a1 a2 a3 a4 by (auto simp: hk_plan_commit_group_def Let_def st1_def)
    then show ?thesis using early s1 by blast
  next
    case oks: True
    show ?thesis
    proof (cases "h_matched (cm_hooks st1 ! hd is)")
      case None
      then have "ok = False" "st' = st1"
        using run a1 a2 a3 a4 oks by (auto simp: hk_plan_commit_group_def Let_def st1_def)
      then show ?thesis using early s1 by blast
    next
      case (Some vc)
      obtain vt ctx where vc: "vc = (vt, ctx)" by fastforce
      obtain r2 st2 where m: "group_members plan_id owner_id (vt_revalidate_group_ctx vt = None) is st1 = (r2, st2)" by fastforce
      note gm = group_members_within [OF m]
      have s2: "within (set is) st st2" using within_trans [OF s1] gm by blast
      show ?thesis
      proof (cases r2)
        case None
        then have "ok = False" "st' = st2"
          using run a1 a2 a3 a4 oks Some vc m by (auto simp: hk_plan_commit_group_def Let_def st1_def)
        then show ?thesis using early s2 by blast
      next
        case ms: (Some ms)
        have i0: "map gm_index ms = is" using gm ms by blast
        obtain rok cok ms1 st3 where c: "group_commit vt ctx ms st2 = ((rok, cok, ms1), st3)" by (metis surj_pair)
        note gc = group_commit_within [OF c, of "set is"]
        have i1: "map gm_index ms1 = is" and s3: "within (set is) st st3"
          using gc i0 within_trans [OF s2] by simp_all
        obtain grouped ms2 env4 where v: "group_verify vt ctx cok ms1 (w_env (cm_world st3)) = ((grouped, ms2), env4)"
          by (metis surj_pair)
        obtain ms3 env5 where k: "group_compensate vt ctx (needs_compensation rok cok grouped ms2) ms2 env4 = (ms3, env5)"
          by fastforce
        have i3: "map gm_index ms3 = is" using group_verify_indices [OF v] group_compensate_indices [OF k] i1 by simp
        define st4 where "st4 = st3\<lparr>cm_world := (cm_world st3)\<lparr>w_env := env5\<rparr>\<rparr>"
        have s4: "within (set is) st st4" unfolding st4_def by (rule within_trans [OF s3 within_world]) simp
        obtain ms4 st5 where j: "fold (group_judge (cap_engine_id (vt_describe vt))) ms3 ([], st4) = (ms4, st5)" by fastforce
        have j': "map gm_index ms4 = is \<and> within (set is) st4 st5 \<and>
            (\<forall>m \<in> set ms4. may_activate m \<longrightarrow> owned_in (cm_world st5) (cm_hooks st5 ! gm_index m))"
          using fold_group_judge [OF j, of "set is"] i3 by simp
        obtain ms5 st6 where p: "fold group_append ms4 ([], st5) = (ms5, st6)" by fastforce
        have p': "map (\<lambda>(k, m). gm_index m) ms5 = is \<and> within {} st5 st6 \<and>
            (\<forall>(k, m) \<in> set ms5. may_activate m \<longrightarrow> owned_in (cm_world st6) (cm_hooks st6 ! gm_index m))"
          using fold_group_append [OF p] j' by simp
        have s6: "within (set is) st st6"
          using within_trans [OF within_trans [OF s4]] within_mono [of "{}" st5 st6] j' p' by blast
        have fin: "ok" "fold group_mark ms5 (fold (group_rollup generation grouped) ms5 st6) = st'"
          using run a1 a2 a3 a4 oks Some vc m ms c v k j p
          by (simp_all add: hk_plan_commit_group_def Let_def st1_def st4_def)
        show ?thesis by (rule rolled [OF fin(1) p' [THEN conjunct1] s6 p' [THEN conjunct2, THEN conjunct2] refl group_mark_idle [OF fin(2)]])
      qed
    qed
  qed
qed

lemma commit_group_advances:
  fixes st :: "'e commit_run"
  assumes run: "hk_plan_commit_group generation plan_id owner_id is st = (ok, st')"
    and mem: "\<forall>i \<in> set is. i < length (cm_hooks st) \<and> oc (cm_hooks st ! i) = HK_OUTCOME_PREPARED \<and>
      hs_commit_after_count (h_spec (cm_hooks st ! i)) = 0"
    and d: "distinct is" and ag: "agree {} st"
  shows "advances st st'" "ok \<Longrightarrow> agree {} st' \<and> (\<forall>i \<in> set is. oc (cm_hooks st' ! i) \<noteq> HK_OUTCOME_PREPARED)"
proof -
  have "advances st st' \<and> (ok \<longrightarrow> agree {} st' \<and> (\<forall>i \<in> set is. oc (cm_hooks st' ! i) \<noteq> HK_OUTCOME_PREPARED))"
    using run
  proof (cases rule: commit_group_phases)
    case early
    then show ?thesis by (auto simp: within_def intro: idle_advances)
  next
    case (rolled grouped ms5 st6 st7)
    have h6: "cm_hooks st6 = cm_hooks st" using rolled(3) by (simp add: within_def idle_def)
    have "\<forall>x \<in> set ms5. rollup_ready st6 x"
    proof
      fix x assume x: "x \<in> set ms5"
      obtain k m where km: "x = (k, m)" by fastforce
      have "gm_index m \<in> set is" using x km rolled(2) by force
      then show "rollup_ready st6 x"
        using mem rolled(4) x unfolding km rollup_ready_def by (auto simp: h6 Let_def)
    qed
    moreover have "agree (set is) st" using ag by (simp add: agree_def)
    then have "agree (set (map (\<lambda>(k, m). gm_index m) ms5)) st6"
      using within_agree [OF rolled(3)] by (simp add: rolled(2))
    ultimately have r: "advances st6 st7 \<and> agree {} st7 \<and>
        (\<forall>(k, m) \<in> set ms5. oc (cm_hooks st7 ! gm_index m) \<noteq> HK_OUTCOME_PREPARED)"
      using fold_group_rollup [OF rolled(5)] d by (simp add: rolled(2))
    have "advances st st6" using rolled(3) by (auto simp: within_def intro: idle_advances)
    moreover have "advances st7 st'" using rolled(6) by (auto simp: within_def intro: idle_advances)
    ultimately have adv: "advances st st'" using r advances_trans by blast
    have h': "cm_hooks st' = cm_hooks st7" using rolled(6) by (simp add: within_def idle_def)
    have "\<forall>i \<in> set is. oc (cm_hooks st' ! i) \<noteq> HK_OUTCOME_PREPARED"
      using r h' unfolding rolled(2) [symmetric] by auto
    then show ?thesis using adv within_agree [OF rolled(6)] r by blast
  qed
  then show "advances st st'" "ok \<Longrightarrow> agree {} st' \<and> (\<forall>i \<in> set is. oc (cm_hooks st' ! i) \<noteq> HK_OUTCOME_PREPARED)"
    by auto
qed

section \<open>The loop\<close>

lemma commit_loop_advances:
  fixes st :: "'e commit_run"
  assumes run: "commit_loop generation plan_id owner_id order k st = (ok, st')"
    and ord: "distinct order" "set order \<subseteq> {..<length (cm_hooks st)}" and ag: "agree {} st"
    and past: "\<forall>i \<in> set (take k order). oc (cm_hooks st ! i) \<noteq> HK_OUTCOME_PREPARED"
  shows "advances st st' \<and> (ok \<longrightarrow> agree {} st' \<and> (\<forall>i \<in> set order. oc (cm_hooks st' ! i) \<noteq> HK_OUTCOME_PREPARED))"
  using run ord(2) ag past
proof (induction "length order - k" arbitrary: k st rule: less_induct)
  case less
  note rec = less.prems(1) [unfolded commit_loop.simps [of generation plan_id owner_id order k st]]
  show ?case
  proof (cases "k \<ge> length order")
    case True
    then show ?thesis using rec less.prems(3,4) by simp
  next
    case False
    define i where "i = order ! k"
    have "i \<in> set order" using False by (simp add: i_def)
    then have i: "i < length (cm_hooks st)" using less.prems(2) by auto
    have st0: "st\<lparr>cm_results := (cm_results st)[i := h_result (cm_hooks st ! i)]\<rparr> = st"
    proof -
      have "(cm_results st)[i := h_result (cm_hooks st ! i)] = cm_results st"
        using less.prems(3) i by (metis agree_def empty_iff list_update_id)
      then show ?thesis by simp
    qed
    have t: "take (k + 1) order = take k order @ [i]" using False by (simp add: i_def take_Suc_conv_app_nth)
    have keep: "\<forall>j \<in> set (take k order). oc (cm_hooks st1 ! j) \<noteq> HK_OUTCOME_PREPARED" if a: "advances st st1" for st1
    proof
      fix j assume j: "j \<in> set (take k order)"
      then have "j < length (cm_hooks st)" using less.prems(2) by (meson in_set_takeD lessThan_iff subsetD)
      then show "oc (cm_hooks st1 ! j) \<noteq> HK_OUTCOME_PREPARED"
        using a less.prems(4) j unfolding advances_def by auto
    qed
    have sub: "set order \<subseteq> {..<length (cm_hooks st1)}" if "advances st st1" for st1
      using that less.prems(2) by (simp add: advances_def)
    show ?thesis
    proof (cases "oc (cm_hooks st ! i) = HK_OUTCOME_PREPARED")
      case np: False
      have r: "commit_loop generation plan_id owner_id order (k + 1) st = (ok, st')"
        using rec False np st0 by (simp add: Let_def i_def [symmetric])
      show ?thesis
        by (rule less.hyps [OF _ r less.prems(2,3)]) (use False np less.prems(4) t in auto)
    next
      case p: True
      define n where "n = hk_plan_commit_group_count generation (w_owners (cm_world st)) (cm_hooks st) order k"
      show ?thesis
      proof (cases "n > 1")
        case True
        note gm = group_count_members [OF n_def True]
        obtain gok st1 where g: "hk_plan_commit_group generation plan_id owner_id (take n (drop k order)) st = (gok, st1)"
          by fastforce
        have mem: "\<forall>i \<in> set (take n (drop k order)). i < length (cm_hooks st) \<and> oc (cm_hooks st ! i) = HK_OUTCOME_PREPARED \<and>
            hs_commit_after_count (h_spec (cm_hooks st ! i)) = 0"
          using gm(2) less.prems(2) by (meson in_set_dropD in_set_takeD lessThan_iff subsetD)
        have d: "distinct (take n (drop k order))" using ord(1) by simp
        note cg = commit_group_advances [OF g mem d less.prems(3)]
        have r: "(if gok then commit_loop generation plan_id owner_id order (k + n) st1 else (False, st1)) = (ok, st')"
          using rec False p st0 n_def True g by (cases gok) (simp_all add: Let_def i_def [symmetric])
        show ?thesis
        proof (cases gok)
          case False
          then show ?thesis using r cg(1) by auto
        next
          case gk: True
          have r1: "commit_loop generation plan_id owner_id order (k + n) st1 = (ok, st')" using r gk by simp
          have "take (k + n) order = take k order @ take n (drop k order)" by (simp add: take_add)
          then have past1: "\<forall>i \<in> set (take (k + n) order). oc (cm_hooks st1 ! i) \<noteq> HK_OUTCOME_PREPARED"
            using cg(2) gk keep [OF cg(1)] by auto
          have "advances st1 st' \<and> (ok \<longrightarrow> agree {} st' \<and> (\<forall>i \<in> set order. oc (cm_hooks st' ! i) \<noteq> HK_OUTCOME_PREPARED))"
            by (rule less.hyps [OF _ r1 sub [OF cg(1)] _ past1]) (use False True cg(2) gk in auto)
          then show ?thesis using advances_trans [OF cg(1)] by blast
        qed
      next
        case ng: False
        obtain st1 where c: "commit_round generation plan_id owner_id (take k order) i st = st1" by simp
        note cr = commit_round_advances [OF i p less.prems(3) c]
        have r: "commit_loop generation plan_id owner_id order (k + 1) st1 = (ok, st')"
          using rec False p st0 n_def ng c by (simp add: Let_def i_def [symmetric])
        have past1: "\<forall>i \<in> set (take (k + 1) order). oc (cm_hooks st1 ! i) \<noteq> HK_OUTCOME_PREPARED"
          using keep [OF cr(1)] cr(2) t by auto
        have "advances st1 st' \<and> (ok \<longrightarrow> agree {} st' \<and> (\<forall>i \<in> set order. oc (cm_hooks st' ! i) \<noteq> HK_OUTCOME_PREPARED))"
          by (rule less.hyps [OF _ r sub [OF cr(1)] cr(3) past1]) (use False in auto)
        then show ?thesis using advances_trans [OF cr(1)] by blast
      qed
    qed
  qed
qed

section \<open>Runs of \<open>hk_plan_commit\<close>\<close>

lemma append_artifacts_grows:
  fixes w :: "'e hk_world"
  assumes "hk_runtime_append_artifacts rt l w = (rt', w')"
  shows "grows w w'"
proof -
  obtain ok l' w1 where a: "hk_artifact_ledger_append_ledger (rt_artifacts rt) l w = ((ok, l'), w1)" by (metis surj_pair)
  then have "w' = w1" using assms by (simp add: hk_runtime_append_artifacts_def Let_def)
  then show ?thesis using grows_alloc [OF ledger_append_ledger_frame [OF a]] by simp
qed

lemma process_append_grows: "grows w (append_process_artifacts l w)"
proof -
  obtain ok g w1 where a: "hk_artifact_process_append_ledger (w_process_ledger w) l w = ((ok, g), w1)" by (metis surj_pair)
  have m: "hk_sys.more w1 = hk_sys.more w"
    using a unfolding hk_artifact_process_append_ledger_def
    by (auto simp: hk_artifact_ledger_create_def Let_def split: option.splits if_splits prod.splits
        dest!: sys_alloc_frame only_allocD(4) ledger_append_ledger_frame [THEN only_allocD(4)])
  have "append_process_artifacts l w = w1\<lparr>w_process_ledger := g\<rparr>" using a by (simp add: append_process_artifacts_def)
  then show ?thesis using world_more [OF m] by (simp add: grows_def)
qed

section \<open>What counts as an attempt\<close>

lemma commit_single_attempted:
  assumes i: "i < length (cm_hooks st)"
  shows "cm_attempted (commit_single generation plan_id owner_id i st) =
     cm_attempted st + of_bool (r_image_generation (h_result (cm_hooks st ! i)) = generation)"
proof (cases "commit_refused generation i st")
  case True
  then show ?thesis
    by (auto simp: commit_refused_def commit_single_def Let_def cm_store_def)
next
  case False
  define hook where "hook = cm_hooks st ! i"
  define own where "own = hk_ownership_lookup_locked (h_target_key hook) (w_owners (cm_world st))"
  obtain m sink w1 where d: "hk_hook_dispatch_commit hook (commit_sink plan_id owner_id hook own (cm_ledger st)) (cm_world st) =
      ((m, sink), w1)" by (metis surj_pair)
  obtain m1 out1 where j: "judge_mutation own hook sink m (cm_results st ! i) = (m1, out1)" by fastforce
  define st2 where "st2 = st\<lparr>cm_attempted := cm_attempted st + 1, cm_world := w1, cm_ledger := sk_ledger sink,
      cm_results := (cm_results st)[i := out1]\<rparr>"
  have g: "r_image_generation (h_result hook) = generation" "dependencies_active (cm_hooks st) hook"
    "\<not> ownership_conflict own hook"
    using False by (auto simp: commit_refused_def hook_def own_def Let_def)
  have e: "commit_single generation plan_id owner_id i st = hk_plan_finish_commit_attempt generation i
      (hk_artifact_ledger_count (cm_ledger st)) m1 sink None
      (Some (case owned_capabilities hook of None \<Rightarrow> None | Some caps \<Rightarrow> cap_engine_id caps)) False st2"
    using g d j by (simp add: commit_single_def Let_def hook_def [symmetric] own_def [symmetric] st2_def)
  have "i < length (cm_hooks st2)" using i by (simp add: st2_def)
  from finish_settles(2) [OF e [symmetric] this] show ?thesis using g by (simp add: hook_def st2_def)
qed

lemma group_members_attempted:
  "group_members plan_id owner_id rv is st = (Some ms, st') \<Longrightarrow> cm_attempted st' = cm_attempted st + length is"
  by (induction "is" arbitrary: st ms st')
    (fastforce simp: Let_def split: prod.splits option.splits)+

lemma group_commit_attempted:
  "group_commit vt ctx ms st = (r, st') \<Longrightarrow> cm_attempted st' = cm_attempted st"
  by (auto simp: group_commit_def group_error_def Let_def split: prod.splits option.splits if_splits)

lemma fold_judge_attempted: "cm_attempted (snd (fold (group_judge eid) ms (acc, st))) = cm_attempted st"
proof (induction ms arbitrary: acc st)
  case (Cons m ms)
  obtain acc1 st1 where s: "group_judge eid m (acc, st) = (acc1, st1)" by fastforce
  have "cm_attempted st1 = cm_attempted st" using s by (auto simp: group_judge_def Let_def split: prod.splits)
  then show ?case using Cons.IH [of acc1 st1] s by simp
qed simp

lemma fold_append_attempted: "cm_attempted (snd (fold group_append ms (acc, st))) = cm_attempted st"
proof (induction ms arbitrary: acc st)
  case (Cons m ms)
  obtain acc1 st1 where s: "group_append m (acc, st) = (acc1, st1)" by fastforce
  have "cm_attempted st1 = cm_attempted st" using s by (auto simp: group_append_def Let_def split: prod.splits)
  then show ?case using Cons.IH [of acc1 st1] s by simp
qed simp

lemma fold_rollup_attempted:
  "\<forall>(k, m) \<in> set ms. gm_index m < length (cm_hooks st) \<Longrightarrow>
     cm_attempted (fold (group_rollup generation grouped) ms st) = cm_attempted st"
proof (induction ms arbitrary: st)
  case (Cons x ms)
  obtain k m where x: "x = (k, m)" by fastforce
  have i: "gm_index m < length (cm_hooks st)" using Cons.prems x by simp
  note f = finish_settles(1,2) [OF _ i, of generation k "op_mutation (gm_oper m)" "gm_sink m"
      "if grouped then Some (gm_oper m) else None" None "op_compensated (gm_oper m)" "group_rollup generation grouped x st"]
  have "settles (gm_index m) st (group_rollup generation grouped x st)"
    "cm_attempted (group_rollup generation grouped x st) = cm_attempted st"
    using f by (simp_all add: group_rollup_def x)
  moreover from this(1) have "length (cm_hooks (group_rollup generation grouped x st)) = length (cm_hooks st)"
    by (auto simp: settles_def)
  ultimately show ?case using Cons by simp
qed simp

lemma fold_mark_attempted: "cm_attempted (fold group_mark ms st) = cm_attempted st"
  by (induction ms arbitrary: st) (simp_all add: group_mark_def split: prod.split)

lemma commit_group_attempted:
  assumes run: "hk_plan_commit_group generation plan_id owner_id is st = (True, st')"
    and rng: "\<forall>i \<in> set is. i < length (cm_hooks st)"
  shows "cm_attempted st' = cm_attempted st + length is"
proof -
  obtain ok1 w1 where a1: "sys_alloc (cm_world st) = (ok1, w1)" by fastforce
  obtain ok2 w2 where a2: "sys_alloc w1 = (ok2, w2)" by fastforce
  obtain ok3 w3 where a3: "sys_alloc w2 = (ok3, w3)" by fastforce
  obtain ok4 w4 where a4: "sys_alloc w3 = (ok4, w4)" by fastforce
  define st1 where "st1 = st\<lparr>cm_world := w4\<rparr>"
  have oks: "ok1 \<and> ok2 \<and> ok3 \<and> ok4"
    using run a1 a2 a3 a4 by (auto simp: hk_plan_commit_group_def Let_def split: if_splits)
  obtain vt ctx where h: "h_matched (cm_hooks st1 ! hd is) = Some (vt, ctx)"
    using run a1 a2 a3 a4 oks
    by (cases "h_matched (cm_hooks st1 ! hd is)") (auto simp: hk_plan_commit_group_def Let_def st1_def)
  obtain r1 st2 where m0: "group_members plan_id owner_id (vt_revalidate_group_ctx vt = None) is st1 = (r1, st2)" by fastforce
  obtain ms where r1: "r1 = Some ms"
    using run a1 a2 a3 a4 oks h m0 by (cases r1) (auto simp: hk_plan_commit_group_def Let_def st1_def)
  note m = m0 [unfolded r1]
  have i0: "map gm_index ms = is" "within (set is) st1 st2" using group_members_within [OF m] by auto
  obtain rok cok ms1 st3 where c: "group_commit vt ctx ms st2 = ((rok, cok, ms1), st3)" by (metis surj_pair)
  have i1: "map gm_index ms1 = is" "within (set is) st2 st3" using group_commit_within [OF c, of "set is"] i0 by auto
  obtain grouped ms2 env4 where v: "group_verify vt ctx cok ms1 (w_env (cm_world st3)) = ((grouped, ms2), env4)"
    by (metis surj_pair)
  obtain ms3 env5 where k: "group_compensate vt ctx (needs_compensation rok cok grouped ms2) ms2 env4 = (ms3, env5)"
    by fastforce
  have i3: "map gm_index ms3 = is" using group_verify_indices [OF v] group_compensate_indices [OF k] i1 by simp
  define st4 where "st4 = st3\<lparr>cm_world := (cm_world st3)\<lparr>w_env := env5\<rparr>\<rparr>"
  obtain ms4 st5 where j: "fold (group_judge (cap_engine_id (vt_describe vt))) ms3 ([], st4) = (ms4, st5)" by fastforce
  have j': "map gm_index ms4 = is" "within (set is) st4 st5"
    using fold_group_judge [OF j, of "set is"] i3 by simp_all
  obtain ms5 st6 where p: "fold group_append ms4 ([], st5) = (ms5, st6)" by fastforce
  have p': "map (\<lambda>(k, m). gm_index m) ms5 = is" "within {} st5 st6"
    using fold_group_append [OF p] j' fold_group_judge [OF j, of "set is"] i3 by auto
  have h6: "cm_hooks st6 = cm_hooks st"
    using i0(2) i1(2) j'(2) p'(2) by (simp add: within_def idle_def st4_def st1_def)
  have "gm_index x < length (cm_hooks st6)" if "(k, x) \<in> set ms5" for k x
  proof -
    have "gm_index x \<in> set (map (\<lambda>(k, m). gm_index m) ms5)" using that by force
    then show ?thesis unfolding h6 p'(1) using rng by simp
  qed
  then have r: "cm_attempted (fold (group_rollup generation grouped) ms5 st6) = cm_attempted st6"
    by (intro fold_rollup_attempted) auto
  have "st' = fold group_mark ms5 (fold (group_rollup generation grouped) ms5 st6)"
    using run a1 a2 a3 a4 oks h m c v k j p by (simp add: hk_plan_commit_group_def Let_def st1_def st4_def)
  moreover have "cm_attempted st6 = cm_attempted st3"
    using fold_judge_attempted [of "cap_engine_id (vt_describe vt)" ms3 "[]" st4] fold_append_attempted [of ms4 "[]" st5] j p
    by (simp add: st4_def)
  ultimately show ?thesis
    using group_commit_attempted [OF c] group_members_attempted [OF m] r
    by (simp add: fold_mark_attempted st1_def)
qed


text \<open>A prepared hook that a commit counts as attempted: its image generation is current, or its domain has
  a mandatory member, so that a stale member makes the preflight refuse the whole domain.\<close>

definition counted :: "u64 \<Rightarrow> 'e hk_hook list \<Rightarrow> 'e hk_hook \<Rightarrow> bool" where
  "counted generation hooks h \<longleftrightarrow> r_image_generation (h_result h) = generation \<or>
     (\<exists>k \<in> set hooks. hs_domain (h_spec h) \<noteq> None \<and> hs_domain (h_spec k) = hs_domain (h_spec h) \<and>
        hs_role (h_spec k) = HK_OPERATION_MANDATORY)"

text \<open>Something was counted only if some prepared hook had to be; and as long as nothing was, a settled hook
  that has to be counted leaves a current hook waiting.\<close>

definition attempts_inv :: "u64 \<Rightarrow> 'e hk_hook list \<Rightarrow> 'e commit_run \<Rightarrow> bool" where
  "attempts_inv generation hs0 st \<longleftrightarrow>
     (cm_attempted st > 0 \<longrightarrow> (\<exists>j < length hs0. oc (hs0 ! j) = HK_OUTCOME_PREPARED \<and> counted generation hs0 (hs0 ! j))) \<and>
     (cm_attempted st = 0 \<longrightarrow> (\<forall>j \<in> newly (\<lambda>_. True) hs0 (cm_hooks st). counted generation hs0 (hs0 ! j) \<longrightarrow>
        (\<exists>m < length hs0. oc (cm_hooks st ! m) = HK_OUTCOME_PREPARED \<and>
           r_image_generation (h_result (hs0 ! m)) = generation)))"

lemma attempts_invI:
  assumes "j < length hs0" "oc (hs0 ! j) = HK_OUTCOME_PREPARED" "counted generation hs0 (hs0 ! j)" "0 < cm_attempted st"
  shows "attempts_inv generation hs0 st"
  using assms by (auto simp: attempts_inv_def)

lemma commit_inv_at:
  assumes "commit_inv hs0 st" "j < length hs0"
  shows "h_spec (cm_hooks st ! j) = h_spec (hs0 ! j)" "oc (cm_hooks st ! j) = HK_OUTCOME_PREPARED \<Longrightarrow> cm_hooks st ! j = hs0 ! j"
    "length (cm_hooks st) = length hs0"
  using assms by (auto simp: commit_inv_def kept_def dest: settled_not_prepared)

lemma preflight_mandatory:
  assumes inv: "commit_inv hs0 st" and q: "q < length hs0" "hs_domain (h_spec (hs0 ! q)) = Some d"
    "hs_role (h_spec (hs0 ! q)) = HK_OPERATION_MANDATORY"
    and ok: "hk_domain_commit_preflight generation (cm_hooks st) d"
  shows "oc (cm_hooks st ! q) = HK_OUTCOME_PREPARED" "r_image_generation (h_result (hs0 ! q)) = generation"
proof -
  note at = commit_inv_at [OF inv q(1)]
  have "oc (cm_hooks st ! q) = HK_OUTCOME_PREPARED \<and> r_image_generation (h_result (cm_hooks st ! q)) = generation"
    using ok q at(1,3) by (auto simp: hk_domain_commit_preflight_def list_all_length)
  then show "oc (cm_hooks st ! q) = HK_OUTCOME_PREPARED" "r_image_generation (h_result (hs0 ! q)) = generation"
    using at(2) by auto
qed

lemma commit_round_attempts:
  fixes st :: "'e commit_run"
  assumes i: "i < length (cm_hooks st)" "oc (cm_hooks st ! i) = HK_OUTCOME_PREPARED" and ag: "agree {} st"
    and run: "commit_round generation plan_id owner_id previous i st = st'"
    and inv: "commit_inv hs0 st" "attempts_inv generation hs0 st"
    and past: "\<forall>j \<in> set previous. j < length hs0 \<and> oc (hs0 ! j) = HK_OUTCOME_PREPARED \<and>
      oc (cm_hooks st ! j) \<noteq> HK_OUTCOME_PREPARED"
  shows "attempts_inv generation hs0 st'"
proof -
  have n: "length (cm_hooks st) = length hs0" using inv(1) by (simp add: commit_inv_def)
  have il: "i < length hs0" using i(1) n by simp
  have e: "cm_hooks st ! i = hs0 ! i" by (rule commit_inv_at(2) [OF inv(1) il i(2)])
  have p0: "oc (hs0 ! i) = HK_OUTCOME_PREPARED" using i(2) e by simp
  show ?thesis
  proof (cases "r_image_generation (h_result (hs0 ! i)) = generation \<and> commit_single generation plan_id owner_id i st = st'")
    case True
    then have "0 < cm_attempted st'" "counted generation hs0 (hs0 ! i)"
      using commit_single_attempted [OF i(1), of generation plan_id owner_id] e by (auto simp: counted_def)
    then show ?thesis by (intro attempts_invI [OF il p0])
  next
    case nc: False
    show ?thesis
    proof (cases "commit_single generation plan_id owner_id i st = st'
        \<and> (\<forall>d. hs_domain (h_spec (hs0 ! i)) = Some d \<longrightarrow>
            (\<exists>j \<in> set previous. hs_domain (h_spec (cm_hooks st ! j)) = Some d) \<or>
            hk_domain_commit_preflight generation (cm_hooks st) d)")
      case True
      then have s: "commit_single generation plan_id owner_id i st = st'"
        and stale: "r_image_generation (h_result (hs0 ! i)) \<noteq> generation" using nc by auto
      have att: "cm_attempted st' = cm_attempted st"
        using commit_single_attempted [OF i(1), of generation plan_id owner_id] s stale e by simp
      obtain h where h: "cm_hooks st' = (cm_hooks st)[i := h]"
        using commit_single_advances(3) [OF i s] by (auto simp: settles_def)
      have "\<exists>m < length hs0. oc (cm_hooks st' ! m) = HK_OUTCOME_PREPARED \<and> r_image_generation (h_result (hs0 ! m)) = generation"
        if z: "cm_attempted st = 0" and j: "j \<in> newly (\<lambda>_. True) hs0 (cm_hooks st')" "counted generation hs0 (hs0 ! j)" for j
      proof -
        have "\<exists>m < length hs0. oc (cm_hooks st ! m) = HK_OUTCOME_PREPARED \<and> r_image_generation (h_result (hs0 ! m)) = generation"
        proof (cases "j = i")
          case False
          then have "j \<in> newly (\<lambda>_. True) hs0 (cm_hooks st)" using j(1) h by (simp add: newly_def)
          then show ?thesis using inv(2) z j(2) by (auto simp: attempts_inv_def)
        next
          case True
          then obtain d q where d: "hs_domain (h_spec (hs0 ! i)) = Some d" "q < length hs0"
            "hs_domain (h_spec (hs0 ! q)) = Some d" "hs_role (h_spec (hs0 ! q)) = HK_OPERATION_MANDATORY"
            using j(2) stale by (auto simp: counted_def in_set_conv_nth)
          show ?thesis
          proof (cases "\<exists>p \<in> set previous. hs_domain (h_spec (cm_hooks st ! p)) = Some d")
            case True
            then obtain p where p: "p \<in> set previous" "hs_domain (h_spec (cm_hooks st ! p)) = Some d" by blast
            then have "p < length hs0" "p \<in> newly (\<lambda>_. True) hs0 (cm_hooks st)" using past by (auto simp: newly_def)
            moreover from this have "counted generation hs0 (hs0 ! p)"
              using p(2) d nth_mem [OF d(2)] commit_inv_at(1) [OF inv(1)] by (auto simp: counted_def)
            ultimately show ?thesis using inv(2) z by (auto simp: attempts_inv_def)
          next
            case False
            then have "hk_domain_commit_preflight generation (cm_hooks st) d" using \<open>commit_single _ _ _ _ _ = _ \<and> _\<close> d(1) by blast
            from preflight_mandatory [OF inv(1) d(2,3,4) this] show ?thesis using d(2) by blast
          qed
        qed
        then obtain m where m: "m < length hs0" "oc (cm_hooks st ! m) = HK_OUTCOME_PREPARED"
          "r_image_generation (h_result (hs0 ! m)) = generation" by blast
        moreover have "m \<noteq> i" using m(3) stale by auto
        ultimately show ?thesis using h by (intro exI [of _ m]) simp
      qed
      then show ?thesis using inv(2) unfolding attempts_inv_def att by blast
    next
      case False
      obtain k st1 d where d: "hs_domain (h_spec (hs0 ! i)) = Some d" "\<not> hk_domain_commit_preflight generation (cm_hooks st) d"
        and m: "hk_mark_domain_commit_preflight_failed generation d st = (k, st1)"
        and st': "st' = st1\<lparr>cm_attempted := cm_attempted st1 + k, cm_failed := cm_failed st1 + k\<rparr>"
        using run False e
        by (auto simp: commit_round_def Let_def list_ex_iff split: option.splits if_splits prod.splits)
      have "i \<in> prepared_members d (cm_hooks st)" using i d(1) e by (simp add: prepared_members_def)
      moreover have "finite (prepared_members d (cm_hooks st))" by (simp add: prepared_members_def)
      ultimately have "0 < k" using mark_spec(1) [OF m] ag by (auto simp: agree_def card_gt_0_iff)
      moreover obtain q where "q < length hs0" "hs_domain (h_spec (cm_hooks st ! q)) = Some d"
        "hs_role (h_spec (cm_hooks st ! q)) = HK_OPERATION_MANDATORY"
        using d(2) n by (auto simp: hk_domain_commit_preflight_def list_all_length split: if_splits)
      then have "counted generation hs0 (hs0 ! i)"
        using d(1) commit_inv_at(1) [OF inv(1)] by (auto simp: counted_def)
      ultimately show ?thesis by (intro attempts_invI [OF il p0]) (simp_all add: st')
    qed
  qed
qed

lemma group_count_current:
  assumes n: "n = hk_plan_commit_group_count generation owners hooks order k" "n > 1"
  shows "\<exists>i \<in> set (take n (drop k order)). r_image_generation (h_result (hooks ! i)) = generation"
proof -
  let ?first = "hooks ! (order ! k)"
  let ?rest = "map (\<lambda>i. hooks ! i) (drop (k + 1) order)"
  let ?m = "group_extend generation owners ?first [?first] ?rest"
  have k: "k < length order" "n = 1 + ?m" "0 < ?m"
    using n unfolding hk_plan_commit_group_count_def Let_def by (auto split: if_splits option.splits)
  then obtain j js where js: "drop (k + 1) order = j # js" by (cases "drop (k + 1) order") auto
  have "r_image_generation (h_result (hooks ! j)) = generation"
    using k(3) unfolding js by (auto simp: group_admits_def split: if_splits)
  moreover have "j \<in> set (take n (drop k order))"
  proof -
    have "drop k order = order ! k # j # js" using js k(1) by (simp add: Cons_nth_drop_Suc [symmetric])
    moreover have "n = Suc (Suc (n - 2))" using n(2) by simp
    ultimately show ?thesis by (metis list.set_intros take_Suc_Cons)
  qed
  ultimately show ?thesis by blast
qed

lemma commit_loop_attempts:
  fixes st :: "'e commit_run"
  assumes run: "commit_loop generation plan_id owner_id order k st = (True, st')"
    and ord: "distinct order" "set order \<subseteq> {j. prep_at hs0 j}" and ag: "agree {} st"
    and past: "\<forall>i \<in> set (take k order). oc (cm_hooks st ! i) \<noteq> HK_OUTCOME_PREPARED"
    and inv: "commit_inv hs0 st" "attempts_inv generation hs0 st"
  shows "attempts_inv generation hs0 st'"
  using run ag past inv
proof (induction "length order - k" arbitrary: k st rule: less_induct)
  case less
  note rec = less.prems(1) [unfolded commit_loop.simps [of generation plan_id owner_id order k st]]
  have n0: "length (cm_hooks st) = length hs0" using less.prems(4) by (simp add: commit_inv_def)
  have os: "set order \<subseteq> {..<length (cm_hooks st)}" using ord(2) n0 by auto
  show ?case
  proof (cases "k \<ge> length order")
    case True
    then show ?thesis using rec less.prems(5) by simp
  next
    case False
    define i where "i = order ! k"
    have io: "i \<in> set order" using False by (simp add: i_def)
    then have i: "i < length (cm_hooks st)" using os by auto
    have st0: "st\<lparr>cm_results := (cm_results st)[i := h_result (cm_hooks st ! i)]\<rparr> = st"
    proof -
      have "(cm_results st)[i := h_result (cm_hooks st ! i)] = cm_results st"
        using less.prems(2) i by (metis agree_def empty_iff list_update_id)
      then show ?thesis by simp
    qed
    have t: "take (k + 1) order = take k order @ [i]" using False by (simp add: i_def take_Suc_conv_app_nth)
    have keep: "\<forall>j \<in> set (take k order). oc (cm_hooks st1 ! j) \<noteq> HK_OUTCOME_PREPARED" if a: "advances st st1" for st1
    proof
      fix j assume j: "j \<in> set (take k order)"
      then have "j < length (cm_hooks st)" using os by (meson in_set_takeD lessThan_iff subsetD)
      then show "oc (cm_hooks st1 ! j) \<noteq> HK_OUTCOME_PREPARED"
        using a less.prems(3) j unfolding advances_def by auto
    qed
    have ci: "commit_inv hs0 st1" if "advances st st1" for st1
      using that less.prems(4) by (simp add: advances_def)
    show ?thesis
    proof (cases "oc (cm_hooks st ! i) = HK_OUTCOME_PREPARED")
      case np: False
      have r: "commit_loop generation plan_id owner_id order (k + 1) st = (True, st')"
        using rec False np st0 by (simp add: Let_def i_def [symmetric])
      show ?thesis
        by (rule less.hyps [OF _ r less.prems(2)]) (use False np less.prems t in auto)
    next
      case p: True
      define n where "n = hk_plan_commit_group_count generation (w_owners (cm_world st)) (cm_hooks st) order k"
      show ?thesis
      proof (cases "n > 1")
        case True
        note gm = group_count_members [OF n_def True]
        let ?is = "take n (drop k order)"
        have sub: "set ?is \<subseteq> set order" by (meson in_set_dropD in_set_takeD subsetI)
        obtain gok st1 where g: "hk_plan_commit_group generation plan_id owner_id ?is st = (gok, st1)" by fastforce
        have mem: "\<forall>i \<in> set ?is. i < length (cm_hooks st) \<and> oc (cm_hooks st ! i) = HK_OUTCOME_PREPARED \<and>
            hs_commit_after_count (h_spec (cm_hooks st ! i)) = 0"
          using gm(2) os sub by blast
        have d: "distinct ?is" using ord(1) by simp
        note cg = commit_group_advances [OF g mem d less.prems(2)]
        have r: "(if gok then commit_loop generation plan_id owner_id order (k + n) st1 else (False, st1)) = (True, st')"
          using rec False p st0 n_def True g by (cases gok) (simp_all add: Let_def i_def [symmetric])
        then have gk: "gok" and r1: "commit_loop generation plan_id owner_id order (k + n) st1 = (True, st')"
          by (auto split: if_splits)
        have "take (k + n) order = take k order @ ?is" by (simp add: take_add)
        then have past1: "\<forall>i \<in> set (take (k + n) order). oc (cm_hooks st1 ! i) \<noteq> HK_OUTCOME_PREPARED"
          using cg(2) gk keep [OF cg(1)] by auto
        obtain c where c: "c \<in> set ?is" "r_image_generation (h_result (cm_hooks st ! c)) = generation"
          using group_count_current [OF n_def True] by blast
        have cl: "c < length hs0" "oc (cm_hooks st ! c) = HK_OUTCOME_PREPARED" using mem c(1) n0 by auto
        have ce: "cm_hooks st ! c = hs0 ! c" by (rule commit_inv_at(2) [OF less.prems(4) cl])
        have "cm_attempted st1 = cm_attempted st + length ?is"
          by (rule commit_group_attempted) (use g gk mem in auto)
        then have "0 < cm_attempted st1" using c(1) by (cases ?is) auto
        then have "attempts_inv generation hs0 st1"
          by (intro attempts_invI [OF cl(1)]) (use c(2) cl(2) ce in \<open>simp_all add: counted_def\<close>)
        then show ?thesis
          by (intro less.hyps [OF _ r1 _ past1 ci [OF cg(1)]]) (use False True cg(2) gk in auto)
      next
        case ng: False
        obtain st1 where c: "commit_round generation plan_id owner_id (take k order) i st = st1" by simp
        note cr = commit_round_advances [OF i p less.prems(2) c]
        have r1: "commit_loop generation plan_id owner_id order (k + 1) st1 = (True, st')"
          using rec False p st0 ng c by (simp add: Let_def i_def [symmetric] n_def [symmetric])
        have past1: "\<forall>i \<in> set (take (k + 1) order). oc (cm_hooks st1 ! i) \<noteq> HK_OUTCOME_PREPARED"
          unfolding t using keep [OF cr(1)] cr(2) by auto
        have "\<forall>j \<in> set (take k order). j < length hs0 \<and> oc (hs0 ! j) = HK_OUTCOME_PREPARED \<and> oc (cm_hooks st ! j) \<noteq> HK_OUTCOME_PREPARED"
          using less.prems(3) ord(2) by (auto dest: in_set_takeD)
        from commit_round_attempts [OF i p less.prems(2) c less.prems(4,5) this]
        have "attempts_inv generation hs0 st1" .
        then show ?thesis
          by (intro less.hyps [OF _ r1 cr(3) past1 ci [OF cr(1)]]) (use False in simp)
      qed
    qed
  qed
qed

lemma attempts_final:
  assumes "attempts_inv generation hs0 st" "\<forall>j < length hs0. oc (cm_hooks st ! j) \<noteq> HK_OUTCOME_PREPARED"
  shows "0 < cm_attempted st \<longleftrightarrow> (\<exists>j < length hs0. oc (hs0 ! j) = HK_OUTCOME_PREPARED \<and> counted generation hs0 (hs0 ! j))"
  using assms unfolding attempts_inv_def newly_def by blast

section \<open>The call\<close>

text \<open>Either the call fails before its loop, or the loop runs and the plan has the hooks it leaves.\<close>

lemma plan_commit_phases:
  fixes plan :: "'e hk_plan" and w :: "'e hk_world"
  assumes run: "hk_plan_commit plan rt w = (r, plan', rt', w')" and wf: "refs_ok (p_hooks plan)"
  obtains (early) e where "r = Inl e" "plan' = plan" "grows w w'"
  | (looped) ok st where "p_state plan = HK_PLAN_PREPARED \<or> p_state plan = HK_PLAN_PARTIAL"
      "commit_inv (p_hooks plan) st" "grows w (cm_world st)" "grows (cm_world st) w'"
      "ok \<longrightarrow> agree {} st \<and> (\<forall>j < length (p_hooks plan). oc (cm_hooks st ! j) \<noteq> HK_OUTCOME_PREPARED)"
      "case r of Inl e \<Rightarrow> plan' = plan\<lparr>p_hooks := cm_hooks st\<rparr>
       | Inr report \<Rightarrow> ok \<and> rp_results report = cm_results st \<and> rp_artifacts report = cm_ledger st \<and>
           plan' = plan\<lparr>p_hooks := cm_hooks st, p_state :=
             (if cm_failed st = 0 then HK_PLAN_COMMITTED
              else if cm_active st = 0 \<and> cm_attempted st > 0 then HK_PLAN_FAILED else HK_PLAN_PARTIAL)\<rparr>"
      "ok \<longrightarrow> attempts_inv (rt_generation rt) (p_hooks plan) st"
proof -
  obtain ok1 w1 where a1: "(if p_hooks plan = [] then (True, w) else sys_alloc w) = (ok1, w1)" by fastforce
  obtain lr w2 where l: "hk_artifact_ledger_create w1 = (lr, w2)" by fastforce
  obtain orr w3 where o: "hk_build_commit_order (p_domains plan) (p_hooks plan) w2 = (orr, w3)" by fastforce
  have m: "hk_sys.more w1 = hk_sys.more w" "hk_sys.more w2 = hk_sys.more w1" "hk_sys.more w3 = hk_sys.more w2"
    using a1 l only_allocD(4) [OF commit_order_total(1) [OF wf o]]
    by (auto simp: hk_artifact_ledger_create_def Let_def split: if_splits prod.splits dest!: sys_alloc_frame only_allocD(4))
  have g: "grows w w1" "grows w w2" "grows w w3" using m by (auto intro: grows_more)
  show thesis
  proof (cases "(p_state plan = HK_PLAN_PREPARED \<or> p_state plan = HK_PLAN_PARTIAL) \<and> ok1 \<and> lr \<noteq> None \<and> orr \<noteq> None")
    case False
    then have "(\<exists>e. r = Inl e) \<and> plan' = plan \<and> w' \<in> {w, w1, w2, w3}"
      using run a1 l o by (auto simp: hk_plan_commit_def Let_def split: if_splits option.splits)
    then show thesis using g early grows_refl by blast
  next
    case True
    then obtain ledger order where lo: "lr = Some ledger" "orr = Some order" "ok1"
      and st: "p_state plan = HK_PLAN_PREPARED \<or> p_state plan = HK_PLAN_PARTIAL" by blast
    define start where "start = \<lparr>cm_hooks = p_hooks plan, cm_results = map h_result (p_hooks plan), cm_world = w3,
                  cm_ledger = ledger, cm_attempted = 0, cm_active = 0, cm_failed = 0\<rparr>"
    obtain ok st1 where c: "commit_loop (rt_generation rt) (p_id plan) (rt_owner_id rt) order 0 start = (ok, st1)" by fastforce
    obtain rr w4 where rc: "hk_report_create (cm_results st1) (cm_world st1) = (rr, w4)" by fastforce
    have run': "(if \<not> ok then (Inl HK_STATUS_OUT_OF_MEMORY, plan\<lparr>p_hooks := cm_hooks st1\<rparr>, rt, cm_world st1)
        else (case rr of None \<Rightarrow> (Inl HK_STATUS_OUT_OF_MEMORY, plan\<lparr>p_hooks := cm_hooks st1\<rparr>, rt, w4)
          | Some report \<Rightarrow> (let (rt1, w5) = hk_runtime_append_artifacts rt (cm_ledger st1) w4 in
              (Inr (hk_report_adopt_artifact_ledger report (cm_ledger st1)), plan\<lparr>p_hooks := cm_hooks st1, p_state :=
                 (if cm_failed st1 = 0 then HK_PLAN_COMMITTED
                  else if cm_active st1 = 0 \<and> cm_attempted st1 > 0 then HK_PLAN_FAILED else HK_PLAN_PARTIAL)\<rparr>,
               rt1, append_process_artifacts (cm_ledger st1) w5)))) = (r, plan', rt', w')"
    proof -
      have guard: "(p_state plan \<noteq> HK_PLAN_PREPARED \<and> p_state plan \<noteq> HK_PLAN_PARTIAL) = False" "(\<not> ok1) = False"
        using st lo(3) by auto
      show ?thesis
        using run unfolding hk_plan_commit_def a1 Let_def prod.case guard if_False l lo(1) option.case o lo(2)
          start_def [symmetric] c rc .
    qed
    obtain rt1 w5 where ap: "hk_runtime_append_artifacts rt (cm_ledger st1) w4 = (rt1, w5)" by fastforce
    note oo = commit_order_total(2) [OF wf o lo(2)]
    have ord: "distinct order" "set order = {i. prep_at (p_hooks plan) i}" using oo by (simp_all add: commit_order_ok_def)
    have sub: "set order \<subseteq> {..<length (cm_hooks start)}" using ord(2) by (auto simp: start_def)
    have loop: "advances start st1 \<and> (ok \<longrightarrow> agree {} st1 \<and> (\<forall>i \<in> set order. oc (cm_hooks st1 ! i) \<noteq> HK_OUTCOME_PREPARED))"
      using commit_loop_advances [OF c ord(1) sub] by (simp add: agree_def start_def)
    have inv0: "commit_inv (p_hooks plan) start" by (auto simp: commit_inv_def start_def newly_def)
    have att: "attempts_inv (rt_generation rt) (p_hooks plan) st1" if ok
    proof (rule commit_loop_attempts)
      show "commit_loop (rt_generation rt) (p_id plan) (rt_owner_id rt) order 0 start = (True, st1)" using c that by simp
      show "attempts_inv (rt_generation rt) (p_hooks plan) start" by (simp add: attempts_inv_def start_def newly_def)
    qed (use ord inv0 in \<open>auto simp: agree_def start_def\<close>)
    have np: "\<forall>j < length (p_hooks plan). oc (cm_hooks st1 ! j) \<noteq> HK_OUTCOME_PREPARED" if "ok"
    proof (intro allI impI)
      fix j assume j: "j < length (p_hooks plan)"
      have "cm_hooks start = p_hooks plan" by (simp add: start_def)
      then show "oc (cm_hooks st1 ! j) \<noteq> HK_OUTCOME_PREPARED"
        using loop that j ord(2) unfolding advances_def by (cases "oc (p_hooks plan ! j) = HK_OUTCOME_PREPARED") auto
    qed
    have rr: "grows (cm_world st1) w4" "\<And>rep. rr = Some rep \<Longrightarrow> rp_results rep = cm_results st1"
      using hk_report_create_frame [OF rc] by (auto intro: grows_more)
    have g5: "grows (cm_world st1) (append_process_artifacts (cm_ledger st1) w5)"
      using rr(1) append_artifacts_grows [OF ap] process_append_grows grows_trans by blast
    show thesis
    proof (rule looped [OF st])
      show "commit_inv (p_hooks plan) st1" using loop inv0 by (simp add: advances_def)
      show "grows w (cm_world st1)" using loop grows_trans [OF g(3)] by (simp add: advances_def start_def)
      show "grows (cm_world st1) w'" using run' rr(1) g5 ap by (auto simp: Let_def split: if_splits option.splits)
      show "ok \<longrightarrow> agree {} st1 \<and> (\<forall>j < length (p_hooks plan). oc (cm_hooks st1 ! j) \<noteq> HK_OUTCOME_PREPARED)"
        using loop np by blast
      show "case r of Inl e \<Rightarrow> plan' = plan\<lparr>p_hooks := cm_hooks st1\<rparr>
       | Inr report \<Rightarrow> ok \<and> rp_results report = cm_results st1 \<and> rp_artifacts report = cm_ledger st1 \<and>
           plan' = plan\<lparr>p_hooks := cm_hooks st1, p_state :=
             (if cm_failed st1 = 0 then HK_PLAN_COMMITTED
              else if cm_active st1 = 0 \<and> cm_attempted st1 > 0 then HK_PLAN_FAILED else HK_PLAN_PARTIAL)\<rparr>"
        using run' ap rr(2)
        by (cases ok; cases rr) (auto simp: Let_def hk_report_adopt_artifact_ledger_def)
      show "ok \<longrightarrow> attempts_inv (rt_generation rt) (p_hooks plan) st1" using att by blast
    qed
  qed
qed

lemma plan_commit_cases:
  fixes plan :: "'e hk_plan" and w :: "'e hk_world"
  assumes run: "hk_plan_commit plan rt w = (Inr report, plan', rt', w')" and wf: "refs_ok (p_hooks plan)"
  obtains st where "p_state plan = HK_PLAN_PREPARED \<or> p_state plan = HK_PLAN_PARTIAL"
    "commit_inv (p_hooks plan) st" "agree {} st" "grows w (cm_world st)" "grows (cm_world st) w'"
    "\<forall>j < length (p_hooks plan). oc (cm_hooks st ! j) \<noteq> HK_OUTCOME_PREPARED"
    "rp_results report = cm_results st" "rp_artifacts report = cm_ledger st"
    "plan' = plan\<lparr>p_hooks := cm_hooks st, p_state :=
       (if cm_failed st = 0 then HK_PLAN_COMMITTED
        else if cm_active st = 0 \<and> cm_attempted st > 0 then HK_PLAN_FAILED else HK_PLAN_PARTIAL)\<rparr>"
    "attempts_inv (rt_generation rt) (p_hooks plan) st"
  using run wf
proof (cases rule: plan_commit_phases)
  case (early e)
  then show thesis by simp
next
  case (looped ok st)
  then show thesis by (intro that [of st]) auto
qed

section \<open>Properties\<close>

text \<open>C15. What a commit may change. When committing a well-formed plan returns a report, every hook that was not
  prepared is exactly as before, every prepared hook keeps its identity, specification, target and
  route and has a final outcome, the report holds the result of every hook, targets that were owned
  stay owned by the same engine, and no installed record is lost.\<close>

theorem commit_settles:
  fixes plan :: "'e hk_plan" and w :: "'e hk_world"
  assumes wf: "plan_wf w plan" and run: "hk_plan_commit plan rt w = (Inr report, plan', rt', w')"
  shows "length (p_hooks plan') = length (p_hooks plan) \<and>
    (\<forall>j < length (p_hooks plan). kept (p_hooks plan ! j) (p_hooks plan' ! j) \<and>
       (if oc (p_hooks plan ! j) = HK_OUTCOME_PREPARED then settled_outcome (oc (p_hooks plan' ! j))
        else p_hooks plan' ! j = p_hooks plan ! j)) \<and>
    rp_results report = map h_result (p_hooks plan') \<and> grows w w'"
proof -
  obtain st where st: "commit_inv (p_hooks plan) st" "agree {} st" "grows w (cm_world st)" "grows (cm_world st) w'"
    "\<forall>j < length (p_hooks plan). oc (cm_hooks st ! j) \<noteq> HK_OUTCOME_PREPARED"
    "rp_results report = cm_results st" "p_hooks plan' = cm_hooks st"
    using plan_commit_cases [OF run plan_wf_refs_ok [OF wf]] by (metis hk_plan.select_convs(6) hk_plan.surjective hk_plan.update_convs(3,6))
  have l: "length (cm_hooks st) = length (p_hooks plan)" using st(1) by (simp add: commit_inv_def)
  have res: "rp_results report = map h_result (cm_hooks st)"
    using st(2,6) by (auto simp: agree_def intro: nth_equalityI)
  have "kept (p_hooks plan ! j) (cm_hooks st ! j) \<and>
       (if oc (p_hooks plan ! j) = HK_OUTCOME_PREPARED then settled_outcome (oc (cm_hooks st ! j))
        else cm_hooks st ! j = p_hooks plan ! j)" if "j < length (p_hooks plan)" for j
    using st(1) st(5) [rule_format, OF that] that by (auto simp: commit_inv_def)
  then show ?thesis using l res grows_trans [OF st(3,4)] st(7) by simp
qed

text \<open>C1. Every hook a commit activates is backed: when the call returns, its result says \<open>COMPLETE\<close>, all the
  hooks it comes after are active, and its target is owned. This holds for hooks committed alone and
  for members of groups.\<close>

theorem commit_active_backed:
  fixes plan :: "'e hk_plan" and w :: "'e hk_world"
  assumes wf: "plan_wf w plan" and run: "hk_plan_commit plan rt w = (Inr report, plan', rt', w')"
    and j: "j < length (p_hooks plan)" "oc (p_hooks plan ! j) = HK_OUTCOME_PREPARED"
      "oc (p_hooks plan' ! j) = HK_OUTCOME_ACTIVE"
  shows "r_mutation (h_result (p_hooks plan' ! j)) = HK_MUTATION_COMPLETE \<and>
    dependencies_active (p_hooks plan') (p_hooks plan' ! j) \<and>
    os_present (hk_ownership_lookup_locked (h_target_key (p_hooks plan ! j)) (w_owners w'))"
proof -
  obtain st where st: "commit_inv (p_hooks plan) st" "grows (cm_world st) w'" "p_hooks plan' = cm_hooks st"
    using plan_commit_cases [OF run plan_wf_refs_ok [OF wf]] by (metis hk_plan.select_convs(6) hk_plan.surjective hk_plan.update_convs(3,6))
  have "j \<in> newly_active (p_hooks plan) (cm_hooks st)" using j st(3) by (simp add: newly_def)
  then have a: "r_mutation (h_result (cm_hooks st ! j)) = HK_MUTATION_COMPLETE"
    "dependencies_active (cm_hooks st) (cm_hooks st ! j)" "owned_in (cm_world st) (cm_hooks st ! j)"
    using st(1) by (auto simp: commit_inv_def)
  have "kept (p_hooks plan ! j) (cm_hooks st ! j)" using st(1) j(1) by (simp add: commit_inv_def)
  then have "h_target_key (cm_hooks st ! j) = h_target_key (p_hooks plan ! j)" by (simp add: kept_def)
  then show ?thesis using a owned_in_grows [OF st(2) a(3)] st(3) by (simp add: owned_in_def)
qed

text \<open>C16. The state a commit leaves the plan in, exactly: \<open>COMMITTED\<close> when every hook that was prepared
  became active; otherwise \<open>FAILED\<close> when none of them became active and at least one counts as attempted
  (its image generation is the runtime's, or its domain has a mandatory member); otherwise \<open>PARTIAL\<close>: some
  became active and some did not, or all that was prepared is stale and belongs to no such domain. Only
  prepared and partial plans are committed.\<close>

theorem commit_state_meaning:
  fixes plan :: "'e hk_plan" and w :: "'e hk_world"
  assumes wf: "plan_wf w plan" and run: "hk_plan_commit plan rt w = (Inr report, plan', rt', w')"
  shows "p_state plan \<in> {HK_PLAN_PREPARED, HK_PLAN_PARTIAL} \<and>
    p_state plan' =
      (if \<forall>j < length (p_hooks plan). oc (p_hooks plan ! j) = HK_OUTCOME_PREPARED \<longrightarrow>
            oc (p_hooks plan' ! j) = HK_OUTCOME_ACTIVE then HK_PLAN_COMMITTED
       else if (\<forall>j < length (p_hooks plan). oc (p_hooks plan ! j) = HK_OUTCOME_PREPARED \<longrightarrow>
            oc (p_hooks plan' ! j) \<noteq> HK_OUTCOME_ACTIVE) \<and>
          (\<exists>j < length (p_hooks plan). oc (p_hooks plan ! j) = HK_OUTCOME_PREPARED \<and>
            counted (rt_generation rt) (p_hooks plan) (p_hooks plan ! j)) then HK_PLAN_FAILED
       else HK_PLAN_PARTIAL)"
proof -
  obtain st where st: "p_state plan = HK_PLAN_PREPARED \<or> p_state plan = HK_PLAN_PARTIAL"
    "commit_inv (p_hooks plan) st"
    "\<forall>j < length (p_hooks plan). oc (cm_hooks st ! j) \<noteq> HK_OUTCOME_PREPARED"
    "attempts_inv (rt_generation rt) (p_hooks plan) st"
    "plan' = plan\<lparr>p_hooks := cm_hooks st, p_state :=
       (if cm_failed st = 0 then HK_PLAN_COMMITTED
        else if cm_active st = 0 \<and> cm_attempted st > 0 then HK_PLAN_FAILED else HK_PLAN_PARTIAL)\<rparr>"
    using plan_commit_cases [OF run plan_wf_refs_ok [OF wf]] by metis
  have h: "p_hooks plan' = cm_hooks st" "p_state plan' = (if cm_failed st = 0 then HK_PLAN_COMMITTED
      else if cm_active st = 0 \<and> cm_attempted st > 0 then HK_PLAN_FAILED else HK_PLAN_PARTIAL)"
    using st(5) by simp_all
  have c: "cm_active st = card (newly_active (p_hooks plan) (cm_hooks st))"
    "cm_failed st = card (newly_failed (p_hooks plan) (cm_hooks st))"
    using st(2) by (simp_all add: commit_inv_def)
  have f0: "cm_failed st = 0 \<longleftrightarrow> newly_failed (p_hooks plan) (cm_hooks st) = {}"
    and a0: "cm_active st = 0 \<longleftrightarrow> newly_active (p_hooks plan) (cm_hooks st) = {}"
    using c by simp_all
  have f: "cm_failed st = 0 \<longleftrightarrow> (\<forall>j < length (p_hooks plan).
       oc (p_hooks plan ! j) = HK_OUTCOME_PREPARED \<longrightarrow> oc (cm_hooks st ! j) = HK_OUTCOME_ACTIVE)"
    unfolding f0 using st(3) by (auto simp: newly_def)
  have a: "cm_active st = 0 \<longleftrightarrow> (\<forall>j < length (p_hooks plan).
       oc (p_hooks plan ! j) = HK_OUTCOME_PREPARED \<longrightarrow> oc (cm_hooks st ! j) \<noteq> HK_OUTCOME_ACTIVE)"
    unfolding a0 by (auto simp: newly_def)
  show ?thesis unfolding h attempts_final [OF st(4,3), symmetric] f [symmetric] a [symmetric] using st(1) by simp
qed

section \<open>Concrete runs\<close>

definition commit_plan :: "nat hk_hook list \<Rightarrow> nat hk_plan" where
  "commit_plan hooks = sample_plan\<lparr>p_state := HK_PLAN_PREPARED, p_hooks := hooks,
     p_domains := [\<lparr>d_ref = 0, d_id = hk_id_zero, d_spec = sample_domain_spec\<rparr>]\<rparr>"

abbreviation committed_pair where
  "committed_pair \<equiv> hk_plan_commit (commit_plan [prepared_hook 1 ''a'', dependent_hook]) sample_runtime gated_world"

lemma two_hooks_run:
  "\<exists>report p rt w. committed_pair = (Inr report, p, rt, w) \<and>
     map oc (p_hooks p) = [HK_OUTCOME_ACTIVE, HK_OUTCOME_ACTIVE] \<and> p_state p = HK_PLAN_COMMITTED"
proof -
  have e: "case committed_pair of (r, p, rt, w) \<Rightarrow> \<not> isl r \<and>
      map oc (p_hooks p) = [HK_OUTCOME_ACTIVE, HK_OUTCOME_ACTIVE] \<and> p_state p = HK_PLAN_COMMITTED"
    by code_simp
  obtain r p rt w where c: "committed_pair = (r, p, rt, w)" by (metis surj_pair)
  show ?thesis using e unfolding c by (cases r) auto
qed

lemma commit_plan_wf:
  "plan_wf gated_world (commit_plan [prepared_hook 1 ''a'', dependent_hook])"
  by (simp add: plan_wf_def commit_plan_def gated_world_def sample_plan_def sample_world_def All_less_Suc
      prepared_hook_def dependent_hook_def sample_hook_def new_hook_def sample_spec_def sample_domain_spec_def
      commit_after_refs_def Let_def)

theorem commit_settles_witness:
  "\<exists>report p rt w. committed_pair = (Inr report, p, rt, w) \<and> rp_results report = map h_result (p_hooks p)"
proof -
  obtain report p rt w where run: "committed_pair = (Inr report, p, rt, w)"
    using two_hooks_run by (elim exE conjE) (rule that)
  show ?thesis
    using run commit_settles [OF commit_plan_wf run, THEN conjunct2, THEN conjunct2, THEN conjunct1] by blast
qed

theorem commit_active_backed_witness:
  "\<exists>report p rt w. committed_pair = (Inr report, p, rt, w) \<and> dependencies_active (p_hooks p) (p_hooks p ! 1)"
proof -
  obtain report p rt w where run: "committed_pair = (Inr report, p, rt, w)"
    and o: "map oc (p_hooks p) = [HK_OUTCOME_ACTIVE, HK_OUTCOME_ACTIVE]"
    using two_hooks_run by (elim exE conjE) (rule that)
  have l: "length (p_hooks p) = 2" using arg_cong [OF o, of length] by simp
  have a: "oc (p_hooks p ! 1) = HK_OUTCOME_ACTIVE" using nth_map [of 1 "p_hooks p" oc] l o by simp
  have "dependencies_active (p_hooks p) (p_hooks p ! 1)"
    by (rule commit_active_backed [OF commit_plan_wf run, where j = 1, THEN conjunct2, THEN conjunct1])
      (use a in \<open>simp_all add: commit_plan_def dependent_hook_def prepared_hook_def Let_def\<close>)
  then show ?thesis using run by blast
qed

theorem commit_state_meaning_witness:
  "\<exists>report p rt w. committed_pair = (Inr report, p, rt, w) \<and> oc (p_hooks p ! 0) = HK_OUTCOME_ACTIVE"
proof -
  obtain report p rt w where run: "committed_pair = (Inr report, p, rt, w)" and st: "p_state p = HK_PLAN_COMMITTED"
    using two_hooks_run by (elim exE conjE) (rule that)
  have "\<forall>j < length (p_hooks (commit_plan [prepared_hook 1 ''a'', dependent_hook])).
       oc (p_hooks (commit_plan [prepared_hook 1 ''a'', dependent_hook]) ! j) = HK_OUTCOME_PREPARED \<longrightarrow>
       oc (p_hooks p ! j) = HK_OUTCOME_ACTIVE"
    using commit_state_meaning [OF commit_plan_wf run, THEN conjunct2] st by (simp only: split: if_splits) simp_all
  then have "oc (p_hooks p ! 0) = HK_OUTCOME_ACTIVE"
    by (rule allE [where x = 0]) (simp add: commit_plan_def prepared_hook_def Let_def)
  then show ?thesis using run by blast
qed

end
