(* ===== verification/HK_Pending.thy ===== *)
theory HK_Pending
  imports HK_Commit_State "HOL-Library.Sublist"
begin

text \<open>
  Hooks that wait for their target (\<open>src/core/HKPlan.c\<close>): a released plan hands its pending hooks to
  the runtime, the runtime retries them when it is drained, and frees what is left when it goes.
  Freeing a hook matters to the model because it calls the engine back to release prepared state.
\<close>

section \<open>Operations\<close>

definition hk_hook_free :: "'e hk_hook \<Rightarrow> 'e hk_world \<Rightarrow> 'e hk_world" where
  "hk_hook_free hook w = (let (_, env1) = hk_hook_release_prepared hook (w_env w) in w\<lparr>w_env := env1\<rparr>)"

definition hk_runtime_adopt_pending_hook :: "'e hk_runtime \<Rightarrow> 'e hk_hook \<Rightarrow> 'e hk_world \<Rightarrow>
    (bool \<times> 'e hk_runtime) \<times> 'e hk_world" where
  "hk_runtime_adopt_pending_hook rt hook w =
     (case grow_array 4 (length (rt_pending rt)) (rt_pending_capacity rt) w of
        (None, w1) \<Rightarrow> ((False, rt), w1)
      | (Some cap, w1) \<Rightarrow> ((True, rt\<lparr>rt_pending := rt_pending rt @ [hook], rt_pending_capacity := cap\<rparr>), w1))"

definition hk_runtime_free_pending_hooks :: "'e hk_runtime \<Rightarrow> 'e hk_world \<Rightarrow> 'e hk_runtime \<times> 'e hk_world" where
  "hk_runtime_free_pending_hooks rt w =
     (rt\<lparr>rt_pending := [], rt_pending_capacity := 0\<rparr>, fold hk_hook_free (rt_pending rt) w)"

text \<open>The loop of \<open>hk_plan_release\<close>; what it leaves of the plan is nothing.\<close>

definition release_hook :: "'e hk_hook \<Rightarrow> 'e hk_runtime \<times> 'e hk_world \<Rightarrow> 'e hk_runtime \<times> 'e hk_world" where
  "release_hook hook = (\<lambda>(rt, w).
     if r_outcome (h_result hook) = HK_OUTCOME_PENDING then
       (case hk_runtime_adopt_pending_hook rt hook w of
          ((True, rt1), w1) \<Rightarrow> (rt1, w1)
        | ((False, rt1), w1) \<Rightarrow> (rt1, hk_hook_free hook w1))
     else (rt, hk_hook_free hook w))"

definition hk_plan_release :: "'e hk_plan \<Rightarrow> 'e hk_runtime \<Rightarrow> 'e hk_world \<Rightarrow> 'e hk_runtime \<times> 'e hk_world" where
  "hk_plan_release plan rt w = fold release_hook (p_hooks plan) (rt, w)"

text \<open>The first half of a retry: the result carried forward, preparation, and what its diagnosis adds.\<close>

definition retry_diag :: "hk_prepare_diag \<Rightarrow> hk_hook_result \<Rightarrow> hk_hook_result" where
  "retry_diag diag out =
     (let out1 = out\<lparr>r_observed_prepare_effects := pd_observed_effects diag\<rparr> in
      if pd_error_message diag = None \<and> pd_error_code diag = 0 then out1
      else let out2 = out1\<lparr>r_error_code := pd_error_code diag\<rparr>
      in if pd_error_message diag \<noteq> None then out2\<lparr>r_error_message := pd_error_message diag\<rparr> else out2)"

definition retry_prepare :: "'e hk_hook \<Rightarrow> 'e hk_world \<Rightarrow> (hk_prepare_result \<times> 'e hk_hook \<times> hk_hook_result) \<times> 'e hk_world" where
  "retry_prepare hook w =
     (let ((pr0, hook1, diag0), env1) = hk_hook_dispatch_prepare hook (w_env w);
          ((pr, hook2, diag), env2) = hk_hook_validate_prepare_effects hook1 pr0 diag0 env1
      in ((pr, hook2, retry_diag diag (h_result hook)), w\<lparr>w_env := env2\<rparr>))"

text \<open>The second half, between taking and giving back the ownership lock and the final verdict.\<close>

definition retry_sink :: "'e hk_runtime \<Rightarrow> 'e hk_hook \<Rightarrow> hk_ownership_state \<Rightarrow> hk_artifact_ledger \<Rightarrow> hk_artifact_sink" where
  "retry_sink rt hook ownership ledger = \<lparr>sk_ledger = ledger, sk_plan_id = r_plan_id (h_result hook),
     sk_runtime_owner_id = rt_owner_id rt, sk_request_id = h_id hook, sk_published_original = 0,
     sk_has_continuation = False, sk_continuation = raw_continuation,
     sk_require_predecessor_match = os_present ownership,
     sk_required_predecessor = os_head_replacement ownership, sk_record_failed = False, sk_observed_effects = 0\<rparr>"

definition retry_commit :: "'e hk_runtime \<Rightarrow> 'e hk_hook \<Rightarrow> hk_hook_result \<Rightarrow> hk_artifact_ledger \<Rightarrow> 'e hk_world \<Rightarrow>
    ('e hk_hook \<times> hk_hook_result \<times> hk_artifact_ledger) \<times> 'e hk_world" where
  "retry_commit rt hook out ledger w =
     (let ownership = hk_ownership_lookup_locked (h_target_key hook) (w_owners w) in
      if ownership_conflict ownership hook then
        ((hook, hk_plan_set_ownership_error HK_OUTCOME_CONFLICT
           ''existing target ownership is not chainable by this engine'' out, ledger), w)
      else let
        artifact_start = hk_artifact_ledger_count ledger;
        ((mutation, sink), w1) = hk_hook_dispatch_commit hook (retry_sink rt hook ownership ledger) w;
        (mutation1, out1) = judge_mutation ownership hook sink mutation out;
        mutation2 = (if sk_record_failed sink \<and> mutation1 = HK_MUTATION_COMPLETE then HK_MUTATION_UNKNOWN else mutation1);
        (effects_ok, out2) = hk_hook_validate_commit_effects hook sink out1;
        mutation3 = (if \<not> effects_ok then HK_MUTATION_UNKNOWN else mutation2);
        out3 = out2\<lparr>r_mutation := mutation3\<rparr>;
        out4 = (if sk_has_continuation sink then out3\<lparr>r_continuation := sk_continuation sink\<rparr> else out3);
        n = hk_artifact_ledger_count (sk_ledger sink) - artifact_start;
        out5 = out4\<lparr>r_observed_commit_effects := sk_observed_effects sink, r_artifact_count := n\<rparr>;
        out6 = (if n > 0 then out5\<lparr>r_matched_locations := of_nat n,
                  r_modified_locations := (if mutation3 = HK_MUTATION_NONE then 0 else of_nat n)\<rparr> else out5);
        out7 = out6\<lparr>r_installed_generation := rt_generation rt\<rparr>;
        ((mutation4, out8, ledger1), env1) =
          hk_hook_apply_verification hook (sk_ledger sink) artifact_start mutation3 out7 None (w_env w1);
        out9 = out8\<lparr>r_mutation := mutation4\<rparr>;
        w2 = w1\<lparr>w_env := env1\<rparr>;
        engine_id = (case owned_capabilities hook of None \<Rightarrow> None | Some caps \<Rightarrow> cap_engine_id caps);
        (recorded, w3) = (if mutation4 = HK_MUTATION_COMPLETE
          then record_owner hook engine_id (sk_published_original sink) w2 else (True, w2));
        mutation5 = (if recorded then mutation4 else HK_MUTATION_UNKNOWN);
        out10 = (if recorded then out9
                 else core_error (hk_status_code HK_STATUS_OUT_OF_MEMORY) ''could not record target ownership''
                        (out9\<lparr>r_mutation := HK_MUTATION_UNKNOWN\<rparr>))
      in if mutation5 = HK_MUTATION_COMPLETE then
           (let ((hook1, out11), w4) = publish_original sink hook (out10\<lparr>r_outcome := HK_OUTCOME_ACTIVE\<rparr>) w3
            in ((hook1, out11, ledger1), w4))
         else ((hook, out10\<lparr>r_outcome := failure_outcome mutation5\<rparr>, ledger1), w3))"

record 'e drain_run =
  dr_world :: "'e hk_world"
  dr_ledger :: hk_artifact_ledger
  dr_results :: "hk_hook_result list"
  dr_kept :: "'e hk_hook list"

definition drain_one :: "'e hk_runtime \<Rightarrow> 'e hk_hook \<Rightarrow> 'e drain_run \<Rightarrow> 'e drain_run" where
  "drain_one rt hook st =
     (let ((pr, hook1, out), w1) = retry_prepare hook (dr_world st) in
      if pr = HK_PREPARE_NOT_APPLICABLE then
        let out1 = out\<lparr>r_outcome := HK_OUTCOME_PENDING, r_retryable := True, r_currently_valid := False\<rparr>
        in st\<lparr>dr_world := w1, dr_results := dr_results st @ [out1],
              dr_kept := dr_kept st @ [hook1\<lparr>h_result := out1\<rparr>]\<rparr>
      else if pr \<noteq> HK_PREPARE_OK then
        let out1 = out\<lparr>r_outcome := HK_OUTCOME_FAILED_SAFE, r_retryable := False\<rparr>
        in st\<lparr>dr_world := hk_hook_free (hook1\<lparr>h_result := out1\<rparr>) w1, dr_results := dr_results st @ [out1]\<rparr>
      else let ((hook2, out2, ledger), w2) = retry_commit rt hook1 out (dr_ledger st) w1
        in st\<lparr>dr_world := hk_hook_free (hook2\<lparr>h_result := out2\<rparr>) w2, dr_ledger := ledger,
              dr_results := dr_results st @ [out2]\<rparr>)"

text \<open>\<open>Inr None\<close> is success without a report: nothing was queued.\<close>

definition hk_runtime_drain_pending :: "'e hk_runtime \<Rightarrow> 'e hk_world \<Rightarrow>
    (hk_status + hk_report option) \<times> 'e hk_runtime \<times> 'e hk_world" where
  "hk_runtime_drain_pending rt w =
     (if rt_pending rt = [] then (Inr None, rt, w)
      else let (ok, w1) = sys_alloc w in
      if \<not> ok then (Inl HK_STATUS_OUT_OF_MEMORY, rt, w1)
      else (case hk_artifact_ledger_create w1 of
        (None, w2) \<Rightarrow> (Inl HK_STATUS_OUT_OF_MEMORY, rt, w2)
      | (Some ledger, w2) \<Rightarrow>
         (let st = fold (drain_one rt) (rt_pending rt)
                     \<lparr>dr_world = w2, dr_ledger = ledger, dr_results = [], dr_kept = []\<rparr>;
              rt1 = rt\<lparr>rt_pending := dr_kept st\<rparr>
          in (case hk_report_create (dr_results st) (dr_world st) of
                (None, w3) \<Rightarrow> (Inl HK_STATUS_OUT_OF_MEMORY, rt1, w3)
              | (Some report, w3) \<Rightarrow>
                  (let (rt2, w4) = hk_runtime_append_artifacts rt1 (dr_ledger st) w3;
                       w5 = append_process_artifacts (dr_ledger st) w4
                   in (Inr (Some (hk_report_adopt_artifact_ledger report (dr_ledger st))), rt2, w5))))))"

section \<open>A retry is a commit\<close>

text \<open>The run of \<open>hk_plan_commit\<close> that holds one hook only.\<close>

definition one_hook :: "nat \<Rightarrow> 'e hk_hook \<Rightarrow> hk_hook_result \<Rightarrow> hk_artifact_ledger \<Rightarrow> 'e hk_world \<Rightarrow> 'e commit_run" where
  "one_hook n hook out ledger w = \<lparr>cm_hooks = [hook], cm_results = [out], cm_world = w, cm_ledger = ledger,
     cm_attempted = n, cm_active = 0, cm_failed = 0\<rparr>"

text \<open>Behind the checks of ownership and predecessor, the verdict on a retry is the rollup of a commit.\<close>

lemma retry_commit_finish:
  fixes hook :: "'e hk_hook" and w :: "'e hk_world"
  defines "own \<equiv> hk_ownership_lookup_locked (h_target_key hook) (w_owners w)"
  assumes c: "\<not> ownership_conflict own hook"
    and d: "hk_hook_dispatch_commit hook (retry_sink rt hook own ledger) w = ((m, sink), w1)"
    and j: "judge_mutation own hook sink m out = (m1, out1)"
    and r: "retry_commit rt hook out ledger w = ((hook', out', ledger'), w')"
    and f: "hk_plan_finish_commit_attempt (rt_generation rt) 0 (hk_artifact_ledger_count ledger) m1 sink None
      (Some (case owned_capabilities hook of None \<Rightarrow> None | Some caps \<Rightarrow> cap_engine_id caps)) False
      (one_hook k hook out1 (sk_ledger sink) w1) = st'"
  shows "cm_hooks st' = [hook'\<lparr>h_result := out'\<rparr>] \<and> cm_results st' = [out'] \<and> cm_world st' = w' \<and> cm_ledger st' = ledger'"
proof -
  define start where "start = hk_artifact_ledger_count ledger"
  define m2 where "m2 = (if sk_record_failed sink \<and> m1 = HK_MUTATION_COMPLETE then HK_MUTATION_UNKNOWN else m1)"
  obtain ok out2 where v: "hk_hook_validate_commit_effects hook sink out1 = (ok, out2)" by fastforce
  define m3 where "m3 = (if \<not> ok then HK_MUTATION_UNKNOWN else m2)"
  define n where "n = hk_artifact_ledger_count (sk_ledger sink) - start"
  define out3 where "out3 = out2\<lparr>r_mutation := m3\<rparr>"
  define out4 where "out4 = (if sk_has_continuation sink then out3\<lparr>r_continuation := sk_continuation sink\<rparr> else out3)"
  define out5 where "out5 = out4\<lparr>r_observed_commit_effects := sk_observed_effects sink, r_artifact_count := n\<rparr>"
  define out6 where "out6 = (if n > 0 then out5\<lparr>r_matched_locations := of_nat n,
     r_modified_locations := (if m3 = HK_MUTATION_NONE then 0 else of_nat n)\<rparr> else out5)"
  define out7 where "out7 = out6\<lparr>r_installed_generation := rt_generation rt\<rparr>"
  obtain m4 out8 ledger1 env1 where a: "hk_hook_apply_verification hook (sk_ledger sink) start
     m3 out7 None (w_env w1) = ((m4, out8, ledger1), env1)" by (metis surj_pair)
  define out9 where "out9 = out8\<lparr>r_mutation := m4\<rparr>"
  define eid where "eid = (case owned_capabilities hook of None \<Rightarrow> None | Some caps \<Rightarrow> cap_engine_id caps)"
  define w2 where "w2 = w1\<lparr>w_env := env1\<rparr>"
  obtain recorded w3 where o: "(if m4 = HK_MUTATION_COMPLETE
     then record_owner hook eid (sk_published_original sink) w2 else (True, w2)) = (recorded, w3)" by fastforce
  define m5 where "m5 = (if recorded then m4 else HK_MUTATION_UNKNOWN)"
  define out10 where "out10 = (if recorded then out9
     else core_error (hk_status_code HK_STATUS_OUT_OF_MEMORY) ''could not record target ownership''
       (out9\<lparr>r_mutation := HK_MUTATION_UNKNOWN\<rparr>))"
  obtain hook1 out11 w4 where p: "publish_original sink hook (out10\<lparr>r_outcome := HK_OUTCOME_ACTIVE\<rparr>) w3 = ((hook1, out11), w4)"
    by (metis surj_pair)
  have r': "((hook', out', ledger'), w') = (if m5 = HK_MUTATION_COMPLETE then ((hook1, out11, ledger1), w4)
     else ((hook, out10\<lparr>r_outcome := failure_outcome m5\<rparr>, ledger1), w3))"
    by (simp only: r [symmetric] retry_commit_def own_def [symmetric] Let_def c if_False d prod.case j
      m2_def [symmetric] v m3_def [symmetric] start_def [symmetric] n_def [symmetric] out3_def [symmetric]
      out4_def [symmetric] out5_def [symmetric] out6_def [symmetric] out7_def [symmetric] a out9_def [symmetric]
      w2_def [symmetric] eid_def [symmetric] o m5_def [symmetric] out10_def [symmetric] p)
  define pub where "pub = (if sk_has_continuation sink then out2\<lparr>r_continuation := sk_continuation sink\<rparr> else out2)
     \<lparr>r_mutation := m3, r_observed_commit_effects := sk_observed_effects sink, r_artifact_count := n\<rparr>"
  have same: "(if n > 0 then pub\<lparr>r_matched_locations := of_nat n,
        r_modified_locations := (if m3 = HK_MUTATION_NONE then 0 else of_nat n)\<rparr> else pub)
      \<lparr>r_installed_generation := rt_generation rt\<rparr> = out7"
    unfolding out7_def out6_def out5_def out4_def out3_def pub_def by (cases out2) simp
  define st1 where "st1 = one_hook k hook out1 (sk_ledger sink) w1"
  have st1: "cm_hooks st1 ! 0 = hook" "cm_results st1 ! 0 = out1" "cm_world st1 = w1" "cm_ledger st1 = sk_ledger sink"
    "st1\<lparr>cm_world := w3, cm_ledger := ledger1\<rparr> = one_hook k hook out1 ledger1 w3"
    by (simp_all add: st1_def one_hook_def)
  have f': "st' = (if m5 = HK_MUTATION_COMPLETE
     then cm_store 0 hook1 out11 ((one_hook k hook out1 ledger1 w3)\<lparr>cm_world := w4, cm_active := 1\<rparr>)
     else cm_fail 0 hook (out10\<lparr>r_outcome := failure_outcome m5\<rparr>) (one_hook k hook out1 ledger1 w3))"
    by (simp only: f [symmetric] hk_plan_finish_commit_attempt_def Let_def st1_def [symmetric] st1 start_def [symmetric]
      m2_def [symmetric] v prod.case m3_def [symmetric] n_def [symmetric] pub_def [symmetric] same a out9_def [symmetric]
      eid_def [symmetric] w2_def [symmetric] option.case o m5_def [symmetric] out10_def [symmetric] p if_False)
      (simp add: one_hook_def)
  show ?thesis using r' f' by (auto simp: cm_store_def one_hook_def split: if_splits)
qed

section \<open>What a retry does\<close>

text \<open>Without an engine preparation fails, so a hook that is committed has one.\<close>

lemma dispatch_prepare_matched:
  assumes "hk_hook_dispatch_prepare hook env = ((HK_PREPARE_OK, hook', diag), env')"
  shows "h_matched hook \<noteq> None"
  using assms by (cases "h_matched hook") (simp_all add: hk_hook_dispatch_prepare_def)

lemma retry_diag_fields [simp]:
  "r_request_id (retry_diag diag out) = r_request_id out" "r_plan_id (retry_diag diag out) = r_plan_id out"
  by (simp_all add: retry_diag_def Let_def)

lemma retry_prepare_spec:
  assumes "retry_prepare hook w = ((pr, hook', out), w')"
  shows "same_hook hook hook'" "r_request_id out = r_request_id (h_result hook)"
    "\<exists>env. w' = w\<lparr>w_env := env\<rparr>" "pr = HK_PREPARE_OK \<Longrightarrow> h_matched hook' \<noteq> None"
proof -
  obtain pr0 hook1 diag0 env1 where d: "hk_hook_dispatch_prepare hook (w_env w) = ((pr0, hook1, diag0), env1)"
    by (metis surj_pair)
  obtain pr1 hook2 diag env2 where v: "hk_hook_validate_prepare_effects hook1 pr0 diag0 env1 = ((pr1, hook2, diag), env2)"
    by (metis surj_pair)
  have e: "pr = pr1" "hook' = hook2" "out = retry_diag diag (h_result hook)" "w' = w\<lparr>w_env := env2\<rparr>"
    using assms d v by (simp_all add: retry_prepare_def)
  have s: "same_hook hook hook1" using dispatch_prepare_same [of hook "w_env w"] d by (simp add: prepare_step_def)
  note s2 = validate_prepare_same [OF v]
  show "same_hook hook hook'" using same_hook_trans [OF s s2(1)] e by simp
  show "r_request_id out = r_request_id (h_result hook)" "\<exists>env. w' = w\<lparr>w_env := env\<rparr>" using e by auto
  show "h_matched hook' \<noteq> None" if "pr = HK_PREPARE_OK"
    using that e s2(2) dispatch_prepare_matched [of hook "w_env w" hook1 diag0 env1] d s
    by (auto simp: same_hook_def)
qed

text \<open>What the engine answers about a waiting hook in an environment: its target is still absent, and the
  engine produced no effect outside those it declares (an undeclared effect fails the preparation).\<close>

definition still_absent :: "'e \<Rightarrow> 'e hk_hook \<Rightarrow> bool" where
  "still_absent env hook = (case hk_hook_dispatch_prepare hook env of ((pr, _, diag), _) \<Rightarrow>
     pr = HK_PREPARE_NOT_APPLICABLE \<and>
     (case h_matched hook of None \<Rightarrow> True
      | Some (vt, _) \<Rightarrow> pd_observed_effects diag AND NOT (cap_prepare_effects (vt_describe vt)) = 0))"

lemma retry_prepare_answer:
  assumes "retry_prepare hook w = ((pr, hook', out), w')"
  shows "pr = HK_PREPARE_NOT_APPLICABLE \<longleftrightarrow> still_absent (w_env w) hook"
    "pr = HK_PREPARE_NOT_APPLICABLE \<Longrightarrow> w' = w\<lparr>w_env := snd (hk_hook_dispatch_prepare hook (w_env w))\<rparr>"
    "pr = HK_PREPARE_OK \<Longrightarrow> fst (fst (hk_hook_dispatch_prepare hook (w_env w))) = HK_PREPARE_OK"
proof -
  obtain pr0 hook1 diag0 env1 where d: "hk_hook_dispatch_prepare hook (w_env w) = ((pr0, hook1, diag0), env1)"
    by (metis surj_pair)
  obtain pr1 hook2 diag env2 where v: "hk_hook_validate_prepare_effects hook1 pr0 diag0 env1 = ((pr1, hook2, diag), env2)"
    by (metis surj_pair)
  have e: "pr = pr1" "w' = w\<lparr>w_env := env2\<rparr>" using assms d v by (simp_all add: retry_prepare_def)
  have m: "h_matched hook1 = h_matched hook"
    using dispatch_prepare_same [of hook "w_env w"] d by (simp add: prepare_step_def same_hook_def)
  have "(pr1 = HK_PREPARE_NOT_APPLICABLE \<longleftrightarrow> pr0 = HK_PREPARE_NOT_APPLICABLE \<and> (case h_matched hook of None \<Rightarrow> True
      | Some (vt, _) \<Rightarrow> pd_observed_effects diag0 AND NOT (cap_prepare_effects (vt_describe vt)) = 0)) \<and>
      (pr1 = HK_PREPARE_NOT_APPLICABLE \<longrightarrow> env2 = env1)"
    using v m by (auto simp: hk_hook_validate_prepare_effects_def Let_def split: option.splits if_splits prod.splits)
  then show "pr = HK_PREPARE_NOT_APPLICABLE \<longleftrightarrow> still_absent (w_env w) hook"
    "pr = HK_PREPARE_NOT_APPLICABLE \<Longrightarrow> w' = w\<lparr>w_env := snd (hk_hook_dispatch_prepare hook (w_env w))\<rparr>"
    using e d by (simp_all add: still_absent_def)
  show "pr = HK_PREPARE_OK \<Longrightarrow> fst (fst (hk_hook_dispatch_prepare hook (w_env w))) = HK_PREPARE_OK"
    using validate_prepare_same(2) [OF v] e d by simp
qed

lemma retry_commit_spec:
  fixes hook :: "'e hk_hook" and w :: "'e hk_world"
  assumes r: "retry_commit rt hook out ledger w = ((hook', out', ledger'), w')"
  shows "settled_outcome (r_outcome out')" "grows w w'"
    "r_outcome out' = HK_OUTCOME_ACTIVE \<Longrightarrow> r_mutation out' = HK_MUTATION_COMPLETE \<and>
       os_present (hk_ownership_lookup_locked (h_target_key hook) (w_owners w')) \<and>
       os_head_replacement (hk_ownership_lookup_locked (h_target_key hook) (w_owners w')) = hs_replacement (h_spec hook)"
proof -
  define own where "own = hk_ownership_lookup_locked (h_target_key hook) (w_owners w)"
  have "settled_outcome (r_outcome out') \<and> grows w w' \<and>
    (r_outcome out' = HK_OUTCOME_ACTIVE \<longrightarrow> r_mutation out' = HK_MUTATION_COMPLETE \<and>
       os_present (hk_ownership_lookup_locked (h_target_key hook) (w_owners w')) \<and>
       os_head_replacement (hk_ownership_lookup_locked (h_target_key hook) (w_owners w')) = hs_replacement (h_spec hook))"
  proof (cases "ownership_conflict own hook")
    case True
    then show ?thesis
      using r by (auto simp: retry_commit_def own_def Let_def hk_plan_set_ownership_error_def core_error_def settled_outcome_def)
  next
    case False
    obtain m sink w1 where d: "hk_hook_dispatch_commit hook (retry_sink rt hook own ledger) w = ((m, sink), w1)"
      by (metis surj_pair)
    obtain m1 out1 where j: "judge_mutation own hook sink m out = (m1, out1)" by fastforce
    define st where "st = one_hook 0 hook out1 (sk_ledger sink) w1"
    define st' where "st' = hk_plan_finish_commit_attempt (rt_generation rt) 0 (hk_artifact_ledger_count ledger) m1 sink None
      (Some (case owned_capabilities hook of None \<Rightarrow> None | Some caps \<Rightarrow> cap_engine_id caps)) False st"
    note e = retry_commit_finish [OF False [unfolded own_def] d [unfolded own_def] j [unfolded own_def] r refl, of 0]
    have st: "cm_hooks st = [hook]" "cm_results st = [out1]" "cm_world st = w1" by (simp_all add: st_def one_hook_def)
    have e: "cm_hooks st' = [hook'\<lparr>h_result := out'\<rparr>]" "cm_results st' = [out']" "cm_world st' = w'"
      using e unfolding st'_def st_def by simp_all
    note f = finish_settles [OF st'_def [symmetric], unfolded st]
    have s: "settles 0 st st'" by (rule f(1)) simp
    have "os_present (hk_ownership_lookup_locked (h_target_key hook) (w_owners w')) \<and>
       os_head_replacement (hk_ownership_lookup_locked (h_target_key hook) (w_owners w')) = hs_replacement (h_spec hook)"
      if "r_outcome out' = HK_OUTCOME_ACTIVE"
      using f(3) e that by simp
    moreover have "grows w1 w'" "settled_outcome (r_outcome out')"
      "r_outcome out' = HK_OUTCOME_ACTIVE \<longrightarrow> r_mutation out' = HK_MUTATION_COMPLETE"
      using s e st unfolding settles_def by auto
    ultimately show ?thesis using dispatch_commit_frame(2) [OF d] by (auto intro: grows_trans)
  qed
  then show "settled_outcome (r_outcome out')" "grows w w'"
    "r_outcome out' = HK_OUTCOME_ACTIVE \<Longrightarrow> r_mutation out' = HK_MUTATION_COMPLETE \<and>
       os_present (hk_ownership_lookup_locked (h_target_key hook) (w_owners w')) \<and>
       os_head_replacement (hk_ownership_lookup_locked (h_target_key hook) (w_owners w')) = hs_replacement (h_spec hook)"
    by auto
qed

section \<open>Draining the queue\<close>

text \<open>A result is final, or its hook keeps waiting.\<close>

definition retry_result :: "'e hk_world \<Rightarrow> 'e hk_hook \<Rightarrow> hk_hook_result \<Rightarrow> bool" where
  "retry_result w h r \<longleftrightarrow> (r_outcome r = HK_OUTCOME_PENDING \<or> settled_outcome (r_outcome r)) \<and>
     (r_outcome r = HK_OUTCOME_ACTIVE \<longrightarrow> r_mutation r = HK_MUTATION_COMPLETE \<and> owned_in w h)"

definition still_waiting :: "'e hk_hook list \<Rightarrow> hk_hook_result list \<Rightarrow> 'e hk_hook list \<Rightarrow> bool" where
  "still_waiting hooks results kept_hooks \<longleftrightarrow>
     list_all2 (\<lambda>(h, r) k. static h k \<and> h_result k = r)
       (filter (\<lambda>(h, r). r_outcome r = HK_OUTCOME_PENDING) (zip hooks results)) kept_hooks"

text \<open>One retry, from the world the engine is asked in to the world it leaves: the result is \<open>PENDING\<close>
  exactly when the engine answers that the target is still absent, and then nothing but the engine's own
  environment has changed; any other refusal to prepare is final.\<close>

definition retried :: "'e hk_world \<Rightarrow> 'e hk_hook \<Rightarrow> hk_hook_result \<Rightarrow> 'e hk_world \<Rightarrow> bool" where
  "retried w h r w' \<longleftrightarrow> grows w w' \<and>
     (r_outcome r = HK_OUTCOME_PENDING \<longleftrightarrow> still_absent (w_env w) h) \<and>
     (if still_absent (w_env w) h
      then r_retryable r \<and> w' = w\<lparr>w_env := snd (hk_hook_dispatch_prepare h (w_env w))\<rparr>
      else settled_outcome (r_outcome r) \<and>
        (fst (fst (hk_hook_dispatch_prepare h (w_env w))) \<noteq> HK_PREPARE_OK \<longrightarrow>
           r_outcome r = HK_OUTCOME_FAILED_SAFE \<and> \<not> r_retryable r))"

text \<open>The retries of a queue, one after the other.\<close>

inductive retries :: "'e hk_world \<Rightarrow> 'e hk_hook list \<Rightarrow> hk_hook_result list \<Rightarrow> 'e hk_world \<Rightarrow> bool" where
  asked_none: "retries w [] [] w"
| asked_next: "retries w hs rs w1 \<Longrightarrow> retried w1 h r w2 \<Longrightarrow> retries w (hs @ [h]) (rs @ [r]) w2"

definition drained :: "'e hk_world \<Rightarrow> 'e hk_hook list \<Rightarrow> 'e drain_run \<Rightarrow> bool" where
  "drained w0 hooks st \<longleftrightarrow> list_all2 (retry_result (dr_world st)) hooks (dr_results st) \<and>
     (\<exists>w1. only_alloc w0 w1 \<and> retries w1 hooks (dr_results st) (dr_world st)) \<and>
     still_waiting hooks (dr_results st) (dr_kept st) \<and> grows w0 (dr_world st)"

lemma free_grows: "grows w (hk_hook_free h w)"
  by (simp add: hk_hook_free_def case_prod_unfold)

lemma retry_result_grows: "grows w w' \<Longrightarrow> retry_result w h r \<Longrightarrow> retry_result w' h r"
  by (auto simp: retry_result_def dest: owned_in_grows)

lemma drain_one_step:
  fixes st :: "'e drain_run"
  assumes "drain_one rt hook st = st'"
  shows "\<exists>r. dr_results st' = dr_results st @ [r] \<and> retry_result (dr_world st') hook r \<and>
     retried (dr_world st) hook r (dr_world st') \<and>
     (if r_outcome r = HK_OUTCOME_PENDING
      then \<exists>k. dr_kept st' = dr_kept st @ [k] \<and> static hook k \<and> h_result k = r else dr_kept st' = dr_kept st)"
proof -
  obtain pr hook1 out w1 where p: "retry_prepare hook (dr_world st) = ((pr, hook1, out), w1)" by (metis surj_pair)
  note ps = retry_prepare_spec [OF p] and an = retry_prepare_answer [OF p]
  have g1: "grows (dr_world st) w1" using ps(3) by auto
  have s1: "static hook (hook1\<lparr>h_result := x\<rparr>)" for x
    using same_hook_static [OF ps(1)] by (simp add: static_def)
  consider "pr = HK_PREPARE_NOT_APPLICABLE" | "pr \<noteq> HK_PREPARE_NOT_APPLICABLE" "pr \<noteq> HK_PREPARE_OK" | "pr = HK_PREPARE_OK"
    by blast
  then show ?thesis
  proof cases
    case 1
    then have "still_absent (w_env (dr_world st)) hook" "grows (dr_world st) w1"
      "w1 = (dr_world st)\<lparr>w_env := snd (hk_hook_dispatch_prepare hook (w_env (dr_world st)))\<rparr>"
      using an g1 by blast+
    then show ?thesis using assms p 1 s1 by (auto simp: drain_one_def Let_def retry_result_def retried_def)
  next
    case 2
    have g2: "grows (dr_world st) (hk_hook_free h w1)" for h by (rule grows_trans [OF g1 free_grows])
    define out1 where "out1 = out\<lparr>r_outcome := HK_OUTCOME_FAILED_SAFE, r_retryable := False\<rparr>"
    have o: "r_outcome out1 = HK_OUTCOME_FAILED_SAFE" "\<not> r_retryable out1" by (simp_all add: out1_def)
    have st': "st' = st\<lparr>dr_world := hk_hook_free (hook1\<lparr>h_result := out1\<rparr>) w1, dr_results := dr_results st @ [out1]\<rparr>"
      using assms p 2 by (simp add: drain_one_def Let_def out1_def)
    show ?thesis
      unfolding st' using o 2 g2 an(1)
      by (intro exI [of _ out1]) (simp add: retry_result_def settled_outcome_def retried_def)
  next
    case 3
    obtain hook2 out2 ledger w2 where c: "retry_commit rt hook1 out (dr_ledger st) w1 = ((hook2, out2, ledger), w2)"
      by (metis surj_pair)
    note cs = retry_commit_spec [OF c]
    have g2: "grows (dr_world st) (hk_hook_free h w2)" for h
      by (rule grows_trans [OF g1 grows_trans [OF cs(2) free_grows]])
    have "r_outcome out2 = HK_OUTCOME_ACTIVE \<Longrightarrow> owned_in (hk_hook_free h w2) hook" for h
      using cs(3) ps(1) by (intro owned_in_grows [OF free_grows]) (auto simp: owned_in_def same_hook_def)
    then have "retry_result (hk_hook_free h w2) hook out2" for h
      using cs(1,3) by (auto simp: retry_result_def)
    moreover have "r_outcome out2 \<noteq> HK_OUTCOME_PENDING" using cs(1) by (auto simp: settled_outcome_def)
    moreover have "\<not> still_absent (w_env (dr_world st)) hook" using an(1) 3 by auto
    then have "retried (dr_world st) hook out2 (hk_hook_free h w2)" for h
      using cs(1) an(3) [OF 3] g2 calculation(2) by (simp add: retried_def)
    ultimately show ?thesis using assms p c 3 by (auto simp: drain_one_def Let_def)
  qed
qed

lemma drained_fold:
  assumes "drained w0 [] st"
  shows "drained w0 hooks (fold (drain_one rt) hooks st)"
proof (induction hooks rule: rev_induct)
  case Nil
  then show ?case using assms by simp
next
  case (snoc h hs)
  define st1 where "st1 = fold (drain_one rt) hs st"
  obtain r where r: "dr_results (drain_one rt h st1) = dr_results st1 @ [r]"
    "retry_result (dr_world (drain_one rt h st1)) h r" "retried (dr_world st1) h r (dr_world (drain_one rt h st1))"
    "if r_outcome r = HK_OUTCOME_PENDING
      then \<exists>k. dr_kept (drain_one rt h st1) = dr_kept st1 @ [k] \<and> static h k \<and> h_result k = r
      else dr_kept (drain_one rt h st1) = dr_kept st1"
    using drain_one_step [OF refl, of rt h st1] by blast
  have ih: "list_all2 (retry_result (dr_world st1)) hs (dr_results st1)" "still_waiting hs (dr_results st1) (dr_kept st1)"
    "grows w0 (dr_world st1)" "\<exists>w1. only_alloc w0 w1 \<and> retries w1 hs (dr_results st1) (dr_world st1)"
    using snoc.IH unfolding st1_def [symmetric] drained_def by auto
  have g: "grows (dr_world st1) (dr_world (drain_one rt h st1))" using r(3) by (simp add: retried_def)
  have "list_all2 (retry_result (dr_world (drain_one rt h st1))) hs (dr_results st1)"
    by (rule list_all2_mono [OF ih(1)]) (rule retry_result_grows [OF g])
  moreover have "still_waiting (hs @ [h]) (dr_results st1 @ [r]) (dr_kept (drain_one rt h st1))"
    using ih(2) r(4) list_all2_lengthD [OF ih(1)]
    by (auto simp: still_waiting_def list_all2_appendI split: if_splits)
  moreover have "\<exists>w1. only_alloc w0 w1 \<and> retries w1 (hs @ [h]) (dr_results st1 @ [r]) (dr_world (drain_one rt h st1))"
    using ih(4) asked_next [OF _ r(3)] by blast
  ultimately show ?case
    using r(1,2) grows_trans [OF ih(3) g] unfolding drained_def st1_def [symmetric]
    by (simp add: list_all2_appendI st1_def [symmetric])
qed

lemma drain_cases:
  fixes w :: "'e hk_world"
  assumes run: "hk_runtime_drain_pending rt w = (res, rt', w')" and ne: "rt_pending rt \<noteq> []"
  obtains (early) "res = Inl HK_STATUS_OUT_OF_MEMORY" "rt_pending rt' = rt_pending rt" "\<not> no_oom w"
    | (ran) st where "drained w (rt_pending rt) st" "rt_pending rt' = dr_kept st" "grows (dr_world st) w'"
      "\<exists>w2 l. st = fold (drain_one rt) (rt_pending rt) \<lparr>dr_world = w2, dr_ledger = l, dr_results = [], dr_kept = []\<rparr>"
      "res = Inl HK_STATUS_OUT_OF_MEMORY \<or> (\<exists>report. res = Inr (Some report) \<and> rp_results report = dr_results st)"
proof -
  obtain ok w1 where a: "sys_alloc w = (ok, w1)" by fastforce
  obtain l w2 where c: "hk_artifact_ledger_create w1 = (l, w2)" by fastforce
  have m: "only_alloc w w1" "only_alloc w1 w2" "no_oom w \<Longrightarrow> ok \<and> no_oom w1" "no_oom w1 \<Longrightarrow> l \<noteq> None"
    using sys_alloc_frame [OF a] sys_alloc_no_oom [OF _ a] c
    by (auto simp: hk_artifact_ledger_create_def Let_def split: if_splits prod.splits dest: sys_alloc_frame sys_alloc_no_oom)
  show thesis
  proof (cases "ok \<and> l \<noteq> None")
    case False
    then show thesis
      using run ne a c m(3,4) by (intro early) (auto simp: hk_runtime_drain_pending_def Let_def split: if_splits option.splits)
  next
    case True
    then obtain ledger where l: "l = Some ledger" by blast
    define st0 :: "'e drain_run" where "st0 = \<lparr>dr_world = w2, dr_ledger = ledger, dr_results = [], dr_kept = []\<rparr>"
    define st where "st = fold (drain_one rt) (rt_pending rt) st0"
    define rt1 where "rt1 = rt\<lparr>rt_pending := dr_kept st\<rparr>"
    have "grows w w2" "only_alloc w w2" using m(1,2) by (blast intro: grows_trans grows_alloc only_alloc_trans)+
    then have d: "drained w (rt_pending rt) st"
      unfolding st_def by (intro drained_fold) (auto simp: drained_def still_waiting_def st0_def intro: asked_none)
    obtain r w3 where rc: "hk_report_create (dr_results st) (dr_world st) = (r, w3)" by fastforce
    note rf = hk_report_create_frame [OF rc]
    obtain rt2 w4 where ap: "hk_runtime_append_artifacts rt1 (dr_ledger st) w3 = (rt2, w4)" by fastforce
    have rt2: "rt_pending rt2 = dr_kept st"
      using ap by (auto simp: hk_runtime_append_artifacts_def rt1_def Let_def split: prod.splits)
    have e: "(res, rt', w') = (case r of None \<Rightarrow> (Inl HK_STATUS_OUT_OF_MEMORY, rt1, w3)
       | Some report \<Rightarrow> (Inr (Some (hk_report_adopt_artifact_ledger report (dr_ledger st))), rt2,
           append_process_artifacts (dr_ledger st) w4))"
      using run ne a c True l rc ap
      by (simp add: hk_runtime_drain_pending_def Let_def st0_def [symmetric] st_def [symmetric] rt1_def [symmetric]
          split: option.splits)
    have g3: "grows (dr_world st) w3" by (rule grows_more [OF rf(1)])
    show thesis
    proof (rule ran [OF d])
      show "rt_pending rt' = dr_kept st" using e rt2 by (auto simp: rt1_def split: option.splits)
      show "grows (dr_world st) w'"
        using e g3 append_artifacts_grows [OF ap] process_append_grows [of w4 "dr_ledger st"]
        by (auto split: option.splits intro: grows_trans)
      show "\<exists>w2 l. st = fold (drain_one rt) (rt_pending rt) \<lparr>dr_world = w2, dr_ledger = l, dr_results = [], dr_kept = []\<rparr>"
        unfolding st_def st0_def by blast
      show "res = Inl HK_STATUS_OUT_OF_MEMORY \<or> (\<exists>report. res = Inr (Some report) \<and> rp_results report = dr_results st)"
        using e rf(2) by (auto simp: hk_report_adopt_artifact_ledger_def split: option.splits)
    qed
  qed
qed

section \<open>Releasing a plan\<close>

lemma free_heap [simp]: "sys_heap (hk_hook_free h w) = sys_heap w"
  by (simp add: hk_hook_free_def case_prod_unfold)

lemma adopt_spec:
  assumes "hk_runtime_adopt_pending_hook rt hook w = ((ok, rt'), w')"
  shows "rt_pending rt' = rt_pending rt @ (if ok then [hook] else [])" "grows w w'" "no_oom w \<Longrightarrow> ok \<and> no_oom w'"
proof -
  obtain r w1 where g: "grow_array 4 (length (rt_pending rt)) (rt_pending_capacity rt) w = (r, w1)" by fastforce
  show "rt_pending rt' = rt_pending rt @ (if ok then [hook] else [])" "grows w w'" "no_oom w \<Longrightarrow> ok \<and> no_oom w'"
    using assms g grow_array_frame [OF g] grow_array_no_oom [OF _ g]
    by (auto simp: hk_runtime_adopt_pending_hook_def intro: grows_alloc split: option.splits)
qed

lemma release_fold:
  assumes "fold release_hook hooks (rt, w) = (rt', w')"
  shows "\<exists>xs. rt_pending rt' = rt_pending rt @ xs \<and> subseq xs (filter (\<lambda>h. oc h = HK_OUTCOME_PENDING) hooks) \<and>
    (no_oom w \<longrightarrow> xs = filter (\<lambda>h. oc h = HK_OUTCOME_PENDING) hooks) \<and> grows w w'"
  using assms
proof (induction hooks arbitrary: rt w)
  case Nil
  then show ?case by simp
next
  case (Cons h hs)
  obtain rt1 w1 where s: "release_hook h (rt, w) = (rt1, w1)" by fastforce
  have n: "fold release_hook hs (rt1, w1) = (rt', w')" using Cons.prems s by simp
  obtain ok rt2 w2 where a: "hk_runtime_adopt_pending_hook rt h w = ((ok, rt2), w2)" by (metis surj_pair)
  note as = adopt_spec [OF a]
  define x where "x = (if oc h = HK_OUTCOME_PENDING \<and> ok then [h] else [])"
  have st: "rt_pending rt1 = rt_pending rt @ x \<and> grows w w1 \<and> (no_oom w \<longrightarrow> no_oom w1)"
  proof (cases "oc h = HK_OUTCOME_PENDING \<and> ok")
    case True
    then show ?thesis using s a as by (simp add: release_hook_def x_def)
  next
    case False
    then have "rt_pending rt1 = rt_pending rt \<and> (w1 = hk_hook_free h w \<or> w1 = hk_hook_free h w2)"
      using s a as(1) by (cases ok) (auto simp: release_hook_def split: if_splits)
    moreover have "grows w (hk_hook_free h w2)" by (rule grows_trans [OF as(2) free_grows])
    ultimately show ?thesis using False as(3) free_grows [of w h] by (auto simp: x_def)
  qed
  have x: "x = (if oc h = HK_OUTCOME_PENDING then [h] else []) \<or> x = [] \<and> \<not> no_oom w"
    using as(3) by (auto simp: x_def)
  obtain xs where xs: "rt_pending rt' = rt_pending rt1 @ xs" "subseq xs (filter (\<lambda>h. oc h = HK_OUTCOME_PENDING) hs)"
    "no_oom w1 \<longrightarrow> xs = filter (\<lambda>h. oc h = HK_OUTCOME_PENDING) hs" "grows w1 w'"
    using Cons.IH [OF n] by blast
  have "grows w w'" using st xs(4) by (blast intro: grows_trans)
  then show ?case using st xs(1-3) x by (intro exI [of _ "x @ xs"]) auto
qed

lemma plan_release_adopts:
  assumes "hk_plan_release plan rt w = (rt', w')"
  shows "\<exists>xs. rt_pending rt' = rt_pending rt @ xs \<and>
    subseq xs (filter (\<lambda>h. oc h = HK_OUTCOME_PENDING) (p_hooks plan)) \<and>
    (no_oom w \<longrightarrow> xs = filter (\<lambda>h. oc h = HK_OUTCOME_PENDING) (p_hooks plan)) \<and> grows w w'"
  by (rule release_fold [OF assms [unfolded hk_plan_release_def]])

section \<open>Properties\<close>


text \<open>C24. Progress: when memory is available and no engine of a queued hook answers that the target is still
  absent, one drain empties the queue, and in the report it returns every hook of the queue has a result
  with a final outcome.\<close>

theorem drain_empties_queue:
  fixes rt :: "'e hk_runtime"
  assumes "hk_runtime_drain_pending rt w = (res, rt', w')" "no_oom w"
    and "\<forall>hook \<in> set (rt_pending rt). \<forall>env. fst (fst (hk_hook_dispatch_prepare hook env)) \<noteq> HK_PREPARE_NOT_APPLICABLE"
  shows "rt_pending rt' = [] \<and> (\<forall>report. res = Inr (Some report) \<longrightarrow>
    length (rp_results report) = length (rt_pending rt) \<and>
    (\<forall>r \<in> set (rp_results report). settled_outcome (r_outcome r)))"
proof (cases "rt_pending rt = []")
  case True
  then show ?thesis using assms(1) by (auto simp: hk_runtime_drain_pending_def)
next
  case False
  have answered: "\<not> still_absent env h" if "h \<in> set (rt_pending rt)" for env h
    using assms(3) that by (auto simp: still_absent_def split: prod.splits) (metis fst_conv)
  show ?thesis
  proof (rule drain_cases [OF assms(1) False])
    fix st :: "'e drain_run"
    assume st: "drained w (rt_pending rt) st" "rt_pending rt' = dr_kept st"
      and res: "res = Inl HK_STATUS_OUT_OF_MEMORY \<or> (\<exists>report. res = Inr (Some report) \<and> rp_results report = dr_results st)"
    have "\<forall>r \<in> set rs. settled_outcome (r_outcome r)" if "retries w1 hs rs w2" "set hs \<subseteq> set (rt_pending rt)" for w1 hs rs w2
      using that by (induction rule: retries.induct) (auto simp: retried_def answered)
    then have fin: "\<forall>r \<in> set (dr_results st). settled_outcome (r_outcome r)" using st(1) by (auto simp: drained_def)
    then have "filter (\<lambda>(h, r). r_outcome r = HK_OUTCOME_PENDING) (zip (rt_pending rt) (dr_results st)) = []"
      unfolding filter_empty_conv by (force simp: settled_outcome_def dest!: set_zip_rightD)
    then have "dr_kept st = []" using st(1) by (simp add: drained_def still_waiting_def)
    moreover have "length (dr_results st) = length (rt_pending rt)"
      using st(1) by (auto simp: drained_def dest: list_all2_lengthD)
    ultimately show ?thesis using st(2) res fin by auto
  qed (use assms(2) in simp)
qed

text \<open>A retry is a commit: for a hook with an engine, without an inspected continuation and without
  dependencies, and an image generation that is current, what the drain does after preparation is
  what \<open>hk_plan_commit\<close> does with a prepared hook: same result, same hook, same ledger, same process.\<close>

lemma retry_is_commit:
  fixes hook :: "'e hk_hook"
  assumes r: "retry_commit rt hook out ledger w = ((hook', out', ledger'), w')"
    and h: "r_image_generation (h_result hook) = rt_generation rt" "commit_after_refs (h_spec hook) = []"
      "h_prepared_continuation hook = None"
    and st': "commit_single (rt_generation rt) (r_plan_id (h_result hook)) (rt_owner_id rt) 0
      (one_hook 0 hook out ledger w) = st'"
  shows "cm_hooks st' = [hook'\<lparr>h_result := out'\<rparr>] \<and> cm_results st' = [out'] \<and> cm_world st' = w' \<and> cm_ledger st' = ledger'"
proof -
  define own where "own = hk_ownership_lookup_locked (h_target_key hook) (w_owners w)"
  have sink: "commit_sink (r_plan_id (h_result hook)) (rt_owner_id rt) hook own ledger = retry_sink rt hook own ledger"
    using h(3) by (simp add: commit_sink_def retry_sink_def)
  show ?thesis
  proof (cases "ownership_conflict own hook")
    case True
    then show ?thesis
      using r st' h by (auto simp: retry_commit_def own_def commit_single_def one_hook_def Let_def dependencies_active_def cm_store_def)
  next
    case False
    obtain m sink w1 where d: "hk_hook_dispatch_commit hook (retry_sink rt hook own ledger) w = ((m, sink), w1)"
      by (metis surj_pair)
    obtain m1 out1 where j: "judge_mutation own hook sink m out = (m1, out1)" by fastforce
    have run: "st' = hk_plan_finish_commit_attempt (rt_generation rt) 0 (hk_artifact_ledger_count ledger) m1 sink None
      (Some (case owned_capabilities hook of None \<Rightarrow> None | Some caps \<Rightarrow> cap_engine_id caps)) False
      (one_hook 1 hook out1 (sk_ledger sink) w1)"
      using st' h False d j sink by (simp add: commit_single_def one_hook_def dependencies_active_def own_def [symmetric])
    show ?thesis
      unfolding run by (rule retry_commit_finish [OF False [unfolded own_def] d [unfolded own_def] j [unfolded own_def] r refl])
  qed
qed

section \<open>Concrete runs\<close>

text \<open>A queue of a hook whose target is still absent and one whose engine is ready.\<close>

definition queued :: "nat hk_hook \<Rightarrow> nat hk_hook" where
  "queued h = h\<lparr>h_result := (h_result h)\<lparr>r_outcome := HK_OUTCOME_PENDING\<rparr>\<rparr>"


definition queue_runtime :: "nat hk_hook list \<Rightarrow> nat hk_runtime" where
  "queue_runtime hooks = sample_runtime\<lparr>rt_pending := hooks, rt_pending_capacity := 4\<rparr>"



theorem drain_empties_queue_witness:
  "rt_pending (fst (snd (hk_runtime_drain_pending (queue_runtime [queued (prepared_hook 1 ''a'')]) gated_world))) = []"
  by (rule drain_empties_queue [OF surjective_pairing [THEN trans, OF arg_cong [where f = "Pair _", OF surjective_pairing]],
        THEN conjunct1])
    (auto simp: queue_runtime_def queued_def prepared_hook_def active_vtable_def sample_plan_defs
      hk_hook_dispatch_prepare_def hk_hook_inspect_prepared_continuation_def inspect_callback_def
      hk_engine_vtable_has_field_def Let_def)

end
