(* ===== verification/HK_Lifecycle.thy ===== *)
theory HK_Lifecycle
  imports HK_Pending
begin

text \<open>
  The life of a plan as a state machine: the calls of the plan interface (\<open>src/core/HKPlan.c\<close>) in any
  order and number, whatever they return, interleaved with whatever other plans, the drain and the
  loader do to the process and the runtime. The invariant is proved by rule induction.
\<close>

section \<open>The machine\<close>

type_synonym 'e plan_state = "'e hk_plan \<times> 'e hk_runtime \<times> 'e hk_world"

text \<open>\<open>elsewhere\<close>: owned targets stay owned, and numbers of heap objects are not given out twice. The
  runtime may be replaced by any other: images are loaded, engines registered.\<close>

inductive plan_call :: "'e plan_state \<Rightarrow> 'e plan_state \<Rightarrow> bool" where
  define_domain: "hk_plan_define_domain plan spec w = (r, plan', w') \<Longrightarrow> plan_call (plan, rt, w) (plan', rt, w')"
| add_hook: "target_ok (hs_target spec') \<Longrightarrow> hk_plan_add_hook plan spec' w = (r', plan', w') \<Longrightarrow>
    plan_call (plan, rt, w) (plan', rt, w')"
| analyze: "hk_plan_analyze plan rt w = (r'', plan', w') \<Longrightarrow> plan_call (plan, rt, w) (plan', rt, w')"
| prepare: "hk_plan_prepare plan rt w = (r'', plan', w') \<Longrightarrow> plan_call (plan, rt, w) (plan', rt, w')"
| commit: "hk_plan_commit plan rt w = (r'', plan', rt', w') \<Longrightarrow> plan_call (plan, rt, w) (plan', rt', w')"
| elsewhere: "grows w w' \<Longrightarrow> w_next_ref w \<le> w_next_ref w' \<Longrightarrow> plan_call (plan, rt, w) (plan, rt', w')"

inductive_cases plan_callE: "plan_call (plan, rt, w) s"

inductive plan_reachable :: "'e plan_state \<Rightarrow> bool" where
  created: "hk_plan_create config w = (Inr plan, w') \<Longrightarrow> plan_reachable (plan, rt, w')"
| called: "plan_reachable s \<Longrightarrow> plan_call s s' \<Longrightarrow> plan_reachable s'"

fun state_rank :: "hk_plan_state \<Rightarrow> nat" where
  "state_rank HK_PLAN_DRAFT = 0"
| "state_rank HK_PLAN_ANALYZED = 1"
| "state_rank HK_PLAN_PREPARED = 2"
| "state_rank HK_PLAN_PARTIAL = 3"
| "state_rank _ = 4"

section \<open>The invariant\<close>

definition untouched :: "'e hk_hook \<Rightarrow> bool" where
  "untouched h \<longleftrightarrow> r_mutation (h_result h) = HK_MUTATION_NONE \<and> oc h \<noteq> HK_OUTCOME_ACTIVE"

definition backed :: "'e hk_world \<Rightarrow> 'e hk_hook list \<Rightarrow> 'e hk_hook \<Rightarrow> bool" where
  "backed w hooks h \<longleftrightarrow> r_mutation (h_result h) = HK_MUTATION_COMPLETE \<and> dependencies_active hooks h \<and> owned_in w h"

text \<open>A hook that analysis gave an engine keeps it: \<open>ANALYZED\<close>, \<open>PREPARED\<close> and \<open>ACTIVE\<close> hooks have one.\<close>

definition routed :: "'e hk_hook \<Rightarrow> bool" where
  "routed h \<longleftrightarrow> (oc h \<in> {HK_OUTCOME_ANALYZED, HK_OUTCOME_PREPARED, HK_OUTCOME_ACTIVE} \<longrightarrow> h_matched h \<noteq> None)"

fun lifecycle_inv :: "'e plan_state \<Rightarrow> bool" where
  "lifecycle_inv (plan, rt, w) \<longleftrightarrow>
     (\<exists>w0. plan_wf w0 plan) \<and> (p_state plan = HK_PLAN_DRAFT \<longrightarrow> plan_wf w plan) \<and>
     (p_state plan \<in> {HK_PLAN_DRAFT, HK_PLAN_ANALYZED} \<longrightarrow> (\<forall>h \<in> set (p_hooks plan). untouched h)) \<and>
     (\<forall>h \<in> set (p_hooks plan). oc h = HK_OUTCOME_PREPARED \<longrightarrow> r_mutation (h_result h) = HK_MUTATION_NONE) \<and>
     (\<forall>h \<in> set (p_hooks plan). routed h) \<and>
     (\<forall>h \<in> set (p_hooks plan). oc h = HK_OUTCOME_ACTIVE \<longrightarrow> backed w (p_hooks plan) h)"

text \<open>Plan well-formedness depends on what preparation and commit leave alone.\<close>

definition same_shape :: "'e hk_plan \<Rightarrow> 'e hk_plan \<Rightarrow> bool" where
  "same_shape plan plan' \<longleftrightarrow> p_domains plan' = p_domains plan \<and> length (p_hooks plan') = length (p_hooks plan) \<and>
     (\<forall>j < length (p_hooks plan). h_ref (p_hooks plan' ! j) = h_ref (p_hooks plan ! j) \<and>
        h_spec (p_hooks plan' ! j) = h_spec (p_hooks plan ! j) \<and>
        h_target_key (p_hooks plan' ! j) = h_target_key (p_hooks plan ! j))"

lemma same_shape_maps:
  assumes "same_shape plan plan'"
  shows "map (\<lambda>h. F (h_ref h) (h_spec h) (h_target_key h)) (p_hooks plan') =
    map (\<lambda>h. F (h_ref h) (h_spec h) (h_target_key h)) (p_hooks plan)"
  using assms by (intro nth_equalityI) (auto simp: same_shape_def)

lemma plan_wf_shape:
  assumes s: "same_shape plan plan'" and wf: "plan_wf w plan"
  shows "plan_wf w plan'"
proof -
  note m = same_shape_maps [OF s]
  have e: "map h_ref (p_hooks plan') = map h_ref (p_hooks plan)" using m [of "\<lambda>r s k. r"] by simp
  have pairs: "(\<lambda>h. (h_ref h, h_spec h)) ` set (p_hooks plan') = (\<lambda>h. (h_ref h, h_spec h)) ` set (p_hooks plan)"
    using arg_cong [OF m [of "\<lambda>r s k. (r, s)"], of set] by simp
  have each: "(\<forall>h \<in> set (p_hooks plan'). P (h_ref h) (h_spec h)) \<longleftrightarrow> (\<forall>h \<in> set (p_hooks plan). P (h_ref h) (h_spec h))" for P
  proof -
    have "(\<forall>x \<in> (\<lambda>h. (h_ref h, h_spec h)) ` set (p_hooks plan'). P (fst x) (snd x)) \<longleftrightarrow>
        (\<forall>x \<in> (\<lambda>h. (h_ref h, h_spec h)) ` set (p_hooks plan). P (fst x) (snd x))" by (simp only: pairs)
    then show ?thesis by simp
  qed
  have tk: "h_ref ` set (take i (p_hooks plan')) = h_ref ` set (take i (p_hooks plan))" for i
    using arg_cong [OF e, of "\<lambda>xs. set (take i xs)"] by (simp add: take_map)
  have "\<forall>h \<in> set (p_hooks plan'). h_ref h < w_next_ref w \<and> hs_stable_hook_id (h_spec h) \<noteq> None \<and>
        (\<forall>d. hs_domain (h_spec h) = Some d \<longrightarrow> d \<in> d_ref ` set (p_domains plan))"
    unfolding each [of "\<lambda>r s. r < w_next_ref w \<and> hs_stable_hook_id s \<noteq> None \<and>
        (\<forall>d. hs_domain s = Some d \<longrightarrow> d \<in> d_ref ` set (p_domains plan))"]
    using wf by (simp add: plan_wf_def)
  moreover have "\<forall>i < length (p_hooks plan'). set (commit_after_refs (h_spec (p_hooks plan' ! i))) \<subseteq>
        Some ` h_ref ` set (take i (p_hooks plan'))"
    using s wf unfolding tk by (simp add: same_shape_def plan_wf_def)
  moreover have "distinct (map h_ref (p_hooks plan'))" "distinct (map h_target_key (p_hooks plan'))"
    "distinct (map (\<lambda>h. hs_stable_hook_id (h_spec h)) (p_hooks plan'))"
    using wf m [of "\<lambda>r s k. k"] m [of "\<lambda>r s k. hs_stable_hook_id s"] e by (simp_all add: plan_wf_def)
  ultimately show ?thesis using wf s by (simp add: plan_wf_def same_shape_def)
qed

lemma static_shape:
  assumes "list_all2 static (p_hooks plan) (p_hooks plan')" "p_domains plan' = p_domains plan"
  shows "same_shape plan plan'"
  using assms by (auto simp: same_shape_def list_all2_conv_all_nth static_def)

section \<open>The invariant is kept\<close>

lemma backed_grows: "grows w w' \<Longrightarrow> backed w hooks h \<Longrightarrow> backed w' hooks h"
  by (auto simp: backed_def intro: owned_in_grows)

lemma untouched_inv:
  assumes "plan_wf w0 plan" "p_state plan = HK_PLAN_DRAFT \<longrightarrow> plan_wf w plan"
    "\<forall>h \<in> set (p_hooks plan). untouched h \<and> routed h"
  shows "lifecycle_inv (plan, rt, w)"
  using assms by (auto simp: untouched_def)

lemma inv_elsewhere:
  assumes "lifecycle_inv (plan, rt, w)" "grows w w'" "w_next_ref w \<le> w_next_ref w'"
  shows "lifecycle_inv (plan, rt', w')"
proof -
  have "plan_wf w plan \<Longrightarrow> plan_wf w' plan" using assms(3) by (auto simp: plan_wf_def)
  then show ?thesis using assms(1,2) backed_grows by fastforce
qed

lemma inv_define:
  assumes "lifecycle_inv (plan, rt, w)" "hk_plan_define_domain plan spec w = (r, plan', w')"
  shows "lifecycle_inv (plan', rt, w')"
  using assms(2)
proof (cases rule: define_domain_cases)
  case (refused e)
  have "lifecycle_inv (plan, rt, w')"
    by (rule inv_elsewhere [OF assms(1)]) (use grows_more [OF refused(3)] world_more(6) [OF refused(3)] in auto)
  then show ?thesis using refused by simp
next
  case (added did capacity)
  have wf: "plan_wf w' plan'" by (rule define_domain_wf [OF _ assms(2)]) (use assms(1) added(2) in simp)
  show ?thesis by (rule untouched_inv [OF wf]) (use wf assms(1) added(2,5) in auto)
qed

lemma inv_add:
  assumes inv: "lifecycle_inv (plan, rt, w)" and tok: "target_ok (hs_target spec)"
    and run: "hk_plan_add_hook plan spec w = (r, plan', w')"
  shows "lifecycle_inv (plan', rt, w')"
  using tok run
proof (cases rule: add_hook_cases)
  case (refused e)
  have "lifecycle_inv (plan, rt, w')"
    by (rule inv_elsewhere [OF inv]) (use grows_more [OF refused(3)] world_more(6) [OF refused(3)] in auto)
  then show ?thesis using refused by simp
next
  case (added hid key capacity w1 w2)
  have d: "p_state plan = HK_PLAN_DRAFT" by (rule add_hook_checks_None(1) [OF added(1)])
  have wf: "plan_wf w' plan'" by (rule add_hook_wf [OF _ tok run]) (use inv d in simp)
  show ?thesis
    by (rule untouched_inv [OF wf]) (use wf inv d added(3) in \<open>auto simp: untouched_def routed_def new_hook_def\<close>)
qed

lemma inv_analyze:
  assumes inv: "lifecycle_inv (plan, rt, w)" and run: "hk_plan_analyze plan rt w = (r, plan', w')"
  shows "lifecycle_inv (plan', rt, w')"
proof -
  note c = plan_analyze_cases [OF run]
  let ?hooks = "map (analyze_hook (p_id plan) rt (w_env w)) (p_hooks plan)"
  have same: "lifecycle_inv (plan, rt, w')"
    by (rule inv_elsewhere [OF inv]) (use grows_more [OF c(1)] world_more(6) [OF c(1)] in auto)
  have un: "untouched (analyze_hook p rt env h)" for p env and h :: "'a hk_hook"
    using analyze_one_fields(3,6) [of p rt env h] unfolding untouched_def analyze_hook_result
    by (metis hk_outcome.distinct(1) hk_outcome.distinct insertE prod.collapse singletonD)
  have ro: "routed (analyze_hook p rt env h)" for p env and h :: "'a hk_hook"
    using analyze_one_fields(2,6) [of p rt env h, OF prod.collapse [symmetric]]
    by (auto simp: routed_def analyze_hook_result split: if_splits)
  show ?thesis
  proof (cases "plan' = plan")
    case True
    then show ?thesis using same by simp
  next
    case False
    have d: "p_state plan = HK_PLAN_DRAFT" using run False by (auto simp: hk_plan_analyze_def split: if_splits)
    have wf: "plan_wf w' plan" using inv d plan_wf_more [OF c(1)] by simp
    have s: "same_shape plan plan'" "p_hooks plan' = ?hooks"
      using c(2) False by (auto simp: same_shape_def analyze_hook_fields split: sum.splits)
    note wf' = plan_wf_shape [OF s(1) wf]
    show ?thesis by (rule untouched_inv [OF wf']) (use wf' s(2) un ro in auto)
  qed
qed

lemma routed_static: "static h h' \<Longrightarrow> oc h \<in> {HK_OUTCOME_ANALYZED, HK_OUTCOME_PREPARED, HK_OUTCOME_ACTIVE} \<Longrightarrow>
    routed h \<Longrightarrow> routed h'"
  by (auto simp: routed_def static_def)

lemma moves_routed:
  assumes "prepare_moves domains gate_ok st st'" "\<forall>h \<in> set (pr_hooks st). routed h"
  shows "\<forall>h \<in> set (pr_hooks st'). routed h"
  using assms
proof (induction rule: rtranclp_induct)
  case (step st1 st2)
  have one: "\<forall>h \<in> set (pr_hooks b). routed h"
    if a: "advance i x a b" "i < length (pr_hooks a)" "oc (pr_hooks a ! i) = HK_OUTCOME_ANALYZED"
      "\<forall>h \<in> set (pr_hooks a). routed h" for i x and a b :: "'a prepare_run"
  proof -
    obtain h' where h': "pr_hooks b = (pr_hooks a)[i := h']" "static (pr_hooks a ! i) h'"
      using a(1) by (auto simp: advance_def)
    have "routed h'" by (rule routed_static [OF h'(2)]) (use a in simp_all)
    then show ?thesis using a(4) h'(1) set_update_subset_insert [of "pr_hooks a" i h'] by auto
  qed
  have ih: "\<forall>h \<in> set (pr_hooks st1). routed h" using step(3,4) .
  show ?case
    using step(2)
  proof (cases rule: prepare_move.cases)
    case quiet_move
    have "routed (pr_hooks st2 ! j)" if "j < length (pr_hooks st2)" for j
    proof -
      have j: "j < length (pr_hooks st1)" "same_hook (pr_hooks st1 ! j) (pr_hooks st2 ! j)"
        using quiet_move(1) that by (auto simp: list_all2_conv_all_nth)
      then show ?thesis using bspec [OF ih nth_mem [OF j(1)]] by (simp add: same_hook_def routed_def)
    qed
    then show ?thesis by (simp add: all_set_conv_all_nth)
  next
    case (advance_move i x)
    then show ?thesis using one ih by blast
  next
    case (collapse_move i x st1' k st2' n)
    have "\<forall>h \<in> set (pr_hooks st1'). routed h" using one [OF collapse_move(4,2,3) ih] .
    moreover have "list_all2 (member_released (d_ref (domains ! k))) (pr_hooks st1') (pr_hooks st2')"
      using collapse_move(7) by (simp add: released_def)
    ultimately have "routed (pr_hooks st2' ! j)" if "j < length (pr_hooks st2')" for j
      using that by (auto simp: list_all2_conv_all_nth member_released_def routed_def static_def split: if_splits)
    then show ?thesis unfolding collapse_move(1) by (simp add: all_set_conv_all_nth)
  qed
qed simp

lemma inv_prepare:
  fixes plan :: "'e hk_plan"
  assumes inv: "lifecycle_inv (plan, rt, w)" and run: "hk_plan_prepare plan rt w = (r, plan', w')"
  shows "lifecycle_inv (plan', rt, w')"
proof (cases "p_state plan = HK_PLAN_ANALYZED")
  case False
  then have "plan' = plan" "w' = w" using run by (auto simp: hk_plan_prepare_def)
  then show ?thesis using inv by simp
next
  case True
  have un: "\<forall>h \<in> set (p_hooks plan). untouched h \<and> routed h" and wf: "\<exists>w0. plan_wf w0 plan" using inv True by auto
  have c: "\<forall>h \<in> set (p_hooks plan). r_mutation (h_result h) = HK_MUTATION_NONE" using un by (simp add: untouched_def)
  show ?thesis
    using run c
  proof (cases rule: plan_prepare_cases)
    case (early e)
    from wf obtain w0 where "plan_wf w0 plan" by blast
    then show ?thesis unfolding early(2) by (rule untouched_inv) (use True un in auto)
  next
    case (moved w3 st)
    have h: "p_hooks plan' = pr_hooks st" "p_domains plan' = p_domains plan" "p_state plan' \<noteq> HK_PLAN_DRAFT"
      using moved(5) True by (auto split: sum.splits)
    have "\<forall>h \<in> set (pr_hooks st). routed h"
      by (rule moves_routed [OF moved(3)]) (use un in \<open>simp add: prepare_start_def\<close>)
    moreover have "\<forall>h \<in> set (pr_hooks st). untouched h"
      using clean_moves [OF moved(3) prepare_start_clean [OF c]] moves_inactive [OF moved(3)] un
      by (simp add: clean_def untouched_def prepare_start_def)
    moreover have "same_shape plan plan'"
      using moves_hooks [OF moved(3)] h by (intro static_shape) (auto simp: list_all2_conv_all_nth prepare_start_def)
    ultimately show ?thesis using plan_wf_shape wf h by (metis untouched_inv)
  qed
qed

lemma inv_commit:
  fixes plan :: "'e hk_plan"
  assumes inv: "lifecycle_inv (plan, rt, w)" and run: "hk_plan_commit plan rt w = (r, plan', rt', w')"
  shows "lifecycle_inv (plan', rt', w')"
proof -
  obtain w0 where wf: "plan_wf w0 plan" using inv by auto
  show ?thesis
    using run plan_wf_refs_ok [OF wf]
  proof (cases rule: plan_commit_phases)
    case (early e)
    have "plan_wf w' plan" if "p_state plan = HK_PLAN_DRAFT"
    proof -
      have "w' = w" using run that by (simp add: hk_plan_commit_def)
      then show ?thesis using inv that by simp
    qed
    then show ?thesis using inv early backed_grows [OF early(3)] by auto
  next
    case (looped ok st)
    note ci = looped(2) [unfolded commit_inv_def]
    have h: "p_hooks plan' = cm_hooks st" "p_domains plan' = p_domains plan"
      "p_state plan' \<noteq> HK_PLAN_DRAFT" "p_state plan' \<noteq> HK_PLAN_ANALYZED"
      using looped(1,6) by (auto split: sum.splits)
    have l: "length (cm_hooks st) = length (p_hooks plan)" using ci by blast
    have one: "kept (p_hooks plan ! j) (cm_hooks st ! j)" "cm_hooks st ! j = p_hooks plan ! j \<or>
        oc (p_hooks plan ! j) = HK_OUTCOME_PREPARED \<and> settled_outcome (oc (cm_hooks st ! j))"
      if "j < length (p_hooks plan)" for j using ci that by blast+
    have sh: "same_shape plan plan'" using one(1) l h by (auto simp: same_shape_def kept_def)
    have prep: "r_mutation (h_result (cm_hooks st ! j)) = HK_MUTATION_NONE"
      if "j < length (p_hooks plan)" "oc (cm_hooks st ! j) = HK_OUTCOME_PREPARED" for j
      using one(2) [OF that(1)] that inv by (auto simp: settled_outcome_def)
    have ro: "routed (cm_hooks st ! j)" if "j < length (p_hooks plan)" for j
    proof -
      have "routed (p_hooks plan ! j)" "h_matched (cm_hooks st ! j) = h_matched (p_hooks plan ! j)"
        using inv one(1) [OF that] that by (auto simp: kept_def)
      then show ?thesis using one(2) [OF that] by (auto simp: routed_def)
    qed
    have act: "backed w' (cm_hooks st) (cm_hooks st ! j)"
      if j: "j < length (p_hooks plan)" "oc (cm_hooks st ! j) = HK_OUTCOME_ACTIVE" for j
    proof (cases "oc (p_hooks plan ! j) = HK_OUTCOME_PREPARED")
      case True
      then have "j \<in> newly_active (p_hooks plan) (cm_hooks st)" using j by (simp add: newly_def)
      then have "backed (cm_world st) (cm_hooks st) (cm_hooks st ! j)" using ci by (simp add: backed_def)
      then show ?thesis by (rule backed_grows [OF looped(4)])
    next
      case False
      then have e: "cm_hooks st ! j = p_hooks plan ! j" using one(2) [OF j(1)] by blast
      have "backed w (p_hooks plan) (p_hooks plan ! j)" using inv j e nth_mem [OF j(1)] by simp
      then have b: "backed w' (p_hooks plan) (p_hooks plan ! j)"
        by (rule backed_grows [OF grows_trans [OF looped(3,4)]])
      have "dependencies_active (cm_hooks st) (cm_hooks st ! j)"
      proof (rule dependencies_stable [OF _ l])
        show "dependencies_active (p_hooks plan) (p_hooks plan ! j)" using b by (simp add: backed_def)
        show "\<forall>j < length (p_hooks plan). h_ref (cm_hooks st ! j) = h_ref (p_hooks plan ! j) \<and>
            (oc (p_hooks plan ! j) \<noteq> HK_OUTCOME_PREPARED \<longrightarrow> cm_hooks st ! j = p_hooks plan ! j)"
          using one by (auto simp: kept_def)
      qed (simp add: e)
      then show ?thesis using b e by (simp add: backed_def)
    qed
    have all: "(\<forall>h \<in> set (cm_hooks st). P h) \<longleftrightarrow> (\<forall>j < length (p_hooks plan). P (cm_hooks st ! j))" for P
      by (simp add: all_set_conv_all_nth l)
    show ?thesis
      using plan_wf_shape [OF sh wf] h prep act ro by (auto simp: all)
  qed
qed

lemma call_keeps_inv:
  assumes "plan_call s s'" "lifecycle_inv s"
  shows "lifecycle_inv s'"
  using assms
proof (induction rule: plan_call.induct)
  case define_domain
  then show ?case by (rule inv_define [rotated])
next
  case add_hook
  show ?case by (rule inv_add [OF add_hook(3,1,2)])
next
  case analyze
  then show ?case by (rule inv_analyze [rotated])
next
  case prepare
  then show ?case by (rule inv_prepare [rotated])
next
  case commit
  then show ?case by (rule inv_commit [rotated])
next
  case elsewhere
  show ?case by (rule inv_elsewhere [OF elsewhere(3,1,2)])
qed

lemma reachable_inv: "plan_reachable s \<Longrightarrow> lifecycle_inv s"
proof (induction rule: plan_reachable.induct)
  case (created config w plan w' rt)
  then show ?case using plan_create_wf [OF created] by auto
next
  case (called s s')
  then show ?case by (blast intro: call_keeps_inv)
qed

text \<open>The state of a plan only moves forward, and a failed or committed plan is left alone.\<close>

definition forward :: "'e hk_plan \<Rightarrow> 'e hk_plan \<Rightarrow> bool" where
  "forward plan plan' \<longleftrightarrow> state_rank (p_state plan) \<le> state_rank (p_state plan') \<and>
     (state_rank (p_state plan) = 4 \<longrightarrow> plan' = plan)"

lemma define_forward: "hk_plan_define_domain plan spec w = (r, plan', w') \<Longrightarrow> forward plan plan'"
  by (erule define_domain_cases) (auto simp: forward_def)

lemma add_forward: "target_ok (hs_target spec) \<Longrightarrow> hk_plan_add_hook plan spec w = (r, plan', w') \<Longrightarrow> forward plan plan'"
  by (erule (1) add_hook_cases) (auto simp: forward_def dest: add_hook_checks_None(1))

lemma analyze_forward:
  assumes run: "hk_plan_analyze plan rt w = (r, plan', w')"
  shows "forward plan plan'"
proof (cases "p_state plan = HK_PLAN_DRAFT")
  case False
  then show ?thesis using run by (auto simp: forward_def hk_plan_analyze_def)
next
  case True
  then show ?thesis by (simp add: forward_def)
qed

lemma prepare_forward:
  assumes run: "hk_plan_prepare plan rt w = (r, plan', w')"
  shows "forward plan plan'"
proof (cases "p_state plan = HK_PLAN_ANALYZED")
  case False
  then show ?thesis using run by (auto simp: forward_def hk_plan_prepare_def)
next
  case True
  have "p_state plan' \<in> {HK_PLAN_ANALYZED, HK_PLAN_PREPARED, HK_PLAN_FAILED, HK_PLAN_PARTIAL}"
    using run True by (simp add: hk_plan_prepare_def Let_def split: if_split_asm prod.split_asm option.split_asm) auto
  then show ?thesis using True by (auto simp: forward_def)
qed

lemma commit_forward:
  assumes run: "hk_plan_commit plan rt w = (r, plan', rt', w')"
  shows "forward plan plan'"
proof (cases "p_state plan = HK_PLAN_PREPARED \<or> p_state plan = HK_PLAN_PARTIAL")
  case False
  then show ?thesis using run by (auto simp: forward_def hk_plan_commit_def)
next
  case True
  have "p_state plan' \<in> {p_state plan, HK_PLAN_COMMITTED, HK_PLAN_FAILED, HK_PLAN_PARTIAL}"
    using run by (simp add: hk_plan_commit_def Let_def split: if_split_asm prod.split_asm option.split_asm) auto
  then show ?thesis using True by (auto simp: forward_def)
qed

lemma call_forward: "plan_call (plan, rt, w) (plan', rt', w') \<Longrightarrow> forward plan plan'"
  by (erule plan_callE) (auto simp: forward_def [of plan plan]
      dest: define_forward add_forward analyze_forward prepare_forward commit_forward)

section \<open>Properties\<close>

text \<open>C25. In every state a plan can reach, by any sequence of calls with any results and any activity
  elsewhere in the process, a hook reported \<open>ACTIVE\<close> has an engine it was routed to, a \<open>COMPLETE\<close>
  mutation, all the hooks it comes after are active, and its target is owned; a hook that is only
  prepared has an engine and has changed nothing; and a plan that is still a draft or only analyzed
  has changed nothing.\<close>

theorem reachable_active_backed:
  assumes "plan_reachable (plan, rt, w)"
  shows "\<forall>h \<in> set (p_hooks plan).
    (oc h = HK_OUTCOME_ACTIVE \<longrightarrow> h_matched h \<noteq> None \<and> r_mutation (h_result h) = HK_MUTATION_COMPLETE \<and>
       dependencies_active (p_hooks plan) h \<and>
       os_present (hk_ownership_lookup_locked (h_target_key h) (w_owners w))) \<and>
    (oc h = HK_OUTCOME_PREPARED \<longrightarrow> h_matched h \<noteq> None) \<and>
    (p_state plan \<in> {HK_PLAN_DRAFT, HK_PLAN_ANALYZED} \<or> oc h = HK_OUTCOME_PREPARED \<longrightarrow>
       r_mutation (h_result h) = HK_MUTATION_NONE)"
  using reachable_inv [OF assms] by (auto simp: backed_def owned_in_def untouched_def routed_def)

text \<open>C26. Plans are one-way: no call moves the state of a plan back, and once a plan is committed or failed no
  call changes it in any way.\<close>

theorem plan_one_way:
  assumes "plan_call (plan, rt, w) (plan', rt', w')"
  shows "state_rank (p_state plan) \<le> state_rank (p_state plan') \<and>
    (p_state plan \<in> {HK_PLAN_COMMITTED, HK_PLAN_FAILED} \<longrightarrow> plan' = plan)"
  using call_forward [OF assms] by (auto simp: forward_def)

lemma append_nothing: "l_items source = [] \<Longrightarrow> hk_artifact_ledger_append_ledger l source s = ((True, l), s)"
  by (simp add: hk_artifact_ledger_append_ledger_def)

text \<open>What a process ledger holds; it is created by the first record.\<close>

definition process_records :: "'e hk_world \<Rightarrow> hk_artifact list" where
  "process_records w = (case w_process_ledger w of None \<Rightarrow> [] | Some l \<Rightarrow> l_items l)"

lemma process_append_nothing:
  assumes "l_items source = []"
  shows "w_owners (append_process_artifacts source w) = w_owners w"
    "w_installed (append_process_artifacts source w) = w_installed w" "w_env (append_process_artifacts source w) = w_env w"
    "process_records (append_process_artifacts source w) = process_records w"
proof -
  obtain l w1 where c: "hk_artifact_ledger_create w = (l, w1)" by fastforce
  have m: "hk_sys.more w1 = hk_sys.more w" "\<And>x. l = Some x \<Longrightarrow> l_items x = []"
    using c by (auto simp: hk_artifact_ledger_create_def Let_def split: if_splits prod.splits dest!: sys_alloc_frame only_allocD(4))
  show "w_owners (append_process_artifacts source w) = w_owners w"
    "w_installed (append_process_artifacts source w) = w_installed w" "w_env (append_process_artifacts source w) = w_env w"
    "process_records (append_process_artifacts source w) = process_records w"
    using m c world_more [OF m(1)]
    by (auto simp: append_process_artifacts_def hk_artifact_process_append_ledger_def process_records_def Let_def
        append_nothing [OF assms] split: option.splits)
qed

text \<open>C27. Committing a plan none of whose hooks is prepared, such as a \<open>PARTIAL\<close> plan that is committed again:
  a commit that returns a report calls the plan \<open>COMMITTED\<close>, whatever became of its hooks, and changes
  nothing else. The hooks and the domains of the plan are as before, and the report holds their results as they are
  and no artifact; the runtime is as before, and so are the targets owned in the process, the installed
  records, the recorded artifacts and the engines' environment (no engine is called).\<close>

theorem recommit_says_committed:
  fixes plan :: "'e hk_plan"
  assumes wf: "plan_wf w0 plan" and run: "hk_plan_commit plan rt w = (Inr report, plan', rt', w')"
    and none: "\<forall>h \<in> set (p_hooks plan). oc h \<noteq> HK_OUTCOME_PREPARED"
  shows "plan' = plan\<lparr>p_state := HK_PLAN_COMMITTED\<rparr> \<and> rt' = rt \<and>
    rp_results report = map h_result (p_hooks plan) \<and> l_items (rp_artifacts report) = [] \<and>
    w_owners w' = w_owners w \<and> w_installed w' = w_installed w \<and> process_records w' = process_records w \<and>
    w_env w' = w_env w"
proof -
  obtain ok1 w1 where a1: "(if p_hooks plan = [] then (True, w) else sys_alloc w) = (ok1, w1)" by fastforce
  obtain lr w2 where l: "hk_artifact_ledger_create w1 = (lr, w2)" by fastforce
  obtain orr w3 where o: "hk_build_commit_order (p_domains plan) (p_hooks plan) w2 = (orr, w3)" by fastforce
  have m: "hk_sys.more w1 = hk_sys.more w" "hk_sys.more w2 = hk_sys.more w1" "hk_sys.more w3 = hk_sys.more w2"
    using a1 l only_allocD(4) [OF commit_order_total(1) [OF plan_wf_refs_ok [OF wf] o]]
    by (auto simp: hk_artifact_ledger_create_def Let_def split: if_splits prod.splits dest!: sys_alloc_frame only_allocD(4))
  have st: "\<not> (p_state plan \<noteq> HK_PLAN_PREPARED \<and> p_state plan \<noteq> HK_PLAN_PARTIAL)" and ok1: "ok1"
    using run a1 by (auto simp: hk_plan_commit_def Let_def split: if_splits)
  obtain ledger where lr: "lr = Some ledger" using run a1 l st ok1 by (cases lr) (auto simp: hk_plan_commit_def Let_def)
  obtain order where orr: "orr = Some order"
    using run a1 l st ok1 lr o by (cases orr) (auto simp: hk_plan_commit_def Let_def)
  have "set order = {}"
    using commit_order_total(2) [OF plan_wf_refs_ok [OF wf] o orr] none by (auto simp: commit_order_ok_def)
  then have order: "order = []" by simp
  define st0 where "st0 = \<lparr>cm_hooks = p_hooks plan, cm_results = map h_result (p_hooks plan), cm_world = w3,
    cm_ledger = ledger, cm_attempted = 0, cm_active = 0, cm_failed = 0\<rparr>"
  have loop: "commit_loop (rt_generation rt) (p_id plan) (rt_owner_id rt) order 0 st0 = (True, st0)"
    by (subst commit_loop.simps) (simp add: order)
  obtain rr w4 where rc: "hk_report_create (cm_results st0) (cm_world st0) = (rr, w4)" by fastforce
  obtain report0 where rr: "rr = Some report0"
    using run a1 l st ok1 lr o orr loop rc
    by (cases rr) (auto simp: hk_plan_commit_def Let_def st0_def [symmetric])
  have li: "l_items ledger = []"
    using l lr by (auto simp: hk_artifact_ledger_create_def Let_def split: if_splits prod.splits)
  have ra: "hk_runtime_append_artifacts rt ledger w4 = (rt, w4)"
    by (simp add: hk_runtime_append_artifacts_def append_nothing [OF li])
  have e: "report = hk_report_adopt_artifact_ledger report0 ledger" "plan' = plan\<lparr>p_state := HK_PLAN_COMMITTED\<rparr>"
    "rt' = rt" "w' = append_process_artifacts ledger w4"
    using run a1 l st ok1 lr o orr loop rc rr ra
    by (auto simp: hk_plan_commit_def Let_def st0_def)
  note rf = hk_report_create_frame [OF rc]
  have m4: "hk_sys.more w4 = hk_sys.more w" using rf(1) m by (simp add: st0_def)
  show ?thesis
    using e rf(2) [OF rr] process_append_nothing [OF li, of w4] world_more [OF m4] li
    by (simp add: hk_report_adopt_artifact_ledger_def st0_def process_records_def)
qed

section \<open>Concrete runs\<close>

text \<open>A plan taken from creation to commit.\<close>

definition lived_world :: "nat \<Rightarrow> u64 \<Rightarrow> nat hk_world" where
  "lived_world ref counter = (sample_world 0)\<lparr>sys_counter := counter, w_next_ref := ref\<rparr>"

definition lived_runtime :: "nat hk_runtime" where
  "lived_runtime = sample_runtime\<lparr>rt_engines := [\<lparr>es_vtable = active_vtable, es_ctx = 0, es_testing = False\<rparr>]\<rparr>"

definition lived_draft :: "nat hk_plan" where
  "lived_draft = sample_plan\<lparr>p_hooks := [new_hook 0 \<lparr>id_high = 9, id_low = 2\<rparr> (sample_spec ''a'' (sample_address_target 64))
     (sample_address_target 64) (le_bytes 4 (1 :: u32) @ le_bytes 8 (64 :: ptr))], p_hook_capacity := 4\<rparr>"

lemma lived_create: "hk_plan_create None (lived_world 0 0) = (Inr sample_plan, lived_world 0 1)"
  by (simp add: hk_plan_create_def lived_world_def sample_world_def sys_alloc_def hk_id_generate_def
      hk_init_nonce_def hk_strdup_checked_def sample_plan_def)

lemma lived_add:
  "hk_plan_add_hook sample_plan (sample_spec ''a'' (sample_address_target 64)) (lived_world 0 1) =
     (Inr 0, lived_draft, lived_world 1 2)"
proof -
  have "(case sample_address_target p of Target_Memory m \<Rightarrow> bv_data (mem_expected_bytes m) = None | _ \<Rightarrow> False) = False" for p
    by (simp add: sample_address_target_def)
  then show ?thesis
    by (simp add: hk_plan_add_hook_def lived_world_def add_hook_checks_def sample_plan_def sample_spec_def sample_world_def
        commit_after_refs_def HK_HOOK_SPEC_SIZE_def sys_alloc_def address_target_copy address_key_copy
        hk_strdup_checked_def hk_id_generate_def hk_init_nonce_def grow_array_def fresh_ref_def lived_draft_def)
qed

definition lived :: "nat plan_state" where
  "lived = (case hk_plan_analyze lived_draft lived_runtime (lived_world 1 2) of
     (_, p2, w2) \<Rightarrow> (case hk_plan_prepare p2 lived_runtime w2 of
       (_, p3, w3) \<Rightarrow> (case hk_plan_commit p3 lived_runtime w3 of
         (_, p4, rt4, w4) \<Rightarrow> (p4, rt4, w4))))"

lemma lived_active: "case lived of (p, rt, w) \<Rightarrow> map oc (p_hooks p) = [HK_OUTCOME_ACTIVE] \<and> p_state p = HK_PLAN_COMMITTED"
  by code_simp

lemma lived_reachable: "plan_reachable lived"
proof -
  obtain r2 p2 w2 where a: "hk_plan_analyze lived_draft lived_runtime (lived_world 1 2) = (r2, p2, w2)" by (metis surj_pair)
  obtain r3 p3 w3 where b: "hk_plan_prepare p2 lived_runtime w2 = (r3, p3, w3)" by (metis surj_pair)
  obtain r4 p4 rt4 w4 where c: "hk_plan_commit p3 lived_runtime w3 = (r4, p4, rt4, w4)" by (metis surj_pair)
  have "plan_reachable (sample_plan, lived_runtime, lived_world 0 1)" by (rule created [OF lived_create])
  then have "plan_reachable (lived_draft, lived_runtime, lived_world 1 2)"
    by (rule called) (rule add_hook [OF sample_target_ok lived_add])
  then have "plan_reachable (p2, lived_runtime, w2)" by (rule called) (rule analyze [OF a])
  then have "plan_reachable (p3, lived_runtime, w3)" by (rule called) (rule prepare [OF b])
  then have "plan_reachable (p4, rt4, w4)" by (rule called) (rule commit [OF c])
  then show ?thesis unfolding lived_def a b c prod.case .
qed

theorem reachable_active_backed_witness:
  "case lived of (p, rt, w) \<Rightarrow> os_present (hk_ownership_lookup_locked (h_target_key (hd (p_hooks p))) (w_owners w))"
proof -
  obtain p rt w where l: "lived = (p, rt, w)" by (metis surj_pair)
  have a: "map oc (p_hooks p) = [HK_OUTCOME_ACTIVE]" using lived_active unfolding l prod.case by blast
  then obtain h where h: "p_hooks p = [h]" "oc h = HK_OUTCOME_ACTIVE" by auto
  show ?thesis
    unfolding l prod.case using reachable_active_backed [OF lived_reachable [unfolded l]] h by simp
qed

theorem plan_one_way_witness:
  "case hk_plan_analyze lived_draft lived_runtime (lived_world 1 2) of (r, p, w) \<Rightarrow>
     state_rank (p_state lived_draft) \<le> state_rank (p_state p)"
proof -
  obtain r p w where a: "hk_plan_analyze lived_draft lived_runtime (lived_world 1 2) = (r, p, w)" by (metis surj_pair)
  show ?thesis using plan_one_way [OF analyze [OF a]] a by simp
qed

text \<open>A plan whose only hook failed, committed again.\<close>

definition failed_plan :: "nat hk_plan" where
  "failed_plan = (let h = prepared_hook 1 ''a'' in
     (commit_plan [h\<lparr>h_result := (h_result h)\<lparr>r_outcome := HK_OUTCOME_FAILED_UNKNOWN\<rparr>\<rparr>])\<lparr>p_state := HK_PLAN_PARTIAL\<rparr>)"

theorem recommit_says_committed_witness:
  "case hk_plan_commit failed_plan sample_runtime gated_world of (r, p, rt, w) \<Rightarrow>
     p_state p = HK_PLAN_COMMITTED \<and> map oc (p_hooks p) = [HK_OUTCOME_FAILED_UNKNOWN]"
proof -
  obtain r p rt w where run: "hk_plan_commit failed_plan sample_runtime gated_world = (r, p, rt, w)" by (metis surj_pair)
  have "case hk_plan_commit failed_plan sample_runtime gated_world of (r, p, rt, w) \<Rightarrow> \<not> isl r" by code_simp
  then obtain report where r: "r = Inr report" using run by (cases r) auto
  have wf: "plan_wf gated_world failed_plan"
    by (simp add: plan_wf_def failed_plan_def commit_plan_def gated_world_def sample_plan_def sample_world_def
        prepared_hook_def sample_hook_def new_hook_def sample_spec_def sample_domain_spec_def
        commit_after_refs_def Let_def)
  have h: "map oc (p_hooks failed_plan) = [HK_OUTCOME_FAILED_UNKNOWN]" by (simp add: failed_plan_def commit_plan_def Let_def)
  then have "\<forall>h \<in> set (p_hooks failed_plan). oc h \<noteq> HK_OUTCOME_PREPARED" by auto
  from recommit_says_committed [OF wf run [unfolded r] this] show ?thesis using run h by simp
qed

end
