(* ===== verification/HK_Backend.thy ===== *)
theory HK_Backend
  imports HK_Pending "HOL-Library.Multiset"
begin

text \<open>
  Runtimes (\<open>src/core/HKRuntime.c\<close>): creation, the table of engines, the enumeration of backends, the
  explicit selection of backends by name, and the version of the running system. The engines compiled
  in, the images the loader reports and the version string are data of the platform and parameters.
\<close>

section \<open>The version of the system\<close>

definition c_isspace :: "char \<Rightarrow> bool" where
  "c_isspace c \<longleftrightarrow> (of_char c :: nat) \<in> {9, 10, 11, 12, 13, 32}"

definition c_isdigit :: "char \<Rightarrow> bool" where
  "c_isdigit c \<longleftrightarrow> 48 \<le> (of_char c :: nat) \<and> (of_char c :: nat) \<le> 57"

definition decimal :: "string \<Rightarrow> nat" where
  "decimal ds = foldl (\<lambda>n c. 10 * n + (of_char c - 48)) 0 ds"

definition ULONG_MAX :: nat where "ULONG_MAX = 18446744073709551615"

text \<open>\<open>strtoul\<close> in base 10: leading white space, a sign, digits; too large a value saturates and a negated
  one wraps. \<open>None\<close> is \<open>end == value\<close>.\<close>

definition strtoul10 :: "string \<Rightarrow> (nat \<times> string) option" where
  "strtoul10 s =
     (let s1 = dropWhile c_isspace s;
          (neg, s2) = (case s1 of c # cs \<Rightarrow> (if c = CHR ''-'' then (True, cs) else if c = CHR ''+'' then (False, cs)
                        else (False, s1)) | [] \<Rightarrow> (False, s1));
          ds = takeWhile c_isdigit s2; n = decimal ds
      in if ds = [] then None
         else Some (if n > ULONG_MAX then ULONG_MAX else if neg then (ULONG_MAX + 1 - n) mod (ULONG_MAX + 1) else n,
                    dropWhile c_isdigit s2))"

text \<open>An optional component after a dot; \<open>None\<close> when it is malformed.\<close>

definition version_part :: "string \<Rightarrow> (nat \<times> string) option" where
  "version_part s = (case s of
     c # cs \<Rightarrow> (if c = CHR ''.'' then (case strtoul10 cs of
                   None \<Rightarrow> None | Some (v, rest) \<Rightarrow> if v > 99 then None else Some (v, rest))
                else Some (0, s))
   | [] \<Rightarrow> Some (0, s))"

definition hk_runtime_parse_ios_version :: "string option \<Rightarrow> u32" where
  "hk_runtime_parse_ios_version value = (case value of None \<Rightarrow> 0 | Some s \<Rightarrow>
     (if s = [] then 0
      else (case strtoul10 s of None \<Rightarrow> 0 | Some (major, s1) \<Rightarrow>
        if major > 4294967295 div 10000 then 0
        else (case version_part s1 of None \<Rightarrow> 0 | Some (minor, s2) \<Rightarrow>
          (case version_part s2 of None \<Rightarrow> 0 | Some (patch, s3) \<Rightarrow>
            if s3 \<noteq> [] then 0 else HK_ENGINE_IOS_VERSION (of_nat major) (of_nat minor) (of_nat patch))))))"

section \<open>The table of engines\<close>

definition hk_runtime_register_engine :: "'e hk_runtime \<Rightarrow> 'e hk_engine_vtable \<Rightarrow> ptr \<Rightarrow> bool \<Rightarrow> bool \<times> 'e hk_runtime" where
  "hk_runtime_register_engine rt vt ctx testing =
     (if (vt_abi_version vt \<noteq> 0 \<or> vt_struct_size vt \<noteq> 0) \<and>
         (vt_abi_version vt \<noteq> HK_ENGINE_VTABLE_ABI_VERSION_1 \<or> vt_struct_size vt < OFFSET_DESCRIBE + 8)
      then (False, rt)
      else if length (rt_engines rt) \<ge> HK_RUNTIME_MAX_ENGINES then (False, rt)
      else (True, rt\<lparr>rt_engines := rt_engines rt @ [\<lparr>es_vtable = vt, es_ctx = ctx, es_testing = testing\<rparr>]\<rparr>))"

definition hk_runtime_register_engine_with_context ::
    "'e hk_runtime \<Rightarrow> 'e hk_engine_vtable \<Rightarrow> ptr \<Rightarrow> bool \<times> 'e hk_runtime" where
  "hk_runtime_register_engine_with_context rt vt ctx = hk_runtime_register_engine rt vt ctx False"

definition hk_runtime_register_engine_for_testing :: "'e hk_runtime \<Rightarrow> 'e hk_engine_vtable \<Rightarrow> bool \<times> 'e hk_runtime" where
  "hk_runtime_register_engine_for_testing rt vt = hk_runtime_register_engine rt vt 0 True"

definition hk_engine_group_token :: "hk_engine_capabilities \<Rightarrow> string option" where
  "hk_engine_group_token caps = (case cap_backend_group caps of
     None \<Rightarrow> cap_engine_id caps | Some g \<Rightarrow> if g = [] then cap_engine_id caps else Some g)"

text \<open>\<open>None\<close> when the enumeration skips the slot; otherwise its group token and its label.\<close>

definition backend_of_slot :: "'e hk_runtime \<Rightarrow> 'e \<Rightarrow> 'e hk_engine_slot \<Rightarrow> (string \<times> string) option" where
  "backend_of_slot rt env slot =
     (let caps = vt_describe (es_vtable slot) in
      if cap_engine_id caps = None \<or> cap_engine_id caps = Some [] \<or>
         \<not> hk_engine_supports_platform caps (rt_platform_architecture rt) (rt_platform_ios_version rt) (es_testing slot)
      then None
      else if \<not> discovered slot env then None
      else (case hk_engine_group_token caps of None \<Rightarrow> None
        | Some token \<Rightarrow> Some (token, case cap_display_name caps of None \<Rightarrow> token | Some l \<Rightarrow> l)))"

text \<open>The caller's function maps its context and the two strings to whether to go on.\<close>

fun enumerate_from :: "'e hk_runtime \<Rightarrow> 'e \<Rightarrow> ('c \<Rightarrow> string \<Rightarrow> string \<Rightarrow> bool \<times> 'c) \<Rightarrow> 'e hk_engine_slot list \<Rightarrow>
    string list \<Rightarrow> 'c \<Rightarrow> 'c" where
  "enumerate_from rt env f [] seen ctx = ctx"
| "enumerate_from rt env f (slot # slots) seen ctx = (case backend_of_slot rt env slot of
     None \<Rightarrow> enumerate_from rt env f slots seen ctx
   | Some (token, label) \<Rightarrow>
      (if token \<in> set seen then enumerate_from rt env f slots seen ctx
       else let (go_on, ctx1) = f ctx token label in
         if go_on then enumerate_from rt env f slots (seen @ [token]) ctx1 else ctx1))"

definition hk_runtime_enumerate_backends :: "'e hk_runtime \<Rightarrow> 'e \<Rightarrow> ('c \<Rightarrow> string \<Rightarrow> string \<Rightarrow> bool \<times> 'c) \<Rightarrow> 'c \<Rightarrow> 'c" where
  "hk_runtime_enumerate_backends rt env f ctx = enumerate_from rt env f (rt_engines rt) [] ctx"

section \<open>Creating and releasing a runtime\<close>

text \<open>What the platform gives: the slice, the answer of \<open>sysctl\<close> and the deployment target, the engines
  compiled in, which are registered before and after the catalog is filled, and for every image of the
  loader its entry, unless its header or path is missing or malformed.\<close>

record 'e hk_platform =
  pf_architecture :: u32
  pf_os_version :: "string option"
  pf_deployment_target :: u32
  pf_first_engines :: "('e hk_engine_vtable \<times> ptr) list"
  pf_images :: "hk_image_entry option list"
  pf_engines :: "('e hk_engine_vtable \<times> ptr) list"

definition hk_runtime_platform_ios_version :: "'e hk_platform \<Rightarrow> u32" where
  "hk_runtime_platform_ios_version pf =
     (case pf_os_version pf of None \<Rightarrow> pf_deployment_target pf
      | Some version \<Rightarrow> (let running = hk_runtime_parse_ios_version (Some version)
                          in if running \<noteq> 0 then running else pf_deployment_target pf))"

primrec hk_image_catalog_populate_from_dyld :: "hk_image_entry option list \<Rightarrow> hk_image_catalog \<Rightarrow>
    's hk_sys_scheme \<Rightarrow> (bool \<times> hk_image_catalog) \<times> 's hk_sys_scheme" where
  "hk_image_catalog_populate_from_dyld [] cat s = ((True, cat), s)"
| "hk_image_catalog_populate_from_dyld (img # imgs) cat s = (case img of
     None \<Rightarrow> (let ((_, cat1), s1) = hk_image_catalog_populate_from_dyld imgs cat s in ((False, cat1), s1))
   | Some e \<Rightarrow> (let ((ok, cat1), s1) = hk_image_catalog_add_entry cat e s
                in if ok then hk_image_catalog_populate_from_dyld imgs cat1 s1 else ((False, cat1), s1)))"

definition register_all :: "('e hk_engine_vtable \<times> ptr) list \<Rightarrow> 'e hk_runtime \<Rightarrow> 'e hk_runtime" where
  "register_all engines rt = fold (\<lambda>(vt, ctx) rt. snd (hk_runtime_register_engine_with_context rt vt ctx)) engines rt"

definition hk_runtime_register_platform_engines :: "'e hk_platform \<Rightarrow> 'e hk_runtime \<Rightarrow> 's hk_sys_scheme \<Rightarrow>
    'e hk_runtime \<times> 's hk_sys_scheme" where
  "hk_runtime_register_platform_engines pf rt s =
     (let rt1 = register_all (pf_first_engines pf) rt;
          (rt2, s1) = (case rt_catalog rt1 of None \<Rightarrow> (rt1, s)
            | Some cat \<Rightarrow> (let ((_, cat1), s1) = hk_image_catalog_populate_from_dyld (pf_images pf) cat s
                          in (rt1\<lparr>rt_catalog := Some cat1\<rparr>, s1)))
      in (register_all (pf_engines pf) rt2, s1))"

record hk_runtime_config =
  rc_struct_size :: nat
  rc_install_context :: hk_install_context

definition HK_RUNTIME_CONFIG_SIZE :: nat where "HK_RUNTIME_CONFIG_SIZE = 48"

section \<open>Selecting backends by name\<close>

definition HK_BACKEND_UNRANKED :: int where "HK_BACKEND_UNRANKED = 2 ^ 30"

definition ascii_lower :: "char \<Rightarrow> char" where
  "ascii_lower c = (if 65 \<le> (of_char c :: nat) \<and> (of_char c :: nat) \<le> 90 then char_of ((of_char c :: nat) + 32) else c)"

fun hk_ci_span_eq :: "string \<Rightarrow> string \<Rightarrow> bool" where
  "hk_ci_span_eq (a # as) (b # bs) = (if ascii_lower a \<noteq> ascii_lower b then False else hk_ci_span_eq as bs)"
| "hk_ci_span_eq as bs \<longleftrightarrow> as = [] \<and> bs = []"

definition provider_prefix :: string where "provider_prefix = ''provider-''"

definition hk_backend_span_matches :: "string \<Rightarrow> string option \<Rightarrow> bool" where
  "hk_backend_span_matches tok id_opt = (case id_opt of None \<Rightarrow> False | Some ident \<Rightarrow>
     if hk_ci_span_eq tok ident then True
     else if hk_ci_span_eq tok ''native'' \<and> hk_ci_span_eq ident ''HookKit'' then True
     else take (length provider_prefix) ident = provider_prefix \<and>
          hk_ci_span_eq tok (drop (length provider_prefix) ident))"

definition token_sep :: "char \<Rightarrow> bool" where
  "token_sep c \<longleftrightarrow> c = CHR '','' \<or> c = CHR '' '' \<or> (of_char c :: nat) = 9"

text \<open>The walk from \<open>p\<close> with the number of tokens passed; \<open>None\<close> is -1.\<close>

function token_index_from :: "string \<Rightarrow> string option \<Rightarrow> nat \<Rightarrow> nat option" where
  "token_index_from p ident idx =
     (let start = dropWhile token_sep p in
      if start = [] then None
      else let tok = takeWhile (\<lambda>c. \<not> token_sep c) start in
      if hk_backend_span_matches tok ident then Some idx
      else token_index_from (dropWhile (\<lambda>c. \<not> token_sep c) start) ident (idx + 1))"
  by pat_completeness auto

lemma next_token_shorter:
  assumes "dropWhile token_sep p \<noteq> []"
  shows "length (dropWhile (\<lambda>c. \<not> token_sep c) (dropWhile token_sep p)) < length p"
proof -
  obtain c cs where c: "dropWhile token_sep p = c # cs" "\<not> token_sep c"
    using assms hd_dropWhile [of token_sep p] by (cases "dropWhile token_sep p") auto
  have "length (dropWhile (\<lambda>c. \<not> token_sep c) cs) \<le> length cs" by (rule length_dropWhile_le)
  moreover have "length (c # cs) \<le> length p" using length_dropWhile_le [of token_sep p] c by simp
  ultimately show ?thesis using c by simp
qed

termination token_index_from
  by (relation "measure (\<lambda>(p, _, _). length p)") (use next_token_shorter in auto)

declare token_index_from.simps [simp del]

definition hk_backend_token_index :: "string option \<Rightarrow> string option \<Rightarrow> nat option" where
  "hk_backend_token_index list_opt ident = (case (list_opt, ident) of
     (Some l, Some i) \<Rightarrow> token_index_from l ident 0 | _ \<Rightarrow> None)"

definition hk_engine_token_rank :: "'e hk_engine_vtable \<Rightarrow> string option \<Rightarrow> nat option" where
  "hk_engine_token_rank vt list_opt =
     (let caps = vt_describe vt in
      if cap_engine_id caps = None then None
      else let a = hk_backend_token_index list_opt (hk_engine_group_token caps);
               b = hk_backend_token_index list_opt (cap_engine_id caps)
      in case a of None \<Rightarrow> b | Some x \<Rightarrow> (case b of None \<Rightarrow> a | Some y \<Rightarrow> if x < y then a else b))"

text \<open>The arrays \<open>idx_order\<close> and \<open>keys\<close> are one list of pairs. The inner loop moves larger pairs up until
  the place of the new pair is found.\<close>

fun shift_larger :: "int \<Rightarrow> nat \<Rightarrow> (nat \<times> int) list \<Rightarrow> nat \<times> (nat \<times> int) list" where
  "shift_larger vk 0 xs = (0, xs)"
| "shift_larger vk (Suc b) xs =
     (if snd (xs ! b) > vk then shift_larger vk b (xs[Suc b := xs ! b]) else (Suc b, xs))"

definition insert_at :: "nat \<Rightarrow> (nat \<times> int) list \<Rightarrow> (nat \<times> int) list" where
  "insert_at a xs = (let (vi, vk) = xs ! a; (b, xs1) = shift_larger vk a xs in xs1[b := (vi, vk)])"

definition order_key :: "'e hk_runtime \<Rightarrow> string option \<Rightarrow> nat \<Rightarrow> int" where
  "order_key rt order i =
     (case (case order of None \<Rightarrow> None | Some _ \<Rightarrow> hk_engine_token_rank (es_vtable (rt_engines rt ! i)) order) of
        None \<Rightarrow> HK_BACKEND_UNRANKED + int i | Some rank \<Rightarrow> int rank)"

definition hk_runtime_retain_ordered_engines :: "'e hk_runtime \<Rightarrow> bool list \<Rightarrow> string option \<Rightarrow> 'e hk_runtime" where
  "hk_runtime_retain_ordered_engines rt drop_flags order =
     (let kept_pairs = map (\<lambda>i. (i, order_key rt order i))
            (filter (\<lambda>i. \<not> drop_flags ! i) [0..<length (rt_engines rt)]);
          sorted_pairs = fold insert_at [1..<length kept_pairs] kept_pairs
      in rt\<lparr>rt_engines := map (\<lambda>(i, k). rt_engines rt ! i) sorted_pairs\<rparr>)"

definition hk_runtime_apply_backend_override :: "'e hk_runtime \<Rightarrow> string option \<Rightarrow> 'e hk_runtime" where
  "hk_runtime_apply_backend_override rt backend_ids =
     (if rt_engines rt = [] \<or> backend_ids = None then rt
      else hk_runtime_retain_ordered_engines rt
        (map (\<lambda>slot. let ident = cap_engine_id (vt_describe (es_vtable slot)) in
           ident = None \<or> (ident \<noteq> Some ''objc'' \<and> hk_engine_token_rank (es_vtable slot) backend_ids = None))
         (rt_engines rt)) backend_ids)"

definition hk_runtime_create_impl :: "'e hk_platform \<Rightarrow> hk_runtime_config option \<Rightarrow> string option \<Rightarrow>
    's hk_sys_scheme \<Rightarrow> (hk_status + 'e hk_runtime) \<times> 's hk_sys_scheme" where
  "hk_runtime_create_impl pf config backend_override s =
     (if (case config of None \<Rightarrow> False | Some c \<Rightarrow> rc_struct_size c < HK_RUNTIME_CONFIG_SIZE)
      then (Inl HK_STATUS_INVALID_ARGUMENT, s)
      else let (ok, s1) = sys_alloc s in
      if \<not> ok then (Inl HK_STATUS_OUT_OF_MEMORY, s1)
      else let (owner, s2) = hk_id_generate s1 in
      (case hk_artifact_ledger_create s2 of
         (None, s3) \<Rightarrow> (Inl HK_STATUS_OUT_OF_MEMORY, s3)
       | (Some artifacts, s3) \<Rightarrow> (case hk_image_catalog_create s3 of
           (None, s4) \<Rightarrow> (Inl HK_STATUS_OUT_OF_MEMORY, s4)
         | (Some catalog, s4) \<Rightarrow>
            (let rt = \<lparr>rt_owner_id = owner,
                       rt_install_context = (case config of None \<Rightarrow> HK_INSTALL_CONTEXT_EARLY_PROCESS
                                             | Some c \<Rightarrow> rc_install_context c),
                       rt_platform_architecture = pf_architecture pf,
                       rt_platform_ios_version = hk_runtime_platform_ios_version pf,
                       rt_engines = [], rt_catalog = Some catalog, rt_pending = [], rt_pending_capacity = 0,
                       rt_artifacts = artifacts\<rparr>;
                 (rt1, s5) = hk_runtime_register_platform_engines pf rt s4
             in (Inr (if backend_override = None then rt1 else hk_runtime_apply_backend_override rt1 backend_override),
                 s5)))))"

definition hk_runtime_create :: "'e hk_platform \<Rightarrow> hk_runtime_config option \<Rightarrow> 's hk_sys_scheme \<Rightarrow>
    (hk_status + 'e hk_runtime) \<times> 's hk_sys_scheme" where
  "hk_runtime_create pf config s = hk_runtime_create_impl pf config None s"

definition hk_runtime_create_with_backend_override :: "'e hk_platform \<Rightarrow> hk_runtime_config option \<Rightarrow> string option \<Rightarrow>
    's hk_sys_scheme \<Rightarrow> (hk_status + 'e hk_runtime) \<times> 's hk_sys_scheme" where
  "hk_runtime_create_with_backend_override pf config backend_ids s = hk_runtime_create_impl pf config backend_ids s"

text \<open>Installed hooks outlive the runtime; the queue does not.\<close>

definition hk_runtime_release :: "'e hk_runtime \<Rightarrow> 'e hk_world \<Rightarrow> 'e hk_world" where
  "hk_runtime_release rt w = snd (hk_runtime_free_pending_hooks rt w)"

definition hk_runtime_owner_id :: "'e hk_runtime option \<Rightarrow> hk_id" where
  "hk_runtime_owner_id rt = (case rt of None \<Rightarrow> hk_id_zero | Some r \<Rightarrow> rt_owner_id r)"

section \<open>Tokens\<close>

text \<open>The reference for the walk: the fields between separators that are not empty.\<close>

fun split_fields :: "string \<Rightarrow> string list" where
  "split_fields [] = [[]]"
| "split_fields (c # cs) = (if token_sep c then [] # split_fields cs else (c # hd (split_fields cs)) # tl (split_fields cs))"

definition tokens :: "string \<Rightarrow> string list" where
  "tokens p = filter (\<lambda>t. t \<noteq> []) (split_fields p)"

lemma fields_not_Nil [simp]: "split_fields p \<noteq> []"
  by (cases p) auto

lemma fields_split:
  "split_fields p = takeWhile (\<lambda>c. \<not> token_sep c) p #
     (case dropWhile (\<lambda>c. \<not> token_sep c) p of [] \<Rightarrow> [] | c # cs \<Rightarrow> split_fields cs)"
  by (induction p) (auto split: list.splits)

lemma tokens_sep [simp]: "token_sep c \<Longrightarrow> tokens (c # cs) = tokens cs"
  by (simp add: tokens_def)

lemma tokens_skip: "tokens (dropWhile token_sep p) = tokens p"
  by (induction p) auto

lemma tokens_head:
  assumes "p \<noteq> []" "\<not> token_sep (hd p)"
  shows "tokens p = takeWhile (\<lambda>c. \<not> token_sep c) p # tokens (dropWhile (\<lambda>c. \<not> token_sep c) p)"
proof -
  have ne: "takeWhile (\<lambda>c. \<not> token_sep c) p \<noteq> []" using assms by (cases p) auto
  show ?thesis
  proof (cases "dropWhile (\<lambda>c. \<not> token_sep c) p")
    case Nil
    then show ?thesis using ne by (subst tokens_def, subst fields_split) (simp add: Nil tokens_def)
  next
    case (Cons c cs)
    then have "token_sep c" using hd_dropWhile [of "\<lambda>c. \<not> token_sep c" p] by simp
    then show ?thesis using ne Cons by (subst tokens_def, subst fields_split) (simp add: tokens_def [symmetric])
  qed
qed

lemma token_index_tokens:
  "token_index_from p ident idx =
     map_option (\<lambda>k. idx + k) (first_index (\<lambda>t. hk_backend_span_matches t ident) (tokens p))"
proof (induction p ident idx rule: token_index_from.induct)
  case (1 p ident idx)
  define start where "start = dropWhile token_sep p"
  show ?case
  proof (cases "start = []")
    case True
    have "tokens p = tokens []" using True tokens_skip [of p] by (simp only: start_def)
    then have "tokens p = []" by (simp add: tokens_def)
    then show ?thesis using True by (simp add: token_index_from.simps [of p] start_def)
  next
    case False
    then have "\<not> token_sep (hd start)" unfolding start_def by (rule hd_dropWhile)
    note th = tokens_head [OF False this, unfolded start_def, unfolded tokens_skip]
    show ?thesis
      using False 1 unfolding start_def
      by (subst token_index_from.simps) (auto simp: Let_def th option.map_comp comp_def)
  qed
qed

lemma length_tokens: "length (tokens p) \<le> length p"
proof (induction p)
  case (Cons c cs)
  have "length (tokens (c # cs)) \<le> 1 + length (tokens cs)" if "\<not> token_sep c"
    using that by (cases "split_fields cs") (auto simp: tokens_def)
  then show ?case using Cons by (cases "token_sep c") auto
qed (simp add: tokens_def)

section \<open>The sort\<close>

lemma shift_larger_spec:
  assumes "shift_larger vk b xs = (b', xs')" "b < length xs"
  shows "b' \<le> b \<and> xs'[b' := v] = take b' xs @ v # drop b' (take b xs) @ drop (Suc b) xs \<and>
    (\<forall>j. b' \<le> j \<and> j < b \<longrightarrow> snd (xs ! j) > vk) \<and> (b' > 0 \<longrightarrow> snd (xs ! (b' - 1)) \<le> vk)"
  using assms
proof (induction vk b xs rule: shift_larger.induct)
  case (1 vk xs)
  then show ?case by (auto simp: list_update_beyond upd_conv_take_nth_drop)
next
  case (2 vk b xs)
  show ?case
  proof (cases "snd (xs ! b) > vk")
    case False
    then show ?thesis using 2 by (auto simp: upd_conv_take_nth_drop)
  next
    case True
    let ?ys = "xs[Suc b := xs ! b]"
    have r: "shift_larger vk b ?ys = (b', xs')" using 2(2) True by simp
    have ih: "b' \<le> b" "xs'[b' := v] = take b' ?ys @ v # drop b' (take b ?ys) @ drop (Suc b) ?ys"
      "\<forall>j. b' \<le> j \<and> j < b \<longrightarrow> snd (?ys ! j) > vk" "b' > 0 \<longrightarrow> snd (?ys ! (b' - 1)) \<le> vk"
      using 2(1) [OF True r] 2(3) by auto
    have "drop (Suc b) ?ys = xs ! b # drop (Suc (Suc b)) xs"
      using 2(3) by (subst Cons_nth_drop_Suc [symmetric]) auto
    moreover have "drop b' (take (Suc b) xs) = drop b' (take b xs) @ [xs ! b]"
      using 2(3) ih(1) by (simp add: take_Suc_conv_app_nth)
    ultimately have "xs'[b' := v] = take b' xs @ v # drop b' (take (Suc b) xs) @ drop (Suc (Suc b)) xs"
      using ih(1,2) by simp
    moreover have "\<forall>j. b' \<le> j \<and> j < Suc b \<longrightarrow> snd (xs ! j) > vk"
      using ih(3) True by (auto simp: less_Suc_eq)
    ultimately show ?thesis using ih(1,4) by auto
  qed
qed

text \<open>One round of the outer loop keeps the prefix sorted in the stable order.\<close>

lemma insert_at_step:
  fixes xs0 :: "(nat \<times> int) list"
  assumes "a < length xs0"
  shows "insert_at a (sort_key snd (take a xs0) @ drop a xs0) = sort_key snd (take (Suc a) xs0) @ drop (Suc a) xs0"
proof -
  let ?p = "sort_key snd (take a xs0)"
  let ?xs = "?p @ drop a xs0"
  have la: "length ?p = a" using assms by simp
  define v where "v = xs0 ! a"
  have v: "?xs ! a = v" using assms by (simp add: nth_append v_def)
  obtain b' xs' where s: "shift_larger (snd v) a ?xs = (b', xs')" by fastforce
  have sp: "b' \<le> a" "xs'[b' := v] = take b' ?xs @ v # drop b' (take a ?xs) @ drop (Suc a) ?xs"
    "\<forall>j. b' \<le> j \<and> j < a \<longrightarrow> snd (?xs ! j) > snd v" "b' > 0 \<longrightarrow> snd (?xs ! (b' - 1)) \<le> snd v"
    using shift_larger_spec [OF s, of v] assms by auto
  have e: "insert_at a ?xs = take b' ?p @ v # drop b' ?p @ drop (Suc a) xs0"
    using sp(1,2) s v la assms by (simp add: insert_at_def case_prod_unfold Let_def)
  have sorted: "sorted (map snd ?p)" by simp
  have hi: "\<forall>x \<in> set (drop b' ?p). snd x > snd v"
  proof
    fix x assume "x \<in> set (drop b' ?p)"
    then obtain i where i: "i < a - b'" "x = ?p ! (b' + i)" using la by (auto simp: in_set_conv_nth)
    then have "b' + i < length ?p" using la by linarith
    moreover have "snd (?xs ! (b' + i)) > snd v" using sp(3) i(1) by simp
    ultimately show "snd x > snd v" unfolding i(2) by (simp only: nth_append if_True)
  qed
  have lo: "\<forall>x \<in> set (take b' ?p). snd x \<le> snd v"
  proof
    fix x assume "x \<in> set (take b' ?p)"
    then obtain j where j: "j < b'" "x = ?p ! j" using la sp(1) by (auto simp: in_set_conv_nth)
    have l: "snd (?p ! j) \<le> snd (?p ! (b' - 1))"
      using sorted_nth_mono [OF sorted, of j "b' - 1"] j sp(1) assms by simp
    have "b' - 1 < a" using sp(1) j(1) by simp
    then have "snd (?p ! (b' - 1)) \<le> snd v" using sp(4) j assms by (simp add: nth_append)
    with l show "snd x \<le> snd v" using j by simp
  qed
  have "sort_key snd (take a xs0 @ [v]) = take b' ?p @ v # drop b' ?p"
  proof (rule properties_for_sort_key)
    show "mset (take b' ?p @ v # drop b' ?p) = mset (take a xs0 @ [v])"
      by (metis (no_types) append_take_drop_id mset_append mset_sort mset.simps(2) union_mset_add_mset_right
          add_mset_add_single union_commute mset_single_iff_right union_assoc)
    show "filter (\<lambda>x. snd k = snd x) (take b' ?p @ v # drop b' ?p) = filter (\<lambda>x. snd k = snd x) (take a xs0 @ [v])"
      if "k \<in> set (take b' ?p @ v # drop b' ?p)" for k
    proof -
      have st: "filter (\<lambda>x. snd k = snd x) ?p = filter (\<lambda>x. snd k = snd x) (take a xs0)"
        using sort_key_stable [of snd "snd k" "take a xs0"] by (simp add: eq_commute)
      have sp: "filter Q (take b' ?p) @ filter Q (drop b' ?p) = filter Q ?p" for Q
        by (metis append_take_drop_id filter_append)
      have "snd k = snd v \<Longrightarrow> filter (\<lambda>x. snd k = snd x) (drop b' ?p) = []" using hi by (auto simp: filter_empty_conv)
      then show ?thesis using st sp [of "\<lambda>x. snd k = snd x"] by (cases "snd k = snd v") auto
    qed
    have "sorted (map snd (take b' ?p))" "sorted (map snd (drop b' ?p))"
      using sorted by (simp_all add: take_map [symmetric] drop_map [symmetric] sorted_wrt_take sorted_wrt_drop)
    then show "sorted (map snd (take b' ?p @ v # drop b' ?p))"
      using hi lo by (fastforce simp: sorted_append)
  qed
  moreover have "take (Suc a) xs0 = take a xs0 @ [v]" using assms by (simp add: take_Suc_conv_app_nth v_def)
  ultimately show ?thesis using e by simp
qed

lemma insertion_sort: "fold insert_at [1..<length xs] xs = sort_key snd xs"
proof -
  have gen: "fold insert_at [1..<n] xs = sort_key snd (take n xs) @ drop n xs" if "1 \<le> n" "n \<le> length xs" for n
    using that
  proof (induction n rule: dec_induct)
    case base
    then show ?case by (cases xs) auto
  next
    case (step n)
    have "fold insert_at [1..<n] xs = sort_key snd (take n xs) @ drop n xs" using step by simp
    then show ?case using insert_at_step [of n xs] step by simp
  qed
  show ?thesis
  proof (cases "xs = []")
    case False
    then have "1 \<le> length xs" by (cases xs) simp_all
    then show ?thesis using gen [of "length xs"] by simp
  qed simp
qed

section \<open>What an override selects\<close>

text \<open>The position at which a list of names names an engine.\<close>

definition named_at :: "string \<Rightarrow> 'e hk_engine_slot \<Rightarrow> nat option" where
  "named_at ids slot = hk_engine_token_rank (es_vtable slot) (Some ids)"

definition selectable :: "string \<Rightarrow> 'e hk_engine_slot \<Rightarrow> bool" where
  "selectable ids slot \<longleftrightarrow> (case cap_engine_id (vt_describe (es_vtable slot)) of None \<Rightarrow> False
     | Some ident \<Rightarrow> ident = ''objc'' \<or> named_at ids slot \<noteq> None)"

definition before_named :: "nat option \<Rightarrow> nat option \<Rightarrow> bool" where
  "before_named a b \<longleftrightarrow> (case b of None \<Rightarrow> True | Some y \<Rightarrow> (case a of None \<Rightarrow> False | Some x \<Rightarrow> x \<le> y))"

lemma token_index_less: "hk_backend_token_index (Some ids) i = Some k \<Longrightarrow> k < length (tokens ids)"
  by (auto simp: hk_backend_token_index_def token_index_tokens dest: first_index_SomeD split: option.splits)

lemma named_at_less: "named_at ids slot = Some k \<Longrightarrow> k < length ids"
  using length_tokens [of ids]
  by (auto simp: named_at_def hk_engine_token_rank_def Let_def dest!: token_index_less split: if_splits option.splits)

lemma order_key_named:
  "order_key rt (Some ids) i = (case named_at ids (rt_engines rt ! i) of
     None \<Rightarrow> HK_BACKEND_UNRANKED + int i | Some k \<Rightarrow> int k)"
  by (simp add: order_key_def named_at_def)

lemma retain_sorted:
  "rt_engines (hk_runtime_retain_ordered_engines rt drops order) =
     map (\<lambda>i. rt_engines rt ! i) (sort_key (order_key rt order) (filter (\<lambda>i. \<not> drops ! i) [0..<length (rt_engines rt)]))"
proof -
  have sk: "sort_key snd (map (\<lambda>i. (i, f i)) is) = map (\<lambda>i. (i, f i)) (sort_key f is)" for f :: "nat \<Rightarrow> int" and "is"
  proof (induction "is")
    case (Cons i js)
    have "insort_key snd (j, f j) (map (\<lambda>i. (i, f i)) ks) = map (\<lambda>i. (i, f i)) (insort_key f j ks)" for j ks
      by (induction ks) auto
    then show ?case using Cons by simp
  qed simp
  show ?thesis
    unfolding hk_runtime_retain_ordered_engines_def Let_def insertion_sort sk by simp
qed

lemma override_engines:
  "rt_engines (hk_runtime_apply_backend_override rt (Some ids)) =
     map (\<lambda>i. rt_engines rt ! i) (sort_key (order_key rt (Some ids))
       (filter (\<lambda>i. selectable ids (rt_engines rt ! i)) [0..<length (rt_engines rt)]))"
proof (cases "rt_engines rt = []")
  case False
  have "filter (\<lambda>i. \<not> map (\<lambda>slot. let ident = cap_engine_id (vt_describe (es_vtable slot)) in
           ident = None \<or> (ident \<noteq> Some ''objc'' \<and> hk_engine_token_rank (es_vtable slot) (Some ids) = None))
         (rt_engines rt) ! i) [0..<length (rt_engines rt)] =
      filter (\<lambda>i. selectable ids (rt_engines rt ! i)) [0..<length (rt_engines rt)]"
    by (rule filter_cong) (auto simp: selectable_def named_at_def Let_def split: option.splits)
  then show ?thesis
    using False by (simp add: hk_runtime_apply_backend_override_def retain_sorted)
qed (simp add: hk_runtime_apply_backend_override_def)

section \<open>Enumeration\<close>

text \<open>The backends of a runtime: one entry for every group, that of its first engine on offer.\<close>

fun keep_new :: "'a list \<Rightarrow> ('a \<times> 'b) list \<Rightarrow> ('a \<times> 'b) list" where
  "keep_new seen [] = []"
| "keep_new seen ((x, y) # xs) =
     (if x \<in> set seen then keep_new seen xs else (x, y) # keep_new (seen @ [x]) xs)"

definition backends :: "'e hk_runtime \<Rightarrow> 'e \<Rightarrow> (string \<times> string) list" where
  "backends rt env = keep_new [] (List.map_filter (backend_of_slot rt env) (rt_engines rt))"

fun offer :: "('c \<Rightarrow> string \<Rightarrow> string \<Rightarrow> bool \<times> 'c) \<Rightarrow> (string \<times> string) list \<Rightarrow> 'c \<Rightarrow> 'c" where
  "offer f [] ctx = ctx"
| "offer f ((token, label) # rest) ctx =
     (let (go_on, ctx1) = f ctx token label in if go_on then offer f rest ctx1 else ctx1)"

lemma keep_new_spec:
  "distinct (map fst (keep_new seen xs))" "fst ` set (keep_new seen xs) = fst ` set xs - set seen"
proof -
  have "distinct (map fst (keep_new seen xs)) \<and> fst ` set (keep_new seen xs) = fst ` set xs - set seen"
    by (induction seen xs rule: keep_new.induct) auto
  then show "distinct (map fst (keep_new seen xs))" "fst ` set (keep_new seen xs) = fst ` set xs - set seen" by auto
qed

lemma enumerate_offers:
  "enumerate_from rt env f slots seen ctx =
     offer f (keep_new seen (List.map_filter (backend_of_slot rt env) slots)) ctx"
  by (induction slots arbitrary: seen ctx)
    (auto simp: List.map_filter_def Let_def split: option.splits prod.splits)

text \<open>The caller is offered every group once, in the order of registration, until it declines.\<close>

lemma enumerate_spec:
  fixes rt :: "'e hk_runtime"
  shows "hk_runtime_enumerate_backends rt env f ctx = offer f (backends rt env) ctx \<and>
   distinct (map fst (backends rt env)) \<and>
   fst ` set (backends rt env) = fst ` {b. \<exists>slot \<in> set (rt_engines rt). backend_of_slot rt env slot = Some b}"
proof -
  have sm: "set (List.map_filter g xs) = {b. \<exists>x \<in> set xs. g x = Some b}" for g :: "'e hk_engine_slot \<Rightarrow> (string \<times> string) option" and xs
    by (force simp: List.map_filter_def)
  show ?thesis
    using sm [of "backend_of_slot rt env" "rt_engines rt"]
    by (simp only: hk_runtime_enumerate_backends_def enumerate_offers backends_def keep_new_spec list.set(1) Diff_empty)
qed

section \<open>Printed versions\<close>

fun show_nat :: "nat \<Rightarrow> string" where
  "show_nat n = (if n < 10 then [char_of (48 + n)] else show_nat (n div 10) @ [char_of (48 + n mod 10)])"

declare show_nat.simps [simp del]

lemma decimal_snoc: "decimal (ds @ [c]) = 10 * decimal ds + (of_char c - 48)"
  by (simp add: decimal_def)

lemma show_nat_spec: "decimal (show_nat n) = n \<and> list_all c_isdigit (show_nat n) \<and> show_nat n \<noteq> []"
proof (induction n rule: show_nat.induct)
  case (1 n)
  have d: "of_char (char_of (48 + k) :: char) = 48 + k" if "k < 10" for k :: nat using that by simp
  then have dg: "c_isdigit (char_of (48 + k))" if "k < 10" for k :: nat using that by (simp add: c_isdigit_def)
  show ?case
    using 1 d [of n] d [of "n mod 10"] dg [of n] dg [of "n mod 10"]
    by (subst (1 2 3) show_nat.simps) (auto simp: decimal_snoc, simp add: decimal_def)
qed

lemma strtoul_show:
  assumes "n \<le> ULONG_MAX" "rest = [] \<or> \<not> c_isdigit (hd rest)"
  shows "strtoul10 (show_nat n @ rest) = Some (n, rest)"
proof -
  note s = show_nat_spec [of n]
  obtain c cs where c: "show_nat n = c # cs" "c_isdigit c" using s by (cases "show_nat n") auto
  have ns: "\<not> c_isspace c" using c(2) by (auto simp: c_isspace_def c_isdigit_def)
  have nsign: "c \<noteq> CHR ''-''" "c \<noteq> CHR ''+''" using c(2) by (auto simp: c_isdigit_def)
  have tw: "takeWhile c_isdigit (show_nat n @ rest) = show_nat n" "dropWhile c_isdigit (show_nat n @ rest) = rest"
    using s assms(2) by (cases rest; simp add: takeWhile_append2 dropWhile_append2 list_all_iff)+
  show ?thesis
    using s assms(1) ns nsign tw c(1) by (simp add: strtoul10_def Let_def ULONG_MAX_def)
qed

lemma version_part_show:
  assumes "v \<le> 99" "rest = [] \<or> \<not> c_isdigit (hd rest)"
  shows "version_part (''.'' @ show_nat v @ rest) = Some (v, rest)"
proof -
  have "v \<le> ULONG_MAX" using assms(1) by (simp add: ULONG_MAX_def)
  then show ?thesis using strtoul_show [of v rest] assms by (simp add: version_part_def)
qed

section \<open>The size of the engine table\<close>

lemma register_bound:
  "length (rt_engines rt) \<le> HK_RUNTIME_MAX_ENGINES \<Longrightarrow>
   length (rt_engines (snd (hk_runtime_register_engine rt vt ctx testing))) \<le> HK_RUNTIME_MAX_ENGINES"
  by (simp add: hk_runtime_register_engine_def)

lemma register_all_bound:
  "length (rt_engines rt) \<le> HK_RUNTIME_MAX_ENGINES \<Longrightarrow>
   length (rt_engines (register_all engines rt)) \<le> HK_RUNTIME_MAX_ENGINES"
  unfolding register_all_def hk_runtime_register_engine_with_context_def
  by (induction engines arbitrary: rt) (auto intro: register_bound)

lemma override_shrinks: "length (rt_engines (hk_runtime_apply_backend_override rt (Some ids))) \<le> length (rt_engines rt)"
  unfolding override_engines by (simp add: order_trans [OF length_filter_le])

lemma create_bound:
  assumes "hk_runtime_create_impl pf config backend_override s = (Inr rt, s')"
  shows "length (rt_engines rt) \<le> HK_RUNTIME_MAX_ENGINES"
proof -
  have reg: "length (rt_engines rt1) \<le> HK_RUNTIME_MAX_ENGINES"
    if "hk_runtime_register_platform_engines pf rt0 s0 = (rt1, s1)" "rt_engines rt0 = []" for rt0 rt1 :: "'a hk_runtime" and s0 s1
    using that register_all_bound [of "register_all (pf_first_engines pf) rt0"] register_all_bound [of rt0]
    by (auto simp: hk_runtime_register_platform_engines_def Let_def split: option.splits prod.splits
        intro!: register_all_bound)
  show ?thesis
    using assms
    by (simp add: hk_runtime_create_impl_def Let_def split: if_split_asm prod.split_asm option.split_asm)
      (auto dest!: reg intro: order_trans [OF override_shrinks])
qed

section \<open>Properties\<close>

text \<open>An explicit choice of backends. What remains of the engine table is exactly the engines the list
  names, by group or by engine id, and the built-in Objective-C engine; they stand in the order in
  which the list names them, unnamed ones last, and engines named at the same place, like the unnamed
  ones, keep the order of their registration.\<close>

lemma backend_override_spec:
  fixes rt :: "'e hk_runtime"
  assumes "length ids < 2 ^ 30"
  defines "engines \<equiv> rt_engines (hk_runtime_apply_backend_override rt (Some ids))"
  shows "mset engines = mset (filter (selectable ids) (rt_engines rt)) \<and>
    sorted_wrt (\<lambda>s t. before_named (named_at ids s) (named_at ids t)) engines \<and>
    (\<forall>k. filter (\<lambda>s. named_at ids s = k) engines = filter (\<lambda>s. named_at ids s = k) (filter (selectable ids) (rt_engines rt)))"
proof -
  let ?e = "\<lambda>i. rt_engines rt ! i" and ?key = "order_key rt (Some ids)"
  define base where "base = filter (\<lambda>i. selectable ids (?e i)) [0..<length (rt_engines rt)]"
  have eng: "engines = map ?e (sort_key ?key base)" by (simp add: engines_def override_engines base_def)
  have fm: "map ?e base = filter (selectable ids) (rt_engines rt)"
    unfolding base_def by (metis (no_types) comp_def filter_cong filter_map map_nth)
  have small: "k < 2 ^ 30" if "named_at ids s = Some k" for k and s :: "'e hk_engine_slot"
    using named_at_less [OF that] assms(1) by simp
  have m: "mset engines = mset (filter (selectable ids) (rt_engines rt))"
    unfolding eng fm [symmetric] by simp
  have key: "before_named (named_at ids (?e i)) (named_at ids (?e j))" if "?key i \<le> ?key j" for i j
  proof (cases "named_at ids (?e j)")
    case (Some y)
    have y: "int y < 2 ^ 30" using small [OF Some] by simp
    show ?thesis
      using that Some y by (cases "named_at ids (?e i)") (simp_all add: order_key_named before_named_def HK_BACKEND_UNRANKED_def)
  qed (simp add: before_named_def)
  have "sorted_wrt (\<lambda>i j. ?key i \<le> ?key j) (sort_key ?key base)"
    using sorted_sort_key [of ?key base] by (simp add: sorted_wrt_map)
  then have s: "sorted_wrt (\<lambda>s t. before_named (named_at ids s) (named_at ids t)) engines"
    unfolding eng sorted_wrt_map by (rule sorted_wrt_mono_rel [rotated]) (rule key)
  have "filter (\<lambda>s. named_at ids s = k) engines = filter (\<lambda>s. named_at ids s = k) (filter (selectable ids) (rt_engines rt))" for k
  proof -
    let ?same = "filter (\<lambda>i. named_at ids (?e i) = k) base"
    have "sorted (map ?key ?same)"
    proof (cases k)
      case (Some x)
      have "map ?key ?same = map (\<lambda>_. int x) ?same" by (rule map_cong) (auto simp: order_key_named Some)
      then show ?thesis by (simp add: map_replicate_const)
    next
      case None
      have "sorted_wrt (<) base" unfolding base_def by (intro sorted_wrt_filter) simp
      then have "sorted_wrt (<) ?same" by (rule sorted_wrt_filter)
      then show ?thesis
        unfolding sorted_wrt_map sorted_map by (rule sorted_wrt_mono_rel [rotated]) (auto simp: order_key_named None)
    qed
    then have "sort_key ?key ?same = ?same" by (rule sort_key_id_if_sorted)
    then show ?thesis
      unfolding eng fm [symmetric] filter_map comp_def by (simp add: filter_sort)
  qed
  with m s show ?thesis by blast
qed

text \<open>Reading a printed version: one, two or three decimal numbers with dots between them give the number
  that orders versions, major first, as long as the major number is below 429496 and the others
  below 100.\<close>

lemma ios_version_roundtrip:
  assumes "major < 429496" "minor < 100" "patch < 100"
  shows "unat (hk_runtime_parse_ios_version (Some (show_nat major))) = 10000 * major \<and>
    unat (hk_runtime_parse_ios_version (Some (show_nat major @ ''.'' @ show_nat minor))) = 10000 * major + 100 * minor \<and>
    unat (hk_runtime_parse_ios_version (Some (show_nat major @ ''.'' @ show_nat minor @ ''.'' @ show_nat patch))) =
      10000 * major + 100 * minor + patch"
proof -
  have u: "unat (HK_ENGINE_IOS_VERSION (of_nat major) (of_nat m) (of_nat p)) = 10000 * major + 100 * m + p"
    if "m < 100" "p < 100" for m p
  proof -
    have "HK_ENGINE_IOS_VERSION (of_nat major) (of_nat m) (of_nat p) = of_nat (10000 * major + 100 * m + p)"
      by (simp add: HK_ENGINE_IOS_VERSION_def mult.commute)
    moreover have "10000 * major + 100 * m + p < 2 ^ 32" using assms(1) that by simp
    ultimately show ?thesis by (simp add: unat_of_nat del: of_nat_add of_nat_mult)
  qed
  have m: "major \<le> ULONG_MAX" "\<not> major > 4294967295 div 10000" using assms(1) by (simp_all add: ULONG_MAX_def)
  have ne: "show_nat n \<noteq> []" for n using show_nat_spec by blast
  have dot: "\<not> c_isdigit (CHR ''.'')" by (simp add: c_isdigit_def)
  note one = strtoul_show [OF m(1), of "[]"]
  note two = strtoul_show [OF m(1), of "''.'' @ show_nat minor"] version_part_show [of minor "[]"]
  note three = strtoul_show [OF m(1), of "''.'' @ show_nat minor @ ''.'' @ show_nat patch"]
    version_part_show [of minor "''.'' @ show_nat patch"] version_part_show [of patch "[]"]
  show ?thesis
    using one two three m(2) ne dot assms u [of 0 0] u [of minor 0] u [of minor patch]
    by (simp add: hk_runtime_parse_ios_version_def version_part_def [of "[]"])
qed

text \<open>Above that bound the number wraps around in 32 bits.\<close>

lemma ios_version_wraps: "hk_runtime_parse_ios_version (Some ''429496.99.99'') = 2703"
proof -
  have s: "show_nat 429496 = ''429496''" "show_nat 99 = ''99''" by (simp_all add: show_nat.simps char_of_eq_iff)
  have "strtoul10 ''429496.99.99'' = Some (429496, ''.99.99'')"
    using strtoul_show [of 429496 "''.99.99''"] s(1) by (simp add: ULONG_MAX_def c_isdigit_def)
  moreover have "version_part ''.99.99'' = Some (99, ''.99'')" "version_part ''.99'' = Some (99, [])"
    using version_part_show [of 99 "''.99''"] version_part_show [of 99 "[]"] s(2) by (simp_all add: c_isdigit_def)
  ultimately show ?thesis by (simp add: hk_runtime_parse_ios_version_def HK_ENGINE_IOS_VERSION_def)
qed

section \<open>Concrete runs\<close>

definition named_slot :: "nat \<Rightarrow> string \<Rightarrow> string option \<Rightarrow> nat hk_engine_slot" where
  "named_slot n ident grp = \<lparr>es_vtable = (sample_vtable n)\<lparr>vt_describe := sample_capabilities\<lparr>cap_engine_id := Some ident,
     cap_backend_group := grp\<rparr>\<rparr>, es_ctx = 0, es_testing = False\<rparr>"

definition named_runtime :: "nat hk_runtime" where
  "named_runtime = sample_runtime\<lparr>rt_engines := [named_slot 1 ''rebind'' (Some ''HookKit''), named_slot 2 ''objc'' None,
     named_slot 3 ''provider-gum'' (Some ''gum''), named_slot 4 ''inline'' (Some ''HookKit'')]\<rparr>"

lemma named_run:
  "map (\<lambda>s. vt_id (es_vtable s)) (rt_engines (hk_runtime_apply_backend_override named_runtime (Some ''Gum, native''))) = [3, 1, 4, 2]"
  by code_simp

end
