(* ===== verification/HK_Arm64.thy ===== *)
theory HK_Arm64
  imports HK_Prelude
begin

text \<open>
  The ARM64 instruction relocator (\<open>src/native/hk_arm64.c\<close>): the encoders, the tests on instruction
  words, the branch that is written over an entry, and the rewriting of the instructions it displaces.
  A buffer of instruction words is a list of words; a function of the code that returns the number of
  bytes it wrote, 0 for a refusal, is a function to the list of words written, empty for a refusal.
\<close>

section \<open>Encoders\<close>

definition A64_NOP :: u32 where "A64_NOP = 0xD503201F"

definition A64_SCRATCH_JUMP :: u32 where "A64_SCRATCH_JUMP = 16"

definition A64_SCRATCH_LOAD :: u32 where "A64_SCRATCH_LOAD = 17"

definition HK_A64_MAX_RELOC_BYTES :: nat where "HK_A64_MAX_RELOC_BYTES = 24"

definition HK_A64_MAX_BRANCH_BYTES :: nat where "HK_A64_MAX_BRANCH_BYTES = 16"

definition a64_b :: "u64 \<Rightarrow> u32" where
  "a64_b delta = 0x14000000 OR ucast (signed_drop_bit 2 delta AND 0x03FFFFFF)"

definition a64_ldr_lit64 :: "u32 \<Rightarrow> u64 \<Rightarrow> u32" where
  "a64_ldr_lit64 rt delta = 0x58000000 OR push_bit 5 (ucast (signed_drop_bit 2 delta AND 0x7FFFF)) OR (rt AND 31)"

definition a64_br :: "u32 \<Rightarrow> u32" where
  "a64_br rn = 0xD61F0000 OR push_bit 5 (rn AND 31)"

definition a64_blr :: "u32 \<Rightarrow> u32" where
  "a64_blr rn = 0xD63F0000 OR push_bit 5 (rn AND 31)"

definition sign_extend :: "u64 \<Rightarrow> nat \<Rightarrow> u64" where
  "sign_extend value bits =
     (let msk = (if bits \<ge> 64 then NOT 0 else push_bit bits 1 - 1);
          v = value AND msk;
          sign = push_bit (bits - 1) 1;
          mag = (v XOR sign) - sign
      in if mag AND sign \<noteq> 0 then mag OR NOT msk else mag AND msk)"

definition branch_target :: "u64 \<Rightarrow> u64 \<Rightarrow> u64" where
  "branch_target pc offset_words = pc + offset_words * 4"

definition a64_set_imm19 :: "u32 \<Rightarrow> u64 \<Rightarrow> u32" where
  "a64_set_imm19 insn delta =
     (insn AND NOT (push_bit 5 0x7FFFF)) OR push_bit 5 (ucast (signed_drop_bit 2 delta AND 0x7FFFF))"

definition a64_set_imm14 :: "u32 \<Rightarrow> u64 \<Rightarrow> u32" where
  "a64_set_imm14 insn delta =
     (insn AND NOT (push_bit 5 0x3FFF)) OR push_bit 5 (ucast (signed_drop_bit 2 delta AND 0x3FFF))"

text \<open>The two words of a \<open>.quad\<close>, low half first.\<close>

definition quad :: "u64 \<Rightarrow> u32 list" where
  "quad v = [ucast v, ucast (drop_bit 32 v)]"

definition emit_abs_jump :: "u64 \<Rightarrow> u32 list" where
  "emit_abs_jump target =
     (let scratch = (if drop_bit 2 target AND 1 \<noteq> 0 then A64_SCRATCH_LOAD else A64_SCRATCH_JUMP)
      in [a64_ldr_lit64 scratch 8, a64_br scratch] @ quad target)"

definition emit_load_const :: "u32 \<Rightarrow> u64 \<Rightarrow> u32 list" where
  "emit_load_const rd v = [a64_ldr_lit64 rd 8, a64_b 12] @ quad v"

section \<open>Tests on instruction words\<close>

definition hk_arm64_is_terminator :: "u32 \<Rightarrow> bool" where
  "hk_arm64_is_terminator insn =
     (if insn AND 0xFFFFFC1F = 0xD65F0000 then True
      else if insn AND 0xFFFFFC1F = 0xD61F0000 then True
      else if insn AND 0xFC000000 = 0x14000000 then True
      else False)"

definition hk_arm64_insn_is_trap :: "u32 \<Rightarrow> bool" where
  "hk_arm64_insn_is_trap insn =
     (if insn AND 0xFFE0001F = 0xD4200000 then True
      else if insn AND 0xFFE0001F = 0xD4400000 then True
      else if insn AND 0xFFFF0000 = 0 then True
      else False)"

definition is_authenticated_terminator :: "u32 \<Rightarrow> bool" where
  "is_authenticated_terminator insn =
     (if insn = 0xD65F0BFF then True
      else if insn = 0xD65F0FFF then True
      else if insn AND 0xFFFFFC00 = 0xD71F0800 then True
      else if insn AND 0xFFFFFC00 = 0xD71F0C00 then True
      else if insn AND 0xFFFFFC1F = 0xD61F081F then True
      else if insn AND 0xFFFFFC1F = 0xD61F0C1F then True
      else False)"

text \<open>A window is given by its complete instructions.\<close>

definition hk_arm64_has_early_terminator :: "u32 list \<Rightarrow> bool" where
  "hk_arm64_has_early_terminator insns =
     list_ex (\<lambda>insn. hk_arm64_is_terminator insn \<or> is_authenticated_terminator insn) insns"

definition hk_arm64_has_aarch64_literal_load :: "u32 list \<Rightarrow> bool" where
  "hk_arm64_has_aarch64_literal_load insns =
     list_ex (\<lambda>insn. insn AND 0x3B000000 = 0x18000000 \<or> insn AND 0x1F000000 = 0x10000000) insns"

definition hk_arm64_branch_size :: "u64 \<Rightarrow> u64 \<Rightarrow> nat" where
  "hk_arm64_branch_size from_addr to_addr =
     (let delta = sint (to_addr - from_addr)
      in if delta \<ge> - (2 ^ 27) \<and> delta < 2 ^ 27 then 4 else HK_A64_MAX_BRANCH_BYTES)"

definition hk_arm64_emit_branch :: "u64 \<Rightarrow> u64 \<Rightarrow> u32 list" where
  "hk_arm64_emit_branch buf_addr dest =
     (if hk_arm64_branch_size buf_addr dest = 4 then [a64_b (dest - buf_addr)] else emit_abs_jump dest)"

section \<open>Relocation\<close>

definition in_window :: "u64 \<Rightarrow> u64 \<Rightarrow> u64 \<Rightarrow> bool" where
  "in_window patch_start patch_end target \<longleftrightarrow> target \<ge> patch_start \<and> target < patch_end"

text \<open>The three conditional forms: the target and the test retargeted at its own end plus 4.\<close>

definition conditional_form :: "u32 \<Rightarrow> u64 \<Rightarrow> (u64 \<times> u32) option" where
  "conditional_form insn pc =
     (if insn AND 0xFF000010 = 0x54000000
      then Some (branch_target pc (sign_extend (ucast (drop_bit 5 insn AND 0x7FFFF)) 19), a64_set_imm19 insn 8)
      else if insn AND 0x7E000000 = 0x34000000
      then Some (branch_target pc (sign_extend (ucast (drop_bit 5 insn AND 0x7FFFF)) 19), a64_set_imm19 insn 8)
      else if insn AND 0x7E000000 = 0x36000000
      then Some (branch_target pc (sign_extend (ucast (drop_bit 5 insn AND 0x3FFF)) 14), a64_set_imm14 insn 8)
      else None)"

text \<open>The load from a register that replaces a literal load; \<open>None\<close> for an unallocated form.\<close>

definition literal_load :: "u32 \<Rightarrow> u32 option" where
  "literal_load insn =
     (let opc = drop_bit 30 insn; v = drop_bit 26 insn AND 1 in
      if v = 0 then
        (if opc = 0 then Some 0xB9400000 else if opc = 1 then Some 0xF9400000
         else if opc = 2 then Some 0xB9800000 else None)
      else
        (if opc = 0 then Some 0xBD400000 else if opc = 1 then Some 0xFD400000
         else if opc = 2 then Some 0x3DC00000 else None))"

definition relocate_one :: "u32 \<Rightarrow> u64 \<Rightarrow> u64 \<Rightarrow> u64 \<Rightarrow> u32 list" where
  "relocate_one insn pc patch_start patch_end =
     (if insn AND 0x1F000000 = 0x10000000 then
        (let rd = insn AND 31;
             immlo = ucast (drop_bit 29 insn) AND 3;
             immhi = ucast (drop_bit 5 insn) AND 0x7FFFF;
             imm = sign_extend (push_bit 2 immhi OR immlo) 21;
             target = (if insn AND 0x80000000 \<noteq> 0 then (pc AND NOT 0xFFF) + push_bit 12 imm else pc + imm)
         in emit_load_const rd target)
      else if insn AND 0x7C000000 = 0x14000000 then
        (let target = branch_target pc (sign_extend (ucast (insn AND 0x03FFFFFF)) 26) in
         if in_window patch_start patch_end target then []
         else if insn AND 0x80000000 = 0 then emit_abs_jump target
         else [a64_ldr_lit64 A64_SCRATCH_JUMP 12, a64_blr A64_SCRATCH_JUMP, a64_b 12] @ quad target)
      else (case conditional_form insn pc of
        Some (target, retargeted) \<Rightarrow>
          (if in_window patch_start patch_end target then []
           else [retargeted, a64_b 20] @ emit_abs_jump target)
      | None \<Rightarrow>
          (if insn AND 0x3B000000 = 0x18000000 then
             (let target = branch_target pc (sign_extend (ucast (drop_bit 5 insn AND 0x7FFFF)) 19) in
              if drop_bit 30 insn = 3 \<and> drop_bit 26 insn AND 1 = 0 then [A64_NOP]
              else (case literal_load insn of None \<Rightarrow> []
                | Some ld \<Rightarrow> emit_load_const A64_SCRATCH_LOAD target @
                    [ld OR push_bit 5 A64_SCRATCH_LOAD OR (insn AND 31)]))
           else [insn])))"

text \<open>The loop from instruction \<open>i\<close>, with the words written so far; the list is empty for a refusal.\<close>

fun relocate_from :: "u32 list \<Rightarrow> u64 \<Rightarrow> nat \<Rightarrow> nat \<Rightarrow> nat \<Rightarrow> u32 list \<Rightarrow> u32 list" where
  "relocate_from [] src_addr n dst_capacity i out = out"
| "relocate_from (insn # insns) src_addr n dst_capacity i out =
     (if 4 * length out + HK_A64_MAX_RELOC_BYTES > dst_capacity then []
      else let emitted = relocate_one insn (src_addr + of_nat (4 * i)) src_addr (src_addr + of_nat (4 * n)) in
      if emitted = [] then []
      else relocate_from insns src_addr n dst_capacity (i + 1) (out @ emitted))"

definition hk_arm64_relocate :: "u32 list \<Rightarrow> u64 \<Rightarrow> nat \<Rightarrow> u32 list" where
  "hk_arm64_relocate src src_addr dst_capacity = relocate_from src src_addr (length src) dst_capacity 0 []"

section \<open>What is written\<close>

lemma emit_abs_jump_length [simp]: "length (emit_abs_jump t) = 4"
  by (simp add: emit_abs_jump_def Let_def quad_def)

lemma emit_load_const_length [simp]: "length (emit_load_const rd v) = 4"
  by (simp add: emit_load_const_def quad_def)

lemma relocate_one_length: "length (relocate_one insn pc ps pe) \<le> 6"
  by (simp add: relocate_one_def Let_def quad_def split: option.splits prod.splits)

lemma relocate_from_spec:
  "relocate_from insns a n cap i out \<noteq> [] \<Longrightarrow>
   relocate_from insns a n cap i out = out @ concat (map (\<lambda>(j, insn). relocate_one insn (a + of_nat (4 * j)) a (a + of_nat (4 * n)))
       (zip [i..<i + length insns] insns)) \<and>
   (\<forall>j < length insns. relocate_one (insns ! j) (a + of_nat (4 * (i + j))) a (a + of_nat (4 * n)) \<noteq> [])"
proof (induction insns arbitrary: i out)
  case Nil
  then show ?case by simp
next
  case (Cons insn insns)
  define e where "e = relocate_one insn (a + of_nat (4 * i)) a (a + of_nat (4 * n))"
  have step: "relocate_from (insn # insns) a n cap i out = relocate_from insns a n cap (i + 1) (out @ e)" "e \<noteq> []"
    using Cons.prems by (auto simp: e_def Let_def split: if_splits)
  have "relocate_from insns a n cap (i + 1) (out @ e) \<noteq> []" using Cons.prems step(1) by metis
  note IH = Cons.IH [OF this]
  have z: "zip [i..<i + length (insn # insns)] (insn # insns) = (i, insn) # zip [i + 1..<i + 1 + length insns] insns"
    by (subst upt_conv_Cons) auto
  show ?case
  proof (intro conjI allI impI)
    show "relocate_from (insn # insns) a n cap i out = out @ concat (map (\<lambda>(j, insn). relocate_one insn
        (a + of_nat (4 * j)) a (a + of_nat (4 * n))) (zip [i..<i + length (insn # insns)] (insn # insns)))"
      unfolding step(1) z by (subst conjunct1 [OF IH]) (simp add: e_def)
    fix j assume "j < length (insn # insns)"
    then show "relocate_one ((insn # insns) ! j) (a + of_nat (4 * (i + j))) a (a + of_nat (4 * n)) \<noteq> []"
      using step(2) conjunct2 [OF IH] by (cases j) (auto simp: e_def)
  qed
qed

lemma relocate_from_bound:
  "4 * length out \<le> cap \<Longrightarrow> 4 * length (relocate_from insns a n cap i out) \<le> cap"
proof (induction insns arbitrary: i out)
  case (Cons insn insns)
  then show ?case
    using relocate_one_length [of insn "a + of_nat (4 * i)" a "a + of_nat (4 * n)"]
    by (auto simp: Let_def HK_A64_MAX_RELOC_BYTES_def)
qed simp

end
