(* ===== verification/HK_A64.thy ===== *)
theory HK_A64
  imports HK_Arm64
begin

text \<open>
  A small semantics of A64, written from the fields of the encodings and independent of the masks of
  \<open>src/native/hk_arm64.c\<close>: the PC-relative instructions, the loads and branches a relocation writes,
  and every other instruction through a parameter \<open>other\<close> that does not see the program counter.
  It is what the relocator is measured against. It states the instruction set and translates no line of
  the repository.

  What falls to \<open>Other\<close> runs on with the next word. That includes two groups of encodings that are not so on
  a processor with the extensions: \<open>BC.cond\<close>, which the relocator copies verbatim as well although it depends on
  the program counter (\<open>src/native/hk_arm64.c:293\<close>), and the branches and calls with pointer
  authentication (\<open>BRAA\<close>, \<open>BLRAA\<close> and theirs). What is proved says nothing of a window that holds one.
\<close>

section \<open>Processor states\<close>

record cpu =
  cx :: "nat \<Rightarrow> u64"
  csp :: u64
  cv :: "nat \<Rightarrow> 128 word"
  cflags :: "4 word"
  cmem :: memory

type_synonym others = "u32 \<Rightarrow> cpu \<Rightarrow> cpu option"

definition get_x :: "nat \<Rightarrow> cpu \<Rightarrow> u64" where
  "get_x n c = (if n = 31 then 0 else cx c n)"

definition set_x :: "nat \<Rightarrow> u64 \<Rightarrow> cpu \<Rightarrow> cpu" where
  "set_x n v c = (if n = 31 then c else c\<lparr>cx := (cx c)(n := v)\<rparr>)"

definition set_v :: "nat \<Rightarrow> 128 word \<Rightarrow> cpu \<Rightarrow> cpu" where
  "set_v n v c = c\<lparr>cv := (cv c)(n := v)\<rparr>"

definition base_reg :: "nat \<Rightarrow> cpu \<Rightarrow> u64" where
  "base_reg n c = (if n = 31 then csp c else cx c n)"

text \<open>\<open>c\<close> and \<open>d\<close> are equal but for the intra-procedure-call registers X16 and X17.\<close>

definition eq_scratch :: "cpu \<Rightarrow> cpu \<Rightarrow> bool" where
  "eq_scratch c d \<longleftrightarrow> (\<forall>n. n \<noteq> 16 \<longrightarrow> n \<noteq> 17 \<longrightarrow> cx c n = cx d n) \<and> csp c = csp d \<and> cv c = cv d \<and>
     cflags c = cflags d \<and> cmem c = cmem d"

section \<open>Instructions\<close>

datatype width = W32 | X64 | SW32 | S32 | D64 | Q128

datatype a64_insn =
    Adr nat u64
  | Adrp nat u64
  | B u64
  | Bl u64
  | Bcond u32 u64
  | Cb bool bool nat u64
  | Tb nat bool nat u64
  | LdrLit width nat u64
  | Prfm
  | Ldr width nat nat u64
  | Br nat
  | Blr nat
  | Nop
  | Unallocated
  | Other u32

definition fld :: "u32 \<Rightarrow> nat \<Rightarrow> nat \<Rightarrow> u32" where
  "fld w lo k = take_bit k (drop_bit lo w)"

definition reg :: "u32 \<Rightarrow> nat \<Rightarrow> nat" where
  "reg w lo = unat (fld w lo 5)"

text \<open>A signed immediate of \<open>k\<close> bits, counted in words of 4 bytes.\<close>

definition word_offset :: "u32 \<Rightarrow> nat \<Rightarrow> nat \<Rightarrow> u64" where
  "word_offset w lo k = signed_take_bit (k - 1) (ucast (fld w lo k)) * 4"

definition adr_imm :: "u32 \<Rightarrow> u64" where
  "adr_imm w = signed_take_bit 20 (ucast (fld w 5 19) * 4 + ucast (fld w 29 2))"

definition lit_width :: "u32 \<Rightarrow> width option" where
  "lit_width w =
     (if \<not> bit w 26 then
        (if fld w 30 2 = 0 then Some W32 else if fld w 30 2 = 1 then Some X64
         else if fld w 30 2 = 2 then Some SW32 else None)
      else
        (if fld w 30 2 = 0 then Some S32 else if fld w 30 2 = 1 then Some D64
         else if fld w 30 2 = 2 then Some Q128 else None))"

definition ldr_width :: "u32 \<Rightarrow> width option" where
  "ldr_width w =
     (let sz = fld w 30 2; opc = fld w 22 2 in
      if \<not> bit w 26 then
        (if sz = 2 \<and> opc = 1 then Some W32 else if sz = 3 \<and> opc = 1 then Some X64
         else if sz = 2 \<and> opc = 2 then Some SW32 else None)
      else
        (if sz = 2 \<and> opc = 1 then Some S32 else if sz = 3 \<and> opc = 1 then Some D64
         else if sz = 0 \<and> opc = 3 then Some Q128 else None))"

primrec width_bytes :: "width \<Rightarrow> u64" where
  "width_bytes W32 = 4" | "width_bytes X64 = 8" | "width_bytes SW32 = 4"
| "width_bytes S32 = 4" | "width_bytes D64 = 8" | "width_bytes Q128 = 16"

definition a64_decode :: "u32 \<Rightarrow> a64_insn" where
  "a64_decode w =
     (if fld w 24 5 = 0b10000 then (if bit w 31 then Adrp else Adr) (reg w 0) (adr_imm w)
      else if fld w 26 5 = 0b00101 then (if bit w 31 then Bl else B) (word_offset w 0 26)
      else if fld w 24 8 = 0b01010100 \<and> \<not> bit w 4 then Bcond (fld w 0 4) (word_offset w 5 19)
      else if fld w 25 6 = 0b011010 then Cb (bit w 31) (bit w 24) (reg w 0) (word_offset w 5 19)
      else if fld w 25 6 = 0b011011 then
        Tb (unat (fld w 19 5) + (if bit w 31 then 32 else 0)) (bit w 24) (reg w 0) (word_offset w 5 14)
      else if fld w 27 3 = 0b011 \<and> fld w 24 2 = 0 then
        (if fld w 30 2 = 3 \<and> \<not> bit w 26 then Prfm
         else case lit_width w of None \<Rightarrow> Unallocated | Some k \<Rightarrow> LdrLit k (reg w 0) (word_offset w 5 19))
      else if fld w 27 3 = 0b111 \<and> fld w 24 2 = 1 \<and> ldr_width w \<noteq> None then
        Ldr (the (ldr_width w)) (reg w 0) (reg w 5) (ucast (fld w 10 12) * width_bytes (the (ldr_width w)))
      else if fld w 10 22 = 0x3587C0 \<and> fld w 0 5 = 0 then Br (reg w 5)
      else if fld w 10 22 = 0x3597C0 \<and> fld w 0 5 = 0 then Br (reg w 5)
      else if fld w 10 22 = 0x358FC0 \<and> fld w 0 5 = 0 then Blr (reg w 5)
      else if w = 0xD503201F then Nop
      else Other w)"

section \<open>Execution\<close>

datatype flow = Next | Jump u64 | Call u64

definition cond_holds :: "u32 \<Rightarrow> 4 word \<Rightarrow> bool" where
  "cond_holds cond f =
     (let n = bit f 3; z = bit f 2; cy = bit f 1; v = bit f 0; k = drop_bit 1 cond;
          r = (if k = 0 then z else if k = 1 then cy else if k = 2 then n else if k = 3 then v
               else if k = 4 then cy \<and> \<not> z else if k = 5 then n = v else if k = 6 then n = v \<and> \<not> z else True)
      in if bit cond 0 \<and> cond \<noteq> 15 then \<not> r else r)"

primrec load :: "width \<Rightarrow> nat \<Rightarrow> u64 \<Rightarrow> cpu \<Rightarrow> cpu option" where
  "load W32 rt a c = map_option (\<lambda>v. set_x rt (ucast v) c) (rd32 (cmem c) a 0)"
| "load X64 rt a c = map_option (\<lambda>v. set_x rt v c) (rd64 (cmem c) a 0)"
| "load SW32 rt a c = map_option (\<lambda>v. set_x rt (scast v) c) (rd32 (cmem c) a 0)"
| "load S32 rt a c = map_option (\<lambda>v. set_v rt (ucast v) c) (rd32 (cmem c) a 0)"
| "load D64 rt a c = map_option (\<lambda>v. set_v rt (ucast v) c) (rd64 (cmem c) a 0)"
| "load Q128 rt a c = (case rd64 (cmem c) a 0 of None \<Rightarrow> None | Some lo \<Rightarrow>
     map_option (\<lambda>hi. set_v rt (ucast lo OR push_bit 64 (ucast hi)) c) (rd64 (cmem c) a 8))"

fun a64_exec :: "others \<Rightarrow> a64_insn \<Rightarrow> u64 \<Rightarrow> cpu \<Rightarrow> (flow \<times> cpu) option" where
  "a64_exec other (Adr rd imm) pc c = Some (Next, set_x rd (pc + imm) c)"
| "a64_exec other (Adrp rd imm) pc c = Some (Next, set_x rd (push_bit 12 (drop_bit 12 pc) + imm * 4096) c)"
| "a64_exec other (B off) pc c = Some (Jump (pc + off), c)"
| "a64_exec other (Bl off) pc c = Some (Call (pc + off), c)"
| "a64_exec other (Bcond cond off) pc c = Some (if cond_holds cond (cflags c) then Jump (pc + off) else Next, c)"
| "a64_exec other (Cb sf nz rt off) pc c =
     (let v = (if sf then get_x rt c else take_bit 32 (get_x rt c))
      in Some (if (v \<noteq> 0) = nz then Jump (pc + off) else Next, c))"
| "a64_exec other (Tb b nz rt off) pc c = Some (if bit (get_x rt c) b = nz then Jump (pc + off) else Next, c)"
| "a64_exec other (LdrLit k rt off) pc c = map_option (Pair Next) (load k rt (pc + off) c)"
| "a64_exec other Prfm pc c = Some (Next, c)"
| "a64_exec other (Ldr k rt rn off) pc c = map_option (Pair Next) (load k rt (base_reg rn c + off) c)"
| "a64_exec other (Br rn) pc c = Some (Jump (get_x rn c), c)"
| "a64_exec other (Blr rn) pc c = Some (Call (get_x rn c), c)"
| "a64_exec other Nop pc c = Some (Next, c)"
| "a64_exec other Unallocated pc c = None"
| "a64_exec other (Other w) pc c = map_option (Pair Next) (other w c)"

text \<open>A step at an address, and a number of steps. A call leaves its return address in X30.\<close>

definition a64_step :: "others \<Rightarrow> u64 \<times> cpu \<Rightarrow> (u64 \<times> cpu) option" where
  "a64_step other s = (let (pc, c) = s in
     case rd32 (cmem c) pc 0 of None \<Rightarrow> None | Some w \<Rightarrow>
       (case a64_exec other (a64_decode w) pc c of
          None \<Rightarrow> None
        | Some (Next, c1) \<Rightarrow> Some (pc + 4, c1)
        | Some (Jump t, c1) \<Rightarrow> Some (t, c1)
        | Some (Call t, c1) \<Rightarrow> Some (t, set_x 30 (pc + 4) c1)))"

primrec a64_run :: "others \<Rightarrow> nat \<Rightarrow> u64 \<times> cpu \<Rightarrow> (u64 \<times> cpu) option" where
  "a64_run other 0 s = Some s"
| "a64_run other (Suc n) s = Option.bind (a64_step other s) (a64_run other n)"

lemma a64_run_add: "a64_run other (m + n) s = Option.bind (a64_run other m s) (a64_run other n)"
  by (induction m arbitrary: s) (auto split: bind_split)

text \<open>The instruction words \<open>ws\<close> stand at \<open>a\<close>.\<close>

definition code_at :: "memory \<Rightarrow> u64 \<Rightarrow> u32 list \<Rightarrow> bool" where
  "code_at m a ws \<longleftrightarrow> (\<forall>i < length ws. rd32 m (a + of_nat (4 * i)) 0 = Some (ws ! i))"

lemma code_at_nth: "code_at m a ws \<Longrightarrow> i < length ws \<Longrightarrow> rd32 m (a + of_nat (4 * i)) 0 = Some (ws ! i)"
  by (simp add: code_at_def)

lemma code_at_Cons: "code_at m a (w # ws) \<longleftrightarrow> rd32 m a 0 = Some w \<and> code_at m (a + 4) ws"
  by (auto simp: code_at_def less_Suc_eq_0_disj add.assoc)

lemma code_at_append: "code_at m a (us @ ws) \<longleftrightarrow> code_at m a us \<and> code_at m (a + of_nat (4 * length us)) ws"
  by (induction us arbitrary: a) (auto simp: code_at_Cons add_ac, simp add: code_at_def)

lemma rd32_offset: "rd32 m (p + of_nat k) i = rd32 m p (k + i)"
  by (simp add: rd32_def rd8_def add_ac)

lemma rd64_halves:
  assumes "rd32 m a 0 = Some (ucast v)" "rd32 m (a + 4) 0 = Some (ucast (drop_bit 32 v))"
  shows "rd64 m a 0 = Some v"
proof -
  have "rd32 m a 4 = Some (ucast (drop_bit 32 v))" using assms(2) rd32_offset [of m a 4 0] by simp
  moreover have "ucast (ucast v :: u32) OR push_bit 32 (ucast (ucast (drop_bit 32 v) :: u32)) = v"
    by (rule bit_word_eqI) (auto simp: bit_simps)
  ultimately show ?thesis using assms(1) by (simp add: rd64_def)
qed

section \<open>Fields and masks\<close>

lemma sign_extend_eq:
  assumes "0 < bits" "bits < 64"
  shows "sign_extend v bits = signed_take_bit (bits - 1) v"
proof -
  obtain n where n: "bits = Suc n" "n < 63" using assms by (cases bits) auto
  define msk :: u64 where "msk = mask (Suc n)"
  define u where "u = v AND msk"
  define sign :: u64 where "sign = push_bit n 1"
  have u: "u = take_bit (Suc n) v" by (simp add: u_def msk_def take_bit_eq_mask)
  have bs: "bit sign i \<longleftrightarrow> i = n" for i using n by (auto simp: sign_def bit_simps)
  have se: "sign_extend v bits = (let mag = (u XOR sign) - sign in if mag AND sign \<noteq> 0 then mag OR NOT msk else mag AND msk)"
    using n by (simp add: sign_extend_def Let_def u_def msk_def sign_def mask_eq_exp_minus_1)
  show ?thesis
  proof (cases "bit v n")
    case False
    have "u XOR sign = u OR sign" by (rule bit_word_eqI) (use False bs in \<open>auto simp: u bit_simps\<close>)
    moreover have "u + sign = u OR sign" by (rule disjunctive_add) (use False bs in \<open>auto simp: u bit_simps\<close>)
    ultimately have mag: "(u XOR sign) - sign = u" by (simp add: algebra_simps)
    have "u AND sign = 0" "u AND msk = take_bit n v"
      by (rule bit_word_eqI; use False bs in \<open>auto simp: u msk_def bit_simps less_Suc_eq\<close>)+
    then show ?thesis
      unfolding se mag Let_def using False n by (simp add: signed_take_bit_def)
  next
    case True
    have x: "u XOR sign = take_bit n v"
      by (rule bit_word_eqI) (use True bs in \<open>auto simp: u bit_simps less_Suc_eq\<close>)
    have "NOT (mask n) = - sign" by (simp add: sign_def mask_eq_exp_minus_1 minus_eq_not_minus_1)
    moreover have "take_bit n v + NOT (mask n) = take_bit n v OR NOT (mask n)"
      by (rule disjunctive_add) (auto simp: bit_simps)
    ultimately have mag: "(u XOR sign) - sign = take_bit n v OR NOT (mask n)" by (simp add: x)
    have "bit ((take_bit n v OR NOT (mask n)) AND sign) n" using bs n by (auto simp: bit_simps)
    then have nz: "(take_bit n v OR NOT (mask n)) AND sign \<noteq> 0" by (metis bit_0_eq bot_apply bot_bool_def)
    have "(take_bit n v OR NOT (mask n)) OR NOT msk = take_bit n v OR NOT (mask n)"
      by (rule bit_word_eqI) (auto simp: msk_def bit_simps)
    then show ?thesis
      unfolding se mag Let_def using nz True n by (simp add: signed_take_bit_def)
  qed
qed

lemma field_mask:
  fixes w v :: u32
  assumes "n + k \<le> 32" "take_bit k v = v"
  shows "w AND push_bit n (mask k) = push_bit n v \<longleftrightarrow> fld w n k = v"
proof -
  have a: "w AND push_bit n (mask k) = push_bit n (fld w n k)"
    by (rule bit_word_eqI) (use assms(1) in \<open>auto simp: fld_def bit_simps\<close>)
  have "fld w n k = v" if "push_bit n (fld w n k) = push_bit n v"
  proof (rule bit_word_eqI)
    fix i assume "i < LENGTH(32)"
    have "bit (push_bit n (fld w n k)) (n + i) = bit (push_bit n v) (n + i)" using that by simp
    moreover have "bit v i \<Longrightarrow> i < k" using assms(2) by (metis bit_take_bit_iff)
    ultimately show "bit (fld w n k) i = bit v i"
      using assms(1) by (auto simp: fld_def bit_simps)
  qed
  then show ?thesis unfolding a by auto
qed

lemma bit_test: "bit w n \<longleftrightarrow> fld w n 1 = 1" "\<not> bit w n \<longleftrightarrow> fld w n 1 = 0" for w :: u32
  by (auto simp: fld_def take_bit_Suc bit_iff_odd_drop_bit odd_iff_mod_2_eq_one even_iff_mod_2_eq_zero)

lemma and_or_fields:
  fixes w :: u32
  assumes "n + k \<le> m" "m + j \<le> 32" "take_bit k u = u" "take_bit j v = v"
  shows "w AND (push_bit n (mask k) OR push_bit m (mask j)) = push_bit n u OR push_bit m v \<longleftrightarrow>
    fld w n k = u \<and> fld w m j = v"
proof -
  have s: "(push_bit n a OR push_bit m b) AND push_bit n (mask k) = push_bit n a"
    "(push_bit n a OR push_bit m b) AND push_bit m (mask j) = push_bit m b"
    if "take_bit k a = a" "take_bit j b = b" for a b :: u32
  proof -
    have "bit a i \<Longrightarrow> i < k" "bit b i \<Longrightarrow> i < j" for i using that by (metis bit_take_bit_iff)+
    with assms(1,2) show "(push_bit n a OR push_bit m b) AND push_bit n (mask k) = push_bit n a"
      "(push_bit n a OR push_bit m b) AND push_bit m (mask j) = push_bit m b"
      by - (rule bit_word_eqI; fastforce simp: bit_simps)+
  qed
  have d: "w AND (push_bit n (mask k) OR push_bit m (mask j)) = push_bit n u OR push_bit m v \<longleftrightarrow>
      w AND push_bit n (mask k) = push_bit n u \<and> w AND push_bit m (mask j) = push_bit m v"
  proof
    assume e: "w AND (push_bit n (mask k) OR push_bit m (mask j)) = push_bit n u OR push_bit m v"
    have "w AND x = (w AND (push_bit n (mask k) OR push_bit m (mask j))) AND x"
      if "x = push_bit n (mask k) \<or> x = push_bit m (mask j)" for x
      using that by (auto simp: ac_simps bit.conj_disj_distrib intro!: bit_word_eqI simp: bit_simps)
    then show "w AND push_bit n (mask k) = push_bit n u \<and> w AND push_bit m (mask j) = push_bit m v"
      unfolding e using s assms by simp
  qed (simp add: bit.conj_disj_distrib)
  show ?thesis unfolding d using field_mask [of n k u w] field_mask [of m j v w] assms by simp
qed

lemma mask_tests:
  fixes w :: u32
  shows "w AND 0x1F000000 = 0x10000000 \<longleftrightarrow> fld w 24 5 = 16"
    "w AND 0x7C000000 = 0x14000000 \<longleftrightarrow> fld w 26 5 = 5"
    "w AND 0x7E000000 = 0x34000000 \<longleftrightarrow> fld w 25 6 = 26"
    "w AND 0x7E000000 = 0x36000000 \<longleftrightarrow> fld w 25 6 = 27"
    "w AND 0xFF000010 = 0x54000000 \<longleftrightarrow> fld w 24 8 = 84 \<and> \<not> bit w 4"
    "w AND 0x3B000000 = 0x18000000 \<longleftrightarrow> fld w 27 3 = 3 \<and> fld w 24 2 = 0"
    "w AND 0x80000000 = 0 \<longleftrightarrow> \<not> bit w 31"
proof -
  show "w AND 0x1F000000 = 0x10000000 \<longleftrightarrow> fld w 24 5 = 16"
    using field_mask [of 24 5 16 w] by (simp add: mask_eq_exp_minus_1)
  show "w AND 0x7C000000 = 0x14000000 \<longleftrightarrow> fld w 26 5 = 5"
    using field_mask [of 26 5 5 w] by (simp add: mask_eq_exp_minus_1)
  show "w AND 0x7E000000 = 0x34000000 \<longleftrightarrow> fld w 25 6 = 26"
    using field_mask [of 25 6 26 w] by (simp add: mask_eq_exp_minus_1)
  show "w AND 0x7E000000 = 0x36000000 \<longleftrightarrow> fld w 25 6 = 27"
    using field_mask [of 25 6 27 w] by (simp add: mask_eq_exp_minus_1)
  show "w AND 0xFF000010 = 0x54000000 \<longleftrightarrow> fld w 24 8 = 84 \<and> \<not> bit w 4"
    using and_or_fields [of 4 1 24 8 0 84 w] by (simp add: mask_eq_exp_minus_1 bit_test(2) conj_commute)
  show "w AND 0x3B000000 = 0x18000000 \<longleftrightarrow> fld w 27 3 = 3 \<and> fld w 24 2 = 0"
    using and_or_fields [of 24 2 27 3 0 3 w] by (simp add: mask_eq_exp_minus_1 conj_commute)
  show "w AND 0x80000000 = 0 \<longleftrightarrow> \<not> bit w 31"
    using field_mask [of 31 1 0 w] by (simp add: mask_eq_exp_minus_1 bit_test(2))
qed

lemma and_fields:
  fixes w :: u32
  shows "w AND 31 = fld w 0 5" "drop_bit 5 w AND 0x7FFFF = fld w 5 19" "drop_bit 5 w AND 0x3FFF = fld w 5 14"
    "w AND 0x03FFFFFF = fld w 0 26" "drop_bit 26 w AND 1 = fld w 26 1"
  by (simp_all add: fld_def take_bit_eq_mask mask_eq_exp_minus_1)

text \<open>The offsets the code computes are those of the instruction.\<close>

lemma code_offsets:
  "branch_target pc (sign_extend (ucast (w AND 0x03FFFFFF)) 26) = pc + word_offset w 0 26"
  "branch_target pc (sign_extend (ucast (drop_bit 5 w AND 0x7FFFF)) 19) = pc + word_offset w 5 19"
  "branch_target pc (sign_extend (ucast (drop_bit 5 w AND 0x3FFF)) 14) = pc + word_offset w 5 14"
  by (simp_all only: branch_target_def word_offset_def and_fields) (simp_all add: sign_extend_eq)

lemma code_adr_imm:
  "sign_extend (push_bit 2 (ucast (drop_bit 5 w) AND 0x7FFFF) OR (ucast (drop_bit 29 w) AND 3)) 21 = adr_imm w"
  for w :: u32
proof -
  have a: "(ucast (drop_bit 5 w) AND 0x7FFFF :: u64) = ucast (fld w 5 19)"
    "(ucast (drop_bit 29 w) AND 3 :: u64) = ucast (fld w 29 2)"
    by (simp_all add: fld_def unsigned_take_bit_eq take_bit_eq_mask mask_eq_exp_minus_1 unsigned_and_eq)
  have b: "push_bit 2 (ucast (fld w 5 19)) OR ucast (fld w 29 2) = (ucast (fld w 5 19) * 4 + ucast (fld w 29 2) :: u64)"
  proof -
    have "push_bit 2 (ucast (fld w 5 19)) + ucast (fld w 29 2) = (push_bit 2 (ucast (fld w 5 19)) OR ucast (fld w 29 2) :: u64)"
      by (rule disjunctive_add) (auto simp: bit_simps fld_def)
    then show ?thesis by (simp add: push_bit_eq_mult)
  qed
  show ?thesis unfolding a b by (simp add: sign_extend_eq adr_imm_def)
qed

lemma adrp_page: "x AND NOT 0xFFF = push_bit 12 (drop_bit 12 x)" for x :: u64
proof -
  have "(0xFFF :: u64) = mask 12" by (simp add: mask_eq_exp_minus_1)
  then show ?thesis by (simp add: bit_eq_iff bit_simps) auto
qed

text \<open>Fields of the words the relocator writes.\<close>

lemma fld_or:
  "fld (x OR y) lo k = fld x lo k OR fld y lo k" "fld (x AND y) lo k = fld x lo k AND fld y lo k" for x y :: u32
  by (simp_all add: fld_def)

lemma fld_reg_high: "5 \<le> lo \<Longrightarrow> fld (fld w 0 5) lo k = 0"
  by (rule bit_word_eqI) (auto simp: fld_def bit_simps)

lemma fld_reg_low: "fld (fld w 0 5) 0 5 = fld w 0 5"
  by (simp add: fld_def)

lemma bit_or_reg: "5 \<le> j \<Longrightarrow> bit (x OR fld w 0 5) j = bit x j" for x :: u32
  by (auto simp: fld_def bit_simps)

lemma fld_or_reg: "5 \<le> lo \<Longrightarrow> fld (x OR fld w 0 5) lo k = fld x lo k"
  by (simp add: fld_or fld_reg_high)

lemma reg_or_reg: "fld x 0 5 = 0 \<Longrightarrow> reg (x OR fld w 0 5) 0 = reg w 0"
  by (simp add: reg_def fld_or fld_reg_low)

lemma reg_or_reg5: "reg (x OR fld w 0 5) 5 = reg x 5"
  by (simp add: reg_def fld_or_reg)

lemma offset_or_reg: "5 \<le> lo \<Longrightarrow> word_offset (x OR fld w 0 5) lo k = word_offset x lo k"
  by (simp add: word_offset_def fld_or_reg)

lemma ldr_width_or_reg: "ldr_width (x OR fld w 0 5) = ldr_width x"
  by (simp add: ldr_width_def fld_or_reg bit_or_reg)

lemma lit_width_or_reg: "lit_width (x OR fld w 0 5) = lit_width x"
  by (simp add: lit_width_def fld_or_reg bit_or_reg)

lemma eval_fields:
  "fld (numeral n) lo k = take_bit k (drop_bit lo (numeral n))"
  "lit_width (numeral n) = (if \<not> bit (numeral n :: u32) 26 then
     (if fld (numeral n) 30 2 = 0 then Some W32 else if fld (numeral n) 30 2 = 1 then Some X64
      else if fld (numeral n) 30 2 = 2 then Some SW32 else None)
   else (if fld (numeral n) 30 2 = 0 then Some S32 else if fld (numeral n) 30 2 = 1 then Some D64
      else if fld (numeral n) 30 2 = 2 then Some Q128 else None))"
  "ldr_width (numeral n) = (let sz = fld (numeral n) 30 2; opc = fld (numeral n) 22 2 in
     if \<not> bit (numeral n :: u32) 26 then
       (if sz = 2 \<and> opc = 1 then Some W32 else if sz = 3 \<and> opc = 1 then Some X64
        else if sz = 2 \<and> opc = 2 then Some SW32 else None)
     else
       (if sz = 2 \<and> opc = 1 then Some S32 else if sz = 3 \<and> opc = 1 then Some D64
        else if sz = 0 \<and> opc = 3 then Some Q128 else None))"
  "word_offset (numeral n) lo k = signed_take_bit (k - 1) (ucast (fld (numeral n) lo k)) * 4"
  "reg (numeral n) lo = unat (fld (numeral n) lo 5)"
  by (simp_all only: fld_def lit_width_def ldr_width_def word_offset_def reg_def)

lemmas or_reg = fld_or_reg bit_or_reg reg_or_reg reg_or_reg5 offset_or_reg ldr_width_or_reg lit_width_or_reg

lemma decode_emitted:
  "a64_decode (a64_ldr_lit64 (fld w 0 5) 8) = LdrLit X64 (reg w 0) 8"
  "a64_decode (a64_ldr_lit64 16 8) = LdrLit X64 16 8"
  "a64_decode (a64_ldr_lit64 17 8) = LdrLit X64 17 8"
  "a64_decode (a64_ldr_lit64 16 12) = LdrLit X64 16 12"
  "a64_decode (a64_b 12) = B 12"
  "a64_decode (a64_b 20) = B 20"
  "a64_decode (a64_br 16) = Br 16"
  "a64_decode (a64_br 17) = Br 17"
  "a64_decode (a64_blr 16) = Blr 16"
  "a64_decode A64_NOP = Nop"
proof -
  have "a64_ldr_lit64 (fld w 0 5) 8 = 0x58000040 OR fld w 0 5"
    by (simp add: a64_ldr_lit64_def and_fields fld_reg_low flip: or.assoc)
  then show "a64_decode (a64_ldr_lit64 (fld w 0 5) 8) = LdrLit X64 (reg w 0) 8"
    by (simp add: a64_decode_def or_reg eval_fields)
qed (code_simp)+

lemma decode_loads:
  "a64_decode (0xB9400000 OR push_bit 5 17 OR fld w 0 5) = Ldr W32 (reg w 0) 17 0"
  "a64_decode (0xF9400000 OR push_bit 5 17 OR fld w 0 5) = Ldr X64 (reg w 0) 17 0"
  "a64_decode (0xB9800000 OR push_bit 5 17 OR fld w 0 5) = Ldr SW32 (reg w 0) 17 0"
  "a64_decode (0xBD400000 OR push_bit 5 17 OR fld w 0 5) = Ldr S32 (reg w 0) 17 0"
  "a64_decode (0xFD400000 OR push_bit 5 17 OR fld w 0 5) = Ldr D64 (reg w 0) 17 0"
  "a64_decode (0x3DC00000 OR push_bit 5 17 OR fld w 0 5) = Ldr Q128 (reg w 0) 17 0"
  by (simp_all add: or.assoc [symmetric] a64_decode_def or_reg eval_fields)

lemma bit_set_imm:
  "bit (a64_set_imm19 w 8) j \<longleftrightarrow> (if 5 \<le> j \<and> j < 24 then j = 6 else bit w j)"
  "bit (a64_set_imm14 w 8) j \<longleftrightarrow> (if 5 \<le> j \<and> j < 19 then j = 6 else bit w j)"
proof -
  have m: "(0x7FFFF :: u32) = mask 19" "(0x3FFF :: u32) = mask 14" by (simp_all add: mask_eq_exp_minus_1)
  have two: "bit (64 :: int) i \<longleftrightarrow> i = 6" for i
  proof -
    have "(64 :: int) = push_bit 6 1" by simp
    then show ?thesis unfolding bit_push_bit_iff bit_1_iff by (simp only: bit_push_bit_iff bit_1_iff) auto
  qed
  show "bit (a64_set_imm19 w 8) j \<longleftrightarrow> (if 5 \<le> j \<and> j < 24 then j = 6 else bit w j)"
    by (cases "j < 32") (auto simp: a64_set_imm19_def m(1) bit_simps two dest: bit_imp_le_length)
  show "bit (a64_set_imm14 w 8) j \<longleftrightarrow> (if 5 \<le> j \<and> j < 19 then j = 6 else bit w j)"
    by (cases "j < 32") (auto simp: a64_set_imm14_def m(2) bit_simps two dest: bit_imp_le_length)
qed

lemma fld_set_imm:
  "lo \<ge> 24 \<or> lo + k \<le> 5 \<Longrightarrow> fld (a64_set_imm19 w 8) lo k = fld w lo k"
  "lo \<ge> 19 \<or> lo + k \<le> 5 \<Longrightarrow> fld (a64_set_imm14 w 8) lo k = fld w lo k"
  "fld (a64_set_imm19 w 8) 5 19 = 2"
  "fld (a64_set_imm14 w 8) 5 14 = 2"
  by (rule bit_word_eqI; auto simp: fld_def bit_simps bit_set_imm)+

lemma decode_retargeted:
  assumes "fld w 24 5 \<noteq> 16" "fld w 26 5 \<noteq> 5"
  shows "fld w 24 8 = 84 \<Longrightarrow> \<not> bit w 4 \<Longrightarrow> a64_decode (a64_set_imm19 w 8) = Bcond (fld w 0 4) 8"
    "\<not> (fld w 24 8 = 84 \<and> \<not> bit w 4) \<Longrightarrow> fld w 25 6 = 26 \<Longrightarrow>
      a64_decode (a64_set_imm19 w 8) = Cb (bit w 31) (bit w 24) (reg w 0) 8"
    "\<not> (fld w 24 8 = 84 \<and> \<not> bit w 4) \<Longrightarrow> fld w 25 6 = 27 \<Longrightarrow>
      a64_decode (a64_set_imm14 w 8) =
        Tb (unat (fld w 19 5) + (if bit w 31 then 32 else 0)) (bit w 24) (reg w 0) 8"
  using assms by (simp_all add: a64_decode_def fld_set_imm bit_set_imm reg_def word_offset_def)

end
