(* ===== verification/HK_A64_Correct.thy ===== *)
theory HK_A64_Correct
  imports HK_A64
begin

text \<open>
  The relocator against the semantics: what the words written for one instruction do when they run at
  their new place, and what the words written for a whole window do.
\<close>

section \<open>The sequences\<close>

lemma step_at:
  assumes "rd32 (cmem c) a 0 = Some w" "a64_decode w = i"
  shows "a64_step other (a, c) = (case a64_exec other i a c of None \<Rightarrow> None
    | Some (Next, c1) \<Rightarrow> Some (a + 4, c1) | Some (Jump t, c1) \<Rightarrow> Some (t, c1)
    | Some (Call t, c1) \<Rightarrow> Some (t, set_x 30 (a + 4) c1))"
  using assms by (simp add: a64_step_def)

lemma cmem_set_x [simp]: "cmem (set_x n v c) = cmem c"
  by (simp add: set_x_def)

lemma get_set_x: "get_x n (set_x n v c) = (if n = 31 then 0 else v)"
  by (simp add: get_x_def set_x_def)

lemma eq_scratch_refl [simp]: "eq_scratch c c"
  by (simp add: eq_scratch_def)

lemma eq_scratch_set: "n = 16 \<or> n = 17 \<Longrightarrow> eq_scratch c (set_x n v c)"
  by (auto simp: eq_scratch_def set_x_def)

lemma eq_scratch_trans: "eq_scratch c d \<Longrightarrow> eq_scratch d e \<Longrightarrow> eq_scratch c e"
  by (simp add: eq_scratch_def)

lemma eq_scratch_sym: "eq_scratch c d \<Longrightarrow> eq_scratch d c"
  by (simp add: eq_scratch_def)

lemma code_quad:
  assumes "code_at m a (quad v)"
  shows "rd64 m a 0 = Some v"
  using assms by (intro rd64_halves) (simp_all add: quad_def code_at_Cons)

lemma ldr_step:
  assumes "rd32 (cmem c) a 0 = Some w" "a64_decode w = LdrLit X64 rt off" "code_at (cmem c) (a + off) (quad v)"
  shows "a64_step other (a, c) = Some (a + 4, set_x rt v c)"
  using step_at [OF assms(1,2)] code_quad [OF assms(3)] by simp

lemma abs_jump_run:
  assumes "code_at (cmem c) a (emit_abs_jump t)"
  obtains r where "r = 16 \<or> r = 17" "a64_run other 2 (a, c) = Some (t, set_x r t c)"
proof -
  obtain r where r: "r = 16 \<or> r = (17 :: nat)" "emit_abs_jump t = [a64_ldr_lit64 (of_nat r) 8, a64_br (of_nat r)] @ quad t"
    by (cases "drop_bit 2 t AND 1 \<noteq> 0")
      (auto simp: emit_abs_jump_def A64_SCRATCH_LOAD_def A64_SCRATCH_JUMP_def, metis of_nat_numeral, metis of_nat_numeral)
  have d: "a64_decode (a64_ldr_lit64 (of_nat r) 8) = LdrLit X64 r 8" "a64_decode (a64_br (of_nat r)) = Br r"
    using r(1) by (auto simp: decode_emitted)
  have code: "rd32 (cmem c) a 0 = Some (a64_ldr_lit64 (of_nat r) 8)" "rd32 (cmem c) (a + 4) 0 = Some (a64_br (of_nat r))"
    "code_at (cmem c) (a + 8) (quad t)"
    using assms by (simp_all add: r(2) code_at_Cons add.assoc)
  have "a64_step other (a, c) = Some (a + 4, set_x r t c)" by (rule ldr_step [OF code(1) d(1) code(3)])
  moreover have "a64_step other (a + 4, set_x r t c) = Some (t, set_x r t c)"
    using step_at [of "set_x r t c" "a + 4", OF _ d(2)] code(2) r(1) by (auto simp: get_set_x)
  ultimately show ?thesis using that r(1) by (simp add: numeral_2_eq_2)
qed

lemma load_const_run:
  assumes "code_at (cmem c) a (emit_load_const w v)" "a64_decode (a64_ldr_lit64 w 8) = LdrLit X64 rd 8"
  shows "a64_run other 2 (a, c) = Some (a + 16, set_x rd v c)"
proof -
  have code: "rd32 (cmem c) a 0 = Some (a64_ldr_lit64 w 8)" "rd32 (cmem c) (a + 4) 0 = Some (a64_b 12)"
    "code_at (cmem c) (a + 8) (quad v)"
    using assms(1) by (simp_all add: emit_load_const_def code_at_Cons add.assoc)
  have "a64_step other (a, c) = Some (a + 4, set_x rd v c)" by (rule ldr_step [OF code(1) assms(2) code(3)])
  moreover have "a64_step other (a + 4, set_x rd v c) = Some (a + 16, set_x rd v c)"
    using step_at [of "set_x rd v c" "a + 4", OF _ decode_emitted(5)] code(2) by simp
  ultimately show ?thesis by (simp add: numeral_2_eq_2)
qed

text \<open>What a run of the words written for one instruction must do, given what the instruction does: fall
  through to their end, or leave for the target; a call returns to an address from which the end is
  reached.\<close>

definition performs :: "others \<Rightarrow> u32 list \<Rightarrow> u64 \<Rightarrow> cpu \<Rightarrow> flow \<Rightarrow> cpu \<Rightarrow> bool" where
  "performs other ws a c fl c1 \<longleftrightarrow> (\<exists>k > 0. \<exists>c2. case fl of
     Next \<Rightarrow> a64_run other k (a, c) = Some (a + of_nat (4 * length ws), c2) \<and> eq_scratch c1 c2
   | Jump t \<Rightarrow> a64_run other k (a, c) = Some (t, c2) \<and> eq_scratch c1 c2
   | Call t \<Rightarrow> (\<exists>r. a64_run other k (a, c) = Some (t, c2) \<and> eq_scratch (set_x 30 r c1) c2 \<and>
       (r = a + of_nat (4 * length ws) \<or>
        (\<forall>d. code_at (cmem d) a ws \<longrightarrow> a64_step other (r, d) = Some (a + of_nat (4 * length ws), d)))))"

lemma performsI_Next:
  "a64_run other k (a, c) = Some (a + of_nat (4 * length ws), c2) \<Longrightarrow> 0 < k \<Longrightarrow> eq_scratch c1 c2 \<Longrightarrow>
   performs other ws a c Next c1"
  by (auto simp: performs_def)

lemma performsI_Jump:
  "a64_run other k (a, c) = Some (t, c2) \<Longrightarrow> 0 < k \<Longrightarrow> eq_scratch c1 c2 \<Longrightarrow> performs other ws a c (Jump t) c1"
  by (auto simp: performs_def)

lemma adr_performs:
  assumes "code_at (cmem c) a (emit_load_const (fld w 0 5) v)"
  shows "performs other (emit_load_const (fld w 0 5) v) a c Next (set_x (reg w 0) v c)"
  using load_const_run [OF assms decode_emitted(1)] by (intro performsI_Next [where k = 2]) auto

lemma abs_jump_performs:
  assumes "code_at (cmem c) a (emit_abs_jump t)"
  shows "performs other (emit_abs_jump t) a c (Jump t) c"
  by (rule abs_jump_run [OF assms, of other]) (auto intro: performsI_Jump [where k = 2] eq_scratch_set)

lemma call_performs:
  assumes "code_at (cmem c) a ([a64_ldr_lit64 16 12, a64_blr 16, a64_b 12] @ quad t)"
  shows "performs other ([a64_ldr_lit64 16 12, a64_blr 16, a64_b 12] @ quad t) a c (Call t) c"
proof -
  have code: "rd32 (cmem c) a 0 = Some (a64_ldr_lit64 16 12)" "rd32 (cmem c) (a + 4) 0 = Some (a64_blr 16)"
    "code_at (cmem c) (a + 12) (quad t)"
    using assms by (simp_all add: code_at_Cons add.assoc)
  define c2 where "c2 = set_x 30 (a + 8) (set_x 16 t c)"
  have "a64_step other (a, c) = Some (a + 4, set_x 16 t c)" by (rule ldr_step [OF code(1) decode_emitted(4) code(3)])
  moreover have "a64_step other (a + 4, set_x 16 t c) = Some (t, c2)"
    using step_at [of "set_x 16 t c" "a + 4", OF _ decode_emitted(9)] code(2) by (simp add: get_set_x c2_def add.commute)
  ultimately have run: "a64_run other 2 (a, c) = Some (t, c2)" by (simp add: numeral_2_eq_2)
  have ret: "a64_step other (a + 8, d) = Some (a + 20, d)"
    if "code_at (cmem d) a ([a64_ldr_lit64 16 12, a64_blr 16, a64_b 12] @ quad t)" for d
  proof -
    have "rd32 (cmem d) (a + 8) 0 = Some (a64_b 12)" using that by (simp add: code_at_Cons add.assoc)
    then show ?thesis using step_at [OF _ decode_emitted(5), of d "a + 8"] by simp
  qed
  have "eq_scratch (set_x 30 (a + 8) c) c2" by (auto simp: eq_scratch_def set_x_def c2_def)
  then show ?thesis
    unfolding performs_def using run ret by (intro exI [of _ 2] conjI exI [of _ c2]) (auto simp: quad_def)
qed

text \<open>A conditional branch retargeted over the jump that follows it.\<close>

lemma conditional_performs:
  assumes code: "code_at (cmem c) a ([r, a64_b 20] @ emit_abs_jump t)"
    and dec: "a64_decode r = i" "a64_exec other i a c = Some (if taken then Jump (a + 8) else Next, c)"
  shows "performs other ([r, a64_b 20] @ emit_abs_jump t) a c (if taken then Jump t else Next) c"
proof -
  have code: "rd32 (cmem c) a 0 = Some r" "rd32 (cmem c) (a + 4) 0 = Some (a64_b 20)"
    "code_at (cmem c) (a + 8) (emit_abs_jump t)"
    using code by (simp_all add: code_at_Cons add.assoc)
  note first = step_at [OF code(1) dec(1), of other]
  show ?thesis
  proof (cases taken)
    case True
    obtain x where x: "x = 16 \<or> x = 17" "a64_run other 2 (a + 8, c) = Some (t, set_x x t c)"
      by (rule abs_jump_run [OF code(3), of other])
    have "a64_run other (1 + 2) (a, c) = Some (t, set_x x t c)"
      unfolding a64_run_add using first dec(2) True x(2) by simp
    from performsI_Jump [OF this _ eq_scratch_set [OF x(1)]] show ?thesis using True by simp
  next
    case False
    have "a64_step other (a + 4, c) = Some (a + 24, c)"
      using step_at [OF code(2) decode_emitted(6), of other] by simp
    then have "a64_run other 2 (a, c) = Some (a + 24, c)" using first dec(2) False by (simp add: numeral_2_eq_2)
    then show ?thesis using False by (auto intro: performsI_Next [where k = 2])
  qed
qed

lemma literal_performs:
  assumes code: "code_at (cmem c) a (emit_load_const 17 t @ [ld])"
    and dec: "a64_decode ld = Ldr k rt 17 0" "load k rt t c = Some c1"
  shows "performs other (emit_load_const 17 t @ [ld]) a c Next c1"
proof -
  have code: "code_at (cmem c) a (emit_load_const 17 t)" "rd32 (cmem c) (a + 16) 0 = Some ld"
    using code by (simp_all add: code_at_append code_at_Cons)
  have two: "a64_run other 2 (a, c) = Some (a + 16, set_x 17 t c)" by (rule load_const_run [OF code(1) decode_emitted(3)])
  have "\<exists>c2. load k rt t (set_x 17 t c) = Some c2 \<and> eq_scratch c1 c2"
    using dec(2) by (cases k) (auto simp: eq_scratch_def set_x_def set_v_def split: option.splits)
  then obtain c2 where c2: "load k rt t (set_x 17 t c) = Some c2" "eq_scratch c1 c2" by blast
  have "a64_step other (a + 16, set_x 17 t c) = Some (a + 20, c2)"
    using step_at [of "set_x 17 t c" "a + 16", OF _ dec(1)] code(2) c2(1) by (simp add: base_reg_def set_x_def)
  then have "a64_run other (2 + 1) (a, c) = Some (a + 20, c2)" unfolding a64_run_add two by simp
  then show ?thesis using c2(2) by (intro performsI_Next [where k = 3]) auto
qed

section \<open>One instruction\<close>

lemma verbatim_performs:
  assumes "code_at (cmem c) a [w]" "a64_exec other (a64_decode w) a c = Some (fl, c1)"
  shows "performs other [w] a c fl c1"
proof -
  have "rd32 (cmem c) a 0 = Some w" using assms(1) by (simp add: code_at_Cons)
  note s = step_at [OF this refl, of other]
  show ?thesis
  proof (cases fl)
    case Next
    then show ?thesis using s assms(2) by (auto simp: performs_def intro!: exI [of _ 1])
  next
    case (Jump t)
    then show ?thesis using s assms(2) by (auto simp: performs_def intro!: exI [of _ 1])
  next
    case (Call t)
    then show ?thesis using s assms(2) by (auto simp: performs_def intro!: exI [of _ 1] exI [of _ "a + 4"])
  qed
qed

lemma decode_rest:
  assumes "fld w 24 5 \<noteq> 16" "fld w 26 5 \<noteq> 5" "\<not> (fld w 24 8 = 84 \<and> \<not> bit w 4)" "fld w 25 6 \<noteq> 26" "fld w 25 6 \<noteq> 27"
  shows "a64_decode w =
     (if fld w 27 3 = 3 \<and> fld w 24 2 = 0 then
        (if fld w 30 2 = 3 \<and> \<not> bit w 26 then Prfm
         else case lit_width w of None \<Rightarrow> Unallocated | Some k \<Rightarrow> LdrLit k (reg w 0) (word_offset w 5 19))
      else if fld w 27 3 = 0b111 \<and> fld w 24 2 = 1 \<and> ldr_width w \<noteq> None then
        Ldr (the (ldr_width w)) (reg w 0) (reg w 5) (ucast (fld w 10 12) * width_bytes (the (ldr_width w)))
      else if fld w 10 22 = 0x3587C0 \<and> fld w 0 5 = 0 then Br (reg w 5)
      else if fld w 10 22 = 0x3597C0 \<and> fld w 0 5 = 0 then Br (reg w 5)
      else if fld w 10 22 = 0x358FC0 \<and> fld w 0 5 = 0 then Blr (reg w 5)
      else if w = 0xD503201F then Nop
      else Other w)"
  by (simp only: a64_decode_def assms if_False)

text \<open>What is not rewritten does not see the program counter.\<close>

lemma pc_free:
  assumes "fld w 24 5 \<noteq> 16" "fld w 26 5 \<noteq> 5" "\<not> (fld w 24 8 = 84 \<and> \<not> bit w 4)" "fld w 25 6 \<noteq> 26" "fld w 25 6 \<noteq> 27"
    "\<not> (fld w 27 3 = 3 \<and> fld w 24 2 = 0)"
  shows "a64_exec other (a64_decode w) pc c = a64_exec other (a64_decode w) pc' c"
  by (simp only: decode_rest [OF assms(1-5)] assms(6) if_False) (simp split: if_split)

lemma top_bits: "drop_bit 30 w = fld w 30 2" for w :: u32
  by (rule bit_word_eqI) (auto simp: fld_def bit_simps dest: bit_imp_le_length)

text \<open>The load written for a literal load, in the terms of the decoder.\<close>

lemma literal_load_width:
  assumes "lit_width w = Some k"
  obtains ld where "literal_load w = Some ld" "a64_decode (ld OR push_bit 5 17 OR fld w 0 5) = Ldr k (reg w 0) 17 0"
  using assms that decode_loads [of w]
  by (auto simp: lit_width_def literal_load_def Let_def top_bits and_fields bit_test(2) split: if_split_asm)

lemma literal_case:
  assumes "fld w 24 5 \<noteq> 16" "fld w 26 5 \<noteq> 5" "\<not> (fld w 24 8 = 84 \<and> \<not> bit w 4)" "fld w 25 6 \<noteq> 26" "fld w 25 6 \<noteq> 27"
    and lit: "fld w 27 3 = 3" "fld w 24 2 = 0" and none: "conditional_form w pc = None"
    and ws: "relocate_one w pc ps pe = ws" and code: "code_at (cmem c) a ws"
    and run: "a64_exec other (a64_decode w) pc c = Some (fl, c1)"
  shows "performs other ws a c fl c1"
proof -
  define t where "t = pc + word_offset w 5 19"
  have ws': "ws = (if fld w 30 2 = 3 \<and> \<not> bit w 26 then [A64_NOP] else case literal_load w of None \<Rightarrow> []
      | Some ld \<Rightarrow> emit_load_const 17 t @ [ld OR push_bit 5 17 OR fld w 0 5])"
    using ws assms(1,2) lit none
    unfolding relocate_one_def mask_tests and_fields code_offsets [unfolded and_fields] top_bits Let_def
      A64_SCRATCH_LOAD_def t_def [symmetric]
    by (auto simp: bit_test(2))
  have dec: "a64_decode w = (if fld w 30 2 = 3 \<and> \<not> bit w 26 then Prfm
      else case lit_width w of None \<Rightarrow> Unallocated | Some k \<Rightarrow> LdrLit k (reg w 0) (word_offset w 5 19))"
    by (simp only: decode_rest [OF assms(1-5)] lit simp_thms if_True)
  show ?thesis
  proof (cases "fld w 30 2 = 3 \<and> \<not> bit w 26")
    case True
    then show ?thesis
      using verbatim_performs [of c a A64_NOP other] code run by (simp add: ws' dec decode_emitted)
  next
    case False
    then obtain k where k: "lit_width w = Some k" using run by (cases "lit_width w") (auto simp: dec)
    obtain ld where ld: "literal_load w = Some ld" "a64_decode (ld OR push_bit 5 17 OR fld w 0 5) = Ldr k (reg w 0) 17 0"
      by (rule literal_load_width [OF k])
    have w2: "ws = emit_load_const 17 t @ [ld OR push_bit 5 17 OR fld w 0 5]" by (simp only: ws' False if_False ld(1) option.case)
    have "fl = Next" "load k (reg w 0) t c = Some c1" using run False k by (auto simp: dec t_def)
    then show ?thesis using literal_performs [OF _ ld(2)] code unfolding w2 by blast
  qed
qed

text \<open>A conditional branch and its retargeted form differ in the offset only.\<close>

lemma conditional_forms:
  assumes n: "fld w 24 5 \<noteq> 16" "fld w 26 5 \<noteq> 5" and cf: "conditional_form w pc = Some (t, r)"
  obtains (bcond) cond off where "a64_decode w = Bcond cond off" "t = pc + off" "a64_decode r = Bcond cond 8"
  | (cb) sf nz rt off where "a64_decode w = Cb sf nz rt off" "t = pc + off" "a64_decode r = Cb sf nz rt 8"
  | (tb) b nz rt off where "a64_decode w = Tb b nz rt off" "t = pc + off" "a64_decode r = Tb b nz rt 8"
proof -
  note cf = cf [unfolded conditional_form_def mask_tests and_fields code_offsets [unfolded and_fields]]
  consider (1) "fld w 24 8 = 84 \<and> \<not> bit w 4"
    | (2) "\<not> (fld w 24 8 = 84 \<and> \<not> bit w 4)" "fld w 25 6 = 26"
    | (3) "\<not> (fld w 24 8 = 84 \<and> \<not> bit w 4)" "fld w 25 6 \<noteq> 26" "fld w 25 6 = 27"
    using cf by (auto split: if_split_asm)
  then show ?thesis
  proof cases
    case 1
    have "a64_decode w = Bcond (fld w 0 4) (word_offset w 5 19)" by (simp only: a64_decode_def n 1 if_False if_True simp_thms)
    moreover have "t = pc + word_offset w 5 19" "r = a64_set_imm19 w 8" using cf 1 by simp_all
    ultimately show ?thesis using decode_retargeted(1) [OF n] 1 by (intro bcond) auto
  next
    case 2
    have "a64_decode w = Cb (bit w 31) (bit w 24) (reg w 0) (word_offset w 5 19)"
      by (simp only: a64_decode_def n 2 if_False if_True) simp
    moreover have "t = pc + word_offset w 5 19" "r = a64_set_imm19 w 8" using cf unfolding 2(2) by (simp_all only: 2(1) if_False if_True) auto
    ultimately show ?thesis using decode_retargeted(2) [OF n 2] by (intro cb) auto
  next
    case 3
    have "a64_decode w = Tb (unat (fld w 19 5) + (if bit w 31 then 32 else 0)) (bit w 24) (reg w 0) (word_offset w 5 14)"
      by (simp only: a64_decode_def n 3 if_False if_True) simp
    moreover have "t = pc + word_offset w 5 14" "r = a64_set_imm14 w 8" using cf unfolding 3(3) by (simp_all only: 3(1) if_False if_True) auto
    ultimately show ?thesis using decode_retargeted(3) [OF n 3(1,3)] by (intro tb) auto
  qed
qed

lemma conditional_case:
  assumes n: "fld w 24 5 \<noteq> 16" "fld w 26 5 \<noteq> 5" and cf: "conditional_form w pc = Some (t, r)"
    and run: "a64_exec other (a64_decode w) pc c = Some (fl, c1)"
  shows "\<exists>taken. a64_exec other (a64_decode r) a c = Some (if taken then Jump (a + 8) else Next, c) \<and>
    fl = (if taken then Jump t else Next) \<and> c1 = c"
  by (rule conditional_forms [OF n cf]) (use run in \<open>force simp: Let_def split: if_splits\<close>)+

lemma relocate_one_performs:
  assumes ws: "relocate_one w pc ps pe = ws" "ws \<noteq> []" and code: "code_at (cmem c) a ws"
    and run: "a64_exec other (a64_decode w) pc c = Some (fl, c1)"
  shows "performs other ws a c fl c1"
proof -
  note tests = mask_tests [of w] and_fields [of w] code_offsets [of pc w, unfolded and_fields] code_adr_imm [of w]
  note seqs = A64_SCRATCH_JUMP_def A64_SCRATCH_LOAD_def
  show ?thesis
  proof (cases "fld w 24 5 = 16")
    case True
    define v where "v = (if bit w 31 then push_bit 12 (drop_bit 12 pc) + adr_imm w * 4096 else pc + adr_imm w)"
    have "ws = emit_load_const (fld w 0 5) v"
      using ws(1) True unfolding relocate_one_def tests Let_def adrp_page
      by (auto simp: v_def push_bit_eq_mult [of 12 "adr_imm w"])
    moreover have "fl = Next" "c1 = set_x (reg w 0) v c" using run True by (auto simp: a64_decode_def v_def split: if_splits)
    ultimately show ?thesis using adr_performs code by simp
  next
    case nadr: False
    show ?thesis
    proof (cases "fld w 26 5 = 5")
      case True
      define t where "t = pc + word_offset w 0 26"
      have ws': "ws = (if bit w 31 then [a64_ldr_lit64 16 12, a64_blr 16, a64_b 12] @ quad t else emit_abs_jump t)"
        using ws nadr True unfolding relocate_one_def tests Let_def seqs t_def [symmetric] by (auto split: if_splits)
      moreover have "fl = (if bit w 31 then Call t else Jump t)" "c1 = c"
        using run nadr True by (auto simp: a64_decode_def t_def split: if_splits)
      ultimately show ?thesis using call_performs [of c a t other] abs_jump_performs [of c a t other] code by (cases "bit w 31") auto
    next
      case nb: False
      show ?thesis
      proof (cases "conditional_form w pc")
        case (Some f)
        obtain t r where f: "f = (t, r)" by (cases f)
        have ws': "ws = [r, a64_b 20] @ emit_abs_jump t"
          using ws nadr nb unfolding relocate_one_def tests Let_def Some f by (auto split: if_splits)
        have "\<exists>taken. a64_exec other (a64_decode r) a c = Some (if taken then Jump (a + 8) else Next, c) \<and>
            fl = (if taken then Jump t else Next) \<and> c1 = c"
          by (rule conditional_case [OF nadr nb _ run]) (simp add: Some f)
        then show ?thesis using conditional_performs [of c a r t] code unfolding ws' by blast
      next
        case None
        then have nc: "\<not> (fld w 24 8 = 84 \<and> \<not> bit w 4)" "fld w 25 6 \<noteq> 26" "fld w 25 6 \<noteq> 27"
          unfolding conditional_form_def tests by (auto split: if_split_asm)
        show ?thesis
        proof (cases "fld w 27 3 = 3 \<and> fld w 24 2 = 0")
          case True
          then show ?thesis using literal_case [OF nadr nb nc] ws code run None nadr nb by simp
        next
          case False
          have "ws = [w]" using ws(1) nadr nb False unfolding relocate_one_def tests None Let_def by simp
          then show ?thesis using verbatim_performs [of c a w] code run pc_free [OF nadr nb nc False] by metis
        qed
      qed
    qed
  qed
qed

section \<open>A branch over an entry\<close>

lemma near_bits:
  fixes d :: u64
  assumes "- (2 ^ 27) \<le> sint d" "sint d < 2 ^ 27" "27 \<le> j" "j < 64"
  shows "bit d j \<longleftrightarrow> bit d 27"
proof -
  have s: "signed_take_bit 27 (sint d) = sint d" by (rule signed_take_bit_int_eq_self) (use assms in simp_all)
  have "bit (sint d) j = bit (signed_take_bit 27 (sint d)) j" by (simp only: s)
  also have "\<dots> = bit (sint d) 27" using assms(3) by (simp add: bit_signed_take_bit_iff min_def)
  finally show ?thesis using assms(4) by (simp add: bit_sint_iff)
qed

lemma decode_b:
  assumes "- (2 ^ 27) \<le> sint d" "sint d < 2 ^ 27" "take_bit 2 d = 0"
  shows "a64_decode (a64_b d) = B d"
proof -
  have bits: "bit (a64_b d) j \<longleftrightarrow> (if j < 26 then bit d (2 + j) else j = 26 \<or> j = 28)" if "j < 32" for j
  proof -
    have m: "(0x03FFFFFF :: u64) = mask 26" by (simp add: mask_eq_exp_minus_1)
    have c: "bit (0x14000000 :: u32) j \<longleftrightarrow> j = 26 \<or> j = 28"
    proof -
      have "(0x14000000 :: u32) = push_bit 26 1 OR push_bit 28 1" by simp
      then show ?thesis using that by (simp only: bit_or_iff bit_push_bit_iff bit_1_iff) auto
    qed
    show ?thesis using that unfolding a64_b_def m bit_or_iff c by (auto simp: bit_simps)
  qed
  have f: "fld (a64_b d) 26 5 = 5" "fld (a64_b d) 24 5 \<noteq> 16" "\<not> bit (a64_b d) 31"
  proof -
    have five: "bit (5 :: u32) j \<longleftrightarrow> j = 0 \<or> j = 2" if "j < 32" for j
    proof -
      have "(5 :: u32) = push_bit 0 1 OR push_bit 2 1" by simp
      then show ?thesis using that by (simp only: bit_or_iff bit_push_bit_iff bit_1_iff) auto
    qed
    show "fld (a64_b d) 26 5 = 5"
      by (rule bit_word_eqI) (use bits five in \<open>auto simp: fld_def bit_simps\<close>)
    have "bit (fld (a64_b d) 24 5) 2" using bits by (simp add: fld_def bit_simps)
    moreover have "\<not> bit (16 :: u32) 2" by simp
    ultimately show "fld (a64_b d) 24 5 \<noteq> 16" by metis
    show "\<not> bit (a64_b d) 31" using bits by simp
  qed
  define x :: u64 where "x = ucast (fld (a64_b d) 0 26)"
  have i: "bit x k \<longleftrightarrow> bit d (2 + k)" if "k < 26" for k
    using bits [of k] that by (simp add: x_def fld_def bit_simps)
  have low: "\<not> bit d j" if "j < 2" for j
  proof -
    have "bit (take_bit 2 d) j = bit (0 :: u64) j" by (simp only: assms(3))
    then show ?thesis using that by (simp add: bit_take_bit_iff)
  qed
  have "word_offset (a64_b d) 0 26 = push_bit 2 (signed_take_bit 25 x)"
    by (simp add: word_offset_def push_bit_eq_mult x_def)
  also have "\<dots> = d"
  proof (rule bit_word_eqI)
    fix j assume j: "j < LENGTH(64)"
    have l: "bit (push_bit 2 (signed_take_bit 25 x)) j \<longleftrightarrow> 2 \<le> j \<and> bit d (2 + min (j - 2) 25)"
      using j by (simp add: bit_push_bit_iff bit_signed_take_bit_iff i min.commute) auto
    show "bit (push_bit 2 (signed_take_bit 25 x)) j = bit d j"
    proof (cases "j < 28")
      case True
      then have "2 \<le> j \<Longrightarrow> 2 + min (j - 2) 25 = j" by simp
      then show ?thesis unfolding l using low [of j] by (metis not_le)
    next
      case False
      then show ?thesis unfolding l using j near_bits [OF assms(1,2), of j] by simp
    qed
  qed
  finally have "word_offset (a64_b d) 0 26 = d" .
  then show ?thesis using f by (simp add: a64_decode_def)
qed

lemma emit_branch_run:
  assumes code: "code_at (cmem c) a (hk_arm64_emit_branch a dest)" and al: "take_bit 2 (dest - a) = 0"
  shows "\<exists>k > 0. \<exists>c2. a64_run other k (a, c) = Some (dest, c2) \<and> eq_scratch c c2"
proof (cases "hk_arm64_branch_size a dest = 4")
  case True
  then have r: "- (2 ^ 27) \<le> sint (dest - a)" "sint (dest - a) < 2 ^ 27"
    by (auto simp: hk_arm64_branch_size_def HK_A64_MAX_BRANCH_BYTES_def Let_def split: if_split_asm)
  have "rd32 (cmem c) a 0 = Some (a64_b (dest - a))" using code True by (simp add: hk_arm64_emit_branch_def code_at_Cons)
  from step_at [OF this decode_b [OF r al], of other]
  have "a64_run other 1 (a, c) = Some (dest, c)" by simp
  then show ?thesis by (intro exI [of _ 1]) auto
next
  case False
  then have "code_at (cmem c) a (emit_abs_jump dest)" using code by (simp add: hk_arm64_emit_branch_def)
  from abs_jump_run [OF this, of other] show ?thesis
    by (metis eq_scratch_set zero_less_numeral)
qed

lemma emit_branch_length: "4 * length (hk_arm64_emit_branch a dest) = hk_arm64_branch_size a dest"
  by (simp add: hk_arm64_emit_branch_def hk_arm64_branch_size_def HK_A64_MAX_BRANCH_BYTES_def Let_def)

section \<open>A window\<close>

text \<open>The original instructions in a row, until one leaves or the last has run.\<close>

fun straight :: "others \<Rightarrow> u32 list \<Rightarrow> u64 \<Rightarrow> cpu \<Rightarrow> (flow \<times> cpu) option" where
  "straight other [] pc c = Some (Next, c)"
| "straight other (w # ws) pc c = (case a64_exec other (a64_decode w) pc c of
     None \<Rightarrow> None
   | Some (fl, c1) \<Rightarrow> if fl = Next then straight other ws (pc + 4) c1 else Some (fl, c1))"

fun is_call :: "a64_insn \<Rightarrow> bool" where
  "is_call (Bl off) = True"
| "is_call (Blr rn) = True"
| "is_call i = False"

text \<open>The assumptions on the displaced instructions: none depends on X16 and X17, and none overwrites the
  words at \<open>a\<close>.\<close>

definition scratch_free :: "others \<Rightarrow> u32 \<Rightarrow> bool" where
  "scratch_free other w \<longleftrightarrow> (\<forall>pc c d fl c1. eq_scratch c d \<longrightarrow> a64_exec other (a64_decode w) pc c = Some (fl, c1) \<longrightarrow>
     (\<exists>d1. a64_exec other (a64_decode w) pc d = Some (fl, d1) \<and> eq_scratch c1 d1))"

definition spares :: "others \<Rightarrow> u64 \<Rightarrow> u32 list \<Rightarrow> u32 \<Rightarrow> bool" where
  "spares other a ws w \<longleftrightarrow> (\<forall>pc c fl c1. code_at (cmem c) a ws \<longrightarrow> a64_exec other (a64_decode w) pc c = Some (fl, c1) \<longrightarrow>
     code_at (cmem c1) a ws)"

lemma scratch_freeD:
  "scratch_free other w \<Longrightarrow> eq_scratch c d \<Longrightarrow> a64_exec other (a64_decode w) pc c = Some (fl, c1) \<Longrightarrow>
   \<exists>d1. a64_exec other (a64_decode w) pc d = Some (fl, d1) \<and> eq_scratch c1 d1"
  unfolding scratch_free_def by blast

lemma sparesD:
  "spares other a ws w \<Longrightarrow> code_at (cmem c) a ws \<Longrightarrow> a64_exec other (a64_decode w) pc c = Some (fl, c1) \<Longrightarrow>
   code_at (cmem c1) a ws"
  unfolding spares_def by blast

lemma exec_no_call: "\<not> is_call i \<Longrightarrow> a64_exec other i pc c = Some (fl, c1) \<Longrightarrow> fl \<noteq> Call t"
  by (cases i) (auto split: if_splits)

text \<open>Where the words of a window end up, and what their run does.\<close>

definition block :: "u64 \<Rightarrow> nat \<Rightarrow> nat \<times> u32 \<Rightarrow> u32 list" where
  "block s n = (\<lambda>(j, w). relocate_one w (s + of_nat (4 * j)) s (s + of_nat (4 * n)))"

lemma window_run:
  assumes "\<forall>w \<in> set ws. \<not> is_call (a64_decode w) \<and> scratch_free other w \<and> spares other dst out w"
    and "\<forall>j < length ws. block s n (i + j, ws ! j) \<noteq> []"
    and "out = pre @ concat (map (block s n) (zip [i..<i + length ws] ws))"
    and "straight other ws (s + of_nat (4 * i)) c = Some (fl, c1)" "eq_scratch c d" "code_at (cmem d) dst out"
  shows "\<exists>k d1. a64_run other k (dst + of_nat (4 * length pre), d) =
      Some (case fl of Jump t \<Rightarrow> t | _ \<Rightarrow> dst + of_nat (4 * length out), d1) \<and> eq_scratch c1 d1 \<and> (\<forall>t. fl \<noteq> Call t)"
  using assms
proof (induction ws arbitrary: i pre c d)
  case Nil
  then show ?case by (intro exI [of _ 0]) auto
next
  case (Cons w ws)
  define pc where "pc = s + of_nat (4 * i)"
  define b where "b = relocate_one w pc s (s + of_nat (4 * n))"
  have z: "zip [i..<i + length (w # ws)] (w # ws) = (i, w) # zip [i + 1..<i + 1 + length ws] ws"
    by (subst upt_conv_Cons) auto
  have out: "out = (pre @ b) @ concat (map (block s n) (zip [i + 1..<i + 1 + length ws] ws))"
    using Cons.prems(3) unfolding z by (simp add: block_def b_def pc_def)
  have w: "\<not> is_call (a64_decode w)" "scratch_free other w" "spares other dst out w" using Cons.prems(1) by auto
  obtain f2 c2 where e: "a64_exec other (a64_decode w) pc c = Some (f2, c2)"
    using Cons.prems(4) unfolding pc_def by (cases "a64_exec other (a64_decode w) (s + of_nat (4 * i)) c") auto
  obtain d2 where d2: "a64_exec other (a64_decode w) pc d = Some (f2, d2)" "eq_scratch c2 d2"
    using scratch_freeD [OF w(2) Cons.prems(5) e] by blast
  define a where "a = dst + of_nat (4 * length pre)"
  have code: "code_at (cmem d) a b"
    using Cons.prems(6) unfolding out code_at_append a_def by simp
  have ne: "b \<noteq> []" using Cons.prems(2) by (auto simp: block_def b_def pc_def dest: spec [of _ 0])
  have p: "performs other b a d f2 d2"
    by (rule relocate_one_performs [OF _ ne code d2(1)]) (simp add: b_def)
  have keep: "code_at (cmem d2) dst out" by (rule sparesD [OF w(3) Cons.prems(6) d2(1)])
  have nc: "f2 \<noteq> Call t" for t by (rule exec_no_call [OF w(1) e])
  show ?case
  proof (cases "f2 = Next")
    case True
    then obtain k d3 where k: "a64_run other k (a, d) = Some (a + of_nat (4 * length b), d3)" "eq_scratch d2 d3"
      using p by (auto simp: performs_def)
    have rest: "straight other ws (s + of_nat (4 * (i + 1))) c2 = Some (fl, c1)"
      using Cons.prems(4) e True by (simp add: pc_def add_ac)
    have "\<exists>k d1. a64_run other k (dst + of_nat (4 * length (pre @ b)), d3) =
      Some (case fl of Jump t \<Rightarrow> t | _ \<Rightarrow> dst + of_nat (4 * length out), d1) \<and> eq_scratch c1 d1 \<and> (\<forall>t. fl \<noteq> Call t)"
    proof (rule Cons.IH [OF _ _ out rest])
      show "\<forall>w \<in> set ws. \<not> is_call (a64_decode w) \<and> scratch_free other w \<and> spares other dst out w" using Cons.prems(1) by simp
      show "\<forall>j < length ws. block s n (i + 1 + j, ws ! j) \<noteq> []" using Cons.prems(2) by (auto dest: spec [of _ "Suc _"])
      show "eq_scratch c2 d3" using d2(2) k(2) by (rule eq_scratch_trans)
      show "code_at (cmem d3) dst out" using keep k(2) by (simp add: eq_scratch_def)
    qed
    then obtain k2 d1 where k2: "a64_run other k2 (dst + of_nat (4 * length (pre @ b)), d3) =
      Some (case fl of Jump t \<Rightarrow> t | _ \<Rightarrow> dst + of_nat (4 * length out), d1)" "eq_scratch c1 d1" "\<forall>t. fl \<noteq> Call t"
      by blast
    have "a + of_nat (4 * length b) = dst + of_nat (4 * length (pre @ b))" by (simp add: a_def algebra_simps)
    then have "a64_run other (k + k2) (a, d) = Some (case fl of Jump t \<Rightarrow> t | _ \<Rightarrow> dst + of_nat (4 * length out), d1)"
      unfolding a64_run_add k(1) bind.simps using k2(1) by (simp only:)
    then show ?thesis using k2(2,3) unfolding a_def by blast
  next
    case False
    then obtain t where t: "f2 = Jump t" using nc by (cases f2) auto
    then have "fl = Jump t" "c1 = c2" using Cons.prems(4) e by (simp_all add: pc_def)
    moreover obtain k d3 where "a64_run other k (a, d) = Some (t, d3)" "eq_scratch d2 d3"
      using p t by (auto simp: performs_def)
    ultimately show ?thesis using d2(2) eq_scratch_trans unfolding a_def by fastforce
  qed
qed

section \<open>Refusals\<close>

fun branch_dest :: "u64 \<Rightarrow> a64_insn \<Rightarrow> u64 option" where
  "branch_dest pc (B off) = Some (pc + off)"
| "branch_dest pc (Bl off) = Some (pc + off)"
| "branch_dest pc (Bcond cond off) = Some (pc + off)"
| "branch_dest pc (Cb sf nz rt off) = Some (pc + off)"
| "branch_dest pc (Tb b nz rt off) = Some (pc + off)"
| "branch_dest pc i = None"

definition refused :: "u64 \<Rightarrow> nat \<Rightarrow> nat \<Rightarrow> u32 \<Rightarrow> bool" where
  "refused s n j w \<longleftrightarrow> a64_decode w = Unallocated \<or>
     (\<exists>t. branch_dest (s + of_nat (4 * j)) (a64_decode w) = Some t \<and> s \<le> t \<and> t < s + of_nat (4 * n))"

lemma literal_load_None: "literal_load w = None \<longleftrightarrow> lit_width w = None"
  by (simp add: lit_width_def literal_load_def Let_def top_bits and_fields bit_test(2))

lemma relocate_one_refuses:
  "relocate_one w (s + of_nat (4 * j)) s (s + of_nat (4 * n)) = [] \<longleftrightarrow> refused s n j w"
proof -
  define pc where "pc = s + of_nat (4 * j)"
  define e where "e = s + of_nat (4 * n)"
  note tests = mask_tests [of w] and_fields [of w] code_offsets [of pc w, unfolded and_fields] code_adr_imm [of w]
  have r: "refused s n j w \<longleftrightarrow> a64_decode w = Unallocated \<or>
     (\<exists>t. branch_dest pc (a64_decode w) = Some t \<and> in_window s e t)"
    by (simp add: refused_def in_window_def pc_def e_def)
  show ?thesis
    unfolding r pc_def [symmetric] e_def [symmetric]
  proof (cases "fld w 24 5 = 16")
    case True
    then show "relocate_one w pc s e = [] \<longleftrightarrow> a64_decode w = Unallocated \<or>
       (\<exists>t. branch_dest pc (a64_decode w) = Some t \<and> in_window s e t)"
      unfolding relocate_one_def tests Let_def by (auto simp: a64_decode_def emit_load_const_def)
  next
    case n1: False
    show "relocate_one w pc s e = [] \<longleftrightarrow> a64_decode w = Unallocated \<or>
       (\<exists>t. branch_dest pc (a64_decode w) = Some t \<and> in_window s e t)"
    proof (cases "fld w 26 5 = 5")
      case True
      then show ?thesis
        using n1 unfolding relocate_one_def tests Let_def by (simp add: a64_decode_def emit_abs_jump_def Let_def)
    next
      case n2: False
      have cf: "conditional_form w pc = (if fld w 24 8 = 84 \<and> \<not> bit w 4 then Some (pc + word_offset w 5 19, a64_set_imm19 w 8)
        else if fld w 25 6 = 26 then Some (pc + word_offset w 5 19, a64_set_imm19 w 8)
        else if fld w 25 6 = 27 then Some (pc + word_offset w 5 14, a64_set_imm14 w 8) else None)"
        unfolding conditional_form_def tests ..
      have ro: "relocate_one w pc s e = (case conditional_form w pc of
          Some (t, r) \<Rightarrow> if in_window s e t then [] else [r, a64_b 20] @ emit_abs_jump t
        | None \<Rightarrow> if fld w 27 3 = 3 \<and> fld w 24 2 = 0 then
            (if fld w 30 2 = 3 \<and> fld w 26 1 = 0 then [A64_NOP] else case literal_load w of None \<Rightarrow> []
             | Some ld \<Rightarrow> emit_load_const 17 (pc + word_offset w 5 19) @ [ld OR push_bit 5 17 OR fld w 0 5])
          else [w])"
        unfolding relocate_one_def tests top_bits Let_def A64_SCRATCH_LOAD_def by (simp only: n1 n2 if_False)
      show ?thesis
      proof (cases "conditional_form w pc")
        case (Some f)
        obtain t r where f: "f = (t, r)" by (cases f)
        have "a64_decode w \<noteq> Unallocated \<and> branch_dest pc (a64_decode w) = Some t"
          by (rule conditional_forms [OF n1 n2 Some [unfolded f]]) auto
        then show ?thesis unfolding ro Some f by simp
      next
        case None
        then have n3: "\<not> (fld w 24 8 = 84 \<and> \<not> bit w 4)" "fld w 25 6 \<noteq> 26" "fld w 25 6 \<noteq> 27"
          unfolding cf by (auto split: if_split_asm)
        show ?thesis
        proof (cases "fld w 27 3 = 3 \<and> fld w 24 2 = 0")
          case True
          have d: "a64_decode w = (if fld w 30 2 = 3 \<and> fld w 26 1 = 0 then Prfm
             else case lit_width w of None \<Rightarrow> Unallocated | Some k \<Rightarrow> LdrLit k (reg w 0) (word_offset w 5 19))"
            by (simp only: decode_rest [OF n1 n2 n3] True if_True bit_test(2) simp_thms)
          show ?thesis
            unfolding ro None option.case d using literal_load_None [of w] True by (cases "lit_width w") auto
        next
          case False
          have "a64_decode w \<noteq> Unallocated \<and> branch_dest pc (a64_decode w) = None"
            by (simp only: decode_rest [OF n1 n2 n3] False if_False) (simp split: if_split)
          then show ?thesis by (simp only: ro None option.case False if_False) simp
        qed
      qed
    qed
  qed
qed

lemma zip_upt_Cons: "zip [i..<i + Suc j] (w # ws) = (i, w) # zip [i + 1..<i + 1 + j] ws"
  by (subst upt_conv_Cons) auto

lemma relocate_from_refuses:
  assumes "out \<noteq> [] \<or> ws \<noteq> []"
  shows "relocate_from ws s n cap i out = [] \<longleftrightarrow>
     (\<exists>j < length ws. refused s n (i + j) (ws ! j) \<or>
        cap < 4 * (length out + length (concat (map (block s n) (zip [i..<i + j] ws)))) + HK_A64_MAX_RELOC_BYTES)"
  using assms
proof (induction ws arbitrary: i out)
  case Nil
  then show ?case by simp
next
  case (Cons w ws)
  define b where "b = relocate_one w (s + of_nat (4 * i)) s (s + of_nat (4 * n))"
  have b0: "b = [] \<longleftrightarrow> refused s n i w" unfolding b_def by (rule relocate_one_refuses)
  have step: "relocate_from (w # ws) s n cap i out =
      (if cap < 4 * length out + HK_A64_MAX_RELOC_BYTES \<or> b = [] then [] else relocate_from ws s n cap (i + 1) (out @ b))"
    by (simp add: b_def Let_def)
  have split: "(\<exists>j < length (w # ws). P j) \<longleftrightarrow> P 0 \<or> (\<exists>j < length ws. P (Suc j))" for P
    by (auto simp: less_Suc_eq_0_disj)
  have z: "length (concat (map (block s n) (zip [i..<i + Suc j] (w # ws)))) =
      length b + length (concat (map (block s n) (zip [i + 1..<i + 1 + j] ws)))" for j
    unfolding zip_upt_Cons by (simp add: block_def b_def)
  show ?case
  proof (cases "cap < 4 * length out + HK_A64_MAX_RELOC_BYTES \<or> b = []")
    case True
    then show ?thesis unfolding step split using b0 by auto
  next
    case False
    have "relocate_from ws s n cap (i + 1) (out @ b) = [] \<longleftrightarrow>
       (\<exists>j < length ws. refused s n (i + 1 + j) (ws ! j) \<or>
          cap < 4 * (length (out @ b) + length (concat (map (block s n) (zip [i + 1..<i + 1 + j] ws)))) + HK_A64_MAX_RELOC_BYTES)"
      by (rule Cons.IH) (use False in simp)
    then show ?thesis unfolding step split z using False b0 by (simp add: add.assoc)
  qed
qed

lemma relocate_words:
  assumes "hk_arm64_relocate src s cap = out" "out \<noteq> []"
  shows "out = concat (map (block s (length src)) (zip [0..<length src] src)) \<and>
    (\<forall>j < length src. block s (length src) (j, src ! j) \<noteq> [])"
  using relocate_from_spec [of src s "length src" cap 0 "[]"] assms unfolding hk_arm64_relocate_def block_def by simp

lemma block_length: "length (concat (map (block s n) xs)) \<le> 6 * length xs"
proof (induction xs)
  case (Cons x xs)
  then show ?case using relocate_one_length by (cases x) (fastforce simp: block_def intro: add_mono)
qed simp

text \<open>A literal in the displaced bytes is not refused: the relocated load reads the bytes of the new branch.
  Here \<open>LDR X0, #8; NOP; NOP\<close> and its own last word.\<close>

lemma literal_in_window_accepted:
  "a64_decode 0x58000040 = LdrLit X64 0 8 \<and> hk_arm64_relocate [0x58000040, A64_NOP, A64_NOP, A64_NOP] 0x1000 96 \<noteq> [] \<and>
   0x1000 \<le> (0x1000 + 8 :: u64) \<and> (0x1000 + 8 :: u64) < 0x1000 + 16"
  by code_simp

section \<open>Properties\<close>

text \<open>C31. The relocator is a compiler of one window: if it accepts, the words it wrote stand at \<open>dst\<close>, no
  displaced instruction is a call, depends on X16 and X17 or overwrites those words, and the
  original instructions run, one after the other, to a state \<open>c1\<close>, then a run of the new words from the
  same state ends in \<open>c1\<close> up to X16 and X17, at the same branch target, or behind the last new word where the
  original would have run past the window. \<open>BC.cond\<close> and the branches with pointer authentication count as
  instructions that run on with the next word (\<open>HK_A64\<close>).\<close>

theorem relocate_window_correct:
  assumes "hk_arm64_relocate src s cap = out" "out \<noteq> []" "code_at (cmem c) dst out"
    and "\<forall>w \<in> set src. \<not> is_call (a64_decode w) \<and> scratch_free other w \<and> spares other dst out w"
    and "straight other src s c = Some (fl, c1)"
  shows "\<exists>k c2. a64_run other k (dst, c) =
      Some (case fl of Jump t \<Rightarrow> t | _ \<Rightarrow> dst + of_nat (4 * length out), c2) \<and> eq_scratch c1 c2 \<and> (\<forall>t. fl \<noteq> Call t)"
  using window_run [OF assms(4), of s "length src" 0 "[]" c fl c1 c] relocate_words [OF assms(1,2)] assms(3,5) by simp

text \<open>The relocator refuses a window exactly when it is empty, when one of its instructions is an
  unallocated load or branches into the window, or when fewer than 24 bytes are left before one.\<close>

lemma relocate_refuses:
  "hk_arm64_relocate src s cap = [] \<longleftrightarrow> src = [] \<or> (\<exists>j < length src. refused s (length src) j (src ! j) \<or>
     cap < 4 * length (concat (map (block s (length src)) (zip [0..<j] src))) + HK_A64_MAX_RELOC_BYTES)"
  using relocate_from_refuses [of "[]" src s "length src" cap 0] by (cases "src = []") (simp_all add: hk_arm64_relocate_def)

text \<open>What is written fits the buffer and is at most 24 bytes for every instruction.\<close>

lemma relocate_bounds:
  "4 * length (hk_arm64_relocate src s cap) \<le> cap \<and> length (hk_arm64_relocate src s cap) \<le> 6 * length src"
  using relocate_from_bound [of "[]" cap src s "length src" 0] relocate_words [of src s cap, OF refl]
    block_length [of s "length src" "zip [0..<length src] src"]
  by (cases "hk_arm64_relocate src s cap = []") (auto simp: hk_arm64_relocate_def)

text \<open>The branch written over an entry: it has the announced size, and from any state it arrives at
  its destination with nothing changed but X16 or X17.\<close>

lemma emit_branch_arrives:
  assumes "code_at (cmem c) a (hk_arm64_emit_branch a dest)" "take_bit 2 (dest - a) = 0"
  shows "4 * length (hk_arm64_emit_branch a dest) = hk_arm64_branch_size a dest \<and>
    (\<exists>k > 0. \<exists>c2. a64_run other k (a, c) = Some (dest, c2) \<and> eq_scratch c c2)"
  using emit_branch_run [OF assms] emit_branch_length by blast

section \<open>Concrete runs\<close>

text \<open>A memory that holds given words.\<close>

definition word_memory :: "u64 \<Rightarrow> u32 list \<Rightarrow> memory" where
  "word_memory a ws = mem_of a (concat (map (le_bytes 4) ws))"

text \<open>Words stand where their bytes stand.\<close>

lemma code_at_bytes:
  assumes "\<And>i. i < 4 * length ws \<Longrightarrow> m (a + of_nat i) = Some (concat (map (le_bytes 4) ws) ! i)"
  shows "code_at m a ws"
  unfolding code_at_def
proof (intro allI impI)
  fix i assume i: "i < length ws"
  have "rd8 m (a + of_nat (4 * i)) (0 + k) = Some (le_bytes 4 (ws ! i) ! k)" if "k < 4" for k
  proof -
    have "rd8 m (a + of_nat (4 * i)) k = m (a + of_nat (4 * i + k))" by (simp add: rd8_def add.assoc)
    also have "\<dots> = Some (concat (map (le_bytes 4) ws) ! (4 * i + k))" by (rule assms) (use i that in simp)
    finally show ?thesis using word_bytes_nth [OF i that] by simp
  qed
  then show "rd32 m (a + of_nat (4 * i)) 0 = Some (ws ! i)" by (rule rd32_bytes)
qed

lemma word_memory_code:
  assumes "4 * length ws < 2 ^ 64"
  shows "code_at (word_memory a ws) a ws"
  by (rule code_at_bytes)
    (use assms word_bytes_length [of ws] rd8_mem_of [of "concat (map (le_bytes 4) ws)" _ a] in \<open>auto simp: word_memory_def rd8_def\<close>)

text \<open>\<open>ADR X0, #16; CBZ X1, #64\<close> at \<open>0x1000\<close>, relocated to \<open>0x2000\<close>.\<close>

definition sample_window :: "u32 list" where "sample_window = [0x10000080, 0xB4000201]"

definition sample_code :: "u32 list" where "sample_code = hk_arm64_relocate sample_window 0x1000 64"

definition sample_cpu :: cpu where
  "sample_cpu = \<lparr>cx = (\<lambda>_. 0), csp = 0x8000, cv = (\<lambda>_. 0), cflags = 0, cmem = word_memory 0x2000 sample_code\<rparr>"

lemma sample_decode: "a64_decode 0x10000080 = Adr 0 16" "a64_decode 0xB4000201 = Cb True False 1 64"
  by code_simp+

lemma sample_code_length: "length sample_code = 10"
  by code_simp

lemma sample_code_at: "code_at (cmem sample_cpu) 0x2000 sample_code"
  unfolding sample_cpu_def cpu.simps by (rule word_memory_code) (simp add: sample_code_length)

lemma sample_instructions:
  "\<forall>w \<in> set sample_window. \<not> is_call (a64_decode w) \<and> scratch_free other w \<and> spares other a ws w"
  by (auto simp: sample_window_def sample_decode scratch_free_def spares_def eq_scratch_def set_x_def get_x_def Let_def
      split: if_splits)

theorem relocate_window_correct_witness:
  "\<exists>k c2. a64_run (\<lambda>_ _. None) k (0x2000, sample_cpu) = Some (0x1044, c2) \<and> eq_scratch (set_x 0 0x1010 sample_cpu) c2"
proof -
  have "sample_code \<noteq> []" using sample_code_length by auto
  moreover have "straight (\<lambda>_ _. None) sample_window 0x1000 sample_cpu = Some (Jump 0x1044, set_x 0 0x1010 sample_cpu)"
    by (simp add: sample_window_def sample_decode sample_cpu_def get_x_def set_x_def)
  ultimately show ?thesis
    using relocate_window_correct [OF sample_code_def [symmetric] _ sample_code_at sample_instructions] by fastforce
qed

definition far_cpu :: cpu where
  "far_cpu = sample_cpu\<lparr>cmem := word_memory 0x1000 (hk_arm64_emit_branch 0x1000 0x10000000)\<rparr>"

end
