(* ===== verification/HK_Native.thy ===== *)
theory HK_Native
  imports HK_System HK_Types HK_StaticPool HK_Arm64
begin

text \<open>
  Writing code and data of a live process (\<open>src/native/hk_native.c\<close>) and the page source of the
  relocating engines (\<open>src/core/HKRuntime.c\<close>), over the address space of the process: its bytes, the
  protection of every mapped page, and what the kernel decides. A kernel call succeeds or fails by the
  next entry of a list of outcomes (every call succeeds when the list is empty); where the kernel has
  a choice (the bounds of the region it reports, the place of a new mapping) the choice is data of the
  state too, and a choice that contradicts the address space is a failed call.

  The definitions of the section on kernel calls translate no line of the repository: they state what
  Mach documents of the calls \<open>vm_protect\<close>, \<open>vm_region_64\<close>, \<open>vm_allocate\<close>, \<open>vm_deallocate\<close> and \<open>vm_remap\<close>, as
  the world the routines of this repository run in, and every statement holds for all outcomes.
\<close>

section \<open>The address space\<close>

definition PAGE :: u64 where "PAGE = 0x4000"

definition page_of :: "u64 \<Rightarrow> u64" where
  "page_of a = a AND NOT (PAGE - 1)"

definition VM_PROT_READ :: u32 where "VM_PROT_READ = 1"
definition VM_PROT_WRITE :: u32 where "VM_PROT_WRITE = 2"
definition VM_PROT_EXECUTE :: u32 where "VM_PROT_EXECUTE = 4"

record hk_vm = hk_sys +
  vm_bytes :: "u64 \<Rightarrow> byte"
  vm_prot :: "u64 \<Rightarrow> u32 option"
  vm_regions :: "u64 \<Rightarrow> (u64 \<times> u64) option"
  vm_calls :: "bool list"
  vm_places :: "u64 list"
  vm_memo :: "(u64 \<times> u64 \<times> u32) option"
  vm_pool :: static_pool

text \<open>What a load of the process sees.\<close>

definition vm_view :: "'s hk_vm_scheme \<Rightarrow> memory" where
  "vm_view s a = (case vm_prot s (page_of a) of None \<Rightarrow> None
     | Some p \<Rightarrow> if p AND VM_PROT_READ \<noteq> 0 then Some (vm_bytes s a) else None)"

definition put_bytes :: "(u64 \<Rightarrow> byte) \<Rightarrow> u64 \<Rightarrow> byte list \<Rightarrow> u64 \<Rightarrow> byte" where
  "put_bytes f a bs x = (let i = unat (x - a) in if i < length bs then bs ! i else f x)"

definition vm_store :: "u64 \<Rightarrow> byte list \<Rightarrow> 's hk_vm_scheme \<Rightarrow> 's hk_vm_scheme" where
  "vm_store a bs s = s\<lparr>vm_bytes := put_bytes (vm_bytes s) a bs\<rparr>"

text \<open>The pages of a range of whole pages.\<close>

definition pages :: "u64 \<Rightarrow> u64 \<Rightarrow> u64 list" where
  "pages start len = map (\<lambda>i. start + of_nat i * PAGE) [0..<unat len div unat PAGE]"

definition set_pages :: "u64 list \<Rightarrow> u32 option \<Rightarrow> (u64 \<Rightarrow> u32 option) \<Rightarrow> u64 \<Rightarrow> u32 option" where
  "set_pages ps p f x = (if x \<in> set ps then p else f x)"

section \<open>Kernel calls\<close>

definition kern_call :: "'s hk_vm_scheme \<Rightarrow> bool \<times> 's hk_vm_scheme" where
  "kern_call s = (case vm_calls s of [] \<Rightarrow> (True, s) | b # bs \<Rightarrow> (b, s\<lparr>vm_calls := bs\<rparr>))"

text \<open>\<open>vm_protect\<close>: all pages or none; the copy-on-write break of \<open>VM_PROT_COPY\<close> is private to the
  process and changes no byte.\<close>

definition vm_protect :: "u64 \<Rightarrow> u64 \<Rightarrow> u32 \<Rightarrow> 's hk_vm_scheme \<Rightarrow> bool \<times> 's hk_vm_scheme" where
  "vm_protect start len p s =
     (let (ok, s1) = kern_call s in
      if ok \<and> list_all (\<lambda>pg. vm_prot s1 pg \<noteq> None) (pages start len)
      then (True, s1\<lparr>vm_prot := set_pages (pages start len) (Some p) (vm_prot s1)\<rparr>)
      else (False, s1))"

text \<open>\<open>vm_region_64\<close>: base, size and protection of the region that holds the address or of one above it.\<close>

definition region_valid :: "'s hk_vm_scheme \<Rightarrow> u64 \<Rightarrow> u64 \<times> u64 \<Rightarrow> bool" where
  "region_valid s addr = (\<lambda>(b, n). page_of b = b \<and> n \<noteq> 0 \<and> unat n mod unat PAGE = 0 \<and>
     unat b + unat n < 2 ^ 64 \<and> addr < b + n \<and> vm_prot s b \<noteq> None \<and>
     list_all (\<lambda>pg. vm_prot s pg = vm_prot s b) (pages b n))"

definition vm_region_64 :: "'s hk_vm_scheme \<Rightarrow> u64 \<Rightarrow> (u64 \<times> u64 \<times> u32) option" where
  "vm_region_64 s addr = (case vm_regions s addr of None \<Rightarrow> None
     | Some (b, n) \<Rightarrow> if region_valid s addr (b, n) then Some (b, n, the (vm_prot s b)) else None)"

definition unmapped :: "'s hk_vm_scheme \<Rightarrow> u64 \<Rightarrow> u64 \<Rightarrow> bool" where
  "unmapped s start len \<longleftrightarrow> start \<noteq> 0 \<and> page_of start = start \<and> unat start + unat len < 2 ^ 64 \<and>
     list_all (\<lambda>pg. vm_prot s pg = None) (pages start len)"

definition map_pages :: "u64 \<Rightarrow> u64 \<Rightarrow> 's hk_vm_scheme \<Rightarrow> 's hk_vm_scheme" where
  "map_pages start len s = s\<lparr>vm_prot := set_pages (pages start len) (Some (VM_PROT_READ OR VM_PROT_WRITE)) (vm_prot s),
     vm_bytes := put_bytes (vm_bytes s) start (replicate (unat len) 0)\<rparr>"

definition vm_allocate_fixed :: "u64 \<Rightarrow> u64 \<Rightarrow> 's hk_vm_scheme \<Rightarrow> bool \<times> 's hk_vm_scheme" where
  "vm_allocate_fixed addr len s =
     (let (ok, s1) = kern_call s in
      if ok \<and> unmapped s1 addr len then (True, map_pages addr len s1) else (False, s1))"

definition vm_allocate_anywhere :: "u64 \<Rightarrow> 's hk_vm_scheme \<Rightarrow> u64 option \<times> 's hk_vm_scheme" where
  "vm_allocate_anywhere len s =
     (let (ok, s1) = kern_call s in
      case vm_places s1 of
        [] \<Rightarrow> (None, s1)
      | addr # rest \<Rightarrow> (let s2 = s1\<lparr>vm_places := rest\<rparr> in
          if ok \<and> unmapped s2 addr len then (Some addr, map_pages addr len s2) else (None, s2)))"

definition vm_deallocate :: "u64 \<Rightarrow> u64 \<Rightarrow> 's hk_vm_scheme \<Rightarrow> 's hk_vm_scheme" where
  "vm_deallocate start len s = s\<lparr>vm_prot := set_pages (pages start len) None (vm_prot s)\<rparr>"

text \<open>\<open>vm_remap\<close> over a fixed range: the range shows the source's bytes and protections. A failed one may
  leave the range unmapped; a second outcome says whether the old mapping survived.\<close>

definition vm_remap_over :: "u64 \<Rightarrow> u64 \<Rightarrow> u64 \<Rightarrow> 's hk_vm_scheme \<Rightarrow> bool \<times> 's hk_vm_scheme" where
  "vm_remap_over dest src len s =
     (let (ok, s1) = kern_call s in
      if ok then
        (True, s1\<lparr>vm_prot := (\<lambda>x. if x \<in> set (pages dest len) then vm_prot s1 (src + (x - dest)) else vm_prot s1 x),
                  vm_bytes := (\<lambda>x. if unat (x - dest) < unat len then vm_bytes s1 (src + (x - dest)) else vm_bytes s1 x)\<rparr>)
      else let (survived, s2) = kern_call s1 in (False, if survived then s2 else vm_deallocate dest len s2))"

section \<open>Ranges\<close>

definition hk_range_bounds :: "u64 \<Rightarrow> nat \<Rightarrow> (u64 \<times> u64) option" where
  "hk_range_bounds addr len =
     (if addr = 0 \<or> len = 0 then None
      else let last = addr + of_nat len in
      if last < addr then None
      else let start = addr AND NOT (PAGE - 1); rounded = last + (PAGE - 1) in
      if rounded < last then None
      else Some (start, rounded AND NOT (PAGE - 1)))"

lemma region_advances:
  assumes "vm_region_64 s start = Some (b, n, p)" "b \<le> start"
  shows "start < b + n" "unat (b + n) = unat b + unat n"
proof -
  have "region_valid s start (b, n)" using assms(1) by (auto simp: vm_region_64_def split: option.splits if_splits prod.splits)
  then have v: "start < b + n" "unat b + unat n < 2 ^ 64" by (simp_all add: region_valid_def)
  show "start < b + n" by (rule v(1))
  show "unat (b + n) = unat b + unat n" using v(2) by (simp add: unat_word_ariths)
qed

lemma region_forward: "vm_region_64 s start = Some (b, n, p) \<Longrightarrow> unat b \<le> unat start \<Longrightarrow> unat start < unat (b + n)"
  using region_advances(1) [of s start b n p] by (simp add: word_less_nat_alt word_le_nat_alt)

text \<open>The walk of \<open>hk_range_all_protected\<close>; the memo is written when one region covers what is left.\<close>

function all_protected_from :: "u64 \<Rightarrow> u64 \<Rightarrow> u32 \<Rightarrow> 's hk_vm_scheme \<Rightarrow> bool \<times> 's hk_vm_scheme" where
  "all_protected_from start end_addr required s =
     (if start < end_addr then
        (case vm_region_64 s start of
           None \<Rightarrow> (False, s\<lparr>vm_memo := None\<rparr>)
         | Some (region, sz, p) \<Rightarrow>
             (if region > start \<or> p AND required \<noteq> required then (False, s\<lparr>vm_memo := None\<rparr>)
              else let s1 = (if region + sz \<ge> end_addr then s\<lparr>vm_memo := Some (region, region + sz, p)\<rparr> else s)
                in all_protected_from (region + sz) end_addr required s1))
      else (True, s))"
  by pat_completeness auto

termination all_protected_from
  by (relation "measure (\<lambda>(start, end_addr, _, _). unat end_addr - unat start)")
    (auto simp: word_less_nat_alt not_less intro!: diff_less_mono2 region_forward)

declare all_protected_from.simps [simp del]

definition hk_range_all_protected :: "u64 \<Rightarrow> u64 \<Rightarrow> u32 \<Rightarrow> 's hk_vm_scheme \<Rightarrow> bool \<times> 's hk_vm_scheme" where
  "hk_range_all_protected start end_addr required s =
     (case vm_memo s of
        Some (base, fin, p) \<Rightarrow> (if start \<ge> base \<and> end_addr \<le> fin \<and> p AND required = required then (True, s)
                          else all_protected_from start end_addr required s)
      | None \<Rightarrow> all_protected_from start end_addr required s)"

text \<open>The uniform protection of a range, \<open>None\<close> when it is not uniform or not mapped. \<open>first\<close> is \<open>None\<close> until
  the first region.\<close>

function range_protection_from :: "'s hk_vm_scheme \<Rightarrow> u64 \<Rightarrow> u64 \<Rightarrow> u32 option \<Rightarrow> u32 option" where
  "range_protection_from s start end_addr first =
     (if start < end_addr then
        (case vm_region_64 s start of
           None \<Rightarrow> None
         | Some (region, sz, p) \<Rightarrow>
             (if region > start then None
              else if first \<noteq> None \<and> first \<noteq> Some p then None
              else range_protection_from s (region + sz) end_addr (Some p)))
      else first)"
  by pat_completeness auto

termination range_protection_from
  by (relation "measure (\<lambda>(_, start, end_addr, _). unat end_addr - unat start)")
    (auto simp: word_less_nat_alt not_less intro!: diff_less_mono2 region_forward)

declare range_protection_from.simps [simp del]

definition hk_range_protection :: "'s hk_vm_scheme \<Rightarrow> u64 \<Rightarrow> u64 \<Rightarrow> u32 option" where
  "hk_range_protection s start end_addr = range_protection_from s start end_addr None"

section \<open>Writing\<close>

text \<open>\<open>hk_write_locked\<close>: write in place under a private copy, or else patch a copy and map it over the target.\<close>

definition write_in_place :: "u64 \<Rightarrow> byte list \<Rightarrow> u64 \<Rightarrow> u64 \<Rightarrow> u32 \<Rightarrow> 's hk_vm_scheme \<Rightarrow> hk_mutation_state \<times> 's hk_vm_scheme" where
  "write_in_place dst src start len restore s =
     (let s1 = vm_store dst src s; (ok, s2) = vm_protect start len restore s1
      in (if ok then HK_MUTATION_COMPLETE else HK_MUTATION_UNKNOWN, s2))"

definition write_remap :: "u64 \<Rightarrow> byte list \<Rightarrow> u64 \<Rightarrow> u64 \<Rightarrow> u32 \<Rightarrow> 's hk_vm_scheme \<Rightarrow> hk_mutation_state \<times> 's hk_vm_scheme" where
  "write_remap dst src start len restore s =
     (case vm_allocate_anywhere len s of
        (None, s1) \<Rightarrow> (HK_MUTATION_NONE, s1)
      | (Some tmp, s1) \<Rightarrow>
         (let s2 = vm_store tmp (map (\<lambda>i. vm_bytes s1 (start + of_nat i)) [0..<unat len]) s1;
              s3 = vm_store (tmp + (dst - start)) src s2;
              (ok, s4) = vm_protect tmp len restore s3
          in if \<not> ok then (HK_MUTATION_NONE, vm_deallocate tmp len s4)
             else let (mapped, s5) = vm_remap_over start tmp len s4; s6 = vm_deallocate tmp len s5
               in (if mapped then HK_MUTATION_COMPLETE else HK_MUTATION_UNKNOWN, s6)))"

text \<open>The copy of the range is read with \<open>memcpy\<close>, and a page without read permission ends the process there:
  what \<open>write_remap\<close> answers is the answer of a call that comes back. \<open>hk_write_faults\<close> decides whether it
  does: the pages are uniform, the change of their protection in place was refused, and a copy was mapped.\<close>

definition remap_faults :: "u64 \<Rightarrow> u64 \<Rightarrow> 's hk_vm_scheme \<Rightarrow> bool" where
  "remap_faults start len s =
     (case vm_allocate_anywhere len s of
        (None, s1) \<Rightarrow> False
      | (Some tmp, s1) \<Rightarrow>
          list_ex (\<lambda>pg. case vm_prot s1 pg of None \<Rightarrow> True | Some p \<Rightarrow> p AND VM_PROT_READ = 0) (pages start len))"

definition hk_write_faults :: "u64 \<Rightarrow> byte list \<Rightarrow> 's hk_vm_scheme \<Rightarrow> bool" where
  "hk_write_faults dst src s =
     (case hk_range_bounds dst (length src) of
        None \<Rightarrow> False
      | Some (start, end_addr) \<Rightarrow>
          hk_range_protection s start end_addr \<noteq> None \<and>
          (let len = end_addr - start; (ok, s1) = vm_protect start len (VM_PROT_READ OR VM_PROT_WRITE) s
           in \<not> ok \<and> remap_faults start len s1))"

definition hk_write_locked :: "u64 \<Rightarrow> byte list \<Rightarrow> 's hk_vm_scheme \<Rightarrow> hk_mutation_state \<times> 's hk_vm_scheme" where
  "hk_write_locked dst src s =
     (case hk_range_bounds dst (length src) of
        None \<Rightarrow> (HK_MUTATION_NONE, s)
      | Some (start, end_addr) \<Rightarrow>
         (let len = end_addr - start in
          case hk_range_protection s start end_addr of
            None \<Rightarrow> (HK_MUTATION_NONE, s)
          | Some restore \<Rightarrow>
             (let (ok, s1) = vm_protect start len (VM_PROT_READ OR VM_PROT_WRITE) s
              in if ok then write_in_place dst src start len restore s1
                 else write_remap dst src start len restore s1)))"

definition hk_write :: "u64 \<Rightarrow> byte list \<Rightarrow> 's hk_vm_scheme \<Rightarrow> hk_mutation_state \<times> 's hk_vm_scheme" where
  "hk_write dst src s = (let (mutation, s1) = hk_write_locked dst src s in (mutation, s1\<lparr>vm_memo := None\<rparr>))"

definition hk_native_range_readable :: "u64 \<Rightarrow> nat \<Rightarrow> 's hk_vm_scheme \<Rightarrow> bool \<times> 's hk_vm_scheme" where
  "hk_native_range_readable addr len s = (case hk_range_bounds addr len of None \<Rightarrow> (False, s)
     | Some (start, end_addr) \<Rightarrow> hk_range_all_protected start end_addr VM_PROT_READ s)"

definition hk_native_range_executable :: "u64 \<Rightarrow> nat \<Rightarrow> 's hk_vm_scheme \<Rightarrow> bool \<times> 's hk_vm_scheme" where
  "hk_native_range_executable addr len s = (case hk_range_bounds addr len of None \<Rightarrow> (False, s)
     | Some (start, end_addr) \<Rightarrow> hk_range_all_protected start end_addr VM_PROT_EXECUTE s)"

text \<open>\<open>strip\<close> removes a pointer's signature. The data is given by its bytes, so the case \<open>target == data\<close>, a
  region patched with itself, is the caller's.\<close>

definition hk_native_patch_memory :: "(u64 \<Rightarrow> u64) \<Rightarrow> u64 \<Rightarrow> byte list \<Rightarrow> 's hk_vm_scheme \<Rightarrow> hk_mutation_state \<times> 's hk_vm_scheme" where
  "hk_native_patch_memory strip target data s =
     (if target = 0 \<or> data = [] then (HK_MUTATION_NONE, s) else hk_write (strip target) data s)"

definition hk_native_patch_pointer :: "u64 \<Rightarrow> u64 \<Rightarrow> 's hk_vm_scheme \<Rightarrow> hk_mutation_state \<times> 's hk_vm_scheme" where
  "hk_native_patch_pointer slot v s =
     (if slot = 0 \<or> slot AND 7 \<noteq> 0 then (HK_MUTATION_NONE, s)
      else case hk_range_bounds slot 8 of
        None \<Rightarrow> (HK_MUTATION_NONE, s)
      | Some (start, end_addr) \<Rightarrow>
         (case hk_range_protection s start end_addr of
            None \<Rightarrow> (HK_MUTATION_NONE, s)
          | Some restore \<Rightarrow>
             (let len = end_addr - start; (ok, s1) = vm_protect start len (VM_PROT_READ OR VM_PROT_WRITE) s;
                  (mutation, s2) = (if ok then write_in_place slot (le_bytes 8 v) start len restore s1
                                    else (HK_MUTATION_NONE, s1))
              in (mutation, s2\<lparr>vm_memo := None\<rparr>))))"

section \<open>Pages for trampolines\<close>

text \<open>The search upwards from the anchor for a hole within reach of a branch.\<close>

function map_near_from :: "u64 \<Rightarrow> u64 \<Rightarrow> u64 \<Rightarrow> 's hk_vm_scheme \<Rightarrow> u64 option \<times> 's hk_vm_scheme" where
  "map_near_from probe limit sz s =
     (if probe \<noteq> 0 \<and> probe + sz > probe \<and> probe + sz \<le> limit then
        (case vm_region_64 s probe of
           Some (region, n, _) \<Rightarrow>
             (if region \<ge> probe + sz
              then (let (ok, s1) = vm_allocate_fixed probe sz s
                    in if ok then (Some probe, s1) else map_near_from (probe + sz) limit sz s1)
              else map_near_from (region + n) limit sz s)
         | None \<Rightarrow> (let (ok, s1) = vm_allocate_fixed probe sz s
                    in if ok then (Some probe, s1) else map_near_from (probe + sz) limit sz s1))
      else (None, s))"
  by pat_completeness auto

lemma region_beyond:
  assumes "vm_region_64 s addr = Some (b, n, p)"
  shows "unat addr < unat (b + n)" "unat (b + n) = unat b + unat n"
proof -
  have "region_valid s addr (b, n)" using assms by (auto simp: vm_region_64_def split: option.splits if_splits prod.splits)
  then have v: "addr < b + n" "unat b + unat n < 2 ^ 64" by (simp_all add: region_valid_def)
  show "unat addr < unat (b + n)" using v(1) by (simp add: word_less_nat_alt)
  show "unat (b + n) = unat b + unat n" using v(2) by (simp add: unat_word_ariths)
qed

termination map_near_from
  by (relation "measure (\<lambda>(probe, limit, _, _). unat limit - unat probe)")
    (auto simp: word_less_nat_alt word_le_nat_alt intro!: diff_less_mono2 dest: region_beyond(1))

declare map_near_from.simps [simp del]

definition tramp_map_near :: "u64 \<Rightarrow> u64 \<Rightarrow> 's hk_vm_scheme \<Rightarrow> u64 \<times> 's hk_vm_scheme" where
  "tramp_map_near anchor sz s =
     (let probe = (anchor + sz - 1) AND NOT (sz - 1); limit = anchor + push_bit 27 1;
          (near_addr, s1) = map_near_from probe limit sz s
      in case near_addr of
           Some addr \<Rightarrow> (addr, s1)
         | None \<Rightarrow> (let (anywhere, s2) = vm_allocate_anywhere sz s1
                     in (case anywhere of None \<Rightarrow> 0 | Some addr \<Rightarrow> addr, s2)))"

definition hk_native_reloc_alloc :: "nat \<Rightarrow> u64 \<Rightarrow> 's hk_vm_scheme \<Rightarrow> u64 \<times> 's hk_vm_scheme" where
  "hk_native_reloc_alloc sz near s = (if sz = 0 \<or> sz > unat PAGE then (0, s) else tramp_map_near near PAGE s)"

definition hk_native_reloc_seal :: "u64 \<Rightarrow> nat \<Rightarrow> 's hk_vm_scheme \<Rightarrow> bool \<times> 's hk_vm_scheme" where
  "hk_native_reloc_seal page sz s =
     (if page = 0 then (False, s) else vm_protect page PAGE (VM_PROT_READ OR VM_PROT_EXECUTE) s)"

definition hk_native_reloc_free :: "u64 \<Rightarrow> nat \<Rightarrow> 's hk_vm_scheme \<Rightarrow> 's hk_vm_scheme" where
  "hk_native_reloc_free page sz s = (if page \<noteq> 0 then vm_deallocate page PAGE s else s)"

definition hk_native_reloc_unprotect :: "u64 \<Rightarrow> nat \<Rightarrow> 's hk_vm_scheme \<Rightarrow> bool \<times> 's hk_vm_scheme" where
  "hk_native_reloc_unprotect page sz s =
     (if page = 0 then (False, s) else vm_protect page PAGE (VM_PROT_READ OR VM_PROT_WRITE) s)"

end
