(* ===== verification/HK_Native_Props.thy ===== *)
theory HK_Native_Props
  imports HK_Native
begin

text \<open>
  What the writers of \<open>HK_Native\<close> guarantee: the range of a write, the protection of every page, and the
  memory the process sees before and after.
\<close>

section \<open>Pages and ranges\<close>

lemma PAGE_unat [simp]: "unat PAGE = 16384"
  by (simp add: PAGE_def)

lemma unat_page_of: "unat (page_of a) = unat a div 16384 * 16384"
proof -
  have "page_of a = push_bit 14 (drop_bit 14 a)"
  proof -
    have "PAGE - 1 = mask 14" by (simp add: PAGE_def mask_eq_exp_minus_1)
    then show ?thesis unfolding page_of_def by (simp add: bit_eq_iff bit_simps) auto
  qed
  moreover have "unat (push_bit 14 (drop_bit 14 a)) = push_bit 14 (drop_bit 14 (unat a))"
  proof -
    have "push_bit 14 (drop_bit 14 (unat a)) \<le> unat a" by (simp add: push_bit_eq_mult drop_bit_eq_div)
    moreover have "unat a < 2 ^ 64" using unsigned_less [of a] by simp
    ultimately have "push_bit 14 (drop_bit 14 (unat a)) < 2 ^ 64" by linarith
    moreover have "take_bit 64 (unat a) = unat a" using \<open>unat a < 2 ^ 64\<close> by (simp add: take_bit_nat_eq_self)
    ultimately show ?thesis
      by (simp add: unsigned_push_bit_eq unsigned_drop_bit_eq take_bit_nat_eq_self)
  qed
  ultimately show ?thesis by (simp add: push_bit_eq_mult drop_bit_eq_div)
qed

lemma u64_less: "unat (x :: u64) < 2 ^ 64"
  using unsigned_less [of x] by simp

lemma page_of_id: "page_of a = a \<longleftrightarrow> 16384 dvd unat a"
  by (metis dvd_div_mult_self dvd_triv_right unat_page_of word_unat_eq_iff)

lemma sub_less:
  fixes x a :: u64
  assumes "unat a + n \<le> 2 ^ 64"
  shows "unat (x - a) < n \<longleftrightarrow> unat a \<le> unat x \<and> unat x < unat a + n"
proof (cases "a \<le> x")
  case True
  then show ?thesis by (auto simp: unat_sub word_le_nat_alt)
next
  case False
  then have "unat (x - a) = 2 ^ 64 + unat x - unat a"
    by (simp add: unat_sub_if' word_le_nat_alt)
  then show ?thesis using False assms by (auto simp: word_le_nat_alt)
qed

lemma in_pages:
  assumes "16384 dvd unat start" "unat start + unat len \<le> 2 ^ 64" "16384 dvd unat len"
  shows "x \<in> set (pages start len) \<longleftrightarrow> 16384 dvd unat x \<and> unat start \<le> unat x \<and> unat x < unat start + unat len"
proof -
  have u: "unat (start + of_nat i * PAGE) = unat start + i * 16384" if "i < unat len div 16384" for i
  proof -
    have "i * 16384 < unat len" using that assms(3) by (metis dvd_div_mult_self mult_less_cancel2 zero_less_numeral)
    then have l: "unat start + i * 16384 < 2 ^ 64" using assms(2) by linarith
    then have "unat (of_nat i * PAGE) = i * 16384"
      by (simp add: unat_word_ariths unat_of_nat take_bit_nat_eq_self)
    then show ?thesis using l by (simp add: unat_word_ariths)
  qed
  show ?thesis
  proof
    assume "x \<in> set (pages start len)"
    then obtain i where i: "i < unat len div 16384" "x = start + of_nat i * PAGE" by (auto simp: pages_def)
    have "i * 16384 < unat len" using i(1) assms(3) by (metis dvd_div_mult_self mult_less_cancel2 zero_less_numeral)
    then show "16384 dvd unat x \<and> unat start \<le> unat x \<and> unat x < unat start + unat len"
      using u [OF i(1)] i(2) assms(1) by simp
  next
    assume x: "16384 dvd unat x \<and> unat start \<le> unat x \<and> unat x < unat start + unat len"
    define i where "i = (unat x - unat start) div 16384"
    have d: "16384 dvd unat x - unat start" using x assms(1) by simp
    have i: "i < unat len div 16384"
    proof -
      have "i * 16384 < unat len div 16384 * 16384" using x d assms(3) by (auto simp: i_def)
      then show ?thesis by simp
    qed
    have "unat x = unat start + i * 16384" using x d by (simp add: i_def)
    then have "x = start + of_nat i * PAGE" using u [OF i] by (simp add: word_unat_eq_iff)
    then show "x \<in> set (pages start len)" using i by (auto simp: pages_def)
  qed
qed

lemma page_in_pages:
  assumes "16384 dvd unat start" "unat start + unat len \<le> 2 ^ 64" "16384 dvd unat len"
  shows "page_of a \<in> set (pages start len) \<longleftrightarrow> unat start \<le> unat a \<and> unat a < unat start + unat len"
proof -
  obtain k l where k: "unat start = 16384 * k" "unat len = 16384 * l" using assms(1,3) by (auto elim!: dvdE)
  have "k \<le> unat a div 16384 \<longleftrightarrow> 16384 * k \<le> unat a" by (simp add: less_eq_div_iff_mult_less_eq mult.commute)
  moreover have "unat a div 16384 < k + l \<longleftrightarrow> unat a < 16384 * (k + l)"
    by (simp add: div_less_iff_less_mult mult.commute)
  moreover have "d * 16384 < 16384 * k + 16384 * l \<longleftrightarrow> d < k + l" for d by arith
  moreover have "16384 * k \<le> d * 16384 \<longleftrightarrow> k \<le> d" for d by arith
  ultimately show ?thesis
    unfolding in_pages [OF assms] unat_page_of k by (simp only: distrib_left dvd_triv_right simp_thms)
qed

lemma range_boundsD:
  assumes "hk_range_bounds addr len = Some (start, end_addr)" "len < 2 ^ 64"
  shows "16384 dvd unat start" "16384 dvd unat end_addr" "unat start \<le> unat addr" "unat addr + len \<le> unat end_addr"
    "0 < len" "unat start + unat (end_addr - start) = unat end_addr" "16384 dvd unat (end_addr - start)"
proof -
  define last where "last = addr + of_nat len"
  define rounded where "rounded = last + (PAGE - 1)"
  have e: "0 < len" "\<not> last < addr" "\<not> rounded < last" "start = page_of addr" "end_addr = page_of rounded"
    using assms(1) by (auto simp: hk_range_bounds_def Let_def last_def rounded_def page_of_def split: if_splits)
  have l: "unat last = unat addr + len"
  proof -
    have "unat (of_nat len :: u64) = len" using assms(2) by (simp add: unat_of_nat take_bit_nat_eq_self)
    then show ?thesis using e(2) unfolding last_def by (metis not_less unat_plus_simple)
  qed
  have p: "unat (PAGE - 1) = 16383" by (simp add: PAGE_def)
  have r: "unat rounded = unat last + 16383"
    using e(3) p unfolding rounded_def by (metis not_less unat_plus_simple)
  show "0 < len" by (rule e(1))
  show s: "16384 dvd unat start" and en: "16384 dvd unat end_addr" by (simp_all add: e unat_page_of)
  show a: "unat start \<le> unat addr" by (simp add: e unat_page_of)
  show b: "unat addr + len \<le> unat end_addr"
  proof -
    have "n \<le> (n + 16383) div 16384 * 16384" for n :: nat
    proof -
      have "(n + 16383) div 16384 * 16384 + (n + 16383) mod 16384 = n + 16383" by (rule div_mult_mod_eq)
      moreover have "(n + 16383) mod 16384 < 16384" by simp
      ultimately show ?thesis by linarith
    qed
    then show ?thesis unfolding e unat_page_of r l by metis
  qed
  have "start \<le> end_addr" using a b by (simp add: word_le_nat_alt)
  then show f: "unat start + unat (end_addr - start) = unat end_addr" using a b by (simp add: unat_sub word_le_nat_alt)
  show "16384 dvd unat (end_addr - start)" using s en f by (metis dvd_add_right_iff)
qed

section \<open>Protections\<close>

lemma region_prot:
  assumes "vm_region_64 s addr = Some (b, n, p)"
  shows "16384 dvd unat b" "unat (b + n) = unat b + unat n" "16384 dvd unat n" "unat b + unat n < 2 ^ 64"
    "16384 dvd unat x \<Longrightarrow> unat b \<le> unat x \<Longrightarrow> unat x < unat b + unat n \<Longrightarrow> vm_prot s x = Some p"
proof -
  have v: "region_valid s addr (b, n)" "p = the (vm_prot s b)"
    using assms by (auto simp: vm_region_64_def split: option.splits if_splits prod.splits)
  show b: "16384 dvd unat b" and "unat (b + n) = unat b + unat n" and n: "16384 dvd unat n" and u: "unat b + unat n < 2 ^ 64"
    using v(1) region_beyond(2) [OF assms] by (auto simp: region_valid_def page_of_id)
  assume "16384 dvd unat x" "unat b \<le> unat x" "unat x < unat b + unat n"
  then have "x \<in> set (pages b n)" using in_pages [OF b _ n, of x] u by simp
  then show "vm_prot s x = Some p" using v by (auto simp: region_valid_def list_all_iff)
qed

lemma range_protection_step:
  assumes "range_protection_from s start end_addr first = Some p" "start < end_addr"
  obtains b n q where "vm_region_64 s start = Some (b, n, q)" "\<not> b > start" "first \<noteq> None \<longrightarrow> first = Some q"
    "range_protection_from s (b + n) end_addr (Some q) = Some p"
  using assms by (subst (asm) range_protection_from.simps) (auto split: option.splits if_splits prod.splits)

lemma range_protection_first: "range_protection_from s start end_addr first = Some p \<Longrightarrow> first \<noteq> None \<Longrightarrow> first = Some p"
proof (induction s start end_addr first rule: range_protection_from.induct)
  case (1 s start end_addr first)
  show ?case
  proof (cases "start < end_addr")
    case True
    obtain b n q where r: "vm_region_64 s start = Some (b, n, q)" "\<not> b > start" "first \<noteq> None \<longrightarrow> first = Some q"
      "range_protection_from s (b + n) end_addr (Some q) = Some p"
      by (rule range_protection_step [OF "1.prems"(1) True])
    then have "Some q = Some p" using "1.IH" [OF True r(1) refl refl] "1.prems"(2) by auto
    then show ?thesis using r(3) "1.prems"(2) by auto
  next
    case False
    then show ?thesis using "1.prems"(1) by (subst (asm) range_protection_from.simps) simp
  qed
qed

lemma range_protection_pages:
  "range_protection_from s start end_addr first = Some p \<Longrightarrow> 16384 dvd unat x \<Longrightarrow> unat start \<le> unat x \<Longrightarrow>
   unat x < unat end_addr \<Longrightarrow> vm_prot s x = Some p"
proof (induction s start end_addr first rule: range_protection_from.induct)
  case (1 s start end_addr first)
  have lt: "start < end_addr" using "1.prems"(3,4) by (simp add: word_less_nat_alt)
  obtain b n q where r: "vm_region_64 s start = Some (b, n, q)" "\<not> b > start" "first \<noteq> None \<longrightarrow> first = Some q"
    and rest: "range_protection_from s (b + n) end_addr (Some q) = Some p"
    by (rule range_protection_step [OF "1.prems"(1) lt])
  note reg = region_prot [OF r(1)]
  have q: "q = p" using range_protection_first [OF rest] by simp
  show ?case
  proof (cases "unat x < unat b + unat n")
    case True
    have "unat b \<le> unat x" using r(2) "1.prems"(3) by (simp add: not_less word_le_nat_alt)
    then show ?thesis using reg(5) [OF "1.prems"(2) _ True] q by simp
  next
    case False
    have nb: "first = None \<or> first = Some q" using r(3) by auto
    show ?thesis
      by (rule "1.IH" [OF lt r(1) refl refl r(2)]) (use nb rest "1.prems" reg(2) False in auto)
  qed
qed

lemma range_protectionD:
  assumes "hk_range_protection s start end_addr = Some p" "16384 dvd unat start" "unat start + unat len = unat end_addr"
    "16384 dvd unat len" "x \<in> set (pages start len)"
  shows "vm_prot s x = Some p"
proof -
  have le: "unat start + unat len \<le> 2 ^ 64" using assms(3) u64_less [of end_addr] by linarith
  have "16384 dvd unat x" "unat start \<le> unat x" "unat x < unat end_addr"
    using assms(5) unfolding in_pages [OF assms(2) le assms(4)] by (simp_all add: assms(3))
  then show ?thesis using range_protection_pages assms(1) unfolding hk_range_protection_def by blast
qed

section \<open>Writes\<close>

text \<open>Memory with bytes written into it; what is not readable stays so.\<close>

definition patched :: "memory \<Rightarrow> u64 \<Rightarrow> byte list \<Rightarrow> memory" where
  "patched m a bs x = (if m x \<noteq> None \<and> unat (x - a) < length bs then Some (bs ! unat (x - a)) else m x)"

lemma truncate_updates [simp]:
  "hk_sys.truncate (s\<lparr>vm_bytes := f\<rparr>) = hk_sys.truncate s" "hk_sys.truncate (s\<lparr>vm_prot := g\<rparr>) = hk_sys.truncate s"
  "hk_sys.truncate (s\<lparr>vm_calls := c\<rparr>) = hk_sys.truncate s" "hk_sys.truncate (s\<lparr>vm_places := l\<rparr>) = hk_sys.truncate s"
  "hk_sys.truncate (s\<lparr>vm_memo := o1\<rparr>) = hk_sys.truncate s" "hk_sys.truncate (s\<lparr>vm_pool := o2\<rparr>) = hk_sys.truncate s"
  by (simp_all add: hk_sys.truncate_def)

lemma view_cong:
  assumes "vm_prot s1 = vm_prot s" "\<And>x. vm_prot s (page_of x) \<noteq> None \<Longrightarrow> vm_bytes s1 x = vm_bytes s x"
  shows "vm_view s1 = vm_view s"
  using assms by (auto simp: vm_view_def fun_eq_iff split: option.splits)

lemma vm_store_fields [simp]:
  "vm_bytes (vm_store a bs s) = put_bytes (vm_bytes s) a bs" "vm_prot (vm_store a bs s) = vm_prot s"
  "vm_pool (vm_store a bs s) = vm_pool s" "hk_sys.truncate (vm_store a bs s) = hk_sys.truncate s"
  by (simp_all add: vm_store_def)

lemma vm_deallocate_fields [simp]:
  "vm_bytes (vm_deallocate a n s) = vm_bytes s" "vm_prot (vm_deallocate a n s) = set_pages (pages a n) None (vm_prot s)"
  "vm_pool (vm_deallocate a n s) = vm_pool s" "hk_sys.truncate (vm_deallocate a n s) = hk_sys.truncate s"
  by (simp_all add: vm_deallocate_def)

lemma kern_call_frame:
  assumes "kern_call s = (ok, s1)"
  shows "vm_bytes s1 = vm_bytes s" "vm_prot s1 = vm_prot s" "vm_pool s1 = vm_pool s" "hk_sys.truncate s1 = hk_sys.truncate s"
  using assms by (auto simp: kern_call_def split: list.splits)

lemma vm_protect_cases:
  assumes "vm_protect start len p s = (ok, s1)"
  shows "vm_bytes s1 = vm_bytes s" "vm_pool s1 = vm_pool s" "hk_sys.truncate s1 = hk_sys.truncate s"
    "vm_prot s1 = (if ok then set_pages (pages start len) (Some p) (vm_prot s) else vm_prot s)"
    "ok \<Longrightarrow> x \<in> set (pages start len) \<Longrightarrow> vm_prot s x \<noteq> None"
proof -
  obtain b s2 where k: "kern_call s = (b, s2)" by fastforce
  note f = kern_call_frame [OF k]
  show "vm_bytes s1 = vm_bytes s" "vm_pool s1 = vm_pool s" "hk_sys.truncate s1 = hk_sys.truncate s"
    "vm_prot s1 = (if ok then set_pages (pages start len) (Some p) (vm_prot s) else vm_prot s)"
    "ok \<Longrightarrow> x \<in> set (pages start len) \<Longrightarrow> vm_prot s x \<noteq> None"
    using assms f by (auto simp: vm_protect_def k list_all_iff split: if_splits)
qed

lemma set_pages_back: "(\<And>x. x \<in> set ps \<Longrightarrow> f x = p) \<Longrightarrow> set_pages ps p (set_pages ps q f) = f"
  by (auto simp: set_pages_def)

lemma write_in_place_spec:
  assumes "write_in_place dst src start len restore s1 = (m, s2)"
    and "vm_prot s1 = set_pages (pages start len) q (vm_prot s)" "vm_bytes s1 = vm_bytes s"
    and "\<And>x. x \<in> set (pages start len) \<Longrightarrow> vm_prot s x = Some restore"
  shows "(m = HK_MUTATION_COMPLETE \<and> vm_view s2 = patched (vm_view s) dst src \<and> vm_prot s2 = vm_prot s \<or> m = HK_MUTATION_UNKNOWN) \<and>
    vm_pool s2 = vm_pool s1 \<and> hk_sys.truncate s2 = hk_sys.truncate s1"
proof -
  obtain ok s3 where p: "vm_protect start len restore (vm_store dst src s1) = (ok, s3)" by fastforce
  note f = vm_protect_cases [OF p]
  have "vm_prot s3 = vm_prot s" if ok
    using f(4) that assms(2,4) by (simp add: set_pages_back)
  then have "vm_view s3 = patched (vm_view s) dst src" "vm_prot s3 = vm_prot s" if ok
    using that f(1) assms(3)
    by (auto simp: fun_eq_iff vm_view_def patched_def put_bytes_def Let_def split: option.splits)
  then show ?thesis
    using assms(1) f(2,3) by (auto simp: write_in_place_def Let_def p split: if_splits)
qed

lemma allocate_anywhere_cases:
  assumes "vm_allocate_anywhere len s = (res, s1)"
  shows "vm_pool s1 = vm_pool s" "hk_sys.truncate s1 = hk_sys.truncate s"
    "res = None \<Longrightarrow> vm_prot s1 = vm_prot s \<and> vm_bytes s1 = vm_bytes s"
    "res = Some tmp \<Longrightarrow> unmapped s tmp len \<and> vm_bytes s1 = put_bytes (vm_bytes s) tmp (replicate (unat len) 0) \<and>
       vm_prot s1 = set_pages (pages tmp len) (Some (VM_PROT_READ OR VM_PROT_WRITE)) (vm_prot s)"
proof -
  obtain b s2 where k: "kern_call s = (b, s2)" by fastforce
  note f = kern_call_frame [OF k]
  show "vm_pool s1 = vm_pool s" "hk_sys.truncate s1 = hk_sys.truncate s"
    "res = None \<Longrightarrow> vm_prot s1 = vm_prot s \<and> vm_bytes s1 = vm_bytes s"
    "res = Some tmp \<Longrightarrow> unmapped s tmp len \<and> vm_bytes s1 = put_bytes (vm_bytes s) tmp (replicate (unat len) 0) \<and>
       vm_prot s1 = set_pages (pages tmp len) (Some (VM_PROT_READ OR VM_PROT_WRITE)) (vm_prot s)"
    using assms f
    by (auto simp: vm_allocate_anywhere_def k map_pages_def unmapped_def Let_def split: list.splits if_splits)
qed

lemma remap_cases:
  assumes "vm_remap_over dest src len s = (ok, s1)"
  shows "vm_pool s1 = vm_pool s" "hk_sys.truncate s1 = hk_sys.truncate s"
    "ok \<Longrightarrow> vm_prot s1 = (\<lambda>x. if x \<in> set (pages dest len) then vm_prot s (src + (x - dest)) else vm_prot s x) \<and>
       vm_bytes s1 = (\<lambda>x. if unat (x - dest) < unat len then vm_bytes s (src + (x - dest)) else vm_bytes s x)"
proof -
  obtain b s2 where k: "kern_call s = (b, s2)" by fastforce
  obtain b2 s3 where k2: "kern_call s2 = (b2, s3)" by fastforce
  note f = kern_call_frame [OF k] kern_call_frame [OF k2]
  show "vm_pool s1 = vm_pool s" "hk_sys.truncate s1 = hk_sys.truncate s"
    using assms f by (auto simp: vm_remap_over_def k k2 split: if_splits)
  show "ok \<Longrightarrow> vm_prot s1 = (\<lambda>x. if x \<in> set (pages dest len) then vm_prot s (src + (x - dest)) else vm_prot s x) \<and>
       vm_bytes s1 = (\<lambda>x. if unat (x - dest) < unat len then vm_bytes s (src + (x - dest)) else vm_bytes s x)"
    using assms f by (auto simp: vm_remap_over_def k k2 split: if_splits)
qed

text \<open>The copy that is mapped over the target: the addresses of the copy and of the target do not meet, for
  one is mapped and the other is not.\<close>

lemma write_remap_spec:
  assumes run: "write_remap dst src start len restore s = (m, s2)"
    and al: "16384 dvd unat start" "unat start + unat len \<le> 2 ^ 64" "16384 dvd unat len"
    and dst: "unat start \<le> unat dst" "unat dst + length src \<le> unat start + unat len"
    and uni: "\<And>x. x \<in> set (pages start len) \<Longrightarrow> vm_prot s x = Some restore"
  shows "(m = HK_MUTATION_NONE \<and> vm_view s2 = vm_view s \<and> vm_prot s2 = vm_prot s \<or>
      m = HK_MUTATION_COMPLETE \<and> vm_view s2 = patched (vm_view s) dst src \<and> vm_prot s2 = vm_prot s \<or>
      m = HK_MUTATION_UNKNOWN) \<and> vm_pool s2 = vm_pool s \<and> hk_sys.truncate s2 = hk_sys.truncate s"
proof -
  obtain res s1 where al0: "vm_allocate_anywhere len s = (res, s1)" by fastforce
  note a = allocate_anywhere_cases [OF al0]
  show ?thesis
  proof (cases res)
    case None
    then have "m = HK_MUTATION_NONE" "s2 = s1" using run by (simp_all add: write_remap_def al0)
    then show ?thesis using a(1,2) a(3) [OF None] view_cong [of s1 s] by simp
  next
    case (Some tmp)
    define copy where "copy = map (\<lambda>i. vm_bytes s1 (start + of_nat i)) [0..<unat len]"
    define s3 where "s3 = vm_store (tmp + (dst - start)) src (vm_store tmp copy s1)"
    obtain ok s4 where p: "vm_protect tmp len restore s3 = (ok, s4)" by fastforce
    obtain mapped s5 where r: "vm_remap_over start tmp len s4 = (mapped, s5)" by fastforce
    define s6 where "s6 = vm_deallocate tmp len s5"
    have run2: "(m, s2) = (if \<not> ok then (HK_MUTATION_NONE, vm_deallocate tmp len s4)
        else (if mapped then HK_MUTATION_COMPLETE else HK_MUTATION_UNKNOWN, s6))"
      using run
      by (simp only: write_remap_def al0 Some prod.case option.case Let_def copy_def [symmetric] s3_def [symmetric] p r
          s6_def [symmetric])
    note pr = vm_protect_cases [OF p] and re = remap_cases [OF r]
    have un: "unmapped s tmp len" and b1: "vm_bytes s1 = put_bytes (vm_bytes s) tmp (replicate (unat len) 0)"
      and p1: "vm_prot s1 = set_pages (pages tmp len) (Some (VM_PROT_READ OR VM_PROT_WRITE)) (vm_prot s)"
      using a(4) [OF Some] by auto
    have tal: "16384 dvd unat tmp" "unat tmp + unat len \<le> 2 ^ 64"
      and free: "\<And>x. x \<in> set (pages tmp len) \<Longrightarrow> vm_prot s x = None"
      using un by (auto simp: unmapped_def page_of_id list_all_iff)
    have frame: "vm_pool s2 = vm_pool s" "hk_sys.truncate s2 = hk_sys.truncate s"
      using run2 a(1,2) pr(2,3) re(1,2) by (auto simp: s3_def s6_def split: if_splits)
    have outside: "unat (x - tmp) \<ge> unat len" if "vm_prot s (page_of x) \<noteq> None" for x
      using that free page_in_pages [OF tal al(3), of x] sub_less [OF tal(2), of x] by (metis not_le)
    have inner: "unat (x - (tmp + (dst - start))) < length src \<longleftrightarrow>
        unat (x - tmp) < unat len \<and> unat (start + (x - tmp) - dst) < length src" for x
    proof -
      have "start \<le> dst" using dst(1) by (simp add: word_le_nat_alt)
      then have o: "unat (dst - start) = unat dst - unat start" by (simp add: unat_sub word_le_nat_alt)
      have e: "x - (tmp + (dst - start)) = (x - tmp) - (dst - start)" "start + (x - tmp) - dst = (x - tmp) - (dst - start)"
        by (simp_all add: algebra_simps)
      have "unat ((x - tmp) - (dst - start)) < length src \<Longrightarrow> unat (x - tmp) < unat len"
      proof -
        have s: "unat (dst - start) + length src \<le> unat len" using o dst by linarith
        then have "unat (dst - start) + length src \<le> 2 ^ 64" using u64_less [of len] by linarith
        then show "unat ((x - tmp) - (dst - start)) < length src \<Longrightarrow> unat (x - tmp) < unat len"
          using sub_less [of "dst - start" "length src" "x - tmp"] s by linarith
      qed
      then show ?thesis unfolding e by auto
    qed
    have bytes4: "vm_bytes s4 x = (if unat (x - tmp) < unat len then
        (if unat (start + (x - tmp) - dst) < length src then src ! unat (start + (x - tmp) - dst) else vm_bytes s (start + (x - tmp)))
        else vm_bytes s x)" for x
    proof -
      have l: "length copy = unat len" by (simp add: copy_def)
      have s1x: "vm_bytes s1 y = vm_bytes s y" if "unat (y - start) < unat len" for y
      proof -
        have "vm_prot s (page_of y) \<noteq> None"
          using that uni page_in_pages [OF al, of y] sub_less [OF al(2), of y] by fastforce
        then show ?thesis using outside [of y] by (simp add: b1 put_bytes_def Let_def)
      qed
      have c: "copy ! unat (x - tmp) = vm_bytes s (start + (x - tmp))" if "unat (x - tmp) < unat len"
        using that s1x [of "start + (x - tmp)"] by (simp add: copy_def)
      have e: "x - (tmp + (dst - start)) = start + (x - tmp) - dst" by (simp add: algebra_simps)
      show ?thesis
        using inner [of x] c by (auto simp: pr(1) s3_def put_bytes_def Let_def l b1 e)
    qed
    show ?thesis
    proof (cases ok)
      case False
      have "vm_prot (vm_deallocate tmp len s4) = vm_prot s"
        using pr(4) False free p1 by (auto simp: s3_def set_pages_def fun_eq_iff)
      moreover have "vm_bytes s4 x = vm_bytes s x" if "vm_prot s (page_of x) \<noteq> None" for x
        using outside [OF that] by (simp add: bytes4)
      ultimately have "vm_view (vm_deallocate tmp len s4) = vm_view s" "vm_prot (vm_deallocate tmp len s4) = vm_prot s"
        using view_cong [of "vm_deallocate tmp len s4" s] by auto
      then show ?thesis using run2 frame False by auto
    next
      case True
      show ?thesis
      proof (cases mapped)
        case False
        then show ?thesis using run2 frame True by auto
      next
        case mapped: True
        have re3: "vm_prot s5 = (\<lambda>x. if x \<in> set (pages start len) then vm_prot s4 (tmp + (x - start)) else vm_prot s4 x)"
          "vm_bytes s5 = (\<lambda>x. if unat (x - start) < unat len then vm_bytes s4 (tmp + (x - start)) else vm_bytes s4 x)"
          using re(3) mapped by auto
        have shift: "tmp + (x - start) \<in> set (pages tmp len)" if "x \<in> set (pages start len)" for x
        proof -
          have x: "16384 dvd unat x" "unat (x - start) < unat len" "unat start \<le> unat x"
            using that unfolding in_pages [OF al] using sub_less [OF al(2), of x] by auto
          have d: "unat (x - start) = unat x - unat start" using x(3) by (simp add: unat_sub word_le_nat_alt)
          have "unat (tmp + (x - start)) = unat tmp + unat (x - start)"
            using x(2) tal(2) by (simp add: unat_word_ariths)
          moreover have "16384 dvd unat (x - start)" using x(1) al(1) d by simp
          ultimately show ?thesis
            unfolding in_pages [OF tal al(3)] using x(2) tal(1) by (simp add: dvd_add)
        qed
        have prot: "vm_prot s6 = vm_prot s"
        proof
          fix x
          have disj: "x \<notin> set (pages tmp len)" if "x \<in> set (pages start len)" using uni [OF that] free by force
          show "vm_prot s6 x = vm_prot s x"
            using disj uni shift free pr(4) True p1
            by (auto simp: s6_def re3 s3_def set_pages_def)
        qed
        have "vm_view s6 = patched (vm_view s) dst src"
        proof
          fix x
          show "vm_view s6 x = patched (vm_view s) dst src x"
          proof (cases "vm_prot s (page_of x)")
            case None
            then show ?thesis by (simp add: vm_view_def patched_def prot)
          next
            case (Some q)
            have o: "unat (x - tmp) \<ge> unat len" using outside [of x] Some by simp
            have "unat (x - dst) < length src \<Longrightarrow> unat (x - start) < unat len"
              using sub_less [of dst "length src" x] sub_less [OF al(2), of x] dst al(2) by auto
            then have "vm_bytes s6 x = (if unat (x - dst) < length src then src ! unat (x - dst) else vm_bytes s x)"
              using o by (auto simp: s6_def re3 bytes4)
            then show ?thesis using Some by (simp add: vm_view_def patched_def prot)
          qed
        qed
        then show ?thesis using run2 frame True mapped prot by auto
      qed
    qed
  qed
qed

text \<open>The contract of a writer: nothing happened, or exactly the bytes were replaced, with every protection as
  before; \<open>UNKNOWN\<close> promises nothing about memory. The pool and the allocator are not concerned.\<close>

definition write_contract :: "'s hk_vm_scheme \<Rightarrow> u64 \<Rightarrow> byte list \<Rightarrow> hk_mutation_state \<Rightarrow> 's hk_vm_scheme \<Rightarrow> bool" where
  "write_contract s dst src m s2 \<longleftrightarrow>
     (m = HK_MUTATION_NONE \<and> vm_view s2 = vm_view s \<and> vm_prot s2 = vm_prot s \<or>
      m = HK_MUTATION_COMPLETE \<and> vm_view s2 = patched (vm_view s) dst src \<and> vm_prot s2 = vm_prot s \<or>
      m = HK_MUTATION_UNKNOWN) \<and> vm_pool s2 = vm_pool s \<and> hk_sys.truncate s2 = hk_sys.truncate s"

lemma write_contract_refl: "write_contract s dst src HK_MUTATION_NONE s"
  by (simp add: write_contract_def)

lemma vm_memo_fields [simp]:
  "vm_view (s\<lparr>vm_memo := x\<rparr>) = vm_view s"
  by (rule view_cong) simp_all

lemma write_contract_memo: "write_contract s dst src m s2 \<Longrightarrow> write_contract s dst src m (s2\<lparr>vm_memo := x\<rparr>)"
  by (auto simp: write_contract_def)

text \<open>Opening the pages of a range whose protection is uniform, and failing to.\<close>

lemma opened_range:
  assumes "vm_protect start len q s = (ok, s1)" "16384 dvd unat start" "unat start + unat len = unat end_addr"
    "16384 dvd unat len" "hk_range_protection s start end_addr = Some restore"
  shows "vm_pool s1 = vm_pool s" "hk_sys.truncate s1 = hk_sys.truncate s" "vm_bytes s1 = vm_bytes s"
    "ok \<Longrightarrow> vm_prot s1 = set_pages (pages start len) (Some q) (vm_prot s)"
    "\<not> ok \<Longrightarrow> vm_prot s1 = vm_prot s \<and> vm_view s1 = vm_view s"
    "unat start + unat len \<le> 2 ^ 64"
    "x \<in> set (pages start len) \<Longrightarrow> vm_prot s x = Some restore"
proof -
  note p = vm_protect_cases [OF assms(1)]
  show "vm_pool s1 = vm_pool s" "hk_sys.truncate s1 = hk_sys.truncate s" "vm_bytes s1 = vm_bytes s"
    "ok \<Longrightarrow> vm_prot s1 = set_pages (pages start len) (Some q) (vm_prot s)"
    using p by auto
  show "\<not> ok \<Longrightarrow> vm_prot s1 = vm_prot s \<and> vm_view s1 = vm_view s" using p view_cong [of s1 s] by auto
  show "unat start + unat len \<le> 2 ^ 64" using assms(3) u64_less [of end_addr] by linarith
  show "x \<in> set (pages start len) \<Longrightarrow> vm_prot s x = Some restore"
    by (rule range_protectionD [OF assms(5,2,3,4)])
qed

lemma write_locked_contract:
  assumes "hk_write_locked dst src s = (m, s2)" "length src < 2 ^ 64"
  shows "write_contract s dst src m s2"
proof (cases "hk_range_bounds dst (length src)")
  case None
  then show ?thesis using assms(1) by (auto simp: hk_write_locked_def write_contract_def)
next
  case (Some r)
  obtain start end_addr where b: "hk_range_bounds dst (length src) = Some (start, end_addr)" using Some by (cases r) auto
  define len where "len = end_addr - start"
  note rb = range_boundsD [OF b assms(2), folded len_def]
  show ?thesis
  proof (cases "hk_range_protection s start end_addr")
    case None
    then show ?thesis using assms(1) by (auto simp: hk_write_locked_def b write_contract_def)
  next
    case (Some restore)
    obtain ok s1 where p: "vm_protect start len (VM_PROT_READ OR VM_PROT_WRITE) s = (ok, s1)" by fastforce
    have run: "(m, s2) = (if ok then write_in_place dst src start len restore s1 else write_remap dst src start len restore s1)"
      using assms(1) by (simp add: hk_write_locked_def b Some len_def [symmetric] p)
    note o = opened_range [OF p rb(1,6,7) Some]
    show ?thesis
    proof (cases ok)
      case True
      show ?thesis
        using write_in_place_spec [of dst src start len restore s1 m s2, OF _ o(4) [OF True] o(3) o(7)] run True o(1,2)
        by (auto simp: write_contract_def)
    next
      case False
      have "write_remap dst src start len restore s1 = (m, s2)" using run False by simp
      from write_remap_spec [OF this rb(1) o(6) rb(7) rb(3) _] rb(4,6) o(1,2,7) o(5) [OF False]
      show ?thesis by (auto simp: write_contract_def)
    qed
  qed
qed

lemma patch_memory_contract:
  assumes "hk_native_patch_memory strip target data s = (m, s2)" "length data < 2 ^ 64"
  shows "write_contract s (strip target) data m s2"
proof (cases "target = 0 \<or> data = []")
  case True
  then show ?thesis using assms(1) write_contract_refl by (auto simp: hk_native_patch_memory_def)
next
  case False
  obtain s1 where "hk_write_locked (strip target) data s = (m, s1)" "s2 = s1\<lparr>vm_memo := None\<rparr>"
    using assms(1) False by (auto simp: hk_native_patch_memory_def hk_write_def split: prod.splits)
  then show ?thesis using write_locked_contract assms(2) write_contract_memo by metis
qed

lemma patch_pointer_contract:
  assumes "hk_native_patch_pointer slot v s = (m, s2)"
  shows "write_contract s slot (le_bytes 8 v) m s2"
proof (cases "slot = 0 \<or> slot AND 7 \<noteq> 0 \<or> hk_range_bounds slot 8 = None")
  case True
  then have "hk_native_patch_pointer slot v s = (HK_MUTATION_NONE, s)"
    unfolding hk_native_patch_pointer_def by (elim disjE) simp_all
  then show ?thesis using assms write_contract_refl by simp
next
  case False
  then obtain start end_addr where b: "hk_range_bounds slot 8 = Some (start, end_addr)" and g: "\<not> (slot = 0 \<or> slot AND 7 \<noteq> 0)" by auto
  define len where "len = end_addr - start"
  have eight: "(8 :: nat) < 2 ^ 64" by simp
  note rb = range_boundsD [OF b eight, folded len_def]
  show ?thesis
  proof (cases "hk_range_protection s start end_addr")
    case None
    then have "m = HK_MUTATION_NONE" "s2 = s" using assms g by (simp_all add: hk_native_patch_pointer_def b)
    then show ?thesis by (simp add: write_contract_refl)
  next
    case (Some restore)
    obtain ok s1 where p: "vm_protect start len (VM_PROT_READ OR VM_PROT_WRITE) s = (ok, s1)" by fastforce
    obtain m1 s3 where w: "write_in_place slot (le_bytes 8 v) start len restore s1 = (m1, s3)" by fastforce
    have run: "m = (if ok then m1 else HK_MUTATION_NONE)" "s2 = (if ok then s3 else s1)\<lparr>vm_memo := None\<rparr>"
      using assms g by (auto simp: hk_native_patch_pointer_def b Some Let_def len_def [symmetric] p w split: if_splits)
    note o = opened_range [OF p rb(1,6,7) Some]
    show ?thesis
    proof (cases ok)
      case True
      show ?thesis
        unfolding run using write_in_place_spec [OF w o(4) [OF True] o(3) o(7)] True o(1,2)
        by (intro write_contract_memo) (auto simp: write_contract_def)
    next
      case False
      then show ?thesis unfolding run using o(1,2,5) by (intro write_contract_memo) (simp add: write_contract_def)
    qed
  qed
qed

section \<open>Pages that cannot be read\<close>

text \<open>A write can end the process only over a target that cannot be read in the first place. The callers
  that compare the bytes before they write have read the target, and are safe from it.\<close>

lemma write_fault_unreadable:
  assumes "hk_write_faults dst src s" "length src < 2 ^ 64"
  shows "vm_view s dst = None"
proof -
  obtain start end_addr where b: "hk_range_bounds dst (length src) = Some (start, end_addr)"
    using assms(1) by (auto simp: hk_write_faults_def split: option.splits)
  define len where "len = end_addr - start"
  obtain ok s1 where p: "vm_protect start len (VM_PROT_READ OR VM_PROT_WRITE) s = (ok, s1)" by fastforce
  obtain restore where r: "hk_range_protection s start end_addr = Some restore" and f: "\<not> ok" "remap_faults start len s1"
    using assms(1) by (auto simp: hk_write_faults_def b len_def [symmetric] p)
  note rb = range_boundsD [OF b assms(2), folded len_def]
  note o = opened_range [OF p rb(1,6,7) r]
  obtain tmp s2 where al: "vm_allocate_anywhere len s1 = (Some tmp, s2)"
    and ex: "list_ex (\<lambda>pg. case vm_prot s2 pg of None \<Rightarrow> True | Some q \<Rightarrow> q AND VM_PROT_READ = 0) (pages start len)"
    using f(2) by (auto simp: remap_faults_def split: prod.splits option.splits)
  from ex obtain pg where pg: "pg \<in> set (pages start len)"
    "case vm_prot s2 pg of None \<Rightarrow> True | Some q \<Rightarrow> q AND VM_PROT_READ = 0"
    by (auto simp: list_ex_iff)
  have "unmapped s1 tmp len"
    and pr: "vm_prot s2 = set_pages (pages tmp len) (Some (VM_PROT_READ OR VM_PROT_WRITE)) (vm_prot s1)"
    using allocate_anywhere_cases(4) [OF al refl] by simp_all
  then have "vm_prot s1 x = None" if "x \<in> set (pages tmp len)" for x
    using that by (simp add: unmapped_def list_all_iff)
  moreover have "vm_prot s1 pg = Some restore" using o(5) [OF f(1)] o(7) [OF pg(1)] by simp
  ultimately have "vm_prot s2 pg = Some restore" by (auto simp: pr set_pages_def)
  then have none: "restore AND VM_PROT_READ = 0" using pg(2) by simp
  have "page_of dst \<in> set (pages start len)"
    unfolding page_in_pages [OF rb(1) o(6) rb(7)] using rb(3,4,5,6) by linarith
  then show ?thesis using o(7) none by (simp add: vm_view_def)
qed

section \<open>Properties\<close>

text \<open>C32. Patching memory. The writer changes nothing, or it replaces exactly the given bytes at the target
  without its signature, or it says \<open>UNKNOWN\<close>. Unless it says \<open>UNKNOWN\<close>, every page of the process has the
  protection it had before, whichever kernel calls failed on the way and however the kernel divides
  memory into regions.\<close>

theorem patch_memory_exact:
  assumes "hk_native_patch_memory strip target data s = (m, s2)" "length data < 2 ^ 64"
  shows "m = HK_MUTATION_UNKNOWN \<or>
    vm_prot s2 = vm_prot s \<and>
    (m = HK_MUTATION_NONE \<and> vm_view s2 = vm_view s \<or>
     m = HK_MUTATION_COMPLETE \<and> vm_view s2 = patched (vm_view s) (strip target) data)"
  using patch_memory_contract [OF assms] by (auto simp: write_contract_def)

section \<open>Concrete runs\<close>

definition sample_vm :: hk_vm where
  "sample_vm = \<lparr>sys_heap = [], sys_nonce = None, sys_counter = 0, sys_entropy = (0, 0, 0, 0),
     vm_bytes = (\<lambda>_. 0), vm_prot = (\<lambda>p. if p = 0x4000 then Some 5 else None), vm_regions = (\<lambda>a. Some (page_of a, PAGE)),
     vm_calls = [], vm_places = [], vm_memo = None,
     vm_pool = \<lparr>sp_base = 0, sp_slot_size = 0, sp_slot_count = 0, sp_used = 0\<rparr>\<rparr>"

lemma sample_pages: "pages 0x4000 0x4000 = [0x4000]"
  by (simp add: pages_def PAGE_def)

lemma sample_region: "vm_region_64 sample_vm 0x4000 = Some (0x4000, 0x4000, 5)"
  by (simp add: vm_region_64_def sample_vm_def region_valid_def page_of_def PAGE_def pages_def)

lemma sample_range: "hk_range_bounds 0x4010 (Suc (Suc (Suc (Suc 0)))) = Some (0x4000, 0x8000)" "hk_range_protection sample_vm 0x4000 0x8000 = Some 5"
  by (simp add: hk_range_bounds_def PAGE_def)
    (simp add: hk_range_protection_def range_protection_from.simps [of _ "0x4000"] range_protection_from.simps [of _ "0x8000"] sample_region)

lemma sample_patch: "fst (hk_native_patch_memory id 0x4010 [1, 2, 3, 4] sample_vm) = HK_MUTATION_COMPLETE"
proof -
  have c: "vm_calls sample_vm = []" "vm_prot sample_vm 0x4000 = Some 5" by (simp_all add: sample_vm_def)
  show ?thesis
    using sample_range c
    by (simp add: hk_native_patch_memory_def hk_write_def hk_write_locked_def write_in_place_def vm_protect_def kern_call_def
        sample_pages Let_def set_pages_def vm_store_def)
qed

text \<open>A page that may only be executed, whose protection the kernel refuses to change: the copy faults.\<close>

definition sample_execute_only :: hk_vm where
  "sample_execute_only = sample_vm\<lparr>vm_prot := (\<lambda>p. if p = 0x4000 then Some 4 else None), vm_calls := [False, True], vm_places := [0x8000]\<rparr>"

lemma execute_only_region: "vm_region_64 sample_execute_only 0x4000 = Some (0x4000, 0x4000, 4)"
  by (simp add: vm_region_64_def sample_execute_only_def sample_vm_def region_valid_def page_of_def PAGE_def pages_def)

lemma execute_only_range: "hk_range_protection sample_execute_only 0x4000 0x8000 = Some 4"
  by (simp add: hk_range_protection_def range_protection_from.simps [of _ "0x4000"] range_protection_from.simps [of _ "0x8000"]
      execute_only_region)

lemma execute_only_write_faults: "hk_write_faults 0x4010 [1, 2, 3, 4] sample_execute_only"
  by (simp add: hk_write_faults_def sample_range execute_only_range)
    (simp add: sample_execute_only_def sample_vm_def vm_protect_def kern_call_def remap_faults_def vm_allocate_anywhere_def
      unmapped_def page_of_def PAGE_def pages_def map_pages_def set_pages_def VM_PROT_READ_def)

theorem patch_memory_exact_witness:
  "vm_view (snd (hk_native_patch_memory id 0x4010 [1, 2, 3, 4] sample_vm)) 0x4012 = Some 3 \<and>
   vm_prot (snd (hk_native_patch_memory id 0x4010 [1, 2, 3, 4] sample_vm)) 0x4000 = Some 5"
proof -
  obtain m s2 where r: "hk_native_patch_memory id 0x4010 [1, 2, 3, 4] sample_vm = (m, s2)" by fastforce
  have "m = HK_MUTATION_COMPLETE" using sample_patch r by simp
  then have "vm_prot s2 = vm_prot sample_vm" "vm_view s2 = patched (vm_view sample_vm) 0x4010 [1, 2, 3, 4]"
    using patch_memory_exact [OF r] by auto
  moreover have "patched (vm_view sample_vm) 0x4010 [1, 2, 3, 4] 0x4012 = Some 3" by code_simp
  moreover have "vm_prot sample_vm 0x4000 = Some 5" by (simp add: sample_vm_def)
  ultimately show ?thesis by (simp only: r snd_conv simp_thms)
qed

end
