(* ===== verification/HK_Seams.thy ===== *)
theory HK_Seams
  imports HK_Native_Props
begin

text \<open>
  The interface between the engines that patch code and the platform (\<open>hk_reloc_alloc_fn\<close>,
  \<open>hk_reloc_seal_fn\<close>, \<open>hk_reloc_free_fn\<close>, \<open>hk_reloc_write_fn\<close> of \<open>src/engines/HKRelocInlineEngine.h\<close>), and
  the laws the engines rely on: a page that is handed out is new, readable and disturbs nothing that
  could be read before, giving it back undoes handing it out, sealing keeps its bytes, and a write is
  nothing or exactly itself unless it says otherwise.
\<close>

record 'x reloc_seams =
  rs_alloc :: "nat \<Rightarrow> u64 \<Rightarrow> 'x hk_vm_scheme \<Rightarrow> (u64 \<times> hk_artifact_mapping) \<times> 'x hk_vm_scheme"
  rs_seal :: "u64 \<Rightarrow> nat \<Rightarrow> 'x hk_vm_scheme \<Rightarrow> bool \<times> 'x hk_vm_scheme"
  rs_free :: "(u64 \<Rightarrow> nat \<Rightarrow> 'x hk_vm_scheme \<Rightarrow> 'x hk_vm_scheme) option"
  rs_write :: "u64 \<Rightarrow> byte list \<Rightarrow> 'x hk_vm_scheme \<Rightarrow> hk_mutation_state \<times> 'x hk_vm_scheme"

text \<open>What could be read can still be read, with the same bytes.\<close>

definition view_kept :: "'x hk_vm_scheme \<Rightarrow> 'x hk_vm_scheme \<Rightarrow> bool" where
  "view_kept s s1 \<longleftrightarrow> (\<forall>x. vm_view s x \<noteq> None \<longrightarrow> vm_view s1 x = vm_view s x)"

lemma view_kept_refl [simp]: "view_kept s s"
  by (simp add: view_kept_def)

lemma view_kept_trans: "view_kept s s1 \<Longrightarrow> view_kept s1 s2 \<Longrightarrow> view_kept s s2"
  by (simp add: view_kept_def)

lemma view_kept_eq: "vm_view s1 = vm_view s \<Longrightarrow> view_kept s s1"
  by (simp add: view_kept_def)

text \<open>A copy into memory (\<open>memcpy\<close>, a store of an object): a fault, \<open>None\<close>, unless every byte is writable.\<close>

definition vm_writable :: "'x hk_vm_scheme \<Rightarrow> u64 \<Rightarrow> bool" where
  "vm_writable s x = (case vm_prot s (page_of x) of None \<Rightarrow> False | Some p \<Rightarrow> p AND VM_PROT_WRITE \<noteq> 0)"

definition vm_put :: "u64 \<Rightarrow> byte list \<Rightarrow> 'x hk_vm_scheme \<Rightarrow> 'x hk_vm_scheme option" where
  "vm_put a bs s =
     (if list_all (\<lambda>i. vm_writable s (a + of_nat i)) [0..<length bs] then Some (vm_store a bs s) else None)"

text \<open>Two states that agree on what is mapped and on the pool; the heap, the counters and the bytes may differ.\<close>

definition same_maps :: "'x hk_vm_scheme \<Rightarrow> 'x hk_vm_scheme \<Rightarrow> bool" where
  "same_maps s s1 \<longleftrightarrow> vm_prot s1 = vm_prot s \<and> vm_pool s1 = vm_pool s"

lemma more_fields:
  assumes "hk_sys.more s1 = hk_sys.more s"
  shows "vm_view s1 = vm_view s" "same_maps s s1"
proof -
  have m: "vm_prot s1 = vm_prot s" "vm_bytes s1 = vm_bytes s" "vm_pool s1 = vm_pool s"
    using assms by (cases s1; cases s; simp)+
  then show "same_maps s s1" by (simp add: same_maps_def)
  show "vm_view s1 = vm_view s" using m by (intro view_cong) simp_all
qed

lemma vm_put_some:
  assumes "vm_put a bs s = Some s1"
  shows "s1 = vm_store a bs s" "same_maps s s1" "vm_view s1 = patched (vm_view s) a bs"
proof -
  show e: "s1 = vm_store a bs s" using assms by (simp add: vm_put_def split: if_splits)
  show "same_maps s s1" by (simp add: e same_maps_def)
  show "vm_view s1 = patched (vm_view s) a bs"
    by (auto simp: e vm_view_def patched_def put_bytes_def Let_def fun_eq_iff split: option.splits)
qed

lemma vm_put_ok: "(\<And>i. i < length bs \<Longrightarrow> vm_writable s (a + of_nat i)) \<Longrightarrow> vm_put a bs s \<noteq> None"
  by (auto simp: vm_put_def list_all_iff)

lemma writable_maps: "same_maps s s1 \<Longrightarrow> vm_writable s1 x = vm_writable s x"
  by (simp add: same_maps_def vm_writable_def)

text \<open>The interface. \<open>live\<close> is what has been handed out; a fresh page is 4-aligned, and can be read and
  written throughout.\<close>

locale code_seams =
  fixes S :: "'x reloc_seams"
    and ok :: "'x hk_vm_scheme \<Rightarrow> bool"
    and live :: "'x hk_vm_scheme \<Rightarrow> 'r set"
  assumes alloc_none: "ok s \<Longrightarrow> rs_alloc S sz near s = ((0, mp), s1) \<Longrightarrow> ok s1 \<and> live s1 = live s \<and> vm_view s1 = vm_view s"
    and alloc_some: "ok s \<Longrightarrow> sz < 2 ^ 64 \<Longrightarrow> rs_alloc S sz near s = ((page, mp), s1) \<Longrightarrow> page \<noteq> 0 \<Longrightarrow>
      ok s1 \<and> view_kept s s1 \<and> (\<exists>r. r \<notin> live s \<and> live s1 = insert r (live s)) \<and> 4 dvd unat page \<and>
      (\<forall>k < sz. vm_view s1 (page + of_nat k) \<noteq> None \<and> vm_writable s1 (page + of_nat k))"
    and release_law: "ok s \<Longrightarrow> rs_alloc S sz near s = ((page, mp), s1) \<Longrightarrow> page \<noteq> 0 \<Longrightarrow> ok s2 \<Longrightarrow> live s2 = live s1 \<Longrightarrow>
      rs_free S = Some f \<Longrightarrow> ok (f page n s2) \<and> live (f page n s2) = live s"
    and seal_law: "ok s \<Longrightarrow> rs_seal S page n s = (b, s1) \<Longrightarrow> ok s1 \<and> live s1 = live s \<and> view_kept s s1"
    and write_law: "ok s \<Longrightarrow> length bs < 2 ^ 64 \<Longrightarrow> rs_write S a bs s = (m, s1) \<Longrightarrow>
      m = HK_MUTATION_NONE \<and> ok s1 \<and> live s1 = live s \<and> vm_view s1 = vm_view s \<or>
      m = HK_MUTATION_COMPLETE \<and> ok s1 \<and> live s1 = live s \<and> vm_view s1 = patched (vm_view s) a bs \<or>
      m = HK_MUTATION_PARTIAL \<or> m = HK_MUTATION_UNKNOWN"
    and frame_law: "same_maps s s1 \<Longrightarrow> ok s1 = ok s \<and> live s1 = live s"

end
