(* ===== verification/HK_Page_Source.thy ===== *)
theory HK_Page_Source
  imports HK_Seams
begin

text \<open>
  The platform's side of the interface (\<open>src/core/HKRuntime.c\<close>): pages for trampolines come from the fixed
  pool in the library's own text section when it can serve the target, otherwise from the kernel.
\<close>

definition HK_STATIC_TRAMP_PAGE :: u64 where "HK_STATIC_TRAMP_PAGE = 16384"

definition HK_STATIC_TRAMP_SLOTS :: nat where "HK_STATIC_TRAMP_SLOTS = 8"

text \<open>The pool is set up once, over the section at \<open>base\<close>.\<close>

definition hk_static_pool_setup :: "u64 \<Rightarrow> 's hk_vm_scheme \<Rightarrow> 's hk_vm_scheme" where
  "hk_static_pool_setup base s =
     (case hk_static_pool_init base HK_STATIC_TRAMP_PAGE HK_STATIC_TRAMP_SLOTS of
        None \<Rightarrow> s | Some pool \<Rightarrow> s\<lparr>vm_pool := pool\<rparr>)"

definition hk_static_pool_return :: "u64 \<Rightarrow> 's hk_vm_scheme \<Rightarrow> 's hk_vm_scheme" where
  "hk_static_pool_return slot s = s\<lparr>vm_pool := hk_static_pool_release (vm_pool s) slot\<rparr>"

definition hk_static_pool_take :: "nat \<Rightarrow> u64 \<Rightarrow> bool \<Rightarrow> 's hk_vm_scheme \<Rightarrow> u64 \<times> 's hk_vm_scheme" where
  "hk_static_pool_take sz near require_reach s =
     (let (slot, pool) = hk_static_pool_claim (vm_pool s) (of_nat sz) near; s1 = s\<lparr>vm_pool := pool\<rparr>
      in if slot = 0 then (0, s1)
         else if require_reach \<and> hk_arm64_branch_size near slot \<noteq> 4 then (0, hk_static_pool_return slot s1)
         else let (writable, s2) = hk_native_reloc_unprotect slot sz s1
           in if \<not> writable then (0, hk_static_pool_return slot s2) else (slot, s2))"

definition hk_platform_reloc_alloc :: "nat \<Rightarrow> u64 \<Rightarrow> 's hk_vm_scheme \<Rightarrow> (u64 \<times> hk_artifact_mapping) \<times> 's hk_vm_scheme" where
  "hk_platform_reloc_alloc sz near s =
     (let (slot, s1) = hk_static_pool_take sz near True s
      in if slot \<noteq> 0
         then ((slot, zero_mapping\<lparr>am_kind := HK_MAPPING_STATIC_HOOKKIT_SECTION, am_base := slot,
                 am_size := HK_STATIC_TRAMP_PAGE\<rparr>), s1)
         else let (page, s2) = hk_native_reloc_alloc sz near s1
           in if page \<noteq> 0
              then ((page, zero_mapping\<lparr>am_kind := HK_MAPPING_ANONYMOUS, am_base := page, am_size := PAGE\<rparr>), s2)
              else ((page, zero_mapping), s2))"

definition hk_platform_reloc_seal :: "u64 \<Rightarrow> nat \<Rightarrow> 's hk_vm_scheme \<Rightarrow> bool \<times> 's hk_vm_scheme" where
  "hk_platform_reloc_seal page sz s = hk_native_reloc_seal page sz s"

definition hk_platform_reloc_free :: "u64 \<Rightarrow> nat \<Rightarrow> 's hk_vm_scheme \<Rightarrow> 's hk_vm_scheme" where
  "hk_platform_reloc_free page sz s =
     (if hk_static_pool_contains (vm_pool s) page then hk_static_pool_return page s else hk_native_reloc_free page sz s)"

definition hk_platform_static_alloc :: "nat \<Rightarrow> u64 \<Rightarrow> 's hk_vm_scheme \<Rightarrow> (u64 \<times> hk_artifact_mapping) \<times> 's hk_vm_scheme" where
  "hk_platform_static_alloc sz near s =
     (let (slot, s1) = hk_static_pool_take sz near False s
      in ((slot, if slot \<noteq> 0 then zero_mapping\<lparr>am_kind := HK_MAPPING_STATIC_HOOKKIT_SECTION, am_base := slot,
                   am_size := HK_STATIC_TRAMP_PAGE\<rparr> else zero_mapping), s1))"

definition hk_platform_write_memory :: "(u64 \<Rightarrow> u64) \<Rightarrow> u64 \<Rightarrow> byte list \<Rightarrow> 's hk_vm_scheme \<Rightarrow> hk_mutation_state \<times> 's hk_vm_scheme" where
  "hk_platform_write_memory strip a data s = hk_native_patch_memory strip a data s"

definition hk_platform_write_pointer :: "u64 \<Rightarrow> u64 \<Rightarrow> 's hk_vm_scheme \<Rightarrow> hk_mutation_state \<times> 's hk_vm_scheme" where
  "hk_platform_write_pointer a v s = hk_native_patch_pointer a v s"

text \<open>The seams the runtime gives its relocating engines. Targets come stripped of signatures from the
  engines' adapters, so the writer's own strip has nothing to do.\<close>

definition platform_seams :: "'x reloc_seams" where
  "platform_seams = \<lparr>rs_alloc = hk_platform_reloc_alloc, rs_seal = hk_platform_reloc_seal,
     rs_free = Some hk_platform_reloc_free, rs_write = hk_platform_write_memory id\<rparr>"

definition static_seams :: "'x reloc_seams" where
  "static_seams = \<lparr>rs_alloc = hk_platform_static_alloc, rs_seal = hk_platform_reloc_seal,
     rs_free = Some hk_platform_reloc_free, rs_write = hk_platform_write_memory id\<rparr>"

section \<open>What is handed out\<close>

text \<open>The pool of the library's section: eight pages at \<open>base\<close>, mapped throughout.\<close>

definition platform_ok :: "u64 \<Rightarrow> 's hk_vm_scheme \<Rightarrow> bool" where
  "platform_ok base s \<longleftrightarrow> pool_ok (vm_pool s) \<and> sp_base (vm_pool s) = base \<and> sp_slot_size (vm_pool s) = PAGE \<and>
     sp_slot_count (vm_pool s) = HK_STATIC_TRAMP_SLOTS \<and> 16384 dvd unat base \<and>
     (\<forall>i < HK_STATIC_TRAMP_SLOTS. vm_prot s (slot_addr (vm_pool s) i) \<noteq> None)"

text \<open>Pages the process has mapped, and slots in use.\<close>

definition platform_live :: "'s hk_vm_scheme \<Rightarrow> (u64 + u64) set" where
  "platform_live s = Inl ` {p. vm_prot s p \<noteq> None} \<union> Inr ` live_slots (vm_pool s)"

lemma one_page: "pages p PAGE = [p]"
  by (simp add: pages_def)

lemma page_of_page:
  assumes "16384 dvd unat p" "k < 16384"
  shows "page_of (p + of_nat k) = p" "unat (p + of_nat k) = unat p + k"
proof -
  obtain q where q: "unat p = 16384 * q" using assms(1) by (auto elim!: dvdE)
  have "16384 * q < 16384 * 1125899906842624" using u64_less [of p] q by simp
  then have "q < 1125899906842624" by simp
  then have "q + 1 \<le> 1125899906842624" by linarith
  then have "16384 * q + k < 2 ^ 64" using assms(2) by simp
  then show u: "unat (p + of_nat k) = unat p + k"
    using q assms(2) by (simp add: unat_word_ariths unat_of_nat take_bit_nat_eq_self)
  have "(16384 * q + k) div 16384 = q" using assms(2) by simp
  then have "unat (page_of (p + of_nat k)) = unat p" by (simp only: unat_page_of u q mult.commute)
  then show "page_of (p + of_nat k) = p" by (simp only: word_unat_eq_iff)
qed

lemma slot_aligned:
  assumes "platform_ok base s" "i < HK_STATIC_TRAMP_SLOTS"
  shows "16384 dvd unat (slot_addr (vm_pool s) i)"
  using assms unat_slot_addr [of "vm_pool s" i] by (simp add: platform_ok_def)

text \<open>A whole page that is readable and writable.\<close>

lemma open_page:
  assumes "16384 dvd unat p" "vm_prot s p = Some (VM_PROT_READ OR VM_PROT_WRITE)" "k < 16384"
  shows "vm_view s (p + of_nat k) \<noteq> None \<and> vm_writable s (p + of_nat k)"
  using assms(2) by (simp add: vm_view_def vm_writable_def page_of_page [OF assms(1,3)] VM_PROT_READ_def VM_PROT_WRITE_def)

text \<open>Calls that keep the map of the process.\<close>

lemma platform_frame:
  assumes "same_maps s s1"
  shows "platform_ok base s1 = platform_ok base s" "platform_live s1 = platform_live s"
  using assms by (simp_all add: same_maps_def platform_ok_def platform_live_def)

lemma protect_frame:
  assumes "vm_protect p PAGE q s = (b, s1)" "platform_ok base s"
  shows "platform_ok base s1" "platform_live s1 = platform_live s" "q AND VM_PROT_READ \<noteq> 0 \<Longrightarrow> view_kept s s1"
    "b \<Longrightarrow> vm_prot s1 p = Some q"
proof -
  note c = vm_protect_cases [OF assms(1), unfolded one_page]
  have d: "vm_prot s1 x \<noteq> None \<longleftrightarrow> vm_prot s x \<noteq> None" for x
    using c(4) c(5) [of p] by (auto simp: set_pages_def)
  show "platform_ok base s1" using assms(2) d c(2) by (simp add: platform_ok_def)
  show "platform_live s1 = platform_live s" using d c(2) by (simp add: platform_live_def)
  show "view_kept s s1" if "q AND VM_PROT_READ \<noteq> 0"
    using c(1,4) that by (auto simp: view_kept_def vm_view_def set_pages_def split: option.splits)
  show "b \<Longrightarrow> vm_prot s1 p = Some q" using c(4) by (simp add: set_pages_def)
qed

section \<open>A slot of the pool\<close>

lemma return_fields [simp]:
  "vm_prot (hk_static_pool_return a s) = vm_prot s" "vm_bytes (hk_static_pool_return a s) = vm_bytes s"
  "vm_pool (hk_static_pool_return a s) = hk_static_pool_release (vm_pool s) a"
  by (simp_all add: hk_static_pool_return_def)

lemma pool_fields [simp]:
  "vm_prot (s\<lparr>vm_pool := q\<rparr>) = vm_prot s" "vm_bytes (s\<lparr>vm_pool := q\<rparr>) = vm_bytes s" "vm_pool (s\<lparr>vm_pool := q\<rparr>) = q"
  by simp_all

lemma slot_addr_cong:
  "sp_base p = sp_base q \<Longrightarrow> sp_slot_size p = sp_slot_size q \<Longrightarrow> slot_addr p i = slot_addr q i"
  by (simp add: slot_addr_def)

lemma platform_ok_pool:
  assumes "platform_ok base s" "pool_ok q" "sp_base q = sp_base (vm_pool s)" "sp_slot_size q = sp_slot_size (vm_pool s)"
    "sp_slot_count q = sp_slot_count (vm_pool s)" "vm_pool s1 = q" "\<And>x. vm_prot s1 x \<noteq> None \<longleftrightarrow> vm_prot s x \<noteq> None"
  shows "platform_ok base s1"
  using assms slot_addr_cong [of q "vm_pool s"] by (simp add: platform_ok_def)

lemma platform_return:
  assumes "platform_ok base s"
  shows "platform_ok base (hk_static_pool_return a s)" "platform_live (hk_static_pool_return a s) = platform_live s - {Inr a}"
proof -
  have "pool_ok (vm_pool s)" using assms by (simp add: platform_ok_def)
  then have l: "live_slots (hk_static_pool_release (vm_pool s) a) = live_slots (vm_pool s) - {a}" by (rule pool.release_live)
  show "platform_ok base (hk_static_pool_return a s)"
    by (rule platform_ok_pool [OF assms, where q = "hk_static_pool_release (vm_pool s) a"])
      (use assms in \<open>simp_all add: release_fields platform_ok_def\<close>)
  show "platform_live (hk_static_pool_return a s) = platform_live s - {Inr a}"
    by (auto simp: platform_live_def l)
qed

lemma platform_claim:
  assumes "platform_ok base s" "hk_static_pool_claim (vm_pool s) z near = (slot, q)"
  defines "s1 \<equiv> s\<lparr>vm_pool := q\<rparr>"
  shows "platform_ok base s1" "slot = 0 \<Longrightarrow> s1 = s"
    "slot \<noteq> 0 \<Longrightarrow> z \<le> PAGE \<and> Inr slot \<notin> platform_live s \<and> platform_live s1 = insert (Inr slot) (platform_live s) \<and>
       16384 dvd unat slot \<and> (\<exists>i < HK_STATIC_TRAMP_SLOTS. slot = slot_addr (vm_pool s) i)"
proof -
  have p: "pool_ok (vm_pool s)" using assms(1) by (simp add: platform_ok_def)
  note f = claim_fields [OF assms(2)]
  show "platform_ok base s1"
    by (rule platform_ok_pool [OF assms(1), where q = q]) (use f p in \<open>simp_all add: s1_def\<close>)
  show "slot = 0 \<Longrightarrow> s1 = s" using pool.claim_none [OF p] assms(2) by (simp add: s1_def)
  assume n: "slot \<noteq> 0"
  have i: "z \<le> PAGE \<and> (\<exists>i < HK_STATIC_TRAMP_SLOTS. slot = slot_addr (vm_pool s) i)"
    using n assms(1,2) by (cases rule: claim_cases [of "vm_pool s" z near]) (auto simp: platform_ok_def free_slots_def)
  then have "16384 dvd unat slot" using slot_aligned [OF assms(1)] by auto
  then show "z \<le> PAGE \<and> Inr slot \<notin> platform_live s \<and> platform_live s1 = insert (Inr slot) (platform_live s) \<and>
       16384 dvd unat slot \<and> (\<exists>i < HK_STATIC_TRAMP_SLOTS. slot = slot_addr (vm_pool s) i)"
    using pool.claim_fresh [OF p assms(2) n] i by (auto simp: platform_live_def s1_def)
qed

text \<open>The steps of a take: claim, the test of reach, and opening the page.\<close>

lemma take_steps:
  assumes "platform_ok base s" "hk_static_pool_take sz near reach s = (slot, s1)"
  obtains (empty) "slot = 0" "s1 = s"
  | (far) a q where "slot = 0" "hk_static_pool_claim (vm_pool s) (of_nat sz) near = (a, q)" "a \<noteq> 0"
      "s1 = hk_static_pool_return a (s\<lparr>vm_pool := q\<rparr>)"
  | (closed) a q s2 where "slot = 0" "hk_static_pool_claim (vm_pool s) (of_nat sz) near = (a, q)" "a \<noteq> 0"
      "vm_protect a PAGE (VM_PROT_READ OR VM_PROT_WRITE) (s\<lparr>vm_pool := q\<rparr>) = (False, s2)" "s1 = hk_static_pool_return a s2"
  | (taken) q where "hk_static_pool_claim (vm_pool s) (of_nat sz) near = (slot, q)" "slot \<noteq> 0"
      "vm_protect slot PAGE (VM_PROT_READ OR VM_PROT_WRITE) (s\<lparr>vm_pool := q\<rparr>) = (True, s1)"
proof -
  obtain a q where c: "hk_static_pool_claim (vm_pool s) (of_nat sz) near = (a, q)" by fastforce
  obtain b s2 where p: "vm_protect a PAGE (VM_PROT_READ OR VM_PROT_WRITE) (s\<lparr>vm_pool := q\<rparr>) = (b, s2)" by fastforce
  consider "a = 0" | "a \<noteq> 0" "reach \<and> hk_arm64_branch_size near a \<noteq> 4" | "a \<noteq> 0" "\<not> (reach \<and> hk_arm64_branch_size near a \<noteq> 4)" "\<not> b"
    | "a \<noteq> 0" "\<not> (reach \<and> hk_arm64_branch_size near a \<noteq> 4)" "b" by blast
  then show ?thesis
  proof cases
    case 1
    then have "slot = 0" "s1 = s\<lparr>vm_pool := q\<rparr>" using assms(2) by (simp_all add: hk_static_pool_take_def c)
    then show ?thesis using platform_claim(2) [OF assms(1) c 1] empty by simp
  next
    case 2
    then show ?thesis using assms(2) far c unfolding hk_static_pool_take_def by (simp add: c)
  next
    case 3
    have "(slot, s1) = (0, hk_static_pool_return a s2)"
      using assms(2) unfolding hk_static_pool_take_def c prod.case Let_def if_not_P [OF 3(1)] if_not_P [OF 3(2)] hk_native_reloc_unprotect_def p
        if_P [OF 3(3)] by simp
    then show ?thesis using closed c p 3 by simp
  next
    case 4
    have "(slot, s1) = (a, s2)"
      using assms(2) 4(3) unfolding hk_static_pool_take_def c prod.case Let_def if_not_P [OF 4(1)] if_not_P [OF 4(2)] hk_native_reloc_unprotect_def p
      by simp
    then show ?thesis using taken c p 4 by simp
  qed
qed

lemma take_none:
  assumes "platform_ok base s" "hk_static_pool_take sz near reach s = (0, s1)"
  shows "platform_ok base s1 \<and> platform_live s1 = platform_live s \<and> vm_view s1 = vm_view s"
  using assms
proof (cases rule: take_steps)
  case empty
  then show ?thesis using assms(1) by simp
next
  case (far a q)
  note c = platform_claim [OF assms(1) far(2)]
  have "platform_live s1 = platform_live s" using platform_return(2) [OF c(1), of a] c(3) [OF far(3)] far(4) by auto
  moreover have "vm_view s1 = vm_view s" by (rule view_cong) (simp_all add: far(4))
  ultimately show ?thesis using platform_return(1) [OF c(1), of a] far(4) by simp
next
  case (closed a q s2)
  note c = platform_claim [OF assms(1) closed(2)] and p = vm_protect_cases [OF closed(4)] and f = protect_frame [OF closed(4)]
  have "platform_live s1 = platform_live s"
    using platform_return(2) [OF f(1) [OF c(1)], of a] f(2) [OF c(1)] c(3) [OF closed(3)] closed(5) by auto
  moreover have "vm_view s1 = vm_view s" by (rule view_cong) (simp_all add: closed(5) p)
  ultimately show ?thesis using platform_return(1) [OF f(1) [OF c(1)], of a] closed(5) by simp
next
  case (taken q)
  then show ?thesis by simp
qed

lemma take_some:
  assumes "platform_ok base s" "hk_static_pool_take sz near reach s = (slot, s1)" "slot \<noteq> 0"
  shows "platform_ok base s1" "view_kept s s1" "Inr slot \<notin> platform_live s" "platform_live s1 = insert (Inr slot) (platform_live s)"
    "16384 dvd unat slot" "vm_prot s1 slot = Some (VM_PROT_READ OR VM_PROT_WRITE)" "sz < 2 ^ 64 \<Longrightarrow> sz \<le> 16384"
proof -
  from assms(1,2) obtain q where t: "hk_static_pool_claim (vm_pool s) (of_nat sz) near = (slot, q)"
      "vm_protect slot PAGE (VM_PROT_READ OR VM_PROT_WRITE) (s\<lparr>vm_pool := q\<rparr>) = (True, s1)"
    by (cases rule: take_steps) (use assms(3) in auto)
  note c = platform_claim [OF assms(1) t(1)] and f = protect_frame [OF t(2)]
  have v: "vm_view (s\<lparr>vm_pool := q\<rparr>) = vm_view s" by (rule view_cong) simp_all
  show "platform_ok base s1" by (rule f(1) [OF c(1)])
  have "(VM_PROT_READ OR VM_PROT_WRITE) AND VM_PROT_READ \<noteq> 0" by (simp add: VM_PROT_READ_def VM_PROT_WRITE_def)
  from f(3) [OF c(1) this] show "view_kept s s1" by (simp add: view_kept_def v)
  show "Inr slot \<notin> platform_live s" "16384 dvd unat slot" using c(3) [OF assms(3)] by auto
  show "platform_live s1 = insert (Inr slot) (platform_live s)" using c(3) [OF assms(3)] f(2) [OF c(1)] by simp
  show "vm_prot s1 slot = Some (VM_PROT_READ OR VM_PROT_WRITE)" using f(4) [OF c(1)] by simp
  show "sz \<le> 16384" if "sz < 2 ^ 64"
    using c(3) [OF assms(3)] that by (simp add: word_le_nat_alt unat_of_nat take_bit_nat_eq_self)
qed

section \<open>A page of the kernel\<close>

definition allocated :: "'s hk_vm_scheme \<Rightarrow> u64 \<Rightarrow> 's hk_vm_scheme \<Rightarrow> bool" where
  "allocated s addr s1 \<longleftrightarrow> addr \<noteq> 0 \<and> 16384 dvd unat addr \<and> vm_prot s addr = None \<and> vm_pool s1 = vm_pool s \<and>
     vm_bytes s1 = put_bytes (vm_bytes s) addr (replicate 16384 0) \<and>
     vm_prot s1 = (vm_prot s)(addr \<mapsto> VM_PROT_READ OR VM_PROT_WRITE)"

lemma set_one_page: "set_pages [a] p f = f(a := p)"
  by (auto simp: set_pages_def)

lemma allocated_cong:
  "allocated s0 a s1 \<Longrightarrow> same_maps s s0 \<Longrightarrow> vm_bytes s0 = vm_bytes s \<Longrightarrow> allocated s a s1"
  by (simp add: allocated_def same_maps_def)

lemma allocate_fixed_cases:
  assumes "vm_allocate_fixed addr PAGE s = (b, s1)"
  shows "if b then allocated s addr s1 else same_maps s s1 \<and> vm_bytes s1 = vm_bytes s"
proof -
  obtain k s2 where k: "kern_call s = (k, s2)" by fastforce
  note f = kern_call_frame [OF k]
  show ?thesis
  proof (cases "k \<and> unmapped s2 addr PAGE")
    case True
    then show ?thesis using assms f
      by (auto simp: vm_allocate_fixed_def k map_pages_def unmapped_def allocated_def one_page set_one_page page_of_id)
  next
    case False
    then show ?thesis using assms f by (auto simp: vm_allocate_fixed_def k same_maps_def)
  qed
qed

lemma map_near_cases:
  assumes "map_near_from probe limit PAGE s = (r, s1)"
  shows "case r of None \<Rightarrow> same_maps s s1 \<and> vm_bytes s1 = vm_bytes s | Some addr \<Rightarrow> allocated s addr s1"
proof -
  have "sz = PAGE \<Longrightarrow> map_near_from probe limit sz s = (r, s1) \<Longrightarrow>
    (case r of None \<Rightarrow> same_maps s s1 \<and> vm_bytes s1 = vm_bytes s | Some addr \<Rightarrow> allocated s addr s1)" for sz
  proof (induction probe limit sz s arbitrary: r s1 rule: map_near_from.induct)
    case (1 probe limit sz s)
    obtain b s2 where a: "vm_allocate_fixed probe sz s = (b, s2)" by fastforce
    note f = allocate_fixed_cases [OF a [unfolded 1(4)]]
    have try_fixed: "case r of None \<Rightarrow> same_maps s s1 \<and> vm_bytes s1 = vm_bytes s | Some addr \<Rightarrow> allocated s addr s1"
      if "(r, s1) = (if b then (Some probe, s2) else map_near_from (probe + sz) limit sz s2)"
        "\<not> b \<Longrightarrow> map_near_from (probe + sz) limit sz s2 = (r, s1) \<Longrightarrow>
           (case r of None \<Rightarrow> same_maps s2 s1 \<and> vm_bytes s1 = vm_bytes s2 | Some addr \<Rightarrow> allocated s2 addr s1)"
      using that f by (cases b; cases r) (auto simp: same_maps_def allocated_def)
    show ?case
    proof (cases "probe \<noteq> 0 \<and> probe + sz > probe \<and> probe + sz \<le> limit")
      case False
      then show ?thesis using 1(5) by (subst (asm) map_near_from.simps) (auto simp: same_maps_def)
    next
      case go: True
      show ?thesis
      proof (cases "vm_region_64 s probe")
        case None
        show ?thesis
          by (rule try_fixed) (use 1(5) go None a in \<open>subst (asm) map_near_from.simps, simp\<close>, use 1(1) [OF go None] a 1(4) in auto)
      next
        case (Some reg)
        obtain region n q where reg: "vm_region_64 s probe = Some (region, n, q)" using Some by (cases reg) auto
        show ?thesis
        proof (cases "region \<ge> probe + sz")
          case True
          show ?thesis
            by (rule try_fixed) (use 1(5) go reg True a in \<open>subst (asm) map_near_from.simps, simp\<close>, use 1(2) [OF go reg refl refl True] a 1(4) in auto)
        next
          case False
          have "map_near_from (region + n) limit sz s = (r, s1)" using 1(5) go reg False by (subst (asm) map_near_from.simps) simp
          then show ?thesis using 1(3) [OF go reg refl refl False 1(4)] by blast
        qed
      qed
    qed
  qed
  then show ?thesis using assms by simp
qed

lemma anywhere_page:
  assumes "vm_allocate_anywhere PAGE s = (r, s1)"
  shows "case r of None \<Rightarrow> same_maps s s1 \<and> vm_bytes s1 = vm_bytes s | Some addr \<Rightarrow> allocated s addr s1"
  using allocate_anywhere_cases [OF assms]
  by (cases r) (auto simp: same_maps_def allocated_def unmapped_def one_page set_one_page page_of_id)

lemma native_alloc_cases:
  assumes "hk_native_reloc_alloc sz near s = (page, s1)"
  shows "if page = 0 then same_maps s s1 \<and> vm_bytes s1 = vm_bytes s else allocated s page s1 \<and> sz \<le> 16384"
proof (cases "sz = 0 \<or> sz > unat PAGE")
  case True
  then show ?thesis using assms by (auto simp: hk_native_reloc_alloc_def same_maps_def)
next
  case False
  define probe where "probe = (near + PAGE - 1) AND NOT (PAGE - 1)"
  define limit where "limit = near + push_bit 27 1"
  obtain r s2 where m: "map_near_from probe limit PAGE s = (r, s2)" by fastforce
  obtain w s3 where w: "vm_allocate_anywhere PAGE s2 = (w, s3)" by fastforce
  have run: "(page, s1) = (case r of Some addr \<Rightarrow> (addr, s2) | None \<Rightarrow> (case w of None \<Rightarrow> 0 | Some addr \<Rightarrow> addr, s3))"
    using assms unfolding hk_native_reloc_alloc_def tramp_map_near_def Let_def probe_def [symmetric] limit_def [symmetric] m
      if_not_P [OF False] prod.case w by (cases r; cases w) simp_all
  note a = map_near_cases [OF m] and b = anywhere_page [OF w]
  show ?thesis
  proof (cases r)
    case (Some addr)
    then show ?thesis using run a False by (auto simp: allocated_def)
  next
    case None
    show ?thesis
    proof (cases w)
      case (Some addr)
      then have "allocated s addr s3" using a b None allocated_cong by auto
      then show ?thesis using run None Some False by (auto simp: allocated_def)
    next
      case w0: None
      then show ?thesis using run None a b by (auto simp: same_maps_def)
    qed
  qed
qed

section \<open>The laws\<close>

lemma aligned_contained:
  assumes "platform_ok base s" "16384 dvd unat a" "hk_static_pool_contains (vm_pool s) a"
  obtains i where "i < HK_STATIC_TRAMP_SLOTS" "a = slot_addr (vm_pool s) i"
proof -
  have p: "pool_ok (vm_pool s)" "sp_slot_size (vm_pool s) = PAGE" "sp_slot_count (vm_pool s) = 8" "16384 dvd unat (sp_base (vm_pool s))"
    using assms(1) by (simp_all add: platform_ok_def HK_STATIC_TRAMP_SLOTS_def)
  have u: "unat (slot_addr (vm_pool s) i) = unat (sp_base (vm_pool s)) + i * 16384" if "i \<le> 8" for i
    using unat_slot_addr [OF p(1)] that p by simp
  have e: "sp_base (vm_pool s) + sp_slot_size (vm_pool s) * of_nat (sp_slot_count (vm_pool s)) = slot_addr (vm_pool s) 8"
    by (simp add: slot_addr_def p mult.commute)
  have "sp_base (vm_pool s) \<le> a" "a < slot_addr (vm_pool s) 8"
    using assms(3) unfolding hk_static_pool_contains_def e by (auto split: if_splits)
  then have r: "unat (sp_base (vm_pool s)) \<le> unat a" "unat a < unat (sp_base (vm_pool s)) + 8 * 16384"
    using u [of 8] by (simp_all add: word_le_nat_alt word_less_nat_alt)
  obtain x y where xy: "unat a = 16384 * x" "unat (sp_base (vm_pool s)) = 16384 * y" using assms(2) p(4) by (auto elim!: dvdE)
  define i where "i = x - y"
  have i: "i < 8" "x = y + i" using r xy by (auto simp: i_def)
  have "a = slot_addr (vm_pool s) i" using u [of i] i xy by (simp add: word_unat_eq_iff)
  then show ?thesis using that i by (simp add: HK_STATIC_TRAMP_SLOTS_def)
qed

lemma slot_contained:
  assumes "platform_ok base s" "i < HK_STATIC_TRAMP_SLOTS"
  shows "hk_static_pool_contains (vm_pool s) (slot_addr (vm_pool s) i)"
  using contains_slot [of "vm_pool s" i 0] assms by (simp add: platform_ok_def)

lemma same_slots:
  "platform_ok base s \<Longrightarrow> platform_ok base s2 \<Longrightarrow> slot_addr (vm_pool s2) i = slot_addr (vm_pool s) i"
  by (rule slot_addr_cong) (simp_all add: platform_ok_def)

lemma allocated_platform:
  assumes "allocated s a s1" "platform_ok base s"
  shows "platform_ok base s1" "view_kept s s1" "Inl a \<notin> platform_live s" "platform_live s1 = insert (Inl a) (platform_live s)"
    "i < HK_STATIC_TRAMP_SLOTS \<Longrightarrow> a \<noteq> slot_addr (vm_pool s1) i"
proof -
  note al = assms(1) [unfolded allocated_def]
  show "platform_ok base s1" using al assms(2) by (auto simp: platform_ok_def)
  show "Inl a \<notin> platform_live s" "platform_live s1 = insert (Inl a) (platform_live s)"
    using al by (auto simp: platform_live_def)
  have "vm_view s1 x = vm_view s x" if "vm_view s x \<noteq> None" for x
  proof -
    have pg: "page_of x \<noteq> a" using that al by (auto simp: vm_view_def split: option.splits)
    have "\<not> unat (x - a) < 16384"
    proof
      assume l: "unat (x - a) < 16384"
      have "x = a + of_nat (unat (x - a))" by simp
      then show False using page_of_page(1) [OF _ l, of a] al pg by metis
    qed
    then have "vm_bytes s1 x = vm_bytes s x" using al by (simp only: put_bytes_def Let_def length_replicate if_False)
    moreover have "vm_prot s1 (page_of x) = vm_prot s (page_of x)" using al pg by (simp only: fun_upd_apply if_False)
    ultimately show ?thesis by (simp only: vm_view_def)
  qed
  then show "view_kept s s1" by (simp add: view_kept_def)
  show "a \<noteq> slot_addr (vm_pool s1) i" if "i < HK_STATIC_TRAMP_SLOTS"
    using al assms(2) that by (auto simp: platform_ok_def)
qed

text \<open>What a page source hands out: a slot or a page of the kernel.\<close>

definition handed_out :: "u64 \<Rightarrow> nat \<Rightarrow> 's hk_vm_scheme \<Rightarrow> u64 \<Rightarrow> 's hk_vm_scheme \<Rightarrow> bool" where
  "handed_out base sz s page s1 \<longleftrightarrow> page \<noteq> 0 \<and> platform_ok base s1 \<and> view_kept s s1 \<and> 16384 dvd unat page \<and>
     vm_prot s1 page = Some (VM_PROT_READ OR VM_PROT_WRITE) \<and> (sz < 2 ^ 64 \<longrightarrow> sz \<le> 16384) \<and>
     ((\<exists>i < HK_STATIC_TRAMP_SLOTS. page = slot_addr (vm_pool s1) i) \<and> Inr page \<notin> platform_live s \<and>
        platform_live s1 = insert (Inr page) (platform_live s) \<or>
      (\<forall>i < HK_STATIC_TRAMP_SLOTS. page \<noteq> slot_addr (vm_pool s1) i) \<and> Inl page \<notin> platform_live s \<and>
        platform_live s1 = insert (Inl page) (platform_live s))"

lemma handed_out_usable:
  assumes "handed_out base sz s page s1" "sz < 2 ^ 64"
  shows "platform_ok base s1 \<and> view_kept s s1 \<and> (\<exists>r. r \<notin> platform_live s \<and> platform_live s1 = insert r (platform_live s)) \<and>
    4 dvd unat page \<and> (\<forall>k < sz. vm_view s1 (page + of_nat k) \<noteq> None \<and> vm_writable s1 (page + of_nat k))"
proof -
  note h = assms(1) [unfolded handed_out_def]
  have "vm_view s1 (page + of_nat k) \<noteq> None \<and> vm_writable s1 (page + of_nat k)" if "k < sz" for k
    using open_page [of page s1 k] h that assms(2) by auto
  moreover have "4 dvd unat page" using h dvd_trans [of 4 16384 "unat page"] by simp
  moreover have "\<exists>r. r \<notin> platform_live s \<and> platform_live s1 = insert r (platform_live s)" using h by blast
  ultimately show ?thesis using h by blast
qed

lemma handed_out_page:
  assumes "allocated s page s1" "platform_ok base s" "sz \<le> 16384"
  shows "handed_out base sz s page s1"
  using allocated_platform [OF assms(1,2)] assms(1,3) unfolding handed_out_def allocated_def
  by (auto intro!: disjI2)

lemma handed_out_slot:
  assumes "hk_static_pool_take sz near reach s = (slot, s1)" "platform_ok base s" "slot \<noteq> 0"
  shows "handed_out base sz s slot s1"
proof -
  note t = take_some [OF assms(2,1,3)]
  from assms(2,1) obtain q where c: "hk_static_pool_claim (vm_pool s) (of_nat sz) near = (slot, q)"
    by (cases rule: take_steps) (use assms(3) in auto)
  obtain i where "i < HK_STATIC_TRAMP_SLOTS" "slot = slot_addr (vm_pool s) i"
    using platform_claim(3) [OF assms(2) c assms(3)] by blast
  then have "\<exists>i < HK_STATIC_TRAMP_SLOTS. slot = slot_addr (vm_pool s1) i" using same_slots [OF assms(2) t(1)] by metis
  then show ?thesis using t assms(3) unfolding handed_out_def by blast
qed

lemma reloc_alloc_cases:
  assumes "hk_platform_reloc_alloc sz near s = ((page, mp), s1)" "platform_ok base s"
  shows "if page = 0 then platform_ok base s1 \<and> platform_live s1 = platform_live s \<and> vm_view s1 = vm_view s
     else handed_out base sz s page s1"
proof -
  obtain slot s2 where t: "hk_static_pool_take sz near True s = (slot, s2)" by fastforce
  obtain p s3 where n: "hk_native_reloc_alloc sz near s2 = (p, s3)" by fastforce
  show ?thesis
  proof (cases "slot = 0")
    case False
    then show ?thesis using handed_out_slot [OF t assms(2)] assms(1) by (auto simp: hk_platform_reloc_alloc_def t)
  next
    case True
    have e: "page = p" "s1 = s3" using assms(1) True by (auto simp: hk_platform_reloc_alloc_def t n split: if_splits)
    note z = take_none [OF assms(2) t [unfolded True]] and a = native_alloc_cases [OF n]
    show ?thesis
    proof (cases "p = 0")
      case True
      then have m: "same_maps s2 s3" "vm_bytes s3 = vm_bytes s2" using a by simp_all
      then have "vm_view s3 = vm_view s2" by (intro view_cong) (simp_all add: same_maps_def)
      then show ?thesis using True z platform_frame [OF m(1)] e by simp
    next
      case False
      then have "handed_out base sz s2 p s3" using handed_out_page z a by metis
      then show ?thesis using z False e by (simp add: handed_out_def view_kept_def)
    qed
  qed
qed

lemma static_alloc_cases:
  assumes "hk_platform_static_alloc sz near s = ((page, mp), s1)" "platform_ok base s"
  shows "if page = 0 then platform_ok base s1 \<and> platform_live s1 = platform_live s \<and> vm_view s1 = vm_view s
     else handed_out base sz s page s1"
proof -
  have t: "hk_static_pool_take sz near False s = (page, s1)"
    using assms(1) by (auto simp: hk_platform_static_alloc_def split: prod.splits)
  show ?thesis using take_none [OF assms(2)] handed_out_slot [OF t assms(2)] t by auto
qed

lemma free_handed_out:
  assumes "handed_out base sz s page s1" "platform_ok base s2" "platform_live s2 = platform_live s1"
  shows "platform_ok base (hk_platform_reloc_free page n s2) \<and> platform_live (hk_platform_reloc_free page n s2) = platform_live s"
proof -
  note h = assms(1) [unfolded handed_out_def]
  have o1: "platform_ok base s1" and al: "16384 dvd unat page" using h by auto
  note same = same_slots [OF o1 assms(2)]
  consider i where "i < HK_STATIC_TRAMP_SLOTS" "page = slot_addr (vm_pool s1) i" "Inr page \<notin> platform_live s"
      "platform_live s1 = insert (Inr page) (platform_live s)"
    | "\<forall>i < HK_STATIC_TRAMP_SLOTS. page \<noteq> slot_addr (vm_pool s1) i" "Inl page \<notin> platform_live s"
      "platform_live s1 = insert (Inl page) (platform_live s)"
    using h by blast
  then show ?thesis
  proof cases
    case (1 i)
    then have "hk_static_pool_contains (vm_pool s2) page" using slot_contained [OF assms(2)] same by simp
    then show ?thesis using platform_return [OF assms(2), of page] 1(3,4) assms(3) by (simp add: hk_platform_reloc_free_def)
  next
    case 2
    have c: "\<not> hk_static_pool_contains (vm_pool s2) page"
      using aligned_contained [OF assms(2) al] 2(1) same by metis
    have "platform_ok base (vm_deallocate page PAGE s2)"
      using assms(2) 2(1) same by (auto simp: platform_ok_def one_page set_one_page)
    moreover have "platform_live (vm_deallocate page PAGE s2) = platform_live s2 - {Inl page}"
      by (auto simp: platform_live_def one_page set_one_page)
    ultimately show ?thesis using 2(2,3) assms(3) h c by (simp add: hk_platform_reloc_free_def hk_native_reloc_free_def)
  qed
qed

lemma platform_seal:
  assumes "hk_platform_reloc_seal page n s = (b, s1)" "platform_ok base s"
  shows "platform_ok base s1 \<and> platform_live s1 = platform_live s \<and> view_kept s s1"
proof (cases "page = 0")
  case True
  then show ?thesis using assms by (simp add: hk_platform_reloc_seal_def hk_native_reloc_seal_def)
next
  case False
  then have p: "vm_protect page PAGE (VM_PROT_READ OR VM_PROT_EXECUTE) s = (b, s1)"
    using assms(1) by (simp add: hk_platform_reloc_seal_def hk_native_reloc_seal_def)
  have "(VM_PROT_READ OR VM_PROT_EXECUTE) AND VM_PROT_READ \<noteq> 0" by (simp add: VM_PROT_READ_def VM_PROT_EXECUTE_def)
  then show ?thesis using protect_frame [OF p assms(2)] by blast
qed

lemma platform_write:
  assumes "hk_platform_write_memory id a bs s = (m, s1)" "platform_ok base s" "length bs < 2 ^ 64"
  shows "m = HK_MUTATION_NONE \<and> platform_ok base s1 \<and> platform_live s1 = platform_live s \<and> vm_view s1 = vm_view s \<or>
    m = HK_MUTATION_COMPLETE \<and> platform_ok base s1 \<and> platform_live s1 = platform_live s \<and> vm_view s1 = patched (vm_view s) a bs \<or>
    m = HK_MUTATION_PARTIAL \<or> m = HK_MUTATION_UNKNOWN"
  using patch_memory_contract [OF assms(1) [unfolded hk_platform_write_memory_def] assms(3)] platform_frame [of s s1] assms(2)
  by (auto simp: write_contract_def same_maps_def)

lemma platform_code_seams:
  assumes "\<And>sz near (s :: 'x hk_vm_scheme) page mp s1. alloc sz near s = ((page, mp), s1) \<Longrightarrow> platform_ok base s \<Longrightarrow>
     if page = 0 then platform_ok base s1 \<and> platform_live s1 = platform_live s \<and> vm_view s1 = vm_view s
     else handed_out base sz s page s1"
  shows "code_seams \<lparr>rs_alloc = alloc, rs_seal = hk_platform_reloc_seal, rs_free = Some hk_platform_reloc_free,
     rs_write = hk_platform_write_memory id\<rparr> (platform_ok base) platform_live"
proof (unfold_locales, unfold reloc_seams.simps)
  fix s s1 s2 :: "'x hk_vm_scheme" and sz near page mp n b a bs m f
  show "platform_ok base s1 \<and> platform_live s1 = platform_live s \<and> vm_view s1 = vm_view s"
    if "platform_ok base s" "alloc sz near s = ((0, mp), s1)"
    using assms [OF that(2,1)] by simp
  show "platform_ok base s1 \<and> view_kept s s1 \<and> (\<exists>r. r \<notin> platform_live s \<and> platform_live s1 = insert r (platform_live s)) \<and>
      4 dvd unat page \<and> (\<forall>k < sz. vm_view s1 (page + of_nat k) \<noteq> None \<and> vm_writable s1 (page + of_nat k))"
    if "platform_ok base s" "sz < 2 ^ 64" "alloc sz near s = ((page, mp), s1)" "page \<noteq> 0"
    using handed_out_usable [of base sz s page s1] assms [OF that(3,1)] that(2,4) by simp
  show "platform_ok base (f page n s2) \<and> platform_live (f page n s2) = platform_live s"
    if "platform_ok base s" "alloc sz near s = ((page, mp), s1)" "page \<noteq> 0" "platform_ok base s2"
      "platform_live s2 = platform_live s1" "Some hk_platform_reloc_free = Some f"
    using free_handed_out [of base sz s page s1 s2 n] assms [OF that(2,1)] that(3-6) by simp
  show "platform_ok base s1 \<and> platform_live s1 = platform_live s \<and> view_kept s s1"
    if "platform_ok base s" "hk_platform_reloc_seal page n s = (b, s1)"
    by (rule platform_seal [OF that(2,1)])
  show "m = HK_MUTATION_NONE \<and> platform_ok base s1 \<and> platform_live s1 = platform_live s \<and> vm_view s1 = vm_view s \<or>
      m = HK_MUTATION_COMPLETE \<and> platform_ok base s1 \<and> platform_live s1 = platform_live s \<and> vm_view s1 = patched (vm_view s) a bs \<or>
      m = HK_MUTATION_PARTIAL \<or> m = HK_MUTATION_UNKNOWN"
    if "platform_ok base s" "length bs < 2 ^ 64" "hk_platform_write_memory id a bs s = (m, s1)"
    by (rule platform_write [OF that(3,1,2)])
  show "platform_ok base s1 = platform_ok base s \<and> platform_live s1 = platform_live s" if "same_maps s s1"
    using platform_frame [OF that] by blast
qed

interpretation page_source: code_seams platform_seams "platform_ok base" platform_live for base
  unfolding platform_seams_def by (rule platform_code_seams) (rule reloc_alloc_cases)

interpretation static_source: code_seams static_seams "platform_ok base" platform_live for base
  unfolding static_seams_def by (rule platform_code_seams) (rule static_alloc_cases)

end
