(* ===== verification/HK_Reloc.thy ===== *)
theory HK_Reloc
  imports HK_Seams HK_A64_Correct
begin

text \<open>
  The relocating inline engine (\<open>src/engines/HKRelocInlineEngine.c\<close>) over the interface \<open>code_seams\<close>. A
  preparation obtains a page and builds in it an absolute jump to the replacement (the thunk) and the
  relocated prologue with a jump back (the body); a commit revalidates the entry and patches it. A read of
  an unreadable or a store to an unwritable byte is \<open>None\<close>. \<open>callable\<close> stands for
  \<open>hk_pac_make_callable\<close>, the signing of a code pointer.
\<close>

definition HK_RELOC_THUNK_BYTES :: nat where "HK_RELOC_THUNK_BYTES = HK_A64_MAX_BRANCH_BYTES"
definition HK_RELOC_MAX_DISPLACED :: nat where "HK_RELOC_MAX_DISPLACED = 4"
definition HK_RELOC_BODY_BYTES :: nat where
  "HK_RELOC_BODY_BYTES = HK_RELOC_MAX_DISPLACED * HK_A64_MAX_RELOC_BYTES + HK_A64_MAX_BRANCH_BYTES"
definition HK_RELOC_PAGE_BYTES :: nat where "HK_RELOC_PAGE_BYTES = HK_RELOC_THUNK_BYTES + HK_RELOC_BODY_BYTES"
definition HK_RELOC_MAX_PATCH :: nat where "HK_RELOC_MAX_PATCH = HK_A64_MAX_BRANCH_BYTES"

lemmas reloc_sizes = HK_RELOC_THUNK_BYTES_def HK_RELOC_MAX_DISPLACED_def HK_RELOC_BODY_BYTES_def HK_RELOC_PAGE_BYTES_def
  HK_RELOC_MAX_PATCH_def HK_A64_MAX_BRANCH_BYTES_def HK_A64_MAX_RELOC_BYTES_def

datatype hk_reloc_status =
    HK_RELOC_OK | HK_RELOC_INVALID_ARGUMENT | HK_RELOC_MISALIGNED | HK_RELOC_TARGET_TOO_SHORT
  | HK_RELOC_TRAP_STUB | HK_RELOC_PRECONDITION_FAILED | HK_RELOC_UNRELOCATABLE | HK_RELOC_NO_TRAMPOLINE

record hk_reloc_plan =
  rp_address :: u64
  rp_replacement :: u64
  rp_trampoline :: u64
  rp_trampoline_size :: nat
  rp_mapping :: hk_artifact_mapping
  rp_original_entry :: u64
  rp_original :: "byte list"
  rp_patch :: "byte list"
  rp_patch_size :: nat
  rp_displaced_count :: nat
  rp_atomic_entry_patch :: bool
  rp_captured :: bool
  rp_activated :: bool

text \<open>Instruction words in a byte buffer, and the bytes of words. A buffer of 16 bytes is zero behind what was
  written.\<close>

fun words_of :: "byte list \<Rightarrow> u32 list" where
  "words_of (b0 # b1 # b2 # b3 # bs) =
     (ucast b0 OR push_bit 8 (ucast b1) OR push_bit 16 (ucast b2) OR push_bit 24 (ucast b3)) # words_of bs"
| "words_of bs = []"

definition bytes_of :: "u32 list \<Rightarrow> byte list" where
  "bytes_of ws = concat (map (le_bytes 4) ws)"

definition buf16 :: "byte list \<Rightarrow> byte list" where
  "buf16 bs = bs @ replicate (HK_RELOC_MAX_PATCH - length bs) 0"

definition reloc_release_and_fail :: "'x reloc_seams \<Rightarrow> u64 \<Rightarrow> 'x hk_vm_scheme \<Rightarrow> 'x hk_vm_scheme" where
  "reloc_release_and_fail S page s =
     (case rs_free S of Some f \<Rightarrow> if page \<noteq> 0 then f page HK_RELOC_PAGE_BYTES s else s | None \<Rightarrow> s)"

text \<open>The patch: its size, its destination, and whether it is a single store.\<close>

definition entry_patch :: "u64 \<Rightarrow> u64 \<Rightarrow> nat \<Rightarrow> u64 \<Rightarrow> nat \<times> u64 \<times> bool" where
  "entry_patch target replacement overwrite_size thunk_addr =
     (if overwrite_size \<noteq> 0 then (overwrite_size, 0, False)
      else if hk_arm64_branch_size target thunk_addr = 4 then (4, thunk_addr, True)
      else let n = hk_arm64_branch_size target replacement in (n, replacement, n = 4))"

text \<open>What is done between the acceptance of the page and its release by a failure.\<close>

definition reloc_build :: "'x reloc_seams \<Rightarrow> u64 \<Rightarrow> u64 \<Rightarrow> nat \<Rightarrow> byte list option \<Rightarrow> u64 \<Rightarrow> hk_artifact_mapping \<Rightarrow>
    'x hk_vm_scheme \<Rightarrow> ((hk_reloc_status + hk_reloc_plan) \<times> 'x hk_vm_scheme) option" where
  "reloc_build S target replacement overwrite_size expected page mapping s =
     (let continuation_only = overwrite_size \<noteq> 0;
          thunk_addr = page;
          body_addr = page + of_nat HK_RELOC_THUNK_BYTES;
          (patch_size, branch_dest, atomic) = entry_patch target replacement overwrite_size thunk_addr;
          displaced = patch_size div 4
      in if patch_size = 0 \<or> patch_size > HK_RELOC_MAX_PATCH then Some (Inl HK_RELOC_INVALID_ARGUMENT, s)
         else if displaced = 0 \<or> displaced > HK_RELOC_MAX_DISPLACED then Some (Inl HK_RELOC_INVALID_ARGUMENT, s)
         else do {
           original \<leftarrow> rd_bytes (vm_view s) target 0 patch_size;
           let words = words_of original;
           let relocated = hk_arm64_relocate words target HK_RELOC_BODY_BYTES;
           let resume = target + of_nat patch_size;
           let back_jump = hk_arm64_emit_branch (body_addr + of_nat (4 * length relocated)) resume;
           let thunk = hk_arm64_emit_branch thunk_addr replacement;
           let patch = hk_arm64_emit_branch target branch_dest;
           (if (case expected of None \<Rightarrow> False
                | Some e \<Rightarrow> take (min (length e) patch_size) original \<noteq> take (min (length e) patch_size) e)
            then Some (Inl HK_RELOC_PRECONDITION_FAILED, s)
            else if hk_arm64_insn_is_trap (hd words) then Some (Inl HK_RELOC_TRAP_STUB, s)
            else if hk_arm64_has_early_terminator words then Some (Inl HK_RELOC_TARGET_TOO_SHORT, s)
            else if relocated = [] then Some (Inl HK_RELOC_UNRELOCATABLE, s)
            else if back_jump = [] \<or> 4 * length relocated + 4 * length back_jump > HK_RELOC_BODY_BYTES
              then Some (Inl HK_RELOC_UNRELOCATABLE, s)
            else if \<not> continuation_only \<and> (thunk = [] \<or> 4 * length thunk > HK_RELOC_THUNK_BYTES)
              then Some (Inl HK_RELOC_UNRELOCATABLE, s)
            else do {
              s1 \<leftarrow> (if continuation_only then Some s else vm_put thunk_addr (bytes_of thunk) s);
              s2 \<leftarrow> vm_put body_addr (bytes_of (relocated @ back_jump)) s1;
              (let (sealed, s3) = rs_seal S page HK_RELOC_PAGE_BYTES s2
               in if \<not> sealed then Some (Inl HK_RELOC_NO_TRAMPOLINE, s3)
                  else if \<not> continuation_only \<and> 4 * length patch \<noteq> patch_size then Some (Inl HK_RELOC_INVALID_ARGUMENT, s3)
                  else let (mapping_id, s4) = hk_id_generate s3
                    in Some (Inr \<lparr>rp_address = target, rp_replacement = replacement, rp_trampoline = page,
                         rp_trampoline_size = HK_RELOC_PAGE_BYTES,
                         rp_mapping = mapping\<lparr>am_mapping_id := mapping_id,
                           am_protection := \<lparr>vp_read = True, vp_write = False, vp_execute = True\<rparr>\<rparr>,
                         rp_original_entry = body_addr, rp_original = buf16 original,
                         rp_patch = buf16 (if continuation_only then [] else bytes_of patch),
                         rp_patch_size = patch_size, rp_displaced_count = displaced,
                         rp_atomic_entry_patch = atomic, rp_captured = True, rp_activated = False\<rparr>, s4))
            })
         })"

text \<open>The page handed back must lie inside the mapping the seam describes.\<close>

definition page_usable :: "u64 \<Rightarrow> hk_artifact_mapping \<Rightarrow> bool" where
  "page_usable page mapping \<longleftrightarrow>
     \<not> (page = 0 \<or> page AND 3 \<noteq> 0 \<or>
        (am_kind mapping \<noteq> HK_MAPPING_STATIC_HOOKKIT_SECTION \<and> am_kind mapping \<noteq> HK_MAPPING_ANONYMOUS) \<or>
        am_base mapping = 0 \<or> am_base mapping > page \<or> am_size mapping < of_nat HK_RELOC_PAGE_BYTES \<or>
        am_size mapping > - 1 - am_base mapping \<or>
        page - am_base mapping > am_size mapping - of_nat HK_RELOC_PAGE_BYTES)"

definition reloc_prepare :: "'x reloc_seams \<Rightarrow> u64 \<Rightarrow> u64 \<Rightarrow> nat \<Rightarrow> byte list option \<Rightarrow>
    'x hk_vm_scheme \<Rightarrow> ((hk_reloc_status + hk_reloc_plan) \<times> 'x hk_vm_scheme) option" where
  "reloc_prepare S target replacement overwrite_size expected s =
     (let continuation_only = overwrite_size \<noteq> 0
      in if target = 0 \<or> (\<not> continuation_only \<and> replacement = 0) \<or>
            (continuation_only \<and> (overwrite_size > HK_RELOC_MAX_PATCH \<or> overwrite_size mod 4 \<noteq> 0))
         then Some (Inl HK_RELOC_INVALID_ARGUMENT, s)
         else if (case expected of None \<Rightarrow> False | Some e \<Rightarrow> e = [] \<or> length e > HK_RELOC_MAX_PATCH)
         then Some (Inl HK_RELOC_INVALID_ARGUMENT, s)
         else if target AND 3 \<noteq> 0 then Some (Inl HK_RELOC_MISALIGNED, s)
         else let ((page, mapping), s1) = rs_alloc S HK_RELOC_PAGE_BYTES target s
           in if \<not> page_usable page mapping
              then Some (Inl HK_RELOC_NO_TRAMPOLINE, reloc_release_and_fail S page s1)
              else do {
                (result, s2) \<leftarrow> reloc_build S target replacement overwrite_size expected page mapping s1;
                (case result of Inl status \<Rightarrow> Some (Inl status, reloc_release_and_fail S page s2)
                   | Inr plan \<Rightarrow> Some (Inr plan, s2))
              })"

definition hk_reloc_prepare :: "'x reloc_seams \<Rightarrow> u64 \<Rightarrow> u64 \<Rightarrow> byte list option \<Rightarrow>
    'x hk_vm_scheme \<Rightarrow> ((hk_reloc_status + hk_reloc_plan) \<times> 'x hk_vm_scheme) option" where
  "hk_reloc_prepare S target replacement expected s = reloc_prepare S target replacement 0 expected s"

definition hk_reloc_prepare_continuation :: "'x reloc_seams \<Rightarrow> u64 \<Rightarrow> nat \<Rightarrow> byte list option \<Rightarrow>
    'x hk_vm_scheme \<Rightarrow> ((hk_reloc_status + hk_reloc_plan) \<times> 'x hk_vm_scheme) option" where
  "hk_reloc_prepare_continuation S target overwrite_size expected s = reloc_prepare S target 0 overwrite_size expected s"

definition hk_reloc_describe_continuation :: "(u64 \<Rightarrow> u64) \<Rightarrow> hk_reloc_plan \<Rightarrow> hk_continuation_info" where
  "hk_reloc_describe_continuation callable plan =
     (if \<not> rp_captured plan then empty_continuation
      else let static_continuation = am_kind (rp_mapping plan) = HK_MAPPING_STATIC_HOOKKIT_SECTION
        in empty_continuation\<lparr>ci_kind := if static_continuation then HK_CONTINUATION_KIND_STATIC else HK_CONTINUATION_KIND_DYNAMIC,
             ci_address := callable (rp_original_entry plan),
             ci_jump_back_destination := rp_address plan + of_nat (rp_patch_size plan),
             ci_mapping_id := am_mapping_id (rp_mapping plan), ci_mapping_kind := am_kind (rp_mapping plan),
             ci_mapping_base := am_base (rp_mapping plan), ci_mapping_size := am_size (rp_mapping plan),
             ci_mapping_protection := 5, ci_executable_memory_allocated := \<not> static_continuation,
             ci_relocated_instruction_count := of_nat (rp_displaced_count plan), ci_readable := True,
             ci_mechanically_reversible := False, ci_safe_to_reverse_after_activation := False,
             ci_fully_inspected := True\<rparr>)"

text \<open>The record of the page, and the record of the entry patch.\<close>

definition trampoline_artifact :: "(u64 \<Rightarrow> u64) \<Rightarrow> hk_reloc_plan \<Rightarrow> hk_artifact" where
  "trampoline_artifact callable plan =
     (let static_section = am_kind (rp_mapping plan) = HK_MAPPING_STATIC_HOOKKIT_SECTION
      in zero_artifact\<lparr>a_kind := if static_section then HK_ARTIFACT_STATIC_CONTINUATION else HK_ARTIFACT_TRAMPOLINE,
           a_state := HK_ARTIFACT_COMMITTED,
           a_effects := if static_section then HK_EFFECT_STATIC_CONTINUATION_USE else HK_EFFECT_EXECUTABLE_ALLOCATION,
           a_engine_id := \<lparr>sv_data = Some ''inline-relocating'', sv_length = 17\<rparr>,
           a_address := rp_trampoline plan, a_size := of_nat (rp_trampoline_size plan),
           a_continuation_address := callable (rp_original_entry plan),
           a_jump_back_destination := rp_address plan + of_nat (rp_patch_size plan),
           a_mapping := rp_mapping plan,
           a_current_protection := \<lparr>vp_read = True, vp_write = False, vp_execute = True\<rparr>,
           a_mechanically_reversible := False\<rparr>)"

definition entry_artifact :: "(u64 \<Rightarrow> u64) \<Rightarrow> hk_mutation_state \<Rightarrow> hk_reloc_plan \<Rightarrow> hk_artifact" where
  "entry_artifact callable mutation plan =
     zero_artifact\<lparr>a_kind := HK_ARTIFACT_TARGET_TEXT_PATCH,
       a_state := if mutation = HK_MUTATION_COMPLETE then HK_ARTIFACT_COMMITTED else HK_ARTIFACT_PARTIALLY_APPLIED,
       a_effects := HK_EFFECT_TARGET_TEXT_MUTATION,
       a_engine_id := \<lparr>sv_data = Some ''inline-relocating'', sv_length = 17\<rparr>,
       a_address := rp_address plan, a_size := of_nat (rp_patch_size plan),
       a_original_bytes := zero_byte_storage\<lparr>bs_representation := HK_BYTE_STORAGE_INLINE,
         bs_inline_bytes := \<lparr>bv_data = Some (take (rp_patch_size plan) (rp_original plan)), bv_size = rp_patch_size plan\<rparr>,
         bs_length := rp_patch_size plan\<rparr>,
       a_original_pointer := callable (rp_original_entry plan), a_replacement_pointer := rp_replacement plan,
       a_mechanically_reversible := True,
       a_safe_to_reverse_after_activation := mutation = HK_MUTATION_COMPLETE\<rparr>"

text \<open>The commit, with the records it hands to the sink in their order.\<close>

definition hk_reloc_commit :: "(u64 \<Rightarrow> u64) \<Rightarrow> 'x reloc_seams \<Rightarrow> hk_reloc_plan \<Rightarrow> 'x hk_vm_scheme \<Rightarrow>
    ((hk_mutation_state \<times> hk_artifact list \<times> hk_reloc_plan) \<times> 'x hk_vm_scheme) option" where
  "hk_reloc_commit callable S plan s =
     (if rp_activated plan then Some ((HK_MUTATION_UNKNOWN, [], plan), s)
      else if \<not> rp_captured plan \<or> rp_address plan = 0 \<or> rp_patch_size plan = 0 \<or> rp_patch_size plan > HK_RELOC_MAX_PATCH
      then Some ((HK_MUTATION_NONE, [], plan), s)
      else do {
        current \<leftarrow> rd_bytes (vm_view s) (rp_address plan) 0 (rp_patch_size plan);
        (let (mutation, s1) =
           (if current = take (rp_patch_size plan) (rp_original plan)
            then rs_write S (rp_address plan) (take (rp_patch_size plan) (rp_patch plan)) s
            else (HK_MUTATION_NONE, s))
         in if mutation = HK_MUTATION_NONE
            then (if rs_free S \<noteq> None \<and> rp_trampoline plan \<noteq> 0
                  then Some ((HK_MUTATION_NONE, [], plan\<lparr>rp_captured := False, rp_trampoline := 0, rp_trampoline_size := 0,
                               rp_original_entry := 0, rp_mapping := zero_mapping\<rparr>),
                             the (rs_free S) (rp_trampoline plan) (rp_trampoline_size plan) s1)
                  else Some ((HK_MUTATION_NONE, if rp_trampoline plan \<noteq> 0 then [trampoline_artifact callable plan] else [], plan), s1))
            else let m = (if mutation \<noteq> HK_MUTATION_COMPLETE \<and> mutation \<noteq> HK_MUTATION_PARTIAL then HK_MUTATION_UNKNOWN else mutation)
              in Some ((m, [trampoline_artifact callable plan, entry_artifact callable m plan], plan\<lparr>rp_activated := True\<rparr>), s1))
      })"

end
