(* ===== verification/HK_Reloc_Props.thy ===== *)
theory HK_Reloc_Props
  imports HK_Reloc HK_Page_Source
begin

text \<open>
  What the relocating engine promises, proved over the interface \<open>code_seams\<close> and instantiated at the
  platform's two page sources: a failed preparation and a refused commit give the page back; after a
  complete commit the target arrives at the replacement, and the original entry behaves as the target did.
\<close>

section \<open>Memory\<close>

lemma rd_bytes_iff:
  "rd_bytes m p i n = Some bs \<longleftrightarrow> length bs = n \<and> (\<forall>k < n. m (p + of_nat (i + k)) = Some (bs ! k))"
proof (induction n arbitrary: i bs)
  case 0
  then show ?case by auto
next
  case (Suc n)
  have "rd_bytes m p i (Suc n) = Some bs \<longleftrightarrow>
      (\<exists>b cs. bs = b # cs \<and> m (p + of_nat i) = Some b \<and> rd_bytes m p (i + 1) n = Some cs)"
    by (auto simp: rd8_def split: bind_splits)
  also have "\<dots> \<longleftrightarrow>
      (\<exists>b cs. bs = b # cs \<and> m (p + of_nat i) = Some b \<and> length cs = n \<and> (\<forall>k < n. m (p + of_nat (i + 1 + k)) = Some (cs ! k)))"
    by (simp only: Suc.IH)
  also have "\<dots> \<longleftrightarrow> length bs = Suc n \<and> (\<forall>k < Suc n. m (p + of_nat (i + k)) = Some (bs ! k))"
    by (cases bs) (auto simp: All_less_Suc2 ac_simps)
  finally show ?case .
qed

lemma words_of_spec:
  "length bs = 4 * n \<Longrightarrow> length (words_of bs) = n \<and> (\<forall>j < n. words_of bs ! j =
     ucast (bs ! (4 * j)) OR push_bit 8 (ucast (bs ! (4 * j + 1))) OR push_bit 16 (ucast (bs ! (4 * j + 2))) OR
     push_bit 24 (ucast (bs ! (4 * j + 3))))"
proof (induction bs arbitrary: n rule: words_of.induct)
  case (1 b0 b1 b2 b3 bs)
  then obtain k where k: "n = Suc k" "length bs = 4 * k" by (cases n) auto
  note ih = "1.IH" [OF k(2)]
  have "words_of (b0 # b1 # b2 # b3 # bs) ! j = ucast ((b0 # b1 # b2 # b3 # bs) ! (4 * j)) OR
      push_bit 8 (ucast ((b0 # b1 # b2 # b3 # bs) ! (4 * j + 1))) OR push_bit 16 (ucast ((b0 # b1 # b2 # b3 # bs) ! (4 * j + 2))) OR
      push_bit 24 (ucast ((b0 # b1 # b2 # b3 # bs) ! (4 * j + 3)))" if "j < n" for j
  proof (cases j)
    case (Suc l)
    have "(b0 # b1 # b2 # b3 # bs) ! (4 * j + r) = bs ! (4 * l + r)" for r by (simp add: Suc)
    from this [of 0] this [of 1] this [of 2] this [of 3] show ?thesis
      using ih that k(1) by (simp only: Suc words_of.simps nth_Cons_Suc add_0_right Suc_less_eq)
  qed (simp add: numeral_2_eq_2 numeral_3_eq_3)
  then show ?case using ih k(1) by simp
qed auto

lemma read_words:
  assumes "rd_bytes m a 0 (4 * n) = Some bs"
  shows "code_at m a (words_of bs)" "length (words_of bs) = n"
proof -
  have b: "length bs = 4 * n" "\<And>k. k < 4 * n \<Longrightarrow> m (a + of_nat k) = Some (bs ! k)"
    using assms by (auto simp: rd_bytes_iff)
  note w = words_of_spec [OF b(1)]
  show "length (words_of bs) = n" using w by simp
  show "code_at m a (words_of bs)"
    unfolding code_at_def
  proof (intro allI impI)
    fix i assume "i < length (words_of bs)"
    then have i: "i < n" using w by simp
    have r: "rd8 m (a + of_nat (4 * i)) k = Some (bs ! (4 * i + k))" if "k < 4" for k
      using b(2) [of "4 * i + k"] i that by (simp add: rd8_def add.assoc)
    show "rd32 m (a + of_nat (4 * i)) 0 = Some (words_of bs ! i)"
      using r [of 0] r [of 1] r [of 2] r [of 3] w i by (simp add: rd32_def numeral_2_eq_2)
  qed
qed

lemma code_at_cong:
  assumes "\<And>i. i < 4 * length ws \<Longrightarrow> m1 (a + of_nat i) = m (a + of_nat i)" "code_at m a ws"
  shows "code_at m1 a ws"
  unfolding code_at_def
proof (intro allI impI)
  fix i assume i: "i < length ws"
  have "rd8 m1 (a + of_nat (4 * i)) k = rd8 m (a + of_nat (4 * i)) k" if "k < 4" for k
    using assms(1) [of "4 * i + k"] i that by (simp add: rd8_def add.assoc)
  then have "rd32 m1 (a + of_nat (4 * i)) 0 = rd32 m (a + of_nat (4 * i)) 0" by (simp add: rd32_def)
  then show "rd32 m1 (a + of_nat (4 * i)) 0 = Some (ws ! i)" using assms(2) i by (simp add: code_at_def)
qed

lemma code_at_defined:
  assumes "code_at m a ws" "i < 4 * length ws"
  shows "m (a + of_nat i) \<noteq> None"
proof -
  define j k where "j = i div 4" and "k = i mod 4"
  have i: "i = 4 * j + k" "k < 4" "j < length ws" using assms(2) by (auto simp: j_def k_def)
  have "rd32 m (a + of_nat (4 * j)) 0 \<noteq> None" using assms(1) i(3) by (simp add: code_at_def)
  then have "rd8 m (a + of_nat (4 * j)) k \<noteq> None"
    using i(2) by (auto simp: rd32_def less_Suc_eq numeral_eq_Suc split: bind_splits)
  then show ?thesis by (simp add: rd8_def i(1) add.assoc)
qed

lemma view_kept_code: "view_kept s s1 \<Longrightarrow> code_at (vm_view s) a ws \<Longrightarrow> code_at (vm_view s1) a ws"
  using code_at_cong [of ws "vm_view s1" a "vm_view s"] code_at_defined [of "vm_view s" a ws] by (auto simp: view_kept_def)

lemma view_kept_read:
  "view_kept s s1 \<Longrightarrow> rd_bytes (vm_view s) a i n = Some bs \<Longrightarrow> rd_bytes (vm_view s1) a i n = Some bs"
  by (auto simp: rd_bytes_iff view_kept_def)

lemma patched_outside: "length bs \<le> unat (x - a) \<Longrightarrow> patched m a bs x = m x"
  by (simp add: patched_def)

lemma patched_code:
  assumes "\<And>i. i < 4 * length ws \<Longrightarrow> m (a + of_nat i) \<noteq> None" "4 * length ws < 2 ^ 64"
  shows "code_at (patched m a (bytes_of ws)) a ws"
proof (rule code_at_bytes)
  fix i assume i: "i < 4 * length ws"
  then have "unat (of_nat i :: u64) = i" using assms(2) by (simp add: unat_of_nat take_bit_nat_eq_self)
  then show "patched m a (bytes_of ws) (a + of_nat i) = Some (concat (map (le_bytes 4) ws) ! i)"
    using assms(1) [OF i] i word_bytes_length [of ws] by (simp add: patched_def bytes_of_def)
qed

lemma patched_code_elsewhere:
  assumes "code_at m a ws" "\<And>i. i < 4 * length ws \<Longrightarrow> length bs \<le> unat (a + of_nat i - b)"
  shows "code_at (patched m b bs) a ws"
  using assms by (intro code_at_cong [OF _ assms(1)] patched_outside)

section \<open>The build\<close>

text \<open>The sizes that cannot fail: at most four instructions of 24 bytes, and a jump of 16.\<close>

lemma branch_size_cases: "hk_arm64_branch_size a b = 4 \<or> hk_arm64_branch_size a b = 16"
  by (simp add: hk_arm64_branch_size_def HK_A64_MAX_BRANCH_BYTES_def Let_def)

lemma branch_bytes: "4 * length (hk_arm64_emit_branch a d) \<le> 16" "hk_arm64_emit_branch a d \<noteq> []"
  using emit_branch_length [of a d] branch_size_cases [of a d] by auto

lemma relocated_fits: "length ws \<le> 4 \<Longrightarrow> 4 * length (hk_arm64_relocate ws a HK_RELOC_BODY_BYTES) \<le> 96"
  using relocate_words [of ws a HK_RELOC_BODY_BYTES, OF refl] block_length [of a "length ws" "zip [0..<length ws] ws"]
  by (cases "hk_arm64_relocate ws a HK_RELOC_BODY_BYTES = []") auto

text \<open>What the page holds when a plan is returned.\<close>

definition body_words :: "u64 \<Rightarrow> nat \<Rightarrow> u64 \<Rightarrow> u32 list \<Rightarrow> u32 list" where
  "body_words target patch_size body_addr ws =
     (let relocated = hk_arm64_relocate ws target HK_RELOC_BODY_BYTES
      in relocated @ hk_arm64_emit_branch (body_addr + of_nat (4 * length relocated)) (target + of_nat patch_size))"

definition page_range :: "u64 \<Rightarrow> u64 \<Rightarrow> bool" where
  "page_range page x \<longleftrightarrow> unat (x - page) < HK_RELOC_PAGE_BYTES"

definition built :: "'x hk_vm_scheme \<Rightarrow> u64 \<Rightarrow> u64 \<Rightarrow> nat \<Rightarrow> u64 \<Rightarrow> hk_reloc_plan \<Rightarrow> 'x hk_vm_scheme \<Rightarrow> bool" where
  "built s target replacement overwrite page plan s1 \<longleftrightarrow>
     (\<exists>original ws dest.
        rp_address plan = target \<and> rp_trampoline plan = page \<and> rp_trampoline_size plan = HK_RELOC_PAGE_BYTES \<and>
        rp_original_entry plan = page + 16 \<and> rp_captured plan \<and> \<not> rp_activated plan \<and>
        entry_patch target replacement overwrite page = (rp_patch_size plan, dest, rp_atomic_entry_patch plan) \<and>
        rp_patch_size plan = 4 * rp_displaced_count plan \<and> 0 < rp_displaced_count plan \<and> rp_displaced_count plan \<le> 4 \<and>
        rd_bytes (vm_view s) target 0 (rp_patch_size plan) = Some original \<and> ws = words_of original \<and>
        rp_original plan = buf16 original \<and> hk_arm64_relocate ws target HK_RELOC_BODY_BYTES \<noteq> [] \<and>
        (overwrite = 0 \<longrightarrow> rp_patch plan = buf16 (bytes_of (hk_arm64_emit_branch target dest)) \<and>
           4 * length (hk_arm64_emit_branch target dest) = rp_patch_size plan \<and>
           code_at (vm_view s1) page (hk_arm64_emit_branch page replacement)) \<and>
        code_at (vm_view s1) (page + 16) (body_words target (rp_patch_size plan) (page + 16) ws)) \<and>
     (\<forall>x. \<not> page_range page x \<longrightarrow> vm_view s x \<noteq> None \<longrightarrow> vm_view s1 x = vm_view s x)"

lemma page_word: "k < 128 \<Longrightarrow> unat (of_nat k :: u64) = k"
  by (simp add: unat_of_nat take_bit_nat_eq_self)

lemma in_page: "k < 128 \<Longrightarrow> page_range page (page + of_nat k)"
  by (simp add: page_range_def reloc_sizes page_word)

lemma entry_patch_sizes:
  assumes "entry_patch target replacement overwrite page = (n, dest, atomic)" "overwrite mod 4 = 0"
  shows "4 dvd n" "overwrite = 0 \<Longrightarrow> n = hk_arm64_branch_size target dest"
  using assms branch_size_cases [of target replacement]
  by (auto simp: entry_patch_def Let_def split: if_splits)

lemma bytes_of_length: "length (bytes_of ws) = 4 * length ws"
  by (simp add: bytes_of_def word_bytes_length)

text \<open>The two stores, thunk and body.\<close>

lemma two_stores:
  assumes page: "\<And>k. k < 128 \<Longrightarrow> vm_view s (page + of_nat k) \<noteq> None \<and> vm_writable s (page + of_nat k)"
    and len: "4 * length thunk \<le> 16" "4 * length body \<le> 112"
  shows "\<exists>s1 s2. vm_put page (bytes_of thunk) s = Some s1 \<and> vm_put (page + 16) (bytes_of body) s1 = Some s2 \<and>
      same_maps s s2 \<and> code_at (vm_view s2) page thunk \<and> code_at (vm_view s2) (page + 16) body \<and>
      (\<forall>x. \<not> page_range page x \<longrightarrow> vm_view s2 x = vm_view s x)"
proof -
  have "vm_put page (bytes_of thunk) s \<noteq> None"
    by (rule vm_put_ok) (use page len in \<open>auto simp: bytes_of_length\<close>)
  then obtain s1 where s1: "vm_put page (bytes_of thunk) s = Some s1" by blast
  note p1 = vm_put_some [OF s1]
  have shift: "page + 16 + of_nat k = page + of_nat (16 + k)" for k by (simp add: add.assoc)
  have "vm_put (page + 16) (bytes_of body) s1 \<noteq> None"
  proof (rule vm_put_ok)
    fix i assume "i < length (bytes_of body)"
    then have "16 + i < 128" using len by (simp add: bytes_of_length)
    from page [OF this] show "vm_writable s1 (page + 16 + of_nat i)" unfolding shift writable_maps [OF p1(2)] by simp
  qed
  then obtain s2 where s2: "vm_put (page + 16) (bytes_of body) s1 = Some s2" by blast
  note p2 = vm_put_some [OF s2]
  have c1: "code_at (vm_view s1) page thunk"
    unfolding p1(3) by (rule patched_code) (use page len in auto)
  have d: "length (bytes_of body) \<le> unat (page + of_nat i - (page + 16))" if "i < 4 * length thunk" for i
  proof -
    have i: "i < 16" using that len by simp
    have "page + of_nat i - (page + 16) = of_nat i - (16 :: u64)" by simp
    moreover have "unat (of_nat i - (16 :: u64)) = 2 ^ 64 + i - 16" using i page_word [of i] by (simp add: unat_sub_if')
    ultimately show ?thesis using len by (simp add: bytes_of_length)
  qed
  have "code_at (vm_view s2) page thunk"
    unfolding p2(3) by (rule patched_code_elsewhere [OF c1 d])
  moreover have "code_at (vm_view s2) (page + 16) body"
    unfolding p2(3)
  proof (rule patched_code)
    fix i assume "i < 4 * length body"
    then have i: "16 + i < 128" using len by simp
    have "vm_view s1 (page + of_nat (16 + i)) \<noteq> None" using page [OF i] by (auto simp: p1(3) patched_def)
    then show "vm_view s1 (page + 16 + of_nat i) \<noteq> None" unfolding shift .
  qed (use len in simp)
  moreover have "vm_view s2 x = vm_view s x" if "\<not> page_range page x" for x
  proof -
    have l: "128 \<le> unat (x - page)" using that by (simp add: page_range_def reloc_sizes)
    then have "unat (x - (page + 16)) = unat (x - page) - 16"
      using unat_sub [of 16 "x - page"] by (simp add: word_le_nat_alt diff_diff_eq)
    then show ?thesis using l len by (simp add: p1(3) p2(3) patched_outside bytes_of_length)
  qed
  moreover have "same_maps s s2" using p1(2) p2(2) by (simp add: same_maps_def)
  ultimately show ?thesis using s1 s2 by blast
qed

lemma vm_put_nil: "vm_put a [] s = Some s"
proof -
  have "put_bytes (vm_bytes s) a [] = vm_bytes s" by (simp add: put_bytes_def fun_eq_iff)
  then show ?thesis by (simp add: vm_put_def vm_store_def)
qed

text \<open>The steps of a build that reaches the stores.\<close>

lemma skip_refusal:
  "(if P then Some (Inl st, s) else x) = Some (res, s1) \<Longrightarrow> \<not> (\<exists>st. res = Inl st \<and> s1 = s) \<Longrightarrow> \<not> P \<and> x = Some (res, s1)"
  by (auto split: if_splits)

lemma build_steps:
  assumes "reloc_build S target replacement overwrite expected page mapping s = Some (res, s1)"
    and ep: "entry_patch target replacement overwrite page = (n, dest, atomic)" and d: "4 dvd n"
  obtains (refused) status where "res = Inl status" "s1 = s"
  | (stores) original thunk body s2 s3 b where "rd_bytes (vm_view s) target 0 n = Some original" "0 < n" "n \<le> 16"
      "hk_arm64_relocate (words_of original) target HK_RELOC_BODY_BYTES \<noteq> []"
      "thunk = (if overwrite \<noteq> 0 then [] else hk_arm64_emit_branch page replacement)"
      "body = body_words target n (page + 16) (words_of original)" "4 * length body \<le> 112" "4 * length thunk \<le> 16"
      "Option.bind (vm_put page (bytes_of thunk) s) (vm_put (page + 16) (bytes_of body)) = Some s2"
      "rs_seal S page HK_RELOC_PAGE_BYTES s2 = (b, s3)"
      "(\<exists>status. res = Inl status) \<and> s1 = s3 \<or> (\<exists>i mp. hk_id_generate s3 = (i, s1) \<and>
        (overwrite = 0 \<longrightarrow> 4 * length (hk_arm64_emit_branch target dest) = n) \<and>
        res = Inr \<lparr>rp_address = target, rp_replacement = replacement, rp_trampoline = page,
          rp_trampoline_size = HK_RELOC_PAGE_BYTES, rp_mapping = mp,
          rp_original_entry = page + 16, rp_original = buf16 original,
          rp_patch = buf16 (if overwrite \<noteq> 0 then [] else bytes_of (hk_arm64_emit_branch target dest)),
          rp_patch_size = n, rp_displaced_count = n div 4,
          rp_atomic_entry_patch = atomic, rp_captured = True, rp_activated = False\<rparr>)"
proof (cases "\<exists>status. res = Inl status \<and> s1 = s")
  case True
  then show ?thesis using refused by blast
next
  case False
  have sixteen: "page + of_nat HK_RELOC_THUNK_BYTES = page + 16" by (simp add: reloc_sizes)
  note run = assms(1) [unfolded reloc_build_def Let_def ep prod.case sixteen]
  have n: "\<not> (n = 0 \<or> HK_RELOC_MAX_PATCH < n)" and m: "\<not> (n div 4 = 0 \<or> HK_RELOC_MAX_DISPLACED < n div 4)"
    using run False by (auto split: if_splits)
  obtain original where o: "rd_bytes (vm_view s) target 0 n = Some original"
    using run unfolding if_not_P [OF n] if_not_P [OF m] by (auto split: bind_splits)
  define body where "body = body_words target n (page + 16) (words_of original)"
  define thunk where "thunk = (if overwrite \<noteq> 0 then [] else hk_arm64_emit_branch page replacement)"
  define rl where "rl = hk_arm64_relocate (words_of original) target HK_RELOC_BODY_BYTES"
  define bk where "bk = hk_arm64_emit_branch (page + 16 + of_nat (4 * length rl)) (target + of_nat n)"
  have body: "body = rl @ bk" by (simp add: body_def body_words_def Let_def rl_def bk_def)
  note run2 = run [unfolded if_not_P [OF n] if_not_P [OF m] o bind.simps rl_def [symmetric] bk_def [symmetric]]
  note r3 = skip_refusal [OF run2 False]
  note r4 = skip_refusal [OF conjunct2 [OF r3] False]
  note r5 = skip_refusal [OF conjunct2 [OF r4] False]
  note r6 = skip_refusal [OF conjunct2 [OF r5] False]
  note r7 = skip_refusal [OF conjunct2 [OF r6] False]
  note r8 = skip_refusal [OF conjunct2 [OF r7] False]
  obtain s2 where s2: "Option.bind (vm_put page (bytes_of thunk) s) (vm_put (page + 16) (bytes_of body)) = Some s2"
    using conjunct2 [OF r8] by (auto simp: thunk_def body vm_put_nil bytes_of_def split: bind_splits if_splits)
  obtain b s3 where seal: "rs_seal S page HK_RELOC_PAGE_BYTES s2 = (b, s3)" by fastforce
  obtain i s4 where i: "hk_id_generate s3 = (i, s4)" by fastforce
  have out: "(\<exists>status. res = Inl status) \<and> s1 = s3 \<or> (\<exists>i mp. hk_id_generate s3 = (i, s1) \<and>
        (overwrite = 0 \<longrightarrow> 4 * length (hk_arm64_emit_branch target dest) = n) \<and>
        res = Inr \<lparr>rp_address = target, rp_replacement = replacement, rp_trampoline = page,
          rp_trampoline_size = HK_RELOC_PAGE_BYTES, rp_mapping = mp,
          rp_original_entry = page + 16, rp_original = buf16 original,
          rp_patch = buf16 (if overwrite \<noteq> 0 then [] else bytes_of (hk_arm64_emit_branch target dest)),
          rp_patch_size = n, rp_displaced_count = n div 4,
          rp_atomic_entry_patch = atomic, rp_captured = True, rp_activated = False\<rparr>)"
  proof -
    have s2': "\<exists>sx. (if overwrite \<noteq> 0 then Some s else vm_put page (bytes_of (hk_arm64_emit_branch page replacement)) s) = Some sx \<and>
        vm_put (page + 16) (bytes_of (rl @ bk)) sx = Some s2"
      using s2 by (auto simp: thunk_def body vm_put_nil bytes_of_def split: bind_splits if_splits)
    then obtain sx where sx: "(if overwrite \<noteq> 0 then Some s else vm_put page (bytes_of (hk_arm64_emit_branch page replacement)) s) = Some sx"
        "vm_put (page + 16) (bytes_of (rl @ bk)) sx = Some s2" by blast
    note fin = conjunct2 [OF r8, unfolded sx bind.simps seal prod.case i]
    show ?thesis
    proof (cases "b \<and> (overwrite = 0 \<longrightarrow> 4 * length (hk_arm64_emit_branch target dest) = n)")
      case True
      then show ?thesis using fin i by auto
    next
      case False
      then show ?thesis using fin by (auto split: if_splits)
    qed
  qed
  show ?thesis
  proof (rule stores [OF o _ _ _ thunk_def body_def _ _ s2 seal out])
    show "0 < n" "n \<le> 16" using n by (auto simp: reloc_sizes)
    show "hk_arm64_relocate (words_of original) target HK_RELOC_BODY_BYTES \<noteq> []"
      using conjunct1 [OF r6] by (simp add: rl_def)
    show "4 * length body \<le> 112" using conjunct1 [OF r7] by (simp add: body reloc_sizes)
    show "4 * length thunk \<le> 16" using branch_bytes(1) by (simp add: thunk_def)
  qed
qed

lemma builtD:
  assumes "built s0 target replacement overwrite page plan s1"
  shows "rp_captured plan" "\<not> rp_activated plan" "rp_address plan = target" "0 < rp_patch_size plan" "rp_patch_size plan \<le> 16"
    "rp_trampoline plan = page" "4 dvd rp_patch_size plan"
  using assms by (auto simp: built_def)

context code_seams begin

lemma build_law:
  assumes "ok s" and page: "\<And>k. k < 128 \<Longrightarrow> vm_view s (page + of_nat k) \<noteq> None \<and> vm_writable s (page + of_nat k)"
    and run: "reloc_build S target replacement overwrite expected page mapping s = Some (res, s1)" and ov: "overwrite mod 4 = 0"
  shows "ok s1 \<and> live s1 = live s \<and> (\<forall>plan. res = Inr plan \<longrightarrow> built s target replacement overwrite page plan s1)"
proof -
  obtain n dest atomic where ep: "entry_patch target replacement overwrite page = (n, dest, atomic)" by (metis prod_cases3)
  note sz = entry_patch_sizes [OF ep ov]
  from run ep sz(1) show ?thesis
  proof (cases rule: build_steps)
    case (refused status)
    then show ?thesis using assms(1) by simp
  next
    case (stores original thunk body s2 s3 b)
    obtain sx sy where two: "vm_put page (bytes_of thunk) s = Some sx" "vm_put (page + 16) (bytes_of body) sx = Some sy"
        "same_maps s sy" "code_at (vm_view sy) page thunk" "code_at (vm_view sy) (page + 16) body"
        "\<forall>x. \<not> page_range page x \<longrightarrow> vm_view sy x = vm_view s x"
      using two_stores [OF page stores(8,7)] by blast
    have sy: "sy = s2" using stores(9) two(1,2) by simp
    have "ok s2 \<and> live s2 = live s" using frame_law [OF two(3)] assms(1) sy by simp
    then have sealed: "ok s3" "live s3 = live s" "view_kept s2 s3" using seal_law [OF _ stores(10)] by auto
    show ?thesis
      using stores(11)
    proof (elim disjE conjE exE)
      fix status assume "res = Inl status" "s1 = s3"
      then show ?thesis using sealed by simp
    next
      fix i mp assume g: "hk_id_generate s3 = (i, s1)" and len: "overwrite = 0 \<longrightarrow> 4 * length (hk_arm64_emit_branch target dest) = n"
        and res: "res = Inr \<lparr>rp_address = target, rp_replacement = replacement, rp_trampoline = page,
          rp_trampoline_size = HK_RELOC_PAGE_BYTES, rp_mapping = mp, rp_original_entry = page + 16, rp_original = buf16 original,
          rp_patch = buf16 (if overwrite \<noteq> 0 then [] else bytes_of (hk_arm64_emit_branch target dest)),
          rp_patch_size = n, rp_displaced_count = n div 4,
          rp_atomic_entry_patch = atomic, rp_captured = True, rp_activated = False\<rparr>"
      note m = more_fields [OF hk_id_generate_frame(2) [OF g]]
      have k: "view_kept s2 s1" using sealed(3) by (simp add: view_kept_def m(1))
      have code: "code_at (vm_view s1) page thunk" "code_at (vm_view s1) (page + 16) body"
        using two(4,5) view_kept_code [OF k] by (simp_all add: sy)
      have out: "\<forall>x. \<not> page_range page x \<longrightarrow> vm_view s x \<noteq> None \<longrightarrow> vm_view s1 x = vm_view s x"
        using two(6) k by (auto simp: sy view_kept_def)
      have n: "n = 4 * (n div 4)" "0 < n div 4" "n div 4 \<le> 4" using sz(1) stores(2,3) by auto
      have "built s target replacement overwrite page plan s1" if "res = Inr plan" for plan
        unfolding built_def
      proof (rule conjI [OF _ out], intro exI conjI)
        show "rd_bytes (vm_view s) target 0 (rp_patch_size plan) = Some original" using that res stores(1) by auto
        show "overwrite = 0 \<longrightarrow> rp_patch plan = buf16 (bytes_of (hk_arm64_emit_branch target dest)) \<and>
           4 * length (hk_arm64_emit_branch target dest) = rp_patch_size plan \<and>
           code_at (vm_view s1) page (hk_arm64_emit_branch page replacement)"
          using that res len code(1) stores(5) by auto
        show "code_at (vm_view s1) (page + 16) (body_words target (rp_patch_size plan) (page + 16) (words_of original))"
          using that res code(2) stores(6) by auto
      qed (use that res ep n stores(4) in auto)
      then show ?thesis using frame_law [OF m(2)] sealed by auto
    qed
  qed
qed

lemma release_and_fail:
  assumes "ok s" "rs_alloc S HK_RELOC_PAGE_BYTES target s = ((page, mp), s1)" "ok s2" "live s2 = live s1" "rs_free S \<noteq> None"
  shows "ok (reloc_release_and_fail S page s2) \<and> live (reloc_release_and_fail S page s2) = live s"
proof (cases "page = 0")
  case True
  then show ?thesis using alloc_none [OF assms(1), of _ _ mp s1] assms by (auto simp: reloc_release_and_fail_def)
next
  case False
  then show ?thesis using release_law [OF assms(1,2) False assms(3,4)] assms(5) by (auto simp: reloc_release_and_fail_def)
qed

lemma fresh_page:
  assumes "ok s" "rs_alloc S HK_RELOC_PAGE_BYTES target s = ((page, mp), s1)" "page \<noteq> 0"
  shows "ok s1" "view_kept s s1" "\<exists>r. r \<notin> live s \<and> live s1 = insert r (live s)" "4 dvd unat page"
    "k < 128 \<Longrightarrow> vm_view s1 (page + of_nat k) \<noteq> None \<and> vm_writable s1 (page + of_nat k)"
proof -
  have "HK_RELOC_PAGE_BYTES < 2 ^ 64" by (simp add: reloc_sizes)
  from alloc_some [OF assms(1) this assms(2,3)]
  show "ok s1" "view_kept s s1" "\<exists>r. r \<notin> live s \<and> live s1 = insert r (live s)" "4 dvd unat page"
    "k < 128 \<Longrightarrow> vm_view s1 (page + of_nat k) \<noteq> None \<and> vm_writable s1 (page + of_nat k)"
    by (auto simp: reloc_sizes)
qed

lemma prepare_law:
  assumes "ok s" "reloc_prepare S target replacement overwrite expected s = Some (res, s1)" "rs_free S \<noteq> None"
  shows "case res of Inl status \<Rightarrow> ok s1 \<and> live s1 = live s
     | Inr plan \<Rightarrow> ok s1 \<and> target \<noteq> 0 \<and> target AND 3 = 0 \<and> (overwrite = 0 \<longrightarrow> replacement \<noteq> 0) \<and>
        (\<exists>page mp s0. page \<noteq> 0 \<and> rs_alloc S HK_RELOC_PAGE_BYTES target s = ((page, mp), s0) \<and> ok s0 \<and> live s1 = live s0 \<and>
           built s0 target replacement overwrite page plan s1)"
proof (cases "target = 0 \<or> (overwrite = 0 \<and> replacement = 0) \<or> (overwrite \<noteq> 0 \<and> (overwrite > HK_RELOC_MAX_PATCH \<or> overwrite mod 4 \<noteq> 0)) \<or>
    (case expected of None \<Rightarrow> False | Some e \<Rightarrow> e = [] \<or> length e > HK_RELOC_MAX_PATCH) \<or> target AND 3 \<noteq> 0")
  case True
  then have "\<exists>st. (res, s1) = (Inl st, s)"
    using assms(2) unfolding reloc_prepare_def by (auto split: if_splits option.splits)
  then show ?thesis using assms(1) by auto
next
  case False
  obtain page mp s0 where al: "rs_alloc S HK_RELOC_PAGE_BYTES target s = ((page, mp), s0)" by (metis surj_pair)
  have ov: "overwrite mod 4 = 0" using False by (cases "overwrite = 0") auto
  have run: "(if \<not> page_usable page mp then Some (Inl HK_RELOC_NO_TRAMPOLINE, reloc_release_and_fail S page s0)
      else Option.bind (reloc_build S target replacement overwrite expected page mp s0)
        (\<lambda>(result, s2). case result of Inl status \<Rightarrow> Some (Inl status, reloc_release_and_fail S page s2)
           | Inr plan \<Rightarrow> Some (Inr plan, s2))) = Some (res, s1)"
    using assms(2) False unfolding reloc_prepare_def Let_def al prod.case by (auto split: if_splits option.splits)
  have ok0: "ok s0" using alloc_none [OF assms(1), of _ _ mp s0] fresh_page(1) [OF assms(1) al] al by (cases "page = 0") auto
  show ?thesis
  proof (cases "page_usable page mp")
    case False
    then have "res = Inl HK_RELOC_NO_TRAMPOLINE" "s1 = reloc_release_and_fail S page s0" using run by auto
    then show ?thesis using release_and_fail [OF assms(1) al ok0 refl assms(3)] by simp
  next
    case True
    then have p0: "page \<noteq> 0" by (simp add: page_usable_def)
    obtain r2 s2 where b: "reloc_build S target replacement overwrite expected page mp s0 = Some (r2, s2)"
        and e: "(res, s1) = (case r2 of Inl status \<Rightarrow> (Inl status, reloc_release_and_fail S page s2) | Inr plan \<Rightarrow> (Inr plan, s2))"
      using run True by (auto split: bind_splits sum.splits)
    note law = build_law [OF ok0 fresh_page(5) [OF assms(1) al p0] b ov]
    show ?thesis
    proof (cases r2)
      case (Inl status)
      then show ?thesis using e law release_and_fail [OF assms(1) al _ _ assms(3), of s2] by simp
    next
      case (Inr plan)
      have "built s0 target replacement overwrite page plan s2" using law Inr by blast
      then have "\<exists>page mp s0. page \<noteq> 0 \<and> rs_alloc S HK_RELOC_PAGE_BYTES target s = ((page, mp), s0) \<and> ok s0 \<and> live s2 = live s0 \<and>
           built s0 target replacement overwrite page plan s2"
        using p0 al ok0 law by blast
      then show ?thesis using e Inr law False by auto
    qed
  qed
qed

lemma commit_law:
  assumes "ok s2" "hk_reloc_commit callable S plan s2 = Some ((m, arts, plan2), s3)"
    and plan: "rp_captured plan" "\<not> rp_activated plan" "rp_address plan \<noteq> 0" "0 < rp_patch_size plan" "rp_patch_size plan \<le> 16"
  shows "m = HK_MUTATION_COMPLETE \<Longrightarrow> ok s3 \<and> live s3 = live s2 \<and>
      vm_view s3 = patched (vm_view s2) (rp_address plan) (take (rp_patch_size plan) (rp_patch plan)) \<and>
      rd_bytes (vm_view s2) (rp_address plan) 0 (rp_patch_size plan) = Some (take (rp_patch_size plan) (rp_original plan))"
    and "m = HK_MUTATION_NONE \<Longrightarrow> rs_free S \<noteq> None \<Longrightarrow> rp_trampoline plan \<noteq> 0 \<Longrightarrow>
      arts = [] \<and> (\<exists>s'. ok s' \<and> live s' = live s2 \<and> vm_view s' = vm_view s2 \<and>
        s3 = the (rs_free S) (rp_trampoline plan) (rp_trampoline_size plan) s')"
proof -
  have g: "\<not> (\<not> rp_captured plan \<or> rp_address plan = 0 \<or> rp_patch_size plan = 0 \<or> rp_patch_size plan > HK_RELOC_MAX_PATCH)"
    using plan by (simp add: reloc_sizes)
  note run = assms(2) [unfolded hk_reloc_commit_def if_not_P [OF plan(2)] if_not_P [OF g]]
  obtain current where cur: "rd_bytes (vm_view s2) (rp_address plan) 0 (rp_patch_size plan) = Some current"
    using run by (auto split: bind_splits)
  obtain mu s1 where w: "(if current = take (rp_patch_size plan) (rp_original plan)
      then rs_write S (rp_address plan) (take (rp_patch_size plan) (rp_patch plan)) s2 else (HK_MUTATION_NONE, s2)) = (mu, s1)" by fastforce
  note run2 = run [unfolded cur bind.simps w Let_def prod.case]
  have wl: "mu = HK_MUTATION_NONE \<and> ok s1 \<and> live s1 = live s2 \<and> vm_view s1 = vm_view s2 \<or>
      mu = HK_MUTATION_COMPLETE \<and> ok s1 \<and> live s1 = live s2 \<and> current = take (rp_patch_size plan) (rp_original plan) \<and>
        vm_view s1 = patched (vm_view s2) (rp_address plan) (take (rp_patch_size plan) (rp_patch plan)) \<or>
      mu = HK_MUTATION_PARTIAL \<or> mu = HK_MUTATION_UNKNOWN"
  proof (cases "current = take (rp_patch_size plan) (rp_original plan)")
    case True
    have "length (take (rp_patch_size plan) (rp_patch plan)) < 2 ^ 64" using plan(5) by simp
    from write_law [OF assms(1) this] w True show ?thesis by auto
  next
    case False
    then show ?thesis using w assms(1) by auto
  qed
  show "ok s3 \<and> live s3 = live s2 \<and> vm_view s3 = patched (vm_view s2) (rp_address plan) (take (rp_patch_size plan) (rp_patch plan)) \<and>
      rd_bytes (vm_view s2) (rp_address plan) 0 (rp_patch_size plan) = Some (take (rp_patch_size plan) (rp_original plan))"
    if "m = HK_MUTATION_COMPLETE"
    using run2 wl that cur by (auto split: if_splits)
  show "arts = [] \<and> (\<exists>s'. ok s' \<and> live s' = live s2 \<and> vm_view s' = vm_view s2 \<and>
        s3 = the (rs_free S) (rp_trampoline plan) (rp_trampoline_size plan) s')"
    if "m = HK_MUTATION_NONE" "rs_free S \<noteq> None" "rp_trampoline plan \<noteq> 0"
    using run2 wl that by (auto split: if_splits)
qed

text \<open>A page is given back by a failed preparation, and by a commit that did nothing.\<close>

lemma no_leak:
  assumes "ok s" "reloc_prepare S target replacement overwrite expected s = Some (res, s1)" "rs_free S \<noteq> None"
  shows "case res of Inl status \<Rightarrow> ok s1 \<and> live s1 = live s
    | Inr plan \<Rightarrow> ok s1 \<and> (\<exists>r. r \<notin> live s \<and> live s1 = insert r (live s)) \<and>
        (\<forall>s2 arts plan2 s3. ok s2 \<longrightarrow> live s2 = live s1 \<longrightarrow>
           hk_reloc_commit callable S plan s2 = Some ((HK_MUTATION_NONE, arts, plan2), s3) \<longrightarrow> ok s3 \<and> live s3 = live s \<and> arts = [])"
proof (cases res)
  case (Inl status)
  then show ?thesis using prepare_law [OF assms] by simp
next
  case (Inr plan)
  then obtain page mp s0 where p: "ok s1" "target \<noteq> 0" "page \<noteq> 0" "rs_alloc S HK_RELOC_PAGE_BYTES target s = ((page, mp), s0)"
      "live s1 = live s0" and b: "built s0 target replacement overwrite page plan s1"
    using prepare_law [OF assms] by auto
  note d = builtD [OF b]
  have "ok s3 \<and> live s3 = live s \<and> arts = []"
    if "ok s2" "live s2 = live s1" "hk_reloc_commit callable S plan s2 = Some ((HK_MUTATION_NONE, arts, plan2), s3)" for s2 arts plan2 s3
  proof -
    have "rp_address plan \<noteq> 0" "rp_trampoline plan \<noteq> 0" using d p by simp_all
    from commit_law(2) [OF that(1,3) d(1,2) this(1) d(4,5) refl assms(3) this(2)] obtain s' where
      a: "arts = []" "ok s'" "live s' = live s2" "s3 = the (rs_free S) page (rp_trampoline_size plan) s'" using d by auto
    obtain f where f: "rs_free S = Some f" using assms(3) by blast
    have "live s' = live s0" using a(3) that(2) p(5) by simp
    from release_law [OF assms(1) p(4,3) a(2) this f] show ?thesis using a(1,4) f by simp
  qed
  moreover have "\<exists>r. r \<notin> live s \<and> live s1 = insert r (live s)" using fresh_page(3) [OF assms(1) p(4,3)] p(5) by simp
  ultimately show ?thesis unfolding Inr sum.case using p(1) by blast
qed

text \<open>The displaced instructions, as the plan holds them.\<close>

end

definition displaced :: "hk_reloc_plan \<Rightarrow> u32 list" where
  "displaced plan = words_of (take (rp_patch_size plan) (rp_original plan))"

text \<open>The entry window and the page do not overlap.\<close>

definition apart :: "u64 \<Rightarrow> u64 \<Rightarrow> bool" where
  "apart target page \<longleftrightarrow> (\<forall>i < 16. \<not> page_range page (target + of_nat i))"

lemma apart_page:
  assumes "apart target page" "page_range page x" "n \<le> 16"
  shows "n \<le> unat (x - target)"
proof (rule ccontr)
  assume "\<not> n \<le> unat (x - target)"
  then have "unat (x - target) < 16" using assms(3) by simp
  then have "\<not> page_range page (target + of_nat (unat (x - target)))" using assms(1) by (simp add: apart_def del: of_nat_unat)
  then show False using assms(2) by simp
qed

lemma aligned_diff:
  fixes a b :: u64
  assumes "take_bit 2 a = 0" "take_bit 2 b = 0"
  shows "take_bit 2 (a - b) = 0"
  using assms dvd_diff [of 4 a b] by (simp add: take_bit_eq_0_iff)

lemma aligned_and3: "a AND 3 = 0 \<longleftrightarrow> take_bit 2 a = 0" for a :: u64
  by (simp add: take_bit_eq_mask mask_eq_exp_minus_1)

lemma aligned_dvd: "4 dvd unat a \<Longrightarrow> take_bit 2 a = 0" for a :: u64
proof -
  assume "4 dvd unat a"
  then obtain k where "unat a = 4 * k" by (auto elim!: dvdE)
  moreover have "of_nat (unat a) = a" by simp
  ultimately have "a = 4 * of_nat k" by (metis of_nat_mult of_nat_numeral)
  then show ?thesis by (simp add: take_bit_eq_0_iff)
qed

lemma take_buf16: "length bs = n \<Longrightarrow> take n (buf16 bs) = bs"
  by (simp add: buf16_def)

text \<open>What memory holds once the entry is patched.\<close>

definition armed :: "u64 \<Rightarrow> u64 \<Rightarrow> hk_reloc_plan \<Rightarrow> memory \<Rightarrow> bool" where
  "armed target replacement plan m \<longleftrightarrow> (\<exists>dest. entry_patch target replacement 0 (rp_trampoline plan) =
       (rp_patch_size plan, dest, rp_atomic_entry_patch plan) \<and>
     code_at m target (hk_arm64_emit_branch target dest)) \<and>
   code_at m (rp_trampoline plan) (hk_arm64_emit_branch (rp_trampoline plan) replacement) \<and>
   code_at m (rp_original_entry plan) (body_words target (rp_patch_size plan) (rp_original_entry plan) (displaced plan)) \<and>
   hk_arm64_relocate (displaced plan) target HK_RELOC_BODY_BYTES \<noteq> []"

lemma armed_after:
  assumes b: "built s0 target replacement 0 page plan s1" and k: "view_kept s1 s2" and ap: "apart target page"
    and rd: "rd_bytes (vm_view s2) target 0 (rp_patch_size plan) = Some original"
    and v: "vm_view s3 = patched (vm_view s2) target (take (rp_patch_size plan) (rp_patch plan))"
  shows "armed target replacement plan (vm_view s3)"
proof -
  note d = builtD [OF b]
  obtain orig dest where e: "rp_original_entry plan = page + 16"
      "entry_patch target replacement 0 page = (rp_patch_size plan, dest, rp_atomic_entry_patch plan)"
      "rd_bytes (vm_view s0) target 0 (rp_patch_size plan) = Some orig" "rp_original plan = buf16 orig"
      "hk_arm64_relocate (words_of orig) target HK_RELOC_BODY_BYTES \<noteq> []"
      "rp_patch plan = buf16 (bytes_of (hk_arm64_emit_branch target dest))"
      "4 * length (hk_arm64_emit_branch target dest) = rp_patch_size plan"
      "code_at (vm_view s1) page (hk_arm64_emit_branch page replacement)"
      "code_at (vm_view s1) (page + 16) (body_words target (rp_patch_size plan) (page + 16) (words_of orig))"
    using b unfolding built_def by blast
  define br where "br = hk_arm64_emit_branch target dest"
  have pt: "take (rp_patch_size plan) (rp_patch plan) = bytes_of br"
    unfolding e(6) br_def by (rule take_buf16) (simp add: bytes_of_length e(7))
  have "length orig = rp_patch_size plan" using e(3) by (simp add: rd_bytes_iff)
  then have dis: "displaced plan = words_of orig" by (simp add: displaced_def e(4) take_buf16)
  have len: "length (bytes_of br) = rp_patch_size plan" by (simp add: bytes_of_length br_def e(7))
  have c1: "code_at (vm_view s3) target br"
    unfolding v pt by (rule patched_code) (use rd e(7) d(5) in \<open>auto simp: rd_bytes_iff br_def\<close>)
  have far: "length (bytes_of br) \<le> unat (x - target)" if "page_range page x" for x
    unfolding len by (rule apart_page [OF ap that d(5)])
  have c2: "code_at (vm_view s3) page (hk_arm64_emit_branch page replacement)"
    unfolding v pt
  proof (rule patched_code_elsewhere [OF view_kept_code [OF k e(8)] far])
    fix i assume "i < 4 * length (hk_arm64_emit_branch page replacement)"
    then have "i < 128" using branch_bytes(1) [of page replacement] by linarith
    then show "page_range page (page + of_nat i)" by (rule in_page)
  qed
  define body where "body = body_words target (rp_patch_size plan) (page + 16) (words_of orig)"
  have "length (words_of orig) \<le> 4" using read_words(2) [of "vm_view s0" target "rp_patch_size plan div 4" orig] e(3) d(5,7) by auto
  then have bl: "4 * length body \<le> 112"
    using relocated_fits [of "words_of orig" target] branch_bytes(1)
      [of "page + 16 + of_nat (4 * length (hk_arm64_relocate (words_of orig) target HK_RELOC_BODY_BYTES))" "target + of_nat (rp_patch_size plan)"]
    by (simp add: body_def body_words_def Let_def)
  have c3: "code_at (vm_view s3) (page + 16) body"
    unfolding v pt
  proof (rule patched_code_elsewhere [OF view_kept_code [OF k e(9) [folded body_def]] far])
    fix i assume "i < 4 * length body"
    then have "16 + i < 128" using bl by linarith
    from in_page [OF this, of page] show "page_range page (page + 16 + of_nat i)" by (simp add: add.assoc)
  qed
  show ?thesis
    unfolding armed_def dis e(1) d(6)
    using c1 c2 c3 e(2,5) unfolding br_def body_def by blast
qed

lemma armed_dispatch:
  assumes a: "armed target replacement plan (cmem c)" and al: "take_bit 2 target = 0" "take_bit 2 replacement = 0"
    "take_bit 2 (rp_trampoline plan) = 0"
  shows "\<exists>k > 0. \<exists>c2. a64_run other k (target, c) = Some (replacement, c2) \<and> eq_scratch c c2"
proof -
  obtain dest where e: "entry_patch target replacement 0 (rp_trampoline plan) = (rp_patch_size plan, dest, rp_atomic_entry_patch plan)"
      "code_at (cmem c) target (hk_arm64_emit_branch target dest)"
    and th: "code_at (cmem c) (rp_trampoline plan) (hk_arm64_emit_branch (rp_trampoline plan) replacement)"
    using a unfolding armed_def by blast
  have "dest = replacement \<or> dest = rp_trampoline plan" using e(1) by (auto simp: entry_patch_def Let_def split: if_splits)
  then show ?thesis
  proof
    assume "dest = replacement"
    then show ?thesis using emit_branch_run [OF e(2)] aligned_diff [OF al(2,1)] by simp
  next
    assume d: "dest = rp_trampoline plan"
    have "take_bit 2 (dest - target) = 0" using aligned_diff [OF al(3,1)] d by simp
    from emit_branch_run [OF e(2) this, of other] obtain k c1 where r1: "k > 0" "a64_run other k (target, c) = Some (dest, c1)" "eq_scratch c c1" by blast
    have "code_at (cmem c1) (rp_trampoline plan) (hk_arm64_emit_branch (rp_trampoline plan) replacement)"
      using th r1(3) by (simp add: eq_scratch_def)
    from emit_branch_run [OF this aligned_diff [OF al(2,3)], of other] obtain k2 c2 where
      r2: "a64_run other k2 (rp_trampoline plan, c1) = Some (replacement, c2)" "eq_scratch c1 c2" by blast
    have "a64_run other (k + k2) (target, c) = Some (replacement, c2)" unfolding a64_run_add r1(2) bind.simps d r2(1) ..
    then show ?thesis using r1(1,3) r2(2) eq_scratch_trans by (intro exI [of _ "k + k2"]) auto
  qed
qed

context code_seams begin

lemma armed_commit:
  assumes "ok s" "hk_reloc_prepare S target replacement expected s = Some (Inr plan, s1)" "rs_free S \<noteq> None"
    and "ok s2" "view_kept s1 s2" "apart target (rp_trampoline plan)"
    and "hk_reloc_commit callable S plan s2 = Some ((HK_MUTATION_COMPLETE, arts, plan2), s3)"
  shows "armed target replacement plan (vm_view s3)" "take_bit 2 target = 0" "take_bit 2 (rp_trampoline plan) = 0"
    "rp_original_entry plan = rp_trampoline plan + 16" "4 * length (displaced plan) = rp_patch_size plan"
    "rp_patch_size plan \<le> 16"
    "code_at (vm_view s2) target (displaced plan)"
    "rp_patch_size plan \<le> unat (x - target) \<Longrightarrow> vm_view s3 x = vm_view s2 x"
proof -
  obtain page mp s0 where p: "target \<noteq> 0" "target AND 3 = 0" "page \<noteq> 0" "rs_alloc S HK_RELOC_PAGE_BYTES target s = ((page, mp), s0)"
      and b: "built s0 target replacement 0 page plan s1"
    using prepare_law [OF assms(1) _ assms(3), of target replacement 0 expected "Inr plan" s1] assms(2)
    by (auto simp: hk_reloc_prepare_def)
  note d = builtD [OF b]
  have nz: "rp_address plan \<noteq> 0" using d p by simp
  have v: "vm_view s3 = patched (vm_view s2) target (take (rp_patch_size plan) (rp_patch plan))"
    and rd: "rd_bytes (vm_view s2) target 0 (rp_patch_size plan) = Some (take (rp_patch_size plan) (rp_original plan))"
    using commit_law(1) [OF assms(4,7) d(1,2) nz d(4,5) refl] d(3) by simp_all
  show "armed target replacement plan (vm_view s3)"
    by (rule armed_after [OF b assms(5) _ rd v]) (use assms(6) d(6) in simp)
  show "take_bit 2 target = 0" using p(2) by (simp add: aligned_and3)
  show "take_bit 2 (rp_trampoline plan) = 0" using fresh_page(4) [OF assms(1) p(4,3)] d(6) by (simp add: aligned_dvd)
  show "rp_original_entry plan = rp_trampoline plan + 16" using b d(6) by (auto simp: built_def)
  show "rp_patch_size plan \<le> 16" by (rule d(5))
  obtain n where n: "rp_patch_size plan = 4 * n" using d(7) by (auto elim!: dvdE)
  note w = read_words [OF rd [unfolded n], folded n displaced_def]
  show "4 * length (displaced plan) = rp_patch_size plan" using w(2) n by simp
  show "code_at (vm_view s2) target (displaced plan)" by (rule w(1))
  show "vm_view s3 x = vm_view s2 x" if "rp_patch_size plan \<le> unat (x - target)"
    using that by (simp add: v patched_outside)
qed

end

end
