(* ===== verification/HK_Reloc_Run.thy ===== *)
theory HK_Reloc_Run
  imports HK_Reloc_Props
begin

text \<open>
  The displaced instructions before and after the patch: a run at the target in the memory that held
  them, and a run of what the relocator wrote in the memory where a branch stands over them. The two are
  related as long as no instruction looks at the bytes the branch replaced, uses X16 or X17 as an input,
  or stores into the window or the page; \<open>clear_run\<close> says so along the run.
\<close>

section \<open>States that differ by the patch\<close>

text \<open>\<open>x\<close> is one of the \<open>n\<close> bytes at \<open>t\<close>.\<close>

abbreviation in_entry :: "u64 \<Rightarrow> nat \<Rightarrow> u64 \<Rightarrow> bool" where
  "in_entry t n x \<equiv> unat (x - t) < n"

text \<open>Equal but for X16, X17 and the bytes of the window.\<close>

definition eq_outside :: "u64 \<Rightarrow> nat \<Rightarrow> cpu \<Rightarrow> cpu \<Rightarrow> bool" where
  "eq_outside t n c d \<longleftrightarrow> (\<forall>r. r \<noteq> 16 \<longrightarrow> r \<noteq> 17 \<longrightarrow> cx c r = cx d r) \<and> csp c = csp d \<and> cv c = cv d \<and>
     cflags c = cflags d \<and> (\<forall>x. \<not> in_entry t n x \<longrightarrow> cmem c x = cmem d x)"

lemma eq_outside_scratch: "eq_outside t n c d \<Longrightarrow> eq_scratch d e \<Longrightarrow> eq_outside t n c e"
  by (simp add: eq_outside_def eq_scratch_def)

lemma eq_outside_get: "eq_outside t n c d \<Longrightarrow> r \<noteq> 16 \<Longrightarrow> r \<noteq> 17 \<Longrightarrow> get_x r c = get_x r d \<and> base_reg r c = base_reg r d"
  by (simp add: eq_outside_def get_x_def base_reg_def)

lemma eq_outside_set: "eq_outside t n c d \<Longrightarrow> eq_outside t n (set_x r v c) (set_x r v d)"
  by (simp add: eq_outside_def set_x_def)

lemma eq_outside_setv: "eq_outside t n c d \<Longrightarrow> eq_outside t n (set_v r v c) (set_v r v d)"
  by (simp add: eq_outside_def set_v_def)

lemma cmem_set_v [simp]: "cmem (set_v r v c) = cmem c"
  by (simp add: set_v_def)

text \<open>A load of \<open>k\<close> at \<open>a\<close> reads no byte of the window.\<close>

definition misses :: "u64 \<Rightarrow> nat \<Rightarrow> u64 \<Rightarrow> width \<Rightarrow> bool" where
  "misses t n a k \<longleftrightarrow> list_all (\<lambda>i. \<not> in_entry t n (a + of_nat i)) [0..<unat (width_bytes k)]"

lemma rd32_same:
  assumes "\<And>k. k < 4 \<Longrightarrow> m (a + of_nat (i + k)) = m1 (a + of_nat (i + k))"
  shows "rd32 m a i = rd32 m1 a i"
  using assms [of 0] assms [of 1] assms [of 2] assms [of 3] by (simp add: rd32_def rd8_def)

lemma misses_load:
  assumes "misses t n a k" "eq_outside t n c d" "load k rt a c = Some c1"
  shows "\<exists>d1. load k rt a d = Some d1 \<and> eq_outside t n c1 d1 \<and> cmem c1 = cmem c \<and> cmem d1 = cmem d"
proof -
  have m: "cmem c (a + of_nat i) = cmem d (a + of_nat i)" if "i < unat (width_bytes k)" for i
    using that assms(1,2) by (simp add: misses_def list_all_iff eq_outside_def)
  have r: "rd32 (cmem c) a i = rd32 (cmem d) a i" if "i + 4 \<le> unat (width_bytes k)" for i
    by (rule rd32_same, rule m) (use that in simp)
  have q: "rd64 (cmem c) a i = rd64 (cmem d) a i" if "i + 8 \<le> unat (width_bytes k)" for i
    using r [of i] r [of "i + 4"] that by (simp add: rd64_def)
  show ?thesis
    using assms(2,3) r [of 0] q [of 0] q [of 8]
    by (cases k) (auto split: option.splits intro: eq_outside_set eq_outside_setv)
qed

section \<open>Instructions that do not notice the patch\<close>

definition keeps_clear :: "others \<Rightarrow> u64 \<Rightarrow> nat \<Rightarrow> u64 \<Rightarrow> a64_insn \<Rightarrow> u64 \<Rightarrow> cpu \<Rightarrow> bool" where
  "keeps_clear other t n page i pc c = (case i of
     Bl off \<Rightarrow> False | Blr rn \<Rightarrow> False
   | Cb sf nz rt off \<Rightarrow> rt \<noteq> 16 \<and> rt \<noteq> 17 | Tb b nz rt off \<Rightarrow> rt \<noteq> 16 \<and> rt \<noteq> 17 | Br rn \<Rightarrow> rn \<noteq> 16 \<and> rn \<noteq> 17
   | LdrLit k rt off \<Rightarrow> misses t n (pc + off) k
   | Ldr k rt rn off \<Rightarrow> rn \<noteq> 16 \<and> rn \<noteq> 17 \<and> misses t n (base_reg rn c + off) k
   | Other w \<Rightarrow> (\<forall>c1. other w c = Some c1 \<longrightarrow>
        (\<forall>x. in_entry t n x \<or> page_range page x \<longrightarrow> cmem c1 x = cmem c x) \<and>
        (\<forall>d. eq_outside t n c d \<longrightarrow> (\<exists>d1. other w d = Some d1 \<and> eq_outside t n c1 d1)))
   | _ \<Rightarrow> True)"

fun clear_run :: "others \<Rightarrow> u64 \<Rightarrow> nat \<Rightarrow> u64 \<Rightarrow> u32 list \<Rightarrow> u64 \<Rightarrow> cpu \<Rightarrow> bool" where
  "clear_run other t n page [] pc c = True"
| "clear_run other t n page (w # ws) pc c \<longleftrightarrow> keeps_clear other t n page (a64_decode w) pc c \<and>
     (case a64_exec other (a64_decode w) pc c of
        Some (Next, c1) \<Rightarrow> clear_run other t n page ws (pc + 4) c1 | _ \<Rightarrow> True)"

lemma keeps_clear_step:
  assumes k: "keeps_clear other t n page i pc c" and e: "a64_exec other i pc c = Some (fl, c1)"
    and r: "eq_outside t n c d" and far: "\<And>x. page_range page x \<Longrightarrow> \<not> in_entry t n x"
  shows "\<exists>d1. a64_exec other i pc d = Some (fl, d1) \<and> eq_outside t n c1 d1 \<and>
      (\<forall>x. page_range page x \<longrightarrow> cmem d1 x = cmem d x)"
    and "\<forall>x. in_entry t n x \<longrightarrow> cmem c1 x = cmem c x" "\<forall>a. fl \<noteq> Call a"
proof -
  have f: "cflags d = cflags c" using r by (simp add: eq_outside_def)
  have "(\<exists>d1. a64_exec other i pc d = Some (fl, d1) \<and> eq_outside t n c1 d1 \<and>
      (\<forall>x. page_range page x \<longrightarrow> cmem d1 x = cmem d x)) \<and> (\<forall>x. in_entry t n x \<longrightarrow> cmem c1 x = cmem c x) \<and> (\<forall>a. fl \<noteq> Call a)"
  proof (cases i)
    case (Cb sf nz rt off)
    then have "get_x rt d = get_x rt c" using k eq_outside_get [OF r] by (simp add: keeps_clear_def)
    then show ?thesis using e r Cb by (auto simp: Let_def split: if_splits)
  next
    case (Tb b nz rt off)
    then have "get_x rt d = get_x rt c" using k eq_outside_get [OF r] by (simp add: keeps_clear_def)
    then show ?thesis using e r Tb by (auto split: if_splits)
  next
    case (Br rn)
    then have "get_x rn d = get_x rn c" using k eq_outside_get [OF r] by (simp add: keeps_clear_def)
    then show ?thesis using e r Br by auto
  next
    case (LdrLit wd rt off)
    then have "misses t n (pc + off) wd" "load wd rt (pc + off) c = Some c1" "fl = Next" using k e by (auto simp: keeps_clear_def)
    then show ?thesis using misses_load [OF _ r, of "pc + off" wd rt c1] LdrLit by auto
  next
    case (Ldr wd rt rn off)
    then have m: "misses t n (base_reg rn c + off) wd" "load wd rt (base_reg rn c + off) c = Some c1" "fl = Next"
      and b: "base_reg rn d = base_reg rn c" using k e eq_outside_get [OF r] by (auto simp: keeps_clear_def)
    from misses_load [OF m(1) r m(2)] obtain d1 where "load wd rt (base_reg rn c + off) d = Some d1"
      "eq_outside t n c1 d1" "cmem c1 = cmem c" "cmem d1 = cmem d" by blast
    then show ?thesis using Ldr b m(3) by auto
  next
    case (Other w)
    then have o: "other w c = Some c1" "fl = Next" using e by auto
    then have keep: "\<forall>x. in_entry t n x \<or> page_range page x \<longrightarrow> cmem c1 x = cmem c x"
      and "\<forall>d. eq_outside t n c d \<longrightarrow> (\<exists>d1. other w d = Some d1 \<and> eq_outside t n c1 d1)"
      using k Other by (auto simp: keeps_clear_def)
    then obtain d1 where d1: "other w d = Some d1" "eq_outside t n c1 d1" using r by blast
    have "cmem d1 x = cmem d x" if "page_range page x" for x
      using far [OF that] d1(2) r keep that unfolding eq_outside_def by metis
    then show ?thesis using d1 o keep Other by auto
  qed (use k e r f in \<open>auto simp: keeps_clear_def intro: eq_outside_set split: if_splits\<close>)
  then show "\<exists>d1. a64_exec other i pc d = Some (fl, d1) \<and> eq_outside t n c1 d1 \<and>
      (\<forall>x. page_range page x \<longrightarrow> cmem d1 x = cmem d x)"
    "\<forall>x. in_entry t n x \<longrightarrow> cmem c1 x = cmem c x" "\<forall>a. fl \<noteq> Call a" by blast+
qed

section \<open>The run before the patch\<close>

text \<open>The displaced words in a row are what a processor does that enters the target before the patch.\<close>

lemma straight_is_run:
  assumes "straight other ws pc c = Some (fl, c1)" "clear_run other t n page ws pc c" "code_at (cmem c) pc ws"
    and "\<And>i. i < 4 * length ws \<Longrightarrow> in_entry t n (pc + of_nat i)"
    and far: "\<And>x. page_range page x \<Longrightarrow> \<not> in_entry t n x"
  shows "\<exists>k. a64_run other k (pc, c) = Some (case fl of Jump a \<Rightarrow> a | _ \<Rightarrow> pc + of_nat (4 * length ws), c1)"
  using assms(1-4)
proof (induction ws arbitrary: pc c)
  case Nil
  then show ?case by (intro exI [of _ 0]) auto
next
  case (Cons w ws)
  obtain f2 c2 where e: "a64_exec other (a64_decode w) pc c = Some (f2, c2)" using Cons.prems(1) by (auto split: option.splits)
  have kc: "keeps_clear other t n page (a64_decode w) pc c" using Cons.prems(2) by simp
  have self: "eq_outside t n c c" by (simp add: eq_outside_def)
  note s = keeps_clear_step [OF kc e self far]
  have rd: "rd32 (cmem c) pc 0 = Some w" "code_at (cmem c) (pc + 4) ws" using Cons.prems(3) by (simp_all add: code_at_Cons)
  note st = step_at [OF rd(1) refl, of other, unfolded e]
  show ?case
  proof (cases f2)
    case Next
    have r: "straight other ws (pc + 4) c2 = Some (fl, c1)" "clear_run other t n page ws (pc + 4) c2"
      using Cons.prems(1,2) e Next by simp_all
    have w: "in_entry t n (pc + 4 + of_nat i)" if "i < 4 * length ws" for i
      using Cons.prems(4) [of "4 + i"] that by (simp add: add.assoc)
    have "code_at (cmem c2) (pc + 4) ws"
      by (rule code_at_cong [OF _ rd(2)]) (use s(2) w in blast)
    from Cons.IH [OF r this w] obtain k where
      k: "a64_run other k (pc + 4, c2) = Some (case fl of Jump a \<Rightarrow> a | _ \<Rightarrow> pc + 4 + of_nat (4 * length ws), c1)" by blast
    have "a64_run other (Suc k) (pc, c) = Some (case fl of Jump a \<Rightarrow> a | _ \<Rightarrow> pc + of_nat (4 * length (w # ws)), c1)"
      using st Next k by (cases fl) (simp_all add: add_ac)
    then show ?thesis by blast
  next
    case (Jump a)
    then have "fl = Jump a" "c1 = c2" using Cons.prems(1) e by simp_all
    then show ?thesis using st Jump by (intro exI [of _ 1]) simp
  next
    case (Call a)
    then show ?thesis using s(3) by blast
  qed
qed

section \<open>The run after the patch\<close>

lemma clear_window_run:
  assumes "clear_run other t n page ws (s + of_nat (4 * i)) c"
    and "\<forall>j < length ws. block s m (i + j, ws ! j) \<noteq> []"
    and "out = pre @ concat (map (block s m) (zip [i..<i + length ws] ws))"
    and "straight other ws (s + of_nat (4 * i)) c = Some (fl, c1)" "eq_outside t n c d" "code_at (cmem d) dst out"
    and inp: "\<And>i. i < 4 * length out \<Longrightarrow> page_range page (dst + of_nat i)"
    and far: "\<And>x. page_range page x \<Longrightarrow> \<not> in_entry t n x"
  shows "\<exists>k d1. a64_run other k (dst + of_nat (4 * length pre), d) =
      Some (case fl of Jump a \<Rightarrow> a | _ \<Rightarrow> dst + of_nat (4 * length out), d1) \<and> eq_outside t n c1 d1 \<and>
      (\<forall>x. page_range page x \<longrightarrow> cmem d1 x = cmem d x) \<and> (\<forall>a. fl \<noteq> Call a)"
  using assms(1-6)
proof (induction ws arbitrary: i pre c d)
  case Nil
  then show ?case by (intro exI [of _ 0]) auto
next
  case (Cons w ws)
  define pc where "pc = s + of_nat (4 * i)"
  define b where "b = relocate_one w pc s (s + of_nat (4 * m))"
  have z: "zip [i..<i + length (w # ws)] (w # ws) = (i, w) # zip [i + 1..<i + 1 + length ws] ws"
    by (subst upt_conv_Cons) auto
  have out: "out = (pre @ b) @ concat (map (block s m) (zip [i + 1..<i + 1 + length ws] ws))"
    using Cons.prems(3) unfolding z by (simp add: block_def b_def pc_def)
  obtain f2 c2 where e: "a64_exec other (a64_decode w) pc c = Some (f2, c2)"
    using Cons.prems(4) unfolding pc_def by (cases "a64_exec other (a64_decode w) (s + of_nat (4 * i)) c") auto
  have kc: "keeps_clear other t n page (a64_decode w) pc c" using Cons.prems(1) by (simp add: pc_def)
  obtain d2 where d2: "a64_exec other (a64_decode w) pc d = Some (f2, d2)" "eq_outside t n c2 d2"
      "\<forall>x. page_range page x \<longrightarrow> cmem d2 x = cmem d x" and nc: "\<forall>a. f2 \<noteq> Call a"
    using keeps_clear_step(1,3) [OF kc e Cons.prems(5) far] by blast
  define a where "a = dst + of_nat (4 * length pre)"
  have code: "code_at (cmem d) a b"
    using Cons.prems(6) unfolding out code_at_append a_def by simp
  have ne: "b \<noteq> []" using Cons.prems(2) by (auto simp: block_def b_def pc_def dest: spec [of _ 0])
  have p: "performs other b a d f2 d2"
    by (rule relocate_one_performs [OF _ ne code d2(1)]) (simp add: b_def)
  show ?case
  proof (cases "f2 = Next")
    case True
    then obtain k d3 where k: "a64_run other k (a, d) = Some (a + of_nat (4 * length b), d3)" "eq_scratch d2 d3"
      using p by (auto simp: performs_def)
    have m3: "cmem d3 = cmem d2" using k(2) by (simp add: eq_scratch_def)
    have rest: "straight other ws (s + of_nat (4 * (i + 1))) c2 = Some (fl, c1)"
      "clear_run other t n page ws (s + of_nat (4 * (i + 1))) c2"
      using Cons.prems(1,4) e True by (simp_all add: pc_def add_ac)
    have "\<exists>k d1. a64_run other k (dst + of_nat (4 * length (pre @ b)), d3) =
      Some (case fl of Jump a \<Rightarrow> a | _ \<Rightarrow> dst + of_nat (4 * length out), d1) \<and> eq_outside t n c1 d1 \<and>
      (\<forall>x. page_range page x \<longrightarrow> cmem d1 x = cmem d3 x) \<and> (\<forall>a. fl \<noteq> Call a)"
    proof (rule Cons.IH [OF rest(2) _ out rest(1)])
      show "\<forall>j < length ws. block s m (i + 1 + j, ws ! j) \<noteq> []" using Cons.prems(2) by (auto dest: spec [of _ "Suc _"])
      show "eq_outside t n c2 d3" by (rule eq_outside_scratch [OF d2(2) k(2)])
      show "code_at (cmem d3) dst out"
        by (rule code_at_cong [OF _ Cons.prems(6)]) (use d2(3) inp m3 in simp)
    qed
    then obtain k2 d1 where k2: "a64_run other k2 (dst + of_nat (4 * length (pre @ b)), d3) =
      Some (case fl of Jump a \<Rightarrow> a | _ \<Rightarrow> dst + of_nat (4 * length out), d1)" "eq_outside t n c1 d1"
      "\<forall>x. page_range page x \<longrightarrow> cmem d1 x = cmem d3 x" "\<forall>a. fl \<noteq> Call a"
      by blast
    have "a + of_nat (4 * length b) = dst + of_nat (4 * length (pre @ b))" by (simp add: a_def algebra_simps)
    then have "a64_run other (k + k2) (a, d) = Some (case fl of Jump a \<Rightarrow> a | _ \<Rightarrow> dst + of_nat (4 * length out), d1)"
      unfolding a64_run_add k(1) bind.simps using k2(1) by (simp only:)
    moreover have "\<forall>x. page_range page x \<longrightarrow> cmem d1 x = cmem d x" using k2(3) m3 d2(3) by simp
    ultimately show ?thesis using k2(2,4) unfolding a_def by blast
  next
    case False
    then obtain a' where t: "f2 = Jump a'" using nc by (cases f2) auto
    then have "fl = Jump a'" "c1 = c2" using Cons.prems(4) e by (simp_all add: pc_def)
    moreover obtain k d3 where r: "a64_run other k (a, d) = Some (a', d3)" "eq_scratch d2 d3"
      using p t by (auto simp: performs_def)
    moreover have "cmem d3 = cmem d2" using r(2) by (simp add: eq_scratch_def)
    ultimately show ?thesis
      using d2(3) eq_outside_scratch [OF d2(2) r(2)] unfolding a_def by (intro exI [of _ k] exI [of _ d3]) auto
  qed
qed

text \<open>Entering the published original once the entry is patched.\<close>

lemma armed_original:
  assumes a: "armed target replacement plan (cmem d)" and en: "rp_original_entry plan = rp_trampoline plan + 16"
    and al: "take_bit 2 target = 0" "take_bit 2 (rp_trampoline plan) = 0"
    and n: "4 * length (displaced plan) = rp_patch_size plan" "rp_patch_size plan \<le> 16"
    and ap: "apart target (rp_trampoline plan)"
    and clear: "clear_run other target (rp_patch_size plan) (rp_trampoline plan) (displaced plan) target c"
    and st: "straight other (displaced plan) target c = Some (fl, c1)"
    and r: "eq_outside target (rp_patch_size plan) c d"
  shows "\<exists>k d1. a64_run other k (rp_original_entry plan, d) =
     Some (case fl of Jump a \<Rightarrow> a | _ \<Rightarrow> target + of_nat (rp_patch_size plan), d1) \<and>
     eq_outside target (rp_patch_size plan) c1 d1"
proof -
  define page where "page = rp_trampoline plan"
  define out where "out = hk_arm64_relocate (displaced plan) target HK_RELOC_BODY_BYTES"
  define at where "at = page + 16 + of_nat (4 * length out)"
  define bk where "bk = hk_arm64_emit_branch at (target + of_nat (rp_patch_size plan))"
  have "code_at (cmem d) (page + 16) (out @ bk)" and ne: "out \<noteq> []"
    using a by (simp_all add: armed_def en body_words_def Let_def out_def bk_def at_def page_def)
  then have code: "code_at (cmem d) (page + 16) out" "code_at (cmem d) at bk"
    by (simp_all add: code_at_append at_def)
  have fit: "4 * length out \<le> 96" unfolding out_def by (rule relocated_fits) (use n in simp)
  have bl: "4 * length bk \<le> 16" unfolding bk_def by (rule branch_bytes(1))
  have inp: "page_range page (page + 16 + of_nat i)" if "i < 112" for i
    using in_page [of "16 + i" page] that by (simp add: add.assoc)
  have far: "\<not> in_entry target (rp_patch_size plan) x" if "page_range page x" for x
    using apart_page [OF ap that [unfolded page_def] n(2)] by simp
  note rw = relocate_words [OF out_def [symmetric] ne]
  obtain k d1 where k: "a64_run other k (page + 16, d) = Some (case fl of Jump a \<Rightarrow> a | _ \<Rightarrow> page + 16 + of_nat (4 * length out), d1)"
      "eq_outside target (rp_patch_size plan) c1 d1" "\<forall>x. page_range page x \<longrightarrow> cmem d1 x = cmem d x" "\<forall>a. fl \<noteq> Call a"
    using clear_window_run [of other target "rp_patch_size plan" page "displaced plan" target 0 c "length (displaced plan)" out "[]" fl c1 d "page + 16"]
      clear st r code(1) rw inp fit far by (auto simp: page_def)
  show ?thesis
  proof (cases fl)
    case (Jump a)
    then show ?thesis using k(1,2) by (auto simp: en page_def)
  next
    case (Call a)
    then show ?thesis using k(4) by blast
  next
    case Next
    have "page_range page (at + of_nat i)" if "i < 4 * length bk" for i
      using inp [of "4 * length out + i"] that fit bl by (simp add: at_def add.assoc)
    then have c2: "code_at (cmem d1) at bk" using k(3) by (intro code_at_cong [OF _ code(2)]) auto
    have "(4 :: u64) dvd 16" by (rule dvdI [of _ _ 4]) simp
    moreover have "rp_patch_size plan = 4 * length (displaced plan)" using n(1) by simp
    ultimately have "take_bit 2 (target + of_nat (rp_patch_size plan)) = 0" "take_bit 2 at = 0"
      using al by (auto simp: at_def page_def take_bit_eq_0_iff elim!: dvdE intro!: dvd_add)
    then have "take_bit 2 (target + of_nat (rp_patch_size plan) - at) = 0" by (rule aligned_diff)
    from emit_branch_run [OF c2 [unfolded bk_def] this, of other] obtain k2 d3 where
      r2: "a64_run other k2 (at, d1) = Some (target + of_nat (rp_patch_size plan), d3)" "eq_scratch d1 d3" by blast
    have "a64_run other (k + k2) (page + 16, d) = Some (target + of_nat (rp_patch_size plan), d3)"
      unfolding a64_run_add k(1) Next flow.case bind.simps using r2(1) by (simp add: at_def)
    then show ?thesis unfolding en page_def [symmetric] Next flow.case using eq_outside_scratch [OF k(2) r2(2)] by blast
  qed
qed

end
