(* ===== verification/HK_Reloc_Sample.thy ===== *)
theory HK_Reloc_Sample
  imports HK_Reloc_Run
begin

text \<open>
  The relocating engine on a concrete process: the pool of eight pages at \<open>0x100000\<close> with slot 0 free, and a
  function at \<open>0x140000\<close> that starts with \<open>ADR X0, #16\<close>. Here stand the properties of the engine, with
  their instances.
\<close>

section \<open>A process\<close>

definition reloc_vm :: hk_vm where
  "reloc_vm = \<lparr>sys_heap = [], sys_nonce = None, sys_counter = 0, sys_entropy = (0, 0, 0, 0),
     vm_bytes = put_bytes (\<lambda>_. 0) 0x140000 [0x80, 0, 0, 0x10],
     vm_prot = (\<lambda>p. if p = 0x140000 \<or> p \<in> slot_addr \<lparr>sp_base = 0x100000, sp_slot_size = 0x4000, sp_slot_count = 8, sp_used = 0xFE\<rparr> ` {..<8}
       then Some 5 else None),
     vm_regions = (\<lambda>_. Some (0x140000, 0x4000)), vm_calls = [], vm_places = [], vm_memo = None,
     vm_pool = \<lparr>sp_base = 0x100000, sp_slot_size = 0x4000, sp_slot_count = 8, sp_used = 0xFE\<rparr>\<rparr>"

definition opened_vm :: hk_vm where
  "opened_vm = reloc_vm\<lparr>vm_pool := (vm_pool reloc_vm)\<lparr>sp_used := 0xFF\<rparr>, vm_prot := (vm_prot reloc_vm)(0x100000 \<mapsto> 3)\<rparr>"

lemma reloc_vm_ok: "platform_ok 0x100000 reloc_vm"
  by (auto simp: platform_ok_def reloc_vm_def pool_ok_def PAGE_def HK_STATIC_TRAMP_SLOTS_def HK_STATIC_POOL_MAX_SLOTS_def)

lemma sample_claim: "hk_static_pool_claim (vm_pool reloc_vm) 128 0x140000 = (0x100000, (vm_pool reloc_vm)\<lparr>sp_used := 0xFF\<rparr>)"
  by code_simp

lemma sample_branches:
  "hk_arm64_branch_size 0x140000 0x100000 = 4" "hk_arm64_emit_branch 0x140000 0x100000 = [0x17FF0000]"
  "hk_arm64_emit_branch 0x100000 0x200000 = [0x14040000]"
  "hk_arm64_relocate [0x10000080] 0x140000 112 = [0x58000040, 0x14000003, 0x140010, 0]"
  "hk_arm64_emit_branch 0x100020 0x140004 = [0x1400FFF9]"
  by code_simp+

lemma sample_take: "hk_static_pool_take 128 0x140000 True reloc_vm = (0x100000, opened_vm)"
proof -
  have p: "vm_prot reloc_vm 0x100000 = Some 5" "vm_calls reloc_vm = []"
    by (auto simp: reloc_vm_def slot_addr_def intro!: image_eqI [of _ _ 0])
  show ?thesis
    using sample_claim sample_branches(1) p
    by (simp add: hk_static_pool_take_def hk_native_reloc_unprotect_def vm_protect_def kern_call_def one_page set_one_page
        opened_vm_def VM_PROT_READ_def VM_PROT_WRITE_def)
qed

lemma sample_view: "vm_view opened_vm 0x140000 = Some 0x80" "vm_view opened_vm 0x140001 = Some 0"
  "vm_view opened_vm 0x140002 = Some 0" "vm_view opened_vm 0x140003 = Some 0x10"
  by (simp_all add: vm_view_def opened_vm_def reloc_vm_def page_of_def PAGE_def put_bytes_def VM_PROT_READ_def Let_def)

lemma sample_original: "rd_bytes (vm_view opened_vm) 0x140000 0 4 = Some [0x80, 0, 0, 0x10]"
  by (simp add: numeral_eq_Suc rd8_def sample_view)

lemma sample_alloc: "hk_platform_reloc_alloc HK_RELOC_PAGE_BYTES 0x140000 reloc_vm =
   ((0x100000, zero_mapping\<lparr>am_kind := HK_MAPPING_STATIC_HOOKKIT_SECTION, am_base := 0x100000, am_size := HK_STATIC_TRAMP_PAGE\<rparr>), opened_vm)"
  using sample_take by (simp add: hk_platform_reloc_alloc_def reloc_sizes)

lemma opened_page: "k < 128 \<Longrightarrow> vm_view opened_vm (0x100000 + of_nat k) \<noteq> None \<and> vm_writable opened_vm (0x100000 + of_nat k)"
  by (rule open_page) (simp_all add: opened_vm_def VM_PROT_READ_def VM_PROT_WRITE_def)

text \<open>The seal succeeds whenever the kernel has no failure in store and the page is mapped.\<close>

lemma protect_succeeds:
  "vm_calls s = [] \<Longrightarrow> vm_prot s p \<noteq> None \<Longrightarrow> vm_protect p PAGE q s = (True, s\<lparr>vm_prot := (vm_prot s)(p \<mapsto> q)\<rparr>)"
  by (simp add: vm_protect_def kern_call_def one_page set_one_page)

lemma vm_store_calls [simp]: "vm_calls (vm_store a bs s) = vm_calls s" "vm_regions (vm_store a bs s) = vm_regions s"
  by (simp_all add: vm_store_def)

lemma sample_prepare: "\<exists>plan s1. hk_reloc_prepare platform_seams 0x140000 0x200000 None reloc_vm = Some (Inr plan, s1) \<and>
   rp_trampoline plan = 0x100000 \<and> rp_patch_size plan = 4 \<and> vm_calls s1 = [] \<and> vm_regions s1 = vm_regions reloc_vm \<and>
   vm_prot s1 = (vm_prot reloc_vm)(0x100000 \<mapsto> 5)"
proof -
  define body where "body = [0x58000040, 0x14000003, 0x140010, 0, 0x1400FFF9 :: u32]"
  obtain sx sy where two: "vm_put 0x100000 (bytes_of [0x14040000]) opened_vm = Some sx"
      "vm_put (0x100000 + 16) (bytes_of body) sx = Some sy"
    using two_stores [OF opened_page, where thunk = "[0x14040000]" and body = body] by (auto simp: body_def)
  have sy: "sy = vm_store (0x100000 + 16) (bytes_of body) (vm_store 0x100000 (bytes_of [0x14040000]) opened_vm)"
    using vm_put_some(1) [OF two(2)] vm_put_some(1) [OF two(1)] by simp
  have c: "vm_calls sy = []" "vm_prot sy 0x100000 \<noteq> None" by (simp_all add: sy opened_vm_def reloc_vm_def)
  obtain i s1 where g: "hk_id_generate (sy\<lparr>vm_prot := (vm_prot sy)(0x100000 \<mapsto> 5)\<rparr>) = (i, s1)" by fastforce
  have m: "hk_sys.more s1 = hk_sys.more (sy\<lparr>vm_prot := (vm_prot sy)(0x100000 \<mapsto> 5)\<rparr>)" by (rule hk_id_generate_frame(2) [OF g])
  have f: "vm_calls s1 = vm_calls sy" "vm_regions s1 = vm_regions sy" "vm_prot s1 = (vm_prot sy)(0x100000 \<mapsto> 5)"
    using m by (cases s1; cases sy; simp)+
  have seal: "hk_platform_reloc_seal 0x100000 HK_RELOC_PAGE_BYTES sy = (True, sy\<lparr>vm_prot := (vm_prot sy)(0x100000 \<mapsto> 5)\<rparr>)"
    using protect_succeeds [OF c, of 5]
    by (simp add: hk_platform_reloc_seal_def hk_native_reloc_seal_def VM_PROT_READ_def VM_PROT_EXECUTE_def)
  have w: "words_of [0x80, 0, 0, 0x10] = [0x10000080]" by simp
  have checks: "\<not> hk_arm64_insn_is_trap 0x10000080" "\<not> hk_arm64_has_early_terminator [0x10000080]" by code_simp+
  have us: "page_usable 0x100000 (zero_mapping\<lparr>am_kind := HK_MAPPING_STATIC_HOOKKIT_SECTION, am_base := 0x100000, am_size := HK_STATIC_TRAMP_PAGE\<rparr>)"
    by code_simp
  have ep: "entry_patch 0x140000 0x200000 0 0x100000 = (4, 0x100000, True)" using sample_branches(1) by (simp add: entry_patch_def)
  have "\<exists>plan. reloc_build platform_seams 0x140000 0x200000 0 None 0x100000
      (zero_mapping\<lparr>am_kind := HK_MAPPING_STATIC_HOOKKIT_SECTION, am_base := 0x100000, am_size := HK_STATIC_TRAMP_PAGE\<rparr>) opened_vm = Some (Inr plan, s1) \<and>
      rp_trampoline plan = 0x100000 \<and> rp_patch_size plan = 4"
    using two checks seal g
    by (simp add: reloc_build_def ep sample_original w sample_branches body_def reloc_sizes platform_seams_def)
  then obtain plan where b: "reloc_build platform_seams 0x140000 0x200000 0 None 0x100000
      (zero_mapping\<lparr>am_kind := HK_MAPPING_STATIC_HOOKKIT_SECTION, am_base := 0x100000, am_size := HK_STATIC_TRAMP_PAGE\<rparr>) opened_vm = Some (Inr plan, s1)"
      "rp_trampoline plan = 0x100000" "rp_patch_size plan = 4" by blast
  have "hk_reloc_prepare platform_seams 0x140000 0x200000 None reloc_vm = Some (Inr plan, s1)"
    using us b(1) by (simp add: hk_reloc_prepare_def reloc_prepare_def platform_seams_def sample_alloc)
  then show ?thesis using b(2,3) f c(1) by (auto simp: sy opened_vm_def)
qed

lemma sample_write:
  assumes "vm_calls s = []" "vm_regions s = vm_regions reloc_vm" "vm_prot s 0x140000 = Some 5" "length bs = 4"
  shows "fst (hk_platform_write_memory id 0x140000 bs s) = HK_MUTATION_COMPLETE"
proof -
  have pg: "pages 0x140000 0x4000 = [0x140000]" by (simp add: pages_def PAGE_def)
  have reg: "vm_region_64 s 0x140000 = Some (0x140000, 0x4000, 5)"
    using assms(2,3) by (simp add: vm_region_64_def reloc_vm_def region_valid_def page_of_def PAGE_def pg)
  have b: "hk_range_bounds 0x140000 (length bs) = Some (0x140000, 0x144000)"
    unfolding assms(4) by (simp add: hk_range_bounds_def PAGE_def)
  have pr: "hk_range_protection s 0x140000 0x144000 = Some 5"
    by (simp add: hk_range_protection_def range_protection_from.simps [of _ "0x140000"] range_protection_from.simps [of _ "0x144000"] reg)
  have "bs \<noteq> []" using assms(4) by auto
  then show ?thesis
    using b pr assms(1,3)
    by (simp add: hk_platform_write_memory_def hk_native_patch_memory_def hk_write_def hk_write_locked_def write_in_place_def
        vm_protect_def kern_call_def pg Let_def set_pages_def vm_store_def)
qed

text \<open>Preparation and commit of the whole hook.\<close>

lemma sample_hook:
  obtains plan s1 arts plan2 s3 where "hk_reloc_prepare platform_seams 0x140000 0x200000 None reloc_vm = Some (Inr plan, s1)"
    "platform_ok 0x100000 s1" "apart 0x140000 (rp_trampoline plan)" "displaced plan = [0x10000080]"
    "rp_patch_size plan = 4" "rp_trampoline plan = 0x100000"
    "hk_reloc_commit callable platform_seams plan s1 = Some ((HK_MUTATION_COMPLETE, arts, plan2), s3)"
proof -
  obtain plan s1 where p: "hk_reloc_prepare platform_seams 0x140000 0x200000 None reloc_vm = Some (Inr plan, s1)"
      "rp_trampoline plan = 0x100000" "rp_patch_size plan = 4" "vm_calls s1 = []" "vm_regions s1 = vm_regions reloc_vm"
      "vm_prot s1 = (vm_prot reloc_vm)(0x100000 \<mapsto> 5)"
    using sample_prepare by blast
  have f: "rs_free platform_seams \<noteq> None" by (simp add: platform_seams_def)
  from page_source.prepare_law [OF reloc_vm_ok p(1) [unfolded hk_reloc_prepare_def] f]
  obtain page mp s0 where l: "platform_ok 0x100000 s1" "rs_alloc platform_seams HK_RELOC_PAGE_BYTES 0x140000 reloc_vm = ((page, mp), s0)"
      "built s0 0x140000 0x200000 0 page plan s1" by auto
  have s0: "page = 0x100000" "s0 = opened_vm" using l(2) by (simp_all add: platform_seams_def sample_alloc)
  note d = builtD [OF l(3)]
  have ap: "apart 0x140000 (rp_trampoline plan)"
    unfolding apart_def p(2)
  proof (intro allI impI)
    fix i :: nat assume "i < 16"
    then have "unat (of_nat i + (0x140000 - 0x100000) :: u64) = i + 0x40000"
      by (simp add: unat_word_ariths unat_of_nat take_bit_nat_eq_self)
    then show "\<not> page_range 0x100000 (0x140000 + of_nat i)" by (simp add: page_range_def reloc_sizes algebra_simps)
  qed
  have o: "rp_original plan = buf16 [0x80, 0, 0, 0x10]" using l(3) p(3) sample_original unfolding s0 by (auto simp: built_def)
  have dis: "displaced plan = [0x10000080]" by (simp add: displaced_def o p(3) buf16_def)
  have keep: "vm_view s1 x = vm_view opened_vm x" if "\<not> page_range 0x100000 x" "vm_view opened_vm x \<noteq> None" for x
    using l(3) that unfolding s0 built_def by blast
  have "rd_bytes (vm_view s1) 0x140000 0 4 = Some [0x80, 0, 0, 0x10]"
    using sample_original keep ap by (auto simp: rd_bytes_iff apart_def p(2))
  moreover have "take (rp_patch_size plan) (rp_original plan) = [0x80, 0, 0, 0x10]" by (simp add: o p(3) buf16_def)
  moreover have "length (take (rp_patch_size plan) (rp_patch plan)) = 4"
    using l(3) p(3) by (auto simp: built_def buf16_def bytes_of_length)
  then have "fst (hk_platform_write_memory id 0x140000 (take (rp_patch_size plan) (rp_patch plan)) s1) = HK_MUTATION_COMPLETE"
    by (intro sample_write) (use p(4-6) in \<open>simp_all add: reloc_vm_def\<close>)
  then obtain s3 where w: "hk_platform_write_memory id 0x140000 (take 4 (rp_patch plan)) s1 = (HK_MUTATION_COMPLETE, s3)"
    unfolding p(3) by (metis prod.collapse)
  moreover have "\<not> rp_activated plan" "rp_captured plan" "rp_address plan = 0x140000" using d by simp_all
  ultimately have "\<exists>arts plan2. hk_reloc_commit callable platform_seams plan s1 = Some ((HK_MUTATION_COMPLETE, arts, plan2), s3)"
    by (simp add: hk_reloc_commit_def p(3) platform_seams_def reloc_sizes)
  then show ?thesis using that p(1,2,3) l(1) ap dis by blast
qed

section \<open>Properties\<close>

text \<open>No page is leaked: a preparation that fails leaves the set of mapped pages and used slots as it
  was; one that succeeds adds one element, and a commit that did nothing takes exactly that away again, with no record.\<close>

lemma reloc_no_leak:
  fixes s :: "'s hk_vm_scheme"
  assumes "platform_ok base s" "hk_reloc_prepare platform_seams target replacement expected s = Some (res, s1)"
  shows "case res of Inl status \<Rightarrow> platform_ok base s1 \<and> platform_live s1 = platform_live s
    | Inr plan \<Rightarrow> platform_ok base s1 \<and> (\<exists>r. r \<notin> platform_live s \<and> platform_live s1 = insert r (platform_live s)) \<and>
        (\<forall>(s2 :: 's hk_vm_scheme) arts plan2 s3. platform_ok base s2 \<longrightarrow> platform_live s2 = platform_live s1 \<longrightarrow>
           hk_reloc_commit callable platform_seams plan s2 = Some ((HK_MUTATION_NONE, arts, plan2), s3) \<longrightarrow>
           platform_ok base s3 \<and> platform_live s3 = platform_live s \<and> arts = [])"
proof -
  have f: "rs_free platform_seams \<noteq> None" by (simp add: platform_seams_def)
  show ?thesis by (rule page_source.no_leak [OF assms(1) assms(2) [unfolded hk_reloc_prepare_def] f])
qed

text \<open>C28. The hook works: after a complete commit a run of the target arrives at the replacement with nothing
  changed but X16 or X17, and outside the patched window memory is as it was. The process may have
  run between preparation and commit, as long as what could be read stayed; the window and the page do not overlap.\<close>

theorem reloc_target_dispatches:
  assumes "platform_ok base s" "hk_reloc_prepare platform_seams target replacement expected s = Some (Inr plan, s1)"
    and "platform_ok base s2" "view_kept s1 s2" "apart target (rp_trampoline plan)"
    and "hk_reloc_commit callable platform_seams plan s2 = Some ((HK_MUTATION_COMPLETE, arts, plan2), s3)"
    and "take_bit 2 replacement = 0" "cmem c = vm_view s3"
  shows "(\<exists>k > 0. \<exists>c2. a64_run other k (target, c) = Some (replacement, c2) \<and> eq_scratch c c2) \<and>
    (\<forall>x. rp_patch_size plan \<le> unat (x - target) \<longrightarrow> vm_view s3 x = vm_view s2 x)"
proof -
  have f: "rs_free platform_seams \<noteq> None" by (simp add: platform_seams_def)
  note a = page_source.armed_commit [OF assms(1,2) f assms(3-6)]
  show ?thesis using armed_dispatch [of target replacement plan c other] a(1,2,3) assms(7,8) a(8) by auto
qed

theorem reloc_target_dispatches_witness:
  "\<exists>plan s1 arts plan2 s3. hk_reloc_prepare platform_seams 0x140000 0x200000 None reloc_vm = Some (Inr plan, s1) \<and>
     hk_reloc_commit id platform_seams plan s1 = Some ((HK_MUTATION_COMPLETE, arts, plan2), s3) \<and>
     (\<exists>k > 0. \<exists>c2. a64_run (\<lambda>_ _. None) k (0x140000, far_cpu\<lparr>cmem := vm_view s3\<rparr>) = Some (0x200000, c2))"
proof -
  obtain plan s1 arts plan2 s3 where h: "hk_reloc_prepare platform_seams 0x140000 0x200000 None reloc_vm = Some (Inr plan, s1)"
      "platform_ok 0x100000 s1" "apart 0x140000 (rp_trampoline plan)"
      "hk_reloc_commit id platform_seams plan s1 = Some ((HK_MUTATION_COMPLETE, arts, plan2), s3)"
    by (rule sample_hook [where callable = id])
  have "take_bit 2 (0x200000 :: u64) = 0" by simp
  from reloc_target_dispatches [OF reloc_vm_ok h(1,2) view_kept_refl h(3,4) this, of "far_cpu\<lparr>cmem := vm_view s3\<rparr>" "\<lambda>_ _. None"]
  show ?thesis using h by auto
qed

text \<open>C29. The original survives. Take a state \<open>c\<close> in the memory before the patch and let the words displaced from
  the target run in a row from there: they end in \<open>c1\<close>, behind the window or at a branch target. That is a
  run of the target itself. After the patch, the same state in the patched memory, entered at the pointer
  published as the original, runs to the same address and to a state that equals \<open>c1\<close> but for X16, X17 and
  the bytes of the window. Excluded along the run (\<open>clear_run\<close>): calls, branches that take X16 or X17 as
  input, a load (literal or through a register) that reads a byte of the window or has its base in X16 or
  X17, and an instruction outside the modelled set that stores into the window or the page, or whose effect
  depends on X16, X17 or the bytes of the window.\<close>

theorem reloc_original_preserved:
  assumes "platform_ok base s" "hk_reloc_prepare platform_seams target replacement expected s = Some (Inr plan, s1)"
    and "platform_ok base s2" "view_kept s1 s2" "apart target (rp_trampoline plan)"
    and "hk_reloc_commit callable platform_seams plan s2 = Some ((HK_MUTATION_COMPLETE, arts, plan2), s3)"
    and "cmem c = vm_view s2" "straight other (displaced plan) target c = Some (fl, c1)"
    and "clear_run other target (rp_patch_size plan) (rp_trampoline plan) (displaced plan) target c"
  shows "code_at (vm_view s2) target (displaced plan) \<and>
    (\<exists>j. a64_run other j (target, c) =
       Some (case fl of Jump t \<Rightarrow> t | _ \<Rightarrow> target + of_nat (rp_patch_size plan), c1)) \<and>
    (\<exists>k c2. a64_run other k (rp_original_entry plan, c\<lparr>cmem := vm_view s3\<rparr>) =
       Some (case fl of Jump t \<Rightarrow> t | _ \<Rightarrow> target + of_nat (rp_patch_size plan), c2) \<and>
       eq_outside target (rp_patch_size plan) c1 c2)"
proof -
  have f: "rs_free platform_seams \<noteq> None" by (simp add: platform_seams_def)
  note a = page_source.armed_commit [OF assms(1,2) f assms(3-6)]
  define d where "d = c\<lparr>cmem := vm_view s3\<rparr>"
  have m: "cmem d = vm_view s3" by (simp add: d_def)
  have r: "eq_outside target (rp_patch_size plan) c d" using a(8) assms(7) by (simp add: eq_outside_def d_def)
  have far: "\<not> in_entry target (rp_patch_size plan) x" if "page_range (rp_trampoline plan) x" for x
    using apart_page [OF assms(5) that a(6)] by simp
  have w: "in_entry target (rp_patch_size plan) (target + of_nat i)" if "i < 4 * length (displaced plan)" for i
    using that a(5,6) by (simp add: unat_of_nat take_bit_nat_eq_self)
  show ?thesis
    using straight_is_run [OF assms(8,9) a(7) [folded assms(7)] w far, unfolded a(5)] a(7)
      armed_original [OF a(1) [folded m] a(4,2,3,5,6) assms(5,9,8) r]
    unfolding d_def by blast
qed

theorem reloc_original_preserved_witness:
  "\<exists>plan s1 arts plan2 s3. hk_reloc_prepare platform_seams 0x140000 0x200000 None reloc_vm = Some (Inr plan, s1) \<and>
     hk_reloc_commit id platform_seams plan s1 = Some ((HK_MUTATION_COMPLETE, arts, plan2), s3) \<and>
     (\<exists>k c2. a64_run (\<lambda>_ _. None) k (rp_original_entry plan, far_cpu\<lparr>cmem := vm_view s3\<rparr>) = Some (0x140004, c2) \<and> get_x 0 c2 = 0x140010)"
proof -
  obtain plan s1 arts plan2 s3 where h: "hk_reloc_prepare platform_seams 0x140000 0x200000 None reloc_vm = Some (Inr plan, s1)"
      "platform_ok 0x100000 s1" "apart 0x140000 (rp_trampoline plan)"
      "hk_reloc_commit id platform_seams plan s1 = Some ((HK_MUTATION_COMPLETE, arts, plan2), s3)"
      "displaced plan = [0x10000080]" "rp_patch_size plan = 4"
    by (rule sample_hook [where callable = id])
  define c where "c = far_cpu\<lparr>cmem := vm_view s1\<rparr>"
  have m: "cmem c = vm_view s1" by (simp add: c_def)
  have st: "straight (\<lambda>_ _. None) (displaced plan) 0x140000 c = Some (Next, set_x 0 0x140010 c)"
    by (simp add: h(5) sample_decode)
  have ins: "clear_run (\<lambda>_ _. None) 0x140000 (rp_patch_size plan) (rp_trampoline plan) (displaced plan) 0x140000 c"
    by (simp add: h(5) sample_decode keeps_clear_def)
  from reloc_original_preserved [OF reloc_vm_ok h(1,2) view_kept_refl h(3,4) m st ins] obtain k c2 where
    r: "a64_run (\<lambda>_ _. None) k (rp_original_entry plan, c\<lparr>cmem := vm_view s3\<rparr>) = Some (0x140004, c2)"
      "eq_outside 0x140000 4 (set_x 0 0x140010 c) c2"
    using h(6) by auto
  have "get_x 0 c2 = 0x140010" using r(2) by (auto simp: eq_outside_def set_x_def get_x_def dest!: spec [of _ 0])
  moreover have "c\<lparr>cmem := vm_view s3\<rparr> = far_cpu\<lparr>cmem := vm_view s3\<rparr>" by (simp add: c_def)
  ultimately show ?thesis using h(1,4) r(1) by auto
qed

end
