(* ===== verification/HK_Answers.thy ===== *)
theory HK_Answers
  imports HK_Prelude
begin

text \<open>
  When a parser of untrusted bytes answers, whatever they are: the rules by which a function built of
  reads inside the readable bytes never faults. A proof is an introduction by these rules.
\<close>

text \<open>No fault.\<close>

definition answers :: "'a option \<Rightarrow> bool" where
  "answers r \<longleftrightarrow> r \<noteq> None"

lemma answers_Some: "answers (Some x)"
  by (simp add: answers_def)

lemma answers_bind: "answers r \<Longrightarrow> (\<And>v. r = Some v \<Longrightarrow> answers (f v)) \<Longrightarrow> answers (Option.bind r f)"
  by (cases r) (auto simp: answers_def)

lemma answers_map: "answers r \<Longrightarrow> answers (map_option f r)"
  by (simp add: answers_def)

lemma answers_if: "(P \<Longrightarrow> answers a) \<Longrightarrow> (\<not> P \<Longrightarrow> answers b) \<Longrightarrow> answers (if P then a else b)"
  by simp

lemma answers_prod: "(\<And>a b. x = (a, b) \<Longrightarrow> answers (f a b)) \<Longrightarrow> answers (case x of (a, b) \<Rightarrow> f a b)"
  by (cases x) simp

lemma answers_option: "(x = None \<Longrightarrow> answers a) \<Longrightarrow> (\<And>v. x = Some v \<Longrightarrow> answers (f v)) \<Longrightarrow> answers (case x of None \<Rightarrow> a | Some v \<Rightarrow> f v)"
  by (cases x) auto

lemma answers_sum: "(\<And>v. x = Inl v \<Longrightarrow> answers (f v)) \<Longrightarrow> (\<And>v. x = Inr v \<Longrightarrow> answers (g v)) \<Longrightarrow> answers (case x of Inl v \<Rightarrow> f v | Inr v \<Rightarrow> g v)"
  by (cases x) auto

lemmas answers_basic = answers_Some answers_bind answers_map answers_if answers_prod answers_option answers_sum

lemma answersE: "answers r \<Longrightarrow> (\<And>v. r = Some v \<Longrightarrow> P) \<Longrightarrow> P"
  by (auto simp: answers_def)

lemma answers_reads:
  assumes "readable m p n"
  shows "i < n \<Longrightarrow> answers (rd8 m p i)" "i + 2 \<le> n \<Longrightarrow> answers (rd16 m p i)" "i + k \<le> n \<Longrightarrow> answers (rd_bytes m p i k)" "i + 4 \<le> n \<Longrightarrow> answers (rd32 m p i)" "i + 8 \<le> n \<Longrightarrow> answers (rd64 m p i)"
    "i + 4 \<le> n \<Longrightarrow> answers (rd_be32 m p i)" "i + 8 \<le> n \<Longrightarrow> answers (rd_be64 m p i)"
  using readableD [OF assms, of i] readable_rd16 [OF assms, of i] readable_rd_bytes [OF assms, of i k] readable_rd32 [OF assms, of i] readable_rd64 [OF assms, of i]
    readable_rd_be32 [OF assms, of i] readable_rd_be64 [OF assms, of i]
  by (auto simp: answers_def)

section \<open>Bytes laid out\<close>

definition holds :: "memory \<Rightarrow> ptr \<Rightarrow> nat \<Rightarrow> byte list \<Rightarrow> bool" where
  "holds m p i bs \<longleftrightarrow> rd_bytes m p i (length bs) = Some bs"

lemma holds_Nil [simp]: "holds m p i []"
  by (simp add: holds_def)

lemma holds_Cons [simp]: "holds m p i (b # bs) \<longleftrightarrow> rd8 m p i = Some b \<and> holds m p (i + 1) bs"
  by (auto simp: holds_def split: bind_splits)

lemma holds_append [simp]: "holds m p i (xs @ ys) \<longleftrightarrow> holds m p i xs \<and> holds m p (i + length xs) ys"
  by (induction xs arbitrary: i) auto

end
