(* ===== verification/HK_MachO.thy ===== *)
theory HK_MachO
  imports HK_Prelude
begin

text \<open>
  The Mach-O container parser (\<open>src/resolvers/HKMachO.c\<close>) over a memory whose reads answer \<open>None\<close> outside
  the readable bytes. A result is \<open>None\<close> for such a read, \<open>Some (Inl status)\<close> for a refusal and
  \<open>Some (Inr v)\<close> for \<open>HK_MACHO_OK\<close> with what the out-parameters hold. A visitor with a context is a
  function from the context to the new context and whether to go on.
\<close>

section \<open>Constants and records\<close>

definition HK_MH_MAGIC_64 :: u32 where "HK_MH_MAGIC_64 = 0xFEEDFACF"
definition HK_MH_CIGAM_64 :: u32 where "HK_MH_CIGAM_64 = 0xCFFAEDFE"
definition HK_MH_MAGIC :: u32 where "HK_MH_MAGIC = 0xFEEDFACE"
definition HK_MH_CIGAM :: u32 where "HK_MH_CIGAM = 0xCEFAEDFE"
definition HK_FAT_MAGIC :: u32 where "HK_FAT_MAGIC = 0xCAFEBABE"
definition HK_FAT_CIGAM :: u32 where "HK_FAT_CIGAM = 0xBEBAFECA"
definition HK_FAT_MAGIC_64 :: u32 where "HK_FAT_MAGIC_64 = 0xCAFEBABF"

definition HK_LC_SYMTAB :: u32 where "HK_LC_SYMTAB = 0x02"
definition HK_LC_DYSYMTAB :: u32 where "HK_LC_DYSYMTAB = 0x0B"
definition HK_LC_SEGMENT_64 :: u32 where "HK_LC_SEGMENT_64 = 0x19"
definition HK_LC_UUID :: u32 where "HK_LC_UUID = 0x1B"
definition HK_LC_DYLD_INFO :: u32 where "HK_LC_DYLD_INFO = 0x22"
definition HK_LC_DYLD_INFO_ONLY :: u32 where "HK_LC_DYLD_INFO_ONLY = 0x80000022"
definition HK_LC_DYLD_EXPORTS_TRIE :: u32 where "HK_LC_DYLD_EXPORTS_TRIE = 0x80000033"
definition HK_LC_DYLD_CHAINED_FIXUPS :: u32 where "HK_LC_DYLD_CHAINED_FIXUPS = 0x80000034"

definition HK_MACHO_HEADER_64_SIZE :: nat where "HK_MACHO_HEADER_64_SIZE = 32"
definition HK_LOAD_COMMAND_SIZE :: nat where "HK_LOAD_COMMAND_SIZE = 8"
definition HK_SYMTAB_COMMAND_SIZE :: nat where "HK_SYMTAB_COMMAND_SIZE = 24"
definition HK_SEGMENT_COMMAND_64_SIZE :: nat where "HK_SEGMENT_COMMAND_64_SIZE = 72"
definition HK_SECTION_64_SIZE :: nat where "HK_SECTION_64_SIZE = 80"
definition HK_LINKEDIT_DATA_CMD_SIZE :: nat where "HK_LINKEDIT_DATA_CMD_SIZE = 16"
definition HK_DYLD_INFO_COMMAND_SIZE :: nat where "HK_DYLD_INFO_COMMAND_SIZE = 48"
definition HK_DYSYMTAB_COMMAND_SIZE :: nat where "HK_DYSYMTAB_COMMAND_SIZE = 80"

lemmas macho_sizes = HK_MACHO_HEADER_64_SIZE_def HK_LOAD_COMMAND_SIZE_def HK_SYMTAB_COMMAND_SIZE_def
  HK_SEGMENT_COMMAND_64_SIZE_def HK_SECTION_64_SIZE_def HK_LINKEDIT_DATA_CMD_SIZE_def HK_DYLD_INFO_COMMAND_SIZE_def
  HK_DYSYMTAB_COMMAND_SIZE_def

definition HK_S_ATTR_PURE_INSTRUCTIONS :: u32 where "HK_S_ATTR_PURE_INSTRUCTIONS = 0x80000000"
definition HK_S_ATTR_SOME_INSTRUCTIONS :: u32 where "HK_S_ATTR_SOME_INSTRUCTIONS = 0x00000400"

datatype hk_macho_status =
    HK_MACHO_OK | HK_MACHO_TOO_SMALL | HK_MACHO_NOT_MACHO | HK_MACHO_FAT_UNSUPPORTED
  | HK_MACHO_BYTE_ORDER_UNSUPPORTED | HK_MACHO_NOT_64_BIT | HK_MACHO_MALFORMED | HK_MACHO_NOT_FOUND

record hk_macho_header =
  mh_magic :: u32
  mh_cputype :: u32
  mh_cpusubtype :: u32
  mh_filetype :: u32
  mh_ncmds :: u32
  mh_sizeofcmds :: u32
  mh_flags :: u32

record hk_macho_segment =
  sg_segname :: "byte list"
  sg_vmaddr :: u64
  sg_vmsize :: u64
  sg_fileoff :: u64
  sg_filesize :: u64
  sg_maxprot :: u32
  sg_initprot :: u32
  sg_nsects :: u32
  sg_flags :: u32
  sg_command_offset :: nat
  sg_cmdsize :: nat

record hk_macho_section =
  sn_sectname :: "byte list"
  sn_segname :: "byte list"
  sn_addr :: u64
  sn_size :: u64
  sn_offset :: u32
  sn_flags :: u32
  sn_reserved1 :: u32
  sn_reserved2 :: u32

record hk_symbol_table_view =
  sv_nlist :: ptr
  sv_nlist_count :: u32
  sv_strings :: ptr
  sv_strings_size :: nat

definition NLIST64_SIZE :: nat where "NLIST64_SIZE = 16"
definition NLIST64_ALIGN :: nat where "NLIST64_ALIGN = 8"

text \<open>Results, and going on after a status of \<open>HK_MACHO_OK\<close>.\<close>

type_synonym 'a macho_result = "(hk_macho_status + 'a) option"

definition on_ok :: "'a macho_result \<Rightarrow> ('a \<Rightarrow> 'b macho_result) \<Rightarrow> 'b macho_result" where
  "on_ok r f = (case r of None \<Rightarrow> None | Some (Inl st) \<Rightarrow> Some (Inl st) | Some (Inr v) \<Rightarrow> f v)"

definition after_walk :: "(hk_macho_status \<times> 'c) option \<Rightarrow> ('c \<Rightarrow> 'b macho_result) \<Rightarrow> 'b macho_result" where
  "after_walk r f = (case r of None \<Rightarrow> None | Some (st, c) \<Rightarrow> if st \<noteq> HK_MACHO_OK then Some (Inl st) else f c)"

section \<open>The header\<close>

definition hk_macho_peek_header :: "memory \<Rightarrow> ptr \<Rightarrow> nat \<Rightarrow> hk_macho_header macho_result" where
  "hk_macho_peek_header m img sz =
     (if img = 0 then Some (Inl HK_MACHO_NOT_MACHO)
      else if sz < 4 then Some (Inl HK_MACHO_TOO_SMALL)
      else do {
        magic \<leftarrow> rd32 m img 0;
        (if magic = HK_MH_MAGIC_64 then
           (if sz < HK_MACHO_HEADER_64_SIZE then Some (Inl HK_MACHO_TOO_SMALL)
            else do {
              cputype \<leftarrow> rd32 m img 4; cpusubtype \<leftarrow> rd32 m img 8; filetype \<leftarrow> rd32 m img 12;
              ncmds \<leftarrow> rd32 m img 16; sizeofcmds \<leftarrow> rd32 m img 20; flags \<leftarrow> rd32 m img 24;
              Some (Inr \<lparr>mh_magic = magic, mh_cputype = cputype, mh_cpusubtype = cpusubtype, mh_filetype = filetype,
                mh_ncmds = ncmds, mh_sizeofcmds = sizeofcmds, mh_flags = flags\<rparr>)
            })
         else if magic = HK_MH_CIGAM_64 then Some (Inl HK_MACHO_BYTE_ORDER_UNSUPPORTED)
         else if magic = HK_MH_MAGIC \<or> magic = HK_MH_CIGAM then Some (Inl HK_MACHO_NOT_64_BIT)
         else if magic = HK_FAT_MAGIC \<or> magic = HK_FAT_CIGAM then Some (Inl HK_MACHO_FAT_UNSUPPORTED)
         else Some (Inl HK_MACHO_NOT_MACHO))
      })"

definition hk_macho_read_header :: "memory \<Rightarrow> ptr \<Rightarrow> nat \<Rightarrow> hk_macho_header macho_result" where
  "hk_macho_read_header m img sz =
     on_ok (hk_macho_peek_header m img sz) (\<lambda>header.
       if unat (mh_sizeofcmds header) > sz - HK_MACHO_HEADER_64_SIZE then Some (Inl HK_MACHO_MALFORMED)
       else Some (Inr header))"

text \<open>The search of a fat file's table of slices, from entry \<open>i\<close>.\<close>

primrec select_arch :: "memory \<Rightarrow> ptr \<Rightarrow> nat \<Rightarrow> u32 \<Rightarrow> u32 \<Rightarrow> bool \<Rightarrow> nat \<Rightarrow> nat \<Rightarrow> (ptr \<times> nat) macho_result" where
  "select_arch m base file_size cputype cpusubtype fat64 i 0 = Some (Inl HK_MACHO_NOT_FOUND)"
| "select_arch m base file_size cputype cpusubtype fat64 i (Suc n) =
     (let stride = (if fat64 then 32 else 20); arch = 8 + i * stride
      in do {
        c \<leftarrow> rd_be32 m base arch;
        s \<leftarrow> (if c \<noteq> cputype then Some cpusubtype else rd_be32 m base (arch + 4));
        (if c \<noteq> cputype \<or> s \<noteq> cpusubtype then select_arch m base file_size cputype cpusubtype fat64 (i + 1) n
         else do {
           offset \<leftarrow> (if fat64 then map_option unat (rd_be64 m base (arch + 8)) else map_option unat (rd_be32 m base (arch + 8)));
           sz \<leftarrow> (if fat64 then map_option unat (rd_be64 m base (arch + 16)) else map_option unat (rd_be32 m base (arch + 12)));
           (if offset > file_size \<or> sz > file_size - offset then Some (Inl HK_MACHO_MALFORMED)
            else do {
              selected \<leftarrow> hk_macho_read_header m (base + of_nat offset) sz;
              (case selected of
                 Inl _ \<Rightarrow> Some (Inl HK_MACHO_MALFORMED)
               | Inr h \<Rightarrow> if mh_cputype h \<noteq> cputype \<or> mh_cpusubtype h \<noteq> cpusubtype then Some (Inl HK_MACHO_MALFORMED)
                   else Some (Inr (base + of_nat offset, sz)))
            })
         })
      })"

definition hk_macho_select_slice :: "memory \<Rightarrow> ptr \<Rightarrow> nat \<Rightarrow> u32 \<Rightarrow> u32 \<Rightarrow> (ptr \<times> nat) macho_result" where
  "hk_macho_select_slice m file file_size cputype cpusubtype =
     (if file = 0 \<or> file_size < 4 then Some (Inl HK_MACHO_TOO_SMALL)
      else do {
        thin \<leftarrow> hk_macho_read_header m file file_size;
        (case thin of
           Inr h \<Rightarrow> if mh_cputype h \<noteq> cputype \<or> mh_cpusubtype h \<noteq> cpusubtype then Some (Inl HK_MACHO_NOT_FOUND)
             else Some (Inr (file, file_size))
         | Inl thin_status \<Rightarrow> do {
             magic \<leftarrow> rd_be32 m file 0;
             (let fat64 = magic = HK_FAT_MAGIC_64
              in if magic \<noteq> HK_FAT_MAGIC \<and> \<not> fat64 then Some (Inl thin_status)
                 else if file_size < 8 then Some (Inl HK_MACHO_MALFORMED)
                 else do {
                   count \<leftarrow> map_option unat (rd_be32 m file 4);
                   (if count * (if fat64 then 32 else 20) > file_size - 8 then Some (Inl HK_MACHO_MALFORMED)
                    else select_arch m file file_size cputype cpusubtype fat64 0 count)
                 })
           })
      })"

section \<open>Load commands\<close>

type_synonym 'c lc_visit = "'c \<Rightarrow> u32 \<Rightarrow> nat \<Rightarrow> nat \<Rightarrow> ('c \<times> bool) option"

text \<open>\<open>end - offset\<close> in \<open>size_t\<close>.\<close>

definition room :: "nat \<Rightarrow> nat \<Rightarrow> nat" where
  "room fin offset = unat ((of_nat fin :: u64) - of_nat offset)"

primrec walk_commands :: "memory \<Rightarrow> ptr \<Rightarrow> nat \<Rightarrow> 'c lc_visit \<Rightarrow> nat \<Rightarrow> nat \<Rightarrow> 'c \<Rightarrow> (hk_macho_status \<times> 'c) option" where
  "walk_commands m base fin visit 0 offset c = Some (HK_MACHO_OK, c)"
| "walk_commands m base fin visit (Suc n) offset c =
     (if room fin offset < HK_LOAD_COMMAND_SIZE then Some (HK_MACHO_MALFORMED, c)
      else do {
        cmd \<leftarrow> rd32 m base offset;
        cmdsize \<leftarrow> map_option unat (rd32 m base (offset + 4));
        (if cmdsize < HK_LOAD_COMMAND_SIZE \<or> cmdsize mod 8 \<noteq> 0 then Some (HK_MACHO_MALFORMED, c)
         else if cmdsize > room fin offset then Some (HK_MACHO_MALFORMED, c)
         else do {
           (c1, go_on) \<leftarrow> visit c cmd offset cmdsize;
           (if \<not> go_on then Some (HK_MACHO_OK, c1) else walk_commands m base fin visit n (offset + cmdsize) c1)
         })
      })"

text \<open>The end is computed in 32 bits, like both of its summands.\<close>

definition hk_macho_iterate_load_commands :: "memory \<Rightarrow> ptr \<Rightarrow> nat \<Rightarrow> 'c lc_visit \<Rightarrow> 'c \<Rightarrow> (hk_macho_status \<times> 'c) option" where
  "hk_macho_iterate_load_commands m img sz visit c =
     (case hk_macho_read_header m img sz of
        None \<Rightarrow> None
      | Some (Inl status) \<Rightarrow> Some (status, c)
      | Some (Inr header) \<Rightarrow>
          walk_commands m img (unat (32 + mh_sizeofcmds header)) visit (unat (mh_ncmds header))
            HK_MACHO_HEADER_64_SIZE c)"

definition find_lc_visit :: "u32 \<Rightarrow> (nat \<times> nat) option lc_visit" where
  "find_lc_visit wanted f cmd offset cmdsize =
     Some (if cmd = wanted then (Some (offset, cmdsize), False) else (f, True))"

definition hk_macho_find_load_command :: "memory \<Rightarrow> ptr \<Rightarrow> nat \<Rightarrow> u32 \<Rightarrow> (nat \<times> nat) macho_result" where
  "hk_macho_find_load_command m img sz cmd =
     after_walk (hk_macho_iterate_load_commands m img sz (find_lc_visit cmd) None) (\<lambda>f.
       case f of None \<Rightarrow> Some (Inl HK_MACHO_NOT_FOUND) | Some found \<Rightarrow> Some (Inr found))"

definition hk_macho_copy_uuid :: "memory \<Rightarrow> ptr \<Rightarrow> nat \<Rightarrow> byte list macho_result" where
  "hk_macho_copy_uuid m img sz =
     on_ok (hk_macho_find_load_command m img sz HK_LC_UUID) (\<lambda>(offset, cmdsize).
       if cmdsize < 24 then Some (Inl HK_MACHO_MALFORMED)
       else map_option Inr (rd_bytes m img (offset + 8) 16))"

text \<open>The four words of \<open>LC_SYMTAB\<close> behind its header.\<close>

definition read_symtab :: "memory \<Rightarrow> ptr \<Rightarrow> nat \<Rightarrow> (nat \<times> nat \<times> nat \<times> nat) option" where
  "read_symtab m base offset = do {
     symoff \<leftarrow> map_option unat (rd32 m base (offset + 8)); nsyms \<leftarrow> map_option unat (rd32 m base (offset + 12));
     stroff \<leftarrow> map_option unat (rd32 m base (offset + 16)); strsize \<leftarrow> map_option unat (rd32 m base (offset + 20));
     Some (symoff, nsyms, stroff, strsize) }"

definition hk_macho_find_symtab_view :: "memory \<Rightarrow> ptr \<Rightarrow> nat \<Rightarrow> hk_symbol_table_view macho_result" where
  "hk_macho_find_symtab_view m img sz =
     on_ok (hk_macho_find_load_command m img sz HK_LC_SYMTAB) (\<lambda>(offset, cmdsize).
       if cmdsize < HK_SYMTAB_COMMAND_SIZE then Some (Inl HK_MACHO_MALFORMED)
       else do {
         (symoff, nsyms, stroff, strsize) \<leftarrow> read_symtab m img offset;
         (if symoff > sz \<or> nsyms * NLIST64_SIZE > sz - symoff then Some (Inl HK_MACHO_MALFORMED)
          else if stroff > sz \<or> strsize > sz - stroff then Some (Inl HK_MACHO_MALFORMED)
          else if unat (img + of_nat symoff) mod NLIST64_ALIGN \<noteq> 0 then Some (Inl HK_MACHO_MALFORMED)
          else Some (Inr \<lparr>sv_nlist = img + of_nat symoff, sv_nlist_count = of_nat nsyms,
                 sv_strings = img + of_nat stroff, sv_strings_size = strsize\<rparr>))
       })"

section \<open>Segments\<close>

text \<open>\<open>None\<close> is a fault, \<open>Some None\<close> a command too small for the structure. A name is the 16 bytes of the field
  and a NUL.\<close>

definition read_segment :: "memory \<Rightarrow> ptr \<Rightarrow> nat \<Rightarrow> nat \<Rightarrow> hk_macho_segment option option" where
  "read_segment m base offset cmdsize =
     (if cmdsize < HK_SEGMENT_COMMAND_64_SIZE then Some None
      else do {
        segname \<leftarrow> rd_bytes m base (offset + 8) 16;
        vmaddr \<leftarrow> rd64 m base (offset + 24); vmsize \<leftarrow> rd64 m base (offset + 32);
        fileoff \<leftarrow> rd64 m base (offset + 40); filesize \<leftarrow> rd64 m base (offset + 48);
        maxprot \<leftarrow> rd32 m base (offset + 56); initprot \<leftarrow> rd32 m base (offset + 60);
        nsects \<leftarrow> rd32 m base (offset + 64); flags \<leftarrow> rd32 m base (offset + 68);
        Some (Some \<lparr>sg_segname = segname @ [0], sg_vmaddr = vmaddr, sg_vmsize = vmsize, sg_fileoff = fileoff,
          sg_filesize = filesize, sg_maxprot = maxprot, sg_initprot = initprot, sg_nsects = nsects, sg_flags = flags,
          sg_command_offset = offset, sg_cmdsize = cmdsize\<rparr>)
      })"

definition sections_fit :: "hk_macho_segment \<Rightarrow> bool" where
  "sections_fit seg \<longleftrightarrow>
     HK_SEGMENT_COMMAND_64_SIZE + unat (sg_nsects seg) * HK_SECTION_64_SIZE \<le> sg_cmdsize seg"

text \<open>The context is the client's, the index of the next segment, and whether a segment was malformed.\<close>

definition segments_visit :: "memory \<Rightarrow> ptr \<Rightarrow> ('c \<Rightarrow> nat \<Rightarrow> hk_macho_segment \<Rightarrow> 'c \<times> bool) \<Rightarrow> ('c \<times> nat \<times> bool) lc_visit" where
  "segments_visit m base visit s cmd offset cmdsize =
     (let (c, index, malformed) = s in
      if cmd \<noteq> HK_LC_SEGMENT_64 then Some (s, True)
      else do {
        read_result \<leftarrow> read_segment m base offset cmdsize;
        (case read_result of
           None \<Rightarrow> Some ((c, index, True), False)
         | Some seg \<Rightarrow> (let (c1, go_on) = visit c index seg in Some ((c1, index + 1, malformed), go_on)))
      })"

definition hk_macho_iterate_segments :: "memory \<Rightarrow> ptr \<Rightarrow> nat \<Rightarrow> ('c \<Rightarrow> nat \<Rightarrow> hk_macho_segment \<Rightarrow> 'c \<times> bool) \<Rightarrow> 'c \<Rightarrow> 'c macho_result" where
  "hk_macho_iterate_segments m img sz visit c =
     (if img = 0 then Some (Inl HK_MACHO_NOT_MACHO)
      else after_walk (hk_macho_iterate_load_commands m img sz (segments_visit m img visit) (c, 0, False))
        (\<lambda>(c1, _, malformed). if malformed then Some (Inl HK_MACHO_MALFORMED) else Some (Inr c1)))"

text \<open>A string held by a buffer with a NUL, up to it; \<open>strcmp\<close> is equality of these.\<close>

definition c_string :: "byte list \<Rightarrow> byte list" where
  "c_string bs = takeWhile (\<lambda>b. b \<noteq> 0) bs"

definition find_segment_visit :: "memory \<Rightarrow> ptr \<Rightarrow> byte list \<Rightarrow> (hk_macho_segment option \<times> bool) lc_visit" where
  "find_segment_visit m base wanted f cmd offset cmdsize =
     (if cmd \<noteq> HK_LC_SEGMENT_64 then Some (f, True)
      else do {
        read_result \<leftarrow> read_segment m base offset cmdsize;
        (case read_result of
           None \<Rightarrow> Some ((fst f, True), False)
         | Some seg \<Rightarrow> if c_string (sg_segname seg) = wanted then Some ((Some seg, snd f), False) else Some (f, True))
      })"

definition hk_macho_find_segment :: "memory \<Rightarrow> ptr \<Rightarrow> nat \<Rightarrow> byte list \<Rightarrow> hk_macho_segment macho_result" where
  "hk_macho_find_segment m img sz segname =
     (if img = 0 then Some (Inl HK_MACHO_NOT_MACHO)
      else after_walk (hk_macho_iterate_load_commands m img sz (find_segment_visit m img segname) (None, False))
        (\<lambda>(found, malformed). if malformed then Some (Inl HK_MACHO_MALFORMED)
           else case found of None \<Rightarrow> Some (Inl HK_MACHO_NOT_FOUND) | Some seg \<Rightarrow> Some (Inr seg)))"

section \<open>Sections\<close>

definition read_section :: "memory \<Rightarrow> ptr \<Rightarrow> nat \<Rightarrow> hk_macho_section option" where
  "read_section m base offset = do {
     sectname \<leftarrow> rd_bytes m base offset 16; segname \<leftarrow> rd_bytes m base (offset + 16) 16;
     addr \<leftarrow> rd64 m base (offset + 32); sz \<leftarrow> rd64 m base (offset + 40);
     off \<leftarrow> rd32 m base (offset + 48); flags \<leftarrow> rd32 m base (offset + 64);
     reserved1 \<leftarrow> rd32 m base (offset + 68); reserved2 \<leftarrow> rd32 m base (offset + 72);
     Some \<lparr>sn_sectname = sectname @ [0], sn_segname = segname @ [0], sn_addr = addr, sn_size = sz, sn_offset = off,
       sn_flags = flags, sn_reserved1 = reserved1, sn_reserved2 = reserved2\<rparr> }"

type_synonym 'c section_visit = "'c \<Rightarrow> nat \<Rightarrow> hk_macho_section \<Rightarrow> ('c \<times> bool) option"

text \<open>The sections of one segment, from number \<open>i\<close> of it; \<open>False\<close> when the walk is to stop.\<close>

primrec sections_of_segment :: "memory \<Rightarrow> ptr \<Rightarrow> 'c section_visit \<Rightarrow> nat \<Rightarrow> nat \<Rightarrow> nat \<Rightarrow> nat \<Rightarrow> 'c \<Rightarrow> ('c \<times> bool) option" where
  "sections_of_segment m base visit offset running i 0 c = Some (c, True)"
| "sections_of_segment m base visit offset running i (Suc n) c = do {
     sec \<leftarrow> read_section m base (offset + HK_SEGMENT_COMMAND_64_SIZE + i * HK_SECTION_64_SIZE);
     (let n_sect = running + i + 1
      in if n_sect > 255 then Some (c, False)
         else do {
           (c1, go_on) \<leftarrow> visit c n_sect sec;
           (if \<not> go_on then Some (c1, False) else sections_of_segment m base visit offset running (i + 1) n c1)
         })
   }"

text \<open>The context: the client's, the sections of the preceding segments, and whether a segment was malformed.\<close>

definition sections_visit :: "memory \<Rightarrow> ptr \<Rightarrow> 'c section_visit \<Rightarrow> ('c \<times> nat \<times> bool) lc_visit" where
  "sections_visit m base visit s cmd offset cmdsize =
     (let (c, running, malformed) = s in
      if cmd \<noteq> HK_LC_SEGMENT_64 then Some (s, True)
      else do {
        read_result \<leftarrow> read_segment m base offset cmdsize;
        (case read_result of
           None \<Rightarrow> Some ((c, running, True), False)
         | Some seg \<Rightarrow>
             (if \<not> sections_fit seg then Some ((c, running, True), False)
              else do {
                (c1, go_on) \<leftarrow> sections_of_segment m base visit offset running 0 (unat (sg_nsects seg)) c;
                Some ((c1, if go_on then running + unat (sg_nsects seg) else running, malformed), go_on)
              }))
      })"

definition hk_macho_iterate_sections :: "memory \<Rightarrow> ptr \<Rightarrow> nat \<Rightarrow> 'c section_visit \<Rightarrow> 'c \<Rightarrow> 'c macho_result" where
  "hk_macho_iterate_sections m img sz visit c =
     (if img = 0 then Some (Inl HK_MACHO_NOT_MACHO)
      else after_walk (hk_macho_iterate_load_commands m img sz (sections_visit m img visit) (c, 0, False))
        (\<lambda>(c1, _, malformed). if malformed then Some (Inl HK_MACHO_MALFORMED) else Some (Inr c1)))"

definition section_lookup_visit :: "nat \<Rightarrow> hk_macho_section option section_visit" where
  "section_lookup_visit wanted l n_sect sec = Some (if n_sect = wanted then (Some sec, False) else (l, True))"

text \<open>\<open>n_sect\<close> is a byte.\<close>

definition hk_macho_section_info :: "memory \<Rightarrow> ptr \<Rightarrow> nat \<Rightarrow> byte \<Rightarrow> hk_macho_section macho_result" where
  "hk_macho_section_info m img sz n_sect =
     (if img = 0 then Some (Inl HK_MACHO_NOT_MACHO)
      else if n_sect = 0 then Some (Inl HK_MACHO_NOT_FOUND)
      else on_ok (hk_macho_iterate_sections m img sz (section_lookup_visit (unat n_sect)) None) (\<lambda>l.
        case l of None \<Rightarrow> Some (Inl HK_MACHO_NOT_FOUND) | Some sec \<Rightarrow> Some (Inr sec)))"

definition hk_macho_section_flags :: "memory \<Rightarrow> ptr \<Rightarrow> nat \<Rightarrow> byte \<Rightarrow> u32 macho_result" where
  "hk_macho_section_flags m img sz n_sect =
     on_ok (hk_macho_section_info m img sz n_sect) (\<lambda>sec. Some (Inr (sn_flags sec)))"

definition hk_macho_section_is_code :: "u32 \<Rightarrow> bool" where
  "hk_macho_section_is_code flags \<longleftrightarrow> flags AND (HK_S_ATTR_PURE_INSTRUCTIONS OR HK_S_ATTR_SOME_INSTRUCTIONS) \<noteq> 0"

definition address_section_visit :: "u64 \<Rightarrow> u64 \<Rightarrow> bool option section_visit" where
  "address_section_visit slide address c n_sect sec =
     Some (if sn_size sec > - 1 - sn_addr sec \<or> sn_addr sec > - 1 - slide then (c, True)
       else let start = sn_addr sec + slide; end64 = sn_addr sec + sn_size sec
         in if end64 > - 1 - slide then (c, True)
            else if address \<ge> start \<and> address < end64 + slide
            then (Some (hk_macho_section_is_code (sn_flags sec)), False)
            else (c, True))"

definition hk_macho_runtime_address_is_code :: "memory \<Rightarrow> ptr \<Rightarrow> nat \<Rightarrow> u64 \<Rightarrow> u64 \<Rightarrow> bool macho_result" where
  "hk_macho_runtime_address_is_code m header region_size slide address =
     (if header = 0 then Some (Inl HK_MACHO_NOT_MACHO)
      else on_ok (hk_macho_iterate_sections m header region_size (address_section_visit slide address) None) (\<lambda>found.
        case found of None \<Rightarrow> Some (Inl HK_MACHO_NOT_FOUND) | Some code \<Rightarrow> Some (Inr code)))"

section \<open>Tables in \<open>__LINKEDIT\<close>\<close>

text \<open>What a visitor of one table has found: the declared offset and size, and whether the command was too small.\<close>

definition dysymtab_visit :: "memory \<Rightarrow> ptr \<Rightarrow> ((nat \<times> nat) option \<times> bool) lc_visit" where
  "dysymtab_visit m base d cmd offset cmdsize =
     (if cmd \<noteq> HK_LC_DYSYMTAB then Some (d, True)
      else if cmdsize < HK_DYSYMTAB_COMMAND_SIZE then Some ((fst d, True), False)
      else do {
        off \<leftarrow> map_option unat (rd32 m base (offset + 56)); count \<leftarrow> map_option unat (rd32 m base (offset + 60));
        Some ((Some (off, count), snd d), False)
      })"

text \<open>Absence and a size of zero are both \<open>HK_MACHO_NOT_FOUND\<close>.\<close>

definition table_found :: "(nat \<times> nat) option \<times> bool \<Rightarrow> (nat \<times> nat) macho_result" where
  "table_found = (\<lambda>(found, malformed). if malformed then Some (Inl HK_MACHO_MALFORMED)
     else case found of None \<Rightarrow> Some (Inl HK_MACHO_NOT_FOUND)
       | Some (off, n) \<Rightarrow> if n = 0 then Some (Inl HK_MACHO_NOT_FOUND) else Some (Inr (off, n)))"

definition hk_macho_find_indirect_symbols :: "memory \<Rightarrow> ptr \<Rightarrow> nat \<Rightarrow> (nat \<times> nat) macho_result" where
  "hk_macho_find_indirect_symbols m img sz =
     (if img = 0 then Some (Inl HK_MACHO_NOT_MACHO)
      else after_walk (hk_macho_iterate_load_commands m img sz (dysymtab_visit m img) (None, False)) table_found)"

definition export_trie_visit :: "memory \<Rightarrow> ptr \<Rightarrow> ((nat \<times> nat) option \<times> bool) lc_visit" where
  "export_trie_visit m base e cmd offset cmdsize =
     (if cmd = HK_LC_DYLD_EXPORTS_TRIE then
        (if cmdsize < HK_LINKEDIT_DATA_CMD_SIZE then Some ((fst e, True), False)
         else do {
           off \<leftarrow> map_option unat (rd32 m base (offset + 8)); n \<leftarrow> map_option unat (rd32 m base (offset + 12));
           Some ((Some (off, n), snd e), False)
         })
      else if (cmd = HK_LC_DYLD_INFO \<or> cmd = HK_LC_DYLD_INFO_ONLY) \<and> fst e = None then
        (if cmdsize < HK_DYLD_INFO_COMMAND_SIZE then Some ((fst e, True), False)
         else do {
           off \<leftarrow> map_option unat (rd32 m base (offset + 40)); n \<leftarrow> map_option unat (rd32 m base (offset + 44));
           Some ((Some (off, n), snd e), True)
         })
      else Some (e, True))"

definition export_trie_file_range :: "memory \<Rightarrow> ptr \<Rightarrow> nat \<Rightarrow> (nat \<times> nat) macho_result" where
  "export_trie_file_range m img sz =
     after_walk (hk_macho_iterate_load_commands m img sz (export_trie_visit m img) (None, False)) table_found"

definition linkedit_data_visit :: "memory \<Rightarrow> ptr \<Rightarrow> ((nat \<times> nat) option \<times> bool) lc_visit" where
  "linkedit_data_visit m base d cmd offset cmdsize =
     (if cmd \<noteq> HK_LC_DYLD_CHAINED_FIXUPS then Some (d, True)
      else if cmdsize < HK_LINKEDIT_DATA_CMD_SIZE then Some ((fst d, True), False)
      else do {
        off \<leftarrow> map_option unat (rd32 m base (offset + 8)); n \<leftarrow> map_option unat (rd32 m base (offset + 12));
        Some ((Some (off, n), snd d), False)
      })"

definition chained_fixups_file_range :: "memory \<Rightarrow> ptr \<Rightarrow> nat \<Rightarrow> (nat \<times> nat) macho_result" where
  "chained_fixups_file_range m img sz =
     after_walk (hk_macho_iterate_load_commands m img sz (linkedit_data_visit m img) (None, False)) table_found"

definition within_file :: "nat \<Rightarrow> (nat \<times> nat) \<Rightarrow> (nat \<times> nat) macho_result" where
  "within_file sz = (\<lambda>(off, len). if off > sz \<or> len > sz - off then Some (Inl HK_MACHO_MALFORMED) else Some (Inr (off, len)))"

definition hk_macho_find_export_trie :: "memory \<Rightarrow> ptr \<Rightarrow> nat \<Rightarrow> (nat \<times> nat) macho_result" where
  "hk_macho_find_export_trie m img sz =
     (if img = 0 then Some (Inl HK_MACHO_NOT_MACHO) else on_ok (export_trie_file_range m img sz) (within_file sz))"

definition hk_macho_find_chained_fixups :: "memory \<Rightarrow> ptr \<Rightarrow> nat \<Rightarrow> (nat \<times> nat) macho_result" where
  "hk_macho_find_chained_fixups m img sz =
     (if img = 0 then Some (Inl HK_MACHO_NOT_MACHO) else on_ok (chained_fixups_file_range m img sz) (within_file sz))"

text \<open>Where \<open>__LINKEDIT\<close> is mapped: the base that turns a file offset into an address, and its file range.\<close>

definition LINKEDIT :: "byte list" where "LINKEDIT = str_bytes ''__LINKEDIT''"

definition linkedit_mapping :: "memory \<Rightarrow> ptr \<Rightarrow> nat \<Rightarrow> u64 \<Rightarrow> (u64 \<times> u64 \<times> u64) macho_result" where
  "linkedit_mapping m header region_size slide =
     on_ok (hk_macho_find_segment m header region_size LINKEDIT) (\<lambda>seg.
       if sg_filesize seg > - 1 - sg_fileoff seg then Some (Inl HK_MACHO_MALFORMED)
       else if sg_fileoff seg > sg_vmaddr seg then Some (Inl HK_MACHO_MALFORMED)
       else Some (Inr (slide + (sg_vmaddr seg - sg_fileoff seg), sg_fileoff seg, sg_fileoff seg + sg_filesize seg)))"

definition within_linkedit :: "u64 \<Rightarrow> u64 \<Rightarrow> u64 \<Rightarrow> u64 \<Rightarrow> bool" where
  "within_linkedit offset len file_start file_end \<longleftrightarrow>
     \<not> (offset < file_start \<or> offset > file_end) \<and> len \<le> file_end - offset"

definition hk_macho_symtab_view_for_loaded_image :: "memory \<Rightarrow> ptr \<Rightarrow> nat \<Rightarrow> u64 \<Rightarrow> hk_symbol_table_view macho_result" where
  "hk_macho_symtab_view_for_loaded_image m header region_size slide =
     (if header = 0 then Some (Inl HK_MACHO_NOT_MACHO)
      else on_ok (linkedit_mapping m header region_size slide) (\<lambda>(linkedit_base, le_start, le_end).
        on_ok (hk_macho_find_load_command m header region_size HK_LC_SYMTAB) (\<lambda>(offset, cmdsize).
          if cmdsize < HK_SYMTAB_COMMAND_SIZE then Some (Inl HK_MACHO_MALFORMED)
          else do {
            (symoff, nsyms, stroff, strsize) \<leftarrow> read_symtab m header offset;
            (if \<not> within_linkedit (of_nat symoff) (of_nat (nsyms * NLIST64_SIZE)) le_start le_end then Some (Inl HK_MACHO_MALFORMED)
             else if \<not> within_linkedit (of_nat stroff) (of_nat strsize) le_start le_end then Some (Inl HK_MACHO_MALFORMED)
             else if unat (linkedit_base + of_nat symoff) mod NLIST64_ALIGN \<noteq> 0 then Some (Inl HK_MACHO_MALFORMED)
             else Some (Inr \<lparr>sv_nlist = linkedit_base + of_nat symoff, sv_nlist_count = of_nat nsyms,
                    sv_strings = linkedit_base + of_nat stroff, sv_strings_size = strsize\<rparr>))
          })))"

text \<open>A table of a loaded image, from the file range its command declares.\<close>

definition loaded_table :: "memory \<Rightarrow> ptr \<Rightarrow> nat \<Rightarrow> u64 \<Rightarrow> (nat \<times> nat) macho_result \<Rightarrow> (ptr \<times> nat) macho_result" where
  "loaded_table m header region_size slide declared =
     on_ok declared (\<lambda>(off, len).
       on_ok (linkedit_mapping m header region_size slide) (\<lambda>(linkedit_base, file_start, file_end).
         if \<not> within_linkedit (of_nat off) (of_nat len) file_start file_end then Some (Inl HK_MACHO_MALFORMED)
         else Some (Inr (linkedit_base + of_nat off, len))))"

definition hk_macho_export_trie_for_loaded_image :: "memory \<Rightarrow> ptr \<Rightarrow> nat \<Rightarrow> u64 \<Rightarrow> (ptr \<times> nat) macho_result" where
  "hk_macho_export_trie_for_loaded_image m header region_size slide =
     (if header = 0 then Some (Inl HK_MACHO_NOT_MACHO)
      else loaded_table m header region_size slide (export_trie_file_range m header region_size))"

definition hk_macho_chained_fixups_for_loaded_image :: "memory \<Rightarrow> ptr \<Rightarrow> nat \<Rightarrow> u64 \<Rightarrow> (ptr \<times> nat) macho_result" where
  "hk_macho_chained_fixups_for_loaded_image m header region_size slide =
     (if header = 0 then Some (Inl HK_MACHO_NOT_MACHO)
      else loaded_table m header region_size slide (chained_fixups_file_range m header region_size))"

section \<open>The span of a loaded image\<close>

definition PAGEZERO :: "byte list" where "PAGEZERO = str_bytes ''__PAGEZERO''"

text \<open>The accumulator: the least address and the greatest end so far, \<open>None\<close> before the first segment that counts.\<close>

definition span_visit :: "(u64 \<times> u64) option \<Rightarrow> nat \<Rightarrow> hk_macho_segment \<Rightarrow> (u64 \<times> u64) option \<times> bool" where
  "span_visit acc index seg =
     (if sg_vmsize seg = 0 then (acc, True)
      else if c_string (sg_segname seg) = PAGEZERO then (acc, True)
      else let fin = sg_vmaddr seg + sg_vmsize seg
        in if fin < sg_vmaddr seg then (acc, True)
           else (case acc of None \<Rightarrow> Some (sg_vmaddr seg, fin)
               | Some (lo, hi) \<Rightarrow> Some (if sg_vmaddr seg < lo then sg_vmaddr seg else lo, if fin > hi then fin else hi), True))"

definition hk_macho_image_span_for_loaded_image :: "memory \<Rightarrow> ptr \<Rightarrow> nat \<Rightarrow> u64 \<Rightarrow> (u64 \<times> u64) macho_result" where
  "hk_macho_image_span_for_loaded_image m header region_size slide =
     (if header = 0 then Some (Inl HK_MACHO_NOT_MACHO)
      else on_ok (hk_macho_iterate_segments m header region_size span_visit None) (\<lambda>acc.
        case acc of None \<Rightarrow> Some (Inl HK_MACHO_NOT_FOUND) | Some (lo, hi) \<Rightarrow> Some (Inr (lo + slide, hi + slide))))"

end
