(* ===== verification/HK_MachO_Props.thy ===== *)
theory HK_MachO_Props
  imports HK_MachO HK_Answers
begin

text \<open>
  What the Mach-O parser guarantees: with the bytes of the declared size readable, and a size below 4 GiB,
  no read falls outside them, and every table it reports lies inside them. The bound of 4 GiB is
  needed: \<open>hostile_image_read_past_end\<close> is an image whose load commands end, in 32 bits, before they begin.
\<close>

section \<open>Results\<close>

lemma answers_on_ok: "answers r \<Longrightarrow> (\<And>v. r = Some (Inr v) \<Longrightarrow> answers (f v)) \<Longrightarrow> answers (on_ok r f)"
  by (auto simp: on_ok_def answers_def split: option.split sum.split)

lemma answers_after_walk: "answers r \<Longrightarrow> (\<And>c. r = Some (HK_MACHO_OK, c) \<Longrightarrow> answers (f c)) \<Longrightarrow> answers (after_walk r f)"
  by (auto simp: after_walk_def answers_def split: option.split prod.split)

lemmas answers_rules = answers_basic answers_on_ok answers_after_walk

lemma on_ok_Inr: "on_ok r f = Some (Inr v) \<longleftrightarrow> (\<exists>u. r = Some (Inr u) \<and> f u = Some (Inr v))"
  by (auto simp: on_ok_def split: option.splits sum.splits)

lemma after_walk_Inr: "after_walk r f = Some (Inr v) \<longleftrightarrow> (\<exists>c. r = Some (HK_MACHO_OK, c) \<and> f c = Some (Inr v))"
  by (auto simp: after_walk_def split: option.splits prod.splits)

section \<open>The header\<close>

lemma peek_header_ok:
  assumes "readable m p sz"
  shows "answers (hk_macho_peek_header m p sz)"
  unfolding hk_macho_peek_header_def by (intro answers_rules answers_reads [OF assms]) (simp_all add: macho_sizes)

lemma peek_header_Inr:
  assumes "hk_macho_peek_header m p sz = Some (Inr h)"
  shows "p \<noteq> 0" "32 \<le> sz" "rd32 m p 0 = Some HK_MH_MAGIC_64"
    "rd32 m p 4 = Some (mh_cputype h)" "rd32 m p 8 = Some (mh_cpusubtype h)"
    "rd32 m p 16 = Some (mh_ncmds h)" "rd32 m p 20 = Some (mh_sizeofcmds h)"
  using assms by (auto simp: hk_macho_peek_header_def macho_sizes split: if_splits bind_splits)

lemma read_header_ok: "readable m p sz \<Longrightarrow> answers (hk_macho_read_header m p sz)"
  unfolding hk_macho_read_header_def by (intro answers_rules peek_header_ok)

lemma read_header_Inr:
  assumes "hk_macho_read_header m p sz = Some (Inr h)"
  shows "hk_macho_peek_header m p sz = Some (Inr h)" "32 + unat (mh_sizeofcmds h) \<le> sz"
  using assms peek_header_Inr(2) [of m p sz h] unfolding hk_macho_read_header_def on_ok_Inr
  by (auto simp: macho_sizes split: if_splits)

section \<open>The walk over load commands\<close>

lemma room_inside: "offset \<le> fin \<Longrightarrow> fin < 2 ^ 64 \<Longrightarrow> room fin offset = fin - offset"
proof -
  assume a: "offset \<le> fin" "fin < 2 ^ 64"
  then have u: "unat (of_nat fin :: u64) = fin" "unat (of_nat offset :: u64) = offset"
    by (simp_all add: unat_of_nat take_bit_nat_eq_self)
  then show ?thesis using a unat_sub [of "of_nat offset" "of_nat fin :: u64"] by (simp add: room_def word_le_nat_alt)
qed

text \<open>A visitor that reads only inside the command it is given.\<close>

definition reads_inside :: "nat \<Rightarrow> 'c lc_visit \<Rightarrow> bool" where
  "reads_inside sz visit \<longleftrightarrow> (\<forall>c cmd offset cmdsize. 8 \<le> cmdsize \<longrightarrow> offset + cmdsize \<le> sz \<longrightarrow> answers (visit c cmd offset cmdsize))"

lemma reads_insideI:
  "(\<And>c cmd offset cmdsize. 8 \<le> cmdsize \<Longrightarrow> offset + cmdsize \<le> sz \<Longrightarrow> answers (visit c cmd offset cmdsize)) \<Longrightarrow> reads_inside sz visit"
  by (simp add: reads_inside_def)

lemma walk_ok:
  assumes r: "readable m p sz" "fin \<le> sz" "fin < 2 ^ 64" and v: "reads_inside sz visit"
  shows "offset \<le> fin \<Longrightarrow> answers (walk_commands m p fin visit n offset c)"
proof (induction n arbitrary: offset c)
  case 0
  then show ?case by (simp add: answers_Some)
next
  case (Suc n)
  note rm = room_inside [OF Suc.prems r(3)]
  show ?case
    unfolding walk_commands.simps
  proof (intro answers_rules answers_reads [OF r(1)])
    assume "\<not> room fin offset < HK_LOAD_COMMAND_SIZE"
    then have i: "offset + 8 \<le> fin" using rm Suc.prems by (simp add: macho_sizes)
    then show "offset + 4 \<le> sz" "offset + 4 + 4 \<le> sz" using r(2) by simp_all
    fix cmd cmdsize vis c1 go_on
    assume "\<not> (cmdsize < HK_LOAD_COMMAND_SIZE \<or> cmdsize mod 8 \<noteq> 0)" "\<not> room fin offset < cmdsize"
    then have f: "8 \<le> cmdsize" "offset + cmdsize \<le> fin" using rm i by (simp_all add: macho_sizes)
    show "answers (visit c cmd offset cmdsize)" using v f r(2) by (simp add: reads_inside_def)
    show "answers (walk_commands m p fin visit n (offset + cmdsize) c1)" by (rule Suc.IH [OF f(2)])
  qed
qed

text \<open>What holds of the context of a walk, when every command inside the region keeps it.\<close>

lemma walk_inv:
  assumes "walk_commands m p fin visit n offset c = Some (st, c1)" "offset \<le> fin" "fin < 2 ^ 64" "P c"
    and "\<And>c cmd offset cmdsize c1 b. P c \<Longrightarrow> offset + cmdsize \<le> fin \<Longrightarrow> visit c cmd offset cmdsize = Some (c1, b) \<Longrightarrow> P c1"
  shows "P c1"
  using assms(1,2,4)
proof (induction n arbitrary: offset c)
  case (Suc n)
  note rm = room_inside [OF Suc.prems(2) assms(3)]
  show ?case
  proof (cases "room fin offset < HK_LOAD_COMMAND_SIZE")
    case True
    then show ?thesis using Suc.prems by simp
  next
    case False
    then obtain cmd w where rd: "rd32 m p offset = Some cmd" "rd32 m p (offset + 4) = Some w"
      using Suc.prems(1) by (auto split: bind_splits)
    show ?thesis
    proof (cases "unat w < HK_LOAD_COMMAND_SIZE \<or> unat w mod 8 \<noteq> 0 \<or> unat w > room fin offset")
      case True
      then show ?thesis using Suc.prems False rd by (auto split: if_splits)
    next
      case fits: False
      then have f: "offset + unat w \<le> fin" using rm Suc.prems(2) by auto
      obtain c2 go_on where vis: "visit c cmd offset (unat w) = Some (c2, go_on)"
        using Suc.prems(1) False rd fits by (auto split: bind_splits)
      have "P c2" by (rule assms(5) [OF Suc.prems(3) f vis])
      then show ?thesis using Suc.prems(1) False rd fits vis Suc.IH [OF _ f] by (auto split: if_splits)
    qed
  qed
qed simp

lemma commands_end:
  assumes "hk_macho_read_header m p sz = Some (Inr h)" "sz < 2 ^ 32"
  shows "unat (32 + mh_sizeofcmds h) = 32 + unat (mh_sizeofcmds h)" "unat (32 + mh_sizeofcmds h) \<le> sz"
    "unat (32 + mh_sizeofcmds h) < 2 ^ 64" "32 \<le> unat (32 + mh_sizeofcmds h)"
proof -
  have "32 + unat (mh_sizeofcmds h) < 2 ^ 32" using read_header_Inr(2) [OF assms(1)] assms(2) by linarith
  then show u: "unat (32 + mh_sizeofcmds h) = 32 + unat (mh_sizeofcmds h)" by (simp add: unat_word_ariths)
  show "unat (32 + mh_sizeofcmds h) \<le> sz" "unat (32 + mh_sizeofcmds h) < 2 ^ 64" "32 \<le> unat (32 + mh_sizeofcmds h)"
    using read_header_Inr(2) [OF assms(1)] assms(2) by (simp_all add: u)
qed

lemma iterate_ok:
  assumes "readable m p sz" "sz < 2 ^ 32" "reads_inside sz visit"
  shows "answers (hk_macho_iterate_load_commands m p sz visit c)"
  unfolding hk_macho_iterate_load_commands_def
proof (intro answers_rules)
  show "hk_macho_read_header m p sz = None \<Longrightarrow> answers None" using read_header_ok [OF assms(1)] by (simp add: answers_def)
  fix v h assume "hk_macho_read_header m p sz = Some v" "v = Inr h"
  then have h: "hk_macho_read_header m p sz = Some (Inr h)" by simp
  show "answers (walk_commands m p (unat (32 + mh_sizeofcmds h)) visit (unat (mh_ncmds h)) HK_MACHO_HEADER_64_SIZE c)"
    using walk_ok [OF assms(1) _ _ assms(3)] commands_end [OF h assms(2)] by (simp add: macho_sizes)
qed

lemma iterate_inv:
  assumes "hk_macho_iterate_load_commands m p sz visit c = Some (HK_MACHO_OK, c1)" "sz < 2 ^ 32" "P c"
    and "\<And>c cmd offset cmdsize c1 b. P c \<Longrightarrow> offset + cmdsize \<le> sz \<Longrightarrow> visit c cmd offset cmdsize = Some (c1, b) \<Longrightarrow> P c1"
  shows "P c1"
proof -
  from assms(1) consider "c1 = c"
    | h where "hk_macho_read_header m p sz = Some (Inr h)"
        "walk_commands m p (unat (32 + mh_sizeofcmds h)) visit (unat (mh_ncmds h)) 32 c = Some (HK_MACHO_OK, c1)"
    unfolding hk_macho_iterate_load_commands_def by (auto simp: macho_sizes split: option.splits sum.splits)
  then show ?thesis
  proof cases
    case 1
    then show ?thesis using assms(3) by simp
  next
    case (2 h)
    note e = commands_end [OF 2(1) assms(2)]
    show ?thesis
    proof (rule walk_inv [OF 2(2) e(4,3), where P = P])
      show "P c" by (rule assms(3))
      fix c cmd offset cmdsize c1 b
      assume "P c" "offset + cmdsize \<le> unat (32 + mh_sizeofcmds h)" "visit c cmd offset cmdsize = Some (c1, b)"
      then show "P c1" using assms(4) e(2) order_trans by blast
    qed
  qed
qed

section \<open>The functions of the parser\<close>

lemma find_load_command_ok: "readable m p sz \<Longrightarrow> sz < 2 ^ 32 \<Longrightarrow> answers (hk_macho_find_load_command m p sz cmd)"
  unfolding hk_macho_find_load_command_def
  by (intro answers_rules iterate_ok reads_insideI) (simp_all add: find_lc_visit_def answers_Some)

text \<open>A command that was found lies inside the image.\<close>

lemma find_load_command_inside:
  assumes "hk_macho_find_load_command m p sz cmd = Some (Inr (offset, cmdsize))" "sz < 2 ^ 32"
  shows "offset + cmdsize \<le> sz"
proof -
  have "hk_macho_iterate_load_commands m p sz (find_lc_visit cmd) None = Some (HK_MACHO_OK, Some (offset, cmdsize))"
    using assms(1) unfolding hk_macho_find_load_command_def after_walk_Inr by (auto split: option.splits)
  then have "\<forall>x. Some (offset, cmdsize) = Some x \<longrightarrow> fst x + snd x \<le> sz"
    by (rule iterate_inv [OF _ assms(2), where P = "\<lambda>c. \<forall>x. c = Some x \<longrightarrow> fst x + snd x \<le> sz"])
      (auto simp: find_lc_visit_def split: if_splits)
  then show ?thesis by simp
qed

lemma read_segment_ok:
  "readable m p sz \<Longrightarrow> offset + cmdsize \<le> sz \<Longrightarrow> answers (read_segment m p offset cmdsize)"
  unfolding read_segment_def by (intro answers_rules answers_reads [where n = sz]) (simp_all add: macho_sizes)

lemma read_segment_fields:
  assumes "read_segment m p offset cmdsize = Some (Some seg)"
  shows "sg_cmdsize seg = cmdsize" "sg_command_offset seg = offset"
  using assms by (auto simp: read_segment_def split: if_splits bind_splits)

lemma iterate_segments_ok:
  "readable m p sz \<Longrightarrow> sz < 2 ^ 32 \<Longrightarrow> answers (hk_macho_iterate_segments m p sz visit c)"
  unfolding hk_macho_iterate_segments_def
  by (intro answers_rules iterate_ok reads_insideI) (auto simp: segments_visit_def intro!: answers_rules read_segment_ok [where sz = sz])

lemma find_segment_ok: "readable m p sz \<Longrightarrow> sz < 2 ^ 32 \<Longrightarrow> answers (hk_macho_find_segment m p sz name)"
  unfolding hk_macho_find_segment_def
  by (intro answers_rules iterate_ok reads_insideI) (auto simp: find_segment_visit_def intro!: answers_rules read_segment_ok [where sz = sz])

lemma sections_of_segment_ok:
  assumes "readable m p sz" "\<And>c n sec. answers (visit c n sec)"
  shows "offset + HK_SEGMENT_COMMAND_64_SIZE + (i + n) * HK_SECTION_64_SIZE \<le> sz \<Longrightarrow>
    answers (sections_of_segment m p visit offset running i n c)"
proof (induction n arbitrary: i c)
  case 0
  then show ?case by (simp add: answers_Some)
next
  case (Suc n)
  show ?case
    unfolding sections_of_segment.simps Let_def read_section_def
    by (intro answers_rules answers_reads [OF assms(1)] assms(2) Suc.IH) (use Suc.prems in \<open>simp_all add: macho_sizes algebra_simps\<close>)
qed

lemma sections_visit_ok:
  assumes r: "readable m p sz" and v: "\<And>c n sec. answers (visit c n sec)" and o: "offset + cmdsize \<le> sz"
  shows "answers (sections_visit m p visit s cmd offset cmdsize)"
proof -
  have fit: "offset + HK_SEGMENT_COMMAND_64_SIZE + (0 + unat (sg_nsects seg)) * HK_SECTION_64_SIZE \<le> sz"
    if "read_segment m p offset cmdsize = Some (Some seg)" "sections_fit seg" for seg
    using read_segment_fields(1) [OF that(1)] that(2) o by (simp add: sections_fit_def)
  show ?thesis
    unfolding sections_visit_def Let_def
    by (intro answers_rules read_segment_ok [OF r o] sections_of_segment_ok [OF r v] fit) simp_all
qed

lemma iterate_sections_ok:
  assumes "readable m p sz" "sz < 2 ^ 32" "\<And>c n sec. answers (visit c n sec)"
  shows "answers (hk_macho_iterate_sections m p sz visit c)"
  unfolding hk_macho_iterate_sections_def
  by (intro answers_rules iterate_ok [OF assms(1,2)] reads_insideI sections_visit_ok [OF assms(1,3)])

text \<open>What the visitor keeps for every section of the image, the walk keeps.\<close>

lemma sections_of_segment_inv:
  assumes "sections_of_segment m p visit offset running i n c = Some (c1, b)" "P c"
    and "\<And>c k sec c1 b off. P c \<Longrightarrow> read_section m p off = Some sec \<Longrightarrow> visit c k sec = Some (c1, b) \<Longrightarrow> P c1"
  shows "P c1"
  using assms(1,2)
proof (induction n arbitrary: i c)
  case (Suc n)
  then show ?case using assms(3) by (auto simp: Let_def split: if_splits bind_splits)
qed simp

lemma iterate_sections_inv:
  assumes "hk_macho_iterate_sections m p sz visit c = Some (Inr c1)" "sz < 2 ^ 32" "P c"
    and "\<And>c k sec c1 b off. P c \<Longrightarrow> read_section m p off = Some sec \<Longrightarrow> visit c k sec = Some (c1, b) \<Longrightarrow> P c1"
  shows "P c1"
proof -
  obtain s where s: "hk_macho_iterate_load_commands m p sz (sections_visit m p visit) (c, 0, False) = Some (HK_MACHO_OK, s)" "fst s = c1"
    using assms(1) by (auto simp: hk_macho_iterate_sections_def after_walk_Inr split: if_splits prod.splits)
  have "P (fst s)"
  proof (rule iterate_inv [OF s(1) assms(2), where P = "\<lambda>s. P (fst s)"])
    fix s cmd offset cmdsize s1 b
    assume "P (fst s)" "sections_visit m p visit s cmd offset cmdsize = Some (s1, b)"
    then show "P (fst s1)"
      using sections_of_segment_inv [of m p visit offset _ 0 _ "fst s" _ _ P] assms(4)
      by (auto simp: sections_visit_def Let_def split: if_splits bind_splits option.splits prod.splits)
  qed (use assms(3) in simp)
  with s(2) show ?thesis by simp
qed

lemma section_info_ok: "readable m p sz \<Longrightarrow> sz < 2 ^ 32 \<Longrightarrow> answers (hk_macho_section_info m p sz n)"
  unfolding hk_macho_section_info_def
  by (intro answers_rules iterate_sections_ok) (simp_all add: section_lookup_visit_def answers_Some)

lemma table_found_ok: "answers (table_found r)"
  unfolding table_found_def by (cases r) (auto simp: answers_def split: option.split)

lemma within_file_ok: "answers (within_file sz r)"
  unfolding within_file_def by (cases r) (auto simp: answers_def)

lemma linkedit_mapping_ok: "readable m p sz \<Longrightarrow> sz < 2 ^ 32 \<Longrightarrow> answers (linkedit_mapping m p sz slide)"
  unfolding linkedit_mapping_def by (intro answers_rules find_segment_ok)

lemma file_ranges_ok:
  assumes "readable m p sz" "sz < 2 ^ 32"
  shows "answers (hk_macho_find_indirect_symbols m p sz)" "answers (export_trie_file_range m p sz)"
    "answers (chained_fixups_file_range m p sz)"
  unfolding hk_macho_find_indirect_symbols_def export_trie_file_range_def chained_fixups_file_range_def
    dysymtab_visit_def export_trie_visit_def linkedit_data_visit_def
  by (intro answers_rules iterate_ok [OF assms] reads_insideI table_found_ok answers_reads [OF assms(1)]; simp add: macho_sizes)+

lemma symtab_views_ok:
  assumes "readable m p sz" "sz < 2 ^ 32"
  shows "answers (hk_macho_find_symtab_view m p sz)" "answers (hk_macho_symtab_view_for_loaded_image m p sz slide)"
proof -
  have rd: "answers (read_symtab m p offset)"
    if "hk_macho_find_load_command m p sz HK_LC_SYMTAB = Some (Inr v)" "v = (offset, cmdsize)" "\<not> cmdsize < HK_SYMTAB_COMMAND_SIZE" for v offset cmdsize
    using find_load_command_inside [of m p sz HK_LC_SYMTAB offset cmdsize] assms(2) that unfolding read_symtab_def
    by (intro answers_rules answers_reads [OF assms(1)]) (simp_all add: macho_sizes)
  show "answers (hk_macho_find_symtab_view m p sz)" "answers (hk_macho_symtab_view_for_loaded_image m p sz slide)"
    unfolding hk_macho_find_symtab_view_def hk_macho_symtab_view_for_loaded_image_def
    by (intro answers_rules find_load_command_ok [OF assms] linkedit_mapping_ok [OF assms] rd; assumption)+
qed

lemma copy_uuid_ok:
  assumes "readable m p sz" "sz < 2 ^ 32"
  shows "answers (hk_macho_copy_uuid m p sz)"
  unfolding hk_macho_copy_uuid_def
proof (intro answers_rules find_load_command_ok [OF assms] answers_reads [OF assms(1)])
  fix v offset cmdsize
  assume "hk_macho_find_load_command m p sz HK_LC_UUID = Some (Inr v)" "v = (offset, cmdsize)" "\<not> cmdsize < 24"
  then show "offset + 8 + 16 \<le> sz" using find_load_command_inside [OF _ assms(2)] by fastforce
qed

lemma loaded_tables_ok:
  assumes "readable m p sz" "sz < 2 ^ 32"
  shows "answers (hk_macho_export_trie_for_loaded_image m p sz slide)"
    "answers (hk_macho_chained_fixups_for_loaded_image m p sz slide)"
    "answers (hk_macho_find_export_trie m p sz)" "answers (hk_macho_find_chained_fixups m p sz)"
  unfolding hk_macho_export_trie_for_loaded_image_def hk_macho_chained_fixups_for_loaded_image_def loaded_table_def
    hk_macho_find_export_trie_def hk_macho_find_chained_fixups_def
  by (intro answers_rules file_ranges_ok [OF assms] linkedit_mapping_ok [OF assms] within_file_ok)+

lemma select_arch_ok:
  assumes r: "readable m p sz" and s: "sz < 2 ^ 32"
  shows "8 + (i + n) * (if fat64 then 32 else 20) \<le> sz \<Longrightarrow> answers (select_arch m p sz cputype cpusubtype fat64 i n)"
proof (induction n arbitrary: i)
  case 0
  then show ?case by (simp add: answers_Some)
next
  case (Suc n)
  have i: "8 + i * (if fat64 then 32 else 20) + (if fat64 then 32 else 20) \<le> sz" using Suc.prems by (simp add: algebra_simps split: if_splits)
  have ih: "answers (select_arch m p sz cputype cpusubtype fat64 (i + 1) n)" by (rule Suc.IH) (use Suc.prems in simp)
  show ?case
    unfolding select_arch.simps Let_def
  proof (intro answers_rules answers_reads [OF r] ih read_header_ok)
    fix off len assume "\<not> (sz < off \<or> sz - off < len)"
    then show "readable m (p + of_nat off) len" using readable_offset [OF r, of off len] by auto
  qed (use i in \<open>simp_all split: if_splits\<close>)
qed

lemma select_slice_ok:
  assumes "readable m p sz" "sz < 2 ^ 32"
  shows "answers (hk_macho_select_slice m p sz cputype cpusubtype)"
  unfolding hk_macho_select_slice_def Let_def
  by (intro answers_rules read_header_ok [OF assms(1)] answers_reads [OF assms(1)] select_arch_ok [OF assms])
    (auto split: if_splits)

section \<open>Tables lie inside the image\<close>

lemma symtab_view_inside:
  assumes "hk_macho_find_symtab_view m p sz = Some (Inr v)"
  shows "\<exists>a b. sv_nlist v = p + of_nat a \<and> a + NLIST64_SIZE * unat (sv_nlist_count v) \<le> sz \<and>
    sv_strings v = p + of_nat b \<and> b + sv_strings_size v \<le> sz \<and> NLIST64_ALIGN dvd unat (sv_nlist v)"
proof -
  from assms obtain offset cmdsize symoff nsyms stroff strsize where
    t: "read_symtab m p offset = Some (symoff, nsyms, stroff, strsize)" and
    c: "\<not> (symoff > sz \<or> nsyms * NLIST64_SIZE > sz - symoff)" "\<not> (stroff > sz \<or> strsize > sz - stroff)"
      "unat (p + of_nat symoff) mod NLIST64_ALIGN = 0" and
    v: "v = \<lparr>sv_nlist = p + of_nat symoff, sv_nlist_count = of_nat nsyms, sv_strings = p + of_nat stroff, sv_strings_size = strsize\<rparr>"
    unfolding hk_macho_find_symtab_view_def on_ok_Inr by (fastforce split: if_splits bind_splits)
  have "unat (sv_nlist_count v) \<le> nsyms" by (simp add: v unat_of_nat take_bit_nat_less_eq_self)
  then have "NLIST64_SIZE * unat (sv_nlist_count v) \<le> nsyms * NLIST64_SIZE" by simp
  then have "symoff + NLIST64_SIZE * unat (sv_nlist_count v) \<le> sz" "stroff + strsize \<le> sz" using c by linarith+
  then show ?thesis using c(3) unfolding v by (intro exI [of _ symoff] exI [of _ stroff]) (simp add: mod_0_imp_dvd)
qed

lemma within_file_Inr: "within_file sz r = Some (Inr (off, len)) \<Longrightarrow> r = (off, len) \<and> off + len \<le> sz"
  unfolding within_file_def by (cases r) (auto split: if_splits)

lemma table_found_Inr: "table_found r = Some (Inr (off, len)) \<Longrightarrow> 0 < len"
  unfolding table_found_def by (cases r) (auto split: if_splits option.splits)

lemma export_trie_inside:
  assumes "hk_macho_find_export_trie m p sz = Some (Inr (off, len))"
  shows "off + len \<le> sz" "0 < len"
proof -
  obtain r where r: "export_trie_file_range m p sz = Some (Inr r)" "within_file sz r = Some (Inr (off, len))"
    using assms unfolding hk_macho_find_export_trie_def by (auto simp: on_ok_Inr split: if_splits)
  then show "off + len \<le> sz" "0 < len"
    using within_file_Inr [OF r(2)] table_found_Inr unfolding export_trie_file_range_def after_walk_Inr by auto
qed

lemma chained_fixups_inside:
  assumes "hk_macho_find_chained_fixups m p sz = Some (Inr (off, len))"
  shows "off + len \<le> sz" "0 < len"
proof -
  obtain r where r: "chained_fixups_file_range m p sz = Some (Inr r)" "within_file sz r = Some (Inr (off, len))"
    using assms unfolding hk_macho_find_chained_fixups_def by (auto simp: on_ok_Inr split: if_splits)
  then show "off + len \<le> sz" "0 < len"
    using within_file_Inr [OF r(2)] table_found_Inr unfolding chained_fixups_file_range_def after_walk_Inr by auto
qed

lemma select_arch_inside:
  "select_arch m p sz cputype cpusubtype fat64 i n = Some (Inr (sl, len)) \<Longrightarrow>
   \<exists>off h. sl = p + of_nat off \<and> off + len \<le> sz \<and> hk_macho_read_header m sl len = Some (Inr h) \<and>
     mh_cputype h = cputype \<and> mh_cpusubtype h = cpusubtype"
proof (induction n arbitrary: i)
  case (Suc n)
  from Suc.prems consider "select_arch m p sz cputype cpusubtype fat64 (i + 1) n = Some (Inr (sl, len))"
    | off h where "\<not> (off > sz \<or> len > sz - off)" "sl = p + of_nat off" "hk_macho_read_header m sl len = Some (Inr h)"
        "mh_cputype h = cputype" "mh_cpusubtype h = cpusubtype"
    unfolding select_arch.simps Let_def by (fastforce split: bind_splits if_split_asm sum.splits)
  then show ?case
  proof cases
    case 1
    then show ?thesis by (rule Suc.IH)
  next
    case (2 off h)
    then have "off + len \<le> sz" by linarith
    then show ?thesis using 2 by blast
  qed
qed simp

lemma select_slice_inside:
  assumes "hk_macho_select_slice m p sz cputype cpusubtype = Some (Inr (sl, len))"
  shows "\<exists>off h. sl = p + of_nat off \<and> off + len \<le> sz \<and> hk_macho_read_header m sl len = Some (Inr h) \<and>
     mh_cputype h = cputype \<and> mh_cpusubtype h = cpusubtype"
proof -
  have g: "\<not> (p = 0 \<or> sz < 4)" using assms unfolding hk_macho_select_slice_def by (auto split: if_splits)
  note run = assms [unfolded hk_macho_select_slice_def if_not_P [OF g]]
  show ?thesis
  proof (cases "hk_macho_read_header m p sz")
    case None
    then show ?thesis using run by simp
  next
    case (Some thin)
    show ?thesis
    proof (cases thin)
      case (Inr h)
      then have "mh_cputype h = cputype" "mh_cpusubtype h = cpusubtype" "sl = p" "len = sz"
        using run Some by (auto split: if_splits)
      then show ?thesis using Some Inr by (intro exI [of _ 0] exI [of _ h]) auto
    next
      case (Inl st)
      obtain magic where magic: "rd_be32 m p 0 = Some magic" using run Some Inl by (auto split: bind_splits)
      define fat64 where "fat64 = (magic = HK_FAT_MAGIC_64)"
      have "\<exists>n. select_arch m p sz cputype cpusubtype fat64 0 n = Some (Inr (sl, len))"
        using run unfolding Some bind.simps Inl sum.case magic Let_def fat64_def [symmetric]
        by (auto split: if_split_asm bind_splits)
      then show ?thesis using select_arch_inside by blast
    qed
  qed
qed

section \<open>An image of 4 GiB\<close>

text \<open>The declared size of the commands is \<open>2 ^ 32 - 32\<close>, so the end of the region, computed in 32 bits, is 0;
  the subtraction that bounds the walk wraps around, and the second command is read behind the image.\<close>

definition hostile :: "ptr \<Rightarrow> memory" where
  "hostile p a = (let i = unat (a - p) in
     if i \<ge> 2 ^ 32 then None
     else if i < 4 then Some ([0xCF, 0xFA, 0xED, 0xFE] ! i)
     else if i = 16 then Some 2
     else if i = 20 then Some 0xE0 else if i \<in> {21, 22, 23} then Some 0xFF
     else if i = 36 then Some 0xF8 else if i \<in> {37, 38, 39} then Some 0xFF
     else Some 0)"

lemma hostile_readable: "readable (hostile p) p (2 ^ 32)"
  by (auto simp: readable_def rd8_def hostile_def Let_def unat_of_nat take_bit_nat_eq_self)

lemma hostile_rd8: "i < 2 ^ 64 \<Longrightarrow> rd8 (hostile p) p i = (if i \<ge> 2 ^ 32 then None
     else if i < 4 then Some ([0xCF, 0xFA, 0xED, 0xFE] ! i)
     else if i = 16 then Some 2
     else if i = 20 then Some 0xE0 else if i \<in> {21, 22, 23} then Some 0xFF
     else if i = 36 then Some 0xF8 else if i \<in> {37, 38, 39} then Some 0xFF
     else Some 0)"
  by (simp add: rd8_def hostile_def Let_def unat_of_nat take_bit_nat_eq_self)

lemma hostile_words:
  "rd32 (hostile p) p 0 = Some 0xFEEDFACF" "rd32 (hostile p) p 4 = Some 0" "rd32 (hostile p) p 8 = Some 0"
  "rd32 (hostile p) p 12 = Some 0" "rd32 (hostile p) p 16 = Some 2" "rd32 (hostile p) p 20 = Some 0xFFFFFFE0"
  "rd32 (hostile p) p 24 = Some 0" "rd32 (hostile p) p 32 = Some 0" "rd32 (hostile p) p 36 = Some 0xFFFFFFF8"
  "rd32 (hostile p) p 0x100000018 = None"
  by (simp_all add: rd32_def hostile_rd8)

lemma hostile_image_read_past_end:
  assumes "p \<noteq> 0"
  shows "readable (hostile p) p (2 ^ 32) \<and> hk_macho_find_load_command (hostile p) p (2 ^ 32) HK_LC_SYMTAB = None"
proof -
  define h where "h = \<lparr>mh_magic = HK_MH_MAGIC_64, mh_cputype = 0, mh_cpusubtype = 0, mh_filetype = 0, mh_ncmds = 2,
    mh_sizeofcmds = 0xFFFFFFE0, mh_flags = 0\<rparr>"
  have hd: "hk_macho_read_header (hostile p) p (2 ^ 32) = Some (Inr h)"
    using assms by (simp add: hk_macho_read_header_def hk_macho_peek_header_def on_ok_def hostile_words HK_MH_MAGIC_64_def h_def macho_sizes)
  have "room 0 32 = 2 ^ 64 - 32" "room 0 0x100000018 = 2 ^ 64 - 0x100000018"
    by (simp_all add: room_def)
  then have "walk_commands (hostile p) p 0 (find_lc_visit HK_LC_SYMTAB) (Suc (Suc 0)) 32 None = None"
    by (simp add: hostile_words macho_sizes find_lc_visit_def HK_LC_SYMTAB_def)
  moreover have "unat (mh_ncmds h) = Suc (Suc 0)" "unat (32 + mh_sizeofcmds h) = 0" by (simp_all add: h_def)
  ultimately show ?thesis
    using hostile_readable
    unfolding hk_macho_find_load_command_def hk_macho_iterate_load_commands_def hd option.case sum.case HK_MACHO_HEADER_64_SIZE_def
    by (simp only: after_walk_def option.case)
qed

section \<open>Properties\<close>

text \<open>C33. Every read is bounded: if the bytes of the declared size can be read and are fewer than 4 GiB, no
  function of the parser faults, whatever the bytes are; with visitors that do not fault either.\<close>

theorem macho_reads_bounded:
  assumes "readable m p sz" "sz < 2 ^ 32"
  shows "answers (hk_macho_read_header m p sz) \<and> answers (hk_macho_select_slice m p sz cputype cpusubtype) \<and>
    answers (hk_macho_find_load_command m p sz cmd) \<and> answers (hk_macho_copy_uuid m p sz) \<and>
    answers (hk_macho_find_symtab_view m p sz) \<and> answers (hk_macho_iterate_segments m p sz seg_visit c) \<and>
    answers (hk_macho_find_segment m p sz name) \<and>
    ((\<forall>c n sec. answers (sec_visit c n sec)) \<longrightarrow> answers (hk_macho_iterate_sections m p sz sec_visit c1)) \<and>
    answers (hk_macho_section_info m p sz n) \<and> answers (hk_macho_find_indirect_symbols m p sz) \<and>
    answers (hk_macho_find_export_trie m p sz) \<and> answers (hk_macho_find_chained_fixups m p sz) \<and>
    answers (hk_macho_symtab_view_for_loaded_image m p sz slide) \<and> answers (hk_macho_export_trie_for_loaded_image m p sz slide) \<and>
    answers (hk_macho_chained_fixups_for_loaded_image m p sz slide)"
proof -
  have sec: "(\<forall>c n sec. answers (sec_visit c n sec)) \<longrightarrow> answers (hk_macho_iterate_sections m p sz sec_visit c1)"
    by (intro impI iterate_sections_ok [OF assms]) simp
  show ?thesis
    by (intro conjI sec read_header_ok [OF assms(1)] select_slice_ok [OF assms] find_load_command_ok [OF assms]
        copy_uuid_ok [OF assms] symtab_views_ok [OF assms] iterate_segments_ok [OF assms] find_segment_ok [OF assms]
        section_info_ok [OF assms] file_ranges_ok [OF assms] loaded_tables_ok [OF assms])
qed

text \<open>What the parser reports lies inside the image, whatever the bytes are: the symbol and string
  tables, aligned; the export trie and the fixups, not empty; the slice of a fat file, with a header of the
  architecture asked for.\<close>

lemma macho_tables_inside:
  "(hk_macho_find_symtab_view m p sz = Some (Inr v) \<longrightarrow>
     (\<exists>a b. sv_nlist v = p + of_nat a \<and> a + NLIST64_SIZE * unat (sv_nlist_count v) \<le> sz \<and>
       sv_strings v = p + of_nat b \<and> b + sv_strings_size v \<le> sz \<and> NLIST64_ALIGN dvd unat (sv_nlist v))) \<and>
   (hk_macho_find_export_trie m p sz = Some (Inr (off, len)) \<longrightarrow> off + len \<le> sz \<and> 0 < len) \<and>
   (hk_macho_find_chained_fixups m p sz = Some (Inr (off, len)) \<longrightarrow> off + len \<le> sz \<and> 0 < len) \<and>
   (hk_macho_select_slice m p sz cputype cpusubtype = Some (Inr (sl, len)) \<longrightarrow>
     (\<exists>off h. sl = p + of_nat off \<and> off + len \<le> sz \<and> hk_macho_read_header m sl len = Some (Inr h) \<and>
       mh_cputype h = cputype \<and> mh_cpusubtype h = cpusubtype))"
  using symtab_view_inside [of m p sz v] export_trie_inside [of m p sz off len] chained_fixups_inside [of m p sz off len]
    select_slice_inside [of m p sz cputype cpusubtype sl len]
  by blast

text \<open>An image of one symbol, \<open>_foo\<close>, at \<open>0x10000\<close>.\<close>

definition sample_words :: "u32 list" where
  "sample_words = [0xFEEDFACF, 0x0100000C, 0, 2, 1, 24, 0, 0,  2, 24, 56, 1, 72, 8,  1, 0x10F, 0x4000, 0,  0x6F665F00, 0x6F]"

definition sample_image :: memory where
  "sample_image = mem_of 0x10000 (concat (map (le_bytes 4) sample_words))"

lemma mem_of_readable: "length bs < 2 ^ 64 \<Longrightarrow> n \<le> length bs \<Longrightarrow> readable (mem_of p bs) p n"
  using rd8_mem_of [of bs _ p] by (auto simp: readable_def)

lemma sample_readable: "readable sample_image 0x10000 80"
  unfolding sample_image_def by (rule mem_of_readable) (simp_all add: word_bytes_length sample_words_def)

lemma sample_word: "i < 20 \<Longrightarrow> rd32 sample_image 0x10000 (4 * i) = Some (sample_words ! i)"
  unfolding sample_image_def by (rule rd32_words) (simp_all add: sample_words_def)

lemma sample_symtab_view:
  "hk_macho_find_symtab_view sample_image 0x10000 80 = Some (Inr \<lparr>sv_nlist = 0x10038, sv_nlist_count = 1, sv_strings = 0x10048, sv_strings_size = 8\<rparr>)"
proof -
  define h where "h = \<lparr>mh_magic = HK_MH_MAGIC_64, mh_cputype = 0x0100000C, mh_cpusubtype = 0, mh_filetype = 2, mh_ncmds = 1,
    mh_sizeofcmds = 24, mh_flags = 0\<rparr>"
  note w = sample_word [of 0] sample_word [of 1] sample_word [of 2] sample_word [of 3] sample_word [of 4] sample_word [of 5]
    sample_word [of 6] sample_word [of 8] sample_word [of 9] sample_word [of 10] sample_word [of 11] sample_word [of 12] sample_word [of 13]
  have "hk_macho_read_header sample_image 0x10000 80 = Some (Inr h)"
    using w by (simp add: hk_macho_read_header_def hk_macho_peek_header_def on_ok_def sample_words_def HK_MH_MAGIC_64_def h_def macho_sizes)
  moreover have "room 56 32 = 24" by (simp add: room_def)
  ultimately have "hk_macho_find_load_command sample_image 0x10000 80 HK_LC_SYMTAB = Some (Inr (32, 24))"
    using w by (simp add: hk_macho_find_load_command_def hk_macho_iterate_load_commands_def h_def after_walk_def sample_words_def macho_sizes
        find_lc_visit_def HK_LC_SYMTAB_def)
  then show ?thesis
    using w by (simp add: hk_macho_find_symtab_view_def on_ok_def read_symtab_def sample_words_def macho_sizes NLIST64_SIZE_def NLIST64_ALIGN_def)
qed

theorem macho_reads_bounded_witness:
  "answers (hk_macho_copy_uuid sample_image 0x10000 80) \<and> answers (hk_macho_find_symtab_view sample_image 0x10000 80)"
proof -
  have "(80 :: nat) < 2 ^ 32" by simp
  from macho_reads_bounded [OF sample_readable this, where seg_visit = "\<lambda>c _ _. (c, True)" and c = "()" and
      sec_visit = "\<lambda>c _ _. Some (c, True)" and ?c1.0 = "()" and cputype = 0 and cpusubtype = 0 and cmd = 0 and name = "[]" and n = 0 and slide = 0]
  show ?thesis by simp
qed

end
