(* ===== verification/HK_ImageScope.thy ===== *)
theory HK_ImageScope
  imports HK_Catalog HK_MachO_Props
begin

text \<open>
  The image scope check (\<open>src/core/HKImageScope.c\<close>): does an address lie in an image that a selector names,
  of the build that was asked for. A result is \<open>None\<close> when reading an image's header faults.
\<close>

section \<open>The checks\<close>

datatype hk_image_scope_status =
    HK_IMAGE_SCOPE_OK | HK_IMAGE_SCOPE_NO_CATALOG | HK_IMAGE_SCOPE_NO_MATCH
  | HK_IMAGE_SCOPE_UUID_MISMATCH | HK_IMAGE_SCOPE_ADDRESS_OUTSIDE | HK_IMAGE_SCOPE_UNREADABLE_IMAGE

record scope_ctx =
  sx_saw_entry :: bool
  sx_saw_uuid_match :: bool
  sx_saw_unreadable :: bool
  sx_contained :: bool

text \<open>The UUID test of both visitors.\<close>

definition right_build :: "bool \<Rightarrow> byte list \<Rightarrow> hk_image_entry \<Rightarrow> bool" where
  "right_build expect_uuid expected_uuid e \<longleftrightarrow>
     (expect_uuid \<longrightarrow> ie_uuid_present e \<and> ie_uuid e = expected_uuid)"

text \<open>The range of an entry: \<open>None\<close> is a fault, \<open>Some None\<close> an image that cannot be bounded.\<close>

definition entry_span :: "memory \<Rightarrow> hk_image_entry \<Rightarrow> (u64 \<times> u64) option option" where
  "entry_span m e =
     (if ie_header e = 0 then Some None
      else do {
        peeked \<leftarrow> hk_macho_peek_header m (ie_header e) HK_MACHO_HEADER_64_SIZE;
        (case peeked of
           Inl _ \<Rightarrow> Some None
         | Inr header \<Rightarrow> do {
             bounds \<leftarrow> hk_macho_image_span_for_loaded_image m (ie_header e)
                       (HK_MACHO_HEADER_64_SIZE + unat (mh_sizeofcmds header)) (ie_slide e);
             (case bounds of Inl _ \<Rightarrow> Some None | Inr lohi \<Rightarrow> Some (Some lohi))
           })
      })"

text \<open>A fault stops the walk with the context \<open>None\<close>.\<close>

definition scope_visit :: "memory \<Rightarrow> u64 \<Rightarrow> bool \<Rightarrow> byte list \<Rightarrow>
    scope_ctx option \<Rightarrow> nat \<Rightarrow> hk_image_entry \<Rightarrow> bool \<times> scope_ctx option" where
  "scope_visit m address expect_uuid expected_uuid ctx index e =
     (case ctx of
        None \<Rightarrow> (False, None)
      | Some c \<Rightarrow>
          (let c1 = c\<lparr>sx_saw_entry := True\<rparr>
           in if \<not> right_build expect_uuid expected_uuid e then (True, Some c1)
              else let c2 = c1\<lparr>sx_saw_uuid_match := True\<rparr>
                in case entry_span m e of
                     None \<Rightarrow> (False, None)
                   | Some None \<Rightarrow> (True, Some (c2\<lparr>sx_saw_unreadable := True\<rparr>))
                   | Some (Some (start, fin)) \<Rightarrow>
                       if address \<ge> start \<and> address < fin then (False, Some (c2\<lparr>sx_contained := True\<rparr>))
                       else (True, Some c2)))"

definition hk_image_scope_check :: "memory \<Rightarrow> hk_image_catalog option \<Rightarrow> hk_image_selector option \<Rightarrow>
    bool \<Rightarrow> byte list option \<Rightarrow> u64 \<Rightarrow> hk_image_scope_status option" where
  "hk_image_scope_check m catalog selector expect_uuid expected_uuid address =
     (case selector of
        None \<Rightarrow> Some HK_IMAGE_SCOPE_OK
      | Some sel \<Rightarrow>
          if expect_uuid \<and> expected_uuid = None then Some HK_IMAGE_SCOPE_OK
          else if hk_image_catalog_count catalog = 0 then Some HK_IMAGE_SCOPE_NO_CATALOG
          else map_option (\<lambda>ctx.
              if sx_contained ctx then HK_IMAGE_SCOPE_OK
              else if \<not> sx_saw_entry ctx then HK_IMAGE_SCOPE_NO_MATCH
              else if \<not> sx_saw_uuid_match ctx then HK_IMAGE_SCOPE_UUID_MISMATCH
              else if sx_saw_unreadable ctx then HK_IMAGE_SCOPE_UNREADABLE_IMAGE
              else HK_IMAGE_SCOPE_ADDRESS_OUTSIDE)
            (snd (hk_image_catalog_match catalog sel
              (scope_visit m address expect_uuid (case expected_uuid of None \<Rightarrow> [] | Some u \<Rightarrow> u))
              (Some \<lparr>sx_saw_entry = False, sx_saw_uuid_match = False, sx_saw_unreadable = False, sx_contained = False\<rparr>))))"

text \<open>The identity form: the contexts \<open>(saw_entry, saw_uuid_match, matched)\<close>.\<close>

definition header_visit :: "ptr \<Rightarrow> bool \<Rightarrow> byte list \<Rightarrow> bool \<times> bool \<times> bool \<Rightarrow> nat \<Rightarrow> hk_image_entry \<Rightarrow>
    bool \<times> (bool \<times> bool \<times> bool)" where
  "header_visit header expect_uuid expected_uuid ctx index e =
     (let (saw_entry, saw_uuid_match, matched) = ctx
      in if \<not> right_build expect_uuid expected_uuid e then (True, (True, saw_uuid_match, matched))
         else if ie_header e = header then (False, (True, True, True))
         else (True, (True, True, matched)))"

definition hk_image_scope_check_header :: "hk_image_catalog option \<Rightarrow> hk_image_selector option \<Rightarrow>
    bool \<Rightarrow> byte list option \<Rightarrow> ptr \<Rightarrow> hk_image_scope_status" where
  "hk_image_scope_check_header catalog selector expect_uuid expected_uuid header =
     (case selector of
        None \<Rightarrow> HK_IMAGE_SCOPE_OK
      | Some sel \<Rightarrow>
          if expect_uuid \<and> expected_uuid = None then HK_IMAGE_SCOPE_OK
          else if hk_image_catalog_count catalog = 0 then HK_IMAGE_SCOPE_NO_CATALOG
          else let (saw_entry, saw_uuid_match, matched) =
                 snd (hk_image_catalog_match catalog sel
                   (header_visit header expect_uuid (case expected_uuid of None \<Rightarrow> [] | Some u \<Rightarrow> u))
                   (False, False, False))
               in if matched then HK_IMAGE_SCOPE_OK
                  else if \<not> saw_entry then HK_IMAGE_SCOPE_NO_MATCH
                  else if \<not> saw_uuid_match then HK_IMAGE_SCOPE_UUID_MISMATCH
                  else HK_IMAGE_SCOPE_NO_MATCH)"

fun hk_image_scope_describe :: "hk_image_scope_status \<Rightarrow> string" where
  "hk_image_scope_describe HK_IMAGE_SCOPE_OK = ''address is inside the expected image''"
| "hk_image_scope_describe HK_IMAGE_SCOPE_NO_CATALOG = ''image scope not checked: no image catalog is available''"
| "hk_image_scope_describe HK_IMAGE_SCOPE_NO_MATCH = ''the image the request named is not loaded''"
| "hk_image_scope_describe HK_IMAGE_SCOPE_UUID_MISMATCH = ''the image is loaded but is a different build than the request expected''"
| "hk_image_scope_describe HK_IMAGE_SCOPE_ADDRESS_OUTSIDE = ''the address is not inside the image the request named''"
| "hk_image_scope_describe HK_IMAGE_SCOPE_UNREADABLE_IMAGE = ''a matching image's header could not be parsed to bound it''"

section \<open>What the visitors establish\<close>

text \<open>The entries a selector names, and whether the range of one holds the address.\<close>

definition named_entries :: "hk_image_catalog \<Rightarrow> hk_image_selector \<Rightarrow> hk_image_entry set" where
  "named_entries cat sel = {e \<in> set (ic_entries cat). entry_matches_selector e sel}"

definition span_holds :: "memory \<Rightarrow> u64 \<Rightarrow> hk_image_entry \<Rightarrow> bool" where
  "span_holds m address e \<longleftrightarrow> (\<exists>start fin. entry_span m e = Some (Some (start, fin)) \<and> start \<le> address \<and> address < fin)"

lemma selected_entries: "snd ` set (selected sel i (ic_entries cat)) = named_entries cat sel"
proof -
  have "snd ` set (selected sel i es) = {e \<in> set es. entry_matches_selector e sel}" for es
    by (induction es arbitrary: i) auto
  then show ?thesis by (simp add: named_entries_def)
qed

lemma scope_visits_Cons:
  "snd (visit_list (scope_visit m a expect u) ((i, e) # xs) (Some c)) =
     (if \<not> right_build expect u e then snd (visit_list (scope_visit m a expect u) xs (Some (c\<lparr>sx_saw_entry := True\<rparr>)))
      else case entry_span m e of None \<Rightarrow> None
        | Some None \<Rightarrow> snd (visit_list (scope_visit m a expect u) xs
            (Some (c\<lparr>sx_saw_entry := True, sx_saw_uuid_match := True, sx_saw_unreadable := True\<rparr>)))
        | Some (Some _) \<Rightarrow> if span_holds m a e
            then Some (c\<lparr>sx_saw_entry := True, sx_saw_uuid_match := True, sx_contained := True\<rparr>)
            else snd (visit_list (scope_visit m a expect u) xs (Some (c\<lparr>sx_saw_entry := True, sx_saw_uuid_match := True\<rparr>))))"
  by (simp add: scope_visit_def [of _ _ _ _ "Some c" i e] span_holds_def Let_def split: option.splits prod.splits)

lemma scope_visits:
  assumes "snd (visit_list (scope_visit m a expect u) xs (Some c)) = Some c'" "\<not> sx_contained c"
  shows "(sx_contained c' \<longleftrightarrow> (\<exists>e \<in> snd ` set xs. right_build expect u e \<and> span_holds m a e)) \<and>
    (sx_saw_entry c' \<longleftrightarrow> sx_saw_entry c \<or> xs \<noteq> []) \<and>
    (sx_saw_uuid_match c' \<longleftrightarrow> sx_saw_uuid_match c \<or> (\<exists>e \<in> snd ` set xs. right_build expect u e)) \<and>
    (sx_contained c' \<or>
      (sx_saw_unreadable c' \<longleftrightarrow> sx_saw_unreadable c \<or> (\<exists>e \<in> snd ` set xs. right_build expect u e \<and> entry_span m e = Some None)))"
  using assms
proof (induction xs arbitrary: c)
  case (Cons x xs)
  obtain i e where x: "x = (i, e)" by (cases x)
  have bounded: "span_holds m a e \<Longrightarrow> \<exists>r. entry_span m e = Some (Some r)" by (auto simp: span_holds_def)
  show ?case
    using Cons.prems bounded unfolding x scope_visits_Cons
    by (auto dest!: Cons.IH split: if_splits option.splits)
qed simp

lemma header_visits_Cons:
  "snd (visit_list (header_visit h expect u) ((i, e) # xs) (se, su, False)) =
     (if \<not> right_build expect u e then snd (visit_list (header_visit h expect u) xs (True, su, False))
      else if ie_header e = h then (True, True, True)
      else snd (visit_list (header_visit h expect u) xs (True, True, False)))"
  by (simp add: header_visit_def [of _ _ _ _ i e] split: prod.splits)

lemma header_visits:
  assumes "snd (visit_list (header_visit h expect u) xs (se, su, False)) = (se', su', ma')"
  shows "(ma' \<longleftrightarrow> (\<exists>e \<in> snd ` set xs. right_build expect u e \<and> ie_header e = h)) \<and>
    (se' \<longleftrightarrow> se \<or> xs \<noteq> []) \<and> (su' \<longleftrightarrow> su \<or> (\<exists>e \<in> snd ` set xs. right_build expect u e))"
  using assms
proof (induction xs arbitrary: se su)
  case (Cons x xs)
  obtain i e where x: "x = (i, e)" by (cases x)
  show ?case
    using Cons.prems unfolding x header_visits_Cons by (auto dest!: Cons.IH split: if_splits)
qed simp

text \<open>The status of the containment check, as a function of the entries named.\<close>

lemma scope_check_value:
  assumes "ic_entries cat \<noteq> []" "hk_image_scope_check m (Some cat) (Some sel) expect (Some u) address = Some st"
  shows "st = (if \<exists>e \<in> named_entries cat sel. right_build expect u e \<and> span_holds m address e then HK_IMAGE_SCOPE_OK
    else if named_entries cat sel = {} then HK_IMAGE_SCOPE_NO_MATCH
    else if \<forall>e \<in> named_entries cat sel. \<not> right_build expect u e then HK_IMAGE_SCOPE_UUID_MISMATCH
    else if \<exists>e \<in> named_entries cat sel. right_build expect u e \<and> entry_span m e = Some None then HK_IMAGE_SCOPE_UNREADABLE_IMAGE
    else HK_IMAGE_SCOPE_ADDRESS_OUTSIDE)"
proof -
  let ?xs = "selected sel 0 (ic_entries cat)"
  let ?c0 = "\<lparr>sx_saw_entry = False, sx_saw_uuid_match = False, sx_saw_unreadable = False, sx_contained = False\<rparr>"
  have "map_option (\<lambda>ctx. if sx_contained ctx then HK_IMAGE_SCOPE_OK
      else if \<not> sx_saw_entry ctx then HK_IMAGE_SCOPE_NO_MATCH else if \<not> sx_saw_uuid_match ctx then HK_IMAGE_SCOPE_UUID_MISMATCH
      else if sx_saw_unreadable ctx then HK_IMAGE_SCOPE_UNREADABLE_IMAGE else HK_IMAGE_SCOPE_ADDRESS_OUTSIDE)
    (snd (visit_list (scope_visit m address expect u) ?xs (Some ?c0))) = Some st"
    using assms by (simp add: hk_image_scope_check_def hk_image_catalog_count_def hk_image_catalog_match_def match_from_visit_list)
  then obtain c where v: "snd (visit_list (scope_visit m address expect u) ?xs (Some ?c0)) = Some c"
    and st: "st = (if sx_contained c then HK_IMAGE_SCOPE_OK
      else if \<not> sx_saw_entry c then HK_IMAGE_SCOPE_NO_MATCH else if \<not> sx_saw_uuid_match c then HK_IMAGE_SCOPE_UUID_MISMATCH
      else if sx_saw_unreadable c then HK_IMAGE_SCOPE_UNREADABLE_IMAGE else HK_IMAGE_SCOPE_ADDRESS_OUTSIDE)"
    by (auto simp only: map_option_eq_Some)
  have named: "?xs \<noteq> [] \<longleftrightarrow> named_entries cat sel \<noteq> {}"
    using selected_entries [of sel 0 cat] by auto
  note c = scope_visits [OF v, unfolded selected_entries named, simplified]
  show ?thesis
  proof (cases "sx_contained c")
    case True
    with c st show ?thesis by simp
  next
    case False
    with c have unreadable: "sx_saw_unreadable c \<longleftrightarrow> (\<exists>e \<in> named_entries cat sel. right_build expect u e \<and> entry_span m e = Some None)"
      by blast
    show ?thesis
      unfolding st unreadable using c by simp blast
  qed
qed

section \<open>Properties\<close>

text \<open>C34. Both checks decide what they claim. Of the entries the selector names, those of the expected build
  count: the address is accepted exactly when the range of one of them holds it, and a refusal says how far
  the check got. Without a catalog, and only then, nothing is checked.\<close>

theorem image_scope_decides:
  assumes "ic_entries cat \<noteq> []"
  shows "(hk_image_scope_check m (Some cat) (Some sel) expect (Some u) address = Some st \<longrightarrow>
      st = (if \<exists>e \<in> named_entries cat sel. right_build expect u e \<and> span_holds m address e then HK_IMAGE_SCOPE_OK
        else if named_entries cat sel = {} then HK_IMAGE_SCOPE_NO_MATCH
        else if \<forall>e \<in> named_entries cat sel. \<not> right_build expect u e then HK_IMAGE_SCOPE_UUID_MISMATCH
        else if \<exists>e \<in> named_entries cat sel. right_build expect u e \<and> entry_span m e = Some None then HK_IMAGE_SCOPE_UNREADABLE_IMAGE
        else HK_IMAGE_SCOPE_ADDRESS_OUTSIDE)) \<and>
    hk_image_scope_check_header (Some cat) (Some sel) expect (Some u) header =
      (if \<exists>e \<in> named_entries cat sel. right_build expect u e \<and> ie_header e = header then HK_IMAGE_SCOPE_OK
       else if named_entries cat sel \<noteq> {} \<and> (\<forall>e \<in> named_entries cat sel. \<not> right_build expect u e) then HK_IMAGE_SCOPE_UUID_MISMATCH
       else HK_IMAGE_SCOPE_NO_MATCH)"
proof (intro conjI impI)
  let ?xs = "selected sel 0 (ic_entries cat)"
  have named: "?xs \<noteq> [] \<longleftrightarrow> named_entries cat sel \<noteq> {}"
    using selected_entries [of sel 0 cat] by auto
  {
    assume "hk_image_scope_check m (Some cat) (Some sel) expect (Some u) address = Some st"
    then show "st = (if \<exists>e \<in> named_entries cat sel. right_build expect u e \<and> span_holds m address e then HK_IMAGE_SCOPE_OK
        else if named_entries cat sel = {} then HK_IMAGE_SCOPE_NO_MATCH
        else if \<forall>e \<in> named_entries cat sel. \<not> right_build expect u e then HK_IMAGE_SCOPE_UUID_MISMATCH
        else if \<exists>e \<in> named_entries cat sel. right_build expect u e \<and> entry_span m e = Some None then HK_IMAGE_SCOPE_UNREADABLE_IMAGE
        else HK_IMAGE_SCOPE_ADDRESS_OUTSIDE)"
      using scope_check_value [OF assms] by blast
  }
  obtain se su ma where v: "snd (visit_list (header_visit header expect u) ?xs (False, False, False)) = (se, su, ma)"
    by (metis prod_cases3)
  show "hk_image_scope_check_header (Some cat) (Some sel) expect (Some u) header =
      (if \<exists>e \<in> named_entries cat sel. right_build expect u e \<and> ie_header e = header then HK_IMAGE_SCOPE_OK
       else if named_entries cat sel \<noteq> {} \<and> (\<forall>e \<in> named_entries cat sel. \<not> right_build expect u e) then HK_IMAGE_SCOPE_UUID_MISMATCH
       else HK_IMAGE_SCOPE_NO_MATCH)"
    using assms named header_visits [OF v] unfolding selected_entries
    by (auto simp: hk_image_scope_check_header_def hk_image_catalog_count_def hk_image_catalog_match_def match_from_visit_list v)
qed

text \<open>An image at \<open>0x10000\<close> with one segment, \<open>A\<close>, of \<open>0x4000\<close> bytes at \<open>0x1000\<close>, slid by \<open>0xF000\<close>.\<close>

definition sample_segment_words :: "u32 list" where
  "sample_segment_words = [0xFEEDFACF, 0x0100000C, 0, 2, 1, 72, 0, 0,  0x19, 72, 0x41, 0, 0, 0, 0x1000, 0, 0x4000, 0, 0, 0, 104, 0, 5, 5, 0, 0]"

definition sample_segment_image :: memory where
  "sample_segment_image = mem_of 0x10000 (concat (map (le_bytes 4) sample_segment_words))"

definition sample_scope_catalog :: hk_image_catalog where
  "sample_scope_catalog = \<lparr>ic_entries = [\<lparr>ie_path = None, ie_uuid_present = False, ie_uuid = [], ie_header = 0x10000,
     ie_slide = 0xF000, ie_is_main_executable = True\<rparr>], ic_capacity = 8, ic_generation = 1\<rparr>"

lemma sample_segment_length: "length sample_segment_words = 26"
  by (simp add: sample_segment_words_def)

lemma sample_segment_byte: "i < 26 \<Longrightarrow> k < 4 \<Longrightarrow> rd8 sample_segment_image 0x10000 (4 * i + k) = Some (le_bytes 4 (sample_segment_words ! i) ! k)"
  unfolding sample_segment_image_def
  by (subst rd8_mem_of) (simp_all add: word_bytes_length word_bytes_nth sample_segment_length)

lemma sample_segment_word: "i < 26 \<Longrightarrow> rd32 sample_segment_image 0x10000 (4 * i) = Some (sample_segment_words ! i)"
  unfolding sample_segment_image_def by (rule rd32_words) (simp_all add: sample_segment_words_def)

lemma sample_segment_header:
  "hk_macho_peek_header sample_segment_image 0x10000 32 = Some (Inr \<lparr>mh_magic = HK_MH_MAGIC_64, mh_cputype = 0x0100000C,
     mh_cpusubtype = 0, mh_filetype = 2, mh_ncmds = 1, mh_sizeofcmds = 72, mh_flags = 0\<rparr>)"
  using sample_segment_word [of 0] sample_segment_word [of 1] sample_segment_word [of 2] sample_segment_word [of 3]
    sample_segment_word [of 4] sample_segment_word [of 5] sample_segment_word [of 6]
  by (simp add: hk_macho_peek_header_def sample_segment_words_def HK_MH_MAGIC_64_def macho_sizes)

lemma sample_segment_span:
  "hk_macho_image_span_for_loaded_image sample_segment_image 0x10000 104 0xF000 = Some (Inr (0x10000, 0x14000))"
proof -
  note w = sample_segment_word [of 0] sample_segment_word [of 1] sample_segment_word [of 2] sample_segment_word [of 3]
    sample_segment_word [of 4] sample_segment_word [of 5] sample_segment_word [of 6] sample_segment_word [of 8] sample_segment_word [of 9]
  note x = sample_segment_word [of 14] sample_segment_word [of 15] sample_segment_word [of 16] sample_segment_word [of 17]
    sample_segment_word [of 18] sample_segment_word [of 19] sample_segment_word [of 20] sample_segment_word [of 21]
    sample_segment_word [of 22] sample_segment_word [of 23] sample_segment_word [of 24] sample_segment_word [of 25]
  define h where "h = \<lparr>mh_magic = HK_MH_MAGIC_64, mh_cputype = 0x0100000C, mh_cpusubtype = 0, mh_filetype = 2, mh_ncmds = 1,
    mh_sizeofcmds = 72, mh_flags = 0\<rparr>"
  have hd: "hk_macho_read_header sample_segment_image 0x10000 104 = Some (Inr h)"
    using w by (simp add: hk_macho_read_header_def hk_macho_peek_header_def on_ok_def sample_segment_words_def HK_MH_MAGIC_64_def h_def macho_sizes)
  have "readable sample_segment_image 0x10000 104"
    unfolding sample_segment_image_def by (rule mem_of_readable) (simp_all add: word_bytes_length sample_segment_length)
  from readable_rd_bytes [OF this, of 42 14] obtain rest where "rd_bytes sample_segment_image 0x10000 42 14 = Some rest" by auto
  moreover have "rd8 sample_segment_image 0x10000 40 = Some 0x41" "rd8 sample_segment_image 0x10000 41 = Some 0"
    using sample_segment_byte [of 10 0] sample_segment_byte [of 10 1] by (simp_all add: sample_segment_words_def le_bytes_def)
  ultimately have "rd_bytes sample_segment_image 0x10000 40 (Suc (Suc 14)) = Some (0x41 # 0 # rest)"
    unfolding rd_bytes.simps by simp
  then obtain nm where nm: "rd_bytes sample_segment_image 0x10000 40 16 = Some nm" "c_string (nm @ [0]) = [0x41]"
    by (auto simp: c_string_def)
  define g where "g = \<lparr>sg_segname = nm @ [0], sg_vmaddr = 0x1000, sg_vmsize = 0x4000, sg_fileoff = 0, sg_filesize = 104,
    sg_maxprot = 5, sg_initprot = 5, sg_nsects = 0, sg_flags = 0, sg_command_offset = 32, sg_cmdsize = 72\<rparr>"
  have sg: "read_segment sample_segment_image 0x10000 32 72 = Some (Some g)"
    using x nm by (simp add: read_segment_def rd64_def sample_segment_words_def g_def macho_sizes)
  have "span_visit None 0 g = (Some (0x1000, 0x5000), True)"
    using nm(2) by (simp add: span_visit_def g_def PAGEZERO_def str_bytes_def)
  moreover have "room 104 32 = 72" by (simp add: room_def)
  ultimately show ?thesis
    using w sg by (simp add: hk_macho_image_span_for_loaded_image_def hk_macho_iterate_segments_def hk_macho_iterate_load_commands_def hd
      h_def after_walk_def on_ok_def sample_segment_words_def macho_sizes segments_visit_def HK_LC_SEGMENT_64_def)
qed

lemma sample_scope_check:
  "hk_image_scope_check sample_segment_image (Some sample_scope_catalog) (Some (Image_Selector HK_IMAGE_MAIN_EXECUTABLE None [] 0 [] False))
     False (Some []) 0x11000 = Some HK_IMAGE_SCOPE_OK"
proof -
  let ?e = "hd (ic_entries sample_scope_catalog)"
  have "entry_span sample_segment_image ?e = Some (Some (0x10000, 0x14000))"
    using sample_segment_header sample_segment_span by (simp add: entry_span_def sample_scope_catalog_def macho_sizes)
  then show ?thesis
    by (simp add: hk_image_scope_check_def hk_image_catalog_count_def hk_image_catalog_match_def sample_scope_catalog_def
        scope_visit_def right_build_def)
qed

theorem image_scope_decides_witness:
  "\<exists>e \<in> named_entries sample_scope_catalog (Image_Selector HK_IMAGE_MAIN_EXECUTABLE None [] 0 [] False).
     right_build False [] e \<and> span_holds sample_segment_image 0x11000 e"
proof -
  have "ic_entries sample_scope_catalog \<noteq> []" by (simp add: sample_scope_catalog_def)
  note accepted = conjunct1 [OF image_scope_decides [OF this, of sample_segment_image _ False "[]" "0x11000" HK_IMAGE_SCOPE_OK], THEN mp, OF sample_scope_check]
  show ?thesis
    by (rule ccontr) (use accepted in \<open>simp only: if_False hk_image_scope_status.distinct split: if_splits\<close>)
qed

end
