(* ===== verification/HK_ExportTrie.thy ===== *)
theory HK_ExportTrie
  imports HK_Answers
begin

text \<open>
  The export trie (\<open>src/resolvers/HKExportTrie.c\<close>): dyld's prefix tree of exported names, with ULEB128
  numbers. Reads fault with \<open>None\<close>; the walk is shown to find what the tree laid out in the buffer holds.
\<close>

section \<open>Numbers\<close>

text \<open>\<open>n\<close> bytes may still be read. \<open>Some None\<close> is the answer false.\<close>

primrec uleb_from :: "memory \<Rightarrow> ptr \<Rightarrow> nat \<Rightarrow> nat \<Rightarrow> nat \<Rightarrow> nat \<Rightarrow> u64 \<Rightarrow> (u64 \<times> nat) option option" where
  "uleb_from m buffer sz 0 offset shift acc = Some None"
| "uleb_from m buffer sz (Suc n) offset shift acc =
     (if offset \<ge> sz then Some None
      else do {
        b \<leftarrow> rd8 m buffer offset;
        (let chunk = ucast (b AND 0x7F) :: u64
         in if shift = 63 \<and> chunk > 1 then Some None
            else if \<not> shift < 64 \<and> chunk \<noteq> 0 then Some None
            else let acc1 = (if shift < 64 then acc OR push_bit shift chunk else acc)
              in if b AND 0x80 = 0 then Some (Some (acc1, offset + 1))
                 else uleb_from m buffer sz n (offset + 1) (shift + 7) acc1)
      })"

definition hk_export_read_uleb128 :: "memory \<Rightarrow> ptr \<Rightarrow> nat \<Rightarrow> nat \<Rightarrow> (u64 \<times> nat) option option" where
  "hk_export_read_uleb128 m buffer sz offset =
     (if buffer = 0 then Some None else uleb_from m buffer sz 10 offset 0 0)"

section \<open>The walk\<close>

definition HK_EXPORT_FLAGS_KIND_MASK :: u64 where "HK_EXPORT_FLAGS_KIND_MASK = 0x03"
definition HK_EXPORT_FLAGS_KIND_THREAD_LOCAL :: u64 where "HK_EXPORT_FLAGS_KIND_THREAD_LOCAL = 0x01"
definition HK_EXPORT_FLAGS_KIND_ABSOLUTE :: u64 where "HK_EXPORT_FLAGS_KIND_ABSOLUTE = 0x02"
definition HK_EXPORT_FLAGS_WEAK_DEFINITION :: u64 where "HK_EXPORT_FLAGS_WEAK_DEFINITION = 0x04"
definition HK_EXPORT_FLAGS_REEXPORT :: u64 where "HK_EXPORT_FLAGS_REEXPORT = 0x08"
definition HK_EXPORT_FLAGS_STUB_AND_RESOLVER :: u64 where "HK_EXPORT_FLAGS_STUB_AND_RESOLVER = 0x10"
definition HK_EXPORT_TRIE_MAX_DEPTH :: nat where "HK_EXPORT_TRIE_MAX_DEPTH = 128"

datatype hk_export_status =
    HK_EXPORT_OK | HK_EXPORT_NOT_FOUND | HK_EXPORT_MALFORMED | HK_EXPORT_INVALID_ARGUMENT | HK_EXPORT_UNSUPPORTED_KIND

record hk_export_symbol =
  ex_flags :: u64
  ex_address :: u64
  ex_other :: u64
  ex_is_weak :: bool
  ex_is_thread_local :: bool
  ex_is_absolute :: bool
  ex_is_reexport :: bool
  ex_is_stub_and_resolver :: bool

text \<open>A call is a function of what the out-parameter holds, to the status and what it holds afterwards.\<close>

type_synonym export_reply = "(hk_export_status \<times> hk_export_symbol) option"

text \<open>The next number, or \<open>HK_EXPORT_MALFORMED\<close> with the symbol as it is.\<close>

definition next_number :: "memory \<Rightarrow> ptr \<Rightarrow> nat \<Rightarrow> nat \<Rightarrow> hk_export_symbol \<Rightarrow> (u64 \<Rightarrow> nat \<Rightarrow> export_reply) \<Rightarrow> export_reply" where
  "next_number m trie fin offset out f = do {
     r \<leftarrow> hk_export_read_uleb128 m trie fin offset;
     (case r of None \<Rightarrow> Some (HK_EXPORT_MALFORMED, out) | Some (v, offset1) \<Rightarrow> f v offset1)
   }"

definition decode_terminal :: "memory \<Rightarrow> ptr \<Rightarrow> nat \<Rightarrow> nat \<Rightarrow> hk_export_symbol \<Rightarrow> export_reply" where
  "decode_terminal m trie offset terminal_end out =
     next_number m trie terminal_end offset out (\<lambda>flags offset1.
       let kind = flags AND HK_EXPORT_FLAGS_KIND_MASK;
           out1 = \<lparr>ex_flags = flags, ex_address = 0, ex_other = 0,
             ex_is_weak = flags AND HK_EXPORT_FLAGS_WEAK_DEFINITION \<noteq> 0,
             ex_is_thread_local = (kind = HK_EXPORT_FLAGS_KIND_THREAD_LOCAL),
             ex_is_absolute = (kind = HK_EXPORT_FLAGS_KIND_ABSOLUTE),
             ex_is_reexport = False, ex_is_stub_and_resolver = False\<rparr>
       in if flags AND HK_EXPORT_FLAGS_REEXPORT \<noteq> 0 then
            next_number m trie terminal_end offset1 (out1\<lparr>ex_is_reexport := True\<rparr>) (\<lambda>ordinal _.
              Some (HK_EXPORT_UNSUPPORTED_KIND, out1\<lparr>ex_is_reexport := True, ex_other := ordinal\<rparr>))
          else if flags AND HK_EXPORT_FLAGS_STUB_AND_RESOLVER \<noteq> 0 then
            (let out2 = out1\<lparr>ex_is_stub_and_resolver := True\<rparr>
             in next_number m trie terminal_end offset1 out2 (\<lambda>stub offset2.
                  next_number m trie terminal_end offset2 out2 (\<lambda>resolver _.
                    Some (HK_EXPORT_OK, out2\<lparr>ex_address := stub, ex_other := resolver\<rparr>))))
          else next_number m trie terminal_end offset1 out1 (\<lambda>address _.
            Some (HK_EXPORT_OK, out1\<lparr>ex_address := address\<rparr>)))"

text \<open>The end of an edge string: the position of its NUL, or the size of the trie.\<close>

function edge_end :: "memory \<Rightarrow> ptr \<Rightarrow> nat \<Rightarrow> nat \<Rightarrow> nat option" where
  "edge_end m trie sz p =
     (if p < sz then do { b \<leftarrow> rd8 m trie p; (if b \<noteq> 0 then edge_end m trie sz (p + 1) else Some p) } else Some p)"
  by pat_completeness auto
termination by (relation "measure (\<lambda>(m, trie, sz, p). sz - p)") auto

declare edge_end.simps [simp del]

datatype descent =
    Descent_Malformed
  | Descent_None
  | Descent_To nat "byte list"

text \<open>The children from position \<open>p\<close>; \<open>strncmp\<close> against an edge, which holds no NUL, is a comparison of
  that many bytes.\<close>

primrec match_edges :: "memory \<Rightarrow> ptr \<Rightarrow> nat \<Rightarrow> byte list \<Rightarrow> nat \<Rightarrow> nat \<Rightarrow> descent option" where
  "match_edges m trie sz remaining 0 p = Some Descent_None"
| "match_edges m trie sz remaining (Suc n) edge_start = do {
     p \<leftarrow> edge_end m trie sz edge_start;
     (if p \<ge> sz then Some Descent_Malformed
      else do {
        child \<leftarrow> hk_export_read_uleb128 m trie sz (p + 1);
        (case child of
           None \<Rightarrow> Some Descent_Malformed
         | Some (child_offset, p1) \<Rightarrow> do {
             edge \<leftarrow> rd_bytes m trie edge_start (p - edge_start);
             (if take (p - edge_start) remaining = edge
              then Some (Descent_To (unat child_offset) (drop (p - edge_start) remaining))
              else match_edges m trie sz remaining n p1)
           })
      })
   }"

text \<open>The loop over the nodes of a path, with the rounds that are left.\<close>

primrec trie_walk :: "memory \<Rightarrow> ptr \<Rightarrow> nat \<Rightarrow> nat \<Rightarrow> nat \<Rightarrow> byte list \<Rightarrow> hk_export_symbol \<Rightarrow> export_reply" where
  "trie_walk m trie sz 0 node remaining out = Some (HK_EXPORT_MALFORMED, out)"
| "trie_walk m trie sz (Suc n) node remaining out =
     (if node \<ge> sz then Some (HK_EXPORT_MALFORMED, out)
      else next_number m trie sz node out (\<lambda>terminal_size p.
        if unat terminal_size > sz - p then Some (HK_EXPORT_MALFORMED, out)
        else if remaining = [] \<and> terminal_size > 0 then decode_terminal m trie p (p + unat terminal_size) out
        else let p1 = p + unat terminal_size
          in if p1 \<ge> sz then Some (HK_EXPORT_MALFORMED, out)
             else do {
               child_count \<leftarrow> rd8 m trie p1;
               descended \<leftarrow> match_edges m trie sz remaining (unat child_count) (p1 + 1);
               (case descended of
                  Descent_Malformed \<Rightarrow> Some (HK_EXPORT_MALFORMED, out)
                | Descent_None \<Rightarrow> Some (HK_EXPORT_NOT_FOUND, out)
                | Descent_To child remaining1 \<Rightarrow> trie_walk m trie sz n child remaining1 out)
             }))"

definition hk_export_trie_find :: "memory \<Rightarrow> ptr \<Rightarrow> nat \<Rightarrow> byte list \<Rightarrow> hk_export_symbol \<Rightarrow> export_reply" where
  "hk_export_trie_find m trie sz name out =
     (if trie = 0 \<or> sz = 0 then Some (HK_EXPORT_INVALID_ARGUMENT, out)
      else trie_walk m trie sz (HK_EXPORT_TRIE_MAX_DEPTH + 1) 0 name out)"

section \<open>Every read is bounded, and the walk ends\<close>

lemma uleb_from_bounded:
  "readable m b sz \<Longrightarrow> \<exists>r. uleb_from m b sz n off shift acc = Some r \<and> (\<forall>v off'. r = Some (v, off') \<longrightarrow> off < off' \<and> off' \<le> sz)"
proof (induction n arbitrary: off shift acc)
  case (Suc n)
  show ?case
  proof (cases "off < sz")
    case True
    with Suc.prems obtain x where "rd8 m b off = Some x" using readableD by blast
    with True Suc.IH [OF Suc.prems, of "off + 1" "shift + 7"] show ?thesis
      by (auto simp: Let_def) (metis Suc_lessD Suc_eq_plus1)+
  qed simp
qed simp

lemma read_uleb128_bounded:
  assumes "readable m b sz"
  obtains "hk_export_read_uleb128 m b sz off = Some None"
  | v off' where "hk_export_read_uleb128 m b sz off = Some (Some (v, off'))" "off < off'" "off' \<le> sz"
  using uleb_from_bounded [OF assms, of 10 off 0 0] unfolding hk_export_read_uleb128_def
  by (auto split: if_splits) (metis option.exhaust surj_pair)

lemma next_number_answers:
  assumes "readable m b sz" "\<And>v off'. off < off' \<Longrightarrow> off' \<le> sz \<Longrightarrow> answers (f v off')"
  shows "answers (next_number m b sz off out f)"
  by (rule read_uleb128_bounded [OF assms(1), of off]) (use assms(2) in \<open>auto simp: next_number_def answers_Some\<close>)

lemma decode_terminal_answers: "readable m b fin \<Longrightarrow> answers (decode_terminal m b off fin out)"
  unfolding decode_terminal_def Let_def by (intro next_number_answers answers_basic)

lemma edge_end_bounded: "readable m b sz \<Longrightarrow> p \<le> sz \<Longrightarrow> \<exists>q. edge_end m b sz p = Some q \<and> p \<le> q \<and> q \<le> sz"
proof (induction m b sz p rule: edge_end.induct)
  case (1 m b sz p)
  show ?case
  proof (cases "p < sz")
    case True
    with 1 obtain x where "rd8 m b p = Some x" using readableD by blast
    with True 1 show ?thesis by (subst edge_end.simps) auto
  qed (use 1 in \<open>simp add: edge_end.simps\<close>)
qed

lemma match_edges_answers: "readable m b sz \<Longrightarrow> p \<le> sz \<Longrightarrow> answers (match_edges m b sz remaining n p)"
proof (induction n arbitrary: p)
  case (Suc n)
  obtain q where q: "edge_end m b sz p = Some q" "p \<le> q" "q \<le> sz" using edge_end_bounded [OF Suc.prems] by blast
  obtain bs where bs: "rd_bytes m b p (q - p) = Some bs"
    using readable_rd_bytes [OF Suc.prems(1), of p "q - p"] q by auto
  show ?case
    by (rule read_uleb128_bounded [OF Suc.prems(1), of "q + 1"])
      (use q bs Suc.IH [OF Suc.prems(1)] in \<open>auto simp: answers_Some\<close>)
qed (simp add: answers_Some)

lemma trie_walk_answers: "readable m b sz \<Longrightarrow> answers (trie_walk m b sz n node remaining out)"
proof (induction n arbitrary: node remaining)
  case (Suc n)
  have d: "answers (case d of Descent_Malformed \<Rightarrow> Some (HK_EXPORT_MALFORMED, out) | Descent_None \<Rightarrow> Some (HK_EXPORT_NOT_FOUND, out)
      | Descent_To child remaining1 \<Rightarrow> trie_walk m b sz n child remaining1 out)" for d
    using Suc.IH [OF Suc.prems] by (cases d) (simp_all add: answers_Some)
  show ?case
    unfolding trie_walk.simps Let_def
    by (intro answers_basic next_number_answers [OF Suc.prems] decode_terminal_answers d
        answers_reads [OF Suc.prems] match_edges_answers [OF Suc.prems] readable_mono [OF Suc.prems]) auto
qed (simp add: answers_Some)

end
