(* ===== verification/HK_ExportTrie_Props.thy ===== *)
theory HK_ExportTrie_Props
  imports HK_ExportTrie "HOL-Library.Sublist"
begin

text \<open>
  What the export trie's walk returns: numbers decode to what was encoded, and on a buffer that holds a
  prefix tree of at most 128 edges on a path the walk is the lookup of the finite map the tree stands for.
\<close>

section \<open>Numbers\<close>

text \<open>The encoding: seven bits to a byte, the least significant first.\<close>

function uleb_bytes :: "nat \<Rightarrow> byte list" where
  "uleb_bytes v = (if v < 128 then [of_nat v] else of_nat (v mod 128 + 128) # uleb_bytes (v div 128))"
  by pat_completeness auto
termination by (relation "measure id") auto

declare uleb_bytes.simps [simp del]

lemma uleb_byte:
  assumes "k < 128"
  shows "(of_nat k :: byte) AND 0x7F = of_nat k" "(of_nat k :: byte) AND 0x80 = 0"
    "(of_nat (k + 128) :: byte) AND 0x7F = of_nat k" "(of_nat (k + 128) :: byte) AND 0x80 \<noteq> 0"
proof -
  have low: "w AND 0x7F = take_bit 7 w" and high: "w AND 0x80 = 0 \<longleftrightarrow> \<not> bit w 7" for w :: byte
    using take_bit_eq_mask [of 7 w] and_exp_eq_0_iff_not_bit [of w 7] by (simp_all add: mask_eq_exp_minus_1)
  have "take_bit 7 k = k" "take_bit 7 (k + 128) = k" using assms by (simp_all add: take_bit_eq_mod)
  then show "(of_nat k :: byte) AND 0x7F = of_nat k" "(of_nat (k + 128) :: byte) AND 0x7F = of_nat k"
    unfolding low take_bit_of_nat by simp_all
  have "(k + 128) div 128 = 1" by (rule div_nat_eqI) (use assms in simp_all)
  then have "\<not> bit k 7" "bit (k + 128) 7" using assms by (simp_all add: bit_iff_odd)
  then show "(of_nat k :: byte) AND 0x80 = 0" "(of_nat (k + 128) :: byte) AND 0x80 \<noteq> 0"
    unfolding high by (simp_all add: bit_of_nat_iff del: of_nat_add)
qed

lemma or_push_bit_add:
  fixes a c :: u64
  assumes "unat a < 2 ^ s"
  shows "a OR push_bit s c = a + push_bit s c"
proof -
  have "a AND push_bit s c = 0"
  proof (rule bit_word_eqI)
    fix n assume "n < LENGTH(64)"
    have "\<not> bit a n" if "s \<le> n"
    proof -
      have "unat (take_bit s a) = unat a" using assms by (simp add: unsigned_take_bit_eq take_bit_nat_eq_self)
      with that show ?thesis by (metis bit_take_bit_iff not_le word_unat_eq_iff)
    qed
    then show "bit (a AND push_bit s c) n = bit (0 :: u64) n" by (auto simp: bit_and_iff bit_push_bit_iff)
  qed
  then show ?thesis by (simp add: disjunctive_add_eq_or)
qed

text \<open>Decoding from the middle of a number, with the bits below \<open>shift\<close> in \<open>acc\<close>.\<close>

lemma uleb_from_bytes:
  assumes "holds m p off (uleb_bytes v)" "off + length (uleb_bytes v) \<le> sz" "v * 2 ^ shift < 2 ^ 64" "unat acc < 2 ^ shift"
    "shift = 7 * (10 - n)" "0 < n" "n \<le> 10"
  shows "uleb_from m p sz n off shift acc = Some (Some (acc + of_nat (v * 2 ^ shift), off + length (uleb_bytes v)))"
  using assms
proof (induction v arbitrary: off shift acc n rule: uleb_bytes.induct)
  case (1 v)
  obtain k where n: "n = Suc k" using "1.prems"(6) by (cases n) auto
  have s: "shift \<le> 63" using "1.prems"(5,6) by simp
  have push: "push_bit shift (of_nat c :: u64) = of_nat (c * 2 ^ shift)" for c
    by (simp add: push_bit_eq_mult)
  have wide: "ucast (of_nat c :: byte) = (of_nat c :: u64)" if "c < 128" for c
    using that by (simp add: unsigned_of_nat take_bit_nat_eq_self)
  show ?case
  proof (cases "v < 128")
    case True
    have "\<not> (shift = 63 \<and> (of_nat v :: u64) > 1)"
      using "1.prems"(3) by (auto simp: word_less_nat_alt unat_of_nat take_bit_nat_eq_self)
    moreover have "rd8 m p off = Some (of_nat v)" "off < sz" "length (uleb_bytes v) = 1"
      using "1.prems"(1,2) True by (simp_all add: uleb_bytes.simps [of v])
    ultimately show ?thesis
      using True s or_push_bit_add [OF "1.prems"(4), of "of_nat v"]
      by (simp add: n uleb_byte wide Let_def push)
  next
    case False
    have big: "2 ^ (shift + 7) < (2 :: nat) ^ 64"
    proof -
      have "2 ^ (shift + 7) = 128 * (2 :: nat) ^ shift" by (simp add: power_add)
      also have "\<dots> \<le> v * 2 ^ shift" using False by (intro mult_right_mono) simp_all
      also note "1.prems"(3)
      finally show ?thesis .
    qed
    then have s57: "shift + 7 < 64" by (rule power_less_imp_less_exp [rotated]) simp
    have k: "0 < k" "shift + 7 = 7 * (10 - k)" "k \<le> 10" using s57 "1.prems"(5,7) n by auto
    have b: "rd8 m p off = Some (of_nat (v mod 128 + 128))" "holds m p (off + 1) (uleb_bytes (v div 128))"
      "off + 1 + length (uleb_bytes (v div 128)) \<le> sz"
      using "1.prems"(1,2) False by (simp_all add: uleb_bytes.simps [of v])
    let ?acc = "acc + of_nat (v mod 128 * 2 ^ shift)"
    have "unat ?acc \<le> unat acc + v mod 128 * 2 ^ shift"
      by (simp add: unat_word_ariths(1) unat_of_nat mod_add_right_eq del: of_nat_mult of_nat_power)
    also have "\<dots> < 2 ^ shift + 127 * 2 ^ shift"
      using "1.prems"(4) by (rule add_less_le_mono) simp
    finally have "unat ?acc < 2 ^ (shift + 7)" by (simp add: power_add)
    moreover have "v div 128 * 2 ^ (shift + 7) < 2 ^ 64"
    proof -
      have "v div 128 * 2 ^ (shift + 7) = (v div 128 * 128) * 2 ^ shift" by (simp add: power_add)
      also have "\<dots> \<le> v * 2 ^ shift" by simp
      finally show ?thesis using "1.prems"(3) by linarith
    qed
    ultimately have "uleb_from m p sz k (off + 1) (shift + 7) ?acc =
        Some (Some (?acc + of_nat (v div 128 * 2 ^ (shift + 7)), off + 1 + length (uleb_bytes (v div 128))))"
      using "1.IH" [OF False b(2,3) _ _ k(2,1,3)] by blast
    moreover have "?acc + of_nat (v div 128 * 2 ^ (shift + 7)) = acc + of_nat (v * 2 ^ shift)"
    proof -
      have "(a + b * 128) * 2 ^ shift = a * 2 ^ shift + b * 2 ^ (shift + 7)" for a b :: nat
        by (simp add: power_add algebra_simps)
      from this [of "v mod 128" "v div 128"] have "v * 2 ^ shift = v mod 128 * 2 ^ shift + v div 128 * 2 ^ (shift + 7)" by simp
      then show ?thesis by (simp only: of_nat_add add.assoc)
    qed
    moreover have "length (uleb_bytes v) = Suc (length (uleb_bytes (v div 128)))"
      using False by (simp add: uleb_bytes.simps [of v])
    ultimately show ?thesis
      using b s57 or_push_bit_add [OF "1.prems"(4), of "of_nat (v mod 128)"]
      by (simp add: n uleb_byte [of "v mod 128"] wide [of "v mod 128"] Let_def push del: of_nat_add)
  qed
qed

lemma read_uleb128_bytes:
  assumes "holds m p off (uleb_bytes (unat v))" "off + length (uleb_bytes (unat v)) \<le> sz" "p \<noteq> 0"
  shows "hk_export_read_uleb128 m p sz off = Some (Some (v, off + length (uleb_bytes (unat v))))"
  using uleb_from_bytes [OF assms(1,2), of 0 0 10] assms(3) unsigned_less [of v]
  by (simp add: hk_export_read_uleb128_def)

section \<open>Prefix trees in a buffer\<close>

text \<open>What a terminal node encodes, and the answer for it.\<close>

record export_entry =
  xe_flags :: u64
  xe_first :: u64
  xe_second :: u64
  xe_name :: "byte list"

definition export_payload :: "export_entry \<Rightarrow> byte list" where
  "export_payload x = uleb_bytes (unat (xe_flags x)) @ uleb_bytes (unat (xe_first x)) @
     (if xe_flags x AND HK_EXPORT_FLAGS_REEXPORT \<noteq> 0 then xe_name x
      else if xe_flags x AND HK_EXPORT_FLAGS_STUB_AND_RESOLVER \<noteq> 0 then uleb_bytes (unat (xe_second x))
      else [])"

definition export_answer :: "export_entry \<Rightarrow> hk_export_status \<times> hk_export_symbol" where
  "export_answer x =
     (let kind = xe_flags x AND HK_EXPORT_FLAGS_KIND_MASK; reexport = xe_flags x AND HK_EXPORT_FLAGS_REEXPORT \<noteq> 0;
          stub = \<not> reexport \<and> xe_flags x AND HK_EXPORT_FLAGS_STUB_AND_RESOLVER \<noteq> 0
      in (if reexport then HK_EXPORT_UNSUPPORTED_KIND else HK_EXPORT_OK,
          \<lparr>ex_flags = xe_flags x, ex_address = if reexport then 0 else xe_first x,
           ex_other = if reexport then xe_first x else if stub then xe_second x else 0,
           ex_is_weak = xe_flags x AND HK_EXPORT_FLAGS_WEAK_DEFINITION \<noteq> 0,
           ex_is_thread_local = (kind = HK_EXPORT_FLAGS_KIND_THREAD_LOCAL),
           ex_is_absolute = (kind = HK_EXPORT_FLAGS_KIND_ABSOLUTE),
           ex_is_reexport = reexport, ex_is_stub_and_resolver = stub\<rparr>))"

lemma next_number_bytes:
  assumes "holds m p off (uleb_bytes (unat v))" "off + length (uleb_bytes (unat v)) \<le> sz" "p \<noteq> 0"
  shows "next_number m p sz off out f = f v (off + length (uleb_bytes (unat v)))"
  by (simp add: next_number_def read_uleb128_bytes [OF assms])

lemma decode_terminal_payload:
  assumes "holds m p off (export_payload x)" "off + length (export_payload x) \<le> fin" "p \<noteq> 0"
  shows "decode_terminal m p off fin out = Some (export_answer x)"
proof -
  have "holds m p off (uleb_bytes (unat (xe_flags x)))" "off + length (uleb_bytes (unat (xe_flags x))) \<le> fin"
    "holds m p (off + length (uleb_bytes (unat (xe_flags x)))) (uleb_bytes (unat (xe_first x)))"
    "off + length (uleb_bytes (unat (xe_flags x))) + length (uleb_bytes (unat (xe_first x))) \<le> fin"
    using assms(1,2) by (simp_all add: export_payload_def add.assoc)
  note n = next_number_bytes [OF this(1,2) assms(3)] next_number_bytes [OF this(3,4) assms(3)]
  show ?thesis
  proof (cases "xe_flags x AND HK_EXPORT_FLAGS_REEXPORT = 0 \<and> xe_flags x AND HK_EXPORT_FLAGS_STUB_AND_RESOLVER \<noteq> 0")
    case True
    then have "holds m p (off + length (uleb_bytes (unat (xe_flags x))) + length (uleb_bytes (unat (xe_first x)))) (uleb_bytes (unat (xe_second x)))"
      "off + length (uleb_bytes (unat (xe_flags x))) + length (uleb_bytes (unat (xe_first x))) + length (uleb_bytes (unat (xe_second x))) \<le> fin"
      using assms(1,2) by (simp_all add: export_payload_def add.assoc)
    note n3 = next_number_bytes [OF this assms(3)]
    show ?thesis using True by (simp add: decode_terminal_def n n3 export_answer_def Let_def)
  next
    case False
    then show ?thesis by (auto simp: decode_terminal_def n export_answer_def Let_def)
  qed
qed

text \<open>A tree with the offsets of its nodes: what a node defines, and its edges.\<close>

datatype export_trie = Export_Trie (trie_off: nat) (trie_entry: "export_entry option") (trie_edges: "(byte list \<times> export_trie) list")

definition entry_bytes :: "export_entry option \<Rightarrow> byte list" where
  "entry_bytes d = (case d of None \<Rightarrow> [] | Some x \<Rightarrow> export_payload x)"

definition edge_bytes :: "byte list \<times> export_trie \<Rightarrow> byte list" where
  "edge_bytes = (\<lambda>(e, t). e @ [0] @ uleb_bytes (trie_off t))"

definition node_bytes :: "export_trie \<Rightarrow> byte list" where
  "node_bytes t = uleb_bytes (length (entry_bytes (trie_entry t))) @ entry_bytes (trie_entry t) @
     [of_nat (length (trie_edges t))] @ concat (map edge_bytes (trie_edges t))"

primrec laid :: "memory \<Rightarrow> ptr \<Rightarrow> nat \<Rightarrow> export_trie \<Rightarrow> bool"
  and laid_edges :: "memory \<Rightarrow> ptr \<Rightarrow> nat \<Rightarrow> (byte list \<times> export_trie) list \<Rightarrow> bool"
  and laid_edge :: "memory \<Rightarrow> ptr \<Rightarrow> nat \<Rightarrow> byte list \<times> export_trie \<Rightarrow> bool" where
  "laid m p sz (Export_Trie off d es) \<longleftrightarrow> laid_edges m p sz es \<and> length es < 256 \<and>
     off + length (node_bytes (Export_Trie off d es)) \<le> sz \<and> holds m p off (node_bytes (Export_Trie off d es))"
| "laid_edges m p sz [] \<longleftrightarrow> True"
| "laid_edges m p sz (x # xs) \<longleftrightarrow> laid_edge m p sz x \<and> laid_edges m p sz xs"
| "laid_edge m p sz (e, t) \<longleftrightarrow> 0 \<notin> set e \<and> laid m p sz t"

text \<open>The path of a tree takes no more rounds than the walk has.\<close>

primrec shallow :: "nat \<Rightarrow> export_trie \<Rightarrow> bool" where
  "shallow 0 t \<longleftrightarrow> False"
| "shallow (Suc n) t \<longleftrightarrow> (\<forall>(e, c) \<in> set (trie_edges t). shallow n c)"

text \<open>The finite map of a tree.\<close>

primrec exports :: "export_trie \<Rightarrow> (byte list \<times> export_entry) list"
  and exports_edges :: "(byte list \<times> export_trie) list \<Rightarrow> (byte list \<times> export_entry) list"
  and exports_edge :: "byte list \<times> export_trie \<Rightarrow> (byte list \<times> export_entry) list" where
  "exports (Export_Trie off d es) = (case d of None \<Rightarrow> [] | Some x \<Rightarrow> [([], x)]) @ exports_edges es"
| "exports_edges [] = []"
| "exports_edges (x # xs) = exports_edge x @ exports_edges xs"
| "exports_edge (e, t) = map (\<lambda>(n, x). (e @ n, x)) (exports t)"

text \<open>No edge of a node is a prefix of another.\<close>

primrec unambiguous :: "export_trie \<Rightarrow> bool"
  and unambiguous_edges :: "(byte list \<times> export_trie) list \<Rightarrow> bool"
  and unambiguous_edge :: "byte list \<times> export_trie \<Rightarrow> bool" where
  "unambiguous (Export_Trie off d es) \<longleftrightarrow> unambiguous_edges es"
| "unambiguous_edges [] \<longleftrightarrow> True"
| "unambiguous_edges (x # xs) \<longleftrightarrow> unambiguous_edge x \<and> unambiguous_edges xs \<and> (\<forall>y \<in> set xs. fst x \<parallel> fst y)"
| "unambiguous_edge (e, t) \<longleftrightarrow> unambiguous t"

lemma edges_iff:
  "laid_edges m p sz es \<longleftrightarrow> (\<forall>(e, t) \<in> set es. 0 \<notin> set e \<and> laid m p sz t)"
  by (induction es) auto

lemma unambiguous_iff: "unambiguous_edges es \<Longrightarrow> (e, t) \<in> set es \<Longrightarrow> unambiguous t"
  by (induction es) auto

lemma map_of_append_keys: "map_of (map (\<lambda>(n, x). (e @ n, x)) xs) name = (if prefix e name then map_of xs (drop (length e) name) else None)"
  by (induction xs) (auto simp: prefix_def)

lemma exports_no_prefix: "\<forall>y \<in> set xs. e \<parallel> fst y \<Longrightarrow> prefix e name \<Longrightarrow> map_of (exports_edges xs) name = None"
proof (induction xs)
  case (Cons y xs)
  obtain e' t where y: "y = (e', t)" by (cases y)
  have "\<not> prefix e' name" using Cons.prems y by (auto dest: prefix_same_cases)
  then show ?case using Cons by (simp add: y map_of_append_keys)
qed simp

section \<open>The walk\<close>

lemma edge_end_bytes:
  assumes "holds m p i (e @ [0])" "0 \<notin> set e" "i + length e < sz"
  shows "edge_end m p sz i = Some (i + length e)"
  using assms
proof (induction e arbitrary: i)
  case Nil then show ?case by (simp add: edge_end.simps)
next
  case (Cons b e) then show ?case by (subst edge_end.simps) auto
qed

text \<open>Which edge the scan takes.\<close>

lemma match_edges_bytes:
  assumes "holds m p i (concat (map edge_bytes es))" "i + length (concat (map edge_bytes es)) \<le> sz" "p \<noteq> 0" "sz < 2 ^ 64"
    "\<forall>(e, t) \<in> set es. 0 \<notin> set e \<and> laid m p sz t"
  shows "match_edges m p sz name (length es) i =
    Some (case find (\<lambda>(e, t). prefix e name) es of None \<Rightarrow> Descent_None | Some (e, t) \<Rightarrow> Descent_To (trie_off t) (drop (length e) name))"
  using assms
proof (induction es arbitrary: i)
  case (Cons x es)
  obtain e t where x: "x = (e, t)" by (cases x)
  let ?o = "trie_off t"
  have off: "?o < 2 ^ 64"
    using Cons.prems(4,5) x by (cases t) auto
  then have o: "unat (of_nat ?o :: u64) = ?o" by (simp add: unat_of_nat take_bit_nat_eq_self)
  have h: "holds m p i (e @ [0])" "holds m p i e" "0 \<notin> set e" "holds m p (i + length e + 1) (uleb_bytes ?o)"
    "i + length e + 1 + length (uleb_bytes ?o) + length (concat (map edge_bytes es)) \<le> sz"
    "holds m p (i + length e + 1 + length (uleb_bytes ?o)) (concat (map edge_bytes es))"
    using Cons.prems(1,2,5) by (simp_all add: x edge_bytes_def add.assoc)
  have scan: "edge_end m p sz i = Some (i + length e)" by (rule edge_end_bytes [OF h(1,3)]) (use h(5) in simp)
  have num: "hk_export_read_uleb128 m p sz (i + length e + 1) = Some (Some (of_nat ?o, i + length e + 1 + length (uleb_bytes ?o)))"
    using read_uleb128_bytes [of m p "i + length e + 1" "of_nat ?o" sz] h(4,5) Cons.prems(3) by (simp add: o)
  have "take (length e) name = e \<longleftrightarrow> prefix e name"
    by (metis append_eq_conv_conj prefix_def append_take_drop_id)
  then show ?case
    using Cons.IH [OF h(6) _ Cons.prems(3,4)] Cons.prems(5) h(2,5) scan num by (simp add: x holds_def o)
qed simp

text \<open>The same choice, in the finite map.\<close>

lemma exports_find:
  assumes "unambiguous_edges es"
  shows "map_of (exports_edges es) name =
    (case find (\<lambda>(e, t). prefix e name) es of None \<Rightarrow> None | Some (e, t) \<Rightarrow> map_of (exports t) (drop (length e) name))"
  using assms
proof (induction es)
  case (Cons x es)
  obtain e t where x: "x = (e, t)" by (cases x)
  show ?case
  proof (cases "prefix e name")
    case True
    moreover have "map_of (exports_edges es) name = None"
      using exports_no_prefix [OF _ True] Cons.prems x by simp
    ultimately show ?thesis by (auto simp: x map_of_append_keys map_add_def split: option.split)
  qed (use Cons in \<open>simp add: x map_of_append_keys map_add_def\<close>)
qed simp

lemma payload_not_empty [simp]: "export_payload x \<noteq> []"
  by (simp add: export_payload_def uleb_bytes.simps)

lemma trie_walk_bytes:
  assumes "laid m p sz t" "shallow n t" "unambiguous t" "p \<noteq> 0" "sz < 2 ^ 64"
  shows "trie_walk m p sz n (trie_off t) name out =
    Some (case map_of (exports t) name of None \<Rightarrow> (HK_EXPORT_NOT_FOUND, out) | Some x \<Rightarrow> export_answer x)"
  using assms(1-3)
proof (induction n arbitrary: t name)
  case (Suc n)
  obtain off d es where t: "t = Export_Trie off d es" by (cases t)
  let ?L = "length (entry_bytes d)"
  let ?q = "off + length (uleb_bytes ?L)"
  have h: "holds m p off (uleb_bytes ?L)" "holds m p ?q (entry_bytes d)" "rd8 m p (?q + ?L) = Some (of_nat (length es))"
    "holds m p (?q + ?L + 1) (concat (map edge_bytes es))" "?q + ?L + 1 + length (concat (map edge_bytes es)) \<le> sz" "length es < 256"
    using Suc.prems(1) by (simp_all add: t node_bytes_def add.assoc)
  have L: "unat (of_nat ?L :: u64) = ?L" using h(5) assms(5) by (simp add: unat_of_nat take_bit_nat_eq_self)
  have c: "unat (of_nat (length es) :: byte) = length es" using h(6) by (simp add: unat_of_nat take_bit_nat_eq_self)
  have step: "next_number m p sz off out f = f (of_nat ?L) ?q" for f
    using next_number_bytes [of m p off "of_nat ?L" sz out f] h(1,5) assms(4) by (simp add: L)
  have some: "(of_nat ?L :: u64) > 0 \<longleftrightarrow> d \<noteq> None"
    using L by (auto simp: word_less_nat_alt entry_bytes_def split: option.splits)
  show ?case
  proof (cases "name = [] \<and> d \<noteq> None")
    case True
    then obtain x where d: "d = Some x" by auto
    have "decode_terminal m p ?q (?q + ?L) out = Some (export_answer x)"
      using decode_terminal_payload [of m p ?q x "?q + ?L"] h(2) assms(4) by (simp add: d entry_bytes_def)
    moreover have "\<not> ?L > sz - ?q" using h(5) by simp
    ultimately show ?thesis
      using True h(5) some L by (simp add: t step d)
  next
    case False
    have edges: "\<forall>(e, t) \<in> set es. 0 \<notin> set e \<and> laid m p sz t" using Suc.prems(1) by (simp add: t edges_iff)
    have here: "map_of (exports t) name = map_of (exports_edges es) name"
      using False by (auto simp: t split: option.split)
    have un: "unambiguous_edges es" using Suc.prems(3) by (simp add: t)
    have walk: "trie_walk m p sz (Suc n) off name out =
      (case find (\<lambda>(e, t). prefix e name) es of None \<Rightarrow> Some (HK_EXPORT_NOT_FOUND, out)
       | Some (e, c) \<Rightarrow> trie_walk m p sz n (trie_off c) (drop (length e) name) out)"
      using False h(3,5) some L match_edges_bytes [OF h(4,5) assms(4,5) edges, of name]
      by (auto simp: step c split: option.split)
    show ?thesis
    proof (cases "find (\<lambda>(e, t). prefix e name) es")
      case None
      then show ?thesis using walk here exports_find [OF un, of name] by (simp only: t export_trie.sel option.case)
    next
      case (Some x)
      obtain e c where x: "x = (e, c)" by (cases x)
      have "(e, c) \<in> set es" using Some x by (auto simp: find_Some_iff in_set_conv_nth)
      then have "laid m p sz c" "shallow n c" "unambiguous c"
        using edges Suc.prems(2) un by (auto simp: t unambiguous_iff)
      from Suc.IH [OF this, of "drop (length e) name"] show ?thesis
        using walk here exports_find [OF un, of name] Some x by (simp only: t export_trie.sel option.case prod.case)
    qed
  qed
qed simp

lemma trie_find_bytes:
  assumes "laid m p sz t" "trie_off t = 0" "shallow (HK_EXPORT_TRIE_MAX_DEPTH + 1) t" "unambiguous t" "p \<noteq> 0" "sz < 2 ^ 64"
  shows "hk_export_trie_find m p sz name out =
    Some (case map_of (exports t) name of None \<Rightarrow> (HK_EXPORT_NOT_FOUND, out) | Some x \<Rightarrow> export_answer x)"
proof -
  have "sz \<noteq> 0" using assms(1) by (cases t) (auto simp: node_bytes_def)
  then show ?thesis
    using trie_walk_bytes [OF assms(1,3,4,5,6)] assms(2,5) by (simp add: hk_export_trie_find_def)
qed

text \<open>The cycle the depth cap exists for: an empty edge of the root that leads to the root.\<close>

lemma trie_cycle_refused:
  assumes "holds m p 0 [0, 1, 0, 0]" "p \<noteq> 0"
  shows "hk_export_trie_find m p 4 name out = Some (HK_EXPORT_MALFORMED, out)"
proof -
  have "rd8 m p 3 = Some 0" using assms(1) by (simp add: numeral_3_eq_3)
  then have num: "next_number m p 4 0 out f = f 0 1" "hk_export_read_uleb128 m p 4 3 = Some (Some (0, 4))" for f
    using next_number_bytes [of m p 0 0 4 out f] read_uleb128_bytes [of m p 3 0 4] assms by (simp_all add: uleb_bytes.simps [of 0])
  have "rd8 m p 2 = Some 0" using assms(1) by (simp add: numeral_2_eq_2)
  then have "edge_end m p 4 (Suc (Suc 0)) = Some 2" by (simp add: edge_end.simps flip: numeral_2_eq_2)
  then have "trie_walk m p 4 n 0 name out = Some (HK_EXPORT_MALFORMED, out)" for n
    using assms by (induction n) (simp_all add: num)
  then show ?thesis using assms(2) by (simp add: hk_export_trie_find_def del: trie_walk.simps)
qed

section \<open>Properties\<close>

text \<open>C39. The walk of the export trie returns, whatever the bytes are: if the bytes of the trie can be read, it
  answers with a status within its 129 rounds, and reads nothing else.\<close>

theorem export_walk_returns:
  assumes "readable m trie sz"
  shows "\<exists>status symbol. hk_export_trie_find m trie sz name out = Some (status, symbol)"
proof -
  have "answers (hk_export_trie_find m trie sz name out)"
    unfolding hk_export_trie_find_def by (intro answers_basic trie_walk_answers assms)
  then show ?thesis by (auto simp: answers_def)
qed

text \<open>C40. On a buffer that holds a prefix tree at offset 0, with no path longer than the cap and no edge of a
  node a prefix of another, the walk is the lookup of the finite map the tree stands for: the definition
  that the name has, or \<open>HK_EXPORT_NOT_FOUND\<close>.\<close>

theorem export_trie_lookup:
  assumes "laid m trie sz t" "trie_off t = 0" "shallow (HK_EXPORT_TRIE_MAX_DEPTH + 1) t" "unambiguous t" "trie \<noteq> 0" "sz < 2 ^ 64"
  shows "hk_export_trie_find m trie sz name out =
    Some (case map_of (exports t) name of None \<Rightarrow> (HK_EXPORT_NOT_FOUND, out) | Some x \<Rightarrow> export_answer x)"
  using assms by (rule trie_find_bytes)

text \<open>The trie of one export, \<open>_f\<close> at \<open>0x40\<close>.\<close>

definition sample_export :: export_entry where
  "sample_export = \<lparr>xe_flags = 0, xe_first = 0x40, xe_second = 0, xe_name = []\<rparr>"

definition sample_symbol :: hk_export_symbol where
  "sample_symbol = \<lparr>ex_flags = 0, ex_address = 0, ex_other = 0, ex_is_weak = False, ex_is_thread_local = False,
     ex_is_absolute = False, ex_is_reexport = False, ex_is_stub_and_resolver = False\<rparr>"

definition sample_trie :: export_trie where
  "sample_trie = Export_Trie 0 None [([0x5F, 0x66], Export_Trie 6 (Some sample_export) [])]"

definition sample_trie_memory :: memory where
  "sample_trie_memory = mem_of 0x1000 [0, 1, 0x5F, 0x66, 0, 6, 2, 0, 0x40, 0]"

lemma sample_trie_laid: "laid sample_trie_memory 0x1000 10 sample_trie"
proof -
  have "rd8 sample_trie_memory 0x1000 i = Some ([0, 1, 0x5F, 0x66, 0, 6, 2, 0, 0x40, 0] ! i)" if "i < 10" for i
    unfolding sample_trie_memory_def by (rule rd8_mem_of) (use that in simp_all)
  then show ?thesis
    by (simp add: sample_trie_def sample_export_def node_bytes_def edge_bytes_def entry_bytes_def export_payload_def
        uleb_bytes.simps [of 0] uleb_bytes.simps [of "Suc (Suc 0)"] uleb_bytes.simps [of 6] uleb_bytes.simps [of "0x40"])
qed

theorem export_walk_returns_witness:
  "\<exists>status symbol. hk_export_trie_find sample_trie_memory 0x1000 10 [0x67] sample_symbol = Some (status, symbol)"
  by (rule export_walk_returns) (simp add: sample_trie_memory_def mem_of_def readable_def rd8_def Let_def unat_of_nat take_bit_nat_eq_self)

theorem export_trie_lookup_witness:
  "hk_export_trie_find sample_trie_memory 0x1000 10 [0x5F, 0x66] sample_symbol = Some (export_answer sample_export)"
proof -
  have "trie_off sample_trie = 0" "shallow (HK_EXPORT_TRIE_MAX_DEPTH + 1) sample_trie" "unambiguous sample_trie"
    by (simp_all add: sample_trie_def HK_EXPORT_TRIE_MAX_DEPTH_def eval_nat_numeral)
  from export_trie_lookup [OF sample_trie_laid this, of "[0x5F, 0x66]" sample_symbol] show ?thesis
    by (simp add: sample_trie_def)
qed

end
