(* ===== verification/HK_SymbolTable.thy ===== *)
theory HK_SymbolTable
  imports HK_Types HK_MachO HK_Answers
begin

text \<open>
  The search of a symbol table (\<open>src/resolvers/HKSymbolTable.c\<close>), over the view that the Mach-O parser
  returns. Reads fault with \<open>None\<close>; \<open>Some None\<close> is the answer false.
\<close>

section \<open>The search\<close>

record hk_macho_nlist64 =
  nl_strx :: u32
  nl_type :: byte
  nl_sect :: byte
  nl_desc :: u16
  nl_value :: u64

definition HK_N_STAB :: byte where "HK_N_STAB = 0xE0"
definition HK_N_TYPE :: byte where "HK_N_TYPE = 0x0E"
definition HK_N_EXT :: byte where "HK_N_EXT = 0x01"
definition HK_N_SECT :: byte where "HK_N_SECT = 0x0E"

record hk_symbol_query =
  sq_name :: "byte list"
  sq_convention :: hk_symbol_name_convention
  sq_visibility :: hk_symbol_visibility

record hk_symbol_match =
  sm_n_value :: u64
  sm_n_sect :: byte
  sm_n_type :: byte
  sm_index :: nat

definition read_nlist :: "memory \<Rightarrow> ptr \<Rightarrow> nat \<Rightarrow> hk_macho_nlist64 option" where
  "read_nlist m nlist i = do {
     strx \<leftarrow> rd32 m nlist (NLIST64_SIZE * i);
     typ \<leftarrow> rd8 m nlist (NLIST64_SIZE * i + 4);
     sect \<leftarrow> rd8 m nlist (NLIST64_SIZE * i + 5);
     desc \<leftarrow> rd16 m nlist (NLIST64_SIZE * i + 6);
     value \<leftarrow> rd64 m nlist (NLIST64_SIZE * i + 8);
     Some \<lparr>nl_strx = strx, nl_type = typ, nl_sect = sect, nl_desc = desc, nl_value = value\<rparr> }"

text \<open>The name is the bytes of the C string without its NUL.\<close>

primrec bounded_string_equals :: "memory \<Rightarrow> ptr \<Rightarrow> nat \<Rightarrow> nat \<Rightarrow> byte list \<Rightarrow> bool option" where
  "bounded_string_equals m strings strings_size pos [] =
     (if pos \<ge> strings_size then Some False
      else do { table_char \<leftarrow> rd8 m strings pos; Some (table_char = 0) })"
| "bounded_string_equals m strings strings_size pos (c # cs) =
     (if pos \<ge> strings_size then Some False
      else do {
        table_char \<leftarrow> rd8 m strings pos;
        (if table_char \<noteq> c then Some False
         else if table_char = 0 then Some True
         else bounded_string_equals m strings strings_size (pos + 1) cs)
      })"

definition underscore :: byte where "underscore = 0x5F"

definition name_matches :: "memory \<Rightarrow> ptr \<Rightarrow> nat \<Rightarrow> nat \<Rightarrow> byte list \<Rightarrow> hk_symbol_name_convention \<Rightarrow> bool option" where
  "name_matches m strings strings_size offset name convention = do {
     verbatim \<leftarrow> bounded_string_equals m strings strings_size offset name;
     (if verbatim then Some True
      else if convention = HK_SYMBOL_NAME_MACHO_EXACT then Some False
      else if offset < strings_size then do {
        first \<leftarrow> rd8 m strings offset;
        (if first = underscore then bounded_string_equals m strings strings_size (offset + 1) name else Some False)
      }
      else Some False)
   }"

definition visibility_permits :: "byte \<Rightarrow> hk_symbol_visibility \<Rightarrow> bool" where
  "visibility_permits n_type visibility \<longleftrightarrow>
     (visibility = HK_SYMBOL_VISIBILITY_EXPORTED_ONLY \<longrightarrow> n_type AND HK_N_EXT \<noteq> 0)"

text \<open>The loop over the entries, from entry \<open>i\<close>.\<close>

primrec find_symbol_from :: "memory \<Rightarrow> hk_symbol_table_view \<Rightarrow> hk_symbol_query \<Rightarrow> nat \<Rightarrow> nat \<Rightarrow> hk_symbol_match option option" where
  "find_symbol_from m view query i 0 = Some None"
| "find_symbol_from m view query i (Suc n) = do {
     ent \<leftarrow> read_nlist m (sv_nlist view) i;
     (if nl_type ent AND HK_N_STAB \<noteq> 0 then find_symbol_from m view query (i + 1) n
      else if nl_type ent AND HK_N_TYPE \<noteq> HK_N_SECT \<or> nl_value ent = 0 then find_symbol_from m view query (i + 1) n
      else if nl_strx ent = 0 then find_symbol_from m view query (i + 1) n
      else if \<not> visibility_permits (nl_type ent) (sq_visibility query) then find_symbol_from m view query (i + 1) n
      else do {
        named \<leftarrow> name_matches m (sv_strings view) (sv_strings_size view) (unat (nl_strx ent)) (sq_name query) (sq_convention query);
        (if \<not> named then find_symbol_from m view query (i + 1) n
         else Some (Some \<lparr>sm_n_value = nl_value ent, sm_n_sect = nl_sect ent, sm_n_type = nl_type ent, sm_index = i\<rparr>))
      })
   }"

definition hk_symbol_table_find :: "memory \<Rightarrow> hk_symbol_table_view \<Rightarrow> hk_symbol_query \<Rightarrow> hk_symbol_match option option" where
  "hk_symbol_table_find m view query =
     (if sv_nlist view = 0 \<or> sv_strings view = 0 \<or> sv_strings_size view = 0 then Some None
      else if sq_name query = [] then Some None
      else find_symbol_from m view query 0 (unat (sv_nlist_count view)))"

section \<open>The first match\<close>

text \<open>The table holds a string, with its NUL, inside its bounds.\<close>

definition stored_name :: "memory \<Rightarrow> hk_symbol_table_view \<Rightarrow> nat \<Rightarrow> byte list \<Rightarrow> bool" where
  "stored_name m view offset name \<longleftrightarrow>
     offset + length name < sv_strings_size view \<and> holds m (sv_strings view) offset (name @ [0])"

text \<open>An entry that names the symbol asked for: defined in a section, permitted, and of the right name.\<close>

definition defines_symbol :: "memory \<Rightarrow> hk_symbol_table_view \<Rightarrow> hk_symbol_query \<Rightarrow> hk_macho_nlist64 \<Rightarrow> bool" where
  "defines_symbol m view query ent \<longleftrightarrow>
     nl_type ent AND HK_N_STAB = 0 \<and> nl_type ent AND HK_N_TYPE = HK_N_SECT \<and> nl_value ent \<noteq> 0 \<and> nl_strx ent \<noteq> 0 \<and>
     visibility_permits (nl_type ent) (sq_visibility query) \<and>
     (stored_name m view (unat (nl_strx ent)) (sq_name query) \<or>
      sq_convention query \<noteq> HK_SYMBOL_NAME_MACHO_EXACT \<and> stored_name m view (unat (nl_strx ent)) (underscore # sq_name query))"

definition view_readable :: "memory \<Rightarrow> hk_symbol_table_view \<Rightarrow> bool" where
  "view_readable m view \<longleftrightarrow>
     readable m (sv_nlist view) (NLIST64_SIZE * unat (sv_nlist_count view)) \<and> readable m (sv_strings view) (sv_strings_size view)"

lemma bounded_string_equals_iff:
  assumes "readable m strings sz" "0 \<notin> set name"
  shows "bounded_string_equals m strings sz pos name = Some (pos + length name < sz \<and> holds m strings pos (name @ [0]))"
  using assms(2)
proof (induction name arbitrary: pos)
  case Nil
  show ?case using readableD [OF assms(1), of pos] by auto
next
  case (Cons c cs)
  show ?case
  proof (cases "pos < sz")
    case True
    then obtain x where "rd8 m strings pos = Some x" using readableD [OF assms(1)] by blast
    then show ?thesis using True Cons by auto
  qed simp
qed

lemma name_matches_iff:
  assumes "readable m (sv_strings view) (sv_strings_size view)" "0 \<notin> set name"
  shows "name_matches m (sv_strings view) (sv_strings_size view) offset name convention =
    Some (stored_name m view offset name \<or>
      convention \<noteq> HK_SYMBOL_NAME_MACHO_EXACT \<and> stored_name m view offset (underscore # name))"
proof (cases "offset < sv_strings_size view")
  case True
  then obtain x where "rd8 m (sv_strings view) offset = Some x" using readableD [OF assms(1)] by blast
  with True show ?thesis
    by (auto simp: name_matches_def bounded_string_equals_iff [OF assms] stored_name_def underscore_def)
qed (simp add: name_matches_def bounded_string_equals_iff [OF assms] stored_name_def)

lemma read_nlist_readable:
  assumes "readable m nlist (NLIST64_SIZE * n)" "i < n"
  shows "\<exists>ent. read_nlist m nlist i = Some ent"
proof -
  have "NLIST64_SIZE * i + 16 \<le> NLIST64_SIZE * n" using assms(2) by (simp add: NLIST64_SIZE_def)
  then have "answers (read_nlist m nlist i)"
    unfolding read_nlist_def by (intro answers_basic answers_reads [OF assms(1)]) auto
  then show ?thesis by (auto simp: answers_def)
qed

definition symbol_at :: "memory \<Rightarrow> hk_symbol_table_view \<Rightarrow> nat \<Rightarrow> hk_macho_nlist64" where
  "symbol_at m view i = (case read_nlist m (sv_nlist view) i of None \<Rightarrow> undefined | Some ent \<Rightarrow> ent)"

definition match_of :: "memory \<Rightarrow> hk_symbol_table_view \<Rightarrow> nat \<Rightarrow> hk_symbol_match" where
  "match_of m view i = (let ent = symbol_at m view i in
     \<lparr>sm_n_value = nl_value ent, sm_n_sect = nl_sect ent, sm_n_type = nl_type ent, sm_index = i\<rparr>)"

lemma find_symbol_from_iff:
  assumes "view_readable m view" "0 \<notin> set (sq_name query)" "i + n \<le> unat (sv_nlist_count view)"
  shows "find_symbol_from m view query i n =
    Some (map_option (match_of m view) (find (\<lambda>j. defines_symbol m view query (symbol_at m view j)) [i..<i + n]))"
  using assms(3)
proof (induction n arbitrary: i)
  case (Suc n)
  have r: "readable m (sv_nlist view) (NLIST64_SIZE * unat (sv_nlist_count view))" "readable m (sv_strings view) (sv_strings_size view)"
    using assms(1) by (simp_all add: view_readable_def)
  obtain ent where ent: "read_nlist m (sv_nlist view) i = Some ent"
    using read_nlist_readable [OF r(1), of i] Suc.prems by auto
  have at: "symbol_at m view i = ent" by (simp add: symbol_at_def ent)
  have "[i..<i + Suc n] = i # [i + 1..<i + 1 + n]" by (simp add: upt_conv_Cons)
  then show ?case
    using Suc.IH [of "i + 1"] Suc.prems
    by (simp add: ent at name_matches_iff [OF r(2) assms(2)] defines_symbol_def match_of_def Let_def)
qed simp

lemma symbol_table_find_iff:
  assumes "view_readable m view" "0 \<notin> set (sq_name query)" "sq_name query \<noteq> []"
    "sv_nlist view \<noteq> 0" "sv_strings view \<noteq> 0" "0 < sv_strings_size view"
  shows "hk_symbol_table_find m view query =
    Some (map_option (match_of m view)
      (find (\<lambda>i. defines_symbol m view query (symbol_at m view i)) [0..<unat (sv_nlist_count view)]))"
  using find_symbol_from_iff [OF assms(1,2), of 0 "unat (sv_nlist_count view)"] assms(3-6)
  by (simp add: hk_symbol_table_find_def)

end
