(* ===== verification/HK_SymbolResolve.thy ===== *)
theory HK_SymbolResolve
  imports HK_SymbolTable HK_ExportTrie_Props HK_MachO_Props
begin

text \<open>
  Resolver selection (\<open>src/resolvers/HKSymbolResolve.c\<close>): the forms of a name, the order in which the export
  trie and the symbol table are asked, and the collection of both from an image. The lookup in the shared
  cache's local symbols is a parameter of the last function.
\<close>

section \<open>Candidates and sources\<close>

definition HK_RESOLVE_MAX_NAME :: nat where "HK_RESOLVE_MAX_NAME = 1024"

datatype hk_resolve_status =
    HK_RESOLVE_OK | HK_RESOLVE_NOT_FOUND | HK_RESOLVE_INVALID_ARGUMENT | HK_RESOLVE_NAME_TOO_LONG
  | HK_RESOLVE_MALFORMED_IMAGE | HK_RESOLVE_UNSUPPORTED

datatype hk_resolve_source = HK_RESOLVE_SOURCE_NONE | HK_RESOLVE_SOURCE_EXPORT_TRIE | HK_RESOLVE_SOURCE_SYMBOL_TABLE

text \<open>The names in order.\<close>

definition hk_symbol_build_candidates :: "byte list \<Rightarrow> hk_symbol_name_convention \<Rightarrow> hk_resolve_status + byte list list" where
  "hk_symbol_build_candidates name convention =
     (if length name = 0 then Inl HK_RESOLVE_INVALID_ARGUMENT
      else if length name > HK_RESOLVE_MAX_NAME then Inl HK_RESOLVE_NAME_TOO_LONG
      else if convention \<noteq> HK_SYMBOL_NAME_MACHO_EXACT then Inr [name, underscore # name]
      else Inr [name])"

record hk_symbol_sources =
  so_symbol_table :: hk_symbol_table_view
  so_export_trie :: ptr
  so_export_trie_size :: nat
  so_header_address :: u64
  so_slide :: u64

record hk_symbol_resolution =
  rs_address :: u64
  rs_source :: hk_resolve_source
  rs_raw_value :: u64
  rs_n_sect :: byte
  rs_export_flags :: u64
  rs_is_weak :: bool

definition empty_view :: hk_symbol_table_view where
  "empty_view = \<lparr>sv_nlist = 0, sv_nlist_count = 0, sv_strings = 0, sv_strings_size = 0\<rparr>"

definition zero_resolution :: hk_symbol_resolution where
  "zero_resolution = \<lparr>rs_address = 0, rs_source = HK_RESOLVE_SOURCE_NONE, rs_raw_value = 0, rs_n_sect = 0,
     rs_export_flags = 0, rs_is_weak = False\<rparr>"

definition zero_export_symbol :: hk_export_symbol where
  "zero_export_symbol = \<lparr>ex_flags = 0, ex_address = 0, ex_other = 0, ex_is_weak = False, ex_is_thread_local = False,
     ex_is_absolute = False, ex_is_reexport = False, ex_is_stub_and_resolver = False\<rparr>"

section \<open>Asking one source\<close>

text \<open>\<open>Some None\<close> is the answer false; otherwise the status and what the out-parameter holds.\<close>

type_synonym attempt = "(hk_resolve_status \<times> hk_symbol_resolution) option option"

primrec trie_candidates :: "memory \<Rightarrow> hk_symbol_sources \<Rightarrow> hk_symbol_resolution \<Rightarrow> byte list list \<Rightarrow> attempt" where
  "trie_candidates m sources out [] = Some None"
| "trie_candidates m sources out (name # names) = do {
     (status, symbol) \<leftarrow> hk_export_trie_find m (so_export_trie sources) (so_export_trie_size sources) name zero_export_symbol;
     (if status = HK_EXPORT_OK then
        Some (Some (HK_RESOLVE_OK, zero_resolution\<lparr>rs_source := HK_RESOLVE_SOURCE_EXPORT_TRIE, rs_raw_value := ex_address symbol,
          rs_address := so_header_address sources + ex_address symbol, rs_export_flags := ex_flags symbol,
          rs_is_weak := ex_is_weak symbol\<rparr>))
      else if status = HK_EXPORT_UNSUPPORTED_KIND then
        Some (Some (HK_RESOLVE_UNSUPPORTED, zero_resolution\<lparr>rs_source := HK_RESOLVE_SOURCE_EXPORT_TRIE,
          rs_export_flags := ex_flags symbol, rs_is_weak := ex_is_weak symbol\<rparr>))
      else if status = HK_EXPORT_MALFORMED then Some (Some (HK_RESOLVE_MALFORMED_IMAGE, out))
      else trie_candidates m sources out names)
   }"

definition try_export_trie :: "memory \<Rightarrow> hk_symbol_sources \<Rightarrow> byte list list \<Rightarrow> hk_symbol_resolution \<Rightarrow> attempt" where
  "try_export_trie m sources candidates out =
     (if so_export_trie sources = 0 \<or> so_export_trie_size sources = 0 then Some None
      else trie_candidates m sources out candidates)"

primrec table_candidates :: "memory \<Rightarrow> hk_symbol_sources \<Rightarrow> hk_symbol_visibility \<Rightarrow> byte list list \<Rightarrow> attempt" where
  "table_candidates m sources visibility [] = Some None"
| "table_candidates m sources visibility (name # names) = do {
     found \<leftarrow> hk_symbol_table_find m (so_symbol_table sources)
       \<lparr>sq_name = name, sq_convention = HK_SYMBOL_NAME_MACHO_EXACT, sq_visibility = visibility\<rparr>;
     (case found of
        Some match \<Rightarrow> Some (Some (HK_RESOLVE_OK, zero_resolution\<lparr>rs_source := HK_RESOLVE_SOURCE_SYMBOL_TABLE,
          rs_raw_value := sm_n_value match, rs_address := sm_n_value match + so_slide sources, rs_n_sect := sm_n_sect match\<rparr>))
      | None \<Rightarrow> table_candidates m sources visibility names)
   }"

definition try_symbol_table :: "memory \<Rightarrow> hk_symbol_sources \<Rightarrow> byte list list \<Rightarrow> hk_symbol_visibility \<Rightarrow> attempt" where
  "try_symbol_table m sources candidates visibility =
     (if sv_nlist (so_symbol_table sources) = 0 \<or> sv_nlist_count (so_symbol_table sources) = 0 then Some None
      else table_candidates m sources visibility candidates)"

section \<open>The order of the sources\<close>

text \<open>Asking a source, and going on when it answers false.\<close>

definition or_else :: "attempt \<Rightarrow> attempt \<Rightarrow> attempt" where
  "or_else a b = (case a of None \<Rightarrow> None | Some None \<Rightarrow> b | Some (Some r) \<Rightarrow> Some (Some r))"

definition hk_resolve_symbol :: "memory \<Rightarrow> hk_symbol_sources \<Rightarrow> byte list \<Rightarrow> hk_symbol_name_convention \<Rightarrow> hk_symbol_visibility \<Rightarrow>
    hk_symbol_resolution \<Rightarrow> (hk_resolve_status \<times> hk_symbol_resolution) option" where
  "hk_resolve_symbol m sources name convention visibility out =
     (case hk_symbol_build_candidates name convention of
        Inl status \<Rightarrow> Some (status, out)
      | Inr candidates \<Rightarrow>
          map_option (\<lambda>answer. case answer of None \<Rightarrow> (HK_RESOLVE_NOT_FOUND, zero_resolution) | Some r \<Rightarrow> r)
            (case visibility of
               HK_SYMBOL_VISIBILITY_EXPORTED_ONLY \<Rightarrow>
                 if so_export_trie sources \<noteq> 0 \<and> so_export_trie_size sources > 0
                 then try_export_trie m sources candidates zero_resolution
                 else try_symbol_table m sources candidates HK_SYMBOL_VISIBILITY_EXPORTED_ONLY
             | HK_SYMBOL_VISIBILITY_PRIVATE_ALLOWED \<Rightarrow>
                 or_else (try_symbol_table m sources candidates HK_SYMBOL_VISIBILITY_ANY)
                   (try_export_trie m sources candidates zero_resolution)
             | HK_SYMBOL_VISIBILITY_ANY \<Rightarrow>
                 or_else (try_export_trie m sources candidates zero_resolution)
                   (try_symbol_table m sources candidates HK_SYMBOL_VISIBILITY_ANY)))"

section \<open>Collecting the sources\<close>

text \<open>\<open>HK_MACHO_NOT_FOUND\<close> leaves the source absent; any other refusal is a malformed image.\<close>

definition optional_source :: "'a macho_result \<Rightarrow> 'a \<Rightarrow> (hk_resolve_status + 'a) option" where
  "optional_source r absent = map_option (\<lambda>s. case s of
     Inr v \<Rightarrow> Inr v | Inl st \<Rightarrow> if st = HK_MACHO_NOT_FOUND then Inr absent else Inl HK_RESOLVE_MALFORMED_IMAGE) r"

definition with_source :: "(hk_resolve_status + 'a) option \<Rightarrow> ('a \<Rightarrow> (hk_resolve_status + 'b) option) \<Rightarrow> (hk_resolve_status + 'b) option" where
  "with_source r f = (case r of None \<Rightarrow> None | Some (Inl st) \<Rightarrow> Some (Inl st) | Some (Inr v) \<Rightarrow> f v)"

definition TEXT_SEGMENT :: "byte list" where "TEXT_SEGMENT = str_bytes ''__TEXT''"

definition hk_symbol_sources_from_file_image :: "memory \<Rightarrow> ptr \<Rightarrow> nat \<Rightarrow> (hk_resolve_status + hk_symbol_sources) option" where
  "hk_symbol_sources_from_file_image m img sz =
     (if img = 0 then Some (Inl HK_RESOLVE_INVALID_ARGUMENT)
      else with_source (optional_source (on_ok (hk_macho_find_segment m img sz TEXT_SEGMENT) (\<lambda>seg. Some (Inr (img - sg_vmaddr seg)))) img) (\<lambda>slide.
        with_source (optional_source (hk_macho_find_symtab_view m img sz) empty_view) (\<lambda>view.
        with_source (optional_source (on_ok (hk_macho_find_export_trie m img sz) (\<lambda>(off, n). Some (Inr (img + of_nat off, n)))) (0, 0)) (\<lambda>(trie, trie_size).
          Some (Inr \<lparr>so_symbol_table = view, so_export_trie = trie, so_export_trie_size = trie_size,
            so_header_address = img, so_slide = slide\<rparr>)))))"

definition hk_symbol_sources_from_loaded_image :: "memory \<Rightarrow> ptr \<Rightarrow> nat \<Rightarrow> u64 \<Rightarrow> (hk_resolve_status + hk_symbol_sources) option" where
  "hk_symbol_sources_from_loaded_image m header header_region_size slide =
     (if header = 0 then Some (Inl HK_RESOLVE_INVALID_ARGUMENT)
      else with_source (optional_source (hk_macho_symtab_view_for_loaded_image m header header_region_size slide) empty_view) (\<lambda>view.
        with_source (optional_source (hk_macho_export_trie_for_loaded_image m header header_region_size slide) (0, 0)) (\<lambda>(trie, trie_size).
          Some (Inr \<lparr>so_symbol_table = view, so_export_trie = trie, so_export_trie_size = trie_size,
            so_header_address = header, so_slide = slide\<rparr>))))"

text \<open>The lookup in the shared cache: \<open>Some None\<close> when it finds nothing, otherwise the address and the raw value.\<close>

definition hk_resolve_loaded_image_symbol ::
    "(ptr \<Rightarrow> u64 \<Rightarrow> byte list \<Rightarrow> (u64 \<times> u64) option option) \<Rightarrow> memory \<Rightarrow> ptr \<Rightarrow> nat \<Rightarrow> u64 \<Rightarrow> byte list \<Rightarrow>
     hk_symbol_name_convention \<Rightarrow> hk_symbol_visibility \<Rightarrow> hk_symbol_resolution \<Rightarrow> (hk_resolve_status \<times> hk_symbol_resolution) option" where
  "hk_resolve_loaded_image_symbol find_cache_symbol m header header_region_size slide name convention visibility out =
     (if header = 0 then Some (HK_RESOLVE_INVALID_ARGUMENT, out)
      else do {
        collected \<leftarrow> hk_symbol_sources_from_loaded_image m header header_region_size slide;
        (case collected of
           Inl status \<Rightarrow> Some (status, out)
         | Inr sources \<Rightarrow> do {
             (status, out1) \<leftarrow> hk_resolve_symbol m sources name convention visibility out;
             (if status \<noteq> HK_RESOLVE_NOT_FOUND \<or> visibility = HK_SYMBOL_VISIBILITY_EXPORTED_ONLY \<or> convention = HK_SYMBOL_NAME_MACHO_EXACT
              then Some (status, out1)
              else do {
                cached \<leftarrow> find_cache_symbol header slide name;
                (case cached of
                   None \<Rightarrow> Some (status, out1)
                 | Some (address, raw_value) \<Rightarrow>
                     Some (HK_RESOLVE_OK, zero_resolution\<lparr>rs_address := address, rs_source := HK_RESOLVE_SOURCE_SYMBOL_TABLE,
                       rs_raw_value := raw_value\<rparr>))
              })
           })
      })"

section \<open>The answer of each source\<close>

text \<open>What the trie's map says of a name, and what the first entry of the symbol table that defines it says.\<close>

definition export_resolution :: "hk_symbol_sources \<Rightarrow> export_entry \<Rightarrow> hk_resolve_status \<times> hk_symbol_resolution" where
  "export_resolution sources x =
     (let symbol = snd (export_answer x); r = zero_resolution\<lparr>rs_source := HK_RESOLVE_SOURCE_EXPORT_TRIE,
          rs_export_flags := xe_flags x, rs_is_weak := ex_is_weak symbol\<rparr>
      in if ex_is_reexport symbol then (HK_RESOLVE_UNSUPPORTED, r)
         else (HK_RESOLVE_OK, r\<lparr>rs_raw_value := xe_first x, rs_address := so_header_address sources + xe_first x\<rparr>))"

definition trie_answer :: "hk_symbol_sources \<Rightarrow> export_trie \<Rightarrow> byte list list \<Rightarrow> (hk_resolve_status \<times> hk_symbol_resolution) option" where
  "trie_answer sources t names =
     map_option (\<lambda>name. export_resolution sources (the (map_of (exports t) name))) (find (\<lambda>name. map_of (exports t) name \<noteq> None) names)"

definition table_match :: "memory \<Rightarrow> hk_symbol_table_view \<Rightarrow> hk_symbol_visibility \<Rightarrow> byte list \<Rightarrow> nat option" where
  "table_match m view visibility name =
     find (\<lambda>i. defines_symbol m view \<lparr>sq_name = name, sq_convention = HK_SYMBOL_NAME_MACHO_EXACT, sq_visibility = visibility\<rparr> (symbol_at m view i))
       [0..<unat (sv_nlist_count view)]"

definition table_resolution :: "memory \<Rightarrow> hk_symbol_sources \<Rightarrow> nat \<Rightarrow> hk_resolve_status \<times> hk_symbol_resolution" where
  "table_resolution m sources i = (let ent = symbol_at m (so_symbol_table sources) i in
     (HK_RESOLVE_OK, zero_resolution\<lparr>rs_source := HK_RESOLVE_SOURCE_SYMBOL_TABLE, rs_raw_value := nl_value ent,
        rs_address := nl_value ent + so_slide sources, rs_n_sect := nl_sect ent\<rparr>))"

definition table_answer :: "memory \<Rightarrow> hk_symbol_sources \<Rightarrow> hk_symbol_visibility \<Rightarrow> byte list list \<Rightarrow> (hk_resolve_status \<times> hk_symbol_resolution) option" where
  "table_answer m sources visibility names =
     map_option (\<lambda>name. table_resolution m sources (the (table_match m (so_symbol_table sources) visibility name)))
       (find (\<lambda>name. table_match m (so_symbol_table sources) visibility name \<noteq> None) names)"

text \<open>The sources hold a readable symbol table and a laid-out trie.\<close>

definition sources_hold :: "memory \<Rightarrow> hk_symbol_sources \<Rightarrow> export_trie \<Rightarrow> bool" where
  "sources_hold m sources t \<longleftrightarrow>
     so_export_trie sources \<noteq> 0 \<and> so_export_trie_size sources < 2 ^ 64 \<and>
     laid m (so_export_trie sources) (so_export_trie_size sources) t \<and> trie_off t = 0 \<and>
     shallow (HK_EXPORT_TRIE_MAX_DEPTH + 1) t \<and> unambiguous t \<and>
     view_readable m (so_symbol_table sources) \<and> sv_nlist (so_symbol_table sources) \<noteq> 0 \<and>
     sv_strings (so_symbol_table sources) \<noteq> 0 \<and> 0 < sv_strings_size (so_symbol_table sources)"

lemma table_find:
  assumes "sources_hold m sources t" "name \<noteq> []" "0 \<notin> set name"
  shows "hk_symbol_table_find m (so_symbol_table sources) \<lparr>sq_name = name, sq_convention = HK_SYMBOL_NAME_MACHO_EXACT, sq_visibility = visibility\<rparr> =
    Some (map_option (match_of m (so_symbol_table sources)) (table_match m (so_symbol_table sources) visibility name))"
  using assms symbol_table_find_iff [of m "so_symbol_table sources" "\<lparr>sq_name = name, sq_convention = HK_SYMBOL_NAME_MACHO_EXACT, sq_visibility = visibility\<rparr>"]
  by (simp add: sources_hold_def table_match_def)

lemma table_candidates_answer:
  assumes "sources_hold m sources t" "\<forall>name \<in> set names. name \<noteq> [] \<and> 0 \<notin> set name"
  shows "table_candidates m sources visibility names = Some (table_answer m sources visibility names)"
  using assms(2)
proof (induction names)
  case (Cons name names)
  then have "name \<noteq> []" "0 \<notin> set name" by simp_all
  note f = table_find [OF assms(1) this]
  show ?case
    using Cons by (cases "table_match m (so_symbol_table sources) visibility name")
      (simp_all add: f table_answer_def table_resolution_def match_of_def Let_def)
qed (simp add: table_answer_def)

lemma try_symbol_table_answer:
  assumes "sources_hold m sources t" "\<forall>name \<in> set names. name \<noteq> [] \<and> 0 \<notin> set name"
  shows "try_symbol_table m sources names visibility = Some (table_answer m sources visibility names)"
proof (cases "sv_nlist_count (so_symbol_table sources) = 0")
  case True
  then have "table_match m (so_symbol_table sources) visibility name = None" for name
    by (simp add: table_match_def)
  then show ?thesis using True by (simp add: try_symbol_table_def table_answer_def find_None_iff)
next
  case False
  then show ?thesis using assms(1) table_candidates_answer [OF assms]
    by (simp add: try_symbol_table_def sources_hold_def)
qed

lemma try_export_trie_answer:
  assumes "sources_hold m sources t"
  shows "try_export_trie m sources names out = Some (trie_answer sources t names)"
proof -
  have find: "hk_export_trie_find m (so_export_trie sources) (so_export_trie_size sources) name zero_export_symbol =
      Some (case map_of (exports t) name of None \<Rightarrow> (HK_EXPORT_NOT_FOUND, zero_export_symbol) | Some x \<Rightarrow> export_answer x)" for name
    using assms by (intro trie_find_bytes) (simp_all add: sources_hold_def)
  have "so_export_trie_size sources \<noteq> 0" using assms by (cases t) (auto simp: sources_hold_def node_bytes_def)
  moreover have "trie_candidates m sources out names = Some (trie_answer sources t names)"
  proof (induction names)
    case (Cons name names)
    show ?case
    proof (cases "map_of (exports t) name")
      case (Some x)
      then show ?thesis by (simp add: find trie_answer_def export_resolution_def export_answer_def Let_def)
    qed (use Cons in \<open>simp add: find trie_answer_def\<close>)
  qed (simp add: trie_answer_def)
  ultimately show ?thesis using assms by (simp add: try_export_trie_def sources_hold_def)
qed

section \<open>Properties\<close>

text \<open>C35. Which source answers: with a symbol table and a trie, an exported symbol is what the trie's map says
  of the first form of the name it holds, and the symbol table is not asked; a private symbol is the first
  entry of the symbol table that defines a form of the name, and only then the trie's; otherwise the trie
  comes first. The name as given comes before the form with an underscore.\<close>

theorem resolve_symbol_sources:
  assumes "sources_hold m sources t" "0 \<notin> set name" "hk_symbol_build_candidates name convention = Inr names"
  shows "hk_resolve_symbol m sources name convention visibility out =
    Some (case (case visibility of
        HK_SYMBOL_VISIBILITY_EXPORTED_ONLY \<Rightarrow> trie_answer sources t names
      | HK_SYMBOL_VISIBILITY_PRIVATE_ALLOWED \<Rightarrow>
          (case table_answer m sources HK_SYMBOL_VISIBILITY_ANY names of None \<Rightarrow> trie_answer sources t names | Some r \<Rightarrow> Some r)
      | HK_SYMBOL_VISIBILITY_ANY \<Rightarrow>
          (case trie_answer sources t names of None \<Rightarrow> table_answer m sources HK_SYMBOL_VISIBILITY_ANY names | Some r \<Rightarrow> Some r))
      of None \<Rightarrow> (HK_RESOLVE_NOT_FOUND, zero_resolution) | Some r \<Rightarrow> r)"
proof -
  have names: "\<forall>name \<in> set names. name \<noteq> [] \<and> 0 \<notin> set name"
    using assms(2,3) by (auto simp: hk_symbol_build_candidates_def underscore_def split: if_splits)
  have present: "so_export_trie sources \<noteq> 0 \<and> so_export_trie_size sources > 0"
    using assms(1) by (cases t) (auto simp: sources_hold_def node_bytes_def)
  note answers = try_symbol_table_answer [OF assms(1) names] try_export_trie_answer [OF assms(1)]
  show ?thesis
    using present by (cases visibility) (simp_all add: hk_resolve_symbol_def assms(3) answers or_else_def split: option.split)
qed

text \<open>The trie and the image of the samples in one memory.\<close>

definition sample_symbols_memory :: memory where
  "sample_symbols_memory a = (if a < 0x10000 then sample_trie_memory a else sample_image a)"

definition sample_sources :: hk_symbol_sources where
  "sample_sources = \<lparr>so_symbol_table = \<lparr>sv_nlist = 0x10038, sv_nlist_count = 1, sv_strings = 0x10048, sv_strings_size = 8\<rparr>,
     so_export_trie = 0x1000, so_export_trie_size = 10, so_header_address = 0x10000, so_slide = 0\<rparr>"

lemma sample_sources_hold: "sources_hold sample_symbols_memory sample_sources sample_trie"
proof -
  have addr: "0x1000 + (of_nat i :: u64) < 0x10000" if "i < 10" for i
    using that by (simp add: word_less_nat_alt unat_word_ariths unat_of_nat take_bit_nat_eq_self)
  have "rd8 sample_symbols_memory 0x1000 i = rd8 sample_trie_memory 0x1000 i" if "i < 10" for i
    using addr [OF that] by (simp add: rd8_def sample_symbols_memory_def)
  moreover have "rd8 sample_trie_memory 0x1000 i = Some ([0, 1, 0x5F, 0x66, 0, 6, 2, 0, 0x40, 0] ! i)" if "i < 10" for i
    unfolding sample_trie_memory_def by (rule rd8_mem_of) (use that in simp_all)
  ultimately have "laid sample_symbols_memory 0x1000 10 sample_trie"
    by (simp add: sample_trie_def sample_export_def node_bytes_def edge_bytes_def entry_bytes_def export_payload_def
        uleb_bytes.simps [of 0] uleb_bytes.simps [of "Suc (Suc 0)"] uleb_bytes.simps [of 6] uleb_bytes.simps [of "0x40"])
  moreover have "readable sample_symbols_memory 0x10000 80"
  proof -
    have "\<not> 0x10000 + (of_nat i :: u64) < 0x10000" if "i < 80" for i
      using that by (simp add: word_less_nat_alt unat_word_ariths unat_of_nat take_bit_nat_eq_self)
    then show ?thesis using sample_readable by (simp add: readable_def rd8_def sample_symbols_memory_def)
  qed
  then have "readable sample_symbols_memory (0x10000 + of_nat 56) 16" "readable sample_symbols_memory (0x10000 + of_nat 72) 8"
    by (rule readable_offset, simp)+
  moreover have "shallow (HK_EXPORT_TRIE_MAX_DEPTH + 1) sample_trie" "unambiguous sample_trie" "trie_off sample_trie = 0"
    by (simp_all add: sample_trie_def HK_EXPORT_TRIE_MAX_DEPTH_def eval_nat_numeral)
  ultimately show ?thesis by (simp add: sources_hold_def sample_sources_def view_readable_def NLIST64_SIZE_def)
qed

theorem resolve_symbol_sources_witness:
  "hk_resolve_symbol sample_symbols_memory sample_sources [0x66] HK_SYMBOL_NAME_C HK_SYMBOL_VISIBILITY_EXPORTED_ONLY zero_resolution =
    Some (HK_RESOLVE_OK, zero_resolution\<lparr>rs_source := HK_RESOLVE_SOURCE_EXPORT_TRIE, rs_raw_value := 0x40, rs_address := 0x10040\<rparr>)"
proof -
  have "hk_symbol_build_candidates [0x66] HK_SYMBOL_NAME_C = Inr [[0x66], [0x5F, 0x66]]"
    by (simp add: hk_symbol_build_candidates_def HK_RESOLVE_MAX_NAME_def underscore_def)
  from resolve_symbol_sources [OF sample_sources_hold _ this, of HK_SYMBOL_VISIBILITY_EXPORTED_ONLY zero_resolution]
  show ?thesis
    by (simp add: trie_answer_def sample_trie_def export_resolution_def export_answer_def sample_export_def Let_def
        sample_sources_def zero_resolution_def)
qed

end
