(* ===== verification/HK_ImportSlots.thy ===== *)
theory HK_ImportSlots
  imports HK_SymbolResolve
begin

text \<open>
  Import slots (\<open>src/resolvers/HKImportSlots.c\<close>): the indirect symbol table of an image joined with its
  pointer sections, so that every slot dyld fills has the name it is filled for.
\<close>

section \<open>Tables\<close>

definition HK_IMPORT_POINTER_SIZE :: nat where "HK_IMPORT_POINTER_SIZE = 8"
definition HK_INDIRECT_SYMBOL_LOCAL :: u32 where "HK_INDIRECT_SYMBOL_LOCAL = 0x80000000"
definition HK_INDIRECT_SYMBOL_ABS :: u32 where "HK_INDIRECT_SYMBOL_ABS = 0x40000000"
definition HK_SECTION_TYPE :: u32 where "HK_SECTION_TYPE = 0x000000FF"
definition HK_S_NON_LAZY_SYMBOL_POINTERS :: u32 where "HK_S_NON_LAZY_SYMBOL_POINTERS = 0x00000006"
definition HK_S_LAZY_SYMBOL_POINTERS :: u32 where "HK_S_LAZY_SYMBOL_POINTERS = 0x00000007"

datatype hk_import_status =
    HK_IMPORT_OK | HK_IMPORT_NOT_FOUND | HK_IMPORT_INVALID_ARGUMENT | HK_IMPORT_MALFORMED | HK_IMPORT_NAME_TOO_LONG

record hk_import_tables =
  it_indirect_symbols :: ptr
  it_indirect_count :: nat
  it_symbols :: hk_symbol_table_view

text \<open>The name is the string the slot's pointer points to.\<close>

record hk_import_slot =
  is_n_sect :: nat
  is_sectname :: "byte list"
  is_slot_index :: u32
  is_slot_vmaddr :: u64
  is_symtab_index :: u32
  is_symbol_name :: "byte list"
  is_is_lazy :: bool

text \<open>The string at a position with \<open>n\<close> bytes behind it; \<open>Some None\<close> when no NUL ends it.\<close>

primrec terminated_string :: "memory \<Rightarrow> ptr \<Rightarrow> nat \<Rightarrow> nat \<Rightarrow> byte list option option" where
  "terminated_string m strings pos 0 = Some None"
| "terminated_string m strings pos (Suc n) = do {
     b \<leftarrow> rd8 m strings pos;
     (if b = 0 then Some (Some [])
      else map_option (map_option (\<lambda>bs. b # bs)) (terminated_string m strings (pos + 1) n))
   }"

definition bounded_string :: "memory \<Rightarrow> ptr \<Rightarrow> nat \<Rightarrow> nat \<Rightarrow> byte list option option" where
  "bounded_string m strings strings_size offset =
     (if offset \<ge> strings_size then Some None else terminated_string m strings offset (strings_size - offset))"

type_synonym 'a import_result = "(hk_import_status + 'a) option"

text \<open>The symbol table of either collection: absent is empty, a refusal is a malformed image.\<close>

definition optional_symbols :: "hk_symbol_table_view macho_result \<Rightarrow> hk_symbol_table_view import_result" where
  "optional_symbols r = map_option (\<lambda>s. case s of
     Inr view \<Rightarrow> Inr view | Inl st \<Rightarrow> if st = HK_MACHO_NOT_FOUND then Inr empty_view else Inl HK_IMPORT_MALFORMED) r"

definition then_import :: "'a import_result \<Rightarrow> ('a \<Rightarrow> 'b import_result) \<Rightarrow> 'b import_result" where
  "then_import r f = (case r of None \<Rightarrow> None | Some (Inl st) \<Rightarrow> Some (Inl st) | Some (Inr v) \<Rightarrow> f v)"

definition no_indirect :: "hk_symbol_table_view \<Rightarrow> hk_import_tables" where
  "no_indirect symbols = \<lparr>it_indirect_symbols = 0, it_indirect_count = 0, it_symbols = symbols\<rparr>"

definition hk_import_tables_from_file_image :: "memory \<Rightarrow> ptr \<Rightarrow> nat \<Rightarrow> hk_import_tables import_result" where
  "hk_import_tables_from_file_image m img sz =
     (if img = 0 then Some (Inl HK_IMPORT_INVALID_ARGUMENT)
      else then_import (optional_symbols (hk_macho_find_symtab_view m img sz)) (\<lambda>symbols. do {
        indirect \<leftarrow> hk_macho_find_indirect_symbols m img sz;
        (case indirect of
           Inl st \<Rightarrow> if st = HK_MACHO_NOT_FOUND then Some (Inr (no_indirect symbols)) else Some (Inl HK_IMPORT_MALFORMED)
         | Inr (offset, count) \<Rightarrow>
             if offset > sz \<or> count * 4 > sz - offset then Some (Inl HK_IMPORT_MALFORMED)
             else Some (Inr \<lparr>it_indirect_symbols = img + of_nat offset, it_indirect_count = count, it_symbols = symbols\<rparr>))
      }))"

definition hk_import_tables_from_loaded_image :: "memory \<Rightarrow> ptr \<Rightarrow> nat \<Rightarrow> u64 \<Rightarrow> hk_import_tables import_result" where
  "hk_import_tables_from_loaded_image m header header_region_size slide =
     (if header = 0 then Some (Inl HK_IMPORT_INVALID_ARGUMENT)
      else then_import (optional_symbols (hk_macho_symtab_view_for_loaded_image m header header_region_size slide)) (\<lambda>symbols. do {
        indirect \<leftarrow> hk_macho_find_indirect_symbols m header header_region_size;
        (case indirect of
           Inl st \<Rightarrow> if st = HK_MACHO_NOT_FOUND then Some (Inr (no_indirect symbols)) else Some (Inl HK_IMPORT_MALFORMED)
         | Inr (offset, count) \<Rightarrow> do {
             linkedit \<leftarrow> hk_macho_find_segment m header header_region_size LINKEDIT;
             (case linkedit of
                Inl st \<Rightarrow> if st = HK_MACHO_NOT_FOUND then Some (Inr (no_indirect symbols)) else Some (Inl HK_IMPORT_MALFORMED)
              | Inr seg \<Rightarrow>
                  if sg_filesize seg > - 1 - sg_fileoff seg \<or> sg_fileoff seg > sg_vmaddr seg then Some (Inl HK_IMPORT_MALFORMED)
                  else let le_start = sg_fileoff seg; le_end = sg_fileoff seg + sg_filesize seg; off = of_nat offset
                    in if off < le_start \<or> off > le_end \<or> of_nat (count * 4) > le_end - off then Some (Inl HK_IMPORT_MALFORMED)
                       else Some (Inr \<lparr>it_indirect_symbols = slide + (sg_vmaddr seg - sg_fileoff seg) + off,
                              it_indirect_count = count, it_symbols = symbols\<rparr>))
           })
      }))"

section \<open>Iteration\<close>

type_synonym 'c slot_visit = "'c \<Rightarrow> hk_import_slot \<Rightarrow> ('c \<times> bool) option"

text \<open>The slots of a section from number \<open>i\<close>; the context holds whether something was malformed.\<close>

primrec section_slots :: "memory \<Rightarrow> hk_import_tables \<Rightarrow> 'c slot_visit \<Rightarrow> nat \<Rightarrow> hk_macho_section \<Rightarrow> bool \<Rightarrow>
    nat \<Rightarrow> nat \<Rightarrow> 'c \<times> bool \<Rightarrow> (('c \<times> bool) \<times> bool) option" where
  "section_slots m tables visit n_sect sec lazy i 0 s = Some (s, True)"
| "section_slots m tables visit n_sect sec lazy i (Suc n) s = do {
     entry \<leftarrow> rd32 m (it_indirect_symbols tables) ((unat (sn_reserved1 sec) + i) * 4);
     (if entry AND (HK_INDIRECT_SYMBOL_LOCAL OR HK_INDIRECT_SYMBOL_ABS) \<noteq> 0
      then section_slots m tables visit n_sect sec lazy (i + 1) n s
      else if entry \<ge> sv_nlist_count (it_symbols tables) then Some ((fst s, True), False)
      else do {
        strx \<leftarrow> rd32 m (sv_nlist (it_symbols tables)) (NLIST64_SIZE * unat entry);
        name \<leftarrow> bounded_string m (sv_strings (it_symbols tables)) (sv_strings_size (it_symbols tables)) (unat strx);
        (case name of
           None \<Rightarrow> Some ((fst s, True), False)
         | Some symbol_name \<Rightarrow> do {
             (c1, go_on) \<leftarrow> visit (fst s) \<lparr>is_n_sect = n_sect, is_sectname = sn_sectname sec, is_slot_index = of_nat i,
               is_slot_vmaddr = sn_addr sec + of_nat (i * HK_IMPORT_POINTER_SIZE), is_symtab_index = entry,
               is_symbol_name = symbol_name, is_is_lazy = lazy\<rparr>;
             (if \<not> go_on then Some ((c1, snd s), False)
              else section_slots m tables visit n_sect sec lazy (i + 1) n (c1, snd s))
           })
      })
   }"

definition slots_visit_section :: "memory \<Rightarrow> hk_import_tables \<Rightarrow> 'c slot_visit \<Rightarrow> ('c \<times> bool) section_visit" where
  "slots_visit_section m tables visit s n_sect sec =
     (let type = sn_flags sec AND HK_SECTION_TYPE; lazy = (type = HK_S_LAZY_SYMBOL_POINTERS)
      in if type \<noteq> HK_S_NON_LAZY_SYMBOL_POINTERS \<and> \<not> lazy then Some (s, True)
         else if unat (sn_size sec) mod HK_IMPORT_POINTER_SIZE \<noteq> 0 then Some ((fst s, True), False)
         else let slot_count = unat (sn_size sec) div HK_IMPORT_POINTER_SIZE
           in if unat (sn_reserved1 sec) + slot_count > it_indirect_count tables then Some ((fst s, True), False)
              else section_slots m tables visit n_sect sec lazy 0 slot_count s)"

text \<open>The client's context is kept when the walk succeeds; a refusal of the walk is a malformed image.\<close>

definition hk_import_slots_iterate :: "memory \<Rightarrow> ptr \<Rightarrow> nat \<Rightarrow> hk_import_tables \<Rightarrow> 'c slot_visit \<Rightarrow> 'c \<Rightarrow> 'c import_result" where
  "hk_import_slots_iterate m img image_size tables visit c =
     (if img = 0 then Some (Inl HK_IMPORT_INVALID_ARGUMENT)
      else if it_indirect_symbols tables = 0 \<or> it_indirect_count tables = 0 \<or>
          sv_nlist (it_symbols tables) = 0 \<or> sv_strings (it_symbols tables) = 0 then Some (Inr c)
      else map_option (\<lambda>walked. case walked of
          Inl _ \<Rightarrow> Inl HK_IMPORT_MALFORMED
        | Inr (c1, malformed) \<Rightarrow> if malformed then Inl HK_IMPORT_MALFORMED else Inr c1)
        (hk_macho_iterate_sections m img image_size (slots_visit_section m tables visit) (c, False)))"

definition find_visit :: "byte list list \<Rightarrow> hk_import_slot option slot_visit" where
  "find_visit candidates f slot =
     Some (if is_symbol_name slot \<in> set candidates then (Some slot, False) else (f, True))"

definition hk_import_slots_find :: "memory \<Rightarrow> ptr \<Rightarrow> nat \<Rightarrow> hk_import_tables \<Rightarrow> byte list \<Rightarrow> hk_symbol_name_convention \<Rightarrow>
    hk_import_slot import_result" where
  "hk_import_slots_find m img image_size tables name convention =
     (if img = 0 then Some (Inl HK_IMPORT_INVALID_ARGUMENT)
      else case hk_symbol_build_candidates name convention of
        Inl rc \<Rightarrow> Some (Inl (if rc = HK_RESOLVE_NAME_TOO_LONG then HK_IMPORT_NAME_TOO_LONG else HK_IMPORT_INVALID_ARGUMENT))
      | Inr candidates \<Rightarrow>
          then_import (hk_import_slots_iterate m img image_size tables (find_visit candidates) None) (\<lambda>f.
            case f of None \<Rightarrow> Some (Inl HK_IMPORT_NOT_FOUND) | Some slot \<Rightarrow> Some (Inr slot)))"

section \<open>Reads are bounded\<close>

definition tables_readable :: "memory \<Rightarrow> hk_import_tables \<Rightarrow> bool" where
  "tables_readable m tables \<longleftrightarrow>
     readable m (it_indirect_symbols tables) (it_indirect_count tables * 4) \<and> view_readable m (it_symbols tables)"

lemma answers_then_import: "answers r \<Longrightarrow> (\<And>v. r = Some (Inr v) \<Longrightarrow> answers (f v)) \<Longrightarrow> answers (then_import r f)"
  by (auto simp: then_import_def answers_def split: option.split sum.split)

lemma terminated_string_ok: "readable m p sz \<Longrightarrow> pos + n \<le> sz \<Longrightarrow> answers (terminated_string m p pos n)"
proof (induction n arbitrary: pos)
  case (Suc n)
  show ?case
    unfolding terminated_string.simps
    by (intro answers_basic answers_reads [OF Suc.prems(1)] Suc.IH) (use Suc.prems in simp_all)
qed (simp add: answers_Some)

lemma bounded_string_ok: "readable m p sz \<Longrightarrow> answers (bounded_string m p sz offset)"
  unfolding bounded_string_def by (intro answers_basic terminated_string_ok) auto

lemma section_slots_ok:
  assumes r: "tables_readable m tables" and v: "\<And>c slot. answers (visit c slot)"
  shows "unat (sn_reserved1 sec) + (i + n) \<le> it_indirect_count tables \<Longrightarrow>
    answers (section_slots m tables visit n_sect sec lazy i n s)"
proof (induction n arbitrary: i s)
  case (Suc n)
  have indirect: "readable m (it_indirect_symbols tables) (it_indirect_count tables * 4)"
    and nlist: "readable m (sv_nlist (it_symbols tables)) (NLIST64_SIZE * unat (sv_nlist_count (it_symbols tables)))"
    and strings: "readable m (sv_strings (it_symbols tables)) (sv_strings_size (it_symbols tables))"
    using r by (simp_all add: tables_readable_def view_readable_def)
  have entry: "NLIST64_SIZE * unat e + 4 \<le> NLIST64_SIZE * unat (sv_nlist_count (it_symbols tables))"
    if "\<not> e \<ge> sv_nlist_count (it_symbols tables)" for e
    using that by (simp add: NLIST64_SIZE_def word_le_nat_alt)
  show ?case
    unfolding section_slots.simps
    by (intro answers_basic v Suc.IH bounded_string_ok [OF strings] answers_reads(4) [OF indirect] answers_reads(4) [OF nlist] entry;
        use Suc.prems in simp)
qed (simp add: answers_Some)

lemma slots_iterate_ok:
  assumes "readable m p sz" "sz < 2 ^ 32" "tables_readable m tables" "\<And>c slot. answers (visit c slot)"
  shows "answers (hk_import_slots_iterate m p sz tables visit c)"
  unfolding hk_import_slots_iterate_def
  by (intro answers_basic iterate_sections_ok [OF assms(1,2)])
    (auto simp: slots_visit_section_def Let_def intro!: answers_basic section_slots_ok [OF assms(3,4)])

section \<open>What a slot is\<close>

text \<open>A slot of the image: the \<open>i\<close>th pointer of a section of symbol pointers, for which the indirect table names
  an entry of the symbol table, whose string is the name.\<close>

definition genuine_slot :: "memory \<Rightarrow> ptr \<Rightarrow> hk_import_tables \<Rightarrow> hk_import_slot \<Rightarrow> bool" where
  "genuine_slot m img tables slot \<longleftrightarrow> (\<exists>off sec i strx.
     read_section m img off = Some sec \<and>
     sn_flags sec AND HK_SECTION_TYPE = (if is_is_lazy slot then HK_S_LAZY_SYMBOL_POINTERS else HK_S_NON_LAZY_SYMBOL_POINTERS) \<and>
     is_sectname slot = sn_sectname sec \<and>
     (i + 1) * 8 \<le> unat (sn_size sec) \<and> is_slot_vmaddr slot = sn_addr sec + of_nat (i * 8) \<and>
     unat (sn_reserved1 sec) + i < it_indirect_count tables \<and>
     rd32 m (it_indirect_symbols tables) ((unat (sn_reserved1 sec) + i) * 4) = Some (is_symtab_index slot) \<and>
     is_symtab_index slot AND (HK_INDIRECT_SYMBOL_LOCAL OR HK_INDIRECT_SYMBOL_ABS) = 0 \<and>
     is_symtab_index slot < sv_nlist_count (it_symbols tables) \<and>
     rd32 m (sv_nlist (it_symbols tables)) (NLIST64_SIZE * unat (is_symtab_index slot)) = Some strx \<and>
     stored_name m (it_symbols tables) (unat strx) (is_symbol_name slot) \<and> 0 \<notin> set (is_symbol_name slot))"

lemma terminated_string_holds:
  "terminated_string m p pos n = Some (Some bs) \<Longrightarrow> length bs < n \<and> holds m p pos (bs @ [0]) \<and> 0 \<notin> set bs"
proof (induction n arbitrary: pos bs)
  case (Suc n)
  from Suc.prems obtain b where b: "rd8 m p pos = Some b" by (auto split: bind_splits)
  show ?case
  proof (cases "b = 0")
    case False
    with Suc.prems b obtain bs1 where "terminated_string m p (pos + 1) n = Some (Some bs1)" "bs = b # bs1"
      by (auto split: option.splits)
    with Suc.IH [of "pos + 1" bs1] b False show ?thesis by auto
  qed (use Suc.prems b in auto)
qed simp

lemma bounded_string_stored:
  "bounded_string m (sv_strings view) (sv_strings_size view) off = Some (Some bs) \<Longrightarrow> stored_name m view off bs \<and> 0 \<notin> set bs"
  using terminated_string_holds [of m "sv_strings view" off "sv_strings_size view - off" bs]
  by (auto simp: bounded_string_def stored_name_def split: if_splits)

lemma section_slots_inv:
  assumes "section_slots m tables visit n_sect sec lazy i n s = Some (s1, b)" "P (fst s)"
    "read_section m img off = Some sec" "lazy \<longleftrightarrow> sn_flags sec AND HK_SECTION_TYPE = HK_S_LAZY_SYMBOL_POINTERS"
    "lazy \<or> sn_flags sec AND HK_SECTION_TYPE = HK_S_NON_LAZY_SYMBOL_POINTERS"
    "(i + n) * 8 \<le> unat (sn_size sec)" "unat (sn_reserved1 sec) + (i + n) \<le> it_indirect_count tables"
    and step: "\<And>c slot c1 b. P c \<Longrightarrow> genuine_slot m img tables slot \<Longrightarrow> visit c slot = Some (c1, b) \<Longrightarrow> P c1"
  shows "P (fst s1)"
  using assms(1,2,6,7)
proof (induction n arbitrary: i s)
  case (Suc n)
  obtain entry where entry: "rd32 m (it_indirect_symbols tables) ((unat (sn_reserved1 sec) + i) * 4) = Some entry"
    using Suc.prems(1) by (auto split: bind_splits)
  consider "entry AND (HK_INDIRECT_SYMBOL_LOCAL OR HK_INDIRECT_SYMBOL_ABS) \<noteq> 0"
    | "fst s1 = fst s"
    | strx name c1 go_on where "entry AND (HK_INDIRECT_SYMBOL_LOCAL OR HK_INDIRECT_SYMBOL_ABS) = 0" "entry < sv_nlist_count (it_symbols tables)"
        "rd32 m (sv_nlist (it_symbols tables)) (NLIST64_SIZE * unat entry) = Some strx"
        "bounded_string m (sv_strings (it_symbols tables)) (sv_strings_size (it_symbols tables)) (unat strx) = Some (Some name)"
        "visit (fst s) \<lparr>is_n_sect = n_sect, is_sectname = sn_sectname sec, is_slot_index = of_nat i,
               is_slot_vmaddr = sn_addr sec + of_nat (i * HK_IMPORT_POINTER_SIZE), is_symtab_index = entry,
               is_symbol_name = name, is_is_lazy = lazy\<rparr> = Some (c1, go_on)"
        "if go_on then section_slots m tables visit n_sect sec lazy (i + 1) n (c1, snd s) = Some (s1, b) else s1 = (c1, snd s)"
    using Suc.prems(1) entry by (auto split: if_splits bind_splits option.splits)
  then show ?case
  proof cases
    case 1
    then show ?thesis using Suc.IH [of "i + 1" s] Suc.prems entry by simp
  next
    case 2
    then show ?thesis using Suc.prems(2) by simp
  next
    case 3
    let ?slot = "\<lparr>is_n_sect = n_sect, is_sectname = sn_sectname sec, is_slot_index = of_nat i,
               is_slot_vmaddr = sn_addr sec + of_nat (i * HK_IMPORT_POINTER_SIZE), is_symtab_index = entry,
               is_symbol_name = name, is_is_lazy = lazy\<rparr>"
    have "genuine_slot m img tables ?slot"
      unfolding genuine_slot_def
      by (rule exI [of _ off], rule exI [of _ sec], rule exI [of _ i], rule exI [of _ strx])
        (use 3 entry bounded_string_stored [OF 3(4)] assms(3,4,5) Suc.prems(3,4) in \<open>auto simp: HK_IMPORT_POINTER_SIZE_def\<close>)
    then have "P c1" using step [OF Suc.prems(2)] 3(5) by blast
    then show ?thesis using 3(6) Suc.IH [of "i + 1" "(c1, snd s)"] Suc.prems(3,4) by (auto split: if_splits)
  qed
qed simp

lemma slots_iterate_inv:
  assumes "hk_import_slots_iterate m img sz tables visit c = Some (Inr c1)" "sz < 2 ^ 32" "P c"
    and step: "\<And>c slot c1 b. P c \<Longrightarrow> genuine_slot m img tables slot \<Longrightarrow> visit c slot = Some (c1, b) \<Longrightarrow> P c1"
  shows "P c1"
proof -
  consider "c1 = c" | s where "hk_macho_iterate_sections m img sz (slots_visit_section m tables visit) (c, False) = Some (Inr s)" "fst s = c1"
    using assms(1) by (cases "hk_macho_iterate_sections m img sz (slots_visit_section m tables visit) (c, False)")
      (auto simp: hk_import_slots_iterate_def split: if_splits sum.splits prod.splits)
  then show ?thesis
  proof cases
    case 2
    have "P (fst s)"
    proof (rule iterate_sections_inv [OF 2(1) assms(2), where P = "\<lambda>s. P (fst s)"])
      fix s k sec s1 b off
      assume s: "P (fst s)" "read_section m img off = Some sec" "slots_visit_section m tables visit s k sec = Some (s1, b)"
      let ?lazy = "sn_flags sec AND HK_SECTION_TYPE = HK_S_LAZY_SYMBOL_POINTERS" and ?n = "unat (sn_size sec) div 8"
      from s(3) consider "fst s1 = fst s"
        | "section_slots m tables visit k sec ?lazy 0 ?n s = Some (s1, b)" "unat (sn_reserved1 sec) + ?n \<le> it_indirect_count tables"
          "?lazy \<or> sn_flags sec AND HK_SECTION_TYPE = HK_S_NON_LAZY_SYMBOL_POINTERS"
        by (auto simp: slots_visit_section_def Let_def HK_IMPORT_POINTER_SIZE_def split: if_splits)
      then show "P (fst s1)"
      proof cases
        case 2
        show ?thesis
          by (rule section_slots_inv [where P = P, OF 2(1) s(1,2)]) (use 2(2,3) step in auto)
      qed (use s(1) in simp)
    qed (use assms(3) in simp)
    with 2(2) show ?thesis by simp
  qed (use assms(3) in simp)
qed

section \<open>Properties\<close>

text \<open>C36. The slot found for a name is a slot of the image that dyld fills for that name: a pointer inside a
  section of symbol pointers, whose entry of the indirect table names a symbol, whose string is a form of
  the name. With readable tables the search reads nothing else, whatever they hold.\<close>

theorem import_slot_sound:
  assumes "sz < 2 ^ 32"
  shows "(hk_import_slots_find m img sz tables name convention = Some (Inr slot) \<longrightarrow>
      genuine_slot m img tables slot \<and>
      (is_symbol_name slot = name \<or> convention \<noteq> HK_SYMBOL_NAME_MACHO_EXACT \<and> is_symbol_name slot = underscore # name)) \<and>
    (readable m img sz \<and> tables_readable m tables \<longrightarrow> (\<exists>r. hk_import_slots_find m img sz tables name convention = Some r))"
proof (intro conjI impI)
  assume "hk_import_slots_find m img sz tables name convention = Some (Inr slot)"
  then obtain candidates where c: "hk_symbol_build_candidates name convention = Inr candidates"
    and found: "hk_import_slots_iterate m img sz tables (find_visit candidates) None = Some (Inr (Some slot))"
    by (auto simp: hk_import_slots_find_def then_import_def split: if_splits sum.splits option.splits)
  have "\<forall>s. Some slot = Some s \<longrightarrow> genuine_slot m img tables s \<and> is_symbol_name s \<in> set candidates"
    by (rule slots_iterate_inv [OF found assms,
          where P = "\<lambda>f. \<forall>s. f = Some s \<longrightarrow> genuine_slot m img tables s \<and> is_symbol_name s \<in> set candidates"])
      (auto simp: find_visit_def split: if_splits)
  moreover have "set candidates \<subseteq> (if convention = HK_SYMBOL_NAME_MACHO_EXACT then {name} else {name, underscore # name})"
    using c by (auto simp: hk_symbol_build_candidates_def split: if_splits)
  ultimately show "genuine_slot m img tables slot" "is_symbol_name slot = name \<or> convention \<noteq> HK_SYMBOL_NAME_MACHO_EXACT \<and> is_symbol_name slot = underscore # name"
    by (auto split: if_splits)
next
  assume "readable m img sz \<and> tables_readable m tables"
  then have "answers (hk_import_slots_iterate m img sz tables (find_visit candidates) None)" for candidates
    using slots_iterate_ok [of m img sz tables "find_visit candidates" None] assms by (simp add: find_visit_def answers_Some)
  then have "answers (hk_import_slots_find m img sz tables name convention)"
    unfolding hk_import_slots_find_def by (intro answers_basic answers_then_import)
  then show "\<exists>r. hk_import_slots_find m img sz tables name convention = Some r"
    by (simp add: answers_def)
qed

text \<open>An image at \<open>0x10000\<close> with one pointer section of one slot, at \<open>0x5000\<close>, for \<open>_f\<close>; the tables follow it.\<close>

definition sample_slot_words :: "u32 list" where
  "sample_slot_words = [0xFEEDFACF, 0x0100000C, 0, 2, 1, 152, 0, 0,
     0x19, 152, 0x41, 0, 0, 0, 0x5000, 0, 0x4000, 0, 0, 0, 208, 0, 3, 3, 1, 0,
     0x42, 0, 0, 0, 0x41, 0, 0, 0, 0x5000, 0, 8, 0, 0, 3, 0, 0, 6, 0, 0, 0,
     0,  1, 0x10F, 0x4000, 0,  0x665F00]"

definition sample_slot_memory :: memory where
  "sample_slot_memory = mem_of 0x10000 (concat (map (le_bytes 4) sample_slot_words))"

definition sample_slot_tables :: hk_import_tables where
  "sample_slot_tables = \<lparr>it_indirect_symbols = 0x100B8, it_indirect_count = 1,
     it_symbols = \<lparr>sv_nlist = 0x100BC, sv_nlist_count = 1, sv_strings = 0x100CC, sv_strings_size = 4\<rparr>\<rparr>"

lemma sample_slot_length: "length sample_slot_words = 52"
  by (simp add: sample_slot_words_def)

lemma sample_slot_word: "i < 52 \<Longrightarrow> rd32 sample_slot_memory 0x10000 (4 * i) = Some (sample_slot_words ! i)"
  unfolding sample_slot_memory_def by (rule rd32_words) (simp_all add: sample_slot_words_def)

lemma sample_slot_byte: "i < 52 \<Longrightarrow> k < 4 \<Longrightarrow> rd8 sample_slot_memory 0x10000 (4 * i + k) = Some (le_bytes 4 (sample_slot_words ! i) ! k)"
  unfolding sample_slot_memory_def
  by (subst rd8_mem_of) (simp_all add: word_bytes_length word_bytes_nth sample_slot_length)

lemma sample_slot_section:
  "\<exists>sec. read_section sample_slot_memory 0x10000 104 = Some sec \<and> sn_addr sec = 0x5000 \<and> sn_size sec = 8 \<and> sn_flags sec = 6 \<and> sn_reserved1 sec = 0"
proof -
  have r: "readable sample_slot_memory 0x10000 208"
    unfolding sample_slot_memory_def by (rule mem_of_readable) (simp_all add: word_bytes_length sample_slot_length)
  from readable_rd_bytes [OF r, of 104 16] readable_rd_bytes [OF r, of 120 16] obtain a b
    where "rd_bytes sample_slot_memory 0x10000 104 16 = Some a" "rd_bytes sample_slot_memory 0x10000 120 16 = Some b" by auto
  then show ?thesis
    using sample_slot_word [of 34] sample_slot_word [of 35] sample_slot_word [of 36] sample_slot_word [of 37] sample_slot_word [of 38]
      sample_slot_word [of 42] sample_slot_word [of 43] sample_slot_word [of 44]
    by (simp add: read_section_def rd64_def sample_slot_words_def)
qed

lemma sample_slot_name: "bounded_string sample_slot_memory 0x100CC 4 1 = Some (Some [0x5F, 0x66])"
proof -
  have shift: "rd8 sample_slot_memory 0x100CC k = rd8 sample_slot_memory 0x10000 (204 + k)" for k
    by (simp add: rd8_def)
  have "rd8 sample_slot_memory 0x100CC 1 = Some 0x5F" "rd8 sample_slot_memory 0x100CC 2 = Some 0x66" "rd8 sample_slot_memory 0x100CC 3 = Some 0"
    using sample_slot_byte [of 51 1] sample_slot_byte [of 51 2] sample_slot_byte [of 51 3] unfolding shift
    by (simp_all add: sample_slot_words_def le_bytes_def)
  then have "terminated_string sample_slot_memory 0x100CC 1 (Suc (Suc (Suc 0))) = Some (Some [0x5F, 0x66])"
    unfolding terminated_string.simps by (simp flip: numeral_2_eq_2)
  then show ?thesis by (simp add: bounded_string_def numeral_3_eq_3)
qed

lemma sample_slot_found:
  "\<exists>slot. hk_import_slots_find sample_slot_memory 0x10000 184 sample_slot_tables [0x66] HK_SYMBOL_NAME_C = Some (Inr slot) \<and>
     is_slot_vmaddr slot = 0x5000 \<and> is_symbol_name slot = [0x5F, 0x66]"
proof -
  note w = sample_slot_word [of 0] sample_slot_word [of 1] sample_slot_word [of 2] sample_slot_word [of 3] sample_slot_word [of 4]
    sample_slot_word [of 5] sample_slot_word [of 6] sample_slot_word [of 8] sample_slot_word [of 9]
  define h where "h = \<lparr>mh_magic = HK_MH_MAGIC_64, mh_cputype = 0x0100000C, mh_cpusubtype = 0, mh_filetype = 2, mh_ncmds = 1,
    mh_sizeofcmds = 152, mh_flags = 0\<rparr>"
  have hd: "hk_macho_read_header sample_slot_memory 0x10000 184 = Some (Inr h)"
    using w by (simp add: hk_macho_read_header_def hk_macho_peek_header_def on_ok_def sample_slot_words_def HK_MH_MAGIC_64_def h_def macho_sizes)
  have r: "readable sample_slot_memory 0x10000 208"
    unfolding sample_slot_memory_def by (rule mem_of_readable) (simp_all add: word_bytes_length sample_slot_length)
  have "answers (read_segment sample_slot_memory 0x10000 32 152)"
    by (rule read_segment_ok [OF r]) simp
  moreover have "rd32 sample_slot_memory 0x10000 96 = Some 1"
    using sample_slot_word [of 24] by (simp add: sample_slot_words_def)
  ultimately obtain seg where seg: "read_segment sample_slot_memory 0x10000 32 152 = Some (Some seg)" "sg_nsects seg = 1" "sg_cmdsize seg = 152"
    by (auto simp: read_segment_def answers_def macho_sizes split: bind_splits)
  obtain sec where sec: "read_section sample_slot_memory 0x10000 104 = Some sec" "sn_addr sec = 0x5000" "sn_size sec = 8"
      "sn_flags sec = 6" "sn_reserved1 sec = 0"
    using sample_slot_section by blast
  have tables: "rd32 sample_slot_memory 0x100B8 0 = Some 0" "rd32 sample_slot_memory 0x100BC 0 = Some 1"
    using sample_slot_word [of 46] sample_slot_word [of 47] by (simp_all add: rd32_def rd8_def sample_slot_words_def)
  define slot where "slot = \<lparr>is_n_sect = 1, is_sectname = sn_sectname sec, is_slot_index = 0, is_slot_vmaddr = 0x5000, is_symtab_index = 0,
    is_symbol_name = [0x5F, 0x66], is_is_lazy = False\<rparr>"
  have "slots_visit_section sample_slot_memory sample_slot_tables (find_visit [[0x66], [0x5F, 0x66]]) (None, False) 1 sec =
      Some ((Some slot, False), False)"
    using tables sample_slot_name
    by (simp add: slots_visit_section_def sec HK_SECTION_TYPE_def HK_S_NON_LAZY_SYMBOL_POINTERS_def HK_S_LAZY_SYMBOL_POINTERS_def
        HK_IMPORT_POINTER_SIZE_def sample_slot_tables_def NLIST64_SIZE_def find_visit_def slot_def Let_def)
  then have "sections_of_segment sample_slot_memory 0x10000
      (slots_visit_section sample_slot_memory sample_slot_tables (find_visit [[0x66], [0x5F, 0x66]])) 32 0 0 1 (None, False) =
      Some ((Some slot, False), False)"
    using sec(1) by (simp add: macho_sizes Let_def)
  moreover have "room 184 32 = 152" by (simp add: room_def)
  ultimately have "hk_macho_iterate_sections sample_slot_memory 0x10000 184
      (slots_visit_section sample_slot_memory sample_slot_tables (find_visit [[0x66], [0x5F, 0x66]])) (None, False) = Some (Inr (Some slot, False))"
    using w seg by (simp add: hk_macho_iterate_sections_def hk_macho_iterate_load_commands_def hd h_def after_walk_def
        sample_slot_words_def macho_sizes sections_visit_def HK_LC_SEGMENT_64_def sections_fit_def)
  then have "hk_import_slots_find sample_slot_memory 0x10000 184 sample_slot_tables [0x66] HK_SYMBOL_NAME_C = Some (Inr slot)"
    by (simp add: hk_import_slots_find_def hk_symbol_build_candidates_def HK_RESOLVE_MAX_NAME_def underscore_def then_import_def
        hk_import_slots_iterate_def sample_slot_tables_def)
  then show ?thesis by (auto simp: slot_def)
qed

theorem import_slot_sound_witness:
  "\<exists>slot. genuine_slot sample_slot_memory 0x10000 sample_slot_tables slot \<and> is_slot_vmaddr slot = 0x5000"
proof -
  obtain slot where "hk_import_slots_find sample_slot_memory 0x10000 184 sample_slot_tables [0x66] HK_SYMBOL_NAME_C = Some (Inr slot)"
      "is_slot_vmaddr slot = 0x5000"
    using sample_slot_found by blast
  moreover have "(184 :: nat) < 2 ^ 32" by simp
  ultimately show ?thesis
    using import_slot_sound [of 184 sample_slot_memory "0x10000" sample_slot_tables "[0x66]" HK_SYMBOL_NAME_C slot] by blast
qed

end
