(* ===== verification/HK_ChainedFixups.thy ===== *)
theory HK_ChainedFixups
  imports HK_ImportSlots
begin

text \<open>
  Chained fixups (\<open>src/resolvers/HKChainedFixups.c\<close>): the blob of \<open>LC_DYLD_CHAINED_FIXUPS\<close>, its imports, and
  the chains of pointers that it starts in every page. Offsets into the image are 64-bit words, because
  a chain's arithmetic can wrap; everything the blob declares in 32 bits is a natural number.
\<close>

section \<open>The blob\<close>

definition HK_CHAINED_HEADER_SIZE :: nat where "HK_CHAINED_HEADER_SIZE = 28"
definition HK_CHAINED_IMPORT :: u32 where "HK_CHAINED_IMPORT = 1"
definition HK_CHAINED_IMPORT_ADDEND :: u32 where "HK_CHAINED_IMPORT_ADDEND = 2"
definition HK_CHAINED_IMPORT_ADDEND64 :: u32 where "HK_CHAINED_IMPORT_ADDEND64 = 3"
definition HK_CHAINED_IMPORT_SIZE :: nat where "HK_CHAINED_IMPORT_SIZE = 4"
definition HK_CHAINED_IMPORT_ADDEND_SIZE :: nat where "HK_CHAINED_IMPORT_ADDEND_SIZE = 8"
definition HK_CHAINED_IMPORT_ADDEND64_SIZE :: nat where "HK_CHAINED_IMPORT_ADDEND64_SIZE = 16"
definition HK_CHAINED_SYMBOLS_UNCOMPRESSED :: u32 where "HK_CHAINED_SYMBOLS_UNCOMPRESSED = 0"
definition HK_CHAINED_PTR_ARM64E :: u16 where "HK_CHAINED_PTR_ARM64E = 1"
definition HK_CHAINED_PTR_64 :: u16 where "HK_CHAINED_PTR_64 = 2"
definition HK_CHAINED_PTR_64_OFFSET :: u16 where "HK_CHAINED_PTR_64_OFFSET = 6"
definition HK_CHAINED_PTR_ARM64E_USERLAND :: u16 where "HK_CHAINED_PTR_ARM64E_USERLAND = 9"
definition HK_CHAINED_PTR_ARM64E_USERLAND24 :: u16 where "HK_CHAINED_PTR_ARM64E_USERLAND24 = 12"
definition HK_CHAINED_PTR_START_NONE :: u16 where "HK_CHAINED_PTR_START_NONE = 0xFFFF"
definition HK_CHAINED_PTR_START_MULTI :: u16 where "HK_CHAINED_PTR_START_MULTI = 0x8000"
definition HK_CHAINED_PTR_START_LAST :: u16 where "HK_CHAINED_PTR_START_LAST = 0x8000"
definition HK_CHAINED_STARTS_IN_SEGMENT_HEADER :: nat where "HK_CHAINED_STARTS_IN_SEGMENT_HEADER = 22"

datatype hk_chained_status =
    HK_CHAINED_OK | HK_CHAINED_NOT_FOUND | HK_CHAINED_INVALID_ARGUMENT | HK_CHAINED_MALFORMED
  | HK_CHAINED_UNSUPPORTED_VERSION | HK_CHAINED_UNSUPPORTED_FORMAT | HK_CHAINED_NAME_TOO_LONG

record hk_chained_fixups =
  cf_blob :: ptr
  cf_size :: nat
  cf_starts_offset :: nat
  cf_imports_offset :: nat
  cf_symbols_offset :: nat
  cf_imports_count :: nat
  cf_imports_format :: u32
  cf_import_entry_size :: nat
  cf_symbols_size :: nat

text \<open>The addends are the values of the code's signed 64-bit fields.\<close>

record hk_chained_import =
  ci_index :: nat
  ci_lib_ordinal :: int
  ci_weak_import :: bool
  ci_symbol_name :: "byte list"
  ci_addend :: int

type_synonym 'a chained_result = "(hk_chained_status + 'a) option"

definition pool_string :: "memory \<Rightarrow> ptr \<Rightarrow> nat \<Rightarrow> nat \<Rightarrow> byte list option option" where
  "pool_string m pool pool_size offset =
     (if offset \<ge> pool_size then Some None else terminated_string m pool offset (pool_size - offset))"

definition import_entry_size :: "u32 \<Rightarrow> nat" where
  "import_entry_size fmt =
     (if fmt = HK_CHAINED_IMPORT then HK_CHAINED_IMPORT_SIZE
      else if fmt = HK_CHAINED_IMPORT_ADDEND then HK_CHAINED_IMPORT_ADDEND_SIZE
      else if fmt = HK_CHAINED_IMPORT_ADDEND64 then HK_CHAINED_IMPORT_ADDEND64_SIZE
      else 0)"

definition hk_chained_fixups_parse :: "memory \<Rightarrow> ptr \<Rightarrow> nat \<Rightarrow> hk_chained_fixups chained_result" where
  "hk_chained_fixups_parse m blob sz =
     (if blob = 0 then Some (Inl HK_CHAINED_INVALID_ARGUMENT)
      else if sz < HK_CHAINED_HEADER_SIZE then Some (Inl HK_CHAINED_MALFORMED)
      else do {
        fixups_version \<leftarrow> rd32 m blob 0;
        starts_offset \<leftarrow> map_option unat (rd32 m blob 4);
        imports_offset \<leftarrow> map_option unat (rd32 m blob 8);
        symbols_offset \<leftarrow> map_option unat (rd32 m blob 12);
        imports_count \<leftarrow> map_option unat (rd32 m blob 16);
        imports_format \<leftarrow> rd32 m blob 20;
        symbols_format \<leftarrow> rd32 m blob 24;
        (if fixups_version \<noteq> 0 then Some (Inl HK_CHAINED_UNSUPPORTED_VERSION)
         else if symbols_format \<noteq> HK_CHAINED_SYMBOLS_UNCOMPRESSED then Some (Inl HK_CHAINED_UNSUPPORTED_FORMAT)
         else let entry_size = import_entry_size imports_format
           in if imports_count > 0 \<and> entry_size = 0 then Some (Inl HK_CHAINED_UNSUPPORTED_FORMAT)
              else if starts_offset > sz \<or> imports_offset > sz \<or> symbols_offset > sz then Some (Inl HK_CHAINED_MALFORMED)
              else if imports_count * entry_size > sz - imports_offset then Some (Inl HK_CHAINED_MALFORMED)
              else Some (Inr \<lparr>cf_blob = blob, cf_size = sz, cf_starts_offset = starts_offset, cf_imports_offset = imports_offset,
                     cf_symbols_offset = symbols_offset, cf_imports_count = imports_count, cf_imports_format = imports_format,
                     cf_import_entry_size = entry_size, cf_symbols_size = sz - symbols_offset\<rparr>))
      })"

text \<open>The fields of an entry: the library, whether it is weak, where the name is, the addend.\<close>

definition import_fields :: "memory \<Rightarrow> hk_chained_fixups \<Rightarrow> nat \<Rightarrow> (int \<times> bool \<times> nat \<times> int) option option" where
  "import_fields m fixups entry =
     (if cf_imports_format fixups = HK_CHAINED_IMPORT \<or> cf_imports_format fixups = HK_CHAINED_IMPORT_ADDEND then do {
        word \<leftarrow> rd32 m (cf_blob fixups) entry;
        addend \<leftarrow> (if cf_imports_format fixups = HK_CHAINED_IMPORT_ADDEND then map_option sint (rd32 m (cf_blob fixups) (entry + 4)) else Some 0);
        Some (Some (sint (ucast word :: byte), drop_bit 8 word AND 1 \<noteq> 0, unat (drop_bit 9 word AND 0x7FFFFF), addend))
      }
      else if cf_imports_format fixups = HK_CHAINED_IMPORT_ADDEND64 then do {
        word \<leftarrow> rd64 m (cf_blob fixups) entry;
        addend \<leftarrow> map_option sint (rd64 m (cf_blob fixups) (entry + 8));
        Some (Some (sint (ucast word :: u16), drop_bit 16 word AND 1 \<noteq> 0, unat (drop_bit 32 word AND 0xFFFFFFFF), addend))
      }
      else Some None)"

definition hk_chained_import_at :: "memory \<Rightarrow> hk_chained_fixups \<Rightarrow> nat \<Rightarrow> hk_chained_import chained_result" where
  "hk_chained_import_at m fixups index =
     (if cf_blob fixups = 0 then Some (Inl HK_CHAINED_INVALID_ARGUMENT)
      else if index \<ge> cf_imports_count fixups then Some (Inl HK_CHAINED_NOT_FOUND)
      else do {
        fields \<leftarrow> import_fields m fixups (cf_imports_offset fixups + index * cf_import_entry_size fixups);
        (case fields of
           None \<Rightarrow> Some (Inl HK_CHAINED_UNSUPPORTED_FORMAT)
         | Some (lib_ordinal, weak_import, name_offset, addend) \<Rightarrow> do {
             name \<leftarrow> pool_string m (cf_blob fixups + of_nat (cf_symbols_offset fixups)) (cf_symbols_size fixups) name_offset;
             (case name of
                None \<Rightarrow> Some (Inl HK_CHAINED_MALFORMED)
              | Some symbol_name \<Rightarrow> Some (Inr \<lparr>ci_index = index, ci_lib_ordinal = lib_ordinal, ci_weak_import = weak_import,
                  ci_symbol_name = symbol_name, ci_addend = addend\<rparr>))
           })
      })"

primrec imports_find_from :: "memory \<Rightarrow> hk_chained_fixups \<Rightarrow> byte list list \<Rightarrow> nat \<Rightarrow> nat \<Rightarrow> hk_chained_import chained_result" where
  "imports_find_from m fixups candidates i 0 = Some (Inl HK_CHAINED_NOT_FOUND)"
| "imports_find_from m fixups candidates i (Suc n) = do {
     entry \<leftarrow> hk_chained_import_at m fixups i;
     (case entry of
        Inl status \<Rightarrow> Some (Inl status)
      | Inr import \<Rightarrow> if ci_symbol_name import \<in> set candidates then Some (Inr import)
          else imports_find_from m fixups candidates (i + 1) n)
   }"

definition hk_chained_imports_find :: "memory \<Rightarrow> hk_chained_fixups \<Rightarrow> byte list \<Rightarrow> hk_symbol_name_convention \<Rightarrow> hk_chained_import chained_result" where
  "hk_chained_imports_find m fixups name convention =
     (case hk_symbol_build_candidates name convention of
        Inl rc \<Rightarrow> Some (Inl (if rc = HK_RESOLVE_NAME_TOO_LONG then HK_CHAINED_NAME_TOO_LONG else HK_CHAINED_INVALID_ARGUMENT))
      | Inr candidates \<Rightarrow> imports_find_from m fixups candidates 0 (cf_imports_count fixups))"

section \<open>Chains\<close>

definition format_is_arm64e :: "u16 \<Rightarrow> bool" where
  "format_is_arm64e pointer_format \<longleftrightarrow>
     pointer_format = HK_CHAINED_PTR_ARM64E \<or> pointer_format = HK_CHAINED_PTR_ARM64E_USERLAND \<or>
     pointer_format = HK_CHAINED_PTR_ARM64E_USERLAND24"

definition format_stride :: "u16 \<Rightarrow> nat" where
  "format_stride pointer_format =
     (if pointer_format = HK_CHAINED_PTR_ARM64E \<or> pointer_format = HK_CHAINED_PTR_ARM64E_USERLAND \<or>
         pointer_format = HK_CHAINED_PTR_ARM64E_USERLAND24 then 8
      else if pointer_format = HK_CHAINED_PTR_64 \<or> pointer_format = HK_CHAINED_PTR_64_OFFSET then 4
      else 0)"

record chained_ptr =
  cp_is_bind :: bool
  cp_is_auth :: bool
  cp_ordinal :: nat
  cp_next :: nat
  cp_key :: nat
  cp_diversity :: u16
  cp_address_diversity :: bool
  cp_addend :: int

definition chained_sign_extend :: "u64 \<Rightarrow> nat \<Rightarrow> int" where
  "chained_sign_extend value bits = (let sign = push_bit (bits - 1) 1 in sint ((value XOR sign) - sign))"

definition decode_pointer :: "u64 \<Rightarrow> u16 \<Rightarrow> chained_ptr" where
  "decode_pointer raw pointer_format =
     (if format_is_arm64e pointer_format then
        (let is_auth = drop_bit 63 raw AND 1 \<noteq> 0; is_bind = drop_bit 62 raw AND 1 \<noteq> 0
         in \<lparr>cp_is_bind = is_bind, cp_is_auth = is_auth,
             cp_ordinal = (if pointer_format = HK_CHAINED_PTR_ARM64E_USERLAND24 then unat (raw AND 0xFFFFFF) else unat (raw AND 0xFFFF)),
             cp_next = unat (drop_bit 51 raw AND 0x7FF),
             cp_key = (if is_bind \<and> is_auth then unat (drop_bit 49 raw AND 3) else 0),
             cp_diversity = (if is_bind \<and> is_auth then ucast (drop_bit 32 raw) else 0),
             cp_address_diversity = (is_bind \<and> is_auth \<and> drop_bit 48 raw AND 1 \<noteq> 0),
             cp_addend = (if is_bind \<and> \<not> is_auth then chained_sign_extend (drop_bit 32 raw AND 0x7FFFF) 19 else 0)\<rparr>)
      else
        (let is_bind = drop_bit 63 raw AND 1 \<noteq> 0
         in \<lparr>cp_is_bind = is_bind, cp_is_auth = False, cp_ordinal = unat (raw AND 0xFFFFFF),
             cp_next = unat (drop_bit 51 raw AND 0xFFF), cp_key = 0, cp_diversity = 0, cp_address_diversity = False,
             cp_addend = (if is_bind then uint (drop_bit 24 raw AND 0xFF) else 0)\<rparr>))"

record hk_chained_bind =
  cb_slot_image_offset :: u64
  cb_import_ordinal :: nat
  cb_segment_index :: nat
  cb_pointer_format :: u16
  cb_is_auth :: bool
  cb_key :: nat
  cb_diversity :: u16
  cb_address_diversity :: bool
  cb_addend :: int

type_synonym 'c bind_visit = "'c \<Rightarrow> hk_chained_bind \<Rightarrow> ('c \<times> bool) option"

text \<open>The status, the client's context, and whether the client stopped the walk.\<close>

type_synonym 'c chain_reply = "(hk_chained_status \<times> 'c \<times> bool) option"

record chain_ctx =
  cc_storage :: ptr
  cc_storage_size :: nat
  cc_storage_segment_start :: u64
  cc_storage_segment_size :: u64
  cc_pointer_format :: u16
  cc_stride :: nat
  cc_segment_start :: u64
  cc_segment_end :: u64
  cc_segment_index :: nat

definition chained_bind_of :: "chain_ctx \<Rightarrow> u64 \<Rightarrow> chained_ptr \<Rightarrow> hk_chained_bind" where
  "chained_bind_of cc offset p =
     \<lparr>cb_slot_image_offset = offset, cb_import_ordinal = cp_ordinal p, cb_segment_index = cc_segment_index cc,
      cb_pointer_format = cc_pointer_format cc, cb_is_auth = cp_is_auth p, cb_key = cp_key p, cb_diversity = cp_diversity p,
      cb_address_diversity = cp_address_diversity p, cb_addend = cp_addend p\<rparr>"

text \<open>The two bounds of a read: the segment's declared span and the bytes of the storage.\<close>

definition outside_segment :: "chain_ctx \<Rightarrow> u64 \<Rightarrow> bool" where
  "outside_segment cc offset \<longleftrightarrow>
     offset < cc_segment_start cc \<or> offset > cc_segment_end cc \<or> 8 > cc_segment_end cc - offset"

definition outside_storage :: "chain_ctx \<Rightarrow> u64 \<Rightarrow> bool" where
  "outside_storage cc within \<longleftrightarrow>
     within + 8 > cc_storage_segment_size cc \<or> unat (cc_storage_segment_start cc) > cc_storage_size cc \<or>
     unat (within + 8) > cc_storage_size cc - unat (cc_storage_segment_start cc)"

function walk_chain :: "memory \<Rightarrow> chain_ctx \<Rightarrow> 'c bind_visit \<Rightarrow> u64 \<Rightarrow> 'c \<Rightarrow> 'c chain_reply" where
  "walk_chain m cc visit offset c =
     (if outside_segment cc offset then Some (HK_CHAINED_MALFORMED, c, False)
      else if outside_storage cc (offset - cc_segment_start cc) then Some (HK_CHAINED_MALFORMED, c, False)
      else do {
        raw \<leftarrow> rd64 m (cc_storage cc) (unat (cc_storage_segment_start cc) + unat (offset - cc_segment_start cc));
        (let p = decode_pointer raw (cc_pointer_format cc)
         in do {
           (c1, go_on) \<leftarrow> (if cp_is_bind p then visit c (chained_bind_of cc offset p) else Some (c, True));
           (if \<not> go_on then Some (HK_CHAINED_OK, c1, True)
            else if cp_next p = 0 then Some (HK_CHAINED_OK, c1, False)
            else let advanced = offset + of_nat (cp_next p) * of_nat (cc_stride cc)
              in if advanced \<le> offset then Some (HK_CHAINED_MALFORMED, c1, False)
                 else walk_chain m cc visit advanced c1)
         })
      })"
  by pat_completeness auto
termination
proof (relation "measure (\<lambda>(m, cc, visit, offset, c). unat (cc_segment_end cc) - unat offset)")
  fix m :: memory and cc :: chain_ctx and visit :: "'c bind_visit" and offset advanced :: u64 and c c1 :: 'c
  assume inside: "\<not> outside_segment cc offset" and up: "\<not> advanced \<le> offset"
  have "offset \<noteq> cc_segment_end cc" using inside by (auto simp: outside_segment_def)
  then have "unat offset < unat (cc_segment_end cc)"
    using inside by (auto simp: outside_segment_def word_less_nat_alt not_less word_le_nat_alt word_unat_eq_iff)
  then show "((m, cc, visit, advanced, c1), m, cc, visit, offset, c) \<in> measure (\<lambda>(m, cc, visit, offset, c). unat (cc_segment_end cc) - unat offset)"
    using up by (simp add: word_le_nat_alt)
qed simp

declare walk_chain.simps [simp del]

section \<open>Segments\<close>

text \<open>After a chain: go on, or hand back a failure or a stop.\<close>

definition after_chain :: "'c chain_reply \<Rightarrow> ('c \<Rightarrow> 'c chain_reply) \<Rightarrow> 'c chain_reply" where
  "after_chain r f = (case r of None \<Rightarrow> None
     | Some (status, c, stopped) \<Rightarrow> if status \<noteq> HK_CHAINED_OK \<or> stopped then Some (status, c, stopped) else f c)"

text \<open>The overflow list of a page with several chains.\<close>

function walk_starts :: "memory \<Rightarrow> chain_ctx \<Rightarrow> 'c bind_visit \<Rightarrow> ptr \<Rightarrow> nat \<Rightarrow> u64 \<Rightarrow> nat \<Rightarrow> 'c \<Rightarrow> 'c chain_reply" where
  "walk_starts m cc visit page_start starts_extent page_base index c =
     (let entry_off = index * 2
      in if entry_off + 2 > starts_extent then Some (HK_CHAINED_MALFORMED, c, False)
         else do {
           entry \<leftarrow> rd16 m page_start entry_off;
           after_chain (walk_chain m cc visit (page_base + ucast (entry AND NOT HK_CHAINED_PTR_START_LAST)) c) (\<lambda>c1.
             if entry AND HK_CHAINED_PTR_START_LAST \<noteq> 0 then Some (HK_CHAINED_OK, c1, False)
             else walk_starts m cc visit page_start starts_extent page_base (index + 1) c1)
         })"
  by pat_completeness auto
termination by (relation "measure (\<lambda>(m, cc, visit, page_start, starts_extent, page_base, index, c). starts_extent - index * 2)") auto

declare walk_starts.simps [simp del]

text \<open>The pages from number \<open>page\<close>.\<close>

primrec walk_pages :: "memory \<Rightarrow> chain_ctx \<Rightarrow> 'c bind_visit \<Rightarrow> ptr \<Rightarrow> nat \<Rightarrow> nat \<Rightarrow> nat \<Rightarrow> nat \<Rightarrow> 'c \<Rightarrow> 'c chain_reply" where
  "walk_pages m cc visit page_start starts_extent page_size page 0 c = Some (HK_CHAINED_OK, c, False)"
| "walk_pages m cc visit page_start starts_extent page_size page (Suc n) c = do {
     start \<leftarrow> rd16 m page_start (page * 2);
     (let page_base = cc_segment_start cc + of_nat page * of_nat page_size
      in if start = HK_CHAINED_PTR_START_NONE then walk_pages m cc visit page_start starts_extent page_size (page + 1) n c
         else if start AND HK_CHAINED_PTR_START_MULTI \<noteq> 0 then
           after_chain (walk_starts m cc visit page_start starts_extent page_base (unat (start AND NOT HK_CHAINED_PTR_START_MULTI)) c)
             (walk_pages m cc visit page_start starts_extent page_size (page + 1) n)
         else after_chain (walk_chain m cc visit (page_base + ucast start) c)
             (walk_pages m cc visit page_start starts_extent page_size (page + 1) n))
   }"

record hk_chained_segment_mapping =
  csm_image_offset :: u64
  csm_file_offset :: u64
  csm_file_size :: u64

definition walk_segment :: "memory \<Rightarrow> hk_chained_fixups \<Rightarrow> ptr \<Rightarrow> nat \<Rightarrow> hk_chained_segment_mapping option \<Rightarrow> nat \<Rightarrow> nat \<Rightarrow>
    'c bind_visit \<Rightarrow> 'c \<Rightarrow> 'c chain_reply" where
  "walk_segment m fixups storage storage_size mapping seg_info_offset segment_index visit c =
     (let blob = cf_blob fixups; blob_size = cf_size fixups
      in if seg_info_offset > blob_size \<or> blob_size - seg_info_offset < HK_CHAINED_STARTS_IN_SEGMENT_HEADER
         then Some (HK_CHAINED_MALFORMED, c, False)
         else do {
           declared_size \<leftarrow> map_option unat (rd32 m blob seg_info_offset);
           page_size \<leftarrow> map_option unat (rd16 m blob (seg_info_offset + 4));
           ptr_format \<leftarrow> rd16 m blob (seg_info_offset + 6);
           segment_off \<leftarrow> rd64 m blob (seg_info_offset + 8);
           page_count \<leftarrow> map_option unat (rd16 m blob (seg_info_offset + 20));
           (if page_size = 0 then Some (HK_CHAINED_MALFORMED, c, False)
            else if format_stride ptr_format = 0 then Some (HK_CHAINED_UNSUPPORTED_FORMAT, c, False)
            else if declared_size < HK_CHAINED_STARTS_IN_SEGMENT_HEADER then Some (HK_CHAINED_MALFORMED, c, False)
            else let starts_extent = declared_size - HK_CHAINED_STARTS_IN_SEGMENT_HEADER;
                   segment_span = of_nat page_count * of_nat page_size :: u64
              in if starts_extent > blob_size - seg_info_offset - HK_CHAINED_STARTS_IN_SEGMENT_HEADER then Some (HK_CHAINED_MALFORMED, c, False)
                 else if page_count * 2 > starts_extent then Some (HK_CHAINED_MALFORMED, c, False)
                 else if (case mapping of None \<Rightarrow> False | Some mp \<Rightarrow> csm_image_offset mp \<noteq> segment_off) then Some (HK_CHAINED_MALFORMED, c, False)
                 else if segment_span > - 1 - segment_off then Some (HK_CHAINED_MALFORMED, c, False)
                 else walk_pages m
                   \<lparr>cc_storage = storage, cc_storage_size = storage_size,
                    cc_storage_segment_start = (case mapping of None \<Rightarrow> segment_off | Some mp \<Rightarrow> csm_file_offset mp),
                    cc_storage_segment_size = (case mapping of
                        None \<Rightarrow> of_nat (storage_size - (if unat segment_off \<le> storage_size then unat segment_off else storage_size))
                      | Some mp \<Rightarrow> csm_file_size mp),
                    cc_pointer_format = ptr_format, cc_stride = format_stride ptr_format, cc_segment_start = segment_off,
                    cc_segment_end = segment_off + segment_span, cc_segment_index = segment_index\<rparr>
                   visit (blob + of_nat (seg_info_offset + HK_CHAINED_STARTS_IN_SEGMENT_HEADER)) starts_extent page_size 0 page_count c)
         })"

text \<open>The segments from number \<open>i\<close>; \<open>segments\<close> is NULL or the table of their places in a file.\<close>

primrec walk_segments :: "memory \<Rightarrow> hk_chained_fixups \<Rightarrow> ptr \<Rightarrow> nat \<Rightarrow> hk_chained_segment_mapping list option \<Rightarrow> 'c bind_visit \<Rightarrow>
    nat \<Rightarrow> nat \<Rightarrow> 'c \<Rightarrow> 'c chain_reply" where
  "walk_segments m fixups storage storage_size segments visit i 0 c = Some (HK_CHAINED_OK, c, False)"
| "walk_segments m fixups storage storage_size segments visit i (Suc n) c = do {
     seg_info_offset \<leftarrow> map_option unat (rd32 m (cf_blob fixups) (cf_starts_offset fixups + 4 + i * 4));
     (if seg_info_offset = 0 then walk_segments m fixups storage storage_size segments visit (i + 1) n c
      else if (case segments of None \<Rightarrow> False | Some ms \<Rightarrow> i \<ge> length ms) then Some (HK_CHAINED_MALFORMED, c, False)
      else if seg_info_offset > cf_size fixups - cf_starts_offset fixups then Some (HK_CHAINED_MALFORMED, c, False)
      else after_chain (walk_segment m fixups storage storage_size (map_option (\<lambda>ms. ms ! i) segments)
             (cf_starts_offset fixups + seg_info_offset) i visit c)
           (walk_segments m fixups storage storage_size segments visit (i + 1) n))
   }"

definition iterate_binds :: "memory \<Rightarrow> hk_chained_fixups \<Rightarrow> ptr \<Rightarrow> nat \<Rightarrow> hk_chained_segment_mapping list option \<Rightarrow> 'c bind_visit \<Rightarrow> 'c \<Rightarrow>
    (hk_chained_status \<times> 'c) option" where
  "iterate_binds m fixups storage_base storage_size segments visit c =
     (if cf_blob fixups = 0 \<or> storage_base = 0 \<or> segments = Some [] then Some (HK_CHAINED_INVALID_ARGUMENT, c)
      else if cf_starts_offset fixups > cf_size fixups \<or> cf_size fixups - cf_starts_offset fixups < 4 then Some (HK_CHAINED_MALFORMED, c)
      else do {
        seg_count \<leftarrow> map_option unat (rd32 m (cf_blob fixups) (cf_starts_offset fixups));
        (if seg_count * 4 > cf_size fixups - cf_starts_offset fixups - 4 then Some (HK_CHAINED_MALFORMED, c)
         else map_option (\<lambda>(status, c1, _). (status, c1))
           (walk_segments m fixups storage_base storage_size segments visit 0 seg_count c))
      })"

definition hk_chained_fixups_iterate_binds :: "memory \<Rightarrow> hk_chained_fixups \<Rightarrow> ptr \<Rightarrow> nat \<Rightarrow> 'c bind_visit \<Rightarrow> 'c \<Rightarrow>
    (hk_chained_status \<times> 'c) option" where
  "hk_chained_fixups_iterate_binds m fixups image_base image_size visit c =
     iterate_binds m fixups image_base image_size None visit c"

definition hk_chained_fixups_iterate_file_binds :: "memory \<Rightarrow> hk_chained_fixups \<Rightarrow> ptr \<Rightarrow> nat \<Rightarrow> hk_chained_segment_mapping list \<Rightarrow>
    'c bind_visit \<Rightarrow> 'c \<Rightarrow> (hk_chained_status \<times> 'c) option" where
  "hk_chained_fixups_iterate_file_binds m fixups file_base file_size segments visit c =
     iterate_binds m fixups file_base file_size (Some segments) visit c"

end
