(* ===== verification/HK_ChainedFixups_Props.thy ===== *)
theory HK_ChainedFixups_Props
  imports HK_ChainedFixups
begin

text \<open>
  What the traversal of chained fixups guarantees: it ends and stays inside the blob and the storage
  whatever they hold, it reports only words of the storage that are binds, and along a chain that is
  linked correctly it reports every bind, in order.
\<close>

section \<open>One word of a chain\<close>

lemma in_segment:
  assumes "\<not> outside_segment cc offset"
  shows "unat (offset - cc_segment_start cc) = unat offset - unat (cc_segment_start cc)" "cc_segment_start cc \<le> offset"
    "unat (offset - cc_segment_start cc + 8) = unat (offset - cc_segment_start cc) + 8"
proof -
  have o: "cc_segment_start cc \<le> offset" "offset \<le> cc_segment_end cc" "8 \<le> cc_segment_end cc - offset"
    using assms by (auto simp: outside_segment_def not_less)
  show "cc_segment_start cc \<le> offset" by (rule o(1))
  show w: "unat (offset - cc_segment_start cc) = unat offset - unat (cc_segment_start cc)"
    using o(1) by (simp add: unat_sub)
  have "8 \<le> unat (cc_segment_end cc) - unat offset" using o(2,3) by (simp add: word_le_nat_alt unat_sub)
  moreover have "unat (cc_segment_end cc) < 2 ^ 64" using unsigned_less [of "cc_segment_end cc"] by simp
  ultimately have "unat (offset - cc_segment_start cc) + 8 < 2 ^ 64" using w by linarith
  then show "unat (offset - cc_segment_start cc + 8) = unat (offset - cc_segment_start cc) + 8"
    by (simp add: unat_word_ariths)
qed

text \<open>Where a word of a chain lies in the storage.\<close>

definition storage_place :: "chain_ctx \<Rightarrow> u64 \<Rightarrow> nat" where
  "storage_place cc offset = unat (cc_storage_segment_start cc) + unat (offset - cc_segment_start cc)"

lemma storage_place_inside:
  assumes "\<not> outside_segment cc offset" "\<not> outside_storage cc (offset - cc_segment_start cc)"
  shows "storage_place cc offset + 8 \<le> cc_storage_size cc"
  using assms(2) in_segment(3) [OF assms(1)] by (auto simp: outside_storage_def storage_place_def)

section \<open>The traversal ends inside its bounds\<close>

lemma answers_after_chain: "answers r \<Longrightarrow> (\<And>c. answers (f c)) \<Longrightarrow> answers (after_chain r f)"
  by (auto simp: after_chain_def answers_def split: option.split prod.split)

lemma walk_chain_ok:
  assumes "readable m (cc_storage cc) (cc_storage_size cc)" "\<And>c b. answers (visit c b)"
  shows "answers (walk_chain m cc visit offset c)"
  using assms
proof (induction m cc visit offset c rule: walk_chain.induct)
  case (1 m cc visit offset c)
  show ?case
  proof (subst walk_chain.simps, intro answers_basic)
    assume o: "\<not> outside_segment cc offset" "\<not> outside_storage cc (offset - cc_segment_start cc)"
    show "answers (rd64 m (cc_storage cc) (unat (cc_storage_segment_start cc) + unat (offset - cc_segment_start cc)))"
      by (rule answers_reads(5) [OF "1.prems"(1)]) (use storage_place_inside [OF o] in \<open>simp add: storage_place_def\<close>)
  next
    fix raw
    assume o: "\<not> outside_segment cc offset" "\<not> outside_storage cc (offset - cc_segment_start cc)"
      "rd64 m (cc_storage cc) (unat (cc_storage_segment_start cc) + unat (offset - cc_segment_start cc)) = Some raw"
    let ?p = "decode_pointer raw (cc_pointer_format cc)"
    have "answers (if cp_is_bind ?p then visit c (chained_bind_of cc offset ?p) else Some (c, True))"
      by (simp add: "1.prems"(2) answers_Some)
    then obtain c1 go_on where v: "(if cp_is_bind ?p then visit c (chained_bind_of cc offset ?p) else Some (c, True)) = Some (c1, go_on)"
      by (auto simp: answers_def)
    have rec: "answers (walk_chain m cc visit (offset + of_nat (cp_next ?p) * of_nat (cc_stride cc)) c1)"
      if "go_on" "cp_next ?p \<noteq> 0" "\<not> offset + of_nat (cp_next ?p) * of_nat (cc_stride cc) \<le> offset"
      using "1.IH" [OF o(1,2) _ refl _ _ _ _ refl] v that "1.prems" o(3) by blast
    show "answers (let p = decode_pointer raw (cc_pointer_format cc)
         in do {
           (c1, go_on) \<leftarrow> (if cp_is_bind p then visit c (chained_bind_of cc offset p) else Some (c, True));
           (if \<not> go_on then Some (HK_CHAINED_OK, c1, True)
            else if cp_next p = 0 then Some (HK_CHAINED_OK, c1, False)
            else let advanced = offset + of_nat (cp_next p) * of_nat (cc_stride cc)
              in if advanced \<le> offset then Some (HK_CHAINED_MALFORMED, c1, False)
                 else walk_chain m cc visit advanced c1)
         })"
      using rec by (simp add: v Let_def answers_Some)
  qed
qed

lemma walk_starts_ok:
  assumes "readable m (cc_storage cc) (cc_storage_size cc)" "readable m page_start starts_extent" "\<And>c b. answers (visit c b)"
  shows "answers (walk_starts m cc visit page_start starts_extent page_base index c)"
  using assms
proof (induction m cc visit page_start starts_extent page_base index c rule: walk_starts.induct)
  case (1 m cc visit page_start starts_extent page_base index c)
  show ?case
    unfolding walk_starts.simps [of m cc visit page_start starts_extent page_base index c] Let_def
  proof (intro answers_basic answers_after_chain walk_chain_ok "1.prems" answers_reads(2) [OF "1.prems"(2)])
    fix entry c1
    assume "\<not> starts_extent < index * 2 + 2" "rd16 m page_start (index * 2) = Some entry" "\<not> entry AND HK_CHAINED_PTR_START_LAST \<noteq> 0"
    then show "answers (walk_starts m cc visit page_start starts_extent page_base (index + 1) c1)"
      using "1.IH" [OF refl] "1.prems" by blast
  qed simp
qed

lemma walk_pages_ok:
  assumes "readable m (cc_storage cc) (cc_storage_size cc)" "readable m page_start starts_extent" "\<And>c b. answers (visit c b)"
  shows "(page + n) * 2 \<le> starts_extent \<Longrightarrow> answers (walk_pages m cc visit page_start starts_extent page_size page n c)"
proof (induction n arbitrary: page c)
  case (Suc n)
  show ?case
    unfolding walk_pages.simps Let_def
    by (intro answers_basic answers_after_chain walk_chain_ok walk_starts_ok assms answers_reads(2) [OF assms(2)] Suc.IH)
      (use Suc.prems in simp_all)
qed (simp add: answers_Some)

lemma walk_segment_ok:
  assumes "readable m storage storage_size" "readable m (cf_blob fixups) (cf_size fixups)" "\<And>c b. answers (visit c b)"
  shows "answers (walk_segment m fixups storage storage_size mapping seg_info_offset segment_index visit c)"
proof -
  have starts: "readable m (cf_blob fixups + of_nat (seg_info_offset + HK_CHAINED_STARTS_IN_SEGMENT_HEADER)) extent"
    if "\<not> (cf_size fixups < seg_info_offset \<or> cf_size fixups - seg_info_offset < HK_CHAINED_STARTS_IN_SEGMENT_HEADER)"
      "\<not> cf_size fixups - seg_info_offset - HK_CHAINED_STARTS_IN_SEGMENT_HEADER < extent" for extent
    by (rule readable_offset [OF assms(2)]) (use that in linarith)
  show ?thesis
    unfolding walk_segment_def Let_def
    by (intro answers_basic answers_reads [OF assms(2)] walk_pages_ok [OF _ starts assms(3)])
      (use assms(1) in \<open>auto simp: HK_CHAINED_STARTS_IN_SEGMENT_HEADER_def\<close>)
qed

lemma walk_segments_ok:
  assumes "readable m storage storage_size" "readable m (cf_blob fixups) (cf_size fixups)" "\<And>c b. answers (visit c b)"
  shows "cf_starts_offset fixups + 4 + (i + n) * 4 \<le> cf_size fixups \<Longrightarrow>
    answers (walk_segments m fixups storage storage_size segments visit i n c)"
proof (induction n arbitrary: i c)
  case (Suc n)
  show ?case
    unfolding walk_segments.simps
    by (intro answers_basic answers_after_chain answers_reads [OF assms(2)] walk_segment_ok assms Suc.IH) (use Suc.prems in simp_all)
qed (simp add: answers_Some)

lemma iterate_binds_ok:
  assumes "readable m storage storage_size" "readable m (cf_blob fixups) (cf_size fixups)" "\<And>c b. answers (visit c b)"
  shows "answers (iterate_binds m fixups storage storage_size segments visit c)"
  unfolding iterate_binds_def
  by (intro answers_basic answers_reads [OF assms(2)] walk_segments_ok assms) auto

section \<open>What is reported\<close>

text \<open>A bind of the storage: the word at its place is one, and says what is reported. Without a table of
  segments the place is the offset itself.\<close>

definition genuine_bind :: "memory \<Rightarrow> ptr \<Rightarrow> nat \<Rightarrow> bool \<Rightarrow> hk_chained_bind \<Rightarrow> bool" where
  "genuine_bind m storage storage_size mapped b \<longleftrightarrow> (\<exists>k raw.
     k + 8 \<le> storage_size \<and> rd64 m storage k = Some raw \<and> (\<not> mapped \<longrightarrow> k = unat (cb_slot_image_offset b)) \<and>
     (let p = decode_pointer raw (cb_pointer_format b) in
      cp_is_bind p \<and> cb_import_ordinal b = cp_ordinal p \<and> cb_is_auth b = cp_is_auth p \<and> cb_key b = cp_key p \<and>
      cb_diversity b = cp_diversity p \<and> cb_address_diversity b = cp_address_diversity p \<and> cb_addend b = cp_addend p))"

definition direct :: "chain_ctx \<Rightarrow> bool" where
  "direct cc \<longleftrightarrow> cc_storage_segment_start cc = cc_segment_start cc"

lemma walk_chain_inv:
  assumes "walk_chain m cc visit offset c = Some (st, c1, stopped)" "P c" "mapped \<or> direct cc"
    and "\<And>c b c1 go_on. P c \<Longrightarrow> genuine_bind m (cc_storage cc) (cc_storage_size cc) mapped b \<Longrightarrow> visit c b = Some (c1, go_on) \<Longrightarrow> P c1"
  shows "P c1"
  using assms
proof (induction m cc visit offset c arbitrary: c1 rule: walk_chain.induct)
  case (1 m cc visit offset c)
  show ?case
  proof (cases "outside_segment cc offset \<or> outside_storage cc (offset - cc_segment_start cc)")
    case True
    then show ?thesis using "1.prems"(1,2) by (auto simp: walk_chain.simps [of m cc visit offset c] split: if_splits)
  next
    case False
    then have o: "\<not> outside_segment cc offset" "\<not> outside_storage cc (offset - cc_segment_start cc)" by auto
    obtain raw where raw: "rd64 m (cc_storage cc) (storage_place cc offset) = Some raw"
      using "1.prems"(1) o by (auto simp: walk_chain.simps [of m cc visit offset c] storage_place_def split: bind_splits)
    let ?p = "decode_pointer raw (cc_pointer_format cc)" and ?a = "offset + of_nat (cp_next (decode_pointer raw (cc_pointer_format cc))) * of_nat (cc_stride cc)"
    obtain c2 go_on where v: "(if cp_is_bind ?p then visit c (chained_bind_of cc offset ?p) else Some (c, True)) = Some (c2, go_on)"
      and rest: "(if \<not> go_on then Some (HK_CHAINED_OK, c2, True)
            else if cp_next ?p = 0 then Some (HK_CHAINED_OK, c2, False)
            else if ?a \<le> offset then Some (HK_CHAINED_MALFORMED, c2, False)
                 else walk_chain m cc visit ?a c2) = Some (st, c1, stopped)"
      using "1.prems"(1) o raw unfolding walk_chain.simps [of m cc visit offset c] storage_place_def Let_def
      by (auto split: bind_splits)
    have "genuine_bind m (cc_storage cc) (cc_storage_size cc) mapped (chained_bind_of cc offset ?p)" if "cp_is_bind ?p"
      unfolding genuine_bind_def
      by (rule exI [of _ "storage_place cc offset"], rule exI [of _ raw])
        (use storage_place_inside [OF o] raw that "1.prems"(3) in_segment(1,2) [OF o(1)] in
          \<open>auto simp: chained_bind_of_def Let_def direct_def storage_place_def word_le_nat_alt\<close>)
    with v have c2: "P c2" using "1.prems"(2,4) by (auto split: if_splits)
    consider "c1 = c2" | "go_on" "cp_next ?p \<noteq> 0" "\<not> ?a \<le> offset" "walk_chain m cc visit ?a c2 = Some (st, c1, stopped)"
      using rest by (auto split: if_splits)
    then show ?thesis
    proof cases
      case 2
      show ?thesis
        by (rule "1.IH" [OF o raw [unfolded storage_place_def] refl v refl _ 2(2) refl 2(3,4) c2 "1.prems"(3)])
          (use 2(1) "1.prems"(4) in blast)+
    qed (use c2 in simp)
  qed
qed

lemma after_chain_inv:
  assumes "after_chain r f = Some (st, c1, stopped)" "\<And>st c stopped. r = Some (st, c, stopped) \<Longrightarrow> P c"
    and "\<And>c st c1 stopped. P c \<Longrightarrow> f c = Some (st, c1, stopped) \<Longrightarrow> P c1"
  shows "P c1"
  using assms by (auto simp: after_chain_def split: option.splits prod.splits if_splits)

lemma walk_starts_inv:
  assumes "walk_starts m cc visit page_start starts_extent page_base index c = Some (st, c1, stopped)" "P c" "mapped \<or> direct cc"
    and "\<And>c b c1 go_on. P c \<Longrightarrow> genuine_bind m (cc_storage cc) (cc_storage_size cc) mapped b \<Longrightarrow> visit c b = Some (c1, go_on) \<Longrightarrow> P c1"
  shows "P c1"
  using assms
proof (induction m cc visit page_start starts_extent page_base index c arbitrary: st c1 stopped rule: walk_starts.induct)
  case (1 m cc visit page_start starts_extent page_base index c)
  show ?case
  proof (cases "starts_extent < index * 2 + 2")
    case True
    then show ?thesis using "1.prems"(1,2) by (simp add: walk_starts.simps [of m cc visit page_start starts_extent page_base index c])
  next
    case False
    then obtain entry where e: "rd16 m page_start (index * 2) = Some entry"
      and rest: "after_chain (walk_chain m cc visit (page_base + ucast (entry AND NOT HK_CHAINED_PTR_START_LAST)) c) (\<lambda>c1.
             if entry AND HK_CHAINED_PTR_START_LAST \<noteq> 0 then Some (HK_CHAINED_OK, c1, False)
             else walk_starts m cc visit page_start starts_extent page_base (index + 1) c1) = Some (st, c1, stopped)"
      using "1.prems"(1) by (auto simp: walk_starts.simps [of m cc visit page_start starts_extent page_base index c] split: bind_splits)
    show ?thesis
    proof (rule after_chain_inv [OF rest, where P = P])
      fix st c2 stopped
      assume "walk_chain m cc visit (page_base + ucast (entry AND NOT HK_CHAINED_PTR_START_LAST)) c = Some (st, c2, stopped)"
      from walk_chain_inv [where P = P, OF this "1.prems"(2,3)] "1.prems"(4) show "P c2" by blast
    next
      fix c2 st' c3 stopped'
      assume "P c2" "(if entry AND HK_CHAINED_PTR_START_LAST \<noteq> 0 then Some (HK_CHAINED_OK, c2, False)
             else walk_starts m cc visit page_start starts_extent page_base (index + 1) c2) = Some (st', c3, stopped')"
      then consider "c3 = c2" | "\<not> entry AND HK_CHAINED_PTR_START_LAST \<noteq> 0"
          "walk_starts m cc visit page_start starts_extent page_base (index + 1) c2 = Some (st', c3, stopped')"
        by (cases "entry AND HK_CHAINED_PTR_START_LAST = 0") simp_all
      then show "P c3"
      proof cases
        case 2
        show ?thesis
          by (rule "1.IH" [OF refl False e 2(1,2) \<open>P c2\<close> "1.prems"(3)]) (use "1.prems"(4) in blast)
      qed (use \<open>P c2\<close> in simp)
    qed
  qed
qed

lemma walk_pages_inv:
  assumes "mapped \<or> direct cc"
    and "\<And>c b c1 go_on. P c \<Longrightarrow> genuine_bind m (cc_storage cc) (cc_storage_size cc) mapped b \<Longrightarrow> visit c b = Some (c1, go_on) \<Longrightarrow> P c1"
  shows "walk_pages m cc visit page_start starts_extent page_size page n c = Some (st, c1, stopped) \<Longrightarrow> P c \<Longrightarrow> P c1"
proof (induction n arbitrary: page c st c1 stopped)
  case (Suc n)
  let ?next = "walk_pages m cc visit page_start starts_extent page_size (page + 1) n"
  from Suc.prems(1) consider "?next c = Some (st, c1, stopped)"
    | r where "after_chain r ?next = Some (st, c1, stopped)"
        "(\<exists>page_base index. r = walk_starts m cc visit page_start starts_extent page_base index c) \<or> (\<exists>offset. r = walk_chain m cc visit offset c)"
    by (auto simp: Let_def split: if_splits bind_splits)
  then show ?case
  proof cases
    case 1
    then show ?thesis using Suc.IH Suc.prems(2) by blast
  next
    case 2
    show ?thesis
    proof (rule after_chain_inv [OF 2(1), where P = P])
      fix st c2 stopped
      assume "r = Some (st, c2, stopped)"
      with 2(2) consider page_base index where "walk_starts m cc visit page_start starts_extent page_base index c = Some (st, c2, stopped)"
        | offset where "walk_chain m cc visit offset c = Some (st, c2, stopped)" by auto
      then show "P c2"
      proof cases
        case 1
        then show ?thesis by (rule walk_starts_inv [where P = P, OF _ Suc.prems(2) assms])
      next
        case 2
        then show ?thesis by (rule walk_chain_inv [where P = P, OF _ Suc.prems(2) assms])
      qed
    qed (use Suc.IH in blast)
  qed
qed simp

lemma walk_segment_inv:
  assumes "walk_segment m fixups storage storage_size mapping seg_info_offset segment_index visit c = Some (st, c1, stopped)" "P c"
    "mapped \<or> mapping = None"
    and "\<And>c b c1 go_on. P c \<Longrightarrow> genuine_bind m storage storage_size mapped b \<Longrightarrow> visit c b = Some (c1, go_on) \<Longrightarrow> P c1"
  shows "P c1"
proof -
  from assms(1) consider "c1 = c"
    | cc page_start extent page_size n where "walk_pages m cc visit page_start extent page_size 0 n c = Some (st, c1, stopped)"
        "cc_storage cc = storage" "cc_storage_size cc = storage_size" "mapping = None \<longrightarrow> direct cc"
    by (auto simp: walk_segment_def Let_def direct_def split: if_splits bind_splits)
  then show ?thesis
  proof cases
    case 2
    show ?thesis
      by (rule walk_pages_inv [where P = P and mapped = mapped, OF _ _ 2(1) assms(2)]) (use 2(2-4) assms(3,4) in auto)
  qed (use assms(2) in simp)
qed

lemma walk_segments_inv:
  assumes "mapped \<longleftrightarrow> segments \<noteq> None"
    and step: "\<And>c b c1 go_on. P c \<Longrightarrow> genuine_bind m storage storage_size mapped b \<Longrightarrow> visit c b = Some (c1, go_on) \<Longrightarrow> P c1"
  shows "walk_segments m fixups storage storage_size segments visit i n c = Some (st, c1, stopped) \<Longrightarrow> P c \<Longrightarrow> P c1"
proof (induction n arbitrary: i c st c1 stopped)
  case (Suc n)
  from Suc.prems(1) consider "c1 = c" | "walk_segments m fixups storage storage_size segments visit (i + 1) n c = Some (st, c1, stopped)"
    | off where "after_chain (walk_segment m fixups storage storage_size (map_option (\<lambda>ms. ms ! i) segments) off i visit c)
        (walk_segments m fixups storage storage_size segments visit (i + 1) n) = Some (st, c1, stopped)"
    by (auto split: if_splits bind_splits)
  then show ?case
  proof cases
    case 3
    show ?thesis
    proof (rule after_chain_inv [OF 3, where P = P])
      fix st c2 stopped
      assume "walk_segment m fixups storage storage_size (map_option (\<lambda>ms. ms ! i) segments) off i visit c = Some (st, c2, stopped)"
      from walk_segment_inv [where P = P and mapped = mapped, OF this Suc.prems(2)] show "P c2" using assms by auto
    qed (use Suc.IH in blast)
  qed (use Suc.IH Suc.prems(2) in auto)
qed simp

lemma iterate_binds_inv:
  assumes "iterate_binds m fixups storage storage_size segments visit c = Some (st, c1)" "P c"
    and "\<And>c b c1 go_on. P c \<Longrightarrow> genuine_bind m storage storage_size (segments \<noteq> None) b \<Longrightarrow> visit c b = Some (c1, go_on) \<Longrightarrow> P c1"
  shows "P c1"
proof -
  from assms(1) consider "c1 = c" | n stopped where "walk_segments m fixups storage storage_size segments visit 0 n c = Some (st, c1, stopped)"
    by (auto simp: iterate_binds_def split: if_splits bind_splits)
  then show ?thesis
  proof cases
    case 2
    show ?thesis by (rule walk_segments_inv [where P = P, OF refl assms(3) 2 assms(2)])
  qed (use assms(2) in simp)
qed

section \<open>A chain that is linked\<close>

text \<open>The words of a chain from an offset on, each where the one before it points.\<close>

primrec linked :: "memory \<Rightarrow> chain_ctx \<Rightarrow> u64 \<Rightarrow> u64 list \<Rightarrow> bool" where
  "linked m cc offset [] \<longleftrightarrow> False"
| "linked m cc offset (raw # raws) \<longleftrightarrow>
     \<not> outside_segment cc offset \<and> \<not> outside_storage cc (offset - cc_segment_start cc) \<and>
     rd64 m (cc_storage cc) (storage_place cc offset) = Some raw \<and>
     (let n = cp_next (decode_pointer raw (cc_pointer_format cc)); advanced = offset + of_nat n * of_nat (cc_stride cc)
      in if n = 0 then raws = [] else offset < advanced \<and> linked m cc advanced raws)"

text \<open>Its binds, and a visitor run over a list of binds.\<close>

primrec chain_binds :: "chain_ctx \<Rightarrow> u64 \<Rightarrow> u64 list \<Rightarrow> hk_chained_bind list" where
  "chain_binds cc offset [] = []"
| "chain_binds cc offset (raw # raws) =
     (let p = decode_pointer raw (cc_pointer_format cc)
      in (if cp_is_bind p then [chained_bind_of cc offset p] else []) @
         chain_binds cc (offset + of_nat (cp_next p) * of_nat (cc_stride cc)) raws)"

primrec visit_binds :: "'c bind_visit \<Rightarrow> hk_chained_bind list \<Rightarrow> 'c \<Rightarrow> ('c \<times> bool) option" where
  "visit_binds visit [] c = Some (c, False)"
| "visit_binds visit (b # bs) c = do { (c1, go_on) \<leftarrow> visit c b; (if go_on then visit_binds visit bs c1 else Some (c1, True)) }"

lemma walk_chain_linked:
  "linked m cc offset raws \<Longrightarrow>
    walk_chain m cc visit offset c = map_option (\<lambda>(c1, stopped). (HK_CHAINED_OK, c1, stopped)) (visit_binds visit (chain_binds cc offset raws) c)"
proof (induction raws arbitrary: offset c)
  case (Cons raw raws)
  let ?p = "decode_pointer raw (cc_pointer_format cc)" and ?a = "offset + of_nat (cp_next (decode_pointer raw (cc_pointer_format cc))) * of_nat (cc_stride cc)"
  have o: "\<not> outside_segment cc offset" "\<not> outside_storage cc (offset - cc_segment_start cc)"
    "rd64 m (cc_storage cc) (unat (cc_storage_segment_start cc) + unat (offset - cc_segment_start cc)) = Some raw"
    and rest: "if cp_next ?p = 0 then raws = [] else offset < ?a \<and> linked m cc ?a raws"
    using Cons.prems by (simp_all add: storage_place_def Let_def)
  have step: "walk_chain m cc visit offset c = do {
      (c1, go_on) \<leftarrow> (if cp_is_bind ?p then visit c (chained_bind_of cc offset ?p) else Some (c, True));
      (if \<not> go_on then Some (HK_CHAINED_OK, c1, True)
       else map_option (\<lambda>(c1, stopped). (HK_CHAINED_OK, c1, stopped)) (visit_binds visit (chain_binds cc ?a raws) c1)) }"
  proof (cases "cp_next ?p = 0")
    case True
    then show ?thesis using rest o by (subst walk_chain.simps) (auto simp: Let_def intro!: Option.bind_cong)
  next
    case False
    then have "\<not> ?a \<le> offset" "linked m cc ?a raws" using rest by auto
    then show ?thesis using False o Cons.IH [of ?a] by (subst walk_chain.simps) (auto simp: Let_def intro!: Option.bind_cong)
  qed
  show ?case
  proof (cases "cp_is_bind ?p")
    case True
    then show ?thesis unfolding step
      by (cases "visit c (chained_bind_of cc offset ?p)") (auto simp: Let_def split: prod.splits)
  qed (simp add: step Let_def)
qed simp

section \<open>Properties\<close>

text \<open>C38. The traversal returns for any readable blob and storage, with a status, whatever they hold; and every
  bind it reports is a word of the storage with its bind bit set, decoded by its format, at its offset when
  the storage is the image itself.\<close>

theorem chained_binds_sound:
  assumes "readable m storage storage_size" "readable m (cf_blob fixups) (cf_size fixups)"
  shows "\<exists>status binds. iterate_binds m fixups storage storage_size segments (\<lambda>bs b. Some (bs @ [b], True)) [] = Some (status, binds) \<and>
    (\<forall>b \<in> set binds. genuine_bind m storage storage_size (segments \<noteq> None) b)"
proof -
  have "answers (iterate_binds m fixups storage storage_size segments (\<lambda>bs b. Some (bs @ [b], True)) [])"
    by (rule iterate_binds_ok [OF assms]) (rule answers_Some)
  then obtain status binds where r: "iterate_binds m fixups storage storage_size segments (\<lambda>bs b. Some (bs @ [b], True)) [] = Some (status, binds)"
    by (auto simp: answers_def)
  have "\<forall>b \<in> set binds. genuine_bind m storage storage_size (segments \<noteq> None) b"
    by (rule iterate_binds_inv [OF r, where P = "\<lambda>bs. \<forall>b \<in> set bs. genuine_bind m storage storage_size (segments \<noteq> None) b"]) auto
  with r show ?thesis by blast
qed

text \<open>Along a chain whose words are linked, each where the one before it points and inside the segment and
  the storage, the walk calls the visitor for every bind of the chain, in order, until it stops.\<close>

lemma chained_walk_exact:
  assumes "linked m cc offset raws"
  shows "walk_chain m cc visit offset c =
    map_option (\<lambda>(c1, stopped). (HK_CHAINED_OK, c1, stopped)) (visit_binds visit (chain_binds cc offset raws) c)"
  using assms by (rule walk_chain_linked)

text \<open>Two words, a bind of the import 1 with a \<open>next\<close> of two strides, and a bind of the import 2 that ends the chain.\<close>

definition sample_chain_words :: "u32 list" where
  "sample_chain_words = [1, 0x80100000, 2, 0x80000000]"

definition sample_chain_memory :: memory where
  "sample_chain_memory = mem_of 0x10000 (concat (map (le_bytes 4) sample_chain_words))"

definition sample_chain_ctx :: chain_ctx where
  "sample_chain_ctx = \<lparr>cc_storage = 0x10000, cc_storage_size = 16, cc_storage_segment_start = 0, cc_storage_segment_size = 16,
     cc_pointer_format = HK_CHAINED_PTR_64, cc_stride = 4, cc_segment_start = 0, cc_segment_end = 0x4000, cc_segment_index = 0\<rparr>"

lemma sample_chain_word: "i < 4 \<Longrightarrow> rd32 sample_chain_memory 0x10000 (4 * i) = Some (sample_chain_words ! i)"
  unfolding sample_chain_memory_def by (rule rd32_words) (simp_all add: sample_chain_words_def)

lemma sample_chain_linked: "linked sample_chain_memory sample_chain_ctx 0 [0x8010000000000001, 0x8000000000000002]"
proof -
  have "rd64 sample_chain_memory 0x10000 0 = Some 0x8010000000000001" "rd64 sample_chain_memory 0x10000 8 = Some 0x8000000000000002"
    using sample_chain_word [of 0] sample_chain_word [of 1] sample_chain_word [of 2] sample_chain_word [of 3]
    by (simp_all add: rd64_def sample_chain_words_def)
  then show ?thesis
    by (simp add: sample_chain_ctx_def outside_segment_def outside_storage_def storage_place_def decode_pointer_def format_is_arm64e_def
        HK_CHAINED_PTR_64_def HK_CHAINED_PTR_ARM64E_def HK_CHAINED_PTR_ARM64E_USERLAND_def HK_CHAINED_PTR_ARM64E_USERLAND24_def Let_def)
qed

theorem chained_binds_sound_witness:
  "\<exists>status binds. iterate_binds sample_chain_memory \<lparr>cf_blob = 0x10000, cf_size = 16, cf_starts_offset = 0, cf_imports_offset = 0,
      cf_symbols_offset = 0, cf_imports_count = 0, cf_imports_format = HK_CHAINED_IMPORT, cf_import_entry_size = 4, cf_symbols_size = 16\<rparr>
      0x10000 16 None (\<lambda>bs b. Some (bs @ [b], True)) [] = Some (status, binds)"
proof -
  have r: "readable sample_chain_memory 0x10000 16"
    unfolding sample_chain_memory_def by (rule mem_of_readable) (simp_all add: word_bytes_length sample_chain_words_def)
  let ?fx = "\<lparr>cf_blob = 0x10000, cf_size = 16, cf_starts_offset = 0, cf_imports_offset = 0,
      cf_symbols_offset = 0, cf_imports_count = 0, cf_imports_format = HK_CHAINED_IMPORT, cf_import_entry_size = 4, cf_symbols_size = 16\<rparr>"
  have "readable sample_chain_memory (cf_blob ?fx) (cf_size ?fx)" using r by simp
  from chained_binds_sound [OF r this, of None] show ?thesis by blast
qed

end
