(* ===== verification/HK_ChainedFold.thy ===== *)
theory HK_ChainedFold
  imports HK_ChainedFixups_Props
begin

text \<open>
  The traversal of the chains as a fold: the walk that only collects finds a list of binds and a status, and the
  walk of any visitor is that visitor run over the list, with that status unless the visitor stopped it.
\<close>

section \<open>A visitor played over the binds\<close>

text \<open>A collecting visitor, which never stops.\<close>

definition collect_bind :: "hk_chained_bind list bind_visit" where
  "collect_bind bs b = Some (bs @ [b], True)"

definition played :: "'c bind_visit \<Rightarrow> hk_chained_bind list \<Rightarrow> hk_chained_status \<Rightarrow> 'c \<Rightarrow> 'c chain_reply" where
  "played visit bs st c = map_option (\<lambda>(c1, stopped). (if stopped then HK_CHAINED_OK else st, c1, stopped)) (visit_binds visit bs c)"

lemma played_Nil [simp]: "played visit [] st c = Some (st, c, False)"
  by (simp add: played_def)

lemma played_Cons:
  "played visit (b # bs) st c = do { (c1, go_on) \<leftarrow> visit c b; (if go_on then played visit bs st c1 else Some (HK_CHAINED_OK, c1, True)) }"
  by (cases "visit c b") (auto simp: played_def)

lemma played_append: "played visit (bs @ bs1) st c = after_chain (played visit bs HK_CHAINED_OK c) (played visit bs1 st)"
proof (induction bs arbitrary: c)
  case Nil
  then show ?case by (simp add: after_chain_def)
next
  case (Cons b bs)
  then show ?case by (cases "visit c b") (auto simp: played_Cons after_chain_def)
qed

lemma played_fails: "st \<noteq> HK_CHAINED_OK \<Longrightarrow> after_chain (played visit bs st c) f = played visit bs st c"
  by (cases "visit_binds visit bs c") (auto simp: played_def after_chain_def)

text \<open>\<open>folds run\<close>: the collecting run adds a list of binds to what it had and does not stop, and every run plays it.\<close>

definition folds :: "(hk_chained_bind list bind_visit \<Rightarrow> hk_chained_bind list \<Rightarrow> hk_chained_bind list chain_reply) \<Rightarrow>
    ('c bind_visit \<Rightarrow> 'c \<Rightarrow> 'c chain_reply) \<Rightarrow> bool" where
  "folds collecting run \<longleftrightarrow> (\<forall>bs0 st bs1 stopped. collecting collect_bind bs0 = Some (st, bs1, stopped) \<longrightarrow>
     \<not> stopped \<and> (\<exists>bs. bs1 = bs0 @ bs \<and> (\<forall>visit c. run visit c = played visit bs st c)))"

lemma foldsI:
  assumes "\<And>bs0 st bs1 stopped. collecting collect_bind bs0 = Some (st, bs1, stopped) \<Longrightarrow>
     \<not> stopped \<and> (\<exists>bs. bs1 = bs0 @ bs \<and> (\<forall>visit c. run visit c = played visit bs st c))"
  shows "folds collecting run"
  unfolding folds_def using assms by blast

lemma folds_fixed: "folds (\<lambda>_ bs. Some (st, bs, False)) (\<lambda>_ c. Some (st, c, False))"
  by (auto simp: folds_def)

lemma folds_None: "folds (\<lambda>_ _. None) run"
  by (simp add: folds_def)

lemma folds_bind: "(\<And>v. r = Some v \<Longrightarrow> folds (f v) (g v)) \<Longrightarrow> folds (\<lambda>visit bs. Option.bind r (\<lambda>v. f v visit bs)) (\<lambda>visit c. Option.bind r (\<lambda>v. g v visit c))"
  by (cases r) (simp_all add: folds_None)

lemma folds_if: "(P \<Longrightarrow> folds f g) \<Longrightarrow> (\<not> P \<Longrightarrow> folds f1 g1) \<Longrightarrow> folds (\<lambda>visit bs. if P then f visit bs else f1 visit bs) (\<lambda>visit c. if P then g visit c else g1 visit c)"
  by (cases P) simp_all

lemma folds_then:
  assumes "folds f g" "folds f1 g1"
  shows "folds (\<lambda>visit bs. after_chain (f visit bs) (f1 visit)) (\<lambda>visit c. after_chain (g visit c) (g1 visit))"
proof (rule foldsI)
  fix bs0 st bs2 stopped assume run: "after_chain (f collect_bind bs0) (f1 collect_bind) = Some (st, bs2, stopped)"
  obtain st1 bs1 stopped1 where first: "f collect_bind bs0 = Some (st1, bs1, stopped1)"
    using run by (auto simp: after_chain_def split: option.splits)
  obtain bs where one: "\<not> stopped1" "bs1 = bs0 @ bs" "\<And>visit c. g visit c = played visit bs st1 c"
    using assms(1) first unfolding folds_def by blast
  show "\<not> stopped \<and> (\<exists>bs. bs2 = bs0 @ bs \<and> (\<forall>visit c. after_chain (g visit c) (g1 visit) = played visit bs st c))"
  proof (cases "st1 = HK_CHAINED_OK")
    case False
    then show ?thesis using run first one played_fails [OF False] by (auto simp: after_chain_def [of "Some _"])
  next
    case True
    then have "f1 collect_bind bs1 = Some (st, bs2, stopped)" using run first one(1) by (simp add: after_chain_def)
    then obtain cs where two: "\<not> stopped" "bs2 = bs1 @ cs" "\<And>visit c. g1 visit c = played visit cs st c"
      using assms(2) unfolding folds_def by blast
    have "after_chain (g visit c) (g1 visit) = played visit (bs @ cs) st c" for visit c
    proof -
      have "g1 visit = played visit cs st" by (rule ext) (rule two(3))
      then show ?thesis by (simp add: one(3) True played_append)
    qed
    then show ?thesis using two(1,2) one(2) by auto
  qed
qed

section \<open>The traversal\<close>

lemma walk_chain_outside:
  "outside_segment cc offset \<or> outside_storage cc (offset - cc_segment_start cc) \<Longrightarrow>
   walk_chain m cc visit offset c = Some (HK_CHAINED_MALFORMED, c, False)"
  by (subst walk_chain.simps) auto

lemma walk_chain_step:
  assumes "\<not> (outside_segment cc offset \<or> outside_storage cc (offset - cc_segment_start cc))"
  shows "walk_chain m cc visit offset c = do {
     raw \<leftarrow> rd64 m (cc_storage cc) (unat (cc_storage_segment_start cc) + unat (offset - cc_segment_start cc));
     (let p = decode_pointer raw (cc_pointer_format cc)
      in do {
        (c1, go_on) \<leftarrow> (if cp_is_bind p then visit c (chained_bind_of cc offset p) else Some (c, True));
        (if \<not> go_on then Some (HK_CHAINED_OK, c1, True)
         else if cp_next p = 0 then Some (HK_CHAINED_OK, c1, False)
         else let advanced = offset + of_nat (cp_next p) * of_nat (cc_stride cc)
           in if advanced \<le> offset then Some (HK_CHAINED_MALFORMED, c1, False)
              else walk_chain m cc visit advanced c1)
      }) }"
  using assms by (subst walk_chain.simps) (simp only: de_Morgan_disj if_False simp_thms)

lemma walk_chain_folds:
  "folds (\<lambda>visit. walk_chain m cc visit offset) (\<lambda>visit :: 'c bind_visit. walk_chain m cc visit offset)"
proof (induction "unat (cc_segment_end cc) - unat offset" arbitrary: offset rule: less_induct)
  case less
  show ?case
  proof (cases "outside_segment cc offset \<or> outside_storage cc (offset - cc_segment_start cc)")
    case True
    show ?thesis
    proof (rule foldsI)
      fix bs0 st bs1 stopped assume "walk_chain m cc collect_bind offset bs0 = Some (st, bs1, stopped)"
      then have "st = HK_CHAINED_MALFORMED" "bs1 = bs0" "\<not> stopped"
        using walk_chain_outside [OF True, of m collect_bind bs0] by simp_all
      then show "\<not> stopped \<and> (\<exists>bs. bs1 = bs0 @ bs \<and> (\<forall>(visit :: 'c bind_visit) c. walk_chain m cc visit offset c = played visit bs st c))"
        by (intro conjI exI [of _ "[]"]) (simp_all add: walk_chain_outside [OF True])
    qed
  next
    case False
    show ?thesis
    proof (rule foldsI)
      fix bs0 st bs1 stopped assume run: "walk_chain m cc collect_bind offset bs0 = Some (st, bs1, stopped)"
      then obtain raw where raw: "rd64 m (cc_storage cc) (unat (cc_storage_segment_start cc) + unat (offset - cc_segment_start cc)) = Some raw"
        unfolding walk_chain_step [OF False] by (auto split: bind_splits)
      define p where "p = decode_pointer raw (cc_pointer_format cc)"
      define own where "own = (if cp_is_bind p then [chained_bind_of cc offset p] else [])"
      define advanced where "advanced = offset + of_nat (cp_next p) * of_nat (cc_stride cc)"
      define rest where "rest = (\<lambda>visit (c :: 'c). if cp_next p = 0 then Some (HK_CHAINED_OK, c, False)
        else if advanced \<le> offset then Some (HK_CHAINED_MALFORMED, c, False) else walk_chain m cc visit advanced c)"
      define rest0 where "rest0 = (\<lambda>visit (c :: hk_chained_bind list). if cp_next p = 0 then Some (HK_CHAINED_OK, c, False)
        else if advanced \<le> offset then Some (HK_CHAINED_MALFORMED, c, False) else walk_chain m cc visit advanced c)"
      have step: "walk_chain m cc visit offset c = after_chain (played visit own HK_CHAINED_OK c) (rest visit)" for visit c
        using walk_chain_step [OF False, of m visit c] raw
        by (cases "visit c (chained_bind_of cc offset p)")
          (auto simp: Let_def p_def [symmetric] own_def rest_def advanced_def played_Cons after_chain_def)
      have step0: "walk_chain m cc collect_bind offset bs0 = rest0 collect_bind (bs0 @ own)"
        using walk_chain_step [OF False, of m collect_bind bs0] raw
        by (auto simp: Let_def p_def [symmetric] own_def rest0_def advanced_def collect_bind_def)
      have fold: "folds rest0 rest"
      proof -
        have inside: "unat offset < unat (cc_segment_end cc)"
        proof -
          have "offset \<noteq> cc_segment_end cc" using False by (auto simp: outside_segment_def)
          then show ?thesis
            using False by (auto simp: outside_segment_def word_less_nat_alt not_less word_le_nat_alt word_unat_eq_iff)
        qed
        show ?thesis
          unfolding rest_def rest0_def
          by (intro folds_if folds_fixed less) (use inside in \<open>simp add: word_le_nat_alt\<close>)
      qed
      then obtain cs where "\<not> stopped" "bs1 = (bs0 @ own) @ cs" "\<And>visit c. rest visit c = played visit cs st c"
        using run [unfolded step0] unfolding folds_def by blast
      moreover have "walk_chain m cc visit offset c = played visit (own @ cs) st c" for visit :: "'c bind_visit" and c
      proof -
        have "rest visit = played visit cs st" by (rule ext) (rule calculation(3))
        then show ?thesis by (simp add: step played_append)
      qed
      ultimately show "\<not> stopped \<and> (\<exists>bs. bs1 = bs0 @ bs \<and> (\<forall>(visit :: 'c bind_visit) c. walk_chain m cc visit offset c = played visit bs st c))"
        by auto
    qed
  qed
qed

lemma walk_starts_folds:
  "folds (\<lambda>visit. walk_starts m cc visit page_start starts_extent page_base index) (\<lambda>visit. walk_starts m cc visit page_start starts_extent page_base index)"
proof (induction "starts_extent - index * 2" arbitrary: index rule: less_induct)
  case less
  show ?case
    unfolding walk_starts.simps [of m cc _ page_start starts_extent page_base index] Let_def
    by (intro folds_if folds_fixed folds_bind folds_then walk_chain_folds less) simp
qed

lemma walk_pages_folds:
  "folds (\<lambda>visit. walk_pages m cc visit page_start starts_extent page_size page n) (\<lambda>visit. walk_pages m cc visit page_start starts_extent page_size page n)"
proof (induction n arbitrary: page)
  case 0
  then show ?case using folds_fixed by (simp add: folds_def)
next
  case (Suc n)
  show ?case
    unfolding walk_pages.simps Let_def
    by (intro folds_if folds_bind folds_then walk_starts_folds walk_chain_folds Suc)
qed

lemma walk_segment_folds:
  "folds (\<lambda>visit. walk_segment m fixups storage storage_size mapping seg_info_offset segment_index visit)
     (\<lambda>visit. walk_segment m fixups storage storage_size mapping seg_info_offset segment_index visit)"
  unfolding walk_segment_def Let_def
  by (intro folds_if folds_bind folds_fixed walk_pages_folds)

lemma walk_segments_folds:
  "folds (\<lambda>visit. walk_segments m fixups storage storage_size segments visit i n)
     (\<lambda>visit. walk_segments m fixups storage storage_size segments visit i n)"
proof (induction n arbitrary: i)
  case 0
  then show ?case using folds_fixed by (simp add: folds_def)
next
  case (Suc n)
  show ?case
    unfolding walk_segments.simps Let_def
    by (intro folds_if folds_bind folds_fixed folds_then walk_segment_folds Suc)
qed

text \<open>A traversal that is refused before it starts, and one that walks the segments.\<close>

definition binds_refused :: "memory \<Rightarrow> hk_chained_fixups \<Rightarrow> ptr \<Rightarrow> hk_chained_segment_mapping list option \<Rightarrow> (hk_chained_status + nat) option" where
  "binds_refused m fixups storage segments =
     (if cf_blob fixups = 0 \<or> storage = 0 \<or> segments = Some [] then Some (Inl HK_CHAINED_INVALID_ARGUMENT)
      else if cf_starts_offset fixups > cf_size fixups \<or> cf_size fixups - cf_starts_offset fixups < 4 then Some (Inl HK_CHAINED_MALFORMED)
      else map_option (\<lambda>w. if unat w * 4 > cf_size fixups - cf_starts_offset fixups - 4 then Inl HK_CHAINED_MALFORMED else Inr (unat w))
        (rd32 m (cf_blob fixups) (cf_starts_offset fixups)))"

lemma iterate_binds_refused:
  "iterate_binds m fixups storage storage_size segments visit c =
     (case binds_refused m fixups storage segments of
        None \<Rightarrow> None
      | Some (Inl st) \<Rightarrow> Some (st, c)
      | Some (Inr n) \<Rightarrow> map_option (\<lambda>(status, c1, _). (status, c1)) (walk_segments m fixups storage storage_size segments visit 0 n c))"
  by (cases "rd32 m (cf_blob fixups) (cf_starts_offset fixups)") (simp_all add: iterate_binds_def binds_refused_def)

lemma binds_fold:
  assumes "iterate_binds m fixups storage storage_size segments collect_bind [] = Some (st, bs)"
  shows "iterate_binds m fixups storage storage_size segments visit c =
    map_option (\<lambda>(c1, stopped). (if stopped then HK_CHAINED_OK else st, c1)) (visit_binds visit bs c)"
proof -
  consider "binds_refused m fixups storage segments = Some (Inl st)" "bs = []"
    | n stopped where "binds_refused m fixups storage segments = Some (Inr n)"
      "walk_segments m fixups storage storage_size segments collect_bind 0 n [] = Some (st, bs, stopped)"
    using assms by (auto simp: iterate_binds_refused split: option.splits sum.splits)
  then show ?thesis
  proof cases
    case 1
    then show ?thesis by (simp add: iterate_binds_refused)
  next
    case 2
    have "walk_segments m fixups storage storage_size segments visit 0 n c = played visit bs st c"
      using walk_segments_folds [of m fixups storage storage_size segments 0 n] 2(2) unfolding folds_def by fastforce
    then show ?thesis
      by (cases "visit_binds visit bs c") (auto simp: iterate_binds_refused 2(1) played_def)
  qed
qed

text \<open>C37. The traversal of the chains is a fold over the binds: if the traversal that only collects finds the binds
  \<open>bs\<close> and ends with a status, then the traversal of any visitor is that visitor called for the binds in this order
  until it stops, and ends with that status, or successfully when the visitor stopped it.
\<close>

theorem chained_traversal_folds:
  assumes "iterate_binds m fixups storage storage_size segments collect_bind [] = Some (st, bs)"
  shows "iterate_binds m fixups storage storage_size segments visit c =
    map_option (\<lambda>(c1, stopped). (if stopped then HK_CHAINED_OK else st, c1)) (visit_binds visit bs c)"
  using assms by (rule binds_fold)

text \<open>One segment of one page, with two binds.\<close>

definition sample_fold_bytes :: "byte list" where
  "sample_fold_bytes = [1, 0, 0, 0, 8, 0, 0, 0, 24, 0, 0, 0, 0, 0x10, 6, 0, 0, 0, 0, 0, 0, 0, 0, 0, 0, 0, 0, 0, 1, 0, 0, 0,
     1, 0, 0, 0, 0, 0, 0x10, 0x80, 2, 0, 0, 0, 0, 0, 0, 0x80]"

definition sample_fold_fixups :: hk_chained_fixups where
  "sample_fold_fixups = \<lparr>cf_blob = 0x10000, cf_size = 32, cf_starts_offset = 0, cf_imports_offset = 32, cf_symbols_offset = 32,
     cf_imports_count = 0, cf_imports_format = 1, cf_import_entry_size = 4, cf_symbols_size = 0\<rparr>"

definition sample_fold_bind :: "u64 \<Rightarrow> nat \<Rightarrow> hk_chained_bind" where
  "sample_fold_bind offset ordinal = \<lparr>cb_slot_image_offset = offset, cb_import_ordinal = ordinal, cb_segment_index = 0,
     cb_pointer_format = 6, cb_is_auth = False, cb_key = 0, cb_diversity = 0, cb_address_diversity = False, cb_addend = 0\<rparr>"

lemma sample_fold_reads:
  "rd32 (mem_of 0x10000 sample_fold_bytes) 0x10000 0 = Some 1" "rd32 (mem_of 0x10000 sample_fold_bytes) 0x10000 4 = Some 8"
  "rd32 (mem_of 0x10000 sample_fold_bytes) 0x10000 8 = Some 24" "rd16 (mem_of 0x10000 sample_fold_bytes) 0x10000 12 = Some 0x1000"
  "rd16 (mem_of 0x10000 sample_fold_bytes) 0x10000 14 = Some 6" "rd64 (mem_of 0x10000 sample_fold_bytes) 0x10000 16 = Some 0"
  "rd16 (mem_of 0x10000 sample_fold_bytes) 0x10000 28 = Some 1" "rd16 (mem_of 0x10000 sample_fold_bytes) 0x1001E 0 = Some 0"
  "rd64 (mem_of 0x10000 sample_fold_bytes) 0x10020 0 = Some 0x8010000000000001"
  "rd64 (mem_of 0x10000 sample_fold_bytes) 0x10020 8 = Some 0x8000000000000002"
  by (simp_all add: rd64_def rd32_def rd16_def rd8_def mem_of_def sample_fold_bytes_def)

lemmas sample_formats = HK_CHAINED_PTR_64_OFFSET_def HK_CHAINED_PTR_64_def HK_CHAINED_PTR_ARM64E_def
  HK_CHAINED_PTR_ARM64E_USERLAND_def HK_CHAINED_PTR_ARM64E_USERLAND24_def HK_CHAINED_PTR_START_NONE_def
  HK_CHAINED_PTR_START_MULTI_def HK_CHAINED_STARTS_IN_SEGMENT_HEADER_def format_stride_def format_is_arm64e_def

definition sample_fold_ctx :: chain_ctx where
  "sample_fold_ctx = \<lparr>cc_storage = 0x10020, cc_storage_size = 16, cc_storage_segment_start = 0, cc_storage_segment_size = 16,
     cc_pointer_format = 6, cc_stride = 4, cc_segment_start = 0, cc_segment_end = 0x1000, cc_segment_index = 0\<rparr>"

lemma sample_fold_chain:
  "walk_chain (mem_of 0x10000 sample_fold_bytes) sample_fold_ctx collect_bind 0 [] = Some (HK_CHAINED_OK, [sample_fold_bind 0 1, sample_fold_bind 8 2], False)"
proof -
  have "walk_chain (mem_of 0x10000 sample_fold_bytes) sample_fold_ctx collect_bind 8 [sample_fold_bind 0 1] =
      Some (HK_CHAINED_OK, [sample_fold_bind 0 1, sample_fold_bind 8 2], False)"
    by (subst walk_chain_step)
      (simp_all add: sample_fold_ctx_def outside_segment_def outside_storage_def sample_fold_reads decode_pointer_def sample_formats
        chained_bind_of_def sample_fold_bind_def collect_bind_def Let_def)
  then show ?thesis
    by (subst walk_chain_step)
      (simp_all add: sample_fold_ctx_def outside_segment_def outside_storage_def sample_fold_reads decode_pointer_def sample_formats
        chained_bind_of_def sample_fold_bind_def collect_bind_def Let_def)
qed

lemma sample_fold_collected:
  "iterate_binds (mem_of 0x10000 sample_fold_bytes) sample_fold_fixups 0x10020 16 None collect_bind [] =
     Some (HK_CHAINED_OK, [sample_fold_bind 0 1, sample_fold_bind 8 2])"
  using sample_fold_chain
  by (simp add: iterate_binds_def sample_fold_fixups_def sample_fold_reads walk_segment_def sample_formats Let_def sample_fold_ctx_def after_chain_def)

lemma chained_traversal_folds_witness:
  "iterate_binds (mem_of 0x10000 sample_fold_bytes) sample_fold_fixups 0x10020 16 None (\<lambda>ns b. Some (ns @ [cb_import_ordinal b], cb_import_ordinal b \<noteq> 1)) [] =
     Some (HK_CHAINED_OK, [1])"
  unfolding chained_traversal_folds [OF sample_fold_collected] by (simp add: sample_fold_bind_def)

end
