(* ===== verification/HK_PointerAuth.thy ===== *)
theory HK_PointerAuth
  imports HK_Types
begin

text \<open>
  Signed pointers (\<open>src/internal/HKPointerAuth.h\<close>). The header has three primitives, the blending of an address
  into a discriminator, stripping and signing with a key, and builds everything else from them; which
  primitives a build has is chosen when it is compiled. Here they are a record, with the two variants
  the header itself defines: a build without pointer authentication and the tagging of the host tests.
  The third variant calls the compiler's intrinsics. The locale states what the engines rely on.
\<close>

section \<open>The primitives\<close>

datatype hk_pac_key = HK_PAC_KEY_IA | HK_PAC_KEY_IB | HK_PAC_KEY_DA | HK_PAC_KEY_DB

fun pac_key_num :: "hk_pac_key \<Rightarrow> nat" where
  "pac_key_num HK_PAC_KEY_IA = 0"
| "pac_key_num HK_PAC_KEY_IB = 1"
| "pac_key_num HK_PAC_KEY_DA = 2"
| "pac_key_num HK_PAC_KEY_DB = 3"

text \<open>The cast of a two-bit field to the enumeration.\<close>

definition pac_key_of :: "nat \<Rightarrow> hk_pac_key" where
  "pac_key_of n = (if n = 0 then HK_PAC_KEY_IA else if n = 1 then HK_PAC_KEY_IB else if n = 2 then HK_PAC_KEY_DA else HK_PAC_KEY_DB)"

lemma pac_key_of_num: "pac_key_of (pac_key_num k) = k"
  by (cases k) (simp_all add: pac_key_of_def)

record hk_pac_schema =
  ps_authenticated :: bool
  ps_key :: hk_pac_key
  ps_diversity :: u16
  ps_address_diversity :: bool

definition zero_schema :: hk_pac_schema where
  "zero_schema = \<lparr>ps_authenticated = False, ps_key = HK_PAC_KEY_IA, ps_diversity = 0, ps_address_diversity = False\<rparr>"

record hk_pac =
  pac_blend :: "u64 \<Rightarrow> u64 \<Rightarrow> u64"
  pac_strip_key :: "u64 \<Rightarrow> hk_pac_key \<Rightarrow> u64"
  pac_sign_key :: "u64 \<Rightarrow> hk_pac_key \<Rightarrow> u64 \<Rightarrow> u64"

text \<open>The host tests.\<close>

definition HK_PAC_TEST_ADDRESS_MASK :: u64 where "HK_PAC_TEST_ADDRESS_MASK = 0x0000FFFFFFFFFFFF"

definition hk_pac_test_strip :: "u64 \<Rightarrow> u64" where
  "hk_pac_test_strip v = v AND HK_PAC_TEST_ADDRESS_MASK"

definition hk_pac_test_sign :: "u64 \<Rightarrow> hk_pac_key \<Rightarrow> u64 \<Rightarrow> u64" where
  "hk_pac_test_sign v key discriminator =
     (let raw = hk_pac_test_strip v;
          hash = raw XOR (discriminator * 0x9E3779B185EBCA87) XOR (of_nat (pac_key_num key) * 0xD6E8FEB86659FD93);
          tag = (drop_bit 17 hash XOR drop_bit 41 hash XOR hash) AND 0xFFFF;
          tag1 = (if tag = 0 then 1 else tag)
      in raw OR push_bit 48 tag1)"

definition hk_pac_test_blend :: "u64 \<Rightarrow> u64 \<Rightarrow> u64" where
  "hk_pac_test_blend address diversity = address XOR push_bit 32 diversity XOR diversity"

definition tagged_pac :: hk_pac where
  "tagged_pac = \<lparr>pac_blend = hk_pac_test_blend, pac_strip_key = (\<lambda>v _. hk_pac_test_strip v), pac_sign_key = hk_pac_test_sign\<rparr>"

text \<open>Without pointer authentication.\<close>

definition plain_pac :: hk_pac where
  "plain_pac = \<lparr>pac_blend = (\<lambda>_ diversity. diversity), pac_strip_key = (\<lambda>v _. v), pac_sign_key = (\<lambda>v _ _. v)\<rparr>"

section \<open>Pointers and slots\<close>

definition hk_pac_strip_code :: "hk_pac \<Rightarrow> u64 \<Rightarrow> u64" where
  "hk_pac_strip_code pac v = pac_strip_key pac v HK_PAC_KEY_IA"

definition hk_pac_make_callable :: "hk_pac \<Rightarrow> u64 \<Rightarrow> u64" where
  "hk_pac_make_callable pac v = (if v = 0 then 0 else pac_sign_key pac (hk_pac_strip_code pac v) HK_PAC_KEY_IA 0)"

definition hk_pac_slot_discriminator :: "hk_pac \<Rightarrow> hk_pac_schema \<Rightarrow> u64 \<Rightarrow> u64" where
  "hk_pac_slot_discriminator pac schema slot_address =
     (if ps_address_diversity schema then pac_blend pac slot_address (ucast (ps_diversity schema)) else ucast (ps_diversity schema))"

definition hk_pac_strip_slot :: "hk_pac \<Rightarrow> u64 \<Rightarrow> hk_pac_schema \<Rightarrow> u64" where
  "hk_pac_strip_slot pac v schema = (if ps_authenticated schema then pac_strip_key pac v (ps_key schema) else v)"

definition hk_pac_sign_slot :: "hk_pac \<Rightarrow> u64 \<Rightarrow> hk_pac_schema \<Rightarrow> u64 \<Rightarrow> u64" where
  "hk_pac_sign_slot pac v schema slot_address =
     (let stripped = hk_pac_strip_code pac v
      in if ps_authenticated schema then pac_sign_key pac stripped (ps_key schema) (hk_pac_slot_discriminator pac schema slot_address)
         else stripped)"

definition hk_pac_slot_matches :: "hk_pac \<Rightarrow> u64 \<Rightarrow> hk_pac_schema \<Rightarrow> u64 \<Rightarrow> bool" where
  "hk_pac_slot_matches pac v schema slot_address \<longleftrightarrow>
     \<not> ps_authenticated schema \<or> hk_pac_sign_slot pac (hk_pac_strip_slot pac v schema) schema slot_address = v"

section \<open>What the engines rely on\<close>

text \<open>An address is a pointer without a signature, which stripping leaves alone; whatever key signed it,
  stripping with that key gives it back.\<close>

locale pointer_auth =
  fixes pac :: hk_pac and unsigned_address :: "u64 \<Rightarrow> bool"
  assumes strip_address: "unsigned_address v \<Longrightarrow> pac_strip_key pac v k = v"
    and strip_gives_address: "unsigned_address (pac_strip_key pac v k)"
    and strip_signed: "unsigned_address v \<Longrightarrow> pac_strip_key pac (pac_sign_key pac v k d) k = v"
begin

lemma strip_code_signed: "unsigned_address v \<Longrightarrow> hk_pac_strip_code pac (pac_sign_key pac v HK_PAC_KEY_IA d) = v"
  by (simp add: hk_pac_strip_code_def strip_signed)

text \<open>A slot that was signed for its schema matches the schema, and stripping it gives the address signed.\<close>

lemma sign_slot_strip: "unsigned_address v \<Longrightarrow> hk_pac_strip_slot pac (hk_pac_sign_slot pac v schema a) schema = v"
  by (simp add: hk_pac_strip_slot_def hk_pac_sign_slot_def Let_def hk_pac_strip_code_def strip_signed strip_address)

lemma sign_slot_matches: "unsigned_address v \<Longrightarrow> hk_pac_slot_matches pac (hk_pac_sign_slot pac v schema a) schema a"
  by (simp add: hk_pac_slot_matches_def sign_slot_strip)

lemma callable_callable: "hk_pac_make_callable pac (hk_pac_make_callable pac v) = hk_pac_make_callable pac v"
  if "pac_sign_key pac (hk_pac_strip_code pac v) HK_PAC_KEY_IA 0 \<noteq> 0"
  using that strip_code_signed [OF strip_gives_address, of v HK_PAC_KEY_IA 0]
  by (simp add: hk_pac_make_callable_def hk_pac_strip_code_def)

end

section \<open>Both variants\<close>

lemma low_bits: "(v AND mask n OR push_bit n t) AND mask n = v AND mask n" for v t :: u64
  by (rule bit_word_eqI) (auto simp: bit_simps)

lemma test_strip_sign: "hk_pac_test_strip (hk_pac_test_sign v k d) = hk_pac_test_strip v"
proof -
  have m: "HK_PAC_TEST_ADDRESS_MASK = mask 48"
    by (simp add: HK_PAC_TEST_ADDRESS_MASK_def mask_eq_exp_minus_1)
  show ?thesis
    unfolding hk_pac_test_sign_def hk_pac_test_strip_def Let_def m by (rule low_bits)
qed

definition tagged_address :: "u64 \<Rightarrow> bool" where
  "tagged_address v \<longleftrightarrow> hk_pac_test_strip v = v"

lemma test_strip_strip: "hk_pac_test_strip (hk_pac_test_strip v) = hk_pac_test_strip v"
  by (simp only: hk_pac_test_strip_def and.assoc and.idem)

interpretation tagged: pointer_auth tagged_pac tagged_address
  by unfold_locales (simp_all only: tagged_pac_def hk_pac.simps tagged_address_def test_strip_sign test_strip_strip)

interpretation plain: pointer_auth plain_pac "\<lambda>v. True"
  by unfold_locales (simp_all only: plain_pac_def hk_pac.simps)

end
