(* ===== verification/HK_CachePatches.thy ===== *)
theory HK_CachePatches
  imports HK_ImportSlots HK_PointerAuth HK_System "HOL-Library.List_Lexorder" "HOL-Library.Product_Lexorder"
begin

text \<open>
  The patch table of the dyld shared cache (\<open>src/resolvers/HKDyldCachePatches.c\<close>): for every symbol a cached
  image exports, the slots of the other images that hold its address. The table is read directly, or
  through a sorted index of all exports, or from the matches of an earlier traversal. A read outside
  memory is \<open>None\<close>; a declared count or size is a natural number, an offset that the code keeps in a
  machine word stays one. Allocations succeed by the next entry of a list of outcomes.
\<close>

section \<open>Views and arrays\<close>

datatype hk_cache_patch_status =
    HK_CACHE_PATCH_OK | HK_CACHE_PATCH_NOT_CACHE | HK_CACHE_PATCH_NO_METADATA | HK_CACHE_PATCH_NOT_FOUND
  | HK_CACHE_PATCH_INVALID_ARGUMENT | HK_CACHE_PATCH_MALFORMED | HK_CACHE_PATCH_UNSUPPORTED
  | HK_CACHE_PATCH_SCOPE_UNREPRESENTABLE

record hk_cache_patch_target =
  ct_cache_base :: ptr
  ct_cache_size :: nat
  ct_image_header :: ptr
  ct_image_header_size :: nat
  ct_image_slide :: u64
  ct_image_path :: "byte list option"
  ct_uuid_present :: bool
  ct_uuid :: "byte list"
  ct_include_shared_got :: bool
  ct_immutable_metadata :: bool

record hk_cache_patch_site =
  kp_address :: u64
  kp_schema :: hk_pac_schema
  kp_addend :: int
  kp_weak_import :: bool
  kp_shared_got :: bool

definition DCH_MAPPING_OFFSET :: nat where "DCH_MAPPING_OFFSET = 16"
definition DCH_MAPPING_COUNT :: nat where "DCH_MAPPING_COUNT = 20"
definition DCH_IMAGES_OFFSET_OLD :: nat where "DCH_IMAGES_OFFSET_OLD = 24"
definition DCH_IMAGES_COUNT_OLD :: nat where "DCH_IMAGES_COUNT_OLD = 28"
definition DCH_PATCH_INFO_ADDR :: nat where "DCH_PATCH_INFO_ADDR = 152"
definition DCH_PATCH_INFO_SIZE :: nat where "DCH_PATCH_INFO_SIZE = 160"
definition DCH_FORMAT_FLAGS :: nat where "DCH_FORMAT_FLAGS = 220"
definition DCH_SWIFT_OPTS_SIZE :: nat where "DCH_SWIFT_OPTS_SIZE = 384"
definition DCH_IMAGES_OFFSET :: nat where "DCH_IMAGES_OFFSET = 448"
definition DCH_IMAGES_COUNT :: nat where "DCH_IMAGES_COUNT = 452"
definition DCH_IMAGE_INFO_SIZE :: nat where "DCH_IMAGE_INFO_SIZE = 32"
definition DCH_MAPPING_INFO_SIZE :: nat where "DCH_MAPPING_INFO_SIZE = 32"
definition DCH_TEXT_INFO_SIZE :: nat where "DCH_TEXT_INFO_SIZE = 32"
definition DCH_IMAGES_TEXT_OFFSET :: nat where "DCH_IMAGES_TEXT_OFFSET = 136"
definition DCH_IMAGES_TEXT_COUNT :: nat where "DCH_IMAGES_TEXT_COUNT = 144"

definition CACHE_IMAGE_PATCH_V1_SIZE :: nat where "CACHE_IMAGE_PATCH_V1_SIZE = 8"
definition CACHE_EXPORT_V1_SIZE :: nat where "CACHE_EXPORT_V1_SIZE = 16"
definition CACHE_LOCATION_V1_SIZE :: nat where "CACHE_LOCATION_V1_SIZE = 16"
definition CACHE_IMAGE_PATCH_V2_SIZE :: nat where "CACHE_IMAGE_PATCH_V2_SIZE = 16"
definition CACHE_IMAGE_EXPORT_V2_SIZE :: nat where "CACHE_IMAGE_EXPORT_V2_SIZE = 8"
definition CACHE_CLIENT_V2_SIZE :: nat where "CACHE_CLIENT_V2_SIZE = 12"
definition CACHE_CLIENT_EXPORT_V2_SIZE :: nat where "CACHE_CLIENT_EXPORT_V2_SIZE = 12"
definition CACHE_LOCATION_V2_SIZE :: nat where "CACHE_LOCATION_V2_SIZE = 8"
definition CACHE_GOT_CLIENT_V3_SIZE :: nat where "CACHE_GOT_CLIENT_V3_SIZE = 8"
definition CACHE_GOT_EXPORT_V3_SIZE :: nat where "CACHE_GOT_EXPORT_V3_SIZE = 12"
definition CACHE_GOT_LOCATION_V3_SIZE :: nat where "CACHE_GOT_LOCATION_V3_SIZE = 16"
definition CACHE_GOT_LOCATION_V4_SIZE :: nat where "CACHE_GOT_LOCATION_V4_SIZE = 16"

lemmas cache_sizes = CACHE_IMAGE_PATCH_V1_SIZE_def CACHE_EXPORT_V1_SIZE_def CACHE_LOCATION_V1_SIZE_def
  CACHE_IMAGE_PATCH_V2_SIZE_def CACHE_IMAGE_EXPORT_V2_SIZE_def CACHE_CLIENT_V2_SIZE_def CACHE_CLIENT_EXPORT_V2_SIZE_def
  CACHE_LOCATION_V2_SIZE_def CACHE_GOT_CLIENT_V3_SIZE_def CACHE_GOT_EXPORT_V3_SIZE_def CACHE_GOT_LOCATION_V3_SIZE_def
  CACHE_GOT_LOCATION_V4_SIZE_def

lemmas dch_offsets = DCH_MAPPING_OFFSET_def DCH_MAPPING_COUNT_def DCH_IMAGES_OFFSET_OLD_def DCH_IMAGES_COUNT_OLD_def
  DCH_PATCH_INFO_ADDR_def DCH_PATCH_INFO_SIZE_def DCH_FORMAT_FLAGS_def DCH_SWIFT_OPTS_SIZE_def DCH_IMAGES_OFFSET_def
  DCH_IMAGES_COUNT_def DCH_IMAGE_INFO_SIZE_def DCH_MAPPING_INFO_SIZE_def DCH_TEXT_INFO_SIZE_def DCH_IMAGES_TEXT_OFFSET_def
  DCH_IMAGES_TEXT_COUNT_def

definition range_at :: "ptr \<Rightarrow> nat \<Rightarrow> nat \<Rightarrow> nat \<Rightarrow> nat \<Rightarrow> ptr option" where
  "range_at base sz offset n stride =
     (if offset > sz \<or> n > (2 ^ 64 - 1) div (if stride = 0 then 1 else stride) then None
      else if n * stride > sz - offset then None
      else Some (base + of_nat offset))"

record cache_view =
  cv_base :: ptr
  cv_size :: nat
  cv_unslid_base :: u64
  cv_patch :: ptr
  cv_patch_size :: nat

text \<open>An array of the table, whose address is unslid: inside the cache and inside the table.\<close>

definition patch_array :: "cache_view \<Rightarrow> u64 \<Rightarrow> nat \<Rightarrow> nat \<Rightarrow> ptr option" where
  "patch_array view address n stride =
     (if address < cv_unslid_base view \<or> unat (address - cv_unslid_base view) > cv_size view then None
      else case range_at (cv_base view) (cv_size view) (unat (address - cv_unslid_base view)) n stride of
        None \<Rightarrow> None
      | Some start \<Rightarrow>
          if start \<ge> cv_patch view \<and> unat (start - cv_patch view) \<le> cv_patch_size view \<and>
             n * stride \<le> cv_patch_size view - unat (start - cv_patch view)
          then Some start else None)"

definition cache_string :: "memory \<Rightarrow> ptr \<Rightarrow> nat \<Rightarrow> nat \<Rightarrow> byte list option option" where
  "cache_string m pool sz offset =
     (if offset \<ge> sz then Some None else terminated_string m pool offset (sz - offset))"

definition schema_v1_v3 :: "u32 \<Rightarrow> hk_pac_schema" where
  "schema_v1_v3 bits =
     \<lparr>ps_authenticated = drop_bit 12 bits AND 1 \<noteq> 0, ps_key = pac_key_of (unat (drop_bit 14 bits AND 3)),
      ps_diversity = ucast (drop_bit 16 bits), ps_address_diversity = drop_bit 13 bits AND 1 \<noteq> 0\<rparr>"

definition addend_v1_v3 :: "u32 \<Rightarrow> int" where
  "addend_v1_v3 bits = uint (drop_bit 7 bits AND 0x1F)"

definition schema_v4 :: "u32 \<Rightarrow> hk_pac_schema" where
  "schema_v4 bits =
     (if bits AND 1 = 0 then zero_schema
      else \<lparr>ps_authenticated = True, ps_key = (if drop_bit 15 bits AND 1 \<noteq> 0 then HK_PAC_KEY_DA else HK_PAC_KEY_IA),
            ps_diversity = ucast (drop_bit 16 bits), ps_address_diversity = drop_bit 14 bits AND 1 \<noteq> 0\<rparr>)"

definition addend_v4 :: "u32 \<Rightarrow> int" where
  "addend_v4 bits = (if bits AND 1 \<noteq> 0 then uint (drop_bit 9 bits AND 0x1F) else uint (drop_bit 9 bits))"

definition weak_v4 :: "u32 \<Rightarrow> bool" where
  "weak_v4 bits \<longleftrightarrow> drop_bit 8 bits AND 1 \<noteq> 0"

section \<open>The importer's segments\<close>

definition writable_segment_contains :: "u64 \<Rightarrow> u64 \<Rightarrow> bool \<Rightarrow> nat \<Rightarrow> hk_macho_segment \<Rightarrow> bool \<times> bool" where
  "writable_segment_contains address slide found index seg =
     (if sg_initprot seg AND 2 = 0 \<or> sg_vmsize seg = 0 then (found, True)
      else let start = sg_vmaddr seg + slide
        in if sg_vmsize seg > - 1 - start then (found, True)
           else if address \<ge> start \<and> address < start + sg_vmsize seg then (True, False)
           else (found, True))"

definition belongs_to_importer :: "memory \<Rightarrow> hk_cache_patch_target \<Rightarrow> u64 \<Rightarrow> bool option" where
  "belongs_to_importer m target address =
     map_option (\<lambda>r. case r of Inl _ \<Rightarrow> False | Inr found \<Rightarrow> found)
       (hk_macho_iterate_segments m (ct_image_header target) (ct_image_header_size target)
          (writable_segment_contains address (ct_image_slide target)) False)"

section \<open>Steps that may refuse\<close>

text \<open>A status and the state it leaves; a loop stops at the first status that is not OK.\<close>

type_synonym 's cache_step = "(hk_cache_patch_status \<times> 's) option"

definition then_ok :: "'s cache_step \<Rightarrow> ('s \<Rightarrow> 's cache_step) \<Rightarrow> 's cache_step" where
  "then_ok r f = (case r of None \<Rightarrow> None | Some (st, s) \<Rightarrow> if st \<noteq> HK_CACHE_PATCH_OK then Some (st, s) else f s)"

primrec each_from :: "(nat \<Rightarrow> 's \<Rightarrow> 's cache_step) \<Rightarrow> nat \<Rightarrow> nat \<Rightarrow> 's \<Rightarrow> 's cache_step" where
  "each_from f i 0 s = Some (HK_CACHE_PATCH_OK, s)"
| "each_from f i (Suc n) s = then_ok (f i s) (each_from f (i + 1) n)"

text \<open>The client's context and whether a use was found.\<close>

type_synonym 'c uses = "'c \<times> bool"
type_synonym 'c site_visit = "'c \<Rightarrow> hk_cache_patch_site \<Rightarrow> ('c \<times> bool) option"

text \<open>What the visitor returns is ignored.\<close>

definition emit_location :: "memory \<Rightarrow> hk_cache_patch_target \<Rightarrow> cache_view \<Rightarrow> u64 \<Rightarrow> u32 \<Rightarrow> bool \<Rightarrow> bool \<Rightarrow> 'c site_visit \<Rightarrow>
    'c uses \<Rightarrow> 'c uses cache_step" where
  "emit_location m target view offset bits v4 shared_got visit s =
     (if unat offset > cv_size view - 8 then Some (HK_CACHE_PATCH_MALFORMED, s)
      else let site = \<lparr>kp_address = cv_base view + offset,
                       kp_schema = (if v4 then schema_v4 bits else schema_v1_v3 bits),
                       kp_addend = (if v4 then addend_v4 bits else addend_v1_v3 bits),
                       kp_weak_import = (v4 \<and> weak_v4 bits), kp_shared_got = shared_got\<rparr>
        in do {
          inside \<leftarrow> (if shared_got then Some True else belongs_to_importer m target (kp_address site));
          (if \<not> inside then Some (HK_CACHE_PATCH_MALFORMED, s)
           else do { (c1, _) \<leftarrow> visit (fst s) site; Some (HK_CACHE_PATCH_OK, (c1, True)) })
        })"

section \<open>Version 1\<close>

text \<open>The address and count of an array, and the array when it is inside the table.\<close>

definition load_pair :: "memory \<Rightarrow> cache_view \<Rightarrow> nat \<Rightarrow> nat \<Rightarrow> (ptr \<times> nat) option option" where
  "load_pair m view off stride = do {
     address \<leftarrow> rd64 m (cv_patch view) off;
     n \<leftarrow> map_option unat (rd64 m (cv_patch view) (off + 8));
     Some (map_option (\<lambda>start. (start, n)) (patch_array view address n stride))
   }"

definition v1_location :: "memory \<Rightarrow> hk_cache_patch_target \<Rightarrow> cache_view \<Rightarrow> ptr \<Rightarrow> 'c site_visit \<Rightarrow> u32 \<Rightarrow>
    nat \<Rightarrow> 'c uses \<Rightarrow> 'c uses cache_step" where
  "v1_location m target view locations visit loc_first k s = do {
     let loc = unat (loc_first + of_nat k) * CACHE_LOCATION_V1_SIZE;
     offset \<leftarrow> rd32 m locations loc;
     inside \<leftarrow> belongs_to_importer m target (cv_base view + ucast offset);
     (if \<not> inside then Some (HK_CACHE_PATCH_OK, s)
      else do {
        bits \<leftarrow> rd32 m locations (loc + 8);
        emit_location m target view (ucast offset) bits False False visit s
      })
   }"

definition v1_export :: "memory \<Rightarrow> hk_cache_patch_target \<Rightarrow> cache_view \<Rightarrow> ptr \<Rightarrow> ptr \<times> nat \<Rightarrow> ptr \<times> nat \<Rightarrow> byte list list \<Rightarrow>
    'c site_visit \<Rightarrow> u32 \<Rightarrow> nat \<Rightarrow> 'c uses \<Rightarrow> 'c uses cache_step" where
  "v1_export m target view exps locations names candidates visit first j s = do {
     let export = unat (first + of_nat j) * CACHE_EXPORT_V1_SIZE;
     name_offset \<leftarrow> map_option unat (rd32 m exps (export + 12));
     name \<leftarrow> cache_string m (fst names) (snd names) name_offset;
     (case name of
        None \<Rightarrow> Some (HK_CACHE_PATCH_MALFORMED, s)
      | Some nm \<Rightarrow>
          if nm \<notin> set candidates then Some (HK_CACHE_PATCH_OK, s)
          else do {
            loc_first \<leftarrow> rd32 m exps (export + 4);
            loc_count \<leftarrow> rd32 m exps (export + 8);
            (if unat loc_first + unat loc_count > snd locations then Some (HK_CACHE_PATCH_MALFORMED, s)
             else each_from (v1_location m target view (fst locations) visit loc_first) 0 (unat loc_count) s)
          })
   }"

definition v1_image :: "memory \<Rightarrow> hk_cache_patch_target \<Rightarrow> cache_view \<Rightarrow> ptr \<Rightarrow> ptr \<times> nat \<Rightarrow> ptr \<times> nat \<Rightarrow> ptr \<times> nat \<Rightarrow>
    byte list list \<Rightarrow> 'c site_visit \<Rightarrow> nat \<Rightarrow> 'c uses \<Rightarrow> 'c uses cache_step" where
  "v1_image m target view images exps locations names candidates visit i s = do {
     first \<leftarrow> rd32 m images (i * CACHE_IMAGE_PATCH_V1_SIZE);
     n \<leftarrow> rd32 m images (i * CACHE_IMAGE_PATCH_V1_SIZE + 4);
     (if unat first + unat n > snd exps then Some (HK_CACHE_PATCH_MALFORMED, s)
      else each_from (v1_export m target view (fst exps) locations names candidates visit first) 0 (unat n) s)
   }"

definition parse_v1 :: "memory \<Rightarrow> hk_cache_patch_target \<Rightarrow> cache_view \<Rightarrow> byte list list \<Rightarrow> 'c site_visit \<Rightarrow>
    'c uses \<Rightarrow> 'c uses cache_step" where
  "parse_v1 m target view candidates visit s =
     (if cv_patch_size view < 64 then Some (HK_CACHE_PATCH_MALFORMED, s)
      else do {
        images \<leftarrow> load_pair m view 0 CACHE_IMAGE_PATCH_V1_SIZE;
        exps \<leftarrow> load_pair m view 16 CACHE_EXPORT_V1_SIZE;
        locations \<leftarrow> load_pair m view 32 CACHE_LOCATION_V1_SIZE;
        names \<leftarrow> load_pair m view 48 1;
        (if images = None \<or> exps = None \<or> locations = None \<or> names = None then Some (HK_CACHE_PATCH_MALFORMED, s)
         else each_from (v1_image m target view (fst (the images)) (the exps) (the locations) (the names) candidates visit)
                0 (snd (the images)) s)
      })"

section \<open>Versions 2 to 4\<close>

record table_v2 =
  t2_images :: "ptr \<times> nat"
  t2_image_exports :: "ptr \<times> nat"
  t2_clients :: "ptr \<times> nat"
  t2_client_exports :: "ptr \<times> nat"
  t2_locations :: "ptr \<times> nat"
  t2_names :: "ptr \<times> nat"
  t2_got_clients :: "ptr \<times> nat"
  t2_got_exports :: "ptr \<times> nat"
  t2_got_locations :: "ptr \<times> nat"

definition got_pair :: "memory \<Rightarrow> cache_view \<Rightarrow> nat \<Rightarrow> nat \<Rightarrow> nat \<Rightarrow> (ptr \<times> nat) option option" where
  "got_pair m view version off stride = (if version \<ge> 3 then load_pair m view off stride else Some (Some (0, 0)))"

text \<open>\<open>None\<close> is a fault, \<open>Some None\<close> a table that is refused.\<close>

definition load_v2 :: "memory \<Rightarrow> cache_view \<Rightarrow> nat \<Rightarrow> table_v2 option option" where
  "load_v2 m view version =
     (if cv_patch_size view < (if version \<ge> 3 then 152 else 104) then Some None
      else do {
        reserved \<leftarrow> rd32 m (cv_patch view) 4;
        (if reserved \<noteq> 0 then Some None
         else do {
           images \<leftarrow> load_pair m view 8 CACHE_IMAGE_PATCH_V2_SIZE;
           image_exports \<leftarrow> load_pair m view 24 CACHE_IMAGE_EXPORT_V2_SIZE;
           clients \<leftarrow> load_pair m view 40 CACHE_CLIENT_V2_SIZE;
           client_exports \<leftarrow> load_pair m view 56 CACHE_CLIENT_EXPORT_V2_SIZE;
           locations \<leftarrow> load_pair m view 72 CACHE_LOCATION_V2_SIZE;
           names \<leftarrow> load_pair m view 88 1;
           got_clients \<leftarrow> got_pair m view version 104 CACHE_GOT_CLIENT_V3_SIZE;
           got_exports \<leftarrow> got_pair m view version 120 CACHE_GOT_EXPORT_V3_SIZE;
           got_locations \<leftarrow> got_pair m view version 136
             (if version = 4 then CACHE_GOT_LOCATION_V4_SIZE else CACHE_GOT_LOCATION_V3_SIZE);
           Some (if None \<in> {images, image_exports, clients, client_exports, locations, names, got_clients, got_exports, got_locations}
             then None
             else Some \<lparr>t2_images = the images, t2_image_exports = the image_exports, t2_clients = the clients,
                    t2_client_exports = the client_exports, t2_locations = the locations, t2_names = the names,
                    t2_got_clients = the got_clients, t2_got_exports = the got_exports, t2_got_locations = the got_locations\<rparr>)
         })
      })"

section \<open>The uses of an export\<close>

definition client_location :: "memory \<Rightarrow> hk_cache_patch_target \<Rightarrow> cache_view \<Rightarrow> table_v2 \<Rightarrow> nat \<Rightarrow> 'c site_visit \<Rightarrow> u32 \<Rightarrow>
    nat \<Rightarrow> 'c uses \<Rightarrow> 'c uses cache_step" where
  "client_location m target view table version visit first i s = do {
     let loc = unat (first + of_nat i) * CACHE_LOCATION_V2_SIZE;
     offset \<leftarrow> rd32 m (fst (t2_locations table)) loc;
     (let image_offset = ct_image_header target - cv_base view
      in if unat image_offset > cv_size view \<or> unat offset > cv_size view - unat image_offset then Some (HK_CACHE_PATCH_MALFORMED, s)
         else do {
           bits \<leftarrow> rd32 m (fst (t2_locations table)) (loc + 4);
           emit_location m target view (image_offset + ucast offset) bits (version = 4) False visit s
         })
   }"

definition emit_client_export :: "memory \<Rightarrow> hk_cache_patch_target \<Rightarrow> cache_view \<Rightarrow> table_v2 \<Rightarrow> nat \<Rightarrow> u32 \<Rightarrow> 'c site_visit \<Rightarrow>
    u32 \<Rightarrow> nat \<Rightarrow> 'c uses \<Rightarrow> 'c uses cache_step" where
  "emit_client_export m target view table version global_export visit ce_first ce s = do {
     let row = unat (ce_first + of_nat ce) * CACHE_CLIENT_EXPORT_V2_SIZE;
     export \<leftarrow> rd32 m (fst (t2_client_exports table)) row;
     (if export \<noteq> global_export then Some (HK_CACHE_PATCH_OK, s)
      else do {
        first \<leftarrow> rd32 m (fst (t2_client_exports table)) (row + 4);
        n \<leftarrow> rd32 m (fst (t2_client_exports table)) (row + 8);
        (if unat first + unat n > snd (t2_locations table) then Some (HK_CACHE_PATCH_MALFORMED, s)
         else each_from (client_location m target view table version visit first) 0 (unat n) s)
      })
   }"

definition got_location :: "memory \<Rightarrow> hk_cache_patch_target \<Rightarrow> cache_view \<Rightarrow> table_v2 \<Rightarrow> nat \<Rightarrow> 'c site_visit \<Rightarrow> u32 \<Rightarrow>
    nat \<Rightarrow> 'c uses \<Rightarrow> 'c uses cache_step" where
  "got_location m target view table version visit first i s = do {
     let loc = unat (first + of_nat i) * (if version = 4 then CACHE_GOT_LOCATION_V4_SIZE else CACHE_GOT_LOCATION_V3_SIZE);
     offset \<leftarrow> rd64 m (fst (t2_got_locations table)) loc;
     bits \<leftarrow> rd32 m (fst (t2_got_locations table)) (loc + 8);
     emit_location m target view offset bits (version = 4) True visit s
   }"

definition emit_got_export :: "memory \<Rightarrow> hk_cache_patch_target \<Rightarrow> cache_view \<Rightarrow> table_v2 \<Rightarrow> nat \<Rightarrow> u32 \<Rightarrow> 'c site_visit \<Rightarrow>
    u32 \<Rightarrow> nat \<Rightarrow> 'c uses \<Rightarrow> 'c uses cache_step" where
  "emit_got_export m target view table version global_export visit ge_first ge s = do {
     let row = unat (ge_first + of_nat ge) * CACHE_GOT_EXPORT_V3_SIZE;
     export \<leftarrow> rd32 m (fst (t2_got_exports table)) row;
     (if export \<noteq> global_export then Some (HK_CACHE_PATCH_OK, s)
      else do {
        first \<leftarrow> rd32 m (fst (t2_got_exports table)) (row + 4);
        n \<leftarrow> rd32 m (fst (t2_got_exports table)) (row + 8);
        (if unat first + unat n > snd (t2_got_locations table) then Some (HK_CACHE_PATCH_MALFORMED, s)
         else if n \<noteq> 0 \<and> \<not> ct_include_shared_got target then Some (HK_CACHE_PATCH_SCOPE_UNREPRESENTABLE, s)
         else each_from (got_location m target view table version visit first) 0 (unat n) s)
      })
   }"

definition emit_client :: "memory \<Rightarrow> hk_cache_patch_target \<Rightarrow> cache_view \<Rightarrow> table_v2 \<Rightarrow> nat \<Rightarrow> nat \<Rightarrow> u32 \<Rightarrow> 'c site_visit \<Rightarrow>
    u32 \<Rightarrow> nat \<Rightarrow> 'c uses \<Rightarrow> 'c uses cache_step" where
  "emit_client m target view table version importer_index global_export visit client_first c s = do {
     let row = unat (client_first + of_nat c) * CACHE_CLIENT_V2_SIZE;
     ce_first \<leftarrow> rd32 m (fst (t2_clients table)) (row + 4);
     ce_count \<leftarrow> rd32 m (fst (t2_clients table)) (row + 8);
     (if unat ce_first + unat ce_count > snd (t2_client_exports table) then Some (HK_CACHE_PATCH_MALFORMED, s)
      else do {
        client_image \<leftarrow> map_option unat (rd32 m (fst (t2_clients table)) row);
        (if client_image \<noteq> importer_index then Some (HK_CACHE_PATCH_OK, s)
         else each_from (emit_client_export m target view table version global_export visit ce_first) 0 (unat ce_count) s)
      })
   }"

definition emit_got_uses :: "memory \<Rightarrow> hk_cache_patch_target \<Rightarrow> cache_view \<Rightarrow> table_v2 \<Rightarrow> nat \<Rightarrow> nat \<Rightarrow> u32 \<Rightarrow> 'c site_visit \<Rightarrow>
    'c uses \<Rightarrow> 'c uses cache_step" where
  "emit_got_uses m target view table version def_image global_export visit s =
     (if version < 3 then Some (HK_CACHE_PATCH_OK, s)
      else do {
        ge_first \<leftarrow> rd32 m (fst (t2_got_clients table)) (def_image * CACHE_GOT_CLIENT_V3_SIZE);
        ge_count \<leftarrow> rd32 m (fst (t2_got_clients table)) (def_image * CACHE_GOT_CLIENT_V3_SIZE + 4);
        (if unat ge_first + unat ge_count > snd (t2_got_exports table) then Some (HK_CACHE_PATCH_MALFORMED, s)
         else each_from (emit_got_export m target view table version global_export visit ge_first) 0 (unat ge_count) s)
      })"

definition emit_export_uses :: "memory \<Rightarrow> hk_cache_patch_target \<Rightarrow> cache_view \<Rightarrow> table_v2 \<Rightarrow> nat \<Rightarrow> nat \<Rightarrow> nat \<Rightarrow> u32 \<Rightarrow>
    'c site_visit \<Rightarrow> 'c uses \<Rightarrow> 'c uses cache_step" where
  "emit_export_uses m target view table version importer_index def_image global_export visit s = do {
     client_first \<leftarrow> rd32 m (fst (t2_images table)) (def_image * CACHE_IMAGE_PATCH_V2_SIZE);
     client_count \<leftarrow> rd32 m (fst (t2_images table)) (def_image * CACHE_IMAGE_PATCH_V2_SIZE + 4);
     (if unat client_first + unat client_count > snd (t2_clients table) then Some (HK_CACHE_PATCH_MALFORMED, s)
      else then_ok
        (each_from (emit_client m target view table version importer_index global_export visit client_first) 0 (unat client_count) s)
        (emit_got_uses m target view table version def_image global_export visit))
   }"

end
