(* ===== verification/HK_CacheLookup.thy ===== *)
theory HK_CacheLookup
  imports HK_CachePatches
begin

text \<open>
  The traversal of the patch table for one symbol (\<open>src/resolvers/HKDyldCachePatches.c\<close>, second half): the direct
  scan of all exports, the process-wide sorted index of the exports of a cache, the lookup that keeps the
  matches of one preparation, and the entry points that find the table in the cache's header.
\<close>

section \<open>Lookups\<close>

text \<open>A match is the defining image and the number of the export.\<close>

record hk_cache_patch_lookup =
  lk_view :: cache_view
  lk_version :: nat
  lk_convention :: hk_symbol_name_convention
  lk_matches :: "(nat \<times> u32) list"
  lk_capacity :: nat
  lk_complete :: bool
  lk_allocation_failed :: bool
  lk_symbol :: "byte list"

definition zero_cache_view :: cache_view where
  "zero_cache_view = \<lparr>cv_base = 0, cv_size = 0, cv_unslid_base = 0, cv_patch = 0, cv_patch_size = 0\<rparr>"

definition hk_cache_patch_lookup_create :: "byte list \<Rightarrow> hk_symbol_name_convention \<Rightarrow> heap \<Rightarrow> hk_cache_patch_lookup option \<times> heap" where
  "hk_cache_patch_lookup_create symbol_name convention heap =
     (let (ok, heap1) = hk_alloc heap
      in (if ok then Some \<lparr>lk_view = zero_cache_view, lk_version = 0, lk_convention = convention, lk_matches = [],
                lk_capacity = 0, lk_complete = False, lk_allocation_failed = False, lk_symbol = symbol_name\<rparr>
          else None, heap1))"

definition lookup_begin :: "hk_cache_patch_lookup \<Rightarrow> cache_view \<Rightarrow> nat \<Rightarrow> hk_cache_patch_lookup" where
  "lookup_begin lookup view version =
     (let lookup1 = (if lk_view lookup \<noteq> view \<or> lk_version lookup \<noteq> version then lookup\<lparr>lk_complete := False\<rparr> else lookup)
      in if \<not> lk_complete lookup1 then lookup1\<lparr>lk_matches := [], lk_view := view, lk_version := version\<rparr> else lookup1)"

text \<open>An element of the array takes 16 bytes.\<close>

definition lookup_append :: "nat \<Rightarrow> u32 \<Rightarrow> hk_cache_patch_lookup option \<times> heap \<Rightarrow> hk_cache_patch_lookup option \<times> heap" where
  "lookup_append def_image export_index lh =
     (case lh of
        (None, heap) \<Rightarrow> (None, heap)
      | (Some lookup, heap) \<Rightarrow>
          if lk_allocation_failed lookup then (Some lookup, heap)
          else if length (lk_matches lookup) = lk_capacity lookup then
            (let capacity = (if lk_capacity lookup \<noteq> 0 then lk_capacity lookup * 2 else 4);
                 (ok, heap1) = (if capacity \<le> SIZE_MAX div 16 then hk_alloc heap else (False, heap))
             in if ok then (Some (lookup\<lparr>lk_capacity := capacity, lk_matches := lk_matches lookup @ [(def_image, export_index)]\<rparr>), heap1)
                else (Some (lookup\<lparr>lk_allocation_failed := True\<rparr>), heap1))
          else (Some (lookup\<lparr>lk_matches := lk_matches lookup @ [(def_image, export_index)]\<rparr>), heap))"

definition lookup_finish :: "hk_cache_patch_lookup \<Rightarrow> hk_cache_patch_lookup" where
  "lookup_finish lookup = (if lk_allocation_failed lookup then lookup else lookup\<lparr>lk_complete := True\<rparr>)"

section \<open>The export index\<close>

record cache_index_entry =
  xe_name :: "byte list"
  xe_defining_image :: nat
  xe_export_index :: u32

definition cache_index_entry_less :: "cache_index_entry \<Rightarrow> cache_index_entry \<Rightarrow> bool" where
  "cache_index_entry_less a b =
     (if xe_defining_image a \<noteq> xe_defining_image b then xe_defining_image a < xe_defining_image b
      else xe_export_index a < xe_export_index b)"

text \<open>\<open>strcmp\<close> compares bytes as unsigned numbers.\<close>

definition c_strcmp :: "byte list \<Rightarrow> byte list \<Rightarrow> int" where
  "c_strcmp a b = (if a < b then - 1 else if a = b then 0 else 1)"

definition cache_index_entry_compare :: "cache_index_entry \<Rightarrow> cache_index_entry \<Rightarrow> int" where
  "cache_index_entry_compare a b =
     (let order = c_strcmp (xe_name a) (xe_name b)
      in if order \<noteq> 0 then order
         else if xe_defining_image a \<noteq> xe_defining_image b then (if xe_defining_image a < xe_defining_image b then - 1 else 1)
         else if xe_export_index a = xe_export_index b then 0
         else if xe_export_index a < xe_export_index b then - 1 else 1)"

text \<open>\<open>qsort\<close> with this comparison: the key whose order the comparison is.\<close>

definition entry_key :: "cache_index_entry \<Rightarrow> byte list \<times> nat \<times> u32" where
  "entry_key e = (xe_name e, xe_defining_image e, xe_export_index e)"

definition qsort_entries :: "cache_index_entry list \<Rightarrow> cache_index_entry list" where
  "qsort_entries entries = sort_key entry_key entries"

text \<open>The number of entries, or \<open>Some None\<close> when a row leaves its tables.\<close>

primrec index_capacity :: "memory \<Rightarrow> table_v2 \<Rightarrow> nat \<Rightarrow> nat \<Rightarrow> nat \<Rightarrow> nat option option" where
  "index_capacity m table def_image 0 capacity = Some (Some capacity)"
| "index_capacity m table def_image (Suc n) capacity = do {
     let row = def_image * CACHE_IMAGE_PATCH_V2_SIZE;
     client_first \<leftarrow> map_option unat (rd32 m (fst (t2_images table)) row);
     client_count \<leftarrow> map_option unat (rd32 m (fst (t2_images table)) (row + 4));
     export_first \<leftarrow> map_option unat (rd32 m (fst (t2_images table)) (row + 8));
     export_count \<leftarrow> map_option unat (rd32 m (fst (t2_images table)) (row + 12));
     (if client_first + client_count > snd (t2_clients table) \<or> export_first + export_count > snd (t2_image_exports table) \<or>
         capacity > SIZE_MAX - export_count then Some None
      else index_capacity m table (def_image + 1) n (capacity + export_count))
   }"

text \<open>The entries of a row; \<open>Some None\<close> when a name is not in the pool.\<close>

primrec row_entries :: "memory \<Rightarrow> table_v2 \<Rightarrow> nat \<Rightarrow> u32 \<Rightarrow> nat \<Rightarrow> nat \<Rightarrow> cache_index_entry list option option" where
  "row_entries m table def_image export_first e 0 = Some (Some [])"
| "row_entries m table def_image export_first e (Suc n) = do {
     let global_export = export_first + of_nat e;
     name_and_kind \<leftarrow> rd32 m (fst (t2_image_exports table)) (unat global_export * CACHE_IMAGE_EXPORT_V2_SIZE + 4);
     name \<leftarrow> cache_string m (fst (t2_names table)) (snd (t2_names table)) (unat (name_and_kind AND 0x0FFFFFFF));
     (case name of
        None \<Rightarrow> Some None
      | Some nm \<Rightarrow> map_option (map_option (\<lambda>rest. \<lparr>xe_name = nm, xe_defining_image = def_image, xe_export_index = global_export\<rparr> # rest))
          (row_entries m table def_image export_first (e + 1) n))
   }"

primrec all_entries :: "memory \<Rightarrow> table_v2 \<Rightarrow> nat \<Rightarrow> nat \<Rightarrow> cache_index_entry list option option" where
  "all_entries m table def_image 0 = Some (Some [])"
| "all_entries m table def_image (Suc n) = do {
     let row = def_image * CACHE_IMAGE_PATCH_V2_SIZE;
     export_first \<leftarrow> rd32 m (fst (t2_images table)) (row + 8);
     export_count \<leftarrow> map_option unat (rd32 m (fst (t2_images table)) (row + 12));
     here \<leftarrow> row_entries m table def_image export_first 0 export_count;
     (case here of
        None \<Rightarrow> Some None
      | Some es \<Rightarrow> map_option (map_option (\<lambda>rest. es @ rest)) (all_entries m table (def_image + 1) n))
   }"

text \<open>An entry takes 16 bytes.\<close>

definition cache_index_build :: "memory \<Rightarrow> cache_view \<Rightarrow> nat \<Rightarrow> heap \<Rightarrow> (cache_index_entry list option \<times> heap) option" where
  "cache_index_build m view version heap = do {
     loaded \<leftarrow> load_v2 m view version;
     (case loaded of
        None \<Rightarrow> Some (None, heap)
      | Some table \<Rightarrow>
          if snd (t2_images table) = 0 \<or> snd (t2_images table) > 2 ^ 32 - 1 \<or>
             version \<ge> 3 \<and> snd (t2_got_clients table) \<noteq> snd (t2_images table) \<or>
             snd (t2_image_exports table) > 2 ^ 32 - 1 then Some (None, heap)
          else do {
            counted \<leftarrow> index_capacity m table 0 (snd (t2_images table)) 0;
            (case counted of
               None \<Rightarrow> Some (None, heap)
             | Some capacity \<Rightarrow>
                 (let (ok, heap1) = (if capacity = 0 then (True, heap)
                      else if capacity > SIZE_MAX div 16 then (False, heap) else hk_alloc heap)
                  in if \<not> ok then Some (None, heap1)
                     else map_option (\<lambda>entries. (map_option qsort_entries entries, heap1))
                            (all_entries m table 0 (snd (t2_images table)))))
          })
   }"

text \<open>The indices built so far.\<close>

type_synonym index_slots = "(cache_view \<times> nat \<times> cache_index_entry list) list"

definition HK_CACHE_INDEX_SLOTS :: nat where "HK_CACHE_INDEX_SLOTS = 4"

definition find_index :: "index_slots \<Rightarrow> cache_view \<Rightarrow> nat \<Rightarrow> cache_index_entry list option" where
  "find_index slots view version =
     map_option (\<lambda>(_, _, entries). entries) (find (\<lambda>(v, n, _). n = version \<and> v = view) slots)"

definition cache_index_acquire :: "memory \<Rightarrow> cache_view \<Rightarrow> nat \<Rightarrow> index_slots \<times> heap \<Rightarrow>
    (cache_index_entry list option \<times> index_slots \<times> heap) option" where
  "cache_index_acquire m view version sh =
     (let (slots, heap) = sh
      in case find_index slots view version of
           Some entries \<Rightarrow> Some (Some entries, slots, heap)
         | None \<Rightarrow>
             if length slots < HK_CACHE_INDEX_SLOTS then do {
               (built, heap1) \<leftarrow> cache_index_build m view version heap;
               Some (case built of
                   None \<Rightarrow> (None, slots, heap1)
                 | Some entries \<Rightarrow> (Some entries, slots @ [(view, version, entries)], heap1))
             }
             else Some (None, slots, heap))"

function lower_bound_from :: "cache_index_entry list \<Rightarrow> byte list \<Rightarrow> nat \<Rightarrow> nat \<Rightarrow> nat" where
  "lower_bound_from index name low high =
     (if low < high then
        (let mid = low + (high - low) div 2
         in if c_strcmp (xe_name (index ! mid)) name < 0 then lower_bound_from index name (mid + 1) high
            else lower_bound_from index name low mid)
      else low)"
  by pat_completeness auto
termination by (relation "measure (\<lambda>(_, _, low, high). high - low)") auto

declare lower_bound_from.simps [simp del]

definition cache_index_lower_bound :: "cache_index_entry list \<Rightarrow> byte list \<Rightarrow> nat" where
  "cache_index_lower_bound index name = lower_bound_from index name 0 (length index)"

text \<open>The entries of a name: from the lower bound on, as long as the name is the same.\<close>

definition index_run :: "cache_index_entry list \<Rightarrow> byte list \<Rightarrow> cache_index_entry list" where
  "index_run index name =
     takeWhile (\<lambda>e. c_strcmp (xe_name e) name = 0) (drop (cache_index_lower_bound index name) index)"

text \<open>The run with the least next entry, the first one among equals.\<close>

definition pick_step :: "cache_index_entry list list \<Rightarrow> nat \<Rightarrow> nat option \<Rightarrow> nat option" where
  "pick_step runs c pick =
     (if runs ! c \<noteq> [] \<and> (case pick of None \<Rightarrow> True | Some p \<Rightarrow> cache_index_entry_less (hd (runs ! c)) (hd (runs ! p)))
      then Some c else pick)"

definition pick_run :: "cache_index_entry list list \<Rightarrow> nat option" where
  "pick_run runs = fold (pick_step runs) [0..<length runs] None"

lemma pick_step_cases: "pick_step runs c q = q \<or> pick_step runs c q = Some c \<and> runs ! c \<noteq> []"
  by (simp add: pick_step_def)

lemma pick_steps:
  "\<forall>c \<in> set cs. c < length runs \<Longrightarrow> \<forall>p. q = Some p \<longrightarrow> p < length runs \<and> runs ! p \<noteq> [] \<Longrightarrow>
   fold (pick_step runs) cs q = Some p \<Longrightarrow> p < length runs \<and> runs ! p \<noteq> []"
proof (induction cs arbitrary: q)
  case (Cons c cs)
  have "\<forall>p. pick_step runs c q = Some p \<longrightarrow> p < length runs \<and> runs ! p \<noteq> []"
    using pick_step_cases [of runs c q] Cons.prems(1,2) by auto
  then show ?case using Cons.IH [of "pick_step runs c q"] Cons.prems by simp
qed simp

lemma pick_run_Some: "pick_run runs = Some p \<Longrightarrow> p < length runs \<and> runs ! p \<noteq> []"
  unfolding pick_run_def by (rule pick_steps [of "[0..<length runs]" runs None]) simp_all

section \<open>Versions 2 to 4\<close>

text \<open>What a traversal threads: the client's context and whether a use was found, the lookup and the allocator.\<close>

type_synonym 'c traversal = "'c uses \<times> hk_cache_patch_lookup option \<times> heap"

definition emit_into :: "('c uses \<Rightarrow> 'c uses cache_step) \<Rightarrow> 'c traversal \<Rightarrow> 'c traversal cache_step" where
  "emit_into emit t = map_option (\<lambda>(st, s). (st, (s, snd t))) (emit (fst t))"

text \<open>The first pass over the index.\<close>

function replay_runs :: "memory \<Rightarrow> table_v2 \<Rightarrow> (nat \<Rightarrow> u32 \<Rightarrow> 'c uses \<Rightarrow> 'c uses cache_step) \<Rightarrow> cache_index_entry list list \<Rightarrow>
    'c traversal \<Rightarrow> 'c traversal cache_step" where
  "replay_runs m table emit runs t =
     (case pick_run runs of
        None \<Rightarrow> Some (HK_CACHE_PATCH_OK, t)
      | Some p \<Rightarrow>
          let entry = hd (runs ! p)
          in do {
            name_and_kind \<leftarrow> rd32 m (fst (t2_image_exports table)) (unat (xe_export_index entry) * CACHE_IMAGE_EXPORT_V2_SIZE + 4);
            (if drop_bit 28 name_and_kind \<noteq> 0 then Some (HK_CACHE_PATCH_UNSUPPORTED, t)
             else then_ok
               (emit_into (emit (xe_defining_image entry) (xe_export_index entry))
                  (fst t, lookup_append (xe_defining_image entry) (xe_export_index entry) (snd t)))
               (replay_runs m table emit (runs[p := tl (runs ! p)])))
          })"
  by pat_completeness auto
termination
proof (relation "measure (\<lambda>(_, _, _, runs, _). sum_list (map length runs))")
  fix runs :: "cache_index_entry list list" and p
  fix m :: memory and table :: table_v2 and emit :: "nat \<Rightarrow> u32 \<Rightarrow> 'c uses \<Rightarrow> 'c uses cache_step" and t t1 :: "'c traversal"
  assume "pick_run runs = Some p"
  then have p: "p < length runs" "runs ! p \<noteq> []" using pick_run_Some by auto
  then have "sum_list (map length (runs[p := tl (runs ! p)])) < sum_list (map length runs)"
  proof -
    have "sum_list ((map length runs)[p := length (runs ! p) - 1]) + 1 = sum_list (map length runs)"
      using p elem_le_sum_list [of p "map length runs"] by (cases "runs ! p") (simp_all add: sum_list_update)
    then show ?thesis by (simp add: map_update)
  qed
  then show "((m, table, emit, runs[p := tl (runs ! p)], t1), m, table, emit, runs, t) \<in> measure (\<lambda>(_, _, _, runs, _). sum_list (map length runs))"
    by simp
qed simp

declare replay_runs.simps [simp del]

text \<open>The direct scan: an export of a definition, and a definition.\<close>

definition scan_export :: "memory \<Rightarrow> table_v2 \<Rightarrow> (nat \<Rightarrow> u32 \<Rightarrow> 'c uses \<Rightarrow> 'c uses cache_step) \<Rightarrow> byte list list \<Rightarrow>
    nat \<Rightarrow> u32 \<Rightarrow> nat \<Rightarrow> 'c traversal \<Rightarrow> 'c traversal cache_step" where
  "scan_export m table emit candidates def_image export_first e t = do {
     let global_export = export_first + of_nat e;
     name_and_kind \<leftarrow> rd32 m (fst (t2_image_exports table)) (unat global_export * CACHE_IMAGE_EXPORT_V2_SIZE + 4);
     name \<leftarrow> cache_string m (fst (t2_names table)) (snd (t2_names table)) (unat (name_and_kind AND 0x0FFFFFFF));
     (case name of
        None \<Rightarrow> Some (HK_CACHE_PATCH_MALFORMED, t)
      | Some nm \<Rightarrow>
          if nm \<notin> set candidates then Some (HK_CACHE_PATCH_OK, t)
          else let t1 = (fst t, lookup_append def_image global_export (snd t))
            in if drop_bit 28 name_and_kind \<noteq> 0 then Some (HK_CACHE_PATCH_UNSUPPORTED, t1)
               else emit_into (emit def_image global_export) t1)
   }"

definition row_counts :: "memory \<Rightarrow> table_v2 \<Rightarrow> nat \<Rightarrow> (u32 \<times> u32) option option" where
  "row_counts m table def_image = do {
     let row = def_image * CACHE_IMAGE_PATCH_V2_SIZE;
     export_first \<leftarrow> rd32 m (fst (t2_images table)) (row + 8);
     export_count \<leftarrow> rd32 m (fst (t2_images table)) (row + 12);
     client_first \<leftarrow> map_option unat (rd32 m (fst (t2_images table)) row);
     client_count \<leftarrow> map_option unat (rd32 m (fst (t2_images table)) (row + 4));
     Some (if client_first + client_count > snd (t2_clients table) \<or>
              unat export_first + unat export_count > snd (t2_image_exports table)
           then None else Some (export_first, export_count))
   }"

definition scan_definition :: "memory \<Rightarrow> table_v2 \<Rightarrow> (nat \<Rightarrow> u32 \<Rightarrow> 'c uses \<Rightarrow> 'c uses cache_step) \<Rightarrow> byte list list \<Rightarrow>
    nat \<Rightarrow> 'c traversal \<Rightarrow> 'c traversal cache_step" where
  "scan_definition m table emit candidates def_image t = do {
     row \<leftarrow> row_counts m table def_image;
     (case row of
        None \<Rightarrow> Some (HK_CACHE_PATCH_MALFORMED, t)
      | Some (export_first, export_count) \<Rightarrow>
          each_from (scan_export m table emit candidates def_image export_first) 0 (unat export_count) t)
   }"

text \<open>The same loops over the matches of a completed lookup. \<open>row\<close> is \<open>None\<close> at the head of the outer loop and
  the first export, the count and the counter inside the inner one; not returning is \<open>None\<close>.\<close>

partial_function (option) replay_matches :: "memory \<Rightarrow> table_v2 \<Rightarrow> (nat \<Rightarrow> u32 \<Rightarrow> 'c uses \<Rightarrow> 'c uses cache_step) \<Rightarrow>
    nat \<Rightarrow> (u32 \<times> u32 \<times> u32) option \<Rightarrow> (nat \<times> u32) list \<Rightarrow> 'c traversal \<Rightarrow> 'c traversal cache_step" where
  "replay_matches m table emit def_image row ms t =
     (case row of
        None \<Rightarrow>
          (if def_image \<ge> snd (t2_images table) \<or> ms = [] then Some (HK_CACHE_PATCH_OK, t)
           else Option.bind (row_counts m table (fst (hd ms))) (\<lambda>counts.
             (case counts of
                None \<Rightarrow> Some (HK_CACHE_PATCH_MALFORMED, t)
              | Some (export_first, export_count) \<Rightarrow>
                  replay_matches m table emit (fst (hd ms)) (Some (export_first, export_count, 0)) ms t)))
      | Some (export_first, export_count, e) \<Rightarrow>
          (if \<not> e < export_count \<or> ms = [] \<or> fst (hd ms) \<noteq> def_image then replay_matches m table emit (def_image + 1) None ms t
           else let e1 = snd (hd ms) - export_first; global_export = export_first + e1
             in Option.bind (rd32 m (fst (t2_image_exports table)) (unat global_export * CACHE_IMAGE_EXPORT_V2_SIZE + 4)) (\<lambda>name_and_kind.
               (if drop_bit 28 name_and_kind \<noteq> 0 then Some (HK_CACHE_PATCH_UNSUPPORTED, t)
                else Option.bind (emit_into (emit def_image global_export) t) (\<lambda>(st, t1).
                  if st \<noteq> HK_CACHE_PATCH_OK then Some (st, t1)
                  else replay_matches m table emit def_image (Some (export_first, export_count, e1 + 1)) (tl ms) t1)))))"

definition emit_uses :: "memory \<Rightarrow> hk_cache_patch_target \<Rightarrow> cache_view \<Rightarrow> table_v2 \<Rightarrow> nat \<Rightarrow> nat \<Rightarrow> 'c site_visit \<Rightarrow>
    nat \<Rightarrow> u32 \<Rightarrow> 'c uses \<Rightarrow> 'c uses cache_step" where
  "emit_uses m target view table version importer_index visit def_image global_export s =
     emit_export_uses m target view table version importer_index def_image global_export visit s"

text \<open>A lookup whose allocation failed is left alone. The result has the lookup as the traversal leaves it.\<close>

definition parse_v2_v4 :: "memory \<Rightarrow> hk_cache_patch_target \<Rightarrow> cache_view \<Rightarrow> nat \<Rightarrow> nat \<Rightarrow> byte list list \<Rightarrow> 'c site_visit \<Rightarrow>
    cache_index_entry list option \<Rightarrow> 'c traversal \<Rightarrow> 'c traversal cache_step" where
  "parse_v2_v4 m target view version importer_index candidates visit index t = do {
     loaded \<leftarrow> load_v2 m view version;
     (case loaded of
        None \<Rightarrow> Some (HK_CACHE_PATCH_MALFORMED, t)
      | Some table \<Rightarrow>
          if snd (t2_images table) = 0 \<or> importer_index \<ge> snd (t2_images table) \<or>
             version \<ge> 3 \<and> snd (t2_got_clients table) \<noteq> snd (t2_images table)
          then Some (HK_CACHE_PATCH_MALFORMED, t)
          else
            let (s, object, heap) = t;
                used = (case object of None \<Rightarrow> False | Some lookup \<Rightarrow> \<not> lk_allocation_failed lookup);
                lookup = (if used then map_option (\<lambda>l. lookup_begin l view version) object else None);
                reuse = (case lookup of None \<Rightarrow> False | Some l \<Rightarrow> lk_complete l);
                emit = emit_uses m target view table version importer_index visit
            in do {
              (st, (s1, lookup1, heap1)) \<leftarrow>
                (if reuse then replay_matches m table emit 0 None (lk_matches (the lookup)) (s, lookup, heap)
                 else case index of
                   Some entries \<Rightarrow> replay_runs m table emit (map (index_run entries) candidates) (s, lookup, heap)
                 | None \<Rightarrow> each_from (scan_definition m table emit candidates) 0 (snd (t2_images table)) (s, lookup, heap));
              Some (st, (s1, if used then (if st = HK_CACHE_PATCH_OK then map_option lookup_finish lookup1 else lookup1) else object, heap1))
            })
   }"

section \<open>The header of the cache\<close>

text \<open>The number of the image with the given header, whose path must be the expected one.\<close>

primrec find_importer :: "memory \<Rightarrow> hk_cache_patch_target \<Rightarrow> u64 \<Rightarrow> ptr \<Rightarrow> nat \<Rightarrow> nat \<Rightarrow> (hk_cache_patch_status + nat) option" where
  "find_importer m target unslid_base images i 0 = Some (Inl HK_CACHE_PATCH_NOT_CACHE)"
| "find_importer m target unslid_base images i (Suc n) = do {
     address \<leftarrow> rd64 m images (i * DCH_IMAGE_INFO_SIZE);
     (if address < unslid_base \<or> unat (address - unslid_base) \<ge> ct_cache_size target \<or>
         ct_cache_base target + (address - unslid_base) \<noteq> ct_image_header target
      then find_importer m target unslid_base images (i + 1) n
      else do {
        path_offset \<leftarrow> map_option unat (rd32 m images (i * DCH_IMAGE_INFO_SIZE + 24));
        path \<leftarrow> cache_string m (ct_cache_base target) (ct_cache_size target) path_offset;
        Some (if path = None \<or> path \<noteq> ct_image_path target then Inl HK_CACHE_PATCH_MALFORMED else Inr i)
      })
   }"

primrec text_uuid_matches :: "memory \<Rightarrow> ptr \<Rightarrow> u64 \<Rightarrow> byte list \<Rightarrow> nat \<Rightarrow> nat \<Rightarrow> bool option" where
  "text_uuid_matches m texts image_unslid uuid i 0 = Some False"
| "text_uuid_matches m texts image_unslid uuid i (Suc n) = do {
     address \<leftarrow> rd64 m texts (i * DCH_TEXT_INFO_SIZE + 16);
     (if address = image_unslid then map_option (\<lambda>bs. bs = uuid) (rd_bytes m texts (i * DCH_TEXT_INFO_SIZE) 16)
      else text_uuid_matches m texts image_unslid uuid (i + 1) n)
   }"

definition uuid_ok :: "memory \<Rightarrow> hk_cache_patch_target \<Rightarrow> nat \<Rightarrow> ptr \<Rightarrow> nat \<Rightarrow> bool option" where
  "uuid_ok m target mapping_offset images importer_index =
     (let base = ct_cache_base target
      in if \<not> ct_uuid_present target then Some True
         else if mapping_offset < DCH_IMAGES_TEXT_COUNT + 8 then Some False
         else do {
           text_offset \<leftarrow> map_option unat (rd64 m base DCH_IMAGES_TEXT_OFFSET);
           text_count \<leftarrow> map_option unat (rd64 m base DCH_IMAGES_TEXT_COUNT);
           (case range_at base (ct_cache_size target) text_offset text_count DCH_TEXT_INFO_SIZE of
              None \<Rightarrow> Some False
            | Some texts \<Rightarrow> do {
                image_unslid \<leftarrow> rd64 m images (importer_index * DCH_IMAGE_INFO_SIZE);
                text_uuid_matches m texts image_unslid (ct_uuid target) 0 text_count
              })
         })"

text \<open>Where the patch table is.\<close>

definition locate_patch :: "memory \<Rightarrow> hk_cache_patch_target \<Rightarrow> nat \<Rightarrow> u64 \<Rightarrow> (hk_cache_patch_status + cache_view) option" where
  "locate_patch m target mapping_offset unslid_base = do {
     let base = ct_cache_base target;
     patch_addr \<leftarrow> rd64 m base DCH_PATCH_INFO_ADDR;
     patch_size \<leftarrow> rd64 m base DCH_PATCH_INFO_SIZE;
     (if patch_addr = 0 \<or> patch_size = 0 then
        (if mapping_offset \<ge> DCH_FORMAT_FLAGS + 4 \<and> ct_cache_size target < DCH_FORMAT_FLAGS + 4 then Some (Inl HK_CACHE_PATCH_MALFORMED)
         else do {
           built_from_chains \<leftarrow> (if mapping_offset \<ge> DCH_FORMAT_FLAGS + 4
             then map_option (\<lambda>flags. flags AND push_bit 11 1 \<noteq> 0) (rd32 m base DCH_FORMAT_FLAGS) else Some False);
           Some (Inl (if built_from_chains then HK_CACHE_PATCH_MALFORMED else HK_CACHE_PATCH_NO_METADATA))
         })
      else if patch_addr < unslid_base \<or> unat (patch_addr - unslid_base) > ct_cache_size target \<or>
          unat patch_size > ct_cache_size target - unat (patch_addr - unslid_base) then Some (Inl HK_CACHE_PATCH_MALFORMED)
      else Some (Inr \<lparr>cv_base = base, cv_size = ct_cache_size target, cv_unslid_base = unslid_base,
             cv_patch = base + (patch_addr - unslid_base), cv_patch_size = unat patch_size\<rparr>))
   }"

text \<open>The images of the header: their table and their number.\<close>

definition cache_images :: "memory \<Rightarrow> hk_cache_patch_target \<Rightarrow> nat \<Rightarrow> (ptr \<times> nat) option option" where
  "cache_images m target mapping_offset = do {
     let base = ct_cache_base target;
     old_offset \<leftarrow> map_option unat (rd32 m base DCH_IMAGES_OFFSET_OLD);
     old_count \<leftarrow> map_option unat (rd32 m base DCH_IMAGES_COUNT_OLD);
     let newer = mapping_offset \<ge> DCH_IMAGES_COUNT + 4;
     (if newer \<and> ct_cache_size target < DCH_IMAGES_COUNT + 4 then Some None
      else do {
        images_offset \<leftarrow> (if newer then map_option unat (rd32 m base DCH_IMAGES_OFFSET) else Some old_offset);
        images_count \<leftarrow> (if newer then map_option unat (rd32 m base DCH_IMAGES_COUNT) else Some old_count);
        Some (map_option (\<lambda>images. (images, images_count))
          (range_at base (ct_cache_size target) images_offset images_count DCH_IMAGE_INFO_SIZE))
      })
   }"

text \<open>The state of the resolver: the indices, the lookup of the preparation, the allocator.\<close>

type_synonym resolver_state = "index_slots \<times> hk_cache_patch_lookup option \<times> heap"

text \<open>The table by its version, and what is left in the lookup.\<close>

definition walk_patch_table :: "memory \<Rightarrow> hk_cache_patch_target \<Rightarrow> cache_view \<Rightarrow> nat \<Rightarrow> nat \<Rightarrow> byte list list \<Rightarrow> 'c site_visit \<Rightarrow>
    bool \<Rightarrow> 'c \<Rightarrow> resolver_state \<Rightarrow> ((hk_cache_patch_status \<times> 'c) \<times> resolver_state) option" where
  "walk_patch_table m target view version importer_index candidates visit given c r =
     (let (slots, object, heap) = r; lookup = (if given then object else None)
      in if version = 1 then do {
           (st, (c1, found)) \<leftarrow> parse_v1 m target view candidates visit (c, False);
           let left = (if st \<noteq> HK_CACHE_PATCH_OK then map_option (\<lambda>l. l\<lparr>lk_complete := False\<rparr>) lookup else lookup);
           Some ((if st \<noteq> HK_CACHE_PATCH_OK then st else if found then HK_CACHE_PATCH_OK else HK_CACHE_PATCH_NOT_FOUND, c1),
                 (slots, if given then left else object, heap))
         }
         else if version \<ge> 2 \<and> version \<le> 4 then do {
           let lookup_complete = (case lookup of None \<Rightarrow> False
               | Some l \<Rightarrow> lk_complete l \<and> lk_version l = version \<and> lk_view l = view);
           (index, slots1, heap1) \<leftarrow> (if ct_immutable_metadata target \<and> \<not> lookup_complete
             then cache_index_acquire m view version (slots, heap) else Some (None, slots, heap));
           (st, ((c1, found), lookup1, heap2)) \<leftarrow>
             parse_v2_v4 m target view version importer_index candidates visit index ((c, False), lookup, heap1);
           let left = (if st \<noteq> HK_CACHE_PATCH_OK then map_option (\<lambda>l. l\<lparr>lk_complete := False\<rparr>) lookup1 else lookup1);
           Some ((if st \<noteq> HK_CACHE_PATCH_OK then st else if found then HK_CACHE_PATCH_OK else HK_CACHE_PATCH_NOT_FOUND, c1),
                 (slots1, if given then left else object, heap2))
         }
         else Some ((HK_CACHE_PATCH_UNSUPPORTED, c), r))"

text \<open>The version is read before the size of the table is checked.\<close>

definition check_patch_table :: "memory \<Rightarrow> cache_view \<Rightarrow> nat \<Rightarrow> nat \<Rightarrow> (hk_cache_patch_status + nat) option" where
  "check_patch_table m view mapping_offset images_count = do {
     version \<leftarrow> (if mapping_offset \<le> DCH_SWIFT_OPTS_SIZE then Some 1 else map_option unat (rd32 m (cv_patch view) 0));
     (if cv_patch_size view < 24 then Some (Inl HK_CACHE_PATCH_MALFORMED)
      else do {
        patch_image_count \<leftarrow> map_option unat (rd64 m (cv_patch view) (if version = 1 then 8 else 16));
        Some (if patch_image_count \<noteq> images_count then Inl HK_CACHE_PATCH_MALFORMED else Inr version)
      })
   }"

text \<open>Everything the header must say: the importer's number, the table and its version.\<close>

definition open_cache :: "memory \<Rightarrow> hk_cache_patch_target \<Rightarrow> byte list \<Rightarrow> hk_symbol_name_convention \<Rightarrow>
    (hk_cache_patch_status + nat \<times> cache_view \<times> nat \<times> byte list list) option" where
  "open_cache m target symbol_name convention = do {
     let base = ct_cache_base target;
     mapping_offset \<leftarrow> map_option unat (rd32 m base DCH_MAPPING_OFFSET);
     mapping_count \<leftarrow> map_option unat (rd32 m base DCH_MAPPING_COUNT);
     (case (if mapping_count = 0 then None
            else range_at base (ct_cache_size target) mapping_offset mapping_count DCH_MAPPING_INFO_SIZE) of
        None \<Rightarrow> Some (Inl HK_CACHE_PATCH_MALFORMED)
      | Some mappings \<Rightarrow> do {
          file_offset \<leftarrow> rd64 m mappings 16;
          (if file_offset \<noteq> 0 then Some (Inl HK_CACHE_PATCH_MALFORMED)
           else do {
             unslid_base \<leftarrow> rd64 m mappings 0;
             (if ct_image_slide target \<noteq> base - unslid_base then Some (Inl HK_CACHE_PATCH_MALFORMED)
              else do {
                table \<leftarrow> cache_images m target mapping_offset;
                (case table of
                   None \<Rightarrow> Some (Inl HK_CACHE_PATCH_MALFORMED)
                 | Some (images, images_count) \<Rightarrow> do {
                     importer \<leftarrow> find_importer m target unslid_base images 0 images_count;
                     (case importer of
                        Inl st \<Rightarrow> Some (Inl st)
                      | Inr importer_index \<Rightarrow> do {
                          same \<leftarrow> uuid_ok m target mapping_offset images importer_index;
                          (if \<not> same then Some (Inl HK_CACHE_PATCH_MALFORMED)
                           else do {
                             located \<leftarrow> locate_patch m target mapping_offset unslid_base;
                             (case located of
                                Inl st \<Rightarrow> Some (Inl st)
                              | Inr view \<Rightarrow>
                                  (case hk_symbol_build_candidates symbol_name convention of
                                     Inl _ \<Rightarrow> Some (Inl HK_CACHE_PATCH_INVALID_ARGUMENT)
                                   | Inr candidates \<Rightarrow>
                                       map_option (\<lambda>checked. case checked of Inl st \<Rightarrow> Inl st
                                           | Inr version \<Rightarrow> Inr (importer_index, view, version, candidates))
                                         (check_patch_table m view mapping_offset images_count)))
                           })
                        })
                   })
              })
           })
        })
   }"

definition hk_dyld_cache_iterate_symbol_uses_with_lookup :: "memory \<Rightarrow> hk_cache_patch_target \<Rightarrow> byte list \<Rightarrow>
    hk_symbol_name_convention \<Rightarrow> 'c site_visit \<Rightarrow> 'c \<Rightarrow> resolver_state \<Rightarrow>
    ((hk_cache_patch_status \<times> 'c) \<times> resolver_state) option" where
  "hk_dyld_cache_iterate_symbol_uses_with_lookup m target symbol_name convention visit c r =
     (let given = (case fst (snd r) of None \<Rightarrow> False
          | Some lookup \<Rightarrow> lk_convention lookup = convention \<and> lk_symbol lookup = symbol_name)
      in if ct_cache_base target = 0 \<or> ct_image_header target = 0 \<or> ct_image_path target = None \<or> ct_cache_size target < 168
         then Some ((HK_CACHE_PATCH_INVALID_ARGUMENT, c), r)
         else if ct_cache_size target > unat (- 1 - ct_cache_base target) \<or> ct_image_header target < ct_cache_base target \<or>
           unat (ct_image_header target - ct_cache_base target) \<ge> ct_cache_size target
         then Some ((HK_CACHE_PATCH_NOT_CACHE, c), r)
         else do {
           opened \<leftarrow> open_cache m target symbol_name convention;
           (case opened of
              Inl st \<Rightarrow> Some ((st, c), r)
            | Inr (importer_index, view, version, candidates) \<Rightarrow>
                walk_patch_table m target view version importer_index candidates visit given c r)
         })"

definition hk_dyld_cache_iterate_symbol_uses :: "memory \<Rightarrow> hk_cache_patch_target \<Rightarrow> byte list \<Rightarrow> hk_symbol_name_convention \<Rightarrow>
    'c site_visit \<Rightarrow> 'c \<Rightarrow> index_slots \<times> heap \<Rightarrow> ((hk_cache_patch_status \<times> 'c) \<times> index_slots \<times> heap) option" where
  "hk_dyld_cache_iterate_symbol_uses m target symbol_name convention visit c sh =
     map_option (\<lambda>(result, slots, _, heap). (result, slots, heap))
       (hk_dyld_cache_iterate_symbol_uses_with_lookup m target symbol_name convention visit c (fst sh, None, snd sh))"

end
