(* ===== verification/HK_CacheLookup_Props.thy ===== *)
theory HK_CacheLookup_Props
  imports HK_CacheLookup
begin

text \<open>
  The three routes through a patch table agree: the direct scan, the sorted index and the matches of a
  completed lookup report the same uses in the same order, with the same status. And the traversal reads
  nothing outside the cache and the header of the importing image.
\<close>

section \<open>The uses of a list of exports\<close>

text \<open>What every route amounts to: the kind of each export is checked and its uses are emitted.\<close>

primrec uses_of :: "memory \<Rightarrow> table_v2 \<Rightarrow> (nat \<Rightarrow> u32 \<Rightarrow> 'c uses \<Rightarrow> 'c uses cache_step) \<Rightarrow> cache_index_entry list \<Rightarrow>
    'c uses \<Rightarrow> 'c uses cache_step" where
  "uses_of m table emit [] s = Some (HK_CACHE_PATCH_OK, s)"
| "uses_of m table emit (e # es) s = do {
     name_and_kind \<leftarrow> rd32 m (fst (t2_image_exports table)) (unat (xe_export_index e) * CACHE_IMAGE_EXPORT_V2_SIZE + 4);
     (if drop_bit 28 name_and_kind \<noteq> 0 then Some (HK_CACHE_PATCH_UNSUPPORTED, s)
      else then_ok (emit (xe_defining_image e) (xe_export_index e) s) (uses_of m table emit es))
   }"

text \<open>The result without the lookup and the allocator.\<close>

definition client_part :: "'c traversal cache_step \<Rightarrow> 'c uses cache_step" where
  "client_part r = map_option (\<lambda>(st, t). (st, fst t)) r"

lemma client_part_simps [simp]:
  "client_part None = None" "client_part (Some (st, t)) = Some (st, fst t)"
  "client_part (if P then r else r') = (if P then client_part r else client_part r')"
  by (simp_all add: client_part_def)

lemma client_part_bind: "client_part (Option.bind r f) = Option.bind r (\<lambda>v. client_part (f v))"
  by (cases r) simp_all

lemma client_part_emit: "client_part (emit_into emit t) = emit (fst t)"
  by (cases "emit (fst t)") (auto simp: emit_into_def)

lemma client_part_then: "(\<And>t. client_part (f t) = g (fst t)) \<Longrightarrow> client_part (then_ok r f) = then_ok (client_part r) g"
  by (cases r) (auto simp: then_ok_def)

lemma then_ok_simps [simp]:
  "then_ok None f = None" "then_ok (Some (st, s)) f = (if st \<noteq> HK_CACHE_PATCH_OK then Some (st, s) else f s)"
  by (simp_all add: then_ok_def)

lemma then_ok_assoc: "then_ok (then_ok r f) g = then_ok r (\<lambda>s. then_ok (f s) g)"
  by (cases r) auto

lemma uses_of_append: "uses_of m table emit (xs @ ys) s = then_ok (uses_of m table emit xs s) (uses_of m table emit ys)"
proof (induction xs arbitrary: s)
  case (Cons e es)
  have IH: "uses_of m table emit (es @ ys) = (\<lambda>s. then_ok (uses_of m table emit es s) (uses_of m table emit ys))"
    by (rule ext) (rule Cons.IH)
  show ?case
    by (cases "rd32 m (fst (t2_image_exports table)) (unat (xe_export_index e) * CACHE_IMAGE_EXPORT_V2_SIZE + 4)")
      (simp_all add: then_ok_assoc IH)
qed simp

abbreviation wanted :: "byte list list \<Rightarrow> cache_index_entry list \<Rightarrow> cache_index_entry list" where
  "wanted candidates es \<equiv> filter (\<lambda>e. xe_name e \<in> set candidates) es"

section \<open>The direct scan\<close>

lemma scan_row:
  "row_entries m table d first e n = Some (Some es) \<Longrightarrow>
   client_part (each_from (scan_export m table emit candidates d first) e n t) = uses_of m table emit (wanted candidates es) (fst t)"
proof (induction n arbitrary: e es t)
  case (Suc n)
  let ?g = "first + of_nat e"
  obtain nk nm rest where r: "rd32 m (fst (t2_image_exports table)) (unat ?g * CACHE_IMAGE_EXPORT_V2_SIZE + 4) = Some nk"
    "cache_string m (fst (t2_names table)) (snd (t2_names table)) (unat (nk AND 0x0FFFFFFF)) = Some (Some nm)"
    "row_entries m table d first (e + 1) n = Some (Some rest)"
    "es = \<lparr>xe_name = nm, xe_defining_image = d, xe_export_index = ?g\<rparr> # rest"
    using Suc.prems by (auto simp: Let_def split: bind_splits option.splits)
  have tail: "client_part (each_from (scan_export m table emit candidates d first) (Suc e) n t1) =
      uses_of m table emit (wanted candidates rest) (fst t1)" for t1
    using Suc.IH [OF r(3)] by simp
  have "client_part (scan_export m table emit candidates d first e t) =
      (if nm \<notin> set candidates then Some (HK_CACHE_PATCH_OK, fst t)
       else if drop_bit 28 nk \<noteq> 0 then Some (HK_CACHE_PATCH_UNSUPPORTED, fst t) else emit d ?g (fst t))"
    using r(1,2) by (simp add: scan_export_def Let_def client_part_emit)
  then show ?case
    using r(1) by (simp add: r(4) client_part_then [where g = "uses_of m table emit (wanted candidates rest)", OF tail])
qed simp

lemma scan_all:
  "all_entries m table d n = Some (Some es) \<Longrightarrow> (\<And>i. d \<le> i \<Longrightarrow> i < d + n \<Longrightarrow> \<exists>r. row_counts m table i = Some (Some r)) \<Longrightarrow>
   client_part (each_from (scan_definition m table emit candidates) d n t) = uses_of m table emit (wanted candidates es) (fst t)"
proof (induction n arbitrary: d es t)
  case (Suc n)
  obtain first cnt here rest where r: "rd32 m (fst (t2_images table)) (d * CACHE_IMAGE_PATCH_V2_SIZE + 8) = Some first"
    "rd32 m (fst (t2_images table)) (d * CACHE_IMAGE_PATCH_V2_SIZE + 12) = Some cnt"
    "row_entries m table d first 0 (unat cnt) = Some (Some here)" "all_entries m table (d + 1) n = Some (Some rest)" "es = here @ rest"
    using Suc.prems(1) by (auto simp: Let_def split: bind_splits option.splits)
  have row: "row_counts m table d = Some (Some (first, cnt))"
    using Suc.prems(2) [of d] r(1,2) by (auto simp: row_counts_def Let_def split: bind_splits if_splits)
  have tail: "client_part (each_from (scan_definition m table emit candidates) (Suc d) n t1) =
      uses_of m table emit (wanted candidates rest) (fst t1)" for t1
    using Suc.IH [OF r(4)] Suc.prems(2) by simp
  have "client_part (scan_definition m table emit candidates d t) = uses_of m table emit (wanted candidates here) (fst t)"
    by (simp add: scan_definition_def row scan_row [OF r(3)])
  then show ?case
    by (simp add: r(5) client_part_then [where g = "uses_of m table emit (wanted candidates rest)", OF tail] uses_of_append)
qed simp

lemma scan_export_client:
  "client_part (scan_export m table emit candidates d first e t) = client_part (scan_export m table emit candidates d first e (fst t, None, []))"
  by (auto simp: scan_export_def Let_def client_part_bind client_part_emit cong: option.case_cong split: option.split
      intro!: Option.bind_cong)

lemma each_from_client:
  assumes "\<And>i t. client_part (f i t) = client_part (f i (fst t, None, []))"
  shows "client_part (each_from f i n t) = client_part (each_from f i n (fst t, None, []))"
proof -
  have "client_part (each_from f i n t) = each_from (\<lambda>i s. client_part (f i (s, None, []))) i n (fst t)" for t
  proof (induction n arbitrary: i t)
    case (Suc n)
    show ?case
      using assms by (simp add: client_part_then [where g = "each_from (\<lambda>i s. client_part (f i (s, None, []))) (Suc i) n", OF Suc.IH])
  qed simp
  then show ?thesis by simp
qed

lemma scan_definition_client:
  "client_part (scan_definition m table emit candidates d t) = client_part (scan_definition m table emit candidates d (fst t, None, []))"
proof -
  have "client_part (each_from (scan_export m table emit candidates d first) 0 n t) =
      client_part (each_from (scan_export m table emit candidates d first) 0 n (fst t, None, []))" for first n
    by (rule each_from_client [where f = "scan_export m table emit candidates d first"]) (rule scan_export_client)
  then show ?thesis
    by (auto simp: scan_definition_def client_part_bind intro!: Option.bind_cong split: option.split prod.split)
qed

section \<open>The order of the scan\<close>

definition row_first :: "memory \<Rightarrow> table_v2 \<Rightarrow> nat \<Rightarrow> u32" where
  "row_first m table d = (case row_counts m table d of Some (Some (first, _)) \<Rightarrow> first | _ \<Rightarrow> 0)"

text \<open>The scan goes through the definitions, and in each through its exports.\<close>

definition scan_less :: "memory \<Rightarrow> table_v2 \<Rightarrow> cache_index_entry \<Rightarrow> cache_index_entry \<Rightarrow> bool" where
  "scan_less m table a b \<longleftrightarrow>
     xe_defining_image a < xe_defining_image b \<or>
     xe_defining_image a = xe_defining_image b \<and>
       xe_export_index a - row_first m table (xe_defining_image a) < xe_export_index b - row_first m table (xe_defining_image a)"

definition in_row :: "memory \<Rightarrow> table_v2 \<Rightarrow> cache_index_entry \<Rightarrow> bool" where
  "in_row m table x \<longleftrightarrow> (\<exists>first cnt. row_counts m table (xe_defining_image x) = Some (Some (first, cnt)) \<and> xe_export_index x - first < cnt)"

lemma row_entries_index:
  "row_entries m table d first e n = Some (Some es) \<Longrightarrow>
   map xe_export_index es = map (\<lambda>i. first + of_nat i) [e..<e + n] \<and> (\<forall>x \<in> set es. xe_defining_image x = d)"
proof (induction n arbitrary: e es)
  case (Suc n)
  obtain nm rest where r: "row_entries m table d first (e + 1) n = Some (Some rest)"
    "es = \<lparr>xe_name = nm, xe_defining_image = d, xe_export_index = first + of_nat e\<rparr> # rest"
    using Suc.prems by (auto simp: Let_def split: bind_splits option.splits)
  have "[e..<e + Suc n] = e # [Suc e..<Suc e + n]" by (simp add: upt_conv_Cons)
  then show ?case using Suc.IH [OF r(1)] r(2) by simp
qed simp

lemma u32_less: "unat (x :: u32) < 2 ^ 32"
  using unsigned_less [of x] by simp

lemma row_entries_order:
  assumes "row_entries m table d first 0 (unat cnt) = Some (Some es)"
  shows "sorted_wrt (\<lambda>a b. xe_export_index a - first < xe_export_index b - first) es"
    "x \<in> set es \<Longrightarrow> xe_export_index x - first < cnt" "x \<in> set es \<Longrightarrow> xe_defining_image x = d"
proof -
  have i: "map xe_export_index es = map (\<lambda>i. first + of_nat i) [0..<unat cnt]" and d: "\<forall>x \<in> set es. xe_defining_image x = d"
    using row_entries_index [OF assms] by simp_all
  then have len: "length es = unat cnt" by (metis length_map length_upt minus_nat.diff_0)
  have nth: "xe_export_index (es ! k) - first = of_nat k" if "k < unat cnt" for k
  proof -
    have "map xe_export_index es ! k = first + of_nat k" using that by (simp add: i)
    then show ?thesis using that len by simp
  qed
  have small: "unat (of_nat k :: u32) = k" if "k < unat cnt" for k
    using that u32_less [of cnt] by (simp add: unat_of_nat take_bit_nat_eq_self)
  show "sorted_wrt (\<lambda>a b. xe_export_index a - first < xe_export_index b - first) es"
    unfolding sorted_wrt_iff_nth_less
  proof (intro allI impI)
    fix i j assume ij: "i < j" "j < length es"
    then have "i < unat cnt" "j < unat cnt" using len by auto
    then show "xe_export_index (es ! i) - first < xe_export_index (es ! j) - first"
      using ij(1) by (simp add: nth word_less_nat_alt small)
  qed
  show "x \<in> set es \<Longrightarrow> xe_export_index x - first < cnt"
    by (auto simp: in_set_conv_nth len nth word_less_nat_alt small)
  show "x \<in> set es \<Longrightarrow> xe_defining_image x = d" using d by simp
qed

lemma all_entries_order:
  "all_entries m table d n = Some (Some es) \<Longrightarrow> (\<And>i. d \<le> i \<Longrightarrow> i < d + n \<Longrightarrow> \<exists>r. row_counts m table i = Some (Some r)) \<Longrightarrow>
   sorted_wrt (scan_less m table) es \<and> (\<forall>x \<in> set es. d \<le> xe_defining_image x \<and> xe_defining_image x < d + n \<and> in_row m table x)"
proof (induction n arbitrary: d es)
  case (Suc n)
  obtain first cnt here rest where r: "rd32 m (fst (t2_images table)) (d * CACHE_IMAGE_PATCH_V2_SIZE + 8) = Some first"
    "rd32 m (fst (t2_images table)) (d * CACHE_IMAGE_PATCH_V2_SIZE + 12) = Some cnt"
    "row_entries m table d first 0 (unat cnt) = Some (Some here)" "all_entries m table (d + 1) n = Some (Some rest)" "es = here @ rest"
    using Suc.prems(1) by (auto simp: Let_def split: bind_splits option.splits)
  have row: "row_counts m table d = Some (Some (first, cnt))"
    using Suc.prems(2) [of d] r(1,2) by (auto simp: row_counts_def Let_def split: bind_splits if_splits)
  then have f: "row_first m table d = first" by (simp add: row_first_def)
  note h = row_entries_order [OF r(3)]
  have t: "sorted_wrt (scan_less m table) rest"
    "\<forall>x \<in> set rest. d + 1 \<le> xe_defining_image x \<and> xe_defining_image x < d + 1 + n \<and> in_row m table x"
    using Suc.IH [OF r(4)] Suc.prems(2) by simp_all
  have "sorted_wrt (scan_less m table) here"
    by (rule sorted_wrt_mono_rel [OF _ h(1)]) (use h(3) f in \<open>simp add: scan_less_def\<close>)
  moreover have "\<forall>x \<in> set here. in_row m table x"
  proof
    fix x assume "x \<in> set here"
    then show "in_row m table x" using h(2,3) row unfolding in_row_def by blast
  qed
  moreover have "\<forall>x \<in> set here. \<forall>y \<in> set rest. scan_less m table x y"
    using h(3) t(2) by (auto simp: scan_less_def)
  ultimately show ?case using t h(3) by (auto simp: r(5) sorted_wrt_append)
qed simp

lemma row_counts_bound: "row_counts m table d = Some (Some (first, cnt)) \<Longrightarrow> unat first + unat cnt \<le> snd (t2_image_exports table)"
  by (auto simp: row_counts_def Let_def split: bind_splits if_splits)

text \<open>When the numbers of exports fit in 32 bits, this is the order of the index.\<close>

lemma scan_less_entry_less:
  assumes "scan_less m table a b" "in_row m table a" "in_row m table b" "snd (t2_image_exports table) \<le> 2 ^ 32 - 1"
  shows "cache_index_entry_less a b"
proof (cases "xe_defining_image a = xe_defining_image b")
  case True
  obtain first cnt where row: "row_counts m table (xe_defining_image a) = Some (Some (first, cnt))" "xe_export_index a - first < cnt"
    "xe_export_index b - first < cnt"
    using assms(2,3) True by (auto simp: in_row_def)
  have bound: "unat first + unat cnt < 2 ^ 32" using row_counts_bound [OF row(1)] assms(4) by simp
  have no_wrap: "unat x = unat first + unat (x - first)" if "x - first < cnt" for x
  proof -
    have "unat (first + y) = unat first + unat y" if "unat first + unat y < 2 ^ 32" for y :: u32
      using that by (simp add: unat_word_ariths)
    from this [of "x - first"] show ?thesis using that bound by (simp add: word_less_nat_alt)
  qed
  have "xe_export_index a - first < xe_export_index b - first"
    using assms(1) True row(1) by (simp add: scan_less_def row_first_def)
  then have "unat (xe_export_index a) < unat (xe_export_index b)"
    using no_wrap [OF row(2)] no_wrap [OF row(3)] by (simp add: word_less_nat_alt)
  then show ?thesis using True by (simp add: cache_index_entry_less_def word_less_nat_alt)
qed (use assms(1) in \<open>auto simp: scan_less_def cache_index_entry_less_def\<close>)

section \<open>The index\<close>

lemma strcmp_simps [simp]: "c_strcmp a b < 0 \<longleftrightarrow> a < b" "c_strcmp a b = 0 \<longleftrightarrow> a = b"
  by (auto simp: c_strcmp_def)

text \<open>The comparison given to \<open>qsort\<close> is the order of the keys.\<close>

lemma entry_compare_key: "cache_index_entry_compare a b < 0 \<longleftrightarrow> entry_key a < entry_key b"
  by (auto simp: cache_index_entry_compare_def entry_key_def c_strcmp_def Let_def)

lemma lower_bound_spec:
  assumes "sorted (map xe_name xs)" "low \<le> high" "high \<le> length xs" "\<forall>i < low. xe_name (xs ! i) < name"
    "\<forall>i. high \<le> i \<and> i < length xs \<longrightarrow> \<not> xe_name (xs ! i) < name"
  shows "lower_bound_from xs name low high \<le> length xs \<and> (\<forall>i < lower_bound_from xs name low high. xe_name (xs ! i) < name) \<and>
    (\<forall>i. lower_bound_from xs name low high \<le> i \<and> i < length xs \<longrightarrow> \<not> xe_name (xs ! i) < name)"
  using assms
proof (induction xs name low high rule: lower_bound_from.induct)
  case (1 xs name low high)
  show ?case
  proof (cases "low < high")
    case False
    then have "lower_bound_from xs name low high = low" by (simp add: lower_bound_from.simps)
    then show ?thesis using "1.prems" False by simp
  next
    case True
    let ?mid = "low + (high - low) div 2"
    have mid: "low \<le> ?mid" "?mid < high" "?mid < length xs" using True "1.prems"(3) by linarith+
    have mono: "xe_name (xs ! i) \<le> xe_name (xs ! j)" if "i \<le> j" "j < length xs" for i j
      using sorted_nth_mono [OF "1.prems"(1), of i j] that by simp
    show ?thesis
    proof (cases "xe_name (xs ! ?mid) < name")
      case True
      have below: "\<forall>i < ?mid + 1. xe_name (xs ! i) < name"
      proof (intro allI impI)
        fix i assume "i < ?mid + 1"
        then have "xe_name (xs ! i) \<le> xe_name (xs ! ?mid)" using mono [of i ?mid] mid(3) by simp
        then show "xe_name (xs ! i) < name" using True by simp
      qed
      have step: "lower_bound_from xs name low high = lower_bound_from xs name (?mid + 1) high"
        using \<open>low < high\<close> True by (simp add: lower_bound_from.simps [of xs name low high] Let_def)
      have "c_strcmp (xe_name (xs ! ?mid)) name < 0" using True by simp
      moreover have "?mid + 1 \<le> high" using mid(2) by simp
      ultimately show ?thesis
        unfolding step using "1.IH"(1) [OF \<open>low < high\<close> refl _ "1.prems"(1) _ "1.prems"(3) below "1.prems"(5)] by blast
    next
      case False
      have above: "\<forall>i. ?mid \<le> i \<and> i < length xs \<longrightarrow> \<not> xe_name (xs ! i) < name"
      proof (intro allI impI)
        fix i assume i: "?mid \<le> i \<and> i < length xs"
        then have "xe_name (xs ! ?mid) \<le> xe_name (xs ! i)" using mono [of ?mid i] by simp
        then show "\<not> xe_name (xs ! i) < name" using False by (meson le_less_trans)
      qed
      have step: "lower_bound_from xs name low high = lower_bound_from xs name low ?mid"
        using \<open>low < high\<close> False by (simp add: lower_bound_from.simps [of xs name low high] Let_def)
      have "\<not> c_strcmp (xe_name (xs ! ?mid)) name < 0" using False by simp
      moreover have "?mid \<le> length xs" using mid(3) by simp
      ultimately show ?thesis
        unfolding step using "1.IH"(2) [OF \<open>low < high\<close> refl _ "1.prems"(1) mid(1) _ "1.prems"(4) above] by blast
    qed
  qed
qed

lemma takeWhile_filter:
  "sorted (map f xs) \<Longrightarrow> \<forall>x \<in> set xs. \<not> f x < c \<Longrightarrow> takeWhile (\<lambda>x. f x = c) xs = filter (\<lambda>x. f x = c) xs" for c :: "'b :: linorder"
proof (induction xs)
  case (Cons x xs)
  have "filter (\<lambda>y. f y = c) xs = []" if "f x \<noteq> c"
  proof -
    have "c < f x" using Cons.prems(2) that by (simp add: not_less_iff_gr_or_eq)
    moreover have "\<forall>y \<in> set xs. f x \<le> f y" using Cons.prems(1) by simp
    ultimately show ?thesis by (auto simp: filter_empty_conv)
  qed
  then show ?case using Cons by simp
qed simp

lemma index_run_filter:
  assumes "sorted (map xe_name xs)"
  shows "index_run xs name = filter (\<lambda>e. xe_name e = name) xs"
proof -
  define r where "r = cache_index_lower_bound xs name"
  have r: "r \<le> length xs" "\<forall>i < r. xe_name (xs ! i) < name" "\<forall>i. r \<le> i \<and> i < length xs \<longrightarrow> \<not> xe_name (xs ! i) < name"
  proof -
    have "\<forall>i < 0. xe_name (xs ! i) < name" "\<forall>i. length xs \<le> i \<and> i < length xs \<longrightarrow> \<not> xe_name (xs ! i) < name"
      by (simp, metis not_less)
    from lower_bound_spec [OF assms _ _ this] show "r \<le> length xs" "\<forall>i < r. xe_name (xs ! i) < name"
      "\<forall>i. r \<le> i \<and> i < length xs \<longrightarrow> \<not> xe_name (xs ! i) < name"
      unfolding r_def cache_index_lower_bound_def by (metis le0 order_refl)+
  qed
  have before: "filter (\<lambda>e. xe_name e = name) (take r xs) = []"
  proof -
    have "xe_name x < name" if "x \<in> set (take r xs)" for x
      using that r(1,2) by (auto simp: in_set_conv_nth)
    then show ?thesis by (auto simp: filter_empty_conv)
  qed
  have "sorted (map xe_name (drop r xs))" using assms by (simp add: drop_map [symmetric] sorted_wrt_drop)
  moreover have "\<forall>x \<in> set (drop r xs). \<not> xe_name x < name"
  proof
    fix x assume "x \<in> set (drop r xs)"
    then obtain k where "k < length (drop r xs)" "x = drop r xs ! k" by (auto simp: in_set_conv_nth)
    then show "\<not> xe_name x < name" using r(3) [rule_format, of "r + k"] r(1) by simp
  qed
  ultimately have "takeWhile (\<lambda>e. xe_name e = name) (drop r xs) = filter (\<lambda>e. xe_name e = name) (drop r xs)"
    by (rule takeWhile_filter)
  moreover have "filter (\<lambda>e. xe_name e = name) xs = filter (\<lambda>e. xe_name e = name) (take r xs) @ filter (\<lambda>e. xe_name e = name) (drop r xs)"
    by (metis append_take_drop_id filter_append)
  ultimately show ?thesis unfolding index_run_def r_def [symmetric] strcmp_simps before by simp
qed

text \<open>The run of a name in the index has the exports of that name in the order of the scan.\<close>

lemma index_run_scan:
  assumes "sorted_wrt cache_index_entry_less es"
  shows "index_run (qsort_entries es) name = filter (\<lambda>e. xe_name e = name) es"
proof -
  have "sorted (map entry_key (qsort_entries es))" by (simp add: qsort_entries_def)
  then have "sorted (map xe_name (qsort_entries es))"
    unfolding sorted_map by (rule sorted_wrt_mono_rel [rotated]) (auto simp: entry_key_def)
  then have "index_run (qsort_entries es) name = filter (\<lambda>e. xe_name e = name) (qsort_entries es)" by (rule index_run_filter)
  also have "\<dots> = sort_key entry_key (filter (\<lambda>e. xe_name e = name) es)" by (simp add: qsort_entries_def filter_sort)
  also have "\<dots> = filter (\<lambda>e. xe_name e = name) es"
  proof (rule sort_key_id_if_sorted)
    have "sorted_wrt cache_index_entry_less (filter (\<lambda>e. xe_name e = name) es)" using assms by (rule sorted_wrt_filter)
    then show "sorted (map entry_key (filter (\<lambda>e. xe_name e = name) es))"
      unfolding sorted_map
      by (rule sorted_wrt_mono_rel [rotated]) (auto simp: entry_key_def cache_index_entry_less_def split: if_splits)
  qed
  finally show ?thesis .
qed

section \<open>The three routes\<close>

text \<open>The head that comes before all others is picked.\<close>

lemma pick_run_first:
  assumes "p < length runs" "runs ! p \<noteq> []"
    and first: "\<And>q. q < length runs \<Longrightarrow> q \<noteq> p \<Longrightarrow> runs ! q \<noteq> [] \<Longrightarrow> cache_index_entry_less (hd (runs ! p)) (hd (runs ! q))"
  shows "pick_run runs = Some p"
proof -
  have asym: "\<not> cache_index_entry_less b a" if "cache_index_entry_less a b" for a b
    using that by (auto simp: cache_index_entry_less_def split: if_splits)
  have before: "fold (pick_step runs) cs q = None \<or> (\<exists>c \<in> set cs. fold (pick_step runs) cs q = Some c \<and> runs ! c \<noteq> []) \<or> fold (pick_step runs) cs q = q"
    for cs q
  proof (induction cs arbitrary: q)
    case (Cons c cs)
    show ?case using Cons.IH [of "pick_step runs c q"] pick_step_cases [of runs c q] by auto
  qed simp
  have at: "pick_step runs p q = Some p" if "q = None \<or> (\<exists>c < p. q = Some c \<and> runs ! c \<noteq> [])" for q
    using that first assms(1,2) by (auto simp: pick_step_def)
  have after: "fold (pick_step runs) cs (Some p) = Some p" if "\<forall>c \<in> set cs. p < c \<and> c < length runs" for cs
    using that
  proof (induction cs)
    case (Cons c cs)
    have "pick_step runs c (Some p) = Some p"
      using first [of c] asym Cons.prems by (auto simp: pick_step_def)
    then show ?case using Cons by simp
  qed simp
  have "[0..<length runs] = [0..<p] @ p # [Suc p..<length runs]"
    using assms(1) by (metis le_add_diff_inverse less_imp_le_nat upt_add_eq_append upt_conv_Cons zero_le)
  then have "pick_run runs = fold (pick_step runs) [Suc p..<length runs] (pick_step runs p (fold (pick_step runs) [0..<p] None))"
    by (simp add: pick_run_def)
  moreover have "pick_step runs p (fold (pick_step runs) [0..<p] None) = Some p"
    by (rule at) (use before [of "[0..<p]" None] in auto)
  ultimately show ?thesis using after by simp
qed

lemma pick_run_None: "\<forall>r \<in> set runs. r = [] \<Longrightarrow> pick_run runs = None"
  using pick_run_Some [of runs] by (cases "pick_run runs") auto

definition run_of :: "cache_index_entry list \<Rightarrow> byte list \<Rightarrow> cache_index_entry list" where
  "run_of es name = filter (\<lambda>e. xe_name e = name) es"

lemma replay_runs_Cons:
  assumes "distinct candidates" "sorted_wrt cache_index_entry_less (e # es)"
  shows "replay_runs m table emit (map (run_of (e # es)) candidates) t =
    (if xe_name e \<notin> set candidates then replay_runs m table emit (map (run_of es) candidates) t
     else do {
       name_and_kind \<leftarrow> rd32 m (fst (t2_image_exports table)) (unat (xe_export_index e) * CACHE_IMAGE_EXPORT_V2_SIZE + 4);
       (if drop_bit 28 name_and_kind \<noteq> 0 then Some (HK_CACHE_PATCH_UNSUPPORTED, t)
        else then_ok (emit_into (emit (xe_defining_image e) (xe_export_index e))
               (fst t, lookup_append (xe_defining_image e) (xe_export_index e) (snd t)))
             (replay_runs m table emit (map (run_of es) candidates)))
     })"
proof (cases "xe_name e \<in> set candidates")
  case False
  then have same: "map (run_of (e # es)) candidates = map (run_of es) candidates" by (auto simp: run_of_def)
  show ?thesis unfolding same using False by simp
next
  case True
  then obtain p where p: "p < length candidates" "candidates ! p = xe_name e" by (auto simp: in_set_conv_nth)
  let ?runs = "map (run_of (e # es)) candidates"
  have head: "?runs ! p = e # run_of es (xe_name e)" using p by (simp add: run_of_def)
  have other: "?runs ! q = run_of es (candidates ! q)" if "q < length candidates" "q \<noteq> p" for q
    using that p assms(1) by (auto simp: run_of_def nth_eq_iff_index_eq)
  have pick: "pick_run ?runs = Some p"
  proof (rule pick_run_first)
    fix q assume q: "q < length ?runs" "q \<noteq> p" "?runs ! q \<noteq> []"
    then have "hd (?runs ! q) \<in> set es"
      using other [of q] hd_in_set [of "run_of es (candidates ! q)"] by (auto simp: run_of_def)
    then show "cache_index_entry_less (hd (?runs ! p)) (hd (?runs ! q))" using assms(2) head by simp
  qed (use p head in simp_all)
  have rest: "?runs[p := tl (?runs ! p)] = map (run_of es) candidates"
  proof (rule nth_equalityI)
    fix q assume "q < length (?runs[p := tl (?runs ! p)])"
    then show "?runs[p := tl (?runs ! p)] ! q = map (run_of es) candidates ! q"
      using head other [of q] p by (cases "q = p") simp_all
  qed simp
  show ?thesis
    unfolding replay_runs.simps [of m table emit ?runs] pick option.case Let_def rest
    unfolding head list.sel using True by simp
qed

lemma replay_runs_scan:
  assumes "distinct candidates"
  shows "sorted_wrt cache_index_entry_less es \<Longrightarrow>
    client_part (replay_runs m table emit (map (run_of es) candidates) t) = uses_of m table emit (wanted candidates es) (fst t)"
proof (induction es arbitrary: t)
  case Nil
  have "pick_run (map (run_of []) candidates) = None" by (rule pick_run_None) (simp add: run_of_def)
  then show ?case by (simp add: replay_runs.simps)
next
  case (Cons e es)
  have IH: "client_part (replay_runs m table emit (map (run_of es) candidates) t) = uses_of m table emit (wanted candidates es) (fst t)" for t
    by (rule Cons.IH) (use Cons.prems in simp)
  show ?case
    unfolding replay_runs_Cons [OF assms Cons.prems]
    by (simp add: IH client_part_bind client_part_emit client_part_then [where g = "uses_of m table emit (wanted candidates es)", OF IH]
        cong: if_cong)
qed

definition position :: "cache_index_entry \<Rightarrow> nat \<times> u32" where
  "position e = (xe_defining_image e, xe_export_index e)"

text \<open>The inner loop at the exports \<open>es\<close>, the first of which may be in the row it is at.\<close>

definition at_row :: "memory \<Rightarrow> table_v2 \<Rightarrow> nat \<Rightarrow> u32 \<Rightarrow> cache_index_entry list \<Rightarrow> bool" where
  "at_row m table d e es \<longleftrightarrow> (\<forall>x \<in> set es. xe_defining_image x < snd (t2_images table) \<and> in_row m table x \<and>
     (d < xe_defining_image x \<or> d = xe_defining_image x \<and> e \<le> xe_export_index x - row_first m table d))"

lemma replay_matches_inner:
  assumes "sorted_wrt (scan_less m table) es" "at_row m table d e es" "row_counts m table d = Some (Some (first, cnt))"
  shows "client_part (replay_matches m table emit d (Some (first, cnt, e)) (map position es) t) = uses_of m table emit es (fst t)"
  using assms
proof (induction es arbitrary: d e first cnt t)
  case Nil
  show ?case
    by (subst replay_matches.simps, simp, subst replay_matches.simps, simp)
next
  case (Cons x es)
  have first: "row_first m table d = first" if "row_counts m table d = Some (Some (first, cnt))" for d first cnt
    using that by (simp add: row_first_def)
  have here: "client_part (replay_matches m table emit (xe_defining_image x) (Some (f, n, e1)) (map position (x # es)) t) =
      uses_of m table emit (x # es) (fst t)"
    if row: "row_counts m table (xe_defining_image x) = Some (Some (f, n))" and le: "e1 \<le> xe_export_index x - f" for f n e1 t
  proof -
    let ?d = "xe_defining_image x" and ?k = "xe_export_index x - f"
    have lt: "?k < n" using Cons.prems(2) row by (auto simp: at_row_def in_row_def)
    have next_row: "at_row m table ?d (?k + 1) es"
      unfolding at_row_def
    proof
      fix y assume y: "y \<in> set es"
      then have less: "scan_less m table x y" and iy: "xe_defining_image y < snd (t2_images table)" "in_row m table y"
        using Cons.prems(1,2) by (auto simp: at_row_def)
      have "?k + 1 \<le> xe_export_index y - f" if "?d = xe_defining_image y"
      proof -
        have "?k < xe_export_index y - f" using less that first [OF row] by (simp add: scan_less_def)
        then show ?thesis by (simp add: inc_le)
      qed
      then show "xe_defining_image y < snd (t2_images table) \<and> in_row m table y \<and>
         (?d < xe_defining_image y \<or> ?d = xe_defining_image y \<and> ?k + 1 \<le> xe_export_index y - row_first m table ?d)"
        using less iy first [OF row] by (auto simp: scan_less_def)
    qed
    have rec: "client_part (replay_matches m table emit ?d (Some (f, n, ?k + 1)) (map position es) t1) = uses_of m table emit es (fst t1)" for t1
      by (rule Cons.IH [OF _ next_row row]) (use Cons.prems(1) in simp)
    have "e1 < n" using le lt by (rule le_less_trans)
    then have "client_part (replay_matches m table emit ?d (Some (f, n, e1)) (map position (x # es)) t) =
        Option.bind (rd32 m (fst (t2_image_exports table)) (unat (xe_export_index x) * CACHE_IMAGE_EXPORT_V2_SIZE + 4)) (\<lambda>nk.
          if drop_bit 28 nk \<noteq> 0 then Some (HK_CACHE_PATCH_UNSUPPORTED, fst t)
          else client_part (then_ok (emit_into (emit ?d (xe_export_index x)) t)
            (replay_matches m table emit ?d (Some (f, n, ?k + 1)) (map position es))))"
      by (subst replay_matches.simps)
        (auto simp: position_def Let_def client_part_bind then_ok_def split: option.split intro!: Option.bind_cong)
    then show ?thesis
      by (simp add: client_part_then [where g = "uses_of m table emit es", OF rec] client_part_emit cong: if_cong)
  qed
  show ?case
  proof (cases "xe_defining_image x = d")
    case True
    then show ?thesis using here [of first cnt e t] Cons.prems(2,3) first [OF Cons.prems(3)] by (auto simp: at_row_def)
  next
    case False
    then have gt: "d < xe_defining_image x" "xe_defining_image x < snd (t2_images table)" using Cons.prems(2) by (auto simp: at_row_def)
    obtain f n where row: "row_counts m table (xe_defining_image x) = Some (Some (f, n))"
      using Cons.prems(2) by (auto simp: at_row_def in_row_def)
    have "replay_matches m table emit d (Some (first, cnt, e)) (map position (x # es)) t =
        replay_matches m table emit (d + 1) None (map position (x # es)) t"
      using False by (subst replay_matches.simps) (simp add: position_def)
    also have "\<dots> = replay_matches m table emit (xe_defining_image x) (Some (f, n, 0)) (map position (x # es)) t"
      using gt row by (subst replay_matches.simps) (simp add: position_def)
    finally show ?thesis using here [OF row, of 0 t] by simp
  qed
qed

lemma replay_matches_scan:
  assumes "sorted_wrt (scan_less m table) es" "\<forall>x \<in> set es. xe_defining_image x < snd (t2_images table) \<and> in_row m table x"
  shows "client_part (replay_matches m table emit 0 None (map position es) t) = uses_of m table emit es (fst t)"
proof (cases es)
  case Nil
  then show ?thesis by (subst replay_matches.simps) simp
next
  case (Cons x xs)
  obtain f n where row: "row_counts m table (xe_defining_image x) = Some (Some (f, n))" using assms(2) Cons by (auto simp: in_row_def)
  have "replay_matches m table emit 0 None (map position es) t =
      replay_matches m table emit (xe_defining_image x) (Some (f, n, 0)) (map position es) t"
    using assms(2) row Cons by (subst replay_matches.simps) (auto simp: position_def)
  moreover have "at_row m table (xe_defining_image x) 0 es"
    using assms Cons by (auto simp: at_row_def scan_less_def)
  ultimately show ?thesis using replay_matches_inner [OF assms(1) _ row] by simp
qed

section \<open>What a traversal leaves\<close>

definition row_fine :: "memory \<Rightarrow> table_v2 \<Rightarrow> nat \<Rightarrow> bool" where
  "row_fine m table i = (case row_counts m table i of Some (Some _) \<Rightarrow> True | _ \<Rightarrow> False)"

lemma row_fine_iff: "row_fine m table i \<longleftrightarrow> (\<exists>r. row_counts m table i = Some (Some r))"
  by (auto simp: row_fine_def split: option.split)

text \<open>The exports of a table whose rows and names are all in order.\<close>

definition table_entries :: "memory \<Rightarrow> cache_view \<Rightarrow> nat \<Rightarrow> (table_v2 \<times> cache_index_entry list) option" where
  "table_entries m view version =
     (case load_v2 m view version of
        Some (Some table) \<Rightarrow>
          (case all_entries m table 0 (snd (t2_images table)) of
             Some (Some es) \<Rightarrow> if list_all (row_fine m table) [0..<snd (t2_images table)] then Some (table, es) else None
           | _ \<Rightarrow> None)
      | _ \<Rightarrow> None)"

lemma table_entriesD:
  assumes "table_entries m view version = Some (table, es)"
  shows "load_v2 m view version = Some (Some table)" "all_entries m table 0 (snd (t2_images table)) = Some (Some es)"
    "i < snd (t2_images table) \<Longrightarrow> \<exists>r. row_counts m table i = Some (Some r)"
    "sorted_wrt (scan_less m table) es" "\<forall>x \<in> set es. xe_defining_image x < snd (t2_images table) \<and> in_row m table x"
proof -
  have t: "load_v2 m view version = Some (Some table)" "all_entries m table 0 (snd (t2_images table)) = Some (Some es)"
    "list_all (row_fine m table) [0..<snd (t2_images table)]"
    using assms by (auto simp: table_entries_def split: option.splits if_splits)
  then show "load_v2 m view version = Some (Some table)" "all_entries m table 0 (snd (t2_images table)) = Some (Some es)" by simp_all
  have rows: "\<exists>r. row_counts m table i = Some (Some r)" if "i < snd (t2_images table)" for i
    using t(3) that by (simp add: list_all_iff row_fine_iff)
  then show "i < snd (t2_images table) \<Longrightarrow> \<exists>r. row_counts m table i = Some (Some r)" by blast
  show "sorted_wrt (scan_less m table) es" "\<forall>x \<in> set es. xe_defining_image x < snd (t2_images table) \<and> in_row m table x"
    using all_entries_order [OF t(2)] rows by simp_all
qed

lemma table_entriesI:
  assumes "load_v2 m view version = Some (Some table)" "all_entries m table 0 (snd (t2_images table)) = Some (Some es)"
    "\<And>i. i < snd (t2_images table) \<Longrightarrow> \<exists>r. row_counts m table i = Some (Some r)"
  shows "table_entries m view version = Some (table, es)"
proof -
  have "list_all (row_fine m table) [0..<snd (t2_images table)]"
    using assms(3) by (simp add: list_all_iff row_fine_iff)
  then show ?thesis using assms(1,2) by (simp add: table_entries_def)
qed

text \<open>Every index in a slot is the sorted table, and a completed lookup has the matches of its symbol.\<close>

definition index_ok :: "memory \<Rightarrow> index_slots \<Rightarrow> bool" where
  "index_ok m slots \<longleftrightarrow> (\<forall>(view, version, entries) \<in> set slots. \<exists>table es. table_entries m view version = Some (table, es) \<and>
     snd (t2_image_exports table) \<le> 2 ^ 32 - 1 \<and> entries = qsort_entries es)"

definition names_of :: "byte list \<Rightarrow> hk_symbol_name_convention \<Rightarrow> byte list list" where
  "names_of symbol convention = (case hk_symbol_build_candidates symbol convention of Inl _ \<Rightarrow> [] | Inr candidates \<Rightarrow> candidates)"

definition matches_ok :: "memory \<Rightarrow> hk_cache_patch_lookup \<Rightarrow> bool" where
  "matches_ok m lookup \<longleftrightarrow> (\<exists>table es. table_entries m (lk_view lookup) (lk_version lookup) = Some (table, es) \<and>
     lk_matches lookup = map position (wanted (names_of (lk_symbol lookup) (lk_convention lookup)) es))"

definition lookup_ok :: "memory \<Rightarrow> hk_cache_patch_lookup option \<Rightarrow> bool" where
  "lookup_ok m object \<longleftrightarrow> (case object of None \<Rightarrow> True | Some lookup \<Rightarrow> lk_complete lookup \<longrightarrow> matches_ok m lookup)"

text \<open>A lookup records the matches, or learns that an allocation failed.\<close>

definition recorded :: "(nat \<times> u32) list \<Rightarrow> hk_cache_patch_lookup option \<Rightarrow> hk_cache_patch_lookup option \<Rightarrow> bool" where
  "recorded ps l l1 \<longleftrightarrow> (case l of None \<Rightarrow> l1 = None
     | Some a \<Rightarrow> \<exists>b. l1 = Some b \<and> lk_view b = lk_view a \<and> lk_version b = lk_version a \<and> lk_convention b = lk_convention a \<and>
         lk_symbol b = lk_symbol a \<and> lk_complete b = lk_complete a \<and>
         (lk_allocation_failed b \<or> \<not> lk_allocation_failed a \<and> lk_matches b = lk_matches a @ ps))"

lemma recorded_refl: "recorded [] l l \<or> (\<exists>a. l = Some a \<and> lk_allocation_failed a)"
  by (cases l) (auto simp: recorded_def)

lemma recorded_Nil: "recorded [] l l"
  by (cases l) (auto simp: recorded_def)

lemma recorded_trans: "recorded ps l l1 \<Longrightarrow> recorded qs l1 l2 \<Longrightarrow> recorded (ps @ qs) l l2"
  by (cases l; cases l1) (auto simp: recorded_def)

lemma recorded_append: "recorded [(d, x)] (fst lh) (fst (lookup_append d x lh))"
  by (cases lh; cases "fst lh") (auto simp: recorded_def lookup_append_def Let_def split: prod.splits if_splits)

lemma then_ok_OK:
  assumes "then_ok r f = Some (HK_CACHE_PATCH_OK, t)"
  obtains s where "r = Some (HK_CACHE_PATCH_OK, s)" "f s = Some (HK_CACHE_PATCH_OK, t)"
  using assms by (cases r) (auto split: if_splits)

lemma emit_into_lookup: "emit_into emit t = Some (st, t1) \<Longrightarrow> snd t1 = snd t"
  by (auto simp: emit_into_def)

lemma position_make: "position \<lparr>xe_name = nm, xe_defining_image = d, xe_export_index = x\<rparr> = (d, x)"
  by (simp add: position_def)

lemma scan_row_records:
  "each_from (scan_export m table emit candidates d first) e n t = Some (HK_CACHE_PATCH_OK, t1) \<Longrightarrow>
   \<exists>es. row_entries m table d first e n = Some (Some es) \<and> recorded (map position (wanted candidates es)) (fst (snd t)) (fst (snd t1))"
proof (induction n arbitrary: e t)
  case (Suc n)
  obtain t2 where s: "scan_export m table emit candidates d first e t = Some (HK_CACHE_PATCH_OK, t2)"
    "each_from (scan_export m table emit candidates d first) (e + 1) n t2 = Some (HK_CACHE_PATCH_OK, t1)"
    using Suc.prems by (auto elim: then_ok_OK)
  let ?g = "first + of_nat e"
  obtain nk nm where r: "rd32 m (fst (t2_image_exports table)) (unat ?g * CACHE_IMAGE_EXPORT_V2_SIZE + 4) = Some nk"
    "cache_string m (fst (t2_names table)) (snd (t2_names table)) (unat (nk AND 0x0FFFFFFF)) = Some (Some nm)"
    using s(1) by (auto simp: scan_export_def Let_def split: bind_splits option.splits)
  obtain es where es: "row_entries m table d first (e + 1) n = Some (Some es)"
    "recorded (map position (wanted candidates es)) (fst (snd t2)) (fst (snd t1))"
    using Suc.IH [OF s(2)] by blast
  have "recorded (if nm \<in> set candidates then [(d, ?g)] else []) (fst (snd t)) (fst (snd t2))"
    using s(1) r recorded_append [of d ?g "snd t"] recorded_Nil
    by (auto simp: scan_export_def Let_def split: if_splits dest!: emit_into_lookup)
  from recorded_trans [OF this es(2)] show ?case
    using r es(1) by (auto simp: Let_def position_make split: if_splits)
qed (simp add: recorded_Nil)

lemma scan_records:
  "each_from (scan_definition m table emit candidates) d n t = Some (HK_CACHE_PATCH_OK, t1) \<Longrightarrow>
   \<exists>es. all_entries m table d n = Some (Some es) \<and> (\<forall>i. d \<le> i \<and> i < d + n \<longrightarrow> (\<exists>r. row_counts m table i = Some (Some r))) \<and>
     recorded (map position (wanted candidates es)) (fst (snd t)) (fst (snd t1))"
proof (induction n arbitrary: d t)
  case 0
  have "\<forall>i. d \<le> i \<and> i < d + 0 \<longrightarrow> (\<exists>r. row_counts m table i = Some (Some r))" by auto
  then show ?case using 0 recorded_Nil by auto
next
  case (Suc n)
  obtain t2 where s: "scan_definition m table emit candidates d t = Some (HK_CACHE_PATCH_OK, t2)"
    "each_from (scan_definition m table emit candidates) (d + 1) n t2 = Some (HK_CACHE_PATCH_OK, t1)"
    using Suc.prems by (auto elim: then_ok_OK)
  obtain first cnt where row: "row_counts m table d = Some (Some (first, cnt))"
    "each_from (scan_export m table emit candidates d first) 0 (unat cnt) t = Some (HK_CACHE_PATCH_OK, t2)"
    using s(1) by (auto simp: scan_definition_def split: bind_splits option.splits)
  obtain here where here: "row_entries m table d first 0 (unat cnt) = Some (Some here)"
    "recorded (map position (wanted candidates here)) (fst (snd t)) (fst (snd t2))"
    using scan_row_records [OF row(2)] by blast
  obtain rest where rest: "all_entries m table (d + 1) n = Some (Some rest)"
    "\<forall>i. d + 1 \<le> i \<and> i < d + 1 + n \<longrightarrow> (\<exists>r. row_counts m table i = Some (Some r))"
    "recorded (map position (wanted candidates rest)) (fst (snd t2)) (fst (snd t1))"
    using Suc.IH [OF s(2)] by blast
  have "all_entries m table d (Suc n) = Some (Some (here @ rest))"
    using row(1) here(1) rest(1) by (auto simp: row_counts_def Let_def split: bind_splits if_splits)
  moreover have "\<exists>r. row_counts m table i = Some (Some r)" if "d \<le> i" "i < d + Suc n" for i
    using that row(1) rest(2) by (cases "i = d") auto
  ultimately show ?case using recorded_trans [OF here(2) rest(3)] by auto
qed

lemma replay_runs_records:
  assumes "distinct candidates"
  shows "sorted_wrt cache_index_entry_less es \<Longrightarrow> replay_runs m table emit (map (run_of es) candidates) t = Some (HK_CACHE_PATCH_OK, t1) \<Longrightarrow>
    recorded (map position (wanted candidates es)) (fst (snd t)) (fst (snd t1))"
proof (induction es arbitrary: t)
  case Nil
  have "pick_run (map (run_of []) candidates) = None" by (rule pick_run_None) (simp add: run_of_def)
  then show ?case using Nil.prems(2) by (simp add: replay_runs.simps recorded_Nil)
next
  case (Cons e es)
  have tail: "sorted_wrt cache_index_entry_less es" using Cons.prems(1) by simp
  show ?case
  proof (cases "xe_name e \<in> set candidates")
    case False
    then have "replay_runs m table emit (map (run_of es) candidates) t = Some (HK_CACHE_PATCH_OK, t1)"
      using Cons.prems(2) replay_runs_Cons [OF assms Cons.prems(1), of m table emit t] by simp
    then show ?thesis using Cons.IH [OF tail] False by simp
  next
    case True
    let ?t = "(fst t, lookup_append (xe_defining_image e) (xe_export_index e) (snd t))"
    have "\<exists>t2. emit_into (emit (xe_defining_image e) (xe_export_index e)) ?t = Some (HK_CACHE_PATCH_OK, t2) \<and>
        replay_runs m table emit (map (run_of es) candidates) t2 = Some (HK_CACHE_PATCH_OK, t1)"
      using Cons.prems(2) True unfolding replay_runs_Cons [OF assms Cons.prems(1)]
      by (auto split: bind_splits if_splits elim: then_ok_OK)
    then obtain t2 where t2: "emit_into (emit (xe_defining_image e) (xe_export_index e)) ?t = Some (HK_CACHE_PATCH_OK, t2)"
      "replay_runs m table emit (map (run_of es) candidates) t2 = Some (HK_CACHE_PATCH_OK, t1)" by blast
    have "recorded [position e] (fst (snd t)) (fst (snd t2))"
      using recorded_append [of "xe_defining_image e" "xe_export_index e" "snd t"] emit_into_lookup [OF t2(1)] by (simp add: position_def)
    from recorded_trans [OF this Cons.IH [OF tail t2(2)]] show ?thesis using True by simp
  qed
qed

section \<open>All routes agree\<close>

lemma index_capacity_rows:
  "index_capacity m table d n capacity = Some (Some k) \<Longrightarrow> d \<le> i \<Longrightarrow> i < d + n \<Longrightarrow> \<exists>r. row_counts m table i = Some (Some r)"
proof (induction n arbitrary: d capacity)
  case (Suc n)
  have row: "\<exists>r. row_counts m table d = Some (Some r)" and "\<exists>c. index_capacity m table (d + 1) n c = Some (Some k)"
    using Suc.prems(1) by (auto simp: row_counts_def Let_def split: bind_splits if_splits)
  then show ?case using Suc.IH [of "d + 1"] Suc.prems(2,3) by (cases "i = d") auto
qed simp

lemma index_build_spec:
  assumes "cache_index_build m view version heap = Some (Some entries, heap1)"
  shows "\<exists>table es. table_entries m view version = Some (table, es) \<and> snd (t2_image_exports table) \<le> 2 ^ 32 - 1 \<and> entries = qsort_entries es"
proof -
  obtain table where l: "load_v2 m view version = Some (Some table)" "\<not> snd (t2_image_exports table) > 2 ^ 32 - 1"
    "\<exists>k. index_capacity m table 0 (snd (t2_images table)) 0 = Some (Some k)"
    "\<exists>es. all_entries m table 0 (snd (t2_images table)) = Some (Some es) \<and> entries = qsort_entries es"
    using assms by (auto simp: cache_index_build_def Let_def split: bind_splits option.splits if_splits prod.splits)
  then obtain k es where k: "index_capacity m table 0 (snd (t2_images table)) 0 = Some (Some k)"
    and es: "all_entries m table 0 (snd (t2_images table)) = Some (Some es)" "entries = qsort_entries es" by blast
  have "table_entries m view version = Some (table, es)"
    by (rule table_entriesI [OF l(1) es(1)]) (rule index_capacity_rows [OF k], simp_all)
  moreover have "snd (t2_image_exports table) \<le> 2 ^ 32 - 1" using l(2) by simp
  ultimately show ?thesis using es(2) by blast
qed

definition index_of :: "memory \<Rightarrow> cache_view \<Rightarrow> nat \<Rightarrow> cache_index_entry list option \<Rightarrow> bool" where
  "index_of m view version index \<longleftrightarrow> (\<forall>entries. index = Some entries \<longrightarrow> (\<exists>table es. table_entries m view version = Some (table, es) \<and>
     snd (t2_image_exports table) \<le> 2 ^ 32 - 1 \<and> entries = qsort_entries es))"

lemma find_index_ok: "index_ok m slots \<Longrightarrow> index_of m view version (find_index slots view version)"
proof -
  assume ok: "index_ok m slots"
  show ?thesis
    unfolding index_of_def
  proof (intro allI impI)
    fix entries assume "find_index slots view version = Some entries"
    then obtain x where x: "find (\<lambda>(v, n, _). n = version \<and> v = view) slots = Some x" "entries = snd (snd x)"
      by (auto simp: find_index_def)
    then have "x \<in> set slots" "fst x = view" "fst (snd x) = version" by (auto simp: find_Some_iff intro: nth_mem)
    then have "(view, version, entries) \<in> set slots" using x(2) by (metis prod.collapse)
    then show "\<exists>table es. table_entries m view version = Some (table, es) \<and>
        snd (t2_image_exports table) \<le> 2 ^ 32 - 1 \<and> entries = qsort_entries es"
      using ok unfolding index_ok_def by blast
  qed
qed

lemma index_acquire_ok:
  assumes "cache_index_acquire m view version (slots, heap) = Some (index, slots1, heap1)" "index_ok m slots"
  shows "index_of m view version index \<and> index_ok m slots1"
proof (cases "find_index slots view version")
  case (Some entries)
  then show ?thesis using assms find_index_ok [OF assms(2), of view version] by (simp add: cache_index_acquire_def)
next
  case None
  consider "index = None" "slots1 = slots"
    | entries heap2 where "cache_index_build m view version heap = Some (Some entries, heap2)" "index = Some entries"
      "slots1 = slots @ [(view, version, entries)]"
    using assms(1) None by (auto simp: cache_index_acquire_def split: bind_splits if_splits option.splits)
  then show ?thesis
  proof cases
    case 1
    then show ?thesis using assms(2) by (simp add: index_of_def)
  next
    case 2
    then show ?thesis using assms(2) index_build_spec [OF 2(1)] by (auto simp: index_of_def index_ok_def)
  qed
qed

definition traverse :: "memory \<Rightarrow> table_v2 \<Rightarrow> (nat \<Rightarrow> u32 \<Rightarrow> 'c uses \<Rightarrow> 'c uses cache_step) \<Rightarrow> byte list list \<Rightarrow>
    cache_index_entry list option \<Rightarrow> 'c traversal \<Rightarrow> 'c traversal cache_step" where
  "traverse m table emit candidates index t =
     (case fst (snd t) of
        Some l \<Rightarrow> if lk_complete l then replay_matches m table emit 0 None (lk_matches l) t
          else (case index of Some entries \<Rightarrow> replay_runs m table emit (map (index_run entries) candidates) t
                | None \<Rightarrow> each_from (scan_definition m table emit candidates) 0 (snd (t2_images table)) t)
      | None \<Rightarrow> (case index of Some entries \<Rightarrow> replay_runs m table emit (map (index_run entries) candidates) t
                | None \<Rightarrow> each_from (scan_definition m table emit candidates) 0 (snd (t2_images table)) t))"

text \<open>The lookup at the start of a traversal: a completed one has the matches.\<close>

definition begun :: "memory \<Rightarrow> cache_view \<Rightarrow> nat \<Rightarrow> byte list list \<Rightarrow> hk_cache_patch_lookup option \<Rightarrow> bool" where
  "begun m view version candidates lookup \<longleftrightarrow> (\<forall>l. lookup = Some l \<longrightarrow> lk_view l = view \<and> lk_version l = version \<and>
     names_of (lk_symbol l) (lk_convention l) = candidates \<and> \<not> lk_allocation_failed l \<and>
     (if lk_complete l then matches_ok m l else lk_matches l = []))"

lemma traverse_routes:
  assumes "load_v2 m view version = Some (Some table)" "distinct candidates" "index_of m view version index"
    "begun m view version candidates lookup"
  shows "client_part (traverse m table emit candidates index (s, lookup, heap)) =
      client_part (each_from (scan_definition m table emit candidates) 0 (snd (t2_images table)) (s, None, []))"
proof -
  have same_table: "table' = table" if "table_entries m view version = Some (table', es)" for table' es
    using table_entriesD(1) [OF that] assms(1) by simp
  have direct: "client_part (each_from (scan_definition m table emit candidates) 0 (snd (t2_images table)) t) = uses_of m table emit (wanted candidates es) (fst t)"
    if "table_entries m view version = Some (table, es)" for t es
    by (rule scan_all) (use table_entriesD [OF that] in auto)
  have by_index: "client_part (replay_runs m table emit (map (index_run entries) candidates) t) =
      client_part (each_from (scan_definition m table emit candidates) 0 (snd (t2_images table)) (fst t, None, []))"
    if i: "index = Some entries" for entries t
  proof -
    obtain es where es: "table_entries m view version = Some (table, es)" "snd (t2_image_exports table) \<le> 2 ^ 32 - 1" "entries = qsort_entries es"
      using assms(3) i same_table unfolding index_of_def by blast
    note order = table_entriesD(4,5) [OF es(1)]
    have sorted: "sorted_wrt cache_index_entry_less es"
    proof (rule sorted_wrt_mono_rel [OF _ order(1)])
      fix x y assume "x \<in> set es" "y \<in> set es" "scan_less m table x y"
      then show "cache_index_entry_less x y" using scan_less_entry_less [OF _ _ _ es(2)] order(2) by blast
    qed
    have runs: "map (index_run entries) candidates = map (run_of es) candidates"
      by (simp add: es(3) index_run_scan [OF sorted] run_of_def)
    show ?thesis unfolding runs replay_runs_scan [OF assms(2) sorted] direct [OF es(1)] by simp
  qed
  have plain: "client_part (each_from (scan_definition m table emit candidates) 0 n t) =
      client_part (each_from (scan_definition m table emit candidates) 0 n (fst t, None, []))" for n t
    by (rule each_from_client [where f = "scan_definition m table emit candidates"]) (rule scan_definition_client)
  show ?thesis
  proof (cases "\<exists>l. lookup = Some l \<and> lk_complete l")
    case True
    then obtain l where l: "lookup = Some l" "lk_complete l" by blast
    then obtain es where es: "table_entries m view version = Some (table, es)" "lk_matches l = map position (wanted candidates es)"
      using assms(4) same_table by (auto simp: begun_def matches_ok_def)
    note order = table_entriesD(4,5) [OF es(1)]
    have "client_part (replay_matches m table emit 0 None (map position (wanted candidates es)) (s, lookup, heap)) =
        uses_of m table emit (wanted candidates es) s"
      using replay_matches_scan [of m table "wanted candidates es" emit "(s, lookup, heap)"] order
      by (simp add: sorted_wrt_filter)
    then show ?thesis using l es(2) direct [OF es(1), of "(s, None, [])"] by (simp add: traverse_def)
  next
    case False
    then have "traverse m table emit candidates index (s, lookup, heap) =
        (case index of Some entries \<Rightarrow> replay_runs m table emit (map (index_run entries) candidates) (s, lookup, heap)
         | None \<Rightarrow> each_from (scan_definition m table emit candidates) 0 (snd (t2_images table)) (s, lookup, heap))"
      by (auto simp: traverse_def split: option.split)
    then show ?thesis using by_index [of _ "(s, lookup, heap)"] plain [of _ "(s, lookup, heap)"] by (auto split: option.split)
  qed
qed

lemma replay_matches_lookup:
  assumes "replay_matches m table emit d row ms t = Some y"
  shows "snd (snd y) = snd t"
proof (rule replay_matches.raw_induct [where P = "\<lambda>_ _ _ _ _ _ t y. snd (snd y) = snd t", OF _ assms], goal_cases)
  case (1 replay m table emit d row ms t y)
  have step: "snd (snd y) = snd t" if "replay m table emit d row ms t = Some y" for table emit d row ms t y
    by (rule 1(1) [OF that])
  show ?case
  proof (cases row)
    case None
    consider "snd y = t" | f n where "replay m table emit (fst (hd ms)) (Some (f, n, 0)) ms t = Some y"
      using 1(2) None by (auto split: if_splits bind_splits option.splits)
    then show ?thesis using step by cases auto
  next
    case (Some r)
    obtain first cnt e where r: "row = Some (first, cnt, e)" using Some by (cases r) auto
    let ?stop = "\<not> e < cnt \<or> ms = [] \<or> fst (hd ms) \<noteq> d" and ?g = "first + (snd (hd ms) - first)"
    show ?thesis
    proof (cases ?stop)
      case True
      then have "replay m table emit (d + 1) None ms t = Some y" using 1(2) r by simp
      then show ?thesis by (rule step)
    next
      case False
      let ?rd = "rd32 m (fst (t2_image_exports table)) (unat ?g * CACHE_IMAGE_EXPORT_V2_SIZE + 4)"
      obtain nk where nk: "?rd = Some nk" using 1(2) r False by (cases ?rd) (simp_all add: Let_def)
      show ?thesis
      proof (cases "drop_bit 28 nk = 0")
        case True
        obtain st t1 where em: "emit_into (emit d ?g) t = Some (st, t1)"
          using 1(2) r False nk True by (cases "emit_into (emit d ?g) t") (auto simp: Let_def)
        have "(if st \<noteq> HK_CACHE_PATCH_OK then Some (st, t1)
            else replay m table emit d (Some (first, cnt, snd (hd ms) - first + 1)) (tl ms) t1) = Some y"
          using 1(2) r False nk True em by (simp add: Let_def)
        then have "snd (snd y) = snd t1" using step by (metis option.inject snd_conv)
        then show ?thesis using emit_into_lookup [OF em] by simp
      qed (use 1(2) r False nk in \<open>auto simp: Let_def\<close>)
    qed
  qed
qed

text \<open>After a traversal that ended well, the lookup has the matches unless an allocation failed.\<close>

lemma traverse_records:
  assumes t: "traverse m table emit candidates index (s, lookup, heap) = Some (HK_CACHE_PATCH_OK, (s1, lookup1, heap1))"
    and table: "load_v2 m view version = Some (Some table)"
    and d: "distinct candidates" and i: "index_of m view version index" and b: "begun m view version candidates lookup"
  shows "lookup_ok m (map_option lookup_finish lookup1)"
proof (cases "\<exists>l. lookup = Some l \<and> lk_complete l")
  case True
  then obtain l where l: "lookup = Some l" "lk_complete l" by blast
  then have "replay_matches m table emit 0 None (lk_matches l) (s, lookup, heap) = Some (HK_CACHE_PATCH_OK, (s1, lookup1, heap1))"
    using t by (simp add: traverse_def)
  from replay_matches_lookup [OF this] have "lookup1 = Some l" using l by simp
  then show ?thesis using b l by (auto simp: lookup_ok_def begun_def lookup_finish_def matches_ok_def)
next
  case False
  have "\<exists>es. table_entries m view version = Some (table, es) \<and> recorded (map position (wanted candidates es)) lookup lookup1"
  proof (cases index)
    case None
    then have "each_from (scan_definition m table emit candidates) 0 (snd (t2_images table)) (s, lookup, heap) = Some (HK_CACHE_PATCH_OK, (s1, lookup1, heap1))"
      using t False by (auto simp: traverse_def split: option.splits)
    from scan_records [OF this] obtain es where es: "all_entries m table 0 (snd (t2_images table)) = Some (Some es)"
      "\<forall>i. 0 \<le> i \<and> i < 0 + snd (t2_images table) \<longrightarrow> (\<exists>r. row_counts m table i = Some (Some r))"
      "recorded (map position (wanted candidates es)) lookup lookup1" by auto
    have "table_entries m view version = Some (table, es)" by (rule table_entriesI [OF table es(1)]) (use es(2) in simp)
    then show ?thesis using es(3) by blast
  next
    case (Some entries)
    then obtain table' es where es': "table_entries m view version = Some (table', es)" "snd (t2_image_exports table') \<le> 2 ^ 32 - 1" "entries = qsort_entries es"
      using i unfolding index_of_def by blast
    then have "table' = table" using table_entriesD(1) [OF es'(1)] table by simp
    note es = es' [unfolded this]
    note order = table_entriesD(4,5) [OF es(1)]
    have sorted: "sorted_wrt cache_index_entry_less es"
    proof (rule sorted_wrt_mono_rel [OF _ order(1)])
      fix x y assume "x \<in> set es" "y \<in> set es" "scan_less m table x y"
      then show "cache_index_entry_less x y" using scan_less_entry_less [OF _ _ _ es(2)] order(2) by blast
    qed
    have runs: "map (index_run entries) candidates = map (run_of es) candidates"
      by (simp add: es(3) index_run_scan [OF sorted] run_of_def)
    have "replay_runs m table emit (map (index_run entries) candidates) (s, lookup, heap) = Some (HK_CACHE_PATCH_OK, (s1, lookup1, heap1))"
      using t False Some by (auto simp: traverse_def split: option.splits)
    from replay_runs_records [OF d sorted this [unfolded runs]] show ?thesis using es(1) by auto
  qed
  then obtain es where es: "table_entries m view version = Some (table, es)" "recorded (map position (wanted candidates es)) lookup lookup1" by blast
  show ?thesis
  proof (cases lookup)
    case None
    then show ?thesis using es(2) by (simp add: recorded_def lookup_ok_def)
  next
    case (Some l)
    then obtain l1 where l1: "lookup1 = Some l1" "lk_view l1 = view" "lk_version l1 = version"
      "names_of (lk_symbol l1) (lk_convention l1) = candidates" "\<not> lk_complete l1"
      "lk_allocation_failed l1 \<or> lk_matches l1 = map position (wanted candidates es)"
      using es(2) b False by (auto simp: recorded_def begun_def)
    then show ?thesis using es(1) by (auto simp: lookup_ok_def lookup_finish_def matches_ok_def)
  qed
qed

section \<open>The table and the cache\<close>

lemma client_part_finish:
  "client_part (do { (st, (s1, lookup1, heap1)) \<leftarrow> r; Some (st, (s1, f st lookup1, heap1)) }) = client_part r"
  by (cases r) (auto split: prod.splits)

lemma begin_begun:
  assumes "lookup_ok m (Some l)" "\<not> lk_allocation_failed l" "names_of (lk_symbol l) (lk_convention l) = candidates"
  shows "begun m view version candidates (Some (lookup_begin l view version))"
  using assms by (auto simp: begun_def lookup_ok_def lookup_begin_def matches_ok_def Let_def)

definition usable :: "hk_cache_patch_lookup option \<Rightarrow> bool" where
  "usable object = (case object of None \<Rightarrow> False | Some lookup \<Rightarrow> \<not> lk_allocation_failed lookup)"

lemma usable_None: "usable None = False"
  by (simp add: usable_def)

lemma parse_v2_v4_traverse:
  assumes "load_v2 m view version = Some (Some table)"
    "\<not> (snd (t2_images table) = 0 \<or> importer_index \<ge> snd (t2_images table) \<or>
        version \<ge> 3 \<and> snd (t2_got_clients table) \<noteq> snd (t2_images table))"
  shows "parse_v2_v4 m target view version importer_index candidates visit index (s, object, heap) = do {
     (st, (s1, lookup1, heap1)) \<leftarrow> traverse m table (emit_uses m target view table version importer_index visit) candidates index
       (s, if usable object then map_option (\<lambda>l. lookup_begin l view version) object else None, heap);
     Some (st, (s1, if usable object then (if st = HK_CACHE_PATCH_OK then map_option lookup_finish lookup1 else lookup1) else object, heap1)) }"
proof -
  have u: "(case object of None \<Rightarrow> False | Some lookup \<Rightarrow> \<not> lk_allocation_failed lookup) = usable object" by (simp add: usable_def)
  show ?thesis
    unfolding parse_v2_v4_def assms(1) Option.bind.bind_lunit option.case Let_def prod.case u if_not_P [OF assms(2)]
    by (auto simp: traverse_def usable_def Option.bind.bind_lunit split: option.split)
qed

lemma parse_v2_v4_routes:
  assumes "lookup_ok m object" "\<And>l. object = Some l \<Longrightarrow> names_of (lk_symbol l) (lk_convention l) = candidates"
    "distinct candidates" "index_of m view version index"
  shows "client_part (parse_v2_v4 m target view version importer_index candidates visit index (s, object, heap)) =
      client_part (parse_v2_v4 m target view version importer_index candidates visit None (s, None, []))"
    "parse_v2_v4 m target view version importer_index candidates visit index (s, object, heap) = Some (HK_CACHE_PATCH_OK, (s1, object1, heap1)) \<Longrightarrow>
      lookup_ok m object1"
proof -
  let ?parse = "parse_v2_v4 m target view version importer_index candidates visit"
  have "client_part (?parse index (s, object, heap)) = client_part (?parse None (s, None, [])) \<and>
    (?parse index (s, object, heap) = Some (HK_CACHE_PATCH_OK, (s1, object1, heap1)) \<longrightarrow> lookup_ok m object1)"
  proof (cases "\<exists>table. load_v2 m view version = Some (Some table) \<and> \<not> (snd (t2_images table) = 0 \<or> importer_index \<ge> snd (t2_images table) \<or>
        version \<ge> 3 \<and> snd (t2_got_clients table) \<noteq> snd (t2_images table))")
    case False
    then show ?thesis by (cases "load_v2 m view version") (auto simp: parse_v2_v4_def split: option.split)
  next
    case True
    then obtain table where l: "load_v2 m view version = Some (Some table)"
      and c: "\<not> (snd (t2_images table) = 0 \<or> importer_index \<ge> snd (t2_images table) \<or>
        version \<ge> 3 \<and> snd (t2_got_clients table) \<noteq> snd (t2_images table))" by blast
    let ?emit = "emit_uses m target view table version importer_index visit"
    let ?begun = "if usable object then map_option (\<lambda>l. lookup_begin l view version) object else None"
    have b: "begun m view version candidates ?begun"
      using begin_begun [of m _ candidates view version] assms(1,2) by (cases object) (auto simp: usable_def begun_def)
    have "begun m view version candidates None" "index_of m view version None" by (simp_all add: begun_def index_of_def)
    note none = traverse_routes [OF l assms(3) this(2,1)]
    have "client_part (?parse index (s, object, heap)) = client_part (?parse None (s, None, []))"
      unfolding parse_v2_v4_traverse [OF l c] client_part_finish
      by (simp only: usable_None if_False traverse_routes [OF l assms(3,4) b] none)
    moreover have "lookup_ok m object1" if run: "?parse index (s, object, heap) = Some (HK_CACHE_PATCH_OK, (s1, object1, heap1))"
    proof (cases "usable object")
      case True
      then obtain lookup1 where t: "traverse m table ?emit candidates index (s, ?begun, heap) = Some (HK_CACHE_PATCH_OK, (s1, lookup1, heap1))"
        "object1 = map_option lookup_finish lookup1"
        using run unfolding parse_v2_v4_traverse [OF l c] by (auto split: bind_splits)
      show ?thesis unfolding t(2) by (rule traverse_records [OF t(1) l assms(3,4) b])
    next
      case False
      then have "object1 = object" using run unfolding parse_v2_v4_traverse [OF l c] by (auto split: bind_splits)
      then show ?thesis using assms(1) by simp
    qed
    ultimately show ?thesis by blast
  qed
  then show "client_part (?parse index (s, object, heap)) = client_part (?parse None (s, None, []))"
    "?parse index (s, object, heap) = Some (HK_CACHE_PATCH_OK, (s1, object1, heap1)) \<Longrightarrow> lookup_ok m object1" by blast+
qed

text \<open>The claim about the liveness of the cache plays no part in what is emitted.\<close>

abbreviation mutable_target :: "hk_cache_patch_target \<Rightarrow> hk_cache_patch_target" where
  "mutable_target target \<equiv> target\<lparr>ct_immutable_metadata := False\<rparr>"

lemma mutable_fields:
  "ct_cache_base (mutable_target target) = ct_cache_base target" "ct_cache_size (mutable_target target) = ct_cache_size target"
  "ct_image_header (mutable_target target) = ct_image_header target" "ct_image_path (mutable_target target) = ct_image_path target"
  "ct_uuid_present (mutable_target target) = ct_uuid_present target" "ct_uuid (mutable_target target) = ct_uuid target"
  "ct_image_slide (mutable_target target) = ct_image_slide target"
  "ct_include_shared_got (mutable_target target) = ct_include_shared_got target"
  by simp_all

lemma belongs_mutable: "belongs_to_importer m (mutable_target target) = belongs_to_importer m target"
  by (rule ext) (simp add: belongs_to_importer_def)

lemma emit_location_mutable: "emit_location m (mutable_target target) = emit_location m target"
  by (intro ext) (simp add: emit_location_def belongs_mutable cong: if_cong)

lemmas mutable_simps = belongs_mutable emit_location_mutable

lemma parse_v1_mutable: "parse_v1 m (mutable_target target) = parse_v1 m target"
proof -
  have l: "v1_location m (mutable_target target) = v1_location m target"
    by (intro ext, unfold v1_location_def mutable_simps, rule refl)
  have e: "v1_export m (mutable_target target) = v1_export m target" by (intro ext, unfold v1_export_def l, rule refl)
  have i: "v1_image m (mutable_target target) = v1_image m target" by (intro ext, unfold v1_image_def e, rule refl)
  show ?thesis by (intro ext, unfold parse_v1_def i, rule refl)
qed

lemma emit_uses_mutable: "emit_uses m (mutable_target target) = emit_uses m target"
proof -
  have l: "client_location m (mutable_target target) = client_location m target"
    by (intro ext, unfold client_location_def mutable_simps mutable_fields, rule refl)
  have ce: "emit_client_export m (mutable_target target) = emit_client_export m target" by (intro ext, unfold emit_client_export_def l, rule refl)
  have c: "emit_client m (mutable_target target) = emit_client m target" by (intro ext, unfold emit_client_def ce, rule refl)
  have gl: "got_location m (mutable_target target) = got_location m target"
    by (intro ext, unfold got_location_def mutable_simps, rule refl)
  have ge: "emit_got_export m (mutable_target target) = emit_got_export m target" by (intro ext, unfold emit_got_export_def gl mutable_fields, rule refl)
  have g: "emit_got_uses m (mutable_target target) = emit_got_uses m target" by (intro ext, unfold emit_got_uses_def ge, rule refl)
  show ?thesis by (intro ext, unfold emit_uses_def emit_export_uses_def c g, rule refl)
qed

lemma parse_v2_v4_mutable: "parse_v2_v4 m (mutable_target target) = parse_v2_v4 m target"
  by (intro ext, unfold parse_v2_v4_def emit_uses_mutable, rule refl)

lemma find_importer_mutable: "find_importer m (mutable_target target) b images i n = find_importer m target b images i n"
  by (induction n arbitrary: i) (simp_all cong: if_cong)

lemma open_cache_mutable: "open_cache m (mutable_target target) = open_cache m target"
proof -
  have i: "cache_images m (mutable_target target) = cache_images m target" by (intro ext, unfold cache_images_def mutable_fields, rule refl)
  have u: "uuid_ok m (mutable_target target) = uuid_ok m target" by (intro ext, unfold uuid_ok_def mutable_fields, rule refl)
  have l: "locate_patch m (mutable_target target) = locate_patch m target" by (intro ext, unfold locate_patch_def mutable_fields, rule refl)
  show ?thesis by (intro ext, unfold open_cache_def i u l find_importer_mutable mutable_fields, rule refl)
qed

end
