(* ===== verification/HK_CacheRoutes.thy ===== *)
theory HK_CacheRoutes
  imports HK_CacheLookup_Props
begin

text \<open>
  The routes through the patch table agree: the walk that may use the sorted index of the cache or the matches
  a preparation kept emits what the direct scan emits, whatever the allocator did, and leaves an index and a
  lookup that can be used the same way again.
\<close>

section \<open>Reads\<close>

definition view_readable_cache :: "memory \<Rightarrow> cache_view \<Rightarrow> bool" where
  "view_readable_cache m view \<longleftrightarrow> readable m (cv_base view) (cv_size view) \<and> readable m (cv_patch view) (cv_patch_size view)"

lemma range_at_readable: "range_at base sz offset n stride = Some p \<Longrightarrow> readable m base sz \<Longrightarrow> readable m p (n * stride)"
  by (auto simp: range_at_def intro!: readable_offset split: if_splits)

lemma patch_array_readable: "patch_array view a n stride = Some p \<Longrightarrow> view_readable_cache m view \<Longrightarrow> readable m p (n * stride)"
  by (auto simp: patch_array_def view_readable_cache_def intro: range_at_readable split: option.splits if_splits)

lemma load_pair_ok: "view_readable_cache m view \<Longrightarrow> off + 16 \<le> cv_patch_size view \<Longrightarrow> answers (load_pair m view off stride)"
  unfolding load_pair_def
  by (intro answers_basic answers_reads(5) [of m "cv_patch view" "cv_patch_size view"]) (auto simp: view_readable_cache_def)

lemma load_pair_readable:
  "load_pair m view off stride = Some (Some q) \<Longrightarrow> view_readable_cache m view \<Longrightarrow> readable m (fst q) (snd q * stride)"
  by (auto simp: load_pair_def intro: patch_array_readable split: bind_splits)

lemma got_pair_ok: "view_readable_cache m view \<Longrightarrow> version < 3 \<or> off + 16 \<le> cv_patch_size view \<Longrightarrow> answers (got_pair m view version off stride)"
  unfolding got_pair_def by (intro answers_basic load_pair_ok) auto

lemma load_v2_ok: "view_readable_cache m view \<Longrightarrow> answers (load_v2 m view version)"
  unfolding load_v2_def
  by (intro answers_basic load_pair_ok got_pair_ok answers_reads(4) [of m "cv_patch view" "cv_patch_size view"])
    (auto simp: view_readable_cache_def split: if_splits)

lemma none_neq: "None \<noteq> x \<longleftrightarrow> (\<exists>y. x = Some y)"
  by (cases x) auto

text \<open>The arrays the index is built from are readable.\<close>

lemma load_v2_readable:
  assumes "load_v2 m view version = Some (Some table)" "view_readable_cache m view"
  shows "readable m (fst (t2_images table)) (snd (t2_images table) * 16)"
    "readable m (fst (t2_image_exports table)) (snd (t2_image_exports table) * 8)"
    "readable m (fst (t2_names table)) (snd (t2_names table))"
proof -
  have "\<exists>a b c. load_pair m view 8 CACHE_IMAGE_PATCH_V2_SIZE = Some (Some a) \<and> t2_images table = a \<and>
      load_pair m view 24 CACHE_IMAGE_EXPORT_V2_SIZE = Some (Some b) \<and> t2_image_exports table = b \<and>
      load_pair m view 88 1 = Some (Some c) \<and> t2_names table = c"
    using assms(1) by (auto simp: load_v2_def none_neq split: if_splits bind_splits)
  then show "readable m (fst (t2_images table)) (snd (t2_images table) * 16)"
    "readable m (fst (t2_image_exports table)) (snd (t2_image_exports table) * 8)"
    "readable m (fst (t2_names table)) (snd (t2_names table))"
    using load_pair_readable [OF _ assms(2)] by (fastforce simp: cache_sizes)+
qed

lemma index_capacity_ok:
  "readable m (fst (t2_images table)) (k * 16) \<Longrightarrow> d + n \<le> k \<Longrightarrow> answers (index_capacity m table d n c)"
proof (induction n arbitrary: d c)
  case (Suc n)
  show ?case
    unfolding index_capacity.simps Let_def
    by (intro answers_basic answers_reads(4) [OF Suc.prems(1)] Suc.IH [OF Suc.prems(1)])
      (use Suc.prems(2) in \<open>auto simp: cache_sizes\<close>)
qed (simp add: answers_Some)

lemma row_entries_ok:
  assumes "readable m (fst (t2_image_exports table)) (k * 8)" "readable m (fst (t2_names table)) (snd (t2_names table))" "k < 2 ^ 32"
  shows "unat first + e + n \<le> k \<Longrightarrow> answers (row_entries m table d first e n)"
proof (induction n arbitrary: e)
  case (Suc n)
  have e: "unat (first + of_nat e) = unat first + e"
    using Suc.prems assms(3) by (simp add: unat_word_ariths unat_of_nat take_bit_nat_eq_self)
  show ?case
    unfolding row_entries.simps Let_def e cache_string_def
    by (intro answers_basic answers_reads(4) [OF assms(1)] terminated_string_ok [OF assms(2)] Suc.IH)
      (use Suc.prems in \<open>auto simp: cache_sizes\<close>)
qed (simp add: answers_Some)

text \<open>A table that passed the first pass is inside its arrays.\<close>

lemma all_entries_ok:
  assumes "readable m (fst (t2_images table)) (k * 16)" "readable m (fst (t2_image_exports table)) (snd (t2_image_exports table) * 8)"
    "readable m (fst (t2_names table)) (snd (t2_names table))" "snd (t2_image_exports table) < 2 ^ 32"
  shows "index_capacity m table d n c = Some (Some c1) \<Longrightarrow> d + n \<le> k \<Longrightarrow> answers (all_entries m table d n)"
proof (induction n arbitrary: d c)
  case (Suc n)
  then obtain f h c2 where row: "rd32 m (fst (t2_images table)) (d * CACHE_IMAGE_PATCH_V2_SIZE + 8) = Some f"
    "rd32 m (fst (t2_images table)) (d * CACHE_IMAGE_PATCH_V2_SIZE + 12) = Some h"
    "unat f + unat h \<le> snd (t2_image_exports table)" "index_capacity m table (d + 1) n c2 = Some (Some c1)"
    by (auto simp: Let_def split: if_splits bind_splits)
  have "answers (all_entries m table (d + 1) n)" using Suc.IH [OF row(4)] Suc.prems(2) by simp
  moreover have "answers (row_entries m table d f 0 (unat h))"
    by (rule row_entries_ok [OF assms(2,3,4)]) (use row(3) in simp)
  ultimately show ?case
    unfolding all_entries.simps Let_def row(1,2) bind.simps option.map
    by (intro answers_basic)
qed (simp add: answers_Some)

lemma index_build_ok: "view_readable_cache m view \<Longrightarrow> answers (cache_index_build m view version heap)"
  unfolding cache_index_build_def Let_def
  by (intro answers_basic load_v2_ok index_capacity_ok [where k = "snd (t2_images t)" for t] all_entries_ok
      load_v2_readable) (auto dest: load_v2_readable)

section \<open>The header\<close>

lemma names_distinct: "hk_symbol_build_candidates name convention = Inr candidates \<Longrightarrow> distinct candidates"
  by (auto simp: hk_symbol_build_candidates_def split: if_splits)

lemma locate_patch_view:
  assumes "locate_patch m target mapping_offset unslid_base = Some (Inr view)"
    "readable m (ct_cache_base target) (ct_cache_size target)"
  shows "view_readable_cache m view"
proof -
  obtain addr and sz :: u64 where l: "\<not> unat (addr - unslid_base) > ct_cache_size target" "\<not> unat sz > ct_cache_size target - unat (addr - unslid_base)"
    "view = \<lparr>cv_base = ct_cache_base target, cv_size = ct_cache_size target, cv_unslid_base = unslid_base,
       cv_patch = ct_cache_base target + (addr - unslid_base), cv_patch_size = unat sz\<rparr>"
    using assms(1) by (auto simp: locate_patch_def Let_def split: bind_splits if_splits)
  have "readable m (ct_cache_base target + of_nat (unat (addr - unslid_base))) (unat sz)"
    by (rule readable_offset [OF assms(2)]) (use l(1,2) in linarith)
  then show ?thesis using assms(2) by (simp add: view_readable_cache_def l(3))
qed

lemma checked_Inr: "(case x of Inl st \<Rightarrow> Inl st | Inr v \<Rightarrow> Inr (f v)) = Inr y \<longleftrightarrow> (\<exists>v. x = Inr v \<and> y = f v)"
  by (cases x) auto

lemma open_cache_view:
  assumes "open_cache m target symbol_name convention = Some (Inr (importer_index, view, version, candidates))"
    "readable m (ct_cache_base target) (ct_cache_size target)"
  shows "view_readable_cache m view" "hk_symbol_build_candidates symbol_name convention = Inr candidates"
proof -
  have "(\<exists>off u. locate_patch m target off u = Some (Inr view)) \<and> hk_symbol_build_candidates symbol_name convention = Inr candidates"
    using assms(1) by (auto simp: open_cache_def Let_def checked_Inr split: bind_splits if_splits option.splits sum.splits prod.splits)
  then show "view_readable_cache m view" "hk_symbol_build_candidates symbol_name convention = Inr candidates"
    using locate_patch_view assms(2) by blast+
qed

section \<open>The walk\<close>

lemma lookup_incomplete: "lookup_ok m (map_option (\<lambda>l. l\<lparr>lk_complete := False\<rparr>) object)"
  by (cases object) (simp_all add: lookup_ok_def)

lemma acquire_ok: "view_readable_cache m view \<Longrightarrow> answers (cache_index_acquire m view version (slots, heap))"
  unfolding cache_index_acquire_def Let_def by (simp only: prod.case) (intro answers_basic index_build_ok; assumption)

text \<open>The state the walk leaves is good again.\<close>

definition resolver_ok :: "memory \<Rightarrow> resolver_state \<Rightarrow> bool" where
  "resolver_ok m r \<longleftrightarrow> index_ok m (fst r) \<and> lookup_ok m (fst (snd r))"

lemma walk_patch_table_routes:
  assumes "resolver_ok m (slots, object, heap)" "view_readable_cache m view" "distinct candidates"
    "\<And>l. object = Some l \<Longrightarrow> given \<Longrightarrow> names_of (lk_symbol l) (lk_convention l) = candidates"
  shows "map_option fst (walk_patch_table m target view version importer_index candidates visit given c (slots, object, heap)) =
      map_option fst (walk_patch_table m (mutable_target target) view version importer_index candidates visit False c ([], None, [])) \<and>
    (\<forall>result r. walk_patch_table m target view version importer_index candidates visit given c (slots, object, heap) = Some (result, r) \<longrightarrow>
       resolver_ok m r)"
proof -
  let ?lookup = "if given then object else None"
  have ok: "index_ok m slots" "lookup_ok m object" using assms(1) by (simp_all add: resolver_ok_def)
  have look: "lookup_ok m ?lookup" "\<And>l. ?lookup = Some l \<Longrightarrow> names_of (lk_symbol l) (lk_convention l) = candidates"
    using ok(2) assms(4) by (auto simp: lookup_ok_def split: if_splits)
  consider "version = 1" | "version \<ge> 2" "version \<le> 4" | "version < 1 \<or> version > 4" by linarith
  then show ?thesis
  proof cases
    case 1
    show ?thesis
      using ok lookup_incomplete [of m object]
      by (auto simp: walk_patch_table_def Let_def 1 parse_v1_mutable resolver_ok_def split: bind_splits option.splits)
  next
    case 2
    define complete where "complete = (case ?lookup of None \<Rightarrow> False | Some l \<Rightarrow> lk_complete l \<and> lk_version l = version \<and> lk_view l = view)"
    define acquired where "acquired = (if ct_immutable_metadata target \<and> \<not> complete then cache_index_acquire m view version (slots, heap) else Some (None, slots, heap))"
    have "answers acquired" unfolding acquired_def by (intro answers_basic acquire_ok assms(2))
    then obtain index slots1 heap1 where a: "acquired = Some (index, slots1, heap1)" by (auto simp: answers_def)
    have i: "index_of m view version index" "index_ok m slots1"
      using a ok(1) index_acquire_ok [of m view version slots heap index slots1 heap1]
      by (auto simp: acquired_def index_of_def split: if_splits)
    have routes: "client_part (parse_v2_v4 m target view version importer_index candidates visit index ((c, False), ?lookup, heap1)) =
        client_part (parse_v2_v4 m target view version importer_index candidates visit None ((c, False), None, []))"
      by (rule parse_v2_v4_routes(1) [OF look(1) _ assms(3) i(1)]) (rule look(2))
    have walk: "walk_patch_table m target view version importer_index candidates visit given c (slots, object, heap) = do {
        (st, ((c1, found), lookup1, heap2)) \<leftarrow> parse_v2_v4 m target view version importer_index candidates visit index ((c, False), ?lookup, heap1);
        let left = (if st \<noteq> HK_CACHE_PATCH_OK then map_option (\<lambda>l. l\<lparr>lk_complete := False\<rparr>) lookup1 else lookup1);
        Some ((if st \<noteq> HK_CACHE_PATCH_OK then st else if found then HK_CACHE_PATCH_OK else HK_CACHE_PATCH_NOT_FOUND, c1),
              (slots1, if given then left else object, heap2))}"
      using 2 a [unfolded acquired_def complete_def] by (simp add: walk_patch_table_def Let_def)
    have direct: "map_option fst (walk_patch_table m (mutable_target target) view version importer_index candidates visit False c ([], None, [])) =
        map_option (\<lambda>(st, (c1, found)). (if st \<noteq> HK_CACHE_PATCH_OK then st else if found then HK_CACHE_PATCH_OK else HK_CACHE_PATCH_NOT_FOUND, c1))
          (client_part (parse_v2_v4 m target view version importer_index candidates visit None ((c, False), None, [])))"
      using 2 by (simp add: walk_patch_table_def Let_def parse_v2_v4_mutable client_part_def split: bind_splits option.splits)
    have same: "map_option fst (walk_patch_table m target view version importer_index candidates visit given c (slots, object, heap)) =
        map_option (\<lambda>(st, (c1, found)). (if st \<noteq> HK_CACHE_PATCH_OK then st else if found then HK_CACHE_PATCH_OK else HK_CACHE_PATCH_NOT_FOUND, c1))
          (client_part (parse_v2_v4 m target view version importer_index candidates visit index ((c, False), ?lookup, heap1)))"
      unfolding walk by (simp add: client_part_def Let_def split: bind_splits option.splits)
    have left: "resolver_ok m r"
      if run: "walk_patch_table m target view version importer_index candidates visit given c (slots, object, heap) = Some (result, r)" for result r
    proof -
      obtain st c1 found lookup1 heap2 where p: "parse_v2_v4 m target view version importer_index candidates visit index ((c, False), ?lookup, heap1) =
          Some (st, ((c1, found), lookup1, heap2))"
        and r: "r = (slots1, if given then (if st \<noteq> HK_CACHE_PATCH_OK then map_option (\<lambda>l. l\<lparr>lk_complete := False\<rparr>) lookup1 else lookup1) else object, heap2)"
        using run unfolding walk Let_def by (auto split: bind_splits)
      show ?thesis
      proof (cases "st = HK_CACHE_PATCH_OK")
        case True
        have "lookup_ok m lookup1"
          by (rule parse_v2_v4_routes(2) [OF look(1) _ assms(3) i(1) p [unfolded True]]) (rule look(2))
        then show ?thesis using True i(2) ok(2) by (simp add: resolver_ok_def r)
      next
        case False
        then show ?thesis using lookup_incomplete [of m lookup1] i(2) ok(2) by (simp add: resolver_ok_def r)
      qed
    qed
    show ?thesis using same direct routes left by simp
  next
    case 3
    then show ?thesis using assms(1) by (auto simp: walk_patch_table_def Let_def)
  qed
qed

lemma cache_routes:
  fixes visit :: "'c site_visit"
  assumes "readable m (ct_cache_base target) (ct_cache_size target)" "resolver_ok m r"
  shows "map_option fst (hk_dyld_cache_iterate_symbol_uses_with_lookup m target symbol_name convention visit c r) =
      map_option fst (hk_dyld_cache_iterate_symbol_uses_with_lookup m (mutable_target target) symbol_name convention visit c ([], None, [])) \<and>
    (\<forall>result r1. hk_dyld_cache_iterate_symbol_uses_with_lookup m target symbol_name convention visit c r = Some (result, r1) \<longrightarrow> resolver_ok m r1)"
proof -
  obtain slots object heap where r: "r = (slots, object, heap)" by (cases r)
  define given where "given = (case object of None \<Rightarrow> False | Some lookup \<Rightarrow> lk_convention lookup = convention \<and> lk_symbol lookup = symbol_name)"
  define bad where "bad \<longleftrightarrow> ct_cache_base target = 0 \<or> ct_image_header target = 0 \<or> ct_image_path target = None \<or> ct_cache_size target < 168"
  define out where "out \<longleftrightarrow> ct_cache_size target > unat (- 1 - ct_cache_base target) \<or> ct_image_header target < ct_cache_base target \<or>
           unat (ct_image_header target - ct_cache_base target) \<ge> ct_cache_size target"
  have opened: "open_cache m target symbol_name convention = None \<or> (\<exists>st. open_cache m target symbol_name convention = Some (Inl st)) \<or>
      (\<exists>i view version candidates. open_cache m target symbol_name convention = Some (Inr (i, view, version, candidates)))"
    by (metis not_None_eq old.sum.exhaust prod_cases4)
  note unfolded = hk_dyld_cache_iterate_symbol_uses_with_lookup_def open_cache_mutable mutable_fields r bad_def out_def
  consider "bad \<or> out" | "\<not> bad" "\<not> out" "open_cache m target symbol_name convention = None"
    | st where "\<not> bad" "\<not> out" "open_cache m target symbol_name convention = Some (Inl st)"
    | i view version candidates where "\<not> bad" "\<not> out" "open_cache m target symbol_name convention = Some (Inr (i, view, version, candidates))"
    using opened by metis
  then show ?thesis
  proof cases
    case 4
    have names: "names_of (lk_symbol l) (lk_convention l) = candidates" if "object = Some l" given for l
      using that open_cache_view(2) [OF 4(3) assms(1)] by (simp add: given_def names_of_def)
    have run: "hk_dyld_cache_iterate_symbol_uses_with_lookup m target symbol_name convention visit c r =
        walk_patch_table m target view version i candidates visit given c (slots, object, heap)"
      using 4 by (auto simp: unfolded given_def)
    have direct: "hk_dyld_cache_iterate_symbol_uses_with_lookup m (mutable_target target) symbol_name convention visit c ([], None, []) =
        walk_patch_table m (mutable_target target) view version i candidates visit False c ([], None, [])"
      using 4 by (auto simp: unfolded)
    show ?thesis
      unfolding run direct
      by (rule walk_patch_table_routes [OF assms(2) [unfolded r] open_cache_view(1) [OF 4(3) assms(1)]
            names_distinct [OF open_cache_view(2) [OF 4(3) assms(1)]] names])
  next
    case 1
    then show ?thesis using assms(2) by (auto simp: unfolded)
  next
    case 2
    then show ?thesis by (auto simp: unfolded)
  next
    case 3
    then show ?thesis using assms(2) by (auto simp: unfolded)
  qed
qed

text \<open>C13. The routes through the patch table of the shared cache agree. Whatever indices of the cache and whatever
  matches of earlier preparations are kept, and whether or not the allocator can extend them, a lookup with them gives
  the status and hands the visitor the uses that the plain scan of the same cache does; and what it keeps afterwards
  is again an index and a lookup of which this holds.
\<close>

theorem cache_routes_agree:
  fixes visit :: "'c site_visit"
  assumes "readable m (ct_cache_base target) (ct_cache_size target)" "resolver_ok m (slots, object, heap)"
  shows "map_option fst (hk_dyld_cache_iterate_symbol_uses_with_lookup m target symbol_name convention visit c (slots, object, heap)) =
      map_option fst (hk_dyld_cache_iterate_symbol_uses m (mutable_target target) symbol_name convention visit c ([], [])) \<and>
    (\<forall>result r1. hk_dyld_cache_iterate_symbol_uses_with_lookup m target symbol_name convention visit c (slots, object, heap) = Some (result, r1) \<longrightarrow>
       resolver_ok m r1)"
proof -
  have "map_option fst (hk_dyld_cache_iterate_symbol_uses m (mutable_target target) symbol_name convention visit c ([], [])) =
      map_option fst (hk_dyld_cache_iterate_symbol_uses_with_lookup m (mutable_target target) symbol_name convention visit c ([], None, []))"
    by (simp add: hk_dyld_cache_iterate_symbol_uses_def option.map_comp case_prod_unfold comp_def)
  then show ?thesis using cache_routes [OF assms] by simp
qed

definition sample_view :: cache_view where
  "sample_view = \<lparr>cv_base = 0x10000, cv_size = 0x1000, cv_unslid_base = 0, cv_patch = 0x10000, cv_patch_size = 104\<rparr>"

definition sample_cache_lookup :: hk_cache_patch_lookup where
  "sample_cache_lookup = \<lparr>lk_view = sample_view, lk_version = 2, lk_convention = HK_SYMBOL_NAME_C, lk_matches = [],
     lk_capacity = 0, lk_complete = True, lk_allocation_failed = False, lk_symbol = [0x66]\<rparr>"

definition sample_cache_target :: hk_cache_patch_target where
  "sample_cache_target = \<lparr>ct_cache_base = 0x10000, ct_cache_size = 0x1000, ct_image_header = 0x10200, ct_image_header_size = 0x100,
     ct_image_slide = 0, ct_image_path = Some [0x61], ct_uuid_present = False, ct_uuid = [], ct_include_shared_got = True,
     ct_immutable_metadata = True\<rparr>"

lemma sample_entries: "table_entries (\<lambda>_. Some 0) sample_view 2 =
    Some (\<lparr>t2_images = (0x10000, 0), t2_image_exports = (0x10000, 0), t2_clients = (0x10000, 0), t2_client_exports = (0x10000, 0),
      t2_locations = (0x10000, 0), t2_names = (0x10000, 0), t2_got_clients = (0, 0), t2_got_exports = (0, 0), t2_got_locations = (0, 0)\<rparr>, [])"
  by (simp add: table_entries_def load_v2_def load_pair_def got_pair_def patch_array_def range_at_def sample_view_def
      rd32_def rd64_def rd8_def cache_sizes)

lemma cache_routes_agree_witness:
  "resolver_ok (\<lambda>_. Some 0) ([(sample_view, 2, [])], Some sample_cache_lookup, []) \<and>
   map_option fst (hk_dyld_cache_iterate_symbol_uses_with_lookup (\<lambda>_. Some 0) sample_cache_target [0x66] HK_SYMBOL_NAME_C
       (\<lambda>sites site. Some (site # sites, True)) [] ([(sample_view, 2, [])], Some sample_cache_lookup, [])) =
     map_option fst (hk_dyld_cache_iterate_symbol_uses (\<lambda>_. Some 0) (mutable_target sample_cache_target) [0x66] HK_SYMBOL_NAME_C
       (\<lambda>sites site. Some (site # sites, True)) [] ([], []))"
proof -
  have r: "readable (\<lambda>_. Some 0) (ct_cache_base sample_cache_target) (ct_cache_size sample_cache_target)"
    by (simp add: readable_def rd8_def)
  have ok: "resolver_ok (\<lambda>_. Some 0) ([(sample_view, 2, [])], Some sample_cache_lookup, [])"
    using sample_entries by (simp add: resolver_ok_def index_ok_def lookup_ok_def matches_ok_def sample_cache_lookup_def qsort_entries_def)
  show ?thesis by (rule conjI [OF ok conjunct1 [OF cache_routes_agree [OF r ok]]])
qed

text \<open>A table of one byte at the end of the cache: its version is read before its size is refused.\<close>

lemma short_patch_table_faults:
  "check_patch_table (mem_of 0x10000 [2]) (sample_view\<lparr>cv_size := 1, cv_patch_size := 1\<rparr>) 0x200 1 = None"
  by (simp add: check_patch_table_def sample_view_def DCH_SWIFT_OPTS_SIZE_def rd32_def rd16_def rd8_def mem_of_def)

end
