(* ===== verification/HK_CacheVisits.thy ===== *)
theory HK_CacheVisits
  imports HK_CacheLookup
begin

text \<open>
  What the visitor of the patch table keeps, the traversal keeps: an invariant of the client's context that
  every call of the visitor preserves holds when the traversal ends, whatever route it took and however it ended.
\<close>

section \<open>Steps\<close>

definition leaves :: "('s \<Rightarrow> bool) \<Rightarrow> 's cache_step \<Rightarrow> bool" where
  "leaves P r \<longleftrightarrow> (\<forall>st s. r = Some (st, s) \<longrightarrow> P s)"

lemma leavesD: "leaves P r \<Longrightarrow> r = Some (st, s) \<Longrightarrow> P s"
  by (simp add: leaves_def)

lemma leaves_Some: "P s \<Longrightarrow> leaves P (Some (st, s))"
  by (simp add: leaves_def)

lemma leaves_bind: "(\<And>v. r = Some v \<Longrightarrow> leaves P (f v)) \<Longrightarrow> leaves P (Option.bind r f)"
  by (cases r) (auto simp: leaves_def)

lemma leaves_if: "(Q \<Longrightarrow> leaves P a) \<Longrightarrow> (\<not> Q \<Longrightarrow> leaves P b) \<Longrightarrow> leaves P (if Q then a else b)"
  by simp

lemma leaves_option: "(x = None \<Longrightarrow> leaves P a) \<Longrightarrow> (\<And>v. x = Some v \<Longrightarrow> leaves P (f v)) \<Longrightarrow> leaves P (case x of None \<Rightarrow> a | Some v \<Rightarrow> f v)"
  by (cases x) auto

lemma leaves_prod: "(\<And>a b. x = (a, b) \<Longrightarrow> leaves P (f a b)) \<Longrightarrow> leaves P (case x of (a, b) \<Rightarrow> f a b)"
  by (cases x) simp

lemma leaves_then: "leaves P r \<Longrightarrow> (\<And>s. P s \<Longrightarrow> leaves P (f s)) \<Longrightarrow> leaves P (then_ok r f)"
  by (auto simp: leaves_def then_ok_def split: option.splits if_splits)

lemma leaves_each: "P s \<Longrightarrow> (\<And>i s. P s \<Longrightarrow> leaves P (f i s)) \<Longrightarrow> leaves P (each_from f i n s)"
  by (induction n arbitrary: i s) (auto simp: leaves_Some intro!: leaves_then)

lemmas leaves_basic = leaves_Some leaves_bind leaves_if leaves_option leaves_prod leaves_then leaves_each

section \<open>Uses\<close>

text \<open>Every call of the visitor keeps the invariant.\<close>

definition visits_keep :: "('c \<Rightarrow> bool) \<Rightarrow> 'c site_visit \<Rightarrow> bool" where
  "visits_keep P visit \<longleftrightarrow> (\<forall>c site c1 b. P c \<longrightarrow> visit c site = Some (c1, b) \<longrightarrow> P c1)"

abbreviation on_client :: "('c \<Rightarrow> bool) \<Rightarrow> 'c uses \<Rightarrow> bool" where
  "on_client P s \<equiv> P (fst s)"

abbreviation on_traversal :: "('c \<Rightarrow> bool) \<Rightarrow> 'c traversal \<Rightarrow> bool" where
  "on_traversal P t \<equiv> P (fst (fst t))"

lemma emit_location_keeps:
  "visits_keep P visit \<Longrightarrow> P (fst s) \<Longrightarrow> leaves (on_client P) (emit_location m target view offset bits v4 shared_got visit s)"
  unfolding emit_location_def Let_def by (intro leaves_basic) (auto simp: visits_keep_def)

lemma v1_location_keeps:
  "visits_keep P visit \<Longrightarrow> P (fst s) \<Longrightarrow> leaves (on_client P) (v1_location m target view locations visit loc_first k s)"
  unfolding v1_location_def Let_def by (intro leaves_basic emit_location_keeps) auto

lemma v1_export_keeps:
  "visits_keep P visit \<Longrightarrow> P (fst s) \<Longrightarrow> leaves (on_client P) (v1_export m target view exps locations names candidates visit first j s)"
  unfolding v1_export_def Let_def by (intro leaves_basic v1_location_keeps) auto

lemma v1_image_keeps:
  "visits_keep P visit \<Longrightarrow> P (fst s) \<Longrightarrow> leaves (on_client P) (v1_image m target view images exps locations names candidates visit i s)"
  unfolding v1_image_def by (intro leaves_basic v1_export_keeps) auto

lemma parse_v1_keeps: "visits_keep P visit \<Longrightarrow> P (fst s) \<Longrightarrow> leaves (on_client P) (parse_v1 m target view candidates visit s)"
  unfolding parse_v1_def by (intro leaves_basic v1_image_keeps) auto

lemma client_location_keeps:
  "visits_keep P visit \<Longrightarrow> P (fst s) \<Longrightarrow> leaves (on_client P) (client_location m target view table version visit first i s)"
  unfolding client_location_def Let_def by (intro leaves_basic emit_location_keeps) auto

lemma emit_client_export_keeps:
  "visits_keep P visit \<Longrightarrow> P (fst s) \<Longrightarrow> leaves (on_client P) (emit_client_export m target view table version global_export visit ce_first ce s)"
  unfolding emit_client_export_def Let_def by (intro leaves_basic client_location_keeps) auto

lemma emit_client_keeps:
  "visits_keep P visit \<Longrightarrow> P (fst s) \<Longrightarrow>
   leaves (on_client P) (emit_client m target view table version importer_index global_export visit client_first c s)"
  unfolding emit_client_def Let_def by (intro leaves_basic emit_client_export_keeps) auto

lemma got_location_keeps:
  "visits_keep P visit \<Longrightarrow> P (fst s) \<Longrightarrow> leaves (on_client P) (got_location m target view table version visit first i s)"
  unfolding got_location_def Let_def by (intro leaves_basic emit_location_keeps) auto

lemma emit_got_export_keeps:
  "visits_keep P visit \<Longrightarrow> P (fst s) \<Longrightarrow> leaves (on_client P) (emit_got_export m target view table version global_export visit ge_first ge s)"
  unfolding emit_got_export_def Let_def by (intro leaves_basic got_location_keeps) auto

lemma emit_got_uses_keeps:
  "visits_keep P visit \<Longrightarrow> P (fst s) \<Longrightarrow> leaves (on_client P) (emit_got_uses m target view table version def_image global_export visit s)"
  unfolding emit_got_uses_def Let_def by (intro leaves_basic emit_got_export_keeps) auto

lemma emit_uses_keeps:
  "visits_keep P visit \<Longrightarrow> P (fst s) \<Longrightarrow> leaves (on_client P) (emit_uses m target view table version importer_index visit def_image global_export s)"
  unfolding emit_uses_def emit_export_uses_def by (intro leaves_basic emit_client_keeps emit_got_uses_keeps) auto

section \<open>Traversals\<close>

text \<open>\<open>emit\<close> keeps the invariant.\<close>

definition emits_keep :: "('c \<Rightarrow> bool) \<Rightarrow> (nat \<Rightarrow> u32 \<Rightarrow> 'c uses \<Rightarrow> 'c uses cache_step) \<Rightarrow> bool" where
  "emits_keep P emit \<longleftrightarrow> (\<forall>d x s. P (fst s) \<longrightarrow> leaves (on_client P) (emit d x s))"

lemma emit_into_keeps: "emits_keep P emit \<Longrightarrow> P (fst (fst t)) \<Longrightarrow> leaves (on_traversal P) (emit_into (emit d x) t)"
proof -
  assume e: "emits_keep P emit" "P (fst (fst t))"
  then have "leaves (on_client P) (emit d x (fst t))" unfolding emits_keep_def by blast
  then show ?thesis by (auto simp: leaves_def [of "on_traversal P"] emit_into_def dest: leavesD)
qed

lemma scan_export_keeps:
  "emits_keep P emit \<Longrightarrow> P (fst (fst t)) \<Longrightarrow> leaves (on_traversal P) (scan_export m table emit candidates def_image export_first e t)"
  unfolding scan_export_def Let_def by (intro leaves_basic emit_into_keeps) auto

lemma scan_definition_keeps:
  "emits_keep P emit \<Longrightarrow> P (fst (fst t)) \<Longrightarrow> leaves (on_traversal P) (scan_definition m table emit candidates def_image t)"
  unfolding scan_definition_def Let_def by (intro leaves_basic scan_export_keeps) auto

lemma replay_runs_keeps:
  "emits_keep P emit \<Longrightarrow> P (fst (fst t)) \<Longrightarrow> leaves (on_traversal P) (replay_runs m table emit runs t)"
proof (induction m table emit runs t rule: replay_runs.induct)
  case (1 m table emit runs t)
  show ?case
  proof (cases "pick_run runs")
    case None
    then show ?thesis using 1 by (simp add: replay_runs.simps [of m table emit runs] leaves_Some)
  next
    case (Some p)
    show ?thesis
      unfolding replay_runs.simps [of m table emit runs] Some option.case Let_def
      by (intro leaves_basic emit_into_keeps 1(1) [OF Some refl]) (use 1 in auto)
  qed
qed

lemma replay_matches_keeps:
  assumes "emits_keep P emit" "replay_matches m table emit def_image row ms t = Some (st, t1)" "P (fst (fst t))"
  shows "P (fst (fst t1))"
proof -
  have "emits_keep P emit \<longrightarrow> P (fst (fst t)) \<longrightarrow> P (fst (fst (snd r)))"
    if "replay_matches m table emit def_image row ms t = Some r" for r
  proof (rule replay_matches.raw_induct [where P = "\<lambda>m table emit def_image row ms t r. emits_keep P emit \<longrightarrow> P (fst (fst t)) \<longrightarrow> P (fst (fst (snd r)))", OF _ that])
    fix go m table emit def_image row ms t r
    assume ih: "\<And>m table emit def_image row ms t r. go m table emit def_image row ms t = Some r \<Longrightarrow>
        emits_keep P emit \<longrightarrow> P (fst (fst t)) \<longrightarrow> P (fst (fst (snd r)))"
      and run: "(case row of
        None \<Rightarrow>
          (if def_image \<ge> snd (t2_images table) \<or> ms = [] then Some (HK_CACHE_PATCH_OK, t)
           else Option.bind (row_counts m table (fst (hd ms))) (\<lambda>counts.
             (case counts of
                None \<Rightarrow> Some (HK_CACHE_PATCH_MALFORMED, t)
              | Some (export_first, export_count) \<Rightarrow> go m table emit (fst (hd ms)) (Some (export_first, export_count, 0)) ms t)))
      | Some (export_first, export_count, e) \<Rightarrow>
          (if \<not> e < export_count \<or> ms = [] \<or> fst (hd ms) \<noteq> def_image then go m table emit (def_image + 1) None ms t
           else let e1 = snd (hd ms) - export_first; global_export = export_first + e1
             in Option.bind (rd32 m (fst (t2_image_exports table)) (unat global_export * CACHE_IMAGE_EXPORT_V2_SIZE + 4)) (\<lambda>name_and_kind.
               (if drop_bit 28 name_and_kind \<noteq> 0 then Some (HK_CACHE_PATCH_UNSUPPORTED, t)
                else Option.bind (emit_into (emit def_image global_export) t) (\<lambda>(st, t1).
                  if st \<noteq> HK_CACHE_PATCH_OK then Some (st, t1)
                  else go m table emit def_image (Some (export_first, export_count, e1 + 1)) (tl ms) t1))))) = Some r"
    have emitted: "P (fst (fst t1))" if "emits_keep P emit" "P (fst (fst t))" "emit_into (emit d x) t = Some (st, t1)" for d x st t1
      using leavesD [OF emit_into_keeps [OF that(1,2)] that(3)] .
    show "emits_keep P emit \<longrightarrow> P (fst (fst t)) \<longrightarrow> P (fst (fst (snd r)))"
    proof (intro impI)
      assume P: "emits_keep P emit" "P (fst (fst t))"
      show "P (fst (fst (snd r)))"
      proof (cases row)
        case None
        consider "snd r = t" | f n where "go m table emit (fst (hd ms)) (Some (f, n, 0)) ms t = Some r"
          using run unfolding None option.case by (auto split: if_splits bind_splits option.splits)
        then show ?thesis using ih P by (cases, simp, blast)
      next
        case (Some q)
        obtain f n e where q: "q = (f, n, e)" by (cases q)
        consider "snd r = t" | "go m table emit (def_image + 1) None ms t = Some r"
          | x where "emit_into (emit def_image x) t = Some r"
          | x st1 t1 row1 where "emit_into (emit def_image x) t = Some (st1, t1)" "go m table emit def_image row1 (tl ms) t1 = Some r"
          using run unfolding Some option.case q prod.case Let_def by (auto split: if_splits bind_splits)
        then show ?thesis
        proof cases
          case 3
          then show ?thesis using emitted [OF P, of def_image x "fst r" "snd r"] by simp
        next
          case 4
          then show ?thesis using ih [OF 4(2)] P(1) emitted [OF P 4(1)] by simp
        next
          case 1
          then show ?thesis using P by simp
        next
          case 2
          then show ?thesis using ih P by blast
        qed
      qed
    qed
  qed
  then show ?thesis using assms by fastforce
qed

lemma parse_v2_v4_keeps:
  assumes "visits_keep P visit" "P (fst (fst t))"
  shows "leaves (on_traversal P) (parse_v2_v4 m target view version importer_index candidates visit index t)"
proof -
  have e: "emits_keep P (emit_uses m target view table version importer_index visit)" for table
    using emit_uses_keeps [OF assms(1)] by (simp add: emits_keep_def)
  have walked: "leaves (on_traversal P) (if reuse then replay_matches m table (emit_uses m target view table version importer_index visit) 0 None ms (s, lookup, heap)
       else case index of
         Some entries \<Rightarrow> replay_runs m table (emit_uses m target view table version importer_index visit) (map (index_run entries) candidates) (s, lookup, heap)
       | None \<Rightarrow> each_from (scan_definition m table (emit_uses m target view table version importer_index visit) candidates) 0 (snd (t2_images table)) (s, lookup, heap))"
    if "P (fst s)" for reuse table ms s lookup heap
    by (intro leaves_basic replay_runs_keeps scan_definition_keeps e)
      (use that replay_matches_keeps [OF e] in \<open>auto simp: leaves_def\<close>)
  show ?thesis
    unfolding parse_v2_v4_def Let_def
    using walked assms(2) by (intro leaves_basic) (fastforce simp: leaves_def)+
qed

section \<open>The walk\<close>

lemma walk_patch_table_keeps:
  assumes "visits_keep P visit" "P c"
    "walk_patch_table m target view version importer_index candidates visit given c r = Some ((st, c1), r1)"
  shows "P c1"
proof -
  obtain slots object heap where r: "r = (slots, object, heap)" by (cases r)
  consider s f where "parse_v1 m target view candidates visit (c, False) = Some (s, (c1, f))"
    | s f l index h t where "parse_v2_v4 m target view version importer_index candidates visit index ((c, False), l, h) = Some (s, ((c1, f), t))"
    | "c1 = c"
    using assms(3) by (auto simp: walk_patch_table_def r Let_def split: if_splits bind_splits)
  then show ?thesis
  proof cases
    case 1
    then show ?thesis using leavesD [OF parse_v1_keeps [OF assms(1), of "(c, False)"]] assms(2) by fastforce
  next
    case 2
    then show ?thesis using leavesD [OF parse_v2_v4_keeps [OF assms(1), of "((c, False), l, h)"]] assms(2) by fastforce
  qed (use assms(2) in simp)
qed

lemma cache_iterate_keeps:
  assumes "visits_keep P visit" "P c"
    "hk_dyld_cache_iterate_symbol_uses_with_lookup m target symbol_name convention visit c r = Some ((st, c1), r1)"
  shows "P c1"
proof -
  consider "c1 = c" | i view version candidates given where
    "walk_patch_table m target view version i candidates visit given c r = Some ((st, c1), r1)"
    using assms(3) by (auto simp: hk_dyld_cache_iterate_symbol_uses_with_lookup_def Let_def split: if_splits bind_splits sum.splits)
  then show ?thesis using walk_patch_table_keeps [OF assms(1,2)] assms(2) by cases auto
qed

end
