(* ===== verification/HK_Rebind.thy ===== *)
theory HK_Rebind
  imports HK_CacheLookup HK_ChainedFixups HK_Native HK_Ledger
begin

text \<open>
  The rebinding engine, first phase (\<open>src/engines/HKRebindEngine.c\<close>): the import slots of a symbol in one
  image are enumerated and their present values read. The metadata that counts is the live cache's patch table
  for an image in the shared cache, the chains of the original file for an image with chained fixups, and
  the indirect symbols of the load commands otherwise. Nothing is written, so a preparation reads one memory
  \<open>m\<close>; its state are the caches of files and of sites, and what the resolver of the shared cache keeps.

  The file system is a parameter: the bytes a path gives when it is mapped, as an address and a size, or nothing.
  Locks, and the moment a mapping is given back, are outside the model. A site list that a failed enumeration leaves
  behind is not part of its result.
\<close>

section \<open>Sites and plans\<close>

definition HK_REBIND_MAX_SITES :: nat where "HK_REBIND_MAX_SITES = 32"

datatype hk_rebind_status =
    HK_REBIND_OK | HK_REBIND_NOT_FOUND | HK_REBIND_INVALID_ARGUMENT | HK_REBIND_MALFORMED_IMAGE | HK_REBIND_TOO_MANY_SITES
  | HK_REBIND_METADATA_UNAVAILABLE | HK_REBIND_PAC_MISMATCH | HK_REBIND_UNSUPPORTED_FORMAT | HK_REBIND_SCOPE_UNREPRESENTABLE

text \<open>\<open>'s\<close> is the state the writer of a slot changes; its context is part of the function.\<close>

type_synonym 's hk_rebind_write_fn = "u64 \<Rightarrow> u64 \<Rightarrow> 's \<Rightarrow> hk_mutation_state \<times> 's"

record 's hk_rebind_target =
  rt_image_base :: ptr
  rt_image_size :: nat
  rt_slide :: u64
  rt_image_path :: "byte list option"
  rt_file_image :: ptr
  rt_file_image_size :: nat
  rt_cache_base :: ptr
  rt_cache_size :: nat
  rt_uuid_present :: bool
  rt_uuid :: "byte list"
  rt_include_shared_cache_got :: bool
  rt_write :: "'s hk_rebind_write_fn option"

record hk_rebind_site =
  rbs_address :: u64
  rbs_original :: u64
  rbs_callable_original :: u64
  rbs_addend :: int
  rbs_schema :: hk_pac_schema
  rbs_weak_import :: bool
  rbs_from_chained :: bool
  rbs_from_cache :: bool

text \<open>The count is the length of the list.\<close>

record hk_rebind_plan =
  rbp_sites :: "hk_rebind_site list"
  rbp_originals_agree :: bool
  rbp_original :: u64

definition zero_rebind_plan :: hk_rebind_plan where
  "zero_rebind_plan = \<lparr>rbp_sites = [], rbp_originals_agree = False, rbp_original = 0\<rparr>"

definition hk_rebind_read_slot :: "memory \<Rightarrow> u64 \<Rightarrow> u64 option" where
  "hk_rebind_read_slot m address = rd64 m address 0"

datatype add_site_status = ADD_SITE_OK | ADD_SITE_OVERFLOW | ADD_SITE_MALFORMED | ADD_SITE_PAC_MISMATCH

text \<open>Adding or subtracting a signed addend without wrapping.\<close>

definition checked_adjust :: "u64 \<Rightarrow> int \<Rightarrow> bool \<Rightarrow> u64 option" where
  "checked_adjust v addend adding =
     (let magnitude = (if addend < 0 then of_int (- (addend + 1)) + 1 else of_int addend) :: u64
      in if (addend \<ge> 0) = adding then (if magnitude > - 1 - v then None else Some (v + magnitude))
         else (if magnitude > v then None else Some (v - magnitude)))"

definition add_site :: "hk_pac \<Rightarrow> memory \<Rightarrow> hk_rebind_plan \<Rightarrow> u64 \<Rightarrow> hk_pac_schema \<Rightarrow> int \<Rightarrow> bool \<Rightarrow> bool \<Rightarrow> bool \<Rightarrow>
    (add_site_status \<times> hk_rebind_plan) option" where
  "add_site pac m plan address schema addend weak_import from_chained from_cache =
     (case find (\<lambda>site. rbs_address site = address) (rbp_sites plan) of
        Some existing \<Rightarrow>
          Some (if rbs_schema existing = schema \<and> rbs_addend existing = addend then ADD_SITE_OK else ADD_SITE_MALFORMED, plan)
      | None \<Rightarrow>
          if length (rbp_sites plan) \<ge> HK_REBIND_MAX_SITES then Some (ADD_SITE_OVERFLOW, plan)
          else do {
            old \<leftarrow> hk_rebind_read_slot m address;
            Some (if old = 0 \<and> (\<not> weak_import \<or> addend \<noteq> 0) then (ADD_SITE_MALFORMED, plan)
              else if old \<noteq> 0 \<and> \<not> hk_pac_slot_matches pac old schema address then (ADD_SITE_PAC_MISMATCH, plan)
              else case checked_adjust (if old = 0 then 0 else hk_pac_strip_slot pac old schema) addend False of
                None \<Rightarrow> (ADD_SITE_MALFORMED, plan)
              | Some base \<Rightarrow>
                  (ADD_SITE_OK, plan\<lparr>rbp_sites := rbp_sites plan @
                     [\<lparr>rbs_address = address, rbs_original = old, rbs_callable_original = hk_pac_make_callable pac base,
                       rbs_addend = addend, rbs_schema = schema, rbs_weak_import = weak_import,
                       rbs_from_chained = from_chained, rbs_from_cache = from_cache\<rparr>]\<rparr>))
          })"

section \<open>The three visitors\<close>

definition AUTH_GOT :: "byte list" where "AUTH_GOT = str_bytes ''__auth_got''"

text \<open>The context is the plan and the error.\<close>

definition dysymtab_slot_cb :: "hk_pac \<Rightarrow> memory \<Rightarrow> byte list list \<Rightarrow> u64 \<Rightarrow> (hk_rebind_plan \<times> add_site_status) slot_visit" where
  "dysymtab_slot_cb pac m candidates slide c slot =
     (if is_symbol_name slot \<notin> set candidates then Some (c, True)
      else let schema = (if c_string (is_sectname slot) = AUTH_GOT
               then zero_schema\<lparr>ps_authenticated := True, ps_key := HK_PAC_KEY_IA, ps_address_diversity := True\<rparr> else zero_schema)
        in do {
          (status, plan) \<leftarrow> add_site pac m (fst c) (is_slot_vmaddr slot + slide) schema 0 False False False;
          Some (if status \<noteq> ADD_SITE_OK then ((plan, status), False) else ((plan, snd c), True))
        })"

text \<open>The plan and the failures seen; what a site adds to them.\<close>

record rebind_collect =
  co_plan :: hk_rebind_plan
  co_overflow :: bool
  co_malformed :: bool
  co_pac_mismatch :: bool

definition collect_start :: "hk_rebind_plan \<Rightarrow> rebind_collect" where
  "collect_start plan = \<lparr>co_plan = plan, co_overflow = False, co_malformed = False, co_pac_mismatch = False\<rparr>"

definition collect_site :: "rebind_collect \<Rightarrow> add_site_status \<times> hk_rebind_plan \<Rightarrow> rebind_collect \<times> bool" where
  "collect_site c added =
     (let (status, plan) = added;
          c1 = c\<lparr>co_plan := plan\<rparr>;
          c2 = (if status = ADD_SITE_OVERFLOW then c1\<lparr>co_overflow := True\<rparr> else c1);
          c3 = (if status = ADD_SITE_MALFORMED then c2\<lparr>co_malformed := True\<rparr> else c2);
          c4 = (if status = ADD_SITE_PAC_MISMATCH then c3\<lparr>co_pac_mismatch := True\<rparr> else c3)
      in (c4, status = ADD_SITE_OK))"

text \<open>The addend of the import and of the bind, added as 64-bit numbers.\<close>

definition INT64_MAX :: int where "INT64_MAX = 2 ^ 63 - 1"
definition INT64_MIN :: int where "INT64_MIN = - (2 ^ 63)"

definition chained_bind_cb :: "hk_pac \<Rightarrow> memory \<Rightarrow> hk_chained_fixups \<Rightarrow> byte list list \<Rightarrow> ptr \<Rightarrow> nat \<Rightarrow> rebind_collect bind_visit" where
  "chained_bind_cb pac m fixups candidates image_base image_size c bnd = do {
     entry \<leftarrow> hk_chained_import_at m fixups (cb_import_ordinal bnd);
     (case entry of
        Inl _ \<Rightarrow> Some (c\<lparr>co_malformed := True\<rparr>, False)
      | Inr import \<Rightarrow>
          if ci_symbol_name import \<notin> set candidates then Some (c, True)
          else if unat (cb_slot_image_offset bnd) > image_size \<or> 8 > image_size - unat (cb_slot_image_offset bnd)
          then Some (c\<lparr>co_malformed := True\<rparr>, False)
          else if cb_addend bnd > 0 \<and> ci_addend import > INT64_MAX - cb_addend bnd \<or>
              cb_addend bnd < 0 \<and> ci_addend import < INT64_MIN - cb_addend bnd
          then Some (c\<lparr>co_malformed := True\<rparr>, False)
          else do {
            let combined = ci_addend import + cb_addend bnd;
            let schema = \<lparr>ps_authenticated = cb_is_auth bnd, ps_key = pac_key_of (cb_key bnd), ps_diversity = cb_diversity bnd,
                  ps_address_diversity = cb_address_diversity bnd\<rparr>;
            added \<leftarrow> add_site pac m (co_plan c) (image_base + cb_slot_image_offset bnd) schema combined (ci_weak_import import) True False;
            Some (collect_site c added)
          })
   }"

definition cache_patch_cb :: "hk_pac \<Rightarrow> memory \<Rightarrow> rebind_collect site_visit" where
  "cache_patch_cb pac m c site =
     map_option (collect_site c)
       (add_site pac m (co_plan c) (kp_address site) (kp_schema site) (kp_addend site) (kp_weak_import site) False True)"

section \<open>The original file\<close>

definition open_file_view :: "(byte list \<Rightarrow> (ptr \<times> nat) option) \<Rightarrow> 's hk_rebind_target \<Rightarrow> (ptr \<times> nat) option" where
  "open_file_view files target =
     (if rt_file_image target \<noteq> 0 \<and> rt_file_image_size target \<noteq> 0
      then Some (rt_file_image target, rt_file_image_size target)
      else case rt_image_path target of
        None \<Rightarrow> None
      | Some path \<Rightarrow> (case files path of None \<Rightarrow> None | Some (base, n) \<Rightarrow> if n = 0 then None else Some (base, n)))"

definition HK_REBIND_MAX_SEGMENTS :: nat where "HK_REBIND_MAX_SEGMENTS = 64"

text \<open>The segments collected and whether there were too many; the walk numbers them from zero.\<close>

definition collect_segment :: "hk_macho_segment list \<times> bool \<Rightarrow> nat \<Rightarrow> hk_macho_segment \<Rightarrow> (hk_macho_segment list \<times> bool) \<times> bool" where
  "collect_segment c index seg =
     (if index \<ge> HK_REBIND_MAX_SEGMENTS then ((fst c, True), False) else ((take index (fst c) @ [seg], snd c), True))"

text \<open>The file, the part of it for the loaded image, its fixups, and where the segments are in the part.\<close>

record chain_source =
  cs_file :: "ptr \<times> nat"
  cs_slice :: "ptr \<times> nat"
  cs_fixups :: hk_chained_fixups
  cs_collected :: "hk_macho_segment list"
  cs_mappings :: "hk_chained_segment_mapping list"
  cs_preferred :: u64

definition preferred_address :: "hk_macho_segment list \<Rightarrow> u64" where
  "preferred_address segs =
     fold (\<lambda>seg preferred. if c_string (sg_segname seg) \<noteq> PAGEZERO \<and> sg_vmaddr seg < preferred then sg_vmaddr seg else preferred) segs (- 1)"

definition segment_mapping :: "u64 \<Rightarrow> nat \<Rightarrow> hk_macho_segment \<Rightarrow> hk_chained_segment_mapping option" where
  "segment_mapping preferred slice_size seg =
     (if c_string (sg_segname seg) = PAGEZERO then Some \<lparr>csm_image_offset = 0, csm_file_offset = 0, csm_file_size = 0\<rparr>
      else if sg_vmaddr seg < preferred \<or> unat (sg_fileoff seg) > slice_size \<or>
          unat (sg_filesize seg) > slice_size - unat (sg_fileoff seg) then None
      else Some \<lparr>csm_image_offset = sg_vmaddr seg - preferred, csm_file_offset = sg_fileoff seg, csm_file_size = sg_filesize seg\<rparr>)"

primrec segment_mappings :: "u64 \<Rightarrow> nat \<Rightarrow> hk_macho_segment list \<Rightarrow> hk_chained_segment_mapping list option" where
  "segment_mappings preferred slice_size [] = Some []"
| "segment_mappings preferred slice_size (seg # segs) = do {
     mp \<leftarrow> segment_mapping preferred slice_size seg;
     mps \<leftarrow> segment_mappings preferred slice_size segs;
     Some (mp # mps)
   }"

text \<open>The UUID of the loaded image and of the part.\<close>

definition same_build :: "memory \<Rightarrow> 's hk_rebind_target \<Rightarrow> hk_macho_header \<Rightarrow> ptr \<times> nat \<Rightarrow> bool option" where
  "same_build m target loaded_header part = do {
     live \<leftarrow> hk_macho_copy_uuid m (rt_image_base target) (HK_MACHO_HEADER_64_SIZE + unat (mh_sizeofcmds loaded_header));
     (case live of
        Inl _ \<Rightarrow> Some False
      | Inr live_uuid \<Rightarrow> map_option (\<lambda>r. case r of Inl _ \<Rightarrow> False | Inr file_uuid \<Rightarrow> live_uuid = file_uuid)
          (hk_macho_copy_uuid m (fst part) (snd part)))
   }"

text \<open>Everything that has to be found in the file before its chains can be walked.\<close>

definition load_chains :: "memory \<Rightarrow> 's hk_rebind_target \<Rightarrow> hk_macho_header \<Rightarrow> ptr \<times> nat \<Rightarrow> (hk_rebind_status + chain_source) option" where
  "load_chains m target loaded_header file = do {
     sliced \<leftarrow> hk_macho_select_slice m (fst file) (snd file) (mh_cputype loaded_header) (mh_cpusubtype loaded_header);
     (case sliced of
        Inl st \<Rightarrow> Some (Inl (if st = HK_MACHO_NOT_FOUND then HK_REBIND_UNSUPPORTED_FORMAT else HK_REBIND_MALFORMED_IMAGE))
      | Inr part \<Rightarrow> do {
          same \<leftarrow> same_build m target loaded_header part;
          (if \<not> same then Some (Inl HK_REBIND_MALFORMED_IMAGE)
           else do {
             place \<leftarrow> hk_macho_find_chained_fixups m (fst part) (snd part);
             (case place of
                Inl _ \<Rightarrow> Some (Inl HK_REBIND_MALFORMED_IMAGE)
              | Inr (fixup_offset, fixup_size) \<Rightarrow> do {
                  parsed \<leftarrow> hk_chained_fixups_parse m (fst part + of_nat fixup_offset) fixup_size;
                  (case parsed of
                     Inl st \<Rightarrow> Some (Inl (if st = HK_CHAINED_UNSUPPORTED_FORMAT \<or> st = HK_CHAINED_UNSUPPORTED_VERSION
                         then HK_REBIND_UNSUPPORTED_FORMAT else HK_REBIND_MALFORMED_IMAGE))
                   | Inr fixups \<Rightarrow> do {
                       walked \<leftarrow> hk_macho_iterate_segments m (fst part) (snd part) collect_segment ([], False);
                       Some (case walked of
                         Inl _ \<Rightarrow> Inl HK_REBIND_MALFORMED_IMAGE
                       | Inr (collected, overflow) \<Rightarrow>
                           if overflow then Inl HK_REBIND_UNSUPPORTED_FORMAT
                           else if collected = [] then Inl HK_REBIND_MALFORMED_IMAGE
                           else let preferred = preferred_address collected
                             in if preferred = - 1 then Inl HK_REBIND_MALFORMED_IMAGE
                                else case segment_mappings preferred (snd part) collected of
                                  None \<Rightarrow> Inl HK_REBIND_MALFORMED_IMAGE
                                | Some mappings \<Rightarrow> Inr \<lparr>cs_file = file, cs_slice = part, cs_fixups = fixups, cs_collected = collected,
                                    cs_mappings = mappings, cs_preferred = preferred\<rparr>)
                     })
                })
           })
        })
   }"

text \<open>The walk of the chains and its verdict.\<close>

definition walk_chains :: "hk_pac \<Rightarrow> memory \<Rightarrow> byte list list \<Rightarrow> 's hk_rebind_target \<Rightarrow> chain_source \<Rightarrow> hk_rebind_plan \<Rightarrow>
    (hk_chained_status \<times> rebind_collect) option" where
  "walk_chains pac m candidates target source plan =
     hk_chained_fixups_iterate_file_binds m (cs_fixups source) (fst (cs_slice source)) (snd (cs_slice source)) (cs_mappings source)
       (chained_bind_cb pac m (cs_fixups source) candidates (rt_image_base target) (rt_image_size target)) (collect_start plan)"

definition chain_verdict :: "hk_chained_status \<times> rebind_collect \<Rightarrow> hk_rebind_status" where
  "chain_verdict walked =
     (let (chained, c) = walked
      in if co_overflow c then HK_REBIND_TOO_MANY_SITES
         else if co_pac_mismatch c then HK_REBIND_PAC_MISMATCH
         else if co_malformed c \<or> chained = HK_CHAINED_MALFORMED then HK_REBIND_MALFORMED_IMAGE
         else if chained \<noteq> HK_CHAINED_OK then HK_REBIND_UNSUPPORTED_FORMAT
         else if rbp_sites (co_plan c) \<noteq> [] then HK_REBIND_OK else HK_REBIND_NOT_FOUND)"

end
