(* ===== verification/HK_RebindPrepare.thy ===== *)
theory HK_RebindPrepare
  imports HK_Rebind
begin

text \<open>
  The preparation of the rebinding engine (\<open>src/engines/HKRebindEngine.c\<close>, continued): the cache of mapped
  files with their fixups, the cache of the sites of a symbol, and the choice of the metadata that counts.
\<close>

section \<open>The two caches\<close>

record file_entry =
  fe_path :: "byte list"
  fe_image_base :: ptr
  fe_cputype :: u32
  fe_cpusubtype :: u32
  fe_source :: chain_source

record cached_site =
  ks_address :: u64
  ks_addend :: int
  ks_schema :: hk_pac_schema
  ks_weak :: bool

record symbol_entry =
  se_path :: "byte list"
  se_image_base :: ptr
  se_symbol :: "byte list"
  se_convention :: hk_symbol_name_convention
  se_sites :: "cached_site list"

text \<open>An entry that is not valid is \<open>None\<close>.\<close>

record rebind_caches =
  rc_files :: "file_entry option list"
  rc_file_next :: nat
  rc_symbols :: "symbol_entry option list"
  rc_symbol_next :: nat

definition HK_REBIND_FILE_CACHE_SIZE :: nat where "HK_REBIND_FILE_CACHE_SIZE = 4"
definition HK_REBIND_SYMBOL_CACHE_SIZE :: nat where "HK_REBIND_SYMBOL_CACHE_SIZE = 8"

definition empty_caches :: rebind_caches where
  "empty_caches = \<lparr>rc_files = replicate HK_REBIND_FILE_CACHE_SIZE None, rc_file_next = 0,
     rc_symbols = replicate HK_REBIND_SYMBOL_CACHE_SIZE None, rc_symbol_next = 0\<rparr>"

text \<open>The slot for a new entry: the first free one, or else the next in turn, which is emptied.\<close>

definition cache_victim :: "'e option list \<Rightarrow> nat \<Rightarrow> nat \<Rightarrow> nat \<times> nat" where
  "cache_victim slots next_slot cache_size =
     (case first_index (\<lambda>e. e = None) slots of
        Some i \<Rightarrow> (i, next_slot)
      | None \<Rightarrow> let victim = next_slot mod cache_size in (victim, (victim + 1) mod cache_size))"

definition find_file :: "rebind_caches \<Rightarrow> 's hk_rebind_target \<Rightarrow> hk_macho_header \<Rightarrow> file_entry option" where
  "find_file caches target loaded_header =
     Option.bind (find (\<lambda>e. case e of None \<Rightarrow> False | Some f \<Rightarrow>
        rt_image_path target = Some (fe_path f) \<and> rt_image_base target = fe_image_base f \<and>
        mh_cputype loaded_header = fe_cputype f \<and> mh_cpusubtype loaded_header = fe_cpusubtype f) (rc_files caches)) id"

definition find_symbol :: "rebind_caches \<Rightarrow> 's hk_rebind_target \<Rightarrow> byte list \<Rightarrow> hk_symbol_name_convention \<Rightarrow> symbol_entry option" where
  "find_symbol caches target symbol_name convention =
     Option.bind (find (\<lambda>e. case e of None \<Rightarrow> False | Some k \<Rightarrow>
        se_image_base k = rt_image_base target \<and> se_convention k = convention \<and>
        rt_image_path target = Some (se_path k) \<and> se_symbol k = symbol_name) (rc_symbols caches)) id"

definition cached_site_of :: "hk_rebind_site \<Rightarrow> cached_site" where
  "cached_site_of site = \<lparr>ks_address = rbs_address site, ks_addend = rbs_addend site, ks_schema = rbs_schema site,
     ks_weak = rbs_weak_import site\<rparr>"

text \<open>The path and the symbol are both allocated before either is looked at.\<close>

definition store_symbol :: "'s hk_rebind_target \<Rightarrow> byte list \<Rightarrow> hk_symbol_name_convention \<Rightarrow> hk_rebind_plan \<Rightarrow>
    rebind_caches \<times> heap \<Rightarrow> rebind_caches \<times> heap" where
  "store_symbol target symbol_name convention plan ch =
     (let (caches, heap) = ch;
          (victim, next_slot) = cache_victim (rc_symbols caches) (rc_symbol_next caches) HK_REBIND_SYMBOL_CACHE_SIZE;
          (p, heap1) = hk_alloc heap; (s, heap2) = hk_alloc heap1;
          entry = \<lparr>se_path = the (rt_image_path target), se_image_base = rt_image_base target, se_symbol = symbol_name,
            se_convention = convention, se_sites = map cached_site_of (rbp_sites plan)\<rparr>
      in (caches\<lparr>rc_symbols := (rc_symbols caches)[victim := if p \<and> s then Some entry else None],
            rc_symbol_next := next_slot\<rparr>, heap2))"

text \<open>Without memory for its path the entry is not valid.\<close>

definition store_file :: "'s hk_rebind_target \<Rightarrow> hk_macho_header \<Rightarrow> chain_source \<Rightarrow> rebind_caches \<times> heap \<Rightarrow> rebind_caches \<times> heap" where
  "store_file target loaded_header source ch =
     (let (caches, heap) = ch
      in case rt_image_path target of
           None \<Rightarrow> (caches, heap)
         | Some path \<Rightarrow>
             let (victim, next_slot) = cache_victim (rc_files caches) (rc_file_next caches) HK_REBIND_FILE_CACHE_SIZE;
                 (ok, heap1) = hk_alloc heap;
                 entry = \<lparr>fe_path = path, fe_image_base = rt_image_base target, fe_cputype = mh_cputype loaded_header,
                   fe_cpusubtype = mh_cpusubtype loaded_header, fe_source = source\<rparr>
             in (caches\<lparr>rc_files := (rc_files caches)[victim := if ok then Some entry else None], rc_file_next := next_slot\<rparr>, heap1))"

section \<open>The chains of a file\<close>

text \<open>The sites of a cached symbol, read again.\<close>

primrec replay_sites :: "hk_pac \<Rightarrow> memory \<Rightarrow> cached_site list \<Rightarrow> hk_rebind_plan \<Rightarrow> (hk_rebind_status \<times> hk_rebind_plan) option" where
  "replay_sites pac m [] plan = Some (if rbp_sites plan \<noteq> [] then HK_REBIND_OK else HK_REBIND_NOT_FOUND, plan)"
| "replay_sites pac m (k # ks) plan = do {
     (status, plan1) \<leftarrow> add_site pac m plan (ks_address k) (ks_schema k) (ks_addend k) (ks_weak k) True False;
     (if status = ADD_SITE_OVERFLOW then Some (HK_REBIND_TOO_MANY_SITES, plan1)
      else if status = ADD_SITE_MALFORMED then Some (HK_REBIND_MALFORMED_IMAGE, plan1)
      else if status = ADD_SITE_PAC_MISMATCH then Some (HK_REBIND_PAC_MISMATCH, plan1)
      else replay_sites pac m ks plan1)
   }"

text \<open>What the cached path does with a file that is in the cache.\<close>

definition chains_hit :: "hk_pac \<Rightarrow> memory \<Rightarrow> 's hk_rebind_target \<Rightarrow> byte list \<Rightarrow> hk_symbol_name_convention \<Rightarrow> byte list list \<Rightarrow>
    file_entry \<Rightarrow> hk_rebind_plan \<Rightarrow> rebind_caches \<times> heap \<Rightarrow> ((hk_rebind_status \<times> hk_rebind_plan) \<times> rebind_caches \<times> heap) option" where
  "chains_hit pac m target symbol_name convention candidates entry plan ch =
     (case find_symbol (fst ch) target symbol_name convention of
        Some k \<Rightarrow> map_option (\<lambda>r. (r, ch)) (replay_sites pac m (se_sites k) plan)
      | None \<Rightarrow> do {
          walked \<leftarrow> walk_chains pac m candidates target (fe_source entry) plan;
          let verdict = chain_verdict walked;
          let plan1 = co_plan (snd walked);
          Some ((verdict, plan1),
            if verdict = HK_REBIND_OK \<or> verdict = HK_REBIND_NOT_FOUND then store_symbol target symbol_name convention plan1 ch else ch)
        })"

text \<open>And with one that is not: the file is mapped and published whatever the walk found.\<close>

definition chains_miss :: "hk_pac \<Rightarrow> memory \<Rightarrow> (byte list \<Rightarrow> (ptr \<times> nat) option) \<Rightarrow> 's hk_rebind_target \<Rightarrow> byte list \<Rightarrow>
    hk_symbol_name_convention \<Rightarrow> byte list list \<Rightarrow> hk_macho_header \<Rightarrow> hk_rebind_plan \<Rightarrow> rebind_caches \<times> heap \<Rightarrow>
    ((hk_rebind_status \<times> hk_rebind_plan) \<times> rebind_caches \<times> heap) option" where
  "chains_miss pac m files target symbol_name convention candidates loaded_header plan ch =
     (case open_file_view files target of
        None \<Rightarrow> Some ((HK_REBIND_METADATA_UNAVAILABLE, plan), ch)
      | Some file \<Rightarrow> do {
          loaded \<leftarrow> load_chains m target loaded_header file;
          (case loaded of
             Inl status \<Rightarrow> Some ((status, plan), ch)
           | Inr source \<Rightarrow> do {
               walked \<leftarrow> walk_chains pac m candidates target source plan;
               let ch1 = store_file target loaded_header source ch;
               let verdict = chain_verdict walked;
               let plan1 = co_plan (snd walked);
               Some ((verdict, plan1),
                 if (verdict = HK_REBIND_OK \<or> verdict = HK_REBIND_NOT_FOUND) \<and>
                    find_symbol (fst ch1) target symbol_name convention = None
                 then store_symbol target symbol_name convention plan1 ch1 else ch1)
             })
        })"

definition prepare_file_chains :: "hk_pac \<Rightarrow> memory \<Rightarrow> (byte list \<Rightarrow> (ptr \<times> nat) option) \<Rightarrow> 's hk_rebind_target \<Rightarrow> byte list \<Rightarrow>
    hk_symbol_name_convention \<Rightarrow> byte list list \<Rightarrow> hk_macho_header \<Rightarrow> hk_rebind_plan \<Rightarrow> rebind_caches \<times> heap \<Rightarrow>
    ((hk_rebind_status \<times> hk_rebind_plan) \<times> rebind_caches \<times> heap) option" where
  "prepare_file_chains pac m files target symbol_name convention candidates loaded_header plan ch =
     (if rt_file_image target \<noteq> 0 \<and> rt_file_image_size target \<noteq> 0 then
        (case open_file_view files target of
           None \<Rightarrow> Some ((HK_REBIND_METADATA_UNAVAILABLE, plan), ch)
         | Some file \<Rightarrow> do {
             loaded \<leftarrow> load_chains m target loaded_header file;
             (case loaded of
                Inl status \<Rightarrow> Some ((status, plan), ch)
              | Inr source \<Rightarrow>
                  map_option (\<lambda>walked. ((chain_verdict walked, co_plan (snd walked)), ch)) (walk_chains pac m candidates target source plan))
           })
      else case find_file (fst ch) target loaded_header of
        Some entry \<Rightarrow> chains_hit pac m target symbol_name convention candidates entry plan ch
      | None \<Rightarrow> chains_miss pac m files target symbol_name convention candidates loaded_header plan ch)"

section \<open>The preparation\<close>

definition finalize_plan :: "hk_rebind_plan \<Rightarrow> hk_rebind_status \<times> hk_rebind_plan" where
  "finalize_plan plan =
     (case rbp_sites plan of
        [] \<Rightarrow> (HK_REBIND_NOT_FOUND, plan)
      | site # sites \<Rightarrow>
          (HK_REBIND_OK, plan\<lparr>rbp_original := rbs_callable_original site,
             rbp_originals_agree := list_all (\<lambda>other. rbs_callable_original other = rbs_callable_original site) sites\<rparr>))"

text \<open>\<open>dyld_range\<close> is what \<open>_dyld_get_shared_cache_range\<close> gives, when the process has it.\<close>

definition live_cache_range :: "(ptr \<times> nat) option \<Rightarrow> 's hk_rebind_target \<Rightarrow> ptr \<times> nat \<times> bool" where
  "live_cache_range dyld_range target =
     (case dyld_range of
        Some (base, n) \<Rightarrow>
          if rt_cache_base target = 0 then (base, n, base \<noteq> 0 \<and> n \<noteq> 0) else (rt_cache_base target, rt_cache_size target, False)
      | None \<Rightarrow> (rt_cache_base target, rt_cache_size target, False))"

text \<open>What a preparation keeps for the next one.\<close>

type_synonym rebind_state = "rebind_caches \<times> resolver_state"

definition cache_target_of :: "'s hk_rebind_target \<Rightarrow> ptr \<Rightarrow> nat \<Rightarrow> bool \<Rightarrow> nat \<Rightarrow> hk_cache_patch_target" where
  "cache_target_of target cache_base cache_size cache_immutable header_size =
     \<lparr>ct_cache_base = cache_base, ct_cache_size = cache_size, ct_image_header = rt_image_base target,
      ct_image_header_size = header_size, ct_image_slide = rt_slide target, ct_image_path = rt_image_path target,
      ct_uuid_present = rt_uuid_present target, ct_uuid = rt_uuid target,
      ct_include_shared_got = rt_include_shared_cache_got target, ct_immutable_metadata = cache_immutable\<rparr>"

text \<open>The verdict on the patch table; \<open>None\<close> goes on to the load commands.\<close>

definition cache_verdict :: "hk_cache_patch_status \<times> rebind_collect \<Rightarrow> (hk_rebind_status \<times> hk_rebind_plan) option" where
  "cache_verdict walked =
     (let (status, c) = walked; plan = co_plan c
      in if co_overflow c then Some (HK_REBIND_TOO_MANY_SITES, plan)
         else if co_pac_mismatch c then Some (HK_REBIND_PAC_MISMATCH, plan)
         else if co_malformed c then Some (HK_REBIND_MALFORMED_IMAGE, plan)
         else case status of
           HK_CACHE_PATCH_OK \<Rightarrow> Some (finalize_plan plan)
         | HK_CACHE_PATCH_NOT_FOUND \<Rightarrow> Some (HK_REBIND_NOT_FOUND, plan)
         | HK_CACHE_PATCH_SCOPE_UNREPRESENTABLE \<Rightarrow> Some (HK_REBIND_SCOPE_UNREPRESENTABLE, plan)
         | HK_CACHE_PATCH_UNSUPPORTED \<Rightarrow> Some (HK_REBIND_UNSUPPORTED_FORMAT, plan)
         | HK_CACHE_PATCH_NO_METADATA \<Rightarrow> None
         | _ \<Rightarrow> Some (HK_REBIND_MALFORMED_IMAGE, plan))"

text \<open>The load commands of an image without chained fixups.\<close>

definition prepare_dysymtab :: "hk_pac \<Rightarrow> memory \<Rightarrow> 's hk_rebind_target \<Rightarrow> byte list list \<Rightarrow> nat \<Rightarrow> hk_rebind_plan \<Rightarrow>
    (hk_rebind_status \<times> hk_rebind_plan) option" where
  "prepare_dysymtab pac m target candidates header_size plan = do {
     imported \<leftarrow> hk_import_tables_from_loaded_image m (rt_image_base target) header_size (rt_slide target);
     (case imported of
        Inl _ \<Rightarrow> Some (HK_REBIND_MALFORMED_IMAGE, plan)
      | Inr tables \<Rightarrow>
          if it_indirect_symbols tables = 0 then Some (HK_REBIND_NOT_FOUND, plan)
          else do {
            walked \<leftarrow> hk_import_slots_iterate m (rt_image_base target) header_size tables
              (dysymtab_slot_cb pac m candidates (rt_slide target)) (plan, ADD_SITE_OK);
            Some (case walked of
              Inl _ \<Rightarrow> (HK_REBIND_MALFORMED_IMAGE, plan)
            | Inr (plan1, error) \<Rightarrow>
                if error = ADD_SITE_OVERFLOW then (HK_REBIND_TOO_MANY_SITES, plan1)
                else if error = ADD_SITE_PAC_MISMATCH then (HK_REBIND_PAC_MISMATCH, plan1)
                else if error = ADD_SITE_MALFORMED then (HK_REBIND_MALFORMED_IMAGE, plan1)
                else finalize_plan plan1)
          })
   }"

text \<open>An image outside the shared cache: its chains when it has them, or else its load commands. The plan is
  the one the patch table of a cache without metadata left.\<close>

definition prepare_image :: "hk_pac \<Rightarrow> memory \<Rightarrow> (byte list \<Rightarrow> (ptr \<times> nat) option) \<Rightarrow> 's hk_rebind_target \<Rightarrow> byte list \<Rightarrow>
    hk_symbol_name_convention \<Rightarrow> byte list list \<Rightarrow> hk_macho_header \<Rightarrow> nat \<Rightarrow> hk_rebind_plan \<Rightarrow> rebind_state \<Rightarrow>
    ((hk_rebind_status \<times> hk_rebind_plan) \<times> rebind_state) option" where
  "prepare_image pac m files target symbol_name convention candidates loaded_header header_size plan st =
     (let (caches, slots, object, heap) = st
      in do {
        command \<leftarrow> hk_macho_find_load_command m (rt_image_base target) header_size HK_LC_DYLD_CHAINED_FIXUPS;
        (case command of
           Inr (_, chained_command_size) \<Rightarrow>
             if chained_command_size < HK_LINKEDIT_DATA_CMD_SIZE then Some ((HK_REBIND_MALFORMED_IMAGE, plan), st)
             else do {
               ((status, plan1), caches1, heap1) \<leftarrow>
                 prepare_file_chains pac m files target symbol_name convention candidates loaded_header plan (caches, heap);
               Some (if status = HK_REBIND_OK then finalize_plan plan1 else (status, plan1), (caches1, slots, object, heap1))
             }
         | Inl command_status \<Rightarrow>
             if command_status \<noteq> HK_MACHO_NOT_FOUND then Some ((HK_REBIND_MALFORMED_IMAGE, plan), st)
             else map_option (\<lambda>r. (r, st)) (prepare_dysymtab pac m target candidates header_size plan))
      })"

definition hk_rebind_prepare_with_lookup :: "hk_pac \<Rightarrow> memory \<Rightarrow> (ptr \<times> nat) option \<Rightarrow> (byte list \<Rightarrow> (ptr \<times> nat) option) \<Rightarrow>
    's hk_rebind_target \<Rightarrow> byte list \<Rightarrow> hk_symbol_name_convention \<Rightarrow> hk_rebind_plan \<Rightarrow> rebind_state \<Rightarrow>
    ((hk_rebind_status \<times> hk_rebind_plan) \<times> rebind_state) option" where
  "hk_rebind_prepare_with_lookup pac m dyld_range files target symbol_name convention out_plan st =
     (if rt_image_base target = 0 then Some ((HK_REBIND_INVALID_ARGUMENT, out_plan), st)
      else case hk_symbol_build_candidates symbol_name convention of
        Inl _ \<Rightarrow> Some ((HK_REBIND_INVALID_ARGUMENT, zero_rebind_plan), st)
      | Inr candidates \<Rightarrow> do {
          peeked \<leftarrow> hk_macho_peek_header m (rt_image_base target) HK_MACHO_HEADER_64_SIZE;
          (case peeked of
             Inl _ \<Rightarrow> Some ((HK_REBIND_MALFORMED_IMAGE, zero_rebind_plan), st)
           | Inr loaded_header \<Rightarrow>
               let header_size = HK_MACHO_HEADER_64_SIZE + unat (mh_sizeofcmds loaded_header);
                   (cache_base, cache_size, cache_immutable) = live_cache_range dyld_range target
               in if rt_image_size target < header_size then Some ((HK_REBIND_MALFORMED_IMAGE, zero_rebind_plan), st)
                  else if cache_base \<noteq> 0 \<and> rt_image_base target \<ge> cache_base \<and> unat (rt_image_base target - cache_base) < cache_size
                  then do {
                    let (caches, resolver) = st;
                    ((status, c), resolver1) \<leftarrow> hk_dyld_cache_iterate_symbol_uses_with_lookup m
                      (cache_target_of target cache_base cache_size cache_immutable header_size) symbol_name convention
                      (cache_patch_cb pac m) (collect_start zero_rebind_plan) resolver;
                    (case cache_verdict (status, c) of
                       Some r \<Rightarrow> Some (r, (caches, resolver1))
                     | None \<Rightarrow> prepare_image pac m files target symbol_name convention candidates loaded_header header_size
                         (co_plan c) (caches, resolver1))
                  }
                  else prepare_image pac m files target symbol_name convention candidates loaded_header header_size zero_rebind_plan st)
        })"

text \<open>Without a lookup of the caller's.\<close>

definition hk_rebind_prepare :: "hk_pac \<Rightarrow> memory \<Rightarrow> (ptr \<times> nat) option \<Rightarrow> (byte list \<Rightarrow> (ptr \<times> nat) option) \<Rightarrow>
    's hk_rebind_target \<Rightarrow> byte list \<Rightarrow> hk_symbol_name_convention \<Rightarrow> hk_rebind_plan \<Rightarrow> rebind_caches \<times> index_slots \<times> heap \<Rightarrow>
    ((hk_rebind_status \<times> hk_rebind_plan) \<times> rebind_caches \<times> index_slots \<times> heap) option" where
  "hk_rebind_prepare pac m dyld_range files target symbol_name convention out_plan st =
     (let (caches, slots, heap) = st
      in map_option (\<lambda>(r, caches1, slots1, _, heap1). (r, caches1, slots1, heap1))
           (hk_rebind_prepare_with_lookup pac m dyld_range files target symbol_name convention out_plan (caches, slots, None, heap)))"

end
