(* ===== verification/HK_RebindCommit.thy ===== *)
theory HK_RebindCommit
  imports HK_Rebind HK_Native_Props
begin

text \<open>
  The rebinding engine, second phase (\<open>src/engines/HKRebindEngine.c\<close>): each slot is read again and written only
  if it still holds what the preparation saw. The writer is the target's; the locale states what an engine may
  expect of one, and the writer of the native backend is an instance of it.
\<close>

section \<open>The code\<close>

definition hk_rebind_replacement_for_site :: "hk_pac \<Rightarrow> hk_rebind_site \<Rightarrow> u64 \<Rightarrow> u64 option" where
  "hk_rebind_replacement_for_site pac site replacement =
     map_option (\<lambda>adjusted. hk_pac_sign_slot pac adjusted (rbs_schema site) (rbs_address site))
       (checked_adjust (hk_pac_strip_code pac replacement) (rbs_addend site) True)"

definition site_artifact :: "hk_rebind_site \<Rightarrow> u64 \<Rightarrow> hk_mutation_state \<Rightarrow> hk_artifact" where
  "site_artifact site replacement mutation = zero_artifact\<lparr>
     a_kind := HK_ARTIFACT_IMPORT_SLOT,
     a_state := (if mutation = HK_MUTATION_COMPLETE then HK_ARTIFACT_COMMITTED else HK_ARTIFACT_PARTIALLY_APPLIED),
     a_effects := HK_EFFECT_IMPORT_MUTATION,
     a_engine_id := \<lparr>sv_data = Some ''fishhook'', sv_length = 8\<rparr>,
     a_import_slot_address := rbs_address site, a_address := rbs_address site,
     a_original_pointer := rbs_original site, a_replacement_pointer := replacement,
     a_mechanically_reversible := True,
     a_safe_to_reverse_after_activation := (mutation = HK_MUTATION_COMPLETE)\<rparr>"

definition record_artifact :: "hk_artifact_sink option \<Rightarrow> hk_rebind_site \<Rightarrow> u64 \<Rightarrow> hk_mutation_state \<Rightarrow> 's hk_sys_scheme \<Rightarrow>
    hk_artifact_sink option \<times> 's hk_sys_scheme" where
  "record_artifact sink site replacement mutation s =
     (case sink of
        None \<Rightarrow> (None, s)
      | Some k \<Rightarrow> (let ((_, k1), s1) = hk_artifact_sink_record k (site_artifact site replacement mutation) s in (Some k1, s1)))"

primrec site_replacements :: "hk_pac \<Rightarrow> u64 \<Rightarrow> hk_rebind_site list \<Rightarrow> u64 list option" where
  "site_replacements pac replacement [] = Some []"
| "site_replacements pac replacement (site # sites) = do {
     v \<leftarrow> hk_rebind_replacement_for_site pac site replacement;
     vs \<leftarrow> site_replacements pac replacement sites;
     Some (v # vs)
   }"

text \<open>The loop over the sites with their values; the result is the state, the number of slots written, and
  the sink. A slot that cannot be read is a fault.\<close>

primrec commit_sites :: "'s hk_vm_scheme hk_rebind_write_fn \<Rightarrow> (hk_rebind_site \<times> u64) list \<Rightarrow> nat \<Rightarrow> hk_artifact_sink option \<Rightarrow>
    's hk_vm_scheme \<Rightarrow> ((hk_mutation_state \<times> nat) \<times> hk_artifact_sink option \<times> 's hk_vm_scheme) option" where
  "commit_sites put [] written sink s = Some ((HK_MUTATION_COMPLETE, written), sink, s)"
| "commit_sites put (w # ws) written sink s = do {
     let (site, site_replacement) = w;
     current \<leftarrow> hk_rebind_read_slot (vm_view s) (rbs_address site);
     (if current \<noteq> rbs_original site
      then Some ((if written = 0 then HK_MUTATION_NONE else HK_MUTATION_PARTIAL, written), sink, s)
      else
        let (mutation, s1) = put (rbs_address site) site_replacement s;
            (sink1, s2) = (if mutation \<noteq> HK_MUTATION_NONE then record_artifact sink site site_replacement mutation s1 else (sink, s1))
        in if mutation = HK_MUTATION_NONE
           then Some ((if written = 0 then HK_MUTATION_NONE else HK_MUTATION_PARTIAL, written), sink1, s2)
           else if mutation \<noteq> HK_MUTATION_COMPLETE
           then Some ((if mutation = HK_MUTATION_PARTIAL then HK_MUTATION_PARTIAL else HK_MUTATION_UNKNOWN, written), sink1, s2)
           else commit_sites put ws (written + 1) sink1 s2)
   }"

definition hk_rebind_commit :: "hk_pac \<Rightarrow> 's hk_vm_scheme hk_rebind_target \<Rightarrow> hk_rebind_plan \<Rightarrow> u64 \<Rightarrow> hk_artifact_sink option \<Rightarrow>
    's hk_vm_scheme \<Rightarrow> ((hk_mutation_state \<times> nat) \<times> hk_artifact_sink option \<times> 's hk_vm_scheme) option" where
  "hk_rebind_commit pac target plan replacement sink s =
     (case rt_write target of
        None \<Rightarrow> Some ((HK_MUTATION_NONE, 0), sink, s)
      | Some put \<Rightarrow>
          if rbp_sites plan = [] then Some ((HK_MUTATION_NONE, 0), sink, s)
          else case site_replacements pac replacement (rbp_sites plan) of
            None \<Rightarrow> Some ((HK_MUTATION_NONE, 0), sink, s)
          | Some replacements \<Rightarrow>
              if (case sink of None \<Rightarrow> False | Some k \<Rightarrow> sk_require_predecessor_match k \<and>
                    list_ex (\<lambda>site. rbs_callable_original site \<noteq> sk_required_predecessor k) (rbp_sites plan))
              then Some ((HK_MUTATION_NONE, 0), sink, s)
              else commit_sites put (zip (rbp_sites plan) replacements) 0 sink s)"

section \<open>Slots\<close>

text \<open>The eight bytes of a slot.\<close>

lemma read_slot_bytes:
  assumes "\<And>i. i < 8 \<Longrightarrow> m (a + of_nat i) = Some (le_bytes 8 v ! i)"
  shows "hk_rebind_read_slot m a = Some v"
proof -
  have lo: "le_bytes 4 (ucast v :: u32) ! k = le_bytes 8 v ! k" and hi: "le_bytes 4 (ucast (drop_bit 32 v) :: u32) ! k = le_bytes 8 v ! (4 + k)"
    if k: "k < 4" for k
  proof -
    consider "k = 0" | "k = 1" | "k = 2" | "k = 3" using k by fastforce
    then show "le_bytes 4 (ucast v :: u32) ! k = le_bytes 8 v ! k" "le_bytes 4 (ucast (drop_bit 32 v) :: u32) ! k = le_bytes 8 v ! (4 + k)"
      by (cases; simp add: le_bytes_def; rule bit_word_eqI; auto simp: bit_simps)+
  qed
  have "rd32 m a 0 = Some (ucast v)"
    by (rule rd32_bytes) (use assms lo in \<open>simp add: rd8_def\<close>)
  moreover have "rd32 m a 4 = Some (ucast (drop_bit 32 v))"
    by (rule rd32_bytes) (use assms [of "4 + k" for k] hi in \<open>simp add: rd8_def add.commute\<close>)
  moreover have "(ucast (ucast v :: u32) OR push_bit 32 (ucast (ucast (drop_bit 32 v) :: u32))) = v"
    by (rule bit_word_eqI) (auto simp: bit_simps)
  ultimately show ?thesis by (simp add: hk_rebind_read_slot_def rd64_def)
qed

lemma read_slot_mapped:
  assumes "hk_rebind_read_slot m a = Some v" "i < 8"
  shows "m (a + of_nat i) \<noteq> None"
proof -
  have "i \<in> set [0, 1, 2, 3, 4, 5, 6, 7 :: nat]" using assms(2) by auto
  then show ?thesis using assms(1)
    by (auto simp: hk_rebind_read_slot_def rd64_def rd32_def rd8_def split: bind_splits)
qed

lemma read_slot_cong: "(\<And>i. i < 8 \<Longrightarrow> m (a + of_nat i) = m1 (a + of_nat i)) \<Longrightarrow> hk_rebind_read_slot m a = hk_rebind_read_slot m1 a"
proof -
  assume same: "\<And>i. i < 8 \<Longrightarrow> m (a + of_nat i) = m1 (a + of_nat i)"
  have "rd8 m a i = rd8 m1 a i" if "i \<in> set [0, 1, 2, 3, 4, 5, 6, 7 :: nat]" for i
    using same [of i] that by (auto simp: rd8_def)
  then show ?thesis by (simp add: hk_rebind_read_slot_def rd64_def rd32_def)
qed

lemma read_slot_patched:
  assumes "hk_rebind_read_slot m a = Some v"
  shows "hk_rebind_read_slot (patched m a (le_bytes 8 w)) a = Some w"
  by (rule read_slot_bytes) (use read_slot_mapped [OF assms] in \<open>simp add: patched_def unat_of_nat take_bit_nat_eq_self\<close>)

text \<open>Aligned slots at different addresses do not overlap.\<close>

lemma slots_apart:
  fixes a b :: u64
  assumes "a AND 7 = 0" "b AND 7 = 0" "a \<noteq> b" "i < 8"
  shows "8 \<le> unat (b + of_nat i - a)"
proof -
  have d: "8 dvd unat x" if "x AND 7 = 0" for x :: u64
  proof -
    have "take_bit 3 x = 0" using that by (simp add: take_bit_eq_mask mask_eq_exp_minus_1)
    then have "take_bit 3 (unat x) = 0" by (metis unat_0 unsigned_take_bit_eq)
    then show ?thesis by (simp add: take_bit_eq_mod mod_0_imp_dvd)
  qed
  have mod0: "unat (b - a) mod 8 = 0"
  proof (cases "a \<le> b")
    case True
    then show ?thesis using d [OF assms(1)] d [OF assms(2)] by (simp add: unat_sub word_le_nat_alt)
  next
    case False
    then have "unat (b - a) = 2 ^ 64 + unat b - unat a"
      using u64_less [of a] by (simp add: unat_sub_if' word_le_nat_alt)
    moreover have "8 dvd (2 ^ 64 + unat b - unat a)" using d [OF assms(1)] d [OF assms(2)] False by (intro dvd_diff_nat dvd_add) auto
    ultimately show ?thesis by auto
  qed
  have "unat (b - a) \<noteq> 0" using assms(3) by (simp add: unat_eq_zero)
  then have ge: "8 \<le> unat (b - a)" using mod0 by (metis mod_less not_le)
  obtain k where k: "unat (b - a) = 8 * k" using mod0 by (metis mod_0_imp_dvd dvdE)
  then have "k < 2 ^ 61" using u64_less [of "b - a"] by simp
  then have "unat (b - a) \<le> 2 ^ 64 - 8" unfolding k by simp
  then have "unat (b - a + of_nat i) = unat (b - a) + i" using assms(4)
    by (subst unat_add_lem [THEN iffD1]) (simp_all add: unat_of_nat take_bit_nat_eq_self)
  then show ?thesis using ge by (simp add: algebra_simps)
qed

text \<open>Memory after values were stored into slots, in order.\<close>

definition slots_stored :: "(hk_rebind_site \<times> u64) list \<Rightarrow> memory \<Rightarrow> memory" where
  "slots_stored ws m = fold (\<lambda>(site, v) m. patched m (rbs_address site) (le_bytes 8 v)) ws m"

lemma slots_stored_simps [simp]:
  "slots_stored [] m = m" "slots_stored ((site, v) # ws) m = slots_stored ws (patched m (rbs_address site) (le_bytes 8 v))"
  by (simp_all add: slots_stored_def)

text \<open>The sites of a list of writes are aligned slots at different addresses.\<close>

definition slots_separate :: "hk_rebind_site list \<Rightarrow> bool" where
  "slots_separate sites \<longleftrightarrow> distinct (map rbs_address sites) \<and> (\<forall>site \<in> set sites. rbs_address site AND 7 = 0)"

lemma slots_stored_elsewhere:
  assumes "a AND 7 = 0" "\<forall>(site, v) \<in> set ws. rbs_address site AND 7 = 0 \<and> rbs_address site \<noteq> a"
  shows "hk_rebind_read_slot (slots_stored ws m) a = hk_rebind_read_slot m a"
  using assms(2)
proof (induction ws arbitrary: m)
  case (Cons w ws)
  obtain site v where w: "w = (site, v)" by (cases w)
  have far: "\<not> unat (a + of_nat i - rbs_address site) < 8" if "i < 8" for i
    using slots_apart [of "rbs_address site" a i] Cons.prems assms(1) that by (simp add: w not_less)
  have "hk_rebind_read_slot (patched m (rbs_address site) (le_bytes 8 v)) a = hk_rebind_read_slot m a"
    by (rule read_slot_cong) (use far in \<open>simp add: patched_def\<close>)
  then show ?case using Cons by (simp add: w)
qed simp

lemma slots_stored_read:
  assumes "slots_separate (map fst ws)" "(site, v) \<in> set ws" "hk_rebind_read_slot m (rbs_address site) = Some old"
  shows "hk_rebind_read_slot (slots_stored ws m) (rbs_address site) = Some v"
  using assms
proof (induction ws arbitrary: m old)
  case (Cons w ws)
  obtain site1 v1 where w: "w = (site1, v1)" by (cases w)
  have sep: "slots_separate (map fst ws)" "rbs_address site1 AND 7 = 0"
    "\<forall>(site, v) \<in> set ws. rbs_address site AND 7 = 0 \<and> rbs_address site \<noteq> rbs_address site1"
    using Cons.prems(1) by (auto simp: slots_separate_def w image_iff)
  let ?m = "patched m (rbs_address site1) (le_bytes 8 v1)"
  show ?case
  proof (cases "(site, v) \<in> set ws")
    case True
    have "rbs_address site AND 7 = 0" "rbs_address site \<noteq> rbs_address site1" using sep(3) True by auto
    then have "hk_rebind_read_slot ?m (rbs_address site) = hk_rebind_read_slot m (rbs_address site)"
      using slots_stored_elsewhere [of "rbs_address site" "[(site1, v1)]" m] sep(2) by simp
    then show ?thesis using Cons.IH [OF sep(1) True, of ?m old] Cons.prems(3) by (simp add: w)
  next
    case False
    then have e: "site = site1" "v = v1" using Cons.prems(2) by (simp_all add: w)
    have "hk_rebind_read_slot (slots_stored ws ?m) (rbs_address site1) = hk_rebind_read_slot ?m (rbs_address site1)"
      by (rule slots_stored_elsewhere [OF sep(2,3)])
    then show ?thesis using read_slot_patched [of m "rbs_address site1" old v1] Cons.prems(3) by (simp add: w e)
  qed
qed simp

lemma slots_stored_outside:
  assumes "\<forall>(site, v) \<in> set ws. 8 \<le> unat (x - rbs_address site)"
  shows "slots_stored ws m x = m x"
  using assms by (induction ws arbitrary: m) (auto simp: patched_def)

section \<open>What an engine may expect of a writer\<close>

text \<open>It reports no mutation only when memory is as it was, a complete one only when the slot was replaced; it
  refuses a slot that is not aligned, and the allocator and the identifiers are not its business.\<close>

locale slot_writer =
  fixes put :: "'s hk_vm_scheme hk_rebind_write_fn"
  assumes writes_nothing: "put a v s = (HK_MUTATION_NONE, s1) \<Longrightarrow> vm_view s1 = vm_view s"
    and writes_slot: "put a v s = (HK_MUTATION_COMPLETE, s1) \<Longrightarrow> vm_view s1 = patched (vm_view s) a (le_bytes 8 v) \<and> a AND 7 = 0"
begin

lemma record_view: "record_artifact sink site r mutation s = (sink1, s1) \<Longrightarrow> vm_view s1 = vm_view s"
proof -
  assume r: "record_artifact sink site r mutation s = (sink1, s1)"
  have "hk_sys.more s1 = hk_sys.more s"
    using r by (auto simp: record_artifact_def Let_def split: option.splits prod.splits dest: sink_record_step(6))
  then have "vm_prot s1 = vm_prot s" "vm_bytes s1 = vm_bytes s" by (cases s; cases s1; simp)+
  then show ?thesis by (intro view_cong) simp_all
qed

text \<open>Every slot written held what the preparation saw, and memory differs by these writes alone.\<close>

lemma commit_sites_writes:
  assumes "commit_sites put ws written sink s = Some ((m, n), sink1, s1)"
  shows "written \<le> n \<and> n \<le> written + length ws \<and> (m = HK_MUTATION_NONE \<longrightarrow> n = 0) \<and> (m = HK_MUTATION_COMPLETE \<longrightarrow> n = written + length ws) \<and>
    (m \<in> {HK_MUTATION_NONE, HK_MUTATION_COMPLETE} \<longrightarrow> vm_view s1 = slots_stored (take (n - written) ws) (vm_view s)) \<and>
    (\<forall>i < n - written. rbs_address (fst (ws ! i)) AND 7 = 0 \<and>
       hk_rebind_read_slot (slots_stored (take i ws) (vm_view s)) (rbs_address (fst (ws ! i))) = Some (rbs_original (fst (ws ! i))))"
  using assms
proof (induction ws arbitrary: written sink s)
  case (Cons w ws)
  obtain site v where w: "w = (site, v)" by (cases w)
  obtain mutation s2 where wr: "put (rbs_address site) v s = (mutation, s2)" by fastforce
  obtain current where c: "hk_rebind_read_slot (vm_view s) (rbs_address site) = Some current"
    using Cons.prems by (auto simp: w split: bind_splits)
  obtain sink3 s3 where rec: "record_artifact sink site v mutation s2 = (sink3, s3)" by fastforce
  show ?case
  proof (cases "current = rbs_original site \<and> mutation = HK_MUTATION_COMPLETE")
    case False
    then show ?thesis
      using Cons.prems writes_nothing [of "rbs_address site" v s] wr rec c by (auto simp: w Let_def split: if_splits prod.splits)
  next
    case True
    then have run: "commit_sites put ws (written + 1) sink3 s3 = Some ((m, n), sink1, s1)"
      using Cons.prems wr rec c by (simp add: w)
    have view: "vm_view s3 = patched (vm_view s) (rbs_address site) (le_bytes 8 v)" "rbs_address site AND 7 = 0"
      using writes_slot [of "rbs_address site" v s s2] record_view [OF rec] wr True by simp_all
    note ih = Cons.IH [OF run, unfolded view(1)]
    have each: "rbs_address (fst ((w # ws) ! i)) AND 7 = 0 \<and>
        hk_rebind_read_slot (slots_stored (take i (w # ws)) (vm_view s)) (rbs_address (fst ((w # ws) ! i))) = Some (rbs_original (fst ((w # ws) ! i)))"
      if "i < n - written" for i
    proof (cases i)
      case 0
      then show ?thesis using c True view(2) by (simp add: w)
    next
      case (Suc j)
      then show ?thesis using ih that by (simp add: w)
    qed
    have "written + 1 \<le> n" using ih by blast
    then have "n - written = Suc (n - (written + 1))" by simp
    then show ?thesis using ih each by (simp add: w)
  qed
qed simp

end

text \<open>A writer that either replaces a slot, or leaves it, or does not know.\<close>

locale whole_slot_writer = slot_writer put
  for put :: "'s hk_vm_scheme hk_rebind_write_fn" +
  assumes never_partial: "put a v s \<noteq> (HK_MUTATION_PARTIAL, s1)"
begin

lemma commit_sites_known:
  assumes "commit_sites put ws written sink s = Some ((m, n), sink1, s1)"
  shows "(m = HK_MUTATION_PARTIAL \<longrightarrow> 0 < n \<and> n < written + length ws) \<and>
    (m \<noteq> HK_MUTATION_UNKNOWN \<longrightarrow> vm_view s1 = slots_stored (take (n - written) ws) (vm_view s))"
  using assms
proof (induction ws arbitrary: written sink s)
  case (Cons w ws)
  obtain site v where w: "w = (site, v)" by (cases w)
  obtain mutation s2 where wr: "put (rbs_address site) v s = (mutation, s2)" by fastforce
  obtain current where c: "hk_rebind_read_slot (vm_view s) (rbs_address site) = Some current"
    using Cons.prems by (auto simp: w split: bind_splits)
  obtain sink3 s3 where rec: "record_artifact sink site v mutation s2 = (sink3, s3)" by fastforce
  have known: "mutation \<noteq> HK_MUTATION_PARTIAL" using never_partial [of "rbs_address site" v s s2] wr by auto
  show ?case
  proof (cases "current = rbs_original site \<and> mutation = HK_MUTATION_COMPLETE")
    case False
    then show ?thesis
      using Cons.prems writes_nothing [of "rbs_address site" v s] wr rec c known by (auto simp: w Let_def split: if_splits prod.splits)
  next
    case True
    then have run: "commit_sites put ws (written + 1) sink3 s3 = Some ((m, n), sink1, s1)"
      using Cons.prems wr rec c by (simp add: w)
    have view: "vm_view s3 = patched (vm_view s) (rbs_address site) (le_bytes 8 v)"
      using writes_slot [of "rbs_address site" v s s2] record_view [OF rec] wr True by simp
    have "written + 1 \<le> n" using commit_sites_writes [OF run] by blast
    then have "n - written = Suc (n - (written + 1))" by simp
    then show ?thesis using Cons.IH [OF run, unfolded view] by (simp add: w)
  qed
qed simp

end

text \<open>The writer of the native backend.\<close>

interpretation native_slots: whole_slot_writer hk_native_patch_pointer
proof unfold_locales
  fix a v :: u64 and s s1 :: "'s hk_vm_scheme"
  show "hk_native_patch_pointer a v s = (HK_MUTATION_NONE, s1) \<Longrightarrow> vm_view s1 = vm_view s"
    using patch_pointer_contract [of a v s] by (auto simp: write_contract_def)
  show "hk_native_patch_pointer a v s \<noteq> (HK_MUTATION_PARTIAL, s1)"
    using patch_pointer_contract [of a v s HK_MUTATION_PARTIAL s1] by (auto simp: write_contract_def)
  assume run: "hk_native_patch_pointer a v s = (HK_MUTATION_COMPLETE, s1)"
  then have "a AND 7 = 0" by (auto simp: hk_native_patch_pointer_def split: if_splits)
  then show "vm_view s1 = patched (vm_view s) a (le_bytes 8 v) \<and> a AND 7 = 0"
    using patch_pointer_contract [OF run] by (simp add: write_contract_def)
qed

section \<open>A commit\<close>

lemma site_replacements_zip:
  "site_replacements pac replacement sites = Some vs \<Longrightarrow>
   length vs = length sites \<and> (\<forall>(site, v) \<in> set (zip sites vs). hk_rebind_replacement_for_site pac site replacement = Some v)"
  by (induction sites arbitrary: vs) (auto split: bind_splits)

text \<open>Either nothing is attempted, or the loop runs over the sites and their values.\<close>

lemma rebind_commit_cases:
  assumes "hk_rebind_commit pac target plan replacement sink s = Some ((m, n), sink1, s1)" "rt_write target = Some put"
  obtains "m = HK_MUTATION_NONE" "n = 0" "s1 = s" "sink1 = sink"
  | vs where "site_replacements pac replacement (rbp_sites plan) = Some vs" "rbp_sites plan \<noteq> []"
      "commit_sites put (zip (rbp_sites plan) vs) 0 sink s = Some ((m, n), sink1, s1)"
  using assms by (auto simp: hk_rebind_commit_def split: option.splits if_splits)

lemma rebind_commit_spec:
  fixes s s1 :: "'s hk_vm_scheme"
  assumes "hk_rebind_commit pac target plan replacement sink s = Some ((m, n), sink1, s1)"
    "rt_write target = Some hk_native_patch_pointer" "distinct (map rbs_address (rbp_sites plan))"
  shows "(m = HK_MUTATION_NONE \<longrightarrow> n = 0) \<and> (m = HK_MUTATION_PARTIAL \<longrightarrow> 0 < n \<and> n < length (rbp_sites plan)) \<and>
    (m = HK_MUTATION_COMPLETE \<longrightarrow> n = length (rbp_sites plan)) \<and>
    (\<forall>site \<in> set (take n (rbp_sites plan)). hk_rebind_read_slot (vm_view s) (rbs_address site) = Some (rbs_original site)) \<and>
    (m \<noteq> HK_MUTATION_UNKNOWN \<longrightarrow>
       (\<forall>site \<in> set (take n (rbp_sites plan)). \<exists>v. hk_rebind_replacement_for_site pac site replacement = Some v \<and>
          hk_rebind_read_slot (vm_view s1) (rbs_address site) = Some v) \<and>
       (\<forall>x. (\<forall>site \<in> set (take n (rbp_sites plan)). 8 \<le> unat (x - rbs_address site)) \<longrightarrow> vm_view s1 x = vm_view s x))"
proof (rule rebind_commit_cases [OF assms(1,2)])
  fix vs assume vs: "site_replacements pac replacement (rbp_sites plan) = Some vs" and ne: "rbp_sites plan \<noteq> []"
    and run: "commit_sites hk_native_patch_pointer (zip (rbp_sites plan) vs) 0 sink s = Some ((m, n), sink1, s1)"
  define ws where "ws = zip (rbp_sites plan) vs"
  note zip = site_replacements_zip [OF vs, folded ws_def]
  have sites: "map fst ws = rbp_sites plan" "length ws = length (rbp_sites plan)" using zip by (simp_all add: ws_def)
  then have fst_i: "i < length ws \<Longrightarrow> fst (ws ! i) = rbp_sites plan ! i" for i by (metis nth_map)
  note writes = native_slots.commit_sites_writes [OF run [folded ws_def], simplified]
    and known = native_slots.commit_sites_known [OF run [folded ws_def], simplified]
  have n: "n \<le> length (rbp_sites plan)" using writes sites(2) by simp
  have dist: "distinct (map rbs_address (map fst ws))" using assms(3) sites(1) by simp
  have turn: "rbs_address (fst (ws ! i)) AND 7 = 0"
    "hk_rebind_read_slot (slots_stored (take i ws) (vm_view s)) (rbs_address (fst (ws ! i))) = Some (rbs_original (fst (ws ! i)))"
    if "i < n" for i using writes that by blast+
  have "rbs_address site AND 7 = 0" if site: "site \<in> set (map fst (take n ws))" for site
  proof -
    obtain i where "i < n" "site = fst (ws ! i)" using site by (auto simp: in_set_conv_nth)
    then show ?thesis using turn(1) by simp
  qed
  then have sep: "slots_separate (map fst (take n ws))"
    using distinct_take [OF dist, of n] by (simp add: slots_separate_def take_map)
  have before: "hk_rebind_read_slot (vm_view s) (rbs_address site) = Some (rbs_original site)" if site: "site \<in> set (take n (rbp_sites plan))" for site
  proof -
    obtain i where i: "i < n" "site = fst (ws ! i)"
      using site n fst_i sites(2) by (auto simp: in_set_conv_nth)
    have "\<forall>(site1, v) \<in> set (take i ws). rbs_address site1 AND 7 = 0 \<and> rbs_address site1 \<noteq> rbs_address (fst (ws ! i))"
    proof clarify
      fix site1 v assume "(site1, v) \<in> set (take i ws)"
      then obtain j where j: "j < i" "ws ! j = (site1, v)" using i(1) n sites(2) by (auto simp: in_set_conv_nth)
      have "rbs_address (fst (ws ! j)) \<noteq> rbs_address (fst (ws ! i))"
        using dist i(1) j(1) n sites(2) nth_eq_iff_index_eq [OF dist, of j i] by simp
      then show "rbs_address site1 AND 7 = 0 \<and> rbs_address site1 \<noteq> rbs_address (fst (ws ! i))"
        using turn(1) [of j] i(1) j by simp
    qed
    then show ?thesis
      using slots_stored_elsewhere [of "rbs_address (fst (ws ! i))" "take i ws" "vm_view s"] turn [OF i(1)] i(2) by simp
  qed
  have after: "\<exists>v. hk_rebind_replacement_for_site pac site replacement = Some v \<and> hk_rebind_read_slot (vm_view s1) (rbs_address site) = Some v"
    if site: "site \<in> set (take n (rbp_sites plan))" and state: "m \<noteq> HK_MUTATION_UNKNOWN" for site
  proof -
    have "site \<in> fst ` set (take n ws)" using site by (simp add: sites(1) [symmetric] take_map)
    then obtain v where v: "(site, v) \<in> set (take n ws)" by auto
    then have "hk_rebind_replacement_for_site pac site replacement = Some v" using zip by (auto dest: in_set_takeD)
    then show ?thesis using slots_stored_read [OF sep v before [OF site]] known state by auto
  qed
  have outside: "vm_view s1 x = vm_view s x"
    if "\<forall>site \<in> set (take n (rbp_sites plan)). 8 \<le> unat (x - rbs_address site)" "m \<noteq> HK_MUTATION_UNKNOWN" for x
  proof -
    have "fst ` set (take n ws) = set (take n (rbp_sites plan))" by (simp add: sites(1) [symmetric] take_map)
    then have "\<forall>(site, v) \<in> set (take n ws). 8 \<le> unat (x - rbs_address site)" using that(1) by force
    then show ?thesis using slots_stored_outside known that(2) by auto
  qed
  show ?thesis using writes known sites(2) before after outside by auto
qed auto

text \<open>C10. Committing a rebinding plan with the native writer: no mutation is reported only when memory is unchanged, a
  partial one only when some but not all slots were written, a complete one when all were. Each of the slots
  written held what the preparation had read, so no change by somebody else is overwritten; and unless the outcome
  is unknown, each of them holds the replacement signed for its schema and no other byte of memory changed.
\<close>

theorem rebind_commit_exact:
  fixes s s1 :: "'s hk_vm_scheme"
  assumes "hk_rebind_commit pac target plan replacement sink s = Some ((m, n), sink1, s1)"
    "rt_write target = Some hk_native_patch_pointer" "distinct (map rbs_address (rbp_sites plan))"
  shows "(m = HK_MUTATION_NONE \<longrightarrow> n = 0) \<and> (m = HK_MUTATION_PARTIAL \<longrightarrow> 0 < n \<and> n < length (rbp_sites plan)) \<and>
    (m = HK_MUTATION_COMPLETE \<longrightarrow> n = length (rbp_sites plan)) \<and>
    (\<forall>site \<in> set (take n (rbp_sites plan)). hk_rebind_read_slot (vm_view s) (rbs_address site) = Some (rbs_original site)) \<and>
    (m \<noteq> HK_MUTATION_UNKNOWN \<longrightarrow>
       (\<forall>site \<in> set (take n (rbp_sites plan)). \<exists>v. hk_rebind_replacement_for_site pac site replacement = Some v \<and>
          hk_rebind_read_slot (vm_view s1) (rbs_address site) = Some v) \<and>
       (\<forall>x. (\<forall>site \<in> set (take n (rbp_sites plan)). 8 \<le> unat (x - rbs_address site)) \<longrightarrow> vm_view s1 x = vm_view s x))"
  using assms by (rule rebind_commit_spec)

definition sample_rebind_target :: "hk_vm hk_rebind_target" where
  "sample_rebind_target = \<lparr>rt_image_base = 0x4000, rt_image_size = 0x4000, rt_slide = 0, rt_image_path = None, rt_file_image = 0,
     rt_file_image_size = 0, rt_cache_base = 0, rt_cache_size = 0, rt_uuid_present = False, rt_uuid = [],
     rt_include_shared_cache_got = False, rt_write = Some hk_native_patch_pointer\<rparr>"

definition sample_rebind_plan :: hk_rebind_plan where
  "sample_rebind_plan = \<lparr>rbp_sites = [\<lparr>rbs_address = 0x4010, rbs_original = 0, rbs_callable_original = 0, rbs_addend = 0,
     rbs_schema = zero_schema, rbs_weak_import = True, rbs_from_chained = False, rbs_from_cache = False\<rparr>],
     rbp_originals_agree = True, rbp_original = 0\<rparr>"

lemma sample_slot_write: "fst (hk_native_patch_pointer 0x4010 0x5000 sample_vm) = HK_MUTATION_COMPLETE"
proof -
  have b: "hk_range_bounds 0x4010 8 = Some (0x4000, 0x8000)" by (simp add: hk_range_bounds_def PAGE_def)
  have c: "vm_calls sample_vm = []" "vm_prot sample_vm 0x4000 = Some 5" by (simp_all add: sample_vm_def)
  show ?thesis
    using sample_range(2) b c
    by (simp add: hk_native_patch_pointer_def write_in_place_def vm_protect_def kern_call_def sample_pages Let_def set_pages_def vm_store_def)
qed

lemma sample_slot_value: "hk_rebind_read_slot (vm_view sample_vm) 0x4010 = Some 0"
  by (rule read_slot_bytes) (auto simp: vm_view_def sample_vm_def page_of_def PAGE_def le_bytes_def VM_PROT_READ_def less_Suc_eq numeral_eq_Suc)

lemma sample_rebind_commit:
  "\<exists>s1. hk_rebind_commit plain_pac sample_rebind_target sample_rebind_plan 0x5000 None sample_vm = Some ((HK_MUTATION_COMPLETE, 1), None, s1)"
proof -
  obtain s1 where "hk_native_patch_pointer 0x4010 0x5000 sample_vm = (HK_MUTATION_COMPLETE, s1)"
    using sample_slot_write by (metis prod.collapse)
  then show ?thesis
    using sample_slot_value
    by (simp add: hk_rebind_commit_def sample_rebind_target_def sample_rebind_plan_def hk_rebind_replacement_for_site_def checked_adjust_def
        hk_pac_strip_code_def hk_pac_sign_slot_def plain_pac_def zero_schema_def record_artifact_def)
qed

lemma rebind_commit_exact_witness:
  "\<exists>s1. hk_rebind_commit plain_pac sample_rebind_target sample_rebind_plan 0x5000 None sample_vm = Some ((HK_MUTATION_COMPLETE, 1), None, s1) \<and>
     hk_rebind_read_slot (vm_view s1) 0x4010 = Some 0x5000"
proof -
  obtain s1 where run: "hk_rebind_commit plain_pac sample_rebind_target sample_rebind_plan 0x5000 None sample_vm = Some ((HK_MUTATION_COMPLETE, 1), None, s1)"
    using sample_rebind_commit by blast
  have "rt_write sample_rebind_target = Some hk_native_patch_pointer" "distinct (map rbs_address (rbp_sites sample_rebind_plan))"
    by (simp_all add: sample_rebind_target_def sample_rebind_plan_def)
  from rebind_commit_exact [OF run this]
  have "hk_rebind_read_slot (vm_view s1) 0x4010 = Some 0x5000"
    by (simp add: sample_rebind_plan_def hk_rebind_replacement_for_site_def checked_adjust_def
        hk_pac_strip_code_def hk_pac_sign_slot_def plain_pac_def zero_schema_def)
  then show ?thesis using run by blast
qed

end
