(* ===== verification/HK_Rebind_Props.thy ===== *)
theory HK_Rebind_Props
  imports HK_RebindPrepare HK_CacheVisits HK_ChainedFixups_Props HK_RebindCommit
begin

text \<open>
  What a prepared rebinding plan says of memory, whichever metadata the slots were found in and whatever the caches held:
  the invariant is that of one site added, carried through the three walks.
\<close>

section \<open>A site\<close>

text \<open>A slot that was read, whose signature fits, and the address a caller of the original needs.\<close>

definition site_sound :: "hk_pac \<Rightarrow> memory \<Rightarrow> hk_rebind_site \<Rightarrow> bool" where
  "site_sound pac m site \<longleftrightarrow>
     hk_rebind_read_slot m (rbs_address site) = Some (rbs_original site) \<and>
     (if rbs_original site = 0 then rbs_weak_import site \<and> rbs_addend site = 0 \<and> rbs_callable_original site = 0
      else hk_pac_slot_matches pac (rbs_original site) (rbs_schema site) (rbs_address site) \<and>
        (\<exists>base. checked_adjust (hk_pac_strip_slot pac (rbs_original site) (rbs_schema site)) (rbs_addend site) False = Some base \<and>
           rbs_callable_original site = hk_pac_make_callable pac base))"

definition plan_sound :: "hk_pac \<Rightarrow> memory \<Rightarrow> hk_rebind_plan \<Rightarrow> bool" where
  "plan_sound pac m plan \<longleftrightarrow> length (rbp_sites plan) \<le> HK_REBIND_MAX_SITES \<and> distinct (map rbs_address (rbp_sites plan)) \<and>
     (\<forall>site \<in> set (rbp_sites plan). site_sound pac m site)"

lemma adjust_zero: "checked_adjust 0 0 b = Some 0"
  by (cases b) (simp_all add: checked_adjust_def)

lemma callable_zero: "hk_pac_make_callable pac 0 = 0"
  by (simp add: hk_pac_make_callable_def)

lemma add_site_cases:
  assumes "add_site pac m plan address schema addend weak chained cached = Some (status, plan1)"
  shows "plan1 = plan \<or> (\<exists>site. status = ADD_SITE_OK \<and> plan1 = plan\<lparr>rbp_sites := rbp_sites plan @ [site]\<rparr> \<and>
     length (rbp_sites plan) < HK_REBIND_MAX_SITES \<and> address \<notin> set (map rbs_address (rbp_sites plan)) \<and>
     rbs_address site = address \<and> rbs_schema site = schema \<and> rbs_addend site = addend \<and> rbs_weak_import site = weak \<and> site_sound pac m site)"
proof (cases "find (\<lambda>site. rbs_address site = address) (rbp_sites plan)")
  case (Some existing)
  then show ?thesis using assms by (simp add: add_site_def)
next
  case None
  then have fresh: "address \<notin> set (map rbs_address (rbp_sites plan))" by (auto simp: find_None_iff)
  show ?thesis
  proof (cases "plan1 = plan")
    case False
    obtain old base where o: "hk_rebind_read_slot m address = Some old" "old = 0 \<longrightarrow> weak \<and> addend = 0"
      "old \<noteq> 0 \<longrightarrow> hk_pac_slot_matches pac old schema address"
      "checked_adjust (if old = 0 then 0 else hk_pac_strip_slot pac old schema) addend False = Some base"
      and p: "status = ADD_SITE_OK" "length (rbp_sites plan) < HK_REBIND_MAX_SITES"
      "plan1 = plan\<lparr>rbp_sites := rbp_sites plan @ [\<lparr>rbs_address = address, rbs_original = old, rbs_callable_original = hk_pac_make_callable pac base,
         rbs_addend = addend, rbs_schema = schema, rbs_weak_import = weak, rbs_from_chained = chained, rbs_from_cache = cached\<rparr>]\<rparr>"
      using assms False None by (auto simp: add_site_def split: bind_splits if_splits option.splits)
    then show ?thesis using fresh adjust_zero callable_zero by (auto simp: site_sound_def)
  qed simp
qed

lemma add_site_sound:
  assumes "add_site pac m plan address schema addend weak chained cached = Some (status, plan1)" "plan_sound pac m plan"
  shows "plan_sound pac m plan1"
  using add_site_cases [OF assms(1)] assms(2) by (auto simp: plan_sound_def)

lemma zero_plan_sound: "plan_sound pac m zero_rebind_plan"
  by (simp add: plan_sound_def zero_rebind_plan_def)

section \<open>The walks\<close>

lemma walk_commands_keeps:
  assumes "walk_commands m base fin visit n offset c = Some (st, c1)" "P c"
    and "\<And>c cmd o1 k c1 b. P c \<Longrightarrow> visit c cmd o1 k = Some (c1, b) \<Longrightarrow> P c1"
  shows "P c1"
  using assms(1,2)
proof (induction n arbitrary: offset c)
  case (Suc n)
  then show ?case using assms(3) by (auto split: if_splits bind_splits)
qed simp

lemma iterate_sections_keeps:
  assumes "hk_macho_iterate_sections m p sz visit c = Some (Inr c1)" "P c"
    and "\<And>c k sec c1 b. P c \<Longrightarrow> visit c k sec = Some (c1, b) \<Longrightarrow> P c1"
  shows "P c1"
proof -
  obtain s where s: "hk_macho_iterate_load_commands m p sz (sections_visit m p visit) (c, 0, False) = Some (HK_MACHO_OK, s)" "fst s = c1"
    using assms(1) by (auto simp: hk_macho_iterate_sections_def after_walk_Inr split: if_splits prod.splits)
  have step: "P (fst s1)" if "P (fst s)" "sections_visit m p visit s cmd offset cmdsize = Some (s1, b)" for s cmd offset cmdsize s1 b
    using that sections_of_segment_inv [of m p visit offset _ 0 _ "fst s" _ _ P] assms(3)
    by (auto simp: sections_visit_def Let_def split: if_splits bind_splits option.splits prod.splits)
  from s(1) consider "s = (c, 0, False)" | fin n where
    "walk_commands m p fin (sections_visit m p visit) n HK_MACHO_HEADER_64_SIZE (c, 0, False) = Some (HK_MACHO_OK, s)"
    by (auto simp: hk_macho_iterate_load_commands_def split: option.splits sum.splits)
  then have "P (fst s)"
    by cases (use assms(2) walk_commands_keeps [where P = "\<lambda>s. P (fst s)", OF _ _ step] in auto)
  then show ?thesis using s(2) by simp
qed

lemma section_slots_keeps:
  assumes "section_slots m tables visit n_sect sec lazy i n s = Some (s1, b)" "P (fst s)"
    and "\<And>c slot c1 b. P c \<Longrightarrow> visit c slot = Some (c1, b) \<Longrightarrow> P c1"
  shows "P (fst s1)"
  using assms(1,2)
proof (induction n arbitrary: i s)
  case (Suc n)
  then show ?case using assms(3) by (auto split: if_splits bind_splits option.splits)
qed simp

lemma slots_iterate_keeps:
  assumes "hk_import_slots_iterate m img sz tables visit c = Some (Inr c1)" "P c"
    and step: "\<And>c slot c1 b. P c \<Longrightarrow> visit c slot = Some (c1, b) \<Longrightarrow> P c1"
  shows "P c1"
proof -
  consider "c1 = c" | s where "hk_macho_iterate_sections m img sz (slots_visit_section m tables visit) (c, False) = Some (Inr s)" "fst s = c1"
    using assms(1) by (cases "hk_macho_iterate_sections m img sz (slots_visit_section m tables visit) (c, False)")
      (auto simp: hk_import_slots_iterate_def split: if_splits sum.splits prod.splits)
  then show ?thesis
  proof cases
    case 2
    have "P (fst s)"
    proof (rule iterate_sections_keeps [OF 2(1), where P = "\<lambda>s. P (fst s)"])
      fix c k sec c1 b assume "P (fst c)" "slots_visit_section m tables visit c k sec = Some (c1, b)"
      then show "P (fst c1)"
        using section_slots_keeps [of m tables visit k sec _ 0 _ c c1 b P] step
        by (auto simp: slots_visit_section_def Let_def split: if_splits)
    qed (use assms(2) in simp)
    then show ?thesis using 2(2) by simp
  qed (use assms(2) in simp)
qed

section \<open>The visitors\<close>

lemma dysymtab_cb_sound:
  "dysymtab_slot_cb pac m candidates slide c slot = Some (c1, b) \<Longrightarrow> plan_sound pac m (fst c) \<Longrightarrow> plan_sound pac m (fst c1)"
  using add_site_sound by (fastforce simp: dysymtab_slot_cb_def Let_def split: if_splits bind_splits)

lemma collect_site_plan: "collect_site c (status, plan) = (c1, b) \<Longrightarrow> co_plan c1 = plan"
  by (auto simp: collect_site_def Let_def)

lemma chained_cb_sound:
  assumes "chained_bind_cb pac m fixups candidates image_base image_size c bnd = Some (c1, b)" "plan_sound pac m (co_plan c)"
  shows "plan_sound pac m (co_plan c1)"
proof -
  consider "co_plan c1 = co_plan c"
    | address schema addend weak status plan where "add_site pac m (co_plan c) address schema addend weak True False = Some (status, plan)"
        "collect_site c (status, plan) = (c1, b)"
    using assms(1) by (auto simp: chained_bind_cb_def Let_def split: if_splits bind_splits sum.splits)
  then show ?thesis using assms(2) add_site_sound collect_site_plan by cases fastforce+
qed

lemma cache_cb_keeps: "visits_keep (\<lambda>c. plan_sound pac m (co_plan c)) (cache_patch_cb pac m)"
  unfolding visits_keep_def cache_patch_cb_def using add_site_sound collect_site_plan by fastforce

lemma walk_chains_sound:
  assumes "walk_chains pac m candidates target source plan = Some (st, c)" "plan_sound pac m plan"
  shows "plan_sound pac m (co_plan c)"
  using assms(1) unfolding walk_chains_def hk_chained_fixups_iterate_file_binds_def
  by (rule iterate_binds_inv [where P = "\<lambda>c. plan_sound pac m (co_plan c)"])
    (use assms(2) chained_cb_sound in \<open>auto simp: collect_start_def\<close>)

lemma replay_sites_sound: "replay_sites pac m ks plan = Some (st, plan1) \<Longrightarrow> plan_sound pac m plan \<Longrightarrow> plan_sound pac m plan1"
  by (induction ks arbitrary: plan) (auto split: if_splits bind_splits dest: add_site_sound)

section \<open>The preparation\<close>

text \<open>What a file's chains leave: the plan, a walk of it, or a replay of cached sites.\<close>

definition chains_leave :: "hk_pac \<Rightarrow> memory \<Rightarrow> 's hk_rebind_target \<Rightarrow> byte list list \<Rightarrow> hk_rebind_plan \<Rightarrow> hk_rebind_plan \<Rightarrow> bool" where
  "chains_leave pac m target candidates plan plan1 \<longleftrightarrow> plan1 = plan \<or>
     (\<exists>source walked. walk_chains pac m candidates target source plan = Some walked \<and> plan1 = co_plan (snd walked)) \<or>
     (\<exists>ks st. replay_sites pac m ks plan = Some (st, plan1))"

lemma chains_hit_leave:
  assumes "chains_hit pac m target symbol_name convention candidates entry plan ch = Some ((st, plan1), ch1)"
  shows "chains_leave pac m target candidates plan plan1"
proof (cases "find_symbol (fst ch) target symbol_name convention")
  case None
  then obtain walked where "walk_chains pac m candidates target (fe_source entry) plan = Some walked" "plan1 = co_plan (snd walked)"
    using assms unfolding chains_hit_def Let_def by (auto split: bind_splits)
  then show ?thesis unfolding chains_leave_def by blast
next
  case (Some k)
  then have "replay_sites pac m (se_sites k) plan = Some (st, plan1)"
    using assms unfolding chains_hit_def by auto
  then show ?thesis unfolding chains_leave_def by blast
qed

lemma loaded_leave:
  assumes "walk_chains pac m candidates target source plan = Some walked" "plan1 = co_plan (snd walked)"
  shows "chains_leave pac m target candidates plan plan1"
  using assms unfolding chains_leave_def by blast

lemma chains_miss_leave:
  assumes "chains_miss pac m files target symbol_name convention candidates loaded_header plan ch = Some ((st, plan1), ch1)"
  shows "chains_leave pac m target candidates plan plan1"
proof -
  consider "plan1 = plan" | source walked where "walk_chains pac m candidates target source plan = Some walked" "plan1 = co_plan (snd walked)"
    using assms unfolding chains_miss_def Let_def by (auto split: bind_splits option.splits sum.splits)
  then show ?thesis by cases (simp add: chains_leave_def, rule loaded_leave, simp, simp)
qed

lemma file_chains_leave:
  assumes "prepare_file_chains pac m files target symbol_name convention candidates loaded_header plan ch = Some ((st, plan1), ch1)"
  shows "chains_leave pac m target candidates plan plan1"
proof -
  consider "plan1 = plan" | source walked where "walk_chains pac m candidates target source plan = Some walked" "plan1 = co_plan (snd walked)"
    | entry where "chains_hit pac m target symbol_name convention candidates entry plan ch = Some ((st, plan1), ch1)"
    | "chains_miss pac m files target symbol_name convention candidates loaded_header plan ch = Some ((st, plan1), ch1)"
    using assms unfolding prepare_file_chains_def by (auto split: if_splits bind_splits option.splits sum.splits)
  then show ?thesis by cases (simp add: chains_leave_def, rule loaded_leave, simp, simp, erule chains_hit_leave, erule chains_miss_leave)
qed

lemma file_chains_sound:
  assumes "prepare_file_chains pac m files target symbol_name convention candidates loaded_header plan ch = Some ((st, plan1), ch1)"
    "plan_sound pac m plan"
  shows "plan_sound pac m plan1"
proof -
  consider "plan1 = plan" | source walked where "walk_chains pac m candidates target source plan = Some walked" "plan1 = co_plan (snd walked)"
    | ks st1 where "replay_sites pac m ks plan = Some (st1, plan1)"
    using file_chains_leave [OF assms(1)] unfolding chains_leave_def by blast
  then show ?thesis
  proof cases
    case 2
    then show ?thesis using walk_chains_sound [of pac m candidates target source plan "fst walked" "snd walked"] assms(2) by simp
  next
    case 3
    then show ?thesis by (rule replay_sites_sound [OF _ assms(2)])
  qed (use assms(2) in simp)
qed

text \<open>The originals of a finished plan.\<close>

definition originals_said :: "hk_rebind_plan \<Rightarrow> bool" where
  "originals_said plan \<longleftrightarrow> rbp_sites plan \<noteq> [] \<and> rbp_original plan = rbs_callable_original (hd (rbp_sites plan)) \<and>
     (rbp_originals_agree plan \<longleftrightarrow> (\<forall>site \<in> set (rbp_sites plan). rbs_callable_original site = rbp_original plan))"

lemma finalize_sound:
  assumes "finalize_plan plan = (st, plan1)" "plan_sound pac m plan"
  shows "plan_sound pac m plan1 \<and> (st = HK_REBIND_OK \<longrightarrow> originals_said plan1)"
proof (cases "rbp_sites plan")
  case Nil
  then show ?thesis using assms by (simp add: finalize_plan_def)
next
  case (Cons site sites)
  then have p: "plan1 = plan\<lparr>rbp_original := rbs_callable_original site,
      rbp_originals_agree := list_all (\<lambda>other. rbs_callable_original other = rbs_callable_original site) sites\<rparr>"
    using assms(1) by (simp add: finalize_plan_def)
  have "plan_sound pac m plan1" using assms(2) by (simp add: plan_sound_def p)
  moreover have "originals_said plan1" by (simp add: originals_said_def p Cons list_all_iff)
  ultimately show ?thesis by simp
qed

lemma prepare_dysymtab_sound:
  assumes "prepare_dysymtab pac m target candidates header_size plan = Some (st, plan1)" "plan_sound pac m plan"
  shows "plan_sound pac m plan1 \<and> (st = HK_REBIND_OK \<longrightarrow> originals_said plan1)"
proof -
  consider "plan1 = plan" "st \<noteq> HK_REBIND_OK"
    | tables plan2 err where "hk_import_slots_iterate m (rt_image_base target) header_size tables
        (dysymtab_slot_cb pac m candidates (rt_slide target)) (plan, ADD_SITE_OK) = Some (Inr (plan2, err))"
        "st \<noteq> HK_REBIND_OK \<and> plan1 = plan2 \<or> finalize_plan plan2 = (st, plan1)"
    using assms(1) by (auto simp: prepare_dysymtab_def split: if_splits bind_splits sum.splits prod.splits)
  then show ?thesis
  proof cases
    case 2
    have "plan_sound pac m (fst (plan2, err))"
      by (rule slots_iterate_keeps [OF 2(1), where P = "\<lambda>c. plan_sound pac m (fst c)"]) (use assms(2) dysymtab_cb_sound in auto)
    then show ?thesis using 2(2) finalize_sound by auto
  qed (use assms(2) in simp)
qed

lemma prepare_image_sound:
  assumes "prepare_image pac m files target symbol_name convention candidates loaded_header header_size plan st = Some ((status, plan1), st1)"
    "plan_sound pac m plan"
  shows "plan_sound pac m plan1 \<and> (status = HK_REBIND_OK \<longrightarrow> originals_said plan1)"
proof -
  consider "plan1 = plan" "status \<noteq> HK_REBIND_OK"
    | ch status2 plan2 ch1 where "prepare_file_chains pac m files target symbol_name convention candidates loaded_header plan ch = Some ((status2, plan2), ch1)"
        "status2 = HK_REBIND_OK \<and> finalize_plan plan2 = (status, plan1) \<or> status \<noteq> HK_REBIND_OK \<and> plan1 = plan2"
    | "prepare_dysymtab pac m target candidates header_size plan = Some (status, plan1)"
    using assms(1) by (auto simp: prepare_image_def Let_def split: if_splits bind_splits sum.splits prod.splits)
  then show ?thesis
  proof cases
    case 2
    then show ?thesis using file_chains_sound [OF 2(1) assms(2)] finalize_sound by auto
  next
    case 3
    then show ?thesis by (rule prepare_dysymtab_sound [OF _ assms(2)])
  qed (use assms(2) in simp)
qed

lemma cache_verdict_sound:
  assumes "cache_verdict (st, c) = Some (status, plan)" "plan_sound pac m (co_plan c)"
  shows "plan_sound pac m plan \<and> (status = HK_REBIND_OK \<longrightarrow> originals_said plan)"
  using assms finalize_sound by (auto simp: cache_verdict_def Let_def split: if_splits hk_cache_patch_status.splits)

lemma prepared_sound:
  fixes target :: "'s hk_rebind_target"
  assumes "hk_rebind_prepare_with_lookup pac m dyld_range files target symbol_name convention out_plan st = Some ((HK_REBIND_OK, plan), st1)"
  shows "plan_sound pac m plan \<and> originals_said plan"
proof -
  have walked: "plan_sound pac m (co_plan c)"
    if "hk_dyld_cache_iterate_symbol_uses_with_lookup m target1 symbol_name convention (cache_patch_cb pac m)
      (collect_start zero_rebind_plan) resolver = Some ((status, c), resolver1)" for target1 resolver resolver1 status c
    by (rule cache_iterate_keeps [OF cache_cb_keeps _ that]) (simp add: collect_start_def zero_plan_sound)
  consider target1 resolver resolver1 status c where
      "hk_dyld_cache_iterate_symbol_uses_with_lookup m target1 symbol_name convention (cache_patch_cb pac m)
        (collect_start zero_rebind_plan) resolver = Some ((status, c), resolver1)"
      "cache_verdict (status, c) = Some (HK_REBIND_OK, plan)"
    | candidates loaded_header header_size plan0 st0 where
      "prepare_image pac m files target symbol_name convention candidates loaded_header header_size plan0 st0 = Some ((HK_REBIND_OK, plan), st1)"
      "plan_sound pac m plan0"
    using assms walked zero_plan_sound [of pac m]
    by (auto simp: hk_rebind_prepare_with_lookup_def Let_def split: if_splits bind_splits sum.splits prod.splits option.splits)
  then show ?thesis
  proof cases
    case 1
    then show ?thesis using cache_verdict_sound [OF 1(2) walked [OF 1(1)]] by simp
  next
    case 2
    then show ?thesis using prepare_image_sound [OF 2] by simp
  qed
qed

text \<open>C11. A plan a rebinding preparation answers with describes memory as it is, whether its slots come from the
  live cache's patch table, from the chains of the original file, from a cached list of sites or from the load commands,
  and whatever the caches held: at most 32 slots at different addresses; each slot holds the recorded original, which is the null
  of a weak import or fits its pointer schema; the original to call is the callable form of the slot's address less its
  addend; and the plan says rightly whether all originals agree.
\<close>

theorem rebind_prepare_sound:
  fixes target :: "'s hk_rebind_target"
  assumes "hk_rebind_prepare_with_lookup pac m dyld_range files target symbol_name convention out_plan st = Some ((HK_REBIND_OK, plan), st1)"
  shows "plan_sound pac m plan \<and> originals_said plan"
  using assms by (rule prepared_sound)

end
