(* ===== verification/HK_RebindCaches.thy ===== *)
theory HK_RebindCaches
  imports HK_Rebind_Props HK_ChainedFold
begin

text \<open>
  The cache of sites is transparent: preparing a symbol again from the cached list of its sites gives the
  status and the plan a new walk of the file's chains would give, whatever the slots hold by then.
\<close>

section \<open>Requests\<close>

text \<open>What a bind asks of the plan: a refusal, nothing, or a site.\<close>

definition bind_request :: "memory \<Rightarrow> hk_chained_fixups \<Rightarrow> byte list list \<Rightarrow> ptr \<Rightarrow> nat \<Rightarrow> hk_chained_bind \<Rightarrow>
    (unit + cached_site option) option" where
  "bind_request m fixups candidates image_base image_size bnd = do {
     entry \<leftarrow> hk_chained_import_at m fixups (cb_import_ordinal bnd);
     Some (case entry of
        Inl _ \<Rightarrow> Inl ()
      | Inr import \<Rightarrow>
          if ci_symbol_name import \<notin> set candidates then Inr None
          else if unat (cb_slot_image_offset bnd) > image_size \<or> 8 > image_size - unat (cb_slot_image_offset bnd) then Inl ()
          else if cb_addend bnd > 0 \<and> ci_addend import > INT64_MAX - cb_addend bnd \<or>
              cb_addend bnd < 0 \<and> ci_addend import < INT64_MIN - cb_addend bnd then Inl ()
          else Inr (Some \<lparr>ks_address = image_base + cb_slot_image_offset bnd, ks_addend = ci_addend import + cb_addend bnd,
            ks_schema = \<lparr>ps_authenticated = cb_is_auth bnd, ps_key = pac_key_of (cb_key bnd), ps_diversity = cb_diversity bnd,
              ps_address_diversity = cb_address_diversity bnd\<rparr>, ks_weak = ci_weak_import import\<rparr>))
   }"

definition ask :: "hk_pac \<Rightarrow> memory \<Rightarrow> hk_rebind_plan \<Rightarrow> cached_site \<Rightarrow> (add_site_status \<times> hk_rebind_plan) option" where
  "ask pac m plan k = add_site pac m plan (ks_address k) (ks_schema k) (ks_addend k) (ks_weak k) True False"

lemma chained_cb_request:
  "chained_bind_cb pac m fixups candidates image_base image_size c bnd =
     (case bind_request m fixups candidates image_base image_size bnd of
        None \<Rightarrow> None
      | Some (Inl _) \<Rightarrow> Some (c\<lparr>co_malformed := True\<rparr>, False)
      | Some (Inr None) \<Rightarrow> Some (c, True)
      | Some (Inr (Some k)) \<Rightarrow> map_option (collect_site c) (ask pac m (co_plan c) k))"
  by (cases "hk_chained_import_at m fixups (cb_import_ordinal bnd)")
    (auto simp: chained_bind_cb_def bind_request_def ask_def Let_def map_option_case split: sum.split option.split)

text \<open>The sites asked for by a list of binds, none of which is refused.\<close>

primrec requests :: "memory \<Rightarrow> hk_chained_fixups \<Rightarrow> byte list list \<Rightarrow> ptr \<Rightarrow> nat \<Rightarrow> hk_chained_bind list \<Rightarrow> cached_site list option" where
  "requests m fixups candidates image_base image_size [] = Some []"
| "requests m fixups candidates image_base image_size (b # bs) =
     (case bind_request m fixups candidates image_base image_size b of
        Some (Inr None) \<Rightarrow> requests m fixups candidates image_base image_size bs
      | Some (Inr (Some k)) \<Rightarrow> map_option (\<lambda>ks. k # ks) (requests m fixups candidates image_base image_size bs)
      | _ \<Rightarrow> None)"

lemma requests_cong:
  "(\<And>i. hk_chained_import_at m1 fixups i = hk_chained_import_at m fixups i) \<Longrightarrow>
   requests m1 fixups candidates image_base image_size bs = requests m fixups candidates image_base image_size bs"
proof (induction bs)
  case (Cons b bs)
  have "bind_request m1 fixups candidates image_base image_size b = bind_request m fixups candidates image_base image_size b"
    unfolding bind_request_def Cons.prems by (rule refl)
  then show ?case by (simp only: requests.simps Cons.IH [OF Cons.prems])
qed simp

text \<open>Asking for several sites, until one fails.\<close>

primrec ask_all :: "hk_pac \<Rightarrow> memory \<Rightarrow> cached_site list \<Rightarrow> hk_rebind_plan \<Rightarrow> (add_site_status \<times> hk_rebind_plan) option" where
  "ask_all pac m [] plan = Some (ADD_SITE_OK, plan)"
| "ask_all pac m (k # ks) plan = do {
     (status, plan1) \<leftarrow> ask pac m plan k;
     (if status \<noteq> ADD_SITE_OK then Some (status, plan1) else ask_all pac m ks plan1)
   }"

fun site_failure :: "add_site_status \<Rightarrow> hk_rebind_status" where
  "site_failure ADD_SITE_OK = HK_REBIND_OK"
| "site_failure ADD_SITE_OVERFLOW = HK_REBIND_TOO_MANY_SITES"
| "site_failure ADD_SITE_MALFORMED = HK_REBIND_MALFORMED_IMAGE"
| "site_failure ADD_SITE_PAC_MISMATCH = HK_REBIND_PAC_MISMATCH"

definition ask_verdict :: "add_site_status \<times> hk_rebind_plan \<Rightarrow> hk_rebind_status \<times> hk_rebind_plan" where
  "ask_verdict r = (if fst r \<noteq> ADD_SITE_OK then site_failure (fst r)
     else if rbp_sites (snd r) \<noteq> [] then HK_REBIND_OK else HK_REBIND_NOT_FOUND, snd r)"

lemma replay_ask: "replay_sites pac m ks plan = map_option ask_verdict (ask_all pac m ks plan)"
proof (induction ks arbitrary: plan)
  case (Cons k ks)
  show ?case
  proof (cases "ask pac m plan k")
    case (Some r)
    then show ?thesis using Cons by (cases "fst r") (auto simp: ask_def ask_verdict_def split: prod.splits)
  qed (simp add: ask_def)
qed (simp add: ask_verdict_def)

section \<open>The walk asks\<close>

text \<open>No failure has been seen.\<close>

definition no_failure :: "rebind_collect \<Rightarrow> bool" where
  "no_failure c \<longleftrightarrow> \<not> co_overflow c \<and> \<not> co_malformed c \<and> \<not> co_pac_mismatch c"

lemma collect_site_ok: "collect_site c (ADD_SITE_OK, plan) = (c\<lparr>co_plan := plan\<rparr>, True)"
  by (simp add: collect_site_def)

lemma collect_site_failed: "status \<noteq> ADD_SITE_OK \<Longrightarrow> \<not> snd (collect_site c (status, plan)) \<and> \<not> no_failure (fst (collect_site c (status, plan)))"
  by (cases status) (auto simp: collect_site_def no_failure_def)

lemma request_cases:
  fixes r :: "(unit + 'a option) option"
  obtains "r = None" | "r = Some (Inl ())" | "r = Some (Inr None)" | k where "r = Some (Inr (Some k))"
proof (cases r)
  case (Some x)
  show thesis
  proof (cases x)
    case (Inl u)
    then show thesis using that(2) Some by simp
  next
    case (Inr o1)
    then show thesis using that(3,4) Some by (cases o1) simp_all
  qed
qed (rule that(1))

text \<open>A walk that saw no failure asked for all of its sites and got them.\<close>

lemma visit_asks:
  assumes "visit_binds (chained_bind_cb pac m fixups candidates image_base image_size) bs c = Some (c1, stopped)" "no_failure c1"
  shows "\<not> stopped \<and> (\<exists>ks. requests m fixups candidates image_base image_size bs = Some ks \<and> ask_all pac m ks (co_plan c) = Some (ADD_SITE_OK, co_plan c1))"
  using assms
proof (induction bs arbitrary: c)
  case (Cons b bs)
  let ?req = "bind_request m fixups candidates image_base image_size b"
  show ?case
  proof (cases rule: request_cases [of ?req])
    case 1
    then show ?thesis using Cons.prems by (simp add: chained_cb_request)
  next
    case 2
    then show ?thesis using Cons.prems by (auto simp: chained_cb_request no_failure_def)
  next
    case 3
    then have cb: "chained_bind_cb pac m fixups candidates image_base image_size c b = Some (c, True)" by (simp add: chained_cb_request)
    have "visit_binds (chained_bind_cb pac m fixups candidates image_base image_size) bs c = Some (c1, stopped)"
      using Cons.prems(1) by (simp add: cb)
    from Cons.IH [OF this Cons.prems(2)] show ?thesis using 3 by simp
  next
    case (4 k)
    then obtain status plan where a: "ask pac m (co_plan c) k = Some (status, plan)"
      using Cons.prems(1) by (cases "ask pac m (co_plan c) k") (auto simp: chained_cb_request)
    show ?thesis
    proof (cases "status = ADD_SITE_OK")
      case True
      then have cb: "chained_bind_cb pac m fixups candidates image_base image_size c b = Some (c\<lparr>co_plan := plan\<rparr>, True)"
        using 4 a by (simp add: chained_cb_request collect_site_ok)
      then have "visit_binds (chained_bind_cb pac m fixups candidates image_base image_size) bs (c\<lparr>co_plan := plan\<rparr>) = Some (c1, stopped)"
        using Cons.prems(1) by simp
      from Cons.IH [OF this Cons.prems(2)] show ?thesis using 4 a True by auto
    next
      case False
      have cb: "chained_bind_cb pac m fixups candidates image_base image_size c b = Some (collect_site c (status, plan))"
        using 4 a by (simp add: chained_cb_request)
      show ?thesis
        using Cons.prems collect_site_failed [OF False, of c plan] by (cases "collect_site c (status, plan)") (simp add: cb)
    qed
  qed
qed simp

text \<open>A walk whose binds ask for these sites.\<close>

lemma visit_requests:
  assumes "requests m fixups candidates image_base image_size bs = Some ks"
  shows "visit_binds (chained_bind_cb pac m fixups candidates image_base image_size) bs c =
    map_option (\<lambda>r. (fst (collect_site c r), fst r \<noteq> ADD_SITE_OK)) (ask_all pac m ks (co_plan c))"
  using assms
proof (induction bs arbitrary: ks c)
  case Nil
  then show ?case by (simp add: collect_site_ok)
next
  case (Cons b bs)
  let ?req = "bind_request m fixups candidates image_base image_size b"
  consider "?req = Some (Inr None)" "requests m fixups candidates image_base image_size bs = Some ks"
    | k ks1 where "?req = Some (Inr (Some k))" "requests m fixups candidates image_base image_size bs = Some ks1" "ks = k # ks1"
    using Cons.prems by (auto split: option.splits sum.splits)
  then show ?case
  proof cases
    case 1
    then show ?thesis using Cons.IH [OF 1(2)] by (simp add: chained_cb_request)
  next
    case 2
    show ?thesis
    proof (cases "ask pac m (co_plan c) k")
      case (Some r)
      obtain status plan where r: "r = (status, plan)" by (cases r)
      have twice: "collect_site (c\<lparr>co_plan := plan\<rparr>) s = collect_site c s" for s
        by (simp add: collect_site_def split: prod.split)
      show ?thesis
      proof (cases "status = ADD_SITE_OK")
        case True
        then show ?thesis using 2 Some r Cons.IH [OF 2(2), of "c\<lparr>co_plan := plan\<rparr>"] by (simp add: chained_cb_request collect_site_ok twice)
      next
        case False
        then show ?thesis
          using 2 Some r collect_site_failed [OF False, of c plan] by (cases "collect_site c (status, plan)") (simp add: chained_cb_request)
      qed
    qed (use 2 in \<open>simp add: chained_cb_request\<close>)
  qed
qed

section \<open>Sites that are asked for twice\<close>

text \<open>What identifies a site in a plan.\<close>

definition site_key :: "hk_rebind_site \<Rightarrow> u64 \<times> hk_pac_schema \<times> int" where
  "site_key site = (rbs_address site, rbs_schema site, rbs_addend site)"

lemma find_keys:
  "map site_key sites1 = map site_key sites \<Longrightarrow>
   map_option site_key (find (\<lambda>site. rbs_address site = a) sites1) = map_option site_key (find (\<lambda>site. rbs_address site = a) sites)"
proof (induction sites arbitrary: sites1)
  case (Cons site sites)
  then obtain site1 rest where s: "sites1 = site1 # rest" "site_key site1 = site_key site" "map site_key rest = map site_key sites"
    by (cases sites1) simp_all
  then have "rbs_address site1 = rbs_address site" by (simp add: site_key_def)
  then show ?case using Cons.IH [OF s(3)] s(1,2) by simp
qed simp

lemma ask_known:
  assumes "ask pac m p k = Some (ADD_SITE_OK, p)" "map site_key (rbp_sites q) = map site_key (rbp_sites p)"
    "ks_address k \<in> rbs_address ` set (rbp_sites p)"
  shows "ask pac m1 q k = Some (ADD_SITE_OK, q)"
proof -
  obtain site where s: "find (\<lambda>site. rbs_address site = ks_address k) (rbp_sites p) = Some site"
    using assms(3) by (metis (mono_tags, lifting) find_None_iff image_iff not_None_eq)
  then have "rbs_schema site = ks_schema k" "rbs_addend site = ks_addend k"
    using assms(1) by (auto simp: ask_def add_site_def split: if_splits)
  moreover obtain site1 where "find (\<lambda>site. rbs_address site = ks_address k) (rbp_sites q) = Some site1" "site_key site1 = site_key site"
    using find_keys [OF assms(2), of "ks_address k"] s by auto
  ultimately show ?thesis by (simp add: ask_def add_site_def site_key_def)
qed

lemma ask_known_same:
  assumes "ask pac m p k = Some (status, p1)" "ks_address k \<in> rbs_address ` set (rbp_sites p)"
  shows "p1 = p"
  using add_site_cases [OF assms(1) [unfolded ask_def]] assms(2) by auto

lemma ask_new:
  assumes "ask pac m p k = Some (ADD_SITE_OK, p1)" "ks_address k \<notin> rbs_address ` set (rbp_sites p)"
  shows "\<exists>site. p1 = p\<lparr>rbp_sites := rbp_sites p @ [site]\<rparr> \<and> cached_site_of site = k"
proof -
  have "find (\<lambda>site. rbs_address site = ks_address k) (rbp_sites p) = None"
    unfolding find_None_iff using assms(2) by (metis image_eqI)
  then show ?thesis
    using assms(1) by (auto simp: ask_def add_site_def cached_site_of_def split: bind_splits if_splits option.splits)
qed

lemma ask_all_extends: "ask_all pac m ks p = Some (st, p1) \<Longrightarrow> \<exists>sites. rbp_sites p1 = rbp_sites p @ sites"
proof (induction ks arbitrary: p)
  case (Cons k ks)
  then obtain status p2 where a: "ask pac m p k = Some (status, p2)" by (auto split: bind_splits)
  have "\<exists>sites. rbp_sites p2 = rbp_sites p @ sites" using add_site_cases [OF a [unfolded ask_def]] by auto
  then show ?case using Cons a by (cases "status = ADD_SITE_OK") fastforce+
qed simp

lemma cached_key: "site_key site = (ks_address (cached_site_of site), ks_schema (cached_site_of site), ks_addend (cached_site_of site))"
  by (simp add: site_key_def cached_site_of_def)

lemma ask_all_again:
  assumes "ask_all pac m ks p = Some (ADD_SITE_OK, p1)" "map site_key (rbp_sites q) = map site_key (rbp_sites p)"
  shows "ask_all pac m1 ks q = ask_all pac m1 (map cached_site_of (drop (length (rbp_sites p)) (rbp_sites p1))) q"
  using assms
proof (induction ks arbitrary: p q)
  case (Cons k ks)
  obtain p2 where a: "ask pac m p k = Some (ADD_SITE_OK, p2)" and rest: "ask_all pac m ks p2 = Some (ADD_SITE_OK, p1)"
    using Cons.prems(1) by (auto split: bind_splits if_splits)
  show ?case
  proof (cases "ks_address k \<in> rbs_address ` set (rbp_sites p)")
    case True
    then have "p2 = p" using ask_known_same [OF a] by simp
    then show ?thesis
      using Cons.IH [OF rest] Cons.prems(2) ask_known [of pac m p k q m1] a True by simp
  next
    case False
    then obtain site where site: "p2 = p\<lparr>rbp_sites := rbp_sites p @ [site]\<rparr>" "cached_site_of site = k"
      using ask_new [OF a] by blast
    obtain sites where ext: "rbp_sites p1 = rbp_sites p2 @ sites" using ask_all_extends [OF rest] by blast
    have new: "ks_address k \<notin> rbs_address ` set (rbp_sites q)"
    proof -
      have "map rbs_address (rbp_sites q) = map fst (map site_key (rbp_sites q))" by (simp add: site_key_def)
      also have "\<dots> = map rbs_address (rbp_sites p)" by (simp add: Cons.prems(2)) (simp add: site_key_def)
      finally show ?thesis using False by (metis image_set)
    qed
    have step: "ask_all pac m1 ks q1 = ask_all pac m1 (map cached_site_of sites) q1" if run: "ask pac m1 q k = Some (ADD_SITE_OK, q1)" for q1
    proof -
      obtain site1 where s1: "q1 = q\<lparr>rbp_sites := rbp_sites q @ [site1]\<rparr>" "cached_site_of site1 = k"
        using ask_new [OF run new] by blast
      have "map site_key (rbp_sites q1) = map site_key (rbp_sites p2)"
        using Cons.prems(2) cached_key [of site1] cached_key [of site] by (simp add: s1 site)
      from Cons.IH [OF rest this] show ?thesis using ext by (simp add: site(1))
    qed
    have "map cached_site_of (drop (length (rbp_sites p)) (rbp_sites p1)) = k # map cached_site_of sites"
      using ext by (simp add: site)
    then show ?thesis using step by (cases "ask pac m1 q k") auto
  qed
qed simp

section \<open>The cache\<close>

text \<open>What the collecting walk of a file's chains finds.\<close>

definition file_binds :: "memory \<Rightarrow> chain_source \<Rightarrow> (hk_chained_status \<times> hk_chained_bind list) option" where
  "file_binds m source = hk_chained_fixups_iterate_file_binds m (cs_fixups source) (fst (cs_slice source)) (snd (cs_slice source))
     (cs_mappings source) collect_bind []"

lemma verdict_good:
  "chain_verdict (st, c) \<in> {HK_REBIND_OK, HK_REBIND_NOT_FOUND} \<Longrightarrow> no_failure c \<and> st = HK_CHAINED_OK"
  by (auto simp: chain_verdict_def no_failure_def split: if_splits)

lemma walk_chains_binds:
  assumes "file_binds m source = Some (st, bs)"
  shows "walk_chains pac m candidates target source plan =
    map_option (\<lambda>(c1, stopped). (if stopped then HK_CHAINED_OK else st, c1))
      (visit_binds (chained_bind_cb pac m (cs_fixups source) candidates (rt_image_base target) (rt_image_size target)) bs (collect_start plan))"
  unfolding walk_chains_def hk_chained_fixups_iterate_file_binds_def
  by (rule binds_fold) (use assms in \<open>simp add: file_binds_def hk_chained_fixups_iterate_file_binds_def\<close>)

text \<open>A walk that found the sites, and a later one.\<close>

lemma replay_walks:
  assumes "walk_chains pac m candidates target source zero_rebind_plan = Some walked" "chain_verdict walked \<in> {HK_REBIND_OK, HK_REBIND_NOT_FOUND}"
    "file_binds m source = Some found" "file_binds m1 source = Some found"
    "\<And>i. hk_chained_import_at m1 (cs_fixups source) i = hk_chained_import_at m (cs_fixups source) i"
  shows "replay_sites pac m1 (map cached_site_of (rbp_sites (co_plan (snd walked)))) zero_rebind_plan =
    map_option (\<lambda>w. (chain_verdict w, co_plan (snd w))) (walk_chains pac m1 candidates target source zero_rebind_plan)"
proof -
  obtain st bs where found: "found = (st, bs)" by (cases found)
  obtain st1 c where walked: "walked = (st1, c)" by (cases walked)
  let ?cb = "\<lambda>m. chained_bind_cb pac m (cs_fixups source) candidates (rt_image_base target) (rt_image_size target)"
  note good = verdict_good [OF assms(2) [unfolded walked]]
  obtain stopped where run: "visit_binds (?cb m) bs (collect_start zero_rebind_plan) = Some (c, stopped)" and st1: "st1 = (if stopped then HK_CHAINED_OK else st)"
    using assms(1) unfolding walk_chains_binds [OF assms(3) [unfolded found]] walked by auto
  obtain ks where ks: "\<not> stopped" "requests m (cs_fixups source) candidates (rt_image_base target) (rt_image_size target) bs = Some ks"
    "ask_all pac m ks zero_rebind_plan = Some (ADD_SITE_OK, co_plan c)"
    using visit_asks [OF run] good by (auto simp: collect_start_def)
  have st: "st = HK_CHAINED_OK" using st1 ks(1) good by simp
  have "requests m1 (cs_fixups source) candidates (rt_image_base target) (rt_image_size target) bs = Some ks"
    using ks(2) requests_cong [of m1 "cs_fixups source" m, OF assms(5)] by simp
  from visit_requests [OF this, of pac "collect_start zero_rebind_plan"]
  have later: "walk_chains pac m1 candidates target source zero_rebind_plan =
      map_option (\<lambda>r. (HK_CHAINED_OK, fst (collect_site (collect_start zero_rebind_plan) r))) (ask_all pac m1 ks zero_rebind_plan)"
    unfolding walk_chains_binds [OF assms(4) [unfolded found]]
    by (simp add: option.map_comp comp_def st collect_start_def cong: if_cong)
  have "ask_all pac m1 ks zero_rebind_plan = ask_all pac m1 (map cached_site_of (rbp_sites (co_plan c))) zero_rebind_plan"
    using ask_all_again [OF ks(3) refl, of m1] by (simp add: zero_rebind_plan_def)
  moreover have "ask_verdict = (\<lambda>r. (chain_verdict (HK_CHAINED_OK, fst (collect_site (collect_start zero_rebind_plan) r)),
      co_plan (fst (collect_site (collect_start zero_rebind_plan) r))))"
    by (rule ext; case_tac r; case_tac a) (auto simp: ask_verdict_def chain_verdict_def collect_site_def collect_start_def)
  ultimately show ?thesis
    by (simp add: replay_ask later walked option.map_comp comp_def)
qed

lemma find_matches: "find P xs = Some x \<Longrightarrow> P x \<and> x \<in> set xs"
  by (induction xs) (auto split: if_splits)

text \<open>What a lookup finds after a site list was stored for a symbol that was not there.\<close>

lemma store_symbol_found:
  assumes "find_symbol caches target symbol_name convention = None"
    "find_symbol (fst (store_symbol target symbol_name convention plan (caches, heap))) target symbol_name convention = Some k"
  shows "se_sites k = map cached_site_of (rbp_sites plan)"
proof -
  let ?match = "\<lambda>e. case e of None \<Rightarrow> False | Some k \<Rightarrow>
        se_image_base k = rt_image_base target \<and> se_convention k = convention \<and>
        rt_image_path target = Some (se_path k) \<and> se_symbol k = symbol_name"
  obtain victim next_slot where v: "cache_victim (rc_symbols caches) (rc_symbol_next caches) HK_REBIND_SYMBOL_CACHE_SIZE = (victim, next_slot)" by fastforce
  obtain p heap2 where p: "hk_alloc heap = (p, heap2)" by fastforce
  obtain q heap1 where q: "hk_alloc heap2 = (q, heap1)" by fastforce
  define entry where "entry = (if p \<and> q then Some \<lparr>se_path = the (rt_image_path target), se_image_base = rt_image_base target,
      se_symbol = symbol_name, se_convention = convention, se_sites = map cached_site_of (rbp_sites plan)\<rparr> else None)"
  have s: "store_symbol target symbol_name convention plan (caches, heap) =
      (caches\<lparr>rc_symbols := (rc_symbols caches)[victim := entry], rc_symbol_next := next_slot\<rparr>, heap1)"
    "\<And>k. entry = Some k \<Longrightarrow> se_sites k = map cached_site_of (rbp_sites plan)"
    by (auto simp: store_symbol_def v p q entry_def split: if_splits)
  have "find ?match (rc_symbols caches) = None"
  proof (cases "find ?match (rc_symbols caches)")
    case (Some x)
    then have "?match x" using find_matches by fast
    then show ?thesis using assms(1) Some by (cases x) (simp_all add: find_symbol_def)
  qed simp
  then have none: "\<not> ?match e" if "e \<in> set (rc_symbols caches)" for e using that unfolding find_None_iff by blast
  obtain x where x: "find ?match ((rc_symbols caches)[victim := entry]) = Some x" "x = Some k"
    using assms(2) by (auto simp: find_symbol_def s(1) split: bind_splits)
  have "?match x" "x \<in> set ((rc_symbols caches)[victim := entry])" using find_matches [OF x(1)] by fast+
  then have "x = entry" using none set_update_subset_insert [of "rc_symbols caches" victim entry] by auto
  then show ?thesis using s(2) x(2) by simp
qed

text \<open>C12. The cache of sites is transparent. Once a preparation of a symbol has walked the chains of a cached file, a later
  one for the same symbol answers what a new walk of the chains would: the same status, and a plan with the same
  sites holding what the slots hold by then, also when they have been rewritten in between, provided the file's bytes
  say what they said.
\<close>

theorem symbol_cache_transparent:
  fixes target :: "'s hk_rebind_target"
  assumes "chains_hit pac m target symbol_name convention candidates entry zero_rebind_plan ch = Some ((verdict, plan), ch1)"
    "find_symbol (fst ch) target symbol_name convention = None" "verdict = HK_REBIND_OK \<or> verdict = HK_REBIND_NOT_FOUND"
    "file_binds m (fe_source entry) = Some found" "file_binds m1 (fe_source entry) = Some found"
    "\<And>i. hk_chained_import_at m1 (cs_fixups (fe_source entry)) i = hk_chained_import_at m (cs_fixups (fe_source entry)) i"
  shows "map_option fst (chains_hit pac m1 target symbol_name convention candidates entry zero_rebind_plan ch1) =
    map_option (\<lambda>w. (chain_verdict w, co_plan (snd w))) (walk_chains pac m1 candidates target (fe_source entry) zero_rebind_plan)"
proof -
  obtain walked where w: "walk_chains pac m candidates target (fe_source entry) zero_rebind_plan = Some walked"
    "verdict = chain_verdict walked" "plan = co_plan (snd walked)"
    "ch1 = store_symbol target symbol_name convention (co_plan (snd walked)) ch"
    using assms(1-3) by (auto simp: chains_hit_def Let_def split: bind_splits if_splits)
  have again: "replay_sites pac m1 (map cached_site_of (rbp_sites (co_plan (snd walked)))) zero_rebind_plan =
      map_option (\<lambda>w. (chain_verdict w, co_plan (snd w))) (walk_chains pac m1 candidates target (fe_source entry) zero_rebind_plan)"
    by (rule replay_walks [OF w(1) _ assms(4-6)]) (use assms(3) w(2) in auto)
  show ?thesis
  proof (cases "find_symbol (fst ch1) target symbol_name convention")
    case None
    then show ?thesis
      by (cases "walk_chains pac m1 candidates target (fe_source entry) zero_rebind_plan") (simp_all add: chains_hit_def Let_def)
  next
    case (Some k)
    then have "se_sites k = map cached_site_of (rbp_sites (co_plan (snd walked)))"
      using store_symbol_found [of "fst ch" target symbol_name convention "co_plan (snd walked)" "snd ch" k] assms(2) w(4) by simp
    then show ?thesis using Some again by (simp add: chains_hit_def option.map_comp comp_def)
  qed
qed

end
