(* ===== verification/HK_RebindSample.thy ===== *)
theory HK_RebindSample
  imports HK_RebindCaches
begin

text \<open>
  A small file with two binds, of the imports \<open>f\<close> and \<open>g\<close>, and an image with one load command and one slot, on which
  the preparation and its cache of sites are run.
\<close>

definition sample_file_bytes :: "byte list" where
  "sample_file_bytes = [1, 0, 0, 0, 8, 0, 0, 0, 24, 0, 0, 0, 0, 0x10, 6, 0, 0x40, 0, 0, 0, 0, 0, 0, 0, 0, 0, 0, 0, 1, 0, 0, 0,
     1, 0, 0, 0, 0, 0, 0x10, 0x80, 2, 0, 0, 0, 0, 0, 0, 0x80, 0, 0, 0, 0, 0, 0, 0, 0, 0, 4, 0, 0, 0x66, 0, 0x67, 0]"

text \<open>The image: a header with the command that says that it has chained fixups, and at offset \<open>0x40\<close> a slot that holds \<open>v\<close>.\<close>

definition sample_image_bytes :: "byte list" where
  "sample_image_bytes = [0xCF, 0xFA, 0xED, 0xFE, 0x0C, 0, 0, 1, 0, 0, 0, 0, 2, 0, 0, 0, 1, 0, 0, 0, 16, 0, 0, 0, 0, 0, 0, 0, 0, 0, 0, 0,
     0x34, 0, 0, 0x80, 16, 0, 0, 0, 0, 0, 0, 0, 0, 0, 0, 0, 0, 0, 0, 0, 0, 0, 0, 0, 0, 0, 0, 0, 0, 0, 0, 0]"

definition sample_process :: "u64 \<Rightarrow> memory" where
  "sample_process v x = (if unat (x - 0x20040) < 8 then Some (le_bytes 8 v ! unat (x - 0x20040))
     else if unat (x - 0x20000) < 64 then Some (sample_image_bytes ! unat (x - 0x20000))
     else mem_of 0x10000 sample_file_bytes x)"

definition sample_source :: chain_source where
  "sample_source = \<lparr>cs_file = (0x10000, 64), cs_slice = (0x10020, 16),
     cs_fixups = \<lparr>cf_blob = 0x10000, cf_size = 64, cf_starts_offset = 0, cf_imports_offset = 48, cf_symbols_offset = 60,
       cf_imports_count = 3, cf_imports_format = 1, cf_import_entry_size = 4, cf_symbols_size = 4\<rparr>,
     cs_collected = [], cs_mappings = [\<lparr>csm_image_offset = 0x40, csm_file_offset = 0, csm_file_size = 16\<rparr>], cs_preferred = 0\<rparr>"

definition sample_file_ctx :: chain_ctx where
  "sample_file_ctx = sample_fold_ctx\<lparr>cc_segment_start := 0x40, cc_segment_end := 0x1040\<rparr>"

definition sample_chain_target :: "hk_vm hk_rebind_target" where
  "sample_chain_target = \<lparr>rt_image_base = 0x20000, rt_image_size = 0x50, rt_slide = 0, rt_image_path = Some [0x61], rt_file_image = 0,
     rt_file_image_size = 0, rt_cache_base = 0, rt_cache_size = 0, rt_uuid_present = False, rt_uuid = replicate 16 0,
     rt_include_shared_cache_got = False, rt_write = None\<rparr>"

definition sample_file_entry :: file_entry where
  "sample_file_entry = \<lparr>fe_path = [0x61], fe_image_base = 0x20000, fe_cputype = 0x0100000C, fe_cpusubtype = 0, fe_source = sample_source\<rparr>"

definition sample_site :: "u64 \<Rightarrow> hk_rebind_site" where
  "sample_site v = \<lparr>rbs_address = 0x20040, rbs_original = v, rbs_callable_original = v, rbs_addend = 0, rbs_schema = zero_schema,
     rbs_weak_import = False, rbs_from_chained = True, rbs_from_cache = False\<rparr>"

lemma sample_process_reads:
  "rd32 (sample_process v) 0x10000 0 = Some 1" "rd32 (sample_process v) 0x10000 4 = Some 8"
  "rd32 (sample_process v) 0x10000 8 = Some 24" "rd16 (sample_process v) 0x10000 12 = Some 0x1000"
  "rd16 (sample_process v) 0x10000 14 = Some 6" "rd64 (sample_process v) 0x10000 16 = Some 0x40"
  "rd16 (sample_process v) 0x10000 28 = Some 1" "rd16 (sample_process v) 0x1001E 0 = Some 0"
  "rd64 (sample_process v) 0x10020 0 = Some 0x8010000000000001"
  "rd64 (sample_process v) 0x10020 8 = Some 0x8000000000000002"
  "rd32 (sample_process v) 0x10000 52 = Some 0" "rd32 (sample_process v) 0x10000 56 = Some 0x400"
  "rd8 (sample_process v) 0x1003C 0 = Some 0x66" "rd8 (sample_process v) 0x1003C 1 = Some 0"
  "rd8 (sample_process v) 0x1003C 2 = Some 0x67" "rd8 (sample_process v) 0x1003C 3 = Some 0"
  by (simp_all add: rd64_def rd32_def rd16_def rd8_def sample_process_def mem_of_def sample_file_bytes_def)

lemma sample_slot: "hk_rebind_read_slot (sample_process v) 0x20040 = Some v"
  by (rule read_slot_bytes) (simp add: sample_process_def unat_of_nat take_bit_nat_eq_self)

lemma sample_process_chain:
  "walk_chain (sample_process v) sample_file_ctx collect_bind 0x40 [] = Some (HK_CHAINED_OK, [sample_fold_bind 0x40 1, sample_fold_bind 0x48 2], False)"
proof -
  have "walk_chain (sample_process v) sample_file_ctx collect_bind 0x48 [sample_fold_bind 0x40 1] =
      Some (HK_CHAINED_OK, [sample_fold_bind 0x40 1, sample_fold_bind 0x48 2], False)"
    by (subst walk_chain_step)
      (simp_all add: sample_file_ctx_def sample_fold_ctx_def outside_segment_def outside_storage_def sample_process_reads decode_pointer_def sample_formats
        chained_bind_of_def sample_fold_bind_def collect_bind_def Let_def)
  then show ?thesis
    by (subst walk_chain_step)
      (simp_all add: sample_file_ctx_def sample_fold_ctx_def outside_segment_def outside_storage_def sample_process_reads decode_pointer_def sample_formats
        chained_bind_of_def sample_fold_bind_def collect_bind_def Let_def)
qed

lemma sample_file_binds: "file_binds (sample_process v) sample_source = Some (HK_CHAINED_OK, [sample_fold_bind 0x40 1, sample_fold_bind 0x48 2])"
  using sample_process_chain [of v]
  by (simp add: file_binds_def hk_chained_fixups_iterate_file_binds_def iterate_binds_def sample_source_def sample_process_reads
      walk_segment_def sample_formats Let_def sample_file_ctx_def sample_fold_ctx_def after_chain_def)

text \<open>The imports are the same whatever the slot holds.\<close>

lemma sample_name: "pool_string (sample_process v) 0x1003C 4 0 = Some (Some [0x66])" "pool_string (sample_process v) 0x1003C 4 2 = Some (Some [0x67])"
proof -
  have "terminated_string (sample_process v) 0x1003C 0 (Suc (Suc (Suc (Suc 0)))) = Some (Some [0x66])"
    unfolding terminated_string.simps using sample_process_reads(13,14) [of v] by simp
  then show "pool_string (sample_process v) 0x1003C 4 0 = Some (Some [0x66])"
    by (simp add: pool_string_def eval_nat_numeral)
  have "terminated_string (sample_process v) 0x1003C 2 (Suc (Suc 0)) = Some (Some [0x67])"
    unfolding terminated_string.simps using sample_process_reads(15,16) [of v] by simp
  then show "pool_string (sample_process v) 0x1003C 4 2 = Some (Some [0x67])"
    by (simp add: pool_string_def numeral_2_eq_2)
qed

lemma sample_import:
  "hk_chained_import_at (sample_process v) (cs_fixups sample_source) i =
     Some (if i = 0 \<or> i = 1 then Inr \<lparr>ci_index = i, ci_lib_ordinal = 0, ci_weak_import = False, ci_symbol_name = [0x66], ci_addend = 0\<rparr>
       else if i = 2 then Inr \<lparr>ci_index = 2, ci_lib_ordinal = 0, ci_weak_import = False, ci_symbol_name = [0x67], ci_addend = 0\<rparr>
       else Inl HK_CHAINED_NOT_FOUND)"
proof -
  have zero: "rd32 (sample_process v) 0x10000 48 = Some 0"
    by (simp add: rd32_def rd8_def sample_process_def mem_of_def sample_file_bytes_def)
  consider "i = 0" | "i = 1" | "i = 2" | "i \<ge> 3" by linarith
  then show ?thesis
    by cases (simp_all add: zero hk_chained_import_at_def sample_source_def import_fields_def HK_CHAINED_IMPORT_def HK_CHAINED_IMPORT_ADDEND_def
      sample_process_reads sample_name)
qed

text \<open>A walk of the chains, and the first preparation.\<close>

definition sample_sites_plan :: "u64 \<Rightarrow> hk_rebind_plan" where
  "sample_sites_plan v = zero_rebind_plan\<lparr>rbp_sites := [sample_site v]\<rparr>"

lemma sample_add_site:
  "v \<noteq> 0 \<Longrightarrow> add_site plain_pac (sample_process v) zero_rebind_plan 0x20040 \<lparr>ps_authenticated = False, ps_key = pac_key_of 0,
     ps_diversity = 0, ps_address_diversity = False\<rparr> 0 False True False = Some (ADD_SITE_OK, sample_sites_plan v)"
  by (simp add: add_site_def zero_rebind_plan_def HK_REBIND_MAX_SITES_def sample_slot hk_pac_slot_matches_def hk_pac_strip_slot_def
      hk_pac_strip_code_def hk_pac_make_callable_def plain_pac_def checked_adjust_def sample_sites_plan_def sample_site_def zero_schema_def
      pac_key_of_def)

lemma sample_walk:
  assumes "v \<noteq> 0"
  shows "walk_chains plain_pac (sample_process v) [[0x66], [0x5F, 0x66]] sample_chain_target sample_source zero_rebind_plan =
    Some (HK_CHAINED_OK, collect_start (sample_sites_plan v))"
  unfolding walk_chains_binds [OF sample_file_binds]
  using sample_add_site [OF assms]
  by (simp add: chained_bind_cb_def sample_import sample_fold_bind_def sample_chain_target_def collect_start_def collect_site_def
      zero_rebind_plan_def sample_sites_plan_def Let_def)

lemma sample_verdict: "chain_verdict (HK_CHAINED_OK, collect_start (sample_sites_plan v)) = HK_REBIND_OK"
  by (simp add: chain_verdict_def collect_start_def sample_sites_plan_def)

lemma find_replicate: "\<not> P x \<Longrightarrow> find P (replicate n x) = None"
  by (induction n) simp_all

lemma sample_no_symbol: "find_symbol empty_caches sample_chain_target [0x66] HK_SYMBOL_NAME_C = None"
  by (simp add: find_symbol_def empty_caches_def find_replicate)

lemma sample_first_prepare:
  assumes "v \<noteq> 0"
  shows "chains_hit plain_pac (sample_process v) sample_chain_target [0x66] HK_SYMBOL_NAME_C [[0x66], [0x5F, 0x66]] sample_file_entry
    zero_rebind_plan (empty_caches, []) =
    Some ((HK_REBIND_OK, sample_sites_plan v), store_symbol sample_chain_target [0x66] HK_SYMBOL_NAME_C (sample_sites_plan v) (empty_caches, []))"
  using sample_walk [OF assms] sample_verdict [of v]
  by (simp add: chains_hit_def sample_no_symbol sample_file_entry_def collect_start_def Let_def)

text \<open>The slot is rewritten after the first preparation; the second one is answered from the cache and sees the new value.\<close>

theorem symbol_cache_transparent_witness:
  "map_option fst (chains_hit plain_pac (sample_process 0x2222) sample_chain_target [0x66] HK_SYMBOL_NAME_C [[0x66], [0x5F, 0x66]]
     sample_file_entry zero_rebind_plan
     (store_symbol sample_chain_target [0x66] HK_SYMBOL_NAME_C (sample_sites_plan 0x1111) (empty_caches, []))) =
   Some (HK_REBIND_OK, sample_sites_plan 0x2222)"
proof -
  have "map_option fst (chains_hit plain_pac (sample_process 0x2222) sample_chain_target [0x66] HK_SYMBOL_NAME_C [[0x66], [0x5F, 0x66]]
      sample_file_entry zero_rebind_plan
      (store_symbol sample_chain_target [0x66] HK_SYMBOL_NAME_C (sample_sites_plan 0x1111) (empty_caches, []))) =
    map_option (\<lambda>w. (chain_verdict w, co_plan (snd w)))
      (walk_chains plain_pac (sample_process 0x2222) [[0x66], [0x5F, 0x66]] sample_chain_target (fe_source sample_file_entry) zero_rebind_plan)"
    by (rule symbol_cache_transparent [OF sample_first_prepare])
      (simp_all add: sample_no_symbol sample_file_entry_def sample_file_binds sample_import)
  also have "\<dots> = Some (HK_REBIND_OK, sample_sites_plan 0x2222)"
    using sample_walk [of "0x2222"] sample_verdict [of "0x2222"]
    by (simp add: sample_file_entry_def collect_start_def)
  finally show ?thesis .
qed

text \<open>A process that has the file in its cache prepares the image.\<close>

definition sample_warm :: rebind_caches where
  "sample_warm = empty_caches\<lparr>rc_files := Some sample_file_entry # replicate 3 None\<rparr>"

lemma sample_image_reads:
  "rd32 (sample_process v) 0x20000 0 = Some 0xFEEDFACF" "rd32 (sample_process v) 0x20000 4 = Some 0x0100000C"
  "rd32 (sample_process v) 0x20000 8 = Some 0" "rd32 (sample_process v) 0x20000 12 = Some 2"
  "rd32 (sample_process v) 0x20000 16 = Some 1" "rd32 (sample_process v) 0x20000 20 = Some 16"
  "rd32 (sample_process v) 0x20000 24 = Some 0"
  "rd32 (sample_process v) 0x20000 32 = Some 0x80000034" "rd32 (sample_process v) 0x20000 36 = Some 16"
  by (simp_all add: rd32_def rd8_def sample_process_def sample_image_bytes_def)

definition sample_loaded_header :: hk_macho_header where
  "sample_loaded_header = \<lparr>mh_magic = HK_MH_MAGIC_64, mh_cputype = 0x0100000C, mh_cpusubtype = 0, mh_filetype = 2, mh_ncmds = 1,
    mh_sizeofcmds = 16, mh_flags = 0\<rparr>"

lemma sample_peeked: "hk_macho_peek_header (sample_process v) 0x20000 HK_MACHO_HEADER_64_SIZE = Some (Inr sample_loaded_header)"
  by (simp add: hk_macho_peek_header_def sample_image_reads sample_loaded_header_def HK_MH_MAGIC_64_def macho_sizes)

lemma sample_command:
  "hk_macho_find_load_command (sample_process v) 0x20000 48 HK_LC_DYLD_CHAINED_FIXUPS = Some (Inr (32, 16))"
proof -
  have "hk_macho_read_header (sample_process v) 0x20000 48 = Some (Inr sample_loaded_header)"
    by (simp add: hk_macho_read_header_def hk_macho_peek_header_def on_ok_def sample_image_reads sample_loaded_header_def
        HK_MH_MAGIC_64_def macho_sizes)
  moreover have "room 48 32 = 16" by (simp add: room_def)
  ultimately show ?thesis
    by (simp add: hk_macho_find_load_command_def hk_macho_iterate_load_commands_def after_walk_def sample_image_reads
        sample_loaded_header_def find_lc_visit_def HK_LC_DYLD_CHAINED_FIXUPS_def macho_sizes)
qed

lemma sample_rebind_prepare:
  assumes "v \<noteq> 0"
  shows "map_option fst (hk_rebind_prepare_with_lookup plain_pac (sample_process v) None (\<lambda>_. None) sample_chain_target [0x66] HK_SYMBOL_NAME_C
    zero_rebind_plan (sample_warm, [], None, [])) =
    Some (HK_REBIND_OK, (sample_sites_plan v)\<lparr>rbp_original := v, rbp_originals_agree := True\<rparr>)"
proof -
  have hit: "chains_hit plain_pac (sample_process v) sample_chain_target [0x66] HK_SYMBOL_NAME_C [[0x66], [0x5F, 0x66]] sample_file_entry
      zero_rebind_plan (sample_warm, []) =
      Some ((HK_REBIND_OK, sample_sites_plan v), store_symbol sample_chain_target [0x66] HK_SYMBOL_NAME_C (sample_sites_plan v) (sample_warm, []))"
    using sample_walk [OF assms] sample_verdict [of v] sample_no_symbol
    by (simp add: chains_hit_def sample_file_entry_def collect_start_def Let_def sample_warm_def find_symbol_def)
  have "find_file sample_warm sample_chain_target sample_loaded_header = Some sample_file_entry"
    by (simp add: find_file_def sample_warm_def sample_chain_target_def sample_file_entry_def sample_loaded_header_def)
  then have chains: "prepare_file_chains plain_pac (sample_process v) (\<lambda>_. None) sample_chain_target [0x66] HK_SYMBOL_NAME_C
      [[0x66], [0x5F, 0x66]] sample_loaded_header zero_rebind_plan (sample_warm, []) =
      Some ((HK_REBIND_OK, sample_sites_plan v), store_symbol sample_chain_target [0x66] HK_SYMBOL_NAME_C (sample_sites_plan v) (sample_warm, []))"
    using hit by (simp add: prepare_file_chains_def) (simp add: sample_chain_target_def)
  have fields: "rt_image_base sample_chain_target = 0x20000" "rt_image_size sample_chain_target = 0x50" "rt_cache_base sample_chain_target = 0"
    by (simp_all add: sample_chain_target_def)
  obtain caches heap where left: "store_symbol sample_chain_target [0x66] HK_SYMBOL_NAME_C (sample_sites_plan v) (sample_warm, []) = (caches, heap)"
    by fastforce
  have "unat (mh_sizeofcmds sample_loaded_header) = 16" by (simp add: sample_loaded_header_def)
  moreover have "hk_symbol_build_candidates [0x66] HK_SYMBOL_NAME_C = Inr [[0x66], [0x5F, 0x66]]"
    by (simp add: hk_symbol_build_candidates_def HK_RESOLVE_MAX_NAME_def underscore_def)
  moreover have "finalize_plan (sample_sites_plan v) = (HK_REBIND_OK, (sample_sites_plan v)\<lparr>rbp_original := v, rbp_originals_agree := True\<rparr>)"
    by (simp add: finalize_plan_def sample_sites_plan_def sample_site_def)
  ultimately show ?thesis
    using sample_peeked [of v] sample_command [of v] chains [unfolded left]
    by (simp add: hk_rebind_prepare_with_lookup_def prepare_image_def fields live_cache_range_def HK_MACHO_HEADER_64_SIZE_def
        HK_LINKEDIT_DATA_CMD_SIZE_def)
qed

theorem rebind_prepare_sound_witness:
  "plan_sound plain_pac (sample_process 0x1111) ((sample_sites_plan 0x1111)\<lparr>rbp_original := 0x1111, rbp_originals_agree := True\<rparr>)"
proof -
  obtain st1 where "hk_rebind_prepare_with_lookup plain_pac (sample_process 0x1111) None (\<lambda>_. None) sample_chain_target [0x66] HK_SYMBOL_NAME_C
      zero_rebind_plan (sample_warm, [], None, []) =
      Some ((HK_REBIND_OK, (sample_sites_plan 0x1111)\<lparr>rbp_original := 0x1111, rbp_originals_agree := True\<rparr>), st1)"
    using sample_rebind_prepare [of "0x1111"] by (auto simp: map_option_eq_Some)
  from rebind_prepare_sound [OF this] show ?thesis by simp
qed

end
