(* ===== verification/HK_RebindVtable.thy ===== *)
theory HK_RebindVtable
  imports HK_RebindPrepare HK_RebindCommit HK_ImageScope HK_Engine
begin

text \<open>
  The adapter of the rebinding engine to the engine table (\<open>src/engines/HKRebindVtable.c\<close>). With an image in its
  context it handles that image; with a catalog alone it collects one plan per image the request's caller
  scope names, a bundle. A preparation reads the memory \<open>m\<close>; its state is what the engine and the patch table keep between
  preparations, with the allocator.
\<close>

section \<open>Contexts and bundles\<close>

record 's hk_rebind_engine_ctx =
  rx_image_base :: ptr
  rx_image_size :: nat
  rx_slide :: u64
  rx_image_path :: "byte list option"
  rx_write :: "'s hk_rebind_write_fn option"
  rx_catalog :: "hk_image_catalog option"

record 's rebind_bundle_entry =
  be_target :: "'s hk_rebind_target"
  be_plan :: hk_rebind_plan

text \<open>The count is the length of the list.\<close>

record 's rebind_bundle =
  bu_originals_agree :: bool
  bu_original :: u64
  bu_entries :: "'s rebind_bundle_entry list"

definition rebind_bundle_create :: "nat \<Rightarrow> heap \<Rightarrow> 's rebind_bundle option \<times> heap" where
  "rebind_bundle_create capacity heap =
     (let (ok, heap1) = hk_alloc heap
      in (if ok then Some \<lparr>bu_originals_agree = True, bu_original = 0, bu_entries = []\<rparr> else None, heap1))"

definition target_from :: "'s hk_rebind_engine_ctx \<Rightarrow> bool \<Rightarrow> 's hk_rebind_target" where
  "target_from ctx with_writer =
     \<lparr>rt_image_base = rx_image_base ctx, rt_image_size = rx_image_size ctx, rt_slide = rx_slide ctx,
      rt_image_path = rx_image_path ctx, rt_file_image = 0, rt_file_image_size = 0, rt_cache_base = 0, rt_cache_size = 0,
      rt_uuid_present = False, rt_uuid = replicate 16 0, rt_include_shared_cache_got = False,
      rt_write = (if with_writer then rx_write ctx else None)\<rparr>"

definition rebind_describe :: hk_engine_capabilities where
  "rebind_describe =
     \<lparr>cap_engine_id = Some ''fishhook'', cap_backend_group = Some ''HookKit'', cap_display_name = Some ''HookKit'',
      cap_target_kinds = HK_TARGET_KIND_BIT HK_TARGET_FUNCTION_SYMBOL, cap_exact_image_scope_targets = 0, cap_install_contexts = 0,
      cap_architectures = HK_ENGINE_ARCHITECTURE_ARM64 OR HK_ENGINE_ARCHITECTURE_ARM64E,
      cap_certified_architectures = HK_ENGINE_ARCHITECTURE_ARM64 OR HK_ENGINE_ARCHITECTURE_ARM64E,
      cap_minimum_ios_version = HK_ENGINE_IOS_VERSION 15 0 0, cap_achievable_reach = HK_REACH_EXISTING_IMPORTS,
      cap_original_requirements = HK_ORIGINAL_REQ_BIT HK_ORIGINAL_NONE OR HK_ORIGINAL_REQ_BIT HK_ORIGINAL_DIRECT_PREDECESSOR,
      cap_prepare_effects = 0, cap_commit_effects = HK_EFFECT_IMPORT_MUTATION, cap_native_grouping = False,
      cap_supports_compensation = False, cap_chainable_target_kinds = HK_TARGET_KIND_BIT HK_TARGET_FUNCTION_SYMBOL\<rparr>"

section \<open>Collecting the images\<close>

definition bundle_sites :: "'s rebind_bundle \<Rightarrow> hk_rebind_site list" where
  "bundle_sites bundle = concat (map (\<lambda>e. rbp_sites (be_plan e)) (bu_entries bundle))"

text \<open>The bundle, the failure that ended the collection, and the state, whose lookup is that of this preparation.\<close>

record 's rebind_gather =
  rg_bundle :: "'s rebind_bundle"
  rg_error :: hk_rebind_status
  rg_state :: rebind_state

definition entry_target :: "'s hk_rebind_engine_ctx \<Rightarrow> hk_symbol_target \<Rightarrow> hk_image_entry \<Rightarrow> nat \<Rightarrow> 's hk_rebind_target" where
  "entry_target ctx symbol entry image_size = (target_from ctx True)\<lparr>
     rt_image_base := ie_header entry, rt_image_size := image_size, rt_slide := ie_slide entry,
     rt_image_path := map_option str_bytes (ie_path entry), rt_uuid_present := ie_uuid_present entry, rt_uuid := ie_uuid entry,
     rt_include_shared_cache_got := (sel_kind (sym_caller_image_scope symbol) = HK_IMAGE_ANY_LOADED)\<rparr>"

text \<open>The loaded span of the image, or else its header and load commands.\<close>

definition entry_size :: "memory \<Rightarrow> hk_image_entry \<Rightarrow> nat \<Rightarrow> nat option" where
  "entry_size m entry command_size =
     map_option (\<lambda>span. case span of
         Inr (image_start, image_end) \<Rightarrow>
           if image_end > ie_header entry then unat (image_end - ie_header entry) else command_size
       | Inl _ \<Rightarrow> command_size)
       (hk_macho_image_span_for_loaded_image m (ie_header entry) command_size (ie_slide entry))"

text \<open>A slot that an earlier image reported is not kept again.\<close>

definition keep_new_sites :: "hk_rebind_site list \<Rightarrow> hk_rebind_site list \<Rightarrow> hk_rebind_site list" where
  "keep_new_sites seen sites = filter (\<lambda>site. rbs_address site \<notin> rbs_address ` set seen) sites"

definition add_entry :: "'s rebind_bundle \<Rightarrow> 's hk_rebind_target \<Rightarrow> hk_rebind_plan \<Rightarrow> 's rebind_bundle" where
  "add_entry bundle target plan =
     (let agree = (bu_originals_agree bundle \<and> rbp_originals_agree plan)
      in if bu_entries bundle = []
         then bundle\<lparr>bu_originals_agree := agree, bu_original := rbp_original plan, bu_entries := [\<lparr>be_target = target, be_plan = plan\<rparr>]\<rparr>
         else bundle\<lparr>bu_originals_agree := (agree \<and> bu_original bundle = rbp_original plan),
                     bu_entries := bu_entries bundle @ [\<lparr>be_target = target, be_plan = plan\<rparr>]\<rparr>)"

definition collect_image :: "hk_pac \<Rightarrow> memory \<Rightarrow> (ptr \<times> nat) option \<Rightarrow> (byte list \<Rightarrow> (ptr \<times> nat) option) \<Rightarrow>
    's hk_rebind_engine_ctx \<Rightarrow> hk_symbol_target \<Rightarrow> byte list \<Rightarrow> 's rebind_gather \<Rightarrow> hk_image_entry \<Rightarrow> ('s rebind_gather \<times> bool) option" where
  "collect_image pac m dyld_range files ctx symbol symbol_name g entry =
     (if ie_header entry = 0 then Some (g\<lparr>rg_error := HK_REBIND_MALFORMED_IMAGE\<rparr>, False)
      else do {
        peeked \<leftarrow> hk_macho_peek_header m (ie_header entry) HK_MACHO_HEADER_64_SIZE;
        (case peeked of
           Inl _ \<Rightarrow> Some (g\<lparr>rg_error := HK_REBIND_MALFORMED_IMAGE\<rparr>, False)
         | Inr header \<Rightarrow> do {
             image_size \<leftarrow> entry_size m entry (HK_MACHO_HEADER_64_SIZE + unat (mh_sizeofcmds header));
             let target = entry_target ctx symbol entry image_size;
             ((status, plan), st) \<leftarrow> hk_rebind_prepare_with_lookup pac m dyld_range files target symbol_name
               (sym_name_convention symbol) zero_rebind_plan (rg_state g);
             (let g1 = g\<lparr>rg_state := st\<rparr>; kept = keep_new_sites (bundle_sites (rg_bundle g)) (rbp_sites plan)
              in Some (
                if status = HK_REBIND_NOT_FOUND then (g1, True)
                else if status \<noteq> HK_REBIND_OK then (g1\<lparr>rg_error := status\<rparr>, False)
                else if kept = [] then (g1, True)
                else (g1\<lparr>rg_bundle := add_entry (rg_bundle g) target (plan\<lparr>rbp_sites := kept\<rparr>)\<rparr>, True)))
           })
      })"

text \<open>The visitor of the catalog; a fault ends the walk.\<close>

definition rebind_collect_image :: "hk_pac \<Rightarrow> memory \<Rightarrow> (ptr \<times> nat) option \<Rightarrow> (byte list \<Rightarrow> (ptr \<times> nat) option) \<Rightarrow>
    's hk_rebind_engine_ctx \<Rightarrow> hk_symbol_target \<Rightarrow> byte list \<Rightarrow> 's rebind_gather option \<Rightarrow> nat \<Rightarrow> hk_image_entry \<Rightarrow>
    bool \<times> 's rebind_gather option" where
  "rebind_collect_image pac m dyld_range files ctx symbol symbol_name gs index entry =
     (case Option.bind gs (\<lambda>g. collect_image pac m dyld_range files ctx symbol symbol_name g entry) of
        None \<Rightarrow> (False, None)
      | Some (g, go_on) \<Rightarrow> (go_on, Some g))"

section \<open>Prepare\<close>

definition HK_REBIND_DIAG_IMAGE_SCOPE_BASE :: int where "HK_REBIND_DIAG_IMAGE_SCOPE_BASE = 100"

fun image_scope_status_num :: "hk_image_scope_status \<Rightarrow> nat" where
  "image_scope_status_num HK_IMAGE_SCOPE_OK = 0"
| "image_scope_status_num HK_IMAGE_SCOPE_NO_CATALOG = 1"
| "image_scope_status_num HK_IMAGE_SCOPE_NO_MATCH = 2"
| "image_scope_status_num HK_IMAGE_SCOPE_UUID_MISMATCH = 3"
| "image_scope_status_num HK_IMAGE_SCOPE_ADDRESS_OUTSIDE = 4"
| "image_scope_status_num HK_IMAGE_SCOPE_UNREADABLE_IMAGE = 5"

fun rebind_status_num :: "hk_rebind_status \<Rightarrow> nat" where
  "rebind_status_num HK_REBIND_OK = 0"
| "rebind_status_num HK_REBIND_NOT_FOUND = 1"
| "rebind_status_num HK_REBIND_INVALID_ARGUMENT = 2"
| "rebind_status_num HK_REBIND_MALFORMED_IMAGE = 3"
| "rebind_status_num HK_REBIND_TOO_MANY_SITES = 4"
| "rebind_status_num HK_REBIND_METADATA_UNAVAILABLE = 5"
| "rebind_status_num HK_REBIND_PAC_MISMATCH = 6"
| "rebind_status_num HK_REBIND_UNSUPPORTED_FORMAT = 7"
| "rebind_status_num HK_REBIND_SCOPE_UNREPRESENTABLE = 8"

fun rebind_message :: "hk_rebind_status \<Rightarrow> string" where
  "rebind_message HK_REBIND_NOT_FOUND = ''the image imports no such symbol''"
| "rebind_message HK_REBIND_MALFORMED_IMAGE = ''the image's import metadata is structurally invalid''"
| "rebind_message HK_REBIND_TOO_MANY_SITES = ''more import slots for this symbol than the engine can record''"
| "rebind_message HK_REBIND_METADATA_UNAVAILABLE = ''authoritative on-disk import metadata is unavailable''"
| "rebind_message HK_REBIND_PAC_MISMATCH = ''an authenticated import slot does not match its declared PAC schema''"
| "rebind_message HK_REBIND_UNSUPPORTED_FORMAT = ''the image uses an unsupported chained-fixup or cache-patch format''"
| "rebind_message HK_REBIND_SCOPE_UNREPRESENTABLE = ''shared-cache GOT uses cannot represent the requested caller scope''"
| "rebind_message _ = ''invalid rebind target''"

definition rebind_classify :: "hk_rebind_status \<Rightarrow> hk_prepare_diag \<Rightarrow> hk_prepare_result \<times> hk_prepare_diag" where
  "rebind_classify st diag =
     (if st = HK_REBIND_OK then (HK_PREPARE_OK, diag)
      else (HK_PREPARE_FAILED, diag\<lparr>pd_error_code := int (rebind_status_num st), pd_error_message := Some (rebind_message st)\<rparr>))"

text \<open>What is handed back to the core: a bundle when the context has no image, or else one plan. The state is what the
  engine and the patch table keep, with the allocator.\<close>

datatype 's rebind_prepared = Prepared_Bundle "'s rebind_bundle" | Prepared_Plan hk_rebind_plan

type_synonym rebind_kept = "rebind_caches \<times> index_slots \<times> heap"
type_synonym 's rebind_prepare_reply = "(hk_prepare_result \<times> 's rebind_prepared option \<times> hk_prepare_diag) \<times> rebind_kept"

definition prepare_failed :: "hk_prepare_diag \<Rightarrow> string \<Rightarrow> rebind_kept \<Rightarrow> 's rebind_prepare_reply" where
  "prepare_failed diag message kept = ((HK_PREPARE_FAILED, None, diag\<lparr>pd_error_message := Some message\<rparr>), kept)"

definition prepare_refused :: "hk_rebind_status \<Rightarrow> hk_prepare_diag \<Rightarrow> rebind_kept \<Rightarrow> 's rebind_prepare_reply" where
  "prepare_refused st diag kept = (let (result, diag1) = rebind_classify st diag in ((result, None, diag1), kept))"

definition no_original :: "hk_hook_spec \<Rightarrow> bool \<Rightarrow> u64 \<Rightarrow> bool" where
  "no_original spec agree original \<longleftrightarrow> hs_original_requirement spec \<noteq> HK_ORIGINAL_NONE \<and> (\<not> agree \<or> original = 0)"

text \<open>A symbol without a name makes no lookup, and every image that could be read refuses it.\<close>

definition collect_unnamed :: "memory \<Rightarrow> 's rebind_gather option \<Rightarrow> nat \<Rightarrow> hk_image_entry \<Rightarrow> bool \<times> 's rebind_gather option" where
  "collect_unnamed m gs index entry =
     (case Option.bind gs (\<lambda>g.
        if ie_header entry = 0 then Some (g\<lparr>rg_error := HK_REBIND_MALFORMED_IMAGE\<rparr>)
        else do {
          peeked \<leftarrow> hk_macho_peek_header m (ie_header entry) HK_MACHO_HEADER_64_SIZE;
          (case peeked of
             Inl _ \<Rightarrow> Some (g\<lparr>rg_error := HK_REBIND_MALFORMED_IMAGE\<rparr>)
           | Inr header \<Rightarrow>
               map_option (\<lambda>_. g\<lparr>rg_error := HK_REBIND_INVALID_ARGUMENT\<rparr>)
                 (entry_size m entry (HK_MACHO_HEADER_64_SIZE + unat (mh_sizeofcmds header))))
        }) of
      None \<Rightarrow> (False, None) | Some g \<Rightarrow> (False, Some g))"

text \<open>What the collection gives; its lookup goes away with it.\<close>

definition catalog_verdict :: "hk_hook_spec \<Rightarrow> hk_prepare_diag \<Rightarrow> 's rebind_gather \<Rightarrow> 's rebind_prepare_reply" where
  "catalog_verdict spec diag g =
     (let (caches, slots, _, heap) = rg_state g; kept = (caches, slots, heap)
      in if rg_error g \<noteq> HK_REBIND_OK then prepare_refused (rg_error g) diag kept
         else if bu_entries (rg_bundle g) = [] then prepare_refused HK_REBIND_NOT_FOUND diag kept
         else if no_original spec (bu_originals_agree (rg_bundle g)) (bu_original (rg_bundle g))
         then prepare_failed diag ''rebind sites have no single original'' kept
         else ((HK_PREPARE_OK, Some (Prepared_Bundle (rg_bundle g)), diag), kept))"

definition rebind_prepare_catalog :: "hk_pac \<Rightarrow> memory \<Rightarrow> (ptr \<times> nat) option \<Rightarrow> (byte list \<Rightarrow> (ptr \<times> nat) option) \<Rightarrow>
    's hk_rebind_engine_ctx \<Rightarrow> hk_hook_spec \<Rightarrow> hk_symbol_target \<Rightarrow> hk_prepare_diag \<Rightarrow> rebind_kept \<Rightarrow> 's rebind_prepare_reply option" where
  "rebind_prepare_catalog pac m dyld_range files ctx spec symbol diag kept =
     (let (caches, slots, heap) = kept;
          (made, heap1) = rebind_bundle_create (hk_image_catalog_count (rx_catalog ctx)) heap
      in case made of
        None \<Rightarrow> Some (prepare_failed diag ''out of memory'' (caches, slots, heap1))
      | Some bundle \<Rightarrow>
          let (object, heap2) = (case sym_name symbol of
                None \<Rightarrow> (None, heap1)
              | Some name \<Rightarrow> hk_cache_patch_lookup_create (str_bytes name) (sym_name_convention symbol) heap1);
              visit = (case sym_name symbol of
                None \<Rightarrow> collect_unnamed m
              | Some name \<Rightarrow> rebind_collect_image pac m dyld_range files ctx symbol (str_bytes name));
              (_, gs) = hk_image_catalog_match (rx_catalog ctx) (sym_caller_image_scope symbol) visit
                (Some \<lparr>rg_bundle = bundle, rg_error = HK_REBIND_OK, rg_state = (caches, slots, object, heap2)\<rparr>)
          in map_option (catalog_verdict spec diag) gs)"

definition rebind_prepare_image :: "hk_pac \<Rightarrow> memory \<Rightarrow> (ptr \<times> nat) option \<Rightarrow> (byte list \<Rightarrow> (ptr \<times> nat) option) \<Rightarrow>
    's hk_rebind_engine_ctx \<Rightarrow> hk_hook_spec \<Rightarrow> hk_symbol_target \<Rightarrow> hk_prepare_diag \<Rightarrow> rebind_kept \<Rightarrow> 's rebind_prepare_reply option" where
  "rebind_prepare_image pac m dyld_range files ctx spec symbol diag kept =
     (let scope = hk_image_scope_check_header (rx_catalog ctx) (Some (sym_caller_image_scope symbol)) False None (rx_image_base ctx);
          (caches, slots, heap) = kept
      in if scope \<noteq> HK_IMAGE_SCOPE_OK \<and> scope \<noteq> HK_IMAGE_SCOPE_NO_CATALOG
         then Some (prepare_failed (diag\<lparr>pd_error_code := HK_REBIND_DIAG_IMAGE_SCOPE_BASE + int (image_scope_status_num scope)\<rparr>)
           (hk_image_scope_describe scope) kept)
         else let (ok, heap1) = hk_alloc heap
           in if \<not> ok then Some (prepare_failed diag ''out of memory'' (caches, slots, heap1))
              else let target = (target_from ctx False)\<lparr>rt_include_shared_cache_got :=
                     (sel_kind (sym_caller_image_scope symbol) = HK_IMAGE_ANY_LOADED)\<rparr>
                in case sym_name symbol of
                     None \<Rightarrow> Some (prepare_refused HK_REBIND_INVALID_ARGUMENT diag (caches, slots, heap1))
                   | Some name \<Rightarrow>
                       map_option (\<lambda>((status, plan), kept1).
                           if status \<noteq> HK_REBIND_OK then prepare_refused status diag kept1
                           else if no_original spec (rbp_originals_agree plan) (rbp_original plan)
                           then prepare_failed diag ''rebind sites have no single original'' kept1
                           else ((HK_PREPARE_OK, Some (Prepared_Plan plan), diag), kept1))
                         (hk_rebind_prepare pac m dyld_range files target (str_bytes name) (sym_name_convention symbol)
                            zero_rebind_plan (caches, slots, heap1)))"

definition rebind_prepare_one_ctx_status :: "hk_pac \<Rightarrow> memory \<Rightarrow> (ptr \<times> nat) option \<Rightarrow> (byte list \<Rightarrow> (ptr \<times> nat) option) \<Rightarrow>
    's hk_rebind_engine_ctx option \<Rightarrow> hk_hook_spec \<Rightarrow> hk_prepare_diag \<Rightarrow> rebind_kept \<Rightarrow> 's rebind_prepare_reply option" where
  "rebind_prepare_one_ctx_status pac m dyld_range files engine_ctx spec diag kept =
     (case (engine_ctx, hs_target spec) of
        (Some ctx, Target_Symbol symbol) \<Rightarrow>
          if rx_image_base ctx = 0 \<and> rx_catalog ctx \<noteq> None
          then rebind_prepare_catalog pac m dyld_range files ctx spec symbol diag kept
          else rebind_prepare_image pac m dyld_range files ctx spec symbol diag kept
      | _ \<Rightarrow> Some (prepare_failed diag ''rebind engine invoked without an image or with a non-symbol target'' kept))"

section \<open>Commit and verification\<close>

primrec commit_entries :: "hk_pac \<Rightarrow> u64 \<Rightarrow> 's hk_vm_scheme rebind_bundle_entry list \<Rightarrow> nat \<Rightarrow> hk_artifact_sink option \<Rightarrow> 's hk_vm_scheme \<Rightarrow>
    (hk_mutation_state \<times> hk_artifact_sink option \<times> 's hk_vm_scheme) option" where
  "commit_entries pac replacement [] total_written sink s = Some (HK_MUTATION_COMPLETE, sink, s)"
| "commit_entries pac replacement (e # es) total_written sink s = do {
     ((state, written), sink1, s1) \<leftarrow> hk_rebind_commit pac (be_target e) (be_plan e) replacement sink s;
     (if state \<noteq> HK_MUTATION_COMPLETE
      then Some (if state = HK_MUTATION_UNKNOWN then HK_MUTATION_UNKNOWN
             else if state = HK_MUTATION_PARTIAL \<or> total_written + written \<noteq> 0 then HK_MUTATION_PARTIAL else HK_MUTATION_NONE, sink1, s1)
      else commit_entries pac replacement es (total_written + written) sink1 s1)
   }"

definition publish_agreed :: "bool \<Rightarrow> u64 \<Rightarrow> hk_artifact_sink option \<Rightarrow> hk_artifact_sink option" where
  "publish_agreed agree original sink = (if agree then map_option (\<lambda>k. k\<lparr>sk_published_original := original\<rparr>) sink else sink)"

text \<open>What was prepared for the other kind of context is not what the code reads: a fault.\<close>

definition rebind_commit_one_ctx :: "hk_pac \<Rightarrow> 's hk_vm_scheme hk_rebind_engine_ctx \<Rightarrow> hk_hook_spec \<Rightarrow> 's hk_vm_scheme rebind_prepared option \<Rightarrow>
    hk_artifact_sink option \<Rightarrow> 's hk_vm_scheme \<Rightarrow> (hk_mutation_state \<times> hk_artifact_sink option \<times> 's hk_vm_scheme) option" where
  "rebind_commit_one_ctx pac ctx spec prepared sink s =
     (case prepared of
        None \<Rightarrow> Some (HK_MUTATION_NONE, sink, s)
      | Some (Prepared_Bundle bundle) \<Rightarrow>
          if \<not> (rx_image_base ctx = 0 \<and> rx_catalog ctx \<noteq> None) then None
          else map_option (\<lambda>(state, sink1, s1).
              (state, if state = HK_MUTATION_COMPLETE then publish_agreed (bu_originals_agree bundle) (bu_original bundle) sink1 else sink1, s1))
            (commit_entries pac (hs_replacement spec) (bu_entries bundle) 0 sink s)
      | Some (Prepared_Plan plan) \<Rightarrow>
          if rx_image_base ctx = 0 \<and> rx_catalog ctx \<noteq> None then None
          else map_option (\<lambda>((state, _), sink1, s1).
              (state, if state = HK_MUTATION_COMPLETE \<and> rbp_sites plan \<noteq> []
                 then publish_agreed (rbp_originals_agree plan) (rbp_original plan) sink1 else sink1, s1))
            (hk_rebind_commit pac (target_from ctx True) plan (hs_replacement spec) sink s))"

text \<open>The value a slot has to hold is computed again.\<close>

primrec verify_sites :: "hk_pac \<Rightarrow> memory \<Rightarrow> u64 \<Rightarrow> hk_rebind_site list \<Rightarrow> bool option" where
  "verify_sites pac m replacement [] = Some True"
| "verify_sites pac m replacement (site # sites) =
     (case hk_rebind_replacement_for_site pac site replacement of
        None \<Rightarrow> Some False
      | Some expected \<Rightarrow> do {
          current \<leftarrow> hk_rebind_read_slot m (rbs_address site);
          (if current \<noteq> expected then Some False else verify_sites pac m replacement sites)
        })"

definition verify_verdict :: "bool \<Rightarrow> hk_verify_diag \<Rightarrow> hk_verify_result \<times> hk_verify_diag" where
  "verify_verdict ok diag =
     (if ok then (HK_VERIFY_OK, diag)
      else (HK_VERIFY_FAILED, diag\<lparr>vd_error_message := Some ''rebind slot readback does not match the replacement''\<rparr>))"

definition rebind_verify_one_ctx :: "hk_pac \<Rightarrow> memory \<Rightarrow> 's hk_rebind_engine_ctx option \<Rightarrow> hk_hook_spec \<Rightarrow> 's rebind_prepared option \<Rightarrow>
    hk_verify_diag \<Rightarrow> (hk_verify_result \<times> hk_verify_diag) option" where
  "rebind_verify_one_ctx pac m engine_ctx spec prepared diag =
     (case (engine_ctx, prepared) of
        (Some ctx, Some p) \<Rightarrow>
          if target_kind (hs_target spec) \<noteq> HK_TARGET_FUNCTION_SYMBOL
          then Some (HK_VERIFY_FAILED, diag\<lparr>vd_error_message := Some ''rebind verification received an invalid prepared plan''\<rparr>)
          else (case p of
             Prepared_Bundle bundle \<Rightarrow>
               if \<not> (rx_image_base ctx = 0 \<and> rx_catalog ctx \<noteq> None) then None
               else map_option (\<lambda>ok. verify_verdict ok diag) (verify_sites pac m (hs_replacement spec) (bundle_sites bundle))
           | Prepared_Plan plan \<Rightarrow>
               if rx_image_base ctx = 0 \<and> rx_catalog ctx \<noteq> None then None
               else map_option (\<lambda>ok. verify_verdict ok diag) (verify_sites pac m (hs_replacement spec) (rbp_sites plan)))
      | _ \<Rightarrow> Some (HK_VERIFY_FAILED, diag\<lparr>vd_error_message := Some ''rebind verification received an invalid prepared plan''\<rparr>))"

end
