(* ===== verification/HK_RebindHook.thy ===== *)
theory HK_RebindHook
  imports HK_RebindVtable HK_Rebind_Props
begin

text \<open>
  A hook that rebinds imports, from its preparation to its verification: what a prepared bundle or plan says, and
  that a complete commit leaves every slot with the value the verification expects.
\<close>

section \<open>What is prepared\<close>

text \<open>The slots of a bundle are different and as memory has them, and the original it announces is theirs.\<close>

definition entry_named :: "'s hk_rebind_engine_ctx \<Rightarrow> hk_symbol_target \<Rightarrow> 's rebind_bundle_entry \<Rightarrow> bool" where
  "entry_named ctx symbol e \<longleftrightarrow> (\<exists>catalog entry image_size. rx_catalog ctx = Some catalog \<and> entry \<in> set (ic_entries catalog) \<and>
     entry_matches_selector entry (sym_caller_image_scope symbol) \<and> be_target e = entry_target ctx symbol entry image_size)"

definition bundle_sound :: "hk_pac \<Rightarrow> memory \<Rightarrow> 's rebind_bundle \<Rightarrow> bool" where
  "bundle_sound pac m bundle \<longleftrightarrow> distinct (map rbs_address (bundle_sites bundle)) \<and>
     (\<forall>e \<in> set (bu_entries bundle). rbp_sites (be_plan e) \<noteq> [] \<and> plan_sound pac m (be_plan e)) \<and>
     (bu_originals_agree bundle \<longrightarrow> (\<forall>site \<in> set (bundle_sites bundle). rbs_callable_original site = bu_original bundle))"

lemma bundle_sites_simps:
  "bundle_sites (b\<lparr>bu_originals_agree := a, bu_original := v, bu_entries := es\<rparr>) = concat (map (\<lambda>e. rbp_sites (be_plan e)) es)"
  by (simp add: bundle_sites_def)

lemma add_entry_entries: "bu_entries (add_entry b target plan) = bu_entries b @ [\<lparr>be_target = target, be_plan = plan\<rparr>]"
  by (simp add: add_entry_def Let_def)

lemma add_entry_sites: "bundle_sites (add_entry b target plan) = bundle_sites b @ rbp_sites plan"
  by (simp add: bundle_sites_def add_entry_entries)

lemma add_entry_original:
  "bu_originals_agree (add_entry b target plan) \<Longrightarrow> bu_originals_agree b \<and> rbp_originals_agree plan \<and>
     bu_original (add_entry b target plan) = rbp_original plan \<and> (bu_entries b \<noteq> [] \<longrightarrow> bu_original b = rbp_original plan)"
  by (auto simp: add_entry_def Let_def split: if_splits)

lemma keep_new:
  assumes "distinct (map rbs_address sites)"
  shows "distinct (map rbs_address (keep_new_sites seen sites))" "set (keep_new_sites seen sites) \<subseteq> set sites"
    "rbs_address ` set seen \<inter> rbs_address ` set (keep_new_sites seen sites) = {}"
proof -
  show "distinct (map rbs_address (keep_new_sites seen sites))" unfolding keep_new_sites_def by (rule distinct_map_filter [OF assms])
  show "set (keep_new_sites seen sites) \<subseteq> set sites" by (auto simp: keep_new_sites_def)
  show "rbs_address ` set seen \<inter> rbs_address ` set (keep_new_sites seen sites) = {}"
  proof (rule Int_emptyI)
    fix a assume a: "a \<in> rbs_address ` set seen" "a \<in> rbs_address ` set (keep_new_sites seen sites)"
    then obtain site where "a = rbs_address site" "rbs_address site \<notin> rbs_address ` set seen"
      by (elim imageE) (simp add: keep_new_sites_def)
    then show False using a(1) by simp
  qed
qed

lemma kept_plan_sound:
  assumes "plan_sound pac m plan"
  shows "plan_sound pac m (plan\<lparr>rbp_sites := keep_new_sites seen (rbp_sites plan)\<rparr>)"
proof -
  have "length (keep_new_sites seen (rbp_sites plan)) \<le> length (rbp_sites plan)" by (simp add: keep_new_sites_def)
  then show ?thesis using assms keep_new [of "rbp_sites plan" seen] by (auto simp: plan_sound_def)
qed

lemma add_entry_sound:
  assumes "bundle_sound pac m b" "plan_sound pac m plan" "originals_said plan"
    "kept = keep_new_sites (bundle_sites b) (rbp_sites plan)" "kept \<noteq> []"
  shows "bundle_sound pac m (add_entry b target (plan\<lparr>rbp_sites := kept\<rparr>))"
  unfolding bundle_sound_def
proof (intro conjI)
  have d: "distinct (map rbs_address (rbp_sites plan))" using assms(2) by (simp add: plan_sound_def)
  note kept = keep_new [OF d, of "bundle_sites b", folded assms(4)]
  show "distinct (map rbs_address (bundle_sites (add_entry b target (plan\<lparr>rbp_sites := kept\<rparr>))))"
    using assms(1) kept by (simp add: add_entry_sites bundle_sound_def)
  show "\<forall>e \<in> set (bu_entries (add_entry b target (plan\<lparr>rbp_sites := kept\<rparr>))). rbp_sites (be_plan e) \<noteq> [] \<and> plan_sound pac m (be_plan e)"
    using assms(1,4,5) kept_plan_sound [OF assms(2)] by (auto simp: add_entry_entries bundle_sound_def)
  show "bu_originals_agree (add_entry b target (plan\<lparr>rbp_sites := kept\<rparr>)) \<longrightarrow>
      (\<forall>site \<in> set (bundle_sites (add_entry b target (plan\<lparr>rbp_sites := kept\<rparr>))).
        rbs_callable_original site = bu_original (add_entry b target (plan\<lparr>rbp_sites := kept\<rparr>)))"
  proof (intro impI ballI)
    fix site assume agree: "bu_originals_agree (add_entry b target (plan\<lparr>rbp_sites := kept\<rparr>))"
      and site: "site \<in> set (bundle_sites (add_entry b target (plan\<lparr>rbp_sites := kept\<rparr>)))"
    have o: "bu_originals_agree b \<and> rbp_originals_agree plan \<and>
        bu_original (add_entry b target (plan\<lparr>rbp_sites := kept\<rparr>)) = rbp_original plan \<and> (bu_entries b \<noteq> [] \<longrightarrow> bu_original b = rbp_original plan)"
      using add_entry_original [OF agree] by simp
    have "site \<in> set (bundle_sites b) \<or> site \<in> set kept" using site by (simp add: add_entry_sites)
    then show "rbs_callable_original site = bu_original (add_entry b target (plan\<lparr>rbp_sites := kept\<rparr>))"
    proof
      assume old: "site \<in> set (bundle_sites b)"
      then have "bu_entries b \<noteq> []" by (auto simp: bundle_sites_def)
      moreover have "rbs_callable_original site = bu_original b" using assms(1) conjunct1 [OF o] old unfolding bundle_sound_def by blast
      ultimately show ?thesis using o by simp
    next
      assume "site \<in> set kept"
      then have "site \<in> set (rbp_sites plan)" using kept(2) by blast
      then have "rbs_callable_original site = rbp_original plan" using assms(3) conjunct1 [OF conjunct2 [OF o]] unfolding originals_said_def by blast
      then show ?thesis using conjunct1 [OF conjunct2 [OF conjunct2 [OF o]]] by (rule trans [OF _ sym])
    qed
  qed
qed

section \<open>The walk over the catalog\<close>

definition gather_ok :: "hk_pac \<Rightarrow> memory \<Rightarrow> 's hk_rebind_engine_ctx \<Rightarrow> hk_symbol_target \<Rightarrow> 's rebind_gather \<Rightarrow> bool" where
  "gather_ok pac m ctx symbol g \<longleftrightarrow> bundle_sound pac m (rg_bundle g) \<and> (\<forall>e \<in> set (bu_entries (rg_bundle g)). entry_named ctx symbol e)"

lemma collect_image_ok:
  fixes ctx :: "'s hk_rebind_engine_ctx"
  assumes "collect_image pac m dyld_range files ctx symbol symbol_name g entry = Some (g1, go_on)" "gather_ok pac m ctx symbol g"
    "rx_catalog ctx = Some catalog" "entry \<in> set (ic_entries catalog)" "entry_matches_selector entry (sym_caller_image_scope symbol)"
  shows "gather_ok pac m ctx symbol g1"
proof -
  consider "rg_bundle g1 = rg_bundle g"
    | image_size plan st kept where "hk_rebind_prepare_with_lookup pac m dyld_range files (entry_target ctx symbol entry image_size) symbol_name
        (sym_name_convention symbol) zero_rebind_plan (rg_state g) = Some ((HK_REBIND_OK, plan), st)"
      "kept = keep_new_sites (bundle_sites (rg_bundle g)) (rbp_sites plan)" "kept \<noteq> []"
      "rg_bundle g1 = add_entry (rg_bundle g) (entry_target ctx symbol entry image_size) (plan\<lparr>rbp_sites := kept\<rparr>)"
    using assms(1) by (auto simp: collect_image_def Let_def split: if_splits bind_splits sum.splits)
  then show ?thesis
  proof cases
    case 1
    then show ?thesis using assms(2) by (simp add: gather_ok_def)
  next
    case 2
    have "entry_named ctx symbol \<lparr>be_target = entry_target ctx symbol entry image_size, be_plan = p\<rparr>" for p
      using assms(3-5) by (auto simp: entry_named_def)
    then show ?thesis
      using assms(2) add_entry_sound [OF _ conjunct1 [OF prepared_sound [OF 2(1)]] conjunct2 [OF prepared_sound [OF 2(1)]] 2(2,3)]
      by (simp add: gather_ok_def 2(4) add_entry_entries)
  qed
qed

lemma visit_list_keeps:
  assumes "\<And>i e ctx b ctx1. (i, e) \<in> set xs \<Longrightarrow> P ctx \<Longrightarrow> visit ctx i e = (b, ctx1) \<Longrightarrow> P ctx1" "P ctx"
  shows "P (snd (visit_list visit xs ctx))"
  using assms
proof (induction xs arbitrary: ctx)
  case (Cons x xs)
  obtain i e where x: "x = (i, e)" by (cases x)
  obtain b ctx1 where v: "visit ctx i e = (b, ctx1)" by fastforce
  have P: "P ctx1" by (rule Cons.prems(1) [OF _ Cons.prems(2) v]) (simp add: x)
  have "P (snd (visit_list visit xs ctx1))" by (rule Cons.IH [OF _ P]) (rule Cons.prems(1), simp_all)
  then show ?case using P by (cases b; cases "visit_list visit xs ctx1") (simp_all add: x v)
qed simp

lemma catalog_match_keeps:
  assumes "\<And>i e ctx b ctx1. e \<in> set (ic_entries cat) \<Longrightarrow> entry_matches_selector e sel \<Longrightarrow> P ctx \<Longrightarrow> visit ctx i e = (b, ctx1) \<Longrightarrow> P ctx1" "P ctx"
  shows "P (snd (hk_image_catalog_match (Some cat) sel visit ctx))"
proof -
  have "e \<in> set (ic_entries cat) \<and> entry_matches_selector e sel" if "(i, e) \<in> set (selected sel 0 (ic_entries cat))" for i e
    using that by (auto simp: selected_def set_zip)
  then have "P (snd (visit_list visit (selected sel 0 (ic_entries cat)) ctx))"
    using assms by (intro visit_list_keeps [where P = P]) blast+
  then show ?thesis by (simp add: hk_image_catalog_match_def match_from_visit_list)
qed

section \<open>What a successful preparation hands back\<close>

definition prepared_ok :: "hk_pac \<Rightarrow> memory \<Rightarrow> 's hk_rebind_engine_ctx \<Rightarrow> hk_hook_spec \<Rightarrow> 's rebind_prepared \<Rightarrow> bool" where
  "prepared_ok pac m ctx spec prepared =
     (case prepared of
        Prepared_Bundle bundle \<Rightarrow> rx_image_base ctx = 0 \<and> rx_catalog ctx \<noteq> None \<and> bundle_sound pac m bundle \<and> bu_entries bundle \<noteq> [] \<and>
          (\<exists>symbol. hs_target spec = Target_Symbol symbol \<and> (\<forall>e \<in> set (bu_entries bundle). entry_named ctx symbol e)) \<and>
          (hs_original_requirement spec \<noteq> HK_ORIGINAL_NONE \<longrightarrow> bu_originals_agree bundle \<and> bu_original bundle \<noteq> 0)
      | Prepared_Plan plan \<Rightarrow> \<not> (rx_image_base ctx = 0 \<and> rx_catalog ctx \<noteq> None) \<and> plan_sound pac m plan \<and> originals_said plan \<and>
          target_kind (hs_target spec) = HK_TARGET_FUNCTION_SYMBOL \<and>
          (hs_original_requirement spec \<noteq> HK_ORIGINAL_NONE \<longrightarrow> rbp_originals_agree plan \<and> rbp_original plan \<noteq> 0))"

lemma empty_gather_ok: "gather_ok pac m ctx symbol \<lparr>rg_bundle = \<lparr>bu_originals_agree = True, bu_original = 0, bu_entries = []\<rparr>, rg_error = e, rg_state = st\<rparr>"
  by (simp add: gather_ok_def bundle_sound_def bundle_sites_def)

lemma collect_visits_ok:
  fixes ctx :: "'s hk_rebind_engine_ctx"
  assumes "rx_catalog ctx = Some catalog" "gather_ok pac m ctx symbol g0"
    "visit = collect_unnamed m \<or> visit = rebind_collect_image pac m dyld_range files ctx symbol symbol_name"
    "snd (hk_image_catalog_match (Some catalog) (sym_caller_image_scope symbol) visit (Some g0)) = Some g"
  shows "gather_ok pac m ctx symbol g"
proof -
  let ?P = "\<lambda>gs. \<forall>g. gs = Some g \<longrightarrow> gather_ok pac m ctx symbol g"
  have "?P (snd (hk_image_catalog_match (Some catalog) (sym_caller_image_scope symbol) visit (Some g0)))"
  proof (rule catalog_match_keeps [where P = ?P])
    fix i e gs b gs1
    assume e: "e \<in> set (ic_entries catalog)" "entry_matches_selector e (sym_caller_image_scope symbol)" "?P gs" "visit gs i e = (b, gs1)"
    show "?P gs1"
    proof (cases "visit = collect_unnamed m")
      case True
      then show ?thesis using e(3,4)
        by (auto simp: collect_unnamed_def gather_ok_def split: option.splits if_splits bind_splits sum.splits)
    next
      case False
      then have v: "visit = rebind_collect_image pac m dyld_range files ctx symbol symbol_name" using assms(3) by simp
      show ?thesis using e(3,4) collect_image_ok [OF _ _ assms(1) e(1,2)]
        by (auto simp: v rebind_collect_image_def split: option.splits bind_splits)
    qed
  qed (use assms(2) in simp)
  then show ?thesis using assms(4) by simp
qed

lemma refused_reply: "prepare_refused st diag kept \<noteq> ((HK_PREPARE_OK, prepared, diag1), kept1)" if "st \<noteq> HK_REBIND_OK"
  using that by (simp add: prepare_refused_def rebind_classify_def)

lemma failed_reply: "prepare_failed diag message kept \<noteq> ((HK_PREPARE_OK, prepared, diag1), kept1)"
  by (simp add: prepare_failed_def)

lemma catalog_verdict_ok:
  assumes "catalog_verdict spec diag g = ((HK_PREPARE_OK, prepared, diag1), kept1)"
  shows "bu_entries (rg_bundle g) \<noteq> [] \<and> \<not> no_original spec (bu_originals_agree (rg_bundle g)) (bu_original (rg_bundle g)) \<and>
    prepared = Some (Prepared_Bundle (rg_bundle g))"
proof -
  obtain caches slots object heap where "rg_state g = (caches, slots, object, heap)" by (cases "rg_state g")
  then show ?thesis using assms by (auto simp: catalog_verdict_def Let_def refused_reply failed_reply split: if_splits)
qed

lemma prepared_reply:
  fixes ctx :: "'s hk_rebind_engine_ctx"
  assumes "rebind_prepare_one_ctx_status pac m dyld_range files (Some ctx) spec diag kept = Some ((HK_PREPARE_OK, prepared, diag1), kept1)"
  shows "\<exists>p. prepared = Some p \<and> prepared_ok pac m ctx spec p"
proof -
  obtain symbol where symbol: "hs_target spec = Target_Symbol symbol"
    using assms by (cases "hs_target spec") (simp_all add: rebind_prepare_one_ctx_status_def prepare_failed_def)
  show ?thesis
  proof (cases "rx_image_base ctx = 0 \<and> rx_catalog ctx \<noteq> None")
    case True
    then obtain catalog where catalog: "rx_catalog ctx = Some catalog" by auto
    let ?start = "\<lambda>st. \<lparr>rg_bundle = \<lparr>bu_originals_agree = True, bu_original = 0, bu_entries = []\<rparr>, rg_error = HK_REBIND_OK, rg_state = st\<rparr>"
    obtain caches slots heap where kept: "kept = (caches, slots, heap)" by (cases kept)
    obtain made :: "'s rebind_bundle option" and heap1 where made: "rebind_bundle_create (hk_image_catalog_count (rx_catalog ctx)) heap = (made, heap1)"
      by fastforce
    obtain object heap2 where object: "(case sym_name symbol of None \<Rightarrow> (None, heap1)
        | Some name \<Rightarrow> hk_cache_patch_lookup_create (str_bytes name) (sym_name_convention symbol) heap1) = (object, heap2)" by fastforce
    define visit where "visit = (case sym_name symbol of None \<Rightarrow> collect_unnamed m
        | Some name \<Rightarrow> rebind_collect_image pac m dyld_range files ctx symbol (str_bytes name))"
    define st where "st = (caches, slots, object, heap2)"
    obtain n gs where match: "hk_image_catalog_match (Some catalog) (sym_caller_image_scope symbol) visit (Some (?start st)) = (n, gs)" by fastforce
    have run: "rebind_prepare_catalog pac m dyld_range files ctx spec symbol diag kept = Some ((HK_PREPARE_OK, prepared, diag1), kept1)"
      using assms True by (simp add: rebind_prepare_one_ctx_status_def symbol)
    have m: "made = Some \<lparr>bu_originals_agree = True, bu_original = 0, bu_entries = []\<rparr>"
    proof (cases made)
      case None
      then show ?thesis using run by (simp add: rebind_prepare_catalog_def kept made failed_reply)
    next
      case (Some b)
      then show ?thesis using made by (auto simp: rebind_bundle_create_def split: prod.splits if_splits)
    qed
    have "map_option (catalog_verdict spec diag) gs = Some ((HK_PREPARE_OK, prepared, diag1), kept1)"
      using run unfolding rebind_prepare_catalog_def kept
      by (simp add: made [unfolded catalog] m object catalog match visit_def [symmetric] st_def [symmetric])
    then obtain g where g: "gs = Some g" "catalog_verdict spec diag g = ((HK_PREPARE_OK, prepared, diag1), kept1)" by (auto simp: map_option_eq_Some)
    have unnamed: "visit = collect_unnamed m \<or> visit = rebind_collect_image pac m dyld_range files ctx symbol (str_bytes (the (sym_name symbol)))"
      by (simp add: visit_def split: option.splits)
    have "gather_ok pac m ctx symbol g"
      by (rule collect_visits_ok [OF catalog empty_gather_ok unnamed, where e1 = HK_REBIND_OK and st1 = st]) (simp add: match g(1))
    then show ?thesis using catalog_verdict_ok [OF g(2)] True symbol
      by (auto simp: prepared_ok_def gather_ok_def no_original_def)
  next
    case False
    obtain target name c1 plan kept2 where p: "hk_rebind_prepare pac m dyld_range files (target :: 's hk_rebind_target) name c1 zero_rebind_plan kept2 =
        Some ((HK_REBIND_OK, plan), kept1)"
      "\<not> no_original spec (rbp_originals_agree plan) (rbp_original plan)" "prepared = Some (Prepared_Plan plan)"
      using assms False
      by (auto simp: rebind_prepare_one_ctx_status_def symbol rebind_prepare_image_def Let_def prepare_failed_def prepare_refused_def
          rebind_classify_def split: if_splits prod.splits option.splits)
    then have "plan_sound pac m plan \<and> originals_said plan"
      using prepared_sound by (fastforce simp: hk_rebind_prepare_def split: prod.splits)
    then show ?thesis using p(2,3) False symbol by (auto simp: prepared_ok_def no_original_def)
  qed
qed

section \<open>A complete commit\<close>

text \<open>What complete writes of values into slots are, from the memory before.\<close>

definition stores_ok :: "hk_pac \<Rightarrow> u64 \<Rightarrow> (hk_rebind_site \<times> u64) list \<Rightarrow> memory \<Rightarrow> bool" where
  "stores_ok pac replacement ws m \<longleftrightarrow> (\<forall>(site, v) \<in> set ws. hk_rebind_replacement_for_site pac site replacement = Some v \<and>
     rbs_address site AND 7 = 0 \<and> hk_rebind_read_slot m (rbs_address site) = Some (rbs_original site))"

lemma commit_complete:
  fixes s s1 :: "'s hk_vm_scheme"
  assumes run: "hk_rebind_commit pac target plan replacement sink s = Some ((HK_MUTATION_COMPLETE, n), sink1, s1)"
    and native: "rt_write target = Some hk_native_patch_pointer" and d: "distinct (map rbs_address (rbp_sites plan))"
  shows "\<exists>ws. map fst ws = rbp_sites plan \<and> stores_ok pac replacement ws (vm_view s) \<and> vm_view s1 = slots_stored ws (vm_view s)"
proof (rule rebind_commit_cases [OF run native])
  fix vs assume vs: "site_replacements pac replacement (rbp_sites plan) = Some vs"
    and loop: "commit_sites hk_native_patch_pointer (zip (rbp_sites plan) vs) 0 sink s = Some ((HK_MUTATION_COMPLETE, n), sink1, s1)"
  let ?ws = "zip (rbp_sites plan) vs"
  note zip = site_replacements_zip [OF vs]
  note writes = native_slots.commit_sites_writes [OF loop, simplified]
  have fst: "map fst ?ws = rbp_sites plan" using zip by simp
  have n: "n = length (rbp_sites plan)" using writes zip by simp
  have before: "\<forall>site \<in> set (rbp_sites plan). hk_rebind_read_slot (vm_view s) (rbs_address site) = Some (rbs_original site)"
    using rebind_commit_spec [OF run native d] by (simp add: n)
  have aligned: "rbs_address site AND 7 = 0" if site: "site \<in> set (rbp_sites plan)" for site
  proof -
    obtain i where i: "i < length (rbp_sites plan)" "site = rbp_sites plan ! i" using site by (auto simp: in_set_conv_nth)
    then show ?thesis using writes zip n by auto
  qed
  have "stores_ok pac replacement ?ws (vm_view s)"
    unfolding stores_ok_def using zip before aligned by (auto dest: set_zip_leftD)
  moreover have "vm_view s1 = slots_stored ?ws (vm_view s)" using writes zip n by simp
  ultimately show ?thesis using fst by blast
qed simp

lemma stores_append: "slots_stored (ws @ ws1) m = slots_stored ws1 (slots_stored ws m)"
  by (simp add: slots_stored_def)

text \<open>Values stored before, into other slots, do not change what is found in these.\<close>

lemma stores_later:
  assumes "stores_ok pac replacement ws1 (slots_stored ws m)" "stores_ok pac replacement ws m"
    "rbs_address ` set (map fst ws) \<inter> rbs_address ` set (map fst ws1) = {}"
  shows "stores_ok pac replacement (ws @ ws1) m"
proof -
  have "hk_rebind_read_slot m (rbs_address site) = Some (rbs_original site)" if site: "(site, v) \<in> set ws1" for site v
  proof -
    have "rbs_address site \<in> rbs_address ` set (map fst ws1)" using site by force
    then have "rbs_address site \<notin> rbs_address ` set (map fst ws)" using assms(3) by blast
    then have "rbs_address site1 \<noteq> rbs_address site" if "(site1, v1) \<in> set ws" for site1 v1
      using that by (auto simp: image_iff)
    then have "\<forall>(site1, v) \<in> set ws. rbs_address site1 AND 7 = 0 \<and> rbs_address site1 \<noteq> rbs_address site"
      using assms(2) by (auto simp: stores_ok_def)
    moreover have "rbs_address site AND 7 = 0" using assms(1) site by (auto simp: stores_ok_def)
    ultimately have "hk_rebind_read_slot (slots_stored ws m) (rbs_address site) = hk_rebind_read_slot m (rbs_address site)"
      by (intro slots_stored_elsewhere)
    then show ?thesis using assms(1) site by (auto simp: stores_ok_def)
  qed
  then show ?thesis using assms(1,2) by (auto simp: stores_ok_def)
qed

lemma entries_complete:
  fixes s s1 :: "'s hk_vm_scheme"
  assumes "commit_entries pac replacement es written sink s = Some (HK_MUTATION_COMPLETE, sink1, s1)"
    "\<forall>e \<in> set es. rt_write (be_target e) = Some hk_native_patch_pointer"
    "distinct (map rbs_address (concat (map (\<lambda>e. rbp_sites (be_plan e)) es)))"
  shows "\<exists>ws. map fst ws = concat (map (\<lambda>e. rbp_sites (be_plan e)) es) \<and> stores_ok pac replacement ws (vm_view s) \<and>
    vm_view s1 = slots_stored ws (vm_view s)"
  using assms
proof (induction es arbitrary: written sink s)
  case Nil
  then show ?case by (simp add: stores_ok_def)
next
  case (Cons e es)
  obtain n sink2 s2 where run: "hk_rebind_commit pac (be_target e) (be_plan e) replacement sink s = Some ((HK_MUTATION_COMPLETE, n), sink2, s2)"
    and rest: "commit_entries pac replacement es (written + n) sink2 s2 = Some (HK_MUTATION_COMPLETE, sink1, s1)"
    using Cons.prems(1) by (auto split: bind_splits if_splits)
  obtain ws where ws: "map fst ws = rbp_sites (be_plan e)" "stores_ok pac replacement ws (vm_view s)" "vm_view s2 = slots_stored ws (vm_view s)"
    using commit_complete [OF run] Cons.prems(2,3) by auto
  obtain ws1 where ws1: "map fst ws1 = concat (map (\<lambda>e. rbp_sites (be_plan e)) es)" "stores_ok pac replacement ws1 (vm_view s2)"
      "vm_view s1 = slots_stored ws1 (vm_view s2)"
    using Cons.IH [OF rest] Cons.prems(2,3) by auto
  have "rbs_address ` set (map fst ws) \<inter> rbs_address ` set (map fst ws1) = {}" using Cons.prems(3) by (simp add: ws(1) ws1(1))
  then have "stores_ok pac replacement (ws @ ws1) (vm_view s)" using stores_later ws(2) ws1(2) ws(3) by metis
  moreover have "vm_view s1 = slots_stored (ws @ ws1) (vm_view s)" by (simp add: stores_append ws(3) ws1(3))
  moreover have "map fst (ws @ ws1) = concat (map (\<lambda>e. rbp_sites (be_plan e)) (e # es))" by (simp add: ws(1) ws1(1))
  ultimately show ?case by blast
qed

text \<open>After the writes the verification finds what it expects, and nothing else has changed.\<close>

lemma verify_all:
  "(\<forall>site \<in> set sites. \<exists>v. hk_rebind_replacement_for_site pac site replacement = Some v \<and> hk_rebind_read_slot m (rbs_address site) = Some v) \<Longrightarrow>
   verify_sites pac m replacement sites = Some True"
  by (induction sites) (auto split: option.splits)

lemma stored_verified:
  assumes "stores_ok pac replacement ws m" "distinct (map rbs_address (map fst ws))"
  shows "\<forall>site \<in> set (map fst ws). hk_rebind_read_slot m (rbs_address site) = Some (rbs_original site) \<and>
      (\<exists>v. hk_rebind_replacement_for_site pac site replacement = Some v \<and> hk_rebind_read_slot (slots_stored ws m) (rbs_address site) = Some v)"
proof
  fix site assume "site \<in> set (map fst ws)"
  then obtain v where v: "(site, v) \<in> set ws" by auto
  have "slots_separate (map fst ws)" using assms by (auto simp: slots_separate_def stores_ok_def)
  moreover have old: "hk_rebind_read_slot m (rbs_address site) = Some (rbs_original site)" "hk_rebind_replacement_for_site pac site replacement = Some v"
    using assms(1) v by (auto simp: stores_ok_def)
  ultimately show "hk_rebind_read_slot m (rbs_address site) = Some (rbs_original site) \<and>
      (\<exists>v. hk_rebind_replacement_for_site pac site replacement = Some v \<and> hk_rebind_read_slot (slots_stored ws m) (rbs_address site) = Some v)"
    using slots_stored_read [OF _ v old(1)] by blast
qed

section \<open>A hook, from preparation to verification\<close>

fun prepared_sites :: "'s rebind_prepared \<Rightarrow> hk_rebind_site list" where
  "prepared_sites (Prepared_Bundle bundle) = bundle_sites bundle"
| "prepared_sites (Prepared_Plan plan) = rbp_sites plan"

fun prepared_original :: "'s rebind_prepared \<Rightarrow> u64" where
  "prepared_original (Prepared_Bundle bundle) = bu_original bundle"
| "prepared_original (Prepared_Plan plan) = rbp_original plan"

lemma prepared_sites_ok:
  assumes "prepared_ok pac m ctx spec p"
  shows "prepared_sites p \<noteq> [] \<and> distinct (map rbs_address (prepared_sites p)) \<and> (\<forall>site \<in> set (prepared_sites p). site_sound pac m site) \<and>
    (hs_original_requirement spec \<noteq> HK_ORIGINAL_NONE \<longrightarrow>
       prepared_original p \<noteq> 0 \<and> (\<forall>site \<in> set (prepared_sites p). rbs_callable_original site = prepared_original p))"
proof (cases p)
  case (Prepared_Bundle bu)
  have b: "bundle_sound pac m bu" "bu_entries bu \<noteq> []"
    "hs_original_requirement spec \<noteq> HK_ORIGINAL_NONE \<longrightarrow> bu_originals_agree bu \<and> bu_original bu \<noteq> 0"
    using assms by (auto simp: Prepared_Bundle prepared_ok_def)
  then obtain e es where "bu_entries bu = e # es" by (cases "bu_entries bu") auto
  then have "bundle_sites bu \<noteq> []" using b(1) by (simp add: bundle_sound_def bundle_sites_def)
  moreover have "\<forall>site \<in> set (bundle_sites bu). site_sound pac m site"
    using b(1) by (auto simp: bundle_sound_def bundle_sites_def plan_sound_def)
  ultimately show ?thesis using b(1,3) by (auto simp: Prepared_Bundle bundle_sound_def)
next
  case (Prepared_Plan plan)
  then show ?thesis using assms by (auto simp: prepared_ok_def plan_sound_def originals_said_def)
qed

lemma hook_complete:
  fixes s s1 :: "'s hk_vm_scheme"
  assumes ok: "prepared_ok pac m ctx spec p"
    and named: "\<And>bu e. p = Prepared_Bundle bu \<Longrightarrow> e \<in> set (bu_entries bu) \<Longrightarrow> rt_write (be_target e) = Some hk_native_patch_pointer"
    and native: "rx_write ctx = Some hk_native_patch_pointer"
    and run: "rebind_commit_one_ctx pac ctx spec (Some p) sink s = Some (HK_MUTATION_COMPLETE, sink1, s1)"
  shows "\<exists>ws. map fst ws = prepared_sites p \<and> stores_ok pac (hs_replacement spec) ws (vm_view s) \<and> vm_view s1 = slots_stored ws (vm_view s)"
proof (cases p)
  case (Prepared_Bundle bu)
  obtain sink2 where "commit_entries pac (hs_replacement spec) (bu_entries bu) 0 sink s = Some (HK_MUTATION_COMPLETE, sink2, s1)"
    using run by (auto simp: Prepared_Bundle rebind_commit_one_ctx_def split: if_splits)
  then show ?thesis
    using entries_complete [of pac "hs_replacement spec" "bu_entries bu" 0 sink s sink2 s1] prepared_sites_ok [OF ok] named [OF Prepared_Bundle]
    by (simp add: Prepared_Bundle bundle_sites_def)
next
  case (Prepared_Plan plan)
  obtain n sink2 where "hk_rebind_commit pac (target_from ctx True) plan (hs_replacement spec) sink s = Some ((HK_MUTATION_COMPLETE, n), sink2, s1)"
    using run by (auto simp: Prepared_Plan rebind_commit_one_ctx_def split: if_splits)
  then show ?thesis
    using commit_complete [of pac "target_from ctx True" plan "hs_replacement spec" sink s n sink2 s1] prepared_sites_ok [OF ok] native
    by (simp add: Prepared_Plan target_from_def)
qed

lemma commit_publishes:
  assumes "prepared_ok pac m ctx spec p" "hs_original_requirement spec \<noteq> HK_ORIGINAL_NONE"
    "rebind_commit_one_ctx pac ctx spec (Some p) sink s = Some (HK_MUTATION_COMPLETE, Some k, s1)"
  shows "sk_published_original k = prepared_original p"
proof (cases p)
  case (Prepared_Bundle bu)
  have "bu_originals_agree bu" using assms(1,2) by (simp add: Prepared_Bundle prepared_ok_def)
  then show ?thesis
    using assms(3) by (auto simp: Prepared_Bundle rebind_commit_one_ctx_def publish_agreed_def split: if_splits)
next
  case (Prepared_Plan plan)
  have "rbp_originals_agree plan" "originals_said plan" using assms(1,2) by (simp_all add: Prepared_Plan prepared_ok_def)
  then have "rbp_originals_agree plan" "rbp_sites plan \<noteq> []" by (simp_all add: originals_said_def)
  then show ?thesis
    using assms(3) by (auto simp: Prepared_Plan rebind_commit_one_ctx_def publish_agreed_def split: if_splits)
qed

lemma target_kind_symbol: "prepared_ok pac m ctx spec p \<Longrightarrow> target_kind (hs_target spec) = HK_TARGET_FUNCTION_SYMBOL"
  by (auto simp: prepared_ok_def split: rebind_prepared.splits)

lemma verify_prepared:
  assumes "prepared_ok pac m0 ctx spec p" "verify_sites pac m (hs_replacement spec) (prepared_sites p) = Some True"
  shows "rebind_verify_one_ctx pac m (Some ctx) spec (Some p) diag = Some (HK_VERIFY_OK, diag)"
  using assms target_kind_symbol [OF assms(1)]
  by (cases p) (auto simp: rebind_verify_one_ctx_def verify_verdict_def prepared_ok_def)

lemma prepared_writers:
  assumes "prepared_ok pac m ctx spec p" "p = Prepared_Bundle bu" "e \<in> set (bu_entries bu)"
  shows "rt_write (be_target e) = rx_write ctx"
  using assms by (auto simp: prepared_ok_def entry_named_def entry_target_def target_from_def)

text \<open>C7. A rebinding hook, from preparation to verification. Say a preparation succeeded in some memory, and a later commit
  with the native writer is complete. Then each of the slots it covers, at least one and all different, still held at the commit what
  the preparation had read, now holds the replacement signed for it, and no other byte changed; the verification of the
  result succeeds; and if the client asked for an original, the one that is published is the callable original of every slot
  and not null.\<close>

theorem rebind_hook_installs:
  fixes ctx :: "'s hk_vm_scheme hk_rebind_engine_ctx"
  assumes "rebind_prepare_one_ctx_status pac m dyld_range files (Some ctx) spec diag kept = Some ((HK_PREPARE_OK, prepared, diag1), kept1)"
    "rx_write ctx = Some hk_native_patch_pointer"
    "rebind_commit_one_ctx pac ctx spec prepared sink s = Some (HK_MUTATION_COMPLETE, sink1, s1)"
  shows "\<exists>p. prepared = Some p \<and> prepared_sites p \<noteq> [] \<and> distinct (map rbs_address (prepared_sites p)) \<and>
    (\<forall>site \<in> set (prepared_sites p). site_sound pac m site \<and> hk_rebind_read_slot (vm_view s) (rbs_address site) = Some (rbs_original site) \<and>
       (\<exists>v. hk_rebind_replacement_for_site pac site (hs_replacement spec) = Some v \<and> hk_rebind_read_slot (vm_view s1) (rbs_address site) = Some v)) \<and>
    (\<forall>x. (\<forall>site \<in> set (prepared_sites p). 8 \<le> unat (x - rbs_address site)) \<longrightarrow> vm_view s1 x = vm_view s x) \<and>
    rebind_verify_one_ctx pac (vm_view s1) (Some ctx) spec prepared vdiag = Some (HK_VERIFY_OK, vdiag) \<and>
    (hs_original_requirement spec \<noteq> HK_ORIGINAL_NONE \<longrightarrow> prepared_original p \<noteq> 0 \<and>
       (\<forall>site \<in> set (prepared_sites p). rbs_callable_original site = prepared_original p) \<and>
       (\<forall>k. sink1 = Some k \<longrightarrow> sk_published_original k = prepared_original p))"
proof -
  obtain p where p: "prepared = Some p" "prepared_ok pac m ctx spec p" using prepared_reply [OF assms(1)] by blast
  note run = assms(3) [unfolded p(1)]
  note sites = prepared_sites_ok [OF p(2)]
  obtain ws where ws: "map fst ws = prepared_sites p" "stores_ok pac (hs_replacement spec) ws (vm_view s)" "vm_view s1 = slots_stored ws (vm_view s)"
    using hook_complete [OF p(2) _ assms(2) run] prepared_writers [OF p(2)] assms(2) by metis
  have d: "distinct (map rbs_address (map fst ws))" using sites ws(1) by simp
  note stored = stored_verified [OF ws(2) d, unfolded ws(1), folded ws(3)]
  have verified: "rebind_verify_one_ctx pac (vm_view s1) (Some ctx) spec prepared vdiag = Some (HK_VERIFY_OK, vdiag)"
    unfolding p(1) by (rule verify_prepared [OF p(2) verify_all]) (use stored in blast)
  have outside: "vm_view s1 x = vm_view s x" if "\<forall>site \<in> set (prepared_sites p). 8 \<le> unat (x - rbs_address site)" for x
    unfolding ws(3) by (rule slots_stored_outside) (use that [folded ws(1)] in force)
  have published: "sk_published_original k = prepared_original p" if "hs_original_requirement spec \<noteq> HK_ORIGINAL_NONE" "sink1 = Some k" for k
    using commit_publishes [OF p(2) that(1) run [unfolded that(2)]] .
  show ?thesis using p(1) sites stored verified outside published by blast
qed

end
