(* ===== verification/HK_RebindHook_Sample.thy ===== *)
theory HK_RebindHook_Sample
  imports HK_RebindHook HK_RebindSample HK_Plan_Wf
begin

text \<open>A hook on the import \<open>f\<close> of the sample image, prepared with the image's file in the cache, and committed to a
  process with the image's page.\<close>

definition sample_hook_ctx :: "hk_vm hk_rebind_engine_ctx" where
  "sample_hook_ctx = \<lparr>rx_image_base = 0x20000, rx_image_size = 0x50, rx_slide = 0, rx_image_path = Some [0x61],
     rx_write = Some hk_native_patch_pointer, rx_catalog = None\<rparr>"

definition sample_hook_symbol :: hk_symbol_target where
  "sample_hook_symbol = \<lparr>sym_name = Some ''f'', sym_name_convention = HK_SYMBOL_NAME_C, sym_visibility = HK_SYMBOL_VISIBILITY_ANY,
     sym_defining_image = zero_selector, sym_caller_image_scope = Image_Selector HK_IMAGE_MAIN_EXECUTABLE None (replicate 16 0) 0 [] True,
     sym_alias_policy = HK_SYMBOL_ALIAS_EXACT_ONLY, sym_interior_address_permitted = False\<rparr>"

definition sample_hook_spec :: hk_hook_spec where
  "sample_hook_spec = (sample_spec ''hook'' (Target_Symbol sample_hook_symbol))\<lparr>hs_replacement := 0x5000,
     hs_original_requirement := HK_ORIGINAL_DIRECT_PREDECESSOR\<rparr>"

definition sample_hook_plan :: hk_rebind_plan where
  "sample_hook_plan = (sample_sites_plan 0x1111)\<lparr>rbp_original := 0x1111, rbp_originals_agree := True\<rparr>"

definition sample_hook_vm :: hk_vm where
  "sample_hook_vm = sample_vm\<lparr>vm_bytes := (\<lambda>a. if a = 0x20040 \<or> a = 0x20041 then 0x11 else 0),
     vm_prot := (\<lambda>p. if p = 0x20000 then Some 5 else None)\<rparr>"

lemma sample_hook_target:
  "(target_from sample_hook_ctx False)\<lparr>rt_include_shared_cache_got := False\<rparr> = sample_chain_target"
  by (simp add: target_from_def sample_hook_ctx_def sample_chain_target_def)

lemma sample_hook_prepared:
  "\<exists>kept. rebind_prepare_one_ctx_status plain_pac (sample_process 0x1111) None (\<lambda>_. None) (Some sample_hook_ctx) sample_hook_spec zero_prepare_diag
     (sample_warm, [], []) = Some ((HK_PREPARE_OK, Some (Prepared_Plan sample_hook_plan), zero_prepare_diag), kept)"
proof -
  obtain st where prepared: "hk_rebind_prepare_with_lookup plain_pac (sample_process 0x1111) None (\<lambda>_. None) sample_chain_target [0x66]
      HK_SYMBOL_NAME_C zero_rebind_plan (sample_warm, [], None, []) = Some ((HK_REBIND_OK, sample_hook_plan), st)"
    using sample_rebind_prepare [of "0x1111"] by (auto simp: map_option_eq_Some sample_hook_plan_def)
  have fields: "hs_target sample_hook_spec = Target_Symbol sample_hook_symbol" "hs_original_requirement sample_hook_spec = HK_ORIGINAL_DIRECT_PREDECESSOR"
    "rx_image_base sample_hook_ctx = 0x20000" "rx_catalog sample_hook_ctx = None" "sym_name sample_hook_symbol = Some ''f''"
    "sym_name_convention sample_hook_symbol = HK_SYMBOL_NAME_C" "sel_kind (sym_caller_image_scope sample_hook_symbol) = HK_IMAGE_MAIN_EXECUTABLE"
    "rbp_originals_agree sample_hook_plan" "rbp_original sample_hook_plan = 0x1111"
    by (simp_all add: sample_hook_spec_def sample_spec_def sample_hook_ctx_def sample_hook_symbol_def sample_hook_plan_def)
  have name: "str_bytes ''f'' = [0x66]" by (simp add: str_bytes_def)
  show ?thesis
    using prepared
    by (simp add: rebind_prepare_one_ctx_status_def rebind_prepare_image_def fields name hk_image_scope_check_header_def hk_image_catalog_count_def
        sample_hook_target no_original_def hk_rebind_prepare_def split: prod.splits)
qed

lemma sample_hook_slot: "hk_rebind_read_slot (vm_view sample_hook_vm) 0x20040 = Some 0x1111"
proof (rule read_slot_bytes)
  fix i :: nat assume "i < 8"
  then have "i \<in> set [0, 1, 2, 3, 4, 5, 6, 7]" by auto
  then show "vm_view sample_hook_vm (0x20040 + of_nat i) = Some (le_bytes 8 (0x1111 :: u64) ! i)"
    by (auto simp: vm_view_def sample_hook_vm_def sample_vm_def page_of_def PAGE_def le_bytes_def VM_PROT_READ_def)
qed

lemma sample_hook_write: "fst (hk_native_patch_pointer 0x20040 0x5000 sample_hook_vm) = HK_MUTATION_COMPLETE"
proof -
  have b: "hk_range_bounds 0x20040 8 = Some (0x20000, 0x24000)" by (simp add: hk_range_bounds_def PAGE_def)
  have c: "vm_calls sample_hook_vm = []" "vm_prot sample_hook_vm 0x20000 = Some 5" by (simp_all add: sample_hook_vm_def sample_vm_def)
  have p: "pages 0x20000 0x4000 = [0x20000]" by (simp add: pages_def PAGE_def)
  have "vm_region_64 sample_hook_vm 0x20000 = Some (0x20000, 0x4000, 5)"
    by (simp add: vm_region_64_def sample_hook_vm_def sample_vm_def region_valid_def page_of_def PAGE_def pages_def)
  then have "hk_range_protection sample_hook_vm 0x20000 0x24000 = Some 5"
    by (simp add: hk_range_protection_def range_protection_from.simps [of _ "0x20000"] range_protection_from.simps [of _ "0x24000"])
  then show ?thesis
    using b c p
    by (simp add: hk_native_patch_pointer_def write_in_place_def vm_protect_def kern_call_def Let_def set_pages_def vm_store_def)
qed

lemma sample_hook_commit:
  "\<exists>s1. rebind_commit_one_ctx plain_pac sample_hook_ctx sample_hook_spec (Some (Prepared_Plan sample_hook_plan)) None sample_hook_vm =
     Some (HK_MUTATION_COMPLETE, None, s1)"
proof -
  obtain s1 where "hk_native_patch_pointer 0x20040 0x5000 sample_hook_vm = (HK_MUTATION_COMPLETE, s1)"
    using sample_hook_write by (metis prod.collapse)
  then show ?thesis
    using sample_hook_slot
    by (simp add: rebind_commit_one_ctx_def hk_rebind_commit_def sample_hook_ctx_def sample_hook_spec_def sample_hook_plan_def
        sample_sites_plan_def sample_site_def zero_rebind_plan_def target_from_def hk_rebind_replacement_for_site_def checked_adjust_def
        hk_pac_strip_code_def hk_pac_sign_slot_def plain_pac_def zero_schema_def record_artifact_def publish_agreed_def)
qed

theorem rebind_hook_installs_witness:
  "\<exists>s1. rebind_commit_one_ctx plain_pac sample_hook_ctx sample_hook_spec (Some (Prepared_Plan sample_hook_plan)) None sample_hook_vm =
      Some (HK_MUTATION_COMPLETE, None, s1) \<and>
     rebind_verify_one_ctx plain_pac (vm_view s1) (Some sample_hook_ctx) sample_hook_spec (Some (Prepared_Plan sample_hook_plan)) zero_verify_diag =
      Some (HK_VERIFY_OK, zero_verify_diag)"
proof -
  obtain kept where prepared: "rebind_prepare_one_ctx_status plain_pac (sample_process 0x1111) None (\<lambda>_. None) (Some sample_hook_ctx) sample_hook_spec
      zero_prepare_diag (sample_warm, [], []) = Some ((HK_PREPARE_OK, Some (Prepared_Plan sample_hook_plan), zero_prepare_diag), kept)"
    using sample_hook_prepared by blast
  obtain s1 where run: "rebind_commit_one_ctx plain_pac sample_hook_ctx sample_hook_spec (Some (Prepared_Plan sample_hook_plan)) None sample_hook_vm =
      Some (HK_MUTATION_COMPLETE, None, s1)"
    using sample_hook_commit by blast
  have "rx_write sample_hook_ctx = Some hk_native_patch_pointer" by (simp add: sample_hook_ctx_def)
  from rebind_hook_installs [OF prepared this run, of zero_verify_diag] run show ?thesis by blast
qed

end
