(* ===== verification/HK_PatchEngines.thy ===== *)
theory HK_PatchEngines
  imports HK_Reloc_Props HK_Ledger
begin

text \<open>
  The two engines that overwrite memory and keep nothing running: the memory patch
  (\<open>src/engines/HKMemoryEngine.c\<close>) and the terminal inline hook (\<open>src/engines/HKInlineEngine.c\<close>). Both read
  in a first phase what they are going to replace, and write in a second phase if it is still there. A
  read of unreadable memory, or past the end of a buffer of the caller, is \<open>None\<close>.
\<close>

section \<open>The writer\<close>

type_synonym 's patch_write_fn = "u64 \<Rightarrow> byte list \<Rightarrow> 's hk_vm_scheme \<Rightarrow> hk_mutation_state \<times> 's hk_vm_scheme"

text \<open>What the engines expect of a writer: at an address it does not change, it does nothing, or exactly what it
  was asked for, unless it says otherwise. \<open>ok\<close> is what the writer keeps of the process.\<close>

locale patch_writer =
  fixes put :: "'s patch_write_fn" and ok :: "'s hk_vm_scheme \<Rightarrow> bool" and direct :: "u64 \<Rightarrow> bool"
  assumes put_law: "direct a \<Longrightarrow> ok s \<Longrightarrow> length bs < 2 ^ 64 \<Longrightarrow> put a bs s = (m, s1) \<Longrightarrow>
      m = HK_MUTATION_NONE \<and> ok s1 \<and> vm_view s1 = vm_view s \<or>
      m = HK_MUTATION_COMPLETE \<and> ok s1 \<and> vm_view s1 = patched (vm_view s) a bs \<or>
      m = HK_MUTATION_PARTIAL \<or> m = HK_MUTATION_UNKNOWN"
    and record_law: "ok s \<Longrightarrow> hk_sys.more s1 = hk_sys.more s \<Longrightarrow> ok s1"

text \<open>An answer that is none of the three others counts as unknown.\<close>

definition settled_mutation :: "hk_mutation_state \<Rightarrow> hk_mutation_state" where
  "settled_mutation m = (if m \<noteq> HK_MUTATION_COMPLETE \<and> m \<noteq> HK_MUTATION_PARTIAL then HK_MUTATION_UNKNOWN else m)"

definition record_one :: "hk_artifact_sink option \<Rightarrow> hk_artifact \<Rightarrow> 's hk_sys_scheme \<Rightarrow> hk_artifact_sink option \<times> 's hk_sys_scheme" where
  "record_one sink a s =
     (case sink of
        None \<Rightarrow> (None, s)
      | Some k \<Rightarrow> (let ((_, k1), s1) = hk_artifact_sink_record k a s in (Some k1, s1)))"

definition patch_artifact :: "hk_artifact_kind \<Rightarrow> hk_effects \<Rightarrow> string \<Rightarrow> hk_mutation_state \<Rightarrow> u64 \<Rightarrow> byte list \<Rightarrow> hk_artifact" where
  "patch_artifact kind effects engine mutation address original = zero_artifact\<lparr>
     a_kind := kind,
     a_state := (if mutation = HK_MUTATION_COMPLETE then HK_ARTIFACT_COMMITTED else HK_ARTIFACT_PARTIALLY_APPLIED),
     a_effects := effects,
     a_engine_id := \<lparr>sv_data = Some engine, sv_length = length engine\<rparr>,
     a_address := address, a_size := of_nat (length original),
     a_original_bytes := zero_byte_storage\<lparr>bs_representation := HK_BYTE_STORAGE_INLINE,
       bs_inline_bytes := \<lparr>bv_data = Some original, bv_size = length original\<rparr>, bs_length := length original\<rparr>,
     a_mechanically_reversible := True,
     a_safe_to_reverse_after_activation := (mutation = HK_MUTATION_COMPLETE)\<rparr>"

text \<open>The write, and the record of what it did.\<close>

definition put_and_record :: "'s patch_write_fn \<Rightarrow> u64 \<Rightarrow> byte list \<Rightarrow> (hk_mutation_state \<Rightarrow> hk_artifact) \<Rightarrow> hk_artifact_sink option \<Rightarrow>
    's hk_vm_scheme \<Rightarrow> hk_mutation_state \<times> hk_artifact_sink option \<times> 's hk_vm_scheme" where
  "put_and_record put address bytes artifact sink s =
     (let (mutation, s1) = put address bytes s
      in if mutation = HK_MUTATION_NONE then (HK_MUTATION_NONE, sink, s1)
         else let m = settled_mutation mutation; (sink1, s2) = record_one sink (artifact m) s1
           in (m, sink1, s2))"

section \<open>The memory patch\<close>

definition HK_MEMPATCH_MAX :: nat where "HK_MEMPATCH_MAX = 256"

datatype hk_mempatch_status =
    HK_MEMPATCH_OK | HK_MEMPATCH_INVALID_ARGUMENT | HK_MEMPATCH_TOO_LARGE | HK_MEMPATCH_PRECONDITION_FAILED

record hk_mempatch_plan =
  mpp_original :: "byte list"
  mpp_size :: nat
  mpp_captured :: bool

definition zero_mempatch_plan :: hk_mempatch_plan where
  "zero_mempatch_plan = \<lparr>mpp_original = replicate HK_MEMPATCH_MAX 0, mpp_size = 0, mpp_captured = False\<rparr>"

text \<open>The comparison stops at the first byte that differs, and reads no further.\<close>

fun masked_equal :: "byte list \<Rightarrow> byte list \<Rightarrow> byte list option \<Rightarrow> bool option" where
  "masked_equal [] es bits = Some True"
| "masked_equal (c # cs) (e # es) None = (if c AND 0xff \<noteq> e AND 0xff then Some False else masked_equal cs es None)"
| "masked_equal (c # cs) (e # es) (Some (k # ks)) = (if c AND k \<noteq> e AND k then Some False else masked_equal cs es (Some ks))"
| "masked_equal (c # cs) es bits = None"

definition hk_mempatch_prepare :: "memory \<Rightarrow> u64 \<Rightarrow> nat \<Rightarrow> hk_bytes_view \<Rightarrow> hk_bytes_view \<Rightarrow> hk_mempatch_plan \<Rightarrow>
    (hk_mempatch_status \<times> hk_mempatch_plan) option" where
  "hk_mempatch_prepare m address n expected bits plan =
     (if address = 0 \<or> n = 0 then Some (HK_MEMPATCH_INVALID_ARGUMENT, plan)
      else if n > HK_MEMPATCH_MAX then Some (HK_MEMPATCH_TOO_LARGE, plan)
      else if bv_data expected \<noteq> None \<and> bv_size expected \<noteq> n then Some (HK_MEMPATCH_INVALID_ARGUMENT, plan)
      else if bv_data expected \<noteq> None \<and> bv_data bits \<noteq> None \<and> bv_size bits \<noteq> n then Some (HK_MEMPATCH_INVALID_ARGUMENT, plan)
      else do {
        current \<leftarrow> rd_bytes m address 0 n;
        let plan1 = \<lparr>mpp_original = current @ replicate (HK_MEMPATCH_MAX - n) 0, mpp_size = n, mpp_captured = True\<rparr>;
        matches \<leftarrow> (case bv_data expected of None \<Rightarrow> Some True | Some e \<Rightarrow> masked_equal current e (bv_data bits));
        Some (if matches then (HK_MEMPATCH_OK, plan1) else (HK_MEMPATCH_PRECONDITION_FAILED, plan1\<lparr>mpp_captured := False\<rparr>))
      })"

definition hk_mempatch_commit :: "u64 \<Rightarrow> hk_mempatch_plan \<Rightarrow> hk_bytes_view \<Rightarrow> 's patch_write_fn option \<Rightarrow> hk_artifact_sink option \<Rightarrow>
    's hk_vm_scheme \<Rightarrow> (hk_mutation_state \<times> hk_artifact_sink option \<times> 's hk_vm_scheme) option" where
  "hk_mempatch_commit address plan replacement put_fn sink s =
     (case (put_fn, bv_data replacement) of
        (Some put, Some data) \<Rightarrow>
          if \<not> mpp_captured plan \<or> address = 0 \<or> bv_size replacement \<noteq> mpp_size plan then Some (HK_MUTATION_NONE, sink, s)
          else do {
            current \<leftarrow> rd_bytes (vm_view s) address 0 (mpp_size plan);
            let original = take (mpp_size plan) (mpp_original plan);
            (if current \<noteq> original then Some (HK_MUTATION_NONE, sink, s)
             else if length data < mpp_size plan then None
             else Some (put_and_record put address (take (mpp_size plan) data)
                 (\<lambda>m. patch_artifact HK_ARTIFACT_MEMORY_PATCH HK_EFFECT_MEMORY_MUTATION ''memory'' m address original) sink s))
          }
      | _ \<Rightarrow> Some (HK_MUTATION_NONE, sink, s))"

section \<open>The terminal inline hook\<close>

definition HK_INLINE_MAX_PATCH :: nat where "HK_INLINE_MAX_PATCH = HK_A64_MAX_BRANCH_BYTES"

datatype hk_inline_status =
    HK_INLINE_OK | HK_INLINE_INVALID_ARGUMENT | HK_INLINE_MISALIGNED | HK_INLINE_TARGET_TOO_SHORT | HK_INLINE_TRAP_STUB
  | HK_INLINE_PRECONDITION_FAILED | HK_INLINE_NEEDS_CONTINUATION

record hk_inline_plan =
  ipl_address :: u64
  ipl_original :: "byte list"
  ipl_patch :: "byte list"
  ipl_size :: nat
  ipl_captured :: bool

definition zero_inline_plan :: hk_inline_plan where
  "zero_inline_plan = \<lparr>ipl_address = 0, ipl_original = buf16 [], ipl_patch = buf16 [], ipl_size = 0, ipl_captured = False\<rparr>"

text \<open>The comparison with the bytes the caller pinned: as many as both have.\<close>

definition pinned_differ :: "byte list \<Rightarrow> hk_bytes_view \<Rightarrow> bool option" where
  "pinned_differ current expected =
     (case bv_data expected of
        None \<Rightarrow> Some False
      | Some e \<Rightarrow> let n = min (bv_size expected) (length current)
          in if length e < n then None else Some (take n current \<noteq> take n e))"

definition hk_inline_prepare :: "memory \<Rightarrow> u64 \<Rightarrow> u64 \<Rightarrow> hk_original_requirement \<Rightarrow> hk_bytes_view \<Rightarrow> hk_inline_plan \<Rightarrow>
    (hk_inline_status \<times> hk_inline_plan) option" where
  "hk_inline_prepare m target replacement original_requirement expected plan =
     (let n = hk_arm64_branch_size target replacement
      in if target = 0 \<or> replacement = 0 then Some (HK_INLINE_INVALID_ARGUMENT, plan)
         else if bv_data expected \<noteq> None \<and> (bv_size expected = 0 \<or> bv_size expected > HK_INLINE_MAX_PATCH)
         then Some (HK_INLINE_INVALID_ARGUMENT, plan)
         else if original_requirement \<noteq> HK_ORIGINAL_NONE then Some (HK_INLINE_NEEDS_CONTINUATION, zero_inline_plan)
         else if target AND 3 \<noteq> 0 then Some (HK_INLINE_MISALIGNED, zero_inline_plan)
         else if n = 0 \<or> n > HK_INLINE_MAX_PATCH then Some (HK_INLINE_INVALID_ARGUMENT, zero_inline_plan)
         else do {
           current \<leftarrow> rd_bytes m target 0 n;
           let plan1 = zero_inline_plan\<lparr>ipl_original := buf16 current\<rparr>;
           let words = words_of current;
           let patch = bytes_of (hk_arm64_emit_branch target replacement);
           differ \<leftarrow> pinned_differ current expected;
           Some (
             if differ then (HK_INLINE_PRECONDITION_FAILED, plan1)
             else if hk_arm64_insn_is_trap (hd words) then (HK_INLINE_TRAP_STUB, plan1)
             else if n > 4 \<and> hk_arm64_has_early_terminator (butlast words) then (HK_INLINE_TARGET_TOO_SHORT, plan1)
             else let plan2 = plan1\<lparr>ipl_patch := buf16 patch\<rparr>
               in if length patch \<noteq> n then (HK_INLINE_INVALID_ARGUMENT, plan2)
                  else (HK_INLINE_OK, plan2\<lparr>ipl_address := target, ipl_size := n, ipl_captured := True\<rparr>))
         })"

definition hk_inline_commit :: "hk_inline_plan \<Rightarrow> 's patch_write_fn option \<Rightarrow> hk_artifact_sink option \<Rightarrow> 's hk_vm_scheme \<Rightarrow>
    (hk_mutation_state \<times> hk_artifact_sink option \<times> 's hk_vm_scheme) option" where
  "hk_inline_commit plan put_fn sink s =
     (case put_fn of
        None \<Rightarrow> Some (HK_MUTATION_NONE, sink, s)
      | Some put \<Rightarrow>
          if \<not> ipl_captured plan \<or> ipl_address plan = 0 \<or> ipl_size plan = 0 \<or> ipl_size plan > HK_INLINE_MAX_PATCH
          then Some (HK_MUTATION_NONE, sink, s)
          else do {
            current \<leftarrow> rd_bytes (vm_view s) (ipl_address plan) 0 (ipl_size plan);
            let original = take (ipl_size plan) (ipl_original plan);
            (if current \<noteq> original then Some (HK_MUTATION_NONE, sink, s)
             else Some (put_and_record put (ipl_address plan) (take (ipl_size plan) (ipl_patch plan))
                 (\<lambda>m. patch_artifact HK_ARTIFACT_TARGET_TEXT_PATCH HK_EFFECT_TARGET_TEXT_MUTATION ''inline-terminal'' m (ipl_address plan) original) sink s))
          })"

section \<open>What the phases establish\<close>

lemma record_one_frame:
  assumes "record_one sink a s = (sink1, s1)"
  shows "hk_sys.more s1 = hk_sys.more s" "sink = None \<longleftrightarrow> sink1 = None"
  using assms by (auto simp: record_one_def Let_def split: option.splits prod.splits dest: sink_record_step(6))

context patch_writer begin

lemma put_and_record_law:
  assumes "put_and_record put a bs art sink s = (m, sink1, s2)" "direct a" "ok s" "length bs < 2 ^ 64"
  shows "m = HK_MUTATION_NONE \<and> ok s2 \<and> vm_view s2 = vm_view s \<and> sink1 = sink \<or>
    m = HK_MUTATION_COMPLETE \<and> ok s2 \<and> vm_view s2 = patched (vm_view s) a bs \<or>
    m = HK_MUTATION_PARTIAL \<or> m = HK_MUTATION_UNKNOWN"
proof -
  obtain mu s1 where w: "put a bs s = (mu, s1)" by fastforce
  obtain k s3 where r: "record_one sink (art (settled_mutation mu)) s1 = (k, s3)" by fastforce
  have v: "vm_view s3 = vm_view s1" "ok s1 \<Longrightarrow> ok s3"
    using record_one_frame(1) [OF r] more_fields(1) record_law by metis+
  have run: "(m, sink1, s2) = (if mu = HK_MUTATION_NONE then (HK_MUTATION_NONE, sink, s1) else (settled_mutation mu, k, s3))"
    using assms(1) unfolding put_and_record_def w prod.case Let_def r by simp
  then show ?thesis
    using put_law [OF assms(2,3,4) w] v by (auto simp: settled_mutation_def split: if_splits)
qed

end

subsection \<open>The memory patch\<close>

text \<open>The bits of a mask; without one all of them count.\<close>

definition mask_byte :: "byte list option \<Rightarrow> nat \<Rightarrow> byte" where
  "mask_byte bits i = (case bits of None \<Rightarrow> 0xff | Some ks \<Rightarrow> ks ! i)"

definition agree_under :: "byte list option \<Rightarrow> byte list \<Rightarrow> byte list \<Rightarrow> bool" where
  "agree_under bits cs es \<longleftrightarrow> length cs \<le> length es \<and> (\<forall>i < length cs. cs ! i AND mask_byte bits i = es ! i AND mask_byte bits i)"

lemma masked_equal_sound: "masked_equal cs es bits = Some True \<Longrightarrow> agree_under bits cs es"
proof (induction cs es bits rule: masked_equal.induct)
  case (2 c cs e es)
  then show ?case by (auto simp: agree_under_def mask_byte_def nth_Cons split: if_splits nat.splits)
next
  case (3 c cs e es k ks)
  then show ?case by (auto simp: agree_under_def mask_byte_def nth_Cons split: if_splits nat.splits)
qed (simp_all add: agree_under_def)

lemma mempatch_prepare_ok:
  assumes "hk_mempatch_prepare m a n expected bits plan = Some (HK_MEMPATCH_OK, p)"
  shows "a \<noteq> 0" "0 < n" "n \<le> 256" "mpp_size p = n" "mpp_captured p"
    "rd_bytes m a 0 n = Some (take n (mpp_original p))"
    "bv_data expected = Some e \<Longrightarrow> agree_under (bv_data bits) (take n (mpp_original p)) e"
proof -
  obtain current where c: "rd_bytes m a 0 n = Some current"
    and p: "p = \<lparr>mpp_original = current @ replicate (HK_MEMPATCH_MAX - n) 0, mpp_size = n, mpp_captured = True\<rparr>"
    and e: "bv_data expected = Some e \<Longrightarrow> masked_equal current e (bv_data bits) = Some True"
    using assms by (auto simp: hk_mempatch_prepare_def Let_def split: if_splits bind_splits option.splits)
  have "length current = n" using c by (simp add: rd_bytes_iff)
  then have t: "take n (mpp_original p) = current" by (simp add: p)
  show "a \<noteq> 0" "0 < n" "n \<le> 256" using assms by (auto simp: hk_mempatch_prepare_def HK_MEMPATCH_MAX_def split: if_splits)
  show "mpp_size p = n" "mpp_captured p" by (simp_all add: p)
  show "rd_bytes m a 0 n = Some (take n (mpp_original p))" by (simp only: t c)
  show "agree_under (bv_data bits) (take n (mpp_original p)) e" if "bv_data expected = Some e"
    unfolding t by (rule masked_equal_sound [OF e [OF that]])
qed

context patch_writer begin

lemma mempatch_commit_law:
  assumes "hk_mempatch_commit a plan replacement (Some put) sink s = Some (m, sink1, s2)" "direct a" "ok s" "mpp_size plan \<le> 256"
  shows "m = HK_MUTATION_NONE \<and> ok s2 \<and> vm_view s2 = vm_view s \<and> sink1 = sink \<or>
    m = HK_MUTATION_COMPLETE \<and> ok s2 \<and> rd_bytes (vm_view s) a 0 (mpp_size plan) = Some (take (mpp_size plan) (mpp_original plan)) \<and>
      (\<exists>data. bv_data replacement = Some data \<and> mpp_size plan \<le> length data \<and>
        vm_view s2 = patched (vm_view s) a (take (mpp_size plan) data)) \<or>
    m = HK_MUTATION_PARTIAL \<or> m = HK_MUTATION_UNKNOWN"
proof (cases "bv_data replacement")
  case None
  then show ?thesis using assms(1,3) by (simp add: hk_mempatch_commit_def)
next
  case (Some data)
  have l: "length (take (mpp_size plan) data) < 2 ^ 64" using assms(4) by simp
  show ?thesis
    using assms(1,3) put_and_record_law [OF _ assms(2,3) l, of _ sink m sink1 s2]
    by (auto simp: hk_mempatch_commit_def Some Let_def split: if_splits bind_splits)
qed

end

subsection \<open>The terminal inline hook\<close>

lemma pinned_differ_no:
  assumes "pinned_differ current expected = Some False" "bv_data expected = Some e"
  shows "take (min (bv_size expected) (length current)) e = take (min (bv_size expected) (length current)) current"
  using assms by (auto simp: pinned_differ_def Let_def split: if_splits)

text \<open>What a plan holds, relative to the memory it was made in.\<close>

definition inline_ready :: "memory \<Rightarrow> u64 \<Rightarrow> u64 \<Rightarrow> hk_inline_plan \<Rightarrow> bool" where
  "inline_ready m target replacement plan \<longleftrightarrow>
     ipl_captured plan \<and> ipl_address plan = target \<and> ipl_size plan = hk_arm64_branch_size target replacement \<and>
     target \<noteq> 0 \<and> take_bit 2 target = 0 \<and> length (ipl_patch plan) = 16 \<and>
     take (ipl_size plan) (ipl_patch plan) = bytes_of (hk_arm64_emit_branch target replacement) \<and>
     rd_bytes m target 0 (ipl_size plan) = Some (take (ipl_size plan) (ipl_original plan)) \<and>
     \<not> hk_arm64_insn_is_trap (hd (words_of (take (ipl_size plan) (ipl_original plan)))) \<and>
     \<not> hk_arm64_has_early_terminator (butlast (words_of (take (ipl_size plan) (ipl_original plan))))"

lemma inline_prepare_ok:
  assumes "hk_inline_prepare m target replacement req expected plan = Some (HK_INLINE_OK, p)"
  shows "inline_ready m target replacement p" "req = HK_ORIGINAL_NONE" "replacement \<noteq> 0"
    "bv_data expected = Some e \<Longrightarrow> take (min (bv_size expected) (ipl_size p)) e = take (min (bv_size expected) (ipl_size p)) (ipl_original p)"
proof -
  define n where "n = hk_arm64_branch_size target replacement"
  define patch where "patch = bytes_of (hk_arm64_emit_branch target replacement)"
  obtain current where c: "rd_bytes m target 0 n = Some current" "pinned_differ current expected = Some False"
      "\<not> hk_arm64_insn_is_trap (hd (words_of current))" "\<not> (n > 4 \<and> hk_arm64_has_early_terminator (butlast (words_of current)))"
      "length patch = n" "req = HK_ORIGINAL_NONE" "replacement \<noteq> 0" "target \<noteq> 0" "target AND 3 = 0"
    and p: "p = zero_inline_plan\<lparr>ipl_original := buf16 current, ipl_patch := buf16 patch, ipl_address := target, ipl_size := n, ipl_captured := True\<rparr>"
    using assms by (auto simp: hk_inline_prepare_def Let_def n_def patch_def split: if_splits bind_splits)
  have l: "length current = n" "n \<le> 16" using c(1) branch_size_cases [of target replacement] by (auto simp: rd_bytes_iff n_def)
  have t: "take n (buf16 current) = current" "take n (buf16 patch) = patch" using l(1) c(5) by (simp_all add: take_buf16)
  have b: "length (buf16 patch) = 16" using l(2) c(5) by (simp add: buf16_def reloc_sizes)
  have early: "\<not> hk_arm64_has_early_terminator (butlast (words_of current))"
  proof (cases "n > 4")
    case False
    then have "n = 4 * 1" using branch_size_cases [of target replacement] by (auto simp: n_def)
    then have "length (words_of current) = 1" using read_words(2) [of m target 1 current] c(1) by simp
    then show ?thesis by (cases "words_of current") (simp_all add: hk_arm64_has_early_terminator_def)
  qed (use c(4) in simp)
  show "inline_ready m target replacement p"
    unfolding inline_ready_def using c t b early by (simp add: p aligned_and3 n_def [symmetric] patch_def)
  show "req = HK_ORIGINAL_NONE" "replacement \<noteq> 0" by (rule c(6), rule c(7))
  show "take (min (bv_size expected) (ipl_size p)) e = take (min (bv_size expected) (ipl_size p)) (ipl_original p)"
    if "bv_data expected = Some e"
  proof -
    have "take (min (bv_size expected) n) (buf16 current) = take (min (bv_size expected) n) current"
      using l(1) by (simp add: buf16_def)
    then show ?thesis using pinned_differ_no [OF c(2) that] l(1) by (simp add: p)
  qed
qed

text \<open>A branch that stands at the entry is the hook.\<close>

lemma inline_armed:
  assumes "inline_ready m target replacement plan" "rd_bytes m1 target 0 (ipl_size plan) \<noteq> None"
    and "m2 = patched m1 target (take (ipl_size plan) (ipl_patch plan))" "take_bit 2 replacement = 0"
  shows "cmem c = m2 \<Longrightarrow> \<exists>k > 0. \<exists>c2. a64_run other k (target, c) = Some (replacement, c2) \<and> eq_scratch c c2"
    "ipl_size plan \<le> unat (x - target) \<Longrightarrow> m2 x = m1 x"
proof -
  define br where "br = hk_arm64_emit_branch target replacement"
  have a: "ipl_size plan = 4 * length br" "take (ipl_size plan) (ipl_patch plan) = bytes_of br" "take_bit 2 target = 0"
    using assms(1) emit_branch_length [of target replacement] by (auto simp: inline_ready_def br_def)
  have "code_at m2 target br"
    unfolding assms(3) a(2)
  proof (rule patched_code)
    show "m1 (target + of_nat i) \<noteq> None" if "i < 4 * length br" for i
      using assms(2) that by (auto simp: a(1) rd_bytes_iff)
    show "4 * length br < 2 ^ 64" using branch_bytes(1) [of target replacement] by (simp add: br_def)
  qed
  then show "\<exists>k > 0. \<exists>c2. a64_run other k (target, c) = Some (replacement, c2) \<and> eq_scratch c c2" if "cmem c = m2"
    using emit_branch_run [of c target replacement other] aligned_diff [OF assms(4) a(3)] by (simp add: that br_def)
  show "m2 x = m1 x" if "ipl_size plan \<le> unat (x - target)"
    unfolding assms(3) a(2) using that a(1) by (intro patched_outside) (simp add: bytes_of_length)
qed

context patch_writer begin

lemma inline_commit_law:
  assumes "hk_inline_commit plan (Some put) sink s = Some (m, sink1, s2)" "direct (ipl_address plan)" "ok s" "ipl_size plan \<le> 16"
  shows "m = HK_MUTATION_NONE \<and> ok s2 \<and> vm_view s2 = vm_view s \<and> sink1 = sink \<or>
    m = HK_MUTATION_COMPLETE \<and> ok s2 \<and>
      rd_bytes (vm_view s) (ipl_address plan) 0 (ipl_size plan) = Some (take (ipl_size plan) (ipl_original plan)) \<and>
      vm_view s2 = patched (vm_view s) (ipl_address plan) (take (ipl_size plan) (ipl_patch plan)) \<or>
    m = HK_MUTATION_PARTIAL \<or> m = HK_MUTATION_UNKNOWN"
proof -
  have l: "length (take (ipl_size plan) (ipl_patch plan)) < 2 ^ 64" using assms(4) by simp
  show ?thesis
    using assms(1,3) put_and_record_law [OF _ assms(2,3) l, of _ sink m sink1 s2]
    by (auto simp: hk_inline_commit_def Let_def split: if_splits bind_splits)
qed

end

section \<open>The writers there are\<close>

text \<open>The writer of the native backend: at an address that carries no signature, whatever the process does
  with its pages. The writers of the relocating engine are of this kind too.\<close>

interpretation native_patch: patch_writer "hk_platform_write_memory strip" "\<lambda>_. True" "\<lambda>a. strip a = a" for strip
proof
  fix s s1 :: "'s hk_vm_scheme" and a bs m
  assume a: "strip a = a" and l: "length bs < 2 ^ 64" and r: "hk_platform_write_memory strip a bs s = (m, s1)"
  show "m = HK_MUTATION_NONE \<and> True \<and> vm_view s1 = vm_view s \<or>
      m = HK_MUTATION_COMPLETE \<and> True \<and> vm_view s1 = patched (vm_view s) a bs \<or> m = HK_MUTATION_PARTIAL \<or> m = HK_MUTATION_UNKNOWN"
    using patch_memory_contract [OF r [unfolded hk_platform_write_memory_def] l] a by (auto simp: write_contract_def)
qed simp

sublocale code_seams \<subseteq> seam_patch: patch_writer "rs_write S" ok "\<lambda>_. True"
proof
  fix s s1 :: "'x hk_vm_scheme" and a bs m
  show "m = HK_MUTATION_NONE \<and> ok s1 \<and> vm_view s1 = vm_view s \<or>
      m = HK_MUTATION_COMPLETE \<and> ok s1 \<and> vm_view s1 = patched (vm_view s) a bs \<or> m = HK_MUTATION_PARTIAL \<or> m = HK_MUTATION_UNKNOWN"
    if "ok s" "length bs < 2 ^ 64" "rs_write S a bs s = (m, s1)"
    using write_law [OF that] by blast
  show "ok s1" if "ok s" "hk_sys.more s1 = hk_sys.more s"
    using frame_law [OF more_fields(2) [OF that(2)]] that(1) by simp
qed

end
