(* ===== verification/HK_PatchVtables.thy ===== *)
theory HK_PatchVtables
  imports HK_PatchEngines HK_PointerAuth HK_ImageScope HK_Engine HK_RebindVtable
begin

text \<open>
  The adapters of the engines that patch memory to the engine table (\<open>src/engines/HKMemoryVtable.c\<close>,
  \<open>src/engines/HKInlineVtable.c\<close>, \<open>src/engines/HKRelocInlineVtable.c\<close>): the checks of the request before an engine
  sees it, the diagnosis of a refusal, the commit, the reading back, and the release of what was prepared.
\<close>

section \<open>What the adapters share\<close>

definition HK_PATCH_DIAG_IMAGE_SCOPE_BASE :: int where "HK_PATCH_DIAG_IMAGE_SCOPE_BASE = 100"
definition HK_PATCH_DIAG_NON_ATOMIC_PATCH :: int where "HK_PATCH_DIAG_NON_ATOMIC_PATCH = 200"

definition patch_capabilities :: "string \<Rightarrow> hk_target_kind \<Rightarrow> u64 \<Rightarrow> hk_engine_capabilities" where
  "patch_capabilities engine kind reach =
     \<lparr>cap_engine_id = Some engine, cap_backend_group = Some ''HookKit'', cap_display_name = Some ''HookKit'',
      cap_target_kinds = HK_TARGET_KIND_BIT kind, cap_exact_image_scope_targets = HK_TARGET_KIND_BIT kind, cap_install_contexts = 0,
      cap_architectures = HK_ENGINE_ARCHITECTURE_ARM64 OR HK_ENGINE_ARCHITECTURE_ARM64E,
      cap_certified_architectures = HK_ENGINE_ARCHITECTURE_ARM64 OR HK_ENGINE_ARCHITECTURE_ARM64E,
      cap_minimum_ios_version = HK_ENGINE_IOS_VERSION 15 0 0, cap_achievable_reach = reach OR HK_REACH_EXACT_IMAGE_SCOPE,
      cap_original_requirements = 0, cap_prepare_effects = 0, cap_commit_effects = 0, cap_native_grouping = False,
      cap_supports_compensation = False, cap_chainable_target_kinds = 0\<rparr>"

text \<open>A refusal outside the engine, and one of the image scope.\<close>

definition patch_failed :: "hk_prepare_diag \<Rightarrow> string \<Rightarrow> 's \<Rightarrow> (hk_prepare_result \<times> 'p option \<times> hk_prepare_diag) \<times> 's" where
  "patch_failed diag message s = ((HK_PREPARE_FAILED, None, diag\<lparr>pd_error_message := Some message\<rparr>), s)"

definition patch_failed_code :: "hk_prepare_diag \<Rightarrow> int \<Rightarrow> string \<Rightarrow> 's \<Rightarrow> (hk_prepare_result \<times> 'p option \<times> hk_prepare_diag) \<times> 's" where
  "patch_failed_code diag code message s = patch_failed (diag\<lparr>pd_error_code := code\<rparr>) message s"

definition scope_refuses :: "hk_image_scope_status \<Rightarrow> bool" where
  "scope_refuses scope \<longleftrightarrow> scope \<noteq> HK_IMAGE_SCOPE_OK \<and> scope \<noteq> HK_IMAGE_SCOPE_NO_CATALOG"

definition scope_failed :: "hk_prepare_diag \<Rightarrow> hk_image_scope_status \<Rightarrow> 's \<Rightarrow> (hk_prepare_result \<times> 'p option \<times> hk_prepare_diag) \<times> 's" where
  "scope_failed diag scope s =
     patch_failed_code diag (HK_PATCH_DIAG_IMAGE_SCOPE_BASE + int (image_scope_status_num scope)) (hk_image_scope_describe scope) s"

text \<open>The comparison of memory with what should be there.\<close>

definition readback :: "memory \<Rightarrow> u64 \<Rightarrow> byte list \<Rightarrow> string \<Rightarrow> hk_verify_diag \<Rightarrow> (hk_verify_result \<times> hk_verify_diag) option" where
  "readback m address bytes message diag =
     map_option (\<lambda>current. if current = bytes then (HK_VERIFY_OK, diag)
         else (HK_VERIFY_FAILED, diag\<lparr>vd_error_message := Some message\<rparr>))
       (rd_bytes m address 0 (length bytes))"

section \<open>The memory engine\<close>

record 's hk_memory_engine_ctx =
  mx_image_base :: u64
  mx_write :: "'s patch_write_fn option"
  mx_catalog :: "hk_image_catalog option"

record prepared_patch =
  pp_plan :: hk_mempatch_plan
  pp_address :: u64

definition resolve_address :: "'s hk_memory_engine_ctx \<Rightarrow> hk_memory_target \<Rightarrow> u64" where
  "resolve_address ctx mem =
     (if mem_address_is_image_relative mem then mx_image_base ctx + mem_address mem else mem_address mem)"

definition memory_describe :: hk_engine_capabilities where
  "memory_describe = (patch_capabilities ''memory'' HK_TARGET_MEMORY_PATCH HK_REACH_EXACT_MEMORY)\<lparr>cap_commit_effects := HK_EFFECT_MEMORY_MUTATION\<rparr>"

fun mempatch_status_num :: "hk_mempatch_status \<Rightarrow> nat" where
  "mempatch_status_num HK_MEMPATCH_OK = 0"
| "mempatch_status_num HK_MEMPATCH_INVALID_ARGUMENT = 1"
| "mempatch_status_num HK_MEMPATCH_TOO_LARGE = 2"
| "mempatch_status_num HK_MEMPATCH_PRECONDITION_FAILED = 3"

fun mempatch_message :: "hk_mempatch_status \<Rightarrow> string" where
  "mempatch_message HK_MEMPATCH_PRECONDITION_FAILED = ''the region does not hold the bytes the request expected''"
| "mempatch_message HK_MEMPATCH_TOO_LARGE = ''the region is larger than the engine can capture''"
| "mempatch_message _ = ''invalid memory-patch target''"

definition memory_classify :: "hk_mempatch_status \<Rightarrow> hk_prepare_diag \<Rightarrow> hk_prepare_result \<times> hk_prepare_diag" where
  "memory_classify st diag =
     (if st = HK_MEMPATCH_OK then (HK_PREPARE_OK, diag)
      else (HK_PREPARE_FAILED, diag\<lparr>pd_error_code := int (mempatch_status_num st), pd_error_message := Some (mempatch_message st)\<rparr>))"

text \<open>The plan is allocated without being cleared; the engine fills it before anything reads it.\<close>

definition memory_prepare_one_ctx_status :: "'s hk_memory_engine_ctx option \<Rightarrow> hk_hook_spec \<Rightarrow> hk_prepare_diag \<Rightarrow> 's hk_vm_scheme \<Rightarrow>
    ((hk_prepare_result \<times> prepared_patch option \<times> hk_prepare_diag) \<times> 's hk_vm_scheme) option" where
  "memory_prepare_one_ctx_status engine_ctx spec diag s =
     (case (engine_ctx, hs_target spec) of
        (Some ctx, Target_Memory mem) \<Rightarrow> do {
          let address = resolve_address ctx mem;
          scope \<leftarrow> (if mem_address_is_image_relative mem
            then hk_image_scope_check (vm_view s) (mx_catalog ctx) (Some (mem_base_image mem)) False None address
            else Some HK_IMAGE_SCOPE_OK);
          (if scope_refuses scope then Some (scope_failed diag scope s)
           else let (allocated, s1) = sys_alloc s
             in if \<not> allocated then Some (patch_failed diag ''out of memory'' s1)
                else do {
                  (st, plan) \<leftarrow> hk_mempatch_prepare (vm_view s1) address (unat (mem_size mem)) (mem_expected_bytes mem)
                    (mem_expected_mask mem) zero_mempatch_plan;
                  let (result, diag1) = memory_classify st diag;
                  Some ((result, if result = HK_PREPARE_OK then Some \<lparr>pp_plan = plan, pp_address = address\<rparr> else None, diag1), s1)
                })
        }
      | _ \<Rightarrow> Some (patch_failed diag ''memory engine invoked without a writer or with a non-memory target'' s))"

text \<open>A target of another kind would be read as one of this kind: a fault.\<close>

definition memory_commit_one_ctx :: "'s hk_memory_engine_ctx option \<Rightarrow> hk_hook_spec \<Rightarrow> prepared_patch option \<Rightarrow> hk_artifact_sink option \<Rightarrow>
    's hk_vm_scheme \<Rightarrow> (hk_mutation_state \<times> hk_artifact_sink option \<times> 's hk_vm_scheme) option" where
  "memory_commit_one_ctx engine_ctx spec prepared sink s =
     (case (engine_ctx, prepared) of
        (Some ctx, Some p) \<Rightarrow>
          (case hs_target spec of
             Target_Memory mem \<Rightarrow> hk_mempatch_commit (pp_address p) (pp_plan p) (mem_replacement_bytes mem) (mx_write ctx) sink s
           | _ \<Rightarrow> None)
      | _ \<Rightarrow> Some (HK_MUTATION_NONE, sink, s))"

definition memory_verify_one_ctx :: "memory \<Rightarrow> hk_hook_spec \<Rightarrow> prepared_patch option \<Rightarrow> hk_verify_diag \<Rightarrow>
    (hk_verify_result \<times> hk_verify_diag) option" where
  "memory_verify_one_ctx m spec prepared diag =
     (let refused = Some (HK_VERIFY_FAILED, diag\<lparr>vd_error_message := Some ''memory verification received an invalid prepared patch''\<rparr>)
      in case (prepared, hs_target spec) of
        (Some p, Target_Memory mem) \<Rightarrow>
          (case bv_data (mem_replacement_bytes mem) of
             None \<Rightarrow> refused
           | Some data \<Rightarrow>
               if length data < mpp_size (pp_plan p) then None
               else readback m (pp_address p) (take (mpp_size (pp_plan p)) data) ''memory patch readback does not match the replacement'' diag)
      | _ \<Rightarrow> refused)"

section \<open>The terminal inline engine\<close>

record 's hk_inline_engine_ctx =
  nx_write :: "'s patch_write_fn option"
  nx_catalog :: "hk_image_catalog option"
  nx_allow_non_atomic_entry_patch :: bool

definition inline_describe :: hk_engine_capabilities where
  "inline_describe = (patch_capabilities ''inline-terminal'' HK_TARGET_FUNCTION_ADDRESS HK_REACH_ENTRYPOINT)\<lparr>
     cap_original_requirements := HK_ORIGINAL_REQ_BIT HK_ORIGINAL_NONE, cap_commit_effects := HK_EFFECT_TARGET_TEXT_MUTATION\<rparr>"

fun inline_status_num :: "hk_inline_status \<Rightarrow> nat" where
  "inline_status_num HK_INLINE_OK = 0"
| "inline_status_num HK_INLINE_INVALID_ARGUMENT = 1"
| "inline_status_num HK_INLINE_MISALIGNED = 2"
| "inline_status_num HK_INLINE_TARGET_TOO_SHORT = 3"
| "inline_status_num HK_INLINE_TRAP_STUB = 4"
| "inline_status_num HK_INLINE_PRECONDITION_FAILED = 5"
| "inline_status_num HK_INLINE_NEEDS_CONTINUATION = 6"

fun inline_message :: "hk_inline_status \<Rightarrow> string" where
  "inline_message HK_INLINE_MISALIGNED = ''target is not 4-byte aligned, so it is not an A64 entry point''"
| "inline_message HK_INLINE_TARGET_TOO_SHORT = ''function ends inside the overwrite window; the patch would run past it''"
| "inline_message HK_INLINE_TRAP_STUB = ''entry is a trap stub (BRK/HLT/UDF); there is no original to replace''"
| "inline_message HK_INLINE_PRECONDITION_FAILED = ''prologue does not match the bytes the request pinned''"
| "inline_message HK_INLINE_NEEDS_CONTINUATION = ''terminal inline cannot provide an original; use a relocating engine''"
| "inline_message _ = ''invalid inline target''"

definition inline_classify :: "hk_inline_status \<Rightarrow> hk_prepare_diag \<Rightarrow> hk_prepare_result \<times> hk_prepare_diag" where
  "inline_classify st diag =
     (if st = HK_INLINE_OK then (HK_PREPARE_OK, diag)
      else (HK_PREPARE_FAILED, diag\<lparr>pd_error_code := int (inline_status_num st), pd_error_message := Some (inline_message st)\<rparr>))"

text \<open>The entry the request means: without its signature where the request allows that.\<close>

definition entry_address :: "hk_pac \<Rightarrow> hk_address_target \<Rightarrow> u64" where
  "entry_address pac addr =
     (if addr_may_strip_pac_or_thumb_state addr then hk_pac_strip_code pac (addr_address addr) else addr_address addr)"

definition entry_scope :: "hk_pac \<Rightarrow> memory \<Rightarrow> hk_image_catalog option \<Rightarrow> hk_address_target \<Rightarrow> hk_image_scope_status option" where
  "entry_scope pac m catalog addr =
     hk_image_scope_check m catalog (Some (addr_expected_image addr)) (addr_expected_uuid_present addr)
       (Some (addr_expected_uuid addr)) (entry_address pac addr)"

definition non_atomic_message :: string where
  "non_atomic_message = ''entry patch would not be a single aligned store; a thread could enter the function part-patched''"

definition inline_prepare_one_ctx_status :: "hk_pac \<Rightarrow> 's hk_inline_engine_ctx option \<Rightarrow> hk_hook_spec \<Rightarrow> hk_prepare_diag \<Rightarrow>
    's hk_vm_scheme \<Rightarrow> ((hk_prepare_result \<times> hk_inline_plan option \<times> hk_prepare_diag) \<times> 's hk_vm_scheme) option" where
  "inline_prepare_one_ctx_status pac engine_ctx spec diag s =
     (case (engine_ctx, hs_target spec) of
        (Some ctx, Target_Address addr) \<Rightarrow> do {
          scope \<leftarrow> entry_scope pac (vm_view s) (nx_catalog ctx) addr;
          (if scope_refuses scope then Some (scope_failed diag scope s)
           else let (allocated, s1) = sys_alloc s
             in if \<not> allocated then Some (patch_failed diag ''out of memory'' s1)
                else do {
                  (st, plan) \<leftarrow> hk_inline_prepare (vm_view s1) (entry_address pac addr) (hk_pac_strip_code pac (hs_replacement spec))
                    (hs_original_requirement spec) (addr_expected_initial_bytes addr) zero_inline_plan;
                  let (result, diag1) = inline_classify st diag;
                  Some (
                    if result \<noteq> HK_PREPARE_OK then ((result, None, diag1), s1)
                    else if ipl_size plan \<noteq> 4 \<and> \<not> nx_allow_non_atomic_entry_patch ctx
                    then patch_failed_code diag1 HK_PATCH_DIAG_NON_ATOMIC_PATCH non_atomic_message s1
                    else ((HK_PREPARE_OK, Some plan, diag1), s1))
                })
        }
      | _ \<Rightarrow> Some (patch_failed diag ''inline engine invoked without a writer or with a non-address target'' s))"

definition inline_commit_one_ctx :: "'s hk_inline_engine_ctx option \<Rightarrow> hk_inline_plan option \<Rightarrow> hk_artifact_sink option \<Rightarrow>
    's hk_vm_scheme \<Rightarrow> (hk_mutation_state \<times> hk_artifact_sink option \<times> 's hk_vm_scheme) option" where
  "inline_commit_one_ctx engine_ctx prepared sink s =
     (case (engine_ctx, prepared) of
        (Some ctx, Some plan) \<Rightarrow> hk_inline_commit plan (nx_write ctx) sink s
      | _ \<Rightarrow> Some (HK_MUTATION_NONE, sink, s))"

definition inline_verify_one_ctx :: "memory \<Rightarrow> hk_inline_plan option \<Rightarrow> hk_verify_diag \<Rightarrow> (hk_verify_result \<times> hk_verify_diag) option" where
  "inline_verify_one_ctx m prepared diag =
     (case prepared of
        None \<Rightarrow> Some (HK_VERIFY_FAILED, diag\<lparr>vd_error_message := Some ''inline verification received no prepared plan''\<rparr>)
      | Some plan \<Rightarrow> readback m (ipl_address plan) (take (ipl_size plan) (ipl_patch plan))
          ''inline patch readback does not match the emitted branch'' diag)"

section \<open>The relocating inline engine\<close>

record 's hk_reloc_engine_ctx =
  lx_seams :: "'s reloc_seams"
  lx_catalog :: "hk_image_catalog option"
  lx_allow_non_atomic_entry_patch :: bool

definition HK_ORIGINAL_REQ_ALL :: u32 where
  "HK_ORIGINAL_REQ_ALL = HK_ORIGINAL_REQ_BIT HK_ORIGINAL_NONE OR HK_ORIGINAL_REQ_BIT HK_ORIGINAL_DIRECT_PREDECESSOR OR
     HK_ORIGINAL_REQ_BIT HK_ORIGINAL_CALLABLE_CONTINUATION"

definition reloc_describe :: hk_engine_capabilities where
  "reloc_describe = (patch_capabilities ''inline-relocating'' HK_TARGET_FUNCTION_ADDRESS HK_REACH_ENTRYPOINT)\<lparr>
     cap_original_requirements := HK_ORIGINAL_REQ_ALL,
     cap_prepare_effects := HK_EFFECT_EXECUTABLE_ALLOCATION OR HK_EFFECT_STATIC_CONTINUATION_USE,
     cap_commit_effects := HK_EFFECT_TARGET_TEXT_MUTATION OR HK_EFFECT_EXECUTABLE_ALLOCATION OR HK_EFFECT_STATIC_CONTINUATION_USE\<rparr>"

definition static_describe :: hk_engine_capabilities where
  "static_describe = (patch_capabilities ''inline-static'' HK_TARGET_FUNCTION_ADDRESS HK_REACH_ENTRYPOINT)\<lparr>
     cap_original_requirements := HK_ORIGINAL_REQ_ALL, cap_prepare_effects := HK_EFFECT_STATIC_CONTINUATION_USE,
     cap_commit_effects := HK_EFFECT_TARGET_TEXT_MUTATION OR HK_EFFECT_STATIC_CONTINUATION_USE\<rparr>"

fun reloc_status_num :: "hk_reloc_status \<Rightarrow> nat" where
  "reloc_status_num HK_RELOC_OK = 0"
| "reloc_status_num HK_RELOC_INVALID_ARGUMENT = 1"
| "reloc_status_num HK_RELOC_MISALIGNED = 2"
| "reloc_status_num HK_RELOC_TARGET_TOO_SHORT = 3"
| "reloc_status_num HK_RELOC_TRAP_STUB = 4"
| "reloc_status_num HK_RELOC_PRECONDITION_FAILED = 5"
| "reloc_status_num HK_RELOC_UNRELOCATABLE = 6"
| "reloc_status_num HK_RELOC_NO_TRAMPOLINE = 7"

fun reloc_message :: "hk_reloc_status \<Rightarrow> string" where
  "reloc_message HK_RELOC_MISALIGNED = ''target is not 4-byte aligned, so it is not an A64 entry point''"
| "reloc_message HK_RELOC_TARGET_TOO_SHORT = ''a displaced instruction ends the function; the relocated copy would never reach the jump back''"
| "reloc_message HK_RELOC_TRAP_STUB = ''entry is a trap stub (BRK/HLT/UDF); there is no original to preserve''"
| "reloc_message HK_RELOC_PRECONDITION_FAILED = ''prologue does not match the bytes the request pinned''"
| "reloc_message HK_RELOC_UNRELOCATABLE = ''a displaced instruction cannot be rewritten to run from a new address''"
| "reloc_message HK_RELOC_NO_TRAMPOLINE = ''could not obtain or seal an executable page for the trampoline''"
| "reloc_message _ = ''invalid relocating-inline target''"

definition reloc_classify :: "hk_reloc_status \<Rightarrow> hk_prepare_diag \<Rightarrow> hk_prepare_result \<times> hk_prepare_diag" where
  "reloc_classify st diag =
     (if st = HK_RELOC_OK then (HK_PREPARE_OK, diag)
      else (HK_PREPARE_FAILED, diag\<lparr>pd_error_code := int (reloc_status_num st), pd_error_message := Some (reloc_message st)\<rparr>))"

text \<open>The pinned bytes as the engine takes them: as many as the request says it has.\<close>

definition view_bytes :: "hk_bytes_view \<Rightarrow> byte list option" where
  "view_bytes v = map_option (take (bv_size v)) (bv_data v)"

text \<open>The page goes back when a seam for that exists and a page is held.\<close>

definition give_page_back :: "'s reloc_seams \<Rightarrow> hk_reloc_plan \<Rightarrow> 's hk_vm_scheme \<Rightarrow> 's hk_vm_scheme" where
  "give_page_back S plan s =
     (case rs_free S of
        Some f \<Rightarrow> if rp_trampoline plan \<noteq> 0 then f (rp_trampoline plan) (rp_trampoline_size plan) s else s
      | None \<Rightarrow> s)"

definition accept_plan :: "'s hk_reloc_engine_ctx \<Rightarrow> hk_hook_spec \<Rightarrow> hk_prepare_diag \<Rightarrow> hk_reloc_plan \<Rightarrow> 's hk_vm_scheme \<Rightarrow>
    (hk_prepare_result \<times> hk_reloc_plan option \<times> hk_prepare_diag) \<times> 's hk_vm_scheme" where
  "accept_plan ctx spec diag plan s =
     (if \<not> rp_atomic_entry_patch plan \<and> \<not> lx_allow_non_atomic_entry_patch ctx
      then patch_failed_code diag HK_PATCH_DIAG_NON_ATOMIC_PATCH non_atomic_message (give_page_back (lx_seams ctx) plan s)
      else ((HK_PREPARE_OK, Some (plan\<lparr>rp_replacement := hs_replacement spec\<rparr>),
             diag\<lparr>pd_observed_effects := if am_kind (rp_mapping plan) = HK_MAPPING_STATIC_HOOKKIT_SECTION
               then HK_EFFECT_STATIC_CONTINUATION_USE else HK_EFFECT_EXECUTABLE_ALLOCATION\<rparr>), s))"

definition reloc_prepare_one_ctx_status :: "hk_pac \<Rightarrow> 's hk_reloc_engine_ctx option \<Rightarrow> hk_hook_spec \<Rightarrow> hk_prepare_diag \<Rightarrow>
    's hk_vm_scheme \<Rightarrow> ((hk_prepare_result \<times> hk_reloc_plan option \<times> hk_prepare_diag) \<times> 's hk_vm_scheme) option" where
  "reloc_prepare_one_ctx_status pac engine_ctx spec diag s =
     (case (engine_ctx, hs_target spec) of
        (Some ctx, Target_Address addr) \<Rightarrow> do {
          scope \<leftarrow> entry_scope pac (vm_view s) (lx_catalog ctx) addr;
          (if scope_refuses scope then Some (scope_failed diag scope s)
           else let (allocated, s1) = sys_alloc s
             in if \<not> allocated then Some (patch_failed diag ''out of memory'' s1)
                else do {
                  (result, s2) \<leftarrow> hk_reloc_prepare (lx_seams ctx) (entry_address pac addr) (hk_pac_strip_code pac (hs_replacement spec))
                    (view_bytes (addr_expected_initial_bytes addr)) s1;
                  (case result of
                     Inl st \<Rightarrow> (let (verdict, diag1) = reloc_classify st diag in Some ((verdict, None, diag1), s2))
                   | Inr plan \<Rightarrow> Some (accept_plan ctx spec diag plan s2))
                })
        }
      | _ \<Rightarrow> Some (patch_failed diag ''relocating inline engine invoked without seams or with a non-address target'' s))"

definition reloc_inspect_continuation :: "hk_pac \<Rightarrow> 's hk_reloc_engine_ctx option \<Rightarrow> hk_hook_spec \<Rightarrow> hk_reloc_plan option \<Rightarrow>
    hk_continuation_info \<Rightarrow> hk_verify_diag \<Rightarrow> hk_verify_result \<times> hk_continuation_info \<times> hk_verify_diag" where
  "reloc_inspect_continuation pac engine_ctx spec prepared info diag =
     (case (engine_ctx, prepared) of
        (Some _, Some plan) \<Rightarrow>
          if target_kind (hs_target spec) \<noteq> HK_TARGET_FUNCTION_ADDRESS
          then (HK_VERIFY_FAILED, info, diag\<lparr>vd_error_code := 1,
                 vd_error_message := Some ''relocating-inline continuation inspection received invalid state''\<rparr>)
          else (HK_VERIFY_OK, hk_reloc_describe_continuation (hk_pac_make_callable pac) plan, diag)
      | _ \<Rightarrow> (HK_VERIFY_FAILED, info, diag\<lparr>vd_error_code := 1,
               vd_error_message := Some ''relocating-inline continuation inspection received invalid state''\<rparr>))"

text \<open>What the sink is told after the engine's records: the original, once the hook is in place, and the continuation
  as the plan describes it now.\<close>

definition tell_sink :: "hk_pac \<Rightarrow> hk_mutation_state \<Rightarrow> hk_reloc_plan \<Rightarrow> hk_artifact_sink \<Rightarrow> hk_artifact_sink" where
  "tell_sink pac state plan sink =
     (let sink1 = (if state = HK_MUTATION_COMPLETE then sink\<lparr>sk_published_original := hk_pac_make_callable pac (rp_original_entry plan)\<rparr> else sink)
      in sink1\<lparr>sk_continuation := hk_reloc_describe_continuation (hk_pac_make_callable pac) plan, sk_has_continuation := True\<rparr>)"

definition reloc_commit_one_ctx :: "hk_pac \<Rightarrow> 's hk_reloc_engine_ctx option \<Rightarrow> hk_reloc_plan option \<Rightarrow> hk_artifact_sink option \<Rightarrow>
    's hk_vm_scheme \<Rightarrow> (hk_mutation_state \<times> hk_reloc_plan option \<times> hk_artifact_sink option \<times> 's hk_vm_scheme) option" where
  "reloc_commit_one_ctx pac engine_ctx prepared sink s =
     (case (engine_ctx, prepared) of
        (Some ctx, Some plan) \<Rightarrow> do {
          ((state, arts, plan1), s1) \<leftarrow> hk_reloc_commit (hk_pac_make_callable pac) (lx_seams ctx) plan s;
          Some (case sink of
              None \<Rightarrow> (state, Some plan1, None, s1)
            | Some k \<Rightarrow> (let (k1, s2) = sink_record_all arts k s1 in (state, Some plan1, Some (tell_sink pac state plan1 k1), s2)))
        }
      | _ \<Rightarrow> Some (HK_MUTATION_NONE, prepared, sink, s))"

definition reloc_verify_one_ctx :: "memory \<Rightarrow> hk_reloc_plan option \<Rightarrow> hk_verify_diag \<Rightarrow> (hk_verify_result \<times> hk_verify_diag) option" where
  "reloc_verify_one_ctx m prepared diag =
     (case prepared of
        None \<Rightarrow> Some (HK_VERIFY_FAILED, diag\<lparr>vd_error_message := Some ''relocating-inline verification received no prepared plan''\<rparr>)
      | Some plan \<Rightarrow> readback m (rp_address plan) (take (rp_patch_size plan) (rp_patch plan))
          ''relocating-inline readback does not match the emitted branch'' diag)"

text \<open>An abandoned preparation gives its page back; one whose entry is patched, or that gave it back before, has none to give.\<close>

definition reloc_release_prepared :: "'s hk_reloc_engine_ctx option \<Rightarrow> hk_reloc_plan option \<Rightarrow> 's hk_vm_scheme \<Rightarrow> 's hk_vm_scheme" where
  "reloc_release_prepared engine_ctx prepared s =
     (case (engine_ctx, prepared) of
        (Some ctx, Some plan) \<Rightarrow> if rp_activated plan then s else give_page_back (lx_seams ctx) plan s
      | _ \<Rightarrow> s)"

end
