(* ===== verification/HK_PatchVtables_Props.thy ===== *)
theory HK_PatchVtables_Props
  imports HK_PatchVtables HK_Reloc_Sample
begin

text \<open>
  What the adapters promise, from preparation over commit to verification and release: a memory patch replaces
  exactly the region the caller described and can be taken back, a terminal inline hook is in place when it
  says so, and the relocating adapter holds a page exactly as long as it has a use for it.
\<close>

section \<open>Shared facts\<close>

lemma alloc_more: "sys_alloc s = (b, s1) \<Longrightarrow> hk_sys.more s1 = hk_sys.more s"
  by (drule sys_alloc_frame) (rule only_allocD)

lemma alloc_view: "sys_alloc s = (b, s1) \<Longrightarrow> vm_view s1 = vm_view s"
  by (rule more_fields(1) [OF alloc_more])

lemma unat_offset: "n \<le> 256 \<Longrightarrow> k < n \<Longrightarrow> unat (of_nat k :: u64) = k"
  by (simp add: unat_of_nat take_bit_nat_eq_self)

lemma patched_read:
  assumes "rd_bytes m a 0 n = Some old" "length bs = n" "n \<le> 256"
  shows "rd_bytes (patched m a bs) a 0 n = Some bs"
  using assms unat_offset [OF assms(3)] by (auto simp: rd_bytes_iff patched_def)

lemma patched_back:
  assumes "rd_bytes m a 0 n = Some old" "length bs = n" "n \<le> 256"
  shows "patched (patched m a bs) a old = m"
proof
  fix x
  have l: "length old = n" "\<And>k. k < n \<Longrightarrow> m (a + of_nat k) = Some (old ! k)" using assms(1) by (simp_all add: rd_bytes_iff)
  show "patched (patched m a bs) a old x = m x"
  proof (cases "unat (x - a) < n")
    case True
    have "a + of_nat (unat (x - a)) = x" by simp
    then have "m x = Some (old ! unat (x - a))" using l(2) [OF True] by simp
    then show ?thesis using True l(1) assms(2) by (simp add: patched_def)
  qed (simp add: patched_def l(1) assms(2))
qed

lemma readback_same: "rd_bytes m a 0 (length bs) = Some bs \<Longrightarrow> readback m a bs message diag = Some (HK_VERIFY_OK, diag)"
  by (simp add: readback_def)

lemma scope_ok: "\<not> scope_refuses scope \<Longrightarrow> scope = HK_IMAGE_SCOPE_OK \<or> scope = HK_IMAGE_SCOPE_NO_CATALOG"
  by (auto simp: scope_refuses_def)

section \<open>The memory patch\<close>

lemma memory_preparedD:
  assumes "memory_prepare_one_ctx_status (Some ctx) spec diag s = Some ((HK_PREPARE_OK, prepared, diag1), s1)"
  obtains mem p where "hs_target spec = Target_Memory mem" "prepared = Some p" "pp_address p = resolve_address ctx mem" "diag1 = diag"
    "hk_mempatch_prepare (vm_view s) (pp_address p) (unat (mem_size mem)) (mem_expected_bytes mem) (mem_expected_mask mem)
       zero_mempatch_plan = Some (HK_MEMPATCH_OK, pp_plan p)"
proof -
  obtain mem where t: "hs_target spec = Target_Memory mem"
    using assms by (cases "hs_target spec") (simp_all add: memory_prepare_one_ctx_status_def patch_failed_def)
  obtain b s2 where al: "sys_alloc s = (b, s2)" by fastforce
  note v = alloc_view [OF al]
  obtain st plan where e: "hk_mempatch_prepare (vm_view s) (resolve_address ctx mem) (unat (mem_size mem)) (mem_expected_bytes mem)
      (mem_expected_mask mem) zero_mempatch_plan = Some (st, plan)" "memory_classify st diag = (HK_PREPARE_OK, diag1)"
    "prepared = Some \<lparr>pp_plan = plan, pp_address = resolve_address ctx mem\<rparr>"
    using assms
    by (auto simp: memory_prepare_one_ctx_status_def t Let_def al v scope_failed_def patch_failed_code_def patch_failed_def
        split: bind_splits if_splits prod.splits)
  have "st = HK_MEMPATCH_OK" "diag1 = diag" using e(2) by (auto simp: memory_classify_def split: if_splits)
  then show ?thesis using that [OF t e(3)] e(1) by simp
qed

section \<open>The terminal inline hook\<close>

lemma inline_preparedD:
  assumes "inline_prepare_one_ctx_status pac (Some ctx) spec diag s = Some ((HK_PREPARE_OK, prepared, diag1), s1)"
  obtains addr plan where "hs_target spec = Target_Address addr" "prepared = Some plan"
    "nx_allow_non_atomic_entry_patch ctx \<or> ipl_size plan = 4"
    "entry_scope pac (vm_view s) (nx_catalog ctx) addr \<in> {Some HK_IMAGE_SCOPE_OK, Some HK_IMAGE_SCOPE_NO_CATALOG}"
    "hk_inline_prepare (vm_view s) (entry_address pac addr) (hk_pac_strip_code pac (hs_replacement spec)) (hs_original_requirement spec)
       (addr_expected_initial_bytes addr) zero_inline_plan = Some (HK_INLINE_OK, plan)"
proof -
  obtain addr where t: "hs_target spec = Target_Address addr"
    using assms by (cases "hs_target spec") (simp_all add: inline_prepare_one_ctx_status_def patch_failed_def)
  obtain b s2 where al: "sys_alloc s = (b, s2)" by fastforce
  note v = alloc_view [OF al]
  obtain scope where sc: "entry_scope pac (vm_view s) (nx_catalog ctx) addr = Some scope"
    using assms by (auto simp: inline_prepare_one_ctx_status_def t split: bind_splits)
  have ns: "\<not> scope_refuses scope" and b: "b"
    using assms by (auto simp: inline_prepare_one_ctx_status_def t sc al scope_failed_def patch_failed_code_def patch_failed_def split: if_splits)
  define prep where "prep = hk_inline_prepare (vm_view s) (entry_address pac addr) (hk_pac_strip_code pac (hs_replacement spec))
      (hs_original_requirement spec) (addr_expected_initial_bytes addr) zero_inline_plan"
  have run: "Option.bind prep (\<lambda>(st, plan). let (result, diag1) = inline_classify st diag in Some (
      if result \<noteq> HK_PREPARE_OK then ((result, None, diag1), s2)
      else if ipl_size plan \<noteq> 4 \<and> \<not> nx_allow_non_atomic_entry_patch ctx
      then patch_failed_code diag1 HK_PATCH_DIAG_NON_ATOMIC_PATCH non_atomic_message s2
      else ((HK_PREPARE_OK, Some plan, diag1), s2))) = Some ((HK_PREPARE_OK, prepared, diag1), s1)"
    using assms ns b by (simp add: inline_prepare_one_ctx_status_def t sc al v prep_def)
  then obtain st plan where p: "prep = Some (st, plan)" by (cases prep) auto
  obtain result diag2 where cl: "inline_classify st diag = (result, diag2)" by fastforce
  have "result = HK_PREPARE_OK \<and> (ipl_size plan = 4 \<or> nx_allow_non_atomic_entry_patch ctx) \<and> prepared = Some plan"
    using run by (simp add: p cl patch_failed_code_def patch_failed_def split: if_splits)
  note e = sc ns p [unfolded prep_def] this
  have "st = HK_INLINE_OK" using e(4) cl by (auto simp: inline_classify_def split: if_splits)
  moreover have "entry_scope pac (vm_view s) (nx_catalog ctx) addr \<in> {Some HK_IMAGE_SCOPE_OK, Some HK_IMAGE_SCOPE_NO_CATALOG}"
    using scope_ok [OF e(2)] e(1) by auto
  ultimately show ?thesis using that [OF t] e(3,4) by blast
qed

text \<open>Where there is a catalog, the entry lies in an image of the expected build that the request names.\<close>

lemma entry_scope_span:
  assumes "entry_scope pac m (Some cat) addr \<in> {Some HK_IMAGE_SCOPE_OK, Some HK_IMAGE_SCOPE_NO_CATALOG}" "ic_entries cat \<noteq> []"
  shows "\<exists>e \<in> named_entries cat (addr_expected_image addr).
    right_build (addr_expected_uuid_present addr) (addr_expected_uuid addr) e \<and> span_holds m (entry_address pac addr) e"
proof -
  obtain st where "hk_image_scope_check m (Some cat) (Some (addr_expected_image addr)) (addr_expected_uuid_present addr)
      (Some (addr_expected_uuid addr)) (entry_address pac addr) = Some st" "st = HK_IMAGE_SCOPE_OK \<or> st = HK_IMAGE_SCOPE_NO_CATALOG"
    using assms(1) by (auto simp: entry_scope_def)
  then have "(if \<exists>e \<in> named_entries cat (addr_expected_image addr).
        right_build (addr_expected_uuid_present addr) (addr_expected_uuid addr) e \<and> span_holds m (entry_address pac addr) e then HK_IMAGE_SCOPE_OK
      else if named_entries cat (addr_expected_image addr) = {} then HK_IMAGE_SCOPE_NO_MATCH
      else if \<forall>e \<in> named_entries cat (addr_expected_image addr). \<not> right_build (addr_expected_uuid_present addr) (addr_expected_uuid addr) e
      then HK_IMAGE_SCOPE_UUID_MISMATCH
      else if \<exists>e \<in> named_entries cat (addr_expected_image addr). right_build (addr_expected_uuid_present addr) (addr_expected_uuid addr) e \<and>
        entry_span m e = Some None then HK_IMAGE_SCOPE_UNREADABLE_IMAGE
      else HK_IMAGE_SCOPE_ADDRESS_OUTSIDE) \<in> {HK_IMAGE_SCOPE_OK, HK_IMAGE_SCOPE_NO_CATALOG}" (is "(if ?p then _ else ?q) \<in> _")
    using scope_check_value [OF assms(2)] by simp
  then show ?thesis by (cases ?p) (simp_all split: if_splits)
qed

section \<open>The pages of the relocating adapter\<close>

lemma give_page_back_cases:
  "give_page_back S plan s = s \<or>
   (\<exists>f. rs_free S = Some f \<and> rp_trampoline plan \<noteq> 0 \<and> give_page_back S plan s = f (rp_trampoline plan) (rp_trampoline_size plan) s)"
  by (simp add: give_page_back_def split: option.split)

lemma give_page_back_replacement [simp]: "give_page_back S (plan\<lparr>rp_replacement := v\<rparr>) = give_page_back S plan"
  by (simp add: give_page_back_def fun_eq_iff split: option.split)

lemma sink_record_all_more: "sink_record_all arts k s = (k1, s1) \<Longrightarrow> hk_sys.more s1 = hk_sys.more s"
proof (induction arts arbitrary: k s)
  case (Cons a arts)
  obtain b k2 s2 where r: "hk_artifact_sink_record k a s = ((b, k2), s2)" by (metis surj_pair)
  then show ?case using Cons sink_record_step(6) [OF r] by simp
qed simp

text \<open>A refusal of the engine is never the status of success.\<close>

lemma build_status: "reloc_build S target replacement overwrite expected page mp s \<noteq> Some (Inl HK_RELOC_OK, s1)"
  by (simp add: reloc_build_def Let_def split: prod.split option.split bind_splits)

lemma prepare_status: "reloc_prepare S target replacement overwrite expected s \<noteq> Some (Inl HK_RELOC_OK, s1)"
proof
  assume r: "reloc_prepare S target replacement overwrite expected s = Some (Inl HK_RELOC_OK, s1)"
  obtain page mp s2 where al: "rs_alloc S HK_RELOC_PAGE_BYTES target s = ((page, mp), s2)" by (metis surj_pair)
  show False
  proof (cases "reloc_build S target replacement overwrite expected page mp s2")
    case None
    then show ?thesis using r by (simp add: reloc_prepare_def Let_def al split: if_splits)
  next
    case (Some x)
    then obtain res s3 where "reloc_build S target replacement overwrite expected page mp s2 = Some (res, s3)" by (cases x) auto
    then show ?thesis using r build_status [of S target replacement overwrite expected page mp s2 s3] by (auto simp: reloc_prepare_def Let_def al split: if_splits sum.splits)
  qed
qed

text \<open>A plan that took part in a commit has no page to give back any more.\<close>

lemma commit_spends:
  assumes "hk_reloc_commit callable S plan s = Some ((m, arts, plan2), s1)" "rp_captured plan" "rp_address plan \<noteq> 0"
    "0 < rp_patch_size plan" "rp_patch_size plan \<le> 16" "rs_free S \<noteq> None" "rp_trampoline plan \<noteq> 0"
  shows "rp_activated plan2 \<or> rp_trampoline plan2 = 0"
proof (cases "rp_activated plan")
  case True
  then show ?thesis using assms(1) by (simp add: hk_reloc_commit_def)
next
  case False
  have g: "\<not> (\<not> rp_captured plan \<or> rp_address plan = 0 \<or> rp_patch_size plan = 0 \<or> rp_patch_size plan > HK_RELOC_MAX_PATCH)"
    using assms by (simp add: reloc_sizes)
  show ?thesis
    using assms(1,6,7) unfolding hk_reloc_commit_def if_not_P [OF False] if_not_P [OF g]
    by (auto simp: Let_def split: bind_splits prod.splits if_splits)
qed

context code_seams begin

lemma release_plan:
  assumes "ok s" "target \<noteq> 0" "rs_alloc S HK_RELOC_PAGE_BYTES target s = ((page, mp), s0)" "page \<noteq> 0" "rp_trampoline plan = page"
    and "ok s2" "live s2 = live s0" "rs_free S \<noteq> None"
  shows "ok (give_page_back S plan s2) \<and> live (give_page_back S plan s2) = live s"
proof -
  obtain f where f: "rs_free S = Some f" using assms(8) by blast
  show ?thesis
    using release_law [OF assms(1,3,4,6,7) f] by (simp add: give_page_back_def f assms(4,5))
qed

text \<open>What a successful preparation of the engine leaves for the adapter: whoever holds the plan can give its page back,
  and a commit either gives it back or spends it.\<close>

definition holds_page :: "'x hk_vm_scheme \<Rightarrow> 'x hk_vm_scheme \<Rightarrow> hk_reloc_plan \<Rightarrow> bool" where
  "holds_page s s1 plan \<longleftrightarrow> ok s1 \<and> (\<exists>r. r \<notin> live s \<and> live s1 = insert r (live s)) \<and>
     \<not> rp_activated plan \<and> rp_captured plan \<and> rp_address plan \<noteq> 0 \<and> 0 < rp_patch_size plan \<and> rp_patch_size plan \<le> 16 \<and>
     rp_trampoline plan \<noteq> 0 \<and>
     (\<forall>s2. ok s2 \<longrightarrow> live s2 = live s1 \<longrightarrow> ok (give_page_back S plan s2) \<and> live (give_page_back S plan s2) = live s)"

lemma prepare_holds_page:
  assumes "ok s" "hk_reloc_prepare S target replacement expected s = Some (Inr plan, s1)" "rs_free S \<noteq> None"
  shows "holds_page s s1 plan"
proof -
  obtain page mp s0 where p: "ok s1" "target \<noteq> 0" "page \<noteq> 0" "rs_alloc S HK_RELOC_PAGE_BYTES target s = ((page, mp), s0)"
      "live s1 = live s0" and b: "built s0 target replacement 0 page plan s1"
    using prepare_law [OF assms(1) assms(2) [unfolded hk_reloc_prepare_def] assms(3)] by auto
  note d = builtD [OF b]
  have "ok (give_page_back S plan s2) \<and> live (give_page_back S plan s2) = live s" if "ok s2" "live s2 = live s1" for s2
    using release_plan [OF assms(1) p(2,4,3) d(6) that(1) _ assms(3)] that(2) p(5) by simp
  moreover have "\<exists>r. r \<notin> live s \<and> live s1 = insert r (live s)" using fresh_page(3) [OF assms(1) p(4,3)] p(5) by simp
  ultimately show ?thesis unfolding holds_page_def using d p by simp
qed

lemma holds_page_commit:
  assumes "holds_page s s1 plan" "hk_reloc_commit callable S plan s2 = Some ((m, arts, plan2), s3)" "ok s2" "live s2 = live s1"
    "rs_free S \<noteq> None"
  shows "m = HK_MUTATION_NONE \<Longrightarrow> ok s3 \<and> live s3 = live s \<and> arts = []"
    "m = HK_MUTATION_COMPLETE \<Longrightarrow> ok s3 \<and> live s3 = live s1" "rp_activated plan2 \<or> rp_trampoline plan2 = 0"
proof -
  have h: "\<not> rp_activated plan" "rp_captured plan" "rp_address plan \<noteq> 0" "0 < rp_patch_size plan" "rp_patch_size plan \<le> 16"
      "rp_trampoline plan \<noteq> 0"
      "\<And>s2. ok s2 \<Longrightarrow> live s2 = live s1 \<Longrightarrow> ok (give_page_back S plan s2) \<and> live (give_page_back S plan s2) = live s"
    using assms(1) by (simp_all add: holds_page_def)
  note law = commit_law [OF assms(3,2) h(2,1,3,4,5)]
  show "ok s3 \<and> live s3 = live s \<and> arts = []" if none: "m = HK_MUTATION_NONE"
  proof -
    obtain s' where n: "arts = []" "ok s'" "live s' = live s2" "s3 = the (rs_free S) (rp_trampoline plan) (rp_trampoline_size plan) s'"
      using law(2) [OF none assms(5) h(6)] by blast
    have "s3 = give_page_back S plan s'" using assms(5) h(6) n(4) by (auto simp: give_page_back_def)
    then show ?thesis using h(7) [OF n(2)] n(1,3) assms(4) by simp
  qed
  show "ok s3 \<and> live s3 = live s1" if "m = HK_MUTATION_COMPLETE" using law(1) [OF that] assms(4) by simp
  show "rp_activated plan2 \<or> rp_trampoline plan2 = 0" by (rule commit_spends [OF assms(2) h(2,3,4,5) assms(5) h(6)])
qed

text \<open>The adapter.\<close>

lemma adapter_prepare:
  assumes "ok s" "lx_seams ctx = S" "rs_free S \<noteq> None"
    and "reloc_prepare_one_ctx_status pac (Some ctx) spec diag s = Some ((res, prepared, diag1), s1)"
  shows "case prepared of None \<Rightarrow> res = HK_PREPARE_FAILED \<and> ok s1 \<and> live s1 = live s
    | Some plan \<Rightarrow> res = HK_PREPARE_OK \<and> holds_page s s1 plan \<and> (rp_atomic_entry_patch plan \<or> lx_allow_non_atomic_entry_patch ctx)"
proof (cases "hs_target spec")
  case (Target_Address addr)
  obtain scope where sc: "entry_scope pac (vm_view s) (lx_catalog ctx) addr = Some scope"
    using assms(4) by (auto simp: reloc_prepare_one_ctx_status_def Target_Address split: bind_splits)
  obtain b s0 where al: "sys_alloc s = (b, s0)" by fastforce
  have f: "ok s0" "live s0 = live s" using frame_law [OF more_fields(2) [OF alloc_more [OF al]]] assms(1) by simp_all
  show ?thesis
  proof (cases "scope_refuses scope \<or> \<not> b")
    case True
    then have "prepared = None \<and> res = HK_PREPARE_FAILED \<and> (s1 = s \<or> s1 = s0)"
      using assms(4) by (auto simp: reloc_prepare_one_ctx_status_def Target_Address sc al scope_failed_def patch_failed_code_def
          patch_failed_def split: if_splits)
    then show ?thesis using f assms(1) by auto
  next
    case False
    define prep where "prep = hk_reloc_prepare S (entry_address pac addr) (hk_pac_strip_code pac (hs_replacement spec))
      (view_bytes (addr_expected_initial_bytes addr)) s0"
    have run: "Option.bind prep (\<lambda>(result, s2). case result of
          Inl st \<Rightarrow> (let (verdict, diag1) = reloc_classify st diag in Some ((verdict, None, diag1), s2))
        | Inr plan \<Rightarrow> Some (accept_plan ctx spec diag plan s2)) = Some ((res, prepared, diag1), s1)"
      using assms(4) False by (simp add: reloc_prepare_one_ctx_status_def Target_Address sc al prep_def assms(2))
    then obtain result s2 where p: "prep = Some (result, s2)" by (cases prep) auto
    note eng = p [unfolded prep_def]
    show ?thesis
    proof (cases result)
      case (Inl st)
      have "st \<noteq> HK_RELOC_OK"
        using eng [unfolded Inl hk_reloc_prepare_def] by (metis prepare_status)
      then have "prepared = None" "res = HK_PREPARE_FAILED" "s1 = s2" using run by (simp_all add: p Inl reloc_classify_def)
      then show ?thesis using prepare_law [OF f(1) eng [unfolded Inl hk_reloc_prepare_def] assms(3)] f(2) by simp
    next
      case (Inr plan)
      have h0: "holds_page s0 s2 plan" by (rule prepare_holds_page [OF f(1) eng [unfolded Inr] assms(3)])
      then have h: "holds_page s s2 plan" "ok s2" by (simp_all add: holds_page_def f(2))
      have acc: "accept_plan ctx spec diag plan s2 = ((res, prepared, diag1), s1)" using run by (simp add: p Inr)
      show ?thesis
      proof (cases "\<not> rp_atomic_entry_patch plan \<and> \<not> lx_allow_non_atomic_entry_patch ctx")
        case True
        then have "prepared = None" "res = HK_PREPARE_FAILED" "s1 = give_page_back S plan s2"
          using acc by (auto simp: accept_plan_def patch_failed_code_def patch_failed_def assms(2))
        then show ?thesis using h by (simp add: holds_page_def)
      next
        case False
        then have "prepared = Some (plan\<lparr>rp_replacement := hs_replacement spec\<rparr>)" "res = HK_PREPARE_OK" "s1 = s2"
          using acc by (auto simp: accept_plan_def)
        then show ?thesis using h False by (simp add: holds_page_def)
      qed
    qed
  qed
qed (use assms(1,4) in \<open>simp_all add: reloc_prepare_one_ctx_status_def patch_failed_def\<close>)

lemma adapter_commit:
  assumes "holds_page s s1 plan" "lx_seams ctx = S" "rs_free S \<noteq> None" "ok s2" "live s2 = live s1"
    and "reloc_commit_one_ctx pac (Some ctx) (Some plan) sink s2 = Some (m, prepared2, sink1, s3)"
  shows "(m = HK_MUTATION_NONE \<longrightarrow> ok s3 \<and> live s3 = live s) \<and> (m = HK_MUTATION_COMPLETE \<longrightarrow> ok s3 \<and> live s3 = live s1) \<and>
    reloc_release_prepared (Some ctx) prepared2 s3 = s3"
proof -
  obtain m1 arts plan2 s4 where c: "hk_reloc_commit (hk_pac_make_callable pac) S plan s2 = Some ((m1, arts, plan2), s4)"
    using assms(6) by (auto simp: reloc_commit_one_ctx_def assms(2) split: bind_splits)
  have e: "m1 = m \<and> prepared2 = Some plan2 \<and> hk_sys.more s3 = hk_sys.more s4"
    using assms(6)
    by (auto simp: reloc_commit_one_ctx_def assms(2) c split: option.splits prod.splits dest: sink_record_all_more)
  note law = holds_page_commit [OF assms(1) c assms(4,5,3)]
  have f: "ok s3 = ok s4" "live s3 = live s4" using frame_law [OF more_fields(2)] e by blast+
  show ?thesis
    using law e f by (auto simp: reloc_release_prepared_def give_page_back_def assms(2) split: option.splits)
qed

lemma adapter_no_leak:
  assumes "ok s" "lx_seams ctx = S" "rs_free S \<noteq> None"
    and "reloc_prepare_one_ctx_status pac (Some ctx) spec diag s = Some ((res, prepared, diag1), s1)"
  shows "ok s1 \<and> (res = HK_PREPARE_OK \<longleftrightarrow> prepared \<noteq> None) \<and> (case prepared of
      None \<Rightarrow> live s1 = live s
    | Some plan \<Rightarrow> (\<exists>r. r \<notin> live s \<and> live s1 = insert r (live s)) \<and>
        (\<forall>s2. ok s2 \<longrightarrow> live s2 = live s1 \<longrightarrow>
           live (reloc_release_prepared (Some ctx) prepared s2) = live s \<and>
           (\<forall>sink m prepared2 sink1 s3. reloc_commit_one_ctx pac (Some ctx) prepared sink s2 = Some (m, prepared2, sink1, s3) \<longrightarrow>
              (m = HK_MUTATION_NONE \<longrightarrow> live s3 = live s) \<and> (m = HK_MUTATION_COMPLETE \<longrightarrow> live s3 = live s1) \<and>
              reloc_release_prepared (Some ctx) prepared2 s3 = s3)))"
proof (cases prepared)
  case None
  then show ?thesis using adapter_prepare [OF assms] by simp
next
  case (Some plan)
  have h: "holds_page s s1 plan" "res = HK_PREPARE_OK" using adapter_prepare [OF assms] Some by simp_all
  have rel: "live (reloc_release_prepared (Some ctx) (Some plan) s2) = live s" if "ok s2" "live s2 = live s1" for s2
    using h that by (simp add: reloc_release_prepared_def holds_page_def assms(2))
  have com: "(m = HK_MUTATION_NONE \<longrightarrow> live s3 = live s) \<and> (m = HK_MUTATION_COMPLETE \<longrightarrow> live s3 = live s1) \<and>
      reloc_release_prepared (Some ctx) prepared2 s3 = s3"
    if "ok s2" "live s2 = live s1" "reloc_commit_one_ctx pac (Some ctx) (Some plan) sink s2 = Some (m, prepared2, sink1, s3)"
    for s2 sink m prepared2 sink1 s3
    using adapter_commit [OF h(1) assms(2,3) that] by blast
  have "ok s1" "\<exists>r. r \<notin> live s \<and> live s1 = insert r (live s)" using h by (simp_all add: holds_page_def)
  then show ?thesis using h(2) rel com unfolding Some option.case by blast
qed

end

section \<open>Properties\<close>

text \<open>C9. A memory patch, from preparation to verification. Whatever happens between, a commit does nothing and
  records nothing, or says that it may have done part, or is complete: then the region still held what the
  preparation read, which agrees with what the caller expected under the mask; it now holds exactly the
  replacement and nothing else changed; reading it back verifies, and storing the original bytes again takes
  the patch back without a trace.\<close>

theorem memory_patch_installs:
  assumes "memory_prepare_one_ctx_status (Some ctx) spec diag s = Some ((HK_PREPARE_OK, Some p, diag1), s1)"
    and "mx_write ctx = Some (hk_platform_write_memory strip)" "strip (pp_address p) = pp_address p"
    and "memory_commit_one_ctx (Some ctx) spec (Some p) sink s2 = Some (m, sink1, s3)"
  shows "m = HK_MUTATION_PARTIAL \<or> m = HK_MUTATION_UNKNOWN \<or> m = HK_MUTATION_NONE \<and> vm_view s3 = vm_view s2 \<and> sink1 = sink \<or>
    m = HK_MUTATION_COMPLETE \<and> (\<exists>mem data orig. hs_target spec = Target_Memory mem \<and> bv_data (mem_replacement_bytes mem) = Some data \<and>
      (let a = resolve_address ctx mem; n = unat (mem_size mem)
       in n \<le> length data \<and> rd_bytes (vm_view s) a 0 n = Some orig \<and> rd_bytes (vm_view s2) a 0 n = Some orig \<and>
          (\<forall>e. bv_data (mem_expected_bytes mem) = Some e \<longrightarrow> agree_under (bv_data (mem_expected_mask mem)) orig e) \<and>
          vm_view s3 = patched (vm_view s2) a (take n data) \<and> patched (vm_view s3) a orig = vm_view s2 \<and>
          memory_verify_one_ctx (vm_view s3) spec (Some p) vd = Some (HK_VERIFY_OK, vd)))"
proof -
  obtain mem q where t: "hs_target spec = Target_Memory mem" "Some p = Some q" "pp_address q = resolve_address ctx mem"
      "hk_mempatch_prepare (vm_view s) (pp_address q) (unat (mem_size mem)) (mem_expected_bytes mem) (mem_expected_mask mem)
        zero_mempatch_plan = Some (HK_MEMPATCH_OK, pp_plan q)"
    by (rule memory_preparedD [OF assms(1)])
  have pq: "q = p" using t(2) by simp
  define a n orig where "a = resolve_address ctx mem" and "n = unat (mem_size mem)" and "orig = take n (mpp_original (pp_plan p))"
  note pr = mempatch_prepare_ok [OF t(4) [unfolded pq t(3) [unfolded pq], folded a_def n_def]]
  have a: "pp_address p = a" using t(3) by (simp add: pq a_def)
  have cm: "hk_mempatch_commit a (pp_plan p) (mem_replacement_bytes mem) (Some (hk_platform_write_memory strip)) sink s2 = Some (m, sink1, s3)"
    using assms(2,4) a by (simp add: memory_commit_one_ctx_def t(1))
  have "strip a = a" "mpp_size (pp_plan p) \<le> 256" using assms(3) a pr(3,4) by simp_all
  from native_patch.mempatch_commit_law [OF cm this(1) TrueI this(2), unfolded pr(4), folded orig_def] consider
    (other) "m = HK_MUTATION_PARTIAL \<or> m = HK_MUTATION_UNKNOWN \<or> m = HK_MUTATION_NONE \<and> vm_view s3 = vm_view s2 \<and> sink1 = sink" |
    (complete) data where "m = HK_MUTATION_COMPLETE" "rd_bytes (vm_view s2) a 0 n = Some orig" "bv_data (mem_replacement_bytes mem) = Some data"
      "n \<le> length data" "vm_view s3 = patched (vm_view s2) a (take n data)"
    by blast
  then show ?thesis
  proof cases
    case complete
    have l: "length (take n data) = n" using complete(4) by simp
    have "rd_bytes (vm_view s3) a 0 (length (take n data)) = Some (take n data)"
      unfolding complete(5) l by (rule patched_read [OF complete(2) l pr(3)])
    then have "memory_verify_one_ctx (vm_view s3) spec (Some p) vd = Some (HK_VERIFY_OK, vd)"
      using complete(3,4) readback_same by (simp add: memory_verify_one_ctx_def t(1) a pr(4))
    moreover have "patched (vm_view s3) a orig = vm_view s2"
      unfolding complete(5) by (rule patched_back [OF complete(2) l pr(3)])
    ultimately have "n \<le> length data \<and> rd_bytes (vm_view s) a 0 n = Some orig \<and> rd_bytes (vm_view s2) a 0 n = Some orig \<and>
        (\<forall>e. bv_data (mem_expected_bytes mem) = Some e \<longrightarrow> agree_under (bv_data (mem_expected_mask mem)) orig e) \<and>
        vm_view s3 = patched (vm_view s2) a (take n data) \<and> patched (vm_view s3) a orig = vm_view s2 \<and>
        memory_verify_one_ctx (vm_view s3) spec (Some p) vd = Some (HK_VERIFY_OK, vd)"
      using complete(2,4,5) pr(6,7) by (simp add: orig_def)
    then show ?thesis using complete(1,3) t(1) unfolding a_def n_def Let_def by blast
  qed blast
qed

text \<open>C8. A terminal inline hook, from preparation to verification. A commit does nothing and records nothing, or says
  that it may have done part, or is complete: then the entry lies in an image the request names, it still
  held what the preparation read, and the patch is a single store unless the context allows more. A run of
  the entry arrives at the replacement with nothing changed but X16 or X17; outside the window memory is as
  it was; the readback verifies.\<close>

theorem inline_hook_installs:
  assumes "inline_prepare_one_ctx_status pac (Some ctx) spec diag s = Some ((HK_PREPARE_OK, Some plan, diag1), s1)"
    and "nx_write ctx = Some (hk_platform_write_memory strip)" "strip (ipl_address plan) = ipl_address plan"
    and "inline_commit_one_ctx (Some ctx) (Some plan) sink s2 = Some (m, sink1, s3)"
    and "take_bit 2 (hk_pac_strip_code pac (hs_replacement spec)) = 0"
  shows "m = HK_MUTATION_PARTIAL \<or> m = HK_MUTATION_UNKNOWN \<or> m = HK_MUTATION_NONE \<and> vm_view s3 = vm_view s2 \<and> sink1 = sink \<or>
    m = HK_MUTATION_COMPLETE \<and> hs_original_requirement spec = HK_ORIGINAL_NONE \<and>
    (\<exists>addr orig. hs_target spec = Target_Address addr \<and> (let a = entry_address pac addr; n = ipl_size plan in
       (\<forall>cat. nx_catalog ctx = Some cat \<longrightarrow> ic_entries cat \<noteq> [] \<longrightarrow> (\<exists>e \<in> named_entries cat (addr_expected_image addr).
          right_build (addr_expected_uuid_present addr) (addr_expected_uuid addr) e \<and> span_holds (vm_view s) a e)) \<and>
       (nx_allow_non_atomic_entry_patch ctx \<or> n = 4) \<and>
       rd_bytes (vm_view s) a 0 n = Some orig \<and> rd_bytes (vm_view s2) a 0 n = Some orig \<and>
       (\<forall>x. n \<le> unat (x - a) \<longrightarrow> vm_view s3 x = vm_view s2 x) \<and>
       (\<forall>other c. cmem c = vm_view s3 \<longrightarrow>
          (\<exists>k > 0. \<exists>c2. a64_run other k (a, c) = Some (hk_pac_strip_code pac (hs_replacement spec), c2) \<and> eq_scratch c c2)) \<and>
       inline_verify_one_ctx (vm_view s3) (Some plan) vd = Some (HK_VERIFY_OK, vd)))"
proof -
  obtain addr q where t: "hs_target spec = Target_Address addr" "Some plan = Some q"
      "nx_allow_non_atomic_entry_patch ctx \<or> ipl_size q = 4"
      "entry_scope pac (vm_view s) (nx_catalog ctx) addr \<in> {Some HK_IMAGE_SCOPE_OK, Some HK_IMAGE_SCOPE_NO_CATALOG}"
      "hk_inline_prepare (vm_view s) (entry_address pac addr) (hk_pac_strip_code pac (hs_replacement spec)) (hs_original_requirement spec)
        (addr_expected_initial_bytes addr) zero_inline_plan = Some (HK_INLINE_OK, q)"
    by (rule inline_preparedD [OF assms(1)])
  have q: "q = plan" using t(2) by simp
  define a n dest where "a = entry_address pac addr" and "n = ipl_size plan" and "dest = hk_pac_strip_code pac (hs_replacement spec)"
  define orig where "orig = take n (ipl_original plan)"
  note pr = inline_prepare_ok [OF t(5) [unfolded q, folded a_def dest_def]]
  have r: "ipl_address plan = a" "rd_bytes (vm_view s) a 0 n = Some orig" "n \<le> 16" "length (ipl_patch plan) = 16"
    using pr(1) branch_size_cases [of a dest] by (auto simp: inline_ready_def n_def orig_def)
  have cm: "hk_inline_commit plan (Some (hk_platform_write_memory strip)) sink s2 = Some (m, sink1, s3)"
    using assms(2,4) by (simp add: inline_commit_one_ctx_def)
  from native_patch.inline_commit_law [OF cm assms(3) TrueI r(3) [unfolded n_def], folded n_def, folded orig_def, unfolded r(1)] consider
    (other) "m = HK_MUTATION_PARTIAL \<or> m = HK_MUTATION_UNKNOWN \<or> m = HK_MUTATION_NONE \<and> vm_view s3 = vm_view s2 \<and> sink1 = sink" |
    (complete) "m = HK_MUTATION_COMPLETE" "rd_bytes (vm_view s2) a 0 n = Some orig" "vm_view s3 = patched (vm_view s2) a (take n (ipl_patch plan))"
    by blast
  then show ?thesis
  proof cases
    case complete
    have l: "length (take n (ipl_patch plan)) = n" using r(3,4) by simp
    have "rd_bytes (vm_view s3) a 0 (length (take n (ipl_patch plan))) = Some (take n (ipl_patch plan))"
      unfolding complete(3) l using r(3) by (intro patched_read [OF complete(2) l]) simp
    then have v: "inline_verify_one_ctx (vm_view s3) (Some plan) vd = Some (HK_VERIFY_OK, vd)"
      using readback_same by (simp add: inline_verify_one_ctx_def r(1) n_def [symmetric])
    have d: "rd_bytes (vm_view s2) a 0 (ipl_size plan) \<noteq> None" using complete(2) by (simp add: n_def)
    note arm = inline_armed [OF pr(1) d complete(3) [unfolded n_def] assms(5) [folded dest_def]]
    have sp: "\<exists>e \<in> named_entries cat (addr_expected_image addr).
        right_build (addr_expected_uuid_present addr) (addr_expected_uuid addr) e \<and> span_holds (vm_view s) a e"
      if "nx_catalog ctx = Some cat" "ic_entries cat \<noteq> []" for cat
      unfolding a_def by (rule entry_scope_span [OF t(4) [unfolded that(1)] that(2)])
    have run: "\<forall>other c. cmem c = vm_view s3 \<longrightarrow>
        (\<exists>k > 0. \<exists>c2. a64_run other k (a, c) = Some (dest, c2) \<and> eq_scratch c c2)" using arm(1) by blast
    have "(\<forall>cat. nx_catalog ctx = Some cat \<longrightarrow> ic_entries cat \<noteq> [] \<longrightarrow> (\<exists>e \<in> named_entries cat (addr_expected_image addr).
          right_build (addr_expected_uuid_present addr) (addr_expected_uuid addr) e \<and> span_holds (vm_view s) a e)) \<and>
        (nx_allow_non_atomic_entry_patch ctx \<or> n = 4) \<and> rd_bytes (vm_view s) a 0 n = Some orig \<and> rd_bytes (vm_view s2) a 0 n = Some orig \<and>
        (\<forall>x. n \<le> unat (x - a) \<longrightarrow> vm_view s3 x = vm_view s2 x) \<and>
        (\<forall>other c. cmem c = vm_view s3 \<longrightarrow> (\<exists>k > 0. \<exists>c2. a64_run other k (a, c) = Some (dest, c2) \<and> eq_scratch c c2)) \<and>
        inline_verify_one_ctx (vm_view s3) (Some plan) vd = Some (HK_VERIFY_OK, vd)"
      using complete(2) t(3) [unfolded q] sp r(2) run v arm(2) by (simp add: n_def)
    then show ?thesis using complete(1) pr(2) t(1) unfolding a_def n_def dest_def Let_def by blast
  qed blast
qed

text \<open>C30. The relocating adapter holds a page exactly as long as it has a use for it. A preparation that refuses, for
  the entry patch not being a single store too, leaves the mapped pages and used slots as they were; one
  that succeeds takes one page more. Releasing the plan without a commit gives that page back. A commit
  that did nothing has given it back, a complete one keeps it, and no release after a commit frees anything.\<close>

theorem reloc_adapter_no_leak:
  fixes s :: "'s hk_vm_scheme"
  assumes "platform_ok base s" "lx_seams ctx = platform_seams \<or> lx_seams ctx = static_seams"
    and "reloc_prepare_one_ctx_status pac (Some ctx) spec diag s = Some ((res, prepared, diag1), s1)"
  shows "platform_ok base s1 \<and> (res = HK_PREPARE_OK \<longleftrightarrow> prepared \<noteq> None) \<and> (case prepared of
      None \<Rightarrow> platform_live s1 = platform_live s
    | Some plan \<Rightarrow> (\<exists>r. r \<notin> platform_live s \<and> platform_live s1 = insert r (platform_live s)) \<and>
        (\<forall>(s2 :: 's hk_vm_scheme). platform_ok base s2 \<longrightarrow> platform_live s2 = platform_live s1 \<longrightarrow>
           platform_live (reloc_release_prepared (Some ctx) prepared s2) = platform_live s \<and>
           (\<forall>sink m prepared2 sink1 s3. reloc_commit_one_ctx pac (Some ctx) prepared sink s2 = Some (m, prepared2, sink1, s3) \<longrightarrow>
              (m = HK_MUTATION_NONE \<longrightarrow> platform_live s3 = platform_live s) \<and>
              (m = HK_MUTATION_COMPLETE \<longrightarrow> platform_live s3 = platform_live s1) \<and>
              reloc_release_prepared (Some ctx) prepared2 s3 = s3)))"
  using assms(2)
proof
  assume l: "lx_seams ctx = platform_seams"
  have f: "rs_free platform_seams \<noteq> None" by (simp add: platform_seams_def)
  show ?thesis by (rule page_source.adapter_no_leak [OF assms(1) l f assms(3)])
next
  assume l: "lx_seams ctx = static_seams"
  have f: "rs_free static_seams \<noteq> None" by (simp add: static_seams_def)
  show ?thesis by (rule static_source.adapter_no_leak [OF assms(1) l f assms(3)])
qed

end
