(* ===== verification/HK_PatchVtables_Sample.thy ===== *)
theory HK_PatchVtables_Sample
  imports HK_PatchVtables_Props HK_Plan_Wf
begin

text \<open>
  The adapters on concrete processes: four bytes of a page patched under a mask, and the function at \<open>0x140000\<close> of
  \<open>reloc_vm\<close> hooked by the terminal engine and by the relocating one.
\<close>

section \<open>A memory patch\<close>

definition view_of :: "byte list \<Rightarrow> hk_bytes_view" where
  "view_of bs = \<lparr>bv_data = Some bs, bv_size = length bs\<rparr>"

definition no_view :: hk_bytes_view where
  "no_view = \<lparr>bv_data = None, bv_size = 0\<rparr>"

definition sample_patch_target :: hk_memory_target where
  "sample_patch_target = \<lparr>mem_address = 0x4010, mem_address_is_image_relative = False, mem_base_image = zero_selector,
     mem_replacement_bytes = view_of [1, 2, 3, 4], mem_expected_bytes = view_of [0, 0, 9, 0], mem_expected_mask = view_of [0xff, 0xff, 0, 0xff],
     mem_size = 4, mem_kind = HK_MEMORY_KIND_DATA\<rparr>"

definition sample_memory_spec :: hk_hook_spec where
  "sample_memory_spec = sample_spec ''patch'' (Target_Memory sample_patch_target)"

definition sample_memory_ctx :: "unit hk_memory_engine_ctx" where
  "sample_memory_ctx = \<lparr>mx_image_base = 0, mx_write = Some (hk_platform_write_memory id), mx_catalog = None\<rparr>"

definition sample_prepared_patch :: prepared_patch where
  "sample_prepared_patch = \<lparr>pp_plan = \<lparr>mpp_original = replicate 256 0, mpp_size = 4, mpp_captured = True\<rparr>, pp_address = 0x4010\<rparr>"

lemma sample_no_alloc: "sys_alloc sample_vm = (True, sample_vm)" "sys_alloc reloc_vm = (True, reloc_vm)"
  by (simp_all add: sys_alloc_def sample_vm_def reloc_vm_def)

lemma sample_region_bytes: "rd_bytes (vm_view sample_vm) 0x4010 0 4 = Some [0, 0, 0, 0]"
proof -
  have "vm_view sample_vm (0x4010 + of_nat k) = Some 0" if "k < 4" for k
    using that by (auto simp: less_Suc_eq numeral_eq_Suc vm_view_def sample_vm_def page_of_def PAGE_def VM_PROT_READ_def)
  then show ?thesis unfolding rd_bytes_iff by (auto simp: less_Suc_eq numeral_eq_Suc)
qed

lemma sample_memory_prepare:
  "memory_prepare_one_ctx_status (Some sample_memory_ctx) sample_memory_spec zero_prepare_diag sample_vm =
     Some ((HK_PREPARE_OK, Some sample_prepared_patch, zero_prepare_diag), sample_vm)"
proof -
  have m: "masked_equal [0, 0, 0, 0] [0, 0, 9, 0] (Some [0xff, 0xff, 0, 0xff]) = Some True" by simp
  have u: "unat (4 :: u64) = 4" by simp
  have buf: "[0, 0, 0, 0] @ replicate (HK_MEMPATCH_MAX - 4) 0 = (replicate 256 0 :: byte list)"
    by (simp add: HK_MEMPATCH_MAX_def replicate_add [of 4 252 "0 :: byte", symmetric] numeral_eq_Suc)
  have "hk_mempatch_prepare (vm_view sample_vm) 0x4010 4 (view_of [0, 0, 9, 0]) (view_of [0xff, 0xff, 0, 0xff]) zero_mempatch_plan =
      Some (HK_MEMPATCH_OK, \<lparr>mpp_original = replicate 256 0, mpp_size = 4, mpp_captured = True\<rparr>)"
    using m buf by (simp add: hk_mempatch_prepare_def sample_region_bytes view_of_def HK_MEMPATCH_MAX_def del: masked_equal.simps)
  then show ?thesis
    by (simp add: memory_prepare_one_ctx_status_def sample_memory_spec_def sample_spec_def sample_patch_target_def resolve_address_def
        sample_memory_ctx_def scope_refuses_def sample_no_alloc memory_classify_def sample_prepared_patch_def u)
qed

lemma sample_memory_commit:
  obtains s3 where "memory_commit_one_ctx (Some sample_memory_ctx) sample_memory_spec (Some sample_prepared_patch) None sample_vm =
    Some (HK_MUTATION_COMPLETE, None, s3)"
proof -
  obtain s3 where "hk_platform_write_memory id 0x4010 [1, 2, 3, 4] sample_vm = (HK_MUTATION_COMPLETE, s3)"
    using sample_patch by (metis hk_platform_write_memory_def prod.collapse)
  moreover have "take 4 (replicate 256 0) = ([0, 0, 0, 0] :: byte list)"
    unfolding take_replicate by (simp add: numeral_eq_Suc)
  ultimately show ?thesis
    using that [of s3]
    by (simp add: memory_commit_one_ctx_def sample_memory_spec_def sample_spec_def sample_patch_target_def sample_prepared_patch_def
        sample_memory_ctx_def hk_mempatch_commit_def view_of_def sample_region_bytes put_and_record_def record_one_def settled_mutation_def)
qed

theorem memory_patch_installs_witness:
  "\<exists>s3. memory_commit_one_ctx (Some sample_memory_ctx) sample_memory_spec (Some sample_prepared_patch) None sample_vm =
      Some (HK_MUTATION_COMPLETE, None, s3) \<and>
    vm_view s3 = patched (vm_view sample_vm) 0x4010 [1, 2, 3, 4] \<and> patched (vm_view s3) 0x4010 [0, 0, 0, 0] = vm_view sample_vm"
proof -
  obtain s3 where c: "memory_commit_one_ctx (Some sample_memory_ctx) sample_memory_spec (Some sample_prepared_patch) None sample_vm =
      Some (HK_MUTATION_COMPLETE, None, s3)" by (rule sample_memory_commit)
  have w: "mx_write sample_memory_ctx = Some (hk_platform_write_memory id)" by (simp add: sample_memory_ctx_def)
  have i: "id (pp_address sample_prepared_patch) = pp_address sample_prepared_patch" by simp
  have s: "hs_target sample_memory_spec = Target_Memory sample_patch_target" "resolve_address sample_memory_ctx sample_patch_target = 0x4010"
      "unat (mem_size sample_patch_target) = 4" "bv_data (mem_replacement_bytes sample_patch_target) = Some [1, 2, 3, 4]"
    by (simp_all add: sample_memory_spec_def sample_spec_def sample_patch_target_def resolve_address_def view_of_def)
  from memory_patch_installs [OF sample_memory_prepare w i c] obtain mem data orig where
    o: "hs_target sample_memory_spec = Target_Memory mem" "bv_data (mem_replacement_bytes mem) = Some data"
      "rd_bytes (vm_view sample_vm) (resolve_address sample_memory_ctx mem) 0 (unat (mem_size mem)) = Some orig"
      "vm_view s3 = patched (vm_view sample_vm) (resolve_address sample_memory_ctx mem) (take (unat (mem_size mem)) data)"
      "patched (vm_view s3) (resolve_address sample_memory_ctx mem) orig = vm_view sample_vm"
    unfolding Let_def by blast
  have "mem = sample_patch_target" using o(1) s(1) by simp
  with o s have "rd_bytes (vm_view sample_vm) 0x4010 0 4 = Some orig" "vm_view s3 = patched (vm_view sample_vm) 0x4010 (take 4 [1, 2, 3, 4])"
    "patched (vm_view s3) 0x4010 orig = vm_view sample_vm" by simp_all
  then have "vm_view s3 = patched (vm_view sample_vm) 0x4010 [1, 2, 3, 4] \<and> patched (vm_view s3) 0x4010 [0, 0, 0, 0] = vm_view sample_vm"
    using sample_region_bytes by simp
  then show ?thesis using c by blast
qed

section \<open>The inline hooks\<close>

definition sample_entry_target :: hk_address_target where
  "sample_entry_target = \<lparr>addr_address = 0x140000, addr_expected_image = zero_selector, addr_expected_uuid_present = False,
     addr_expected_uuid = replicate 16 0, addr_expected_initial_bytes = no_view, addr_may_strip_pac_or_thumb_state = True\<rparr>"

definition sample_address_spec :: hk_hook_spec where
  "sample_address_spec = (sample_spec ''inline'' (Target_Address sample_entry_target))\<lparr>hs_replacement := 0x200000\<rparr>"

definition sample_inline_ctx :: "unit hk_inline_engine_ctx" where
  "sample_inline_ctx = \<lparr>nx_write = Some (hk_platform_write_memory id), nx_catalog = None, nx_allow_non_atomic_entry_patch = False\<rparr>"

definition sample_inline_plan :: hk_inline_plan where
  "sample_inline_plan = \<lparr>ipl_address = 0x140000, ipl_original = buf16 [0x80, 0, 0, 0x10],
     ipl_patch = buf16 (bytes_of [0x14030000]), ipl_size = 4, ipl_captured = True\<rparr>"

lemma sample_address_spec_fields:
  "hs_target sample_address_spec = Target_Address sample_entry_target" "hs_replacement sample_address_spec = 0x200000"
  "hs_original_requirement sample_address_spec = HK_ORIGINAL_NONE" "addr_expected_initial_bytes sample_entry_target = no_view"
  by (simp_all add: sample_address_spec_def sample_spec_def sample_entry_target_def)

lemma sample_inline_ctx_fields:
  "nx_write sample_inline_ctx = Some (hk_platform_write_memory id)" "nx_catalog sample_inline_ctx = None"
  by (simp_all add: sample_inline_ctx_def)

lemma sample_inline_plan_fields:
  "ipl_address sample_inline_plan = 0x140000" "ipl_size sample_inline_plan = 4" "ipl_captured sample_inline_plan"
  "take 4 (ipl_original sample_inline_plan) = [0x80, 0, 0, 0x10]" "length (take 4 (ipl_patch sample_inline_plan)) = 4"
  by (simp_all add: sample_inline_plan_def take_buf16 bytes_of_length buf16_def)

lemma plain_strip: "hk_pac_strip_code plain_pac v = v"
  by (simp add: hk_pac_strip_code_def plain_pac_def)

lemma sample_entry: "entry_address plain_pac sample_entry_target = 0x140000"
  by (simp add: entry_address_def sample_entry_target_def plain_strip)

lemma sample_entry_scope: "entry_scope plain_pac m None sample_entry_target = Some HK_IMAGE_SCOPE_NO_CATALOG"
  by (simp add: entry_scope_def hk_image_scope_check_def hk_image_catalog_count_def sample_entry_target_def)

lemma sample_entry_bytes: "rd_bytes (vm_view reloc_vm) 0x140000 0 4 = Some [0x80, 0, 0, 0x10]"
proof -
  have "vm_view reloc_vm 0x140000 = Some 0x80" "vm_view reloc_vm 0x140001 = Some 0" "vm_view reloc_vm 0x140002 = Some 0"
    "vm_view reloc_vm 0x140003 = Some 0x10"
    by (simp_all add: vm_view_def reloc_vm_def page_of_def PAGE_def put_bytes_def VM_PROT_READ_def Let_def)
  then show ?thesis by (simp add: numeral_eq_Suc rd8_def)
qed

lemma sample_inline_prepare:
  "inline_prepare_one_ctx_status plain_pac (Some sample_inline_ctx) sample_address_spec zero_prepare_diag reloc_vm =
     Some ((HK_PREPARE_OK, Some sample_inline_plan, zero_prepare_diag), reloc_vm)"
proof -
  have br: "hk_arm64_branch_size 0x140000 0x200000 = 4" "hk_arm64_emit_branch 0x140000 0x200000 = [0x14030000]" by code_simp+
  have w: "words_of [0x80, 0, 0, 0x10] = [0x10000080]" by simp
  have tr: "\<not> hk_arm64_insn_is_trap 0x10000080" by code_simp
  have "hk_inline_prepare (vm_view reloc_vm) 0x140000 0x200000 HK_ORIGINAL_NONE no_view zero_inline_plan =
      Some (HK_INLINE_OK, sample_inline_plan)"
    using tr by (simp add: hk_inline_prepare_def br sample_entry_bytes w no_view_def pinned_differ_def Let_def HK_INLINE_MAX_PATCH_def
        HK_A64_MAX_BRANCH_BYTES_def bytes_of_length zero_inline_plan_def sample_inline_plan_def del: words_of.simps)
  then show ?thesis
    by (simp add: inline_prepare_one_ctx_status_def sample_address_spec_fields sample_inline_ctx_fields sample_entry sample_entry_scope
        scope_refuses_def sample_no_alloc plain_strip inline_classify_def sample_inline_plan_fields)
qed

lemma sample_inline_commit:
  obtains s3 where "inline_commit_one_ctx (Some sample_inline_ctx) (Some sample_inline_plan) None reloc_vm = Some (HK_MUTATION_COMPLETE, None, s3)"
proof -
  have "vm_calls reloc_vm = []" "vm_prot reloc_vm 0x140000 = Some 5" by (simp_all add: reloc_vm_def)
  then have "fst (hk_platform_write_memory id 0x140000 (take 4 (ipl_patch sample_inline_plan)) reloc_vm) = HK_MUTATION_COMPLETE"
    by (intro sample_write) (simp_all only: sample_inline_plan_fields refl)
  then obtain s3 where "hk_platform_write_memory id 0x140000 (take 4 (ipl_patch sample_inline_plan)) reloc_vm = (HK_MUTATION_COMPLETE, s3)"
    by (metis prod.collapse)
  then show ?thesis
    using that [of s3]
    by (simp add: inline_commit_one_ctx_def sample_inline_ctx_fields hk_inline_commit_def sample_inline_plan_fields HK_INLINE_MAX_PATCH_def
        HK_A64_MAX_BRANCH_BYTES_def sample_entry_bytes put_and_record_def record_one_def settled_mutation_def)
qed

theorem inline_hook_installs_witness:
  "\<exists>s3. inline_commit_one_ctx (Some sample_inline_ctx) (Some sample_inline_plan) None reloc_vm = Some (HK_MUTATION_COMPLETE, None, s3) \<and>
    (\<exists>k > 0. \<exists>c2. a64_run (\<lambda>_ _. None) k (0x140000, far_cpu\<lparr>cmem := vm_view s3\<rparr>) = Some (0x200000, c2))"
proof -
  obtain s3 where c: "inline_commit_one_ctx (Some sample_inline_ctx) (Some sample_inline_plan) None reloc_vm =
      Some (HK_MUTATION_COMPLETE, None, s3)" by (rule sample_inline_commit)
  have i: "id (ipl_address sample_inline_plan) = ipl_address sample_inline_plan" by simp
  have al: "take_bit 2 (hk_pac_strip_code plain_pac (hs_replacement sample_address_spec)) = 0"
    by (simp add: plain_strip sample_address_spec_fields)
  from inline_hook_installs [OF sample_inline_prepare sample_inline_ctx_fields(1) i c al] obtain addr where
    o: "hs_target sample_address_spec = Target_Address addr"
      "\<forall>other c. cmem c = vm_view s3 \<longrightarrow> (\<exists>k > 0. \<exists>c2. a64_run other k (entry_address plain_pac addr, c) =
         Some (hk_pac_strip_code plain_pac (hs_replacement sample_address_spec), c2) \<and> eq_scratch c c2)"
    unfolding Let_def by blast
  have addr: "addr = sample_entry_target" using o(1) by (simp add: sample_address_spec_fields)
  have "cmem (far_cpu\<lparr>cmem := vm_view s3\<rparr>) = vm_view s3" by simp
  from o(2) [rule_format, OF this, of "\<lambda>_ _. None"]
  have "\<exists>k > 0. \<exists>c2. a64_run (\<lambda>_ _. None) k (0x140000, far_cpu\<lparr>cmem := vm_view s3\<rparr>) = Some (0x200000, c2)"
    by (auto simp: addr sample_entry plain_strip sample_address_spec_fields)
  then show ?thesis using c by blast
qed

text \<open>The bytes the caller pins are compared only as far as the patch reaches: of these sixteen the last twelve are not
  what stands there, and the hook is accepted.\<close>

lemma pinned_bytes_behind_window:
  "hk_inline_prepare (vm_view reloc_vm) 0x140000 0x200000 HK_ORIGINAL_NONE (view_of ([0x80, 0, 0, 0x10] @ replicate 12 1)) zero_inline_plan =
     Some (HK_INLINE_OK, sample_inline_plan) \<and> vm_view reloc_vm 0x140004 = Some 0"
proof
  have br: "hk_arm64_branch_size 0x140000 0x200000 = 4" "hk_arm64_emit_branch 0x140000 0x200000 = [0x14030000]" by code_simp+
  have w: "words_of [0x80, 0, 0, 0x10] = [0x10000080]" by simp
  have tr: "\<not> hk_arm64_insn_is_trap 0x10000080" by code_simp
  have pd: "pinned_differ [0x80, 0, 0, 0x10] (view_of ([0x80, 0, 0, 0x10] @ replicate 12 1)) = Some False"
    by (simp add: pinned_differ_def view_of_def)
  have v: "bv_data (view_of ([0x80, 0, 0, 0x10] @ replicate 12 1)) \<noteq> None" "bv_size (view_of ([0x80, 0, 0, 0x10] @ replicate 12 1)) = 16"
    by (simp_all add: view_of_def)
  show "hk_inline_prepare (vm_view reloc_vm) 0x140000 0x200000 HK_ORIGINAL_NONE (view_of ([0x80, 0, 0, 0x10] @ replicate 12 1)) zero_inline_plan =
      Some (HK_INLINE_OK, sample_inline_plan)"
    unfolding hk_inline_prepare_def br Let_def sample_entry_bytes bind.simps w pd using tr v
    by (simp add: HK_INLINE_MAX_PATCH_def HK_A64_MAX_BRANCH_BYTES_def bytes_of_length zero_inline_plan_def sample_inline_plan_def)
  show "vm_view reloc_vm 0x140004 = Some 0"
    by (simp add: vm_view_def reloc_vm_def page_of_def PAGE_def put_bytes_def VM_PROT_READ_def Let_def)
qed

definition sample_reloc_ctx :: "unit hk_reloc_engine_ctx" where
  "sample_reloc_ctx = \<lparr>lx_seams = platform_seams, lx_catalog = None, lx_allow_non_atomic_entry_patch = True\<rparr>"

lemma sample_reloc_prepare:
  obtains plan diag1 s1 where "reloc_prepare_one_ctx_status plain_pac (Some sample_reloc_ctx) sample_address_spec zero_prepare_diag reloc_vm =
    Some ((HK_PREPARE_OK, Some plan, diag1), s1)"
proof -
  obtain plan s1 where "hk_reloc_prepare platform_seams 0x140000 0x200000 None reloc_vm = Some (Inr plan, s1)"
    using sample_prepare by blast
  moreover have "view_bytes (addr_expected_initial_bytes sample_entry_target) = None"
    by (simp add: sample_address_spec_fields view_bytes_def no_view_def)
  moreover have x: "lx_seams sample_reloc_ctx = platform_seams" "lx_catalog sample_reloc_ctx = None" "lx_allow_non_atomic_entry_patch sample_reloc_ctx"
    by (simp_all add: sample_reloc_ctx_def)
  ultimately have "reloc_prepare_one_ctx_status plain_pac (Some sample_reloc_ctx) sample_address_spec zero_prepare_diag reloc_vm =
      Some (accept_plan sample_reloc_ctx sample_address_spec zero_prepare_diag plan s1)"
    by (simp add: reloc_prepare_one_ctx_status_def sample_address_spec_fields(1,2) sample_entry sample_entry_scope scope_refuses_def
        sample_no_alloc plain_strip)
  then show ?thesis using that x(3) unfolding accept_plan_def by simp
qed

theorem reloc_adapter_no_leak_witness:
  "\<exists>plan diag1 s1. reloc_prepare_one_ctx_status plain_pac (Some sample_reloc_ctx) sample_address_spec zero_prepare_diag reloc_vm =
      Some ((HK_PREPARE_OK, Some plan, diag1), s1) \<and>
    (\<exists>r. r \<notin> platform_live reloc_vm \<and> platform_live s1 = insert r (platform_live reloc_vm)) \<and>
    platform_live (reloc_release_prepared (Some sample_reloc_ctx) (Some plan) s1) = platform_live reloc_vm"
proof -
  obtain plan diag1 s1 where p: "reloc_prepare_one_ctx_status plain_pac (Some sample_reloc_ctx) sample_address_spec zero_prepare_diag reloc_vm =
    Some ((HK_PREPARE_OK, Some plan, diag1), s1)" by (rule sample_reloc_prepare)
  have l: "lx_seams sample_reloc_ctx = platform_seams \<or> lx_seams sample_reloc_ctx = static_seams" by (simp add: sample_reloc_ctx_def)
  from reloc_adapter_no_leak [OF reloc_vm_ok l p, unfolded option.case] have
    "platform_ok 0x100000 s1" "\<exists>r. r \<notin> platform_live reloc_vm \<and> platform_live s1 = insert r (platform_live reloc_vm)"
    "platform_live (reloc_release_prepared (Some sample_reloc_ctx) (Some plan) s1) = platform_live reloc_vm" by blast+
  then show ?thesis using p by blast
qed

end
