(* ===== verification/Spec2Isabelle.thy ===== *)
theory Spec2Isabelle
  imports HK_Prelude HK_StaticPool HK_Types HK_System HK_Ledger HK_Ownership HK_Target_Identity
    HK_Owners HK_Catalog HK_Engine HK_World HK_Plan_Build HK_Plan_Wf HK_Analyze HK_Dispatch
    HK_Prepare HK_Prepare_Moves HK_Prepare_Props HK_Commit_Order HK_Commit HK_Commit_Run
    HK_Commit_Props HK_Commit_State HK_Pending HK_Lifecycle HK_Backend
    HK_Arm64 HK_A64 HK_A64_Correct HK_Native HK_Native_Props
    HK_Seams HK_Page_Source HK_Reloc HK_Reloc_Props HK_Reloc_Run HK_Reloc_Sample
    HK_Answers HK_MachO HK_MachO_Props HK_ImageScope HK_ExportTrie HK_ExportTrie_Props
    HK_SymbolTable HK_SymbolResolve HK_ImportSlots HK_ChainedFixups HK_ChainedFixups_Props HK_ChainedFold
    HK_PointerAuth HK_CachePatches HK_CacheLookup HK_CacheLookup_Props HK_CacheRoutes HK_CacheVisits
    HK_Rebind HK_RebindPrepare HK_Rebind_Props HK_RebindCaches HK_RebindCommit HK_RebindSample HK_RebindVtable HK_RebindHook
    HK_RebindHook_Sample HK_PatchEngines HK_PatchVtables HK_PatchVtables_Props HK_PatchVtables_Sample
begin

text \<open>
  HookKit: a library that redirects functions of a running iOS process.  A client fills a
  \<^emph>\<open>plan\<close> with hooks (a target, a replacement, constraints) and domains (groups of hooks with
  a failure policy), and takes it through analysis, preparation and commit
  (\<^verbatim>\<open>src/core/HKPlan.c\<close>).  \<^emph>\<open>Engines\<close> do the patching; the core sees them through a table of
  callbacks (\<^verbatim>\<open>src/core/HKEngineInternal.h\<close>).  This development models the core as pure
  functions on explicit state and proves what makes it correct.

  Parts, theories, and the code they translate (paths below \<^verbatim>\<open>src/\<close> of the repository):

  \<^item> \<^verbatim>\<open>HK_Prelude\<close>: lemma collections, list, option and word lemmas, little-endian reads of a
    byte memory that answers \<^verbatim>\<open>None\<close> outside the readable bytes.
  \<^item> \<^verbatim>\<open>HK_Types\<close>: the enumerations and structs of \<^verbatim>\<open>include/HookKit\<close> as datatypes and records.
  \<^item> \<^verbatim>\<open>HK_System\<close>: the allocator as a list of outcomes of later calls (a call with no outcome
    left succeeds), growing arrays, and \<^verbatim>\<open>core/HKIDs.c\<close>.
  \<^item> \<^verbatim>\<open>HK_StaticPool\<close>: the executable slot pool, \<^verbatim>\<open>engines/HKStaticPool.c\<close>; its locale
    \<^verbatim>\<open>slot_allocator\<close> states what a client of slots relies on.
  \<^item> \<^verbatim>\<open>HK_Ledger\<close>: artifact ledgers and sinks, \<^verbatim>\<open>core/HKArtifactLedger.c\<close>.
  \<^item> \<^verbatim>\<open>HK_Ownership\<close>, \<^verbatim>\<open>HK_Target_Identity\<close>, \<^verbatim>\<open>HK_Owners\<close>: the canonical target keys of
    \<^verbatim>\<open>core/HKOwnership.c\<close>, what it means that the keys returned for two targets are equal, and the
    ownership records.
  \<^item> \<^verbatim>\<open>HK_Catalog\<close>: \<^verbatim>\<open>core/HKImageCatalog.c\<close>.
  \<^item> \<^verbatim>\<open>HK_Engine\<close>: capabilities, eligibility, effects and the callback table.
  \<^item> \<^verbatim>\<open>HK_World\<close>: plans, hooks, runtime, reports and installed records.
  \<^item> \<^verbatim>\<open>HK_Plan_Build\<close>, \<^verbatim>\<open>HK_Plan_Wf\<close>: creating a plan, domains and hooks, and the plan
    invariant.
  \<^item> \<^verbatim>\<open>HK_Analyze\<close>: \<^verbatim>\<open>hk_plan_analyze\<close> and the search for a route.
  \<^item> \<^verbatim>\<open>HK_Dispatch\<close>, \<^verbatim>\<open>HK_Prepare\<close>, \<^verbatim>\<open>HK_Prepare_Moves\<close>, \<^verbatim>\<open>HK_Prepare_Props\<close>:
    \<^verbatim>\<open>hk_plan_prepare\<close>, the elementary moves it is made of, and what they keep.
  \<^item> \<^verbatim>\<open>HK_Commit_Order\<close>, \<^verbatim>\<open>HK_Commit\<close>, \<^verbatim>\<open>HK_Commit_Run\<close>, \<^verbatim>\<open>HK_Commit_Props\<close>,
    \<^verbatim>\<open>HK_Commit_State\<close>: \<^verbatim>\<open>hk_plan_commit\<close>, its order, its single and grouped steps, and the
    invariants of its loop: what an active hook rests on, and which hooks count as attempted, which
    fixes the state of the plan after the call.
  \<^item> \<^verbatim>\<open>HK_Pending\<close>: releasing a plan, the runtime's queue of deferred hooks and its drain,
    \<^verbatim>\<open>hk_plan_release\<close> and \<^verbatim>\<open>hk_runtime_drain_pending\<close>.  The retries of a drain are an inductive
    relation: a hook stays pending exactly when its engine, asked in the world the earlier retries
    left, answers that the target is still absent.
  \<^item> \<^verbatim>\<open>HK_Lifecycle\<close>: the calls on a plan as a step relation, what holds in every reachable state, and
    what a second commit of a plan does when none of its hooks is prepared.
  \<^item> \<^verbatim>\<open>HK_Backend\<close>: \<^verbatim>\<open>core/HKRuntime.c\<close>: creating a runtime, the engine table, the explicit
    choice of backends, version parsing.
  \<^item> \<^verbatim>\<open>HK_Arm64\<close>: the instruction relocator, \<^verbatim>\<open>native/hk_arm64.c\<close>.  \<^verbatim>\<open>HK_A64\<close> is a semantics of the
    instructions it deals with, read off the encodings' fields; \<^verbatim>\<open>HK_A64_Correct\<close> shows that what
    the relocator writes does what the displaced instructions do.
  \<^item> \<^verbatim>\<open>HK_Native\<close>, \<^verbatim>\<open>HK_Native_Props\<close>: writing the memory of the process and obtaining pages,
    \<^verbatim>\<open>native/hk_native.c\<close>, over an address space; the kernel's outcomes and choices are data.
  \<^item> \<^verbatim>\<open>HK_Seams\<close>: the interface between an engine that patches code and the platform, with its laws,
    as the locale \<^verbatim>\<open>code_seams\<close>.  \<^verbatim>\<open>HK_Page_Source\<close>: the two page sources of
    \<^verbatim>\<open>core/HKRuntime.c\<close>, the static pool with and without pages of the kernel behind it, which
    interpret it.
  \<^item> \<^verbatim>\<open>HK_Reloc\<close>, \<^verbatim>\<open>HK_Reloc_Props\<close>, \<^verbatim>\<open>HK_Reloc_Run\<close>, \<^verbatim>\<open>HK_Reloc_Sample\<close>: the relocating inline engine,
    \<^verbatim>\<open>engines/HKRelocInlineEngine.c\<close>: no page is leaked, the patched entry arrives at the
    replacement, the original stays callable; a concrete process with a hook in it.  \<^verbatim>\<open>HK_Reloc_Run\<close>
    compares a run of the displaced instructions in the memory before the patch with the run of their
    copy in the memory after it: they agree when no instruction reads the overwritten bytes, uses X16 or
    X17 as an input, is a call, or stores into the window or the page.

  \<^item> \<^verbatim>\<open>HK_Answers\<close>: when a parser of untrusted bytes never faults, as introduction rules.
  \<^item> \<^verbatim>\<open>HK_MachO\<close>, \<^verbatim>\<open>HK_MachO_Props\<close>: the Mach-O container parser, \<^verbatim>\<open>resolvers/HKMachO.c\<close>; its reads
    stay inside an image of fewer than 4 GiB, and so do the tables it reports.
  \<^item> \<^verbatim>\<open>HK_ImageScope\<close>: \<^verbatim>\<open>core/HKImageScope.c\<close>, over the catalog and the parser.
  \<^item> \<^verbatim>\<open>HK_ExportTrie\<close>, \<^verbatim>\<open>HK_ExportTrie_Props\<close>: the export trie, \<^verbatim>\<open>resolvers/HKExportTrie.c\<close>; the walk
    is the lookup of the finite map that a laid-out prefix tree stands for.
  \<^item> \<^verbatim>\<open>HK_SymbolTable\<close>, \<^verbatim>\<open>HK_SymbolResolve\<close>: \<^verbatim>\<open>resolvers/HKSymbolTable.c\<close> and
    \<^verbatim>\<open>resolvers/HKSymbolResolve.c\<close>; the search finds the first entry that defines the name, and the
    resolver asks trie and table in the order the visibility demands.
  \<^item> \<^verbatim>\<open>HK_ImportSlots\<close>: \<^verbatim>\<open>resolvers/HKImportSlots.c\<close>; a slot found is one that dyld fills for the name.
  \<^item> \<^verbatim>\<open>HK_ChainedFixups\<close>, \<^verbatim>\<open>HK_ChainedFixups_Props\<close>, \<^verbatim>\<open>HK_ChainedFold\<close>: \<^verbatim>\<open>resolvers/HKChainedFixups.c\<close>;
    the traversal ends and stays in bounds for any bytes, follows a linked chain exactly, and with any visitor is a
    fold of that visitor over the binds it finds.

  \<^item> \<^verbatim>\<open>HK_PointerAuth\<close>: \<^verbatim>\<open>internal/HKPointerAuth.h\<close>.  Signing, stripping and blending are parameters (a record
    of functions) whose laws are the locale \<^verbatim>\<open>pointer_auth\<close>, interpreted on the two implementations the header
    has besides that of the compiler.
  \<^item> \<^verbatim>\<open>HK_CachePatches\<close>, \<^verbatim>\<open>HK_CacheLookup\<close>: \<^verbatim>\<open>resolvers/HKDyldCachePatches.c\<close>, the parsers of the patch table
    of the shared cache and the three routes through it: the plain scan, the index of the whole table kept
    for the process, the matches kept for one preparation.  \<^verbatim>\<open>HK_CacheLookup_Props\<close>, \<^verbatim>\<open>HK_CacheRoutes\<close>: the routes
    agree.  \<^verbatim>\<open>HK_CacheVisits\<close>: what the visitor keeps, the traversal keeps.
  \<^item> \<^verbatim>\<open>HK_RebindVtable\<close>: \<^verbatim>\<open>engines/HKRebindVtable.c\<close>, which hands the engine to the core: one plan, or one per
    image in scope.  \<^verbatim>\<open>HK_RebindHook\<close>, \<^verbatim>\<open>HK_RebindHook_Sample\<close>: a hook from its preparation to its verification.
  \<^item> \<^verbatim>\<open>HK_Rebind\<close>, \<^verbatim>\<open>HK_RebindPrepare\<close>, \<^verbatim>\<open>HK_RebindCommit\<close>: \<^verbatim>\<open>engines/HKRebindEngine.c\<close>, finding the slots of an
    import in a loaded image, with the cache of files and of site lists, and writing them.  \<^verbatim>\<open>HK_Rebind_Props\<close>: a plan
    describes memory.  \<^verbatim>\<open>HK_RebindCaches\<close>: the cache of site lists is transparent.  \<^verbatim>\<open>HK_RebindSample\<close>: a process on
    which a preparation is run.  The writer of the engine is the locale \<^verbatim>\<open>slot_writer\<close>, interpreted on
    \<^verbatim>\<open>hk_native_patch_pointer\<close>.
  \<^item> \<^verbatim>\<open>HK_PatchEngines\<close>: the engines that overwrite memory, \<^verbatim>\<open>engines/HKMemoryEngine.c\<close> and
    \<^verbatim>\<open>engines/HKInlineEngine.c\<close>.  Their writer is the locale \<^verbatim>\<open>patch_writer\<close>, interpreted on
    \<^verbatim>\<open>hk_platform_write_memory\<close>; the seams of the relocating engine give one too.
  \<^item> \<^verbatim>\<open>HK_PatchVtables\<close>: the adapters \<^verbatim>\<open>engines/HKMemoryVtable.c\<close>, \<^verbatim>\<open>engines/HKInlineVtable.c\<close> and
    \<^verbatim>\<open>engines/HKRelocInlineVtable.c\<close>.  \<^verbatim>\<open>HK_PatchVtables_Props\<close>, \<^verbatim>\<open>HK_PatchVtables_Sample\<close>: a patch and a hook
    from preparation to verification, the page of the relocating adapter from its allocation to its release, and
    the three on concrete processes.

  Conventions.  A function of the code that returns a status and writes through a pointer is
  a function to \<^verbatim>\<open>Inl status\<close> or \<^verbatim>\<open>Inr value\<close>, with the changed state beside it.  Guards
  against a NULL receiver are outside the model.  An engine is a record of functions: they are
  parameters, and a theorem about the core holds for every engine.  Locks are not modelled: a
  step of the model is a critical section of the code.  Loops of the code are structural
  recursions or recursions with a measure; no fuel is used in the core.

  What the repository calls but does not hold.  The kernel calls of \<^verbatim>\<open>HK_Native\<close> (\<^verbatim>\<open>vm_protect\<close>,
  \<^verbatim>\<open>vm_region_64\<close>, \<^verbatim>\<open>vm_allocate\<close>, \<^verbatim>\<open>vm_deallocate\<close>, \<^verbatim>\<open>vm_remap\<close>) and the instruction set of \<^verbatim>\<open>HK_A64\<close> are
  specifications of the surroundings and translate no source; whether a kernel call succeeds, and what
  it chooses, is arbitrary in every theorem.  The copy that \<^verbatim>\<open>hk_write_locked\<close> makes of a range it may not
  change in place faults on a page without read permission: \<^verbatim>\<open>hk_write_faults\<close> says when, the writer's
  answers are those of a call that returns, and \<^verbatim>\<open>write_fault_unreadable\<close> shows that a target that can be
  read is safe.  \<^verbatim>\<open>BC.cond\<close> and the branches with pointer authentication are outside the instruction set.

  The rebinding engine takes what a file holds (\<^verbatim>\<open>open\<close>, \<^verbatim>\<open>fstat\<close>, \<^verbatim>\<open>mmap\<close>) and the range of the shared cache as
  parameters; that the bytes of a mapped file say later what they said is a hypothesis of the theorem on its cache,
  the documented behaviour of a private read-only mapping of a file that nobody writes.

  Not modelled, and why.  The mutexes of the caches and the unmapping of their files (the model has no freed memory),
  and the sites an unsuccessful walk of the load commands has already put in a plan that is refused.  Objective-C files (\<^verbatim>\<open>*.m\<close>), the loading of third-party frameworks and the
  start-up of the process are glue around calls of the system.  The 32-bit symbol lookup is calls of
  \<^verbatim>\<open>dlsym\<close> and of third-party libraries.  The remaining resolvers and engines are listed in the manifest
  with their status.
\<close>

end
